(* ===== verification/Rust_Prelude.thy ===== *)
theory Rust_Prelude
  imports Main "HOL-Library.Word" "HOL-Library.Sublist"
begin

text \<open>
  The shared vocabulary of the development: how the pieces of Rust that the sources use
  (panics, byte buffers, machine integers, \<open>str\<close> searching) are read in HOL.

  \<^item> A byte, a \<open>u8\<close>, is a \<open>char\<close>; \<open>&[u8]\<close>, \<open>Vec<u8>\<close>, \<open>Bytes\<close> and the UTF-8
    contents of a \<open>str\<close> are lists of bytes, so \<open>len\<close> counts bytes as Rust does.
  \<^item> \<open>u32\<close> and \<open>u64\<close> counters that wrap are words; lengths and indices (\<open>usize\<close>) of
    values that exist in memory are \<open>nat\<close>.
  \<^item> A call that can panic returns \<open>'a rs\<close>, with \<open>Panic\<close> for the unwinding task.
  \<^item> \<open>Instant\<close> is a \<open>nat\<close> and \<open>DateTime<Utc>\<close> an \<open>int\<close>, both in nanoseconds; the
    clock is read by the caller and passed in.
\<close>

section \<open>Types\<close>

type_synonym u8 = char
type_synonym bytes = "char list"
type_synonym str = "char list"
type_synonym u32 = "32 word"
type_synonym u64 = "64 word"
type_synonym instant = nat
type_synonym datetime = int
type_synonym duration = int

named_theorems rust_simps \<open>unfolding lemmas of the Rust vocabulary\<close>
named_theorems inv_intros \<open>preservation lemmas of the component invariants\<close>

section \<open>Panics\<close>

datatype 'a rs = Panic | Val 'a

fun rs_bind :: "'a rs \<Rightarrow> ('a \<Rightarrow> 'b rs) \<Rightarrow> 'b rs" where
  "rs_bind Panic f = Panic"
| "rs_bind (Val x) f = f x"

fun returns :: "'a rs \<Rightarrow> bool" where
  "returns Panic = False"
| "returns (Val x) = True"

lemma returns_iff: "returns r \<longleftrightarrow> (\<exists>x. r = Val x)"
  by (cases r) auto

lemma rs_bind_Val_iff [simp]: "rs_bind r f = Val y \<longleftrightarrow> (\<exists>x. r = Val x \<and> f x = Val y)"
  by (cases r) auto

lemma rs_bind_Val_right [simp]: "rs_bind r Val = r"
  by (cases r) auto

lemma rs_bind_assoc [simp]: "rs_bind (rs_bind r f) g = rs_bind r (\<lambda>x. rs_bind (f x) g)"
  by (cases r) auto

lemma returns_rs_bind [simp]:
  "returns (rs_bind r f) \<longleftrightarrow> (\<exists>x. r = Val x \<and> returns (f x))"
  by (cases r) auto

text \<open>
  \<open>Vec::with_capacity\<close> for elements of \<open>sz\<close> bytes panics when the request exceeds
  \<open>isize::MAX\<close> bytes; a smaller request is taken to succeed.
\<close>

definition with_capacity :: "nat \<Rightarrow> nat \<Rightarrow> unit rs" where
  "with_capacity sz n = (if sz * n < 2 ^ 63 then Val () else Panic)"

section \<open>Bytes and big-endian integers\<close>

abbreviation byte_val :: "u8 \<Rightarrow> nat" where
  "byte_val \<equiv> of_char"

abbreviation byte_of :: "nat \<Rightarrow> u8" where
  "byte_of \<equiv> char_of"

lemma byte_val_less [simp]: "byte_val b < 256"
  using of_char_of [of "byte_val b"] by (metis char_of_char mod_less_divisor zero_less_numeral)

text \<open>\<open>to_be_bytes\<close> and \<open>from_be_bytes\<close> for an unsigned integer of \<open>k\<close> bytes.\<close>

fun to_be :: "nat \<Rightarrow> nat \<Rightarrow> bytes" where
  "to_be 0 n = []"
| "to_be (Suc k) n = to_be k (n div 256) @ [byte_of n]"

fun of_be_acc :: "nat \<Rightarrow> bytes \<Rightarrow> nat" where
  "of_be_acc a [] = a"
| "of_be_acc a (b # bs) = of_be_acc (256 * a + byte_val b) bs"

definition of_be :: "bytes \<Rightarrow> nat" where
  "of_be bs = of_be_acc 0 bs"

definition of_le :: "bytes \<Rightarrow> nat" where
  "of_le bs = of_be (rev bs)"

lemma length_to_be [simp]: "length (to_be k n) = k"
  by (induction k arbitrary: n) auto

lemma of_be_acc_append: "of_be_acc a (xs @ ys) = of_be_acc (of_be_acc a xs) ys"
  by (induction xs arbitrary: a) auto

lemma of_be_snoc [simp]: "of_be (xs @ [b]) = 256 * of_be xs + byte_val b"
  by (simp add: of_be_def of_be_acc_append)

lemma of_be_Nil [simp]: "of_be [] = 0"
  by (simp add: of_be_def)

lemma of_be_to_be_mod: "of_be (to_be k n) = n mod 256 ^ k"
proof (induction k arbitrary: n)
  case 0
  then show ?case by simp
next
  case (Suc k)
  have "n mod 256 ^ Suc k = 256 * (n div 256 mod 256 ^ k) + n mod 256"
    using mod_mult2_eq [of n 256 "256 ^ k"] by (simp add: mult.commute)
  then show ?case by (simp add: Suc.IH)
qed

lemma of_be_to_be [simp]: "n < 256 ^ k \<Longrightarrow> of_be (to_be k n) = n"
  by (simp add: of_be_to_be_mod)

lemma of_be_less: "of_be bs < 256 ^ length bs"
proof (induction bs rule: rev_induct)
  case Nil
  then show ?case by simp
next
  case (snoc b bs)
  have "256 * of_be bs + byte_val b < 256 * (of_be bs + 1)" by simp
  also have "\<dots> \<le> 256 * 256 ^ length bs" using snoc by (intro mult_le_mono2) simp
  finally show ?case by simp
qed

lemma to_be_of_be [simp]: "to_be (length bs) (of_be bs) = bs"
proof (induction bs rule: rev_induct)
  case Nil
  then show ?case by simp
next
  case (snoc b bs)
  have "byte_of (256 * of_be bs + byte_val b) = b"
    by (metis add.commute char_of_char char_of_mod_256 mod_mult_self2)
  then show ?case using snoc by simp
qed

section \<open>Machine integers\<close>

abbreviation u32_max :: nat where
  "u32_max \<equiv> 2 ^ 32 - 1"

abbreviation i32_min :: int where
  "i32_min \<equiv> - (2 ^ 31)"

abbreviation i32_max :: int where
  "i32_max \<equiv> 2 ^ 31 - 1"

abbreviation i64_max :: int where
  "i64_max \<equiv> 2 ^ 63 - 1"

text \<open>Reading \<open>k\<close> bytes as a two's complement integer.\<close>

definition signed_of :: "nat \<Rightarrow> nat \<Rightarrow> int" where
  "signed_of k n = (if n < 2 ^ (8 * k - 1) then int n else int n - 2 ^ (8 * k))"

lemma signed_of_nonneg: "0 \<le> signed_of k n \<Longrightarrow> n < 2 ^ (8 * k) \<Longrightarrow> signed_of k n = int n"
proof -
  assume a: "0 \<le> signed_of k n" and b: "n < 2 ^ (8 * k)"
  have "int n < 2 ^ (8 * k)" using b by (metis of_nat_less_iff of_nat_numeral of_nat_power)
  with a show ?thesis by (simp add: signed_of_def split: if_splits)
qed

text \<open>\<open>saturating_sub\<close> and \<open>checked_add\<close> on \<open>u64\<close>.\<close>

definition sat_sub64 :: "u64 \<Rightarrow> u64 \<Rightarrow> u64" where
  "sat_sub64 a b = (if a < b then 0 else a - b)"

definition sat_add64 :: "u64 \<Rightarrow> u64 \<Rightarrow> u64" where
  "sat_add64 a b = (if unat a + unat b < 2 ^ 64 then a + b else - 1)"

definition checked_add64 :: "u64 \<Rightarrow> u64 \<Rightarrow> u64 option" where
  "checked_add64 a b = (if unat a + unat b < 2 ^ 64 then Some (a + b) else None)"

definition checked_sub64 :: "u64 \<Rightarrow> u64 \<Rightarrow> u64 option" where
  "checked_sub64 a b = (if a < b then None else Some (a - b))"

lemma unat64_less: "unat (c :: u64) < 2 ^ 64"
proof -
  have "unat c < 2 ^ LENGTH(64)" by (rule unsigned_less)
  then show ?thesis by simp
qed

lemma unat32_less: "unat (c :: u32) < 2 ^ 32"
proof -
  have "unat c < 2 ^ LENGTH(32)" by (rule unsigned_less)
  then show ?thesis by simp
qed

lemma unat_sat_sub64: "unat (sat_sub64 a b) = unat a - unat b"
  by (auto simp: sat_sub64_def unat_sub word_less_nat_alt word_le_nat_alt not_less)

lemma unat_sat_add64: "unat (sat_add64 a b) = min (unat a + unat b) (2 ^ 64 - 1)"
proof (cases "unat a + unat b < 2 ^ 64")
  case True
  then show ?thesis by (simp add: sat_add64_def unat_word_ariths)
next
  case False
  have "unat (- 1 :: u64) = 2 ^ 64 - 1" by (simp add: unsigned_minus_1_eq_mask mask_eq_exp_minus_1)
  with False show ?thesis by (simp add: sat_add64_def)
qed

lemma checked_add64_Some: "checked_add64 a b = Some c \<longleftrightarrow> unat c = unat a + unat b"
proof -
  have "unat c = unat a + unat b \<longleftrightarrow> unat a + unat b < 2 ^ 64 \<and> c = a + b"
  proof
    assume c: "unat c = unat a + unat b"
    have "unat a + unat b < 2 ^ 64" using unat64_less [of c] by (simp only: c)
    then have "unat (a + b) = unat c" by (simp add: unat_word_ariths c)
    then show "unat a + unat b < 2 ^ 64 \<and> c = a + b"
      using \<open>unat a + unat b < 2 ^ 64\<close> by (simp add: word_unat_eq_iff)
  qed (simp add: unat_word_ariths)
  then show ?thesis by (auto simp: checked_add64_def)
qed

lemma checked_sub64_Some: "checked_sub64 a b = Some c \<longleftrightarrow> unat a = unat b + unat c"
proof (cases "a < b")
  case True
  then show ?thesis by (simp add: checked_sub64_def word_less_nat_alt)
next
  case False
  then have le: "b \<le> a" by simp
  then have "unat (a - b) = unat a - unat b" and "unat b \<le> unat a"
    by (simp_all add: unat_sub word_le_nat_alt)
  then show ?thesis using False by (auto simp: checked_sub64_def word_unat_eq_iff)
qed

end
