(* ===== verification/Rust_Str.thy ===== *)
theory Rust_Str
  imports Rust_Prelude
begin

text \<open>
  What the sources use of \<open>str\<close> and of UTF-8: searching, slicing at a character boundary
  (which panics elsewhere), trimming Unicode white space, splitting, integer parsing, and
  the strict and lossy UTF-8 decoders of the standard library. A \<open>str\<close> is its UTF-8 bytes.
\<close>

section \<open>Searching and slicing\<close>

fun find_sub :: "str \<Rightarrow> str \<Rightarrow> nat option" where
  "find_sub pat [] = (if pat = [] then Some 0 else None)"
| "find_sub pat (c # cs) =
     (if prefix pat (c # cs) then Some 0 else map_option Suc (find_sub pat cs))"

definition contains :: "str \<Rightarrow> str \<Rightarrow> bool" where
  "contains s pat = (find_sub pat s \<noteq> None)"

fun find_byte :: "(u8 \<Rightarrow> bool) \<Rightarrow> bytes \<Rightarrow> nat option" where
  "find_byte P [] = None"
| "find_byte P (c # cs) = (if P c then Some 0 else map_option Suc (find_byte P cs))"

definition windows :: "nat \<Rightarrow> 'a list \<Rightarrow> 'a list list" where
  "windows n xs = map (\<lambda>i. take n (drop i xs)) [0..<length xs + 1 - n]"

lemma find_sub_Some:
  "find_sub pat s = Some i \<longleftrightarrow>
     i + length pat \<le> length s \<and> take (length pat) (drop i s) = pat \<and>
     (\<forall>j<i. take (length pat) (drop j s) \<noteq> pat)"
proof (induction s arbitrary: i)
  case Nil
  then show ?case by (cases i) auto
next
  case (Cons c cs)
  have pre: "prefix pat (c # cs) \<longleftrightarrow> take (length pat) (c # cs) = pat"
    by (metis append_eq_conv_conj prefix_def take_is_prefix)
  show ?case
  proof (cases i)
    case 0
    have "prefix pat (c # cs) \<Longrightarrow> length pat \<le> Suc (length cs)"
      using prefix_length_le by fastforce
    with 0 show ?thesis by (auto simp: pre)
  next
    case (Suc k)
    have "(\<forall>j<Suc k. take (length pat) (drop j (c # cs)) \<noteq> pat) \<longleftrightarrow>
        take (length pat) (c # cs) \<noteq> pat \<and> (\<forall>j<k. take (length pat) (drop j cs) \<noteq> pat)"
      by (auto simp: less_Suc_eq_0_disj)
    with Suc Cons.IH [of k] show ?thesis by (auto simp: pre)
  qed
qed

lemma find_sub_None: "find_sub pat s = None \<longleftrightarrow> \<not> sublist pat s"
proof (induction s)
  case Nil
  then show ?case by auto
next
  case (Cons c cs)
  then show ?case by (auto simp: sublist_Cons_right)
qed

lemma contains_sublist: "contains s pat \<longleftrightarrow> sublist pat s"
  by (simp add: contains_def find_sub_None)

lemma contains_append_left [simp]: "contains (pat @ s) pat"
  by (simp add: contains_sublist)

lemma contains_mid [simp]: "contains (a @ pat @ b) pat"
  by (auto simp: contains_sublist sublist_def)

lemma contains_refl [simp]: "contains s s"
  by (simp add: contains_sublist)

lemma find_sub_prefix [simp]: "find_sub pat (pat @ s) = Some 0"
  by (simp add: find_sub_Some)

lemma find_byte_Some:
  "find_byte P xs = Some i \<longleftrightarrow> i < length xs \<and> P (xs ! i) \<and> (\<forall>j<i. \<not> P (xs ! j))"
proof (induction xs arbitrary: i)
  case Nil
  then show ?case by simp
next
  case (Cons x xs)
  then show ?case by (cases i) (auto simp: less_Suc_eq_0_disj)
qed

lemma find_byte_None: "find_byte P xs = None \<longleftrightarrow> (\<forall>x\<in>set xs. \<not> P x)"
  by (induction xs) auto

lemma find_byte_append:
  "\<forall>x\<in>set xs. \<not> P x \<Longrightarrow> P b \<Longrightarrow> find_byte P (xs @ b # ys) = Some (length xs)"
  by (induction xs) auto

lemma sublist_windows:
  assumes "pat \<noteq> []"
  shows "sublist pat s \<longleftrightarrow> pat \<in> set (windows (length pat) s)"
proof
  assume "sublist pat s"
  then obtain a b where s: "s = a @ pat @ b" by (auto simp: sublist_def)
  have "length a < length s + 1 - length pat" using s assms by simp
  moreover have "pat = take (length pat) (drop (length a) s)" by (simp add: s)
  ultimately show "pat \<in> set (windows (length pat) s)" by (auto simp: windows_def)
next
  assume "pat \<in> set (windows (length pat) s)"
  then obtain i where "pat = take (length pat) (drop i s)" by (auto simp: windows_def)
  then show "sublist pat s"
    by (metis append_take_drop_id sublist_appendI)
qed

section \<open>UTF-8\<close>

definition is_cont :: "nat \<Rightarrow> bool" where
  "is_cont v \<longleftrightarrow> 128 \<le> v \<and> v < 192"

definition ok3 :: "nat \<Rightarrow> nat \<Rightarrow> bool" where
  "ok3 v w \<longleftrightarrow> (v = 0xE0 \<and> 0xA0 \<le> w \<and> w \<le> 0xBF) \<or> (0xE1 \<le> v \<and> v \<le> 0xEC \<and> is_cont w) \<or>
     (v = 0xED \<and> 0x80 \<le> w \<and> w \<le> 0x9F) \<or> (0xEE \<le> v \<and> v \<le> 0xEF \<and> is_cont w)"

definition ok4 :: "nat \<Rightarrow> nat \<Rightarrow> bool" where
  "ok4 v w \<longleftrightarrow> (v = 0xF0 \<and> 0x90 \<le> w \<and> w \<le> 0xBF) \<or> (0xF1 \<le> v \<and> v \<le> 0xF3 \<and> is_cont w) \<or>
     (v = 0xF4 \<and> 0x80 \<le> w \<and> w \<le> 0x8F)"

definition safe_get :: "bytes \<Rightarrow> nat \<Rightarrow> nat" where
  "safe_get r i = (if i < length r then byte_val (r ! i) else 0)"

text \<open>
  The next unit of a byte sequence, as the decoder of the standard library reads it: how many
  bytes it spans and whether they encode a scalar value. A wrong sequence spans the longest
  prefix that could still have been one.
\<close>

fun utf8_unit :: "bytes \<Rightarrow> nat \<times> bool" where
  "utf8_unit [] = (0, True)"
| "utf8_unit (b # r) =
     (let v = byte_val b in
      if v < 128 then (1, True)
      else if 0xC2 \<le> v \<and> v \<le> 0xDF then (if is_cont (safe_get r 0) then (2, True) else (1, False))
      else if 0xE0 \<le> v \<and> v \<le> 0xEF then
        (if \<not> ok3 v (safe_get r 0) then (1, False)
         else if \<not> is_cont (safe_get r 1) then (2, False) else (3, True))
      else if 0xF0 \<le> v \<and> v \<le> 0xF4 then
        (if \<not> ok4 v (safe_get r 0) then (1, False)
         else if \<not> is_cont (safe_get r 1) then (2, False)
         else if \<not> is_cont (safe_get r 2) then (3, False) else (4, True))
      else (1, False))"

lemma utf8_unit_pos: "xs \<noteq> [] \<Longrightarrow> 0 < fst (utf8_unit xs)"
  by (cases xs) (auto simp: Let_def)

lemma safe_get_bound: "0 < safe_get r i \<Longrightarrow> i < length r"
  by (auto simp: safe_get_def split: if_splits)

lemma ok3_cont: "ok3 v w \<Longrightarrow> is_cont w"
  by (auto simp: ok3_def is_cont_def)

lemma ok4_cont: "ok4 v w \<Longrightarrow> is_cont w"
  by (auto simp: ok4_def is_cont_def)

lemma is_cont_safe_get: "is_cont (safe_get r i) \<Longrightarrow> i < length r"
  using safe_get_bound by (fastforce simp: is_cont_def)

lemma utf8_unit_le: "fst (utf8_unit xs) \<le> length xs"
proof (cases xs)
  case Nil
  then show ?thesis by simp
next
  case (Cons b r)
  have c: "is_cont (safe_get r i) \<Longrightarrow> Suc i \<le> length r" for i
    using is_cont_safe_get [of r i] by simp
  have o: "ok3 v (safe_get r 0) \<or> ok4 v (safe_get r 0) \<Longrightarrow> Suc 0 \<le> length r" for v
    using ok3_cont ok4_cont c by blast
  show ?thesis unfolding Cons using c [of 0] c [of 1] c [of 2] o [of "byte_val b"]
    by (auto simp: Let_def simp del: One_nat_def)
qed

text \<open>\<open>std::str::from_utf8(..).is_ok()\<close> and \<open>String::from_utf8_lossy\<close>.\<close>

function utf8_valid :: "bytes \<Rightarrow> bool" where
  "utf8_valid xs = (if xs = [] then True
     else snd (utf8_unit xs) \<and> utf8_valid (drop (fst (utf8_unit xs)) xs))"
  by pat_completeness auto
termination
  by (relation "measure length") (use utf8_unit_pos in \<open>auto simp: length_greater_0_conv\<close>)

declare utf8_valid.simps [simp del]

lemma utf8_valid_Nil [simp]: "utf8_valid []"
  by (simp add: utf8_valid.simps)

definition replacement :: bytes where
  "replacement = [CHR 0xEF, CHR 0xBF, CHR 0xBD]"

function from_utf8_lossy :: "bytes \<Rightarrow> str" where
  "from_utf8_lossy xs = (if xs = [] then []
     else (if snd (utf8_unit xs) then take (fst (utf8_unit xs)) xs else replacement) @
       from_utf8_lossy (drop (fst (utf8_unit xs)) xs))"
  by pat_completeness auto
termination
  by (relation "measure length") (use utf8_unit_pos in \<open>auto simp: length_greater_0_conv\<close>)

declare from_utf8_lossy.simps [simp del]

lemma from_utf8_lossy_Nil [simp]: "from_utf8_lossy [] = []"
  by (simp add: from_utf8_lossy.simps)

lemma from_utf8_lossy_valid: "utf8_valid xs \<Longrightarrow> from_utf8_lossy xs = xs"
proof (induction xs rule: utf8_valid.induct)
  case (1 xs)
  then show ?case
    by (cases "xs = []") (simp_all add: utf8_valid.simps [of xs] from_utf8_lossy.simps [of xs])
qed

text \<open>A unit that is a scalar value is read the same whatever follows it.\<close>

lemma utf8_unit_append:
  assumes "snd (utf8_unit xs)" "xs \<noteq> []"
  shows "utf8_unit (take (fst (utf8_unit xs)) xs @ ys) = (fst (utf8_unit xs), True)"
proof (cases xs)
  case Nil
  with assms show ?thesis by simp
next
  case (Cons b r)
  obtain n where n: "utf8_unit xs = (n, True)" using assms(1) by (metis prod.exhaust_sel)
  have pos: "0 < n" and le: "n \<le> Suc (length r)"
    using utf8_unit_pos [OF assms(2)] utf8_unit_le [of xs] n Cons by auto
  then obtain m where m: "n = Suc m" and mr: "m \<le> length r" by (cases n) auto
  have g: "k \<le> length r \<Longrightarrow> i < k \<Longrightarrow> safe_get (take k r @ ys) i = safe_get r i" for i k
    by (simp add: safe_get_def nth_append)
  have "utf8_unit (b # take m r @ ys) = (n, True)"
    using n mr unfolding Cons m by (auto simp: Let_def g split: if_splits)
  then show ?thesis using n m Cons by simp
qed

lemma utf8_valid_append_unit:
  assumes "snd (utf8_unit xs)" "xs \<noteq> []"
  shows "utf8_valid (take (fst (utf8_unit xs)) xs @ ys) = utf8_valid ys"
proof -
  let ?u = "take (fst (utf8_unit xs)) xs"
  have len: "length ?u = fst (utf8_unit xs)" using utf8_unit_le [of xs] by simp
  have "?u \<noteq> []" using utf8_unit_pos [of xs] assms(2) by auto
  then show ?thesis
    using utf8_unit_append [OF assms, of ys] len
    by (subst utf8_valid.simps) (simp add: drop_append)
qed

lemma utf8_valid_replacement: "utf8_valid (replacement @ ys) = utf8_valid ys"
proof -
  have u: "utf8_unit replacement = (3, True)"
    by (simp add: replacement_def ok3_def is_cont_def safe_get_def)
  have "take 3 replacement = replacement" by (simp add: replacement_def)
  then show ?thesis using utf8_valid_append_unit [of replacement ys] u
    by (simp add: replacement_def)
qed

lemma from_utf8_lossy_is_utf8: "utf8_valid (from_utf8_lossy xs)"
proof (induction xs rule: from_utf8_lossy.induct)
  case (1 xs)
  then show ?case
    by (cases "xs = []")
      (simp_all add: from_utf8_lossy.simps [of xs] utf8_valid_append_unit utf8_valid_replacement)
qed

definition is_char_boundary :: "str \<Rightarrow> nat \<Rightarrow> bool" where
  "is_char_boundary s i \<longleftrightarrow> i = 0 \<or> i = length s \<or> (i < length s \<and> \<not> is_cont (byte_val (s ! i)))"

text \<open>\<open>&s[..i]\<close>.\<close>

definition slice_to :: "str \<Rightarrow> nat \<Rightarrow> str rs" where
  "slice_to s i = (if i \<le> length s \<and> is_char_boundary s i then Val (take i s) else Panic)"

text \<open>\<open>s.chars().take(n).collect::<String>()\<close> and \<open>s.chars().count()\<close>.\<close>

fun take_chars :: "nat \<Rightarrow> str \<Rightarrow> str" where
  "take_chars 0 s = []"
| "take_chars (Suc n) s = (if s = [] then []
     else take (fst (utf8_unit s)) s @ take_chars n (drop (fst (utf8_unit s)) s))"

function char_count :: "str \<Rightarrow> nat" where
  "char_count s = (if s = [] then 0 else Suc (char_count (drop (fst (utf8_unit s)) s)))"
  by pat_completeness auto
termination
  by (relation "measure length") (use utf8_unit_pos in \<open>auto simp: length_greater_0_conv\<close>)

declare char_count.simps [simp del]

lemma char_count_Nil [simp]: "char_count [] = 0"
  by (simp add: char_count.simps)

lemma char_count_append_unit:
  assumes "snd (utf8_unit xs)" "xs \<noteq> []"
  shows "char_count (take (fst (utf8_unit xs)) xs @ ys) = Suc (char_count ys)"
proof -
  let ?u = "take (fst (utf8_unit xs)) xs"
  have len: "length ?u = fst (utf8_unit xs)" using utf8_unit_le [of xs] by simp
  have "?u \<noteq> []" using utf8_unit_pos [of xs] assms(2) by auto
  then show ?thesis
    using utf8_unit_append [OF assms, of ys] len
    by (subst char_count.simps) (simp add: drop_append)
qed

lemma utf8_valid_unit: "utf8_valid s \<Longrightarrow> s \<noteq> [] \<Longrightarrow> snd (utf8_unit s)"
  by (simp add: utf8_valid.simps [of s])

lemma utf8_valid_drop_unit: "utf8_valid s \<Longrightarrow> utf8_valid (drop (fst (utf8_unit s)) s)"
  by (cases "s = []") (simp_all add: utf8_valid.simps [of s])

lemma take_chars_count: "utf8_valid s \<Longrightarrow> char_count (take_chars n s) = min n (char_count s)"
proof (induction n arbitrary: s)
  case 0
  then show ?case by simp
next
  case (Suc n)
  then show ?case
    by (cases "s = []")
      (simp_all add: char_count_append_unit utf8_valid_unit utf8_valid_drop_unit
        char_count.simps [of s])
qed

lemma take_chars_valid: "utf8_valid s \<Longrightarrow> utf8_valid (take_chars n s)"
  by (induction n arbitrary: s)
    (auto simp: utf8_valid_append_unit utf8_valid_unit utf8_valid_drop_unit)

lemma take_chars_prefix: "prefix (take_chars n s) s"
proof (induction n arbitrary: s)
  case 0
  then show ?case by simp
next
  case (Suc n)
  then show ?case
    by (metis Nil_prefix append_take_drop_id same_prefix_prefix take_chars.simps(2))
qed

lemma take_chars_all: "char_count s \<le> n \<Longrightarrow> take_chars n s = s"
proof (induction n arbitrary: s)
  case 0
  then show ?case by (cases "s = []") (simp_all add: char_count.simps [of s])
next
  case (Suc n)
  then show ?case by (cases "s = []") (simp_all add: char_count.simps [of s])
qed

lemma utf8_valid_ascii: "\<forall>b\<in>set s. byte_val b < 128 \<Longrightarrow> utf8_valid s"
  by (induction s) (simp_all add: utf8_valid.simps [of "_ # _"])

end
