(* ===== verification/Wire.thy ===== *)
theory Wire
  imports Rust_Str
begin

text \<open>
  Length-prefixed frames. \<open>encode_frame\<close> and \<open>decode_frame\<close> are those of
  \<open>aic-common/src/ipc.rs\<close>. A byte stream is the list of the bytes still to come and the
  outcome of a read that wants more, \<open>fin\<close>. The locale \<open>frame_codec\<close> states what a codec
  promises for one frame and gives what follows for a whole stream.
\<close>

section \<open>IPC frames\<close>

datatype frame_error = HeaderShort nat | PayloadShort nat nat

definition max_frame_payload_bytes :: nat where
  "max_frame_payload_bytes = 16 * 1024 * 1024"

definition encode_frame :: "bytes \<Rightarrow> bytes" where
  "encode_frame data = to_be 4 (length data mod 2 ^ 32) @ data"

definition decode_frame :: "bytes \<Rightarrow> frame_error + nat \<times> bytes" where
  "decode_frame data =
     (if length data < 4 then Inl (HeaderShort (length data))
      else (let payload_len = of_be (take 4 data); total = 4 + payload_len in
            if length data < total then Inl (PayloadShort total (length data))
            else Inr (total, take payload_len (drop 4 data))))"

section \<open>Reading from a stream\<close>

datatype io_kind = UnexpectedEof | ConnectionReset | BrokenPipe | OtherIo

definition read_exact :: "io_kind \<Rightarrow> nat \<Rightarrow> bytes \<Rightarrow> io_kind + bytes \<times> bytes" where
  "read_exact fin n s = (if n \<le> length s then Inr (take n s, drop n s) else Inl fin)"

definition read_u32 :: "io_kind \<Rightarrow> bytes \<Rightarrow> io_kind + nat \<times> bytes" where
  "read_u32 fin s =
     (case read_exact fin 4 s of Inl e \<Rightarrow> Inl e | Inr (b, r) \<Rightarrow> Inr (of_be b, r))"

lemma read_exact_append [simp]: "read_exact fin (length a) (a @ r) = Inr (a, r)"
  by (simp add: read_exact_def)

lemma read_u32_append [simp]: "n < 2 ^ 32 \<Longrightarrow> read_u32 fin (to_be 4 n @ r) = Inr (n, r)"
  using read_exact_append [of fin "to_be 4 n" r] by (simp add: read_u32_def)

lemma read_exact_Inr: "read_exact fin n s = Inr (a, r) \<Longrightarrow> s = a @ r \<and> length a = n"
  by (auto simp: read_exact_def split: if_splits)

lemma of_be_less_4: "length b = 4 \<Longrightarrow> of_be b < 4294967296"
  using of_be_less [of b] by simp

lemma read_u32_Inr: "read_u32 fin s = Inr (n, r) \<Longrightarrow> length s = 4 + length r \<and> n < 2 ^ 32"
  by (auto simp: read_u32_def split: sum.splits dest!: read_exact_Inr) (metis of_be_less_4)

section \<open>The contract of a frame codec\<close>

text \<open>Reading \<open>n\<close> frames one after the other with the reader \<open>rd\<close>.\<close>

fun read_n :: "(bytes \<Rightarrow> 'e + 'm \<times> bytes) \<Rightarrow> nat \<Rightarrow> bytes \<Rightarrow> 'e + 'm list \<times> bytes" where
  "read_n rd 0 s = Inr ([], s)"
| "read_n rd (Suc n) s =
     (case rd s of Inl e \<Rightarrow> Inl e
      | Inr (m, r) \<Rightarrow> (case read_n rd n r of Inl e \<Rightarrow> Inl e | Inr (ms, r') \<Rightarrow> Inr (m # ms, r')))"

locale frame_codec =
  fixes enc :: "'m \<Rightarrow> bytes"
    and rd :: "bytes \<Rightarrow> 'e + 'm \<times> bytes"
    and ok :: "'m \<Rightarrow> bool"
  assumes rd_enc: "ok m \<Longrightarrow> rd (enc m @ rest) = Inr (m, rest)"
begin

lemma read_stream:
  "list_all ok ms \<Longrightarrow> read_n rd (length ms) (concat (map enc ms) @ rest) = Inr (ms, rest)"
  by (induction ms) (auto simp: rd_enc)

lemma enc_inj: "ok m \<Longrightarrow> ok m' \<Longrightarrow> enc m = enc m' \<Longrightarrow> m = m'"
  using rd_enc [of m "[]"] rd_enc [of m' "[]"] by simp

lemma enc_prefix_free: "ok m \<Longrightarrow> ok m' \<Longrightarrow> prefix (enc m) (enc m') \<Longrightarrow> m = m'"
  using rd_enc [of m] rd_enc [of m' "[]"] by (auto simp: prefix_def)

lemma stream_unique:
  assumes "list_all ok ms" "list_all ok ms'" "length ms = length ms'"
    and "concat (map enc ms) = concat (map enc ms')"
  shows "ms = ms'"
  using read_stream [OF assms(1), of "[]"] read_stream [OF assms(2), of "[]"] assms(3,4) by simp

end

text \<open>Taking one IPC frame off the front of a buffer.\<close>

definition take_frame :: "bytes \<Rightarrow> frame_error + bytes \<times> bytes" where
  "take_frame s = (case decode_frame s of Inl e \<Rightarrow> Inl e | Inr (n, p) \<Rightarrow> Inr (p, drop n s))"

interpretation ipcf: frame_codec encode_frame take_frame "\<lambda>p. length p < 2 ^ 32"
  by unfold_locales (simp add: take_frame_def decode_frame_def encode_frame_def Let_def)

lemma decode_encode_frame:
  "length p < 2 ^ 32 \<Longrightarrow> decode_frame (encode_frame p @ rest) = Inr (4 + length p, p)"
  by (simp add: decode_frame_def encode_frame_def Let_def)

section \<open>Properties\<close>

text \<open>
  Further property (roundtrip). Frames of payloads below 4 GiB written one after the other are read back in
  order, with nothing left over but what follows them.
\<close>

theorem ipc_stream_round_trip:
  "list_all (\<lambda>p. length p < 2 ^ 32) ps \<Longrightarrow>
     read_n take_frame (length ps) (concat (map encode_frame ps) @ rest) = Inr (ps, rest)"
  by (rule ipcf.read_stream)

theorem ipc_stream_round_trip_witness:
  "read_n take_frame (Suc (Suc 0)) (encode_frame ''ping'' @ encode_frame [] @ ''x'') = Inr ([''ping'', []], ''x'')"
  using ipc_stream_round_trip [of "[''ping'', []]" "''x''"] by simp

text \<open>
  Further property (functional). Decoding a buffer succeeds exactly when it begins with a complete frame,
  and then returns that frame's payload and total size; the errors name what was missing.
\<close>

theorem decode_frame_iff:
  "decode_frame data = Inr (n, p) \<longleftrightarrow>
     (\<exists>rest. data = encode_frame p @ rest) \<and> n = 4 + length p \<and> length p < 2 ^ 32"
proof
  assume d: "decode_frame data = Inr (n, p)"
  then have len: "4 \<le> length data" by (auto simp: decode_frame_def split: if_splits)
  have lt: "of_be (take 4 data) < 2 ^ 32" using of_be_less [of "take 4 data"] len by simp
  from d have n: "n = 4 + of_be (take 4 data)" "n \<le> length data" "p = take (of_be (take 4 data)) (drop 4 data)"
    by (auto simp: decode_frame_def Let_def split: if_splits)
  then have lp: "length p = of_be (take 4 data)" by simp
  have "to_be 4 (length p) = take 4 data"
    using to_be_of_be [of "take 4 data"] len by (simp add: lp)
  then have "encode_frame p @ drop (of_be (take 4 data)) (drop 4 data) = data"
    using lt lp unfolding encode_frame_def n(3) by (simp del: drop_drop)
  then have "data = encode_frame p @ drop (of_be (take 4 data)) (drop 4 data)" by (rule sym)
  with n lt lp show "(\<exists>rest. data = encode_frame p @ rest) \<and> n = 4 + length p \<and> length p < 2 ^ 32"
    by auto
qed (auto simp: decode_encode_frame)

end
