(* ===== verification/Attach_Codec.thy ===== *)
theory Attach_Codec
  imports Wire
begin

text \<open>
  The frames of the attach channel and their wire codec (\<open>aic-common/src/attach.rs\<close>): terminal
  bytes go as a tagged binary frame, everything else as a tagged JSON frame. \<open>serde_json\<close> is a
  parameter, the record \<open>attach_json\<close>. Error messages are kept as values: the type of the
  message of an error frame is a parameter of the frame type.
\<close>

section \<open>Frames\<close>

definition attach_protocol_version :: u32 where
  "attach_protocol_version = 1"

definition pty_bytes_discriminant :: u8 where
  "pty_bytes_discriminant = CHR 0x01"

definition json_frame_discriminant :: u8 where
  "json_frame_discriminant = CHR 0x02"

definition max_pty_bytes_frame :: nat where
  "max_pty_bytes_frame = 16 * 1024 * 1024"

datatype attach_client_frame =
  AttachOpen str u32
| PtyBytes bytes
| AttachClose str

datatype 'm attach_server_frame = AttachAck u32 | AttachError 'm

datatype 'm attach_frame_kind = Client attach_client_frame | Server "'m attach_server_frame"

datatype attach_io_error = WriteIo io_kind | WriteJson | PayloadTooLargeForLengthPrefix nat

datatype attach_decode_error =
  DecodeIo io_kind
| DecodeJson
| UnknownDiscriminant u8
| PtyBytesTooLarge nat nat
| JsonContainsPtyBytes

text \<open>Serialising and deserialising the two frame types.\<close>

record 'm attach_json =
  client_to_vec :: "attach_client_frame \<Rightarrow> bytes option"
  client_from_slice :: "bytes \<Rightarrow> attach_client_frame option"
  server_to_vec :: "'m attach_server_frame \<Rightarrow> bytes option"
  server_from_slice :: "bytes \<Rightarrow> 'm attach_server_frame option"

section \<open>Codec\<close>

text \<open>\<open>write_u8\<close>, \<open>write_u32\<close> and \<open>write_all\<close> of a payload that passed the length conversion.\<close>

definition tagged_frame :: "u8 \<Rightarrow> bytes \<Rightarrow> attach_io_error + bytes" where
  "tagged_frame tag payload =
     (if 2 ^ 32 \<le> length payload then Inl (PayloadTooLargeForLengthPrefix (length payload))
      else Inr (tag # to_be 4 (length payload) @ payload))"

fun write_attach_frame :: "'m attach_json \<Rightarrow> attach_client_frame \<Rightarrow> attach_io_error + bytes" where
  "write_attach_frame j (PtyBytes bs) = tagged_frame pty_bytes_discriminant bs"
| "write_attach_frame j other =
     (case client_to_vec j other of None \<Rightarrow> Inl WriteJson
      | Some json \<Rightarrow> tagged_frame json_frame_discriminant json)"

definition write_attach_server_frame :: "'m attach_json \<Rightarrow> 'm attach_server_frame \<Rightarrow> attach_io_error + bytes" where
  "write_attach_server_frame j frame =
     (case server_to_vec j frame of None \<Rightarrow> Inl WriteJson
      | Some json \<Rightarrow> tagged_frame json_frame_discriminant json)"

text \<open>\<open>read_u32\<close>, the size check and \<open>read_exact\<close>, as both branches of the reader do.\<close>

definition read_payload :: "io_kind \<Rightarrow> bytes \<Rightarrow> attach_decode_error + bytes \<times> bytes" where
  "read_payload fin s =
     (case read_u32 fin s of
        Inl e \<Rightarrow> Inl (DecodeIo e)
      | Inr (len, r) \<Rightarrow>
        if max_pty_bytes_frame < len then Inl (PtyBytesTooLarge len max_pty_bytes_frame)
        else (case read_exact fin len r of Inl e \<Rightarrow> Inl (DecodeIo e) | Inr br \<Rightarrow> Inr br))"

fun is_pty_bytes :: "attach_client_frame \<Rightarrow> bool" where
  "is_pty_bytes (PtyBytes _) = True"
| "is_pty_bytes _ = False"

definition read_attach_frame ::
  "'m attach_json \<Rightarrow> io_kind \<Rightarrow> bytes \<Rightarrow> attach_decode_error + 'm attach_frame_kind \<times> bytes" where
  "read_attach_frame j fin s =
     (case read_exact fin 1 s of
        Inl e \<Rightarrow> Inl (DecodeIo e)
      | Inr (d, s1) \<Rightarrow>
        if d = [pty_bytes_discriminant] then
          (case read_payload fin s1 of Inl e \<Rightarrow> Inl e
           | Inr (buf, r) \<Rightarrow> Inr (Client (PtyBytes buf), r))
        else if d = [json_frame_discriminant] then
          (case read_payload fin s1 of Inl e \<Rightarrow> Inl e
           | Inr (buf, r) \<Rightarrow>
             (case client_from_slice j buf of
                Some c \<Rightarrow> if is_pty_bytes c then Inl JsonContainsPtyBytes else Inr (Client c, r)
              | None \<Rightarrow>
                (case server_from_slice j buf of
                   None \<Rightarrow> Inl DecodeJson
                 | Some sv \<Rightarrow> Inr (Server sv, r))))
        else Inl (UnknownDiscriminant (hd d)))"

section \<open>Lemmas\<close>

lemma tagged_frame_Inr:
  "tagged_frame tag p = Inr b \<longleftrightarrow> length p < 2 ^ 32 \<and> b = tag # to_be 4 (length p) @ p"
  by (auto simp: tagged_frame_def)

lemma read_payload_append:
  "length p < 2 ^ 32 \<Longrightarrow> read_payload fin (to_be 4 (length p) @ p @ rest) =
     (if max_pty_bytes_frame < length p then Inl (PtyBytesTooLarge (length p) max_pty_bytes_frame)
      else Inr (p, rest))"
  by (simp add: read_payload_def)

lemma read_payload_Inr:
  "read_payload fin s = Inr (b, r) \<Longrightarrow> length s = 4 + length b + length r \<and> length b \<le> max_pty_bytes_frame"
  by (auto simp: read_payload_def split: sum.splits prod.splits if_splits
      dest!: read_u32_Inr read_exact_Inr)

lemma read_tagged:
  "read_attach_frame j fin (pty_bytes_discriminant # s) =
     (case read_payload fin s of Inl e \<Rightarrow> Inl e | Inr (buf, r) \<Rightarrow> Inr (Client (PtyBytes buf), r))"
  "read_attach_frame j fin (json_frame_discriminant # s) =
     (case read_payload fin s of Inl e \<Rightarrow> Inl e
      | Inr (buf, r) \<Rightarrow>
        (case client_from_slice j buf of
           Some c \<Rightarrow> if is_pty_bytes c then Inl JsonContainsPtyBytes else Inr (Client c, r)
         | None \<Rightarrow> (case server_from_slice j buf of None \<Rightarrow> Inl DecodeJson | Some sv \<Rightarrow> Inr (Server sv, r))))"
  by (simp_all add: read_attach_frame_def read_exact_def pty_bytes_discriminant_def json_frame_discriminant_def)

text \<open>Every successful read takes at least the five bytes of a header, and a frame stays within the limit.\<close>

lemma read_attach_frame_consumes:
  assumes "read_attach_frame j fin s = Inr (k, r)"
  shows "length r + 5 \<le> length s"
  using assms
  by (auto simp: read_attach_frame_def split: sum.splits prod.splits if_splits option.splits
      dest!: read_exact_Inr read_payload_Inr)

lemma read_attach_frame_bound:
  "read_attach_frame j fin s = Inr (Client (PtyBytes bs), r) \<Longrightarrow> length bs \<le> max_pty_bytes_frame"
  by (auto simp: read_attach_frame_def split: sum.splits prod.splits if_splits option.splits
      dest!: read_payload_Inr)

text \<open>What the codec relies on in \<open>serde_json\<close>: it reads back what it wrote, and does not take a server frame for a client frame.\<close>

definition json_faithful :: "'m attach_json \<Rightarrow> bool" where
  "json_faithful j \<longleftrightarrow>
     (\<forall>f b. client_to_vec j f = Some b \<longrightarrow> \<not> is_pty_bytes f \<longrightarrow> client_from_slice j b = Some f) \<and>
     (\<forall>f b. server_to_vec j f = Some b \<longrightarrow> server_from_slice j b = Some f \<and> client_from_slice j b = None)"

text \<open>A frame that can be sent: it serialises, to at most the limit of the reader.\<close>

definition sendable :: "'m attach_json \<Rightarrow> attach_client_frame \<Rightarrow> bool" where
  "sendable j f = (case f of PtyBytes bs \<Rightarrow> length bs \<le> max_pty_bytes_frame
     | _ \<Rightarrow> (case client_to_vec j f of None \<Rightarrow> False | Some b \<Rightarrow> length b \<le> max_pty_bytes_frame))"

definition frame_bytes :: "'m attach_json \<Rightarrow> attach_client_frame \<Rightarrow> bytes" where
  "frame_bytes j f = (case write_attach_frame j f of Inl _ \<Rightarrow> [] | Inr b \<Rightarrow> b)"

lemma max_frame_u32: "n \<le> max_pty_bytes_frame \<Longrightarrow> n < 2 ^ 32"
  by (simp add: max_pty_bytes_frame_def)

lemma write_sendable: "sendable j f \<Longrightarrow> \<exists>b. write_attach_frame j f = Inr b"
  by (cases f) (auto simp: sendable_def tagged_frame_def max_pty_bytes_frame_def split: option.splits)

lemma read_write_attach_frame:
  assumes "json_faithful j" "write_attach_frame j f = Inr b"
  shows "read_attach_frame j fin (b @ rest) =
    (if max_pty_bytes_frame + 5 < length b then Inl (PtyBytesTooLarge (length b - 5) max_pty_bytes_frame)
     else Inr (Client f, rest))"
proof (cases "is_pty_bytes f")
  case True
  then obtain p where f: "f = PtyBytes p" by (cases f) auto
  with assms(2) have b: "length p < 2 ^ 32" "b = pty_bytes_discriminant # to_be 4 (length p) @ p"
    by (simp_all add: tagged_frame_Inr)
  then show ?thesis by (simp add: f read_tagged read_payload_append)
next
  case False
  then have "write_attach_frame j f = (case client_to_vec j f of None \<Rightarrow> Inl WriteJson
      | Some json \<Rightarrow> tagged_frame json_frame_discriminant json)" by (cases f) auto
  with assms(2) obtain p where p: "client_to_vec j f = Some p" "length p < 2 ^ 32"
    "b = json_frame_discriminant # to_be 4 (length p) @ p"
    by (auto simp: tagged_frame_Inr split: option.splits)
  moreover have "client_from_slice j p = Some f" using assms(1) p(1) False by (auto simp: json_faithful_def)
  ultimately show ?thesis using False by (simp add: read_tagged read_payload_append)
qed

lemma length_frame_bytes: "sendable j f \<Longrightarrow> length (frame_bytes j f) \<le> max_pty_bytes_frame + 5"
  by (cases f) (auto simp: sendable_def frame_bytes_def tagged_frame_def split: option.splits)

lemma read_frame_bytes:
  assumes "json_faithful j" "sendable j f"
  shows "read_attach_frame j fin (frame_bytes j f @ rest) = Inr (Client f, rest)"
proof -
  obtain b where "write_attach_frame j f = Inr b" using write_sendable [OF assms(2)] by blast
  then show ?thesis
    using read_write_attach_frame [OF assms(1), of f b fin rest] length_frame_bytes [OF assms(2)]
    by (simp add: frame_bytes_def)
qed

text \<open>Both directions of the channel as one codec.\<close>

definition kind_bytes :: "'m attach_json \<Rightarrow> 'm attach_frame_kind \<Rightarrow> bytes" where
  "kind_bytes j k = (case k of Client f \<Rightarrow> frame_bytes j f
     | Server f \<Rightarrow> (case write_attach_server_frame j f of Inl _ \<Rightarrow> [] | Inr b \<Rightarrow> b))"

definition kind_ok :: "'m attach_json \<Rightarrow> 'm attach_frame_kind \<Rightarrow> bool" where
  "kind_ok j k \<longleftrightarrow> json_faithful j \<and> (case k of Client f \<Rightarrow> sendable j f
     | Server f \<Rightarrow> (case server_to_vec j f of None \<Rightarrow> False | Some b \<Rightarrow> length b \<le> max_pty_bytes_frame))"

lemma read_kind_bytes: "kind_ok j k \<Longrightarrow> read_attach_frame j fin (kind_bytes j k @ rest) = Inr (k, rest)"
proof (cases k)
  case (Client f)
  assume "kind_ok j k"
  with Client show ?thesis by (simp add: kind_ok_def kind_bytes_def read_frame_bytes)
next
  case (Server f)
  assume k: "kind_ok j k"
  then obtain p where p: "server_to_vec j f = Some p" "length p \<le> max_pty_bytes_frame" "json_faithful j"
    using Server by (auto simp: kind_ok_def split: option.splits)
  then have "server_from_slice j p = Some f" "client_from_slice j p = None" "length p < 2 ^ 32"
    using max_frame_u32 [of "length p"] by (auto simp: json_faithful_def)
  then show ?thesis using Server p
    by (simp add: kind_bytes_def write_attach_server_frame_def tagged_frame_def read_tagged read_payload_append)
qed

interpretation attf: frame_codec "kind_bytes j" "read_attach_frame j fin" "kind_ok j" for j fin
  by unfold_locales (rule read_kind_bytes)

section \<open>Properties\<close>

text \<open>
  C36 (roundtrip). Frames written one after the other, in either direction, are read back as
  the same frames in the same order, provided each serialises to at most 16 MiB and
  \<open>serde_json\<close> reads back what it wrote.
\<close>

theorem attach_stream_round_trip:
  "list_all (kind_ok j) ks \<Longrightarrow>
     read_n (read_attach_frame j fin) (length ks) (concat (map (kind_bytes j) ks) @ rest) = Inr (ks, rest)"
  by (rule attf.read_stream)

text \<open>A serialiser for the examples, of one client frame.\<close>

definition close_json :: "unit attach_json" where
  "close_json = \<lparr>client_to_vec = (\<lambda>f. if f = AttachClose [] then Some ''close'' else None),
     client_from_slice = (\<lambda>b. if b = ''close'' then Some (AttachClose []) else None),
     server_to_vec = (\<lambda>_. None), server_from_slice = (\<lambda>_. None)\<rparr>"

lemma close_json_faithful: "json_faithful close_json"
  by (auto simp: json_faithful_def close_json_def split: if_splits)

theorem attach_stream_round_trip_witness:
  "read_n (read_attach_frame close_json UnexpectedEof) (Suc (Suc 0))
     (kind_bytes close_json (Client (PtyBytes ''ab'')) @ kind_bytes close_json (Client (AttachClose []))) =
   Inr ([Client (PtyBytes ''ab''), Client (AttachClose [])], [])"
  using attach_stream_round_trip [of close_json "[Client (PtyBytes ''ab''), Client (AttachClose [])]" UnexpectedEof "[]"]
    close_json_faithful
  by (simp add: kind_ok_def sendable_def max_pty_bytes_frame_def close_json_def)

text \<open>
  Further property (bounds). Whatever bytes arrive, a frame the reader accepts carries at most 16 MiB of
  terminal bytes, and every accepted frame takes at least its five header bytes off the stream.
\<close>

theorem attach_frame_bounded:
  "read_attach_frame j fin s = Inr (k, r) \<Longrightarrow>
     length r + 5 \<le> length s \<and> (\<forall>bs. k = Client (PtyBytes bs) \<longrightarrow> length bs \<le> 16777216)"
  using read_attach_frame_bound by (auto dest: read_attach_frame_consumes simp: max_pty_bytes_frame_def)

theorem attach_frame_bounded_witness:
  "length (''x'' :: bytes) + 5 \<le> length (CHR 0x01 # to_be 4 (Suc (Suc 0)) @ ''abx'')"
proof -
  have "read_attach_frame close_json UnexpectedEof (CHR 0x01 # to_be 4 (Suc (Suc 0)) @ ''abx'') =
      Inr (Client (PtyBytes ''ab''), ''x'')"
    using read_payload_append [of "''ab''" UnexpectedEof "''x''"] read_tagged(1) [of close_json UnexpectedEof]
    by (simp add: pty_bytes_discriminant_def max_pty_bytes_frame_def)
  from attach_frame_bounded [OF this] show ?thesis by blast
qed

text \<open>
  Further property (error). The writer accepts chunks of terminal bytes that the reader refuses: between
  16 MiB and 4 GiB the frame is written, and reading it reports \<open>PtyBytesTooLarge\<close>.
\<close>

theorem large_chunk_written_not_read:
  assumes "max_pty_bytes_frame < length bs" "length bs < 2 ^ 32"
  shows "\<exists>b. write_attach_frame j (PtyBytes bs) = Inr b \<and>
    read_attach_frame j fin (b @ rest) = Inl (PtyBytesTooLarge (length bs) max_pty_bytes_frame)"
  using assms by (simp add: tagged_frame_def read_tagged read_payload_append)

theorem large_chunk_written_not_read_witness:
  "\<exists>b. write_attach_frame close_json (PtyBytes (replicate 16777217 CHR ''x'')) = Inr b \<and>
     read_attach_frame close_json UnexpectedEof (b @ []) = Inl (PtyBytesTooLarge 16777217 max_pty_bytes_frame)"
  using large_chunk_written_not_read [of "replicate 16777217 CHR ''x''" close_json UnexpectedEof "[]"]
  by (simp add: max_pty_bytes_frame_def del: write_attach_frame.simps)

end
