(* ===== verification/Rust_Text.thy ===== *)
theory Rust_Text
  imports Rust_Str
begin

text \<open>
  Text helpers of the standard library that the sources call: \<open>trim\<close>, \<open>lines\<close>, \<open>split\<close>,
  ASCII case folding, integer parsing in a radix, and hexadecimal formatting.
\<close>

section \<open>White space\<close>

definition ascii_ws :: "u8 list" where
  "ascii_ws = [CHR 0x09, CHR 0x0A, CHR 0x0B, CHR 0x0C, CHR 0x0D, CHR 0x20]"

text \<open>The white space characters above ASCII, as their UTF-8 encodings.\<close>

definition wide_ws :: "bytes list" where
  "wide_ws = [[CHR 0xC2, CHR 0x85], [CHR 0xC2, CHR 0xA0], [CHR 0xE1, CHR 0x9A, CHR 0x80],
     [CHR 0xE2, CHR 0x80, CHR 0x80], [CHR 0xE2, CHR 0x80, CHR 0x81], [CHR 0xE2, CHR 0x80, CHR 0x82],
     [CHR 0xE2, CHR 0x80, CHR 0x83], [CHR 0xE2, CHR 0x80, CHR 0x84], [CHR 0xE2, CHR 0x80, CHR 0x85],
     [CHR 0xE2, CHR 0x80, CHR 0x86], [CHR 0xE2, CHR 0x80, CHR 0x87], [CHR 0xE2, CHR 0x80, CHR 0x88],
     [CHR 0xE2, CHR 0x80, CHR 0x89], [CHR 0xE2, CHR 0x80, CHR 0x8A], [CHR 0xE2, CHR 0x80, CHR 0xA8],
     [CHR 0xE2, CHR 0x80, CHR 0xA9], [CHR 0xE2, CHR 0x80, CHR 0xAF], [CHR 0xE2, CHR 0x81, CHR 0x9F],
     [CHR 0xE3, CHR 0x80, CHR 0x80]]"

text \<open>How many bytes of white space a text starts with: one character's, or none.\<close>

definition ws_head :: "str \<Rightarrow> nat" where
  "ws_head s = (case s of [] \<Rightarrow> 0 | c # _ \<Rightarrow>
     if c \<in> set ascii_ws then 1
     else if \<exists>w\<in>set wide_ws. take (length w) s = w then (if take 2 s \<in> set wide_ws then 2 else 3)
     else 0)"

definition ws_last :: "str \<Rightarrow> nat" where
  "ws_last s = (case rev s of [] \<Rightarrow> 0 | c # _ \<Rightarrow>
     if c \<in> set ascii_ws then 1
     else if \<exists>w\<in>set wide_ws. take (length w) (rev s) = rev w
       then (if rev (take 2 (rev s)) \<in> set wide_ws then 2 else 3)
     else 0)"

function trim_start :: "str \<Rightarrow> str" where
  "trim_start s = (if ws_head s = 0 then s else trim_start (drop (ws_head s) s))"
  by pat_completeness auto
termination
  by (relation "measure length") (auto simp: ws_head_def split: list.splits if_splits)

declare trim_start.simps [simp del]

function trim_end :: "str \<Rightarrow> str" where
  "trim_end s = (if ws_last s = 0 then s else trim_end (take (length s - ws_last s) s))"
  by pat_completeness auto
termination
  by (relation "measure length") (auto simp: ws_last_def split: list.splits if_splits)

declare trim_end.simps [simp del]

definition trim :: "str \<Rightarrow> str" where
  "trim s = trim_end (trim_start s)"

text \<open>The bytes a white space character can start or end with.\<close>

definition ws_edge :: "u8 list" where
  "ws_edge = ascii_ws @ map hd wide_ws @ map last wide_ws"

lemma ws_head_0: "s = [] \<or> hd s \<notin> set ws_edge \<Longrightarrow> ws_head s = 0"
  by (cases s) (auto simp: ws_head_def ws_edge_def wide_ws_def)

lemma ws_last_0: "s = [] \<or> last s \<notin> set ws_edge \<Longrightarrow> ws_last s = 0"
  by (cases s rule: rev_cases) (auto simp: ws_last_def ws_edge_def wide_ws_def)

lemma trim_no_edge:
  assumes "s = [] \<or> hd s \<notin> set ws_edge \<and> last s \<notin> set ws_edge"
  shows "trim s = s"
proof -
  have "trim_start s = s" using assms ws_head_0 by (subst trim_start.simps) auto
  moreover have "trim_end s = s" using assms ws_last_0 by (subst trim_end.simps) auto
  ultimately show ?thesis by (simp add: trim_def)
qed

lemma trim_Nil [simp]: "trim [] = []"
  by (simp add: trim_no_edge)

section \<open>Lines, splitting, case\<close>

text \<open>The text after each line feed starts a new line; a last empty piece is no line.\<close>

fun strip_cr :: "str \<Rightarrow> str" where
  "strip_cr [] = []"
| "strip_cr (a # as) = (if a = CHR 0x0D then as else a # as)"

fun split_lf :: "str \<Rightarrow> str \<Rightarrow> str list" where
  "split_lf acc [] = (if acc = [] then [] else [rev acc])"
| "split_lf acc (c # cs) =
     (if c = CHR 0x0A
      then rev (strip_cr acc) # split_lf [] cs
      else split_lf (c # acc) cs)"

definition lines :: "str \<Rightarrow> str list" where
  "lines s = split_lf [] s"

fun split_on :: "u8 \<Rightarrow> str \<Rightarrow> str list" where
  "split_on d [] = [[]]"
| "split_on d (c # cs) = (if c = d then [] # split_on d cs
     else (case split_on d cs of [] \<Rightarrow> [[c]] | p # ps \<Rightarrow> (c # p) # ps))"

text \<open>\<open>s.split_once(c)\<close> and \<open>s.rsplit_once(c)\<close>.\<close>

definition split_once :: "u8 \<Rightarrow> str \<Rightarrow> (str \<times> str) option" where
  "split_once d s = (case find_byte (\<lambda>c. c = d) s of
     None \<Rightarrow> None | Some i \<Rightarrow> Some (take i s, drop (Suc i) s))"

definition rsplit_once :: "u8 \<Rightarrow> str \<Rightarrow> (str \<times> str) option" where
  "rsplit_once d s = (case find_byte (\<lambda>c. c = d) (rev s) of
     None \<Rightarrow> None | Some i \<Rightarrow> Some (take (length s - Suc i) s, drop (length s - i) s))"

text \<open>\<open>parts.join(sep)\<close>.\<close>

fun join_with :: "str \<Rightarrow> str list \<Rightarrow> str" where
  "join_with sep [] = []"
| "join_with sep [s] = s"
| "join_with sep (s # t # ss) = s @ sep @ join_with sep (t # ss)"

definition ascii_lower :: "u8 \<Rightarrow> u8" where
  "ascii_lower c = (if 65 \<le> byte_val c \<and> byte_val c \<le> 90 then byte_of (byte_val c + 32) else c)"

definition ascii_upper :: "u8 \<Rightarrow> u8" where
  "ascii_upper c = (if 97 \<le> byte_val c \<and> byte_val c \<le> 122 then byte_of (byte_val c - 32) else c)"

definition to_ascii_uppercase :: "str \<Rightarrow> str" where
  "to_ascii_uppercase s = map ascii_upper s"

definition to_ascii_lowercase :: "str \<Rightarrow> str" where
  "to_ascii_lowercase s = map ascii_lower s"

lemma split_on_nonempty [simp]: "split_on d s \<noteq> []"
  by (induction s) (auto split: list.splits)

lemma split_on_absent: "d \<notin> set s \<Longrightarrow> split_on d s = [s]"
  by (induction s) auto

lemma split_on_append: "d \<notin> set a \<Longrightarrow> split_on d (a @ d # s) = a # split_on d s"
  by (induction a) auto

lemma split_once_append: "d \<notin> set a \<Longrightarrow> split_once d (a @ d # b) = Some (a, b)"
  by (subst split_once_def, subst find_byte_append) auto

lemma split_once_absent: "d \<notin> set s \<Longrightarrow> split_once d s = None"
  by (auto simp: split_once_def find_byte_None split: option.splits)

lemma rsplit_once_append: "d \<notin> set b \<Longrightarrow> rsplit_once d (a @ d # b) = Some (a, b)"
  by (simp add: rsplit_once_def, subst find_byte_append) auto

lemma split_lf_plain: "CHR 0x0A \<notin> set s \<Longrightarrow> split_lf acc s = (if acc = [] \<and> s = [] then [] else [rev acc @ s])"
  by (induction s arbitrary: acc) auto

lemma lines_plain: "CHR 0x0A \<notin> set s \<Longrightarrow> s \<noteq> [] \<Longrightarrow> lines s = [s]"
  by (simp add: lines_def split_lf_plain)

lemma set_strip_cr: "set (strip_cr acc) \<subseteq> set acc"
  by (induction acc rule: strip_cr.induct) auto

lemma split_lf_no_lf: "CHR 0x0A \<notin> set acc \<Longrightarrow> l \<in> set (split_lf acc s) \<Longrightarrow> CHR 0x0A \<notin> set l"
proof (induction s arbitrary: acc)
  case Nil
  then show ?case by (auto split: if_splits)
next
  case (Cons c cs)
  show ?case
  proof (cases "c = CHR 0x0A")
    case True
    with Cons.prems Cons.IH [of "[]"] set_strip_cr [of acc] show ?thesis by auto
  next
    case False
    with Cons.prems Cons.IH [of "c # acc"] show ?thesis by auto
  qed
qed

lemma lines_no_lf: "l \<in> set (lines s) \<Longrightarrow> CHR 0x0A \<notin> set l"
  using split_lf_no_lf [of "[]" l s] by (simp add: lines_def)

section \<open>Integers as text\<close>

definition digit_of :: "nat \<Rightarrow> u8 \<Rightarrow> nat option" where
  "digit_of radix c = (let v = byte_val c;
     d = (if 48 \<le> v \<and> v \<le> 57 then v - 48
          else if 97 \<le> v \<and> v \<le> 122 then v - 87
          else if 65 \<le> v \<and> v \<le> 90 then v - 55 else radix)
   in if d < radix then Some d else None)"

fun digits_acc :: "nat \<Rightarrow> nat \<Rightarrow> str \<Rightarrow> nat option" where
  "digits_acc radix a [] = Some a"
| "digits_acc radix a (c # cs) =
     (case digit_of radix c of None \<Rightarrow> None | Some d \<Rightarrow> digits_acc radix (a * radix + d) cs)"

definition digits :: "nat \<Rightarrow> str \<Rightarrow> nat option" where
  "digits radix s = (if s = [] then None else digits_acc radix 0 s)"

text \<open>\<open>from_str_radix\<close> of an unsigned type with the given largest value.\<close>

definition parse_unsigned :: "nat \<Rightarrow> nat \<Rightarrow> str \<Rightarrow> nat option" where
  "parse_unsigned mx radix s =
     (let ds = (case s of c # cs \<Rightarrow> if c = CHR ''+'' then cs else s | [] \<Rightarrow> s)
      in case digits radix ds of None \<Rightarrow> None | Some n \<Rightarrow> if n \<le> mx then Some n else None)"

text \<open>\<open>str::parse::<i32>\<close>.\<close>

definition parse_i32 :: "str \<Rightarrow> int option" where
  "parse_i32 s =
     (case s of [] \<Rightarrow> None
      | c # cs \<Rightarrow>
        if c = CHR ''-'' then
          (case digits 10 cs of None \<Rightarrow> None
           | Some n \<Rightarrow> if n \<le> 2 ^ 31 then Some (- int n) else None)
        else
          (case digits 10 (if c = CHR ''+'' then cs else s) of None \<Rightarrow> None
           | Some n \<Rightarrow> if int n \<le> i32_max then Some (int n) else None))"

lemma parse_i32_range: "parse_i32 s = Some v \<Longrightarrow> i32_min \<le> v \<and> v \<le> i32_max"
  by (auto simp: parse_i32_def split: list.splits option.splits if_splits)

text \<open>\<open>{:0kx}\<close>: \<open>k\<close> lowercase hexadecimal digits.\<close>

definition hex_digit :: "nat \<Rightarrow> u8" where
  "hex_digit n = (if n < 10 then byte_of (48 + n) else byte_of (87 + n))"

fun hex_pad :: "nat \<Rightarrow> nat \<Rightarrow> str" where
  "hex_pad 0 n = []"
| "hex_pad (Suc k) n = hex_pad k (n div 16) @ [hex_digit (n mod 16)]"

definition is_lower_hex :: "u8 \<Rightarrow> bool" where
  "is_lower_hex b = (let v = byte_val b in (48 \<le> v \<and> v \<le> 57) \<or> (97 \<le> v \<and> v \<le> 102))"

text \<open>\<open>n.to_string()\<close> for an unsigned integer.\<close>

fun dec :: "nat \<Rightarrow> str" where
  "dec n = (if n < 10 then [byte_of (48 + n)] else dec (n div 10) @ [byte_of (48 + n mod 10)])"

declare dec.simps [simp del]

text \<open>\<open>{:0k}\<close> for a number of at most \<open>k\<close> digits.\<close>

definition int_dec :: "int \<Rightarrow> str" where
  "int_dec i = (if i < 0 then CHR ''-'' # dec (nat (- i)) else dec (nat i))"

fun dec_pad :: "nat \<Rightarrow> nat \<Rightarrow> str" where
  "dec_pad 0 n = []"
| "dec_pad (Suc k) n = dec_pad k (n div 10) @ [byte_of (48 + n mod 10)]"

text \<open>\<open>{:x}\<close>.\<close>

fun hex_of :: "nat \<Rightarrow> str" where
  "hex_of n = (if n < 16 then [hex_digit n] else hex_of (n div 16) @ [hex_digit (n mod 16)])"

declare hex_of.simps [simp del]

lemma length_hex_pad [simp]: "length (hex_pad k n) = k"
  by (induction k arbitrary: n) auto

lemma byte_val_byte_of: "n < 256 \<Longrightarrow> byte_val (byte_of n) = n"
  by (simp add: of_char_of)

lemma hex_digit_lower: "n < 16 \<Longrightarrow> is_lower_hex (hex_digit n)"
  by (auto simp: is_lower_hex_def hex_digit_def byte_val_byte_of Let_def)

lemma hex_pad_lower: "\<forall>b\<in>set (hex_pad k n). is_lower_hex b"
  by (induction k arbitrary: n) (auto simp: hex_digit_lower)

lemma digit_of_hex_digit: "n < 16 \<Longrightarrow> digit_of 16 (hex_digit n) = Some n"
  by (auto simp: digit_of_def hex_digit_def byte_val_byte_of Let_def)

lemma digits_acc_append:
  "digits_acc r a (xs @ ys) = (case digits_acc r a xs of None \<Rightarrow> None | Some b \<Rightarrow> digits_acc r b ys)"
  by (induction xs arbitrary: a) (auto split: option.splits)

lemma digits_hex_pad: "n < 16 ^ k \<Longrightarrow> digits_acc 16 0 (hex_pad k n) = Some n"
proof (induction k arbitrary: n)
  case 0
  then show ?case by simp
next
  case (Suc k)
  then have "n div 16 < 16 ^ k" by (simp add: less_mult_imp_div_less mult.commute)
  with Suc.IH show ?case by (simp add: digits_acc_append digit_of_hex_digit)
qed

lemma hex_pad_inj: "n < 16 ^ k \<Longrightarrow> m < 16 ^ k \<Longrightarrow> hex_pad k n = hex_pad k m \<Longrightarrow> n = m"
  using digits_hex_pad by (metis option.inject)

lemma dec_nonempty: "dec n \<noteq> []"
  by (simp add: dec.simps [of n])

lemma digit_of_dec: "n < 10 \<Longrightarrow> digit_of 10 (byte_of (48 + n)) = Some n"
  by (auto simp: digit_of_def byte_val_byte_of Let_def)

lemma digits_acc_dec: "digits_acc 10 0 (dec n) = Some n"
proof (induction n rule: dec.induct)
  case (1 n)
  then show ?case
    by (cases "n < 10") (simp_all add: dec.simps [of n] digits_acc_append digit_of_dec)
qed

lemma dec_digits: "\<forall>b\<in>set (dec n). 48 \<le> byte_val b \<and> byte_val b \<le> 57"
proof (induction n rule: dec.induct)
  case (1 n)
  then show ?case
    by (cases "n < 10") (auto simp: dec.simps [of n] byte_val_byte_of)
qed

lemma dec_no_edge: "x \<in> set (dec n) \<Longrightarrow> x \<notin> set ws_edge"
  using dec_digits [of n] by (auto simp: ws_edge_def ascii_ws_def wide_ws_def)

lemma digits_dec: "digits 10 (dec n) = Some n"
  by (simp add: digits_def dec_nonempty digits_acc_dec)

lemma dec_inj: "dec m = dec n \<Longrightarrow> m = n"
  by (metis digits_dec option.inject)

lemma dec_hd: "48 \<le> byte_val (hd (dec n))" "byte_val (hd (dec n)) \<le> 57"
  using dec_digits [of n] dec_nonempty [of n] by auto

lemma parse_unsigned_dec: "n \<le> mx \<Longrightarrow> parse_unsigned mx 10 (dec n) = Some n"
proof -
  assume le: "n \<le> mx"
  obtain c cs where d: "dec n = c # cs" using dec_nonempty by (cases "dec n") auto
  have "c \<noteq> CHR ''+''" using dec_hd [of n] by (auto simp: d)
  then have "(case dec n of c # cs \<Rightarrow> if c = CHR ''+'' then cs else dec n | [] \<Rightarrow> dec n) = dec n"
    by (simp add: d)
  with le show ?thesis by (simp add: parse_unsigned_def digits_dec Let_def)
qed

lemma length_dec_pad [simp]: "length (dec_pad k n) = k"
  by (induction k arbitrary: n) auto

lemma digits_dec_pad: "n < 10 ^ k \<Longrightarrow> digits_acc 10 0 (dec_pad k n) = Some n"
proof (induction k arbitrary: n)
  case (Suc k)
  then have "n div 10 < 10 ^ k" by (simp add: less_mult_imp_div_less mult.commute)
  with Suc.IH show ?case by (simp add: digits_acc_append digit_of_dec)
qed simp

lemma dec_pad_digits: "b \<in> set (dec_pad k n) \<Longrightarrow> 48 \<le> byte_val b \<and> byte_val b \<le> 57"
  by (induction k arbitrary: n) (auto simp: byte_val_byte_of)

lemma hex_nonempty: "hex_of n \<noteq> []"
  by (simp add: hex_of.simps [of n])

lemma digits_hex: "digits 16 (hex_of n) = Some n"
proof -
  have "digits_acc 16 0 (hex_of n) = Some n"
  proof (induction n rule: hex_of.induct)
    case (1 n)
    then show ?case by (cases "n < 16") (simp_all add: hex_of.simps [of n] digits_acc_append digit_of_hex_digit)
  qed
  then show ?thesis by (simp add: digits_def hex_nonempty)
qed

lemma hex_lower: "b \<in> set (hex_of n) \<Longrightarrow> is_lower_hex b"
proof (induction n rule: hex_of.induct)
  case (1 n)
  then show ?case by (cases "n < 16") (auto simp: hex_of.simps [of n] hex_digit_lower)
qed

lemma parse_unsigned_hex: "n \<le> mx \<Longrightarrow> parse_unsigned mx 16 (hex_of n) = Some n"
proof -
  assume le: "n \<le> mx"
  obtain c cs where d: "hex_of n = c # cs" using hex_nonempty by (cases "hex_of n") auto
  have "c \<noteq> CHR ''+''" using hex_lower [of c n] by (auto simp: d is_lower_hex_def Let_def)
  then have "(case hex_of n of c # cs \<Rightarrow> if c = CHR ''+'' then cs else hex_of n | [] \<Rightarrow> hex_of n) = hex_of n"
    by (simp add: d)
  with le show ?thesis by (simp add: parse_unsigned_def digits_hex Let_def)
qed

lemma parse_i32_dec: "int n \<le> i32_max \<Longrightarrow> parse_i32 (dec n) = Some (int n)"
proof -
  assume le: "int n \<le> i32_max"
  obtain c cs where d: "dec n = c # cs" using dec_nonempty by (cases "dec n") auto
  have "c \<noteq> CHR ''+''" "c \<noteq> CHR ''-''" using dec_hd [of n] by (auto simp: d)
  with le show ?thesis using digits_dec [of n] by (simp add: parse_i32_def d)
qed

lemma parse_i32_neg_dec: "n \<le> 2 ^ 31 \<Longrightarrow> parse_i32 (CHR ''-'' # dec n) = Some (- int n)"
  by (simp add: parse_i32_def digits_dec)

section \<open>Characters\<close>

text \<open>\<open>s.chars()\<close>, each character as the bytes that encode it.\<close>

function chars :: "str \<Rightarrow> str list" where
  "chars s = (if s = [] then [] else take (fst (utf8_unit s)) s # chars (drop (fst (utf8_unit s)) s))"
  by pat_completeness auto
termination
  by (relation "measure length") (use utf8_unit_pos in \<open>auto simp: length_greater_0_conv\<close>)

declare chars.simps [simp del]

lemma ascii_unit: "byte_val c < 128 \<Longrightarrow> utf8_unit (c # s) = (1, True)"
  by simp

lemma take_chars_ascii: "\<forall>c\<in>set s. byte_val c < 128 \<Longrightarrow> take_chars n s = take n s"
proof (induction n arbitrary: s)
  case (Suc n)
  then show ?case by (cases s) (auto simp: ascii_unit simp del: utf8_unit.simps)
qed simp

lemma chars_ascii: "\<forall>c\<in>set s. byte_val c < 128 \<Longrightarrow> chars s = map (\<lambda>c. [c]) s"
  by (induction s) (auto simp: chars.simps [of "_ # _"] chars.simps [of "[]"] ascii_unit simp del: utf8_unit.simps)

lemma concat_chars: "concat (chars s) = s"
proof (induction s rule: chars.induct)
  case (1 s)
  then show ?case by (cases "s = []") (simp_all add: chars.simps [of s] chars.simps [of "[]"])
qed

definition is_char :: "str \<Rightarrow> bool" where
  "is_char u \<longleftrightarrow> u \<noteq> [] \<and> utf8_unit u = (length u, True)"

lemma is_char_ascii: "byte_val c < 128 \<Longrightarrow> is_char [c]"
  by (simp add: is_char_def)

lemma chars_Cons: "is_char u \<Longrightarrow> chars (u @ s) = u # chars s"
  using utf8_unit_append [of u s] by (simp add: is_char_def chars.simps [of "u @ s"])

lemma chars_concat: "\<forall>u\<in>set us. is_char u \<Longrightarrow> chars (concat us) = us"
  by (induction us) (simp_all add: chars_Cons chars.simps [of "[]"])

lemma chars_valid: "utf8_valid s \<Longrightarrow> u \<in> set (chars s) \<Longrightarrow> is_char u"
proof (induction s rule: chars.induct)
  case (1 s)
  show ?case
  proof (cases "s = []")
    case False
    have ok: "snd (utf8_unit s)" using utf8_valid_unit [OF 1(2) False] .
    have "take (fst (utf8_unit s)) s \<noteq> []" using utf8_unit_pos [OF False] False by simp
    then have "is_char (take (fst (utf8_unit s)) s)"
      using utf8_unit_append [OF ok False, of "[]"] utf8_unit_le [of s] by (simp add: is_char_def)
    with 1 False utf8_valid_drop_unit [OF 1(2)] show ?thesis by (auto simp: chars.simps [of s])
  qed (use 1 in \<open>simp add: chars.simps [of "[]"]\<close>)
qed

end
