(* ===== verification/Records.thy ===== *)
theory Records
  imports Rust_Text
begin

text \<open>
  The data every component exchanges, from \<open>aic-common/src/lib.rs\<close>: capture modes and
  qualities, command records, session registry entries; the identifiers of
  \<open>aic-common/src/session.rs\<close>; and the branch the client takes on a record
  (\<open>aic-client/src/auto_brancher.rs\<close>). Random values are arguments: \<open>generate_record_id v\<close>
  is the id made from the random \<open>u64\<close> value \<open>v\<close>.

  The interface of the stores of recent things is here too: the locale \<open>bounded_log\<close> states
  what a bounded store promises about the history of what was pushed into it.
\<close>

section \<open>Command records\<close>

datatype capture_mode = Pty | Hook | ExplicitCapture

datatype capture_quality =
  FullOutput | MetadataOnly | RedactedOutput | BinaryOmitted | TruncatedOutput | QualityUnknown

fun mode_short_label :: "capture_mode \<Rightarrow> str" where
  "mode_short_label Pty = ''pty''"
| "mode_short_label Hook = ''hook''"
| "mode_short_label ExplicitCapture = ''run''"

fun quality_short_label :: "capture_quality \<Rightarrow> str" where
  "quality_short_label FullOutput = ''full''"
| "quality_short_label MetadataOnly = ''meta''"
| "quality_short_label RedactedOutput = ''redact''"
| "quality_short_label BinaryOmitted = ''bin''"
| "quality_short_label TruncatedOutput = ''trunc''"
| "quality_short_label QualityUnknown = ''?''"

record output_metadata =
  original_bytes :: "nat option"
  stored_bytes :: nat
  stored_lines :: nat
  om_truncated :: bool
  om_binary :: bool
  om_sha256 :: "str option"
  original_exit_code :: "int option"

record command_record =
  cr_id :: str
  cr_command :: "str option"
  cr_exit_code :: int
  cr_output_lines :: "str list"
  cr_timestamp :: datetime
  cr_capture_mode :: capture_mode
  cr_capture_quality :: capture_quality
  cr_output_metadata :: "output_metadata option"
  cr_cwd :: "str option"
  cr_duration_ms :: "nat option"

definition default_record :: command_record where
  "default_record = \<lparr>cr_id = [], cr_command = None, cr_exit_code = 0, cr_output_lines = [],
     cr_timestamp = 0, cr_capture_mode = Pty, cr_capture_quality = QualityUnknown,
     cr_output_metadata = None, cr_cwd = None, cr_duration_ms = None\<rparr>"

section \<open>Capture hints\<close>

datatype session_capture_mode = SessPty | SessHook | SessHybrid

text \<open>
  Which hint is shown: the constructors stand for the texts, with what is interpolated into
  them (no command means the source's placeholder for the previous command).
\<close>

datatype quality_hint =
  HintRerunHybrid "str option" | HintRerun "str option" | HintTruncated | HintBinary | HintRedacted

definition capture_quality_hint :: "command_record \<Rightarrow> session_capture_mode \<Rightarrow> quality_hint option" where
  "capture_quality_hint r mode =
     (case cr_capture_quality r of
        FullOutput \<Rightarrow> None
      | QualityUnknown \<Rightarrow> None
      | MetadataOnly \<Rightarrow>
          Some (case mode of SessHybrid \<Rightarrow> HintRerunHybrid (cr_command r) | _ \<Rightarrow> HintRerun (cr_command r))
      | TruncatedOutput \<Rightarrow> Some HintTruncated
      | BinaryOmitted \<Rightarrow> Some HintBinary
      | RedactedOutput \<Rightarrow> Some HintRedacted)"

section \<open>Sessions\<close>

datatype session_state = Creating | Attached | Detached | Stopping | Stopped | Failed

record session_info =
  si_id :: str
  si_pid :: u32
  si_state :: session_state
  si_created_at :: datetime
  si_last_seen_at :: "datetime option"
  si_last_command_at :: "datetime option"
  si_attached_tty :: "str option"
  si_shell :: "str option"
  si_cwd :: "str option"
  si_label :: "str option"

section \<open>Identifiers\<close>

definition generate_session_id :: "u32 \<Rightarrow> str" where
  "generate_session_id v = hex_pad 8 (unat v)"

definition generate_record_id :: "u64 \<Rightarrow> str" where
  "generate_record_id v = hex_pad 16 (unat v)"

definition is_valid_record_id :: "str \<Rightarrow> bool" where
  "is_valid_record_id i \<longleftrightarrow> 1 \<le> length i \<and> length i \<le> 16 \<and> list_all is_lower_hex i"

definition is_valid_session_id :: "str \<Rightarrow> bool" where
  "is_valid_session_id i \<longleftrightarrow> 1 \<le> length i \<and> length i \<le> 8 \<and> list_all is_lower_hex i"

text \<open>
  \<open>rnd\<close> supplies the random values of the attempts; \<open>in_use\<close> stands for the scan of the
  runtime directories for a session of that id.
\<close>

fun generate_unused_session_id :: "nat \<Rightarrow> (nat \<Rightarrow> u32) \<Rightarrow> (str \<Rightarrow> bool) \<Rightarrow> str option" where
  "generate_unused_session_id 0 rnd in_use = None"
| "generate_unused_session_id (Suc k) rnd in_use =
     (let i = generate_session_id (rnd 0) in
      if \<not> in_use i then Some i else generate_unused_session_id k (\<lambda>n. rnd (Suc n)) in_use)"

section \<open>Branching on the exit code\<close>

datatype execution_mode = ErrorAnalysis command_record | InteractiveRepl command_record

definition determine_mode :: "command_record \<Rightarrow> execution_mode" where
  "determine_mode r = (if cr_exit_code r \<noteq> 0 then ErrorAnalysis r else InteractiveRepl r)"

section \<open>Facts about the identifiers\<close>

lemma length_generate_record_id [simp]: "length (generate_record_id v) = 16"
  by (simp add: generate_record_id_def)

lemma generate_record_id_nonempty [simp]: "generate_record_id v \<noteq> []"
  using length_generate_record_id [of v] by (metis length_0_conv zero_neq_numeral)

lemma generate_record_id_valid: "is_valid_record_id (generate_record_id v)"
  using hex_pad_lower [of 16 "unat v"]
  by (simp add: is_valid_record_id_def generate_record_id_def list_all_iff)

lemma generate_record_id_inj: "generate_record_id v = generate_record_id w \<Longrightarrow> v = w"
  using unat64_less [of v] unat64_less [of w]
  by (auto simp: generate_record_id_def word_unat_eq_iff dest!: hex_pad_inj [rotated 2])

lemma generate_session_id_valid: "is_valid_session_id (generate_session_id v)"
  using hex_pad_lower [of 8 "unat v"]
  by (simp add: is_valid_session_id_def generate_session_id_def list_all_iff)

lemma generate_unused_session_id_Some:
  "generate_unused_session_id k rnd in_use = Some i \<Longrightarrow> is_valid_session_id i \<and> \<not> in_use i"
  by (induction k rnd in_use rule: generate_unused_session_id.induct)
    (auto simp: Let_def generate_session_id_valid split: if_splits)

section \<open>The tail of the output lines of a list of records\<close>

text \<open>
  The loop that \<open>RingBuffer::recent_lines\<close> and \<open>tail_flatten_output_lines\<close> share: walk the
  records from the newest, push their lines in reverse until \<open>remaining\<close> are collected.
\<close>

fun collect_tail :: "str list list \<Rightarrow> nat \<Rightarrow> str list \<Rightarrow> str list" where
  "collect_tail [] remaining collected = collected"
| "collect_tail (ls # rest) remaining collected =
     (let (collected', remaining') =
        (if length ls \<le> remaining then (collected @ rev ls, remaining - length ls)
         else (collected @ rev (drop (length ls - remaining) ls), 0))
      in if remaining' = 0 then collected' else collect_tail rest remaining' collected')"

definition last_n :: "nat \<Rightarrow> 'a list \<Rightarrow> 'a list" where
  "last_n n xs = drop (length xs - n) xs"

lemma collect_tail_eq:
  "collect_tail rs n acc = acc @ take n (concat (map rev rs))"
proof (induction rs n acc rule: collect_tail.induct)
  case (1 remaining collected)
  then show ?case by simp
next
  case (2 ls rest remaining collected)
  show ?case
  proof (cases "length ls \<le> remaining")
    case True
    with "2.IH" show ?thesis by (auto simp: Let_def)
  next
    case False
    then have "rev (drop (length ls - remaining) ls) = take remaining (rev ls)"
      by (simp add: rev_drop)
    with False show ?thesis by simp
  qed
qed

lemma rev_take_rev_concat: "rev (take n (concat (map rev (rev xss)))) = last_n n (concat xss)"
proof -
  have "concat (map rev (rev xss)) = rev (concat xss)"
    by (simp add: rev_concat rev_map)
  then show ?thesis by (simp add: last_n_def take_rev)
qed

lemma collect_tail_last_n: "rev (collect_tail (rev xss) n []) = last_n n (concat xss)"
  by (simp add: collect_tail_eq rev_take_rev_concat)

lemma last_n_suffix: "suffix (last_n n xs) xs"
  by (simp add: last_n_def suffix_drop)

lemma length_last_n [simp]: "length (last_n n xs) = min n (length xs)"
  by (auto simp: last_n_def)

lemma last_n_0 [simp]: "last_n 0 xs = []"
  by (simp add: last_n_def)

section \<open>What a bounded store promises\<close>

text \<open>
  A store that keeps the most recent of what is pushed into it. \<open>kept\<close> is the list of what
  it holds, oldest first; a push that is not \<open>accepted\<close> leaves the store as it was, and an
  accepted one drops a prefix of the old contents and adds the new element at the end.
\<close>

fun accepted_of :: "('s \<Rightarrow> 'r \<Rightarrow> bool) \<Rightarrow> ('s \<Rightarrow> 'r \<Rightarrow> 's) \<Rightarrow> 's \<Rightarrow> 'r list \<Rightarrow> 'r list" where
  "accepted_of acc psh s [] = []"
| "accepted_of acc psh s (x # xs) =
     (if acc s x then [x] else []) @ accepted_of acc psh (psh s x) xs"

lemma accepted_of_all: "(\<And>s x. acc s x) \<Longrightarrow> accepted_of acc psh s xs = xs"
  by (induction xs arbitrary: s) auto

locale bounded_log =
  fixes kept :: "'s \<Rightarrow> 'r list"
    and push :: "'s \<Rightarrow> 'x \<Rightarrow> 's"
    and stored :: "'x \<Rightarrow> 'r"
    and accepts :: "'s \<Rightarrow> 'x \<Rightarrow> bool"
    and inv :: "'s \<Rightarrow> bool"
  assumes inv_push: "inv s \<Longrightarrow> inv (push s x)"
    and push_rejected: "inv s \<Longrightarrow> \<not> accepts s x \<Longrightarrow> kept (push s x) = kept s"
    and push_accepted: "inv s \<Longrightarrow> accepts s x \<Longrightarrow>
          \<exists>d\<le>length (kept s). kept (push s x) = drop d (kept s) @ [stored x]"
begin

lemma inv_fold: "inv s \<Longrightarrow> inv (foldl push s xs)"
  by (induction xs arbitrary: s) (auto intro: inv_push)

lemma kept_push_suffix:
  "inv s \<Longrightarrow> suffix (kept (push s x)) (kept s @ (if accepts s x then [stored x] else []))"
proof (cases "accepts s x")
  case True
  assume "inv s"
  with True obtain d where "kept (push s x) = drop d (kept s) @ [stored x]" using push_accepted by blast
  with True show ?thesis by (simp add: suffix_drop)
next
  case False
  assume "inv s"
  with False show ?thesis using push_rejected by simp
qed

lemma kept_is_suffix_of_history:
  "inv s \<Longrightarrow> suffix (kept (foldl push s xs)) (kept s @ map stored (accepted_of accepts push s xs))"
proof (induction xs arbitrary: s)
  case Nil
  then show ?case by simp
next
  case (Cons x xs)
  let ?new = "if accepts s x then [stored x] else []"
  let ?rest = "map stored (accepted_of accepts push (push s x) xs)"
  from Cons.prems have "inv (push s x)" by (rule inv_push)
  then have "suffix (kept (foldl push (push s x) xs)) (kept (push s x) @ ?rest)"
    by (rule Cons.IH)
  moreover have "suffix (kept (push s x) @ ?rest) ((kept s @ ?new) @ ?rest)"
    using kept_push_suffix [OF Cons.prems, of x] by (simp only: same_suffix_suffix)
  ultimately have "suffix (kept (foldl push (push s x) xs)) ((kept s @ ?new) @ ?rest)"
    by (rule suffix_order.trans)
  then show ?case by (auto split: if_splits)
qed

lemma last_after_accepted_push:
  "inv s \<Longrightarrow> accepts s x \<Longrightarrow> kept (push s x) \<noteq> [] \<and> last (kept (push s x)) = stored x"
  using push_accepted by force

end

text \<open>
  A bounded store that also announces what it takes: \<open>tap\<close> lists the announcements so far.
\<close>

locale tapped_log = bounded_log +
  fixes tap :: "'a \<Rightarrow> 'b list"
  assumes tap_push: "inv s \<Longrightarrow> tap (push s x) = tap s @ (if accepts s x then [stored x] else [])"
begin

lemma tap_is_accepted_history:
  "inv s \<Longrightarrow> tap (foldl push s xs) = tap s @ map stored (accepted_of accepts push s xs)"
  by (induction xs arbitrary: s) (auto simp: tap_push inv_push)

lemma kept_is_suffix_of_tap: "inv s \<Longrightarrow> kept s = [] \<Longrightarrow> tap s = [] \<Longrightarrow>
    suffix (kept (foldl push s xs)) (tap (foldl push s xs))"
  using kept_is_suffix_of_history [of s xs] tap_is_accepted_history [of s xs] by simp

end

end
