(* ===== verification/Boundary_Detector.thy ===== *)
theory Boundary_Detector
  imports Records
begin

text \<open>
  Command boundaries in the terminal stream (\<open>aic-server/src/boundary_detector.rs\<close>). Lines
  and OSC 133 markers are fed one by one; a completed command comes back as a record. The
  clock readings of a call (\<open>Instant::now\<close> for the timing strategy, \<open>Utc::now\<close> for the
  record) are its first two arguments. Feeding a line can panic: the command text of a
  \<open>C;cmd=\<close> marker is cut at a byte offset that need not be a character boundary.
\<close>

section \<open>Markers\<close>

definition osc_prompt_start :: str where
  "osc_prompt_start = CHR 0x1B # '']133;A'' @ [CHR 0x07]"

definition osc_command_start :: str where
  "osc_command_start = CHR 0x1B # '']133;B'' @ [CHR 0x07]"

definition osc_output_start :: str where
  "osc_output_start = CHR 0x1B # '']133;C'' @ [CHR 0x07]"

definition osc_command_with_text_prefix :: str where
  "osc_command_with_text_prefix = CHR 0x1B # '']133;C;cmd=''"

definition osc_completion_prefix :: str where
  "osc_completion_prefix = CHR 0x1B # '']133;D;''"

definition osc_completion_suffix :: u8 where
  "osc_completion_suffix = CHR 0x07"

definition max_command_hex_len :: nat where
  "max_command_hex_len = 8192"

definition parse_completion_marker :: "str \<Rightarrow> int option" where
  "parse_completion_marker line =
     (case find_sub osc_completion_prefix line of None \<Rightarrow> None
      | Some start \<Rightarrow>
        (let rest = drop (start + length osc_completion_prefix) line in
         case find_byte (\<lambda>b. b = osc_completion_suffix) rest of None \<Rightarrow> None
         | Some e \<Rightarrow> parse_i32 (take e rest)))"

text \<open>The loop over the byte pairs of the hexadecimal text.\<close>

fun hex_pairs :: "bytes \<Rightarrow> bytes option" where
  "hex_pairs (a # b # r) =
     (if \<not> utf8_valid [a, b] then None
      else case parse_unsigned 255 16 [a, b] of None \<Rightarrow> None
           | Some n \<Rightarrow> map_option (Cons (byte_of n)) (hex_pairs r))"
| "hex_pairs _ = Some []"

definition decode_hex_command :: "str \<Rightarrow> str option rs" where
  "decode_hex_command h0 =
     (let hex = trim h0 in
      if hex = [] \<or> odd (length hex) then Val None
      else rs_bind (slice_to hex (min (length hex) max_command_hex_len))
        (\<lambda>hex'. Val
          (case hex_pairs hex' of None \<Rightarrow> None
           | Some bs \<Rightarrow> if \<not> utf8_valid bs then None
               else (let command = trim bs in if command = [] then None else Some command))))"

text \<open>
  \<open>None\<close>: no command marker. \<open>Some None\<close>: a command marker with no readable text.
\<close>

definition parse_command_marker :: "str \<Rightarrow> str option option rs" where
  "parse_command_marker line =
     (case find_sub osc_command_with_text_prefix line of
        Some start \<Rightarrow>
          (let rest = drop (start + length osc_command_with_text_prefix) line in
           case find_byte (\<lambda>b. b = osc_completion_suffix) rest of None \<Rightarrow> Val None
           | Some e \<Rightarrow> rs_bind (decode_hex_command (take e rest)) (\<lambda>c. Val (Some c)))
      | None \<Rightarrow> if contains line osc_output_start then Val (Some None) else Val None)"

section \<open>Detector\<close>

datatype boundary_strategy = PromptMarker str | TimingHeuristic nat

record detector =
  d_strategy :: boundary_strategy
  d_current_output :: "str list"
  d_current_command :: "str option"
  d_last_exit_code :: "int option"
  d_last_line_time :: "instant option"
  d_has_output :: bool

definition detector_new :: "boundary_strategy \<Rightarrow> detector" where
  "detector_new st = \<lparr>d_strategy = st, d_current_output = [], d_current_command = None,
     d_last_exit_code = None, d_last_line_time = None, d_has_output = False\<rparr>"

definition set_exit_code :: "detector \<Rightarrow> int \<Rightarrow> detector" where
  "set_exit_code d code = d\<lparr>d_last_exit_code := Some code\<rparr>"

definition reset_state :: "detector \<Rightarrow> detector" where
  "reset_state d = d\<lparr>d_current_output := [], d_current_command := None,
     d_last_exit_code := None, d_has_output := False\<rparr>"

definition finalize_record :: "datetime \<Rightarrow> detector \<Rightarrow> int \<Rightarrow> detector \<times> command_record option" where
  "finalize_record utc d exit_code =
     (if d_current_output d = [] \<and> (d_current_command d = None \<or> exit_code = 0)
      then (reset_state d, None)
      else (reset_state d, Some (default_record\<lparr>cr_command := d_current_command d,
              cr_exit_code := exit_code, cr_output_lines := d_current_output d,
              cr_timestamp := utc\<rparr>)))"

definition feed_line_prompt_marker ::
  "datetime \<Rightarrow> detector \<Rightarrow> str \<Rightarrow> (detector \<times> command_record option) rs" where
  "feed_line_prompt_marker utc d line =
     (case parse_completion_marker line of
        Some exit_code \<Rightarrow> Val (finalize_record utc d exit_code)
      | None \<Rightarrow>
        if contains line osc_prompt_start then
          (if d_has_output d
           then Val (finalize_record utc d (case d_last_exit_code d of None \<Rightarrow> 0 | Some c \<Rightarrow> c))
           else Val (d, None))
        else rs_bind (parse_command_marker line) (\<lambda>m.
          case m of
            Some (Some command) \<Rightarrow> Val (d\<lparr>d_current_command := Some command\<rparr>, None)
          | Some None \<Rightarrow> Val (d, None)
          | None \<Rightarrow>
            if contains line osc_command_start then Val (d, None)
            else Val (d\<lparr>d_current_output := d_current_output d @ [line], d_has_output := True\<rparr>, None)))"

definition feed_line_timing ::
  "instant \<Rightarrow> datetime \<Rightarrow> detector \<Rightarrow> str \<Rightarrow> nat \<Rightarrow> detector \<times> command_record option" where
  "feed_line_timing now utc d line idle_threshold =
     (let (d', result) =
        (case d_last_line_time d of
           Some last_time \<Rightarrow>
             if idle_threshold \<le> now - last_time \<and> d_has_output d
             then finalize_record utc d (case d_last_exit_code d of None \<Rightarrow> 0 | Some c \<Rightarrow> c)
             else (d, None)
         | None \<Rightarrow> (d, None))
      in (d'\<lparr>d_current_output := d_current_output d' @ [line], d_has_output := True,
             d_last_line_time := Some now\<rparr>, result))"

definition feed_line ::
  "instant \<Rightarrow> datetime \<Rightarrow> detector \<Rightarrow> str \<Rightarrow> (detector \<times> command_record option) rs" where
  "feed_line now utc d line =
     (case d_strategy d of
        PromptMarker _ \<Rightarrow> feed_line_prompt_marker utc d line
      | TimingHeuristic idle_threshold \<Rightarrow> Val (feed_line_timing now utc d line idle_threshold))"

text \<open>A caller's loop over lines, collecting the completed records, at one clock reading.\<close>

fun feed_lines ::
  "instant \<Rightarrow> datetime \<Rightarrow> detector \<Rightarrow> str list \<Rightarrow> (detector \<times> command_record list) rs" where
  "feed_lines now utc d [] = Val (d, [])"
| "feed_lines now utc d (l # ls) =
     rs_bind (feed_line now utc d l) (\<lambda>(d', r).
       rs_bind (feed_lines now utc d' ls) (\<lambda>(d'', rs).
         Val (d'', (case r of None \<Rightarrow> rs | Some x \<Rightarrow> x # rs))))"

section \<open>Lemmas on the markers\<close>

definition esc_free :: "str \<Rightarrow> bool" where
  "esc_free s \<longleftrightarrow> CHR 0x1B \<notin> set s"

lemma sublist_set: "sublist xs ys \<Longrightarrow> set xs \<subseteq> set ys"
  by (auto simp: sublist_def)

lemma esc_free_no_marker:
  assumes "esc_free line"
  shows "find_sub osc_completion_prefix line = None"
    and "find_sub osc_command_with_text_prefix line = None"
    and "\<not> contains line osc_prompt_start"
    and "\<not> contains line osc_output_start"
    and "\<not> contains line osc_command_start"
  using assms sublist_set
  by (fastforce simp: find_sub_None contains_sublist esc_free_def osc_completion_prefix_def
      osc_command_with_text_prefix_def osc_prompt_start_def osc_output_start_def osc_command_start_def)+

text \<open>The marker the shell hook prints when a command completes.\<close>

definition completion_marker :: "str \<Rightarrow> str" where
  "completion_marker code = osc_completion_prefix @ code @ [osc_completion_suffix]"

definition command_marker :: "str \<Rightarrow> str" where
  "command_marker hex = osc_command_with_text_prefix @ hex @ [osc_completion_suffix]"

lemma parse_completion_marker_of:
  assumes "CHR 0x07 \<notin> set code"
  shows "parse_completion_marker (completion_marker code) = parse_i32 code"
proof -
  have "find_byte (\<lambda>b. b = osc_completion_suffix) (code @ [osc_completion_suffix]) = Some (length code)"
    using assms by (intro find_byte_append) (auto simp: osc_completion_suffix_def)
  then show ?thesis by (simp add: parse_completion_marker_def completion_marker_def)
qed

lemma parse_command_marker_of:
  assumes "CHR 0x07 \<notin> set hex"
  shows "parse_command_marker (command_marker hex) = rs_bind (decode_hex_command hex) (\<lambda>c. Val (Some c))"
proof -
  have "find_byte (\<lambda>b. b = osc_completion_suffix) (hex @ [osc_completion_suffix]) = Some (length hex)"
    using assms by (intro find_byte_append) (auto simp: osc_completion_suffix_def)
  then show ?thesis by (simp add: parse_command_marker_def command_marker_def)
qed

text \<open>A command marker whose text holds no escape is nothing but a command marker.\<close>

lemma prefix_esc:
  assumes "esc_free x" "sublist (CHR 0x1B # p) (CHR 0x1B # x)"
  shows "prefix p x"
proof -
  have "\<not> sublist (CHR 0x1B # p) x"
    using assms(1) sublist_set [of "CHR 0x1B # p" x] by (auto simp: esc_free_def)
  with assms(2) show ?thesis by (simp add: sublist_Cons_right)
qed

lemma command_marker_alone:
  assumes "esc_free hex"
  shows "parse_completion_marker (command_marker hex) = None"
    and "\<not> contains (command_marker hex) osc_prompt_start"
proof -
  let ?x = "'']133;C;cmd='' @ hex @ [osc_completion_suffix]"
  have e: "esc_free ?x" using assms by (simp add: esc_free_def osc_completion_suffix_def)
  have m: "command_marker hex = CHR 0x1B # ?x"
    by (simp add: command_marker_def osc_command_with_text_prefix_def)
  have "\<not> sublist osc_completion_prefix (command_marker hex)"
    using prefix_esc [OF e, of "'']133;D;''"] by (auto simp: m osc_completion_prefix_def)
  then show "parse_completion_marker (command_marker hex) = None"
    by (simp add: parse_completion_marker_def find_sub_None [symmetric])
  show "\<not> contains (command_marker hex) osc_prompt_start"
    using prefix_esc [OF e, of "'']133;A'' @ [CHR 0x07]"]
    by (auto simp: m contains_sublist osc_prompt_start_def)
qed

lemma feed_plain_line:
  assumes "esc_free line" "d_strategy d = PromptMarker m"
  shows "feed_line now utc d line =
    Val (d\<lparr>d_current_output := d_current_output d @ [line], d_has_output := True\<rparr>, None)"
  using assms esc_free_no_marker [OF assms(1)]
  by (simp add: feed_line_def feed_line_prompt_marker_def parse_completion_marker_def parse_command_marker_def)

lemma feed_plain_lines:
  assumes "\<forall>l\<in>set ls. esc_free l" "d_strategy d = PromptMarker m"
  shows "feed_lines now utc d ls =
    Val (d\<lparr>d_current_output := d_current_output d @ ls, d_has_output := (d_has_output d \<or> ls \<noteq> [])\<rparr>, [])"
  using assms
proof (induction ls arbitrary: d)
  case Nil
  then show ?case by simp
next
  case (Cons l ls)
  then show ?case by (simp add: feed_plain_line)
qed

lemma feed_lines_append:
  "feed_lines now utc d (xs @ ys) =
     rs_bind (feed_lines now utc d xs) (\<lambda>(d', rs).
       rs_bind (feed_lines now utc d' ys) (\<lambda>(d'', rs'). Val (d'', rs @ rs')))"
proof (induction xs arbitrary: d)
  case Nil
  then show ?case by (cases "feed_lines now utc d ys") auto
next
  case (Cons x xs)
  show ?case
  proof (cases "feed_line now utc d x")
    case first: (Val p)
    obtain d1 r where p: "p = (d1, r)" by (cases p)
    show ?thesis
    proof (cases "feed_lines now utc d1 xs")
      case second: (Val q)
      obtain d2 rs where "q = (d2, rs)" by (cases q)
      with first second p show ?thesis
        by (cases "feed_lines now utc d2 ys") (auto simp: Cons.IH split: option.splits)
    qed (simp add: first p Cons.IH)
  qed simp
qed

section \<open>The command text\<close>

text \<open>
  What the shell hook sends for a command: two lowercase hexadecimal digits per byte.
\<close>

definition hex_text :: "bytes \<Rightarrow> str" where
  "hex_text cmd = concat (map (\<lambda>b. hex_pad 2 (byte_val b)) cmd)"

lemma length_hex_text [simp]: "length (hex_text cmd) = 2 * length cmd"
  by (induction cmd) (simp_all add: hex_text_def)

lemma take_hex_text: "take (2 * n) (hex_text cmd) = hex_text (take n cmd)"
proof (induction cmd arbitrary: n)
  case Nil
  then show ?case by (simp add: hex_text_def)
next
  case (Cons b cmd)
  have "hex_text (b # cmd) = hex_pad 2 (byte_val b) @ hex_text cmd" by (simp add: hex_text_def)
  with Cons show ?case by (cases n) (auto simp: hex_text_def)
qed

lemma hex_text_lower: "\<forall>b\<in>set (hex_text cmd). is_lower_hex b"
  using hex_pad_lower by (auto simp: hex_text_def)

lemma is_lower_hex_bytes: "is_lower_hex b \<Longrightarrow> b \<notin> set ws_edge \<and> b \<noteq> CHR ''+'' \<and> b \<noteq> CHR 0x07 \<and> b \<noteq> CHR 0x1B \<and> byte_val b < 128"
  by (auto simp: is_lower_hex_def ws_edge_def ascii_ws_def wide_ws_def Let_def)

lemma trim_hex_text: "trim (hex_text cmd) = hex_text cmd"
proof (rule trim_no_edge)
  show "hex_text cmd = [] \<or> hd (hex_text cmd) \<notin> set ws_edge \<and> last (hex_text cmd) \<notin> set ws_edge"
    using hex_text_lower [of cmd] is_lower_hex_bytes by (metis hd_in_set last_in_set)
qed

lemma hex_pairs_hex_text: "hex_pairs (hex_text cmd) = Some cmd"
proof (induction cmd)
  case Nil
  then show ?case by (simp add: hex_text_def)
next
  case (Cons b cmd)
  let ?n = "byte_val b"
  obtain x y where xy: "hex_pad 2 ?n = [x, y]"
    by (simp add: numeral_2_eq_2)
  have lo: "is_lower_hex x" "is_lower_hex y" using hex_pad_lower [of 2 ?n] by (simp_all add: xy)
  have "digits_acc 16 0 [x, y] = Some ?n"
    using digits_hex_pad [of ?n 2] by (simp add: xy del: digits_acc.simps)
  then have "parse_unsigned 255 16 [x, y] = Some ?n"
    using is_lower_hex_bytes [OF lo(1)] less_Suc_eq_le [of ?n 255]
    by (simp add: parse_unsigned_def digits_def del: digits_acc.simps)
  moreover have "utf8_valid [x, y]" using lo by (intro utf8_valid_ascii) (auto dest: is_lower_hex_bytes)
  moreover have "hex_text (b # cmd) = x # y # hex_text cmd" by (simp add: hex_text_def xy)
  ultimately show ?case using Cons by simp
qed

lemma slice_to_hex_text: "slice_to (hex_text cmd) (min (2 * length cmd) 8192) = Val (hex_text (take 4096 cmd))"
proof (cases "length cmd \<le> 4096")
  case True
  then show ?thesis by (simp add: slice_to_def is_char_boundary_def)
next
  case False
  then have "8192 < length (hex_text cmd)" by simp
  then have "is_lower_hex (hex_text cmd ! 8192)" using hex_text_lower nth_mem by blast
  then have "\<not> is_cont (byte_val (hex_text cmd ! 8192))"
    using is_lower_hex_bytes by (fastforce simp: is_cont_def)
  with False take_hex_text [of 4096 cmd] show ?thesis
    by (simp add: slice_to_def is_char_boundary_def min_def)
qed

lemma decode_hex_command_hex_text:
  "decode_hex_command (hex_text cmd) = Val
     (if cmd \<noteq> [] \<and> utf8_valid (take 4096 cmd) \<and> trim (take 4096 cmd) \<noteq> []
      then Some (trim (take 4096 cmd)) else None)"
proof (cases "cmd = []")
  case True
  then show ?thesis by (simp add: decode_hex_command_def hex_text_def)
next
  case False
  then have "hex_text cmd \<noteq> []" using length_hex_text [of cmd] by fastforce
  with False show ?thesis
    by (simp add: decode_hex_command_def trim_hex_text max_command_hex_len_def slice_to_hex_text
        hex_pairs_hex_text Let_def)
qed

lemma decode_hex_command_Panic:
  "decode_hex_command h = Panic \<longleftrightarrow>
     even (length (trim h)) \<and> 8192 < length (trim h) \<and> is_cont (byte_val (trim h ! 8192))"
proof -
  have "decode_hex_command h = Panic \<longleftrightarrow> trim h \<noteq> [] \<and> even (length (trim h)) \<and>
      slice_to (trim h) (min (length (trim h)) 8192) = Panic"
    by (cases "slice_to (trim h) (min (length (trim h)) 8192)")
      (simp_all add: decode_hex_command_def max_command_hex_len_def Let_def)
  then show ?thesis by (auto simp: slice_to_def is_char_boundary_def min_def split: if_splits)
qed

section \<open>A whole command\<close>

text \<open>The exit code as the shell prints it.\<close>

definition int_text :: "int \<Rightarrow> str" where
  "int_text c = (if c < 0 then CHR ''-'' # dec (nat (- c)) else dec (nat c))"

lemma parse_i32_int_text: "i32_min \<le> c \<Longrightarrow> c \<le> i32_max \<Longrightarrow> parse_i32 (int_text c) = Some c"
  using parse_i32_dec [of "nat c"] parse_i32_neg_dec [of "nat (- c)"]
  by (auto simp: int_text_def nat_le_iff)

lemma int_text_bytes: "CHR 0x07 \<notin> set (int_text c)"
  using dec_digits [of "nat (- c)"] dec_digits [of "nat c"] by (auto simp: int_text_def)

definition idle :: "detector \<Rightarrow> bool" where
  "idle d \<longleftrightarrow> d_current_output d = [] \<and> d_current_command d = None \<and>
     d_last_exit_code d = None \<and> \<not> d_has_output d"

lemma hex_text_free: "esc_free (hex_text cmd)" "CHR 0x07 \<notin> set (hex_text cmd)"
  using hex_text_lower [of cmd] is_lower_hex_bytes by (auto simp: esc_free_def)

lemma feed_command_marker:
  assumes "d_strategy d = PromptMarker m" "decode_hex_command (hex_text cmd) = Val c"
  shows "feed_line now utc d (command_marker (hex_text cmd)) =
    Val (case c of None \<Rightarrow> d | Some t \<Rightarrow> d\<lparr>d_current_command := Some t\<rparr>, None)"
  using assms command_marker_alone [OF hex_text_free(1), of cmd]
    parse_command_marker_of [OF hex_text_free(2), of cmd]
  by (simp add: feed_line_def feed_line_prompt_marker_def split: option.splits)

lemma feed_completion_marker:
  assumes "d_strategy d = PromptMarker m" "i32_min \<le> code" "code \<le> i32_max"
  shows "feed_line now utc d (completion_marker (int_text code)) = Val (finalize_record utc d code)"
  using assms parse_completion_marker_of [OF int_text_bytes, of code] parse_i32_int_text [of code]
  by (simp add: feed_line_def feed_line_prompt_marker_def)

lemma reset_state_idle: "idle (reset_state d)"
  by (simp add: idle_def reset_state_def)

lemma reset_state_eq: "idle d \<Longrightarrow> reset_state d = d"
  by (simp add: idle_def reset_state_def)

section \<open>Properties\<close>

text \<open>
  Further property (roundtrip). The hexadecimal command text a shell hook sends decodes to the command, cut
  to its first 4096 bytes and trimmed; when the cut falls inside a character, or nothing but
  white space is left, no text is kept at all. Decoding such a text never panics.
\<close>

theorem decode_of_hook_text:
  "decode_hex_command (hex_text cmd) = Val
     (if cmd \<noteq> [] \<and> utf8_valid (take 4096 cmd) \<and> trim (take 4096 cmd) \<noteq> []
      then Some (trim (take 4096 cmd)) else None)"
  by (rule decode_hex_command_hex_text)

text \<open>
  Further property (functional). An idle prompt-marker detector that is fed a hook's command marker, output
  lines without escape characters and a completion marker with an exit code in the \<open>i32\<close>
  range returns to idle, and produces exactly one record with that command text, those lines
  in order and that exit code; unless there was no output and the command was unknown or
  succeeded, when it produces none.
\<close>

theorem whole_command_record:
  assumes "d_strategy d = PromptMarker m" "idle d"
    and "\<forall>l\<in>set ls. esc_free l"
    and "i32_min \<le> code" "code \<le> i32_max"
  shows "feed_lines now utc d
      (command_marker (hex_text cmd) # ls @ [completion_marker (int_text code)]) =
    (let t0 = (if cmd \<noteq> [] \<and> utf8_valid (take 4096 cmd) \<and> trim (take 4096 cmd) \<noteq> []
                 then Some (trim (take 4096 cmd)) else None)
     in Val (d, if ls = [] \<and> (t0 = None \<or> code = 0) then []
                else [default_record\<lparr>cr_command := t0, cr_exit_code := code,
                        cr_output_lines := ls, cr_timestamp := utc\<rparr>]))"
proof -
  define t0 where "t0 = (if cmd \<noteq> [] \<and> utf8_valid (take 4096 cmd) \<and> trim (take 4096 cmd) \<noteq> []
                 then Some (trim (take 4096 cmd)) else None)"
  define d1 where "d1 = d\<lparr>d_current_command := t0\<rparr>"
  define d2 where "d2 = d1\<lparr>d_current_output := ls, d_has_output := (ls \<noteq> [])\<rparr>"
  have st: "d_strategy d1 = PromptMarker m" "d_strategy d2 = PromptMarker m"
    using assms(1) by (simp_all add: d1_def d2_def)
  have "feed_line now utc d (command_marker (hex_text cmd)) = Val (d1, None)"
    using feed_command_marker [OF assms(1) decode_hex_command_hex_text, of now utc cmd] assms(2)
    by (auto simp: t0_def d1_def idle_def split: option.splits)
  moreover have "feed_lines now utc d1 ls = Val (d2, [])"
    using feed_plain_lines [OF assms(3) st(1)] assms(2) by (simp add: d2_def d1_def idle_def)
  moreover have "feed_lines now utc d2 [completion_marker (int_text code)] =
      Val (d, if ls = [] \<and> (t0 = None \<or> code = 0) then []
              else [default_record\<lparr>cr_command := t0, cr_exit_code := code,
                      cr_output_lines := ls, cr_timestamp := utc\<rparr>])"
    using feed_completion_marker [OF st(2) assms(4,5)] assms(2)
    by (auto simp: finalize_record_def d2_def d1_def reset_state_def idle_def)
  ultimately show ?thesis
    by (simp add: feed_lines_append t0_def [symmetric] Let_def)
qed

theorem whole_command_record_witness:
  "feed_lines 0 7 (detector_new (PromptMarker ''osc133''))
     (command_marker (hex_text ''make'') # [''error: no rule''] @ [completion_marker (int_text (2::int))]) =
   Val (detector_new (PromptMarker ''osc133''),
     [default_record\<lparr>cr_command := Some ''make'', cr_exit_code := 2,
        cr_output_lines := [''error: no rule''], cr_timestamp := 7\<rparr>])"
proof -
  have i: "idle (detector_new (PromptMarker ''osc133''))" by (simp add: idle_def detector_new_def)
  have s: "d_strategy (detector_new (PromptMarker ''osc133'')) = PromptMarker ''osc133''"
    by (simp add: detector_new_def)
  have u: "utf8_valid ''make''" by (rule utf8_valid_ascii) simp
  have t: "trim ''make'' = ''make''"
    by (rule trim_no_edge) (simp add: ws_edge_def ascii_ws_def wide_ws_def)
  show ?thesis
    using whole_command_record [OF s i, of "[''error: no rule'']" 2 0 7 "''make''"]
    by (simp add: esc_free_def u t)
qed

text \<open>
  Further property (error). The exact condition under which reading a command marker's text unwinds the
  task: an even number of bytes, more than 8192 of them, and a UTF-8 continuation byte at
  offset 8192.
\<close>

theorem decode_hex_command_panics_iff:
  "decode_hex_command h = Panic \<longleftrightarrow>
     even (length (trim h)) \<and> 8192 < length (trim h) \<and> is_cont (byte_val (trim h ! 8192))"
  by (rule decode_hex_command_Panic)

end
