(* ===== verification/Output_Processor.thy ===== *)
theory Output_Processor
  imports Boundary_Detector
begin

text \<open>
  One chunk of raw terminal output (\<open>aic-server/src/output_processor.rs\<close>): the OSC 133
  markers in it, the state of the alternate screen, the text without escape sequences. The
  crate \<open>strip_ansi_escapes\<close> is a parameter, \<open>strip\<close>.
\<close>

section \<open>State and operations\<close>

record processed_output =
  clean_text :: "str option"
  passthrough :: bytes
  osc133_markers :: "str list"

record output_processor =
  in_alternate_screen :: bool

definition alt_screen_enter :: "bytes list" where
  "alt_screen_enter = [CHR 0x1B # ''[?1049h'', CHR 0x1B # ''[?47h'', CHR 0x1B # ''[?1047h'']"

definition alt_screen_exit :: "bytes list" where
  "alt_screen_exit = [CHR 0x1B # ''[?1049l'', CHR 0x1B # ''[?47l'', CHR 0x1B # ''[?1047l'']"

definition contains_sequence :: "bytes \<Rightarrow> bytes \<Rightarrow> bool" where
  "contains_sequence haystack needle = list_ex (\<lambda>w. w = needle) (windows (length needle) haystack)"

definition osc_start :: bytes where
  "osc_start = CHR 0x1B # '']133;''"

text \<open>
  The scanning loop from offset \<open>i\<close>. The position of the first equal window is that of the
  first occurrence, \<open>find_sub\<close>.
\<close>

function extract_from :: "bytes \<Rightarrow> nat \<Rightarrow> str list" where
  "extract_from raw i =
     (if i < length raw then
        (case find_sub osc_start (drop i raw) of
           None \<Rightarrow> []
         | Some pos \<Rightarrow>
           (let start = i + pos in
            case find_byte (\<lambda>b. b = CHR 0x07) (drop start raw) of
              Some end_offset \<Rightarrow>
                (let e = start + end_offset + 1; marker = take (e - start) (drop start raw) in
                 (if utf8_valid marker then [marker] else []) @ extract_from raw e)
            | None \<Rightarrow> extract_from raw (start + 1)))
      else [])"
  by pat_completeness auto
termination
  by (relation "measure (\<lambda>(raw, i). length raw - i)") auto

declare extract_from.simps [simp del]

definition extract_osc133_markers :: "bytes \<Rightarrow> str list" where
  "extract_osc133_markers raw = extract_from raw 0"

definition processor_new :: output_processor where
  "processor_new = \<lparr>in_alternate_screen = False\<rparr>"

text \<open>The two \<open>for\<close> loops that set and clear the alternate screen flag.\<close>

definition scan_alt :: "bool \<Rightarrow> bytes \<Rightarrow> bool" where
  "scan_alt alt raw =
     (let entered = foldl (\<lambda>a s. if contains_sequence raw s then True else a) alt alt_screen_enter
      in foldl (\<lambda>a s. if contains_sequence raw s then False else a) entered alt_screen_exit)"

definition process :: "(bytes \<Rightarrow> bytes) \<Rightarrow> output_processor \<Rightarrow> bytes \<Rightarrow> output_processor \<times> processed_output" where
  "process strip p raw =
     (let alt = scan_alt (in_alternate_screen p) raw in
      (p\<lparr>in_alternate_screen := alt\<rparr>,
       \<lparr>clean_text = (if alt then None else Some (from_utf8_lossy (strip raw))),
        passthrough = raw,
        osc133_markers = extract_osc133_markers raw\<rparr>))"

definition is_alternate_screen :: "output_processor \<Rightarrow> bool" where
  "is_alternate_screen p = in_alternate_screen p"

section \<open>Lemmas\<close>

lemma contains_sequence_sublist: "needle \<noteq> [] \<Longrightarrow> contains_sequence raw needle \<longleftrightarrow> sublist needle raw"
  by (auto simp: contains_sequence_def sublist_windows list_ex_iff)

lemma scan_alt_eq:
  "scan_alt alt raw =
     (if \<exists>s\<in>set alt_screen_exit. sublist s raw then False
      else if \<exists>s\<in>set alt_screen_enter. sublist s raw then True else alt)"
  by (simp add: scan_alt_def alt_screen_enter_def alt_screen_exit_def contains_sequence_sublist Let_def)

lemma extract_from_end: "length raw \<le> i \<Longrightarrow> extract_from raw i = []"
  by (simp add: extract_from.simps [of raw i])

text \<open>The loop looks only at what is left of the input.\<close>

lemma extract_from_drop:
  "drop i raw = drop j raw' \<Longrightarrow> i \<le> length raw \<Longrightarrow> j \<le> length raw' \<Longrightarrow> extract_from raw i = extract_from raw' j"
proof (induction raw i arbitrary: raw' j rule: extract_from.induct)
  case (1 raw i)
  have len: "length raw - i = length raw' - j" using "1.prems"(1) by (metis length_drop)
  show ?case
  proof (cases "i < length raw")
    case False
    with len show ?thesis by (simp add: extract_from_end)
  next
    case True
    with len have j: "j < length raw'" by simp
    show ?thesis
    proof (cases "find_sub osc_start (drop i raw)")
      case None
      with True j "1.prems"(1) show ?thesis
        by (simp add: extract_from.simps [of raw i] extract_from.simps [of raw' j])
    next
      case (Some pos)
      then have pos: "i + pos + length osc_start \<le> length raw" using True by (auto simp: find_sub_Some)
      have dd: "drop (k + i) raw = drop (k + j) raw'" for k
        using "1.prems"(1) by (metis drop_drop)
      have d: "drop (i + pos) raw = drop (j + pos) raw'" using dd [of pos] by (simp add: add.commute)
      show ?thesis
      proof (cases "find_byte (\<lambda>b. b = CHR 0x07) (drop (i + pos) raw)")
        case None
        have "extract_from raw (i + pos + 1) = extract_from raw' (j + pos + 1)"
          using "1.IH"(1) [OF True Some refl None] dd [of "pos + 1"] pos len j
          by (simp add: add.commute add.left_commute osc_start_def)
        with True j Some None "1.prems"(1) d show ?thesis
          by (simp add: extract_from.simps [of raw i] extract_from.simps [of raw' j])
      next
        case e: (Some eo)
        then have "eo < length (drop (i + pos) raw)" by (simp add: find_byte_Some)
        then have "extract_from raw (i + pos + eo + 1) = extract_from raw' (j + pos + eo + 1)"
          using "1.IH"(2) [OF True Some refl e refl refl] dd [of "pos + eo + 1"] len j
          by (simp add: add.commute add.left_commute)
        with True j Some e "1.prems"(1) d show ?thesis
          by (simp add: extract_from.simps [of raw i] extract_from.simps [of raw' j] Let_def)
      qed
    qed
  qed
qed

lemma extract_from_append: "extract_from (a @ b) (length a) = extract_osc133_markers b"
  by (simp add: extract_osc133_markers_def) (rule extract_from_drop; simp)

lemma extract_no_esc: "esc_free raw \<Longrightarrow> extract_osc133_markers raw = []"
proof -
  assume "esc_free raw"
  then have "find_sub osc_start raw = None"
    using sublist_set [of osc_start raw] by (auto simp: find_sub_None esc_free_def osc_start_def)
  then show ?thesis by (simp add: extract_osc133_markers_def extract_from.simps [of raw 0])
qed

text \<open>A whole marker: the introducer, a body without BEL, and BEL.\<close>

definition osc133 :: "bytes \<Rightarrow> bytes" where
  "osc133 body = osc_start @ body @ [CHR 0x07]"

lemma find_sub_after_free:
  assumes "esc_free t"
  shows "find_sub osc_start (t @ osc_start @ r) = Some (length t)"
  using assms by (induction t) (auto simp: esc_free_def osc_start_def)

lemma extract_marker:
  assumes "esc_free t" "CHR 0x07 \<notin> set body"
  shows "extract_osc133_markers (t @ osc133 body @ r) =
    (if utf8_valid (osc133 body) then [osc133 body] else []) @ extract_osc133_markers r"
proof -
  let ?raw = "t @ osc133 body @ r"
  have f: "find_sub osc_start ?raw = Some (length t)"
    using find_sub_after_free [OF assms(1), of "body @ CHR 0x07 # r"] by (simp add: osc133_def)
  have "find_byte (\<lambda>b. b = CHR 0x07) ((osc_start @ body) @ CHR 0x07 # r) = Some (length (osc_start @ body))"
    using assms(2) by (intro find_byte_append) (auto simp: osc_start_def)
  then have b: "find_byte (\<lambda>b. b = CHR 0x07) (osc133 body @ r) = Some (length (osc_start @ body))"
    by (simp add: osc133_def)
  have e: "Suc (length t + (length osc_start + length body)) = length t + length (osc133 body)"
    by (simp add: osc133_def)
  have "extract_from ?raw (Suc (length t + (length osc_start + length body))) = extract_osc133_markers r"
    using extract_from_append [of "t @ osc133 body" r] unfolding e by simp
  moreover have "take (Suc (length (osc_start @ body))) (osc133 body @ r) = osc133 body"
    by (simp add: osc133_def)
  moreover have "0 < length ?raw" by (simp add: osc133_def)
  ultimately show ?thesis using f b
    by (simp add: extract_osc133_markers_def extract_from.simps [of ?raw 0] Let_def)
qed

lemma extract_unterminated: "CHR 0x07 \<notin> set raw \<Longrightarrow> extract_from raw i = []"
proof (induction raw i rule: extract_from.induct)
  case (1 raw i)
  have none: "find_byte (\<lambda>b. b = CHR 0x07) (drop k raw) = None" for k
    using "1.prems" in_set_dropD by (fastforce simp: find_byte_None)
  show ?case
  proof (cases "i < length raw")
    case True
    show ?thesis
    proof (cases "find_sub osc_start (drop i raw)")
      case (Some pos)
      then show ?thesis using "1.IH"(1) [OF True Some refl none "1.prems"] True none
        by (simp add: extract_from.simps [of raw i])
    qed (simp add: extract_from.simps [of raw i])
  qed (simp add: extract_from_end)
qed

section \<open>Properties\<close>

text \<open>
  Further property (functional). In a chunk made of texts without escape characters and whole OSC 133
  markers whose bytes are UTF-8, exactly those markers are extracted, in order.
\<close>

theorem markers_extracted_in_order:
  assumes "\<forall>(t, body)\<in>set ps. esc_free t \<and> CHR 0x07 \<notin> set body \<and> utf8_valid (osc133 body)"
    and "esc_free rest"
  shows "extract_osc133_markers (concat (map (\<lambda>(t, body). t @ osc133 body) ps) @ rest) =
    map (\<lambda>(t, body). osc133 body) ps"
  using assms
  by (induction ps) (auto simp: extract_no_esc extract_marker)

theorem markers_extracted_in_order_witness:
  "extract_osc133_markers (''ls'' @ osc133 ''A'' @ ''out'' @ osc133 ''D;0'' @ ''$ '') =
     [osc133 ''A'', osc133 ''D;0'']"
proof -
  have "utf8_valid (osc133 ''A'')" "utf8_valid (osc133 ''D;0'')"
    by (rule utf8_valid_ascii; simp add: osc133_def osc_start_def)+
  then show ?thesis
    using markers_extracted_in_order [of "[(''ls'', ''A''), (''out'', ''D;0'')]" "''$ ''"]
    by (simp add: esc_free_def)
qed

text \<open>
  Further property (error). A marker that a read splits in two is lost: neither chunk reports it, wherever
  the cut falls.
\<close>

theorem split_marker_lost:
  assumes "osc133 body = u @ v" "u \<noteq> []" "v \<noteq> []" "esc_free body" "CHR 0x07 \<notin> set body"
  shows "extract_osc133_markers u = [] \<and> extract_osc133_markers v = []"
proof -
  have "\<exists>v'. v = v' @ [CHR 0x07]"
    using assms(1,3) by (metis append_butlast_last_id last_appendR last_snoc osc133_def append.assoc)
  then obtain v' where v: "v = v' @ [CHR 0x07]" ..
  then have "osc_start @ body = u @ v'" using assms(1) by (simp add: osc133_def)
  then have "set u \<subseteq> set (osc_start @ body)" by (metis Un_upper1 set_append)
  then have "CHR 0x07 \<notin> set u" using assms(5) by (auto simp: osc_start_def)
  then have "extract_osc133_markers u = []"
    by (simp add: extract_osc133_markers_def extract_unterminated)
  moreover have "esc_free v"
  proof -
    obtain c u' where u: "u = c # u'" using assms(2) by (cases u) auto
    then have "u' @ v = '']133;'' @ body @ [CHR 0x07]"
      using assms(1) by (simp add: osc133_def osc_start_def)
    then have "set v \<subseteq> set ('']133;'' @ body @ [CHR 0x07])" by (metis Un_upper2 set_append)
    then show ?thesis using assms(4) by (auto simp: esc_free_def)
  qed
  ultimately show ?thesis by (simp add: extract_no_esc)
qed

theorem split_marker_lost_witness:
  "extract_osc133_markers (CHR 0x1B # '']133;D'') = [] \<and> extract_osc133_markers ('';1'' @ [CHR 0x07]) = []"
  using split_marker_lost [of "''D;1''" "CHR 0x1B # '']133;D''" "'';1'' @ [CHR 0x07]"]
  by (simp add: osc133_def osc_start_def esc_free_def)

text \<open>
  Further property (functional). The bytes for the terminal are always the chunk itself. The text is
  withheld exactly when the alternate screen is on after the chunk, and that is decided by
  which sequences occur in it, not by their order: any exit sequence wins over any enter
  sequence, and with neither the state stays. Text that is passed on is valid UTF-8.
\<close>

theorem process_alternate_screen:
  "process strip p raw = (p', out) \<Longrightarrow>
     passthrough out = raw \<and>
     in_alternate_screen p' =
       ((\<forall>s\<in>set alt_screen_exit. \<not> sublist s raw) \<and>
        ((\<exists>s\<in>set alt_screen_enter. sublist s raw) \<or> in_alternate_screen p)) \<and>
     (clean_text out = None \<longleftrightarrow> in_alternate_screen p') \<and>
     (\<forall>t. clean_text out = Some t \<longrightarrow> utf8_valid t)"
  by (auto simp: process_def Let_def scan_alt_eq from_utf8_lossy_is_utf8 split: if_splits)

theorem process_alternate_screen_witness:
  "\<exists>p' out. process (\<lambda>b. b) processor_new (CHR 0x1B # ''[?1049h'') = (p', out) \<and>
     passthrough out = CHR 0x1B # ''[?1049h'' \<and> in_alternate_screen p' \<and> clean_text out = None"
proof -
  obtain p' out where po: "process (\<lambda>b. b) processor_new (CHR 0x1B # ''[?1049h'') = (p', out)"
    by (cases "process (\<lambda>b. b) processor_new (CHR 0x1B # ''[?1049h'')")
  show ?thesis using process_alternate_screen [OF po] po
    by (auto simp: alt_screen_enter_def alt_screen_exit_def sublist_Cons_right)
qed

text \<open>
  Further property (error). A chunk that leaves the alternate screen and enters it again is taken for one
  that left it: the text of the full-screen program that follows is passed on as output.
\<close>

theorem reenter_in_one_chunk_misread:
  "in_alternate_screen (fst (process strip p (CHR 0x1B # ''[?1049l'' @ CHR 0x1B # ''[?1049h''))) = False"
proof -
  have "sublist (CHR 0x1B # ''[?1049l'') (CHR 0x1B # ''[?1049l'' @ CHR 0x1B # ''[?1049h'')"
    by (simp add: sublist_Cons_right)
  then show ?thesis by (auto simp: process_def Let_def scan_alt_eq alt_screen_exit_def)
qed

end
