(* ===== verification/Hash_Map.thy ===== *)
theory Hash_Map
  imports Rust_Prelude "HOL-Library.AList"
begin

text \<open>
  \<open>HashMap\<close> as an association list with distinct keys. The order of the list stands for the
  iteration order, which the standard library leaves open: results that depend on it are
  stated up to that order. The locale \<open>keyed_table\<close> is the contract that the components built
  on a map offer for their own insert and remove operations.
\<close>

section \<open>Operations\<close>

type_synonym ('k, 'v) hash_map = "('k \<times> 'v) list"

abbreviation hm_get :: "('k, 'v) hash_map \<Rightarrow> 'k \<Rightarrow> 'v option" where
  "hm_get \<equiv> map_of"

abbreviation hm_insert :: "'k \<Rightarrow> 'v \<Rightarrow> ('k, 'v) hash_map \<Rightarrow> ('k, 'v) hash_map" where
  "hm_insert \<equiv> AList.update"

abbreviation hm_remove :: "'k \<Rightarrow> ('k, 'v) hash_map \<Rightarrow> ('k, 'v) hash_map" where
  "hm_remove \<equiv> AList.delete"

text \<open>\<open>get_mut\<close> with an assignment through the reference; the flag says whether the key was there.\<close>

definition hm_modify :: "'k \<Rightarrow> ('v \<Rightarrow> 'v) \<Rightarrow> ('k, 'v) hash_map \<Rightarrow> ('k, 'v) hash_map \<times> bool" where
  "hm_modify k f m = (case hm_get m k of None \<Rightarrow> (m, False) | Some v \<Rightarrow> (hm_insert k (f v) m, True))"

text \<open>\<open>values_mut\<close>: every value is replaced.\<close>

definition hm_map_values :: "('v \<Rightarrow> 'v) \<Rightarrow> ('k, 'v) hash_map \<Rightarrow> ('k, 'v) hash_map" where
  "hm_map_values f m = map (\<lambda>(k, v). (k, f v)) m"

text \<open>\<open>retain\<close>.\<close>

definition hm_retain :: "('v \<Rightarrow> bool) \<Rightarrow> ('k, 'v) hash_map \<Rightarrow> ('k, 'v) hash_map" where
  "hm_retain p m = filter (\<lambda>(k, v). p v) m"

definition hm_ok :: "('k, 'v) hash_map \<Rightarrow> bool" where
  "hm_ok m \<longleftrightarrow> distinct (map fst m)"

section \<open>Laws\<close>

lemma hm_get_insert [simp]: "hm_get (hm_insert k v m) k' = (if k' = k then Some v else hm_get m k')"
  by (simp add: AList.update_conv')

lemma hm_get_remove [simp]: "hm_get (hm_remove k m) k' = (if k' = k then None else hm_get m k')"
  by (simp add: AList.delete_conv')

lemma hm_get_modify [simp]:
  "hm_get (fst (hm_modify k f m)) k' = (if k' = k then map_option f (hm_get m k) else hm_get m k')"
  by (simp add: hm_modify_def split: option.splits)

lemma hm_modify_flag [simp]: "snd (hm_modify k f m) \<longleftrightarrow> hm_get m k \<noteq> None"
  by (simp add: hm_modify_def split: option.splits)

lemma hm_get_map_values [simp]: "hm_get (hm_map_values f m) k = map_option f (hm_get m k)"
  by (induction m) (auto simp: hm_map_values_def)

lemma hm_get_retain:
  "hm_ok m \<Longrightarrow> hm_get (hm_retain p m) k =
     (case hm_get m k of None \<Rightarrow> None | Some v \<Rightarrow> if p v then Some v else None)"
proof (induction m)
  case (Cons kv m)
  then have "fst kv \<notin> fst ` set m" and "hm_ok m" by (simp_all add: hm_ok_def)
  then have "hm_get m (fst kv) = None" by (simp add: map_of_eq_None_iff)
  with Cons.IH [OF \<open>hm_ok m\<close>] show ?case
    by (cases kv) (auto simp: hm_retain_def split: option.splits)
qed (simp add: hm_retain_def)

lemma hm_ok_Nil [simp]: "hm_ok []"
  by (simp add: hm_ok_def)

lemma hm_ok_insert [simp, inv_intros]: "hm_ok m \<Longrightarrow> hm_ok (hm_insert k v m)"
  by (simp add: hm_ok_def AList.distinct_update)

lemma hm_ok_remove [simp, inv_intros]: "hm_ok m \<Longrightarrow> hm_ok (hm_remove k m)"
  by (simp add: hm_ok_def AList.distinct_delete)

lemma hm_ok_modify [simp, inv_intros]: "hm_ok m \<Longrightarrow> hm_ok (fst (hm_modify k f m))"
  by (simp add: hm_modify_def split: option.splits)

lemma hm_ok_map_values [simp, inv_intros]: "hm_ok m \<Longrightarrow> hm_ok (hm_map_values f m)"
  by (simp add: hm_ok_def hm_map_values_def comp_def case_prod_beta')

lemma hm_ok_retain [simp, inv_intros]: "hm_ok m \<Longrightarrow> hm_ok (hm_retain p m)"
  by (simp add: hm_ok_def hm_retain_def distinct_map_filter)

lemma hm_values_iff: "hm_ok m \<Longrightarrow> v \<in> snd ` set m \<longleftrightarrow> (\<exists>k. hm_get m k = Some v)"
  by (force simp: hm_ok_def map_of_eq_Some_iff)

lemma hm_length_remove_le: "length (hm_retain p m) \<le> length m"
  by (simp add: hm_retain_def)

section \<open>The contract of a keyed table\<close>

datatype ('k, 'v) table_op = Put 'k 'v | Del 'k

fun table_op_key :: "('k, 'v) table_op \<Rightarrow> 'k" where
  "table_op_key (Put k v) = k"
| "table_op_key (Del k) = k"

locale keyed_table =
  fixes look :: "'s \<Rightarrow> 'k \<Rightarrow> 'v option"
    and put :: "'s \<Rightarrow> 'k \<Rightarrow> 'v \<Rightarrow> 's"
    and del :: "'s \<Rightarrow> 'k \<Rightarrow> 's"
    and fits :: "'k \<Rightarrow> 'v \<Rightarrow> bool"
    and inv :: "'s \<Rightarrow> bool"
  assumes inv_put: "inv s \<Longrightarrow> fits k v \<Longrightarrow> inv (put s k v)"
    and inv_del: "inv s \<Longrightarrow> inv (del s k)"
    and look_put: "inv s \<Longrightarrow> fits k v \<Longrightarrow> look (put s k v) k' = (if k' = k then Some v else look s k')"
    and look_del: "inv s \<Longrightarrow> look (del s k) k' = (if k' = k then None else look s k')"
begin

definition table_step :: "'s \<Rightarrow> ('k, 'v) table_op \<Rightarrow> 's" where
  "table_step s op = (case op of Put k v \<Rightarrow> put s k v | Del k \<Rightarrow> del s k)"

definition op_fits :: "('k, 'v) table_op \<Rightarrow> bool" where
  "op_fits op = (case op of Put k v \<Rightarrow> fits k v | Del k \<Rightarrow> True)"

lemma inv_steps: "inv s \<Longrightarrow> list_all op_fits ops \<Longrightarrow> inv (foldl table_step s ops)"
  by (induction ops arbitrary: s)
    (auto simp: table_step_def op_fits_def inv_put inv_del split: table_op.splits)

lemma look_steps_other:
  "inv s \<Longrightarrow> list_all op_fits ops \<Longrightarrow> list_all (\<lambda>op. table_op_key op \<noteq> k) ops \<Longrightarrow>
     look (foldl table_step s ops) k = look s k"
  by (induction ops arbitrary: s)
    (auto simp: table_step_def op_fits_def inv_put inv_del look_put look_del split: table_op.splits)

lemma put_survives:
  "inv s \<Longrightarrow> fits k v \<Longrightarrow> list_all op_fits ops \<Longrightarrow> list_all (\<lambda>op. table_op_key op \<noteq> k) ops \<Longrightarrow>
     look (foldl table_step (put s k v) ops) k = Some v"
  using look_steps_other [of "put s k v" ops k] by (simp add: inv_put look_put)

lemma del_forgets:
  "inv s \<Longrightarrow> list_all op_fits ops \<Longrightarrow> list_all (\<lambda>op. table_op_key op \<noteq> k) ops \<Longrightarrow>
     look (foldl table_step (del s k) ops) k = None"
  using look_steps_other [of "del s k" ops k] by (simp add: inv_del look_del)

end

end
