(* ===== verification/Session_Pool.thy ===== *)
theory Session_Pool
  imports Output_Processor Hash_Map
begin

text \<open>
  The per-session capture pipelines of the supervisor
  (\<open>aic-server/src/session_processor_pool.rs\<close>): an output processor and a boundary detector
  for every attached session. \<open>strip\<close> is the crate \<open>strip_ansi_escapes\<close>; \<open>clk\<close> gives the clock
  readings at the successive lines of a call. A panic unwinds the caller's task but leaves the
  entry in the table, with what was fed before it, so operations return the state beside the
  result.
\<close>

section \<open>State and operations\<close>

type_synonym clock = "nat \<Rightarrow> instant \<times> datetime"

datatype attach_open_error = AlreadyOpen str

record session_processor =
  sp_processor :: output_processor
  sp_detector :: detector

type_synonym pool = "(str, session_processor) hash_map"

definition session_processor_new :: session_processor where
  "session_processor_new = \<lparr>sp_processor = processor_new, sp_detector = detector_new (PromptMarker ''osc133'')\<rparr>"

definition pool_new :: pool where
  "pool_new = []"

definition pool_open :: "pool \<Rightarrow> str \<Rightarrow> pool \<times> (attach_open_error + unit)" where
  "pool_open p sid =
     (if hm_get p sid \<noteq> None then (p, Inl (AlreadyOpen sid))
      else (hm_insert sid session_processor_new p, Inr ()))"

text \<open>
  The loops that feed lines and collect the records, marked as terminal capture. A line that
  panics leaves the detector as it was before it.
\<close>

fun feed_each :: "clock \<Rightarrow> detector \<Rightarrow> str list \<Rightarrow> detector \<times> command_record list rs" where
  "feed_each clk d [] = (d, Val [])"
| "feed_each clk d (l # ls) =
     (case feed_line (fst (clk 0)) (snd (clk 0)) d l of
        Panic \<Rightarrow> (d, Panic)
      | Val (d', r) \<Rightarrow>
        (let (d'', rest) = feed_each (\<lambda>n. clk (Suc n)) d' ls in
         (d'', rs_bind rest (\<lambda>rs. Val
            (case r of None \<Rightarrow> rs | Some x \<Rightarrow> x\<lparr>cr_capture_mode := Pty\<rparr> # rs)))))"

definition sp_feed ::
  "(bytes \<Rightarrow> bytes) \<Rightarrow> clock \<Rightarrow> session_processor \<Rightarrow> bytes \<Rightarrow> session_processor \<times> command_record list rs" where
  "sp_feed strip clk sp bs =
     (let (p', out) = process strip (sp_processor sp) bs;
          (d1, r1) = feed_each clk (sp_detector sp) (osc133_markers out)
      in case r1 of
           Panic \<Rightarrow> (\<lparr>sp_processor = p', sp_detector = d1\<rparr>, Panic)
         | Val rs1 \<Rightarrow>
           (case clean_text out of
              None \<Rightarrow> (\<lparr>sp_processor = p', sp_detector = d1\<rparr>, Val rs1)
            | Some t \<Rightarrow>
              (let (d2, r2) = feed_each (\<lambda>n. clk (n + length (osc133_markers out))) d1 (lines t) in
               (\<lparr>sp_processor = p', sp_detector = d2\<rparr>, rs_bind r2 (\<lambda>rs2. Val (rs1 @ rs2))))))"

definition pool_feed ::
  "(bytes \<Rightarrow> bytes) \<Rightarrow> clock \<Rightarrow> pool \<Rightarrow> str \<Rightarrow> bytes \<Rightarrow> pool \<times> command_record list rs" where
  "pool_feed strip clk p sid bs =
     (case hm_get p sid of
        None \<Rightarrow> (p, Val [])
      | Some sp \<Rightarrow> (let (sp', r) = sp_feed strip clk sp bs in (hm_insert sid sp' p, r)))"

definition pool_close :: "pool \<Rightarrow> str \<Rightarrow> pool" where
  "pool_close p sid = hm_remove sid p"

definition active_len :: "pool \<Rightarrow> nat" where
  "active_len p = length p"

section \<open>Lemmas\<close>

interpretation pl: keyed_table hm_get "\<lambda>p sid sp. hm_insert sid sp p" pool_close "\<lambda>_ _. True" "hm_ok :: pool \<Rightarrow> bool"
  by unfold_locales (simp_all add: pool_close_def)

lemma pool_feed_other: "k \<noteq> sid \<Longrightarrow> hm_get (fst (pool_feed strip clk p sid bs)) k = hm_get p k"
  by (simp add: pool_feed_def split: option.splits prod.splits)

lemma pool_feed_own:
  "hm_get (fst (pool_feed strip clk p sid bs)) sid = map_option (\<lambda>sp. fst (sp_feed strip clk sp bs)) (hm_get p sid)"
  "snd (pool_feed strip clk p sid bs) =
     (case hm_get p sid of None \<Rightarrow> Val [] | Some sp \<Rightarrow> snd (sp_feed strip clk sp bs))"
  by (simp_all add: pool_feed_def split: option.splits prod.splits)

lemma pool_feed_ok [inv_intros]: "hm_ok p \<Longrightarrow> hm_ok (fst (pool_feed strip clk p sid bs))"
  by (simp add: pool_feed_def split: option.splits prod.splits)

lemma pool_open_ok [inv_intros]: "hm_ok p \<Longrightarrow> hm_ok (fst (pool_open p sid))"
  by (simp add: pool_open_def)

lemma pool_close_ok [inv_intros]: "hm_ok p \<Longrightarrow> hm_ok (pool_close p sid)"
  by (simp add: pool_close_def)

text \<open>Without a panic the loop is the one of the detector, run at its clock.\<close>

lemma feed_each_append:
  "feed_each clk d (xs @ ys) =
     (case feed_each clk d xs of
        (d', Panic) \<Rightarrow> (d', Panic)
      | (d', Val rs) \<Rightarrow>
        (let (d'', r) = feed_each (\<lambda>n. clk (n + length xs)) d' ys in (d'', rs_bind r (\<lambda>rs'. Val (rs @ rs')))))"
proof (induction xs arbitrary: clk d)
  case Nil
  show ?case by (simp add: Let_def split: prod.splits)
next
  case (Cons x xs)
  show ?case
    by (auto simp: Cons.IH Let_def split: rs.splits prod.splits option.splits)
qed

lemma feed_each_Pty: "feed_each clk d ls = (d', Val rs) \<Longrightarrow> r \<in> set rs \<Longrightarrow> cr_capture_mode r = Pty"
proof (induction ls arbitrary: clk d d' rs)
  case (Cons l ls)
  then show ?case
    by (force simp: Let_def split: rs.splits prod.splits option.splits)
qed simp

lemma sp_feed_Pty: "sp_feed strip clk sp bs = (sp', Val rs) \<Longrightarrow> r \<in> set rs \<Longrightarrow> cr_capture_mode r = Pty"
  by (auto simp: sp_feed_def Let_def split: prod.splits rs.splits option.splits dest: feed_each_Pty)

lemma pool_feed_Pty: "pool_feed strip clk p sid bs = (p', Val rs) \<Longrightarrow> r \<in> set rs \<Longrightarrow> cr_capture_mode r = Pty"
  by (auto simp: pool_feed_def Let_def split: prod.splits option.splits dest: sp_feed_Pty)

lemma feed_each_plain:
  "\<forall>l\<in>set ls. esc_free l \<Longrightarrow> d_strategy d = PromptMarker m \<Longrightarrow>
     feed_each clk d ls = (d\<lparr>d_current_output := d_current_output d @ ls,
        d_has_output := (d_has_output d \<or> ls \<noteq> [])\<rparr>, Val [])"
proof (induction ls arbitrary: clk d)
  case (Cons l ls)
  have "feed_line a b d l = Val (d\<lparr>d_current_output := d_current_output d @ [l], d_has_output := True\<rparr>, None)" for a b
    using Cons.prems by (intro feed_plain_line) auto
  with Cons show ?case by (simp add: Let_def)
qed simp


lemma split_lf_set: "l \<in> set (split_lf acc s) \<Longrightarrow> set l \<subseteq> set acc \<union> set s"
proof (induction acc s rule: split_lf.induct)
  case (2 acc c cs)
  then show ?case using set_strip_cr [of acc] by (auto split: if_splits)
qed (auto split: if_splits)

lemma lines_esc_free: "esc_free s \<Longrightarrow> l \<in> set (lines s) \<Longrightarrow> esc_free l"
  using split_lf_set [of l "[]" s] by (auto simp: lines_def esc_free_def)

text \<open>Every escape character starts an operating system command, so none of them touches the alternate screen.\<close>

fun only_osc :: "bytes \<Rightarrow> bool" where
  "only_osc [] = True"
| "only_osc (c # cs) = ((c = CHR 0x1B \<longrightarrow> cs \<noteq> [] \<and> hd cs = CHR '']'') \<and> only_osc cs)"

lemma only_osc_append: "only_osc a \<Longrightarrow> only_osc b \<Longrightarrow> only_osc (a @ b)"
  by (induction a) auto

lemma only_osc_free: "esc_free a \<Longrightarrow> only_osc a"
  by (induction a) (auto simp: esc_free_def)

lemma only_osc_no_csi: "only_osc raw \<Longrightarrow> \<not> sublist (CHR 0x1B # CHR ''['' # p) raw"
  by (induction raw) (auto simp: sublist_Cons_right prefix_def)

lemma scan_alt_only_osc: "only_osc raw \<Longrightarrow> scan_alt alt raw = alt"
  by (simp add: scan_alt_eq alt_screen_enter_def alt_screen_exit_def only_osc_no_csi)

text \<open>The two markers of the shell hook as chunks.\<close>

lemma command_marker_osc: "command_marker hex = osc133 (''C;cmd='' @ hex)"
  by (simp add: command_marker_def osc133_def osc_start_def osc_command_with_text_prefix_def osc_completion_suffix_def)

lemma completion_marker_osc: "completion_marker code = osc133 (''D;'' @ code)"
  by (simp add: completion_marker_def osc133_def osc_start_def osc_completion_prefix_def osc_completion_suffix_def)

lemma hex_text_ascii: "\<forall>b\<in>set (hex_text cmd). byte_val b < 128"
  using hex_text_lower [of cmd] by (force simp: is_lower_hex_def Let_def)

lemma dec_ascii: "b \<in> set (dec n) \<Longrightarrow> byte_val b < 128 \<and> b \<noteq> CHR 0x1B"
  using dec_digits [of n] by fastforce

lemma int_text_ascii: "\<forall>b\<in>set (int_text c). byte_val b < 128 \<and> b \<noteq> CHR 0x1B"
  using dec_ascii by (auto simp: int_text_def)

lemma hook_markers_valid:
  "utf8_valid (command_marker (hex_text cmd))" "utf8_valid (completion_marker (int_text c))"
proof -
  show "utf8_valid (command_marker (hex_text cmd))"
    by (rule utf8_valid_ascii) (use hex_text_ascii [of cmd] in \<open>simp add: command_marker_osc osc133_def osc_start_def ball_Un\<close>)
  show "utf8_valid (completion_marker (int_text c))"
    by (rule utf8_valid_ascii) (use int_text_ascii [of c] in \<open>simp add: completion_marker_osc osc133_def osc_start_def ball_Un\<close>)
qed

lemma only_osc_marker: "esc_free body \<Longrightarrow> only_osc (osc133 body)"
  using only_osc_append [OF only_osc_free, of body "[CHR 0x07]"] by (simp add: osc133_def osc_start_def)

lemma hook_markers_only_osc:
  "only_osc (command_marker (hex_text cmd))" "only_osc (completion_marker (int_text c))"
  unfolding command_marker_osc completion_marker_osc
  by (rule only_osc_marker; use hex_text_free(1) [of cmd] int_text_ascii [of c] in \<open>auto simp: esc_free_def\<close>)+

lemma extract_hook_markers:
  "esc_free t \<Longrightarrow> extract_osc133_markers (t @ command_marker (hex_text cmd) @ r) =
     command_marker (hex_text cmd) # extract_osc133_markers r"
  "esc_free t \<Longrightarrow> extract_osc133_markers (t @ completion_marker (int_text c) @ r) =
     completion_marker (int_text c) # extract_osc133_markers r"
  using hook_markers_valid(1) [of cmd] hook_markers_valid(2) [of c] hex_text_free(2) [of cmd] int_text_bytes [of c]
  by (simp_all add: command_marker_osc completion_marker_osc extract_marker)

lemma extract_nothing: "extract_osc133_markers [] = []"
  by (rule extract_no_esc) (simp add: esc_free_def)

text \<open>A chunk without alternate screen sequences.\<close>

lemma sp_feed_normal:
  assumes "only_osc bs" "\<not> in_alternate_screen (sp_processor sp)" "utf8_valid (strip bs)"
  shows "sp_feed strip clk sp bs =
    (case feed_each clk (sp_detector sp) (extract_osc133_markers bs @ lines (strip bs)) of
       (d, r) \<Rightarrow> (sp\<lparr>sp_detector := d\<rparr>, r))"
proof -
  have "process strip (sp_processor sp) bs = (sp_processor sp,
      \<lparr>clean_text = Some (strip bs), passthrough = bs, osc133_markers = extract_osc133_markers bs\<rparr>)"
    using assms by (simp add: process_def scan_alt_only_osc from_utf8_lossy_valid)
  then show ?thesis
    by (auto simp: sp_feed_def feed_each_append Let_def split: prod.splits rs.splits)
qed

section \<open>Runs\<close>

text \<open>The chunks of several connections in the order the supervisor handles them.\<close>

fun pool_run ::
  "(bytes \<Rightarrow> bytes) \<Rightarrow> pool \<Rightarrow> (clock \<times> str \<times> bytes) list \<Rightarrow> pool \<times> (str \<times> command_record list rs) list" where
  "pool_run strip p [] = (p, [])"
| "pool_run strip p ((clk, sid, bs) # fs) =
     (let (p', r) = pool_feed strip clk p sid bs; (p'', rs) = pool_run strip p' fs in (p'', (sid, r) # rs))"

lemma pool_run_own:
  "hm_get p sid = hm_get q sid \<Longrightarrow>
     hm_get (fst (pool_run strip p fs)) sid =
       hm_get (fst (pool_run strip q (filter (\<lambda>(clk, s, bs). s = sid) fs))) sid \<and>
     filter (\<lambda>(s, r). s = sid) (snd (pool_run strip p fs)) =
       snd (pool_run strip q (filter (\<lambda>(clk, s, bs). s = sid) fs))"
proof (induction fs arbitrary: p q)
  case (Cons f fs)
  obtain clk s bs where f: "f = (clk, s, bs)" by (cases f)
  let ?p = "fst (pool_feed strip clk p s bs)" and ?q = "fst (pool_feed strip clk q s bs)"
  show ?case
  proof (cases "s = sid")
    case True
    then have "hm_get ?p sid = hm_get ?q sid" using Cons.prems by (simp add: pool_feed_own)
    from Cons.IH [OF this] True show ?thesis using Cons.prems
      by (simp add: f Let_def case_prod_beta pool_feed_own)
  next
    case False
    then have "hm_get ?p sid = hm_get q sid" using Cons.prems pool_feed_other [of sid s] by simp
    from Cons.IH [OF this] False show ?thesis by (simp add: f Let_def case_prod_beta)
  qed
qed simp

text \<open>The chunks of one session, each with its clock, records collected in order.\<close>

fun sp_run ::
  "(bytes \<Rightarrow> bytes) \<Rightarrow> session_processor \<Rightarrow> (clock \<times> bytes) list \<Rightarrow> session_processor \<times> command_record list rs" where
  "sp_run strip sp [] = (sp, Val [])"
| "sp_run strip sp ((clk, b) # bs) =
     (case sp_feed strip clk sp b of
        (sp', Panic) \<Rightarrow> (sp', Panic)
      | (sp', Val rs) \<Rightarrow>
        (let (sp'', r) = sp_run strip sp' bs in (sp'', rs_bind r (\<lambda>rs'. Val (rs @ rs')))))"

lemma sp_run_append:
  "sp_run strip sp (xs @ ys) =
     (case sp_run strip sp xs of
        (sp', Panic) \<Rightarrow> (sp', Panic)
      | (sp', Val rs) \<Rightarrow>
        (let (sp'', r) = sp_run strip sp' ys in (sp'', rs_bind r (\<lambda>rs'. Val (rs @ rs')))))"
  by (induction xs arbitrary: sp) (auto simp: Let_def split: prod.splits rs.splits)

abbreviation chunk_lines :: "(clock \<times> bytes) list \<Rightarrow> str list" where
  "chunk_lines bodies \<equiv> concat (map (\<lambda>(clk, b). lines b) bodies)"

text \<open>What the hook's command text is kept as.\<close>

definition kept_command :: "str \<Rightarrow> str option" where
  "kept_command cmd = (if cmd \<noteq> [] \<and> utf8_valid (take 4096 cmd) \<and> trim (take 4096 cmd) \<noteq> []
     then Some (trim (take 4096 cmd)) else None)"

definition ready :: "session_processor \<Rightarrow> bool" where
  "ready sp \<longleftrightarrow> \<not> in_alternate_screen (sp_processor sp) \<and> idle (sp_detector sp) \<and>
     (\<exists>m. d_strategy (sp_detector sp) = PromptMarker m)"

lemma ready_new: "ready session_processor_new"
  by (simp add: ready_def session_processor_new_def processor_new_def detector_new_def idle_def)

lemma feed_each_command:
  assumes "d_strategy d = PromptMarker m" "idle d"
  shows "feed_each clk d [command_marker (hex_text cmd)] = (d\<lparr>d_current_command := kept_command cmd\<rparr>, Val [])"
  using feed_command_marker [OF assms(1) decode_hex_command_hex_text, of _ _ cmd] assms(2)
  by (auto simp: kept_command_def idle_def split: option.splits)

lemma feed_each_completion:
  assumes "d_strategy d = PromptMarker m" "i32_min \<le> code" "code \<le> i32_max"
  shows "feed_each clk d [completion_marker (int_text code)] =
    (case finalize_record (snd (clk 0)) d code of
       (d', None) \<Rightarrow> (d', Val []) | (d', Some r) \<Rightarrow> (d', Val [r\<lparr>cr_capture_mode := Pty\<rparr>]))"
  using feed_completion_marker [OF assms] by (simp add: Let_def split: prod.splits option.splits)

lemma sp_run_bodies:
  assumes "\<forall>(clk, b)\<in>set bodies. esc_free b \<and> utf8_valid b \<and> strip b = b"
    and "\<not> in_alternate_screen (sp_processor sp)" "d_strategy (sp_detector sp) = PromptMarker m"
  shows "sp_run strip sp bodies =
    (sp\<lparr>sp_detector := (sp_detector sp)\<lparr>d_current_output := d_current_output (sp_detector sp) @ chunk_lines bodies,
        d_has_output := (d_has_output (sp_detector sp) \<or> chunk_lines bodies \<noteq> [])\<rparr>\<rparr>, Val [])"
  using assms
proof (induction bodies arbitrary: sp)
  case (Cons cb bs)
  obtain clk b where cb: "cb = (clk, b)" by (cases cb)
  have b: "esc_free b" "utf8_valid b" "strip b = b" using Cons.prems by (auto simp: cb)
  let ?d = "(sp_detector sp)\<lparr>d_current_output := d_current_output (sp_detector sp) @ lines b,
        d_has_output := (d_has_output (sp_detector sp) \<or> lines b \<noteq> [])\<rparr>"
  have "sp_feed strip clk sp b = (sp\<lparr>sp_detector := ?d\<rparr>, Val [])"
    using sp_feed_normal [OF only_osc_free [OF b(1)] Cons.prems(2), of strip clk] b Cons.prems(3)
      feed_each_plain [of "lines b" "sp_detector sp" m clk] lines_esc_free [OF b(1)]
    by (simp add: extract_no_esc)
  moreover have "sp_run strip (sp\<lparr>sp_detector := ?d\<rparr>) bs =
      (sp\<lparr>sp_detector := ?d\<lparr>d_current_output := d_current_output ?d @ chunk_lines bs,
        d_has_output := (d_has_output ?d \<or> chunk_lines bs \<noteq> [])\<rparr>\<rparr>, Val [])"
    using Cons.IH [of "sp\<lparr>sp_detector := ?d\<rparr>"] Cons.prems by simp
  ultimately show ?case by (simp add: cb Let_def)
qed simp

lemma sp_feed_command:
  assumes "ready sp" "strip (command_marker (hex_text cmd)) = []"
  shows "sp_feed strip clk sp (command_marker (hex_text cmd)) =
    (sp\<lparr>sp_detector := (sp_detector sp)\<lparr>d_current_command := kept_command cmd\<rparr>\<rparr>, Val [])"
proof -
  obtain m where "\<not> in_alternate_screen (sp_processor sp)" "idle (sp_detector sp)"
    "d_strategy (sp_detector sp) = PromptMarker m" using assms(1) by (auto simp: ready_def)
  then show ?thesis
    using sp_feed_normal [OF hook_markers_only_osc(1) _ , of sp strip cmd clk] assms(2)
      extract_hook_markers(1) [of "[]" cmd "[]"] feed_each_command [of "sp_detector sp" m clk cmd]
    by (simp add: extract_nothing lines_def utf8_valid_Nil esc_free_def)
qed

lemma sp_feed_completion:
  assumes "\<not> in_alternate_screen (sp_processor sp)" "d_strategy (sp_detector sp) = PromptMarker m"
    "strip (completion_marker (int_text code)) = []" "i32_min \<le> code" "code \<le> i32_max"
  shows "sp_feed strip clk sp (completion_marker (int_text code)) =
    (case finalize_record (snd (clk 0)) (sp_detector sp) code of
       (d', None) \<Rightarrow> (sp\<lparr>sp_detector := d'\<rparr>, Val [])
     | (d', Some r) \<Rightarrow> (sp\<lparr>sp_detector := d'\<rparr>, Val [r\<lparr>cr_capture_mode := Pty\<rparr>]))"
  using sp_feed_normal [OF hook_markers_only_osc(2) assms(1), of strip code clk] assms(3)
    extract_hook_markers(2) [of "[]" code "[]"] feed_each_completion [OF assms(2,4,5), of clk]
  by (auto simp: extract_nothing lines_def utf8_valid_Nil esc_free_def split: prod.splits option.splits)

text \<open>A stripper for the examples: it drops what stands between an escape and a bell character.\<close>

fun drop_osc :: "bool \<Rightarrow> bytes \<Rightarrow> bytes" where
  "drop_osc skip [] = []"
| "drop_osc skip (c # cs) =
     (if skip then drop_osc (c \<noteq> CHR 0x07) cs
      else if c = CHR 0x1B then drop_osc True cs else c # drop_osc False cs)"

lemma drop_osc_skip: "CHR 0x07 \<notin> set t \<Longrightarrow> drop_osc True (t @ CHR 0x07 # r) = drop_osc False r"
  by (induction t) auto

lemma drop_osc_marker: "CHR 0x07 \<notin> set body \<Longrightarrow> drop_osc False (osc133 body @ r) = drop_osc False r"
  using drop_osc_skip [of "'']133;'' @ body" r] by (simp add: osc133_def osc_start_def)

lemma drop_osc_free: "esc_free t \<Longrightarrow> drop_osc False (t @ r) = t @ drop_osc False r"
  by (induction t) (auto simp: esc_free_def)

lemma drop_osc_hook_markers:
  "drop_osc False (command_marker (hex_text cmd) @ r) = drop_osc False r"
  "drop_osc False (completion_marker (int_text c) @ r) = drop_osc False r"
  using hex_text_free(2) [of cmd] int_text_bytes [of c]
  by (simp_all add: command_marker_osc completion_marker_osc drop_osc_marker)

lemma feed_line_fresh:
  "feed_line now utc d l = Val (d', Some r) \<Longrightarrow> cr_id r = []"
  by (auto simp: feed_line_def feed_line_prompt_marker_def feed_line_timing_def finalize_record_def default_record_def
      split: boundary_strategy.splits option.splits if_splits)

lemma feed_each_fresh: "feed_each clk d ls = (d', Val rs) \<Longrightarrow> list_all (\<lambda>r. cr_id r = [] \<and> cr_capture_mode r = Pty) rs"
proof (induction ls arbitrary: clk d d' rs)
  case (Cons l ls)
  then obtain d1 r d2 rs1 where f: "feed_line (fst (clk 0)) (snd (clk 0)) d l = Val (d1, r)"
    and e: "feed_each (\<lambda>n. clk (Suc n)) d1 ls = (d2, Val rs1)"
    and rs: "rs = (case r of None \<Rightarrow> rs1 | Some x \<Rightarrow> x\<lparr>cr_capture_mode := Pty\<rparr> # rs1)"
    by (auto split: rs.splits prod.splits)
  show ?case
    using Cons.IH [OF e] feed_line_fresh [of "fst (clk 0)" "snd (clk 0)" d l d1] f by (cases r) (auto simp: rs)
qed simp

section \<open>Properties\<close>

text \<open>
  Further property (safety). Attached sessions do not interfere: however the chunks of several sessions are
  interleaved, the records a session's chunks produce, and its pipeline afterwards, are those
  of its own chunks alone.
\<close>

theorem pool_sessions_independent:
  "let own = filter (\<lambda>(clk, s, bs). s = sid) fs in
     filter (\<lambda>(s, r). s = sid) (snd (pool_run strip p fs)) = snd (pool_run strip p own) \<and>
     hm_get (fst (pool_run strip p fs)) sid = hm_get (fst (pool_run strip p own)) sid"
  using pool_run_own [of p sid p strip fs] by (simp add: Let_def)

lemma sp_run_natural_chunks:
  assumes "ready sp"
    and "strip (command_marker (hex_text cmd)) = []" "strip (completion_marker (int_text code)) = []"
    and "\<forall>(clk, b)\<in>set bodies. esc_free b \<and> utf8_valid b \<and> strip b = b"
    and "i32_min \<le> code" "code \<le> i32_max"
  shows "sp_run strip sp ((c0, command_marker (hex_text cmd)) # bodies @ [(c1, completion_marker (int_text code))]) =
    (sp, Val (if chunk_lines bodies = [] \<and> (kept_command cmd = None \<or> code = 0) then []
       else [default_record\<lparr>cr_command := kept_command cmd, cr_exit_code := code,
               cr_output_lines := chunk_lines bodies, cr_timestamp := snd (c1 0)\<rparr>]))"
proof -
  obtain m where r: "\<not> in_alternate_screen (sp_processor sp)" "idle (sp_detector sp)"
    "d_strategy (sp_detector sp) = PromptMarker m" using assms(1) by (auto simp: ready_def)
  let ?sp1 = "sp\<lparr>sp_detector := (sp_detector sp)\<lparr>d_current_command := kept_command cmd\<rparr>\<rparr>"
  let ?d = "(sp_detector sp)\<lparr>d_current_command := kept_command cmd,
      d_current_output := chunk_lines bodies, d_has_output := (chunk_lines bodies \<noteq> [])\<rparr>"
  have "sp_run strip ?sp1 bodies = (sp\<lparr>sp_detector := ?d\<rparr>, Val [])"
    using sp_run_bodies [OF assms(4), of ?sp1 m] r by (simp add: idle_def)
  moreover have "sp_run strip (sp\<lparr>sp_detector := ?d\<rparr>) [(c1, completion_marker (int_text code))] =
      (sp, Val (if chunk_lines bodies = [] \<and> (kept_command cmd = None \<or> code = 0) then []
       else [default_record\<lparr>cr_command := kept_command cmd, cr_exit_code := code,
               cr_output_lines := chunk_lines bodies, cr_timestamp := snd (c1 0)\<rparr>]))"
    using sp_feed_completion [of "sp\<lparr>sp_detector := ?d\<rparr>" m strip code c1] assms r
    by (simp add: finalize_record_def reset_state_def idle_def default_record_def)
  ultimately show ?thesis
    using sp_feed_command [of sp strip cmd c0] assms(1,2) by (simp add: sp_run_append Let_def)
qed

text \<open>
  Further property (functional). When the hook's command marker, the output and the completion marker of a
  command arrive in chunks of their own, as many for the output as the terminal likes, a ready
  pipeline returns exactly one record, with the command, the exit code and the lines of the
  output chunks, and is ready again; without output, a command that is unknown or succeeded
  leaves no record. The escape stripper is assumed to drop the two markers and to keep text
  that has no escape characters.
\<close>

theorem natural_chunks_record:
  assumes "ready sp"
    and "strip (command_marker (hex_text cmd)) = []" "strip (completion_marker (int_text code)) = []"
    and "\<forall>(clk, b)\<in>set bodies. esc_free b \<and> utf8_valid b \<and> strip b = b"
    and "i32_min \<le> code" "code \<le> i32_max"
  shows "sp_run strip sp ((c0, command_marker (hex_text cmd)) # bodies @ [(c1, completion_marker (int_text code))]) =
    (sp, Val (if chunk_lines bodies = [] \<and> (kept_command cmd = None \<or> code = 0) then []
       else [default_record\<lparr>cr_command := kept_command cmd, cr_exit_code := code,
               cr_output_lines := chunk_lines bodies, cr_timestamp := snd (c1 0)\<rparr>]))"
  by (rule sp_run_natural_chunks [OF assms])

theorem natural_chunks_record_witness:
  "sp_run (drop_osc False) session_processor_new
     ((\<lambda>_. (0, 1), command_marker (hex_text ''ls'')) # [(\<lambda>_. (0, 2), ''out'')] @
      [(\<lambda>_. (0, 3), completion_marker (int_text (2::int)))]) =
   (session_processor_new, Val [default_record\<lparr>cr_command := kept_command ''ls'', cr_exit_code := 2,
      cr_output_lines := [''out''], cr_timestamp := 3\<rparr>])"
proof -
  have "utf8_valid ''out''" by (rule utf8_valid_ascii) simp
  then show ?thesis
    using natural_chunks_record [OF ready_new, of "drop_osc False" "''ls''" 2 "[(\<lambda>_. (0, 2), ''out'')]"
        "\<lambda>_. (0, 1)" "\<lambda>_. (0, 3)"]
      drop_osc_hook_markers(1) [of "''ls''" "[]"] drop_osc_hook_markers(2) [of 2 "[]"]
    by (simp add: esc_free_def lines_plain)
qed

text \<open>
  Further property (error). When the same command arrives in one chunk, its markers are handled before its
  text: the record, if there is one, has no output, a command that succeeded leaves no record
  at all, and its output stays in the pipeline, where it is taken for output of the next command.
\<close>

theorem one_chunk_output_misattributed:
  assumes "ready sp"
    and "strip (command_marker (hex_text cmd) @ body @ completion_marker (int_text code)) = body"
    and "esc_free body" "utf8_valid body" "i32_min \<le> code" "code \<le> i32_max"
  shows "let (sp', r) = sp_feed strip clk sp (command_marker (hex_text cmd) @ body @ completion_marker (int_text code)) in
    r = Val (if kept_command cmd = None \<or> code = 0 then []
             else [default_record\<lparr>cr_command := kept_command cmd, cr_exit_code := code,
                     cr_output_lines := [], cr_timestamp := snd (clk 1)\<rparr>]) \<and>
    d_current_output (sp_detector sp') = lines body \<and> d_current_command (sp_detector sp') = None"
proof -
  obtain m where r: "\<not> in_alternate_screen (sp_processor sp)" "idle (sp_detector sp)"
    "d_strategy (sp_detector sp) = PromptMarker m" using assms(1) by (auto simp: ready_def)
  let ?raw = "command_marker (hex_text cmd) @ body @ completion_marker (int_text code)"
  let ?d1 = "(sp_detector sp)\<lparr>d_current_command := kept_command cmd\<rparr>"
  have osc: "only_osc ?raw"
    using hook_markers_only_osc(1) [of cmd] hook_markers_only_osc(2) [of code] only_osc_free [OF assms(3)]
    by (intro only_osc_append)
  have ex: "extract_osc133_markers ?raw = [command_marker (hex_text cmd)] @ [completion_marker (int_text code)]"
    using extract_hook_markers(1) [of "[]" cmd "body @ completion_marker (int_text code)"]
      extract_hook_markers(2) [OF assms(3), of code "[]"] by (simp add: extract_nothing esc_free_def)
  have c: "feed_each clk (sp_detector sp) [command_marker (hex_text cmd)] = (?d1, Val [])"
    using feed_each_command [OF r(3,2)] .
  have d: "feed_each (\<lambda>n. clk (n + 1)) ?d1 [completion_marker (int_text code)] =
      (sp_detector sp, Val (if kept_command cmd = None \<or> code = 0 then []
             else [default_record\<lparr>cr_command := kept_command cmd, cr_exit_code := code,
                     cr_output_lines := [], cr_timestamp := snd (clk 1)\<rparr>]))"
    using feed_each_completion [of ?d1 m code "\<lambda>n. clk (n + 1)"] r assms(5,6)
    by (simp add: finalize_record_def reset_state_def idle_def default_record_def)
  have l: "feed_each c (sp_detector sp) (lines body) =
      ((sp_detector sp)\<lparr>d_current_output := lines body, d_has_output := (lines body \<noteq> [])\<rparr>, Val [])" for c
    using feed_each_plain [of "lines body" "sp_detector sp" m c] lines_esc_free [OF assms(3)] r by (simp add: idle_def)
  show ?thesis
    using sp_feed_normal [OF osc r(1), of strip clk] assms(2,4) c d l r(2)
    by (simp add: ex feed_each_append Let_def idle_def del: feed_each.simps append_Cons append_Nil)
qed

theorem one_chunk_output_misattributed_witness:
  "d_current_output (sp_detector (fst (sp_feed (drop_osc False) (\<lambda>_. (0, 1)) session_processor_new
     (command_marker (hex_text ''ls'') @ ''out'' @ completion_marker (int_text (0::int)))))) = [''out'']"
proof -
  have "utf8_valid ''out''" by (rule utf8_valid_ascii) simp
  moreover have "drop_osc False (command_marker (hex_text ''ls'') @ ''out'' @ completion_marker (int_text 0)) = ''out''"
    using drop_osc_hook_markers(1) [of "''ls''"] drop_osc_free [of "''out''"] drop_osc_hook_markers(2) [of 0 "[]"]
    by (simp add: esc_free_def)
  ultimately show ?thesis
    using one_chunk_output_misattributed [OF ready_new, of "drop_osc False" "''ls''" "''out''" 0 "\<lambda>_. (0, 1)"]
    by (simp add: esc_free_def lines_plain case_prod_beta Let_def)
qed

end
