(* ===== verification/Ring_Buffer.thy ===== *)
theory Ring_Buffer
  imports Records
begin

text \<open>
  The session daemon's in-memory buffer of recent commands
  (\<open>aic-server/src/ring_buffer.rs\<close>): its capacity counts output lines, not records. The
  invariant is that the stored counter is the number of stored lines and that the capacity is
  exceeded only by a single record that is larger than it.
\<close>

section \<open>State and operations\<close>

record ring_buffer =
  rb_records :: "command_record list"
  rb_max_lines :: nat
  rb_line_count :: nat

definition rb_new :: "nat \<Rightarrow> ring_buffer" where
  "rb_new max_lines = \<lparr>rb_records = [], rb_max_lines = max_lines, rb_line_count = 0\<rparr>"

text \<open>The \<open>while\<close> loop of \<open>push\<close>: pop the oldest record while the new one does not fit.\<close>

fun rb_evict :: "nat \<Rightarrow> nat \<Rightarrow> command_record list \<Rightarrow> nat \<Rightarrow> command_record list \<times> nat" where
  "rb_evict mx new [] cnt = ([], cnt)"
| "rb_evict mx new (r # rs) cnt =
     (if mx < cnt + new then rb_evict mx new rs (cnt - length (cr_output_lines r)) else (r # rs, cnt))"

definition assign_id :: "u64 \<Rightarrow> command_record \<Rightarrow> command_record" where
  "assign_id rnd r = (if cr_id r = [] then r\<lparr>cr_id := generate_record_id rnd\<rparr> else r)"

definition rb_insert :: "ring_buffer \<Rightarrow> command_record \<Rightarrow> ring_buffer" where
  "rb_insert s r =
     (let new = length (cr_output_lines r) in
      if rb_max_lines s < new then s\<lparr>rb_records := [r], rb_line_count := new\<rparr>
      else (case rb_evict (rb_max_lines s) new (rb_records s) (rb_line_count s) of
              (rs, cnt) \<Rightarrow> s\<lparr>rb_records := rs @ [r], rb_line_count := cnt + new\<rparr>))"

definition rb_push :: "u64 \<Rightarrow> ring_buffer \<Rightarrow> command_record \<Rightarrow> ring_buffer" where
  "rb_push rnd s r = rb_insert s (assign_id rnd r)"

definition rb_last :: "ring_buffer \<Rightarrow> command_record option" where
  "rb_last s = (if rb_records s = [] then None else Some (last (rb_records s)))"

definition rb_recent_records :: "ring_buffer \<Rightarrow> nat \<Rightarrow> command_record list" where
  "rb_recent_records s n = (if n = 0 then [] else drop (length (rb_records s) - n) (rb_records s))"

definition rb_find_by_prefix :: "ring_buffer \<Rightarrow> str \<Rightarrow> command_record list" where
  "rb_find_by_prefix s p = (if p = [] then [] else filter (\<lambda>r. prefix p (cr_id r)) (rb_records s))"

definition rb_total_lines :: "ring_buffer \<Rightarrow> nat" where
  "rb_total_lines s = rb_line_count s"

definition rb_capacity :: "ring_buffer \<Rightarrow> nat" where
  "rb_capacity s = rb_max_lines s"

text \<open>A \<open>&str\<close> takes 16 bytes.\<close>

definition rb_recent_lines :: "ring_buffer \<Rightarrow> nat \<Rightarrow> str list rs" where
  "rb_recent_lines s n =
     (if n = 0 then Val []
      else rs_bind (with_capacity 16 n) (\<lambda>_.
        Val (rev (collect_tail (rev (map cr_output_lines (rb_records s))) n []))))"

section \<open>Invariant\<close>

definition lines_of :: "command_record list \<Rightarrow> nat" where
  "lines_of rs = sum_list (map (\<lambda>r. length (cr_output_lines r)) rs)"

definition rb_inv :: "ring_buffer \<Rightarrow> bool" where
  "rb_inv s \<longleftrightarrow> rb_line_count s = lines_of (rb_records s) \<and>
     (rb_line_count s \<le> rb_max_lines s \<or> length (rb_records s) = 1)"

lemma lines_of_simps [simp]:
  "lines_of [] = 0"
  "lines_of (r # rs) = length (cr_output_lines r) + lines_of rs"
  "lines_of (xs @ ys) = lines_of xs + lines_of ys"
  by (simp_all add: lines_of_def)

lemma lines_of_concat: "length (concat (map cr_output_lines rs)) = lines_of rs"
  by (induction rs) auto

text \<open>
  The loop pops the least number of records that makes room; with the counter right, its
  subtractions never go below zero.
\<close>

lemma rb_evict_spec:
  assumes "new \<le> mx"
  shows "\<exists>d\<le>length rs. rb_evict mx new rs (lines_of rs) = (drop d rs, lines_of (drop d rs)) \<and>
           lines_of (drop d rs) + new \<le> mx \<and>
           (\<forall>e<d. mx < lines_of (drop e rs) + new)"
proof (induction rs)
  case Nil
  then show ?case using assms by simp
next
  case (Cons r rs)
  show ?case
  proof (cases "mx < lines_of (r # rs) + new")
    case True
    from Cons obtain d where d: "d \<le> length rs"
      "rb_evict mx new rs (lines_of rs) = (drop d rs, lines_of (drop d rs))"
      "lines_of (drop d rs) + new \<le> mx" "\<forall>e<d. mx < lines_of (drop e rs) + new"
      by blast
    then have "\<forall>e<Suc d. mx < lines_of (drop e (r # rs)) + new"
      using True by (auto simp: less_Suc_eq_0_disj)
    with d True show ?thesis by (intro exI [of _ "Suc d"]) auto
  next
    case False
    then show ?thesis by (intro exI [of _ 0]) auto
  qed
qed

lemma rb_insert_large:
  "rb_max_lines s < length (cr_output_lines r) \<Longrightarrow>
     rb_insert s r = s\<lparr>rb_records := [r], rb_line_count := length (cr_output_lines r)\<rparr>"
  by (simp add: rb_insert_def)

lemma rb_insert_fits:
  assumes "rb_inv s" "length (cr_output_lines r) \<le> rb_max_lines s"
  shows "\<exists>d\<le>length (rb_records s).
    rb_insert s r = s\<lparr>rb_records := drop d (rb_records s) @ [r],
      rb_line_count := lines_of (drop d (rb_records s)) + length (cr_output_lines r)\<rparr> \<and>
    lines_of (drop d (rb_records s)) + length (cr_output_lines r) \<le> rb_max_lines s \<and>
    (\<forall>e<d. rb_max_lines s < lines_of (drop e (rb_records s)) + length (cr_output_lines r))"
  using rb_evict_spec [OF assms(2), of "rb_records s"] assms
  by (auto simp: rb_insert_def rb_inv_def)

lemma rb_new_inv [inv_intros]: "rb_inv (rb_new n)"
  by (simp add: rb_inv_def rb_new_def)

lemma rb_insert_inv [inv_intros]: "rb_inv s \<Longrightarrow> rb_inv (rb_insert s r)"
proof (cases "rb_max_lines s < length (cr_output_lines r)")
  case True
  then show ?thesis by (simp add: rb_insert_large rb_inv_def)
next
  case False
  assume "rb_inv s"
  with False obtain d where "rb_insert s r = s\<lparr>rb_records := drop d (rb_records s) @ [r],
      rb_line_count := lines_of (drop d (rb_records s)) + length (cr_output_lines r)\<rparr>"
    "lines_of (drop d (rb_records s)) + length (cr_output_lines r) \<le> rb_max_lines s"
    using rb_insert_fits [of s r] by auto
  then show ?thesis by (simp add: rb_inv_def)
qed

lemma rb_push_inv [inv_intros]: "rb_inv s \<Longrightarrow> rb_inv (rb_push rnd s r)"
  by (simp add: rb_push_def rb_insert_inv)

lemma rb_max_lines_insert [simp]: "rb_max_lines (rb_insert s r) = rb_max_lines s"
  by (simp add: rb_insert_def Let_def split: prod.splits)

lemma rb_max_lines_push [simp]: "rb_max_lines (rb_push rnd s r) = rb_max_lines s"
  by (simp add: rb_push_def)

lemma rb_max_lines_new [simp]: "rb_max_lines (rb_new n) = n"
  by (simp add: rb_new_def)

lemma rb_insert_keeps_suffix:
  "rb_inv s \<Longrightarrow> \<exists>d\<le>length (rb_records s). rb_records (rb_insert s r) = drop d (rb_records s) @ [r]"
proof (cases "rb_max_lines s < length (cr_output_lines r)")
  case True
  then show ?thesis by (intro exI [of _ "length (rb_records s)"]) (simp add: rb_insert_large)
next
  case False
  assume "rb_inv s"
  with False show ?thesis using rb_insert_fits [of s r] by auto
qed

text \<open>What is pushed is a record with the random value its id would be made from.\<close>

interpretation rbl: bounded_log rb_records "\<lambda>s (rnd, r). rb_push rnd s r" "\<lambda>(rnd, r). assign_id rnd r"
    "\<lambda>_ _. True" rb_inv
  by unfold_locales (auto intro: rb_insert_inv rb_insert_keeps_suffix simp: rb_push_def)

lemma rb_last_push: "rb_inv s \<Longrightarrow> rb_last (rb_push rnd s r) = Some (assign_id rnd r)"
  using rbl.last_after_accepted_push [of s "(rnd, r)"] by (simp add: rb_last_def)

lemma rb_recent_lines_last_n:
  "rb_recent_lines s n =
     (if n < 2 ^ 59 then Val (last_n n (concat (map cr_output_lines (rb_records s)))) else Panic)"
  by (simp add: rb_recent_lines_def collect_tail_last_n with_capacity_def)

lemma assign_id_cr_id: "cr_id (assign_id rnd r) = (if cr_id r = [] then generate_record_id rnd else cr_id r)"
  by (simp add: assign_id_def)

lemma assign_id_keeps [simp]:
  "cr_output_lines (assign_id rnd r) = cr_output_lines r"
  "cr_command (assign_id rnd r) = cr_command r"
  "cr_exit_code (assign_id rnd r) = cr_exit_code r"
  "cr_capture_mode (assign_id rnd r) = cr_capture_mode r"
  by (simp_all add: assign_id_def)

section \<open>Properties\<close>

abbreviation rb_push_all :: "ring_buffer \<Rightarrow> (u64 \<times> command_record) list \<Rightarrow> ring_buffer" where
  "rb_push_all \<equiv> foldl (\<lambda>s (rnd, r). rb_push rnd s r)"

lemma rb_max_lines_push_all [simp]: "rb_max_lines (rb_push_all s prs) = rb_max_lines s"
  by (induction prs arbitrary: s) auto

text \<open>
  Further property (invariant). After any sequence of pushes into a new buffer the line counter is the
  number of lines stored, and the stored lines exceed the capacity only when the buffer
  holds one single record; what is stored is the tail of the history of pushes, ids assigned.
\<close>

theorem ring_buffer_history:
  "let s = rb_push_all (rb_new cap) prs in
     rb_total_lines s = lines_of (rb_records s) \<and>
     (rb_total_lines s \<le> cap \<or> length (rb_records s) = 1) \<and>
     suffix (rb_records s) (map (\<lambda>(rnd, r). assign_id rnd r) prs) \<and>
     list_all (\<lambda>r. cr_id r \<noteq> []) (rb_records s)"
proof -
  let ?rs = "map (\<lambda>(rnd, r). assign_id rnd r) prs" and ?s = "rb_push_all (rb_new cap) prs"
  have "rb_inv ?s" by (rule rbl.inv_fold) (rule rb_new_inv)
  moreover have suf: "suffix (rb_records ?s) ?rs"
    using rbl.kept_is_suffix_of_history [OF rb_new_inv, of cap prs]
    by (simp add: accepted_of_all rb_new_def)
  moreover have "list_all (\<lambda>r. cr_id r \<noteq> []) (rb_records ?s)"
    using set_mono_suffix [OF suf] by (fastforce simp: list_all_iff assign_id_cr_id split: if_splits)
  ultimately show ?thesis
    by (auto simp: Let_def rb_inv_def rb_total_lines_def)
qed

text \<open>
  Further property (functional). A record that fits the capacity evicts the least number of the oldest
  records: what stays is the longest tail that still leaves room for the new record. A record
  larger than the capacity replaces everything. Either way the new record is the last one.
\<close>

theorem push_evicts_least:
  assumes "rb_inv s"
  shows "if length (cr_output_lines r) \<le> rb_max_lines s
    then \<exists>d\<le>length (rb_records s).
      rb_records (rb_push rnd s r) = drop d (rb_records s) @ [assign_id rnd r] \<and>
      lines_of (drop d (rb_records s)) + length (cr_output_lines r) \<le> rb_max_lines s \<and>
      (\<forall>e<d. rb_max_lines s < lines_of (drop e (rb_records s)) + length (cr_output_lines r))
    else rb_records (rb_push rnd s r) = [assign_id rnd r]"
proof (cases "length (cr_output_lines r) \<le> rb_max_lines s")
  case True
  then show ?thesis using rb_insert_fits [OF assms, of "assign_id rnd r"]
    by (fastforce simp: rb_push_def)
qed (simp add: rb_push_def rb_insert_large)

theorem push_evicts_least_witness:
  "\<exists>d\<le>2. rb_records (rb_push 7 (rb_push 6 (rb_push 5 (rb_new 2) (default_record\<lparr>cr_output_lines := [''a'']\<rparr>))
       (default_record\<lparr>cr_output_lines := [''b'']\<rparr>)) (default_record\<lparr>cr_output_lines := [''c'']\<rparr>)) =
     drop d [assign_id 5 (default_record\<lparr>cr_output_lines := [''a'']\<rparr>), assign_id 6 (default_record\<lparr>cr_output_lines := [''b'']\<rparr>)]
       @ [assign_id 7 (default_record\<lparr>cr_output_lines := [''c'']\<rparr>)]"
proof -
  let ?s = "rb_push 6 (rb_push 5 (rb_new 2) (default_record\<lparr>cr_output_lines := [''a'']\<rparr>))
       (default_record\<lparr>cr_output_lines := [''b'']\<rparr>)"
  have inv: "rb_inv ?s" by (intro inv_intros)
  have "rb_records ?s = [assign_id 5 (default_record\<lparr>cr_output_lines := [''a'']\<rparr>),
      assign_id 6 (default_record\<lparr>cr_output_lines := [''b'']\<rparr>)]"
    by (simp add: rb_push_def rb_insert_def rb_new_def)
  moreover have "rb_max_lines ?s = 2" by (simp add: rb_new_def)
  ultimately show ?thesis
    using push_evicts_least [OF inv, of "default_record\<lparr>cr_output_lines := [''c'']\<rparr>" 7]
    by (simp add: numeral_2_eq_2) blast
qed

text \<open>
  Further property (equivalence). The early-exit walk of \<open>recent_lines\<close> from the newest record returns the
  last \<open>n\<close> of all stored lines, in order, and \<open>recent_records\<close> the last \<open>n\<close> records. But the
  request for lines unwinds the task when \<open>n\<close> is at least \<open>2 ^ 59\<close>, because room for \<open>n\<close> lines is
  reserved whatever the buffer holds.
\<close>

theorem recent_is_tail:
  "rb_recent_lines s n =
     (if n < 2 ^ 59 then Val (last_n n (concat (map cr_output_lines (rb_records s)))) else Panic) \<and>
   rb_recent_records s n = last_n n (rb_records s)"
  by (simp add: rb_recent_lines_last_n rb_recent_records_def last_n_def)

end
