(* ===== verification/Record_Store.thy ===== *)
theory Record_Store
  imports Ring_Buffer
begin

text \<open>
  The supervisor's store of finished commands (\<open>aic-server/src/command_record_store.rs\<close>):
  one ring of at most 64 records per session, the commands that have started and not
  finished, and the tap that announces every record that enters a ring. The lock makes each
  operation atomic, so an operation is a function on the state. The broadcast channel is the
  list of what was sent to it; \<open>debug\<close> says whether \<open>debug_assert!\<close> is compiled in.
\<close>

section \<open>State and operations\<close>

definition per_session_capacity :: nat where
  "per_session_capacity = 64"

record pending_start =
  ps_command :: str
  ps_cwd :: "str option"
  ps_started_at :: datetime

record record_store =
  finished :: "str \<rightharpoonup> command_record list"
  pending :: "str \<times> str \<rightharpoonup> pending_start"
  events :: "command_record list"

definition store_new :: record_store where
  "store_new = \<lparr>finished = Map.empty, pending = Map.empty, events = []\<rparr>"

definition push_inner ::
  "u64 \<Rightarrow> command_record list \<Rightarrow> command_record list \<Rightarrow> command_record \<Rightarrow> command_record list \<times> command_record list" where
  "push_inner rnd ring tx r =
     (if cr_id r \<noteq> [] \<and> list_ex (\<lambda>existing. cr_id existing = cr_id r) ring then (ring, tx)
      else (let r' = assign_id rnd r;
                ring' = (if length ring = per_session_capacity then tl ring else ring)
            in (ring' @ [r'], tx @ [r'])))"

text \<open>The ring of a session; a session without one has the empty ring.\<close>

definition ring_of :: "record_store \<Rightarrow> str \<Rightarrow> command_record list" where
  "ring_of s sid = (case finished s sid of None \<Rightarrow> [] | Some ring \<Rightarrow> ring)"

text \<open>\<open>entry(..).or_insert_with(..)\<close> followed by \<open>push_inner\<close>, as every push ends.\<close>

definition store_push :: "u64 \<Rightarrow> record_store \<Rightarrow> str \<Rightarrow> command_record \<Rightarrow> record_store" where
  "store_push rnd s sid r =
     (case push_inner rnd (ring_of s sid) (events s) r of
        (ring, tx) \<Rightarrow> s\<lparr>finished := (finished s)(sid \<mapsto> ring), events := tx\<rparr>)"

definition on_started ::
  "record_store \<Rightarrow> str \<Rightarrow> str \<Rightarrow> str \<Rightarrow> str option \<Rightarrow> datetime \<Rightarrow> record_store" where
  "on_started s sid cid command cwd started_at =
     s\<lparr>pending := (pending s)((sid, cid) \<mapsto>
         \<lparr>ps_command = command, ps_cwd = cwd, ps_started_at = started_at\<rparr>)\<rparr>"

definition hook_record :: "pending_start option \<Rightarrow> int \<Rightarrow> datetime \<Rightarrow> nat \<Rightarrow> command_record" where
  "hook_record p exit_code finished_at duration_ms =
     \<lparr>cr_id = [], cr_command = map_option ps_command p, cr_exit_code = exit_code,
      cr_output_lines = [], cr_timestamp = finished_at, cr_capture_mode = Hook,
      cr_capture_quality = MetadataOnly, cr_output_metadata = None,
      cr_cwd = (case p of None \<Rightarrow> None | Some ps \<Rightarrow> map_option from_utf8_lossy (ps_cwd ps)),
      cr_duration_ms = (if 0 < duration_ms then Some duration_ms else None)\<rparr>"

definition on_finished ::
  "u64 \<Rightarrow> record_store \<Rightarrow> str \<Rightarrow> str \<Rightarrow> int \<Rightarrow> datetime \<Rightarrow> nat \<Rightarrow> record_store" where
  "on_finished rnd s sid cid exit_code finished_at duration_ms =
     store_push rnd (s\<lparr>pending := (pending s)((sid, cid) := None)\<rparr>) sid
       (hook_record (pending s (sid, cid)) exit_code finished_at duration_ms)"

definition store_last :: "record_store \<Rightarrow> str \<Rightarrow> command_record option" where
  "store_last s sid =
     (case finished s sid of None \<Rightarrow> None | Some r \<Rightarrow> if r = [] then None else Some (last r))"

definition store_len :: "record_store \<Rightarrow> str \<Rightarrow> nat" where
  "store_len s sid = (case finished s sid of None \<Rightarrow> 0 | Some r \<Rightarrow> length r)"

definition push_pty :: "bool \<Rightarrow> u64 \<Rightarrow> record_store \<Rightarrow> str \<Rightarrow> command_record \<Rightarrow> record_store rs" where
  "push_pty debug rnd s sid r =
     (if debug \<and> cr_capture_mode r \<noteq> Pty then Panic else Val (store_push rnd s sid r))"

definition push_explicit :: "bool \<Rightarrow> u64 \<Rightarrow> record_store \<Rightarrow> str \<Rightarrow> command_record \<Rightarrow> record_store rs" where
  "push_explicit debug rnd s sid r =
     (if debug \<and> cr_capture_mode r \<noteq> ExplicitCapture then Panic else Val (store_push rnd s sid r))"

definition store_recent :: "record_store \<Rightarrow> str \<Rightarrow> nat \<Rightarrow> command_record list" where
  "store_recent s sid count =
     (if count = 0 then []
      else case finished s sid of None \<Rightarrow> [] | Some ring \<Rightarrow> rev (take count (rev ring)))"

definition store_find_by_prefix :: "record_store \<Rightarrow> str \<Rightarrow> str \<Rightarrow> command_record list" where
  "store_find_by_prefix s sid p =
     (if p = [] then []
      else case finished s sid of None \<Rightarrow> [] | Some ring \<Rightarrow> filter (\<lambda>r. prefix p (cr_id r)) ring)"

section \<open>One push\<close>

definition accepts_push :: "str \<Rightarrow> record_store \<Rightarrow> u64 \<times> command_record \<Rightarrow> bool" where
  "accepts_push sid s x \<longleftrightarrow>
     cr_id (snd x) = [] \<or> cr_id (snd x) \<notin> cr_id ` set (ring_of s sid)"

definition store_inv :: "record_store \<Rightarrow> bool" where
  "store_inv s \<longleftrightarrow> (\<forall>sid. length (ring_of s sid) \<le> per_session_capacity \<and>
     (\<forall>r\<in>set (ring_of s sid). cr_id r \<noteq> []))"

lemma ring_of_new [simp]: "ring_of store_new sid = []"
  by (simp add: store_new_def ring_of_def)

lemma events_new [simp]: "events store_new = []"
  by (simp add: store_new_def)

lemma ring_of_update [simp]:
  "ring_of (s\<lparr>finished := (finished s)(sid \<mapsto> ring), events := tx\<rparr>) sid' =
     (if sid' = sid then ring else ring_of s sid')"
  "ring_of (s\<lparr>finished := (finished s)(sid \<mapsto> ring)\<rparr>) sid' = (if sid' = sid then ring else ring_of s sid')"
  by (simp_all add: ring_of_def)

lemma store_push_rejected:
  "\<not> accepts_push sid s (rnd, r) \<Longrightarrow>
     ring_of (store_push rnd s sid r) sid = ring_of s sid \<and> events (store_push rnd s sid r) = events s"
  by (auto simp: store_push_def push_inner_def accepts_push_def list_ex_iff)

lemma store_push_accepted:
  "accepts_push sid s (rnd, r) \<Longrightarrow>
     ring_of (store_push rnd s sid r) sid =
       drop (if length (ring_of s sid) = per_session_capacity then 1 else 0) (ring_of s sid) @ [assign_id rnd r] \<and>
     events (store_push rnd s sid r) = events s @ [assign_id rnd r]"
  by (auto simp: store_push_def push_inner_def accepts_push_def list_ex_iff image_iff Let_def drop_Suc)

lemma ring_of_push_other [simp]:
  "sid' \<noteq> sid \<Longrightarrow> ring_of (store_push rnd s sid r) sid' = ring_of s sid'"
  by (simp add: store_push_def split: prod.splits)

lemma pending_push [simp]: "pending (store_push rnd s sid r) = pending s"
  by (simp add: store_push_def split: prod.splits)

lemma store_new_inv [inv_intros]: "store_inv store_new"
  by (simp add: store_inv_def)

lemma store_push_inv [inv_intros]:
  assumes "store_inv s"
  shows "store_inv (store_push rnd s sid r)"
  unfolding store_inv_def
proof
  fix sid'
  have old: "length (ring_of s sid') \<le> per_session_capacity" "\<forall>r\<in>set (ring_of s sid'). cr_id r \<noteq> []"
    using assms by (auto simp: store_inv_def)
  show "length (ring_of (store_push rnd s sid r) sid') \<le> per_session_capacity \<and>
      (\<forall>r\<in>set (ring_of (store_push rnd s sid r) sid'). cr_id r \<noteq> [])"
  proof (cases "sid' = sid \<and> accepts_push sid s (rnd, r)")
    case True
    then show ?thesis using store_push_accepted [of sid s rnd r] old
      by (auto simp: assign_id_cr_id per_session_capacity_def dest: in_set_dropD)
  next
    case False
    then show ?thesis using store_push_rejected [of sid s rnd r] old by (cases "sid' = sid") auto
  qed
qed

interpretation srl: tapped_log "\<lambda>s. ring_of s sid" "\<lambda>s (rnd, r). store_push rnd s sid r"
    "\<lambda>(rnd, r). assign_id rnd r" "accepts_push sid" store_inv events for sid
proof unfold_locales
  fix s :: record_store and x :: "u64 \<times> command_record"
  assume inv: "store_inv s"
  obtain rnd r where x: "x = (rnd, r)" by (cases x)
  show "store_inv (case x of (rnd, r) \<Rightarrow> store_push rnd s sid r)"
    by (simp add: x store_push_inv [OF inv])
  show "\<not> accepts_push sid s x \<Longrightarrow> ring_of (case x of (rnd, r) \<Rightarrow> store_push rnd s sid r) sid = ring_of s sid"
    by (simp add: x store_push_rejected)
  show "events (case x of (rnd, r) \<Rightarrow> store_push rnd s sid r) =
      events s @ (if accepts_push sid s x then [case x of (rnd, r) \<Rightarrow> assign_id rnd r] else [])"
    by (cases "accepts_push sid s x") (simp_all add: x store_push_rejected store_push_accepted)
  show "accepts_push sid s x \<Longrightarrow> \<exists>d\<le>length (ring_of s sid).
      ring_of (case x of (rnd, r) \<Rightarrow> store_push rnd s sid r) sid =
        drop d (ring_of s sid) @ [case x of (rnd, r) \<Rightarrow> assign_id rnd r]"
    by (intro exI [of _ "if length (ring_of s sid) = per_session_capacity then 1 else 0"])
      (auto simp: x store_push_accepted per_session_capacity_def)
qed

section \<open>All operations\<close>

datatype store_op =
  OpStarted str str str "str option" datetime
| OpFinished u64 str str int datetime nat
| OpPty u64 str command_record
| OpExplicit u64 str command_record

text \<open>Release build: the debug assertions are off.\<close>

fun store_step :: "record_store \<Rightarrow> store_op \<Rightarrow> record_store" where
  "store_step s (OpStarted sid cid command cwd at) = on_started s sid cid command cwd at"
| "store_step s (OpFinished rnd sid cid code at dur) = on_finished rnd s sid cid code at dur"
| "store_step s (OpPty rnd sid r) = (case push_pty False rnd s sid r of Val s' \<Rightarrow> s' | Panic \<Rightarrow> s)"
| "store_step s (OpExplicit rnd sid r) = (case push_explicit False rnd s sid r of Val s' \<Rightarrow> s' | Panic \<Rightarrow> s)"

fun op_session :: "store_op \<Rightarrow> str" where
  "op_session (OpStarted sid _ _ _ _) = sid"
| "op_session (OpFinished _ sid _ _ _ _) = sid"
| "op_session (OpPty _ sid _) = sid"
| "op_session (OpExplicit _ sid _) = sid"

lemma ring_of_pending [simp]: "ring_of (s\<lparr>pending := p\<rparr>) sid = ring_of s sid"
  by (simp add: ring_of_def)

lemma store_inv_pending [simp]: "store_inv (s\<lparr>pending := p\<rparr>) \<longleftrightarrow> store_inv s"
  by (simp add: store_inv_def)

lemma store_step_inv [inv_intros]: "store_inv s \<Longrightarrow> store_inv (store_step s op)"
  by (cases op)
    (simp_all add: on_started_def on_finished_def push_pty_def push_explicit_def store_push_inv)

lemma store_steps_inv: "store_inv s \<Longrightarrow> store_inv (foldl store_step s ops)"
  by (induction ops arbitrary: s) (auto intro: store_step_inv)

lemma store_step_other:
  "op_session op \<noteq> sid \<Longrightarrow> ring_of (store_step s op) sid = ring_of s sid \<and>
     pending (store_step s op) (sid, cid) = pending s (sid, cid)"
  by (cases op) (auto simp: on_started_def on_finished_def push_pty_def push_explicit_def)

lemma store_push_cases:
  obtains "ring_of (store_push rnd s sid r) sid = ring_of s sid" "events (store_push rnd s sid r) = events s"
  | d where "ring_of (store_push rnd s sid r) sid = drop d (ring_of s sid) @ [assign_id rnd r]"
      "events (store_push rnd s sid r) = events s @ [assign_id rnd r]"
  using store_push_rejected [of sid s rnd r] store_push_accepted [of sid s rnd r] by blast

text \<open>What is in a ring was announced, in the order of the ring.\<close>

definition announced :: "record_store \<Rightarrow> bool" where
  "announced s \<longleftrightarrow> (\<forall>sid. subseq (ring_of s sid) (events s))"

lemma store_push_announced:
  assumes "announced s"
  shows "announced (store_push rnd s sid r)"
  unfolding announced_def
proof
  fix sid'
  have old: "subseq (ring_of s x) (events s)" for x using assms by (simp add: announced_def)
  show "subseq (ring_of (store_push rnd s sid r) sid') (events (store_push rnd s sid r))"
  proof (cases "sid' = sid")
    case True
    have "subseq (drop d (ring_of s sid)) (events s)" for d
      using old suffix_imp_subseq [OF suffix_drop] by (rule subseq_order.order_trans [rotated])
    then show ?thesis using old by (cases rule: store_push_cases [of rnd s sid r]) (simp_all add: True)
  next
    case False
    then show ?thesis using old [of sid']
      by (cases rule: store_push_cases [of rnd s sid r]) (simp_all add: list_emb_prefix)
  qed
qed

lemma store_step_announced: "announced s \<Longrightarrow> announced (store_step s op)"
proof -
  have "announced (s\<lparr>pending := p\<rparr>) \<longleftrightarrow> announced s" for s p by (simp add: announced_def)
  then show "announced s \<Longrightarrow> announced (store_step s op)"
    by (cases op)
      (simp_all add: on_started_def on_finished_def push_pty_def push_explicit_def store_push_announced)
qed

lemma store_steps_announced: "announced s \<Longrightarrow> announced (foldl store_step s ops)"
  by (induction ops arbitrary: s) (auto intro: store_step_announced)

section \<open>Properties\<close>

text \<open>
  Further property (invariant). After any sequence of operations of any sessions on a new store, every
  session keeps at most 64 records, none of them without an id, and what it keeps was
  announced on the tap, in the same order.
\<close>

theorem store_rings_bounded:
  "let s = foldl store_step store_new ops in
     store_len s sid \<le> 64 \<and> list_all (\<lambda>r. cr_id r \<noteq> []) (ring_of s sid) \<and>
     subseq (ring_of s sid) (events s)"
proof -
  have "store_len s sid = length (ring_of s sid)" for s
    by (simp add: store_len_def ring_of_def split: option.splits)
  moreover have "store_inv (foldl store_step store_new ops)"
    by (rule store_steps_inv) (rule store_new_inv)
  moreover have "announced (foldl store_step store_new ops)"
    by (rule store_steps_announced) (simp add: announced_def)
  ultimately show ?thesis
    by (simp add: Let_def store_inv_def announced_def list_all_iff per_session_capacity_def)
qed

text \<open>
  Further property (functional). Pushing records into one session announces exactly the records that were
  not duplicates, and the ring is a tail of the announcements: the tap loses nothing that the
  ring shows and adds nothing.
\<close>

theorem tap_is_accepted_pushes:
  "let s = foldl (\<lambda>s (rnd, r). store_push rnd s sid r) store_new prs in
     events s = map (\<lambda>(rnd, r). assign_id rnd r)
       (accepted_of (accepts_push sid) (\<lambda>s (rnd, r). store_push rnd s sid r) store_new prs) \<and>
     suffix (ring_of s sid) (events s)"
  using srl.tap_is_accepted_history [OF store_new_inv, of sid prs]
    srl.kept_is_suffix_of_tap [OF store_new_inv, of sid prs]
  by (simp add: Let_def)

text \<open>The records that a sequence of operations stores for a session, and what its ring is afterwards.\<close>

fun stored_by :: "str \<Rightarrow> record_store \<Rightarrow> store_op list \<Rightarrow> command_record list" where
  "stored_by sid s [] = []"
| "stored_by sid s (op # ops) =
     (if op_session op = sid then drop (length (events s)) (events (store_step s op)) else []) @ stored_by sid (store_step s op) ops"

definition newest :: "command_record list \<Rightarrow> command_record list" where
  "newest rs = drop (length rs - per_session_capacity) rs"

lemma newest_newest: "newest (newest xs @ ys) = newest (xs @ ys)"
  by (cases "length xs \<le> per_session_capacity") (auto simp: newest_def drop_append add.commute)

lemma newest_short [simp]: "length rs \<le> per_session_capacity \<Longrightarrow> newest rs = rs"
  by (simp add: newest_def)

lemma store_push_ring:
  assumes "store_inv s"
  shows "ring_of (store_push rnd s sid r) sid =
    newest (ring_of s sid @ drop (length (events s)) (events (store_push rnd s sid r)))"
proof -
  have l: "length (ring_of s sid) \<le> per_session_capacity" using assms by (simp add: store_inv_def)
  show ?thesis
  proof (cases "accepts_push sid s (rnd, r)")
    case True
    then show ?thesis using l store_push_accepted [OF True] by (auto simp: newest_def per_session_capacity_def)
  next
    case False
    then show ?thesis using l store_push_rejected [OF False] by simp
  qed
qed

lemma store_step_ring: "store_inv s \<Longrightarrow> ring_of (store_step s op) sid = newest (ring_of s sid @ stored_by sid s [op])"
proof -
  assume inv: "store_inv s"
  then have l: "newest (ring_of s sid) = ring_of s sid" by (simp add: store_inv_def)
  show ?thesis
  proof (cases "op_session op = sid")
    case False
    then show ?thesis using store_step_other l by simp
  next
    case True
    then show ?thesis using inv l store_push_ring [of s] store_push_ring [of "s\<lparr>pending := p\<rparr>" for p]
      by (cases op) (simp_all add: on_started_def on_finished_def push_pty_def push_explicit_def)
  qed
qed

lemma store_steps_ring:
  "store_inv s \<Longrightarrow> ring_of (foldl store_step s ops) sid = newest (ring_of s sid @ stored_by sid s ops)"
proof (induction ops arbitrary: s)
  case Nil
  then show ?case by (simp add: store_inv_def)
next
  case (Cons op ops)
  then show ?case
    using store_step_inv [OF Cons.prems, of op] store_step_ring [OF Cons.prems, of op sid] newest_newest by simp
qed

text \<open>
  C9 (safety). A record is stored and announced once as long as its session keeps it. Push a record with an id that the
  session's ring does not hold, then let any operations of any sessions follow: while they store fewer than 64 records
  for that session, a second record with the id, by whatever path it comes, changes neither ring nor tap. The
  ring is all that is compared with: once 64 others were stored, none of them with this id, the second one is stored and announced again.
\<close>

theorem push_same_id_once:
  assumes "store_inv s" and "cr_id r \<noteq> []" and "cr_id r \<notin> cr_id ` set (ring_of s sid)" and "cr_id r' = cr_id r"
  shows "let s1 = store_push rnd s sid r; s2 = foldl store_step s1 ops; others = stored_by sid s1 ops; s3 = store_push rnd' s2 sid r' in
    (length others < 64 \<longrightarrow> ring_of s3 sid = ring_of s2 sid \<and> events s3 = events s2) \<and>
    (64 \<le> length others \<and> cr_id r \<notin> cr_id ` set others \<longrightarrow>
       ring_of s3 sid = tl (ring_of s2 sid) @ [r'] \<and> events s3 = events s2 @ [r'])"
proof -
  define s1 where "s1 = store_push rnd s sid r"
  define s2 where "s2 = foldl store_step s1 ops"
  define others where "others = stored_by sid s1 ops"
  have acc: "accepts_push sid s (rnd, r)" using assms(2,3) by (simp add: accepts_push_def)
  have asg: "assign_id i x = x" if "cr_id x \<noteq> []" for i x using that by (simp add: assign_id_def)
  obtain d where r1: "ring_of s1 sid = drop d (ring_of s sid) @ [r]"
    using store_push_accepted [OF acc] assms(2) by (auto simp: s1_def asg)
  have inv: "store_inv s1" unfolding s1_def by (rule store_push_inv [OF assms(1)])
  have r2: "ring_of s2 sid = newest ((drop d (ring_of s sid) @ [r]) @ others)"
    unfolding s2_def others_def by (simp only: store_steps_ring [OF inv] r1)
  have l1: "length (drop d (ring_of s sid) @ [r]) \<le> 64" using inv r1 unfolding store_inv_def per_session_capacity_def by metis
  have kept: "r \<in> set (ring_of s2 sid)" if "length others < 64"
    using that l1 by (auto simp: r2 newest_def per_session_capacity_def drop_append)
  have gone: "ring_of s2 sid = drop (length others - 64) others" if "64 \<le> length others"
  proof -
    have "length others - 63 = Suc (length others - 64)" using that by simp
    then show ?thesis using that l1 by (auto simp: r2 newest_def per_session_capacity_def drop_append)
  qed
  have "\<not> accepts_push sid s2 (rnd', r')" if "length others < 64"
    using kept [OF that] assms(2,4) by (auto simp: accepts_push_def)
  moreover have "accepts_push sid s2 (rnd', r')" if "64 \<le> length others" "cr_id r \<notin> cr_id ` set others"
    using that(2) assms(4) gone [OF that(1)] by (auto simp: accepts_push_def dest: in_set_dropD)
  ultimately show ?thesis
    using store_push_rejected [of sid s2 rnd' r'] store_push_accepted [of sid s2 rnd' r'] gone assms(2,4)
    unfolding Let_def s1_def [symmetric] s2_def [symmetric] others_def [symmetric]
    by (auto simp: asg per_session_capacity_def drop_Suc tl_drop)
qed

theorem push_same_id_once_witness:
  "let r = default_record\<lparr>cr_id := ''ab''\<rparr>; s1 = store_push 1 store_new ''s'' r;
       s2 = store_step s1 (OpFinished 3 ''s'' ''c'' 0 0 0); s3 = store_push 2 s2 ''s'' r in
     ring_of s3 ''s'' = ring_of s2 ''s'' \<and> events s3 = events s2 \<and> length (ring_of s2 ''s'') = 2"
proof -
  let ?r = "default_record\<lparr>cr_id := ''ab''\<rparr>"
  let ?s1 = "store_push 1 store_new ''s'' ?r" and ?op = "OpFinished 3 ''s'' ''c'' 0 0 0"
  have "length (stored_by ''s'' ?s1 [?op]) = 1"
    using store_push_accepted [of "''s''" "?s1\<lparr>pending := p\<rparr>" 3 "hook_record q 0 0 0" for p q]
    by (simp add: on_finished_def accepts_push_def hook_record_def)
  moreover have "length (ring_of (store_step ?s1 ?op) ''s'') = 2"
    using store_push_accepted [of "''s''" "?s1\<lparr>pending := p\<rparr>" 3 "hook_record q 0 0 0" for p q]
      store_push_accepted [of "''s''" store_new 1 ?r]
    by (simp add: on_finished_def accepts_push_def hook_record_def per_session_capacity_def)
  ultimately show ?thesis
    using push_same_id_once [OF store_new_inv, where r = ?r and r' = ?r and sid = "''s''" and rnd = 1 and rnd' = 2 and ops = "[?op]"]
    by (simp add: Let_def)
qed

fun touches_pending :: "str \<times> str \<Rightarrow> store_op \<Rightarrow> bool" where
  "touches_pending k (OpStarted sid cid _ _ _) = (k = (sid, cid))"
| "touches_pending k (OpFinished _ sid cid _ _ _) = (k = (sid, cid))"
| "touches_pending k _ = False"

lemma pending_step_untouched:
  "\<not> touches_pending k op \<Longrightarrow> pending (store_step s op) k = pending s k"
  by (cases op) (auto simp: on_started_def on_finished_def push_pty_def push_explicit_def)

lemma pending_steps_untouched:
  "list_all (\<lambda>op. \<not> touches_pending k op) ops \<Longrightarrow> pending (foldl store_step s ops) k = pending s k"
  by (induction ops arbitrary: s) (auto simp: pending_step_untouched)

lemma store_last_finished:
  "store_last (on_finished rnd s sid cid code at dur) sid =
     Some (assign_id rnd (hook_record (pending s (sid, cid)) code at dur))"
proof -
  let ?s = "s\<lparr>pending := (pending s)((sid, cid) := None)\<rparr>"
  let ?r = "hook_record (pending s (sid, cid)) code at dur"
  have "accepts_push sid ?s (rnd, ?r)" by (simp add: accepts_push_def hook_record_def)
  then have "ring_of (store_push rnd ?s sid ?r) sid \<noteq> [] \<and>
      last (ring_of (store_push rnd ?s sid ?r) sid) = assign_id rnd ?r"
    using store_push_accepted by fastforce
  then show ?thesis
    by (auto simp: store_last_def on_finished_def ring_of_def split: option.splits)
qed

text \<open>
  Further property (functional). A finish event is joined with the start event of the same session and
  command id, whatever other operations come between them: the newest record of the session
  carries the command of the start and the exit code of the finish, and the start is forgotten.
\<close>

theorem finish_joins_start:
  assumes "list_all (\<lambda>op. \<not> touches_pending (sid, cid) op) ops"
  shows "let s = foldl store_step (store_step s0 (OpStarted sid cid command cwd t0)) ops;
             s' = store_step s (OpFinished rnd sid cid code t1 dur) in
    (\<exists>r. store_last s' sid = Some r \<and> cr_command r = Some command \<and> cr_exit_code r = code \<and>
       cr_cwd r = map_option from_utf8_lossy cwd \<and> cr_timestamp r = t1 \<and> cr_capture_mode r = Hook \<and>
       cr_id r = generate_record_id rnd) \<and>
    pending s' (sid, cid) = None"
proof -
  have "pending (foldl store_step (store_step s0 (OpStarted sid cid command cwd t0)) ops) (sid, cid) =
      Some \<lparr>ps_command = command, ps_cwd = cwd, ps_started_at = t0\<rparr>"
    using pending_steps_untouched [OF assms] by (simp add: on_started_def)
  then show ?thesis
    by (simp add: Let_def store_last_finished hook_record_def assign_id_def) (simp add: on_finished_def)
qed

theorem finish_joins_start_witness:
  "\<exists>r. store_last (store_step (store_step (store_step store_new
        (OpStarted ''a'' ''1'' ''make'' None 0)) (OpPty 4 ''a'' default_record))
        (OpFinished 5 ''a'' ''1'' 2 9 0)) ''a'' = Some r \<and> cr_command r = Some ''make'' \<and> cr_exit_code r = 2"
  using finish_joins_start [of "''a''" "''1''" "[OpPty 4 ''a'' default_record]" store_new "''make''" None 0 5 2 9 0]
  by (auto simp: Let_def)

text \<open>
  Further property (bounds). Started commands that never finish are kept without end: the table of starts
  has one entry for each of them, however long ago they started.
\<close>

theorem unfinished_starts_accumulate:
  "card (dom (pending (foldl (\<lambda>s i. store_step s (OpStarted sid (dec i) command None (int i * gap))) store_new [0..<n]))) = n"
proof -
  have "dom (pending (foldl (\<lambda>s i. store_step s (OpStarted sid (dec i) command None (int i * gap))) store_new [0..<n]))
      = (\<lambda>i. (sid, dec i)) ` {..<n}"
    (is "dom (pending (?run n)) = _")
  proof (induction n)
    case (Suc n)
    have "pending (?run (Suc n)) = (pending (?run n))((sid, dec n) \<mapsto>
        \<lparr>ps_command = command, ps_cwd = None, ps_started_at = int n * gap\<rparr>)"
      by (simp add: on_started_def)
    with Suc show ?case by (simp only: dom_fun_upd lessThan_Suc image_insert) simp
  qed (simp add: store_new_def)
  moreover have "inj_on (\<lambda>i. (sid, dec i)) {..<n}" by (auto simp: inj_on_def dec_inj)
  ultimately show ?thesis by (simp add: card_image)
qed

text \<open>
  Further property (safety). Sessions are isolated: operations of other sessions change neither the records
  that the queries of a session return nor its started commands.
\<close>

theorem sessions_isolated:
  assumes "list_all (\<lambda>op. op_session op \<noteq> sid) ops"
  shows "let s' = foldl store_step s ops in
    store_last s' sid = store_last s sid \<and> store_recent s' sid n = store_recent s sid n \<and>
    store_find_by_prefix s' sid p = store_find_by_prefix s sid p \<and>
    pending s' (sid, cid) = pending s (sid, cid)"
proof -
  have ring: "ring_of (foldl store_step s ops) sid = ring_of s sid"
    and pend: "pending (foldl store_step s ops) (sid, cid) = pending s (sid, cid)"
    using assms by (induction ops arbitrary: s) (auto simp: store_step_other)
  have "store_last s sid = (if ring_of s sid = [] then None else Some (last (ring_of s sid)))"
    "store_recent s sid n = (if n = 0 then [] else rev (take n (rev (ring_of s sid))))"
    "store_find_by_prefix s sid p = (if p = [] then [] else filter (\<lambda>r. prefix p (cr_id r)) (ring_of s sid))" for s
    by (auto simp: store_last_def store_recent_def store_find_by_prefix_def ring_of_def split: option.splits)
  with ring pend show ?thesis by (simp add: Let_def)
qed

theorem sessions_isolated_witness:
  "store_last (store_step (store_step store_new (OpPty 1 ''a'' default_record)) (OpPty 2 ''b'' default_record)) ''a'' =
     Some (assign_id 1 default_record)"
  using sessions_isolated [of "''a''" "[OpPty 2 ''b'' default_record]" "store_step store_new (OpPty 1 ''a'' default_record)"]
  by (simp add: Let_def push_pty_def store_push_def push_inner_def store_last_def ring_of_def store_new_def
      per_session_capacity_def)

end
