(* ===== verification/Metrics.thy ===== *)
theory Metrics
  imports Rust_Prelude
begin

text \<open>
  Counters of the two daemons (\<open>aic-server/src/metrics.rs\<close>). Each atomic operation is a
  function on the record; \<open>fetch_add\<close> wraps at 64 bits. The process-wide start time is a
  \<open>OnceLock\<close>, an option that is set at most once.
\<close>

section \<open>Process-wide counters\<close>

record daemon_globals =
  daemon_started_at :: "instant option"
  ipc_request_counter :: u64

definition metrics_init :: "instant \<Rightarrow> daemon_globals \<Rightarrow> daemon_globals" where
  "metrics_init now g = (case daemon_started_at g of None \<Rightarrow> g\<lparr>daemon_started_at := Some now\<rparr> | Some _ \<Rightarrow> g)"

text \<open>\<open>elapsed\<close> saturates at zero; an instant is in nanoseconds.\<close>

definition uptime_secs :: "instant \<Rightarrow> daemon_globals \<Rightarrow> nat" where
  "uptime_secs now g = (case daemon_started_at g of None \<Rightarrow> 0 | Some t \<Rightarrow> (now - t) div 10 ^ 9)"

definition record_ipc_request :: "daemon_globals \<Rightarrow> daemon_globals" where
  "record_ipc_request g = g\<lparr>ipc_request_counter := ipc_request_counter g + 1\<rparr>"

definition ipc_request_count :: "daemon_globals \<Rightarrow> u64" where
  "ipc_request_count g = ipc_request_counter g"

section \<open>Supervisor counters\<close>

record aicd_metrics =
  central_store_push_total :: u64
  attach_connections :: u64
  attach_open_total :: u64

record metrics_snapshot =
  ms_uptime_secs :: nat
  ms_pid :: u32
  ms_ipc_request_count :: u64
  ms_rb_used :: nat
  ms_rb_capacity :: nat
  ms_last_command_secs_ago :: "nat option"
  ms_central_store_push_total :: u64
  ms_attach_connections :: u64
  ms_attach_open_total :: u64
  ms_dropped_bytes :: u64
  ms_attach_reconnect_total :: u64

definition aicd_metrics_new :: aicd_metrics where
  "aicd_metrics_new = \<lparr>central_store_push_total = 0, attach_connections = 0, attach_open_total = 0\<rparr>"

definition inc_central_store_push :: "aicd_metrics \<Rightarrow> aicd_metrics" where
  "inc_central_store_push m = m\<lparr>central_store_push_total := central_store_push_total m + 1\<rparr>"

definition inc_attach_connection :: "aicd_metrics \<Rightarrow> aicd_metrics" where
  "inc_attach_connection m = m\<lparr>attach_connections := attach_connections m + 1\<rparr>"

definition dec_attach_connection :: "aicd_metrics \<Rightarrow> aicd_metrics" where
  "dec_attach_connection m = m\<lparr>attach_connections := sat_sub64 (attach_connections m) 1\<rparr>"

definition inc_attach_open :: "aicd_metrics \<Rightarrow> aicd_metrics" where
  "inc_attach_open m = m\<lparr>attach_open_total := attach_open_total m + 1\<rparr>"

definition aicd_snapshot :: "instant \<Rightarrow> u32 \<Rightarrow> daemon_globals \<Rightarrow> aicd_metrics \<Rightarrow> metrics_snapshot" where
  "aicd_snapshot now pid g m =
     \<lparr>ms_uptime_secs = uptime_secs now g, ms_pid = pid, ms_ipc_request_count = ipc_request_count g,
      ms_rb_used = 0, ms_rb_capacity = 0, ms_last_command_secs_ago = None,
      ms_central_store_push_total = central_store_push_total m,
      ms_attach_connections = attach_connections m, ms_attach_open_total = attach_open_total m,
      ms_dropped_bytes = 0, ms_attach_reconnect_total = 0\<rparr>"

section \<open>Session counters\<close>

record attach_metrics =
  am_dropped_bytes :: u64
  am_attach_reconnect_total :: u64

definition attach_metrics_new :: attach_metrics where
  "attach_metrics_new = \<lparr>am_dropped_bytes = 0, am_attach_reconnect_total = 0\<rparr>"

definition add_dropped_bytes :: "u64 \<Rightarrow> attach_metrics \<Rightarrow> attach_metrics" where
  "add_dropped_bytes n m = (if 0 < n then m\<lparr>am_dropped_bytes := am_dropped_bytes m + n\<rparr> else m)"

definition inc_attach_reconnect :: "attach_metrics \<Rightarrow> attach_metrics" where
  "inc_attach_reconnect m = m\<lparr>am_attach_reconnect_total := am_attach_reconnect_total m + 1\<rparr>"

definition fill_snapshot :: "attach_metrics \<Rightarrow> metrics_snapshot \<Rightarrow> metrics_snapshot" where
  "fill_snapshot m snap = snap\<lparr>ms_dropped_bytes := am_dropped_bytes m,
     ms_attach_reconnect_total := am_attach_reconnect_total m\<rparr>"

section \<open>Lemmas\<close>

lemma metrics_init_once: "metrics_init t' (metrics_init t g) = metrics_init t g"
  by (simp add: metrics_init_def split: option.splits)

lemma unat_inc64: "unat (c :: u64) + 1 < 2 ^ 64 \<Longrightarrow> unat (c + 1) = unat c + 1"
  by (simp add: unat_word_ariths)

lemma unat_dec64: "unat (sat_sub64 c 1) = unat c - 1"
  by (simp add: unat_sat_sub64)

lemma gauge_inc: "unat (attach_connections m) + 1 < 2 ^ 64 \<Longrightarrow>
    unat (attach_connections (inc_attach_connection m)) = unat (attach_connections m) + 1"
  using unat_inc64 [of "attach_connections m"] by (simp add: inc_attach_connection_def)

lemma gauge_dec: "unat (attach_connections (dec_attach_connection m)) = unat (attach_connections m) - 1"
  by (simp add: dec_attach_connection_def unat_dec64)

lemma gauge_other [simp]:
  "attach_connections (inc_central_store_push m) = attach_connections m"
  "attach_connections (inc_attach_open m) = attach_connections m"
  by (simp_all add: inc_central_store_push_def inc_attach_open_def)

end
