(* ===== verification/Attach_Server.thy ===== *)
theory Attach_Server
  imports Attach_Codec Session_Pool Record_Store Metrics "HOL-Library.Multiset"
begin

text \<open>
  The supervisor's attach endpoint (\<open>aic-server/src/attach_server.rs\<close>). One task handles one
  connection; the tasks share the pool, the record store and the counters. A task is cut into
  steps at its lock operations, and any task may take the next step, so the relation
  \<open>sys_step\<close> has every interleaving. The increments of the two counters that follow the
  acknowledgement are taken as one step. A connection's input is fixed in advance: the bytes
  its peer sends and how the stream ends.
\<close>

section \<open>State\<close>

datatype attach_msg =
  FirstFrameNotOpen
| UnsupportedVersion u32
| SessionAlreadyOpen str
| SecondOpen
| DecodeFailure attach_decode_error

text \<open>
  Where a task stands: before the credential check, before the first frame, after
  \<open>pool.open\<close>, in the loop, pushing the records of a chunk, before \<open>pool.close\<close>, before the
  gauge is lowered, returned, or unwound by a panic.
\<close>

datatype phase =
  Accepted
| AwaitOpen
| Opened str
| Streaming str
| Pushing str "command_record list"
| Closing str
| Uncount
| Ended
| Panicked str

record conn =
  c_peer :: "nat option"
  c_in :: bytes
  c_fin :: io_kind
  c_ack_ok :: bool
  c_phase :: phase
  c_out :: "attach_msg attach_server_frame list"

record server =
  sv_pool :: pool
  sv_store :: record_store
  sv_metrics :: aicd_metrics

record attach_env =
  e_uid :: nat
  e_json :: "attach_msg attach_json"
  e_strip :: "bytes \<Rightarrow> bytes"
  e_debug :: bool

section \<open>Steps of a task\<close>

definition reply :: "attach_msg attach_server_frame \<Rightarrow> conn \<Rightarrow> conn" where
  "reply f c = c\<lparr>c_out := c_out c @ [f]\<rparr>"

definition check_peer :: "attach_env \<Rightarrow> conn \<Rightarrow> conn" where
  "check_peer env c =
     (case c_peer c of
        Some u \<Rightarrow> if u \<noteq> e_uid env then c\<lparr>c_phase := Ended\<rparr> else c\<lparr>c_phase := AwaitOpen\<rparr>
      | None \<Rightarrow> c\<lparr>c_phase := Ended\<rparr>)"

definition first_frame :: "attach_env \<Rightarrow> server \<Rightarrow> conn \<Rightarrow> server \<times> conn" where
  "first_frame env sv c =
     (case read_attach_frame (e_json env) (c_fin c) (c_in c) of
        Inl e \<Rightarrow> (sv, c\<lparr>c_phase := Ended\<rparr>)
      | Inr (k, r) \<Rightarrow>
        (let c1 = c\<lparr>c_in := r\<rparr> in
         case k of
           Client (AttachOpen sid version) \<Rightarrow>
             if version \<noteq> attach_protocol_version
             then (sv, (reply (AttachError (UnsupportedVersion version)) c1)\<lparr>c_phase := Ended\<rparr>)
             else (case pool_open (sv_pool sv) sid of
                     (p, Inl (AlreadyOpen i)) \<Rightarrow>
                       (sv, (reply (AttachError (SessionAlreadyOpen i)) c1)\<lparr>c_phase := Ended\<rparr>)
                   | (p, Inr _) \<Rightarrow> (sv\<lparr>sv_pool := p\<rparr>, c1\<lparr>c_phase := Opened sid\<rparr>))
         | Client (AttachClose reason) \<Rightarrow> (sv, c1\<lparr>c_phase := Ended\<rparr>)
         | _ \<Rightarrow> (sv, (reply (AttachError FirstFrameNotOpen) c1)\<lparr>c_phase := Ended\<rparr>)))"

definition acknowledge :: "server \<Rightarrow> conn \<Rightarrow> str \<Rightarrow> server \<times> conn" where
  "acknowledge sv c sid =
     (if \<not> c_ack_ok c then (sv\<lparr>sv_pool := pool_close (sv_pool sv) sid\<rparr>, c\<lparr>c_phase := Ended\<rparr>)
      else (sv\<lparr>sv_metrics := inc_attach_connection (inc_attach_open (sv_metrics sv))\<rparr>,
            (reply (AttachAck attach_protocol_version) c)\<lparr>c_phase := Streaming sid\<rparr>))"

definition is_eof :: "attach_decode_error \<Rightarrow> bool" where
  "is_eof e \<longleftrightarrow> e = DecodeIo UnexpectedEof \<or> e = DecodeIo ConnectionReset \<or> e = DecodeIo BrokenPipe"

definition next_frame :: "attach_env \<Rightarrow> clock \<Rightarrow> server \<Rightarrow> conn \<Rightarrow> str \<Rightarrow> server \<times> conn" where
  "next_frame env clk sv c sid =
     (case read_attach_frame (e_json env) (c_fin c) (c_in c) of
        Inl e \<Rightarrow> (sv, (if is_eof e then c else reply (AttachError (DecodeFailure e)) c)\<lparr>c_phase := Closing sid\<rparr>)
      | Inr (k, r) \<Rightarrow>
        (let c1 = c\<lparr>c_in := r\<rparr> in
         case k of
           Client (PtyBytes bs) \<Rightarrow>
             (case pool_feed (e_strip env) clk (sv_pool sv) sid bs of
                (p, Panic) \<Rightarrow> (sv\<lparr>sv_pool := p\<rparr>, c1\<lparr>c_phase := Panicked sid\<rparr>)
              | (p, Val rs) \<Rightarrow> (sv\<lparr>sv_pool := p\<rparr>, c1\<lparr>c_phase := Pushing sid rs\<rparr>))
         | Client (AttachClose reason) \<Rightarrow> (sv, c1\<lparr>c_phase := Closing sid\<rparr>)
         | Client (AttachOpen s v) \<Rightarrow> (sv, (reply (AttachError SecondOpen) c1)\<lparr>c_phase := Closing sid\<rparr>)
         | Server f \<Rightarrow> (sv, c1\<lparr>c_phase := Closing sid\<rparr>)))"

definition push_record :: "attach_env \<Rightarrow> u64 \<Rightarrow> server \<Rightarrow> conn \<Rightarrow> str \<Rightarrow> command_record \<Rightarrow> command_record list \<Rightarrow> server \<times> conn" where
  "push_record env rnd sv c sid r rs =
     (case push_pty (e_debug env) rnd (sv_store sv) sid r of
        Panic \<Rightarrow> (sv, c\<lparr>c_phase := Panicked sid\<rparr>)
      | Val st \<Rightarrow> (sv\<lparr>sv_store := st, sv_metrics := inc_central_store_push (sv_metrics sv)\<rparr>,
                  c\<lparr>c_phase := Pushing sid rs\<rparr>))"

definition handle_attach_client :: "attach_env \<Rightarrow> clock \<Rightarrow> u64 \<Rightarrow> server \<Rightarrow> conn \<Rightarrow> server \<times> conn" where
  "handle_attach_client env clk rnd sv c =
     (case c_phase c of
        Accepted \<Rightarrow> (sv, check_peer env c)
      | AwaitOpen \<Rightarrow> first_frame env sv c
      | Opened sid \<Rightarrow> acknowledge sv c sid
      | Streaming sid \<Rightarrow> next_frame env clk sv c sid
      | Pushing sid rs \<Rightarrow>
        (case rs of [] \<Rightarrow> (sv, c\<lparr>c_phase := Streaming sid\<rparr>) | r # rs' \<Rightarrow> push_record env rnd sv c sid r rs')
      | Closing sid \<Rightarrow> (sv\<lparr>sv_pool := pool_close (sv_pool sv) sid\<rparr>, c\<lparr>c_phase := Uncount\<rparr>)
      | Uncount \<Rightarrow> (sv\<lparr>sv_metrics := dec_attach_connection (sv_metrics sv)\<rparr>, c\<lparr>c_phase := Ended\<rparr>)
      | Ended \<Rightarrow> (sv, c)
      | Panicked sid \<Rightarrow> (sv, c))"

definition running :: "conn \<Rightarrow> bool" where
  "running c = (case c_phase c of Ended \<Rightarrow> False | Panicked _ \<Rightarrow> False | _ \<Rightarrow> True)"

inductive sys_step :: "attach_env \<Rightarrow> server \<times> conn list \<Rightarrow> server \<times> conn list \<Rightarrow> bool" for env where
  task: "i < length cs \<Longrightarrow> running (cs ! i) \<Longrightarrow> handle_attach_client env clk rnd sv (cs ! i) = (sv', c') \<Longrightarrow>
    sys_step env (sv, cs) (sv', cs[i := c'])"

definition sys_reachable :: "attach_env \<Rightarrow> server \<times> conn list \<Rightarrow> server \<times> conn list \<Rightarrow> bool" where
  "sys_reachable env = (sys_step env)\<^sup>*\<^sup>*"

definition server_new :: server where
  "server_new = \<lparr>sv_pool = pool_new, sv_store = store_new, sv_metrics = aicd_metrics_new\<rparr>"

section \<open>Who holds what\<close>

fun owner :: "phase \<Rightarrow> str option" where
  "owner (Opened sid) = Some sid"
| "owner (Streaming sid) = Some sid"
| "owner (Pushing sid rs) = Some sid"
| "owner (Closing sid) = Some sid"
| "owner (Panicked sid) = Some sid"
| "owner _ = None"

fun counted :: "phase \<Rightarrow> bool" where
  "counted (Streaming sid) = True"
| "counted (Pushing sid rs) = True"
| "counted (Closing sid) = True"
| "counted Uncount = True"
| "counted (Panicked sid) = True"
| "counted _ = False"

fun pty_only :: "phase \<Rightarrow> bool" where
  "pty_only (Pushing sid rs) = list_all (\<lambda>r. cr_capture_mode r = Pty) rs"
| "pty_only _ = True"

text \<open>The effect of one step on ownership: nothing, the session is taken, or it is given back.\<close>

definition takes :: "server \<Rightarrow> server \<Rightarrow> phase \<Rightarrow> phase \<Rightarrow> bool" where
  "takes sv sv' a b \<longleftrightarrow>
     (owner a = owner b \<and> dom (hm_get (sv_pool sv')) = dom (hm_get (sv_pool sv))) \<or>
     (\<exists>sid. owner a = None \<and> owner b = Some sid \<and> sid \<notin> dom (hm_get (sv_pool sv)) \<and>
        dom (hm_get (sv_pool sv')) = insert sid (dom (hm_get (sv_pool sv)))) \<or>
     (\<exists>sid. owner a = Some sid \<and> owner b = None \<and> dom (hm_get (sv_pool sv')) = dom (hm_get (sv_pool sv)) - {sid})"

definition counts :: "server \<Rightarrow> server \<Rightarrow> phase \<Rightarrow> phase \<Rightarrow> bool" where
  "counts sv sv' a b \<longleftrightarrow>
     (counted a = counted b \<and> attach_connections (sv_metrics sv') = attach_connections (sv_metrics sv)) \<or>
     (\<not> counted a \<and> counted b \<and>
        attach_connections (sv_metrics sv') = attach_connections (inc_attach_connection (sv_metrics sv))) \<or>
     (counted a \<and> \<not> counted b \<and>
        attach_connections (sv_metrics sv') = attach_connections (dec_attach_connection (sv_metrics sv)))"

lemma dom_pool_close: "dom (hm_get (pool_close p sid)) = dom (hm_get p) - {sid}"
  by (rule set_eqI) (simp add: domIff pool_close_def)

lemma dom_pool_feed: "dom (hm_get (fst (pool_feed strip clk p sid bs))) = dom (hm_get p)"
proof (rule set_eqI)
  fix k
  show "k \<in> dom (hm_get (fst (pool_feed strip clk p sid bs))) \<longleftrightarrow> k \<in> dom (hm_get p)"
    using pool_feed_other [of k sid strip clk p bs] pool_feed_own(1) [of strip clk p sid bs]
    by (cases "k = sid") (simp_all add: domIff)
qed

lemma reply_phase [simp]: "c_phase (reply f c) = c_phase c"
  by (simp add: reply_def)

lemmas task_defs = handle_attach_client_def check_peer_def first_frame_def acknowledge_def next_frame_def push_record_def

lemmas task_splits = phase.splits option.splits sum.splits prod.splits rs.splits list.splits
  attach_frame_kind.splits attach_client_frame.splits attach_open_error.splits if_splits

lemma pool_open_cases:
  "(\<exists>sp. hm_get p sid = Some sp \<and> pool_open p sid = (p, Inl (AlreadyOpen sid))) \<or>
   (hm_get p sid = None \<and> pool_open p sid = (hm_insert sid session_processor_new p, Inr ()))"
  by (auto simp: pool_open_def)

lemma first_frame_cases:
  assumes "first_frame env sv c = (sv', c')"
  shows "(sv' = sv \<and> c_phase c' = Ended) \<or>
    (\<exists>sid. c_phase c' = Opened sid \<and> hm_get (sv_pool sv) sid = None \<and>
       sv' = sv\<lparr>sv_pool := hm_insert sid session_processor_new (sv_pool sv)\<rparr>)"
proof (cases "read_attach_frame (e_json env) (c_fin c) (c_in c)")
  case (Inl e)
  with assms show ?thesis by (auto simp: first_frame_def)
next
  case (Inr kr)
  obtain k r where kr: "kr = (k, r)" by (cases kr)
  show ?thesis
  proof (cases k)
    case (Client f)
    show ?thesis
    proof (cases f)
      case (AttachOpen sid v)
      then show ?thesis using assms Inr kr Client pool_open_cases [of "sv_pool sv" sid]
        by (auto simp: first_frame_def Let_def split: if_splits)
    qed (use assms Inr kr Client in \<open>auto simp: first_frame_def Let_def\<close>)
  qed (use assms Inr kr in \<open>auto simp: first_frame_def Let_def\<close>)
qed

lemma dom_hm_insert: "dom (hm_get (hm_insert k v m)) = insert k (dom (hm_get m))"
  by (rule set_eqI) (simp add: domIff)

lemma next_frame_takes:
  assumes "next_frame env clk sv c sid = (sv', c')"
  shows "owner (c_phase c') = Some sid \<and> dom (hm_get (sv_pool sv')) = dom (hm_get (sv_pool sv)) \<and>
    counted (c_phase c') \<and> sv_metrics sv' = sv_metrics sv \<and> pty_only (c_phase c')"
proof (cases "read_attach_frame (e_json env) (c_fin c) (c_in c)")
  case (Inl e)
  with assms show ?thesis by (auto simp: next_frame_def)
next
  case (Inr kr)
  obtain k r where kr: "kr = (k, r)" by (cases kr)
  show ?thesis
  proof (cases k)
    case (Client f)
    show ?thesis
    proof (cases f)
      case (PtyBytes bs)
      obtain p res where f: "pool_feed (e_strip env) clk (sv_pool sv) sid bs = (p, res)"
        by (cases "pool_feed (e_strip env) clk (sv_pool sv) sid bs")
      have d: "dom (hm_get p) = dom (hm_get (sv_pool sv))"
        using dom_pool_feed [of "e_strip env" clk "sv_pool sv" sid bs] by (simp add: f)
      show ?thesis
      proof (cases res)
        case Panic
        then have "sv' = sv\<lparr>sv_pool := p\<rparr>" "c_phase c' = Panicked sid"
          using f assms Inr kr Client PtyBytes by (auto simp: next_frame_def Let_def)
        then show ?thesis using d by simp
      next
        case (Val rs)
        then have "list_all (\<lambda>r. cr_capture_mode r = Pty) rs"
          using pool_feed_Pty f by (fastforce simp: list_all_iff)
        moreover have "sv' = sv\<lparr>sv_pool := p\<rparr>" "c_phase c' = Pushing sid rs"
          using Val f assms Inr kr Client PtyBytes by (auto simp: next_frame_def Let_def)
        ultimately show ?thesis using d by simp
      qed
    qed (use assms Inr kr Client in \<open>auto simp: next_frame_def Let_def\<close>)
  qed (use assms Inr kr in \<open>auto simp: next_frame_def Let_def\<close>)
qed

text \<open>Every step of a running task takes, keeps or gives back a session, and counts accordingly.\<close>

lemma acknowledge_cases:
  "acknowledge sv c sid = (sv', c') \<Longrightarrow>
     (c_phase c' = Ended \<and> sv' = sv\<lparr>sv_pool := pool_close (sv_pool sv) sid\<rparr>) \<or>
     (c_phase c' = Streaming sid \<and> sv' = sv\<lparr>sv_metrics := inc_attach_connection (inc_attach_open (sv_metrics sv))\<rparr>)"
  by (auto simp: acknowledge_def split: if_splits)

lemma push_record_cases:
  "push_record env rnd sv c sid r rs = (sv', c') \<Longrightarrow> cr_capture_mode r = Pty \<Longrightarrow>
     c_phase c' = Pushing sid rs \<and> sv_store sv' = store_push rnd (sv_store sv) sid r \<and>
     sv_pool sv' = sv_pool sv \<and> sv_metrics sv' = inc_central_store_push (sv_metrics sv)"
  by (auto simp: push_record_def push_pty_def)

lemma task_effect:
  assumes "handle_attach_client env clk rnd sv c = (sv', c')" "running c" "pty_only (c_phase c)"
  shows "takes sv sv' (c_phase c) (c_phase c') \<and> counts sv sv' (c_phase c) (c_phase c') \<and> pty_only (c_phase c')"
proof (cases "c_phase c")
  case Accepted
  then show ?thesis using assms(1)
    by (auto simp: handle_attach_client_def check_peer_def takes_def counts_def split: option.splits if_splits)
next
  case AwaitOpen
  then have "first_frame env sv c = (sv', c')" using assms(1) by (simp add: handle_attach_client_def)
  from first_frame_cases [OF this] AwaitOpen show ?thesis
    by (elim disjE exE) (simp_all add: takes_def counts_def dom_hm_insert domIff)
next
  case (Opened sid)
  then have "acknowledge sv c sid = (sv', c')" using assms(1) by (simp add: handle_attach_client_def)
  from acknowledge_cases [OF this] Opened show ?thesis
    by (elim disjE) (simp_all add: takes_def counts_def dom_pool_close inc_attach_connection_def)
next
  case (Streaming sid)
  then have "next_frame env clk sv c sid = (sv', c')" using assms(1) by (simp add: handle_attach_client_def)
  from next_frame_takes [OF this] Streaming show ?thesis by (simp add: takes_def counts_def)
next
  case (Pushing sid rs)
  show ?thesis
  proof (cases rs)
    case Nil
    then show ?thesis using Pushing assms(1) by (auto simp: handle_attach_client_def takes_def counts_def)
  next
    case (Cons r rs')
    then have "push_record env rnd sv c sid r rs' = (sv', c')" "cr_capture_mode r = Pty"
      using Pushing assms(1,3) by (simp_all add: handle_attach_client_def)
    from push_record_cases [OF this] Pushing Cons assms(3) show ?thesis by (simp add: takes_def counts_def)
  qed
next
  case (Closing sid)
  then have "sv' = sv\<lparr>sv_pool := pool_close (sv_pool sv) sid\<rparr>" "c_phase c' = Uncount"
    using assms(1) by (auto simp: handle_attach_client_def)
  then show ?thesis using Closing by (simp add: takes_def counts_def dom_pool_close)
next
  case Uncount
  then show ?thesis using assms(1) by (auto simp: handle_attach_client_def takes_def counts_def)
qed (use assms(2) in \<open>simp_all add: running_def\<close>)

section \<open>Invariant\<close>

definition sys_inv :: "server \<times> conn list \<Rightarrow> bool" where
  "sys_inv = (\<lambda>(sv, cs).
     (\<forall>sid. sid \<in> dom (hm_get (sv_pool sv)) \<longleftrightarrow> (\<exists>i<length cs. owner (c_phase (cs ! i)) = Some sid)) \<and>
     (\<forall>i j sid. i < length cs \<longrightarrow> j < length cs \<longrightarrow> owner (c_phase (cs ! i)) = Some sid \<longrightarrow>
        owner (c_phase (cs ! j)) = Some sid \<longrightarrow> i = j) \<and>
     unat (attach_connections (sv_metrics sv)) = length (filter (\<lambda>c. counted (c_phase c)) cs) \<and>
     (\<forall>c\<in>set cs. pty_only (c_phase c)))"

lemma filter_update_count:
  "i < length cs \<Longrightarrow> length (filter P (cs[i := x])) + of_bool (P (cs ! i)) = length (filter P cs) + of_bool (P x)"
proof (induction cs arbitrary: i)
  case (Cons c cs)
  then show ?case by (cases i) auto
qed simp

lemma counts_gauge:
  assumes "counts sv sv' (c_phase (cs ! i)) (c_phase c')" "i < length cs" "length cs < 2 ^ 64"
    and "unat (attach_connections (sv_metrics sv)) = length (filter (\<lambda>c. counted (c_phase c)) cs)"
  shows "unat (attach_connections (sv_metrics sv')) = length (filter (\<lambda>c. counted (c_phase c)) (cs[i := c']))"
proof -
  let ?P = "\<lambda>c. counted (c_phase c)"
  have u: "length (filter ?P (cs[i := c'])) + of_bool (?P (cs ! i)) = length (filter ?P cs) + of_bool (?P c')"
    by (rule filter_update_count) fact
  have le: "length (filter ?P (cs[i := c'])) < 2 ^ 64"
    using length_filter_le [of ?P "cs[i := c']"] assms(3) by simp
  have "?P c' \<Longrightarrow> \<not> ?P (cs ! i) \<Longrightarrow> unat (attach_connections (sv_metrics sv)) + 1 < 2 ^ 64"
    using u le assms(4) by simp
  then show ?thesis
    using assms(1,4) u gauge_inc [of "sv_metrics sv"] gauge_dec [of "sv_metrics sv"]
    unfolding counts_def by (elim disjE conjE) simp_all
qed

definition owned_exactly :: "str set \<Rightarrow> nat \<Rightarrow> (nat \<Rightarrow> str option) \<Rightarrow> bool" where
  "owned_exactly D n own \<longleftrightarrow> (\<forall>sid. sid \<in> D \<longleftrightarrow> (\<exists>i<n. own i = Some sid)) \<and>
     (\<forall>i j sid. i < n \<longrightarrow> j < n \<longrightarrow> own i = Some sid \<longrightarrow> own j = Some sid \<longrightarrow> i = j)"

lemma owned_cong: "(\<And>k. k < n \<Longrightarrow> own k = own' k) \<Longrightarrow> owned_exactly D n own \<longleftrightarrow> owned_exactly D n own'"
  by (simp add: owned_exactly_def cong: conj_cong imp_cong)

lemma owned_take:
  assumes "owned_exactly D n own" "i < n" "own i = None" "sid \<notin> D"
  shows "owned_exactly (insert sid D) n (own(i := Some sid))"
proof -
  have ex: "s \<in> D \<longleftrightarrow> (\<exists>k<n. own k = Some s)" and inj: "k < n \<Longrightarrow> j < n \<Longrightarrow> own k = Some s \<Longrightarrow> own j = Some s \<Longrightarrow> k = j"
    for s k j using assms(1) unfolding owned_exactly_def by blast+
  have "(\<exists>k<n. (own(i := Some sid)) k = Some s) \<longleftrightarrow> s \<in> insert sid D" for s
    using ex [of s] assms(2,3) by (cases "s = sid") (fastforce simp: fun_upd_apply split: if_splits)+
  moreover have "k \<noteq> i \<Longrightarrow> k < n \<Longrightarrow> own k \<noteq> Some sid" for k using ex [of sid] assms(4) by blast
  ultimately show ?thesis unfolding owned_exactly_def using inj assms(3)
    by (auto simp: fun_upd_apply split: if_splits)
qed

lemma owned_give:
  assumes "owned_exactly D n own" "i < n" "own i = Some sid"
  shows "owned_exactly (D - {sid}) n (own(i := None))"
proof -
  have ex: "s \<in> D \<longleftrightarrow> (\<exists>k<n. own k = Some s)" and inj: "k < n \<Longrightarrow> j < n \<Longrightarrow> own k = Some s \<Longrightarrow> own j = Some s \<Longrightarrow> k = j"
    for s k j using assms(1) unfolding owned_exactly_def by blast+
  have "(\<exists>k<n. (own(i := None)) k = Some s) \<longleftrightarrow> s \<in> D - {sid}" for s
  proof (cases "s = sid")
    case True
    then show ?thesis using inj [OF _ assms(2) _ assms(3)] by (auto simp: fun_upd_apply)
  next
    case False
    then have "(own(i := None)) k = Some s \<longleftrightarrow> own k = Some s" for k using assms(3) by (simp add: fun_upd_apply)
    then show ?thesis using ex [of s] False by simp
  qed
  then show ?thesis unfolding owned_exactly_def using inj
    by (auto simp: fun_upd_apply split: if_splits)
qed

lemma owned_step:
  assumes "owned_exactly (dom (hm_get (sv_pool sv))) n own" "i < n" "own i = owner a" "takes sv sv' a b"
  shows "owned_exactly (dom (hm_get (sv_pool sv'))) n (own(i := owner b))"
  using assms(4) unfolding takes_def
proof (elim disjE exE conjE)
  assume "owner a = owner b" "dom (hm_get (sv_pool sv')) = dom (hm_get (sv_pool sv))"
  then show ?thesis using assms(1,3) by (metis fun_upd_triv)
qed (use owned_take [OF assms(1,2)] owned_give [OF assms(1,2)] assms(3) in simp_all)

lemma sys_inv_owned:
  "sys_inv (sv, cs) \<longleftrightarrow>
     owned_exactly (dom (hm_get (sv_pool sv))) (length cs) (\<lambda>i. owner (c_phase (cs ! i))) \<and>
     unat (attach_connections (sv_metrics sv)) = length (filter (\<lambda>c. counted (c_phase c)) cs) \<and>
     (\<forall>c\<in>set cs. pty_only (c_phase c))"
  by (simp add: sys_inv_def owned_exactly_def conj_assoc)

lemma sys_step_inv:
  assumes "sys_step env (sv, cs) (sv', cs')" "sys_inv (sv, cs)" "length cs < 2 ^ 64"
  shows "sys_inv (sv', cs') \<and> length cs' = length cs"
  using assms(1)
proof (cases rule: sys_step.cases)
  case (task i clk rnd c')
  let ?own = "\<lambda>cs i. owner (c_phase (cs ! i))"
  have inv: "owned_exactly (dom (hm_get (sv_pool sv))) (length cs) (?own cs)"
    "unat (attach_connections (sv_metrics sv)) = length (filter (\<lambda>c. counted (c_phase c)) cs)"
    "\<forall>c\<in>set cs. pty_only (c_phase c)" using assms(2) by (simp_all add: sys_inv_owned)
  then have eff: "takes sv sv' (c_phase (cs ! i)) (c_phase c')" "counts sv sv' (c_phase (cs ! i)) (c_phase c')"
    "pty_only (c_phase c')" using task_effect [OF task(4,3)] task(2) by simp_all
  have "owned_exactly (dom (hm_get (sv_pool sv'))) (length cs) ((?own cs)(i := owner (c_phase c')))"
    using owned_step [OF inv(1) task(2) refl eff(1)] .
  then have "owned_exactly (dom (hm_get (sv_pool sv'))) (length cs') (?own cs')"
    using owned_cong [of "length cs" "(?own cs)(i := owner (c_phase c'))" "?own cs'"] task(1,2) by simp
  moreover have "\<forall>c\<in>set cs'. pty_only (c_phase c)"
    using inv(3) eff(3) task(1) set_update_subset_insert by fastforce
  ultimately show ?thesis using counts_gauge [OF eff(2) task(2) assms(3) inv(2)] task(1)
    by (simp add: sys_inv_owned)
qed

lemma sys_reachable_inv:
  assumes "sys_reachable env s s'" "sys_inv s" "length (snd s) < 2 ^ 64"
  shows "sys_inv s' \<and> length (snd s') = length (snd s)"
  using assms(1) unfolding sys_reachable_def
proof (induction rule: rtranclp_induct)
  case (step y z)
  obtain sv cs sv' cs' where "y = (sv, cs)" "z = (sv', cs')" by (cases y, cases z)
  then show ?case using step sys_step_inv [of env sv cs sv' cs'] assms(3) by simp
qed (use assms(2) in simp)

definition fresh :: "conn list \<Rightarrow> bool" where
  "fresh cs \<longleftrightarrow> list_all (\<lambda>c. c_phase c = Accepted) cs \<and> length cs < 2 ^ 64"

lemma sys_inv_initial: "fresh cs \<Longrightarrow> sys_inv (server_new, cs)"
  by (auto simp: sys_inv_def fresh_def server_new_def pool_new_def aicd_metrics_new_def list_all_iff)

section \<open>Termination and panics\<close>

text \<open>
  A task's progress: the input left, then where it stands, then the records to push. Every
  step lowers it.
\<close>

fun phase_rank :: "phase \<Rightarrow> nat" where
  "phase_rank Accepted = 7"
| "phase_rank AwaitOpen = 6"
| "phase_rank (Opened sid) = 5"
| "phase_rank (Pushing sid rs) = 4"
| "phase_rank (Streaming sid) = 3"
| "phase_rank (Closing sid) = 2"
| "phase_rank Uncount = 1"
| "phase_rank _ = 0"

fun to_push :: "phase \<Rightarrow> nat" where
  "to_push (Pushing sid rs) = length rs"
| "to_push _ = 0"

definition progress :: "conn \<Rightarrow> nat \<times> nat \<times> nat" where
  "progress c = (length (c_in c), phase_rank (c_phase c), to_push (c_phase c))"

definition progress_less :: "((nat \<times> nat \<times> nat) \<times> (nat \<times> nat \<times> nat)) set" where
  "progress_less = less_than <*lex*> less_than <*lex*> less_than"

lemma reply_in [simp]: "c_in (reply f c) = c_in c"
  by (simp add: reply_def)

lemma first_frame_progress:
  assumes "first_frame env sv c = (sv', c')" "c_phase c = AwaitOpen"
  shows "(progress c', progress c) \<in> progress_less"
proof (cases "read_attach_frame (e_json env) (c_fin c) (c_in c)")
  case (Inl e)
  with assms show ?thesis by (auto simp: first_frame_def progress_def progress_less_def)
next
  case (Inr kr)
  obtain k r where kr: "kr = (k, r)" by (cases kr)
  then have "length r < length (c_in c)" using read_attach_frame_consumes Inr by fastforce
  moreover have "c_in c' = r"
    using assms Inr kr unfolding first_frame_def
    by (auto simp: Let_def split: attach_frame_kind.splits attach_client_frame.splits if_splits prod.splits
        sum.splits attach_open_error.splits)
  ultimately show ?thesis by (simp add: progress_def progress_less_def)
qed

lemma next_frame_progress:
  assumes "next_frame env clk sv c sid = (sv', c')" "c_phase c = Streaming sid"
  shows "(progress c', progress c) \<in> progress_less"
proof (cases "read_attach_frame (e_json env) (c_fin c) (c_in c)")
  case (Inl e)
  with assms show ?thesis by (auto simp: next_frame_def progress_def progress_less_def)
next
  case (Inr kr)
  obtain k r where kr: "kr = (k, r)" by (cases kr)
  then have "length r < length (c_in c)" using read_attach_frame_consumes Inr by fastforce
  moreover have "c_in c' = r"
    using assms Inr kr unfolding next_frame_def
    by (auto simp: Let_def split: attach_frame_kind.splits attach_client_frame.splits prod.splits rs.splits)
  ultimately show ?thesis by (simp add: progress_def progress_less_def)
qed

lemma task_progress:
  assumes "handle_attach_client env clk rnd sv c = (sv', c')" "running c"
  shows "(progress c', progress c) \<in> progress_less"
proof (cases "c_phase c")
  case AwaitOpen
  with assms show ?thesis using first_frame_progress by (simp add: handle_attach_client_def)
next
  case (Streaming sid)
  with assms show ?thesis using next_frame_progress by (simp add: handle_attach_client_def)
next
  case (Pushing sid rs)
  with assms show ?thesis
    by (cases rs) (auto simp: handle_attach_client_def push_record_def progress_def progress_less_def split: rs.splits)
qed (use assms in \<open>auto simp: handle_attach_client_def check_peer_def acknowledge_def running_def progress_def
      progress_less_def split: option.splits if_splits\<close>)

text \<open>The system's progress: those of its tasks, each lowered alone.\<close>

lemma wf_one_component:
  assumes "wf r"
  shows "wf {(ys, xs). \<exists>i<length xs. \<exists>y. ys = xs[i := y] \<and> (y, xs ! i) \<in> r}"
proof -
  let ?m = "\<lambda>xs. mset xs"
  have "{(ys, xs). \<exists>i<length xs. \<exists>y. ys = xs[i := y] \<and> (y, xs ! i) \<in> r} \<subseteq> inv_image (mult r) ?m"
  proof clarify
    fix xs i y
    assume i: "i < length xs" and y: "(y, xs ! i) \<in> r"
    have "mset (xs[i := y]) = mset xs - {#xs ! i#} + {#y#}" using i by (simp add: mset_update)
    moreover have "mset xs = mset xs - {#xs ! i#} + {#xs ! i#}" using i by simp
    ultimately show "(xs[i := y], xs) \<in> inv_image (mult r) ?m"
      using y one_step_implies_mult [of "{#xs ! i#}" "{#y#}" r "mset xs - {#xs ! i#}"] by auto
  qed
  then show ?thesis using wf_subset [OF wf_inv_image [OF wf_mult [OF assms]]] by blast
qed

lemma sys_step_wf: "wf {(t, s). sys_step env s t}"
proof -
  let ?R = "{(ys, xs). \<exists>i<length xs. \<exists>y. ys = xs[i := y] \<and> (y, xs ! i) \<in> progress_less}"
  have "wf progress_less" unfolding progress_less_def by blast
  then have "wf (inv_image ?R (\<lambda>s. map progress (snd s)))" by (intro wf_inv_image wf_one_component)
  moreover have "{(t, s). sys_step env s t} \<subseteq> inv_image ?R (\<lambda>s. map progress (snd s))"
  proof clarify
    fix sv cs sv' cs'
    assume "sys_step env (sv, cs) (sv', cs')"
    then show "((sv', cs'), sv, cs) \<in> inv_image ?R (\<lambda>s. map progress (snd s))"
    proof (cases rule: sys_step.cases)
      case (task i clk rnd c')
      then have "map progress cs' = (map progress cs)[i := progress c']" "i < length (map progress cs)"
        by (simp_all add: map_update)
      moreover have "(progress c', map progress cs ! i) \<in> progress_less"
        using task_progress [OF task(4,3)] task(2) by simp
      ultimately show ?thesis unfolding in_inv_image snd_conv mem_Collect_eq prod.case by blast
    qed
  qed
  ultimately show ?thesis by (rule wf_subset)
qed

lemma not_running: "\<not> running c \<Longrightarrow> c_phase c = Ended \<or> (\<exists>sid. c_phase c = Panicked sid)"
  by (cases "c_phase c") (simp_all add: running_def)

lemma stuck_when_done: "(\<nexists>t. sys_step env (sv, cs) t) \<longleftrightarrow> list_all (\<lambda>c. \<not> running c) cs"
proof
  assume stuck: "\<nexists>t. sys_step env (sv, cs) t"
  show "list_all (\<lambda>c. \<not> running c) cs"
  proof (rule ccontr)
    assume "\<not> list_all (\<lambda>c. \<not> running c) cs"
    then obtain i where "i < length cs" "running (cs ! i)" by (auto simp: list_all_length)
    moreover obtain sv' c' where "handle_attach_client env (\<lambda>_. (0, 0)) 0 sv (cs ! i) = (sv', c')"
      by (cases "handle_attach_client env (\<lambda>_. (0, 0)) 0 sv (cs ! i)")
    ultimately show False using stuck sys_step.task by blast
  qed
qed (auto simp: list_all_length elim: sys_step.cases)

lemma panicked_stays:
  assumes "sys_reachable env (sv, cs) (sv', cs')" "i < length cs" "c_phase (cs ! i) = Panicked sid"
  shows "i < length cs' \<and> c_phase (cs' ! i) = Panicked sid"
  using assms(1) unfolding sys_reachable_def
proof (induction "(sv', cs')" arbitrary: sv' cs' rule: rtranclp_induct)
  case base
  then show ?case using assms by simp
next
  case (step y)
  obtain sv1 cs1 where y: "y = (sv1, cs1)" by (cases y)
  then have "i < length cs1" "c_phase (cs1 ! i) = Panicked sid" using step by auto
  with step(2) y show ?case
    by (auto simp: nth_list_update running_def elim!: sys_step.cases)
qed

section \<open>Properties\<close>

text \<open>
  C1 (invariant). In every state that the tasks of any connections can reach, in any
  interleaving, from a new supervisor: a session has a pipeline in the pool exactly when some
  connection holds it, no two connections hold the same session, and the gauge of attached
  connections is the number of connections between their acknowledgement and their end. A connection whose
  task panicked counts as holding its session, as nothing releases it.
\<close>

theorem attach_ownership:
  assumes "fresh cs" "sys_reachable env (server_new, cs) (sv, cs')"
  shows "(\<forall>sid. hm_get (sv_pool sv) sid \<noteq> None \<longleftrightarrow> (\<exists>i<length cs'. owner (c_phase (cs' ! i)) = Some sid)) \<and>
    (\<forall>i<length cs'. \<forall>j<length cs'. \<forall>sid. owner (c_phase (cs' ! i)) = Some sid \<longrightarrow>
       owner (c_phase (cs' ! j)) = Some sid \<longrightarrow> i = j) \<and>
    unat (attach_connections (sv_metrics sv)) = length (filter (\<lambda>c. counted (c_phase c)) cs')"
proof -
  have "sys_inv (sv, cs')"
    using sys_reachable_inv [OF assms(2) sys_inv_initial [OF assms(1)]] assms(1) by (simp add: fresh_def)
  then show ?thesis by (simp add: sys_inv_def domIff)
qed

text \<open>
  C8 (termination). When every client sends finitely many bytes before its stream ends or fails, the tasks
  cannot go on for ever, in any interleaving: the step relation on connections with such inputs is well-founded (a client that never
  stops sending keeps its task running). A state without a step is one where every task has returned or was
  unwound by a panic, and when none panicked the pool is then empty and the gauge back at zero.
\<close>

theorem attach_terminates:
  "wf {(t, s). sys_step env s t} \<and>
   (fresh cs \<and> sys_reachable env (server_new, cs) (sv, cs') \<and> (\<nexists>t. sys_step env (sv, cs') t) \<longrightarrow>
      (\<forall>i<length cs'. c_phase (cs' ! i) = Ended \<or> (\<exists>sid. c_phase (cs' ! i) = Panicked sid)) \<and>
      ((\<forall>i<length cs'. c_phase (cs' ! i) = Ended) \<longrightarrow>
         (\<forall>sid. hm_get (sv_pool sv) sid = None) \<and> attach_connections (sv_metrics sv) = 0))"
proof (intro conjI impI)
  assume a: "fresh cs \<and> sys_reachable env (server_new, cs) (sv, cs') \<and> (\<nexists>t. sys_step env (sv, cs') t)"
  then have "list_all (\<lambda>c. \<not> running c) cs'" using stuck_when_done by blast
  then show "\<forall>i<length cs'. c_phase (cs' ! i) = Ended \<or> (\<exists>sid. c_phase (cs' ! i) = Panicked sid)"
    using not_running by (auto simp: list_all_length)
  have inv: "sys_inv (sv, cs')"
    using a sys_reachable_inv [of env "(server_new, cs)" "(sv, cs')"] sys_inv_initial by (auto simp: fresh_def)
  show "\<forall>i<length cs'. c_phase (cs' ! i) = Ended \<Longrightarrow> \<forall>sid. hm_get (sv_pool sv) sid = None"
    using inv by (auto simp: sys_inv_def domIff)
  assume "\<forall>i<length cs'. c_phase (cs' ! i) = Ended"
  then have "filter (\<lambda>c. counted (c_phase c)) cs' = []" by (auto simp: filter_empty_conv in_set_conv_nth)
  then show "attach_connections (sv_metrics sv) = 0"
    using inv by (simp add: sys_inv_def unat_eq_zero)
qed (rule sys_step_wf)

text \<open>A connection for the examples, from the daemon's own user, that sends nothing.\<close>

definition silent_conn :: conn where
  "silent_conn = \<lparr>c_peer = Some 0, c_in = [], c_fin = UnexpectedEof, c_ack_ok = True, c_phase = Accepted, c_out = []\<rparr>"

definition plain_env :: attach_env where
  "plain_env = \<lparr>e_uid = 0, e_json = \<lparr>client_to_vec = (\<lambda>_. None),
     client_from_slice = (\<lambda>b. if b = ''open'' then Some (AttachOpen ''s'' 1) else None),
     server_to_vec = (\<lambda>_. None), server_from_slice = (\<lambda>_. None)\<rparr>,
     e_strip = drop_osc False, e_debug = False\<rparr>"

text \<open>A run with one step of the only connection.\<close>

lemma only_step:
  "running c \<Longrightarrow> handle_attach_client plain_env clk rnd sv c = (sv', c') \<Longrightarrow> sys_step plain_env (sv, [c]) (sv', [c'])"
  using sys_step.task [of 0 "[c]" plain_env clk rnd sv sv' c'] by simp

lemma step_then: "sys_step env s t \<Longrightarrow> sys_reachable env t u \<Longrightarrow> sys_reachable env s u"
  unfolding sys_reachable_def by (rule converse_rtranclp_into_rtranclp)

lemma no_step: "sys_reachable env s s"
  by (simp add: sys_reachable_def)

text \<open>
  A connection that opens the session \<open>s\<close> and then sends the bytes given, up to the point where its session is open
  and acknowledged.
\<close>

definition opening_conn :: "bytes \<Rightarrow> conn" where
  "opening_conn rest = silent_conn\<lparr>c_in := json_frame_discriminant # to_be 4 (length ''open'') @ ''open'' @ rest\<rparr>"

definition opened_server :: server where
  "opened_server = server_new\<lparr>sv_pool := [(''s'', session_processor_new)],
     sv_metrics := inc_attach_connection (inc_attach_open (sv_metrics server_new))\<rparr>"

definition opened_conn :: "bytes \<Rightarrow> conn" where
  "opened_conn rest = silent_conn\<lparr>c_in := rest, c_out := [AttachAck attach_protocol_version], c_phase := Streaming ''s''\<rparr>"

lemma opening_run:
  assumes "sys_reachable plain_env (opened_server, [opened_conn rest]) t"
  shows "sys_reachable plain_env (server_new, [opening_conn rest]) t"
proof -
  let ?c2 = "(opening_conn rest)\<lparr>c_in := rest, c_phase := Opened ''s''\<rparr>"
  let ?sv1 = "server_new\<lparr>sv_pool := [(''s'', session_processor_new)]\<rparr>"
  have s1: "sys_step plain_env (server_new, [opening_conn rest]) (server_new, [(opening_conn rest)\<lparr>c_phase := AwaitOpen\<rparr>])"
    by (rule only_step [where clk = "\<lambda>_. (0, 0)" and rnd = 0])
      (simp_all add: running_def handle_attach_client_def check_peer_def opening_conn_def silent_conn_def plain_env_def)
  have "read_attach_frame (e_json plain_env) UnexpectedEof (c_in (opening_conn rest)) = Inr (Client (AttachOpen ''s'' 1), rest)"
    using read_payload_append [of "''open''" UnexpectedEof rest]
    by (simp add: opening_conn_def read_tagged plain_env_def max_pty_bytes_frame_def)
  then have s2: "sys_step plain_env (server_new, [(opening_conn rest)\<lparr>c_phase := AwaitOpen\<rparr>]) (?sv1, [?c2])"
    by (intro only_step [where clk = "\<lambda>_. (0, 0)" and rnd = 0])
      (simp_all add: running_def handle_attach_client_def first_frame_def pool_open_def server_new_def
        pool_new_def attach_protocol_version_def opening_conn_def silent_conn_def)
  have s3: "sys_step plain_env (?sv1, [?c2]) (opened_server, [opened_conn rest])"
    by (rule only_step [where clk = "\<lambda>_. (0, 0)" and rnd = 0])
      (simp_all add: running_def handle_attach_client_def acknowledge_def opening_conn_def opened_conn_def silent_conn_def
        opened_server_def reply_def server_new_def)
  show ?thesis by (intro step_then [OF s1] step_then [OF s2] step_then [OF s3] assms)
qed

lemma opened_pool: "hm_get (sv_pool opened_server) ''s'' = Some session_processor_new"
  by (simp add: opened_server_def)

lemma opening_fresh: "fresh [opening_conn rest]"
  by (simp add: fresh_def opening_conn_def silent_conn_def)

theorem attach_ownership_witness:
  "hm_get (sv_pool opened_server) ''s'' \<noteq> None \<and> owner (c_phase (opened_conn [])) = Some ''s'' \<and>
     unat (attach_connections (sv_metrics opened_server)) = length (filter (\<lambda>c. counted (c_phase c)) [opened_conn []]) \<and>
     unat (attach_connections (sv_metrics opened_server)) = 1"
  using attach_ownership [OF opening_fresh opening_run [OF no_step], of "[]"]
  by (simp add: opened_conn_def opened_server_def)

text \<open>The same session after its client has gone.\<close>

definition closed_server :: server where
  "closed_server = opened_server\<lparr>sv_pool := pool_close (sv_pool opened_server) ''s'',
     sv_metrics := dec_attach_connection (sv_metrics opened_server)\<rparr>"

lemma closing_run: "sys_reachable plain_env (opened_server, [opened_conn []]) (closed_server, [(opened_conn [])\<lparr>c_phase := Ended\<rparr>])"
proof -
  have e: "read_attach_frame (e_json plain_env) UnexpectedEof [] = Inl (DecodeIo UnexpectedEof)"
    by (simp add: read_attach_frame_def read_exact_def)
  have s4: "sys_step plain_env (opened_server, [opened_conn []]) (opened_server, [(opened_conn [])\<lparr>c_phase := Closing ''s''\<rparr>])"
    by (rule only_step [where clk = "\<lambda>_. (0, 0)" and rnd = 0])
      (simp_all add: running_def handle_attach_client_def next_frame_def opened_conn_def silent_conn_def e is_eof_def)
  have s5: "sys_step plain_env (opened_server, [(opened_conn [])\<lparr>c_phase := Closing ''s''\<rparr>])
      (opened_server\<lparr>sv_pool := pool_close (sv_pool opened_server) ''s''\<rparr>, [(opened_conn [])\<lparr>c_phase := Uncount\<rparr>])"
    by (rule only_step [where clk = "\<lambda>_. (0, 0)" and rnd = 0]) (simp_all add: running_def handle_attach_client_def)
  have s6: "sys_step plain_env (opened_server\<lparr>sv_pool := pool_close (sv_pool opened_server) ''s''\<rparr>, [(opened_conn [])\<lparr>c_phase := Uncount\<rparr>])
      (closed_server, [(opened_conn [])\<lparr>c_phase := Ended\<rparr>])"
    by (rule only_step [where clk = "\<lambda>_. (0, 0)" and rnd = 0]) (simp_all add: running_def handle_attach_client_def closed_server_def)
  show ?thesis by (intro step_then [OF s4] step_then [OF s5] step_then [OF s6] no_step)
qed

theorem attach_terminates_witness:
  "sys_reachable plain_env (server_new, [opening_conn []]) (closed_server, [(opened_conn [])\<lparr>c_phase := Ended\<rparr>]) \<and>
     hm_get (sv_pool closed_server) ''s'' = None \<and> attach_connections (sv_metrics closed_server) = 0 \<and>
     attach_open_total (sv_metrics closed_server) = 1"
proof -
  have r: "sys_reachable plain_env (server_new, [opening_conn []]) (closed_server, [(opened_conn [])\<lparr>c_phase := Ended\<rparr>])"
    by (rule opening_run [OF closing_run])
  have stuck: "\<nexists>t. sys_step plain_env (closed_server, [(opened_conn [])\<lparr>c_phase := Ended\<rparr>]) t"
    by (auto simp: running_def elim!: sys_step.cases)
  have total: "attach_open_total (sv_metrics closed_server) = 1"
    by (simp add: closed_server_def opened_server_def server_new_def aicd_metrics_new_def inc_attach_connection_def
        inc_attach_open_def dec_attach_connection_def)
  show ?thesis
    using attach_terminates [of plain_env "[opening_conn []]" closed_server "[(opened_conn [])\<lparr>c_phase := Ended\<rparr>]"]
      opening_fresh r stuck total by simp
qed

text \<open>
  Further property (error). A task that a panic unwinds never gives its session back: from then on, in every
  state that can follow, the session is still in the pool, opening it is refused as already
  open, and the gauge stays above zero.
\<close>

theorem panic_leaks_session:
  assumes "sys_inv (sv, cs)" "length cs < 2 ^ 64" "i < length cs" "c_phase (cs ! i) = Panicked sid"
    and "sys_reachable env (sv, cs) (sv', cs')"
  shows "snd (pool_open (sv_pool sv') sid) = Inl (AlreadyOpen sid) \<and> attach_connections (sv_metrics sv') \<noteq> 0"
proof -
  have inv: "sys_inv (sv', cs')" using sys_reachable_inv [OF assms(5,1)] assms(2) by simp
  have p: "i < length cs'" "c_phase (cs' ! i) = Panicked sid" using panicked_stays [OF assms(5,3,4)] by auto
  then have "sid \<in> dom (hm_get (sv_pool sv'))" using inv unfolding sys_inv_def prod.case by force
  then have "snd (pool_open (sv_pool sv') sid) = Inl (AlreadyOpen sid)" by (auto simp: pool_open_def)
  moreover have "cs' ! i \<in> set (filter (\<lambda>c. counted (c_phase c)) cs')" using p by simp
  then have "unat (attach_connections (sv_metrics sv')) \<noteq> 0"
    using inv unfolding sys_inv_def prod.case by (metis length_0_conv list.set(1) empty_iff)
  ultimately show ?thesis by auto
qed

text \<open>
  The bytes that unwind a task: a command marker whose text is 8194 bytes of UTF-8 with a
  two-byte character across offset 8192.
\<close>

definition panic_text :: bytes where
  "panic_text = CHR ''a'' # concat (replicate 4096 [CHR 0xC3, CHR 0xA9]) @ ''a''"

lemma two_byte_nth: "k < n \<Longrightarrow> concat (replicate n [a, b]) ! (2 * k + 1) = b"
proof (induction n arbitrary: k)
  case (Suc n)
  then show ?case by (cases k) auto
qed simp

lemma length_two_byte: "length (concat (replicate n [a, b])) = 2 * n"
  by (induction n) auto

lemma utf8_two_byte: "utf8_valid r \<Longrightarrow> utf8_valid (concat (replicate n [CHR 0xC3, CHR 0xA9]) @ r)"
  by (induction n) (simp_all add: utf8_valid.simps [of "CHR 0xC3 # _"] is_cont_def safe_get_def)

lemma utf8_ascii_Cons: "byte_val c < 128 \<Longrightarrow> utf8_valid s \<Longrightarrow> utf8_valid (c # s)"
  by (simp add: utf8_valid.simps [of "c # s"])

lemma panic_text_free: "esc_free panic_text" "CHR 0x07 \<notin> set panic_text"
  by (auto simp: panic_text_def esc_free_def)

lemma decode_panic_text: "decode_hex_command panic_text = Panic"
proof -
  have len: "length panic_text = 8194" by (simp add: panic_text_def length_two_byte del: concat_replicate_trivial)
  have "trim panic_text = panic_text"
    by (rule trim_no_edge) (simp add: panic_text_def ws_edge_def ascii_ws_def wide_ws_def)
  moreover have "panic_text ! 8192 = CHR 0xA9"
    using two_byte_nth [of 4095 4096 "CHR 0xC3" "CHR 0xA9"]
    by (simp add: panic_text_def nth_Cons' nth_append length_two_byte)
  ultimately show ?thesis by (simp add: decode_hex_command_Panic len is_cont_def)
qed

lemma feed_panic_marker:
  "d_strategy d = PromptMarker m \<Longrightarrow> feed_line now utc d (command_marker panic_text) = Panic"
  using command_marker_alone [OF panic_text_free(1)] parse_command_marker_of [OF panic_text_free(2)]
  by (simp add: feed_line_def feed_line_prompt_marker_def decode_panic_text)

lemma extract_panic_marker: "extract_osc133_markers (command_marker panic_text) = [command_marker panic_text]"
proof -
  have "utf8_valid (concat (replicate 4096 [CHR 0xC3, CHR 0xA9]) @ ''a'' @ [CHR 0x07])"
    by (intro utf8_two_byte utf8_valid_ascii) simp
  then have "utf8_valid (osc133 (''C;cmd='' @ panic_text))"
    unfolding osc133_def osc_start_def panic_text_def by (simp add: utf8_ascii_Cons)
  then show ?thesis
    using extract_marker [of "[]" "''C;cmd='' @ panic_text" "[]"] panic_text_free(2)
    by (simp add: command_marker_osc extract_nothing esc_free_def)
qed

lemma pool_feed_panics:
  "hm_get p sid = Some session_processor_new \<Longrightarrow> snd (pool_feed strip clk p sid (command_marker panic_text)) = Panic"
  by (simp add: pool_feed_def sp_feed_def process_def Let_def extract_panic_marker feed_panic_marker
      session_processor_new_def detector_new_def split: prod.splits)

text \<open>
  Further property (error). Such a panic can be brought about by terminal output alone: a connection of the
  daemon's own user that opens a session and sends one chunk of bytes reaches the panic.
\<close>

theorem attach_panic_reachable:
  "\<exists>env c sv c' sid. fresh [c] \<and> sys_reachable env (server_new, [c]) (sv, [c']) \<and> c_phase c' = Panicked sid"
proof -
  let ?m = "command_marker panic_text" and ?clk = "\<lambda>_. (0, 0)"
  let ?rest = "pty_bytes_discriminant # to_be 4 (length ?m) @ ?m"
  have len: "length ?m < 2 ^ 32" "length ?m \<le> max_pty_bytes_frame"
    by (simp_all add: command_marker_osc osc133_def osc_start_def panic_text_def length_two_byte max_pty_bytes_frame_def)
  have "read_attach_frame (e_json plain_env) UnexpectedEof ?rest = Inr (Client (PtyBytes ?m), [])"
    using read_payload_append [OF len(1), of UnexpectedEof "[]"] len(2) by (simp add: read_tagged)
  moreover obtain p' where "pool_feed (e_strip plain_env) ?clk (sv_pool opened_server) ''s'' ?m = (p', Panic)"
    using pool_feed_panics [of "sv_pool opened_server" "''s''" "e_strip plain_env" ?clk] opened_pool by (metis prod.collapse)
  ultimately have "handle_attach_client plain_env ?clk 0 opened_server (opened_conn ?rest) =
      (opened_server\<lparr>sv_pool := p'\<rparr>, (opened_conn ?rest)\<lparr>c_in := [], c_phase := Panicked ''s''\<rparr>)"
    by (simp add: handle_attach_client_def next_frame_def opened_conn_def silent_conn_def)
  then have "sys_step plain_env (opened_server, [opened_conn ?rest])
      (opened_server\<lparr>sv_pool := p'\<rparr>, [(opened_conn ?rest)\<lparr>c_in := [], c_phase := Panicked ''s''\<rparr>])"
    by (intro only_step) (simp_all add: running_def opened_conn_def)
  then have "sys_reachable plain_env (server_new, [opening_conn ?rest])
      (opened_server\<lparr>sv_pool := p'\<rparr>, [(opened_conn ?rest)\<lparr>c_in := [], c_phase := Panicked ''s''\<rparr>])"
    by (rule opening_run [OF step_then [OF _ no_step]])
  moreover have "c_phase ((opened_conn ?rest)\<lparr>c_in := [], c_phase := Panicked ''s''\<rparr>) = Panicked ''s''" by simp
  ultimately show ?thesis using opening_fresh by blast
qed

theorem panic_leaks_session_witness:
  "snd (pool_open [(''s'', session_processor_new)] ''s'') = Inl (AlreadyOpen ''s'')"
proof -
  let ?sv = "\<lparr>sv_pool = [(''s'', session_processor_new)], sv_store = store_new,
     sv_metrics = aicd_metrics_new\<lparr>attach_connections := 1\<rparr>\<rparr>"
  let ?c = "silent_conn\<lparr>c_phase := Panicked ''s''\<rparr>"
  have i: "sys_inv (?sv, [?c])" by (auto simp: sys_inv_def split: if_splits)
  have r: "sys_reachable plain_env (?sv, [?c]) (?sv, [?c])" by (simp add: sys_reachable_def)
  show ?thesis using panic_leaks_session [OF i _ _ _ r, of 0 "''s''"] by simp
qed

end
