(* ===== verification/Ipc.thy ===== *)
theory Ipc
  imports Records Metrics
begin

text \<open>
  The messages of the control channel (\<open>aic-common/src/ipc.rs\<close>): requests, responses and the
  records they carry. Numbers that no code computes with are \<open>nat\<close> or \<open>int\<close>. The text of an
  error response is kept as a value of \<open>ipc_error\<close>, one constructor for each message the
  daemons send.
\<close>

section \<open>Payload records\<close>

record agent_event =
  ae_kind :: str
  ae_summary :: str
  ae_severity :: str
  ae_attrs :: "(str \<times> str) list"
  ae_ts :: datetime

record log_line =
  ll_source :: str
  ll_service :: str
  ll_severity :: str
  ll_message :: str
  ll_attrs :: "(str \<times> str) list"
  ll_ts :: datetime
  ll_record_id :: str

record process_change =
  pc_op :: str
  pc_pid :: int
  pc_ppid :: int
  pc_start_time :: nat
  pc_name :: str
  pc_uid :: "u32 option"
  pc_container_id :: "str option"
  pc_observed_at :: nat

record spool_flush_result =
  sf_drained :: nat
  sf_rejected :: nat
  sf_remaining :: nat

record exporter_failure =
  ef_secs_ago :: nat
  ef_url :: str
  ef_permanent :: bool
  ef_message :: str

record exporter_status =
  es_enabled :: bool
  es_agent_enabled :: "bool option"
  es_agent_configured :: "bool option"
  es_endpoint :: str
  es_push_ok_total :: nat
  es_push_fail_total :: nat
  es_last_ok_secs_ago :: "nat option"
  es_spool_batches :: nat
  es_spool_dropped :: nat
  es_spool_dropped_quota :: nat
  es_spool_dropped_age :: nat
  es_spool_dropped_rejected :: nat
  es_collector_dropped :: nat
  es_last_failure :: "exporter_failure option"

definition default_exporter_status :: exporter_status where
  "default_exporter_status = \<lparr>es_enabled = False, es_agent_enabled = None, es_agent_configured = None,
     es_endpoint = [], es_push_ok_total = 0, es_push_fail_total = 0, es_last_ok_secs_ago = None,
     es_spool_batches = 0, es_spool_dropped = 0, es_spool_dropped_quota = 0, es_spool_dropped_age = 0,
     es_spool_dropped_rejected = 0, es_collector_dropped = 0, es_last_failure = None\<rparr>"

record self_update_status =
  su_configured :: bool
  su_live :: bool
  su_interval_secs :: nat
  su_last_check_secs_ago :: "nat option"
  su_desired_version :: "str option"
  su_last_outcome :: "str option"
  su_current_version :: str

record daemon_version =
  dv_version :: str
  dv_commit :: str
  dv_build_info :: str

section \<open>Requests and responses\<close>

datatype ipc_request =
  GetLastCommand
| GetRecentLines nat
| GetRecentCommands nat
| FindRecordByPrefix str
| TagSession str "str option"
| RegisterRecord command_record
| RegisterRecordForSession str command_record
| GetLastCommandForSession str
| GetRecentCommandsForSession str nat
| GetRecentLinesForSession str nat
| FindRecordByPrefixForSession str str
| Ping
| GetMetrics
| GetVersion
| ListSessions
| PruneSessions nat
| Shutdown
| RegisterSession session_info
| UnregisterSession str
| HeartbeatSession str datetime "str option"
| StopSession str
| CommandStarted str str str "str option" "str option" u32 datetime
| CommandFinished str str int datetime nat
| AgentEvent agent_event
| GetExporterStatus
| FlushSpool
| PushLogLines "log_line list"
| GetSelfUpdateStatus
| GetRecentProcessChanges nat

datatype ipc_error =
  UnknownRequest
| ExporterOff
| FlushNotDelivered
| FlushNotConfirmed
| SessionNotFound str
| RecordNotFound str
| HookRecordRefused
| NeedsSessionRouting
| NotASupervisorRequest ipc_request
| InvalidPid int
| NotASessionProcess int
| KillFailed int int
| NoCommandYet
| NotASessionRequest ipc_request
| CentralStoreRouting
| Phase35Removed

datatype ipc_response =
  CommandData command_record
| CommandRecords "command_record list"
| Lines "str list"
| Pong
| MetricsData metrics_snapshot
| Sessions "session_info list"
| PrunedSessions nat
| Version daemon_version
| SelfUpdateStatus self_update_status
| ExporterStatus exporter_status
| SpoolFlushed spool_flush_result
| ProcessChanges "process_change list"
| ErrorResponse ipc_error

end
