(* ===== verification/Framed_Service.thy ===== *)
theory Framed_Service
  imports Ipc Wire
begin

text \<open>
  What the two daemons' request sockets share: one connection carries one length-prefixed
  request and one length-prefixed response. The locale \<open>framed_service\<close> is the contract of such
  a connection handler over the function that answers a request; both handlers are
  interpretations of it (\<open>Control_Server\<close>, \<open>Uds_Server\<close>).
\<close>

datatype service_io_error = RequestReadFailed io_kind | PayloadTooLarge nat | SerializeFailed

type_synonym request_decoder = "bytes \<Rightarrow> ipc_request option"
type_synonym response_encoder = "ipc_response \<Rightarrow> bytes option"

text \<open>The answer to a payload, before it is framed.\<close>

definition answer :: "('s \<Rightarrow> ipc_request \<Rightarrow> ('s \<times> ipc_response) rs) \<Rightarrow> request_decoder \<Rightarrow> 's \<Rightarrow> bytes \<Rightarrow>
    ('s \<times> ipc_response) rs" where
  "answer proc rd s p = (case rd p of Some req \<Rightarrow> proc s req | None \<Rightarrow> Val (s, ErrorResponse UnknownRequest))"

locale framed_service =
  fixes handle :: "request_decoder \<Rightarrow> response_encoder \<Rightarrow> io_kind \<Rightarrow> 's \<Rightarrow> bytes \<Rightarrow> ('s \<times> (service_io_error + bytes)) rs"
    and proc :: "'s \<Rightarrow> ipc_request \<Rightarrow> ('s \<times> ipc_response) rs"
  assumes exchange: "length p \<le> max_frame_payload_bytes \<Longrightarrow>
      handle rd re fin s (encode_frame p @ rest) =
        rs_bind (answer proc rd s p)
          (\<lambda>(s', resp). Val (s', case re resp of None \<Rightarrow> Inl SerializeFailed | Some j \<Rightarrow> Inr (encode_frame j)))"
    and too_large: "max_frame_payload_bytes < length p \<Longrightarrow> length p < 2 ^ 32 \<Longrightarrow>
      handle rd re fin s (encode_frame p @ rest) = Val (s, Inl (PayloadTooLarge (length p)))"
    and truncated: "length p < 2 ^ 32 \<Longrightarrow> length p \<le> max_frame_payload_bytes \<Longrightarrow> k < length (encode_frame p) \<Longrightarrow>
      handle rd re fin s (take k (encode_frame p)) = Val (s, Inl (RequestReadFailed fin))"
begin

text \<open>A client whose messages are encoded faithfully reads back exactly the response.\<close>

lemma client_call:
  assumes "rd p = Some req" and "length p \<le> max_frame_payload_bytes"
    and "proc s req = Val (s', resp)" and "re resp = Some j" and "length j < 2 ^ 32"
  shows "\<exists>out. handle rd re fin s (encode_frame p @ rest) = Val (s', Inr out) \<and> take_frame out = Inr (j, [])"
  using assms ipcf.rd_enc [of j "[]"] by (simp add: exchange answer_def)

lemma undecodable_request:
  assumes "rd p = None" and "length p \<le> max_frame_payload_bytes" and "re (ErrorResponse UnknownRequest) = Some j"
  shows "handle rd re fin s (encode_frame p @ rest) = Val (s, Inr (encode_frame j))"
  using assms by (simp add: exchange answer_def)

end

text \<open>The law of a truncated frame, for any reader built like the handlers' reads.\<close>

lemma truncated_reads:
  assumes "length p < 2 ^ 32" and "k < length (encode_frame p)"
  shows "read_u32 fin (take k (encode_frame p)) = Inl fin \<or>
    (\<exists>r. read_u32 fin (take k (encode_frame p)) = Inr (length p, r) \<and> read_exact fin (length p) r = Inl fin)"
proof (cases "k < 4")
  case True
  then show ?thesis by (simp add: read_u32_def read_exact_def)
next
  case False
  then have "take k (encode_frame p) = to_be 4 (length p) @ take (k - 4) p"
    using assms by (simp add: encode_frame_def)
  then have "read_u32 fin (take k (encode_frame p)) = Inr (length p, take (k - 4) p)"
    using assms by simp
  moreover have "read_exact fin (length p) (take (k - 4) p) = Inl fin"
    using assms False by (simp add: read_exact_def encode_frame_def)
  ultimately show ?thesis by blast
qed

end
