(* ===== verification/Session_Registry.thy ===== *)
theory Session_Registry
  imports Records Hash_Map "HOL-Library.Multiset"
begin

text \<open>
  The supervisor's registry of sessions (\<open>aic-server/src/session_registry.rs\<close>) and its
  snapshot file. Each method holds the lock for its whole body, so it is a function on the
  table. \<open>serde_json\<close> is a pair of parameters, \<open>enc\<close> and \<open>dec_json\<close>; the outcomes of the file
  operations are arguments.
\<close>

section \<open>State and operations\<close>

type_synonym registry = "(str, session_info) hash_map"

definition snapshot_max_age :: duration where
  "snapshot_max_age = 24 * 3600 * 10 ^ 9"

definition registry_new :: registry where
  "registry_new = []"

definition from_sessions :: "session_info list \<Rightarrow> registry" where
  "from_sessions sessions = foldl (\<lambda>m info. hm_insert (si_id info) info m) [] sessions"

definition register :: "registry \<Rightarrow> session_info \<Rightarrow> registry" where
  "register g info = hm_insert (si_id info) info g"

definition unregister :: "registry \<Rightarrow> str \<Rightarrow> registry \<times> bool" where
  "unregister g i = (hm_remove i g, hm_get g i \<noteq> None)"

definition set_state :: "registry \<Rightarrow> str \<Rightarrow> session_state \<Rightarrow> registry \<times> bool" where
  "set_state g i st = hm_modify i (\<lambda>info. info\<lparr>si_state := st\<rparr>) g"

definition beat :: "datetime \<Rightarrow> str option \<Rightarrow> session_info \<Rightarrow> session_info" where
  "beat seen_at cwd info =
     (let info1 = info\<lparr>si_last_seen_at := Some seen_at\<rparr>;
          info2 = (if cwd \<noteq> None then info1\<lparr>si_cwd := cwd\<rparr> else info1)
      in if si_state info2 = Detached \<or> si_state info2 = Failed then info2\<lparr>si_state := Attached\<rparr> else info2)"

definition heartbeat :: "registry \<Rightarrow> str \<Rightarrow> datetime \<Rightarrow> str option \<Rightarrow> registry \<times> bool" where
  "heartbeat g i seen_at cwd = hm_modify i (beat seen_at cwd) g"

definition hook_touch :: "u32 \<Rightarrow> str option \<Rightarrow> str option \<Rightarrow> datetime \<Rightarrow> session_info \<Rightarrow> session_info" where
  "hook_touch pid shell cwd at info =
     (let info1 = info\<lparr>si_pid := pid, si_state := Attached, si_last_seen_at := Some at, si_last_command_at := Some at\<rparr>;
          info2 = (if shell \<noteq> None then info1\<lparr>si_shell := shell\<rparr> else info1)
      in if cwd \<noteq> None then info2\<lparr>si_cwd := cwd\<rparr> else info2)"

definition upsert_hook_session ::
  "registry \<Rightarrow> str \<Rightarrow> u32 \<Rightarrow> str option \<Rightarrow> str option \<Rightarrow> datetime \<Rightarrow> registry" where
  "upsert_hook_session g i pid shell cwd at =
     (case hm_get g i of
        Some info \<Rightarrow> hm_insert i (hook_touch pid shell cwd at info) g
      | None \<Rightarrow> hm_insert i \<lparr>si_id = i, si_pid = pid, si_state = Attached, si_created_at = at,
          si_last_seen_at = Some at, si_last_command_at = Some at, si_attached_tty = None,
          si_shell = shell, si_cwd = cwd, si_label = None\<rparr> g)"

definition max_label_chars :: nat where
  "max_label_chars = 64"

definition capped_label :: "str option \<Rightarrow> str option" where
  "capped_label label =
     (case label of None \<Rightarrow> None | Some s \<Rightarrow> if s = [] then None else Some (take_chars max_label_chars s))"

definition set_label :: "registry \<Rightarrow> str \<Rightarrow> str option \<Rightarrow> registry \<times> bool" where
  "set_label g i label = hm_modify i (\<lambda>info. info\<lparr>si_label := capped_label label\<rparr>) g"

definition touch_seen :: "registry \<Rightarrow> str \<Rightarrow> datetime \<Rightarrow> registry \<times> bool" where
  "touch_seen g i seen_at = hm_modify i (\<lambda>info. info\<lparr>si_last_seen_at := Some seen_at\<rparr>) g"

definition list_sessions :: "registry \<Rightarrow> session_info list" where
  "list_sessions g = sort_key si_created_at (map snd g)"

definition registry_len :: "registry \<Rightarrow> nat" where
  "registry_len g = length g"

definition registry_is_empty :: "registry \<Rightarrow> bool" where
  "registry_is_empty g \<longleftrightarrow> g = []"

definition is_active :: "session_info \<Rightarrow> bool" where
  "is_active info \<longleftrightarrow> si_state info = Attached \<or> si_state info = Creating"

definition last_seen :: "session_info \<Rightarrow> datetime" where
  "last_seen info = (case si_last_seen_at info of None \<Rightarrow> si_created_at info | Some t \<Rightarrow> t)"

definition stale :: "datetime \<Rightarrow> duration \<Rightarrow> session_info \<Rightarrow> bool" where
  "stale now stale_after info \<longleftrightarrow> is_active info \<and> now - last_seen info > stale_after"

definition demote :: "session_info \<Rightarrow> session_info" where
  "demote info = info\<lparr>si_state := Detached, si_attached_tty := None\<rparr>"

definition mark_stale_active_detached :: "registry \<Rightarrow> datetime \<Rightarrow> duration \<Rightarrow> registry \<times> nat" where
  "mark_stale_active_detached g now stale_after =
     (hm_map_values (\<lambda>info. if stale now stale_after info then demote info else info) g,
      length (filter (stale now stale_after) (map snd g)))"

definition keep_on_prune :: "datetime \<Rightarrow> duration \<Rightarrow> session_info \<Rightarrow> bool" where
  "keep_on_prune now older_than info \<longleftrightarrow> is_active info \<or> now - last_seen info \<le> older_than"

definition prune_inactive_older_than :: "registry \<Rightarrow> datetime \<Rightarrow> duration \<Rightarrow> registry \<times> nat" where
  "prune_inactive_older_than g now older_than =
     (let before = length g; g' = hm_retain (keep_on_prune now older_than) g in (g', before - length g'))"

section \<open>Snapshot file\<close>

record snapshot_fs =
  fs_tmp :: "bytes option"
  fs_file :: "bytes option"

datatype registry_error = MkdirFailed | EncodeFailed | WriteFailed | RenameFailed | ReadFailed | DecodeFailed

text \<open>
  What the operating system answers to a save: whether the directory exists afterwards,
  \<open>Inl p\<close> for a write that fails with \<open>p\<close> on disk, whether the rename succeeds. The snapshot
  path always has a parent directory and differs from its temporary file.
\<close>

record save_outcome =
  mkdir_ok :: bool
  write_ok :: "bytes option + unit"
  rename_ok :: bool

definition save_snapshot ::
  "(session_info list \<Rightarrow> bytes option) \<Rightarrow> save_outcome \<Rightarrow> snapshot_fs \<Rightarrow> registry \<Rightarrow>
     snapshot_fs \<times> (registry_error + unit)" where
  "save_snapshot enc os fs g =
     (if \<not> mkdir_ok os then (fs, Inl MkdirFailed)
      else case enc (list_sessions g) of
        None \<Rightarrow> (fs, Inl EncodeFailed)
      | Some json \<Rightarrow>
        (case write_ok os of
           Inl partial \<Rightarrow> (fs\<lparr>fs_tmp := partial\<rparr>, Inl WriteFailed)
         | Inr _ \<Rightarrow>
           if \<not> rename_ok os then (fs\<lparr>fs_tmp := Some json\<rparr>, Inl RenameFailed)
           else (fs\<lparr>fs_tmp := None, fs_file := Some json\<rparr>, Inr ())))"

definition recover :: "session_info \<Rightarrow> session_info" where
  "recover info = (if is_active info then demote info else info)"

definition load_snapshot ::
  "(bytes \<Rightarrow> session_info list option) \<Rightarrow> bool \<Rightarrow> snapshot_fs \<Rightarrow> datetime \<Rightarrow> registry_error + registry" where
  "load_snapshot dec_json read_ok fs now =
     (case fs_file fs of
        None \<Rightarrow> Inr registry_new
      | Some content \<Rightarrow>
        if \<not> (read_ok \<and> utf8_valid content) then Inl ReadFailed
        else case dec_json content of
          None \<Rightarrow> Inl DecodeFailed
        | Some sessions \<Rightarrow>
          Inr (from_sessions (map recover
            (filter (\<lambda>info. now - last_seen info \<le> snapshot_max_age) sessions))))"

section \<open>Invariant\<close>

definition reg_inv :: "registry \<Rightarrow> bool" where
  "reg_inv g \<longleftrightarrow> hm_ok g \<and> list_all (\<lambda>(k, info). si_id info = k) g"

lemma reg_inv_get: "reg_inv g \<longleftrightarrow> hm_ok g \<and> (\<forall>k info. hm_get g k = Some info \<longrightarrow> si_id info = k)"
  by (auto simp: reg_inv_def list_all_iff hm_ok_def map_of_eq_Some_iff)

lemma beat_id [simp]: "si_id (beat t cwd info) = si_id info"
  by (simp add: beat_def Let_def)

lemma hook_touch_id [simp]: "si_id (hook_touch pid sh cwd t info) = si_id info"
  by (simp add: hook_touch_def Let_def)

lemma demote_simps [simp]:
  "si_id (demote info) = si_id info" "si_state (demote info) = Detached"
  "si_created_at (demote info) = si_created_at info" "last_seen (demote info) = last_seen info"
  by (simp_all add: demote_def last_seen_def split: option.splits)

lemma recover_id [simp]: "si_id (recover info) = si_id info"
  by (simp add: recover_def)

lemma hm_get_register [simp]: "hm_get (register g info) k = (if k = si_id info then Some info else hm_get g k)"
  by (simp add: register_def)

lemma hm_get_unregister [simp]: "hm_get (fst (unregister g i)) k = (if k = i then None else hm_get g k)"
  by (simp add: unregister_def)

lemma reg_inv_modify: "reg_inv g \<Longrightarrow> (\<And>info. si_id (f info) = si_id info) \<Longrightarrow> reg_inv (fst (hm_modify k f g))"
  unfolding reg_inv_get by (auto split: if_splits)

lemma reg_inv_new [simp, inv_intros]: "reg_inv registry_new"
  by (simp add: reg_inv_def registry_new_def)

lemma reg_inv_register [simp, inv_intros]: "reg_inv g \<Longrightarrow> reg_inv (register g info)"
  by (auto simp: reg_inv_get register_def split: if_splits)

lemma reg_inv_unregister [simp, inv_intros]: "reg_inv g \<Longrightarrow> reg_inv (fst (unregister g i))"
  by (auto simp: reg_inv_get unregister_def split: if_splits)

lemma reg_inv_set_state [simp, inv_intros]: "reg_inv g \<Longrightarrow> reg_inv (fst (set_state g i st))"
  unfolding set_state_def by (rule reg_inv_modify) simp_all

lemma reg_inv_heartbeat [simp, inv_intros]: "reg_inv g \<Longrightarrow> reg_inv (fst (heartbeat g i t cwd))"
  unfolding heartbeat_def by (rule reg_inv_modify) simp_all

lemma reg_inv_set_label [simp, inv_intros]: "reg_inv g \<Longrightarrow> reg_inv (fst (set_label g i l))"
  unfolding set_label_def by (rule reg_inv_modify) simp_all

lemma reg_inv_touch_seen [simp, inv_intros]: "reg_inv g \<Longrightarrow> reg_inv (fst (touch_seen g i t))"
  unfolding touch_seen_def by (rule reg_inv_modify) simp_all

lemma reg_inv_upsert [simp, inv_intros]: "reg_inv g \<Longrightarrow> reg_inv (upsert_hook_session g i pid sh cwd t)"
  by (auto simp: reg_inv_get upsert_hook_session_def split: if_splits option.splits)

lemma reg_inv_mark_stale [simp, inv_intros]:
  "reg_inv g \<Longrightarrow> reg_inv (fst (mark_stale_active_detached g now d))"
  by (auto simp: reg_inv_get mark_stale_active_detached_def split: if_splits)

lemma reg_inv_prune [simp, inv_intros]:
  "reg_inv g \<Longrightarrow> reg_inv (fst (prune_inactive_older_than g now d))"
  by (auto simp: reg_inv_get prune_inactive_older_than_def Let_def hm_get_retain split: if_splits option.splits)

lemma reg_inv_fold: "reg_inv m \<Longrightarrow> reg_inv (foldl (\<lambda>m info. hm_insert (si_id info) info m) m xs)"
  by (induction xs arbitrary: m) (auto intro!: reg_inv_register simp: register_def [symmetric])

lemma reg_inv_from_sessions [simp, inv_intros]: "reg_inv (from_sessions xs)"
  unfolding from_sessions_def by (rule reg_inv_fold) (simp add: reg_inv_def)

interpretation reg: keyed_table hm_get "\<lambda>g k info. register g info" "\<lambda>g k. fst (unregister g k)"
    "\<lambda>k info. si_id info = k" reg_inv
  by unfold_locales simp_all

section \<open>Lemmas on the listing and the snapshot\<close>

lemma set_list_sessions: "set (list_sessions g) = snd ` set g"
  by (simp add: list_sessions_def)

lemma in_list_sessions: "reg_inv g \<Longrightarrow> info \<in> set (list_sessions g) \<longleftrightarrow> hm_get g (si_id info) = Some info"
  by (auto simp: set_list_sessions reg_inv_get hm_values_iff)

lemma distinct_values: "reg_inv g \<Longrightarrow> distinct (map si_id (map snd g))"
proof -
  assume "reg_inv g"
  then have eq: "map (\<lambda>kv. si_id (snd kv)) g = map fst g" and "distinct (map fst g)"
    by (auto simp: reg_inv_def list_all_iff hm_ok_def)
  then show ?thesis unfolding map_map comp_def eq by blast
qed

lemma distinct_list_sessions: "reg_inv g \<Longrightarrow> distinct (map si_id (list_sessions g))"
  using distinct_values [of g] mset_eq_imp_distinct_iff [of "map si_id (list_sessions g)" "map si_id (map snd g)"]
  by (simp only: list_sessions_def mset_map mset_sort)

lemma from_sessions_snoc: "from_sessions (xs @ [x]) = register (from_sessions xs) x"
  by (simp add: from_sessions_def register_def)

lemma from_sessions_get:
  "distinct (map si_id xs) \<Longrightarrow> hm_get (from_sessions xs) k = Some info \<longleftrightarrow> info \<in> set xs \<and> si_id info = k"
proof (induction xs rule: rev_induct)
  case Nil
  then show ?case by (simp add: from_sessions_def)
next
  case (snoc x xs)
  then show ?case by (auto simp: from_sessions_snoc image_iff)
qed

lemma load_saved_get:
  assumes "reg_inv g" "distinct (map si_id xs)" "set xs = set (list_sessions g)"
  shows "hm_get (from_sessions (map recover (filter p xs))) k =
    (case hm_get g k of None \<Rightarrow> None | Some info \<Rightarrow> if p info then Some (recover info) else None)"
    (is "hm_get ?g k = ?rhs")
proof -
  have "distinct (map si_id (filter p xs))" using assms(2) by (rule distinct_map_filter)
  then have d: "distinct (map si_id (map recover (filter p xs)))" by (simp add: comp_def)
  have mem: "info \<in> set xs \<longleftrightarrow> hm_get g (si_id info) = Some info" for info
    using in_list_sessions [OF assms(1)] by (simp add: assms(3))
  have key: "hm_get g k = Some info \<Longrightarrow> si_id info = k" for info
    using assms(1) unfolding reg_inv_get by blast
  have "hm_get ?g k = Some i \<longleftrightarrow> (\<exists>info. info \<in> set xs \<and> p info \<and> i = recover info \<and> si_id info = k)" for i
    unfolding from_sessions_get [OF d] by auto
  then have iff: "hm_get ?g k = Some i \<longleftrightarrow> (\<exists>info. hm_get g k = Some info \<and> p info \<and> i = recover info)" for i
    using mem key by metis
  show ?thesis
  proof (cases "\<exists>info. hm_get g k = Some info \<and> p info")
    case True
    then show ?thesis using iff by auto
  next
    case False
    then have "hm_get ?g k = None" using iff by (cases "hm_get ?g k") auto
    with False show ?thesis by (auto split: option.splits)
  qed
qed

lemma recover_not_active: "\<not> is_active (recover info)"
  by (simp add: recover_def is_active_def)

text \<open>A session for the examples: registered at \<open>t\<close>, never seen since.\<close>

definition plain_session :: "str \<Rightarrow> session_state \<Rightarrow> datetime \<Rightarrow> session_info" where
  "plain_session i st t = \<lparr>si_id = i, si_pid = 100, si_state = st, si_created_at = t, si_last_seen_at = None,
     si_last_command_at = None, si_attached_tty = None, si_shell = None, si_cwd = None, si_label = None\<rparr>"

lemma plain_session_simps [simp]:
  "si_id (plain_session i st t) = i" "si_state (plain_session i st t) = st"
  "si_created_at (plain_session i st t) = t" "last_seen (plain_session i st t) = t"
  "is_active (plain_session i st t) \<longleftrightarrow> st = Attached \<or> st = Creating"
  by (simp_all add: plain_session_def last_seen_def is_active_def)

section \<open>Properties\<close>

text \<open>
  Further property (roundtrip). A registry that is saved and loaded again has exactly the sessions seen in
  the last 24 hours, each as it was, except that one that was attached or being created comes
  back as detached and without its terminal. The JSON library is assumed to read back what it
  wrote.
\<close>

theorem snapshot_round_trip:
  assumes "reg_inv g"
    and "save_snapshot enc os fs g = (fs', Inr ())"
    and json: "\<And>xs b. enc xs = Some b \<Longrightarrow> dec_json b = Some xs \<and> utf8_valid b"
  shows "\<exists>g'. load_snapshot dec_json True fs' now = Inr g' \<and> reg_inv g' \<and>
    (\<forall>i. hm_get g' i =
       (case hm_get g i of None \<Rightarrow> None
        | Some info \<Rightarrow> if now - last_seen info \<le> snapshot_max_age
            then Some (if is_active info then info\<lparr>si_state := Detached, si_attached_tty := None\<rparr> else info)
            else None))"
proof -
  obtain b where "enc (list_sessions g) = Some b" "fs_file fs' = Some b"
    using assms(2) by (auto simp: save_snapshot_def split: if_splits option.splits sum.splits)
  then have "load_snapshot dec_json True fs' now = Inr (from_sessions (map recover
      (filter (\<lambda>info. now - last_seen info \<le> snapshot_max_age) (list_sessions g))))"
    using json by (simp add: load_snapshot_def)
  then show ?thesis
    using load_saved_get [OF assms(1) distinct_list_sessions [OF assms(1)] refl]
    by (auto simp: recover_def demote_def split: option.splits)
qed

theorem snapshot_round_trip_witness:
  "\<exists>g'. load_snapshot (\<lambda>b. if b = ''[1]'' then Some [plain_session ''a'' Attached 5] else None) True
       (fst (save_snapshot (\<lambda>xs. if xs = [plain_session ''a'' Attached 5] then Some ''[1]'' else None)
          \<lparr>mkdir_ok = True, write_ok = Inr (), rename_ok = True\<rparr> \<lparr>fs_tmp = None, fs_file = None\<rparr>
          (register registry_new (plain_session ''a'' Attached 5)))) 6 = Inr g' \<and>
     hm_get g' ''a'' = Some (plain_session ''a'' Detached 5)"
proof -
  let ?e = "\<lambda>xs. if xs = [plain_session ''a'' Attached 5] then Some ''[1]'' else None"
  let ?os = "\<lparr>mkdir_ok = True, write_ok = Inr (), rename_ok = True\<rparr>"
  let ?g = "register registry_new (plain_session ''a'' Attached 5)"
  let ?fs = "\<lparr>fs_tmp = None, fs_file = None\<rparr>"
  let ?d = "\<lambda>b. if b = ''[1]'' then Some [plain_session ''a'' Attached 5] else None"
  have inv: "reg_inv ?g" by (intro inv_intros)
  have "list_sessions ?g = [plain_session ''a'' Attached 5]"
    by (simp add: register_def registry_new_def list_sessions_def)
  then have s: "save_snapshot ?e ?os ?fs ?g = (?fs\<lparr>fs_file := Some ''[1]''\<rparr>, Inr ())"
    by (simp add: save_snapshot_def)
  have j: "?e xs = Some b \<Longrightarrow> ?d b = Some xs \<and> utf8_valid b" for xs b
    by (auto split: if_splits intro!: utf8_valid_ascii)
  show ?thesis
    using snapshot_round_trip [OF inv s j, of 6] s
    by (auto simp: snapshot_max_age_def) (auto simp: plain_session_def)
qed

text \<open>
  Further property (safety). Whatever goes wrong while a snapshot is saved, the snapshot file itself is
  either still the old one or the complete new one; and it is the new one exactly when the
  save reports success, which needs every file operation to succeed.
\<close>

theorem save_is_atomic:
  "let (fs', res) = save_snapshot enc os fs g in
     (case res of
        Inl _ \<Rightarrow> fs_file fs' = fs_file fs
      | Inr _ \<Rightarrow> \<exists>json. enc (list_sessions g) = Some json \<and> fs_file fs' = Some json \<and> fs_tmp fs' = None) \<and>
     (res = Inr () \<longleftrightarrow> mkdir_ok os \<and> enc (list_sessions g) \<noteq> None \<and> write_ok os = Inr () \<and> rename_ok os)"
  by (auto simp: save_snapshot_def split: option.splits sum.splits)

text \<open>
  Further property (safety). Pruning never drops an attached session or one being created; of the others it
  drops exactly those not seen for longer than the limit, leaves the rest untouched and
  returns how many it dropped.
\<close>

theorem prune_exact:
  assumes "reg_inv g"
  shows "let (g', n) = prune_inactive_older_than g now d in
    (\<forall>i. hm_get g' i = (case hm_get g i of None \<Rightarrow> None
       | Some info \<Rightarrow> if is_active info \<or> now - last_seen info \<le> d then Some info else None)) \<and>
    n = length (filter (\<lambda>info. \<not> is_active info \<and> now - last_seen info > d) (list_sessions g))"
proof -
  have "length g - length (hm_retain p g) = length (filter (\<lambda>info. \<not> p info) (map snd g))"
    for p :: "session_info \<Rightarrow> bool"
    using sum_length_filter_compl [of "\<lambda>kv. p (snd kv)" g]
    by (simp add: hm_retain_def case_prod_beta' filter_map comp_def)
  moreover have "length (filter q (list_sessions g)) = length (filter q (map snd g))" for q
    unfolding list_sessions_def by (metis mset_filter mset_sort size_mset)
  ultimately show ?thesis
    using assms by (simp add: prune_inactive_older_than_def Let_def hm_get_retain reg_inv_def
        keep_on_prune_def [abs_def] not_le)
qed

theorem prune_exact_witness:
  "let g = register (register registry_new (plain_session ''a'' Attached 0)) (plain_session ''b'' Failed 0) in
     snd (prune_inactive_older_than g 10 5) = 1 \<and>
     hm_get (fst (prune_inactive_older_than g 10 5)) ''a'' \<noteq> None \<and>
     hm_get (fst (prune_inactive_older_than g 10 5)) ''b'' = None"
proof -
  let ?g = "register (register registry_new (plain_session ''a'' Attached 0)) (plain_session ''b'' Failed 0)"
  have inv: "reg_inv ?g" by (intro inv_intros)
  show ?thesis using prune_exact [OF inv, of 10 5]
    by (simp add: Let_def case_prod_beta) (simp add: list_sessions_def register_def registry_new_def)
qed

text \<open>
  Further property (functional). Marking stale sessions detaches exactly the active ones whose last sign of
  life is older than the limit, returns their number, and leaves none behind: marking again at
  the same time changes nothing.
\<close>

theorem mark_stale_exact:
  "let (g', n) = mark_stale_active_detached g now d in
     (\<forall>i. hm_get g' i = map_option (\<lambda>info. if is_active info \<and> now - last_seen info > d
        then info\<lparr>si_state := Detached, si_attached_tty := None\<rparr> else info) (hm_get g i)) \<and>
     n = length (filter (\<lambda>info. is_active info \<and> now - last_seen info > d) (map snd g)) \<and>
     mark_stale_active_detached g' now d = (g', 0)"
proof -
  have none: "\<not> stale now d (if stale now d info then demote info else info)" for info
    by (simp add: stale_def is_active_def)
  then have "hm_map_values (\<lambda>info. if stale now d info then demote info else info)
      (hm_map_values (\<lambda>info. if stale now d info then demote info else info) g) =
      hm_map_values (\<lambda>info. if stale now d info then demote info else info) g"
    by (auto simp: hm_map_values_def)
  moreover have "filter (stale now d)
      (map snd (hm_map_values (\<lambda>info. if stale now d info then demote info else info) g)) = []"
    using none by (auto simp: hm_map_values_def filter_empty_conv)
  ultimately show ?thesis
    by (simp add: mark_stale_active_detached_def filter_map flip: stale_def) (unfold demote_def, blast)
qed

text \<open>
  Further property (bounds). A label set on a session is the requested text cut to 64 characters, not
  bytes, and stays valid UTF-8; an empty text removes the label; other sessions and other
  fields are untouched; the flag tells whether the session exists.
\<close>

theorem set_label_capped:
  assumes "\<forall>s. label = Some s \<longrightarrow> utf8_valid s"
  shows "let (g', ok) = set_label g i label in
    (ok \<longleftrightarrow> hm_get g i \<noteq> None) \<and>
    (\<forall>k. k \<noteq> i \<longrightarrow> hm_get g' k = hm_get g k) \<and>
    (\<forall>info. hm_get g i = Some info \<longrightarrow> (\<exists>info'. hm_get g' i = Some info' \<and>
       info'\<lparr>si_label := si_label info\<rparr> = info \<and>
       (case si_label info' of
          None \<Rightarrow> label = None \<or> label = Some []
        | Some l \<Rightarrow> \<exists>s. label = Some s \<and> prefix l s \<and> utf8_valid l \<and> char_count l = min 64 (char_count s))))"
proof -
  have "case capped_label label of
          None \<Rightarrow> label = None \<or> label = Some []
        | Some l \<Rightarrow> \<exists>s. label = Some s \<and> prefix l s \<and> utf8_valid l \<and> char_count l = min 64 (char_count s)"
    using assms by (auto simp: capped_label_def max_label_chars_def take_chars_prefix take_chars_valid
        take_chars_count split: option.splits)
  moreover have "info\<lparr>si_label := l\<rparr>\<lparr>si_label := si_label info\<rparr> = info" for info l
    by simp
  ultimately show ?thesis
    unfolding set_label_def case_prod_beta Let_def hm_modify_flag hm_get_modify
    by (intro conjI allI impI) (simp_all del: capped_label_def)
qed

theorem set_label_capped_witness:
  "\<exists>info. hm_get (fst (set_label (register registry_new (plain_session ''a'' Attached 0)) ''a'' (Some ''db''))) ''a'' =
     Some info \<and> prefix (the (si_label info)) ''db''"
proof -
  have "\<forall>s. Some ''db'' = Some s \<longrightarrow> utf8_valid s" by (auto intro!: utf8_valid_ascii)
  from set_label_capped [OF this, of "register registry_new (plain_session ''a'' Attached 0)" "''a''"]
  show ?thesis by (auto simp: case_prod_beta Let_def split: option.splits)
qed

text \<open>
  Further property (functional). The listing has every registered session once, by creation time.
\<close>

theorem list_sessions_sorted:
  "reg_inv g \<Longrightarrow> sorted (map si_created_at (list_sessions g)) \<and> distinct (map si_id (list_sessions g)) \<and>
     (\<forall>info. info \<in> set (list_sessions g) \<longleftrightarrow> hm_get g (si_id info) = Some info)"
  by (simp add: distinct_list_sessions in_list_sessions) (simp add: list_sessions_def)

theorem list_sessions_sorted_witness:
  "sorted (map si_created_at (list_sessions
     (register (register registry_new (plain_session ''a'' Attached 9)) (plain_session ''b'' Failed 3))))"
  using list_sessions_sorted [of "register (register registry_new (plain_session ''a'' Attached 9)) (plain_session ''b'' Failed 3)"]
  by (simp del: sorted_map)

end
