(* ===== verification/Process_Inventory.thy ===== *)
theory Process_Inventory
  imports Ipc
begin

text \<open>
  Two channels of the supervisor: the ring of recent process changes with its tap and ready
  flag (\<open>aic-server/src/process_inventory_store.rs\<close>), and the tap of agent events
  (\<open>aic-server/src/agent_event_bus.rs\<close>). A broadcast channel is the list of what was sent.
\<close>

section \<open>Process inventory store\<close>

definition inventory_capacity :: nat where
  "inventory_capacity = 1024"

record inventory_store =
  iv_ring :: "process_change list"
  iv_tap :: "process_change list"
  iv_ready :: bool

definition inventory_new :: inventory_store where
  "inventory_new = \<lparr>iv_ring = [], iv_tap = [], iv_ready = False\<rparr>"

definition mark_ready :: "inventory_store \<Rightarrow> inventory_store" where
  "mark_ready s = s\<lparr>iv_ready := True\<rparr>"

definition inventory_push :: "inventory_store \<Rightarrow> process_change \<Rightarrow> inventory_store" where
  "inventory_push s c =
     s\<lparr>iv_ring := (if length (iv_ring s) = inventory_capacity then tl (iv_ring s) else iv_ring s) @ [c],
       iv_tap := iv_tap s @ [c]\<rparr>"

definition push_many :: "inventory_store \<Rightarrow> process_change list \<Rightarrow> inventory_store" where
  "push_many s changes = (if changes = [] then s else foldl inventory_push s changes)"

definition inventory_recent :: "inventory_store \<Rightarrow> nat \<Rightarrow> process_change list" where
  "inventory_recent s count = take count (rev (iv_ring s))"

definition inventory_len :: "inventory_store \<Rightarrow> nat" where
  "inventory_len s = length (iv_ring s)"

definition inventory_is_empty :: "inventory_store \<Rightarrow> bool" where
  "inventory_is_empty s \<longleftrightarrow> inventory_len s = 0"

section \<open>Agent event bus\<close>

type_synonym agent_bus = "agent_event list"

definition bus_publish :: "agent_bus \<Rightarrow> agent_event \<Rightarrow> agent_bus" where
  "bus_publish bus ev = bus @ [ev]"

section \<open>Invariant and properties\<close>

definition inventory_inv :: "inventory_store \<Rightarrow> bool" where
  "inventory_inv s \<longleftrightarrow> length (iv_ring s) \<le> inventory_capacity"

lemma inventory_new_inv [inv_intros]: "inventory_inv inventory_new"
  by (simp add: inventory_inv_def inventory_new_def)

interpretation ivl: tapped_log iv_ring inventory_push "\<lambda>c. c" "\<lambda>_ _. True" inventory_inv iv_tap
proof unfold_locales
  fix s x
  assume "inventory_inv s"
  then show "inventory_inv (inventory_push s x)"
    by (auto simp: inventory_inv_def inventory_push_def inventory_capacity_def)
  show "\<exists>d\<le>length (iv_ring s). iv_ring (inventory_push s x) = drop d (iv_ring s) @ [x]"
    by (intro exI [of _ "if length (iv_ring s) = inventory_capacity then 1 else 0"])
      (auto simp: inventory_push_def drop_Suc inventory_capacity_def)
qed (simp_all add: inventory_push_def)

lemma push_many_fold: "push_many s cs = foldl inventory_push s cs"
  by (simp add: push_many_def)

lemma inventory_ticks: "foldl push_many s ts = foldl inventory_push s (concat ts)"
  by (induction ts arbitrary: s) (simp_all add: push_many_fold)

lemma ring_last_n:
  assumes "iv_ring s = last_n inventory_capacity h"
  shows "iv_ring (inventory_push s c) = last_n inventory_capacity (h @ [c])"
proof (cases "length h < inventory_capacity")
  case True
  with assms show ?thesis by (simp add: inventory_push_def last_n_def)
next
  case False
  then have "length (h @ [c]) - inventory_capacity = Suc (length h - inventory_capacity)" by simp
  with False assms show ?thesis
    by (simp add: inventory_push_def last_n_def drop_Suc tl_drop) (simp add: inventory_capacity_def)
qed

text \<open>
  Further property (functional). However the observed changes are grouped into ticks, the ring holds the
  last 1024 of all of them, the tap has them all, and \<open>recent\<close> returns the newest first.
\<close>

theorem inventory_keeps_newest:
  "let s = foldl push_many inventory_new ticks in
     iv_ring s = last_n 1024 (concat ticks) \<and> iv_tap s = concat ticks \<and>
     inventory_recent s n = take n (rev (last_n 1024 (concat ticks)))"
proof -
  have "iv_ring (foldl inventory_push inventory_new cs) = last_n inventory_capacity cs" for cs
    by (induction cs rule: rev_induct) (auto simp: ring_last_n, simp add: inventory_new_def last_n_def)
  moreover have "iv_tap (foldl inventory_push inventory_new cs) = cs" for cs
    using ivl.tap_is_accepted_history [OF inventory_new_inv, of cs]
    by (simp add: accepted_of_all) (simp add: inventory_new_def)
  ultimately show ?thesis
    by (simp add: Let_def inventory_ticks inventory_recent_def inventory_capacity_def)
qed

end
