(* ===== verification/Control_Server.thy ===== *)
theory Control_Server
  imports Framed_Service Session_Registry Record_Store Process_Inventory Wire
begin

text \<open>
  The supervisor's control endpoint (\<open>aic-server/src/control_server.rs\<close>): one request, one
  response. A request is handled to its end as one step here. What the handler asks of the
  rest of the world is the record \<open>control_env\<close>: the clock at the successive readings, random
  values, the outcomes of file operations and of \<open>kill\<close>, the executable of a process, the
  exporter's answers, and the crate functions \<open>serde_json::to_vec_pretty\<close> and
  \<open>chrono::Duration::seconds\<close>. Log output is left out.
\<close>

section \<open>State and environment\<close>

definition stale_active_after :: duration where
  "stale_active_after = 30 * 10 ^ 9"

record log_chan =
  lc_capacity :: nat
  lc_queue :: "log_line list"
  lc_closed :: bool

record control_ctx =
  cx_shutdown :: bool
  cx_registry :: registry
  cx_store :: record_store
  cx_has_path :: bool
  cx_fs :: snapshot_fs
  cx_metrics :: aicd_metrics
  cx_agent_bus :: agent_bus
  cx_logs :: "log_chan option"
  cx_inventory :: "inventory_store option"

datatype kill_result = KillOk | KillErr int

datatype flush_outcome = FlushSendFailed | FlushNoReply | FlushReply spool_flush_result

record control_env =
  ce_now :: "nat \<Rightarrow> datetime"
  ce_rnd :: u64
  ce_debug :: bool
  ce_save :: "nat \<Rightarrow> save_outcome"
  ce_enc :: "session_info list \<Rightarrow> bytes option"
  ce_seconds :: "int \<Rightarrow> duration rs"
  ce_kill :: "int \<Rightarrow> kill_result"
  ce_exe_path :: "u32 \<Rightarrow> str option"
  ce_version :: daemon_version
  ce_self_update :: self_update_status
  ce_exporter :: "exporter_status option"
  ce_flush :: "flush_outcome option"
  ce_instant :: instant
  ce_pid :: u32
  ce_globals :: daemon_globals

definition esrch :: int where
  "esrch = 3"

section \<open>Helpers\<close>

text \<open>\<open>persist_registry\<close>; \<open>k\<close> says which save of the request this is. A failure is only logged.\<close>

definition persist_registry :: "control_env \<Rightarrow> nat \<Rightarrow> control_ctx \<Rightarrow> control_ctx" where
  "persist_registry env k cx =
     (if \<not> cx_has_path cx then cx
      else cx\<lparr>cx_fs := fst (save_snapshot (ce_enc env) (ce_save env k) (cx_fs cx) (cx_registry cx))\<rparr>)"

definition reconcile_stale_sessions :: "control_env \<Rightarrow> nat \<Rightarrow> control_ctx \<Rightarrow> control_ctx" where
  "reconcile_stale_sessions env k cx =
     (case mark_stale_active_detached (cx_registry cx) (ce_now env 0) stale_active_after of
        (g, n) \<Rightarrow>
          (let cx1 = cx\<lparr>cx_registry := g\<rparr> in if 0 < n then persist_registry env k cx1 else cx1))"

text \<open>A \<open>String\<close> takes 24 bytes.\<close>

definition tail_flatten_output_lines :: "command_record list \<Rightarrow> nat \<Rightarrow> str list rs" where
  "tail_flatten_output_lines records n =
     (if n = 0 then Val []
      else rs_bind (with_capacity 24 n) (\<lambda>_.
        Val (rev (collect_tail (rev (map cr_output_lines records)) n []))))"

text \<open>\<open>Path::file_name\<close> of a Unix path: the last component that is a name.\<close>

definition path_file_name :: "str \<Rightarrow> str option" where
  "path_file_name p =
     (case rev (filter (\<lambda>c. c \<noteq> [] \<and> c \<noteq> ''.'') (split_on (CHR ''/'') p)) of
        [] \<Rightarrow> None | c # _ \<Rightarrow> if c = ''..'' then None else Some c)"

definition path_matches_aic_session :: "str \<Rightarrow> bool" where
  "path_matches_aic_session p \<longleftrightarrow> path_file_name p = Some ''aic-session''"

definition pid_looks_like_aic_session :: "control_env \<Rightarrow> u32 \<Rightarrow> bool" where
  "pid_looks_like_aic_session env pid =
     (case ce_exe_path env pid of Some p \<Rightarrow> path_matches_aic_session p | None \<Rightarrow> True)"

definition stop_session :: "control_env \<Rightarrow> control_ctx \<Rightarrow> str \<Rightarrow> control_ctx \<times> ipc_response" where
  "stop_session env cx i =
     (case find (\<lambda>s. si_id s = i) (list_sessions (cx_registry cx)) of
        None \<Rightarrow> (cx, ErrorResponse (SessionNotFound i))
      | Some info \<Rightarrow>
        (let pid = sint (si_pid info) in
         if pid \<le> 1 then (cx, ErrorResponse (InvalidPid pid))
         else if \<not> pid_looks_like_aic_session env (si_pid info) then
           (persist_registry env 0 (cx\<lparr>cx_registry := fst (set_state (cx_registry cx) i Failed)\<rparr>),
            ErrorResponse (NotASessionProcess pid))
         else (case ce_kill env pid of
             KillErr e \<Rightarrow>
               if e = esrch then (cx\<lparr>cx_registry := fst (unregister (cx_registry cx) i)\<rparr>, Pong)
               else (cx, ErrorResponse (KillFailed pid e))
           | KillOk \<Rightarrow> (cx, Pong))))"

text \<open>\<open>try_send\<close> drops a line when the channel is full or closed.\<close>

definition try_send :: "log_chan \<Rightarrow> log_line \<Rightarrow> log_chan" where
  "try_send ch l =
     (if lc_closed ch \<or> lc_capacity ch \<le> length (lc_queue ch) then ch
      else ch\<lparr>lc_queue := lc_queue ch @ [l]\<rparr>)"

section \<open>The request handler\<close>

fun process_control_request :: "control_env \<Rightarrow> control_ctx \<Rightarrow> ipc_request \<Rightarrow> (control_ctx \<times> ipc_response) rs" where
  "process_control_request env cx Ping = Val (cx, Pong)"
| "process_control_request env cx GetVersion = Val (cx, Version (ce_version env))"
| "process_control_request env cx GetSelfUpdateStatus = Val (cx, SelfUpdateStatus (ce_self_update env))"
| "process_control_request env cx GetExporterStatus =
     Val (cx, ExporterStatus (case ce_exporter env of Some h \<Rightarrow> h | None \<Rightarrow> default_exporter_status))"
| "process_control_request env cx FlushSpool =
     Val (cx, case ce_flush env of
        None \<Rightarrow> ErrorResponse ExporterOff
      | Some FlushSendFailed \<Rightarrow> ErrorResponse FlushNotDelivered
      | Some (FlushReply r) \<Rightarrow> SpoolFlushed r
      | Some FlushNoReply \<Rightarrow> ErrorResponse FlushNotConfirmed)"
| "process_control_request env cx (AgentEvent ev) =
     Val (cx\<lparr>cx_agent_bus := bus_publish (cx_agent_bus cx) ev\<rparr>, Pong)"
| "process_control_request env cx (PushLogLines ls) =
     Val (cx\<lparr>cx_logs := map_option (\<lambda>ch. foldl try_send ch ls) (cx_logs cx)\<rparr>, Pong)"
| "process_control_request env cx ListSessions =
     (let cx1 = reconcile_stale_sessions env 0 cx in Val (cx1, Sessions (list_sessions (cx_registry cx1))))"
| "process_control_request env cx (PruneSessions older_than_secs) =
     (let cx1 = reconcile_stale_sessions env 0 cx in
      rs_bind (ce_seconds env (int (min older_than_secs (2 ^ 63 - 1)))) (\<lambda>d.
        case prune_inactive_older_than (cx_registry cx1) (ce_now env 1) d of
          (g, n) \<Rightarrow>
            (let cx2 = cx1\<lparr>cx_registry := g\<rparr> in
             Val (if 0 < n then persist_registry env 1 cx2 else cx2, PrunedSessions n))))"
| "process_control_request env cx (RegisterSession info) =
     Val (persist_registry env 0 (cx\<lparr>cx_registry := register (cx_registry cx) info\<rparr>), Pong)"
| "process_control_request env cx (UnregisterSession i) =
     Val (persist_registry env 0 (cx\<lparr>cx_registry := fst (unregister (cx_registry cx) i)\<rparr>), Pong)"
| "process_control_request env cx (HeartbeatSession i seen_at cwd) =
     (case heartbeat (cx_registry cx) i seen_at cwd of
        (g, updated) \<Rightarrow>
          (let cx1 = cx\<lparr>cx_registry := g\<rparr> in Val (if updated then persist_registry env 0 cx1 else cx1, Pong)))"
| "process_control_request env cx Shutdown = Val (cx\<lparr>cx_shutdown := True\<rparr>, Pong)"
| "process_control_request env cx (StopSession i) = Val (stop_session env cx i)"
| "process_control_request env cx (TagSession i label) =
     (case set_label (cx_registry cx) i label of
        (g, updated) \<Rightarrow>
          (let cx1 = cx\<lparr>cx_registry := g\<rparr> in
           if updated then Val (persist_registry env 0 cx1, Pong)
           else Val (cx1, ErrorResponse (SessionNotFound i))))"
| "process_control_request env cx (GetLastCommandForSession i) =
     Val (cx, case store_last (cx_store cx) i of
        Some r \<Rightarrow> CommandData r | None \<Rightarrow> ErrorResponse (RecordNotFound i))"
| "process_control_request env cx (GetRecentProcessChanges n) =
     Val (cx, ProcessChanges (case cx_inventory cx of Some s \<Rightarrow> inventory_recent s n | None \<Rightarrow> []))"
| "process_control_request env cx (GetRecentCommandsForSession i n) =
     Val (cx, CommandRecords (store_recent (cx_store cx) i n))"
| "process_control_request env cx (GetRecentLinesForSession i n) =
     rs_bind (tail_flatten_output_lines (store_recent (cx_store cx) i (2 ^ 64 - 1)) n) (\<lambda>ls. Val (cx, Lines ls))"
| "process_control_request env cx (FindRecordByPrefixForSession i p) =
     Val (cx, CommandRecords (store_find_by_prefix (cx_store cx) i p))"
| "process_control_request env cx (RegisterRecordForSession sid r) =
     (case cr_capture_mode r of
        Pty \<Rightarrow> rs_bind (push_pty (ce_debug env) (ce_rnd env) (cx_store cx) sid r) (\<lambda>st.
          Val (cx\<lparr>cx_store := st, cx_metrics := inc_central_store_push (cx_metrics cx)\<rparr>, Pong))
      | ExplicitCapture \<Rightarrow> rs_bind (push_explicit (ce_debug env) (ce_rnd env) (cx_store cx) sid r) (\<lambda>st.
          Val (cx\<lparr>cx_store := st, cx_metrics := inc_central_store_push (cx_metrics cx)\<rparr>, Pong))
      | Hook \<Rightarrow> Val (cx, ErrorResponse HookRecordRefused))"
| "process_control_request env cx (CommandStarted sid cid command cwd shell pid started_at) =
     (let cx1 = persist_registry env 0
        (cx\<lparr>cx_registry := upsert_hook_session (cx_registry cx) sid pid shell cwd started_at\<rparr>) in
      Val (cx1\<lparr>cx_store := on_started (cx_store cx1) sid cid command cwd started_at\<rparr>, Pong))"
| "process_control_request env cx (CommandFinished sid cid exit_code finished_at duration_ms) =
     (case touch_seen (cx_registry cx) sid finished_at of
        (g, seen) \<Rightarrow>
          (let cx1 = (if seen then persist_registry env 0 (cx\<lparr>cx_registry := g\<rparr>) else cx\<lparr>cx_registry := g\<rparr>) in
           Val (cx1\<lparr>cx_store := on_finished (ce_rnd env) (cx_store cx1) sid cid exit_code finished_at duration_ms\<rparr>, Pong)))"
| "process_control_request env cx GetLastCommand = Val (cx, ErrorResponse NeedsSessionRouting)"
| "process_control_request env cx GetMetrics =
     Val (cx, MetricsData (aicd_snapshot (ce_instant env) (ce_pid env) (ce_globals env) (cx_metrics cx)))"
| "process_control_request env cx (GetRecentLines n) = Val (cx, ErrorResponse (NotASupervisorRequest (GetRecentLines n)))"
| "process_control_request env cx (GetRecentCommands n) = Val (cx, ErrorResponse (NotASupervisorRequest (GetRecentCommands n)))"
| "process_control_request env cx (FindRecordByPrefix p) = Val (cx, ErrorResponse (NotASupervisorRequest (FindRecordByPrefix p)))"
| "process_control_request env cx (RegisterRecord r) = Val (cx, ErrorResponse (NotASupervisorRequest (RegisterRecord r)))"

section \<open>One connection\<close>

text \<open>
  \<open>handle_client\<close>: read one frame, answer it. \<open>req_dec\<close> and \<open>resp_enc\<close> are \<open>serde_json\<close>; the
  result is the bytes written to the client.
\<close>

definition handle_client ::
  "(bytes \<Rightarrow> ipc_request option) \<Rightarrow> (ipc_response \<Rightarrow> bytes option) \<Rightarrow> control_env \<Rightarrow> io_kind \<Rightarrow>
     control_ctx \<Rightarrow> bytes \<Rightarrow> (control_ctx \<times> (service_io_error + bytes)) rs" where
  "handle_client req_dec resp_enc env fin cx input =
     (case read_u32 fin input of
        Inl e \<Rightarrow> Val (cx, Inl (RequestReadFailed e))
      | Inr (payload_len, r) \<Rightarrow>
        if max_frame_payload_bytes < payload_len then Val (cx, Inl (PayloadTooLarge payload_len))
        else (case read_exact fin payload_len r of
          Inl e \<Rightarrow> Val (cx, Inl (RequestReadFailed e))
        | Inr (payload, rest) \<Rightarrow>
          rs_bind (case req_dec payload of
             Some req \<Rightarrow> process_control_request env cx req
           | None \<Rightarrow> Val (cx, ErrorResponse UnknownRequest))
            (\<lambda>(cx', resp). Val (cx',
               case resp_enc resp of None \<Rightarrow> Inl SerializeFailed | Some json \<Rightarrow> Inr (encode_frame json)))))"

lemma control_exchange_frame:
  "length p < 2 ^ 32 \<Longrightarrow> handle_client rd re env fin cx (encode_frame p @ rest) =
    (if max_frame_payload_bytes < length p then Val (cx, Inl (PayloadTooLarge (length p)))
     else rs_bind (answer (process_control_request env) rd cx p)
       (\<lambda>(cx', resp). Val (cx', case re resp of None \<Rightarrow> Inl SerializeFailed | Some j \<Rightarrow> Inr (encode_frame j))))"
  by (simp add: handle_client_def encode_frame_def answer_def)

interpretation ctl: framed_service "\<lambda>rd re fin. handle_client rd re env fin" "process_control_request env" for env
proof unfold_locales
  fix p rd re fin s rest and k :: nat
  show "length p \<le> max_frame_payload_bytes \<Longrightarrow> handle_client rd re env fin s (encode_frame p @ rest) =
      rs_bind (answer (process_control_request env) rd s p)
        (\<lambda>(s', resp). Val (s', case re resp of None \<Rightarrow> Inl SerializeFailed | Some j \<Rightarrow> Inr (encode_frame j)))"
    using control_exchange_frame [of p rd re env fin s rest] by (simp add: max_frame_payload_bytes_def)
  show "max_frame_payload_bytes < length p \<Longrightarrow> length p < 2 ^ 32 \<Longrightarrow>
      handle_client rd re env fin s (encode_frame p @ rest) = Val (s, Inl (PayloadTooLarge (length p)))"
    by (simp add: control_exchange_frame)
  show "length p < 2 ^ 32 \<Longrightarrow> length p \<le> max_frame_payload_bytes \<Longrightarrow> k < length (encode_frame p) \<Longrightarrow>
      handle_client rd re env fin s (take k (encode_frame p)) = Val (s, Inl (RequestReadFailed fin))"
    using truncated_reads [of p k fin] by (auto simp: handle_client_def)
qed

section \<open>Invariant\<close>

definition control_inv :: "control_ctx \<Rightarrow> bool" where
  "control_inv cx \<longleftrightarrow> reg_inv (cx_registry cx) \<and> store_inv (cx_store cx) \<and>
     (\<forall>s. cx_inventory cx = Some s \<longrightarrow> inventory_inv s)"

lemma persist_keeps [simp]:
  "cx_registry (persist_registry env k cx) = cx_registry cx"
  "cx_store (persist_registry env k cx) = cx_store cx"
  "cx_inventory (persist_registry env k cx) = cx_inventory cx"
  "cx_has_path (persist_registry env k cx) = cx_has_path cx"
  by (simp_all add: persist_registry_def)

lemma reconcile_registry:
  "cx_registry (reconcile_stale_sessions env k cx) =
     fst (mark_stale_active_detached (cx_registry cx) (ce_now env 0) stale_active_after)"
  "cx_store (reconcile_stale_sessions env k cx) = cx_store cx"
  "cx_inventory (reconcile_stale_sessions env k cx) = cx_inventory cx"
  "cx_has_path (reconcile_stale_sessions env k cx) = cx_has_path cx"
  by (simp_all add: reconcile_stale_sessions_def Let_def split: prod.splits)

lemma control_inv_simps [simp]:
  "control_inv (persist_registry env k cx) \<longleftrightarrow> control_inv cx"
  "control_inv (cx\<lparr>cx_shutdown := b\<rparr>) \<longleftrightarrow> control_inv cx"
  "control_inv (cx\<lparr>cx_agent_bus := ab\<rparr>) \<longleftrightarrow> control_inv cx"
  "control_inv (cx\<lparr>cx_logs := lg\<rparr>) \<longleftrightarrow> control_inv cx"
  "control_inv cx \<Longrightarrow> reg_inv g \<Longrightarrow> control_inv (cx\<lparr>cx_registry := g\<rparr>)"
  "control_inv cx \<Longrightarrow> store_inv st \<Longrightarrow> control_inv (cx\<lparr>cx_store := st\<rparr>)"
  "control_inv cx \<Longrightarrow> store_inv st \<Longrightarrow> control_inv (cx\<lparr>cx_store := st, cx_metrics := m\<rparr>)"
  by (simp_all add: control_inv_def)

lemma control_inv_parts: "control_inv cx \<Longrightarrow> reg_inv (cx_registry cx)" "control_inv cx \<Longrightarrow> store_inv (cx_store cx)"
  by (simp_all add: control_inv_def)

lemma reconcile_inv: "control_inv cx \<Longrightarrow> control_inv (reconcile_stale_sessions env k cx)"
  using reg_inv_mark_stale [of "cx_registry cx" "ce_now env 0" stale_active_after]
  by (simp add: control_inv_def reconcile_registry)

lemma stop_session_inv: "control_inv cx \<Longrightarrow> control_inv (fst (stop_session env cx i))"
  by (simp add: stop_session_def Let_def control_inv_parts split: option.splits kill_result.splits)

lemma on_started_inv: "store_inv s \<Longrightarrow> store_inv (on_started s sid cid c cwd t)"
  by (simp add: on_started_def)

lemma on_finished_inv: "store_inv s \<Longrightarrow> store_inv (on_finished rnd s sid cid code t d)"
  by (simp add: on_finished_def store_push_inv)

section \<open>When a save is due\<close>

definition snapshot_current :: "control_env \<Rightarrow> control_ctx \<Rightarrow> bool" where
  "snapshot_current env cx \<longleftrightarrow> cx_has_path cx \<and>
     (\<exists>json. ce_enc env (list_sessions (cx_registry cx)) = Some json \<and> fs_file (cx_fs cx) = Some json)"

definition disk_healthy :: "control_env \<Rightarrow> bool" where
  "disk_healthy env \<longleftrightarrow> (\<forall>k. mkdir_ok (ce_save env k) \<and> write_ok (ce_save env k) = Inr () \<and> rename_ok (ce_save env k)) \<and>
     (\<forall>xs. ce_enc env xs \<noteq> None)"

lemma persist_current: "disk_healthy env \<Longrightarrow> cx_has_path cx \<Longrightarrow> snapshot_current env (persist_registry env k cx)"
proof -
  assume "disk_healthy env" "cx_has_path cx"
  moreover from this obtain json where "ce_enc env (list_sessions (cx_registry cx)) = Some json"
    unfolding disk_healthy_def by blast
  ultimately show ?thesis
    by (simp add: snapshot_current_def persist_registry_def save_snapshot_def disk_healthy_def)
qed

lemma snapshot_current_same:
  "snapshot_current env cx \<Longrightarrow> cx_registry cx' = cx_registry cx \<Longrightarrow> cx_fs cx' = cx_fs cx \<Longrightarrow>
     cx_has_path cx' = cx_has_path cx \<Longrightarrow> snapshot_current env cx'"
  by (simp add: snapshot_current_def)

lemma registry_same [simp]: "cx\<lparr>cx_registry := cx_registry cx\<rparr> = cx"
  by simp

lemma hm_modify_absent: "snd (hm_modify k f m) = False \<Longrightarrow> fst (hm_modify k f m) = m"
  by (simp add: hm_modify_def split: option.splits)

lemma mark_stale_none: "snd (mark_stale_active_detached g now d) = 0 \<Longrightarrow> fst (mark_stale_active_detached g now d) = g"
  by (induction g) (auto simp: mark_stale_active_detached_def hm_map_values_def filter_map split: if_splits)

lemma prune_none: "snd (prune_inactive_older_than g now d) = 0 \<Longrightarrow> fst (prune_inactive_older_than g now d) = g"
proof -
  assume "snd (prune_inactive_older_than g now d) = 0"
  then have "length g \<le> length (filter (\<lambda>(k, v). keep_on_prune now d v) g)"
    by (simp add: prune_inactive_older_than_def hm_retain_def Let_def)
  then have "filter (\<lambda>(k, v). keep_on_prune now d v) g = g"
    by (metis filter_True length_filter_less linorder_not_le)
  then show ?thesis by (simp add: prune_inactive_older_than_def hm_retain_def)
qed

text \<open>Every change of the registry is followed by a save, or there was none.\<close>

lemma save_if_changed:
  assumes "disk_healthy env" "snapshot_current env cx" "\<not> changed \<Longrightarrow> g = cx_registry cx"
  shows "snapshot_current env (if changed then persist_registry env k (cx\<lparr>cx_registry := g\<rparr>) else cx\<lparr>cx_registry := g\<rparr>)"
  using assms persist_current [OF assms(1), of "cx\<lparr>cx_registry := g\<rparr>" k] by (auto simp: snapshot_current_def)

lemma reconcile_current:
  assumes "disk_healthy env" "snapshot_current env cx"
  shows "snapshot_current env (reconcile_stale_sessions env k cx)"
proof -
  obtain g c where gc: "mark_stale_active_detached (cx_registry cx) (ce_now env 0) stale_active_after = (g, c)"
    by (cases "mark_stale_active_detached (cx_registry cx) (ce_now env 0) stale_active_after")
  then have "\<not> 0 < c \<Longrightarrow> g = cx_registry cx" using mark_stale_none [of "cx_registry cx" "ce_now env 0" stale_active_after] by simp
  from save_if_changed [OF assms this] show ?thesis by (simp add: reconcile_stale_sessions_def gc Let_def)
qed

definition reaps :: "control_env \<Rightarrow> control_ctx \<Rightarrow> ipc_request \<Rightarrow> bool" where
  "reaps env cx req \<longleftrightarrow> (\<exists>i info. req = StopSession i \<and>
     find (\<lambda>s. si_id s = i) (list_sessions (cx_registry cx)) = Some info \<and>
     1 < sint (si_pid info) \<and> pid_looks_like_aic_session env (si_pid info) \<and> ce_kill env (sint (si_pid info)) = KillErr esrch)"

lemma stop_session_current:
  assumes "disk_healthy env" "snapshot_current env cx" "\<not> reaps env cx (StopSession i)"
  shows "snapshot_current env (fst (stop_session env cx i))"
proof -
  have "cx_has_path cx" using assms(2) by (simp add: snapshot_current_def)
  then show ?thesis using assms persist_current [OF assms(1)]
    by (auto simp: stop_session_def Let_def reaps_def split: option.splits kill_result.splits)
qed

lemma find_in_registry:
  assumes "reg_inv g"
  shows "find (\<lambda>s. si_id s = i) (list_sessions g) = hm_get g i"
proof (cases "hm_get g i")
  case None
  then have "\<forall>s\<in>set (list_sessions g). si_id s \<noteq> i" using in_list_sessions [OF assms] by auto
  then show ?thesis by (simp add: None find_None_iff)
next
  case (Some info)
  then have "si_id info = i" using assms unfolding reg_inv_get by blast
  then have m: "info \<in> set (list_sessions g)" using in_list_sessions [OF assms] Some by simp
  then obtain s where s: "find (\<lambda>s. si_id s = i) (list_sessions g) = Some s"
    using \<open>si_id info = i\<close> by (cases "find (\<lambda>s. si_id s = i) (list_sessions g)") (auto simp: find_None_iff)
  then have "s \<in> set (list_sessions g)" "si_id s = i" by (auto simp: find_Some_iff)
  then show ?thesis using in_list_sessions [OF assms, of s] s by simp
qed

lemma prune_request:
  assumes "process_control_request env cx (PruneSessions n) = Val (cx', resp)"
  obtains d g c where
    "prune_inactive_older_than (cx_registry (reconcile_stale_sessions env 0 cx)) (ce_now env 1) d = (g, c)"
    "cx' = (if 0 < c then persist_registry env 1 ((reconcile_stale_sessions env 0 cx)\<lparr>cx_registry := g\<rparr>)
            else (reconcile_stale_sessions env 0 cx)\<lparr>cx_registry := g\<rparr>)" "resp = PrunedSessions c"
proof -
  obtain d where d: "ce_seconds env (int (min n (2 ^ 63 - 1))) = Val d"
    using assms by (cases "ce_seconds env (int (min n (2 ^ 63 - 1)))") (simp_all add: Let_def)
  obtain g c where "prune_inactive_older_than (cx_registry (reconcile_stale_sessions env 0 cx)) (ce_now env 1) d = (g, c)"
    by (cases "prune_inactive_older_than (cx_registry (reconcile_stale_sessions env 0 cx)) (ce_now env 1) d")
  with that [OF this] assms d show ?thesis by (simp add: Let_def)
qed

text \<open>An environment for the examples: a healthy disk and no process behind any pid.\<close>

definition sample_env :: "(session_info list \<Rightarrow> bytes option) \<Rightarrow> control_env" where
  "sample_env enc = \<lparr>ce_now = (\<lambda>_. 0), ce_rnd = 1, ce_debug = True,
     ce_save = (\<lambda>_. \<lparr>mkdir_ok = True, write_ok = Inr (), rename_ok = True\<rparr>), ce_enc = enc,
     ce_seconds = (\<lambda>x. if x \<le> 9223372036854775 then Val (x * 10 ^ 9) else Panic),
     ce_kill = (\<lambda>_. KillErr esrch), ce_exe_path = (\<lambda>_. None),
     ce_version = \<lparr>dv_version = ''1.0.0'', dv_commit = [], dv_build_info = []\<rparr>,
     ce_self_update = \<lparr>su_configured = False, su_live = False, su_interval_secs = 0, su_last_check_secs_ago = None,
       su_desired_version = None, su_last_outcome = None, su_current_version = []\<rparr>,
     ce_exporter = None, ce_flush = None, ce_instant = 0, ce_pid = 1,
     ce_globals = \<lparr>daemon_started_at = None, ipc_request_counter = 0\<rparr>\<rparr>"

definition sample_ctx :: "registry \<Rightarrow> bytes option \<Rightarrow> control_ctx" where
  "sample_ctx g file = \<lparr>cx_shutdown = False, cx_registry = g, cx_store = store_new, cx_has_path = True,
     cx_fs = \<lparr>fs_tmp = None, fs_file = file\<rparr>, cx_metrics = aicd_metrics_new, cx_agent_bus = [],
     cx_logs = None, cx_inventory = None\<rparr>"

lemma sample_inv: "reg_inv g \<Longrightarrow> control_inv (sample_ctx g file)"
  by (simp add: control_inv_def sample_ctx_def store_new_inv)

lemma sample_disk: "(\<And>xs. enc xs \<noteq> None) \<Longrightarrow> disk_healthy (sample_env enc)"
  by (simp add: disk_healthy_def sample_env_def)

section \<open>Properties\<close>

text \<open>
  Further property (invariant). Every request keeps the tables well-formed: registry keys match the
  sessions' ids and are distinct, every record ring has at most 64 records with ids, the ring
  of process changes at most 1024.
\<close>

theorem control_request_inv:
  assumes "control_inv cx" "process_control_request env cx req = Val (cx', resp)"
  shows "control_inv cx'"
proof (cases req)
  case (RegisterRecordForSession sid r)
  with assms show ?thesis
    by (cases "cr_capture_mode r") (auto simp: push_pty_def push_explicit_def control_inv_parts store_push_inv)
next
  case (StopSession i)
  then have "cx' = fst (stop_session env cx i)" using assms(2) by simp
  then show ?thesis using stop_session_inv [OF assms(1)] by simp
next
  case (PruneSessions n)
  then obtain d g c where p: "prune_inactive_older_than (cx_registry (reconcile_stale_sessions env 0 cx)) (ce_now env 1) d = (g, c)"
    "cx' = (if 0 < c then persist_registry env 1 ((reconcile_stale_sessions env 0 cx)\<lparr>cx_registry := g\<rparr>)
            else (reconcile_stale_sessions env 0 cx)\<lparr>cx_registry := g\<rparr>)"
    using assms(2) prune_request by metis
  have inv: "control_inv (reconcile_stale_sessions env 0 cx)" using reconcile_inv [OF assms(1)] .
  then have "reg_inv g" using p(1) reg_inv_prune [OF control_inv_parts(1) [OF inv], of "ce_now env 1" d] by simp
  then show ?thesis using inv p(2) by simp
next
  case (HeartbeatSession i t cwd)
  with assms reg_inv_heartbeat [OF control_inv_parts(1), of cx i t cwd] show ?thesis
    by (auto simp: Let_def case_prod_beta)
next
  case (TagSession i l)
  with assms reg_inv_set_label [OF control_inv_parts(1), of cx i l] show ?thesis
    by (auto simp: Let_def case_prod_beta split: if_splits)
next
  case (CommandFinished sid cid code t d)
  with assms reg_inv_touch_seen [OF control_inv_parts(1), of cx sid t] show ?thesis
    by (auto simp: Let_def on_finished_inv control_inv_parts case_prod_beta split: if_splits)
qed (use assms in \<open>auto simp: Let_def reconcile_inv control_inv_parts on_started_inv\<close>)

theorem control_request_inv_witness:
  "\<exists>cx'. process_control_request (sample_env (\<lambda>_. Some [])) (sample_ctx [] None) (RegisterSession (plain_session ''a'' Attached 0)) =
     Val (cx', Pong) \<and> control_inv cx'"
proof -
  have i: "control_inv (sample_ctx [] None)" by (rule sample_inv) (simp add: reg_inv_def)
  obtain cx' where c: "process_control_request (sample_env (\<lambda>_. Some [])) (sample_ctx [] None)
      (RegisterSession (plain_session ''a'' Attached 0)) = Val (cx', Pong)" by simp
  from control_request_inv [OF i c] c show ?thesis by blast
qed

text \<open>
  Further property (invariant). With a working disk, the snapshot file is the current registry after every
  request, given that it was before; the one exception is a stop request that finds the
  process gone.
\<close>

theorem control_snapshot_current:
  assumes "disk_healthy env" "snapshot_current env cx" "\<not> reaps env cx req"
    and "process_control_request env cx req = Val (cx', resp)"
  shows "snapshot_current env cx'"
proof -
  have path: "cx_has_path cx" using assms(2) by (simp add: snapshot_current_def)
  note p = persist_current [OF assms(1)] and same = snapshot_current_same [OF assms(2)]
  show ?thesis
  proof (cases req)
    case (StopSession i)
    then have "cx' = fst (stop_session env cx i)" using assms(4) by simp
    then show ?thesis using stop_session_current [OF assms(1,2)] assms(3) StopSession by simp
  next
    case (PruneSessions n)
    let ?cx = "reconcile_stale_sessions env 0 cx"
    obtain d g c where d: "prune_inactive_older_than (cx_registry ?cx) (ce_now env 1) d = (g, c)"
      "cx' = (if 0 < c then persist_registry env 1 (?cx\<lparr>cx_registry := g\<rparr>) else ?cx\<lparr>cx_registry := g\<rparr>)"
      using PruneSessions assms(4) prune_request by metis
    then have "\<not> 0 < c \<Longrightarrow> g = cx_registry ?cx" using prune_none [of "cx_registry ?cx" "ce_now env 1" d] by simp
    from save_if_changed [OF assms(1) reconcile_current [OF assms(1,2)] this] show ?thesis using d(2) by simp
  next
    case (HeartbeatSession i t cwd)
    have "\<not> snd (heartbeat (cx_registry cx) i t cwd) \<Longrightarrow> fst (heartbeat (cx_registry cx) i t cwd) = cx_registry cx"
      unfolding heartbeat_def by (rule hm_modify_absent) simp
    from save_if_changed [OF assms(1,2) this, of "snd (heartbeat (cx_registry cx) i t cwd)" 0] HeartbeatSession assms(4)
    show ?thesis by (auto simp: Let_def case_prod_beta)
  next
    case (TagSession i l)
    have "\<not> snd (set_label (cx_registry cx) i l) \<Longrightarrow> fst (set_label (cx_registry cx) i l) = cx_registry cx"
      unfolding set_label_def by (rule hm_modify_absent) simp
    from save_if_changed [OF assms(1,2) this, of "snd (set_label (cx_registry cx) i l)" 0] TagSession assms(4)
    show ?thesis by (auto simp: Let_def case_prod_beta split: if_splits)
  next
    case (CommandFinished sid cid code t d)
    have "\<not> snd (touch_seen (cx_registry cx) sid t) \<Longrightarrow> fst (touch_seen (cx_registry cx) sid t) = cx_registry cx"
      unfolding touch_seen_def by (rule hm_modify_absent) simp
    from save_if_changed [OF assms(1,2) this, of "snd (touch_seen (cx_registry cx) sid t)" 0] CommandFinished assms(4)
    show ?thesis by (auto simp: Let_def snapshot_current_def case_prod_beta split: if_splits)
  next
    case (CommandStarted sid cid command cwd shell pid t)
    with assms(4) path p [of "cx\<lparr>cx_registry := upsert_hook_session (cx_registry cx) sid pid shell cwd t\<rparr>" 0]
    show ?thesis by (auto simp: Let_def snapshot_current_def)
  next
    case (RegisterRecordForSession sid r)
    with assms(4) show ?thesis by (auto intro!: same split: capture_mode.splits)
  next
    case ListSessions
    with assms(4) show ?thesis using reconcile_current [OF assms(1,2)] by (auto simp: Let_def)
  qed (use assms(2,4) path p in \<open>auto intro: same\<close>)
qed

theorem control_snapshot_current_witness:
  "\<exists>cx'. process_control_request (sample_env (\<lambda>xs. Some (dec (length xs)))) (sample_ctx [] (Some (dec 0)))
     (RegisterSession (plain_session ''a'' Attached 0)) = Val (cx', Pong) \<and>
     snapshot_current (sample_env (\<lambda>xs. Some (dec (length xs)))) cx'"
proof -
  let ?env = "sample_env (\<lambda>xs. Some (dec (length xs)))" and ?cx = "sample_ctx [] (Some (dec 0))"
  let ?req = "RegisterSession (plain_session ''a'' Attached 0)"
  have d: "disk_healthy ?env" by (rule sample_disk) simp
  have s: "snapshot_current ?env ?cx"
    by (simp add: snapshot_current_def sample_env_def sample_ctx_def list_sessions_def del: dec.simps)
  have r: "\<not> reaps ?env ?cx ?req" by (simp add: reaps_def)
  obtain cx' where c: "process_control_request ?env ?cx ?req = Val (cx', Pong)" by simp
  from control_snapshot_current [OF d s r c] c show ?thesis by blast
qed

text \<open>
  Further property (error). Stopping a session whose process is gone removes it from memory but not from the
  snapshot: a supervisor that restarts within 24 hours of its last sign of life has it again.
\<close>

theorem stopped_session_returns:
  assumes "control_inv cx" "snapshot_current env cx" "hm_get (cx_registry cx) i = Some info"
    and "1 < sint (si_pid info)" "pid_looks_like_aic_session env (si_pid info)"
    and "ce_kill env (sint (si_pid info)) = KillErr esrch"
    and json: "\<And>xs b. ce_enc env xs = Some b \<Longrightarrow> dec_json b = Some xs \<and> utf8_valid b"
    and "now - last_seen info \<le> snapshot_max_age"
  shows "\<exists>cx' g. process_control_request env cx (StopSession i) = Val (cx', Pong) \<and>
    hm_get (cx_registry cx') i = None \<and> load_snapshot dec_json True (cx_fs cx') now = Inr g \<and> hm_get g i \<noteq> None"
proof -
  have inv: "reg_inv (cx_registry cx)" using assms(1) by (rule control_inv_parts)
  have stop: "stop_session env cx i = (cx\<lparr>cx_registry := fst (unregister (cx_registry cx) i)\<rparr>, Pong)"
    using assms(3-6) by (simp add: stop_session_def find_in_registry [OF inv])
  obtain b where b: "ce_enc env (list_sessions (cx_registry cx)) = Some b" "fs_file (cx_fs cx) = Some b"
    using assms(2) by (auto simp: snapshot_current_def)
  then have load: "load_snapshot dec_json True (cx_fs cx) now = Inr (from_sessions (map recover
      (filter (\<lambda>info. now - last_seen info \<le> snapshot_max_age) (list_sessions (cx_registry cx)))))"
    using json by (simp add: load_snapshot_def)
  moreover have "hm_get (from_sessions (map recover
      (filter (\<lambda>info. now - last_seen info \<le> snapshot_max_age) (list_sessions (cx_registry cx))))) i \<noteq> None"
    using load_saved_get [OF inv distinct_list_sessions [OF inv] refl] assms(3,8) by simp
  ultimately show ?thesis using stop by simp
qed

theorem stopped_session_returns_witness:
  "\<exists>cx' g. process_control_request (sample_env (\<lambda>xs. if xs = [plain_session ''a'' Attached 0] then Some ''[1]'' else None))
       (sample_ctx [(''a'', plain_session ''a'' Attached 0)] (Some ''[1]'')) (StopSession ''a'') = Val (cx', Pong) \<and>
     hm_get (cx_registry cx') ''a'' = None \<and>
     load_snapshot (\<lambda>b. if b = ''[1]'' then Some [plain_session ''a'' Attached 0] else None) True (cx_fs cx') 5 = Inr g \<and>
     hm_get g ''a'' \<noteq> None"
proof -
  let ?s = "plain_session ''a'' Attached 0"
  let ?e = "\<lambda>xs. if xs = [?s] then Some ''[1]'' else None"
  let ?cx = "sample_ctx [(''a'', ?s)] (Some ''[1]'')"
  have i: "control_inv ?cx" by (rule sample_inv) (simp add: reg_inv_def hm_ok_def)
  have c: "snapshot_current (sample_env ?e) ?cx"
    by (simp add: snapshot_current_def sample_env_def sample_ctx_def list_sessions_def)
  have g: "hm_get (cx_registry ?cx) ''a'' = Some ?s" by (simp add: sample_ctx_def)
  have pid: "1 < sint (si_pid ?s)" by (simp add: plain_session_def)
  have l: "pid_looks_like_aic_session (sample_env ?e) (si_pid ?s)"
    by (simp add: pid_looks_like_aic_session_def sample_env_def)
  have k: "ce_kill (sample_env ?e) (sint (si_pid ?s)) = KillErr esrch" by (simp add: sample_env_def)
  have j: "ce_enc (sample_env ?e) xs = Some b \<Longrightarrow>
      (if b = ''[1]'' then Some [?s] else None) = Some xs \<and> utf8_valid b" for xs b
    by (auto simp: sample_env_def split: if_splits intro!: utf8_valid_ascii)
  show ?thesis
    using stopped_session_returns [OF i c g pid l k j, of 5] by (simp add: snapshot_max_age_def)
qed

text \<open>
  Further property (error). Which requests unwind the handler: a prune request of more than \<open>i64::MAX / 1000\<close>
  seconds, although it is clamped to \<open>i64::MAX\<close> first, and a request for so many lines that
  reserving room for them overflows. No other request does, in debug builds neither. The
  duration type is assumed to refuse what its documentation says it refuses.
\<close>

theorem control_request_panics_iff:
  assumes "\<And>x. ce_seconds env x = (if x \<le> 9223372036854775 then Val (x * 10 ^ 9) else Panic)"
  shows "process_control_request env cx req = Panic \<longleftrightarrow>
    (\<exists>n. req = PruneSessions n \<and> 9223372036854775 < n) \<or>
    (\<exists>i n. req = GetRecentLinesForSession i n \<and> 2 ^ 63 \<le> 24 * n)"
proof (cases req)
  case (RegisterRecordForSession sid r)
  then show ?thesis by (cases "cr_capture_mode r") (auto simp: push_pty_def push_explicit_def)
next
  case (PruneSessions n)
  then show ?thesis using assms [of "int (min n (2 ^ 63 - 1))"]
    by (auto simp: Let_def min_def split: prod.splits)
next
  case (GetRecentLinesForSession i n)
  then show ?thesis by (auto simp: tail_flatten_output_lines_def with_capacity_def)
qed (auto simp: Let_def split: prod.splits if_splits)

theorem control_request_panics_iff_witness:
  "process_control_request (sample_env (\<lambda>_. Some [])) (sample_ctx [] None) (PruneSessions (2 ^ 64 - 1)) = Panic"
  using control_request_panics_iff [of "sample_env (\<lambda>_. Some [])" "sample_ctx [] None" "PruneSessions (2 ^ 64 - 1)"]
  by (simp add: sample_env_def del: process_control_request.simps)

text \<open>
  Further property (functional). A request for the last lines of a session is answered, when it does not
  unwind, with the last of all output lines in the session's ring, oldest first, and changes
  nothing.
\<close>

theorem recent_lines_for_session:
  assumes "control_inv cx" "24 * n < 2 ^ 63"
  shows "process_control_request env cx (GetRecentLinesForSession i n) =
    Val (cx, Lines (last_n n (concat (map cr_output_lines (ring_of (cx_store cx) i)))))"
proof -
  have "length (ring_of (cx_store cx) i) \<le> 64"
    using assms(1) by (simp add: control_inv_def store_inv_def per_session_capacity_def)
  then have "store_recent (cx_store cx) i (2 ^ 64 - 1) = ring_of (cx_store cx) i"
    by (simp add: store_recent_def ring_of_def split: option.splits)
  then show ?thesis
    using assms(2) by (simp add: tail_flatten_output_lines_def with_capacity_def collect_tail_last_n)
qed

theorem recent_lines_for_session_witness:
  "process_control_request (sample_env (\<lambda>_. Some [])) (sample_ctx [] None) (GetRecentLinesForSession ''a'' 10) =
     Val (sample_ctx [] None, Lines [])"
  using recent_lines_for_session [of "sample_ctx [] None" 10 "sample_env (\<lambda>_. Some [])" "''a''"]
    sample_inv [of "[]" None]
  by (simp add: reg_inv_def sample_ctx_def last_n_def del: process_control_request.simps)

text \<open>
  Further property (functional). A client that sends a frame of at most 16 MiB gets back one frame: the
  response of the handler, or the unknown-request error with nothing changed. A larger length
  prefix is refused before the payload is read, with nothing changed.
\<close>

theorem control_exchange:
  assumes "length p < 2 ^ 32"
  shows "handle_client rd re env fin cx (encode_frame p @ rest) =
    (if 16777216 < length p then Val (cx, Inl (PayloadTooLarge (length p)))
     else rs_bind (case rd p of None \<Rightarrow> Val (cx, ErrorResponse UnknownRequest)
                   | Some req \<Rightarrow> process_control_request env cx req)
       (\<lambda>(cx', resp). Val (cx', case re resp of None \<Rightarrow> Inl SerializeFailed
                                 | Some json \<Rightarrow> Inr (encode_frame json))))"
  using assms ctl.exchange [of p rd re env fin cx rest] ctl.too_large [of p rd re env fin cx rest]
  by (simp add: answer_def max_frame_payload_bytes_def option.case_distrib split: option.splits)

theorem control_exchange_witness:
  "handle_client (\<lambda>_. Some Ping) (\<lambda>_. Some ''ok'') (sample_env (\<lambda>_. None)) UnexpectedEof (sample_ctx [] None)
     (encode_frame ''{}'' @ []) = Val (sample_ctx [] None, Inr (encode_frame ''ok''))"
  using control_exchange [of "''{}''" "\<lambda>_. Some Ping" "\<lambda>_. Some ''ok''" "sample_env (\<lambda>_. None)" UnexpectedEof
      "sample_ctx [] None" "[]"] by simp

end
