(* ===== verification/Uds_Server.thy ===== *)
theory Uds_Server
  imports Framed_Service Ring_Buffer
begin

text \<open>
  The request socket of a session daemon (\<open>aic-server/src/uds_server.rs\<close>): the operating mode,
  the request handler over the session's ring buffer, and the connection handler. Whether the
  build has the \<open>phase-3_5\<close> feature is a field of the environment, as are the clocks, the process
  id, the version and the random number a pushed record may need.
\<close>

section \<open>Mode\<close>

datatype uds_server_mode = FullLocal | PingOnly

fun mode_byte :: "uds_server_mode \<Rightarrow> u8" where
  "mode_byte FullLocal = CHR 0x00"
| "mode_byte PingOnly = CHR 0x01"

definition mode_from_u8 :: "u8 \<Rightarrow> uds_server_mode" where
  "mode_from_u8 v = (if v = CHR 0x01 then PingOnly else FullLocal)"

record uds_server =
  us_mode :: u8
  us_buffer :: ring_buffer
  us_attach_metrics :: "attach_metrics option"
  us_globals :: daemon_globals

definition uds_bind_inner :: "ring_buffer \<Rightarrow> daemon_globals \<Rightarrow> attach_metrics option \<Rightarrow> uds_server" where
  "uds_bind_inner buf g am = \<lparr>us_mode = mode_byte FullLocal, us_buffer = buf, us_attach_metrics = am, us_globals = g\<rparr>"

definition current_mode :: "uds_server \<Rightarrow> uds_server_mode" where
  "current_mode s = mode_from_u8 (us_mode s)"

definition set_mode :: "uds_server \<Rightarrow> uds_server_mode \<Rightarrow> uds_server" where
  "set_mode s m = s\<lparr>us_mode := mode_byte m\<rparr>"

section \<open>Requests\<close>

record uds_env =
  ue_phase_3_5 :: bool
  ue_instant :: instant
  ue_utc :: datetime
  ue_pid :: u32
  ue_version :: daemon_version
  ue_rnd :: u64

definition central_store_routing_error :: ipc_response where
  "central_store_routing_error = ErrorResponse CentralStoreRouting"

definition phase_3_5_removed_error :: ipc_response where
  "phase_3_5_removed_error = ErrorResponse Phase35Removed"

text \<open>\<open>num_seconds\<close> of a duration in nanoseconds rounds towards zero.\<close>

definition num_seconds :: "duration \<Rightarrow> int" where
  "num_seconds d = (if d < 0 then - ((- d) div 10 ^ 9) else d div 10 ^ 9)"

definition last_command_secs_ago :: "datetime \<Rightarrow> ring_buffer \<Rightarrow> nat option" where
  "last_command_secs_ago now buf = map_option (\<lambda>r. nat (max 0 (num_seconds (now - cr_timestamp r)))) (rb_last buf)"

definition session_snapshot :: "uds_env \<Rightarrow> uds_server \<Rightarrow> metrics_snapshot" where
  "session_snapshot env s =
     (let snap = \<lparr>ms_uptime_secs = uptime_secs (ue_instant env) (us_globals s), ms_pid = ue_pid env,
                  ms_ipc_request_count = ipc_request_count (us_globals s),
                  ms_rb_used = rb_total_lines (us_buffer s), ms_rb_capacity = rb_capacity (us_buffer s),
                  ms_last_command_secs_ago = last_command_secs_ago (ue_utc env) (us_buffer s),
                  ms_central_store_push_total = 0, ms_attach_connections = 0, ms_attach_open_total = 0,
                  ms_dropped_bytes = 0, ms_attach_reconnect_total = 0\<rparr>
      in case us_attach_metrics s of Some m \<Rightarrow> fill_snapshot m snap | None \<Rightarrow> snap)"

text \<open>What the four queries of the local records do before they look at the buffer.\<close>

definition local_query :: "uds_env \<Rightarrow> uds_server_mode \<Rightarrow> uds_server \<Rightarrow> ipc_response rs \<Rightarrow> (uds_server \<times> ipc_response) rs" where
  "local_query env mode s result =
     (if ue_phase_3_5 env then Val (s, phase_3_5_removed_error)
      else if mode = PingOnly then Val (s, central_store_routing_error)
      else rs_bind result (\<lambda>resp. Val (s, resp)))"

definition process_request ::
  "uds_env \<Rightarrow> uds_server_mode \<Rightarrow> uds_server \<Rightarrow> ipc_request \<Rightarrow> (uds_server \<times> ipc_response) rs" where
  "process_request env mode s0 request =
     (let s = s0\<lparr>us_globals := record_ipc_request (us_globals s0)\<rparr>; buf = us_buffer s in
      case request of
        GetLastCommand \<Rightarrow>
          local_query env mode s
            (Val (case rb_last buf of Some r \<Rightarrow> CommandData r | None \<Rightarrow> ErrorResponse NoCommandYet))
      | GetRecentLines n \<Rightarrow> local_query env mode s (rs_bind (rb_recent_lines buf n) (\<lambda>ls. Val (Lines ls)))
      | GetRecentCommands n \<Rightarrow> local_query env mode s (Val (CommandRecords (rb_recent_records buf n)))
      | FindRecordByPrefix p \<Rightarrow> local_query env mode s (Val (CommandRecords (rb_find_by_prefix buf p)))
      | RegisterRecord r \<Rightarrow> Val (s\<lparr>us_buffer := rb_push (ue_rnd env) buf r\<rparr>, Pong)
      | Ping \<Rightarrow> Val (s, Pong)
      | GetVersion \<Rightarrow> Val (s, Version (ue_version env))
      | GetMetrics \<Rightarrow> Val (s, MetricsData (session_snapshot env s))
      | _ \<Rightarrow> Val (s, ErrorResponse (NotASessionRequest request)))"

text \<open>The mode is read once, after the payload; \<open>req_dec\<close> and \<open>resp_enc\<close> are \<open>serde_json\<close>.\<close>

definition uds_handle_client ::
  "request_decoder \<Rightarrow> response_encoder \<Rightarrow> uds_env \<Rightarrow> io_kind \<Rightarrow> uds_server \<Rightarrow> bytes \<Rightarrow>
     (uds_server \<times> (service_io_error + bytes)) rs" where
  "uds_handle_client req_dec resp_enc env fin s input =
     (case read_u32 fin input of
        Inl e \<Rightarrow> Val (s, Inl (RequestReadFailed e))
      | Inr (payload_len, r) \<Rightarrow>
        if max_frame_payload_bytes < payload_len then Val (s, Inl (PayloadTooLarge payload_len))
        else (case read_exact fin payload_len r of
          Inl e \<Rightarrow> Val (s, Inl (RequestReadFailed e))
        | Inr (payload, rest) \<Rightarrow>
          (let mode = current_mode s in
           rs_bind (case req_dec payload of
              Some req \<Rightarrow> process_request env mode s req
            | None \<Rightarrow> Val (s, ErrorResponse UnknownRequest))
             (\<lambda>(s', resp). Val (s',
                case resp_enc resp of None \<Rightarrow> Inl SerializeFailed | Some json \<Rightarrow> Inr (encode_frame json))))))"

section \<open>Lemmas\<close>

lemma mode_round_trip [simp]: "mode_from_u8 (mode_byte m) = m"
  by (cases m) (simp_all add: mode_from_u8_def)

lemma current_set_mode [simp]: "current_mode (set_mode s m) = m"
  by (simp add: current_mode_def set_mode_def del: mode_byte.simps)

lemma set_mode_keeps [simp]: "us_buffer (set_mode s m) = us_buffer s"
  by (simp add: set_mode_def)

lemma uds_exchange_frame:
  "length p < 2 ^ 32 \<Longrightarrow> uds_handle_client rd re env fin s (encode_frame p @ rest) =
    (if max_frame_payload_bytes < length p then Val (s, Inl (PayloadTooLarge (length p)))
     else rs_bind (answer (\<lambda>s. process_request env (current_mode s) s) rd s p)
       (\<lambda>(s', resp). Val (s', case re resp of None \<Rightarrow> Inl SerializeFailed | Some j \<Rightarrow> Inr (encode_frame j))))"
  by (simp add: uds_handle_client_def encode_frame_def answer_def Let_def)

interpretation uds: framed_service "\<lambda>rd re fin. uds_handle_client rd re env fin"
    "\<lambda>s. process_request env (current_mode s) s" for env
proof unfold_locales
  fix p rd re fin s rest and k :: nat
  show "length p \<le> max_frame_payload_bytes \<Longrightarrow> uds_handle_client rd re env fin s (encode_frame p @ rest) =
      rs_bind (answer (\<lambda>s. process_request env (current_mode s) s) rd s p)
        (\<lambda>(s', resp). Val (s', case re resp of None \<Rightarrow> Inl SerializeFailed | Some j \<Rightarrow> Inr (encode_frame j)))"
    using uds_exchange_frame [of p rd re env fin s rest] by (simp add: max_frame_payload_bytes_def)
  show "max_frame_payload_bytes < length p \<Longrightarrow> length p < 2 ^ 32 \<Longrightarrow>
      uds_handle_client rd re env fin s (encode_frame p @ rest) = Val (s, Inl (PayloadTooLarge (length p)))"
    by (simp add: uds_exchange_frame)
  show "length p < 2 ^ 32 \<Longrightarrow> length p \<le> max_frame_payload_bytes \<Longrightarrow> k < length (encode_frame p) \<Longrightarrow>
      uds_handle_client rd re env fin s (take k (encode_frame p)) = Val (s, Inl (RequestReadFailed fin))"
    using truncated_reads [of p k fin] by (auto simp: uds_handle_client_def)
qed

lemma process_request_buffer:
  "process_request env mode s req = Val (s', resp) \<Longrightarrow>
     us_buffer s' = (case req of RegisterRecord r \<Rightarrow> rb_push (ue_rnd env) (us_buffer s) r | _ \<Rightarrow> us_buffer s) \<and>
     us_mode s' = us_mode s \<and> us_attach_metrics s' = us_attach_metrics s \<and>
     us_globals s' = record_ipc_request (us_globals s)"
  by (cases req) (auto simp: process_request_def local_query_def Let_def rs_bind_Val_iff split: if_splits)

lemma uds_request_inv [inv_intros]:
  "rb_inv (us_buffer s) \<Longrightarrow> process_request env mode s req = Val (s', resp) \<Longrightarrow> rb_inv (us_buffer s')"
  by (drule process_request_buffer) (auto split: ipc_request.splits intro: rb_push_inv)

section \<open>Properties\<close>

fun carries_records :: "ipc_response \<Rightarrow> bool" where
  "carries_records (CommandData r) = True"
| "carries_records (CommandRecords rs) = True"
| "carries_records (Lines ls) = True"
| "carries_records _ = False"

text \<open>
  Further property (safety). While the supervisor holds the records (mode \<open>PingOnly\<close>, or any mode of a
  \<open>phase-3_5\<close> build) no request makes a session daemon panic or hand out a record or an output
  line of its own buffer. It still takes records in, counts every request, and keeps its buffer
  well formed.
\<close>

theorem ping_only_withholds:
  assumes "ue_phase_3_5 env \<or> mode = PingOnly" and "rb_inv (us_buffer s)"
  shows "\<exists>s' resp. process_request env mode s req = Val (s', resp) \<and> \<not> carries_records resp \<and>
    rb_inv (us_buffer s') \<and> us_buffer s' = (case req of RegisterRecord r \<Rightarrow> rb_push (ue_rnd env) (us_buffer s) r | _ \<Rightarrow> us_buffer s) \<and>
    ipc_request_count (us_globals s') = ipc_request_count (us_globals s) + 1"
proof -
  have "\<exists>s' resp. process_request env mode s req = Val (s', resp) \<and> \<not> carries_records resp"
    using assms(1) by (cases req) (auto simp: process_request_def local_query_def Let_def
        phase_3_5_removed_error_def central_store_routing_error_def)
  then obtain s' resp where r: "process_request env mode s req = Val (s', resp)" "\<not> carries_records resp" by blast
  from uds_request_inv [OF assms(2) r(1)] process_request_buffer [OF r(1)] r show ?thesis
    by (auto simp: ipc_request_count_def record_ipc_request_def)
qed

definition sample_uds_env :: uds_env where
  "sample_uds_env = \<lparr>ue_phase_3_5 = False, ue_instant = 0, ue_utc = 0, ue_pid = 7,
     ue_version = \<lparr>dv_version = ''1'', dv_commit = [], dv_build_info = []\<rparr>, ue_rnd = 0\<rparr>"

definition sample_uds :: "nat \<Rightarrow> uds_server" where
  "sample_uds n = uds_bind_inner (rb_new n) \<lparr>daemon_started_at = None, ipc_request_counter = 0\<rparr> None"

lemma sample_uds_inv: "rb_inv (us_buffer (sample_uds n))"
  by (simp add: sample_uds_def uds_bind_inner_def rb_new_inv)

theorem ping_only_withholds_witness:
  "\<exists>s' resp. process_request sample_uds_env PingOnly (sample_uds 5) GetLastCommand = Val (s', resp) \<and>
     \<not> carries_records resp \<and> rb_inv (us_buffer s') \<and> us_buffer s' = rb_new 5 \<and>
     ipc_request_count (us_globals s') = ipc_request_count (us_globals (sample_uds 5)) + 1"
  using ping_only_withholds [of sample_uds_env PingOnly "sample_uds 5" GetLastCommand] sample_uds_inv
  by (simp add: sample_uds_def uds_bind_inner_def)

text \<open>
  Further property (functional). A record registered with a session daemon is what the next query for the
  last command returns once the daemon serves locally, whatever the mode was when it was
  registered and whatever the capacity: also the buffer of capacity 0 that stands in for the
  local records in central mode stores it.
\<close>

theorem registered_record_served:
  assumes "rb_inv (us_buffer s)" and "\<not> ue_phase_3_5 env'"
  shows "\<exists>s1 s2. process_request env mode s (RegisterRecord r) = Val (s1, Pong) \<and>
    process_request env' (current_mode (set_mode s1 FullLocal)) (set_mode s1 FullLocal) GetLastCommand =
      Val (s2, CommandData (assign_id (ue_rnd env) r))"
  using assms by (simp add: process_request_def local_query_def Let_def rb_last_push)

theorem registered_record_served_witness:
  "\<exists>s1 s2. process_request sample_uds_env PingOnly (sample_uds 0) (RegisterRecord (default_record\<lparr>cr_id := ''r''\<rparr>)) =
       Val (s1, Pong) \<and>
    process_request sample_uds_env (current_mode (set_mode s1 FullLocal)) (set_mode s1 FullLocal) GetLastCommand =
      Val (s2, CommandData (default_record\<lparr>cr_id := ''r''\<rparr>))"
  using registered_record_served [OF sample_uds_inv, of sample_uds_env sample_uds_env PingOnly 0 "default_record\<lparr>cr_id := ''r''\<rparr>"]
  by (simp add: sample_uds_env_def assign_id_def)

text \<open>
  Further property (error). The request that makes a session daemon's task unwind: lines of its own buffer,
  served locally, in a number whose reservation exceeds the address space.
\<close>

theorem uds_request_panics_iff:
  "process_request env mode s req = Panic \<longleftrightarrow>
     (\<exists>n. req = GetRecentLines n \<and> 2 ^ 59 \<le> n \<and> mode = FullLocal \<and> \<not> ue_phase_3_5 env)"
  by (cases req; cases mode)
    (auto simp: process_request_def local_query_def Let_def rb_recent_lines_last_n not_less)

end
