(* ===== verification/Byte_Channel.thy ===== *)
theory Byte_Channel
  imports Rust_Prelude
begin

text \<open>
  The byte-quota channel between the terminal reader and the attach writer
  (\<open>aic-common/src/bounded_byte_channel.rs\<close>). \<open>try_send\<close> and \<open>try_recv\<close> are the calls of one
  producer and one consumer that do not overlap with others. The relation \<open>chan_step\<close> cuts
  both calls at their atomic operations and lets any number of producers and the consumer
  interleave. Byte counts of data in memory are \<open>nat\<close>; the drop counter wraps at 64 bits.
\<close>

section \<open>State and operations\<close>

datatype send_outcome = Sent | Dropped

datatype try_recv_error = RecvEmpty | RecvDisconnected

record byte_chan =
  bc_cap :: nat
  bc_queued :: nat
  bc_queue :: "bytes list"
  bc_rx_gone :: bool
  bc_tx_gone :: bool
  bc_dropped :: u64

definition chan_new_with_dropped_counter :: "nat \<Rightarrow> u64 \<Rightarrow> byte_chan" where
  "chan_new_with_dropped_counter cap dropped =
     \<lparr>bc_cap = cap, bc_queued = 0, bc_queue = [], bc_rx_gone = False, bc_tx_gone = False, bc_dropped = dropped\<rparr>"

definition chan_new :: "nat \<Rightarrow> byte_chan" where
  "chan_new cap = chan_new_with_dropped_counter cap 0"

definition count_drop :: "nat \<Rightarrow> byte_chan \<Rightarrow> byte_chan" where
  "count_drop len ch = ch\<lparr>bc_dropped := bc_dropped ch + of_nat len\<rparr>"

definition chan_try_send :: "byte_chan \<Rightarrow> bytes \<Rightarrow> byte_chan \<times> send_outcome" where
  "chan_try_send ch bs =
     (let len = length bs in
      if bc_cap ch < bc_queued ch + len then (count_drop len ch, Dropped)
      else (let ch1 = ch\<lparr>bc_queued := bc_queued ch + len\<rparr> in
            if \<not> bc_rx_gone ch1 then (ch1\<lparr>bc_queue := bc_queue ch1 @ [bs]\<rparr>, Sent)
            else (count_drop len (ch1\<lparr>bc_queued := bc_queued ch1 - len\<rparr>), Dropped)))"

definition on_consumed :: "nat \<Rightarrow> byte_chan \<Rightarrow> byte_chan" where
  "on_consumed len ch = ch\<lparr>bc_queued := bc_queued ch - len\<rparr>"

definition chan_try_recv :: "byte_chan \<Rightarrow> byte_chan \<times> (try_recv_error + bytes)" where
  "chan_try_recv ch =
     (case bc_queue ch of
        b # q \<Rightarrow> (on_consumed (length b) (ch\<lparr>bc_queue := q\<rparr>), Inr b)
      | [] \<Rightarrow> (ch, Inl (if bc_tx_gone ch then RecvDisconnected else RecvEmpty)))"

text \<open>
  \<open>recv\<close> returns \<open>Some (Some b)\<close> with a chunk, \<open>Some None\<close> when every sender is gone, and \<open>None\<close>
  here when it would wait.
\<close>

definition chan_recv :: "byte_chan \<Rightarrow> byte_chan \<times> bytes option option" where
  "chan_recv ch =
     (case bc_queue ch of
        b # q \<Rightarrow> (on_consumed (length b) (ch\<lparr>bc_queue := q\<rparr>), Some (Some b))
      | [] \<Rightarrow> (ch, if bc_tx_gone ch then Some None else None))"

definition chan_is_closed :: "byte_chan \<Rightarrow> bool" where
  "chan_is_closed ch = bc_rx_gone ch"

section \<open>Calls that do not overlap\<close>

definition chan_inv :: "byte_chan \<Rightarrow> bool" where
  "chan_inv ch \<longleftrightarrow> bc_queued ch = length (concat (bc_queue ch)) \<and> bc_queued ch \<le> bc_cap ch"

lemma chan_new_inv [inv_intros]: "chan_inv (chan_new cap)"
  by (simp add: chan_inv_def chan_new_def chan_new_with_dropped_counter_def)

lemma try_send_inv [inv_intros]: "chan_inv ch \<Longrightarrow> chan_inv (fst (chan_try_send ch bs))"
  by (auto simp: chan_inv_def chan_try_send_def count_drop_def Let_def)

lemma try_recv_inv [inv_intros]: "chan_inv ch \<Longrightarrow> chan_inv (fst (chan_try_recv ch))"
  by (auto simp: chan_inv_def chan_try_recv_def on_consumed_def split: list.splits)

datatype chan_op = SendOp bytes | RecvOp

text \<open>One call: the channel after it, the chunk taken in, the chunk handed out, the bytes dropped.\<close>

fun chan_call :: "byte_chan \<Rightarrow> chan_op \<Rightarrow> byte_chan \<times> bytes list \<times> bytes list \<times> nat" where
  "chan_call ch (SendOp b) =
     (case chan_try_send ch b of (ch', Sent) \<Rightarrow> (ch', [b], [], 0) | (ch', Dropped) \<Rightarrow> (ch', [], [], length b))"
| "chan_call ch RecvOp =
     (case chan_try_recv ch of (ch', Inr b) \<Rightarrow> (ch', [], [b], 0) | (ch', Inl _) \<Rightarrow> (ch', [], [], 0))"

fun chan_run :: "byte_chan \<Rightarrow> chan_op list \<Rightarrow> byte_chan \<times> bytes list \<times> bytes list \<times> nat" where
  "chan_run ch [] = (ch, [], [], 0)"
| "chan_run ch (op # ops) =
     (let (ch1, i1, o1, d1) = chan_call ch op; (ch2, i2, o2, d2) = chan_run ch1 ops
      in (ch2, i1 @ i2, o1 @ o2, d1 + d2))"

lemma count_drop_simps [simp]:
  "bc_queue (count_drop n ch) = bc_queue ch" "bc_queued (count_drop n ch) = bc_queued ch"
  "bc_cap (count_drop n ch) = bc_cap ch" "bc_dropped (count_drop n ch) = bc_dropped ch + of_nat n"
  by (simp_all add: count_drop_def)

lemma try_send_sent:
  "bc_queued ch + length bs \<le> bc_cap ch \<Longrightarrow> \<not> bc_rx_gone ch \<Longrightarrow>
     chan_try_send ch bs = (ch\<lparr>bc_queued := bc_queued ch + length bs, bc_queue := bc_queue ch @ [bs]\<rparr>, Sent)"
  by (simp add: chan_try_send_def)

lemma try_send_dropped:
  "bc_cap ch < bc_queued ch + length bs \<or> bc_rx_gone ch \<Longrightarrow>
     chan_try_send ch bs = (count_drop (length bs) ch, Dropped)"
  by (auto simp: chan_try_send_def Let_def count_drop_def)

lemma chan_call_fifo:
  assumes "chan_call ch op = (ch', i, out, d)"
  shows "bc_queue ch @ i = out @ bc_queue ch' \<and> bc_dropped ch' = bc_dropped ch + of_nat d"
proof (cases op)
  case (SendOp b)
  show ?thesis
  proof (cases "bc_queued ch + length b \<le> bc_cap ch \<and> \<not> bc_rx_gone ch")
    case True
    with SendOp assms show ?thesis by (auto simp: try_send_sent)
  next
    case False
    with SendOp assms show ?thesis by (auto simp: try_send_dropped not_le)
  qed
next
  case RecvOp
  with assms show ?thesis
    by (cases "bc_queue ch") (auto simp: chan_try_recv_def on_consumed_def)
qed

lemma chan_call_inv:
  assumes "chan_inv ch" "chan_call ch op = (ch', i, out, d)"
  shows "chan_inv ch' \<and> bc_cap ch' = bc_cap ch"
proof (cases op)
  case (SendOp b)
  then have "ch' = fst (chan_try_send ch b)"
    using assms(2) by (auto split: prod.splits send_outcome.splits)
  then show ?thesis using try_send_inv [OF assms(1)] by (simp add: chan_try_send_def Let_def)
next
  case RecvOp
  then have "ch' = fst (chan_try_recv ch)" using assms(2) by (auto split: prod.splits sum.splits)
  then show ?thesis using try_recv_inv [OF assms(1)]
    by (auto simp: chan_try_recv_def on_consumed_def split: list.splits)
qed

lemma chan_run_fifo:
  "chan_run ch ops = (ch', i, out, d) \<Longrightarrow>
     bc_queue ch @ i = out @ bc_queue ch' \<and> bc_dropped ch' = bc_dropped ch + of_nat d"
proof (induction ops arbitrary: ch i out d)
  case (Cons op ops)
  obtain ch1 i1 o1 d1 where c: "chan_call ch op = (ch1, i1, o1, d1)" by (cases "chan_call ch op")
  obtain i2 o2 d2 where r: "chan_run ch1 ops = (ch', i2, o2, d2)" and e: "i = i1 @ i2" "out = o1 @ o2" "d = d1 + d2"
    using Cons.prems c by (auto split: prod.splits)
  have "bc_queue ch @ i1 @ i2 = o1 @ bc_queue ch1 @ i2" using chan_call_fifo [OF c] by (metis append.assoc)
  then show ?case using Cons.IH [OF r] chan_call_fifo [OF c] e by (simp add: add.assoc)
qed simp

lemma chan_run_inv:
  "chan_inv ch \<Longrightarrow> chan_run ch ops = (ch', i, out, d) \<Longrightarrow> chan_inv ch' \<and> bc_cap ch' = bc_cap ch"
proof (induction ops arbitrary: ch i out d)
  case (Cons op ops)
  obtain ch1 i1 o1 d1 where c: "chan_call ch op = (ch1, i1, o1, d1)" by (cases "chan_call ch op")
  then obtain i2 o2 d2 where r: "chan_run ch1 ops = (ch', i2, o2, d2)"
    using Cons.prems by (auto split: prod.splits)
  show ?case using Cons.IH [OF _ r] chan_call_inv [OF Cons.prems(1) c] by simp
qed simp

text \<open>Bytes are neither lost nor made up: every offered byte is handed out, still queued, or counted as dropped.\<close>

lemma chan_run_bytes:
  "chan_run ch ops = (ch', i, out, d) \<Longrightarrow>
     length (concat i) + d = sum_list (map (\<lambda>op. case op of SendOp b \<Rightarrow> length b | RecvOp \<Rightarrow> 0) ops)"
proof (induction ops arbitrary: ch i out d)
  case (Cons op ops)
  obtain ch1 i1 o1 d1 where c: "chan_call ch op = (ch1, i1, o1, d1)" by (cases "chan_call ch op")
  then obtain i2 o2 d2 where r: "chan_run ch1 ops = (ch', i2, o2, d2)" and e: "i = i1 @ i2" "d = d1 + d2"
    using Cons.prems by (auto split: prod.splits)
  have "length (concat i1) + d1 = (case op of SendOp b \<Rightarrow> length b | RecvOp \<Rightarrow> 0)"
    using c by (cases op) (auto split: prod.splits send_outcome.splits sum.splits)
  then show ?case using Cons.IH [OF r] e by simp
qed simp

section \<open>Interleaved calls\<close>

text \<open>
  Where a producer stands inside \<open>try_send\<close>: outside, after a passed check, after the counter
  was raised, after the transport refused the chunk, before the drop is counted. The consumer
  has taken a chunk whose bytes are still counted, or not.
\<close>

datatype producer = PIdle | PChecked bytes | PAdded bytes | PFailed bytes | PRejected bytes

record chan_sys =
  sy_chan :: byte_chan
  sy_producers :: "producer list"
  sy_taken :: "bytes option"

inductive chan_step :: "nat \<Rightarrow> chan_sys \<Rightarrow> chan_sys \<Rightarrow> bool" for maxlen where
  check_ok: "i < length (sy_producers s) \<Longrightarrow> sy_producers s ! i = PIdle \<Longrightarrow> length b \<le> maxlen \<Longrightarrow>
    bc_queued (sy_chan s) + length b \<le> bc_cap (sy_chan s) \<Longrightarrow>
    chan_step maxlen s (s\<lparr>sy_producers := (sy_producers s)[i := PChecked b]\<rparr>)"
| check_full: "i < length (sy_producers s) \<Longrightarrow> sy_producers s ! i = PIdle \<Longrightarrow> length b \<le> maxlen \<Longrightarrow>
    bc_cap (sy_chan s) < bc_queued (sy_chan s) + length b \<Longrightarrow>
    chan_step maxlen s (s\<lparr>sy_producers := (sy_producers s)[i := PRejected b]\<rparr>)"
| add: "i < length (sy_producers s) \<Longrightarrow> sy_producers s ! i = PChecked b \<Longrightarrow>
    chan_step maxlen s (s\<lparr>sy_chan := (sy_chan s)\<lparr>bc_queued := bc_queued (sy_chan s) + length b\<rparr>,
      sy_producers := (sy_producers s)[i := PAdded b]\<rparr>)"
| send: "i < length (sy_producers s) \<Longrightarrow> sy_producers s ! i = PAdded b \<Longrightarrow> \<not> bc_rx_gone (sy_chan s) \<Longrightarrow>
    chan_step maxlen s (s\<lparr>sy_chan := (sy_chan s)\<lparr>bc_queue := bc_queue (sy_chan s) @ [b]\<rparr>,
      sy_producers := (sy_producers s)[i := PIdle]\<rparr>)"
| send_fails: "i < length (sy_producers s) \<Longrightarrow> sy_producers s ! i = PAdded b \<Longrightarrow> bc_rx_gone (sy_chan s) \<Longrightarrow>
    chan_step maxlen s (s\<lparr>sy_producers := (sy_producers s)[i := PFailed b]\<rparr>)"
| undo: "i < length (sy_producers s) \<Longrightarrow> sy_producers s ! i = PFailed b \<Longrightarrow>
    chan_step maxlen s (s\<lparr>sy_chan := (sy_chan s)\<lparr>bc_queued := bc_queued (sy_chan s) - length b\<rparr>,
      sy_producers := (sy_producers s)[i := PRejected b]\<rparr>)"
| drop_counted: "i < length (sy_producers s) \<Longrightarrow> sy_producers s ! i = PRejected b \<Longrightarrow>
    chan_step maxlen s (s\<lparr>sy_chan := count_drop (length b) (sy_chan s),
      sy_producers := (sy_producers s)[i := PIdle]\<rparr>)"
| take_chunk: "sy_taken s = None \<Longrightarrow> bc_queue (sy_chan s) = b # q \<Longrightarrow> \<not> bc_rx_gone (sy_chan s) \<Longrightarrow>
    chan_step maxlen s (s\<lparr>sy_chan := (sy_chan s)\<lparr>bc_queue := q\<rparr>, sy_taken := Some b\<rparr>)"
| consume: "sy_taken s = Some b \<Longrightarrow>
    chan_step maxlen s (s\<lparr>sy_chan := on_consumed (length b) (sy_chan s), sy_taken := None\<rparr>)"
| receiver_dropped: "sy_taken s = None \<Longrightarrow>
    chan_step maxlen s (s\<lparr>sy_chan := (sy_chan s)\<lparr>bc_rx_gone := True\<rparr>\<rparr>)"

definition chan_reachable :: "nat \<Rightarrow> chan_sys \<Rightarrow> chan_sys \<Rightarrow> bool" where
  "chan_reachable maxlen = (chan_step maxlen)\<^sup>*\<^sup>*"

definition chan_start :: "nat \<Rightarrow> nat \<Rightarrow> chan_sys" where
  "chan_start cap n = \<lparr>sy_chan = chan_new cap, sy_producers = replicate n PIdle, sy_taken = None\<rparr>"

fun held :: "producer \<Rightarrow> nat" where
  "held (PAdded b) = length b"
| "held (PFailed b) = length b"
| "held _ = 0"

fun passed :: "producer \<Rightarrow> nat" where
  "passed (PChecked b) = length b"
| "passed _ = 0"

fun chunk_bound :: "nat \<Rightarrow> producer \<Rightarrow> bool" where
  "chunk_bound m (PChecked b) = (length b \<le> m)"
| "chunk_bound m _ = True"

text \<open>
  The counter is the bytes queued, those a producer is about to queue or to take back, and
  those the consumer has taken; together with the chunks that passed the check it exceeds the
  capacity by at most one chunk for every producer but one.
\<close>

definition sys_chan_inv :: "nat \<Rightarrow> nat \<Rightarrow> chan_sys \<Rightarrow> bool" where
  "sys_chan_inv m n s \<longleftrightarrow> length (sy_producers s) = n \<and>
     bc_queued (sy_chan s) = length (concat (bc_queue (sy_chan s))) + sum_list (map held (sy_producers s)) +
       (case sy_taken s of None \<Rightarrow> 0 | Some b \<Rightarrow> length b) \<and>
     bc_queued (sy_chan s) + sum_list (map passed (sy_producers s)) \<le> bc_cap (sy_chan s) + (n - 1) * m \<and>
     list_all (chunk_bound m) (sy_producers s)"

lemma sum_update:
  fixes f :: "'a \<Rightarrow> nat"
  shows "i < length ps \<Longrightarrow> sum_list (map f (ps[i := x])) + f (ps ! i) = sum_list (map f ps) + f x"
proof (induction ps arbitrary: i)
  case (Cons p ps)
  then show ?case by (cases i) auto
qed simp

lemma sum_bound:
  fixes f :: "'a \<Rightarrow> nat"
  shows "list_all (\<lambda>p. f p \<le> m) ps \<Longrightarrow> i < length ps \<Longrightarrow> sum_list (map f ps) \<le> f (ps ! i) + (length ps - 1) * m"
proof (induction ps arbitrary: i)
  case (Cons p ps)
  have le: "list_all (\<lambda>p. f p \<le> m) ps \<Longrightarrow> sum_list (map f ps) \<le> length ps * m" for ps
    by (induction ps) auto
  show ?case
  proof (cases i)
    case 0
    then show ?thesis using le [of ps] Cons.prems by simp
  next
    case (Suc j)
    then show ?thesis using Cons.IH [of j] Cons.prems by (cases ps) auto
  qed
qed simp

lemma list_all_update: "list_all P ps \<Longrightarrow> P x \<Longrightarrow> list_all P (ps[i := x])"
  by (metis list_all_iff set_update_subset_insert insertE subsetD)

lemma chunk_bound_passed: "chunk_bound m p \<longleftrightarrow> passed p \<le> m"
  by (cases p) auto

lemma chan_step_inv:
  assumes "chan_step m s s'" "sys_chan_inv m n s"
  shows "sys_chan_inv m n s'"
  using assms
proof cases
  case (check_ok i b)
  let ?ps = "sy_producers s"
  have "list_all (chunk_bound m) (?ps[i := PChecked b])"
    using assms(2) check_ok by (intro list_all_update) (simp_all add: sys_chan_inv_def)
  moreover have "sum_list (map passed (?ps[i := PChecked b])) \<le> length b + (n - 1) * m"
    using sum_bound [of passed m "?ps[i := PChecked b]" i] calculation check_ok assms(2)
    by (simp add: sys_chan_inv_def chunk_bound_passed list_all_iff)
  ultimately show ?thesis using check_ok assms(2) sum_update [of i ?ps held "PChecked b"]
    by (simp add: sys_chan_inv_def)
next
  case (check_full i b)
  then show ?thesis
    using assms(2) sum_update [of i "sy_producers s" held "PRejected b"]
      sum_update [of i "sy_producers s" passed "PRejected b"]
    by (simp add: sys_chan_inv_def list_all_update)
next
  case (add i b)
  then show ?thesis
    using assms(2) sum_update [of i "sy_producers s" held "PAdded b"]
      sum_update [of i "sy_producers s" passed "PAdded b"]
    by (simp add: sys_chan_inv_def list_all_update)
next
  case (send i b)
  then show ?thesis
    using assms(2) sum_update [of i "sy_producers s" held PIdle]
      sum_update [of i "sy_producers s" passed PIdle]
    by (simp add: sys_chan_inv_def list_all_update)
next
  case (send_fails i b)
  then show ?thesis
    using assms(2) sum_update [of i "sy_producers s" held "PFailed b"]
      sum_update [of i "sy_producers s" passed "PFailed b"]
    by (simp add: sys_chan_inv_def list_all_update)
next
  case (undo i b)
  then show ?thesis
    using assms(2) sum_update [of i "sy_producers s" held "PRejected b"]
      sum_update [of i "sy_producers s" passed "PRejected b"]
    by (simp add: sys_chan_inv_def list_all_update) linarith
next
  case (drop_counted i b)
  then show ?thesis
    using assms(2) sum_update [of i "sy_producers s" held PIdle]
      sum_update [of i "sy_producers s" passed PIdle]
    by (simp add: sys_chan_inv_def list_all_update)
qed (use assms(2) in \<open>auto simp: sys_chan_inv_def on_consumed_def\<close>)

lemma chan_reachable_inv:
  "chan_reachable m s s' \<Longrightarrow> sys_chan_inv m n s \<Longrightarrow> sys_chan_inv m n s' \<and> bc_cap (sy_chan s') = bc_cap (sy_chan s)"
  unfolding chan_reachable_def
proof (induction rule: rtranclp_induct)
  case (step y z)
  have "bc_cap (sy_chan z) = bc_cap (sy_chan y)" using step.hyps(2) by cases (simp_all add: on_consumed_def)
  with step chan_step_inv show ?case by auto
qed simp

lemma chan_start_inv: "sys_chan_inv m n (chan_start cap n)"
  by (simp add: sys_chan_inv_def chan_start_def chan_new_def chan_new_with_dropped_counter_def list_all_iff
      sum_list_replicate)

section \<open>Properties\<close>

text \<open>
  Further property (invariant). For any number of producers and a consumer interleaved in any way, with
  chunks of at most \<open>m\<close> bytes: the counter never reads less than the bytes in the queue, and it
  exceeds the capacity by at most \<open>(n - 1) * m\<close>. With one producer, the way the channel is used,
  the capacity is never exceeded.
\<close>

theorem channel_quota:
  assumes "chan_reachable m (chan_start cap n) s"
  shows "length (concat (bc_queue (sy_chan s))) \<le> bc_queued (sy_chan s) \<and>
    bc_queued (sy_chan s) \<le> cap + (n - 1) * m"
proof -
  have "bc_cap (sy_chan (chan_start cap n)) = cap"
    by (simp add: chan_start_def chan_new_def chan_new_with_dropped_counter_def)
  then show ?thesis using chan_reachable_inv [OF assms chan_start_inv] by (simp add: sys_chan_inv_def)
qed

theorem channel_quota_witness:
  "bc_queued (sy_chan ((chan_start 4 1)\<lparr>sy_producers := [PChecked ''ab'']\<rparr>)) \<le> 4 + (1 - 1) * 2"
proof -
  have "chan_step 2 (chan_start 4 1) ((chan_start 4 1)\<lparr>sy_producers := (sy_producers (chan_start 4 1))[0 := PChecked ''ab'']\<rparr>)"
    by (rule chan_step.check_ok) (simp_all add: chan_start_def chan_new_def chan_new_with_dropped_counter_def)
  then have "chan_reachable 2 (chan_start 4 1) ((chan_start 4 1)\<lparr>sy_producers := [PChecked ''ab'']\<rparr>)"
    by (simp add: chan_reachable_def chan_start_def)
  from channel_quota [OF this] show ?thesis by blast
qed

text \<open>
  Further property (functional). In any sequence of calls that do not overlap, on a new channel: chunks come
  out in the order they were accepted, none is lost or repeated; every byte offered is in an
  accepted chunk or in the drop count; the drop counter is that count modulo 2 to the 64; the
  bytes queued are those of the counter and within the capacity.
\<close>

theorem channel_fifo:
  assumes "chan_run (chan_new cap) ops = (ch, accepted, delivered, dropped)"
  shows "accepted = delivered @ bc_queue ch \<and>
    length (concat accepted) + dropped = sum_list (map (\<lambda>op. case op of SendOp b \<Rightarrow> length b | RecvOp \<Rightarrow> 0) ops) \<and>
    bc_dropped ch = of_nat dropped \<and> bc_queued ch = length (concat (bc_queue ch)) \<and> bc_queued ch \<le> cap"
  using chan_run_fifo [OF assms] chan_run_bytes [OF assms] chan_run_inv [OF chan_new_inv assms]
  by (simp add: chan_inv_def) (simp add: chan_new_def chan_new_with_dropped_counter_def)

theorem channel_fifo_witness:
  "\<exists>ch. chan_run (chan_new 3) [SendOp ''ab'', SendOp ''cd'', RecvOp] = (ch, [''ab''], [''ab''], 2) \<and> bc_dropped ch = 2"
proof -
  obtain ch i out d where r: "chan_run (chan_new 3) [SendOp ''ab'', SendOp ''cd'', RecvOp] = (ch, i, out, d)"
    by (cases "chan_run (chan_new 3) [SendOp ''ab'', SendOp ''cd'', RecvOp]")
  then have "i = [''ab'']" "out = [''ab'']" "d = 2"
    by (auto simp: chan_new_def chan_new_with_dropped_counter_def chan_try_send_def chan_try_recv_def Let_def
        count_drop_def on_consumed_def)
  with r channel_fifo [OF r] show ?thesis by auto
qed

text \<open>
  Further property (error). A channel of capacity zero does not drop everything: an empty chunk is accepted
  and queued.
\<close>

theorem zero_capacity_accepts_empty:
  "snd (chan_try_send (chan_new 0) []) = Sent \<and> (bs \<noteq> [] \<longrightarrow> snd (chan_try_send (chan_new 0) bs) = Dropped)"
  by (simp add: chan_try_send_def chan_new_def chan_new_with_dropped_counter_def)

end
