(* ===== verification/Ownership_Gate.thy ===== *)
theory Ownership_Gate
  imports Metrics
begin

text \<open>
  Which path records a command, the session's own or the supervisor's
  (\<open>aic-server/src/boundary_ownership_gate.rs\<close>), and the loop that reconnects with exponential
  backoff. The gate is one atomic byte, so an operation is a function on it. A \<open>Duration\<close> is a
  number of nanoseconds. The loop's closures are arguments: \<open>cancel k\<close> and \<open>connect k\<close> are the
  answers in round \<open>k\<close>, and the sleeps are collected.
\<close>

section \<open>Gate\<close>

datatype boundary_owner = Local | Central | Transferring

fun owner_byte :: "boundary_owner \<Rightarrow> u8" where
  "owner_byte Local = CHR 0x00"
| "owner_byte Central = CHR 0x01"
| "owner_byte Transferring = CHR 0x02"

definition owner_from_u8 :: "u8 \<Rightarrow> boundary_owner" where
  "owner_from_u8 v = (if v = CHR 0x01 then Central else if v = CHR 0x02 then Transferring else Local)"

record gate =
  g_owner :: u8

definition gate_new :: "boundary_owner \<Rightarrow> gate" where
  "gate_new initial = \<lparr>g_owner = owner_byte initial\<rparr>"

definition gate_new_local :: gate where
  "gate_new_local = gate_new Local"

definition gate_new_central :: gate where
  "gate_new_central = gate_new Central"

definition gate_owner :: "gate \<Rightarrow> boundary_owner" where
  "gate_owner g = owner_from_u8 (g_owner g)"

definition local_should_emit :: "gate \<Rightarrow> bool" where
  "local_should_emit g \<longleftrightarrow> gate_owner g = Local \<or> gate_owner g = Transferring"

definition central_should_emit :: "gate \<Rightarrow> bool" where
  "central_should_emit g \<longleftrightarrow> gate_owner g = Central \<or> gate_owner g = Transferring"

definition mark_transferring :: "gate \<Rightarrow> gate" where
  "mark_transferring g = g\<lparr>g_owner := owner_byte Transferring\<rparr>"

definition transfer_to_central :: "gate \<Rightarrow> gate" where
  "transfer_to_central g = g\<lparr>g_owner := owner_byte Central\<rparr>"

definition transfer_to_local :: "gate \<Rightarrow> gate" where
  "transfer_to_local g = g\<lparr>g_owner := owner_byte Local\<rparr>"

section \<open>Backoff\<close>

definition secs :: "nat \<Rightarrow> nat" where
  "secs n = n * 10 ^ 9"

definition duration_max :: nat where
  "duration_max = (2 ^ 64 - 1) * 10 ^ 9 + 999999999"

definition initial_backoff :: nat where
  "initial_backoff = secs 1"

definition max_backoff :: nat where
  "max_backoff = secs 30"

definition next_backoff :: "nat \<Rightarrow> nat" where
  "next_backoff prev =
     (if prev < initial_backoff then initial_backoff
      else (let doubled = min (prev * 2) duration_max in
            if max_backoff < doubled then max_backoff else doubled))"

section \<open>Reconnect loop\<close>

datatype reconnect_outcome = Connected nat | Cancelled

text \<open>\<open>attempts\<close> is a \<open>u32\<close> that saturates.\<close>

definition sat_succ32 :: "nat \<Rightarrow> nat" where
  "sat_succ32 n = min (n + 1) u32_max"

partial_function (option) reconnect_loop ::
  "(nat \<Rightarrow> bool) \<Rightarrow> (nat \<Rightarrow> bool) \<Rightarrow> nat \<Rightarrow> gate \<Rightarrow> attach_metrics \<Rightarrow> nat \<Rightarrow> nat \<Rightarrow> nat list \<Rightarrow>
     (reconnect_outcome \<times> gate \<times> attach_metrics \<times> nat list) option" where
  "reconnect_loop connect cancel k g m backoff attempts slept =
     (if cancel k then Some (Cancelled, g, m, slept)
      else if connect k then Some (Connected (sat_succ32 attempts), transfer_to_central g, m, slept)
      else reconnect_loop connect cancel (Suc k) g (inc_attach_reconnect m) (next_backoff backoff)
             (sat_succ32 attempts) (slept @ [backoff]))"

definition reconnect_with_backoff ::
  "gate \<Rightarrow> attach_metrics \<Rightarrow> (nat \<Rightarrow> bool) \<Rightarrow> (nat \<Rightarrow> bool) \<Rightarrow>
     (reconnect_outcome \<times> gate \<times> attach_metrics \<times> nat list) option" where
  "reconnect_with_backoff g m connect cancel = reconnect_loop connect cancel 0 g m initial_backoff 0 []"

section \<open>Lemmas\<close>

lemma owner_round_trip [simp]: "owner_from_u8 (owner_byte b) = b"
  by (cases b) (simp_all add: owner_from_u8_def)

lemma gate_transfers [simp]:
  "gate_owner (gate_new b) = b" "gate_owner (transfer_to_central g) = Central"
  "gate_owner (transfer_to_local g) = Local" "gate_owner (mark_transferring g) = Transferring"
  by (simp_all add: gate_owner_def gate_new_def transfer_to_central_def transfer_to_local_def mark_transferring_def
      del: owner_byte.simps)

text \<open>The backoff before round \<open>k + 1\<close>.\<close>

definition backoff_at :: "nat \<Rightarrow> nat" where
  "backoff_at k = min (2 ^ k * secs 1) (secs 30)"

lemma next_backoff_at: "next_backoff (backoff_at k) = backoff_at (Suc k)"
proof -
  have one: "secs 1 \<le> 2 ^ k * secs 1" by (simp add: secs_def)
  show ?thesis
  proof (cases "2 ^ k * secs 1 \<le> secs 30")
    case True
    then show ?thesis using one
      by (auto simp: next_backoff_def backoff_at_def initial_backoff_def max_backoff_def Let_def min_def
          secs_def duration_max_def)
  next
    case False
    then show ?thesis
      by (auto simp: next_backoff_def backoff_at_def initial_backoff_def max_backoff_def Let_def min_def
          secs_def duration_max_def)
  qed
qed

lemma backoff_at_0: "backoff_at 0 = initial_backoff"
  by (simp add: backoff_at_def initial_backoff_def secs_def)

lemma reconnects_n:
  "\<forall>j. k \<le> j \<and> j < k + n \<longrightarrow> \<not> cancel j \<and> \<not> connect j \<Longrightarrow>
     reconnect_loop connect cancel k g m (backoff_at k) (min k u32_max) slept =
     reconnect_loop connect cancel (k + n) g ((inc_attach_reconnect ^^ n) m) (backoff_at (k + n)) (min (k + n) u32_max)
       (slept @ map backoff_at [k..<k + n])"
proof (induction n arbitrary: k m slept)
  case (Suc n)
  have s: "sat_succ32 (min k u32_max) = min (Suc k) u32_max" by (simp add: sat_succ32_def min_def)
  have "\<not> cancel k \<and> \<not> connect k" using Suc.prems by auto
  then have "reconnect_loop connect cancel k g m (backoff_at k) (min k u32_max) slept =
      reconnect_loop connect cancel (Suc k) g (inc_attach_reconnect m) (backoff_at (Suc k)) (min (Suc k) u32_max)
        (slept @ [backoff_at k])"
    by (subst reconnect_loop.simps) (simp only: next_backoff_at s if_False)
  also have "\<dots> = reconnect_loop connect cancel (Suc k + n) g ((inc_attach_reconnect ^^ n) (inc_attach_reconnect m))
      (backoff_at (Suc k + n)) (min (Suc k + n) u32_max) ((slept @ [backoff_at k]) @ map backoff_at [Suc k..<Suc k + n])"
    using Suc.prems by (intro Suc.IH) auto
  also have "(slept @ [backoff_at k]) @ map backoff_at [Suc k..<Suc k + n] = slept @ map backoff_at [k..<k + Suc n]"
    by (simp add: upt_rec [of k])
  finally show ?case by (simp add: funpow_swap1)
qed simp

lemma inc_reconnect_n: "am_attach_reconnect_total ((inc_attach_reconnect ^^ n) m) = am_attach_reconnect_total m + of_nat n"
  by (induction n) (simp_all add: inc_attach_reconnect_def)

lemma reconnect_returns_only_if:
  "reconnect_loop connect cancel k g m b a s = Some r \<Longrightarrow> \<exists>j\<ge>k. cancel j \<or> connect j"
proof (erule reconnect_loop.raw_induct [where P = "\<lambda>connect cancel k g m b a s r. \<exists>j\<ge>k. cancel j \<or> connect j", rotated])
  fix loop connect cancel k g m b a s r
  assume IH: "\<And>connect cancel k g m b a s r. loop connect cancel k g m b a s = Some r \<Longrightarrow> \<exists>j\<ge>k. cancel j \<or> connect j"
    and ret: "(if cancel k then Some (Cancelled, g, m, s)
      else if connect k then Some (Connected (sat_succ32 a), transfer_to_central g, m, s)
      else loop connect cancel (Suc k) g (inc_attach_reconnect m) (next_backoff b) (sat_succ32 a) (s @ [b])) = Some r"
  show "\<exists>j\<ge>k. cancel j \<or> connect j"
  proof (cases "cancel k \<or> connect k")
    case False
    then have "loop connect cancel (Suc k) g (inc_attach_reconnect m) (next_backoff b) (sat_succ32 a) (s @ [b]) = Some r"
      using ret by simp
    from IH [OF this] show ?thesis using Suc_leD by blast
  qed blast
qed

section \<open>Properties\<close>

text \<open>
  Further property (safety). Unless a transfer is in progress, exactly one of the two paths records; during a
  transfer both do. A byte that is none of the three codes reads as the local path, so some path
  always records.
\<close>

theorem gate_exclusive:
  "(gate_owner g \<noteq> Transferring \<longrightarrow> local_should_emit g \<noteq> central_should_emit g) \<and>
   (gate_owner g = Transferring \<longrightarrow> local_should_emit g \<and> central_should_emit g) \<and>
   (local_should_emit g \<or> central_should_emit g) \<and>
   (g_owner g \<notin> {CHR 0x00, CHR 0x01, CHR 0x02} \<longrightarrow> gate_owner g = Local)"
  by (cases "gate_owner g")
    (auto simp: local_should_emit_def central_should_emit_def gate_owner_def owner_from_u8_def split: if_splits)

theorem gate_exclusive_witness:
  "local_should_emit (transfer_to_local gate_new_central) \<noteq> central_should_emit (transfer_to_local gate_new_central)"
  using gate_exclusive [of "transfer_to_local gate_new_central"] by simp

text \<open>
  C33 (liveness). The reconnect loop returns exactly when some round is cancelled or connects.
  When round \<open>n\<close> is the first such round and it is not cancelled, the loop reports the attempt,
  hands the gate to the supervisor, has counted one reconnect for every failed round, and has
  slept 1, 2, 4, 8, 16 and then always 30 seconds between rounds; a cancelled round leaves the
  gate alone.
\<close>

theorem reconnect_outcome_exact:
  "(reconnect_with_backoff g m connect cancel \<noteq> None \<longleftrightarrow> (\<exists>j. cancel j \<or> connect j)) \<and>
   ((\<forall>j<n. \<not> cancel j \<and> \<not> connect j) \<and> (cancel n \<or> connect n) \<longrightarrow>
      (\<exists>m' out. reconnect_with_backoff g m connect cancel =
         Some (out, (if cancel n then g else transfer_to_central g), m', map (\<lambda>j. min (2 ^ j * 10 ^ 9) (30 * 10 ^ 9)) [0..<n]) \<and>
       out = (if cancel n then Cancelled else Connected (min (n + 1) (2 ^ 32 - 1))) \<and>
       am_attach_reconnect_total m' = am_attach_reconnect_total m + of_nat n))"
proof (intro conjI impI iffI)
  assume "reconnect_with_backoff g m connect cancel \<noteq> None"
  then show "\<exists>j. cancel j \<or> connect j"
    using reconnect_returns_only_if by (fastforce simp: reconnect_with_backoff_def)
next
  have run: "reconnect_with_backoff g m connect cancel =
      (if cancel n then Some (Cancelled, g, (inc_attach_reconnect ^^ n) m, map backoff_at [0..<n])
       else Some (Connected (sat_succ32 (min n u32_max)), transfer_to_central g, (inc_attach_reconnect ^^ n) m, map backoff_at [0..<n]))"
    if "\<forall>j<n. \<not> cancel j \<and> \<not> connect j" "cancel n \<or> connect n" for n
    using reconnects_n [of 0 n cancel connect g m "[]"] that
    by (auto simp: reconnect_with_backoff_def backoff_at_0 reconnect_loop.simps [of _ _ n])
  {
    assume "\<exists>j. cancel j \<or> connect j"
    then obtain n where "cancel n \<or> connect n" "\<forall>j<n. \<not> (cancel j \<or> connect j)"
      using exists_least_iff [of "\<lambda>j. cancel j \<or> connect j"] by blast
    then show "reconnect_with_backoff g m connect cancel \<noteq> None" using run [of n] by auto
  }
  assume a: "(\<forall>j<n. \<not> cancel j \<and> \<not> connect j) \<and> (cancel n \<or> connect n)"
  have s: "sat_succ32 (min n u32_max) = min (n + 1) (2 ^ 32 - 1)" by (simp add: sat_succ32_def min_def)
  have b: "map backoff_at [0..<n] = map (\<lambda>j. min (2 ^ j * 10 ^ 9) (30 * 10 ^ 9)) [0..<n]"
    by (simp add: backoff_at_def secs_def)
  show "\<exists>m' out. reconnect_with_backoff g m connect cancel =
         Some (out, (if cancel n then g else transfer_to_central g), m', map (\<lambda>j. min (2 ^ j * 10 ^ 9) (30 * 10 ^ 9)) [0..<n]) \<and>
       out = (if cancel n then Cancelled else Connected (min (n + 1) (2 ^ 32 - 1))) \<and>
       am_attach_reconnect_total m' = am_attach_reconnect_total m + of_nat n"
    using run [of n] a inc_reconnect_n [of n m] s unfolding b by simp
qed

theorem reconnect_outcome_exact_witness:
  "\<exists>m'. reconnect_with_backoff gate_new_local attach_metrics_new (\<lambda>j. j = 2) (\<lambda>_. False) =
     Some (Connected 3, transfer_to_central gate_new_local, m', [10 ^ 9, 2 * 10 ^ 9]) \<and> am_attach_reconnect_total m' = 2"
  using reconnect_outcome_exact [of gate_new_local attach_metrics_new "\<lambda>j. j = 2" "\<lambda>_. False" 2]
  by (simp add: attach_metrics_new_def upt_rec)

end
