(* ===== verification/Rust_Try.thy ===== *)
theory Rust_Try
  imports Rust_Prelude
begin

text \<open>
  Code that returns a \<open>Result\<close> and may panic: the \<open>?\<close> operator, the slice operations with and
  without a bounds check, and a rule set for showing that such code never unwinds. \<open>safe m P\<close>
  says that \<open>m\<close> returns, and that a success satisfies \<open>P\<close>.
\<close>

section \<open>Results\<close>

type_synonym ('e, 'a) result = "('e + 'a) rs"

abbreviation ok :: "'a \<Rightarrow> ('e, 'a) result" where
  "ok x \<equiv> Val (Inr x)"

abbreviation err :: "'e \<Rightarrow> ('e, 'a) result" where
  "err e \<equiv> Val (Inl e)"

definition try_bind :: "('e, 'a) result \<Rightarrow> ('a \<Rightarrow> ('e, 'b) result) \<Rightarrow> ('e, 'b) result" where
  "try_bind m f = rs_bind m (\<lambda>r. case r of Inl e \<Rightarrow> err e | Inr x \<Rightarrow> f x)"

definition lift_rs :: "'a rs \<Rightarrow> ('e, 'a) result" where
  "lift_rs r = rs_bind r ok"

definition ok_or :: "'e \<Rightarrow> 'a option \<Rightarrow> ('e, 'a) result" where
  "ok_or e x = (case x of None \<Rightarrow> err e | Some y \<Rightarrow> ok y)"

text \<open>\<open>checked_add\<close> and \<open>checked_mul\<close> on \<open>usize\<close>.\<close>

definition checked_add_usize :: "nat \<Rightarrow> nat \<Rightarrow> nat option" where
  "checked_add_usize a b = (if a + b < 2 ^ 64 then Some (a + b) else None)"

definition checked_mul_usize :: "nat \<Rightarrow> nat \<Rightarrow> nat option" where
  "checked_mul_usize a b = (if a * b < 2 ^ 64 then Some (a * b) else None)"

section \<open>Slices\<close>

text \<open>\<open>xs.get(a..b)\<close>, \<open>xs[a..b]\<close> and \<open>xs[i]\<close>.\<close>

definition get_range :: "nat \<Rightarrow> nat \<Rightarrow> 'a list \<Rightarrow> 'a list option" where
  "get_range a b xs = (if a \<le> b \<and> b \<le> length xs then Some (take (b - a) (drop a xs)) else None)"

definition index_range :: "nat \<Rightarrow> nat \<Rightarrow> 'a list \<Rightarrow> 'a list rs" where
  "index_range a b xs = (if a \<le> b \<and> b \<le> length xs then Val (take (b - a) (drop a xs)) else Panic)"

definition index_at :: "nat \<Rightarrow> 'a list \<Rightarrow> 'a rs" where
  "index_at i xs = (if i < length xs then Val (xs ! i) else Panic)"

lemma length_index_range: "index_range a b xs = Val ys \<Longrightarrow> length ys = b - a"
  by (auto simp: index_range_def split: if_splits)

lemma length_get_range: "get_range a b xs = Some ys \<Longrightarrow> length ys = b - a"
  by (auto simp: get_range_def split: if_splits)

lemma index_range_mid: "length p = a \<Longrightarrow> b = a + length x \<Longrightarrow> index_range a b (p @ x @ s) = Val x"
  by (simp add: index_range_def)

lemma get_range_mid: "length p = a \<Longrightarrow> b = a + length x \<Longrightarrow> get_range a b (p @ x @ s) = Some x"
  by (simp add: get_range_def)

lemma index_range_ok_iff: "index_range a b xs = Val ys \<longleftrightarrow> a \<le> b \<and> b \<le> length xs \<and> ys = take (b - a) (drop a xs)"
  by (auto simp: index_range_def)

lemma index_at_ok_iff: "index_at i xs = Val y \<longleftrightarrow> i < length xs \<and> y = xs ! i"
  by (auto simp: index_at_def)

text \<open>A list cut at an index.\<close>

lemma drop_cut: "a \<le> b \<Longrightarrow> drop a xs = take (b - a) (drop a xs) @ drop b xs"
  by (metis append_take_drop_id drop_drop le_add_diff_inverse2)

text \<open>A range that ends within a prefix is the same range of the prefix.\<close>

lemma get_range_take: "b \<le> n \<Longrightarrow> n \<le> length xs \<Longrightarrow> get_range a b (take n xs) = get_range a b xs"
  by (simp add: get_range_def drop_take min_def)

lemma index_range_take: "b \<le> n \<Longrightarrow> n \<le> length xs \<Longrightarrow> index_range a b (take n xs) = index_range a b xs"
  by (simp add: index_range_def drop_take min_def)

lemma try_bind_simps [simp]:
  "try_bind Panic f = Panic" "try_bind (err e) f = err e" "try_bind (ok x) f = f x"
  by (simp_all add: try_bind_def)

lemma try_bind_assoc: "try_bind (try_bind m f) g = try_bind m (\<lambda>x. try_bind (f x) g)"
  by (cases m) (auto simp: try_bind_def split: sum.splits)

lemma ok_or_simps [simp]: "ok_or e None = err e" "ok_or e (Some x) = ok x"
  by (simp_all add: ok_or_def)

lemma lift_rs_simps [simp]: "lift_rs Panic = Panic" "lift_rs (Val x) = ok x"
  by (simp_all add: lift_rs_def)

lemma try_bind_ok_iff: "try_bind m f = ok y \<longleftrightarrow> (\<exists>x. m = ok x \<and> f x = ok y)"
  by (cases m) (auto simp: try_bind_def split: sum.splits)

lemma ok_or_ok_iff [simp]: "ok_or e x = ok y \<longleftrightarrow> x = Some y"
  by (cases x) auto

lemma lift_rs_ok_iff [simp]: "lift_rs r = ok y \<longleftrightarrow> r = Val y"
  by (cases r) auto

section \<open>Code that never unwinds\<close>

definition safe :: "('e, 'a) result \<Rightarrow> ('a \<Rightarrow> bool) \<Rightarrow> bool" where
  "safe m P \<longleftrightarrow> (case m of Panic \<Rightarrow> False | Val (Inl e) \<Rightarrow> True | Val (Inr x) \<Rightarrow> P x)"

named_theorems safe_intros \<open>rules for code that never unwinds\<close>

lemma safe_ok [simp]: "safe (ok x) P \<longleftrightarrow> P x"
  by (simp add: safe_def)

lemma safe_err [simp]: "safe (err e) P"
  by (simp add: safe_def)

lemma safe_bind [safe_intros]:
  "safe m P \<Longrightarrow> (\<And>x. m = ok x \<Longrightarrow> P x \<Longrightarrow> safe (f x) Q) \<Longrightarrow> safe (try_bind m f) Q"
  by (cases m) (auto simp: safe_def try_bind_def split: sum.splits)

lemma safe_if [safe_intros]:
  "(c \<Longrightarrow> safe a P) \<Longrightarrow> (\<not> c \<Longrightarrow> safe b P) \<Longrightarrow> safe (if c then a else b) P"
  by simp

lemma safe_ok_or: "safe (ok_or e x) (\<lambda>y. x = Some y)"
  by (cases x) auto

lemma safe_index_range: "a \<le> b \<Longrightarrow> b \<le> length xs \<Longrightarrow> safe (lift_rs (index_range a b xs)) (\<lambda>ys. length ys = b - a)"
  by (simp add: index_range_def)

lemma safe_index_at: "i < length xs \<Longrightarrow> safe (lift_rs (index_at i xs)) (\<lambda>y. y = xs ! i)"
  by (simp add: index_at_def)

lemma safe_weaken: "safe m P \<Longrightarrow> (\<And>x. P x \<Longrightarrow> Q x) \<Longrightarrow> safe m Q"
  by (auto simp: safe_def split: rs.splits sum.splits)

lemma safe_returns: "safe m P \<Longrightarrow> returns m"
  by (auto simp: safe_def split: rs.splits)

lemma safe_ok_D: "safe m P \<Longrightarrow> m = ok x \<Longrightarrow> P x"
  by simp

end
