(* ===== verification/Jvm_Perfdata.thy ===== *)
theory Jvm_Perfdata
  imports Rust_Str Rust_Try
begin

text \<open>
  The parser of HotSpot performance data files (\<open>aic-common/src/jvm_perfdata.rs\<close>, up to
  \<open>ranges_overlap\<close>). Every slice and index that would unwind the task out of range is modelled
  as such; the properties show that no input reaches one.
\<close>

section \<open>Constants and data\<close>

definition max_perfdata_bytes :: nat where
  "max_perfdata_bytes = 1024 * 1024"

definition max_entries :: nat where
  "max_entries = 4096"

definition max_name_bytes :: nat where
  "max_name_bytes = 256"

definition max_string_bytes :: nat where
  "max_string_bytes = 4096"

definition prologue_len :: nat where
  "prologue_len = 32"

definition entry_header_len :: nat where
  "entry_header_len = 20"

definition magic :: bytes where
  "magic = [CHR 0xCA, CHR 0xFE, CHR 0xC0, CHR 0xC0]"

datatype parse_error =
  InputTooLarge | InvalidMagic | UnsupportedFormat | Inaccessible | Overflow | Malformed
| LimitExceeded | MissingMetric | DuplicateMetric | InvalidMetric | InvariantViolation

record jvm_metrics =
  threads_started_total :: u64
  threads_live :: u64
  threads_peak :: u64
  threads_daemon :: u64
  classes_loaded :: u64
  classes_unloaded_total :: u64

datatype byte_order = Big | Little

record prologue =
  pd_byte_order :: u8
  pd_accessible :: u8
  pd_used :: nat
  pd_overflow :: int
  pd_modification_timestamp :: int
  pd_entry_offset :: nat
  pd_entry_count :: nat

section \<open>Integers\<close>

definition raw_int :: "byte_order \<Rightarrow> bytes \<Rightarrow> nat" where
  "raw_int order raw = (case order of Big \<Rightarrow> of_be raw | Little \<Rightarrow> of_le raw)"

definition order_i32 :: "byte_order \<Rightarrow> bytes \<Rightarrow> (parse_error, int) result" where
  "order_i32 order raw = (if length raw \<noteq> 4 then err Malformed else ok (signed_of 4 (raw_int order raw)))"

definition order_i64 :: "byte_order \<Rightarrow> bytes \<Rightarrow> (parse_error, int) result" where
  "order_i64 order raw = (if length raw \<noteq> 8 then err Malformed else ok (signed_of 8 (raw_int order raw)))"

definition nonnegative_usize :: "int \<Rightarrow> (parse_error, nat) result" where
  "nonnegative_usize v = (if v < 0 then err Malformed else ok (nat v))"

definition i32_at :: "byte_order \<Rightarrow> nat \<Rightarrow> nat \<Rightarrow> bytes \<Rightarrow> (parse_error, int) result" where
  "i32_at order a b xs = try_bind (lift_rs (index_range a b xs)) (order_i32 order)"

definition usize_at :: "byte_order \<Rightarrow> nat \<Rightarrow> nat \<Rightarrow> bytes \<Rightarrow> (parse_error, nat) result" where
  "usize_at order a b xs = try_bind (i32_at order a b xs) nonnegative_usize"

section \<open>Prologue\<close>

definition decode_order :: "u8 \<Rightarrow> byte_order option" where
  "decode_order b = (if b = CHR 0x00 then Some Big else if b = CHR 0x01 then Some Little else None)"

definition decode_prologue :: "bytes \<Rightarrow> (parse_error, prologue) result" where
  "decode_prologue input =
     try_bind (ok_or Malformed (get_range 0 prologue_len input)) (\<lambda>p.
     try_bind (lift_rs (index_range 0 4 p)) (\<lambda>m.
     if m \<noteq> magic then err InvalidMagic else
     try_bind (lift_rs (index_at 4 p)) (\<lambda>b4.
     try_bind (ok_or UnsupportedFormat (decode_order b4)) (\<lambda>order.
     try_bind (lift_rs (index_at 5 p)) (\<lambda>b5.
     try_bind (lift_rs (index_at 6 p)) (\<lambda>b6.
     if b5 \<noteq> CHR 0x02 \<or> b6 \<noteq> CHR 0x00 then err UnsupportedFormat else
     try_bind (lift_rs (index_at 7 p)) (\<lambda>b7.
     if b7 \<noteq> CHR 0x01 then err Inaccessible else
     try_bind (usize_at order 8 12 p) (\<lambda>used.
     try_bind (i32_at order 12 16 p) (\<lambda>overflow.
     try_bind (try_bind (lift_rs (index_range 16 24 p)) (order_i64 order)) (\<lambda>stamp.
     try_bind (usize_at order 24 28 p) (\<lambda>entry_offset.
     try_bind (usize_at order 28 32 p) (\<lambda>entry_count.
     ok \<lparr>pd_byte_order = b4, pd_accessible = b7, pd_used = used, pd_overflow = overflow,
         pd_modification_timestamp = stamp, pd_entry_offset = entry_offset, pd_entry_count = entry_count\<rparr>))))))))))))"

section \<open>The required values\<close>

type_synonym required_values = "u64 option list"

definition required_new :: required_values where
  "required_new = replicate 8 None"

definition required_index :: "str \<Rightarrow> nat option" where
  "required_index name =
     (if name = ''java.threads.started'' then Some 0
      else if name = ''java.threads.live'' then Some 1
      else if name = ''java.threads.livePeak'' then Some 2
      else if name = ''java.threads.daemon'' then Some 3
      else if name = ''java.cls.loadedClasses'' then Some 4
      else if name = ''java.cls.sharedLoadedClasses'' then Some 5
      else if name = ''java.cls.unloadedClasses'' then Some 6
      else if name = ''java.cls.sharedUnloadedClasses'' then Some 7
      else None)"

definition required_insert :: "required_values \<Rightarrow> nat \<Rightarrow> u64 \<Rightarrow> (parse_error, required_values) result" where
  "required_insert vs i v =
     try_bind (lift_rs (index_at i vs)) (\<lambda>old.
       if old \<noteq> None then err DuplicateMetric else ok (vs[i := Some v]))"

text \<open>The array pattern of \<open>finish\<close> always matches; the values are asked for in source order.\<close>

definition required_finish :: "required_values \<Rightarrow> (parse_error, jvm_metrics) result" where
  "required_finish vs =
     (let need = (\<lambda>i. try_bind (lift_rs (index_at i vs)) (ok_or MissingMetric)) in
      try_bind (need 0) (\<lambda>started.
      try_bind (need 1) (\<lambda>live.
      try_bind (need 2) (\<lambda>peak.
      try_bind (need 3) (\<lambda>daemon.
      try_bind (need 4) (\<lambda>loaded.
      try_bind (need 5) (\<lambda>shared_loaded.
      try_bind (ok_or InvalidMetric (checked_add64 loaded shared_loaded)) (\<lambda>loaded_total.
      try_bind (need 6) (\<lambda>unloaded.
      try_bind (need 7) (\<lambda>shared_unloaded.
      try_bind (ok_or InvalidMetric (checked_add64 unloaded shared_unloaded)) (\<lambda>unloaded_total.
      try_bind (ok_or InvalidMetric (checked_sub64 loaded_total unloaded_total)) (\<lambda>cls.
      if live < daemon \<or> peak < live then err InvariantViolation else
      ok \<lparr>threads_started_total = started, threads_live = live, threads_peak = peak, threads_daemon = daemon,
          classes_loaded = cls, classes_unloaded_total = unloaded_total\<rparr>))))))))))))"

section \<open>Entries\<close>

definition primitive_size :: "u8 \<Rightarrow> nat option" where
  "primitive_size t =
     (if t = CHR ''Z'' \<or> t = CHR ''B'' then Some 1
      else if t = CHR ''C'' \<or> t = CHR ''S'' then Some 2
      else if t = CHR ''I'' \<or> t = CHR ''F'' then Some 4
      else if t = CHR ''J'' \<or> t = CHR ''D'' then Some 8
      else None)"

definition ranges_overlap :: "nat \<Rightarrow> nat \<Rightarrow> nat \<Rightarrow> nat \<Rightarrow> bool" where
  "ranges_overlap left_start left_end right_start right_end \<longleftrightarrow> left_start < right_end \<and> right_start < left_end"

record entry_header =
  eh_len :: nat
  eh_name_offset :: nat
  eh_vector_length :: int
  eh_data_type :: u8
  eh_flags :: u8
  eh_units :: u8
  eh_variability :: u8
  eh_data_offset :: nat

definition read_header :: "bytes \<Rightarrow> byte_order \<Rightarrow> nat \<Rightarrow> (parse_error, entry_header) result" where
  "read_header input order cursor =
     (if cursor mod 8 \<noteq> 0 then err Malformed else
      try_bind (ok_or Malformed (checked_add_usize cursor entry_header_len)) (\<lambda>header_end.
      try_bind (ok_or Malformed (get_range cursor header_end input)) (\<lambda>header.
      try_bind (usize_at order 0 4 header) (\<lambda>entry_len.
      try_bind (usize_at order 4 8 header) (\<lambda>name_offset.
      try_bind (i32_at order 8 12 header) (\<lambda>vector_length.
      try_bind (lift_rs (index_at 12 header)) (\<lambda>data_type.
      try_bind (lift_rs (index_at 13 header)) (\<lambda>flags.
      try_bind (lift_rs (index_at 14 header)) (\<lambda>units.
      try_bind (lift_rs (index_at 15 header)) (\<lambda>variability.
      try_bind (usize_at order 16 20 header) (\<lambda>data_offset.
      ok \<lparr>eh_len = entry_len, eh_name_offset = name_offset, eh_vector_length = vector_length,
          eh_data_type = data_type, eh_flags = flags, eh_units = units, eh_variability = variability,
          eh_data_offset = data_offset\<rparr>)))))))))))"

text \<open>The end of the entry, or an error when its length or its name offset is out of bounds.\<close>

definition check_bounds :: "nat \<Rightarrow> nat \<Rightarrow> entry_header \<Rightarrow> (parse_error, nat) result" where
  "check_bounds used cursor h =
     (if eh_len h < entry_header_len \<or> eh_len h mod 8 \<noteq> 0 then err Malformed else
      try_bind (ok_or Malformed (checked_add_usize cursor (eh_len h))) (\<lambda>entry_end.
      if used < entry_end \<or> eh_name_offset h < entry_header_len \<or> eh_len h \<le> eh_name_offset h
      then err Malformed else ok entry_end))"

text \<open>\<open>position\<close> of the first zero byte.\<close>

fun nul_position :: "bytes \<Rightarrow> nat option" where
  "nul_position [] = None"
| "nul_position (b # bs) = (if b = CHR 0x00 then Some 0 else map_option Suc (nul_position bs))"

definition read_name :: "bytes \<Rightarrow> nat \<Rightarrow> nat \<Rightarrow> entry_header \<Rightarrow> (parse_error, nat \<times> nat \<times> str) result" where
  "read_name input cursor entry_end h =
     try_bind (ok_or Malformed (checked_add_usize cursor (eh_name_offset h))) (\<lambda>name_start.
     try_bind (ok_or Malformed (checked_add_usize name_start max_name_bytes)) (\<lambda>limit.
     try_bind (ok_or Malformed (get_range name_start (min limit entry_end) input)) (\<lambda>name_bytes.
     try_bind (ok_or LimitExceeded (nul_position name_bytes)) (\<lambda>nul.
     try_bind (ok_or Malformed (checked_add_usize name_start (nul + 1))) (\<lambda>name_end.
     try_bind (lift_rs (index_range 0 nul name_bytes)) (\<lambda>name.
     if \<not> utf8_valid name then err Malformed else ok (name_start, name_end, name)))))))"

definition check_flags :: "entry_header \<Rightarrow> bool" where
  "check_flags h \<longleftrightarrow> byte_val (eh_flags h) \<le> (1 :: nat) \<and>
     1 \<le> (byte_val (eh_units h) :: nat) \<and> byte_val (eh_units h) \<le> (6 :: nat) \<and>
     1 \<le> (byte_val (eh_variability h) :: nat) \<and> byte_val (eh_variability h) \<le> (3 :: nat)"

definition data_range :: "bytes \<Rightarrow> nat \<Rightarrow> nat \<Rightarrow> nat \<Rightarrow> nat \<Rightarrow> entry_header \<Rightarrow> (parse_error, nat \<times> nat) result" where
  "data_range input cursor entry_end name_start name_end h =
     (case primitive_size (eh_data_type h) of
        None \<Rightarrow> err Malformed
      | Some sz \<Rightarrow>
        if eh_vector_length h < 0 then err Malformed else
        (let elements = (if eh_vector_length h = 0 then 1 else nat (eh_vector_length h)) in
         try_bind (ok_or Malformed (checked_mul_usize sz elements)) (\<lambda>data_len.
         if eh_data_offset h < entry_header_len then err Malformed else
         try_bind (ok_or Malformed (checked_add_usize cursor (eh_data_offset h))) (\<lambda>data_start.
         try_bind (ok_or Malformed (checked_add_usize data_start data_len)) (\<lambda>data_end.
         if entry_end < data_end \<or> data_start mod sz \<noteq> 0 then err Malformed else
         if ranges_overlap name_start name_end data_start data_end then err Malformed else
         try_bind (ok_or Malformed (get_range name_end data_start input)) (\<lambda>gap.
         if list_ex (\<lambda>b. b \<noteq> CHR 0x00) gap then err Malformed else
         if eh_units h = CHR 0x05 then
           if max_string_bytes < data_len then err LimitExceeded else
           try_bind (ok_or Malformed (get_range data_start data_end input)) (\<lambda>s.
           if CHR 0x00 \<notin> set s then err Malformed else ok (data_start, data_end))
         else ok (data_start, data_end)))))))"

definition record_metric ::
  "bytes \<Rightarrow> byte_order \<Rightarrow> entry_header \<Rightarrow> str \<Rightarrow> nat \<times> nat \<Rightarrow> required_values \<Rightarrow> (parse_error, required_values) result" where
  "record_metric input order h name rng required =
     (case required_index name of
        None \<Rightarrow> ok required
      | Some i \<Rightarrow>
        (let expected_units = (if i = 1 \<or> i = 2 \<or> i = 3 then CHR 0x01 else CHR 0x04);
             expected_variability = (if i = 1 \<or> i = 2 \<or> i = 3 then CHR 0x03 else CHR 0x02) in
         if eh_data_type h \<noteq> CHR ''J'' \<or> eh_vector_length h \<noteq> 0 \<or> eh_flags h \<noteq> CHR 0x01 \<or>
            eh_units h \<noteq> expected_units \<or> eh_variability h \<noteq> expected_variability then err InvalidMetric else
         try_bind (lift_rs (index_range (fst rng) (snd rng) input)) (\<lambda>raw.
         try_bind (order_i64 order raw) (\<lambda>signed.
         if signed < 0 then err InvalidMetric else
         required_insert required i (word_of_int signed)))))"

definition parse_entry ::
  "bytes \<Rightarrow> byte_order \<Rightarrow> nat \<Rightarrow> nat \<Rightarrow> required_values \<Rightarrow> (parse_error, nat \<times> required_values) result" where
  "parse_entry input order used cursor required =
     try_bind (read_header input order cursor) (\<lambda>h.
     try_bind (check_bounds used cursor h) (\<lambda>entry_end.
     try_bind (read_name input cursor entry_end h) (\<lambda>(name_start, name_end, name).
     if \<not> check_flags h then err Malformed else
     try_bind (data_range input cursor entry_end name_start name_end h) (\<lambda>rng.
     try_bind (record_metric input order h name rng required) (\<lambda>required'.
     ok (entry_end, required'))))))"

fun parse_entries ::
  "bytes \<Rightarrow> byte_order \<Rightarrow> nat \<Rightarrow> nat \<Rightarrow> nat \<Rightarrow> required_values \<Rightarrow> (parse_error, nat \<times> required_values) result" where
  "parse_entries input order used 0 cursor required = ok (cursor, required)"
| "parse_entries input order used (Suc n) cursor required =
     try_bind (parse_entry input order used cursor required)
       (\<lambda>(cursor', required'). parse_entries input order used n cursor' required')"

section \<open>The whole file\<close>

text \<open>The branch after \<open>decode_order\<close> is the source's \<open>unreachable!\<close>.\<close>

definition perf_parse :: "bytes \<Rightarrow> (parse_error, jvm_metrics) result" where
  "perf_parse input =
     (if max_perfdata_bytes < length input then err InputTooLarge else
      try_bind (decode_prologue input) (\<lambda>d.
      case decode_order (pd_byte_order d) of
        None \<Rightarrow> Panic
      | Some order \<Rightarrow>
        if pd_overflow d \<noteq> 0 then err Overflow else
        (let used = pd_used d in
         if used < prologue_len \<or> length input < used \<or> max_entries < pd_entry_count d then
           err (if max_entries < pd_entry_count d then LimitExceeded else Malformed) else
         if pd_entry_offset d < prologue_len \<or> used < pd_entry_offset d \<or> pd_entry_offset d mod 8 \<noteq> 0
         then err Malformed else
         try_bind (parse_entries input order used (pd_entry_count d) (pd_entry_offset d) required_new)
           (\<lambda>(cursor, required).
            if cursor \<noteq> used then err Malformed else required_finish required))))"

section \<open>No input makes the parser unwind\<close>

lemma raw_int_less: "raw_int order raw < 256 ^ length raw"
  using of_be_less [of raw] of_be_less [of "rev raw"] by (simp add: raw_int_def of_le_def split: byte_order.splits)

lemma safe_order_i32: "safe (order_i32 order raw) (\<lambda>v. v < 2 ^ 31)"
  using raw_int_less [of order raw] by (auto simp: order_i32_def signed_of_def)

lemma safe_order_i64: "safe (order_i64 order raw) (\<lambda>v. v < 2 ^ 63)"
  using raw_int_less [of order raw] by (auto simp: order_i64_def signed_of_def)

lemma safe_i32_at: "a \<le> b \<Longrightarrow> b \<le> length xs \<Longrightarrow> safe (i32_at order a b xs) (\<lambda>v. v < 2 ^ 31)"
  unfolding i32_at_def by (rule safe_bind [OF safe_index_range safe_order_i32])

lemma safe_usize_at: "a \<le> b \<Longrightarrow> b \<le> length xs \<Longrightarrow> safe (usize_at order a b xs) (\<lambda>n. n < 2 ^ 31)"
  unfolding usize_at_def by (rule safe_bind [OF safe_i32_at]) (auto simp: nonnegative_usize_def)

lemma safe_i64_range:
  "a \<le> b \<Longrightarrow> b \<le> length xs \<Longrightarrow> safe (try_bind (lift_rs (index_range a b xs)) (order_i64 order)) (\<lambda>v. v < 2 ^ 63)"
  by (rule safe_bind [OF safe_index_range safe_order_i64])

lemmas safe_reads = safe_i32_at safe_usize_at safe_i64_range safe_index_range safe_index_at safe_ok_or

lemma safe_decode_prologue:
  "safe (decode_prologue input) (\<lambda>d. decode_order (pd_byte_order d) \<noteq> None)"
  unfolding decode_prologue_def
  by (intro safe_bind [OF safe_ok_or] safe_bind [OF safe_index_range] safe_bind [OF safe_index_at]
      safe_bind [OF safe_usize_at] safe_bind [OF safe_i32_at] safe_bind [OF safe_i64_range] safe_if)
    (auto simp: prologue_len_def dest!: length_get_range)

lemma safe_read_header: "safe (read_header input order cursor) (\<lambda>h. cursor mod 8 = 0)"
  unfolding read_header_def
  by (intro safe_bind [OF safe_ok_or] safe_bind [OF safe_index_at]
      safe_bind [OF safe_usize_at] safe_bind [OF safe_i32_at] safe_if)
    (auto simp: entry_header_len_def checked_add_usize_def dest!: length_get_range split: if_splits)

lemma safe_check_bounds:
  "safe (check_bounds used cursor h) (\<lambda>e. e = cursor + eh_len h \<and> e \<le> used \<and> 20 \<le> eh_len h \<and> eh_len h mod 8 = 0)"
  unfolding check_bounds_def
  by (intro safe_bind [OF safe_ok_or] safe_if) (auto simp: entry_header_len_def checked_add_usize_def split: if_splits)

lemma nul_position_Some:
  "nul_position xs = Some n \<Longrightarrow> n < length xs \<and> xs ! n = CHR 0x00 \<and> CHR 0x00 \<notin> set (take n xs)"
  by (induction xs arbitrary: n) (auto split: if_splits)

lemma safe_read_name:
  "safe (read_name input cursor entry_end h)
     (\<lambda>(a, b, name). a = cursor + eh_name_offset h \<and> b = a + length name + 1 \<and> b \<le> entry_end \<and>
        length name < 256 \<and> utf8_valid name)"
  unfolding read_name_def
  by (intro safe_bind [OF safe_ok_or] safe_bind [OF safe_index_range] safe_if)
    (auto simp: checked_add_usize_def max_name_bytes_def split: if_splits
      dest!: length_get_range nul_position_Some)

lemma primitive_size_pos: "primitive_size t = Some n \<Longrightarrow> 0 < n"
  by (auto simp: primitive_size_def split: if_splits)

lemma safe_data_range:
  "safe (data_range input cursor entry_end name_start name_end h)
     (\<lambda>(a, b). a \<le> b \<and> b \<le> entry_end \<and> a = cursor + eh_data_offset h \<and> name_end \<le> a)"
proof (cases "primitive_size (eh_data_type h)")
  case None
  then show ?thesis by (simp add: data_range_def)
next
  case (Some sz)
  show ?thesis
    unfolding data_range_def Some option.case Let_def
    by (intro safe_bind [OF safe_ok_or] safe_if)
      (auto simp: checked_add_usize_def checked_mul_usize_def get_range_def split: if_splits)
qed

lemma required_index_less: "required_index name = Some i \<Longrightarrow> i < 8"
  by (auto simp: required_index_def split: if_splits)

lemma safe_record_metric:
  assumes "fst rng \<le> snd rng" "snd rng \<le> length input" "length required = 8"
  shows "safe (record_metric input order h name rng required) (\<lambda>r. length r = 8)"
proof (cases "required_index name")
  case None
  then show ?thesis using assms by (simp add: record_metric_def)
next
  case (Some i)
  have i: "i < length required" using required_index_less [OF Some] assms by simp
  show ?thesis
    unfolding record_metric_def Some option.case Let_def required_insert_def
    using assms i
    by (intro safe_bind [OF safe_order_i64] safe_bind [OF safe_index_range] safe_bind [OF safe_index_at] safe_if) auto
qed

lemma safe_parse_entry:
  assumes "used \<le> length input" "length required = 8"
  shows "safe (parse_entry input order used cursor required)
    (\<lambda>(c, r). length r = 8 \<and> cursor + 20 \<le> c \<and> c \<le> used \<and> cursor mod 8 = 0 \<and> c mod 8 = 0)"
  unfolding parse_entry_def
proof (intro safe_bind [OF safe_read_header] safe_bind [OF safe_check_bounds] safe_bind [OF safe_read_name], goal_cases)
  case (1 h e n)
  then have e: "e \<le> used" by simp
  show ?case
    using 1 assms e
    by (auto split: prod.splits intro!: safe_bind [OF safe_data_range] safe_bind [OF safe_record_metric] safe_if
        simp: mod_add_eq dest: mod_add_cong)
qed

lemma safe_parse_entries:
  assumes "used \<le> length input" "length required = 8" "cursor \<le> used"
  shows "safe (parse_entries input order used n cursor required)
    (\<lambda>(c, r). length r = 8 \<and> cursor + 20 * n \<le> c \<and> c \<le> used)"
  using assms
proof (induction n arbitrary: cursor required)
  case 0
  then show ?case by simp
next
  case (Suc n)
  show ?case
    unfolding parse_entries.simps
  proof (rule safe_bind [OF safe_parse_entry [OF Suc.prems(1,2)]])
    fix x :: "nat \<times> required_values"
    assume "case x of (c, r) \<Rightarrow> length r = 8 \<and> cursor + 20 \<le> c \<and> c \<le> used \<and> cursor mod 8 = 0 \<and> c mod 8 = 0"
    then obtain c r where x: "x = (c, r)" "length r = 8" "cursor + 20 \<le> c" "c \<le> used" by auto
    from Suc.IH [OF Suc.prems(1) x(2,4)] show "safe (case x of (c, r) \<Rightarrow> parse_entries input order used n c r)
        (\<lambda>(c, r). length r = 8 \<and> cursor + 20 * Suc n \<le> c \<and> c \<le> used)"
      unfolding x(1) prod.case by (rule safe_weaken) (use x in auto)
  qed
qed

definition consistent_metrics :: "jvm_metrics \<Rightarrow> bool" where
  "consistent_metrics m \<longleftrightarrow> threads_daemon m \<le> threads_live m \<and> threads_live m \<le> threads_peak m \<and>
     unat (classes_loaded m) + unat (classes_unloaded_total m) < 2 ^ 64"

lemma safe_required_finish:
  assumes "length vs = 8"
  shows "safe (required_finish vs) consistent_metrics"
proof -
  have need: "safe (try_bind (lift_rs (index_at i vs)) (ok_or MissingMetric)) (\<lambda>_. True)" if "i < 8" for i
    using that assms by (auto simp: index_at_def split: option.split intro: safe_weaken [OF safe_ok_or])
  have sum: "unat a + unat b < 2 ^ 64" if "checked_sub64 t b = Some a" for a b t :: u64
    using that unat64_less [of t] by (simp add: checked_sub64_Some add.commute)
  show ?thesis
    unfolding required_finish_def Let_def
    by (intro safe_bind [OF need] safe_bind [OF safe_ok_or] safe_if)
      (auto simp: consistent_metrics_def dest: sum)
qed

lemma perf_parse_safe: "safe (perf_parse input) consistent_metrics"
  unfolding perf_parse_def Let_def
proof (intro safe_if safe_err safe_bind [OF safe_decode_prologue], goal_cases)
  case (1 d)
  then obtain order where o: "decode_order (pd_byte_order d) = Some order" by auto
  show ?case
    unfolding o option.case
    by (intro safe_if safe_err safe_bind [OF safe_parse_entries])
      (auto simp: required_new_def intro: safe_required_finish)
qed

end
