(* ===== verification/Perfdata_Format.thy ===== *)
theory Perfdata_Format
  imports Jvm_Perfdata
begin

text \<open>
  The file format the parser of \<open>Jvm_Perfdata\<close> is meant to accept, given as a printer of files
  of 64-bit entries in either byte order, and the properties of the parser over it. The printer
  is a specification: the files themselves are written by the JVM.
\<close>

section \<open>Printing a file\<close>

definition print_int :: "byte_order \<Rightarrow> nat \<Rightarrow> nat \<Rightarrow> bytes" where
  "print_int order k n = (case order of Big \<Rightarrow> to_be k n | Little \<Rightarrow> rev (to_be k n))"

record long_entry =
  le_name :: str
  le_flags :: u8
  le_units :: u8
  le_variability :: u8
  le_value :: nat

definition name_pad :: "str \<Rightarrow> nat" where
  "name_pad name = (8 - (21 + length name) mod 8) mod 8"

definition data_off :: "str \<Rightarrow> nat" where
  "data_off name = 21 + length name + name_pad name"

definition print_header :: "byte_order \<Rightarrow> long_entry \<Rightarrow> bytes" where
  "print_header order e =
     print_int order 4 (data_off (le_name e) + 8) @ print_int order 4 20 @ print_int order 4 0 @
     [CHR ''J'', le_flags e, le_units e, le_variability e] @ print_int order 4 (data_off (le_name e))"

definition print_entry :: "byte_order \<Rightarrow> long_entry \<Rightarrow> bytes" where
  "print_entry order e =
     print_header order e @ le_name e @ replicate (Suc (name_pad (le_name e))) (CHR 0x00) @
     print_int order 8 (le_value e)"

definition print_prologue :: "byte_order \<Rightarrow> nat \<Rightarrow> nat \<Rightarrow> bytes" where
  "print_prologue order used n =
     magic @ [case order of Big \<Rightarrow> CHR 0x00 | Little \<Rightarrow> CHR 0x01, CHR 0x02, CHR 0x00, CHR 0x01] @
     print_int order 4 used @ print_int order 4 0 @ print_int order 8 0 @ print_int order 4 32 @ print_int order 4 n"

definition print_file :: "byte_order \<Rightarrow> long_entry list \<Rightarrow> bytes" where
  "print_file order es =
     (let body = concat (map (print_entry order) es)
      in print_prologue order (32 + length body) (length es) @ body)"

definition entry_ok :: "long_entry \<Rightarrow> bool" where
  "entry_ok e \<longleftrightarrow> CHR 0x00 \<notin> set (le_name e) \<and> length (le_name e) < 256 \<and> utf8_valid (le_name e) \<and>
     byte_val (le_flags e) \<le> (1 :: nat) \<and> 1 \<le> (byte_val (le_units e) :: nat) \<and>
     byte_val (le_units e) \<le> (6 :: nat) \<and> le_units e \<noteq> CHR 0x05 \<and>
     1 \<le> (byte_val (le_variability e) :: nat) \<and> byte_val (le_variability e) \<le> (3 :: nat) \<and> le_value e < 2 ^ 63"

text \<open>What the entries of a file mean: the values of the eight required counters.\<close>

fun collect :: "long_entry list \<Rightarrow> required_values \<Rightarrow> (parse_error, required_values) result" where
  "collect [] vs = ok vs"
| "collect (e # es) vs =
     (case required_index (le_name e) of
        None \<Rightarrow> collect es vs
      | Some i \<Rightarrow>
        if le_flags e \<noteq> CHR 0x01 \<or> le_units e \<noteq> (if i \<in> {1, 2, 3} then CHR 0x01 else CHR 0x04) \<or>
           le_variability e \<noteq> (if i \<in> {1, 2, 3} then CHR 0x03 else CHR 0x02) then err InvalidMetric
        else try_bind (required_insert vs i (word_of_nat (le_value e))) (collect es))"

section \<open>Reading back what was printed\<close>

lemma length_print_int [simp]: "length (print_int order k n) = k"
  by (simp add: print_int_def split: byte_order.splits)

lemma raw_print_int [simp]: "n < 256 ^ k \<Longrightarrow> raw_int order (print_int order k n) = n"
  by (simp add: print_int_def raw_int_def of_le_def split: byte_order.splits)

lemma i32_at_print:
  "length p = a \<Longrightarrow> b = a + 4 \<Longrightarrow> n < 2 ^ 31 \<Longrightarrow> i32_at order a b (p @ print_int order 4 n @ s) = ok (int n)"
  by (simp add: i32_at_def index_range_mid order_i32_def signed_of_def)

lemma usize_at_print:
  "length p = a \<Longrightarrow> b = a + 4 \<Longrightarrow> n < 2 ^ 31 \<Longrightarrow> usize_at order a b (p @ print_int order 4 n @ s) = ok n"
  by (simp add: usize_at_def i32_at_print nonnegative_usize_def)

lemma length_print_header [simp]: "length (print_header order e) = 20"
  by (simp add: print_header_def)

lemma length_print_entry: "length (print_entry order e) = data_off (le_name e) + 8"
  by (simp add: print_entry_def data_off_def)

lemma pad_to_8: "(x + (8 - x mod 8) mod 8) mod 8 = (0 :: nat)"
proof -
  have arith: "r < 8 \<Longrightarrow> x = 8 * q + r \<Longrightarrow> x + (8 - r) = 8 * (q + 1)" for q r :: nat by simp
  have "x + (8 - x mod 8) = 8 * (x div 8 + 1)" by (rule arith) simp_all
  then have "(x + (8 - x mod 8)) mod 8 = 0" by simp
  then show ?thesis by (simp only: mod_add_right_eq)
qed

lemma data_off_mod [simp]: "data_off name mod 8 = 0"
  unfolding data_off_def name_pad_def by (rule pad_to_8)

lemma data_off_less: "length name < 256 \<Longrightarrow> data_off name < 300"
proof -
  have "name_pad name < 8" unfolding name_pad_def by simp
  then show "length name < 256 \<Longrightarrow> data_off name < 300" by (simp add: data_off_def)
qed

definition header_of :: "long_entry \<Rightarrow> entry_header" where
  "header_of e = \<lparr>eh_len = data_off (le_name e) + 8, eh_name_offset = 20, eh_vector_length = 0,
     eh_data_type = CHR ''J'', eh_flags = le_flags e, eh_units = le_units e,
     eh_variability = le_variability e, eh_data_offset = data_off (le_name e)\<rparr>"

lemma header_fields:
  assumes "length (le_name e) < 256"
  shows "usize_at order 0 4 (print_header order e) = ok (data_off (le_name e) + 8)"
    and "usize_at order 4 8 (print_header order e) = ok 20"
    and "i32_at order 8 12 (print_header order e) = ok 0"
    and "usize_at order 16 20 (print_header order e) = ok (data_off (le_name e))"
proof -
  let ?l = "print_int order 4 (data_off (le_name e) + 8)" and ?o = "print_int order 4 20"
    and ?v = "print_int order 4 0" and ?b = "[CHR ''J'', le_flags e, le_units e, le_variability e]"
    and ?d = "print_int order 4 (data_off (le_name e))"
  have small: "data_off (le_name e) + 8 < 2 ^ 31" using data_off_less [OF assms] by simp
  have h: "print_header order e = ?l @ ?o @ ?v @ ?b @ ?d" by (simp only: print_header_def)
  show "usize_at order 0 4 (print_header order e) = ok (data_off (le_name e) + 8)"
    unfolding h using usize_at_print [of "[]" 0 4 _ order] small by simp
  show "usize_at order 4 8 (print_header order e) = ok 20"
    unfolding h by (rule usize_at_print) simp_all
  have "i32_at order 8 12 ((?l @ ?o) @ ?v @ (?b @ ?d)) = ok (int 0)" by (rule i32_at_print) simp_all
  then show "i32_at order 8 12 (print_header order e) = ok 0" unfolding h by simp
  have "usize_at order 16 20 ((?l @ ?o @ ?v @ ?b) @ ?d @ []) = ok (data_off (le_name e))"
    using small by (intro usize_at_print) simp_all
  then show "usize_at order 16 20 (print_header order e) = ok (data_off (le_name e))" unfolding h by simp
qed

lemma header_bytes:
  "index_at 12 (print_header order e) = Val (CHR ''J'')" "index_at 13 (print_header order e) = Val (le_flags e)"
  "index_at 14 (print_header order e) = Val (le_units e)" "index_at 15 (print_header order e) = Val (le_variability e)"
  by (simp_all add: index_at_def print_header_def nth_append)

lemma read_header_print:
  assumes "length pre = cursor" "cursor mod 8 = 0" "cursor < 2 ^ 32" "length (le_name e) < 256"
  shows "read_header (pre @ print_entry order e @ post) order cursor = ok (header_of e)"
proof -
  have "get_range cursor (cursor + 20) (pre @ print_entry order e @ post) = Some (print_header order e)"
    using get_range_mid [of pre cursor "cursor + 20" "print_header order e"] assms by (simp add: print_entry_def)
  then show ?thesis
    using assms by (simp add: read_header_def checked_add_usize_def entry_header_len_def header_fields header_bytes header_of_def)
qed

lemma nul_position_name: "CHR 0x00 \<notin> set xs \<Longrightarrow> nul_position (xs @ CHR 0x00 # ys) = Some (length xs)"
  by (induction xs) auto

lemma take_name:
  assumes "length xs < n"
  shows "\<exists>ys. take n (xs @ CHR 0x00 # rest) = xs @ CHR 0x00 # ys"
  using assms by (cases "n - length xs") auto

lemma read_name_print:
  assumes pre: "length pre = cursor" "cursor < 2 ^ 32" and e: "entry_ok e"
  shows "read_name (pre @ print_entry order e @ post) cursor (cursor + data_off (le_name e) + 8) (header_of e) =
    ok (cursor + 20, cursor + 21 + length (le_name e), le_name e)"
proof -
  let ?limit = "min (cursor + 20 + 256) (cursor + data_off (le_name e) + 8)"
  let ?tail = "replicate (name_pad (le_name e)) (CHR 0x00) @ print_int order 8 (le_value e) @ post"
  have printed: "pre @ print_entry order e @ post = (pre @ print_header order e) @ le_name e @ CHR 0x00 # ?tail"
    by (simp add: print_entry_def)
  have len: "length (le_name e) < ?limit - (cursor + 20)"
    using e by (auto simp: entry_ok_def data_off_def)
  obtain ys where ys: "take (?limit - (cursor + 20)) (le_name e @ CHR 0x00 # ?tail) = le_name e @ CHR 0x00 # ys"
    using take_name [OF len] by blast
  have "get_range (cursor + 20) ?limit (pre @ print_entry order e @ post) = Some (le_name e @ CHR 0x00 # ys)"
    unfolding printed using pre ys by (auto simp: get_range_def data_off_def)
  then show ?thesis
    using pre e by (simp add: read_name_def header_of_def checked_add_usize_def max_name_bytes_def entry_ok_def
        nul_position_name index_range_def)
qed

lemma data_range_print:
  assumes pre: "length pre = cursor" "cursor mod 8 = 0" "cursor < 2 ^ 32" and e: "entry_ok e"
  shows "data_range (pre @ print_entry order e @ post) cursor (cursor + data_off (le_name e) + 8)
      (cursor + 20) (cursor + 21 + length (le_name e)) (header_of e) =
    ok (cursor + data_off (le_name e), cursor + data_off (le_name e) + 8)"
proof -
  let ?p = "pre @ print_header order e @ le_name e @ [CHR 0x00]"
  let ?z = "replicate (name_pad (le_name e)) (CHR 0x00)"
  have "pre @ print_entry order e @ post = ?p @ ?z @ (print_int order 8 (le_value e) @ post)"
    by (simp add: print_entry_def)
  then have gap: "get_range (cursor + 21 + length (le_name e)) (cursor + data_off (le_name e))
      (pre @ print_entry order e @ post) = Some ?z"
    using get_range_mid [of ?p "cursor + 21 + length (le_name e)" "cursor + data_off (le_name e)" ?z] pre
    by (simp add: data_off_def)
  have al: "(cursor + data_off (le_name e)) mod 8 = 0"
    using pre(2) data_off_mod [of "le_name e"] by (metis add_0 mod_add_eq mod_0)
  have "data_off (le_name e) < 300" using e by (simp add: data_off_less entry_ok_def)
  moreover have "21 + length (le_name e) \<le> data_off (le_name e)" by (simp add: data_off_def)
  ultimately show ?thesis
    using pre e al gap
    by (simp add: data_range_def header_of_def primitive_size_def checked_mul_usize_def checked_add_usize_def
        entry_header_len_def ranges_overlap_def entry_ok_def list_ex_iff)
qed

lemma try_bind_collect_Nil [simp]: "try_bind m (collect []) = m"
  by (cases m) (auto simp: try_bind_def split: sum.splits)

lemma record_metric_print:
  assumes pre: "length pre = cursor" and e: "entry_ok e"
  shows "record_metric (pre @ print_entry order e @ post) order (header_of e) (le_name e)
      (cursor + data_off (le_name e), cursor + data_off (le_name e) + 8) vs = collect [e] vs"
proof -
  let ?p = "pre @ print_header order e @ le_name e @ replicate (Suc (name_pad (le_name e))) (CHR 0x00)"
  have "pre @ print_entry order e @ post = ?p @ print_int order 8 (le_value e) @ post"
    by (simp add: print_entry_def)
  then have raw: "index_range (cursor + data_off (le_name e)) (cursor + data_off (le_name e) + 8)
      (pre @ print_entry order e @ post) = Val (print_int order 8 (le_value e))"
    using index_range_mid [of ?p "cursor + data_off (le_name e)" "cursor + data_off (le_name e) + 8"] pre
    by (simp add: data_off_def)
  have "order_i64 order (print_int order 8 (le_value e)) = ok (int (le_value e))"
    using e by (simp add: order_i64_def signed_of_def entry_ok_def)
  with raw show ?thesis
    by (auto simp: record_metric_def header_of_def Let_def split: option.splits)
qed

lemma collect_Cons: "collect (e # es) vs = try_bind (collect [e] vs) (collect es)"
  by (auto split: option.splits)

lemma parse_entry_print:
  assumes pre: "length pre = cursor" "cursor mod 8 = 0" "cursor < 2 ^ 32" and e: "entry_ok e"
    and used: "cursor + length (print_entry order e) \<le> used"
  shows "parse_entry (pre @ print_entry order e @ post) order used cursor vs =
    try_bind (collect [e] vs) (\<lambda>vs'. ok (cursor + length (print_entry order e), vs'))"
proof -
  have off: "data_off (le_name e) < 300" "20 \<le> data_off (le_name e)"
    using e by (auto intro: data_off_less simp: entry_ok_def) (simp add: data_off_def)
  have bounds: "check_bounds used cursor (header_of e) = ok (cursor + data_off (le_name e) + 8)"
    using off used pre data_off_mod [of "le_name e"]
    by (simp add: check_bounds_def header_of_def entry_header_len_def checked_add_usize_def length_print_entry)
  have hd: "read_header (pre @ print_entry order e @ post) order cursor = ok (header_of e)"
    using pre e by (intro read_header_print) (auto simp: entry_ok_def)
  have flags: "check_flags (header_of e)"
    using e by (simp add: check_flags_def header_of_def entry_ok_def)
  show ?thesis
    unfolding parse_entry_def
    by (simp add: hd bounds read_name_print [OF pre(1,3) e] flags data_range_print [OF pre e]
        record_metric_print [OF pre(1) e] length_print_entry add.assoc [symmetric] del: collect.simps)
qed

lemma parse_entries_print:
  assumes "length pre = cursor" "cursor mod 8 = 0" "list_all entry_ok es"
    and "cursor + length (concat (map (print_entry order) es)) \<le> used" "used < 2 ^ 32"
  shows "parse_entries (pre @ concat (map (print_entry order) es) @ post) order used (length es) cursor vs =
    try_bind (collect es vs) (\<lambda>vs'. ok (cursor + length (concat (map (print_entry order) es)), vs'))"
  using assms
proof (induction es arbitrary: pre cursor vs)
  case Nil
  then show ?case by simp
next
  case (Cons e es)
  let ?pre = "pre @ print_entry order e" and ?c = "cursor + length (print_entry order e)"
  have al: "?c mod 8 = 0"
    using Cons.prems(2) data_off_mod [of "le_name e"] by (simp add: length_print_entry mod_add_eq [symmetric])
  have rest: "parse_entries (?pre @ concat (map (print_entry order) es) @ post) order used (length es) ?c vs' =
      try_bind (collect es vs') (\<lambda>vs''. ok (?c + length (concat (map (print_entry order) es)), vs''))" for vs'
    using Cons.prems al by (intro Cons.IH) auto
  have one: "parse_entry (pre @ print_entry order e @ (concat (map (print_entry order) es) @ post)) order used cursor vs =
      try_bind (collect [e] vs) (\<lambda>vs'. ok (?c, vs'))"
    using Cons.prems by (intro parse_entry_print) auto
  have "parse_entries (pre @ concat (map (print_entry order) (e # es)) @ post) order used (length (e # es)) cursor vs =
      try_bind (collect [e] vs) (\<lambda>vs'. try_bind (collect es vs') (\<lambda>vs''. ok (?c + length (concat (map (print_entry order) es)), vs'')))"
    using one rest by (simp add: try_bind_assoc del: collect.simps)
  then show ?case
    unfolding collect_Cons [of e es] by (simp add: try_bind_assoc add.assoc del: collect.simps)
qed

lemma length_print_prologue [simp]: "length (print_prologue order used n) = 32"
  by (simp add: print_prologue_def magic_def)

lemma decode_prologue_print:
  assumes "used < 2 ^ 31" "n < 2 ^ 31"
  shows "decode_prologue (print_prologue order used n @ rest) =
    ok \<lparr>pd_byte_order = (case order of Big \<Rightarrow> CHR 0x00 | Little \<Rightarrow> CHR 0x01), pd_accessible = CHR 0x01,
        pd_used = used, pd_overflow = 0, pd_modification_timestamp = 0, pd_entry_offset = 32, pd_entry_count = n\<rparr>"
proof -
  let ?h = "magic @ [case order of Big \<Rightarrow> CHR 0x00 | Little \<Rightarrow> CHR 0x01, CHR 0x02, CHR 0x00, CHR 0x01]"
  let ?u = "print_int order 4 used" and ?z = "print_int order 4 0" and ?s = "print_int order 8 0"
    and ?o = "print_int order 4 32" and ?n = "print_int order 4 n"
  define p where p: "p = print_prologue order used n"
  have pp: "p = ?h @ ?u @ ?z @ ?s @ ?o @ ?n" by (simp add: p print_prologue_def)
  have h: "length ?h = 8" by (simp add: magic_def)
  have all: "get_range 0 32 (p @ rest) = Some p" by (simp add: p get_range_def)
  have m: "index_range 0 4 p = Val magic" by (simp add: pp index_range_def magic_def)
  have b: "index_at 4 p = Val (case order of Big \<Rightarrow> CHR 0x00 | Little \<Rightarrow> CHR 0x01)" "index_at 5 p = Val (CHR 0x02)"
    "index_at 6 p = Val (CHR 0x00)" "index_at 7 p = Val (CHR 0x01)"
    by (simp_all add: pp index_at_def magic_def)
  have u: "usize_at order 8 12 p = ok used"
    unfolding pp using h assms by (intro usize_at_print) simp_all
  have "i32_at order 12 16 ((?h @ ?u) @ ?z @ ?s @ ?o @ ?n) = ok (int 0)"
    using h by (intro i32_at_print) simp_all
  then have v: "i32_at order 12 16 p = ok 0" by (simp add: pp)
  have "index_range 16 24 ((?h @ ?u @ ?z) @ ?s @ ?o @ ?n) = Val ?s"
    using h by (intro index_range_mid) simp_all
  then have t: "try_bind (lift_rs (index_range 16 24 p)) (order_i64 order) = ok 0"
    by (simp add: pp order_i64_def signed_of_def)
  have "usize_at order 24 28 ((?h @ ?u @ ?z @ ?s) @ ?o @ ?n) = ok 32"
    using h by (intro usize_at_print) simp_all
  then have o: "usize_at order 24 28 p = ok 32" by (simp add: pp)
  have "usize_at order 28 32 ((?h @ ?u @ ?z @ ?s @ ?o) @ ?n @ []) = ok n"
    using h assms by (intro usize_at_print) simp_all
  then have c: "usize_at order 28 32 p = ok n" by (simp add: pp)
  have ord: "decode_order (case order of Big \<Rightarrow> CHR 0x00 | Little \<Rightarrow> CHR 0x01) = Some order"
    by (cases order) (simp_all add: decode_order_def)
  show ?thesis
    unfolding decode_prologue_def prologue_len_def p [symmetric] all
    by (simp add: m b ord u v t o c)
qed

lemma perf_parse_print:
  assumes "list_all entry_ok es" "length es \<le> 4096" "length (print_file order es @ post) \<le> 1024 * 1024"
  shows "perf_parse (print_file order es @ post) = try_bind (collect es required_new) required_finish"
proof -
  let ?body = "concat (map (print_entry order) es)"
  let ?used = "32 + length ?body"
  have used: "?used \<le> 1048576" using assms(3) by (simp add: print_file_def Let_def)
  have ord: "decode_order (case order of Big \<Rightarrow> CHR 0x00 | Little \<Rightarrow> CHR 0x01) = Some order"
    by (cases order) (simp_all add: decode_order_def)
  have "parse_entries (print_prologue order ?used (length es) @ ?body @ post) order ?used (length es) 32 required_new =
      try_bind (collect es required_new) (\<lambda>vs. ok (32 + length ?body, vs))"
    using assms(1) used by (intro parse_entries_print) auto
  then show ?thesis
    using assms used
    by (simp add: perf_parse_def print_file_def Let_def max_perfdata_bytes_def decode_prologue_print ord
        prologue_len_def max_entries_def try_bind_assoc)
qed

section \<open>Properties\<close>

text \<open>
  Further property (safety). No input whatever makes the parser of a performance data file panic: every slice,
  every index and the \<open>unreachable!\<close> branch stay within reach of the checks before them. And
  metrics are only reported when daemon, live and peak thread counts are ordered and the class
  counters do not overflow.
\<close>

theorem perf_parse_never_panics:
  "safe (perf_parse input)
     (\<lambda>m. threads_daemon m \<le> threads_live m \<and> threads_live m \<le> threads_peak m \<and>
        unat (classes_loaded m) + unat (classes_unloaded_total m) < 2 ^ 64)"
  using perf_parse_safe [of input] by (simp add: consistent_metrics_def [abs_def])

text \<open>
  C32 (roundtrip). A well-formed file of 64-bit counters, in either byte order, with at most
  4096 entries and 1 MiB in all, followed by any bytes beyond its used part, is parsed to
  exactly what its entries say: the eight required counters wherever they stand, unknown
  counters skipped, a repeated or ill-typed required counter refused. How one counter is entered in the table of
  the eight, and the final check that all are there, are the parser's own steps on both sides.
\<close>

theorem perf_parse_round_trip:
  assumes "list_all entry_ok es" and "length es \<le> 4096" and "length (print_file order es @ post) \<le> 1024 * 1024"
  shows "perf_parse (print_file order es @ post) = try_bind (collect es required_new) required_finish"
  by (rule perf_parse_print [OF assms])

definition thread_counter :: "str \<Rightarrow> nat \<Rightarrow> long_entry" where
  "thread_counter name v = \<lparr>le_name = name, le_flags = CHR 0x01, le_units = CHR 0x01, le_variability = CHR 0x03, le_value = v\<rparr>"

definition event_counter :: "str \<Rightarrow> nat \<Rightarrow> long_entry" where
  "event_counter name v = \<lparr>le_name = name, le_flags = CHR 0x01, le_units = CHR 0x04, le_variability = CHR 0x02, le_value = v\<rparr>"

definition sample_counters :: "long_entry list" where
  "sample_counters =
     [event_counter ''java.threads.started'' 9, thread_counter ''java.threads.live'' 5,
      thread_counter ''java.threads.livePeak'' 7, thread_counter ''java.threads.daemon'' 2,
      event_counter ''sun.gc.x'' 1,
      event_counter ''java.cls.loadedClasses'' 100, event_counter ''java.cls.sharedLoadedClasses'' 10,
      event_counter ''java.cls.unloadedClasses'' 3, event_counter ''java.cls.sharedUnloadedClasses'' 1]"

lemma required_new_eq: "required_new = [None, None, None, None, None, None, None, None]"
  by (simp add: required_new_def numeral_eq_Suc)

lemma list_update_numeral: "(x # xs)[numeral k := y] = x # xs[pred_numeral k := y]"
  by (simp add: numeral_eq_Suc)

theorem perf_parse_round_trip_witness:
  "perf_parse (print_file Little sample_counters @ ''junk'') =
     ok \<lparr>threads_started_total = 9, threads_live = 5, threads_peak = 7, threads_daemon = 2,
         classes_loaded = 106, classes_unloaded_total = 4\<rparr>"
proof -
  have 1: "list_all entry_ok sample_counters"
    by (simp add: sample_counters_def entry_ok_def thread_counter_def event_counter_def utf8_valid_ascii)
  have 2: "length (print_file Little sample_counters @ ''junk'') \<le> 1024 * 1024"
    by (simp add: print_file_def Let_def length_print_entry sample_counters_def data_off_def name_pad_def
        thread_counter_def event_counter_def)
  have "collect sample_counters required_new =
      ok [Some 9, Some 5, Some 7, Some 2, Some 100, Some 10, Some 3, Some 1]"
    by (simp add: sample_counters_def thread_counter_def event_counter_def required_index_def required_insert_def
        required_new_eq index_at_def list_update_numeral)
  then have "try_bind (collect sample_counters required_new) required_finish =
     ok \<lparr>threads_started_total = 9, threads_live = 5, threads_peak = 7, threads_daemon = 2,
         classes_loaded = 106, classes_unloaded_total = 4\<rparr>"
    by (simp add: index_at_def required_finish_def Let_def checked_add64_def checked_sub64_def)
  then show ?thesis
    using perf_parse_round_trip [OF 1 _ 2] by (simp add: sample_counters_def)
qed

end
