(* ===== verification/Jvm_Worker.thy ===== *)
theory Jvm_Worker
  imports Jvm_Perfdata
begin

text \<open>
  The wire format between the daemon and its isolated JVM worker
  (\<open>aic-common/src/jvm_perfdata.rs\<close>, from \<open>WorkerRequest\<close> on). The fixed-size arrays of a request
  are byte lists of the array's length (\<open>request_ok\<close>).
\<close>

section \<open>Messages\<close>

definition protocol_version :: u8 where
  "protocol_version = CHR 0x01"

definition request_body_len :: nat where
  "request_body_len = 62"

definition metrics_response_body_len :: nat where
  "metrics_response_body_len = 50"

definition failure_response_body_len :: nat where
  "failure_response_body_len = 3"

definition max_worker_frame_body :: nat where
  "max_worker_frame_body = 64 * 1024"

record worker_request =
  wr_pid :: u32
  wr_start_ticks :: u64
  wr_selector_digest_version :: u8
  wr_selector_digest :: bytes
  wr_opaque_workload_id :: bytes

datatype worker_failure = Unreachable | Rejected | MalformedFile

datatype worker_response = MetricsResponse jvm_metrics | FailureResponse worker_failure

datatype codec_error = FrameTooLarge | Truncated | TrailingData | UnsupportedVersion | InvalidFrame

section \<open>Frames\<close>

definition worker_frame :: "bytes \<Rightarrow> bytes" where
  "worker_frame body = to_be 4 (length body mod 2 ^ 32) @ body"

definition decode_variable_frame_body :: "bytes \<Rightarrow> (codec_error, bytes) result" where
  "decode_variable_frame_body fr =
     try_bind (ok_or Truncated (get_range 0 4 fr)) (\<lambda>pre.
     (let declared = of_be pre in
      if max_worker_frame_body < declared then err FrameTooLarge else
      try_bind (ok_or FrameTooLarge (checked_add_usize 4 declared)) (\<lambda>total.
      if length fr < total then err Truncated else
      if total < length fr then err TrailingData else
      lift_rs (index_range 4 total fr))))"

definition decode_frame_body :: "bytes \<Rightarrow> nat \<Rightarrow> (codec_error, bytes) result" where
  "decode_frame_body fr expected =
     try_bind (decode_variable_frame_body fr) (\<lambda>body.
     if length body \<noteq> expected then err (if length body < expected then Truncated else InvalidFrame)
     else ok body)"

section \<open>Requests\<close>

definition encode_request :: "worker_request \<Rightarrow> bytes" where
  "encode_request r =
     worker_frame ([protocol_version] @ to_be 4 (unat (wr_pid r)) @ to_be 8 (unat (wr_start_ticks r)) @
       [wr_selector_digest_version r] @ wr_selector_digest r @ wr_opaque_workload_id r)"

definition decode_request :: "bytes \<Rightarrow> (codec_error, worker_request) result" where
  "decode_request fr =
     try_bind (decode_frame_body fr request_body_len) (\<lambda>body.
     try_bind (lift_rs (index_at 0 body)) (\<lambda>version.
     if version \<noteq> protocol_version then err UnsupportedVersion else
     try_bind (lift_rs (index_range 1 5 body)) (\<lambda>pid.
     try_bind (lift_rs (index_range 5 13 body)) (\<lambda>ticks.
     try_bind (lift_rs (index_at 13 body)) (\<lambda>digest_version.
     try_bind (lift_rs (index_range 14 46 body)) (\<lambda>digest.
     try_bind (lift_rs (index_range 46 62 body)) (\<lambda>opaque.
     ok \<lparr>wr_pid = word_of_nat (of_be pid), wr_start_ticks = word_of_nat (of_be ticks),
         wr_selector_digest_version = digest_version, wr_selector_digest = digest,
         wr_opaque_workload_id = opaque\<rparr>)))))))"

section \<open>Responses\<close>

definition metric_values :: "jvm_metrics \<Rightarrow> u64 list" where
  "metric_values m = [threads_started_total m, threads_live m, threads_peak m, threads_daemon m,
     classes_loaded m, classes_unloaded_total m]"

fun failure_byte :: "worker_failure \<Rightarrow> u8" where
  "failure_byte Unreachable = CHR 0x00"
| "failure_byte Rejected = CHR 0x01"
| "failure_byte MalformedFile = CHR 0x02"

fun encode_response :: "worker_response \<Rightarrow> bytes" where
  "encode_response (MetricsResponse m) =
     worker_frame ([protocol_version, CHR 0x00] @ concat (map (\<lambda>v. to_be 8 (unat v)) (metric_values m)))"
| "encode_response (FailureResponse f) = worker_frame [protocol_version, CHR 0x01, failure_byte f]"

definition decode_failure :: "u8 \<Rightarrow> (codec_error, worker_response) result" where
  "decode_failure b =
     (if b = CHR 0x00 then ok (FailureResponse Unreachable)
      else if b = CHR 0x01 then ok (FailureResponse Rejected)
      else if b = CHR 0x02 then ok (FailureResponse MalformedFile)
      else err InvalidFrame)"

text \<open>The loop over the six slots: slot \<open>i\<close> is read at \<open>2 + i * 8\<close>.\<close>

fun decode_values :: "bytes \<Rightarrow> nat list \<Rightarrow> (codec_error, u64 list) result" where
  "decode_values body [] = ok []"
| "decode_values body (i # is) =
     try_bind (lift_rs (index_range (2 + i * 8) (2 + i * 8 + 8) body)) (\<lambda>raw.
     try_bind (decode_values body is) (\<lambda>vs. ok (word_of_nat (of_be raw) # vs)))"

fun metrics_of :: "u64 list \<Rightarrow> jvm_metrics rs" where
  "metrics_of [a, b, c, d, e, f] =
     Val \<lparr>threads_started_total = a, threads_live = b, threads_peak = c, threads_daemon = d,
       classes_loaded = e, classes_unloaded_total = f\<rparr>"
| "metrics_of _ = Panic"

definition decode_response :: "bytes \<Rightarrow> (codec_error, worker_response) result" where
  "decode_response fr =
     try_bind (decode_variable_frame_body fr) (\<lambda>body.
     case body of
       [] \<Rightarrow> err Truncated
     | version # rest \<Rightarrow>
       if version \<noteq> protocol_version then err UnsupportedVersion else
       (case rest of
          [] \<Rightarrow> err Truncated
        | tag # _ \<Rightarrow>
          if tag = CHR 0x00 \<and> length body = metrics_response_body_len then
            try_bind (decode_values body [0..<6]) (\<lambda>vs.
            try_bind (lift_rs (metrics_of vs)) (\<lambda>m. ok (MetricsResponse m)))
          else if tag = CHR 0x01 \<and> length body = failure_response_body_len then
            try_bind (lift_rs (index_at 2 body)) decode_failure
          else err InvalidFrame))"

section \<open>Lemmas\<close>

definition request_ok :: "worker_request \<Rightarrow> bool" where
  "request_ok r \<longleftrightarrow> length (wr_selector_digest r) = 32 \<and> length (wr_opaque_workload_id r) = 16"

lemma decode_body_iff:
  "decode_variable_frame_body fr = ok body \<longleftrightarrow> fr = worker_frame body \<and> length body \<le> max_worker_frame_body"
proof
  assume d: "decode_variable_frame_body fr = ok body"
  then have len: "4 \<le> length fr" and le: "of_be (take 4 fr) \<le> max_worker_frame_body"
    and tot: "length fr = 4 + of_be (take 4 fr)" and body: "body = drop 4 fr"
    by (auto simp: decode_variable_frame_body_def try_bind_ok_iff Let_def get_range_def index_range_def
        checked_add_usize_def split: if_splits)
  have lb: "length body = of_be (take 4 fr)" using tot body by simp
  have "to_be 4 (length body) = take 4 fr" using to_be_of_be [of "take 4 fr"] len by (simp add: lb)
  then have "worker_frame body = take 4 fr @ drop 4 fr"
    using le lb by (simp add: worker_frame_def max_worker_frame_body_def body del: append_take_drop_id)
  then show "fr = worker_frame body \<and> length body \<le> max_worker_frame_body" using le lb by simp
next
  assume a: "fr = worker_frame body \<and> length body \<le> max_worker_frame_body"
  then have "length body < 2 ^ 32" by (simp add: max_worker_frame_body_def)
  with a show "decode_variable_frame_body fr = ok body"
    by (simp add: decode_variable_frame_body_def worker_frame_def get_range_def index_range_def
        checked_add_usize_def max_worker_frame_body_def)
qed

lemma safe_decode_body: "safe (decode_variable_frame_body fr) (\<lambda>body. length body \<le> max_worker_frame_body)"
  unfolding decode_variable_frame_body_def Let_def
  by (intro safe_bind [OF safe_ok_or] safe_if)
    (auto simp: checked_add_usize_def get_range_def index_range_def split: if_splits)

lemma safe_decode_request: "safe (decode_request fr) request_ok"
  unfolding decode_request_def decode_frame_body_def
  by (intro safe_bind [OF safe_decode_body] safe_bind [OF safe_index_range] safe_bind [OF safe_index_at] safe_if
      safe_bind [where P = "\<lambda>body. length body = request_body_len"])
    (auto simp: request_body_len_def request_ok_def intro: safe_bind [OF safe_decode_body])

lemma safe_decode_values:
  "list_all (\<lambda>i. 2 + i * 8 + 8 \<le> length body) is \<Longrightarrow> safe (decode_values body is) (\<lambda>vs. length vs = length is)"
proof (induction "is")
  case (Cons i "is")
  then show ?case
    unfolding decode_values.simps
    by (intro safe_bind [OF safe_index_range] safe_bind [OF Cons.IH]) auto
qed simp

lemma to_be_word32: "length b = 4 \<Longrightarrow> to_be 4 (unat (word_of_nat (of_be b) :: u32)) = b"
  using of_be_less [of b] to_be_of_be [of b] by (simp add: unat_of_nat)

lemma to_be_word64: "length b = 8 \<Longrightarrow> to_be 8 (unat (word_of_nat (of_be b) :: u64)) = b"
  using of_be_less [of b] to_be_of_be [of b] by (simp add: unat_of_nat)

lemma word32_to_be: "word_of_nat (of_be (to_be 4 (unat w))) = (w :: u32)"
  using unat32_less [of w] by simp

lemma word64_to_be: "word_of_nat (of_be (to_be 8 (unat w))) = (w :: u64)"
  using unat64_less [of w] by simp

lemma request_body_cut:
  assumes "length body = 62"
  shows "body = [body ! 0] @ take 4 (drop 1 body) @ take 8 (drop 5 body) @ [body ! 13] @
    take 32 (drop 14 body) @ take 16 (drop 46 body)"
proof -
  have "body = body ! 0 # drop 1 body" using assms by (metis Cons_nth_drop_Suc One_nat_def drop0 zero_less_numeral)
  moreover have "drop 1 body = take 4 (drop 1 body) @ drop 5 body" using drop_cut [of 1 5 body] by simp
  moreover have "drop 5 body = take 8 (drop 5 body) @ drop 13 body" using drop_cut [of 5 13 body] by simp
  moreover have "drop 13 body = body ! 13 # drop 14 body" using assms Cons_nth_drop_Suc [of 13 body] by simp
  moreover have "drop 14 body = take 32 (drop 14 body) @ drop 46 body" using drop_cut [of 14 46 body] by simp
  moreover have "drop 46 body = take 16 (drop 46 body)" using assms by simp
  ultimately show ?thesis by (metis append_Cons append_Nil)
qed

lemma decode_encode_request:
  assumes "request_ok r"
  shows "decode_request (encode_request r) = ok r"
proof -
  let ?p = "to_be 4 (unat (wr_pid r))" and ?t = "to_be 8 (unat (wr_start_ticks r))"
    and ?v = "[wr_selector_digest_version r]" and ?d = "wr_selector_digest r" and ?o = "wr_opaque_workload_id r"
  define body where body: "body = [protocol_version] @ ?p @ ?t @ ?v @ ?d @ ?o"
  have len: "length ?d = 32" "length ?o = 16" using assms by (simp_all add: request_ok_def)
  have "decode_variable_frame_body (encode_request r) = ok body"
    unfolding decode_body_iff using len by (simp add: encode_request_def body max_worker_frame_body_def)
  moreover have "index_at 0 body = Val protocol_version" "index_at 13 body = Val (wr_selector_digest_version r)"
    by (simp_all add: body index_at_def nth_append nth_Cons')
  moreover have "index_range 1 5 body = Val ?p" unfolding body by (rule index_range_mid) simp_all
  moreover have "index_range 5 13 body = Val ?t"
    using index_range_mid [of "[protocol_version] @ ?p" 5 13 ?t "?v @ ?d @ ?o"] by (simp add: body)
  moreover have "index_range 14 46 body = Val ?d"
    using index_range_mid [of "[protocol_version] @ ?p @ ?t @ ?v" 14 46 ?d ?o] len by (simp add: body)
  moreover have "index_range 46 62 body = Val ?o"
    using index_range_mid [of "[protocol_version] @ ?p @ ?t @ ?v @ ?d" 46 62 ?o "[]"] len by (simp add: body)
  moreover have "length body = 62" using len by (simp add: body)
  ultimately show ?thesis
    by (simp add: decode_request_def decode_frame_body_def request_body_len_def word32_to_be word64_to_be
        del: of_be_to_be)
qed

lemma encode_decode_request:
  assumes "decode_request fr = ok r"
  shows "fr = encode_request r"
proof -
  from assms obtain body where b: "decode_variable_frame_body fr = ok body" "length body = 62"
    and v: "body ! 0 = protocol_version"
    and r: "r = \<lparr>wr_pid = word_of_nat (of_be (take 4 (drop 1 body))),
        wr_start_ticks = word_of_nat (of_be (take 8 (drop 5 body))),
        wr_selector_digest_version = body ! 13, wr_selector_digest = take 32 (drop 14 body),
        wr_opaque_workload_id = take 16 (drop 46 body)\<rparr>"
    by (auto simp: decode_request_def decode_frame_body_def try_bind_ok_iff request_body_len_def
        index_range_ok_iff index_at_ok_iff split: if_splits)
  from b(2) have "encode_request r = worker_frame body"
    using request_body_cut [OF b(2)] v by (simp add: encode_request_def r to_be_word32 to_be_word64)
  with b(1) show ?thesis by (simp add: decode_body_iff)
qed

lemma decode_values_upt:
  "2 + 8 * (k + d) \<le> length body \<Longrightarrow> \<exists>vs. decode_values body [k..<k + d] = ok vs \<and> length vs = d \<and>
     concat (map (\<lambda>v. to_be 8 (unat v)) vs) = take (8 * d) (drop (2 + 8 * k) body)"
proof (induction d arbitrary: k)
  case 0
  then show ?case by simp
next
  case (Suc d)
  from Suc.IH [of "Suc k"] Suc.prems obtain vs where vs: "decode_values body [Suc k..<Suc k + d] = ok vs" "length vs = d"
    "concat (map (\<lambda>v. to_be 8 (unat v)) vs) = take (8 * d) (drop (10 + 8 * k) body)"
    by auto
  let ?raw = "take 8 (drop (2 + k * 8) body)"
  have raw: "index_range (2 + k * 8) (2 + k * 8 + 8) body = Val ?raw" "length ?raw = 8"
    using Suc.prems by (simp_all add: index_range_def)
  have "[k..<k + Suc d] = k # [Suc k..<Suc k + d]" by (simp add: upt_conv_Cons)
  then have "decode_values body [k..<k + Suc d] = ok (word_of_nat (of_be ?raw) # vs)"
    using raw(1) vs(1) by simp
  moreover have "take (8 * Suc d) (drop (2 + 8 * k) body) = ?raw @ take (8 * d) (drop (10 + 8 * k) body)"
    using take_add [of 8 "8 * d" "drop (2 + 8 * k) body"] by (simp only: drop_drop) (simp add: mult.commute)
  ultimately show ?case using vs raw(2) by (simp add: to_be_word64)
qed

lemma concat_to_be8_inj:
  "length vs = length ws \<Longrightarrow> concat (map (\<lambda>v. to_be 8 (unat v)) vs) = concat (map (\<lambda>v. to_be 8 (unat v)) ws) \<Longrightarrow>
     vs = (ws :: u64 list)"
proof (induction vs ws rule: list_induct2)
  case (Cons v vs w ws)
  then have "to_be 8 (unat v) = to_be 8 (unat w)" by simp
  then have "v = w" using word64_to_be by metis
  with Cons show ?case by simp
qed simp

lemma decode_response_cases:
  assumes "decode_response fr = ok resp"
  obtains (metrics) body m vs where "fr = worker_frame body" "length body = 50" "resp = MetricsResponse m"
      "body ! 0 = protocol_version" "body ! 1 = CHR 0x00" "decode_values body [0..<6] = ok vs" "metrics_of vs = Val m"
    | (failure) f where "fr = encode_response (FailureResponse f)" "resp = FailureResponse f"
proof -
  from assms obtain body where b: "decode_variable_frame_body fr = ok body"
    by (auto simp: decode_response_def try_bind_ok_iff)
  then have fr: "fr = worker_frame body" by (simp add: decode_body_iff)
  from assms b obtain version tag rest where body: "body = version # tag # rest" and v: "version = protocol_version"
    by (auto simp: decode_response_def split: list.splits if_splits)
  show ?thesis
  proof (cases "tag = CHR 0x00 \<and> length body = metrics_response_body_len")
    case True
    with assms b body v obtain vs m where "decode_values body [0..<6] = ok vs" "metrics_of vs = Val m"
      "resp = MetricsResponse m"
      by (auto simp: decode_response_def try_bind_ok_iff)
    with True body v show ?thesis
      by (intro metrics [of body m vs]) (simp_all add: fr metrics_response_body_len_def)
  next
    case False
    with assms b body v have t: "tag = CHR 0x01" "length body = 3" "decode_failure (body ! 2) = ok resp"
      by (auto simp: decode_response_def failure_response_body_len_def try_bind_ok_iff index_at_ok_iff split: if_splits)
    then obtain f where f: "resp = FailureResponse f" "body ! 2 = failure_byte f"
      by (auto simp: decode_failure_def split: if_splits)
    from t(2) body obtain x where "rest = [x]" by (cases rest) auto
    with f body t v have "body = [protocol_version, CHR 0x01, failure_byte f]" by simp
    with f show ?thesis by (intro failure) (simp_all add: fr)
  qed
qed

lemma length_six:
  assumes "length vs = 6"
  obtains a b c d e f where "vs = [a, b, c, d, e, f]"
proof -
  have "length vs = Suc (Suc (Suc (Suc (Suc (Suc 0)))))" using assms by simp
  then show ?thesis using that by (auto simp only: length_Suc_conv length_0_conv)
qed

lemma encode_decode_response:
  assumes "decode_response fr = ok resp"
  shows "fr = encode_response resp"
  using assms
proof (cases rule: decode_response_cases)
  case (metrics body m vs)
  then obtain vs' where v: "decode_values body [0..<6] = ok vs'" "length vs' = 6"
    "concat (map (\<lambda>v. to_be 8 (unat v)) vs') = take 48 (drop 2 body)"
    using decode_values_upt [of 0 6 body] by auto
  with metrics have eq: "vs' = vs" by simp
  from v(2) obtain a b c d e f where l: "vs' = [a, b, c, d, e, f]" by (rule length_six)
  with metrics eq have "metric_values m = vs'" by (auto simp: metric_values_def)
  moreover have "body = [body ! 0, body ! 1] @ drop 2 body"
    using metrics(2) by (cases body; cases "tl body") auto
  ultimately show ?thesis
    using metrics v by (simp del: concat.simps)
qed simp

lemma decode_encode_response: "decode_response (encode_response resp) = ok resp"
proof (cases resp)
  case (MetricsResponse m)
  define body where body: "body = [protocol_version, CHR 0x00] @ concat (map (\<lambda>v. to_be 8 (unat v)) (metric_values m))"
  have len: "length body = 50" by (simp add: body metric_values_def)
  have dec: "decode_variable_frame_body (encode_response resp) = ok body"
    unfolding decode_body_iff using len by (simp add: MetricsResponse body max_worker_frame_body_def)
  obtain vs where v: "decode_values body [0..<6] = ok vs" "length vs = 6"
    "concat (map (\<lambda>v. to_be 8 (unat v)) vs) = take 48 (drop 2 body)"
    using decode_values_upt [of 0 6 body] len by auto
  have "take 48 (drop 2 body) = concat (map (\<lambda>v. to_be 8 (unat v)) (metric_values m))"
    using len by (simp add: body)
  then have vs: "vs = metric_values m"
    using v by (intro concat_to_be8_inj) (simp_all add: metric_values_def)
  then have m: "metrics_of vs = Val m" by (simp add: metric_values_def)
  obtain rest where b: "body = protocol_version # CHR 0x00 # rest" by (simp add: body)
  show ?thesis
    using dec v(1) len m b MetricsResponse by (simp add: decode_response_def metrics_response_body_len_def)
next
  case (FailureResponse f)
  have "decode_variable_frame_body (encode_response resp) = ok [protocol_version, CHR 0x01, failure_byte f]"
    unfolding decode_body_iff by (simp add: FailureResponse max_worker_frame_body_def)
  then show ?thesis
    by (cases f) (simp_all add: FailureResponse decode_response_def metrics_response_body_len_def
        failure_response_body_len_def index_at_def decode_failure_def)
qed

lemma safe_decode_response: "safe (decode_response fr) (\<lambda>_. True)"
proof (unfold decode_response_def, rule safe_bind [OF safe_decode_body], goal_cases)
  case (1 body)
  have vals: "safe (decode_values body [0..<6]) (\<lambda>vs. length vs = 6)" if "length body = 50"
    using decode_values_upt [of 0 6 body] that by auto
  have metrics: "safe (try_bind (decode_values body [0..<6]) (\<lambda>vs. try_bind (lift_rs (metrics_of vs)) (\<lambda>m. ok (MetricsResponse m)))) (\<lambda>_. True)"
    if "length body = 50"
    by (rule safe_bind [OF vals [OF that]], elim length_six) simp
  have fail: "safe (decode_failure b) (\<lambda>_. True)" for b
    by (simp add: decode_failure_def)
  show ?case
    using metrics by (auto split: list.split intro!: safe_bind [OF safe_index_at] fail
        simp: metrics_response_body_len_def failure_response_body_len_def)
qed

section \<open>Properties\<close>

text \<open>
  Further property (roundtrip). The worker's wire format is exact in both directions: a request or response is
  decoded from a byte string if and only if the byte string is its encoding, so nothing else is
  ever accepted and every message is read back as it was sent.
\<close>

theorem worker_codec_exact:
  "(decode_request fr = ok r \<longleftrightarrow> request_ok r \<and> fr = encode_request r) \<and>
   (decode_response fr = ok resp \<longleftrightarrow> fr = encode_response resp)"
  using safe_decode_request [of fr] encode_decode_request [of fr r] decode_encode_request [of r]
    encode_decode_response [of fr resp] decode_encode_response [of resp]
  by (auto dest: safe_ok_D)

text \<open>
  Further property (safety). No byte string makes either side of the worker protocol panic, and a decoded
  request has digests of the fixed sizes.
\<close>

theorem worker_codec_never_panics:
  "safe (decode_request fr) request_ok \<and> returns (decode_response fr)"
  using safe_decode_request safe_decode_response by (auto intro: safe_returns)

end
