(* ===== verification/Semver.thy ===== *)
theory Semver
  imports Rust_Text Rust_Str "HOL-Library.Product_Lexorder"
begin

text \<open>
  Version comparison shared by \<open>aic update\<close> and the daemon's self-update
  (\<open>aic-common/src/semver.rs\<close>).
\<close>

section \<open>Parsing and comparing\<close>

text \<open>\<open>strip_prefix('v')\<close> and the cut before the first \<open>-\<close> or \<open>+\<close>.\<close>

definition version_core :: "str \<Rightarrow> str" where
  "version_core v =
     (let v1 = trim v;
          v2 = (case v1 of c # cs \<Rightarrow> if c = CHR ''v'' then cs else v1 | [] \<Rightarrow> v1)
      in case find_byte (\<lambda>c. c = CHR ''-'' \<or> c = CHR ''+'') v2 of Some i \<Rightarrow> take i v2 | None \<Rightarrow> v2)"

text \<open>One slot: its number and whether it was missing or unreadable.\<close>

definition version_slot :: "str list \<Rightarrow> nat \<Rightarrow> nat \<times> bool" where
  "version_slot parts i =
     (if length parts \<le> i then (0, True)
      else case parse_unsigned u32_max 10 (parts ! i) of Some n \<Rightarrow> (n, False) | None \<Rightarrow> (0, True))"

definition parse_version :: "str \<Rightarrow> (nat \<times> nat \<times> nat) \<times> bool" where
  "parse_version v =
     (let parts = split_on (CHR ''.'') (version_core v);
          a = version_slot parts 0; b = version_slot parts 1; c = version_slot parts 2
      in ((fst a, fst b, fst c), snd a \<or> snd b \<or> snd c))"

fun compare_slots :: "(nat \<times> nat) list \<Rightarrow> int option" where
  "compare_slots [] = None"
| "compare_slots ((a, b) # rest) = (if a < b then Some (- 1) else if b < a then Some 1 else compare_slots rest)"

definition version_compare :: "str \<Rightarrow> str \<Rightarrow> int" where
  "version_compare a b =
     (case (parse_version a, parse_version b) of
        (((a0, a1, a2), a_dirty), ((b0, b1, b2), b_dirty)) \<Rightarrow>
          (case compare_slots [(a0, b0), (a1, b1), (a2, b2)] of
             Some r \<Rightarrow> r
           | None \<Rightarrow> if a_dirty \<and> \<not> b_dirty then - 1 else if \<not> a_dirty \<and> b_dirty then 1 else 0))"

section \<open>Lemmas\<close>

text \<open>The key a version is ordered by: its three numbers, then whether all three were readable.\<close>

definition version_key :: "str \<Rightarrow> (nat \<times> nat \<times> nat) \<times> bool" where
  "version_key v = (fst (parse_version v), \<not> snd (parse_version v))"

lemma version_compare_key:
  "version_compare a b =
     (if version_key a < version_key b then - 1 else if version_key b < version_key a then 1 else 0)"
proof -
  obtain a0 a1 a2 ad b0 b1 b2 bd where
    "parse_version a = ((a0, a1, a2), ad)" "parse_version b = ((b0, b1, b2), bd)"
    by (metis prod.exhaust)
  then show ?thesis by (auto simp: version_compare_def version_key_def)
qed

definition version_text :: "nat \<Rightarrow> nat \<Rightarrow> nat \<Rightarrow> str" where
  "version_text a b c = dec a @ CHR ''.'' # dec b @ CHR ''.'' # dec c"

definition suffix_ok :: "str \<Rightarrow> bool" where
  "suffix_ok s \<longleftrightarrow> s = [] \<or> ((hd s = CHR ''-'' \<or> hd s = CHR ''+'') \<and> last s \<notin> set ws_edge)"

lemma dec_not: "byte_val x < 48 \<or> 57 < byte_val x \<Longrightarrow> x \<notin> set (dec n)"
  using dec_digits [of n] by auto

lemma version_text_core:
  assumes "suffix_ok s" and "pre = [] \<or> pre = ''v''"
  shows "version_core (pre @ version_text a b c @ s) = version_text a b c"
proof -
  let ?t = "version_text a b c"
  have plain: "\<forall>x\<in>set ?t. \<not> (x = CHR ''-'' \<or> x = CHR ''+'')"
    using dec_not [of "CHR ''-''"] dec_not [of "CHR ''+''"] by (auto simp: version_text_def)
  have ne: "?t \<noteq> []" by (simp add: version_text_def)
  have hd: "hd ?t \<notin> set ws_edge" "hd ?t \<noteq> CHR ''v''"
    using dec_nonempty [of a] dec_no_edge [of "hd (dec a)" a] dec_not [of "CHR ''v''" a]
    by (auto simp: version_text_def hd_append) (metis hd_in_set)
  have last: "last ?t \<notin> set ws_edge"
    using dec_nonempty [of c] dec_no_edge [of "last (dec c)" c] by (simp add: version_text_def)
  have v: "CHR ''v'' \<notin> set ws_edge" by (simp add: ws_edge_def ascii_ws_def wide_ws_def)
  have "trim (pre @ ?t @ s) = pre @ ?t @ s"
    by (rule trim_no_edge) (use assms ne hd last v in \<open>auto simp: suffix_ok_def hd_append last_append\<close>)
  moreover have "find_byte (\<lambda>c. c = CHR ''-'' \<or> c = CHR ''+'') (?t @ s) = (if s = [] then None else Some (length ?t))"
  proof (cases s)
    case Nil
    then show ?thesis using plain by (simp add: find_byte_None)
  next
    case (Cons x xs)
    then show ?thesis
      using assms(1) find_byte_append [OF plain, of x xs] by (simp add: suffix_ok_def)
  qed
  moreover obtain x xs where "?t = x # xs" "x \<noteq> CHR ''v''" using ne hd(2) by (cases ?t) auto
  ultimately show ?thesis
    using assms(2) by (elim disjE) (simp_all add: version_core_def)
qed

lemma parse_version_text:
  assumes "suffix_ok s" "pre = [] \<or> pre = ''v''" "a \<le> u32_max" "b \<le> u32_max" "c \<le> u32_max"
  shows "parse_version (pre @ version_text a b c @ s) = ((a, b, c), False)"
proof -
  have "split_on (CHR ''.'') (version_text a b c) = [dec a, dec b, dec c]"
    by (simp add: version_text_def split_on_append split_on_absent dec_not)
  then show ?thesis
    using assms by (simp add: parse_version_def version_text_core version_slot_def parse_unsigned_dec Let_def
        del: dec.simps)
qed

section \<open>Properties\<close>

text \<open>
  Further property (functional). Comparison is a total preorder on all strings, readable or not: it is the
  lexicographic order of the three numbers and then of readability, so it is antisymmetric in
  sign and transitive, and the CLI and the daemon can never disagree about which of two
  versions is newer.
\<close>

theorem version_compare_order:
  "version_compare a b = - version_compare b a \<and>
   (version_compare a b \<le> 0 \<and> version_compare b c \<le> 0 \<longrightarrow> version_compare a c \<le> 0) \<and>
   version_compare a b \<in> {- 1, 0, 1}"
  by (auto simp: version_compare_key split: if_splits)

theorem version_compare_order_witness:
  "version_compare ''v1.2.3'' ''v1.2.3'' = 0 \<and> version_compare ''v1.2.3'' ''v1.2.3'' \<le> 0"
  using version_compare_order [of "''v1.2.3''" "''v1.2.3''" "''v1.2.3''"] by auto

text \<open>
  Further property (roundtrip). For release versions of three numbers, with or without the \<open>v\<close> prefix and any
  pre-release or build suffix, comparison is numeric: the suffix never counts, so a release
  candidate compares equal to its release.
\<close>

theorem version_compare_releases:
  assumes "suffix_ok s" "suffix_ok s'" "pre \<in> {[], ''v''}" "pre' \<in> {[], ''v''}"
    and "max a (max b c) \<le> u32_max" "max a' (max b' c') \<le> u32_max"
  shows "version_compare (pre @ version_text a b c @ s) (pre' @ version_text a' b' c' @ s') =
    (if (a, b, c) < (a', b', c') then - 1 else if (a', b', c') < (a, b, c) then 1 else 0)"
  using assms by (simp add: version_compare_key version_key_def parse_version_text less_prod_def')

theorem version_compare_releases_witness:
  "version_compare (''v'' @ version_text 0 41 5 @ ''-rc.1'') ([] @ version_text 0 41 5 @ []) = 0"
  using version_compare_releases [of "''-rc.1''" "[]" "''v''" "[]" 0 41 5 0 41 5]
  by (simp add: suffix_ok_def ws_edge_def ascii_ws_def wide_ws_def)

end
