(* ===== verification/Disk_Io.thy ===== *)
theory Disk_Io
  imports Hash_Map
begin

text \<open>
  Disk I/O deltas per device (\<open>aic-common/src/disk_io.rs\<close>): cumulative counters are sampled, the
  duplicates of one sample collapsed, and the growth since the previous sample summed with
  saturation.
\<close>

section \<open>The tracker\<close>

record disk_io_delta =
  di_read_bytes :: u64
  di_written_bytes :: u64

definition delta_zero :: disk_io_delta where
  "delta_zero = \<lparr>di_read_bytes = 0, di_written_bytes = 0\<rparr>"

record 'k disk_io_tracker =
  dt_previous :: "('k, disk_io_delta) hash_map"
  dt_initialized :: bool

definition tracker_new :: "'k disk_io_tracker" where
  "tracker_new = \<lparr>dt_previous = [], dt_initialized = False\<rparr>"

definition raise_entry :: "('k, disk_io_delta) hash_map \<Rightarrow> 'k \<times> u64 \<times> u64 \<Rightarrow> ('k, disk_io_delta) hash_map" where
  "raise_entry m c =
     (case c of (device, r, w) \<Rightarrow>
       (let entry = (case hm_get m device of Some e \<Rightarrow> e | None \<Rightarrow> delta_zero) in
        hm_insert device \<lparr>di_read_bytes = max (di_read_bytes entry) r, di_written_bytes = max (di_written_bytes entry) w\<rparr> m))"

definition collapse :: "('k \<times> u64 \<times> u64) list \<Rightarrow> ('k, disk_io_delta) hash_map" where
  "collapse counters = foldl raise_entry [] counters"

definition add_growth :: "('k, disk_io_delta) hash_map \<Rightarrow> disk_io_delta \<Rightarrow> 'k \<times> disk_io_delta \<Rightarrow> disk_io_delta" where
  "add_growth previous acc entry =
     (case hm_get previous (fst entry) of
        None \<Rightarrow> acc
      | Some before \<Rightarrow>
        \<lparr>di_read_bytes = sat_add64 (di_read_bytes acc) (sat_sub64 (di_read_bytes (snd entry)) (di_read_bytes before)),
         di_written_bytes = sat_add64 (di_written_bytes acc) (sat_sub64 (di_written_bytes (snd entry)) (di_written_bytes before))\<rparr>)"

definition disk_sample :: "'k disk_io_tracker \<Rightarrow> ('k \<times> u64 \<times> u64) list \<Rightarrow> 'k disk_io_tracker \<times> disk_io_delta option" where
  "disk_sample t counters =
     (let current = collapse counters in
      (\<lparr>dt_previous = current, dt_initialized = True\<rparr>,
       if dt_initialized t then Some (foldl (add_growth (dt_previous t)) delta_zero current) else None))"

section \<open>Lemmas\<close>

text \<open>The counter of one device after collapsing: the largest of its values in the sample.\<close>

definition reads_of :: "'k \<Rightarrow> ('k \<times> u64 \<times> u64) list \<Rightarrow> nat list" where
  "reads_of d cs = map (\<lambda>(_, r, _). unat r) (filter (\<lambda>c. fst c = d) cs)"

definition writes_of :: "'k \<Rightarrow> ('k \<times> u64 \<times> u64) list \<Rightarrow> nat list" where
  "writes_of d cs = map (\<lambda>(_, _, w). unat w) (filter (\<lambda>c. fst c = d) cs)"

definition max_of :: "nat list \<Rightarrow> nat" where
  "max_of ns = foldr max ns 0"

lemma max_of_simps [simp]: "max_of [] = 0" "max_of (n # ns) = max n (max_of ns)"
  by (simp_all add: max_of_def)

lemma max_of_snoc [simp]: "max_of (ns @ [n]) = max (max_of ns) n"
  by (induction ns) (auto simp: max.assoc)

lemma unat_max: "unat (max a b :: u64) = max (unat a) (unat b)"
  by (simp add: max_def word_le_nat_alt)

lemma hm_ok_collapse: "hm_ok (collapse cs)"
proof -
  have "hm_ok m \<Longrightarrow> hm_ok (foldl raise_entry m cs)" for m
    by (induction cs arbitrary: m) (auto simp: raise_entry_def Let_def split: prod.splits)
  then show ?thesis by (simp add: collapse_def)
qed

lemma collapse_snoc: "collapse (cs @ [c]) = raise_entry (collapse cs) c"
  by (simp add: collapse_def)

lemma hm_get_raise:
  "hm_get (raise_entry m (d', r, w)) d =
     (if d = d' then Some (let e = (case hm_get m d of Some e \<Rightarrow> e | None \<Rightarrow> delta_zero) in
        \<lparr>di_read_bytes = max (di_read_bytes e) r, di_written_bytes = max (di_written_bytes e) w\<rparr>)
      else hm_get m d)"
  by (simp add: raise_entry_def Let_def)

lemma hm_get_collapse:
  "case hm_get (collapse cs) d of
     None \<Rightarrow> d \<notin> fst ` set cs
   | Some e \<Rightarrow> d \<in> fst ` set cs \<and> unat (di_read_bytes e) = max_of (reads_of d cs) \<and>
       unat (di_written_bytes e) = max_of (writes_of d cs)"
proof (induction cs rule: rev_induct)
  case Nil
  then show ?case by (simp add: collapse_def)
next
  case (snoc c cs)
  obtain d' r w where c: "c = (d', r, w)" by (metis prod.exhaust)
  have none: "d \<notin> fst ` set cs \<Longrightarrow> reads_of d cs = [] \<and> writes_of d cs = []"
    by (auto simp: reads_of_def writes_of_def filter_empty_conv image_iff)
  show ?case
    using snoc.IH none
    by (auto simp: collapse_snoc c hm_get_raise Let_def reads_of_def writes_of_def unat_max delta_zero_def
        split: option.splits)
qed

text \<open>The growth one entry of a sample adds.\<close>

definition growth :: "(disk_io_delta \<Rightarrow> u64) \<Rightarrow> ('k, disk_io_delta) hash_map \<Rightarrow> 'k \<times> disk_io_delta \<Rightarrow> nat" where
  "growth f previous entry =
     (case hm_get previous (fst entry) of None \<Rightarrow> 0 | Some b \<Rightarrow> unat (f (snd entry)) - unat (f b))"

lemma add_growth_sat:
  "unat (di_read_bytes (add_growth p acc e)) = min (2 ^ 64 - 1) (unat (di_read_bytes acc) + growth di_read_bytes p e)"
  "unat (di_written_bytes (add_growth p acc e)) = min (2 ^ 64 - 1) (unat (di_written_bytes acc) + growth di_written_bytes p e)"
  using unat64_less [of "di_read_bytes acc"] unat64_less [of "di_written_bytes acc"]
  by (auto simp: add_growth_def growth_def unat_sat_add64 unat_sat_sub64 split: option.splits)

lemma foldl_add_growth:
  "unat (di_read_bytes (foldl (add_growth p) acc es)) =
     min (2 ^ 64 - 1) (unat (di_read_bytes acc) + sum_list (map (growth di_read_bytes p) es)) \<and>
   unat (di_written_bytes (foldl (add_growth p) acc es)) =
     min (2 ^ 64 - 1) (unat (di_written_bytes acc) + sum_list (map (growth di_written_bytes p) es))"
proof (induction es arbitrary: acc)
  case Nil
  then show ?case
    using unat64_less [of "di_read_bytes acc"] unat64_less [of "di_written_bytes acc"] by auto
next
  case (Cons e es)
  show ?case
    using Cons.IH [of "add_growth p acc e"] by (simp add: add_growth_sat del: One_nat_def) linarith
qed

lemma sum_list_keys:
  "distinct (map fst es) \<Longrightarrow> sum_list (map g es) = (\<Sum>d\<in>fst ` set es. g (d, the (hm_get es d)))"
proof -
  assume d: "distinct (map fst es)"
  have "sum_list (map g es) = (\<Sum>e\<in>set es. g e)"
    using d by (simp add: sum_list_distinct_conv_sum_set distinct_map)
  also have "\<dots> = (\<Sum>e\<in>set es. g (fst e, the (hm_get es (fst e))))"
    using d by (intro sum.cong) auto
  also have "\<dots> = (\<Sum>k\<in>fst ` set es. g (k, the (hm_get es k)))"
    using d by (simp add: sum.reindex distinct_map)
  finally show ?thesis .
qed

text \<open>The growth of one device between two samples, for a counter and the values it has in a sample.\<close>

definition device_growth :: "('k \<Rightarrow> ('k \<times> u64 \<times> u64) list \<Rightarrow> nat list) \<Rightarrow> ('k \<times> u64 \<times> u64) list \<Rightarrow> ('k \<times> u64 \<times> u64) list \<Rightarrow> nat" where
  "device_growth vals before now =
     (\<Sum>d\<in>fst ` set before \<inter> fst ` set now. max_of (vals d now) - max_of (vals d before))"

lemma keys_collapse: "fst ` set (collapse cs) = fst ` set cs"
proof -
  have "d \<in> fst ` set (collapse cs) \<longleftrightarrow> d \<in> fst ` set cs" for d
    using hm_get_collapse [of d cs] map_of_eq_None_iff [of "collapse cs" d] by (auto split: option.splits)
  then show ?thesis by blast
qed

lemma total_growth:
  assumes val: "\<And>cs d e. hm_get (collapse cs) d = Some e \<Longrightarrow> unat (f e) = max_of (vals d cs)"
  shows "sum_list (map (growth f (collapse before)) (collapse now)) = device_growth vals before now"
proof -
  have one: "growth f (collapse before) (d, the (hm_get (collapse now) d)) =
      (if d \<in> fst ` set before then max_of (vals d now) - max_of (vals d before) else 0)" if "d \<in> fst ` set now" for d
    using hm_get_collapse [of d now] hm_get_collapse [of d before] that val [of before d] val [of now d]
    by (auto simp: growth_def split: option.splits)
  have "sum_list (map (growth f (collapse before)) (collapse now)) =
      (\<Sum>d\<in>fst ` set now. growth f (collapse before) (d, the (hm_get (collapse now) d)))"
    using sum_list_keys [of "collapse now"] hm_ok_collapse [of now] by (simp add: hm_ok_def keys_collapse)
  also have "\<dots> = (\<Sum>d\<in>fst ` set now. if d \<in> fst ` set before then max_of (vals d now) - max_of (vals d before) else 0)"
    using one by (intro sum.cong) auto
  also have "\<dots> = device_growth vals before now"
    unfolding device_growth_def by (simp add: sum.inter_restrict [symmetric] Int_commute)
  finally show ?thesis .
qed

section \<open>Properties\<close>

text \<open>
  Further property (functional). Two samples in a row report exactly the growth of the devices present in
  both, with the duplicates of a device collapsed to its largest value, a counter that went
  back counted as no growth, and the sum capped at the largest 64-bit number. The report does
  not depend on the order of either sample. A first sample reports nothing.
\<close>

theorem disk_delta_exact:
  "snd (disk_sample tracker_new before) = None \<and>
   (\<exists>\<delta>. snd (disk_sample (fst (disk_sample t before)) now) = Some \<delta> \<and>
     unat (di_read_bytes \<delta>) = min (2 ^ 64 - 1) (device_growth reads_of before now) \<and>
     unat (di_written_bytes \<delta>) = min (2 ^ 64 - 1) (device_growth writes_of before now))"
proof -
  have r: "unat (di_read_bytes e) = max_of (reads_of d cs)" "unat (di_written_bytes e) = max_of (writes_of d cs)"
    if "hm_get (collapse cs) d = Some e" for cs d e
    using hm_get_collapse [of d cs] that by simp_all
  have "sum_list (map (growth di_read_bytes (collapse before)) (collapse now)) = device_growth reads_of before now"
    by (rule total_growth) (rule r(1))
  moreover have "sum_list (map (growth di_written_bytes (collapse before)) (collapse now)) = device_growth writes_of before now"
    by (rule total_growth) (rule r(2))
  ultimately show ?thesis
    using foldl_add_growth [of "collapse before" delta_zero "collapse now"]
    by (simp add: disk_sample_def tracker_new_def Let_def delta_zero_def)
qed

end
