(* ===== verification/Central_Flag.thy ===== *)
theory Central_Flag
  imports Hash_Map Rust_Text
begin

text \<open>
  The switch between session-local and central records
  (\<open>aic-common/src/central_store_flag.rs\<close>): environment before configuration before the default
  of the build's phase, resolved once per process. The process-wide cache \<open>RESOLVED\<close> is passed
  through; the phase of the build is an argument.
\<close>

datatype phase_3 = P31 | P32 | P33 | P34 | P35

fun default_central_store_flag :: "phase_3 \<Rightarrow> bool" where
  "default_central_store_flag P31 = False"
| "default_central_store_flag P32 = False"
| "default_central_store_flag P33 = False"
| "default_central_store_flag P34 = True"
| "default_central_store_flag P35 = True"

fun phase_as_str :: "phase_3 \<Rightarrow> str" where
  "phase_as_str P31 = ''phase-3_1''"
| "phase_as_str P32 = ''phase-3_2''"
| "phase_as_str P33 = ''phase-3_3''"
| "phase_as_str P34 = ''phase-3_4''"
| "phase_as_str P35 = ''phase-3_5''"

record daemon_config =
  dc_central_store :: "bool option"

definition parse_bool_like :: "str \<Rightarrow> bool option" where
  "parse_bool_like raw =
     (let s = to_ascii_lowercase (trim raw) in
      if s = ''1'' \<or> s = ''true'' \<or> s = ''on'' \<or> s = ''yes'' then Some True
      else if s = ''0'' \<or> s = ''false'' \<or> s = ''off'' \<or> s = ''no'' then Some False
      else None)"

datatype flag_source = EnvSource | ConfigSource | PhaseDefault

fun source_as_str :: "flag_source \<Rightarrow> str" where
  "source_as_str EnvSource = ''env''"
| "source_as_str ConfigSource = ''config''"
| "source_as_str PhaseDefault = ''phase-default''"

type_synonym env_map = "(str, str) hash_map"

definition resolve_with_source_uncached :: "phase_3 \<Rightarrow> env_map \<Rightarrow> daemon_config option \<Rightarrow> bool \<times> flag_source" where
  "resolve_with_source_uncached ph env config =
     (case Option.bind (hm_get env ''AIC_CENTRAL_STORE'') parse_bool_like of
        Some v \<Rightarrow> (v, EnvSource)
      | None \<Rightarrow>
        (case Option.bind config dc_central_store of
           Some v \<Rightarrow> (v, ConfigSource)
         | None \<Rightarrow> (default_central_store_flag ph, PhaseDefault)))"

definition resolve_uncached :: "phase_3 \<Rightarrow> env_map \<Rightarrow> daemon_config option \<Rightarrow> bool" where
  "resolve_uncached ph env config = fst (resolve_with_source_uncached ph env config)"

definition resolve_central_store_flag ::
  "phase_3 \<Rightarrow> bool option \<Rightarrow> env_map \<Rightarrow> daemon_config option \<Rightarrow> bool option \<times> bool" where
  "resolve_central_store_flag ph resolved env config =
     (case resolved of
        Some v \<Rightarrow> (resolved, v)
      | None \<Rightarrow> (let v = resolve_uncached ph env config in (Some v, v)))"

section \<open>Properties\<close>

text \<open>All calls of one process, in order, with what each of them returns.\<close>

fun resolve_all :: "phase_3 \<Rightarrow> bool option \<Rightarrow> (env_map \<times> daemon_config option) list \<Rightarrow> bool list" where
  "resolve_all ph resolved [] = []"
| "resolve_all ph resolved ((env, config) # calls) =
     (case resolve_central_store_flag ph resolved env config of
        (resolved', v) \<Rightarrow> v # resolve_all ph resolved' calls)"

lemma resolve_all_cached: "resolve_all ph (Some v) calls = replicate (length calls) v"
  by (induction calls) (auto simp: resolve_central_store_flag_def)

text \<open>
  Further property (functional). Every call of a process returns what the first call's environment and
  configuration say, whatever the later ones hold.
\<close>

theorem central_store_flag_stable:
  "resolve_all ph None ((env, config) # calls) =
     replicate (Suc (length calls)) (resolve_uncached ph env config)"
  by (simp add: resolve_central_store_flag_def resolve_all_cached Let_def)

end
