(* ===== verification/Export_Backoff.thy ===== *)
theory Export_Backoff
  imports Rust_Prelude
begin

text \<open>
  Retry spacing of the OTLP exporter (\<open>aic-server/src/otlp_exporter/backoff.rs\<close>). Times are
  nanoseconds; the clock and the random jitter in milliseconds are arguments.
\<close>

definition ms :: "nat \<Rightarrow> nat" where
  "ms n = n * 10 ^ 6"

definition backoff_base :: nat where
  "backoff_base = ms 1000"

definition backoff_cap :: nat where
  "backoff_cap = ms 60000"

record backoff =
  bo_consecutive_failures :: nat
  bo_next_allowed :: instant

definition backoff_new :: "instant \<Rightarrow> backoff" where
  "backoff_new now = \<lparr>bo_consecutive_failures = 0, bo_next_allowed = now\<rparr>"

definition backoff_ready :: "instant \<Rightarrow> backoff \<Rightarrow> bool" where
  "backoff_ready now b \<longleftrightarrow> bo_next_allowed b \<le> now"

definition on_success :: "instant \<Rightarrow> backoff \<Rightarrow> backoff" where
  "on_success now b = \<lparr>bo_consecutive_failures = 0, bo_next_allowed = now\<rparr>"

text \<open>The shift is at most 6, so \<open>checked_shl\<close> succeeds.\<close>

definition delay_for :: "nat \<Rightarrow> nat" where
  "delay_for consecutive_failures =
     (let shift = min (consecutive_failures - 1) 6 in min (backoff_base * 2 ^ shift) backoff_cap)"

definition jitter_max_ms :: "nat \<Rightarrow> nat" where
  "jitter_max_ms delay = max (delay div 10 ^ 6 div 5) 50"

definition on_failure :: "instant \<Rightarrow> nat \<Rightarrow> backoff \<Rightarrow> backoff" where
  "on_failure now jitter b =
     (let n = min (bo_consecutive_failures b + 1) u32_max
      in \<lparr>bo_consecutive_failures = n, bo_next_allowed = now + delay_for n + ms jitter\<rparr>)"

section \<open>Properties\<close>

datatype push_result = PushOk instant | PushFailed instant nat

fun after_push :: "backoff \<Rightarrow> push_result \<Rightarrow> backoff" where
  "after_push b (PushOk t) = on_success t b"
| "after_push b (PushFailed t j) = on_failure t j b"

text \<open>The failures since the last success.\<close>

fun trailing_failures :: "push_result list \<Rightarrow> nat" where
  "trailing_failures [] = 0"
| "trailing_failures (PushOk t # rs) = 0"
| "trailing_failures (PushFailed t j # rs) = Suc (trailing_failures rs)"

lemma failures_counted:
  "bo_consecutive_failures (foldl after_push (backoff_new t0) rs) = min (trailing_failures (rev rs)) u32_max"
proof (induction rs rule: rev_induct)
  case Nil
  then show ?case by (simp add: backoff_new_def)
next
  case (snoc r rs)
  then show ?case by (cases r) (auto simp: on_success_def on_failure_def Let_def min_def)
qed

lemma delay_for_schedule: "delay_for n = ms 1000 * (if n \<le> 6 then 2 ^ (n - 1) else 60)"
proof (cases "n \<le> 6")
  case True
  then have "n \<in> {0, 1, 2, 3, 4, 5, 6}" by auto
  then show ?thesis by (auto simp: delay_for_def backoff_base_def backoff_cap_def ms_def)
next
  case False
  then show ?thesis by (simp add: delay_for_def backoff_base_def backoff_cap_def ms_def)
qed

lemma delay_for_saturated: "delay_for (min n u32_max) = delay_for n"
proof (cases "n \<le> u32_max")
  case True
  then show ?thesis by (simp only: min_absorb1)
next
  case False
  then have "6 \<le> n - 1" and "min n u32_max = u32_max" by simp_all
  then show ?thesis by (simp add: delay_for_def)
qed

lemma min_Suc_min: "min (min k m + 1) m = min (Suc k) (m :: nat)"
  by (simp add: min_def)

text \<open>
  Further property (bounds). After a failure that is the \<open>n\<close>-th in a row the exporter waits at least
  1, 2, 4, 8, 16, 32 or (from the seventh on) 60 seconds, and at most a fifth more or 50
  milliseconds: before that it is never ready, after that it is. A success makes it ready at once.
\<close>

theorem backoff_window:
  assumes "n = trailing_failures (rev (rs @ [PushFailed t j]))"
    and "j \<le> jitter_max_ms (delay_for (min n u32_max))"
    and "d = (if n \<le> 6 then 2 ^ (n - 1) else 60)"
  shows "(now < t + ms 1000 * d \<longrightarrow> \<not> backoff_ready now (foldl after_push (backoff_new t0) (rs @ [PushFailed t j]))) \<and>
    (t + ms 1000 * d + ms (max (200 * d) 50) \<le> now \<longrightarrow>
       backoff_ready now (foldl after_push (backoff_new t0) (rs @ [PushFailed t j]))) \<and>
    backoff_ready s (foldl after_push (backoff_new t0) (rs @ [PushOk s]))"
proof -
  have n: "n = Suc (trailing_failures (rev rs))" using assms(1) by simp
  have delay: "delay_for (min n u32_max) = ms 1000 * d"
    unfolding delay_for_saturated assms(3) by (rule delay_for_schedule)
  have next_allowed: "bo_next_allowed (foldl after_push (backoff_new t0) (rs @ [PushFailed t j])) = t + ms 1000 * d + ms j"
  proof -
    have "bo_next_allowed (foldl after_push (backoff_new t0) (rs @ [PushFailed t j])) = t + delay_for (min n u32_max) + ms j"
      by (simp only: foldl_append foldl.simps after_push.simps on_failure_def Let_def failures_counted min_Suc_min n
          backoff.select_convs)
    then show ?thesis by (simp only: delay)
  qed
  from delay have "j \<le> max (200 * d) 50"
    using assms(2) by (simp add: jitter_max_ms_def ms_def)
  then have "ms j \<le> ms (max (200 * d) 50)" by (simp add: ms_def)
  with next_allowed show ?thesis
    by (auto simp: backoff_ready_def on_success_def)
qed

theorem backoff_window_witness:
  "\<not> backoff_ready (999 * 10 ^ 6) (foldl after_push (backoff_new 0) ([] @ [PushFailed 0 100])) \<and>
   backoff_ready (2 * 10 ^ 9) (foldl after_push (backoff_new 0) ([] @ [PushFailed 0 100]))"
  using backoff_window [of "Suc 0" "[]" 0 100 1 "999 * 10 ^ 6" 0 0]
    backoff_window [of "Suc 0" "[]" 0 100 1 "2 * 10 ^ 9" 0 0]
  by (simp add: jitter_max_ms_def delay_for_saturated delay_for_schedule ms_def)

end
