(* ===== verification/Log_Filter.thy ===== *)
theory Log_Filter
  imports Hash_Map Ipc
begin

text \<open>
  The severity filter in front of the log exporter
  (\<open>aic-server/src/otlp_exporter/logs/filter.rs\<close>). Of the configuration only the three fields the
  filter reads are kept.
\<close>

record log_service_override =
  lo_enabled :: "bool option"
  lo_min_severity :: "str option"

record logs_config =
  lg_min_severity :: str
  lg_external_min_severity :: str
  lg_services :: "(str, log_service_override) hash_map"

definition global_default_sentinel :: str where
  "global_default_sentinel = ''INFO''"

definition severity_rank :: "str \<Rightarrow> nat" where
  "severity_rank s =
     (if s = ''DEBUG'' then 0 else if s = ''WARN'' then 2 else if s = ''ERROR'' then 3 else 1)"

definition source_default_min_severity :: "str \<Rightarrow> logs_config \<Rightarrow> str" where
  "source_default_min_severity source cfg = (if source = ''aic'' then ''INFO'' else lg_external_min_severity cfg)"

definition effective_min_severity :: "log_line \<Rightarrow> logs_config \<Rightarrow> str" where
  "effective_min_severity line cfg =
     (case Option.bind (hm_get (lg_services cfg) (ll_service line)) lo_min_severity of
        Some over \<Rightarrow> over
      | None \<Rightarrow>
        if lg_min_severity cfg \<noteq> global_default_sentinel then lg_min_severity cfg
        else source_default_min_severity (ll_source line) cfg)"

definition passes_severity :: "log_line \<Rightarrow> logs_config \<Rightarrow> bool" where
  "passes_severity line cfg \<longleftrightarrow>
     severity_rank (effective_min_severity line cfg) \<le> severity_rank (ll_severity line)"

section \<open>Properties\<close>

lemma severity_rank_le: "severity_rank s \<le> 3"
  by (simp add: severity_rank_def)

lemma effective_severity_field [simp]:
  "effective_min_severity (line\<lparr>ll_severity := s\<rparr>) cfg = effective_min_severity line cfg"
  by (simp add: effective_min_severity_def split: option.splits)

text \<open>
  Further property (safety). Errors are never filtered out, whatever the configuration, and a line that passes
  still passes when its severity is raised. With an untouched global setting and no override for
  its service, an information or debug line of an external source is dropped while the warning
  default is in force, and only debug lines of the program itself are.
\<close>

theorem severity_filter:
  "passes_severity (line\<lparr>ll_severity := ''ERROR''\<rparr>) cfg \<and>
   (passes_severity line cfg \<and> severity_rank (ll_severity line) \<le> severity_rank s \<longrightarrow>
      passes_severity (line\<lparr>ll_severity := s\<rparr>) cfg) \<and>
   (hm_get (lg_services cfg) (ll_service line) = None \<and> lg_min_severity cfg = ''INFO'' \<and>
      lg_external_min_severity cfg = ''WARN'' \<longrightarrow>
      passes_severity line cfg =
        (if ll_source line = ''aic'' then ll_severity line \<noteq> ''DEBUG''
         else ll_severity line = ''WARN'' \<or> ll_severity line = ''ERROR''))"
proof -
  have "passes_severity (line\<lparr>ll_severity := ''ERROR''\<rparr>) cfg"
    using severity_rank_le by (simp add: passes_severity_def) (simp add: severity_rank_def)
  moreover have "passes_severity line cfg \<and> severity_rank (ll_severity line) \<le> severity_rank s \<longrightarrow>
      passes_severity (line\<lparr>ll_severity := s\<rparr>) cfg"
    by (auto simp: passes_severity_def)
  ultimately show ?thesis
    by (auto simp: passes_severity_def effective_min_severity_def global_default_sentinel_def
        source_default_min_severity_def severity_rank_def)
qed

definition sample_line :: log_line where
  "sample_line = \<lparr>ll_source = ''journald'', ll_service = ''cron'', ll_severity = ''INFO'', ll_message = [],
     ll_attrs = [], ll_ts = 0, ll_record_id = []\<rparr>"

definition sample_cfg :: logs_config where
  "sample_cfg = \<lparr>lg_min_severity = ''INFO'', lg_external_min_severity = ''WARN'', lg_services = []\<rparr>"

theorem severity_filter_witness:
  "\<not> passes_severity sample_line sample_cfg \<and> passes_severity (sample_line\<lparr>ll_severity := ''ERROR''\<rparr>) sample_cfg"
  using severity_filter [of sample_line sample_cfg "''ERROR''"] by (simp add: sample_line_def sample_cfg_def)

end
