(* ===== verification/Risk_Rules.thy ===== *)
theory Risk_Rules
  imports Rust_Text
begin

text \<open>
  The rule tables of the command risk guard (\<open>aic-client/src/risk_guard.rs\<close>): the risk levels with
  their severity order, the assessments, the flag and subcommand helpers, and the dangerous,
  needs-confirm and safe rules for one command head and its arguments. The texts shown to the user
  are named by \<open>risk_reason\<close>, one constructor per message of the source with the values it prints.
\<close>

section \<open>Levels and assessments\<close>

datatype risk_level = Safe | NeedsConfirm | Dangerous | Unknown

fun severity :: "risk_level \<Rightarrow> nat" where
  "severity Safe = 0"
| "severity NeedsConfirm = 1"
| "severity Unknown = 2"
| "severity Dangerous = 3"

definition allows_auto_confirm :: "risk_level \<Rightarrow> bool" where
  "allows_auto_confirm l = (l = Safe)"

definition risk_max :: "risk_level \<Rightarrow> risk_level \<Rightarrow> risk_level" where
  "risk_max a b = (if severity b \<le> severity a then a else b)"

lemma severity_inj: "severity a = severity b \<Longrightarrow> a = b"
  by (cases a; cases b) simp_all

text \<open>The severity order, so that the maxima of the library apply to levels.\<close>

instantiation risk_level :: linorder
begin

definition less_eq_risk_level :: "risk_level \<Rightarrow> risk_level \<Rightarrow> bool" where
  "less_eq_risk_level a b \<longleftrightarrow> severity a \<le> severity b"

definition less_risk_level :: "risk_level \<Rightarrow> risk_level \<Rightarrow> bool" where
  "less_risk_level a b \<longleftrightarrow> severity a < severity b"

instance
  by standard (auto simp: less_eq_risk_level_def less_risk_level_def intro: severity_inj)

end

instantiation risk_level :: order_bot
begin

definition bot_risk_level :: risk_level where
  "bot_risk_level = Safe"

instance
  by standard (simp add: bot_risk_level_def less_eq_risk_level_def)

end

lemma risk_max_max: "risk_max a b = max a b"
  by (auto simp: risk_max_def max_def less_eq_risk_level_def intro: severity_inj)

lemma le_Safe_iff [simp]: "l \<le> Safe \<longleftrightarrow> l = Safe"
  by (cases l) (simp_all add: less_eq_risk_level_def)

lemma Safe_le [simp]: "Safe \<le> l"
  by (simp add: less_eq_risk_level_def)

datatype risk_reason =
  EmptyCommand | Substitution | ParseFailed | EmptySegment | TokenizeFailed | ConfigRule str
| SudoWith str | SudoUnclassified str | NoRule str | PipeToShell str | SystemRedirect str
| RemoteAccess str | RmRecursive | PushForce | ResetHard | CleanForce | CheckoutDot
| KubectlDelete | ApplyPrune | TerraformMutate | DockerForceRemove | DockerPrune | NpmPublish
| DdRawIo | MkfsFormat | SystemPower | FsMutation str | HttpWrite str | HttpEgress str
| CustomResolver str | NpmMutate | CargoMutate | GitMutate | DockerMutate

record risk_assessment =
  ra_level :: risk_level
  ra_reason :: "risk_reason option"
  ra_rule :: "str option"

definition dangerous :: "str \<Rightarrow> risk_reason \<Rightarrow> risk_assessment" where
  "dangerous rule reason = \<lparr>ra_level = Dangerous, ra_reason = Some reason, ra_rule = Some rule\<rparr>"

definition needs_confirm :: "str \<Rightarrow> risk_reason \<Rightarrow> risk_assessment" where
  "needs_confirm rule reason =
     \<lparr>ra_level = NeedsConfirm, ra_reason = Some reason, ra_rule = Some rule\<rparr>"

definition safe_asm :: "str \<Rightarrow> risk_assessment" where
  "safe_asm rule = \<lparr>ra_level = Safe, ra_reason = None, ra_rule = Some rule\<rparr>"

definition unknown :: "risk_reason \<Rightarrow> risk_assessment" where
  "unknown reason = \<lparr>ra_level = Unknown, ra_reason = Some reason, ra_rule = None\<rparr>"

lemma asm_levels [simp]:
  "ra_level (dangerous r m) = Dangerous" "ra_level (needs_confirm r m) = NeedsConfirm"
  "ra_level (safe_asm r) = Safe" "ra_level (unknown m) = Unknown"
  by (simp_all add: dangerous_def needs_confirm_def safe_asm_def unknown_def)

section \<open>Rule helpers\<close>

text \<open>\<open>a.starts_with(p)\<close>.\<close>

abbreviation starts_with :: "str \<Rightarrow> str \<Rightarrow> bool" where
  "starts_with a p \<equiv> prefix p a"

definition is_dashed :: "str \<Rightarrow> bool" where
  "is_dashed a = starts_with a ''-''"

definition has_flag :: "str list \<Rightarrow> str \<Rightarrow> bool" where
  "has_flag args flag = (\<exists>a\<in>set args. a = flag \<or> starts_with a (flag @ ''=''))"

definition first_subcommand :: "str list \<Rightarrow> str option" where
  "first_subcommand args = find (\<lambda>a. \<not> is_dashed a) args"

definition second_subcommand :: "str list \<Rightarrow> str option" where
  "second_subcommand args =
     (case filter (\<lambda>a. \<not> is_dashed a) args of _ # b # _ \<Rightarrow> Some b | _ \<Rightarrow> None)"

definition sub_in :: "str list \<Rightarrow> str list \<Rightarrow> bool" where
  "sub_in args subs = (case first_subcommand args of Some s \<Rightarrow> s \<in> set subs | None \<Rightarrow> False)"

fun host_positionals :: "str list \<Rightarrow> nat" where
  "host_positionals [] = 0"
| "host_positionals (a # rest) =
     (if is_dashed a then
        (if a \<in> set [''-t'', ''-c'', ''-N'', ''-W'', ''-R'', ''-m''] \<and> CHR ''='' \<notin> set a
         then host_positionals (drop 1 rest) else host_positionals rest)
      else Suc (host_positionals rest))"

definition dns_uses_custom_resolver :: "str \<Rightarrow> str list \<Rightarrow> bool" where
  "dns_uses_custom_resolver head args =
     (if head = ''dig'' then \<exists>a\<in>set args. starts_with a ''@''
      else if head = ''nslookup'' then 2 \<le> length (filter (\<lambda>a. \<not> is_dashed a) args)
      else if head = ''host'' then 2 \<le> host_positionals args
      else False)"

definition sysctl_is_write :: "str list \<Rightarrow> bool" where
  "sysctl_is_write args = (\<exists>a\<in>set args. a = ''-w'' \<or> (\<not> is_dashed a \<and> CHR ''='' \<in> set a))"

definition short_flag_has_char :: "str list \<Rightarrow> u8 list \<Rightarrow> bool" where
  "short_flag_has_char args bad = (\<exists>a\<in>set args. is_dashed a \<and> \<not> starts_with a ''--'' \<and>
     1 < length a \<and> (\<exists>c\<in>set (tl a). c \<in> set bad))"

definition curl_write_flags :: "str list" where
  "curl_write_flags = [''-X'', ''--request'', ''-d'', ''--data'', ''--data-raw'', ''--data-binary'',
     ''--data-urlencode'', ''-F'', ''--form'', ''-T'', ''--upload-file'', ''-O'', ''--remote-name'',
     ''-o'', ''--output'', ''--post-file'', ''--post-data'']"

definition curl_has_write_flag :: "str list \<Rightarrow> bool" where
  "curl_has_write_flag args = (\<exists>a\<in>set args.
     let h = hd (split_on (CHR ''='') a) in
     h \<in> set curl_write_flags \<or>
     ((starts_with h ''-O'' \<or> starts_with h ''-o'') \<and> 2 < length h))"

section \<open>Dangerous rules\<close>

definition remote_heads :: "str list" where
  "remote_heads = [''ssh'', ''scp'', ''sftp'', ''nc'', ''ncat'', ''netcat'', ''socat'', ''telnet'',
     ''rsh'', ''rlogin'']"

definition rm_recursive_flags :: "str list" where
  "rm_recursive_flags = [''-r'', ''-R'', ''--recursive'', ''-rf'', ''-fr'', ''-rR'', ''-Rr'']"

definition git_dangerous :: "str list \<Rightarrow> risk_assessment option" where
  "git_dangerous args =
     (let sub = first_subcommand args in
      if sub = Some ''push'' then
        (if has_flag args ''--force'' \<or> has_flag args ''-f'' \<or> has_flag args ''--force-with-lease''
         then Some (dangerous ''git.push_force'' PushForce) else None)
      else if sub = Some ''reset'' then
        (if has_flag args ''--hard'' then Some (dangerous ''git.reset_hard'' ResetHard) else None)
      else if sub = Some ''clean'' then
        (if has_flag args ''-f'' \<or> has_flag args ''--force'' \<or> has_flag args ''-fd''
         then Some (dangerous ''git.clean_force'' CleanForce) else None)
      else if sub = Some ''checkout'' \<or> sub = Some ''restore'' then
        (if \<exists>a\<in>set args. a = ''.'' \<or> a = ''--''
         then Some (dangerous ''git.checkout_dot'' CheckoutDot) else None)
      else None)"

definition docker_is_prune :: "str list \<Rightarrow> bool" where
  "docker_is_prune args = (first_subcommand args = Some ''prune'' \<or>
     (sub_in args [''system'', ''image'', ''container'', ''volume'', ''network'', ''builder''] \<and>
      second_subcommand args = Some ''prune''))"

definition docker_dangerous :: "str list \<Rightarrow> risk_assessment option" where
  "docker_dangerous args =
     (if has_flag args ''-f'' \<and> sub_in args [''rm'', ''rmi'', ''system'']
      then Some (dangerous ''docker.force_remove'' DockerForceRemove)
      else if docker_is_prune args then Some (dangerous ''docker.prune'' DockerPrune)
      else None)"

definition match_dangerous :: "str \<Rightarrow> str list \<Rightarrow> risk_assessment option" where
  "match_dangerous head args =
     (if head \<in> set remote_heads then Some (dangerous ''net.remote_access'' (RemoteAccess head))
      else if head = ''rm'' then
        (if \<exists>f\<in>set rm_recursive_flags. has_flag args f
         then Some (dangerous ''rm.recursive'' RmRecursive) else None)
      else if head = ''git'' then git_dangerous args
      else if head = ''kubectl'' then
        (if first_subcommand args = Some ''delete''
         then Some (dangerous ''kubectl.delete'' KubectlDelete)
         else if first_subcommand args = Some ''apply'' \<and> has_flag args ''--prune''
         then Some (dangerous ''kubectl.apply_prune'' ApplyPrune) else None)
      else if head = ''terraform'' then
        (if sub_in args [''apply'', ''destroy'']
         then Some (dangerous ''terraform.mutate'' TerraformMutate) else None)
      else if head = ''docker'' then docker_dangerous args
      else if head \<in> set [''npm'', ''pnpm'', ''yarn''] then
        (if first_subcommand args = Some ''publish''
         then Some (dangerous ''npm.publish'' NpmPublish) else None)
      else if head = ''dd'' then Some (dangerous ''dd.raw_io'' DdRawIo)
      else if head \<in> set [''mkfs'', ''mkfs.ext4'', ''mkfs.xfs'', ''mkfs.btrfs'']
      then Some (dangerous ''mkfs'' MkfsFormat)
      else if head \<in> set [''shutdown'', ''reboot'', ''halt'', ''poweroff'']
      then Some (dangerous ''system.power'' SystemPower)
      else None)"

section \<open>Rules that need a confirmation\<close>

definition needs_confirm_heads :: "str list" where
  "needs_confirm_heads = [''rm'', ''mv'', ''cp'', ''chmod'', ''chown'', ''kill'', ''pkill'',
     ''killall'', ''make'', ''systemctl'', ''service'']"

definition git_mutate_subs :: "str list" where
  "git_mutate_subs = [''commit'', ''push'', ''pull'', ''merge'', ''rebase'', ''stash'', ''tag'',
     ''fetch'']"

definition match_needs_confirm :: "str \<Rightarrow> str list \<Rightarrow> risk_assessment option" where
  "match_needs_confirm head args =
     (if head \<in> set needs_confirm_heads then Some (needs_confirm ''fs.mutation'' (FsMutation head))
      else if head = ''curl'' \<or> head = ''wget'' then
        (if curl_has_write_flag args then Some (needs_confirm ''http.write'' (HttpWrite head))
         else Some (needs_confirm ''http.egress'' (HttpEgress head)))
      else if head \<in> set [''dig'', ''nslookup'', ''host''] \<and> dns_uses_custom_resolver head args
      then Some (needs_confirm ''dns.custom_resolver'' (CustomResolver head))
      else if head \<in> set [''npm'', ''pnpm'', ''yarn''] \<and>
        sub_in args [''install'', ''i'', ''add'', ''remove'', ''uninstall'', ''update'', ''upgrade'']
      then Some (needs_confirm ''npm.mutate'' NpmMutate)
      else if head = ''cargo'' \<and> sub_in args [''install'', ''uninstall'', ''update'', ''publish'']
      then Some (needs_confirm ''cargo.mutate'' CargoMutate)
      else if head = ''git'' \<and> sub_in args git_mutate_subs
      then Some (needs_confirm ''git.mutate'' GitMutate)
      else if head = ''docker'' \<and>
        sub_in args [''run'', ''start'', ''stop'', ''kill'', ''restart'', ''build'', ''pull'', ''compose'']
      then Some (needs_confirm ''docker.mutate'' DockerMutate)
      else None)"

section \<open>Safe rules\<close>

definition safe_set :: "str list" where
  "safe_set = [''ls'', ''ll'', ''la'', ''cat'', ''less'', ''more'', ''head'', ''tail'', ''echo'',
     ''pwd'', ''whoami'', ''id'', ''date'', ''uptime'', ''uname'', ''hostname'', ''env'', ''printenv'',
     ''which'', ''type'', ''command'', ''history'', ''tree'', ''stat'', ''file'', ''wc'', ''grep'',
     ''rg'', ''ag'', ''find'', ''fd'', ''locate'', ''diff'', ''cmp'', ''df'', ''du'', ''free'',
     ''sysctl'', ''ps'', ''top'', ''htop'', ''lsof'', ''netstat'', ''ss'', ''ip'', ''ifconfig'',
     ''route'', ''ping'', ''traceroute'', ''dig'', ''nslookup'', ''host'', ''jq'', ''yq'', ''xxd'',
     ''base64'', ''sort'', ''uniq'', ''cut'', ''tr'', ''column'', ''comm'', ''vm_stat'', ''lsblk'']"

definition sort_writes :: "str list \<Rightarrow> bool" where
  "sort_writes args = (\<exists>a\<in>set args.
     a = ''-o'' \<or> starts_with a ''--output'' \<or> (starts_with a ''-o'' \<and> 2 < length a))"

definition journalctl_read :: "str list \<Rightarrow> bool" where
  "journalctl_read args =
     (let bad_long = \<exists>a\<in>set args. a \<in> set [''--follow'', ''--rotate'', ''--flush'', ''--sync'',
            ''--relinquish-var'', ''--smart-relinquish-var'', ''--update-catalog'', ''--setup-keys'',
            ''--header''] \<or> starts_with a ''--vacuum'';
          bad_source = \<exists>a\<in>set args. a \<in> set [''--file'', ''--directory'', ''--root'', ''--image''] \<or>
            starts_with a ''--file='' \<or> starts_with a ''--directory='' \<or> starts_with a ''--root='' \<or>
            starts_with a ''--image='' \<or> starts_with a ''-D''
      in \<not> (bad_long \<or> bad_source \<or> short_flag_has_char args ''f'') \<and> ''--no-pager'' \<in> set args)"

definition dmesg_read :: "str list \<Rightarrow> bool" where
  "dmesg_read args =
     (let bad_long = \<exists>a\<in>set args. a \<in> set [''--clear'', ''--read-clear'', ''--console-off'',
            ''--console-on'', ''--follow'', ''--follow-new''] \<or> starts_with a ''--console-level''
      in \<not> (bad_long \<or> short_flag_has_char args ''cCEDwWn''))"

definition is_ascii_digit :: "u8 \<Rightarrow> bool" where
  "is_ascii_digit c = (48 \<le> byte_val c \<and> byte_val c \<le> 57)"

definition iostat_read :: "str list \<Rightarrow> bool" where
  "iostat_read args =
     (let nums = filter (\<lambda>a. a \<noteq> [] \<and> list_all is_ascii_digit a) args;
          any_zero = \<exists>n\<in>set nums. list_all (\<lambda>c. c = CHR ''0'') n
      in \<not> (length nums = 1 \<or> any_zero))"

definition systemctl_reads :: "str list" where
  "systemctl_reads = [''status'', ''show'', ''cat'', ''is-active'', ''is-enabled'', ''is-failed'',
     ''list-units'', ''list-unit-files'', ''list-timers'', ''list-sockets'', ''list-dependencies'',
     ''list-jobs'', ''get-default'', ''help'']"

definition systemctl_read :: "str list \<Rightarrow> bool" where
  "systemctl_read args = (case first_subcommand args of
     Some sub \<Rightarrow> sub \<in> set systemctl_reads | None \<Rightarrow> has_flag args ''--failed'')"

definition timedatectl_read :: "str list \<Rightarrow> bool" where
  "timedatectl_read args = (case first_subcommand args of
     Some sub \<Rightarrow> sub \<in> set [''status'', ''show'', ''list-timezones'', ''timesync-status'',
       ''show-timesync'']
   | None \<Rightarrow> True)"

definition last_read :: "str list \<Rightarrow> bool" where
  "last_read args = (\<not> ((\<exists>a\<in>set args. a = ''--file'' \<or> starts_with a ''--file='') \<or>
     short_flag_has_char args ''f''))"

definition pmset_read :: "str list \<Rightarrow> bool" where
  "pmset_read args =
     (let setter = \<exists>f\<in>set [''-a'', ''-b'', ''-c'', ''-u'', ''-d'']. has_flag args f;
          mutate_sub = sub_in args [''sleepnow'', ''displaysleepnow'', ''schedule'', ''repeat'',
            ''touch'', ''boot'', ''restoredefaults'']
      in has_flag args ''-g'' \<and> \<not> setter \<and> \<not> mutate_sub)"

definition launchctl_read :: "str list \<Rightarrow> bool" where
  "launchctl_read args =
     sub_in args [''list'', ''print'', ''print-disabled'', ''dumpstate'', ''blame'', ''procinfo'']"

definition crontab_read :: "str list \<Rightarrow> bool" where
  "crontab_read args =
     (let mutate = \<exists>f\<in>set [''-r'', ''-e'', ''-i'', ''-u'']. has_flag args f;
          installs = first_subcommand args \<noteq> None \<or> ''-'' \<in> set args
      in has_flag args ''-l'' \<and> \<not> mutate \<and> \<not> installs)"

definition scutil_read :: "str list \<Rightarrow> bool" where
  "scutil_read args =
     ((has_flag args ''--dns'' \<or> has_flag args ''--proxy'' \<or> has_flag args ''--nwi'' \<or>
       has_flag args ''--get'') \<and> \<not> has_flag args ''--set'')"

definition docker_read :: "str list \<Rightarrow> bool" where
  "docker_read args =
     (sub_in args [''ps'', ''stats'', ''images'', ''logs'', ''inspect'', ''version'', ''info'',
        ''diff'', ''history''] \<or>
      (first_subcommand args = Some ''system'' \<and> second_subcommand args = Some ''df''))"

definition git_read_subs :: "str list" where
  "git_read_subs = [''status'', ''log'', ''diff'', ''show'', ''branch'', ''tag'', ''blame'',
     ''ls-files'', ''ls-tree'', ''config'', ''remote'', ''rev-parse'', ''describe'']"

definition safe_if :: "bool \<Rightarrow> str \<Rightarrow> risk_assessment option" where
  "safe_if c rule = (if c then Some (safe_asm rule) else None)"

definition match_safe :: "str \<Rightarrow> str list \<Rightarrow> risk_assessment option" where
  "match_safe head args =
     (if head \<in> set [''sort'', ''uniq''] \<and> sort_writes args then None
      else if head \<in> set [''dig'', ''nslookup'', ''host''] \<and> dns_uses_custom_resolver head args
      then None
      else if head = ''sysctl'' \<and> sysctl_is_write args then None
      else if head \<in> set safe_set then Some (safe_asm ''safe.readonly'')
      else if head = ''curl'' \<or> head = ''wget'' then None
      else if head = ''git'' then safe_if (sub_in args git_read_subs) ''git.read''
      else if head = ''cargo'' then
        safe_if (sub_in args [''fmt'', ''check'', ''clippy'', ''build'', ''test'', ''tree'',
          ''metadata'', ''doc'']) ''cargo.read''
      else if head \<in> set [''npm'', ''pnpm'', ''yarn''] then
        safe_if (sub_in args [''test'', ''run'', ''list'', ''ls'', ''outdated'', ''audit'']) ''npm.read''
      else if head = ''kubectl'' then
        safe_if (sub_in args [''get'', ''describe'', ''logs'', ''config'', ''version'', ''explain'',
          ''top'']) ''kubectl.read''
      else if head = ''docker'' then safe_if (docker_read args) ''docker.read''
      else if head = ''journalctl'' then safe_if (journalctl_read args) ''journalctl.read''
      else if head = ''dmesg'' then safe_if (dmesg_read args) ''dmesg.read''
      else if head = ''vmstat'' \<or> head = ''iostat'' then safe_if (iostat_read args) ''iostat.read''
      else if head = ''systemctl'' then safe_if (systemctl_read args) ''systemctl.read''
      else if head = ''timedatectl'' then safe_if (timedatectl_read args) ''timedatectl.read''
      else if head = ''last'' then safe_if (last_read args) ''last.read''
      else if head = ''pmset'' then safe_if (pmset_read args) ''pmset.read''
      else if head = ''launchctl'' then safe_if (launchctl_read args) ''launchctl.read''
      else if head = ''crontab'' then safe_if (crontab_read args) ''crontab.read''
      else if head = ''scutil'' then safe_if (scutil_read args) ''scutil.read''
      else if head = ''aic'' then
        safe_if (args \<in> set [[''proc-fd-top''], [''proc-changes''], [''proc-groups'']]) ''aic.selfprobe''
      else None)"

section \<open>What the tables decide\<close>

text \<open>
  A table is a chain of conditions. The two judgements below follow the chain without looking into
  its conditions: every answer has level \<open>l\<close>, and an answer needs a head of \<open>hs\<close>.
\<close>

definition answers :: "risk_level \<Rightarrow> risk_assessment option \<Rightarrow> bool" where
  "answers l x = (\<forall>a. x = Some a \<longrightarrow> ra_level a = l)"

definition only_for :: "str list \<Rightarrow> str \<Rightarrow> 'a option \<Rightarrow> bool" where
  "only_for hs h x = (x \<noteq> None \<longrightarrow> h \<in> set hs)"

named_theorems chain_intros

lemma answers_chain [chain_intros]:
  "answers l None" "ra_level a = l \<Longrightarrow> answers l (Some a)" "answers Safe (safe_if c r)"
  "answers l x \<Longrightarrow> answers l y \<Longrightarrow> answers l (if c then x else y)"
  by (auto simp: answers_def safe_if_def)

lemma only_for_chain [chain_intros]:
  "only_for hs h None" "(c \<Longrightarrow> only_for hs h x) \<Longrightarrow> only_for hs h y \<Longrightarrow> only_for hs h (if c then x else y)"
  by (auto simp: only_for_def)

lemma match_dangerous_level: "match_dangerous head args = Some a \<Longrightarrow> ra_level a = Dangerous"
proof -
  have "answers Dangerous (match_dangerous head args)"
    unfolding match_dangerous_def git_dangerous_def docker_dangerous_def Let_def
    by (intro chain_intros asm_levels)
  then show "match_dangerous head args = Some a \<Longrightarrow> ra_level a = Dangerous"
    by (simp add: answers_def)
qed

lemma match_needs_confirm_level:
  "match_needs_confirm head args = Some a \<Longrightarrow> ra_level a = NeedsConfirm"
proof -
  have "answers NeedsConfirm (match_needs_confirm head args)"
    unfolding match_needs_confirm_def by (intro chain_intros asm_levels)
  then show "match_needs_confirm head args = Some a \<Longrightarrow> ra_level a = NeedsConfirm"
    by (simp add: answers_def)
qed

lemma match_safe_level: "match_safe head args = Some a \<Longrightarrow> ra_level a = Safe"
proof -
  have "answers Safe (match_safe head args)"
    unfolding match_safe_def by (intro chain_intros asm_levels)
  then show "match_safe head args = Some a \<Longrightarrow> ra_level a = Safe" by (simp add: answers_def)
qed

text \<open>The heads some argument list of which is Safe.\<close>

definition safe_heads :: "str list" where
  "safe_heads = safe_set @ [''git'', ''cargo'', ''npm'', ''pnpm'', ''yarn'', ''kubectl'', ''docker'',
     ''journalctl'', ''dmesg'', ''vmstat'', ''iostat'', ''systemctl'', ''timedatectl'', ''last'',
     ''pmset'', ''launchctl'', ''crontab'', ''scutil'', ''aic'']"

lemma match_safe_head: "match_safe head args = Some a \<Longrightarrow> head \<in> set safe_heads"
proof -
  have "only_for safe_heads head (match_safe head args)"
    unfolding match_safe_def by (intro chain_intros) (auto simp: only_for_def safe_heads_def)
  then show "match_safe head args = Some a \<Longrightarrow> head \<in> set safe_heads" by (simp add: only_for_def)
qed

end
