(* ===== verification/Rust_Words.thy ===== *)
theory Rust_Words
  imports Rust_Text
begin

text \<open>
  Words of a text: \<open>split_whitespace\<close> and its first item, \<open>trim_matches\<close> for a set of ASCII bytes,
  the last path component, and the fact that cutting a valid UTF-8 text around an ASCII byte gives
  valid texts, so that such a slice never panics.
\<close>

section \<open>Splitting at white space\<close>

lemma ws_head_trim_start [simp]: "ws_head (trim_start s) = 0"
  by (induction s rule: trim_start.induct) (metis trim_start.simps)

lemma trim_start_Nil [simp]: "trim_start [] = []"
  by (subst trim_start.simps) (simp add: ws_head_def)

lemma length_trim_start: "length (trim_start s) \<le> length s"
proof (induction s rule: trim_start.induct)
  case (1 s)
  then show ?case by (cases "ws_head s = 0") (simp_all add: trim_start.simps [of s])
qed

lemma trim_start_suffix: "suffix (trim_start s) s"
proof (induction s rule: trim_start.induct)
  case (1 s)
  then show ?case
    by (cases "ws_head s = 0") (simp_all add: trim_start.simps [of s] suffix_drop suffix_order.order_trans)
qed

fun take_word :: "str \<Rightarrow> str" where
  "take_word [] = []"
| "take_word (c # cs) = (if ws_head (c # cs) = 0 then c # take_word cs else [])"

lemma take_word_prefix: "prefix (take_word s) s"
  by (induction s) auto

lemma take_word_empty: "take_word s = [] \<longleftrightarrow> s = [] \<or> ws_head s \<noteq> 0"
  by (cases s) auto

text \<open>\<open>s.split_whitespace().collect::<Vec<_>>()\<close>.\<close>

function split_whitespace :: "str \<Rightarrow> str list" where
  "split_whitespace s = (let t = trim_start s in
     if t = [] then [] else take_word t # split_whitespace (drop (length (take_word t)) t))"
  by pat_completeness auto
termination
proof (relation "measure length")
  fix s t :: str
  assume t: "t = trim_start s" and "t \<noteq> []"
  then have "take_word t \<noteq> []" by (simp add: take_word_empty)
  moreover have "length t \<le> length s" by (simp add: t length_trim_start)
  ultimately show "(drop (length (take_word t)) t, s) \<in> measure length"
    using \<open>t \<noteq> []\<close> by simp (metis diff_less length_greater_0_conv less_le_trans)
qed simp

declare split_whitespace.simps [simp del]

text \<open>\<open>s.split_whitespace().next().unwrap_or("")\<close>.\<close>

definition first_word :: "str \<Rightarrow> str" where
  "first_word s = (case split_whitespace s of [] \<Rightarrow> [] | w # _ \<Rightarrow> w)"

lemma first_word_take_word: "first_word s = take_word (trim_start s)"
  by (simp add: first_word_def split_whitespace.simps [of s] Let_def)

lemma first_word_nonempty: "first_word s \<noteq> [] \<Longrightarrow> s \<noteq> []"
  by (auto simp: first_word_take_word)

text \<open>Advancing past the first word shortens the text: the measure of the prefix strippers.\<close>

lemma advance_shorter:
  "first_word s \<noteq> [] \<Longrightarrow> length (trim_start (drop (length (first_word s)) s)) < length s"
  using length_trim_start [of "drop (length (first_word s)) s"] first_word_nonempty [of s]
  by (metis diff_less le_less_trans length_drop length_greater_0_conv)

text \<open>Equations that evaluate the functions on ASCII texts.\<close>

lemma ws_head_ascii: "byte_val c < 128 \<Longrightarrow> ws_head (c # s) = (if c \<in> set ascii_ws then 1 else 0)"
  by (auto simp: ws_head_def wide_ws_def)

lemma ws_last_ascii:
  "s \<noteq> [] \<Longrightarrow> byte_val (last s) < 128 \<Longrightarrow> ws_last s = (if last s \<in> set ascii_ws then 1 else 0)"
  by (cases s rule: rev_cases) (auto simp: ws_last_def wide_ws_def)

lemma trim_start_ascii:
  "byte_val c < 128 \<Longrightarrow> trim_start (c # s) = (if c \<in> set ascii_ws then trim_start s else c # s)"
  by (subst trim_start.simps) (simp add: ws_head_ascii)

lemma trim_end_ascii:
  "s \<noteq> [] \<Longrightarrow> byte_val (last s) < 128 \<Longrightarrow>
     trim_end s = (if last s \<in> set ascii_ws then trim_end (butlast s) else s)"
  by (subst trim_end.simps) (simp add: ws_last_ascii butlast_conv_take)

lemma trim_end_Nil: "trim_end [] = []"
  by (subst trim_end.simps) (simp add: ws_last_def)

lemma take_word_ascii:
  "byte_val c < 128 \<Longrightarrow> take_word (c # cs) = (if c \<in> set ascii_ws then [] else c # take_word cs)"
  by (simp add: ws_head_ascii)

declare take_word.simps(2) [simp del]

lemmas word_eval = trim_def trim_start_ascii trim_end_ascii trim_end_Nil take_word_ascii
  first_word_take_word ascii_ws_def

section \<open>Trimming and path components\<close>

definition trim_bytes :: "u8 list \<Rightarrow> str \<Rightarrow> str" where
  "trim_bytes bs s = rev (dropWhile (\<lambda>c. c \<in> set bs) (rev (dropWhile (\<lambda>c. c \<in> set bs) s)))"

text \<open>\<open>token.rsplit('/').next().unwrap_or(token)\<close>.\<close>

definition base_name :: "str \<Rightarrow> str" where
  "base_name token = last (split_on (CHR ''/'') token)"

lemma base_name_Nil [simp]: "base_name [] = []"
  by (simp add: base_name_def)

lemma base_name_nonempty: "base_name t \<noteq> [] \<Longrightarrow> t \<noteq> []"
  by auto

lemma base_name_plain: "CHR ''/'' \<notin> set t \<Longrightarrow> base_name t = t"
  by (simp add: base_name_def split_on_absent)

section \<open>Slices next to an ASCII byte\<close>

lemma utf8_unit_tail:
  assumes "utf8_unit (b # r) = (n, True)"
  shows "n \<le> 4" "1 < n \<Longrightarrow> is_cont (safe_get r 0)" "2 < n \<Longrightarrow> is_cont (safe_get r 1)"
    "3 < n \<Longrightarrow> is_cont (safe_get r 2)"
  using assms ok3_cont [of "byte_val b" "safe_get r 0"] ok4_cont [of "byte_val b" "safe_get r 0"]
  by (simp_all add: Let_def split: if_split_asm)

lemma utf8_unit_cont:
  assumes "snd (utf8_unit xs)" "0 < i" "i < fst (utf8_unit xs)"
  shows "128 \<le> byte_val (xs ! i)"
proof (cases xs)
  case Nil
  then show ?thesis using assms by simp
next
  case (Cons b r)
  obtain n where n: "utf8_unit (b # r) = (n, True)" using assms(1) Cons by (metis prod.exhaust_sel)
  obtain j where j: "i = Suc j" using assms(2) by (cases i) auto
  have "fst (utf8_unit xs) = n" unfolding Cons n by (rule fst_conv)
  then have lt: "Suc j < n" using assms(3) j by simp
  then have "j = 0 \<or> j = 1 \<or> j = 2" using utf8_unit_tail(1) [OF n] by linarith
  then have "is_cont (safe_get r j)" using utf8_unit_tail(2-4) [OF n] lt by fastforce
  moreover from this have "j < length r" by (rule is_cont_safe_get)
  ultimately have "is_cont (byte_val (r ! j))" by (simp only: safe_get_def if_True)
  then show ?thesis unfolding is_cont_def j Cons nth_Cons_Suc by (rule conjunct1)
qed

lemma utf8_valid_cut:
  "utf8_valid (a @ b # c) \<Longrightarrow> byte_val b < 128 \<Longrightarrow> utf8_valid a \<and> utf8_valid c"
proof (induction "length a" arbitrary: a rule: less_induct)
  case less
  let ?s = "a @ b # c" and ?n = "fst (utf8_unit (a @ b # c))"
  have unit: "snd (utf8_unit ?s)" using utf8_valid_unit [OF less.prems(1)] by simp
  have rest: "utf8_valid (drop ?n ?s)" by (rule utf8_valid_drop_unit [OF less.prems(1)])
  show ?case
  proof (cases "a = []")
    case True
    then show ?thesis using less.prems rest by simp
  next
    case False
    have le: "?n \<le> length a"
    proof (rule ccontr)
      assume "\<not> ?n \<le> length a"
      then have "128 \<le> byte_val (?s ! length a)"
        using utf8_unit_cont [OF unit, of "length a"] False by simp
      then show False using less.prems(2) by simp
    qed
    have pos: "0 < ?n" using utf8_unit_pos by blast
    have "utf8_valid (drop ?n a @ b # c)" using rest le by simp
    then have IH: "utf8_valid (drop ?n a)" "utf8_valid c"
      using less.hyps [of "drop ?n a"] less.prems(2) pos False by auto
    have "utf8_valid (take ?n ?s @ drop ?n a)"
      using utf8_valid_append_unit [OF unit] IH(1) by simp
    then show ?thesis using le IH(2) by simp
  qed
qed

end
