(* ===== verification/Risk_Guard.thy ===== *)
theory Risk_Guard
  imports Risk_Rules Rust_Words
begin

text \<open>
  The command risk guard (\<open>aic-client/src/risk_guard.rs\<close>): the quote-aware scanners that cut a
  command line into segments and tokens and look for pipes into a shell and for redirections, the
  stripping of environment and privilege prefixes, and the classifier that answers with the worst
  segment. A scanner that walks an index over the bytes is a recursion over the bytes that are left;
  the segment under construction is the slice from its start to the index.
\<close>

section \<open>Separators\<close>

abbreviation is_quote :: "u8 \<Rightarrow> bool" where
  "is_quote b \<equiv> b = CHR 0x27 \<or> b = CHR 0x22"

abbreviation backslash :: u8 where
  "backslash \<equiv> CHR 0x5C"

definition contains_unbounded_substitution :: "str \<Rightarrow> bool" where
  "contains_unbounded_substitution cmd = (CHR 0x60 \<in> set cmd \<or> contains cmd ''$('')"

definition is_sep :: "u8 \<Rightarrow> bool" where
  "is_sep b = (b = CHR '';'' \<or> b = CHR ''|'' \<or> b = CHR ''&'')"

text \<open>A doubled \<open>|\<close> or \<open>&\<close> is one separator.\<close>

definition after_sep :: "u8 \<Rightarrow> str \<Rightarrow> str" where
  "after_sep b r = (if (b = CHR ''|'' \<or> b = CHR ''&'') \<and> r \<noteq> [] \<and> hd r = b then tl r else r)"

lemma length_after_sep: "length (after_sep b r) \<le> length r"
  by (simp add: after_sep_def)

function split_scan :: "u8 option \<Rightarrow> str \<Rightarrow> str \<Rightarrow> str list" where
  "split_scan q cur [] = (if cur \<noteq> [] then [cur] else [])"
| "split_scan (Some q) cur (b # r) =
     (if q = CHR 0x22 \<and> b = backslash \<and> r \<noteq> [] then split_scan (Some q) (cur @ [b, hd r]) (tl r)
      else split_scan (if b = q then None else Some q) (cur @ [b]) r)"
| "split_scan None cur (b # r) =
     (if is_quote b then split_scan (Some b) (cur @ [b]) r
      else if b = backslash \<and> r \<noteq> [] then split_scan None (cur @ [b, hd r]) (tl r)
      else if is_sep b then cur # split_scan None [] (after_sep b r)
      else split_scan None (cur @ [b]) r)"
  by pat_completeness auto
termination
  by (relation "measure (\<lambda>(q, cur, s). length s)")
    (auto simp: length_after_sep less_Suc_eq_le)

definition split_top_level :: "str \<Rightarrow> str list" where
  "split_top_level cmd = filter (\<lambda>s. trim s \<noteq> []) (split_scan None [] cmd)"

section \<open>Prefixes\<close>

definition is_env_name :: "str \<Rightarrow> bool" where
  "is_env_name name = (name \<noteq> [] \<and> list_all (\<lambda>c.
     (48 \<le> byte_val c \<and> byte_val c \<le> 57) \<or> (65 \<le> byte_val c \<and> byte_val c \<le> 90) \<or>
     (97 \<le> byte_val c \<and> byte_val c \<le> 122) \<or> c = CHR ''_'') name)"

definition is_assignment :: "str \<Rightarrow> bool" where
  "is_assignment head = (case find_byte (\<lambda>c. c = CHR ''='') head of
     None \<Rightarrow> False | Some eq \<Rightarrow> is_env_name (take eq head))"

definition advance :: "str \<Rightarrow> str" where
  "advance rest = trim_start (drop (length (first_word rest)) rest)"

lemma advance_less: "first_word s \<noteq> [] \<Longrightarrow> length (advance s) < length s"
  by (simp add: advance_def advance_shorter)

lemma advance_le: "length (advance s) \<le> length s"
  using length_trim_start [of "drop (length (first_word s)) s"] by (simp add: advance_def)

lemma is_assignment_nonempty [simp]: "\<not> is_assignment []"
  by (simp add: is_assignment_def)

function strip_env_loop :: "str \<Rightarrow> str" where
  "strip_env_loop rest =
     (if is_assignment (first_word rest) then strip_env_loop (advance rest) else rest)"
  by pat_completeness auto
termination
  by (relation "measure length") (auto intro!: advance_less)

declare strip_env_loop.simps [simp del]

definition strip_env_prefix :: "str \<Rightarrow> str" where
  "strip_env_prefix segment = strip_env_loop (trim_start segment)"

function skip_sudo_options :: "str \<Rightarrow> str" where
  "skip_sudo_options rest =
     (let nxt = first_word rest in
      if starts_with nxt ''--'' \<and> CHR ''='' \<notin> set nxt then skip_sudo_options (advance rest)
      else if starts_with nxt ''-'' \<and> length nxt \<le> 3 then
        skip_sudo_options
          (if nxt \<in> set [''-u'', ''-g'', ''-U''] \<and> first_word (advance rest) \<noteq> []
           then advance (advance rest) else advance rest)
      else rest)"
  by pat_completeness auto
termination
proof (relation "measure length")
  fix rest nxt :: str
  assume "nxt = first_word rest" "starts_with nxt ''-'' \<and> length nxt \<le> 3"
  then have less: "length (advance rest) < length rest" by (auto intro: advance_less)
  show "((if nxt \<in> set [''-u'', ''-g'', ''-U''] \<and> first_word (advance rest) \<noteq> []
      then advance (advance rest) else advance rest), rest) \<in> measure length"
    using less advance_le [of "advance rest"] by auto
qed (auto intro: advance_less)

declare skip_sudo_options.simps [simp del]

lemma skip_sudo_options_le: "length (skip_sudo_options s) \<le> length s"
proof (induction s rule: skip_sudo_options.induct)
  case (1 rest)
  show ?case
    using 1(1) [OF refl] 1(2) [OF refl] advance_le [of rest] advance_le [of "advance rest"]
    by (subst skip_sudo_options.simps) (auto simp: Let_def intro: order_trans split: if_splits)
qed

function strip_privilege_loop :: "bool \<Rightarrow> str \<Rightarrow> str \<times> bool" where
  "strip_privilege_loop used rest =
     (let head_base = base_name (first_word rest) in
      if head_base \<in> set [''sudo'', ''doas''] then strip_privilege_loop True (skip_sudo_options (advance rest))
      else if head_base = ''env'' then (advance rest, used)
      else (rest, used))"
  by pat_completeness auto
termination
proof (relation "measure (\<lambda>(used, rest). length rest)")
  fix used :: bool and rest head_base :: str
  assume "head_base = base_name (first_word rest)" "head_base \<in> set [''sudo'', ''doas'']"
  then have "first_word rest \<noteq> []" using base_name_nonempty [of "first_word rest"] by auto
  then have "length (advance rest) < length rest" by (rule advance_less)
  then show "((True, skip_sudo_options (advance rest)), used, rest) \<in> measure (\<lambda>(used, rest). length rest)"
    using skip_sudo_options_le [of "advance rest"] by simp
qed simp

declare strip_privilege_loop.simps [simp del]

definition strip_privilege_prefix :: "str \<Rightarrow> str \<times> bool" where
  "strip_privilege_prefix segment = strip_privilege_loop False (trim_start segment)"

section \<open>Pipes into a shell\<close>

definition shells :: "str list" where
  "shells = [''sh'', ''bash'', ''zsh'', ''dash'', ''ksh'', ''fish'']"

definition pipe_target :: "str \<Rightarrow> str" where
  "pipe_target r = base_name (first_word (fst (strip_privilege_prefix (strip_env_prefix (trim_start r)))))"

function pipe_scan :: "u8 option \<Rightarrow> str \<Rightarrow> risk_assessment option" where
  "pipe_scan q [] = None"
| "pipe_scan (Some q) (b # r) =
     (if q = CHR 0x22 \<and> b = backslash \<and> r \<noteq> [] then pipe_scan (Some q) (tl r)
      else pipe_scan (if b = q then None else Some q) r)"
| "pipe_scan None (b # r) =
     (if is_quote b then pipe_scan (Some b) r
      else if b = backslash \<and> r \<noteq> [] then pipe_scan None (tl r)
      else if b = CHR ''|'' then
        (if r \<noteq> [] \<and> hd r = CHR ''|'' then pipe_scan None (tl r)
         else if pipe_target r \<in> set shells
         then Some (dangerous ''pipe.shell'' (PipeToShell (pipe_target r)))
         else pipe_scan None r)
      else pipe_scan None r)"
  by pat_completeness auto
termination
  by (relation "measure (\<lambda>(q, s). length s)") (auto simp: less_Suc_eq_le)

definition classify_pipe_to_shell :: "str \<Rightarrow> risk_assessment option" where
  "classify_pipe_to_shell cmd = pipe_scan None cmd"

section \<open>Redirections\<close>

definition is_harmless_device_sink :: "str \<Rightarrow> bool" where
  "is_harmless_device_sink s =
     (s \<in> set [''/dev/null'', ''/dev/stdout'', ''/dev/stderr'', ''/dev/tty''])"

definition trim_quotes :: "str \<Rightarrow> str" where
  "trim_quotes s = trim_bytes [CHR 0x27, CHR 0x22] s"

definition is_system_path :: "str \<Rightarrow> bool" where
  "is_system_path s = (let s = trim_quotes s in
     starts_with s ''/etc/'' \<or> s = ''/etc'' \<or> starts_with s ''/dev/'' \<or> s = ''/dev/sda'' \<or>
     starts_with s ''/boot/'' \<or> starts_with s ''/sys/'' \<or> starts_with s ''/proc/'')"

function overwrite_scan :: "u8 option \<Rightarrow> str \<Rightarrow> bool" where
  "overwrite_scan q [] = False"
| "overwrite_scan (Some q) (b # r) =
     (if q = CHR 0x22 \<and> b = backslash \<and> r \<noteq> [] then overwrite_scan (Some q) (tl r)
      else overwrite_scan (if b = q then None else Some q) r)"
| "overwrite_scan None (b # r) =
     (if is_quote b then overwrite_scan (Some b) r
      else if b = backslash \<and> r \<noteq> [] then overwrite_scan None (tl r)
      else if b = CHR ''>'' then
        (if r \<noteq> [] \<and> hd r = CHR ''>'' then overwrite_scan None (tl r)
         else if starts_with (trim_start r) ''&'' then overwrite_scan None r
         else let cleaned = trim_quotes (first_word (trim_start r)) in
           if cleaned \<noteq> [] \<and> \<not> is_harmless_device_sink cleaned then True else overwrite_scan None r)
      else overwrite_scan None r)"
  by pat_completeness auto
termination
  by (relation "measure (\<lambda>(q, s). length s)") (auto simp: less_Suc_eq_le)

definition has_overwrite_redirect :: "str \<Rightarrow> bool" where
  "has_overwrite_redirect command = overwrite_scan None command"

definition redirect_target :: "str \<Rightarrow> str" where
  "redirect_target r = first_word (trim_start (dropWhile (\<lambda>c. c = CHR ''>'') r))"

function redirect_scan :: "u8 option \<Rightarrow> str \<Rightarrow> risk_assessment option" where
  "redirect_scan q [] = None"
| "redirect_scan (Some q) (b # r) =
     (if q = CHR 0x22 \<and> b = backslash \<and> r \<noteq> [] then redirect_scan (Some q) (tl r)
      else redirect_scan (if b = q then None else Some q) r)"
| "redirect_scan None (b # r) =
     (if is_quote b then redirect_scan (Some b) r
      else if b = CHR ''>'' \<and> \<not> is_harmless_device_sink (trim_quotes (redirect_target r)) \<and>
        is_system_path (redirect_target r)
      then Some (dangerous ''redirect.system_path'' (SystemRedirect (redirect_target r)))
      else redirect_scan None r)"
  by pat_completeness auto
termination
  by (relation "measure (\<lambda>(q, s). length s)") (auto simp: less_Suc_eq_le)

definition classify_redirect :: "str \<Rightarrow> risk_assessment option" where
  "classify_redirect segment = redirect_scan None segment"

section \<open>Tokens\<close>

text \<open>\<open>byte as char\<close> pushed onto a \<open>String\<close>: the Latin-1 character of that number, in UTF-8.\<close>

definition push_char :: "u8 \<Rightarrow> str" where
  "push_char b = (if byte_val b < 128 then [b]
     else [byte_of (192 + byte_val b div 64), byte_of (128 + byte_val b mod 64)])"

definition is_ascii_whitespace :: "u8 \<Rightarrow> bool" where
  "is_ascii_whitespace b = (b \<in> set [CHR 0x20, CHR 0x09, CHR 0x0A, CHR 0x0C, CHR 0x0D])"

function tok_scan :: "u8 option \<Rightarrow> bool \<Rightarrow> str \<Rightarrow> str \<Rightarrow> str list option" where
  "tok_scan (Some q) in_token cur [] = None"
| "tok_scan None in_token cur [] = Some (if in_token then [cur] else [])"
| "tok_scan (Some q) in_token cur (b # r) =
     (if q = CHR 0x22 \<and> b = backslash \<and> r \<noteq> []
      then tok_scan (Some q) in_token (cur @ push_char (hd r)) (tl r)
      else if b = q then tok_scan None in_token cur r
      else tok_scan (Some q) in_token (cur @ push_char b) r)"
| "tok_scan None in_token cur (b # r) =
     (if is_ascii_whitespace b then
        (if in_token then map_option (Cons cur) (tok_scan None False [] r)
         else tok_scan None False cur r)
      else if is_quote b then tok_scan (Some b) True cur r
      else if b = backslash \<and> r \<noteq> [] then tok_scan None True (cur @ push_char (hd r)) (tl r)
      else tok_scan None True (cur @ push_char b) r)"
  by pat_completeness auto
termination
  by (relation "measure (\<lambda>(q, t, cur, s). length s)") (auto simp: less_Suc_eq_le)

definition tokenize :: "str \<Rightarrow> str list option" where
  "tokenize segment = tok_scan None False [] segment"

section \<open>The classifier\<close>

text \<open>\<open>str::to_lowercase\<close> needs the Unicode tables: it is the parameter \<open>lower\<close>.\<close>

definition config_rule :: "(str \<Rightarrow> str) \<Rightarrow> str \<Rightarrow> str list \<Rightarrow> risk_assessment option" where
  "config_rule lower stripped extra =
     (let lowered = lower (trim_start stripped) in
      case find (\<lambda>entry. lower (trim entry) \<noteq> [] \<and> starts_with lowered (lower (trim entry))) extra of
        None \<Rightarrow> None
      | Some entry \<Rightarrow> Some (dangerous ''config.dangerous'' (ConfigRule entry)))"

definition classify_tokens ::
  "(str \<Rightarrow> str) \<Rightarrow> str \<Rightarrow> bool \<Rightarrow> str list \<Rightarrow> str \<Rightarrow> str list \<Rightarrow> risk_assessment" where
  "classify_tokens lower stripped sudo_used extra head args =
     (case config_rule lower stripped extra of Some asm \<Rightarrow> asm
      | None \<Rightarrow> case match_dangerous head args of Some asm \<Rightarrow> asm
      | None \<Rightarrow> case match_safe head args of
          Some asm \<Rightarrow> if sudo_used then needs_confirm ''sudo.privilege_escalation'' (SudoWith head) else asm
      | None \<Rightarrow> case match_needs_confirm head args of Some asm \<Rightarrow> asm
      | None \<Rightarrow> if sudo_used then needs_confirm ''sudo.privilege_escalation'' (SudoUnclassified head)
                else unknown (NoRule head))"

definition classify_single :: "(str \<Rightarrow> str) \<Rightarrow> str \<Rightarrow> str list \<Rightarrow> risk_assessment" where
  "classify_single lower segment extra =
     (if segment = [] then unknown EmptySegment
      else case classify_redirect segment of Some asm \<Rightarrow> asm
      | None \<Rightarrow>
        (let stripped = strip_env_prefix segment;
             (after_sudo, sudo_used) = strip_privilege_prefix stripped
         in case tokenize after_sudo of
              Some (h # rest) \<Rightarrow> classify_tokens lower stripped sudo_used extra (base_name h) rest
            | _ \<Rightarrow> unknown TokenizeFailed))"

definition worse :: "risk_assessment \<Rightarrow> risk_assessment \<Rightarrow> risk_assessment" where
  "worse worst asm = (if severity (ra_level worst) < severity (ra_level asm) then asm else worst)"

definition classify_with_extra_denylist :: "(str \<Rightarrow> str) \<Rightarrow> str \<Rightarrow> str list \<Rightarrow> risk_assessment" where
  "classify_with_extra_denylist lower command extra =
     (let trimmed = trim command in
      if trimmed = [] then unknown EmptyCommand
      else if contains_unbounded_substitution trimmed then unknown Substitution
      else case classify_pipe_to_shell trimmed of Some asm \<Rightarrow> asm
      | None \<Rightarrow>
        (let segments = split_top_level trimmed in
         if segments = [] then unknown ParseFailed
         else foldl (\<lambda>worst seg. worse worst (classify_single lower (trim seg) extra))
           \<lparr>ra_level = Safe, ra_reason = None, ra_rule = None\<rparr> segments))"

text \<open>Without a denylist no text is lowered, so the choice of \<open>lower\<close> is immaterial.\<close>

definition classify :: "str \<Rightarrow> risk_assessment" where
  "classify command = classify_with_extra_denylist to_ascii_lowercase command []"

text \<open>Equations that evaluate the guard on concrete commands.\<close>

lemmas prefix_eval = strip_env_prefix_def strip_env_loop.simps advance_def is_assignment_def
  is_env_name_def strip_privilege_prefix_def strip_privilege_loop.simps skip_sudo_options.simps
  base_name_def

lemmas scan_eval = split_top_level_def is_sep_def after_sep_def classify_pipe_to_shell_def
  pipe_target_def shells_def contains_unbounded_substitution_def contains_def classify_redirect_def
  redirect_target_def tokenize_def is_ascii_whitespace_def push_char_def

end
