(* ===== verification/Risk_Safety.thy ===== *)
theory Risk_Safety
  imports Risk_Guard
begin

text \<open>
  What the risk guard guarantees: the answer is the worst segment's, a command is Safe exactly when
  every segment of it is on the allow list, a privilege prefix is never Safe, the segments and their
  separators are the whole command, and quoting is read the way it was written.
\<close>

section \<open>The worst segment\<close>

lemma worse_level: "ra_level (worse a b) = max (ra_level a) (ra_level b)"
  by (auto simp: worse_def max_def less_eq_risk_level_def intro: severity_inj)

lemma foldl_worse_level:
  "ra_level (foldl (\<lambda>w s. worse w (f s)) a xs) = Max (insert (ra_level a) ((\<lambda>s. ra_level (f s)) ` set xs))"
proof (induction xs arbitrary: a)
  case Nil
  then show ?case by simp
next
  case (Cons x xs)
  show ?case
  proof (cases "xs = []")
    case True
    then show ?thesis by (simp add: worse_level)
  next
    case False
    then show ?thesis by (simp add: Cons.IH worse_level insert_commute max.assoc)
  qed
qed

lemma Max_Safe_iff: "finite A \<Longrightarrow> Max (insert Safe A) = Safe \<longleftrightarrow> (\<forall>l\<in>A. l = Safe)"
  using Max.bounded_iff [of "insert Safe A" Safe] by (simp del: Max_insert)

lemma redirect_scan_level: "redirect_scan q s = Some a \<Longrightarrow> ra_level a = Dangerous"
  by (induction q s rule: redirect_scan.induct) (auto split: if_splits)

lemma pipe_scan_level: "pipe_scan q s = Some a \<Longrightarrow> ra_level a = Dangerous"
  by (induction q s rule: pipe_scan.induct) (auto split: if_splits)

lemma config_rule_level: "config_rule lower s extra = Some a \<Longrightarrow> ra_level a = Dangerous"
  by (auto simp: config_rule_def Let_def split: option.splits)

lemma config_rule_none [simp]: "config_rule lower s [] = None"
  by (simp add: config_rule_def)

lemma split_top_level_trim: "seg \<in> set (split_top_level cmd) \<Longrightarrow> trim seg \<noteq> []"
  by (simp add: split_top_level_def)

text \<open>
  Further property (functional). For a command without a substitution and without a pipe into a shell the guard
  answers with the worst of its segments, whatever the user's denylist is: the level is the maximum of
  the levels of the segments in the severity order.
\<close>

theorem classify_worst_segment:
  assumes "\<not> contains_unbounded_substitution (trim cmd)"
    and "classify_pipe_to_shell (trim cmd) = None"
    and "split_top_level (trim cmd) \<noteq> []"
  shows "ra_level (classify_with_extra_denylist lower cmd extra) =
    Max ((\<lambda>seg. ra_level (classify_single lower (trim seg) extra)) ` set (split_top_level (trim cmd)))"
proof -
  let ?f = "\<lambda>seg. classify_single lower (trim seg) extra"
  have ne: "trim cmd \<noteq> []" using assms(3) by (auto simp: split_top_level_def)
  have "ra_level (classify_with_extra_denylist lower cmd extra) =
      Max (insert Safe ((\<lambda>s. ra_level (?f s)) ` set (split_top_level (trim cmd))))"
    using assms ne foldl_worse_level
      [of ?f "\<lparr>ra_level = Safe, ra_reason = None, ra_rule = None\<rparr>" "split_top_level (trim cmd)"]
    by (simp add: classify_with_extra_denylist_def Let_def)
  then show ?thesis using assms(3) by (simp add: max_def)
qed

theorem classify_worst_segment_witness:
  "ra_level (classify_with_extra_denylist to_ascii_lowercase ''ls; rm -r x'' []) =
     Max ((\<lambda>seg. ra_level (classify_single to_ascii_lowercase (trim seg) [])) ` {''ls'', '' rm -r x''})"
proof -
  have t: "trim ''ls; rm -r x'' = ''ls; rm -r x''" by (simp add: word_eval)
  have s: "split_top_level ''ls; rm -r x'' = [''ls'', '' rm -r x'']" by (simp add: scan_eval word_eval)
  have "\<not> contains_unbounded_substitution (trim ''ls; rm -r x'')"
    "classify_pipe_to_shell (trim ''ls; rm -r x'') = None" "split_top_level (trim ''ls; rm -r x'') \<noteq> []"
    by (simp_all add: t s) (simp_all add: scan_eval)
  from classify_worst_segment [OF this, of to_ascii_lowercase "[]"] show ?thesis by (simp only: t s list.set)
qed

section \<open>What is Safe\<close>

text \<open>A segment on the allow list: no system redirection, no privilege prefix, and a safe rule only.\<close>

definition allow_listed :: "str \<Rightarrow> bool" where
  "allow_listed seg \<longleftrightarrow> classify_redirect seg = None \<and>
     (case strip_privilege_prefix (strip_env_prefix seg) of (rest, sudo) \<Rightarrow> \<not> sudo \<and>
       (case tokenize rest of
          Some (h # args) \<Rightarrow> match_dangerous (base_name h) args = None \<and> match_safe (base_name h) args \<noteq> None
        | _ \<Rightarrow> False))"

lemma classify_tokens_safe_iff:
  "ra_level (classify_tokens lower s sudo extra h args) = Safe \<longleftrightarrow>
     config_rule lower s extra = None \<and> match_dangerous h args = None \<and> match_safe h args \<noteq> None \<and> \<not> sudo"
  by (auto simp: classify_tokens_def match_safe_level split: option.splits
      dest: config_rule_level match_dangerous_level match_needs_confirm_level)

lemma classify_single_safe_iff:
  "ra_level (classify_single lower seg extra) = Safe \<longleftrightarrow>
     seg \<noteq> [] \<and> allow_listed seg \<and> config_rule lower (strip_env_prefix seg) extra = None"
  by (auto simp: classify_single_def allow_listed_def Let_def classify_tokens_safe_iff classify_redirect_def
      dest: redirect_scan_level split: option.splits prod.splits list.splits)

lemma classify_safe_iff:
  "ra_level (classify cmd) = Safe \<longleftrightarrow>
     \<not> contains_unbounded_substitution (trim cmd) \<and> classify_pipe_to_shell (trim cmd) = None \<and>
     split_top_level (trim cmd) \<noteq> [] \<and> (\<forall>seg\<in>set (split_top_level (trim cmd)). allow_listed (trim seg))"
proof -
  let ?segs = "split_top_level (trim cmd)"
  let ?f = "\<lambda>seg. classify_single to_ascii_lowercase (trim seg) []"
  have seg: "ra_level (?f s) = Safe \<longleftrightarrow> allow_listed (trim s)" if "s \<in> set ?segs" for s
    using split_top_level_trim [OF that] by (simp add: classify_single_safe_iff)
  have fold: "ra_level (foldl (\<lambda>w s. worse w (?f s)) \<lparr>ra_level = Safe, ra_reason = None, ra_rule = None\<rparr> ?segs)
      = Safe \<longleftrightarrow> (\<forall>s\<in>set ?segs. allow_listed (trim s))"
    by (simp add: foldl_worse_level Max_Safe_iff seg)
  show ?thesis
  proof (cases "trim cmd = []")
    case True
    then show ?thesis
      by (simp add: classify_def classify_with_extra_denylist_def split_top_level_def)
  next
    case False
    then show ?thesis using fold
      by (auto simp: classify_def classify_with_extra_denylist_def Let_def
          classify_pipe_to_shell_def dest: pipe_scan_level split: option.splits)
  qed
qed

lemma safe_allow_listed:
  "ra_level (classify cmd) = Safe \<Longrightarrow> seg \<in> set (split_top_level (trim cmd)) \<Longrightarrow> allow_listed (trim seg)"
  by (simp add: classify_safe_iff)

text \<open>
  C3 (safety). A command may run without a confirmation exactly when it has no substitution and no
  pipe into a shell and every one of its segments is on the allow list: its head, after the
  environment prefix, is not run through sudo or doas, matches no dangerous rule and matches a safe
  rule, and it redirects into no system path. Nothing unrecognised, empty or privileged is let through.
\<close>

theorem auto_confirm_iff_allow_listed:
  "allows_auto_confirm (ra_level (classify cmd)) \<longleftrightarrow>
     \<not> contains_unbounded_substitution (trim cmd) \<and> classify_pipe_to_shell (trim cmd) = None \<and>
     split_top_level (trim cmd) \<noteq> [] \<and> (\<forall>seg\<in>set (split_top_level (trim cmd)). allow_listed (trim seg))"
  by (simp add: allows_auto_confirm_def classify_safe_iff)

theorem auto_confirm_iff_allow_listed_witness:
  "allows_auto_confirm (ra_level (classify ''ls'')) = allow_listed ''ls''"
proof -
  have t: "trim ''ls'' = ''ls''" by (simp add: word_eval)
  have s: "split_top_level ''ls'' = [''ls'']" by (simp add: scan_eval word_eval)
  have "\<not> contains_unbounded_substitution ''ls''" "classify_pipe_to_shell ''ls'' = None"
    by (simp_all add: scan_eval)
  then show ?thesis using auto_confirm_iff_allow_listed [of "''ls''"] by (simp add: t s)
qed

text \<open>
  Further property (safety). A segment run through sudo or doas is never Safe, whatever follows: even an allow
  listed command is raised to a confirmation, and an entry of the user's denylist still makes it
  Dangerous.
\<close>

theorem privileged_never_safe:
  assumes "snd (strip_privilege_prefix (strip_env_prefix seg))"
  shows "NeedsConfirm \<le> ra_level (classify_single lower seg extra)"
proof -
  have "ra_level (classify_single lower seg extra) \<noteq> Safe"
    using assms by (auto simp: classify_single_safe_iff allow_listed_def split: prod.splits)
  then show ?thesis by (cases "ra_level (classify_single lower seg extra)") (auto simp: less_eq_risk_level_def)
qed

theorem privileged_never_safe_witness:
  "snd (strip_privilege_prefix (strip_env_prefix ''A=1 sudo -n ls'')) \<and>
     NeedsConfirm \<le> ra_level (classify_single to_ascii_lowercase ''A=1 sudo -n ls'' [])"
proof -
  have "snd (strip_privilege_prefix (strip_env_prefix ''A=1 sudo -n ls''))"
    by (simp add: prefix_eval word_eval)
  then show ?thesis using privileged_never_safe [of "''A=1 sudo -n ls''" to_ascii_lowercase "[]"] by simp
qed

section \<open>Segments are the whole command\<close>

definition separators :: "str list" where
  "separators = ['';'', ''|'', ''&'', ''||'', ''&&'']"

lemma after_sep_separator:
  "is_sep b \<Longrightarrow> \<exists>sep\<in>set separators. b # r = sep @ after_sep b r"
  by (cases r) (auto simp: is_sep_def separators_def after_sep_def)

lemma split_scan_rebuilds:
  "\<exists>seps. set seps \<subseteq> set separators \<and> length seps \<le> length (split_scan q cur s) \<and>
     length (split_scan q cur s) \<le> Suc (length seps) \<and>
     concat (map2 (@) (split_scan q cur s) (seps @ [[]])) = cur @ s"
proof (induction q cur s rule: split_scan.induct)
  case (1 q cur)
  show ?case by (rule exI [of _ "[]"]) simp
next
  case (2 q cur b r)
  then show ?case by (cases "q = CHR 0x22 \<and> b = backslash \<and> r \<noteq> []") auto
next
  case (3 cur b r)
  show ?case
  proof (cases "\<not> is_quote b \<and> \<not> (b = backslash \<and> r \<noteq> []) \<and> is_sep b")
    case True
    let ?t = "split_scan None [] (after_sep b r)"
    have eq: "split_scan None cur (b # r) = cur # ?t" using True by auto
    obtain sep where sep: "sep \<in> set separators" "b # r = sep @ after_sep b r"
      using after_sep_separator [of b r] True by blast
    obtain seps where seps: "set seps \<subseteq> set separators" "length seps \<le> length ?t"
      "length ?t \<le> Suc (length seps)" "concat (map2 (@) ?t (seps @ [[]])) = after_sep b r"
      using 3(3) True by auto
    show ?thesis unfolding eq
      by (rule exI [of _ "sep # seps"]) (simp add: sep(1) seps sep(2) [symmetric])
  next
    case False
    then show ?thesis using 3(1,2,4) by auto
  qed
qed

lemma utf8_valid_after_sep: "utf8_valid (b # r) \<Longrightarrow> is_sep b \<Longrightarrow> utf8_valid (after_sep b r)"
  using utf8_valid_cut [of "[]" b r] utf8_valid_cut [of "[]" b "tl r"]
  by (cases r) (auto simp: after_sep_def is_sep_def)

lemma split_scan_utf8:
  "utf8_valid (cur @ s) \<Longrightarrow> seg \<in> set (split_scan q cur s) \<Longrightarrow> utf8_valid seg"
proof (induction q cur s rule: split_scan.induct)
  case (1 q cur)
  then show ?case by (auto split: if_splits)
next
  case (2 q cur b r)
  then show ?case by (cases "q = CHR 0x22 \<and> b = backslash \<and> r \<noteq> []") auto
next
  case (3 cur b r)
  show ?case
  proof (cases "\<not> is_quote b \<and> \<not> (b = backslash \<and> r \<noteq> []) \<and> is_sep b")
    case True
    then have cut: "utf8_valid cur" "utf8_valid r"
      using utf8_valid_cut [OF 3(5)] by (auto simp: is_sep_def)
    have "utf8_valid (b # r)"
      using True cut(2) utf8_valid_append_unit [of "[b]" r] by (auto simp: is_sep_def)
    then have "utf8_valid (after_sep b r)" using utf8_valid_after_sep True by blast
    then show ?thesis using True cut(1) 3(3,6) by auto
  next
    case False
    then show ?thesis using 3(1,2,4,5,6) by (auto split: if_splits)
  qed
qed

text \<open>
  Further property (functional). Splitting loses nothing: the segments, with a separator (one of the five) after
  each but at most the last, are the command again, of which only the blank ones are dropped; and
  each segment of a valid text is a valid text, so no slice of the splitter cuts a character and none
  panics.
\<close>

theorem split_top_level_complete:
  assumes "utf8_valid cmd"
  shows "\<exists>segs seps. split_top_level cmd = filter (\<lambda>s. trim s \<noteq> []) segs \<and>
    set seps \<subseteq> set separators \<and> length seps \<le> length segs \<and> length segs \<le> Suc (length seps) \<and>
    concat (map2 (@) segs (seps @ [[]])) = cmd \<and> list_all utf8_valid segs"
  using split_scan_rebuilds [of None "[]" cmd] split_scan_utf8 [of "[]" cmd _ None] assms
  by (auto simp: split_top_level_def list_all_iff)

theorem split_top_level_complete_witness:
  "\<exists>segs seps. split_top_level ''a;b'' = filter (\<lambda>s. trim s \<noteq> []) segs \<and>
    set seps \<subseteq> set separators \<and> length seps \<le> length segs \<and> length segs \<le> Suc (length seps) \<and>
    concat (map2 (@) segs (seps @ [[]])) = ''a;b'' \<and> list_all utf8_valid segs"
  by (rule split_top_level_complete) (simp add: utf8_valid_ascii)

section \<open>Quoting\<close>

definition single_quote :: "str \<Rightarrow> str" where
  "single_quote w = CHR 0x27 # w @ [CHR 0x27]"

definition quotable :: "str \<Rightarrow> bool" where
  "quotable w \<longleftrightarrow> list_all (\<lambda>c. byte_val c < 128 \<and> c \<noteq> CHR 0x27) w"

lemma tok_scan_quoted:
  "quotable w \<Longrightarrow> tok_scan (Some (CHR 0x27)) t cur (w @ CHR 0x27 # r) = tok_scan None t (cur @ w) r"
  by (induction w arbitrary: cur) (auto simp: quotable_def push_char_def)

lemma split_scan_quoted:
  "CHR 0x27 \<notin> set w \<Longrightarrow>
     split_scan (Some (CHR 0x27)) cur (w @ CHR 0x27 # r) = split_scan None (cur @ w @ [CHR 0x27]) r"
  by (induction w arbitrary: cur) auto

fun quoted_line :: "str list \<Rightarrow> str" where
  "quoted_line [] = []"
| "quoted_line [w] = single_quote w"
| "quoted_line (w # ws) = single_quote w @ CHR 0x20 # quoted_line ws"

lemma tokenize_quoted: "list_all quotable ws \<Longrightarrow> tok_scan None False [] (quoted_line ws) = Some ws"
  by (induction ws rule: quoted_line.induct)
    (simp_all add: single_quote_def tok_scan_quoted is_ascii_whitespace_def)

lemma split_quoted:
  "list_all quotable ws \<Longrightarrow> cur \<noteq> [] \<or> ws \<noteq> [] \<Longrightarrow>
     split_scan None cur (quoted_line ws) = [cur @ quoted_line ws]"
proof (induction ws arbitrary: cur rule: quoted_line.induct)
  case 1
  then show ?case by simp
next
  case (2 w)
  then have "CHR 0x27 \<notin> set w" by (auto simp: quotable_def list_all_iff)
  then show ?case by (simp add: single_quote_def split_scan_quoted)
next
  case (3 w v ws)
  then have "CHR 0x27 \<notin> set w" by (auto simp: quotable_def list_all_iff)
  then show ?case using 3 by (simp add: single_quote_def split_scan_quoted is_sep_def)
qed

text \<open>
  The scanners that look for something outside quotes, seen from the text they skip: what they do
  inside quotes, at an opening quote and at a blank. The three scanners of the guard without a segment
  under construction are such.
\<close>

locale quote_scanner =
  fixes scan :: "u8 option \<Rightarrow> str \<Rightarrow> 'a"
  assumes scan_inside: "scan (Some q) (b # r) =
      (if q = CHR 0x22 \<and> b = backslash \<and> r \<noteq> [] then scan (Some q) (tl r)
       else scan (if b = q then None else Some q) r)"
    and scan_open: "is_quote b \<Longrightarrow> scan None (b # r) = scan (Some b) r"
    and scan_blank: "scan None (CHR 0x20 # r) = scan None r"
begin

lemma scan_to_close: "CHR 0x27 \<notin> set w \<Longrightarrow> scan (Some (CHR 0x27)) (w @ CHR 0x27 # r) = scan None r"
  by (induction w) (auto simp: scan_inside)

lemma scan_single_quote: "CHR 0x27 \<notin> set w \<Longrightarrow> scan None (single_quote w @ r) = scan None r"
  by (simp add: single_quote_def scan_open scan_to_close)

lemma scan_quoted_line: "list_all quotable ws \<Longrightarrow> scan None (quoted_line ws) = scan None []"
proof (induction ws rule: quoted_line.induct)
  case (2 w)
  then show ?case using scan_single_quote [of w "[]"] by (auto simp: quotable_def list_all_iff)
next
  case (3 w v ws)
  then have "CHR 0x27 \<notin> set w" by (auto simp: quotable_def list_all_iff)
  then show ?case using 3 scan_single_quote [of w "CHR 0x20 # quoted_line (v # ws)"] by (simp add: scan_blank)
qed simp

end

interpretation pipe_s: quote_scanner pipe_scan
  by unfold_locales auto

interpretation over_s: quote_scanner overwrite_scan
  by unfold_locales auto

interpretation redir_s: quote_scanner redirect_scan
  by unfold_locales auto

text \<open>
  Further property (roundtrip). An argument vector written with each argument in single quotes is read back as it
  was: the splitter sees one segment whatever separators the arguments hold, the tokenizer returns the
  arguments, and none of the scanners for pipes and redirections finds anything in them.
\<close>

theorem quoted_arguments_round_trip:
  assumes "list_all quotable ws" "ws \<noteq> []"
  shows "tokenize (quoted_line ws) = Some ws \<and> split_scan None [] (quoted_line ws) = [quoted_line ws] \<and>
    classify_pipe_to_shell (quoted_line ws) = None \<and> classify_redirect (quoted_line ws) = None \<and>
    \<not> has_overwrite_redirect (quoted_line ws)"
  using assms tokenize_quoted split_quoted [of ws "[]"] pipe_s.scan_quoted_line [of ws]
    over_s.scan_quoted_line [of ws] redir_s.scan_quoted_line [of ws]
  by (simp add: tokenize_def classify_pipe_to_shell_def classify_redirect_def has_overwrite_redirect_def)

theorem quoted_arguments_round_trip_witness:
  "tokenize (quoted_line [''a;b'', [], ''c|d'']) = Some [''a;b'', [], ''c|d''] \<and>
     \<not> has_overwrite_redirect (quoted_line [''a;b'', [], ''c|d''])"
  using quoted_arguments_round_trip [of "[''a;b'', [], ''c|d'']"] by (simp add: quotable_def)

section \<open>Where the guard looks away\<close>

lemmas level_eval = classify_def classify_with_extra_denylist_def classify_single_def worse_def
  classify_tokens_def Let_def match_dangerous_def remote_heads_def

lemmas guard_eval = level_eval scan_eval prefix_eval word_eval match_safe_def safe_set_def
  match_needs_confirm_def needs_confirm_heads_def rm_recursive_flags_def has_flag_def
  is_harmless_device_sink_def is_system_path_def trim_quotes_def trim_bytes_def

text \<open>
  The programs of the allow list that are Safe with any arguments. \<open>env\<close> is not among them, since it is stripped
  as a prefix; the other six have rules on their arguments.
\<close>

definition always_safe_heads :: "str list" where
  "always_safe_heads = filter (\<lambda>h. h \<notin> set [''env'', ''sort'', ''uniq'', ''dig'', ''nslookup'', ''host'', ''sysctl'']) safe_set"

text \<open>A text without quotes, escapes, substitutions and the characters that the guard looks for.\<close>

definition calm :: "str \<Rightarrow> bool" where
  "calm s \<longleftrightarrow> list_all (\<lambda>c. byte_val c < 128 \<and> c \<notin> set ''|&;>$'' \<and> c \<notin> {CHR 0x22, CHR 0x27, CHR 0x5C, CHR 0x60}) s"

lemma calm_Cons: "calm (c # s) \<longleftrightarrow> byte_val c < 128 \<and> c \<notin> set ''|&;>$'' \<and> c \<notin> {CHR 0x22, CHR 0x27, CHR 0x5C, CHR 0x60} \<and> calm s"
  by (auto simp: calm_def)

lemma calm_append: "calm (s @ t) \<longleftrightarrow> calm s \<and> calm t"
  by (simp add: calm_def)

lemma calm_scans:
  assumes "calm s"
  shows "pipe_scan None s = None" and "redirect_scan None s = None" and "split_scan None cur s = (if cur @ s \<noteq> [] then [cur @ s] else [])"
    and "tok_scan None t w s \<noteq> None" and "\<not> contains_unbounded_substitution s"
proof -
  show "pipe_scan None s = None" using assms by (induction s) (auto simp: calm_Cons)
  show "redirect_scan None s = None" using assms by (induction s) (auto simp: calm_Cons)
  show "split_scan None cur s = (if cur @ s \<noteq> [] then [cur @ s] else [])"
    using assms by (induction s arbitrary: cur) (auto simp: calm_Cons is_sep_def)
  show "tok_scan None t w s \<noteq> None" using assms by (induction s arbitrary: t w) (auto simp: calm_Cons)
  have "CHR ''$'' \<notin> set s \<Longrightarrow> find_sub ''$('' s = None" by (induction s) auto
  moreover have "CHR ''$'' \<notin> set s" "CHR 0x60 \<notin> set s" using assms by (auto simp: calm_def list_all_iff)
  ultimately show "\<not> contains_unbounded_substitution s" by (simp add: contains_unbounded_substitution_def contains_def)
qed

definition lower_word :: "str \<Rightarrow> bool" where
  "lower_word h \<longleftrightarrow> h \<noteq> [] \<and> list_all (\<lambda>c. c \<in> set ''abcdefghijklmnopqrstuvwxyz_0123456789'') h"

lemma always_safe_head:
  assumes "h \<in> set always_safe_heads"
  shows "match_dangerous h args = None" and "match_safe h args \<noteq> None" and "lower_word h" and "h \<notin> set [''sudo'', ''doas'', ''env'']"
proof -
  have "list_all (\<lambda>h. match_dangerous h args = None) always_safe_heads"
    by (simp add: always_safe_heads_def safe_set_def match_dangerous_def remote_heads_def)
  with assms show "match_dangerous h args = None" by (simp add: list_all_iff)
  have "h \<in> set safe_set" "h \<notin> set [''env'', ''sort'', ''uniq'', ''dig'', ''nslookup'', ''host'', ''sysctl'']"
    using assms by (auto simp: always_safe_heads_def)
  then show "match_safe h args \<noteq> None" unfolding match_safe_def by auto
  have "list_all (\<lambda>h. lower_word h \<and> h \<notin> set [''sudo'', ''doas'', ''env'']) always_safe_heads"
    by (simp add: always_safe_heads_def safe_set_def lower_word_def)
  with assms show "lower_word h" "h \<notin> set [''sudo'', ''doas'', ''env'']" by (simp_all add: list_all_iff)
qed

lemma lower_word_byte:
  assumes "c \<in> set ''abcdefghijklmnopqrstuvwxyz_0123456789''"
  shows "byte_val c < 128 \<and> c \<notin> set ascii_ws \<and> c \<notin> set ws_edge \<and> \<not> is_ascii_whitespace c \<and> push_char c = [c] \<and>
    c \<notin> set ''/=|&;>$'' \<and> c \<notin> {CHR 0x22, CHR 0x27, CHR 0x5C, CHR 0x60}"
  using assms by (auto simp: ws_edge_def ascii_ws_def wide_ws_def is_ascii_whitespace_def push_char_def)

lemma lower_word_reads:
  assumes "lower_word h" and "c = CHR 0x20 \<or> c = CHR 0x0A"
  shows "calm h" and "take_word (h @ c # r) = h" and "CHR ''/'' \<notin> set h" and "CHR ''='' \<notin> set h" and "hd h \<notin> set ws_edge"
    and "tok_scan None True w (h @ c # r) = map_option (Cons (w @ h)) (tok_scan None False [] r)"
proof -
  have all: "list_all (\<lambda>c. c \<in> set ''abcdefghijklmnopqrstuvwxyz_0123456789'') h" using assms(1) by (simp add: lower_word_def)
  then show "calm h" unfolding calm_def list_all_iff using lower_word_byte by fastforce
  have "byte_val c < 128" "c \<in> set ascii_ws" using assms(2) by (auto simp: ascii_ws_def)
  then show "take_word (h @ c # r) = h"
    using all by (induction h) (simp_all add: lower_word_byte take_word_ascii del: list.set)
  show "CHR ''/'' \<notin> set h" "CHR ''='' \<notin> set h" using all lower_word_byte unfolding list_all_iff by fastforce+
  have "hd h \<in> set h" using assms(1) by (simp add: lower_word_def)
  then show "hd h \<notin> set ws_edge" using all lower_word_byte unfolding list_all_iff by blast
  have "\<forall>a\<in>set h. \<not> is_ascii_whitespace a \<and> a \<noteq> CHR 0x27 \<and> a \<noteq> CHR 0x22 \<and> a \<noteq> backslash \<and> push_char a = [a]"
    using all lower_word_byte unfolding list_all_iff by blast
  moreover have "is_ascii_whitespace c" using assms(2) by (auto simp: is_ascii_whitespace_def)
  ultimately show "tok_scan None True w (h @ c # r) = map_option (Cons (w @ h)) (tok_scan None False [] r)"
    by (induction h arbitrary: w) simp_all
qed

lemma always_safe_rest:
  assumes "h \<in> set always_safe_heads" and "c = CHR 0x20 \<or> c = CHR 0x0A" and "calm r" and "r \<noteq> []" and "last r \<notin> set ascii_ws"
  shows "ra_level (classify (h @ c # r)) = Safe"
proof -
  let ?s = "h @ c # r"
  note head = always_safe_head [OF assms(1)]
  note reads = lower_word_reads [OF head(3) assms(2)]
  have calm: "calm ?s" "calm r" using reads(1) assms(2,3) by (auto simp: calm_append calm_Cons)
  have h: "h \<noteq> []" using head(3) by (simp add: lower_word_def)
  have "byte_val (last r) < 128" using assms(3,4) by (auto simp: calm_def list_all_iff)
  then have "last r \<notin> set ws_edge" using assms(5) by (auto simp: ws_edge_def wide_ws_def)
  then have trim: "trim ?s = ?s" by (intro trim_no_edge) (use h assms(4) reads(5) in simp)
  have start: "trim_start ?s = ?s" using h reads(5) by (subst trim_start.simps) (simp add: ws_head_0)
  have first: "first_word ?s = h" using reads(2) by (simp add: first_word_take_word start)
  have "\<not> is_assignment h" using reads(4) by (auto simp: is_assignment_def find_byte_Some split: option.split dest: nth_mem)
  then have env: "strip_env_prefix ?s = ?s" by (simp add: strip_env_prefix_def strip_env_loop.simps start first)
  have sudo: "strip_privilege_prefix ?s = (?s, False)"
    using head(4) base_name_plain [OF reads(3)] by (simp add: strip_privilege_prefix_def strip_privilege_loop.simps start first Let_def)
  obtain args where args: "tokenize ?s = Some (h # args)"
  proof -
    obtain b v where hv: "h = b # v" using h by (cases h) auto
    have "tokenize ?s = tok_scan None True [] ?s"
      using head(3) lower_word_byte [of b] by (simp add: tokenize_def hv lower_word_def)
    then show thesis using that reads(6) calm_scans(4) [OF calm(2), of False "[]"] by fastforce
  qed
  have "allow_listed ?s"
    using head(1,2) base_name_plain [OF reads(3)] calm_scans(2) [OF calm(1)]
    by (simp add: allow_listed_def classify_redirect_def env sudo args)
  then show ?thesis
    using calm_scans(1,5) [OF calm(1)] calm_scans(3) [OF calm(1), of "[]"] h trim
    by (simp add: classify_safe_iff classify_pipe_to_shell_def split_top_level_def)
qed

text \<open>
  C37 (error). Behind a program that the allow list lets through with any arguments the guard does not look at what
  follows, up to its own separators: a line feed, a process substitution and the program \<open>command\<close> are none of them.
  For every text without quotes, escapes, pipes, redirections and substitutions, in particular a removal that is
  Dangerous alone, the command whose second line it is, the command that reads from it as a process
  substitution, and the command that runs it through \<open>command\<close> are Safe and may run without a confirmation.
\<close>

theorem allow_listed_program_hides_rest:
  assumes "h \<in> set always_safe_heads" and "calm r" and "r \<noteq> []" and "last r \<notin> set ascii_ws"
  shows "ra_level (classify (h @ [CHR 0x0A] @ r)) = Safe \<and>
    ra_level (classify (h @ '' <('' @ r @ '')'')) = Safe \<and>
    ra_level (classify (''command '' @ r)) = Safe"
proof (intro conjI)
  show "ra_level (classify (h @ [CHR 0x0A] @ r)) = Safe" using always_safe_rest [OF assms(1) _ assms(2,3,4), of "CHR 0x0A"] by simp
  have "calm (''<('' @ r @ '')'')" using assms(2) by (simp add: calm_append) (simp add: calm_def)
  then show "ra_level (classify (h @ '' <('' @ r @ '')'')) = Safe"
    using always_safe_rest [OF assms(1), of "CHR 0x20" "''<('' @ r @ '')''"] by (simp add: ascii_ws_def)
  have "''command'' \<in> set always_safe_heads" by (simp add: always_safe_heads_def safe_set_def)
  from always_safe_rest [OF this _ assms(2,3,4), of "CHR 0x20"] show "ra_level (classify (''command '' @ r)) = Safe" by simp
qed

theorem allow_listed_program_hides_rest_witness:
  "ra_level (classify ''rm -rf x'') = Dangerous \<and> ra_level (classify (''ls'' @ [CHR 0x0A] @ ''rm -rf x'')) = Safe \<and>
   ra_level (classify ''ls <(rm -rf x)'') = Safe \<and> ra_level (classify ''command rm -rf x'') = Safe"
proof
  show "ra_level (classify ''rm -rf x'') = Dangerous" by (simp add: guard_eval)
  have "''ls'' \<in> set always_safe_heads" "calm ''rm -rf x''" "last ''rm -rf x'' \<notin> set ascii_ws"
    by (simp_all add: always_safe_heads_def safe_set_def calm_def ascii_ws_def)
  with allow_listed_program_hides_rest [of "''ls''" "''rm -rf x''"]
  show "ra_level (classify (''ls'' @ [CHR 0x0A] @ ''rm -rf x'')) = Safe \<and>
     ra_level (classify ''ls <(rm -rf x)'') = Safe \<and> ra_level (classify ''command rm -rf x'') = Safe" by simp
qed

end
