(* ===== verification/Sandbox.thy ===== *)
theory Sandbox
  imports Rust_Words
begin

text \<open>
  The file sandbox of the agent (\<open>aic-client/src/agent/sandbox.rs\<close>) and the ignore rules it asks
  (\<open>agent/gitignore.rs\<close>). A \<open>Path\<close> is the list of its components, which is what comparison,
  \<open>starts_with\<close>, \<open>parent\<close>, \<open>file_name\<close> and \<open>push\<close> of the standard library work on. The file system
  is a parameter: \<open>canon\<close> is \<open>canonicalize\<close>, which fails on a path that does not exist and on a link that leads
  nowhere; where a result relies on it, \<open>canon_ok\<close> says that it answers with an absolute path of plain names, as
  documented. \<open>File_Tree\<close> has a file system with links.
  The regular expressions of the ignore rules are a parameter too, the match of a rule's pattern.
\<close>

section \<open>Paths\<close>

datatype component = RootDir | CurDir | ParentDir | Normal str

type_synonym path = "component list"

definition segment_component :: "str \<Rightarrow> component" where
  "segment_component s = (if s = ''..'' then ParentDir else Normal s)"

text \<open>\<open>Path::new(s).components()\<close>: empty and \<open>.\<close> segments vanish, but for a leading \<open>.\<close>.\<close>

definition path_new :: "str \<Rightarrow> path" where
  "path_new s = (let segs = split_on (CHR ''/'') s in
     (if prefix ''/'' s then [RootDir] else if hd segs = ''.'' then [CurDir] else []) @
     map segment_component (filter (\<lambda>x. x \<noteq> [] \<and> x \<noteq> ''.'') segs))"

fun is_absolute :: "path \<Rightarrow> bool" where
  "is_absolute (RootDir # _) = True"
| "is_absolute _ = False"

fun skip_cur_dir :: "path \<Rightarrow> path" where
  "skip_cur_dir (CurDir # p) = p"
| "skip_cur_dir p = p"

definition path_join :: "path \<Rightarrow> path \<Rightarrow> path" where
  "path_join base p = (if is_absolute p then p else if base = [] then p else base @ skip_cur_dir p)"

definition path_starts_with :: "path \<Rightarrow> path \<Rightarrow> bool" where
  "path_starts_with p base = prefix base p"

definition path_file_name :: "path \<Rightarrow> str option" where
  "path_file_name p = (if p = [] then None else case last p of Normal n \<Rightarrow> Some n | _ \<Rightarrow> None)"

definition path_parent :: "path \<Rightarrow> path option" where
  "path_parent p = (if p = [] \<or> last p = RootDir then None else Some (butlast p))"

definition component_text :: "component \<Rightarrow> str" where
  "component_text c = (case c of RootDir \<Rightarrow> [] | CurDir \<Rightarrow> ''.'' | ParentDir \<Rightarrow> ''..'' | Normal n \<Rightarrow> n)"

fun join_slash :: "str list \<Rightarrow> str" where
  "join_slash [] = []"
| "join_slash [s] = s"
| "join_slash (s # ss) = s @ CHR ''/'' # join_slash ss"

definition path_text :: "path \<Rightarrow> str" where
  "path_text p = (if p = [RootDir] then ''/'' else join_slash (map component_text p))"

section \<open>Ignore rules\<close>

record ignore_rule =
  ir_regex :: str
  ir_negated :: bool
  ir_dir_only :: bool
  ir_anchored :: bool

definition match_one :: "(str \<Rightarrow> str \<Rightarrow> bool) \<Rightarrow> ignore_rule list \<Rightarrow> str \<Rightarrow> str \<Rightarrow> bool \<Rightarrow> bool option" where
  "match_one is_match rules acc seg is_dir =
     foldl (\<lambda>decision rule.
       if ir_dir_only rule \<and> \<not> is_dir then decision
       else if is_match (ir_regex rule) (if ir_anchored rule then acc else seg)
       then Some (\<not> ir_negated rule) else decision) None rules"

fun ignored_walk ::
  "(str \<Rightarrow> str \<Rightarrow> bool) \<Rightarrow> ignore_rule list \<Rightarrow> bool \<Rightarrow> bool \<Rightarrow> str \<Rightarrow> str list \<Rightarrow> bool" where
  "ignored_walk is_match rules is_dir ignored acc [] = ignored"
| "ignored_walk is_match rules is_dir ignored acc (seg # segs) =
     (let acc' = (if acc = [] then seg else acc @ CHR ''/'' # seg);
          seg_is_dir = (if segs = [] then is_dir else True)
      in ignored_walk is_match rules is_dir
           (case match_one is_match rules acc' seg seg_is_dir of Some d \<Rightarrow> d | None \<Rightarrow> ignored) acc' segs)"

definition is_ignored_rel :: "(str \<Rightarrow> str \<Rightarrow> bool) \<Rightarrow> ignore_rule list \<Rightarrow> str \<Rightarrow> bool \<Rightarrow> bool" where
  "is_ignored_rel is_match rules rel is_dir =
     (if rules = [] then False
      else ignored_walk is_match rules is_dir False [] (filter (\<lambda>s. s \<noteq> []) (split_on (CHR ''/'') rel)))"

definition regex_specials :: str where
  "regex_specials = ''.+()|[]{}^$'' @ [CHR 0x5C]"

function glob_regex :: "str \<Rightarrow> str" where
  "glob_regex [] = ''$''"
| "glob_regex (c # r) =
     (if c = CHR ''*'' then
        (if r \<noteq> [] \<and> hd r = CHR ''*'' then
           (if tl r \<noteq> [] \<and> hd (tl r) = CHR ''/'' then ''(?:.*/)?'' @ glob_regex (tl (tl r))
            else ''.*'' @ glob_regex (tl r))
         else ''[^/]*'' @ glob_regex r)
      else if c = CHR ''?'' then ''[^/]'' @ glob_regex r
      else (if c \<in> set regex_specials then [CHR 0x5C, c] else [c]) @ glob_regex r)"
  by pat_completeness auto
termination
  by (relation "measure length") (auto simp: less_Suc_eq_le)

definition gitignore_to_regex :: "str \<Rightarrow> str" where
  "gitignore_to_regex pattern = CHR ''^'' # glob_regex pattern"

definition parse_line :: "(str \<Rightarrow> bool) \<Rightarrow> str \<Rightarrow> ignore_rule option" where
  "parse_line compiles raw =
     (let line = trim_end raw in
      if line = [] \<or> prefix ''#'' line then None
      else let negated = prefix ''!'' line;
               pat1 = (if negated then tl line else line);
               dir_only = suffix ''/'' pat1;
               pat2 = (if dir_only then butlast pat1 else pat1);
               leading_slash = prefix ''/'' pat2;
               pat = (if leading_slash then tl pat2 else pat2)
        in if pat = [] \<or> \<not> compiles (gitignore_to_regex pat) then None
           else Some \<lparr>ir_regex = gitignore_to_regex pat, ir_negated = negated, ir_dir_only = dir_only,
             ir_anchored = (leading_slash \<or> CHR ''/'' \<in> set pat)\<rparr>)"

definition gitignore_load :: "(str \<Rightarrow> bool) \<Rightarrow> str option \<Rightarrow> str option \<Rightarrow> ignore_rule list" where
  "gitignore_load compiles gitignore exclude =
     concat (map (\<lambda>content. case content of None \<Rightarrow> [] | Some text' \<Rightarrow>
       List.map_filter (parse_line compiles) (lines text')) [gitignore, exclude])"

section \<open>The sandbox\<close>

record sandbox =
  sb_root :: path
  sb_gitignore :: "ignore_rule list"

datatype tool_error =
  NulByte | PathUnresolved str | OutsideSandbox str | ParentInWritePath str | NoWriteTarget str
| NoFileName str | CwdNotDirectory str | CwdUnavailable | RootUnresolved | MissingCommand
| SpawnFailed | WaitFailed

type_synonym canon = "path \<Rightarrow> path option"

definition sandbox_new ::
  "canon \<Rightarrow> (path \<Rightarrow> ignore_rule list) \<Rightarrow> path \<Rightarrow> tool_error + sandbox" where
  "sandbox_new canon load root = (case canon root of
     None \<Rightarrow> Inl RootUnresolved
   | Some r \<Rightarrow> Inr \<lparr>sb_root = r, sb_gitignore = load r\<rparr>)"

definition sandbox_from_cwd ::
  "canon \<Rightarrow> (path \<Rightarrow> ignore_rule list) \<Rightarrow> path option \<Rightarrow> tool_error + sandbox" where
  "sandbox_from_cwd canon load cwd = (case cwd of
     None \<Rightarrow> Inl CwdUnavailable | Some d \<Rightarrow> sandbox_new canon load d)"

definition backslash_to_slash :: "str \<Rightarrow> str" where
  "backslash_to_slash = map (\<lambda>c. if c = CHR 0x5C then CHR ''/'' else c)"

definition sandbox_relative :: "sandbox \<Rightarrow> path \<Rightarrow> str option" where
  "sandbox_relative sb p = (if prefix (sb_root sb) p
     then Some (backslash_to_slash (path_text (drop (length (sb_root sb)) p))) else None)"

definition sandbox_is_ignored :: "(str \<Rightarrow> str \<Rightarrow> bool) \<Rightarrow> sandbox \<Rightarrow> path \<Rightarrow> bool \<Rightarrow> bool" where
  "sandbox_is_ignored is_match sb p is_dir = (case sandbox_relative sb p of
     Some rel \<Rightarrow> rel \<noteq> [] \<and> is_ignored_rel is_match (sb_gitignore sb) rel is_dir
   | None \<Rightarrow> False)"

definition sandbox_resolve :: "canon \<Rightarrow> sandbox \<Rightarrow> str \<Rightarrow> tool_error + path" where
  "sandbox_resolve canon sb input =
     (if CHR 0x00 \<in> set input then Inl NulByte
      else case canon (path_join (sb_root sb) (path_new input)) of
        None \<Rightarrow> Inl (PathUnresolved input)
      | Some c \<Rightarrow> if path_starts_with c (sb_root sb) then Inr c else Inl (OutsideSandbox input))"

text \<open>
  The walk of \<open>resolve_for_write\<close> up to the nearest ancestor that exists: that ancestor's canonical
  path and the names below it, in order.
\<close>

function nearest_ancestor :: "canon \<Rightarrow> str \<Rightarrow> path \<Rightarrow> str list \<Rightarrow> tool_error + path \<times> str list" where
  "nearest_ancestor canon input probe tail =
     (case canon probe of
        Some c \<Rightarrow> Inr (c, tail)
      | None \<Rightarrow> case path_file_name probe of
          None \<Rightarrow> Inl (NoWriteTarget input)
        | Some n \<Rightarrow> case path_parent probe of
            None \<Rightarrow> Inl (PathUnresolved input)
          | Some up \<Rightarrow> nearest_ancestor canon input up (n # tail))"
  by pat_completeness auto
termination
  by (relation "measure (\<lambda>(canon, input, probe, tail). length probe)")
    (auto simp: path_parent_def split: if_splits)

declare nearest_ancestor.simps [simp del]

definition resolve_for_write :: "canon \<Rightarrow> sandbox \<Rightarrow> str \<Rightarrow> tool_error + path" where
  "resolve_for_write canon sb input =
     (if CHR 0x00 \<in> set input then Inl NulByte
      else let joined = path_join (sb_root sb) (path_new input) in
        if ParentDir \<in> set joined then Inl (ParentInWritePath input)
        else case nearest_ancestor canon input joined [] of
          Inl e \<Rightarrow> Inl e
        | Inr (base, tail) \<Rightarrow>
            if \<not> path_starts_with base (sb_root sb) then Inl (OutsideSandbox input)
            else let target = base @ map Normal tail in
              if path_file_name target = None then Inl (NoFileName input) else Inr target)"

definition sandbox_contains :: "canon \<Rightarrow> sandbox \<Rightarrow> path \<Rightarrow> bool" where
  "sandbox_contains canon sb p = (case canon p of Some c \<Rightarrow> path_starts_with c (sb_root sb) | None \<Rightarrow> False)"

section \<open>Containment\<close>

definition plain_absolute :: "path \<Rightarrow> bool" where
  "plain_absolute p = (\<exists>ns. p = RootDir # map Normal ns)"

definition canon_ok :: "canon \<Rightarrow> bool" where
  "canon_ok canon = (\<forall>p c. canon p = Some c \<longrightarrow> plain_absolute c)"

lemma nearest_ancestor_Inr:
  "nearest_ancestor canon input probe tail = Inr (base, names) \<Longrightarrow>
     \<exists>up below. probe = up @ map Normal below \<and> names = below @ tail \<and> canon up = Some base \<and>
       (\<forall>k. 0 < k \<and> k \<le> length below \<longrightarrow> canon (up @ map Normal (take k below)) = None)"
proof (induction canon input probe tail arbitrary: names rule: nearest_ancestor.induct)
  case (1 canon input probe tail)
  show ?case
  proof (cases "canon probe")
    case (Some c)
    then have "base = c" "names = tail" using 1(2) by (simp_all add: nearest_ancestor.simps [of canon input probe])
    then show ?thesis using Some by (intro exI [of _ probe] exI [of _ "[]"]) auto
  next
    case None
    then obtain n up where n: "path_file_name probe = Some n" and up: "path_parent probe = Some up"
      and rec: "nearest_ancestor canon input up (n # tail) = Inr (base, names)"
      using 1(2) by (simp add: nearest_ancestor.simps [of canon input probe] split: option.splits)
    have probe: "probe = up @ [Normal n]"
      using n up by (auto simp: path_file_name_def path_parent_def split: if_splits component.splits)
        (metis append_butlast_last_id)
    obtain up' below where ih: "up = up' @ map Normal below" "names = below @ n # tail" "canon up' = Some base"
      "\<forall>k. 0 < k \<and> k \<le> length below \<longrightarrow> canon (up' @ map Normal (take k below)) = None"
      using 1(1) [OF None n up rec] by blast
    have "canon (up' @ map Normal (take k (below @ [n]))) = None" if "0 < k" "k \<le> Suc (length below)" for k
      using that ih(1,4) probe None by (cases "k = Suc (length below)") auto
    then show ?thesis
      using ih probe by (intro exI [of _ up'] exI [of _ "below @ [n]"]) simp
  qed
qed

text \<open>
  A path handed out for writing is the canonical path of the nearest ancestor that can be resolved, which lies under the
  root, followed by exactly the names on which \<open>canonicalize\<close> failed.
\<close>

lemma resolve_for_write_shape:
  assumes "resolve_for_write canon sb input = Inr target"
  obtains up below base where "path_join (sb_root sb) (path_new input) = up @ map Normal below"
    "canon up = Some base" "path_starts_with base (sb_root sb)" "target = base @ map Normal below"
    "\<And>k. 0 < k \<Longrightarrow> k \<le> length below \<Longrightarrow> canon (up @ map Normal (take k below)) = None"
proof -
  obtain base names where na: "nearest_ancestor canon input (path_join (sb_root sb) (path_new input)) [] = Inr (base, names)"
    and inside: "path_starts_with base (sb_root sb)" and t: "target = base @ map Normal names"
    using assms by (auto simp: resolve_for_write_def Let_def split: if_splits sum.splits prod.splits)
  show ?thesis using nearest_ancestor_Inr [OF na] inside t that by auto
qed

definition one_dir :: canon where
  "one_dir p = (if p = [RootDir, Normal ''w''] then Some p else None)"

definition dir_sandbox :: sandbox where
  "dir_sandbox = \<lparr>sb_root = [RootDir, Normal ''w''], sb_gitignore = []\<rparr>"

lemma one_dir_ok: "canon_ok one_dir"
  unfolding canon_ok_def plain_absolute_def one_dir_def
  by (auto intro: exI [of _ "[''w'']"])

lemma resolve_contained:
  "sandbox_resolve canon sb input = Inr p \<Longrightarrow> path_starts_with p (sb_root sb)"
  by (auto simp: sandbox_resolve_def split: if_splits option.splits)

section \<open>Ignored directories\<close>

lemma match_one_positive:
  "list_all (\<lambda>r. \<not> ir_negated r) rules \<Longrightarrow> match_one m rules acc seg d \<noteq> Some False"
proof -
  assume pos: "list_all (\<lambda>r. \<not> ir_negated r) rules"
  have "foldl (\<lambda>decision rule. if ir_dir_only rule \<and> \<not> d then decision
      else if m (ir_regex rule) (if ir_anchored rule then acc else seg)
      then Some (\<not> ir_negated rule) else decision) dec rules \<noteq> Some False" if "dec \<noteq> Some False" for dec
    using pos that by (induction rules arbitrary: dec) auto
  then show ?thesis by (simp add: match_one_def)
qed

lemma ignored_walk_stays:
  "list_all (\<lambda>r. \<not> ir_negated r) rules \<Longrightarrow> ignored_walk m rules d True acc segs"
proof (induction segs arbitrary: acc)
  case (Cons seg segs)
  have "match_one m rules acc' seg d' \<noteq> Some False" for acc' d'
    using match_one_positive Cons.prems by blast
  then show ?case using Cons
    by (auto simp: Let_def split: option.splits) (metis (full_types))+
qed simp

lemma ignored_walk_append:
  "ss \<noteq> [] \<Longrightarrow> ignored_walk m rules d i acc (segs @ ss) =
     ignored_walk m rules d (ignored_walk m rules True i acc segs)
       (foldl (\<lambda>a s. if a = [] then s else a @ CHR ''/'' # s) acc segs) ss"
  by (induction segs arbitrary: i acc) (auto simp: Let_def)

text \<open>
  Further property (functional). When no rule is a negation, an ignored directory hides everything below it: a path
  that continues it by any further name is ignored as well, whether that name is a file or a directory.
\<close>

theorem ignored_directory_hides_below:
  assumes "list_all (\<lambda>r. \<not> ir_negated r) rules"
    and "is_ignored_rel m rules dir True" and "name \<noteq> []" and "CHR ''/'' \<notin> set name"
  shows "is_ignored_rel m rules (dir @ CHR ''/'' # name) d"
proof -
  let ?segs = "filter (\<lambda>s. s \<noteq> []) (split_on (CHR ''/'') dir)"
  have split: "split_on (CHR ''/'') (x @ CHR ''/'' # name) = split_on (CHR ''/'') x @ [name]" for x
    using assms(4) by (induction x) (auto simp: split_on_absent split: list.splits)
  have "ignored_walk m rules True False [] ?segs" and ne: "rules \<noteq> []"
    using assms(2) by (auto simp: is_ignored_rel_def split: if_splits)
  then have "ignored_walk m rules d False [] (?segs @ [name])"
    using ignored_walk_append [of "[name]" m rules d False "[]" ?segs] ignored_walk_stays [OF assms(1)]
    by (simp del: ignored_walk.simps)
  then show ?thesis using ne assms(3) by (simp add: is_ignored_rel_def split)
qed

theorem ignored_directory_hides_below_witness:
  "is_ignored_rel (\<lambda>re s. re = s) [\<lparr>ir_regex = ''t'', ir_negated = False, ir_dir_only = True, ir_anchored = False\<rparr>]
     (''t'' @ CHR ''/'' # ''f'') False"
  by (rule ignored_directory_hides_below) (simp_all add: is_ignored_rel_def match_one_def)

end
