(* ===== verification/Run_Command.thy ===== *)
theory Run_Command
  imports Risk_Safety Sandbox
begin

text \<open>
  The \<open>run_command\<close> tool of the agent (\<open>aic-client/src/agent/run_command.rs\<close>): argument handling,
  the policy per risk level, the validator that runs before a command reaches \<open>sh -c\<close>, and the
  bounded reader of the child's output. An execution returns the effects it has, in order, and the
  reply. Parameters are the process itself (\<open>spawn\<close>), the user's answer (\<open>confirm\<close>), the file system,
  redaction, \<open>str::to_lowercase\<close> and the target platform.
\<close>

section \<open>Secrets\<close>

definition is_secret_file :: "(str \<Rightarrow> str) \<Rightarrow> str \<Rightarrow> bool" where
  "is_secret_file lower name = (let low = lower name in
     low = ''.env'' \<or> starts_with low ''.env.'' \<or>
     low \<in> set [''credentials'', ''.netrc'', ''.npmrc'', ''.pgpass'', ''.htpasswd''] \<or>
     starts_with low ''id_rsa'' \<or> starts_with low ''id_ed25519'' \<or> starts_with low ''id_dsa'' \<or>
     starts_with low ''id_ecdsa'' \<or>
     (\<exists>e\<in>set [''.pem'', ''.key'', ''.p12'', ''.pfx'', ''.keystore'', ''.jks'']. suffix e low))"

definition sensitive_dir_components :: "str list" where
  "sensitive_dir_components = [''.ssh'', ''.aws'', ''.gnupg'', ''.gpg'', ''.kube'', ''.docker'',
     ''gcloud'', ''.password-store'', ''.gem'']"

definition is_sensitive_path_str :: "(str \<Rightarrow> str) \<Rightarrow> str \<Rightarrow> bool" where
  "is_sensitive_path_str lower path =
     (let low = lower path;
          comps = filter (\<lambda>c. c \<noteq> []) (split_on (CHR ''/'') low)
      in (\<exists>c\<in>set comps. c \<in> set sensitive_dir_components) \<or>
         (\<exists>p\<in>set [''/etc/shadow'', ''/etc/gshadow'', ''/etc/sudoers'', ''/etc/ssl/private''].
            low = p \<or> starts_with low (p @ ''/'')) \<or>
         (comps \<noteq> [] \<and> hd comps = ''proc'' \<and> last comps = ''environ'') \<or>
         is_secret_file lower (base_name low))"

section \<open>The validator\<close>

datatype reject =
  NewlineRejected | AmpersandRejected | SemicolonRejected | BacktickRejected | DollarRejected
| GlobRejected u8 | QuoteRejected | RedirectRejected | OrRejected | TildeRejected | EmptyPipeSegment
| EmptyHead | FindOption str | AbsoluteArgument str | TraversalArgument str | SensitivePath str
| SensitiveLink str | OutsideArgument str tool_error

datatype path_arg_policy = NoPaths | AllPaths | PatternThenPaths | LeadingPaths

definition path_policy :: "str \<Rightarrow> path_arg_policy" where
  "path_policy head = (let name = base_name head in
     if name \<in> set [''cat'', ''head'', ''tail'', ''ls'', ''ll'', ''la'', ''du'', ''stat'', ''file'', ''wc'',
       ''less'', ''more'', ''tree'', ''cmp'', ''diff'', ''locate'', ''readlink'', ''realpath'', ''nl'',
       ''od'', ''hexdump'', ''xxd''] then AllPaths
     else if name \<in> set [''grep'', ''egrep'', ''fgrep'', ''rg'', ''ag''] then PatternThenPaths
     else if name \<in> set [''find'', ''fd''] then LeadingPaths
     else NoPaths)"

definition check_no_escape :: "str \<Rightarrow> reject + unit" where
  "check_no_escape tok =
     (if starts_with tok ''/'' then Inl (AbsoluteArgument tok)
      else if ''..'' \<in> set (split_on (CHR ''/'') tok) then Inl (TraversalArgument tok)
      else Inr ())"

definition check_sensitive_path :: "(str \<Rightarrow> str) \<Rightarrow> canon \<Rightarrow> str \<Rightarrow> reject + unit" where
  "check_sensitive_path lower canon tok =
     (if is_sensitive_path_str lower tok then Inl (SensitivePath tok)
      else case canon (path_new tok) of
        Some c \<Rightarrow> if is_sensitive_path_str lower (path_text c) then Inl (SensitiveLink tok) else Inr ()
      | None \<Rightarrow> Inr ())"

definition find_dangerous_opts :: "str list" where
  "find_dangerous_opts = [''-exec'', ''-execdir'', ''-ok'', ''-okdir'', ''-delete'', ''-quit'',
     ''-fprintf'', ''-fprint'', ''-fprint0'', ''-fls'', ''-prune'']"

definition resolve_in_sandbox :: "canon \<Rightarrow> sandbox \<Rightarrow> str \<Rightarrow> reject + unit" where
  "resolve_in_sandbox canon sb tok = (case sandbox_resolve canon sb tok of
     Inl e \<Rightarrow> Inl (OutsideArgument tok e) | Inr _ \<Rightarrow> Inr ())"

definition consumes_next_value :: "str \<Rightarrow> str \<Rightarrow> bool" where
  "consumes_next_value cmd opt =
     (if CHR ''='' \<in> set opt \<or> \<not> is_dashed opt then False
      else if cmd \<in> set [''head'', ''tail'', ''nl''] then opt \<in> set [''-n'', ''-c'', ''--lines'', ''--bytes'']
      else if cmd \<in> set [''grep'', ''egrep'', ''fgrep'', ''rg'', ''ag''] then
        opt \<in> set [''-A'', ''-B'', ''-C'', ''-m'', ''-e'', ''--regexp'', ''--max-count'', ''--context'',
          ''--after-context'', ''--before-context'']
      else if cmd \<in> set [''find'', ''fd''] then
        opt \<in> set [''-name'', ''-iname'', ''-path'', ''-ipath'', ''-maxdepth'', ''-mindepth'', ''-type'',
          ''-size'', ''-newer'', ''-mtime'', ''-ctime'', ''-atime'', ''-perm'', ''-regex'']
      else False)"

fun path_arg_loop ::
  "str \<Rightarrow> path_arg_policy \<Rightarrow> (str \<Rightarrow> reject + unit) \<Rightarrow> bool \<Rightarrow> str list \<Rightarrow> reject + unit" where
  "path_arg_loop cmd policy on_path seen_pattern [] = Inr ()"
| "path_arg_loop cmd policy on_path seen_pattern (tok # rest) =
     (if is_dashed tok then
        (if policy = LeadingPaths then Inr ()
         else if consumes_next_value cmd tok then path_arg_loop cmd policy on_path seen_pattern (drop 1 rest)
         else path_arg_loop cmd policy on_path seen_pattern rest)
      else if policy = PatternThenPaths \<and> \<not> seen_pattern then path_arg_loop cmd policy on_path True rest
      else case on_path tok of Inl e \<Rightarrow> Inl e
        | Inr _ \<Rightarrow> path_arg_loop cmd policy on_path seen_pattern rest)"

definition for_each_path_arg ::
  "str \<Rightarrow> path_arg_policy \<Rightarrow> str list \<Rightarrow> (str \<Rightarrow> reject + unit) \<Rightarrow> reject + unit" where
  "for_each_path_arg cmd policy args on_path =
     (if policy = NoPaths then Inr () else path_arg_loop cmd policy on_path False args)"

definition validate_path_args :: "canon \<Rightarrow> sandbox \<Rightarrow> str \<Rightarrow> path_arg_policy \<Rightarrow> str list \<Rightarrow> reject + unit" where
  "validate_path_args canon sb cmd policy args = for_each_path_arg cmd policy args (resolve_in_sandbox canon sb)"

fun check_args :: "str list \<Rightarrow> reject + unit" where
  "check_args [] = Inr ()"
| "check_args (tok # rest) =
     (if is_dashed tok then check_args rest
      else case check_no_escape tok of Inl e \<Rightarrow> Inl e | Inr _ \<Rightarrow> check_args rest)"

definition validate_segment ::
  "(str \<Rightarrow> str) \<Rightarrow> canon \<Rightarrow> sandbox \<Rightarrow> bool \<Rightarrow> str \<Rightarrow> reject + unit" where
  "validate_segment lower canon sb read_only segment =
     (case split_whitespace segment of
        [] \<Rightarrow> Inl EmptyHead
      | head # args \<Rightarrow>
        (let name = base_name head in
         case (if name \<in> set [''find'', ''fd''] then find (\<lambda>t. t \<in> set find_dangerous_opts) args else None) of
           Some tok \<Rightarrow> Inl (FindOption tok)
         | None \<Rightarrow>
             if read_only then
               for_each_path_arg name (if path_policy head = NoPaths then AllPaths else path_policy head) args
                 (check_sensitive_path lower canon)
             else case check_args args of Inl e \<Rightarrow> Inl e
               | Inr _ \<Rightarrow> validate_path_args canon sb name (path_policy head) args))"

fun validate_segments ::
  "(str \<Rightarrow> str) \<Rightarrow> canon \<Rightarrow> sandbox \<Rightarrow> bool \<Rightarrow> str list \<Rightarrow> reject + unit" where
  "validate_segments lower canon sb read_only [] = Inr ()"
| "validate_segments lower canon sb read_only (segment # rest) =
     (let seg = trim segment in
      if seg = [] then Inl EmptyPipeSegment
      else case validate_segment lower canon sb read_only seg of Inl e \<Rightarrow> Inl e
        | Inr _ \<Rightarrow> validate_segments lower canon sb read_only rest)"

definition validate_command :: "(str \<Rightarrow> str) \<Rightarrow> canon \<Rightarrow> sandbox \<Rightarrow> str \<Rightarrow> reject + unit" where
  "validate_command lower canon sb command =
     (if CHR 0x0A \<in> set command \<or> CHR 0x0D \<in> set command then Inl NewlineRejected
      else if CHR ''&'' \<in> set command then Inl AmpersandRejected
      else if CHR '';'' \<in> set command then Inl SemicolonRejected
      else if CHR 0x60 \<in> set command then Inl BacktickRejected
      else if CHR ''$'' \<in> set command then Inl DollarRejected
      else case find (\<lambda>c. c \<in> set ''*?[]{}'') command of Some c \<Rightarrow> Inl (GlobRejected c)
      | None \<Rightarrow>
        if CHR 0x22 \<in> set command \<or> CHR 0x27 \<in> set command \<or> backslash \<in> set command then Inl QuoteRejected
        else if CHR ''>'' \<in> set command \<or> CHR ''<'' \<in> set command then Inl RedirectRejected
        else if contains command ''||'' then Inl OrRejected
        else if CHR ''~'' \<in> set command then Inl TildeRejected
        else validate_segments lower canon sb (ra_level (classify command) = Safe)
          (split_on (CHR ''|'') command))"

section \<open>Bounded reading\<close>

definition max_stream_bytes :: nat where
  "max_stream_bytes = 64 * 1024"

definition max_drain_bytes :: nat where
  "max_drain_bytes = 8 * 1024 * 1024"

text \<open>What one \<open>read\<close> of the pipe gives; a chunk of no bytes is the end of the stream.\<close>

datatype read_event = Chunk bytes | Interrupted | ReadFailed

record reader =
  rd_buf :: bytes
  rd_truncated :: bool
  rd_total :: nat

definition read_chunk :: "reader \<Rightarrow> bytes \<Rightarrow> reader" where
  "read_chunk st chunk =
     (let n = length chunk;
          st1 = st\<lparr>rd_total := rd_total st + n\<rparr>
      in if length (rd_buf st) < max_stream_bytes then
           (let room = max_stream_bytes - length (rd_buf st);
                taken = min n room
            in st1\<lparr>rd_buf := rd_buf st @ take taken chunk,
                   rd_truncated := (rd_truncated st \<or> taken < n)\<rparr>)
         else st1\<lparr>rd_truncated := True\<rparr>)"

fun bounded_read_into :: "reader \<Rightarrow> read_event list \<Rightarrow> reader" where
  "bounded_read_into st [] = st"
| "bounded_read_into st (Interrupted # es) = bounded_read_into st es"
| "bounded_read_into st (ReadFailed # es) = st"
| "bounded_read_into st (Chunk chunk # es) =
     (if chunk = [] then st
      else let st' = read_chunk st chunk in
        if max_drain_bytes \<le> rd_total st' then st'\<lparr>rd_truncated := True\<rparr> else bounded_read_into st' es)"

section \<open>Executing\<close>

record run_args =
  arg_command :: "str option"
  arg_timeout_secs :: "nat option"
  arg_cwd :: "str option"

record outcome =
  oc_stdout :: bytes
  oc_stderr :: bytes
  oc_stdout_truncated :: bool
  oc_stderr_truncated :: bool
  oc_exit_code :: "int option"
  oc_timed_out :: bool
  oc_drain_timed_out :: bool

datatype audit_kind = AuditBlocked | AuditConfirmed | AuditDenied | AuditAuto | AuditBlockedValidation

datatype effect =
  Audit audit_kind str
| RiskDenied str
| Confirmed str bool
| Spawn str path nat
| ToolRun str "int option"

record done_reply =
  dr_command :: str
  dr_exit_code :: "int option"
  dr_truncated :: bool
  dr_cwd :: str
  dr_timeout :: "nat option"
  dr_drain_hint :: bool
  dr_truncated_hint :: bool
  dr_stdout :: str
  dr_stderr :: str

datatype reply =
  BlockedReply risk_level "risk_reason option" str
| DeniedReply str
| InvalidReply reject str
| DoneReply done_reply

record host =
  h_linux :: bool
  h_lower :: "str \<Rightarrow> str"
  h_redact :: "str \<Rightarrow> str"
  h_canon :: canon
  h_is_dir :: "path \<Rightarrow> bool"
  h_spawn :: "str \<Rightarrow> path \<Rightarrow> nat \<Rightarrow> tool_error + outcome"

definition resolve_timeout :: "run_args \<Rightarrow> nat" where
  "resolve_timeout args = (case arg_timeout_secs args of None \<Rightarrow> 15 | Some s \<Rightarrow> max 1 (min s 30))"

definition normalize_sre_command :: "host \<Rightarrow> str \<Rightarrow> str option" where
  "normalize_sre_command h command =
     (let key = h_lower h (trim command) in
      if key \<in> set [''ps'', ''process'', ''processes'', ''cpu'', ''ps aux'', ''ps -ef'']
      then Some ''ps aux | head -n 20''
      else if key \<in> set [''disk'', ''df''] then Some ''df -h''
      else if key \<in> set [''mem'', ''memory''] then
        Some (if h_linux h then ''free -h'' else ''ps aux | head -n 20'')
      else if key \<in> set [''net'', ''network''] then
        Some (if h_linux h then ''ss -tunl | head -n 50'' else ''netstat -an | head -n 50'')
      else None)"

definition resolve_cwd :: "host \<Rightarrow> sandbox \<Rightarrow> run_args \<Rightarrow> tool_error + path \<times> str" where
  "resolve_cwd h sb args = (case arg_cwd args of
     None \<Rightarrow> Inr (sb_root sb, ''.'')
   | Some c \<Rightarrow>
       if trim c = [] then Inr (sb_root sb, ''.'')
       else case sandbox_resolve (h_canon h) sb c of
         Inl e \<Rightarrow> Inl e
       | Inr resolved \<Rightarrow>
           if \<not> h_is_dir h resolved then Inl (CwdNotDirectory c)
           else Inr (resolved, case sandbox_relative sb resolved of None \<Rightarrow> ''.'' | Some d \<Rightarrow> d))"

definition prep_stream :: "host \<Rightarrow> bytes \<Rightarrow> str \<times> bool" where
  "prep_stream h bs = (h_redact h (from_utf8_lossy (take (min (length bs) max_stream_bytes) bs)),
     max_stream_bytes < length bs)"

definition format_done :: "host \<Rightarrow> str \<Rightarrow> str \<Rightarrow> nat \<Rightarrow> outcome \<Rightarrow> done_reply" where
  "format_done h command cwd_display timeout oc =
     (let truncated = oc_stdout_truncated oc \<or> oc_stderr_truncated oc in
      \<lparr>dr_command = h_redact h command, dr_exit_code = oc_exit_code oc, dr_truncated = truncated,
       dr_cwd = cwd_display, dr_timeout = (if oc_timed_out oc then Some timeout else None),
       dr_drain_hint = oc_drain_timed_out oc, dr_truncated_hint = truncated,
       dr_stdout = fst (prep_stream h (oc_stdout oc)), dr_stderr = fst (prep_stream h (oc_stderr oc))\<rparr>)"

definition run_and_format ::
  "host \<Rightarrow> sandbox \<Rightarrow> str \<Rightarrow> path \<Rightarrow> str \<Rightarrow> nat \<Rightarrow> effect list \<times> (tool_error + reply)" where
  "run_and_format h sb command cwd cwd_display timeout =
     (case validate_command (h_lower h) (h_canon h) sb command of
        Inl reason \<Rightarrow> ([Audit AuditBlockedValidation (h_redact h command), RiskDenied command],
          Inr (InvalidReply reason (h_redact h command)))
      | Inr _ \<Rightarrow> case h_spawn h command cwd timeout of
          Inl e \<Rightarrow> ([Spawn command cwd timeout], Inl e)
        | Inr oc \<Rightarrow> ([Spawn command cwd timeout, ToolRun command (oc_exit_code oc)],
            Inr (DoneReply (format_done h command cwd_display timeout oc))))"

definition after_effects :: "effect list \<Rightarrow> effect list \<times> 'a \<Rightarrow> effect list \<times> 'a" where
  "after_effects es r = (es @ fst r, snd r)"

definition execute_policy ::
  "host \<Rightarrow> sandbox \<Rightarrow> (str \<Rightarrow> str \<Rightarrow> risk_reason option \<Rightarrow> bool) \<Rightarrow> str \<Rightarrow> path \<Rightarrow> str \<Rightarrow> nat \<Rightarrow>
     effect list \<times> (tool_error + reply)" where
  "execute_policy h sb confirm command cwd cwd_display timeout =
     (let assessment = classify command;
          shown = h_redact h command
      in case ra_level assessment of
           Safe \<Rightarrow> after_effects [Audit AuditAuto shown]
             (run_and_format h sb command cwd cwd_display timeout)
         | NeedsConfirm \<Rightarrow>
             if confirm command cwd_display (ra_reason assessment)
             then after_effects [Confirmed command True, Audit AuditConfirmed shown]
               (run_and_format h sb command cwd cwd_display timeout)
             else ([Confirmed command False, Audit AuditDenied shown], Inr (DeniedReply shown))
         | level \<Rightarrow> ([Audit AuditBlocked shown, RiskDenied command],
             Inr (BlockedReply level (ra_reason assessment) shown)))"

definition command_of :: "host \<Rightarrow> str \<Rightarrow> str" where
  "command_of h raw = (case normalize_sre_command h raw of None \<Rightarrow> raw | Some n \<Rightarrow> n)"

definition execute_with_corr ::
  "host \<Rightarrow> sandbox \<Rightarrow> (str \<Rightarrow> str \<Rightarrow> risk_reason option \<Rightarrow> bool) \<Rightarrow> run_args \<Rightarrow> effect list \<times> (tool_error + reply)" where
  "execute_with_corr h sb confirm args =
     (case arg_command args of
        None \<Rightarrow> ([], Inl MissingCommand)
      | Some c \<Rightarrow>
          if trim c = [] then ([], Inl MissingCommand)
          else case resolve_cwd h sb args of
            Inl e \<Rightarrow> ([], Inl e)
          | Inr (cwd, cwd_display) \<Rightarrow>
              execute_policy h sb confirm (command_of h (trim c)) cwd cwd_display (resolve_timeout args))"

end
