(* ===== verification/Run_Safety.thy ===== *)
theory Run_Safety
  imports Run_Command
begin

text \<open>
  What the \<open>run_command\<close> tool guarantees: the validator's segments are the risk guard's, a process is
  started only for a validated command the policy admits, secrets stay out of the path arguments, and
  the captured output is the bounded prefix of what the child wrote.
\<close>

section \<open>Trimming twice\<close>

lemma ws_head_prefix: "prefix p t \<Longrightarrow> ws_head t = 0 \<Longrightarrow> ws_head p = 0"
proof (cases p)
  case (Cons c p')
  assume "prefix p t" "ws_head t = 0"
  then obtain u where t: "t = c # p' @ u" using Cons by (auto simp: prefix_def)
  have c: "c \<notin> set ascii_ws" and w: "\<not> (\<exists>w\<in>set wide_ws. take (length w) t = w)"
    using \<open>ws_head t = 0\<close> by (auto simp: t ws_head_def split: if_splits)
  have "take (length w) (c # p') \<noteq> w" if "w \<in> set wide_ws" for w
  proof
    assume eq: "take (length w) (c # p') = w"
    then have "length w \<le> length (c # p')" by (metis length_take min.absorb_iff2 min.commute)
    then have "take (length w) ((c # p') @ u) = w" using eq by (subst take_append) simp
    then have "take (length w) t = w" by (simp add: t)
    then show False using w that by blast
  qed
  then show ?thesis using c by (simp add: Cons ws_head_def)
qed (simp add: ws_head_def)

lemma trim_end_prefix: "prefix (trim_end s) s"
proof (induction s rule: trim_end.induct)
  case (1 s)
  then show ?case
    by (cases "ws_last s = 0") (metis prefix_order.refl prefix_order.trans take_is_prefix trim_end.simps)+
qed

lemma ws_last_trim_end [simp]: "ws_last (trim_end s) = 0"
  by (induction s rule: trim_end.induct) (metis trim_end.simps)

lemma trim_start_id: "ws_head s = 0 \<Longrightarrow> trim_start s = s"
  by (simp add: trim_start.simps)

lemma trim_idem [simp]: "trim (trim s) = trim s"
proof -
  have "ws_head (trim s) = 0"
    unfolding trim_def using ws_head_prefix [OF trim_end_prefix] ws_head_trim_start by blast
  moreover have "trim_end (trim s) = trim s"
    by (subst trim_end.simps) (simp add: trim_def)
  ultimately show ?thesis using trim_start_id [of "trim s"] by (metis trim_def)
qed

section \<open>The validator's segments\<close>

definition meta_free :: "str \<Rightarrow> bool" where
  "meta_free s \<longleftrightarrow> CHR 0x22 \<notin> set s \<and> CHR 0x27 \<notin> set s \<and> backslash \<notin> set s \<and>
     CHR '';'' \<notin> set s \<and> CHR ''&'' \<notin> set s"

lemma split_scan_pipes:
  assumes "meta_free s" "\<not> contains s ''||''" "last ((cur @ hd (split_on (CHR ''|'') s)) # tl (split_on (CHR ''|'') s)) \<noteq> []"
  shows "split_scan None cur s = (cur @ hd (split_on (CHR ''|'') s)) # tl (split_on (CHR ''|'') s)"
  using assms
proof (induction s arbitrary: cur)
  case Nil
  then show ?case by simp
next
  case (Cons b r)
  have r: "meta_free r" "\<not> contains r ''||''"
    using Cons.prems by (auto simp: meta_free_def contains_sublist sublist_Cons_right)
  show ?case
  proof (cases "b = CHR ''|''")
    case True
    have "\<not> (r \<noteq> [] \<and> hd r = CHR ''|'')"
      using Cons.prems(2) True by (cases r) (auto simp: contains_sublist sublist_Cons_right)
    then have "after_sep b r = r" using True by (auto simp: after_sep_def)
    moreover have "last (split_on (CHR ''|'') r) \<noteq> []" using Cons.prems(3) True by simp
    then have "split_scan None [] r = split_on (CHR ''|'') r"
      using Cons.IH [OF r, of "[]"] by simp
    ultimately show ?thesis using True by (simp add: is_sep_def)
  next
    case False
    have p: "b \<noteq> CHR 0x22" "b \<noteq> CHR 0x27" "b \<noteq> backslash" "\<not> is_sep b"
      using Cons.prems(1) False by (auto simp: meta_free_def is_sep_def)
    have hd: "hd (split_on (CHR ''|'') (b # r)) = b # hd (split_on (CHR ''|'') r)"
      "tl (split_on (CHR ''|'') (b # r)) = tl (split_on (CHR ''|'') r)"
      using False by (auto split: list.splits)
    then show ?thesis using Cons.IH [OF r, of "cur @ [b]"] Cons.prems(3) p by simp
  qed
qed

lemma validate_segments_ok:
  "validate_segments lower canon sb ro segs = Inr u \<longleftrightarrow>
     (\<forall>seg\<in>set segs. trim seg \<noteq> [] \<and> validate_segment lower canon sb ro (trim seg) = Inr ())"
  by (induction segs) (auto simp: Let_def split: sum.splits)

lemma validate_command_ok:
  assumes "validate_command lower canon sb cmd = Inr u"
  shows "meta_free cmd" "\<not> contains cmd ''||''" "CHR 0x60 \<notin> set cmd" "CHR ''$'' \<notin> set cmd"
    "CHR 0x0A \<notin> set cmd" "CHR ''>'' \<notin> set cmd" "CHR ''<'' \<notin> set cmd"
    "\<forall>seg\<in>set (split_on (CHR ''|'') cmd). trim seg \<noteq> [] \<and>
       validate_segment lower canon sb (ra_level (classify cmd) = Safe) (trim seg) = Inr ()"
  using assms
  by (simp_all add: validate_command_def meta_free_def validate_segments_ok split: if_split_asm option.splits)

lemma validated_segments:
  assumes "validate_command lower canon sb cmd = Inr ()"
  shows "split_top_level cmd = split_on (CHR ''|'') cmd"
proof -
  note ok = validate_command_ok [OF assms]
  let ?ps = "split_on (CHR ''|'') cmd"
  have "last ?ps \<in> set ?ps" by simp
  then have "last ?ps \<noteq> []" using ok(8) by fastforce
  then have "split_scan None [] cmd = ?ps" using split_scan_pipes [OF ok(1,2), of "[]"] by simp
  moreover have "filter (\<lambda>s. trim s \<noteq> []) ?ps = ?ps" using ok(8) by (simp add: filter_id_conv)
  ultimately show ?thesis by (simp add: split_top_level_def)
qed

section \<open>A host to run on\<close>

definition plain_outcome :: outcome where
  "plain_outcome = \<lparr>oc_stdout = ''ok'', oc_stderr = [], oc_stdout_truncated = False,
     oc_stderr_truncated = False, oc_exit_code = Some 0, oc_timed_out = False, oc_drain_timed_out = False\<rparr>"

definition plain_host :: host where
  "plain_host = \<lparr>h_linux = True, h_lower = to_ascii_lowercase, h_redact = id, h_canon = one_dir,
     h_is_dir = (\<lambda>_. True), h_spawn = (\<lambda>_ _ _. Inr plain_outcome)\<rparr>"

definition run_line :: "str \<Rightarrow> run_args" where
  "run_line c = \<lparr>arg_command = Some c, arg_timeout_secs = Some 99, arg_cwd = None\<rparr>"

lemmas validate_eval = validate_command_def validate_segment_def split_whitespace.simps path_policy_def
  for_each_path_arg_def consumes_next_value_def is_dashed_def check_sensitive_path_def
  is_sensitive_path_str_def is_secret_file_def sensitive_dir_components_def to_ascii_lowercase_def
  ascii_lower_def one_dir_def path_new_def segment_component_def suffix_to_prefix Let_def

lemma classify_command_rm: "classify ''command rm -rf x'' = \<lparr>ra_level = Safe, ra_reason = None, ra_rule = None\<rparr>"
  by (simp add: guard_eval)

lemma validate_command_rm: "validate_command to_ascii_lowercase one_dir dir_sandbox ''command rm -rf x'' = Inr ()"
  by (simp add: validate_eval classify_command_rm word_eval base_name_def contains_def)

lemma run_command_rm:
  "execute_with_corr plain_host dir_sandbox (\<lambda>_ _ _. False) (run_line ''command rm -rf x'') =
     ([Audit AuditAuto ''command rm -rf x'', Spawn ''command rm -rf x'' [RootDir, Normal ''w''] 30,
       ToolRun ''command rm -rf x'' (Some 0)],
      Inr (DoneReply (format_done plain_host ''command rm -rf x'' ''.'' 30 plain_outcome)))"
proof -
  have t: "trim ''command rm -rf x'' = ''command rm -rf x''" by (simp add: word_eval)
  have c: "command_of plain_host ''command rm -rf x'' = ''command rm -rf x''"
    by (simp add: command_of_def normalize_sre_command_def t plain_host_def to_ascii_lowercase_def ascii_lower_def)
  show ?thesis
    by (simp add: execute_with_corr_def t c execute_policy_def classify_command_rm run_and_format_def
        after_effects_def run_line_def resolve_cwd_def resolve_timeout_def dir_sandbox_def plain_outcome_def
        validate_command_rm [unfolded dir_sandbox_def] Let_def)
      (simp add: plain_host_def validate_command_rm [unfolded dir_sandbox_def] plain_outcome_def)
qed

section \<open>Agreement with the risk guard\<close>

text \<open>
  Further property (equivalence). A validated command means the same to the two components that judge it: the
  segments the risk guard rates are exactly the pieces between the pipes that the validator checks,
  none of them blank, and the command holds no quote, escape, expansion, redirection or second line
  that either could read differently.
\<close>

theorem validator_agrees_with_guard:
  assumes "validate_command lower canon sb cmd = Inr ()"
  shows "split_top_level cmd = split_on (CHR ''|'') cmd \<and>
    \<not> contains_unbounded_substitution cmd \<and> CHR 0x0A \<notin> set cmd \<and> CHR ''<'' \<notin> set cmd \<and> CHR ''>'' \<notin> set cmd"
proof -
  note ok = validate_command_ok [OF assms]
  have "split_top_level cmd = split_on (CHR ''|'') cmd" by (rule validated_segments [OF assms])
  moreover have "\<not> contains cmd ''$(''"
    using ok(4) set_mono_sublist [of "''$(''" cmd] by (auto simp: contains_sublist)
  ultimately show ?thesis using ok by (simp add: contains_unbounded_substitution_def)
qed

theorem validator_agrees_with_guard_witness:
  "split_top_level ''command rm -rf x'' = split_on (CHR ''|'') ''command rm -rf x''"
  using validator_agrees_with_guard [OF validate_command_rm] by simp

section \<open>What is started\<close>

lemma run_and_format_spawn:
  "Spawn c d t \<in> set (fst (run_and_format h sb cmd cwd disp tmo)) \<Longrightarrow>
     c = cmd \<and> d = cwd \<and> t = tmo \<and> validate_command (h_lower h) (h_canon h) sb cmd = Inr ()"
  by (auto simp: run_and_format_def split: sum.splits)

lemma run_and_format_no_confirm: "Confirmed c b \<notin> set (fst (run_and_format h sb cmd cwd disp tmo))"
  by (auto simp: run_and_format_def split: sum.splits)

lemma resolve_cwd_contained:
  "resolve_cwd h sb args = Inr (cwd, disp) \<Longrightarrow> path_starts_with cwd (sb_root sb)"
  by (auto simp: resolve_cwd_def path_starts_with_def [of _ "sb_root sb"] split: option.splits if_splits sum.splits
      dest: resolve_contained [unfolded path_starts_with_def])

lemma resolve_timeout_range: "1 \<le> resolve_timeout args \<and> resolve_timeout args \<le> 30"
  by (auto simp: resolve_timeout_def split: option.splits)

lemma execute_effects:
  assumes "execute_with_corr h sb confirm args = (es, res)" "es \<noteq> []"
  obtains raw cwd disp where "resolve_cwd h sb args = Inr (cwd, disp)"
    "execute_policy h sb confirm (command_of h (trim raw)) cwd disp (resolve_timeout args) = (es, res)"
  using assms by (auto simp: execute_with_corr_def split: option.splits if_splits sum.splits)

text \<open>A process the policy starts: from which level, and whether the user was asked.\<close>

lemma execute_policy_spawn:
  assumes "execute_policy h sb confirm c cwd disp tmo = (es, res)" "Spawn cmd d t \<in> set es"
  shows "cmd = c \<and> d = cwd \<and> t = tmo \<and> validate_command (h_lower h) (h_canon h) sb c = Inr () \<and>
    (ra_level (classify c) = Safe \<or> ra_level (classify c) = NeedsConfirm \<and> Confirmed c True \<in> set es)"
  using assms run_and_format_spawn [of cmd d t h sb c cwd disp tmo]
  by (auto simp: execute_policy_def Let_def after_effects_def split: risk_level.splits if_splits)

text \<open>
  Further property (safety). The tool starts a process only for a command its validator accepted, in a directory
  inside the sandbox and for 1 to 30 seconds; and the risk guard rates the command Safe, or it needs a
  confirmation and the user gave it. A Dangerous or unrecognised command starts nothing.
\<close>

theorem spawn_only_if_admitted:
  assumes "execute_with_corr h sb confirm args = (es, res)" and "Spawn cmd cwd secs \<in> set es"
  shows "validate_command (h_lower h) (h_canon h) sb cmd = Inr () \<and> 1 \<le> secs \<and> secs \<le> 30 \<and>
    path_starts_with cwd (sb_root sb) \<and>
    (ra_level (classify cmd) = Safe \<or> ra_level (classify cmd) = NeedsConfirm \<and> Confirmed cmd True \<in> set es)"
proof -
  have "es \<noteq> []" using assms(2) by auto
  with assms(1) obtain raw cwd' disp where cwd: "resolve_cwd h sb args = Inr (cwd', disp)"
    and pol: "execute_policy h sb confirm (command_of h (trim raw)) cwd' disp (resolve_timeout args) = (es, res)"
    by (rule execute_effects)
  show ?thesis
    using execute_policy_spawn [OF pol assms(2)] resolve_cwd_contained [OF cwd] resolve_timeout_range [of args]
    by auto
qed

theorem spawn_only_if_admitted_witness:
  "validate_command (h_lower plain_host) (h_canon plain_host) dir_sandbox ''command rm -rf x'' = Inr () \<and>
     path_starts_with [RootDir, Normal ''w''] (sb_root dir_sandbox)"
  using spawn_only_if_admitted [OF run_command_rm, of "''command rm -rf x''" "[RootDir, Normal ''w'']" 30] by simp

lemma command_of_trim: "trim (command_of h (trim raw)) = command_of h (trim raw)"
proof (cases "normalize_sre_command h (trim raw)")
  case None
  then show ?thesis by (simp add: command_of_def)
next
  case (Some n)
  then have "n \<in> set [''ps aux | head -n 20'', ''df -h'', ''free -h'', ''ss -tunl | head -n 50'',
      ''netstat -an | head -n 50'']"
    by (auto simp: normalize_sre_command_def Let_def split: if_splits)
  then have "trim n = n" by (auto simp: word_eval)
  then show ?thesis using Some by (simp add: command_of_def)
qed

text \<open>
  C2 (safety). What runs without asking the user: when a process was started and no confirmation was
  asked for, every piece of the command between its pipes is on the allow list of the risk guard, and
  none of them is blank.
\<close>

theorem unattended_only_allow_listed:
  assumes "execute_with_corr h sb confirm args = (es, res)" and "Spawn cmd cwd secs \<in> set es"
    and "Confirmed cmd True \<notin> set es"
  shows "\<forall>piece\<in>set (split_on (CHR ''|'') cmd). trim piece \<noteq> [] \<and> allow_listed (trim piece)"
proof -
  have "es \<noteq> []" using assms(2) by auto
  with assms(1) obtain raw cwd' disp where
    pol: "execute_policy h sb confirm (command_of h (trim raw)) cwd' disp (resolve_timeout args) = (es, res)"
    by (rule execute_effects)
  note sp = execute_policy_spawn [OF pol assms(2)]
  have c: "cmd = command_of h (trim raw)" and val: "validate_command (h_lower h) (h_canon h) sb cmd = Inr ()"
    and safe: "ra_level (classify cmd) = Safe"
    using sp assms(3) by auto
  have t: "trim cmd = cmd" by (simp add: c command_of_trim)
  have segs: "split_top_level cmd = split_on (CHR ''|'') cmd" by (rule validated_segments [OF val])
  show ?thesis
    using safe_allow_listed [OF safe] validate_command_ok(8) [OF val] by (simp add: t segs)
qed


theorem unattended_only_allow_listed_witness:
  "trim ''command rm -rf x'' \<noteq> [] \<and> allow_listed (trim ''command rm -rf x'')"
  using unattended_only_allow_listed [OF run_command_rm, of "''command rm -rf x''" "[RootDir, Normal ''w'']" 30]
  by (simp add: split_on_absent)

lemma classify_fd: "ra_level (classify ''fd log -x rm'') = Safe"
  by (simp add: guard_eval)

text \<open>
  Further property (safety). The allow list of heads is not enough: with a user who refuses everything, the tool
  still starts \<open>command rm -rf x\<close>, because \<open>command\<close> is an allow listed head and the validator looks
  only at paths and at the options of \<open>find\<close>; and it accepts \<open>fd log -x rm\<close> as Safe, whose \<open>-x\<close> runs a
  program on every match.
\<close>

theorem wrapped_removal_runs_unattended:
  "Spawn ''command rm -rf x'' [RootDir, Normal ''w''] 30 \<in>
     set (fst (execute_with_corr plain_host dir_sandbox (\<lambda>_ _ _. False) (run_line ''command rm -rf x''))) \<and>
   ra_level (classify ''fd log -x rm'') = Safe \<and>
   validate_command to_ascii_lowercase one_dir dir_sandbox ''fd log -x rm'' = Inr ()"
  by (simp add: run_command_rm classify_fd)
    (simp add: validate_eval classify_fd word_eval base_name_def contains_def find_dangerous_opts_def)

section \<open>Path arguments\<close>

text \<open>The arguments a policy takes for paths.\<close>

fun path_arguments :: "str \<Rightarrow> path_arg_policy \<Rightarrow> bool \<Rightarrow> str list \<Rightarrow> str list" where
  "path_arguments cmd policy seen [] = []"
| "path_arguments cmd policy seen (tok # rest) =
     (if is_dashed tok then
        (if policy = LeadingPaths then []
         else path_arguments cmd policy seen (if consumes_next_value cmd tok then drop 1 rest else rest))
      else if policy = PatternThenPaths \<and> \<not> seen then path_arguments cmd policy True rest
      else tok # path_arguments cmd policy seen rest)"

lemma path_arg_loop_ok:
  "path_arg_loop cmd policy f seen args = Inr u \<longleftrightarrow> (\<forall>tok\<in>set (path_arguments cmd policy seen args). f tok = Inr ())"
  by (induction cmd policy f seen args rule: path_arg_loop.induct) (auto split: sum.splits)

lemma check_args_ok:
  "check_args args = Inr u \<longleftrightarrow> (\<forall>tok\<in>set args. is_dashed tok \<or> check_no_escape tok = Inr ())"
  by (induction args) (auto split: sum.splits)

lemma resolve_in_sandbox_ok:
  "resolve_in_sandbox canon sb tok = Inr u \<longleftrightarrow>
     (\<exists>p. sandbox_resolve canon sb tok = Inr p \<and> path_starts_with p (sb_root sb))"
  by (auto simp: resolve_in_sandbox_def resolve_contained split: sum.splits)

definition read_policy :: "str \<Rightarrow> path_arg_policy" where
  "read_policy head = (if path_policy head = NoPaths then AllPaths else path_policy head)"

text \<open>
  Further property (safety). A command that runs without asking reads no secret by a path argument: no argument that
  the policy of its head takes for a path names a sensitive path, nor, if it exists, leads to one
  through a link.
\<close>

theorem unattended_reads_no_secret:
  assumes "validate_command lower canon sb cmd = Inr ()" and "ra_level (classify cmd) = Safe"
    and "piece \<in> set (split_on (CHR ''|'') cmd)" and "split_whitespace (trim piece) = head # args"
    and "tok \<in> set (path_arguments (base_name head) (read_policy head) False args)"
  shows "\<not> is_sensitive_path_str lower tok \<and>
    (case canon (path_new tok) of None \<Rightarrow> True | Some c \<Rightarrow> \<not> is_sensitive_path_str lower (path_text c))"
proof -
  have "validate_segment lower canon sb True (trim piece) = Inr ()"
    using validate_command_ok(8) [OF assms(1)] assms(2,3) by simp
  then have "check_sensitive_path lower canon tok = Inr ()"
    using assms(4,5) unfolding validate_segment_def
    by (auto simp: Let_def for_each_path_arg_def path_arg_loop_ok read_policy_def split: option.splits if_splits)
  then show ?thesis by (auto simp: check_sensitive_path_def split: if_splits option.splits)
qed

theorem unattended_reads_no_secret_witness:
  "\<not> is_sensitive_path_str to_ascii_lowercase ''rm''"
proof -
  have "split_whitespace (trim ''command rm -rf x'') = ''command'' # [''rm'', ''-rf'', ''x'']"
    by (simp add: word_eval split_whitespace.simps Let_def)
  moreover have "''rm'' \<in> set (path_arguments (base_name ''command'') (read_policy ''command'') False [''rm'', ''-rf'', ''x''])"
    by (simp add: read_policy_def path_policy_def base_name_def is_dashed_def consumes_next_value_def Let_def)
  moreover have "ra_level (classify ''command rm -rf x'') = Safe" by (simp add: classify_command_rm)
  ultimately show ?thesis
    using unattended_reads_no_secret [OF validate_command_rm, of "''command rm -rf x''" "''command''"]
    by (simp add: split_on_absent)
qed

text \<open>
  C35 (safety). A command that changes things stays in the sandbox: in a validated command that is not
  Safe no argument but an option is absolute or climbs with \<open>..\<close>, and every argument that the policy of
  its head takes for a path exists inside the root.
\<close>

theorem mutation_stays_in_sandbox:
  assumes "validate_command lower canon sb cmd = Inr ()" and "ra_level (classify cmd) \<noteq> Safe"
    and "piece \<in> set (split_on (CHR ''|'') cmd)" and "split_whitespace (trim piece) = head # args"
  shows "(\<forall>tok\<in>set args. is_dashed tok \<or> \<not> starts_with tok ''/'' \<and> ''..'' \<notin> set (split_on (CHR ''/'') tok)) \<and>
    (path_policy head = NoPaths \<or> (\<forall>tok\<in>set (path_arguments (base_name head) (path_policy head) False args).
       \<exists>p. sandbox_resolve canon sb tok = Inr p \<and> path_starts_with p (sb_root sb)))"
proof -
  have "validate_segment lower canon sb False (trim piece) = Inr ()"
    using validate_command_ok(8) [OF assms(1)] assms(2,3) by simp
  then have "check_args args = Inr ()" and
    "path_policy head = NoPaths \<or> (\<forall>tok\<in>set (path_arguments (base_name head) (path_policy head) False args).
       resolve_in_sandbox canon sb tok = Inr ())"
    using assms(4) unfolding validate_segment_def
    by (auto simp: Let_def for_each_path_arg_def path_arg_loop_ok validate_path_args_def
        split: option.splits if_splits sum.splits)
  then show ?thesis
    by (auto simp: check_args_ok check_no_escape_def resolve_in_sandbox_ok split: if_splits)
qed

theorem mutation_stays_in_sandbox_witness:
  "validate_command to_ascii_lowercase one_dir dir_sandbox ''mv a b'' = Inr () \<and>
   ra_level (classify ''mv a b'') = NeedsConfirm \<and>
   list_all (\<lambda>tok. \<not> starts_with tok ''/'' \<and> ''..'' \<notin> set (split_on (CHR ''/'') tok)) [''a'', ''b'']"
proof -
  have c: "ra_level (classify ''mv a b'') = NeedsConfirm" by (simp add: guard_eval)
  have v: "validate_command to_ascii_lowercase one_dir dir_sandbox ''mv a b'' = Inr ()"
    by (simp add: validate_eval c word_eval base_name_def contains_def check_no_escape_def validate_path_args_def)
  have w: "split_whitespace (trim ''mv a b'') = ''mv'' # [''a'', ''b'']"
    by (simp add: word_eval split_whitespace.simps Let_def)
  show ?thesis
    using mutation_stays_in_sandbox [OF v _ _ w] c v by (simp add: split_on_absent is_dashed_def)
qed

section \<open>Bounded capture\<close>

text \<open>The bytes a reader takes from the pipe: up to the end, an error, or the drain limit.\<close>

fun drained :: "bytes \<Rightarrow> read_event list \<Rightarrow> bytes" where
  "drained acc [] = acc"
| "drained acc (Interrupted # es) = drained acc es"
| "drained acc (ReadFailed # es) = acc"
| "drained acc (Chunk chunk # es) =
     (if chunk = [] then acc
      else if max_drain_bytes \<le> length (acc @ chunk) then acc @ chunk else drained (acc @ chunk) es)"

definition captures :: "reader \<Rightarrow> bytes \<Rightarrow> bool" where
  "captures st bs \<longleftrightarrow> rd_total st = length bs \<and> rd_buf st = take max_stream_bytes bs \<and>
     (rd_truncated st \<longleftrightarrow> max_stream_bytes < length bs)"

lemma read_chunk_captures:
  "captures st acc \<Longrightarrow> chunk \<noteq> [] \<Longrightarrow> captures (read_chunk st chunk) (acc @ chunk)"
  by (auto simp: captures_def read_chunk_def Let_def min_def split: if_splits)

lemma bounded_read_captures: "captures st acc \<Longrightarrow> captures (bounded_read_into st es) (drained acc es)"
proof (induction st es arbitrary: acc rule: bounded_read_into.induct)
  case (4 st chunk es)
  show ?case
  proof (cases "chunk = []")
    case False
    then have cap: "captures (read_chunk st chunk) (acc @ chunk)" using read_chunk_captures 4(2) by blast
    then have tot: "rd_total (read_chunk st chunk) = length (acc @ chunk)" by (simp add: captures_def)
    show ?thesis
    proof (cases "max_drain_bytes \<le> length (acc @ chunk)")
      case True
      then have "max_stream_bytes < length (acc @ chunk)" by (simp add: max_drain_bytes_def max_stream_bytes_def)
      then show ?thesis using True False tot cap by (simp add: captures_def)
    next
      case big: False
      then show ?thesis using 4(1) [OF False refl _ cap] False tot by simp
    qed
  qed (use 4 in simp)
qed simp_all

lemma drained_bound:
  "\<forall>c. Chunk c \<in> set es \<longrightarrow> length c \<le> 8192 \<Longrightarrow> length acc < max_drain_bytes \<Longrightarrow>
     length (drained acc es) < max_drain_bytes + 8192"
  by (induction acc es rule: drained.induct) auto

text \<open>
  Further property (bounds). However much a child writes, the reader keeps exactly the first 64 KiB of what it took
  from the pipe, marks the output truncated exactly when it took more, and takes less than the drain
  limit and one buffer of 8 KiB, so it stops even if the pipe never closes.
\<close>

theorem capture_is_bounded_prefix:
  assumes "\<forall>c. Chunk c \<in> set es \<longrightarrow> length c \<le> 8192"
  shows "let st = bounded_read_into \<lparr>rd_buf = [], rd_truncated = False, rd_total = 0\<rparr> es; bs = drained [] es in
    rd_buf st = take max_stream_bytes bs \<and> (rd_truncated st \<longleftrightarrow> max_stream_bytes < length bs) \<and>
    rd_total st < max_drain_bytes + 8192"
proof -
  have "captures \<lparr>rd_buf = [], rd_truncated = False, rd_total = 0\<rparr> []" by (simp add: captures_def)
  from bounded_read_captures [OF this, of es] drained_bound [OF assms, of "[]"] show ?thesis
    by (simp add: captures_def Let_def max_drain_bytes_def)
qed

theorem capture_is_bounded_prefix_witness:
  "rd_buf (bounded_read_into \<lparr>rd_buf = [], rd_truncated = False, rd_total = 0\<rparr> [Chunk ''ab'', Interrupted, Chunk ''c'', ReadFailed])
     = take max_stream_bytes ''abc''"
  using capture_is_bounded_prefix [of "[Chunk ''ab'', Interrupted, Chunk ''c'', ReadFailed]"]
  by (simp add: Let_def max_drain_bytes_def)

section \<open>Shortcuts\<close>

text \<open>
  Further property (safety). A shortcut of the agent expands only to a command that the risk guard rates Safe and
  the validator accepts, on every platform, as long as the plain words of the command are not links to
  a sensitive path.
\<close>

theorem shortcuts_run_unattended:
  assumes "normalize_sre_command h raw = Some cmd" and "\<forall>p. h_canon h p = None" and "h_lower h = to_ascii_lowercase"
  shows "ra_level (classify cmd) = Safe \<and> validate_command (h_lower h) (h_canon h) sb cmd = Inr ()"
proof -
  have cmds: "cmd \<in> set [''ps aux | head -n 20'', ''df -h'', ''free -h'', ''ss -tunl | head -n 50'',
      ''netstat -an | head -n 50'']"
    using assms(1) by (auto simp: normalize_sre_command_def Let_def split: if_splits)
  have safe: "ra_level (classify ''ps aux | head -n 20'') = Safe" "ra_level (classify ''df -h'') = Safe"
    "ra_level (classify ''free -h'') = Safe" "ra_level (classify ''ss -tunl | head -n 50'') = Safe"
    "ra_level (classify ''netstat -an | head -n 50'') = Safe"
    by (simp_all add: guard_eval)
  note ev = validate_eval word_eval base_name_def contains_def assms(2)
  have v0: "validate_command to_ascii_lowercase (h_canon h) sb ''ps aux | head -n 20'' = Inr ()"
    by (simp add: ev safe)
  have v1: "validate_command to_ascii_lowercase (h_canon h) sb ''df -h'' = Inr ()"
    by (simp add: ev safe)
  have v2: "validate_command to_ascii_lowercase (h_canon h) sb ''free -h'' = Inr ()"
    by (simp add: ev safe)
  have v3: "validate_command to_ascii_lowercase (h_canon h) sb ''ss -tunl | head -n 50'' = Inr ()"
    by (simp add: ev safe)
  have v4: "validate_command to_ascii_lowercase (h_canon h) sb ''netstat -an | head -n 50'' = Inr ()"
    by (simp add: ev safe)
  show ?thesis using cmds assms(3) safe v0 v1 v2 v3 v4 by auto
qed

definition empty_host :: host where
  "empty_host = plain_host\<lparr>h_canon := \<lambda>_. None\<rparr>"

theorem shortcuts_run_unattended_witness:
  "normalize_sre_command empty_host ''df'' = Some ''df -h'' \<and> ra_level (classify ''df -h'') = Safe"
proof -
  have "normalize_sre_command empty_host ''df'' = Some ''df -h''"
    by (simp add: normalize_sre_command_def word_eval empty_host_def plain_host_def to_ascii_lowercase_def ascii_lower_def Let_def)
  then show ?thesis using shortcuts_run_unattended [of empty_host "''df''" "''df -h''"]
    by (simp add: empty_host_def plain_host_def)
qed

end
