(* ===== verification/Path_Guard.thy ===== *)
theory Path_Guard
  imports Rust_Words
begin

text \<open>
  The gates in front of a remote command: the lexical path guard
  (\<open>aic-client/src/agent/remote/path_guard.rs\<close>) and the program whitelist
  (\<open>aic-client/src/agent/whitelist.rs\<close>). \<open>str::to_lowercase\<close> is the parameter \<open>lower\<close>, and the
  whitelist file after parsing (crate \<open>toml\<close>) is an argument.
\<close>

section \<open>Lexical canonical form\<close>

definition push_segment :: "str list \<Rightarrow> str \<Rightarrow> str list" where
  "push_segment parts seg =
     (if seg = [] \<or> seg = ''.'' then parts
      else if seg = ''..'' then butlast parts
      else parts @ [seg])"

definition lexical_canonicalize :: "str \<Rightarrow> str" where
  "lexical_canonicalize path =
     (if path = [] then []
      else (if prefix ''/'' path then ''/'' else []) @
        join_with ''/'' (foldl push_segment [] (split_on (CHR ''/'') path)))"

section \<open>The path guard\<close>

datatype block_reason = ProcfsPath str | ForbiddenPrefix str str | SecretPattern str str

datatype path_check = PathAllowed | PathBlocked block_reason

definition procfs_allowlist :: "str list" where
  "procfs_allowlist = [''/proc/loadavg'', ''/proc/cpuinfo'', ''/proc/meminfo'', ''/proc/vmstat'',
     ''/proc/diskstats'', ''/proc/net/dev'', ''/proc/uptime'', ''/proc/stat'']"

definition forbidden_prefixes :: "str list" where
  "forbidden_prefixes = [''/dev/'', ''/sys/firmware/'', ''/run/secrets/'']"

definition forbidden_patterns :: "str list" where
  "forbidden_patterns = [''id_rsa'', ''id_ed25519'', ''id_ecdsa'', ''id_dsa'', ''.pem'', ''.key'', ''.env'',
     ''credentials'', ''shadow'', ''sudoers'', ''.aws/'', ''.kube/'', ''kubeconfig'']"

definition check_path :: "(str \<Rightarrow> str) \<Rightarrow> str \<Rightarrow> path_check" where
  "check_path lower path =
     (let canon = lexical_canonicalize path in
      if prefix ''/proc/'' canon \<or> canon = ''/proc'' then
        (if canon \<in> set procfs_allowlist then PathAllowed else PathBlocked (ProcfsPath canon))
      else case find (\<lambda>p. prefix p canon) forbidden_prefixes of
        Some p \<Rightarrow> PathBlocked (ForbiddenPrefix p canon)
      | None \<Rightarrow> case find (\<lambda>pat. contains (lower canon) pat) forbidden_patterns of
          Some pat \<Rightarrow> PathBlocked (SecretPattern pat canon)
        | None \<Rightarrow> PathAllowed)"

section \<open>The whitelist\<close>

definition builtin_programs :: "str list" where
  "builtin_programs = [''ps'', ''df'', ''free'', ''uptime'', ''cat'', ''journalctl'', ''ls'', ''find'']"

definition shell_metachars :: str where
  "shell_metachars = '';&|$<>'' @ [CHR 0x60, CHR 0x5C, CHR 0x0A, CHR 0x0D]"

type_synonym arg_rules = "str list list option"

record whitelist =
  wl_programs :: "str \<rightharpoonup> arg_rules"
  wl_user :: bool

record user_program =
  up_name :: str
  up_allowed_args :: arg_rules

definition builtin_whitelist :: "str \<rightharpoonup> arg_rules" where
  "builtin_whitelist = foldl (\<lambda>m p. m(p \<mapsto> None)) Map.empty builtin_programs"

definition whitelist_load_from :: "user_program list option \<Rightarrow> whitelist" where
  "whitelist_load_from doc = (case doc of
     None \<Rightarrow> \<lparr>wl_programs = builtin_whitelist, wl_user = False\<rparr>
   | Some ups \<Rightarrow> \<lparr>wl_programs = foldl (\<lambda>m up. m(up_name up \<mapsto> up_allowed_args up)) builtin_whitelist ups,
       wl_user = True\<rparr>)"

datatype check_block =
  MetaInArgument u8 str | MetaInProgram u8 str | NotWhitelisted str | PathArgument block_reason
| ArgsNotAllowed str "str list"

datatype check_result = CheckAllowed | CheckBlocked check_block

fun find_meta :: "str list \<Rightarrow> (u8 \<times> str) option" where
  "find_meta [] = None"
| "find_meta (a # rest) = (case find (\<lambda>c. c \<in> set shell_metachars) a of
     Some c \<Rightarrow> Some (c, a) | None \<Rightarrow> find_meta rest)"

fun find_blocked_path :: "(str \<Rightarrow> str) \<Rightarrow> str list \<Rightarrow> block_reason option" where
  "find_blocked_path lower [] = None"
| "find_blocked_path lower (a # rest) =
     (if prefix ''/'' a then
        (case check_path lower a of PathBlocked r \<Rightarrow> Some r | PathAllowed \<Rightarrow> find_blocked_path lower rest)
      else find_blocked_path lower rest)"

definition args_match :: "str list \<Rightarrow> str list \<Rightarrow> bool" where
  "args_match rule args = (if length rule \<noteq> length args then False else list_all2 (=) rule args)"

definition whitelist_check :: "(str \<Rightarrow> str) \<Rightarrow> whitelist \<Rightarrow> str \<Rightarrow> str list \<Rightarrow> check_result" where
  "whitelist_check lower wl program args =
     (case find_meta args of Some (c, a) \<Rightarrow> CheckBlocked (MetaInArgument c a)
      | None \<Rightarrow> case find (\<lambda>c. c \<in> set shell_metachars) program of
          Some c \<Rightarrow> CheckBlocked (MetaInProgram c program)
      | None \<Rightarrow> case wl_programs wl program of
          None \<Rightarrow> CheckBlocked (NotWhitelisted program)
      | Some allowed_args \<Rightarrow> case find_blocked_path lower args of
          Some r \<Rightarrow> CheckBlocked (PathArgument r)
      | None \<Rightarrow> case allowed_args of
          Some rules \<Rightarrow> if \<exists>rule\<in>set rules. args_match rule args then CheckAllowed
            else CheckBlocked (ArgsNotAllowed program args)
        | None \<Rightarrow> CheckAllowed)"

section \<open>Canonical forms\<close>

definition plain_segment :: "str \<Rightarrow> bool" where
  "plain_segment s \<longleftrightarrow> s \<noteq> [] \<and> s \<noteq> ''.'' \<and> s \<noteq> ''..'' \<and> CHR ''/'' \<notin> set s"

lemma split_on_no_sep: "s \<in> set (split_on d t) \<Longrightarrow> d \<notin> set s"
  by (induction t arbitrary: s) (auto split: list.splits if_splits)

lemma push_segment_plain:
  "list_all plain_segment parts \<Longrightarrow> CHR ''/'' \<notin> set s \<Longrightarrow> list_all plain_segment (push_segment parts s)"
  by (cases parts rule: rev_cases) (simp_all add: push_segment_def plain_segment_def)

lemma foldl_push_plain:
  "list_all plain_segment parts \<Longrightarrow> \<forall>s\<in>set segs. CHR ''/'' \<notin> set s \<Longrightarrow>
     list_all plain_segment (foldl push_segment parts segs)"
  by (induction segs arbitrary: parts) (simp_all add: push_segment_plain)

lemma foldl_push_id: "list_all plain_segment segs \<Longrightarrow> foldl push_segment parts segs = parts @ segs"
  by (induction segs arbitrary: parts) (auto simp: push_segment_def plain_segment_def)

lemma split_join:
  "list_all plain_segment segs \<Longrightarrow> segs \<noteq> [] \<Longrightarrow> split_on (CHR ''/'') (join_with ''/'' segs) = segs"
  by (induction "''/''" segs rule: join_with.induct)
    (auto simp: split_on_absent split_on_append plain_segment_def)

definition canonical_segments :: "str \<Rightarrow> str list" where
  "canonical_segments path = foldl push_segment [] (split_on (CHR ''/'') path)"

lemma canonical_segments_plain: "list_all plain_segment (canonical_segments path)"
  unfolding canonical_segments_def by (rule foldl_push_plain) (auto dest: split_on_no_sep)

lemma lexical_canonicalize_alt:
  "lexical_canonicalize path =
     (if prefix ''/'' path then ''/'' else []) @ join_with ''/'' (canonical_segments path)"
  by (auto simp: lexical_canonicalize_def canonical_segments_def push_segment_def)

lemma canonical_segments_joined:
  assumes "list_all plain_segment segs"
  shows "canonical_segments (join_with ''/'' segs) = segs"
    "canonical_segments (''/'' @ join_with ''/'' segs) = segs"
proof -
  have e: "segs = [] \<Longrightarrow> split_on (CHR ''/'') (join_with ''/'' segs) = [[]]" by simp
  have s: "foldl push_segment parts (split_on (CHR ''/'') (join_with ''/'' segs)) = parts @ segs" for parts
    using split_join [OF assms] foldl_push_id [OF assms, of parts] e by (cases "segs = []") (simp_all add: push_segment_def)
  then show "canonical_segments (join_with ''/'' segs) = segs" by (simp add: canonical_segments_def)
  show "canonical_segments (''/'' @ join_with ''/'' segs) = segs"
    using s by (simp add: canonical_segments_def push_segment_def)
qed

lemma join_plain_no_slash: "list_all plain_segment segs \<Longrightarrow> \<not> prefix ''/'' (join_with ''/'' segs)"
  by (cases segs rule: remdups_adj.cases) (auto simp: plain_segment_def neq_Nil_conv)

text \<open>
  Further property (functional). The canonical form is a normal form: canonicalizing twice is canonicalizing once,
  and the guard gives a path and its canonical form the same verdict, so respelling a path with \<open>.\<close>,
  \<open>..\<close> or doubled slashes cannot change it.
\<close>

theorem canonical_form_decides:
  "lexical_canonicalize (lexical_canonicalize path) = lexical_canonicalize path \<and>
   check_path lower (lexical_canonicalize path) = check_path lower path"
proof -
  note p = canonical_segments_plain [of path]
  have idem: "lexical_canonicalize (lexical_canonicalize path) = lexical_canonicalize path"
  proof (cases "prefix ''/'' path")
    case True
    then have c: "lexical_canonicalize path = ''/'' @ join_with ''/'' (canonical_segments path)"
      by (simp add: lexical_canonicalize_alt)
    show ?thesis unfolding c lexical_canonicalize_alt [of "''/'' @ _"] canonical_segments_joined(2) [OF p] by simp
  next
    case False
    then have c: "lexical_canonicalize path = join_with ''/'' (canonical_segments path)"
      by (simp add: lexical_canonicalize_alt)
    show ?thesis unfolding c lexical_canonicalize_alt [of "join_with _ _"] canonical_segments_joined(1) [OF p]
      using join_plain_no_slash [OF p] by simp
  qed
  then show ?thesis by (simp add: check_path_def)
qed

section \<open>What the whitelist lets through\<close>

lemma find_Some_D: "find P xs = Some x \<Longrightarrow> x \<in> set xs \<and> P x"
  by (auto simp: find_Some_iff)

lemma find_meta_None: "find_meta args = None \<longleftrightarrow> (\<forall>a\<in>set args. \<forall>c\<in>set a. c \<notin> set shell_metachars)"
  by (induction args) (auto simp: find_None_iff dest: find_Some_D split: option.splits)

lemma find_blocked_path_None:
  "find_blocked_path lower args = None \<longleftrightarrow> (\<forall>a\<in>set args. prefix ''/'' a \<longrightarrow> check_path lower a = PathAllowed)"
  by (induction args) (auto split: path_check.splits)

lemma args_match_eq: "args_match rule args \<longleftrightarrow> rule = args"
  by (auto simp: args_match_def list.rel_eq)

text \<open>
  Further property (functional). What the whitelist admits, exactly: a program that is listed, free of shell
  metacharacters like its arguments, whose absolute arguments the path guard allows, and whose
  arguments are one of the listed sequences when the user listed any.
\<close>

theorem whitelist_admits_exactly:
  "whitelist_check lower wl program args = CheckAllowed \<longleftrightarrow>
     (\<exists>rules. wl_programs wl program = Some rules \<and> (rules = None \<or> args \<in> set (the rules))) \<and>
     (\<forall>word\<in>set (program # args). \<forall>c\<in>set word. c \<notin> set shell_metachars) \<and>
     (\<forall>a\<in>set args. prefix ''/'' a \<longrightarrow> check_path lower a = PathAllowed)"
proof -
  have "find (\<lambda>c. c \<in> set shell_metachars) program = None \<longleftrightarrow> (\<forall>c\<in>set program. c \<notin> set shell_metachars)"
    by (auto simp: find_None_iff)
  then show ?thesis
    using find_meta_None [of args] find_blocked_path_None [of lower args]
    by (auto simp: whitelist_check_def args_match_eq split: option.splits if_splits)
qed

theorem whitelist_admits_exactly_witness:
  "whitelist_check to_ascii_lowercase (whitelist_load_from None) ''df'' [''-h''] = CheckAllowed"
  unfolding whitelist_admits_exactly
  by (simp add: whitelist_load_from_def builtin_whitelist_def builtin_programs_def shell_metachars_def)

text \<open>
  Further property (safety). The built-in whitelist alone admits commands that are not reads of harmless files: only
  arguments that start with a slash reach the path guard, so a relative path or one glued to an option
  names the shadow file unchecked, and \<open>find\<close> may delete what it finds.
\<close>

theorem builtin_whitelist_gaps:
  "whitelist_check to_ascii_lowercase (whitelist_load_from None) ''cat'' [''../../etc/shadow''] = CheckAllowed \<and>
   whitelist_check to_ascii_lowercase (whitelist_load_from None) ''journalctl'' [''--file=/etc/shadow''] = CheckAllowed \<and>
   whitelist_check to_ascii_lowercase (whitelist_load_from None) ''find'' [''/var'', ''-delete''] = CheckAllowed \<and>
   check_path to_ascii_lowercase ''/etc/shadow'' \<noteq> PathAllowed"
proof (intro conjI)
  note ev = whitelist_load_from_def builtin_whitelist_def builtin_programs_def shell_metachars_def
    whitelist_check_def check_path_def lexical_canonicalize_def push_segment_def forbidden_prefixes_def
    forbidden_patterns_def to_ascii_lowercase_def ascii_lower_def contains_def Let_def
  show "whitelist_check to_ascii_lowercase (whitelist_load_from None) ''cat'' [''../../etc/shadow''] = CheckAllowed"
    by (simp add: ev)
  show "whitelist_check to_ascii_lowercase (whitelist_load_from None) ''journalctl'' [''--file=/etc/shadow''] = CheckAllowed"
    by (simp add: ev)
  show "whitelist_check to_ascii_lowercase (whitelist_load_from None) ''find'' [''/var'', ''-delete''] = CheckAllowed"
    by (simp add: ev)
  show "check_path to_ascii_lowercase ''/etc/shadow'' \<noteq> PathAllowed" by (simp add: ev)
qed

end
