(* ===== verification/Remote_Exec.thy ===== *)
theory Remote_Exec
  imports Path_Guard Risk_Safety "HOL-Library.Multiset"
begin

text \<open>
  Remote execution over ssh (\<open>aic-client/src/agent/remote/\<close> and \<open>agent/hosts.rs\<close>): hosts given on the
  command line, the argument vector of the ssh process with its quoting, the classification of its
  result, and the fan-out over many hosts as a system of interleaved steps. The process itself is a
  parameter: what spawning, reading and waiting gave.
\<close>

section \<open>Hosts\<close>

datatype host_key_check = Strict | AcceptNew

datatype host_source = HostsToml | SshConfig | Overlay | AdHoc

record host_entry =
  he_name :: str
  he_hostname :: str
  he_user :: str
  he_port :: nat
  he_identity_file :: "str option"
  he_forward_agent :: bool
  he_proxy_jump :: "str option"
  he_host_key_check :: host_key_check
  he_connect_timeout_secs :: nat
  he_tags :: "str list"
  he_source :: host_source

definition parse_host_key_check :: "str \<Rightarrow> host_key_check" where
  "parse_host_key_check s = (if s \<in> set [''accept-new'', ''accept_new'', ''AcceptNew''] then AcceptNew else Strict)"

definition ad_hoc_entry :: "str \<Rightarrow> str \<Rightarrow> nat \<Rightarrow> host_entry" where
  "ad_hoc_entry user hst port =
     \<lparr>he_name = user @ ''@'' @ hst @ '':'' @ dec port, he_hostname = hst, he_user = user, he_port = port,
      he_identity_file = None, he_forward_agent = False, he_proxy_jump = None,
      he_host_key_check = Strict, he_connect_timeout_secs = 10, he_tags = [], he_source = AdHoc\<rparr>"

abbreviation parse_u16 :: "str \<Rightarrow> nat option" where
  "parse_u16 s \<equiv> parse_unsigned 65535 10 s"

definition parse_ad_hoc :: "str \<Rightarrow> str \<Rightarrow> host_entry option" where
  "parse_ad_hoc whoami s =
     (if prefix ''@'' s then None
      else case split_once (CHR ''@'') s of
        Some (user, rest) \<Rightarrow>
          if user = [] \<or> rest = [] \<or> CHR ''@'' \<in> set rest \<or> prefix ''['' rest then None
          else (case (case rsplit_once (CHR '':'') rest of
                  Some (h, p) \<Rightarrow> map_option (Pair h) (parse_u16 p) | None \<Rightarrow> Some (rest, 22)) of
            None \<Rightarrow> None
          | Some (hst, port) \<Rightarrow> if hst = [] then None else Some (ad_hoc_entry user hst port))
      | None \<Rightarrow>
          (let t = trim s in
           if t = [] \<or> CHR '' '' \<in> set t \<or> CHR ''/'' \<in> set t then None
           else let (hst, port) = (case rsplit_once (CHR '':'') t of
                  Some (h, p) \<Rightarrow> (case parse_u16 p of Some n \<Rightarrow> (h, n) | None \<Rightarrow> (t, 22))
                | None \<Rightarrow> (t, 22))
             in if hst = [] then None else Some (ad_hoc_entry whoami hst port)))"

record hosts_toml_entry =
  te_name :: str
  te_hostname :: "str option"
  te_user :: "str option"
  te_port :: "nat option"
  te_identity_file :: "str option"
  te_forward_agent :: "bool option"
  te_proxy_jump :: "str option"
  te_host_key_check :: "str option"
  te_connect_timeout_secs :: "nat option"
  te_tags :: "str list"

definition or_keep :: "'a option \<Rightarrow> 'a \<Rightarrow> 'a" where
  "or_keep x old = (case x of None \<Rightarrow> old | Some v \<Rightarrow> v)"

definition overlay_entry :: "hosts_toml_entry \<Rightarrow> bool \<Rightarrow> host_entry \<Rightarrow> host_entry" where
  "overlay_entry e was_in_ssh_config h =
     h\<lparr>he_hostname := (case te_hostname e of Some x \<Rightarrow> x
          | None \<Rightarrow> if he_hostname h = [] then he_name h else he_hostname h),
       he_user := or_keep (te_user e) (he_user h),
       he_port := or_keep (te_port e) (he_port h),
       he_identity_file := (if te_identity_file e = None then he_identity_file h else te_identity_file e),
       he_forward_agent := or_keep (te_forward_agent e) (he_forward_agent h),
       he_proxy_jump := (if te_proxy_jump e = None then he_proxy_jump h else te_proxy_jump e),
       he_host_key_check := or_keep (map_option parse_host_key_check (te_host_key_check e)) (he_host_key_check h),
       he_connect_timeout_secs := or_keep (te_connect_timeout_secs e) (he_connect_timeout_secs h),
       he_tags := (if te_tags e = [] then he_tags h else te_tags e),
       he_source := (if was_in_ssh_config then Overlay else HostsToml)\<rparr>"

definition fresh_entry :: "str \<Rightarrow> host_key_check \<Rightarrow> str \<Rightarrow> host_entry" where
  "fresh_entry whoami check name =
     \<lparr>he_name = name, he_hostname = [], he_user = whoami, he_port = 22, he_identity_file = None,
      he_forward_agent = False, he_proxy_jump = None, he_host_key_check = check,
      he_connect_timeout_secs = 10, he_tags = [], he_source = HostsToml\<rparr>"

definition apply_overlay ::
  "str \<Rightarrow> str \<Rightarrow> (str \<rightharpoonup> host_entry) \<Rightarrow> hosts_toml_entry \<Rightarrow> (str \<rightharpoonup> host_entry)" where
  "apply_overlay whoami default_check hosts e =
     (let entry = (case hosts (te_name e) of Some h \<Rightarrow> h
        | None \<Rightarrow> fresh_entry whoami (parse_host_key_check default_check) (te_name e))
      in hosts(te_name e \<mapsto> overlay_entry e (hosts (te_name e) \<noteq> None) entry))"

datatype inventory_error = GroupNotFound str | UnknownMember str str | HostNotFound str

fun resolve_members :: "(str \<rightharpoonup> host_entry) \<Rightarrow> str \<Rightarrow> str list \<Rightarrow> inventory_error + host_entry list" where
  "resolve_members hosts grp [] = Inr []"
| "resolve_members hosts grp (h # hs) = (case hosts h of
     None \<Rightarrow> Inl (UnknownMember grp h)
   | Some e \<Rightarrow> (case resolve_members hosts grp hs of Inl err \<Rightarrow> Inl err | Inr es \<Rightarrow> Inr (e # es)))"

definition resolve_pattern ::
  "(str \<rightharpoonup> str list) \<Rightarrow> (str \<rightharpoonup> host_entry) \<Rightarrow> str \<Rightarrow> inventory_error + host_entry list" where
  "resolve_pattern groups hosts pat =
     (if prefix ''@'' pat then
        (case groups (tl pat) of None \<Rightarrow> Inl (GroupNotFound (tl pat))
         | Some members \<Rightarrow> resolve_members hosts (tl pat) members)
      else case hosts pat of None \<Rightarrow> Inl (HostNotFound pat) | Some e \<Rightarrow> Inr [e])"

section \<open>The ssh process\<close>

record remote_command =
  rc_program :: str
  rc_args :: "str list"

definition shell_escape :: "str \<Rightarrow> str" where
  "shell_escape s = CHR 0x27 #
     concat (map (\<lambda>c. if c = CHR 0x27 then [CHR 0x27, CHR 0x5C, CHR 0x27, CHR 0x27] else [c]) s) @ [CHR 0x27]"

definition ssh_args :: "str \<Rightarrow> host_entry \<Rightarrow> remote_command \<Rightarrow> str list" where
  "ssh_args batch_id hst cmd =
     [''-o'', ''BatchMode=yes'', ''-o'', ''ForwardAgent=no'',
      ''-o'', ''ConnectTimeout='' @ dec (he_connect_timeout_secs hst),
      ''-o'', ''StrictHostKeyChecking='' @ (case he_host_key_check hst of Strict \<Rightarrow> ''yes'' | AcceptNew \<Rightarrow> ''accept-new''),
      ''-o'', ''ControlMaster=auto'',
      ''-o'', ''ControlPath=/tmp/aic-cm-'' @ batch_id @ ''-%C'',
      ''-o'', ''ControlPersist=60s'', ''-p'', dec (he_port hst)] @
     (case he_proxy_jump hst of None \<Rightarrow> [] | Some pj \<Rightarrow> [''-J'', pj]) @
     (case he_identity_file hst of None \<Rightarrow> [] | Some f \<Rightarrow> [''-i'', f]) @
     [he_user hst @ ''@'' @ he_hostname hst, ''--'', rc_program cmd] @ map shell_escape (rc_args cmd)"

datatype host_status = StatusOk | OkWithWarn | Unreachable | Timeout | AuthFail | ProxyFail | RemoteErr | HostKeyMismatch

fun status_severity :: "host_status \<Rightarrow> nat" where
  "status_severity HostKeyMismatch = 90"
| "status_severity AuthFail = 70"
| "status_severity ProxyFail = 60"
| "status_severity Timeout = 50"
| "status_severity Unreachable = 40"
| "status_severity RemoteErr = 30"
| "status_severity OkWithWarn = 10"
| "status_severity StatusOk = 0"

definition stderr_has_warning :: "(str \<Rightarrow> str) \<Rightarrow> str \<Rightarrow> bool" where
  "stderr_has_warning lower s = (let l = lower s in
     contains l ''warning'' \<or> contains l ''warn:'' \<or> contains l ''notice:'')"

definition any_in :: "str \<Rightarrow> str list \<Rightarrow> bool" where
  "any_in l pats = (\<exists>p\<in>set pats. contains l p)"

definition classify_ssh_result :: "(str \<Rightarrow> str) \<Rightarrow> int \<Rightarrow> str \<Rightarrow> u64 \<Rightarrow> u64 \<Rightarrow> host_status" where
  "classify_ssh_result lower exit_code stderr duration_ms connect_timeout_ms =
     (if exit_code = 0 then (if stderr_has_warning lower stderr then OkWithWarn else StatusOk)
      else let l = lower stderr in
        if exit_code = 255 then
          (if contains l ''host key'' \<and> (contains l ''changed'' \<or> contains l ''verification failed'')
           then HostKeyMismatch
           else if any_in l [''jump host'', ''bastion''] then ProxyFail
           else if any_in l [''permission denied'', ''publickey'', ''gssapi'', ''kerberos'',
             ''keyboard-interactive'', ''too many authentication failures''] then AuthFail
           else if any_in l [''channel'', ''open failed''] then RemoteErr
           else if any_in l [''operation timed out'', ''connection timed out''] then Unreachable
           else if any_in l [''connect to host'', ''connection refused'', ''no route to host'',
             ''network is unreachable'', ''name or service not known''] then Unreachable
           else if duration_ms \<le> sat_add64 connect_timeout_ms 500 then Unreachable
           else RemoteErr)
        else RemoteErr)"

record remote_result =
  rr_host :: str
  rr_stdout :: str
  rr_stderr :: str
  rr_exit_code :: int
  rr_duration_ms :: u64
  rr_status :: host_status
  rr_truncated :: bool
  rr_redacted :: nat

definition remote_max_stdout_bytes :: nat where
  "remote_max_stdout_bytes = 64 * 1024"

definition remote_max_drain_bytes :: nat where
  "remote_max_drain_bytes = 8 * 1024 * 1024"

text \<open>The reads of one pipe: chunks until the end (an empty one), or an error.\<close>

datatype pipe_event = Data bytes | PipeError

fun bounded_read_loop :: "bytes \<Rightarrow> nat \<Rightarrow> bool \<Rightarrow> pipe_event list \<Rightarrow> (bytes \<times> bool) option" where
  "bounded_read_loop buf drained truncated [] = Some (buf, truncated)"
| "bounded_read_loop buf drained truncated (PipeError # es) = None"
| "bounded_read_loop buf drained truncated (Data chunk # es) =
     (let n = length chunk in
      if n = 0 then Some (buf, truncated)
      else if length buf < remote_max_stdout_bytes then
        (let taken = min (remote_max_stdout_bytes - length buf) n;
             buf' = buf @ take taken chunk
         in if taken < n then
              (if remote_max_drain_bytes < drained + (n - taken) then Some (buf', True)
               else bounded_read_loop buf' (drained + (n - taken)) True es)
            else bounded_read_loop buf' drained truncated es)
      else if remote_max_drain_bytes < drained + n then Some (buf, True)
      else bounded_read_loop buf (drained + n) True es)"

definition bounded_read :: "pipe_event list \<Rightarrow> (str \<times> bool) option" where
  "bounded_read es = map_option (\<lambda>(buf, t). (from_utf8_lossy buf, t)) (bounded_read_loop [] 0 False es)"

text \<open>How a run of the process ended: not started, cut by the host's timeout, or with both pipes and an exit code.\<close>

datatype ssh_run = SpawnFailure str | Elapsed | Finished "pipe_event list" "pipe_event list" "int option"

record ssh_env =
  se_lower :: "str \<Rightarrow> str"
  se_redact :: "str \<Rightarrow> str \<times> nat"
  se_timeout_secs :: nat
  se_duration :: "host_entry \<Rightarrow> u64"
  se_run :: "host_entry \<Rightarrow> str list \<Rightarrow> ssh_run"
  se_batch_id :: str

definition failed_result :: "host_entry \<Rightarrow> str \<Rightarrow> u64 \<Rightarrow> host_status \<Rightarrow> remote_result" where
  "failed_result hst msg dur st =
     \<lparr>rr_host = he_name hst, rr_stdout = [], rr_stderr = msg, rr_exit_code = -1, rr_duration_ms = dur,
      rr_status = st, rr_truncated = False, rr_redacted = 0\<rparr>"

definition unwrap_read :: "(str \<times> bool) option \<Rightarrow> str \<times> bool" where
  "unwrap_read r = (case r of None \<Rightarrow> ([], False) | Some p \<Rightarrow> p)"

definition ssh_exec :: "ssh_env \<Rightarrow> remote_command \<Rightarrow> host_entry \<Rightarrow> remote_result" where
  "ssh_exec env cmd hst =
     (let connect_timeout_ms = of_nat (he_connect_timeout_secs hst * 1000);
          dur = se_duration env hst
      in case se_run env hst (ssh_args (se_batch_id env) hst cmd) of
           SpawnFailure e \<Rightarrow> failed_result hst (''ssh spawn failed: '' @ e) dur RemoteErr
         | Elapsed \<Rightarrow> failed_result hst
             (''per-host command timeout ('' @ dec (se_timeout_secs env) @ ''s)'') dur Timeout
         | Finished out errs code \<Rightarrow>
             (let (stdout_raw, stdout_truncated) = unwrap_read (bounded_read out);
                  (stderr_raw, stderr_truncated) = unwrap_read (bounded_read errs);
                  exit_code = (case code of None \<Rightarrow> -1 | Some c \<Rightarrow> c);
                  (stdout, redact_out) = se_redact env stdout_raw;
                  (stderr, redact_err) = se_redact env stderr_raw
              in \<lparr>rr_host = he_name hst, rr_stdout = stdout, rr_stderr = stderr, rr_exit_code = exit_code,
                  rr_duration_ms = dur,
                  rr_status = classify_ssh_result (se_lower env) exit_code stderr_raw dur connect_timeout_ms,
                  rr_truncated = (stdout_truncated \<or> stderr_truncated), rr_redacted = redact_out + redact_err\<rparr>))"

section \<open>Quoting keeps arguments whole\<close>

text \<open>
  How a POSIX shell reads a line that is one simple command of literal words, after the section on quoting of
  the standard: between single quotes every byte stands for itself, a backslash outside them takes the next byte
  literally, blanks outside them end a word. The reader gives up on everything else: an open quote, a line
  continuation, any character that outside quotes starts an operator, an expansion, a comment, an assignment or
  the other kind of quotes, and a reserved word in the place of the command. It is written without regard to the
  quoting function and to the tokenizer of the risk guard.
\<close>

definition posix_active :: "u8 \<Rightarrow> bool" where
  "posix_active c \<longleftrightarrow> c \<in> set ''|&;<>()$*?[]#~=%!{}^'' \<or> c \<in> {CHR 0x60, CHR 0x22, CHR 0x0A, CHR 0x0D, CHR 0x00}"

definition word_so_far :: "str option \<Rightarrow> str" where
  "word_so_far cur = (case cur of None \<Rightarrow> [] | Some w \<Rightarrow> w)"

fun posix_scan :: "bool \<Rightarrow> str option \<Rightarrow> str \<Rightarrow> str list option" where
  "posix_scan quoted cur [] = (if quoted then None else Some (case cur of None \<Rightarrow> [] | Some w \<Rightarrow> [w]))"
| "posix_scan quoted cur (c # r) =
     (if quoted then
        (if c = CHR 0x00 then None
         else if c = CHR 0x27 then posix_scan False (Some (word_so_far cur)) r
         else posix_scan True (Some (word_so_far cur @ [c])) r)
      else if c = CHR 0x27 then posix_scan True (Some (word_so_far cur)) r
      else if c = CHR 0x5C then
        (case r of [] \<Rightarrow> None
         | d # r' \<Rightarrow> if d = CHR 0x0A \<or> d = CHR 0x00 then None else posix_scan False (Some (word_so_far cur @ [d])) r')
      else if c = CHR 0x20 \<or> c = CHR 0x09 then
        (case cur of None \<Rightarrow> posix_scan False None r | Some w \<Rightarrow> map_option (Cons w) (posix_scan False None r))
      else if posix_active c then None
      else posix_scan False (Some (word_so_far cur @ [c])) r)"

definition posix_reserved :: "str list" where
  "posix_reserved = [''case'', ''do'', ''done'', ''elif'', ''else'', ''esac'', ''fi'', ''for'', ''if'', ''in'', ''then'', ''until'', ''while'',
     ''function'', ''select'', ''time'', ''coproc'']"

definition posix_command :: "str \<Rightarrow> str list option" where
  "posix_command line = (case posix_scan False None line of
     Some (p # args) \<Rightarrow> if p \<in> set posix_reserved then None else Some (p # args) | _ \<Rightarrow> None)"

text \<open>The program is not quoted, so it has to be a word that needs no quotes.\<close>

definition needs_no_quotes :: "u8 \<Rightarrow> bool" where
  "needs_no_quotes c \<longleftrightarrow> c \<notin> {CHR 0x27, CHR 0x5C, CHR 0x20, CHR 0x09} \<and> \<not> posix_active c"

definition plain_program :: "str \<Rightarrow> bool" where
  "plain_program w \<longleftrightarrow> w \<noteq> [] \<and> list_all needs_no_quotes w \<and> w \<notin> set posix_reserved"

definition no_nul :: "str \<Rightarrow> bool" where
  "no_nul a \<longleftrightarrow> CHR 0x00 \<notin> set a"

definition escape_body :: "str \<Rightarrow> str" where
  "escape_body s = concat (map (\<lambda>c. if c = CHR 0x27 then [CHR 0x27, CHR 0x5C, CHR 0x27, CHR 0x27] else [c]) s)"

lemma shell_escape_body: "shell_escape s = CHR 0x27 # escape_body s @ [CHR 0x27]"
  by (simp add: shell_escape_def escape_body_def)

lemma scan_escape_body:
  "no_nul s \<Longrightarrow> posix_scan True (Some w) (escape_body s @ CHR 0x27 # r) = posix_scan False (Some (w @ s)) r"
proof (induction s arbitrary: w)
  case (Cons c s)
  then show ?case by (cases "c = CHR 0x27") (auto simp: escape_body_def no_nul_def word_so_far_def)
qed (simp add: escape_body_def word_so_far_def)

lemma scan_args:
  "list_all no_nul args \<Longrightarrow> posix_scan False (Some w) (concat (map (\<lambda>a. CHR 0x20 # shell_escape a) args)) = Some (w # args)"
  by (induction args arbitrary: w) (simp_all add: shell_escape_body scan_escape_body word_so_far_def)

lemma scan_plain:
  "list_all needs_no_quotes v \<Longrightarrow> posix_scan False (Some w) (v @ r) = posix_scan False (Some (w @ v)) r"
  by (induction v arbitrary: w) (simp_all add: needs_no_quotes_def word_so_far_def)

lemma join_escaped:
  "join_with [CHR 0x20] (p # map shell_escape args) = p @ concat (map (\<lambda>a. CHR 0x20 # shell_escape a) args)"
  by (induction args arbitrary: p) simp_all

lemma posix_command_escaped:
  assumes "plain_program p" and "list_all no_nul args"
  shows "posix_command (join_with [CHR 0x20] (p # map shell_escape args)) = Some (p # args)"
proof -
  obtain c w where p: "p = c # w" using assms(1) by (cases p) (simp_all add: plain_program_def)
  then have cw: "needs_no_quotes c" "list_all needs_no_quotes w" "p \<notin> set posix_reserved" using assms(1) by (auto simp: plain_program_def)
  from cw(1) scan_plain [OF cw(2), of "[c]" "concat (map (\<lambda>a. CHR 0x20 # shell_escape a) args)"] scan_args [OF assms(2), of p]
  have "posix_scan False None (p @ concat (map (\<lambda>a. CHR 0x20 # shell_escape a) args)) = Some (p # args)"
    by (simp add: p needs_no_quotes_def word_so_far_def)
  with cw(3) show ?thesis unfolding join_escaped posix_command_def by simp
qed

text \<open>
  C34 (roundtrip). The ssh process is given the destination, a double dash and words that ssh joins with spaces; a
  POSIX shell that reads the joined line gets one simple command with exactly the program and the arguments of the
  caller, whatever quotes, separators, expansions or other bytes an argument holds (only the zero byte is excluded, which
  no process argument can hold). The program itself is sent unquoted: it must be a word that is no reserved word
  and has no character with a meaning to the shell.
\<close>

theorem remote_line_round_trip:
  assumes "plain_program (rc_program cmd)" and "list_all no_nul (rc_args cmd)"
  shows "\<exists>opts sent. ssh_args batch_id hst cmd = opts @ [he_user hst @ ''@'' @ he_hostname hst, ''--''] @ sent \<and>
    posix_command (join_with [CHR 0x20] sent) = Some (rc_program cmd # rc_args cmd)"
proof -
  have "\<exists>opts. xs @ ys @ zs @ [d, e, p] @ m = opts @ [d, e] @ p # m" for xs ys zs m :: "str list" and d e p
    by (rule exI [of _ "xs @ ys @ zs"]) simp
  then obtain opts where "ssh_args batch_id hst cmd =
      opts @ [he_user hst @ ''@'' @ he_hostname hst, ''--''] @ rc_program cmd # map shell_escape (rc_args cmd)"
    unfolding ssh_args_def by blast
  with posix_command_escaped [OF assms] show ?thesis by blast
qed

definition quoting_command :: remote_command where
  "quoting_command = \<lparr>rc_program = ''cat'', rc_args = [''a'' @ [CHR 0x27] @ ''; rm -rf $x'']\<rparr>"

theorem remote_line_round_trip_witness:
  "\<exists>opts sent. ssh_args ''b'' (ad_hoc_entry ''u'' ''h'' 22) quoting_command = opts @ [''u@h'', ''--''] @ sent \<and>
     posix_command (join_with [CHR 0x20] sent) = Some [''cat'', ''a'' @ [CHR 0x27] @ ''; rm -rf $x'']"
proof -
  have ok: "plain_program (rc_program quoting_command)" "list_all no_nul (rc_args quoting_command)"
    by (simp_all add: quoting_command_def plain_program_def needs_no_quotes_def posix_active_def posix_reserved_def no_nul_def)
  have "he_user (ad_hoc_entry ''u'' ''h'' 22) @ ''@'' @ he_hostname (ad_hoc_entry ''u'' ''h'' 22) = ''u@h''"
    "rc_program quoting_command # rc_args quoting_command = [''cat'', ''a'' @ [CHR 0x27] @ ''; rm -rf $x'']"
    by (simp_all add: ad_hoc_entry_def quoting_command_def)
  from remote_line_round_trip [OF ok, of "''b''" "ad_hoc_entry ''u'' ''h'' 22", unfolded this] show ?thesis .
qed

section \<open>Destinations that are options\<close>

text \<open>
  Further property (error). A host given on the command line is not checked for a leading dash: the destination
  argument of the ssh process is the text as given, and the separator that ends option parsing comes
  after it, so ssh reads it as an option.
\<close>

theorem ad_hoc_host_becomes_option:
  "\<exists>h before after. parse_ad_hoc ''me'' ''-oProxyCommand=x@y'' = Some h \<and>
     ssh_args b h cmd = before @ [''-oProxyCommand=x@y'', ''--''] @ after \<and> ''--'' \<notin> set before"
proof -
  have p: "parse_ad_hoc ''me'' ''-oProxyCommand=x@y'' = Some (ad_hoc_entry ''-oProxyCommand=x'' ''y'' 22)"
    by (simp add: parse_ad_hoc_def split_once_def rsplit_once_def)
  let ?args = "ssh_args b (ad_hoc_entry ''-oProxyCommand=x'' ''y'' 22) cmd"
  have "?args = take 16 ?args @ [''-oProxyCommand=x@y'', ''--''] @ drop 18 ?args"
    by (simp add: ssh_args_def ad_hoc_entry_def del: dec.simps)
  moreover have "dec 22 \<noteq> ''--''" using dec_hd [of 22] by (auto simp del: dec.simps)
  then have "''--'' \<notin> set (take 16 ?args)" by (simp add: ssh_args_def ad_hoc_entry_def del: dec.simps)
  ultimately show ?thesis using p by blast
qed

end
