(* ===== verification/Fanout.thy ===== *)
theory Fanout
  imports Remote_Exec
begin

text \<open>
  The fan-out of one command over many hosts (\<open>aic-client/src/agent/remote/fanout.rs\<close>): every host is
  a task that waits for a permit of the semaphore, runs and delivers its result; the loop collects
  results until all are in or the wall clock runs out. The interface to the executor (the trait
  \<open>RemoteExecutor\<close>) is a locale, interpreted on the ssh executor.
\<close>

section \<open>State and steps\<close>

record fan =
  fn_waiting :: "host_entry list"
  fn_running :: "host_entry list"
  fn_results :: "remote_result list"
  fn_timed_out :: bool
  fn_over :: bool

definition fan_start :: "host_entry list \<Rightarrow> fan" where
  "fan_start hosts = \<lparr>fn_waiting = hosts, fn_running = [], fn_results = [], fn_timed_out = False,
     fn_over = (hosts = [])\<rparr>"

definition fan_cap :: "nat \<Rightarrow> nat" where
  "fan_cap max_parallel = max max_parallel 1"

inductive fan_step :: "nat \<Rightarrow> (host_entry \<Rightarrow> remote_result) \<Rightarrow> fan \<Rightarrow> fan \<Rightarrow> bool" for cap exec where
  acquire: "\<not> fn_over s \<Longrightarrow> fn_waiting s = ws @ h # ws' \<Longrightarrow> length (fn_running s) < cap \<Longrightarrow>
    fan_step cap exec s (s\<lparr>fn_waiting := ws @ ws', fn_running := fn_running s @ [h]\<rparr>)"
| deliver: "\<not> fn_over s \<Longrightarrow> fn_running s = rs @ h # rs' \<Longrightarrow>
    fan_step cap exec s (s\<lparr>fn_running := rs @ rs', fn_results := fn_results s @ [exec h]\<rparr>)"
| wall_clock: "\<not> fn_over s \<Longrightarrow> fn_waiting s @ fn_running s \<noteq> [] \<Longrightarrow>
    fan_step cap exec s (s\<lparr>fn_timed_out := True, fn_over := True\<rparr>)"
| all_done: "\<not> fn_over s \<Longrightarrow> fn_waiting s = [] \<Longrightarrow> fn_running s = [] \<Longrightarrow>
    fan_step cap exec s (s\<lparr>fn_over := True\<rparr>)"

inductive_cases fan_stepE: "fan_step cap exec s t"

record fanout_result =
  fr_results :: "remote_result list"
  fr_wall_timed_out :: bool
  fr_incomplete :: "str list"

definition fan_result :: "host_entry list \<Rightarrow> fan \<Rightarrow> fanout_result" where
  "fan_result hosts s =
     \<lparr>fr_results = fn_results s, fr_wall_timed_out = fn_timed_out s,
      fr_incomplete = (if fn_timed_out s
        then filter (\<lambda>n. n \<notin> set (map rr_host (fn_results s))) (map he_name hosts) else [])\<rparr>"

record status_counts =
  sc_ok :: nat
  sc_ok_warn :: nat
  sc_unreachable :: nat
  sc_timeout :: nat
  sc_auth_fail :: nat
  sc_proxy_fail :: nat
  sc_remote_err :: nat
  sc_host_key_mismatch :: nat
  sc_cancelled :: nat

definition count_status :: "status_counts \<Rightarrow> remote_result \<Rightarrow> status_counts" where
  "count_status c r = (case rr_status r of
     StatusOk \<Rightarrow> c\<lparr>sc_ok := sc_ok c + 1\<rparr>
   | OkWithWarn \<Rightarrow> c\<lparr>sc_ok_warn := sc_ok_warn c + 1\<rparr>
   | Unreachable \<Rightarrow> c\<lparr>sc_unreachable := sc_unreachable c + 1\<rparr>
   | Timeout \<Rightarrow> c\<lparr>sc_timeout := sc_timeout c + 1\<rparr>
   | AuthFail \<Rightarrow> c\<lparr>sc_auth_fail := sc_auth_fail c + 1\<rparr>
   | ProxyFail \<Rightarrow> c\<lparr>sc_proxy_fail := sc_proxy_fail c + 1\<rparr>
   | RemoteErr \<Rightarrow> c\<lparr>sc_remote_err := sc_remote_err c + 1\<rparr>
   | HostKeyMismatch \<Rightarrow> c\<lparr>sc_host_key_mismatch := sc_host_key_mismatch c + 1\<rparr>)"

definition zero_counts :: status_counts where
  "zero_counts = \<lparr>sc_ok = 0, sc_ok_warn = 0, sc_unreachable = 0, sc_timeout = 0, sc_auth_fail = 0,
     sc_proxy_fail = 0, sc_remote_err = 0, sc_host_key_mismatch = 0, sc_cancelled = 0\<rparr>"

definition fan_counts :: "fanout_result \<Rightarrow> status_counts" where
  "fan_counts r = (foldl count_status zero_counts (fr_results r))\<lparr>sc_cancelled := length (fr_incomplete r)\<rparr>"

definition counts_total :: "status_counts \<Rightarrow> nat" where
  "counts_total c = sc_ok c + sc_ok_warn c + sc_unreachable c + sc_timeout c + sc_auth_fail c +
     sc_proxy_fail c + sc_remote_err c + sc_host_key_mismatch c + sc_cancelled c"

lemma counts_total_results:
  "counts_total (foldl count_status c rs) = counts_total c + length rs"
  by (induction rs arbitrary: c) (auto simp: counts_total_def count_status_def split: host_status.splits)

lemma sc_cancelled_foldl [simp]: "sc_cancelled (foldl count_status c rs) = sc_cancelled c"
  by (induction rs arbitrary: c) (auto simp: count_status_def split: host_status.splits)

lemma fan_counts_total: "counts_total (fan_counts r) = length (fr_results r) + length (fr_incomplete r)"
  using counts_total_results [of zero_counts "fr_results r"] sc_cancelled_foldl [of zero_counts "fr_results r"]
  by (simp add: fan_counts_def counts_total_def zero_counts_def)

section \<open>What an executor promises, and what the fan-out makes of it\<close>

locale remote_executor =
  fixes exec :: "host_entry \<Rightarrow> remote_result"
  assumes exec_host: "rr_host (exec h) = he_name h"
begin

definition accounted :: "nat \<Rightarrow> host_entry list \<Rightarrow> fan \<Rightarrow> bool" where
  "accounted cap hosts s \<longleftrightarrow> length (fn_running s) \<le> cap \<and>
     (\<exists>finished. mset hosts = mset (fn_waiting s) + mset (fn_running s) + mset finished \<and>
        fn_results s = map exec finished) \<and>
     (fn_over s \<and> \<not> fn_timed_out s \<longrightarrow> fn_waiting s = [] \<and> fn_running s = [])"

lemma accounted_start: "accounted cap hosts (fan_start hosts)"
  by (auto simp: accounted_def fan_start_def)

lemma accounted_step:
  assumes "fan_step cap exec s t" and "accounted cap hosts s"
  shows "accounted cap hosts t"
proof -
  obtain finished where fin: "mset hosts = mset (fn_waiting s) + mset (fn_running s) + mset finished"
    "fn_results s = map exec finished"
    using assms(2) by (auto simp: accounted_def)
  show ?thesis using assms(1)
  proof cases
    case (deliver rs h rs')
    then show ?thesis using assms(2) fin
      by (auto simp: accounted_def intro!: exI [of _ "finished @ [h]"])
  qed (use assms(2) fin in \<open>auto simp: accounted_def\<close>)
qed

lemma accounted_reachable:
  "(fan_step cap exec)\<^sup>*\<^sup>* (fan_start hosts) s \<Longrightarrow> accounted cap hosts s"
  by (induction rule: rtranclp_induct) (auto intro: accounted_start accounted_step)

lemma finished_hosts:
  assumes "accounted cap hosts s" and "distinct (map he_name hosts)"
  shows "distinct (map rr_host (fn_results s)) \<and> set (map rr_host (fn_results s)) \<subseteq> set (map he_name hosts)"
proof -
  obtain finished where fin: "mset hosts = mset (fn_waiting s) + mset (fn_running s) + mset finished"
    "fn_results s = map exec finished"
    using assms(1) by (auto simp: accounted_def)
  have names: "map rr_host (fn_results s) = map he_name finished" by (simp add: fin(2) exec_host)
  have "mset (map he_name (fn_waiting s @ fn_running s @ finished)) = mset (map he_name hosts)"
    using fin(1) by simp
  then have "distinct (map he_name (fn_waiting s @ fn_running s @ finished))"
    "set (map he_name (fn_waiting s @ fn_running s @ finished)) = set (map he_name hosts)"
    using assms(2) mset_eq_imp_distinct_iff mset_eq_setD by blast+
  then show ?thesis unfolding names by auto
qed

lemma every_host_once:
  assumes "(fan_step cap exec)\<^sup>*\<^sup>* (fan_start hosts) s" and "fn_over s" and "distinct (map he_name hosts)"
  shows "mset (map rr_host (fr_results (fan_result hosts s))) + mset (fr_incomplete (fan_result hosts s)) =
    mset (map he_name hosts)"
proof -
  have acc: "accounted cap hosts s" by (rule accounted_reachable [OF assms(1)])
  let ?done = "map rr_host (fn_results s)" and ?names = "map he_name hosts"
  have fin: "distinct ?done" "set ?done \<subseteq> set ?names" using finished_hosts [OF acc assms(3)] by auto
  show ?thesis
  proof (cases "fn_timed_out s")
    case True
    let ?rest = "filter (\<lambda>n. n \<notin> set ?done) ?names"
    have "distinct (?done @ ?rest)" using fin(1) assms(3) by (auto simp del: set_map)
    moreover have "set (?done @ ?rest) = set ?names" using fin(2) by (auto simp del: set_map)
    ultimately have "mset (?done @ ?rest) = mset ?names"
      using set_eq_iff_mset_eq_distinct assms(3) by blast
    then show ?thesis using True by (simp add: fan_result_def)
  next
    case False
    obtain finished where "mset hosts = mset (fn_waiting s) + mset (fn_running s) + mset finished"
      "fn_results s = map exec finished"
      using acc by (auto simp: accounted_def)
    moreover have "fn_waiting s = []" "fn_running s = []" using acc assms(2) False by (auto simp: accounted_def)
    ultimately have "mset (map he_name hosts) = mset (map he_name finished)" by simp
    then show ?thesis using False \<open>fn_results s = map exec finished\<close>
      by (simp add: fan_result_def exec_host comp_def)
  qed
qed

end

interpretation ssh: remote_executor "ssh_exec env cmd" for env cmd
  by unfold_locales (auto simp: ssh_exec_def failed_result_def Let_def split: ssh_run.splits prod.splits)

text \<open>
  C27 (invariant). However the hosts' tasks interleave and whenever the wall clock cuts them off, a
  finished fan-out over hosts with distinct names reports every host exactly once, as a result or as
  incomplete, so the counts of its header add up to the number of hosts.
\<close>

theorem fanout_reports_every_host:
  assumes "(fan_step cap (ssh_exec env cmd))\<^sup>*\<^sup>* (fan_start hosts) s" and "fn_over s"
    and "distinct (map he_name hosts)"
  shows "mset (map rr_host (fr_results (fan_result hosts s))) + mset (fr_incomplete (fan_result hosts s)) =
      mset (map he_name hosts) \<and>
    counts_total (fan_counts (fan_result hosts s)) = length hosts"
proof -
  have once: "mset (map rr_host (fr_results (fan_result hosts s))) + mset (fr_incomplete (fan_result hosts s)) =
      mset (map he_name hosts)"
    by (rule ssh.every_host_once [OF assms])
  then have "length (fr_results (fan_result hosts s)) + length (fr_incomplete (fan_result hosts s)) = length hosts"
    by (metis length_map size_mset size_union)
  then show ?thesis using once by (simp add: fan_counts_total)
qed

definition silent_env :: ssh_env where
  "silent_env = \<lparr>se_lower = to_ascii_lowercase, se_redact = (\<lambda>s. (s, 0)), se_timeout_secs = 30,
     se_duration = (\<lambda>_. 0), se_run = (\<lambda>_ _. Elapsed), se_batch_id = ''b''\<rparr>"

definition web_host :: host_entry where
  "web_host = (ad_hoc_entry ''u'' ''web'' 22)\<lparr>he_name := ''web''\<rparr>"

theorem fanout_reports_every_host_witness:
  "counts_total (fan_counts (fan_result [web_host] ((fan_start [web_host])\<lparr>fn_timed_out := True, fn_over := True\<rparr>))) = 1"
proof -
  let ?s = "(fan_start [web_host])\<lparr>fn_timed_out := True, fn_over := True\<rparr>"
  have "fan_step 1 (ssh_exec silent_env \<lparr>rc_program = ''df'', rc_args = []\<rparr>) (fan_start [web_host]) ?s"
    by (rule fan_step.wall_clock) (simp_all add: fan_start_def)
  from fanout_reports_every_host [OF r_into_rtranclp, OF this] show ?thesis by simp
qed

lemma fan_over_final: "fn_over s \<Longrightarrow> \<not> fan_step cap exec s t"
  by (auto elim: fan_stepE)

definition fan_left :: "fan \<Rightarrow> nat" where
  "fan_left s = (if fn_over s then 0 else Suc (2 * length (fn_waiting s) + length (fn_running s)))"

lemma fan_step_left: "fan_step cap exec s t \<Longrightarrow> fan_left t < fan_left s"
  by (auto elim!: fan_stepE simp: fan_left_def)

lemma fan_run_length: "(fan_step cap exec ^^ n) s t \<Longrightarrow> n + fan_left t \<le> fan_left s"
  by (induction n arbitrary: t) (auto dest!: fan_step_left, fastforce)

text \<open>
  Further property (liveness). A fan-out always gets to its end: while it is not over some task can proceed, because
  the semaphore has at least one permit even when the configuration asks for none; and no run of it,
  whatever the order of its steps, has more than twice as many steps as hosts, and one.
\<close>

theorem fanout_progresses_and_ends:
  "(fn_over s \<or> (\<exists>t. fan_step (fan_cap n) exec s t \<and> fn_timed_out t = fn_timed_out s)) \<and>
   \<not> (fan_step (fan_cap n) exec ^^ (2 * length hosts + 2)) (fan_start hosts) s"
proof
  show "fn_over s \<or> (\<exists>t. fan_step (fan_cap n) exec s t \<and> fn_timed_out t = fn_timed_out s)"
  proof (cases "fn_over s")
    case False
    show ?thesis
    proof (cases "fn_running s")
      case Nil
      show ?thesis
      proof (cases "fn_waiting s")
        case Nil
        then show ?thesis using fan_step.all_done [OF False] \<open>fn_running s = []\<close> by force
      next
        case (Cons h ws)
        then show ?thesis
          using fan_step.acquire [OF False, of "[]" h ws "fan_cap n"] \<open>fn_running s = []\<close> by (force simp: fan_cap_def)
      qed
    next
      case (Cons h rs)
      then show ?thesis using fan_step.deliver [OF False, of "[]" h rs] by force
    qed
  qed simp
  show "\<not> (fan_step (fan_cap n) exec ^^ (2 * length hosts + 2)) (fan_start hosts) s"
  proof
    assume "(fan_step (fan_cap n) exec ^^ (2 * length hosts + 2)) (fan_start hosts) s"
    then show False using fan_run_length [of "2 * length hosts + 2" "fan_cap n" exec "fan_start hosts" s]
      by (auto simp: fan_left_def fan_start_def split: if_splits)
  qed
qed

end
