(* ===== verification/Audit_Log.thy ===== *)
theory Audit_Log
  imports Rust_Words "HOL-Library.Countable"
begin

text \<open>
  The audit log of the client (\<open>aic-client/src/audit.rs\<close>): one JSON line per event, each with the keyed
  hash of its fields and of the previous line's hash. The log file is its bytes (\<open>None\<close> when it does
  not exist). Parameters are the JSON codec (\<open>serde_json\<close>), HMAC-SHA256 (crates \<open>hmac\<close> and \<open>sha2\<close>), the
  rendering of a time stamp (\<open>chrono\<close>), the key store of the operating system and the random source.
\<close>

section \<open>Events and hashes\<close>

record 'j audit_event =
  ae_seq :: u64
  ae_ts :: datetime
  ae_kind :: str
  ae_data :: 'j
  ae_prev_hash :: str
  ae_line_hash :: str

record 'j audit_env =
  en_to_line :: "'j audit_event \<Rightarrow> str"
  en_from_line :: "str \<Rightarrow> 'j audit_event option"
  en_data_text :: "'j \<Rightarrow> str"
  en_ts_text :: "datetime \<Rightarrow> str"
  en_mac :: "bytes \<Rightarrow> bytes \<Rightarrow> bytes"

definition genesis_hash :: str where
  "genesis_hash = replicate 64 (CHR ''0'')"

definition hex_encode :: "bytes \<Rightarrow> str" where
  "hex_encode bs = concat (map (\<lambda>b. hex_pad 2 (byte_val b)) bs)"

definition hash_message :: "'j audit_env \<Rightarrow> u64 \<Rightarrow> datetime \<Rightarrow> str \<Rightarrow> 'j \<Rightarrow> str \<Rightarrow> bytes" where
  "hash_message env seq ts kind data prev_hash =
     dec (unat seq) @ ''|'' @ en_ts_text env ts @ ''|'' @ kind @ ''|'' @ en_data_text env data @ ''|'' @ prev_hash"

definition compute_hash :: "'j audit_env \<Rightarrow> bytes \<Rightarrow> u64 \<Rightarrow> datetime \<Rightarrow> str \<Rightarrow> 'j \<Rightarrow> str \<Rightarrow> str" where
  "compute_hash env key seq ts kind data prev_hash =
     hex_encode (en_mac env key (hash_message env seq ts kind data prev_hash))"

definition event_hash :: "'j audit_env \<Rightarrow> bytes \<Rightarrow> 'j audit_event \<Rightarrow> str" where
  "event_hash env key e = compute_hash env key (ae_seq e) (ae_ts e) (ae_kind e) (ae_data e) (ae_prev_hash e)"

section \<open>The key\<close>

text \<open>What the key store, the key file and the random source hold, and whether a store succeeds.\<close>

record key_env =
  ke_keychain :: "str option"
  ke_store_ok :: bool
  ke_file :: "bytes option"
  ke_dir_ok :: bool
  ke_random :: "bytes option"
  ke_write_ok :: bool

datatype key_error = NoKeyForChain | KeyDirFailed | RandomFailed | KeyWriteFailed

record key_effects =
  kf_keychain :: "str option"
  kf_file :: "bytes option"

definition no_effects :: key_effects where
  "no_effects = \<lparr>kf_keychain = None, kf_file = None\<rparr>"

text \<open>
  Pairs of a text parsed as hexadecimal bytes. The slice of a pair panics when it does not end at a
  character boundary; the first pair that is no number ends the walk.
\<close>

fun hex_pairs :: "str \<Rightarrow> bytes option rs" where
  "hex_pairs (a # b # r) =
     (if is_cont (byte_val a) \<or> (r \<noteq> [] \<and> is_cont (byte_val (hd r))) then Panic
      else case parse_unsigned 255 16 [a, b] of
        None \<Rightarrow> Val None
      | Some n \<Rightarrow> rs_bind (hex_pairs r) (\<lambda>bs. Val (map_option (Cons (byte_of n)) bs)))"
| "hex_pairs [] = Val (Some [])"
| "hex_pairs [a] = Val None"

definition decode_hex :: "str \<Rightarrow> bytes option rs" where
  "decode_hex s = (let t = trim s in if odd (length t) \<or> t = [] then Val None else hex_pairs t)"

definition create_key :: "key_env \<Rightarrow> bool \<Rightarrow> (key_error + bytes) \<times> key_effects" where
  "create_key k use_keychain = (if \<not> ke_dir_ok k then (Inl KeyDirFailed, no_effects) else case ke_random k of
     None \<Rightarrow> (Inl RandomFailed, no_effects)
   | Some key \<Rightarrow>
       if use_keychain \<and> ke_store_ok k then (Inr key, no_effects\<lparr>kf_keychain := Some (hex_encode key)\<rparr>)
       else if \<not> ke_write_ok k then (Inl KeyWriteFailed, no_effects)
       else (Inr key, no_effects\<lparr>kf_file := Some key\<rparr>))"

definition load_file_key :: "key_env \<Rightarrow> bool \<Rightarrow> bool \<Rightarrow> (key_error + bytes) \<times> key_effects" where
  "load_file_key k use_keychain allow_new =
     (case ke_file k of
        Some content \<Rightarrow>
          if 32 \<le> length content then
            (Inr content, if use_keychain \<and> ke_store_ok k
               then no_effects\<lparr>kf_keychain := Some (hex_encode content)\<rparr> else no_effects)
          else if \<not> allow_new then (Inl NoKeyForChain, no_effects)
          else create_key k use_keychain
      | None \<Rightarrow> if \<not> allow_new then (Inl NoKeyForChain, no_effects) else create_key k use_keychain)"

definition load_or_create_key_inner ::
  "key_env \<Rightarrow> bool \<Rightarrow> bool \<Rightarrow> ((key_error + bytes) \<times> key_effects) rs" where
  "load_or_create_key_inner k use_keychain allow_new =
     rs_bind (case (if use_keychain then ke_keychain k else None) of None \<Rightarrow> Val None | Some h \<Rightarrow> decode_hex h)
       (\<lambda>found. case found of
          Some bs \<Rightarrow> if 32 \<le> length bs then Val (Inr bs, no_effects)
            else Val (load_file_key k use_keychain allow_new)
        | None \<Rightarrow> Val (load_file_key k use_keychain allow_new))"

section \<open>Appending and verifying\<close>

type_synonym log_file = "bytes option"

definition rotate_max_bytes :: nat where
  "rotate_max_bytes = 100 * 1024 * 1024"

definition rotate_keep :: nat where
  "rotate_keep = 5"

text \<open>
  The files of the log by number: 0 is \<open>audit.log\<close>, and \<open>i\<close> from 1 to 5 is \<open>audit.log.i\<close>. What the operating system
  answers to the calls of one append: whether the directory can be made, the oldest file removed, file \<open>i\<close> renamed to
  \<open>i + 1\<close>, the log opened for reading and for writing, and, when the write fails, how many bytes were written before.
\<close>

type_synonym log_files = "nat \<Rightarrow> log_file"

record log_io =
  lio_dir_ok :: bool
  lio_remove_ok :: bool
  lio_rename_ok :: "nat \<Rightarrow> bool"
  lio_read_ok :: bool
  lio_open_ok :: bool
  lio_write_stops :: "nat option"

definition rename_up :: "log_io \<Rightarrow> nat \<Rightarrow> log_files \<Rightarrow> log_files" where
  "rename_up io i fs = (if fs i \<noteq> None \<and> lio_rename_ok io i then fs(i + 1 := fs i, i := None) else fs)"

definition rotate_if_needed :: "log_io \<Rightarrow> log_files \<Rightarrow> log_files" where
  "rotate_if_needed io fs = (case fs 0 of None \<Rightarrow> fs
     | Some f \<Rightarrow> if length f < rotate_max_bytes then fs
         else rename_up io 0 (fold (rename_up io) (rev [1..<rotate_keep]) (if lio_remove_ok io then fs(rotate_keep := None) else fs)))"

definition file_bytes :: "log_file \<Rightarrow> bytes" where
  "file_bytes f = (case f of None \<Rightarrow> [] | Some bs \<Rightarrow> bs)"

definition readable_lines :: "log_file \<Rightarrow> str list" where
  "readable_lines f = (case f of None \<Rightarrow> [] | Some bs \<Rightarrow> takeWhile utf8_valid (lines bs))"

definition last_event :: "'j audit_env \<Rightarrow> log_file \<Rightarrow> 'j audit_event option" where
  "last_event env f = foldl (\<lambda>ev line. if trim line = [] then ev
     else case en_from_line env line of Some e \<Rightarrow> Some e | None \<Rightarrow> ev) None (readable_lines f)"

definition next_event :: "'j audit_env \<Rightarrow> bytes \<Rightarrow> datetime \<Rightarrow> str \<Rightarrow> 'j \<Rightarrow> 'j audit_event option \<Rightarrow> 'j audit_event" where
  "next_event env key ts kind data prev_ev =
     (let prev_hash = (case prev_ev of Some e \<Rightarrow> ae_line_hash e | None \<Rightarrow> genesis_hash);
          next_seq = (case prev_ev of Some e \<Rightarrow> ae_seq e + 1 | None \<Rightarrow> 0)
      in \<lparr>ae_seq = next_seq, ae_ts = ts, ae_kind = kind, ae_data = data, ae_prev_hash = prev_hash,
          ae_line_hash = compute_hash env key next_seq ts kind data prev_hash\<rparr>)"

definition event_line :: "'j audit_env \<Rightarrow> 'j audit_event \<Rightarrow> bytes" where
  "event_line env e = en_to_line env e @ [CHR 0x0A]"

definition write_event :: "'j audit_env \<Rightarrow> 'j audit_event \<Rightarrow> log_file \<Rightarrow> bytes" where
  "write_event env e f = file_bytes f @ event_line env e"

datatype append_error = LogDirFailed | LogReadFailed | KeyFailed key_error | LogOpenFailed | LogWriteFailed

definition append_to ::
  "'j audit_env \<Rightarrow> log_io \<Rightarrow> key_env \<Rightarrow> bool \<Rightarrow> datetime \<Rightarrow> str \<Rightarrow> 'j \<Rightarrow> log_files \<Rightarrow>
     ((append_error + unit) \<times> log_files) rs" where
  "append_to env io k use_keychain ts kind data fs0 =
     (if \<not> lio_dir_ok io then Val (Inl LogDirFailed, fs0)
      else let fs = rotate_if_needed io fs0 in
      if fs 0 \<noteq> None \<and> \<not> lio_read_ok io then Val (Inl LogReadFailed, fs)
      else let prev_ev = last_event env (fs 0) in
      rs_bind (load_or_create_key_inner k use_keychain (prev_ev = None)) (\<lambda>(r, _). case r of
        Inl e \<Rightarrow> Val (Inl (KeyFailed e), fs)
      | Inr key \<Rightarrow>
          if \<not> lio_open_ok io then Val (Inl LogOpenFailed, fs)
          else let e = next_event env key ts kind data prev_ev in
          case lio_write_stops io of
            None \<Rightarrow> Val (Inr (), fs(0 := Some (write_event env e (fs 0))))
          | Some n \<Rightarrow> Val (Inl LogWriteFailed, fs(0 := Some (file_bytes (fs 0) @ take n (event_line env e))))))"

record verify_report =
  vr_lines :: nat
  vr_valid :: bool
  vr_broken_at :: "nat option"

datatype verify_error = UnreadableLine nat | ParseLine nat | KeyUnavailable key_error

definition broken :: "nat \<Rightarrow> nat \<Rightarrow> verify_report" where
  "broken cnt i = \<lparr>vr_lines = cnt, vr_valid = False, vr_broken_at = Some (i + 1)\<rparr>"

fun verify_loop ::
  "'j audit_env \<Rightarrow> bytes \<Rightarrow> str \<Rightarrow> u64 \<Rightarrow> nat \<Rightarrow> nat \<Rightarrow> str list \<Rightarrow> verify_error + verify_report" where
  "verify_loop env key prev expected_seq cnt i [] = Inr \<lparr>vr_lines = cnt, vr_valid = True, vr_broken_at = None\<rparr>"
| "verify_loop env key prev expected_seq cnt i (line # rest) =
     (if \<not> utf8_valid line then Inl (UnreadableLine (i + 1))
      else if trim line = [] then verify_loop env key prev expected_seq cnt (Suc i) rest
      else case en_from_line env line of
        None \<Rightarrow> Inl (ParseLine (i + 1))
      | Some e \<Rightarrow>
          if ae_seq e \<noteq> expected_seq then Inr (broken cnt i)
          else if ae_prev_hash e \<noteq> prev then Inr (broken cnt i)
          else if event_hash env key e \<noteq> ae_line_hash e then Inr (broken cnt i)
          else verify_loop env key (ae_line_hash e) (ae_seq e + 1) (Suc cnt) (Suc i) rest)"

definition verify_at :: "'j audit_env \<Rightarrow> key_env \<Rightarrow> bool \<Rightarrow> log_file \<Rightarrow> (verify_error + verify_report) rs" where
  "verify_at env k use_keychain f = (case f of
     None \<Rightarrow> Val (Inr \<lparr>vr_lines = 0, vr_valid = True, vr_broken_at = None\<rparr>)
   | Some bs \<Rightarrow> rs_bind (load_or_create_key_inner k use_keychain False) (\<lambda>(r, _). case r of
       Inl e \<Rightarrow> Val (Inl (KeyUnavailable e))
     | Inr key \<Rightarrow> Val (verify_loop env key genesis_hash 0 0 0 (lines bs))))"

section \<open>The chain of a verified log\<close>

fun chain :: "'j audit_env \<Rightarrow> bytes \<Rightarrow> str \<Rightarrow> u64 \<Rightarrow> 'j audit_event list \<Rightarrow> bool" where
  "chain env key prev seq [] = True"
| "chain env key prev seq (e # es) \<longleftrightarrow> ae_seq e = seq \<and> ae_prev_hash e = prev \<and>
     event_hash env key e = ae_line_hash e \<and> chain env key (ae_line_hash e) (seq + 1) es"

fun parsed :: "'j audit_env \<Rightarrow> str list \<Rightarrow> 'j audit_event list option" where
  "parsed env [] = Some []"
| "parsed env (l # ls) =
     (if \<not> utf8_valid l then None
      else if trim l = [] then parsed env ls
      else case en_from_line env l of None \<Rightarrow> None | Some e \<Rightarrow> map_option (Cons e) (parsed env ls))"

definition all_valid :: "nat \<Rightarrow> verify_report" where
  "all_valid n = \<lparr>vr_lines = n, vr_valid = True, vr_broken_at = None\<rparr>"

lemma verify_loop_valid_iff:
  "verify_loop env key prev seq cnt i ls = Inr r \<and> vr_valid r \<longleftrightarrow>
     (\<exists>es. parsed env ls = Some es \<and> chain env key prev seq es \<and> r = all_valid (cnt + length es))"
proof (induction ls arbitrary: prev seq cnt i)
  case Nil
  then show ?case by (auto simp: all_valid_def)
next
  case (Cons l ls)
  show ?case
  proof (cases "\<not> utf8_valid l \<or> trim l = []")
    case True
    then show ?thesis using Cons.IH [of prev seq cnt "Suc i"] by (cases "utf8_valid l") simp_all
  next
    case False
    show ?thesis
    proof (cases "en_from_line env l")
      case None
      then show ?thesis using False by simp
    next
      case (Some e)
      show ?thesis
      proof (cases "ae_seq e = seq \<and> ae_prev_hash e = prev \<and> event_hash env key e = ae_line_hash e")
        case True
        have v: "verify_loop env key prev seq cnt i (l # ls) =
            verify_loop env key (ae_line_hash e) (seq + 1) (Suc cnt) (Suc i) ls"
          using False Some True by simp
        have p: "parsed env (l # ls) = map_option (Cons e) (parsed env ls)" using False Some by simp
        have c: "chain env key prev seq (e # es) \<longleftrightarrow> chain env key (ae_line_hash e) (seq + 1) es" for es
          using True by simp
        show ?thesis unfolding v p Cons.IH
          by (cases "parsed env ls") (simp_all add: c del: chain.simps)
      next
        case bad: False
        then show ?thesis using False Some by (auto simp: broken_def all_valid_def)
      qed
    qed
  qed
qed

lemma parsed_append: "parsed env (xs @ ys) =
  (case parsed env xs of None \<Rightarrow> None | Some es \<Rightarrow> (case parsed env ys of None \<Rightarrow> None | Some fs \<Rightarrow> Some (es @ fs)))"
  by (induction xs) (auto split: option.splits)

lemma parsed_all_valid: "parsed env ls = Some es \<Longrightarrow> takeWhile utf8_valid ls = ls"
  by (induction ls arbitrary: es) (auto split: if_splits option.splits)

lemma parsed_last:
  "parsed env ls = Some es \<Longrightarrow>
     foldl (\<lambda>ev line. if trim line = [] then ev
       else case en_from_line env line of Some e \<Rightarrow> Some e | None \<Rightarrow> ev) ev0 ls =
     (if es = [] then ev0 else Some (last es))"
  by (induction ls arbitrary: es ev0) (auto split: if_splits option.splits)

lemma chain_append:
  "chain env key prev seq (es @ fs) \<longleftrightarrow> chain env key prev seq es \<and>
     chain env key (if es = [] then prev else ae_line_hash (last es)) (seq + of_nat (length es)) fs"
  by (induction es arbitrary: prev seq) (auto simp: algebra_simps)

lemma chain_last_seq: "chain env key prev seq es \<Longrightarrow> es \<noteq> [] \<Longrightarrow> ae_seq (last es) + 1 = seq + of_nat (length es)"
proof (induction es arbitrary: prev seq)
  case (Cons e es)
  then show ?case using Cons.IH [of "ae_line_hash e" "seq + 1"] by (cases "es = []") (auto simp: ac_simps)
qed simp

lemma next_event_chain:
  assumes "chain env key genesis_hash 0 es"
  shows "chain env key genesis_hash 0
    (es @ [next_event env key ts kind data (if es = [] then None else Some (last es))])"
  using assms chain_last_seq [OF assms]
  by (auto simp: chain_append next_event_def Let_def event_hash_def)

section \<open>Lines of a log that only grows\<close>

lemma split_lf_append:
  "split_lf acc (a @ CHR 0x0A # b) = split_lf acc (a @ [CHR 0x0A]) @ split_lf [] b"
  by (induction a arbitrary: acc) auto

definition whole_lines :: "bytes \<Rightarrow> bool" where
  "whole_lines bs \<longleftrightarrow> bs = [] \<or> last bs = CHR 0x0A"

lemma lines_append_line:
  assumes "whole_lines f" "CHR 0x0A \<notin> set x" "x \<noteq> []" "last x \<noteq> CHR 0x0D"
  shows "lines (f @ x @ [CHR 0x0A]) = lines f @ [x]"
proof -
  have x: "split_lf acc (y @ [CHR 0x0A]) = [rev (strip_cr (rev y @ acc))]" if "CHR 0x0A \<notin> set y" for y acc
    using that by (induction y arbitrary: acc) auto
  have cr: "rev (strip_cr (rev x)) = x" using assms(3,4) by (cases x rule: rev_cases) auto
  have x': "split_lf [] (x @ [CHR 0x0A]) = [x]" using x [OF assms(2), of "[]"] cr by simp
  show ?thesis
  proof (cases f rule: rev_cases)
    case Nil
    then show ?thesis using x' by (simp add: lines_def)
  next
    case (snoc g c)
    then have "c = CHR 0x0A" using assms(1) by (simp add: whole_lines_def)
    then show ?thesis using split_lf_append [of "[]" g "x @ [CHR 0x0A]"] x' snoc by (simp add: lines_def)
  qed
qed

text \<open>What the JSON codec is relied on for: a line of text per event that reads back as that event.\<close>

definition codec_ok :: "'j audit_env \<Rightarrow> bool" where
  "codec_ok env \<longleftrightarrow> (\<forall>e. en_from_line env (en_to_line env e) = Some e \<and> CHR 0x0A \<notin> set (en_to_line env e) \<and>
     utf8_valid (en_to_line env e) \<and> trim (en_to_line env e) \<noteq> [] \<and> last (en_to_line env e) \<noteq> CHR 0x0D)"

lemma codec_okD:
  assumes "codec_ok env"
  shows "en_from_line env (en_to_line env e) = Some e" "CHR 0x0A \<notin> set (en_to_line env e)"
    "utf8_valid (en_to_line env e)" "trim (en_to_line env e) \<noteq> []" "last (en_to_line env e) \<noteq> CHR 0x0D"
    "en_to_line env e \<noteq> []"
  using assms by (auto simp: codec_ok_def dest: spec [of _ e])

lemma parsed_write:
  assumes "codec_ok env" "whole_lines (file_bytes f)" "parsed env (lines (file_bytes f)) = Some es"
  shows "parsed env (lines (write_event env e f)) = Some (es @ [e])" "whole_lines (write_event env e f)"
proof -
  note c = codec_okD [OF assms(1), of e]
  have "lines (write_event env e f) = lines (file_bytes f) @ [en_to_line env e]"
    using lines_append_line [OF assms(2) c(2,6,5)] by (simp add: write_event_def event_line_def)
  then show "parsed env (lines (write_event env e f)) = Some (es @ [e])"
    using assms(3) c by (simp add: parsed_append)
  show "whole_lines (write_event env e f)" by (simp add: whole_lines_def write_event_def event_line_def)
qed

text \<open>Both backends hand out the same key, whether or not a new one may be made.\<close>

definition serves_key :: "key_env \<Rightarrow> bool \<Rightarrow> bytes \<Rightarrow> bool" where
  "serves_key k use_keychain key \<longleftrightarrow> (\<forall>allow. \<exists>eff. load_or_create_key_inner k use_keychain allow = Val (Inr key, eff))"

definition file_key :: "key_env \<Rightarrow> bytes \<Rightarrow> bool" where
  "file_key k key \<longleftrightarrow> ke_file k = Some key \<and> 32 \<le> length key"

lemma file_key_serves: "file_key k key \<Longrightarrow> serves_key k False key"
  by (simp add: serves_key_def load_or_create_key_inner_def load_file_key_def file_key_def)

lemma served_key:
  assumes "serves_key k use key"
  obtains eff where "load_or_create_key_inner k use allow = Val (Inr key, eff)"
  using assms by (auto simp: serves_key_def)

lemma verify_at_served:
  assumes "serves_key k use key"
  shows "verify_at env k use (Some bs) = Val (verify_loop env key genesis_hash 0 0 0 (lines bs))"
  using assms by (auto simp: verify_at_def elim: served_key [of k use key False])

lemma verify_valid_iff:
  assumes "serves_key k use key"
  shows "verify_at env k use f = Val (Inr (all_valid n)) \<longleftrightarrow>
    (\<exists>es. parsed env (lines (file_bytes f)) = Some es \<and> chain env key genesis_hash 0 es \<and> length es = n)"
proof (cases f)
  case None
  then show ?thesis by (auto simp: verify_at_def all_valid_def file_bytes_def lines_def)
next
  case (Some bs)
  have "verify_loop env key genesis_hash 0 0 0 (lines bs) = Inr (all_valid n) \<longleftrightarrow>
      (\<exists>es. parsed env (lines bs) = Some es \<and> chain env key genesis_hash 0 es \<and> length es = n)"
    using verify_loop_valid_iff [of env key genesis_hash 0 0 0 "lines bs" "all_valid n"]
    by (auto simp: all_valid_def)
  then show ?thesis by (simp add: Some verify_at_served [OF assms] file_bytes_def)
qed

lemma last_event_parsed:
  assumes "parsed env (lines (file_bytes f)) = Some es"
  shows "last_event env f = (if es = [] then None else Some (last es))"
proof (cases f)
  case None
  then show ?thesis using assms by (simp add: last_event_def readable_lines_def file_bytes_def lines_def)
next
  case (Some bs)
  then have p: "parsed env (lines bs) = Some es" using assms by (simp add: file_bytes_def)
  show ?thesis
    unfolding last_event_def readable_lines_def Some option.case parsed_all_valid [OF p] by (rule parsed_last [OF p])
qed

text \<open>What rotation leaves: the log as it was, or, when it has reached the limit, no log and the old one as number 1.\<close>

lemma rotate_cases:
  obtains "rotate_if_needed io fs 0 = fs 0"
  | "rotate_max_bytes \<le> length (file_bytes (fs 0))" "rotate_if_needed io fs 0 = None" "rotate_if_needed io fs 1 = fs 0"
proof (cases "fs 0")
  case None
  then show ?thesis using that by (simp add: rotate_if_needed_def)
next
  case (Some f)
  have keeps: "fold (rename_up io) is gs 0 = gs 0" if "0 \<notin> set is" for "is" gs
    using that by (induction "is" arbitrary: gs) (auto simp: rename_up_def)
  define gs where "gs = fold (rename_up io) (rev [1..<rotate_keep]) (if lio_remove_ok io then fs(rotate_keep := None) else fs)"
  have g0: "gs 0 = Some f" unfolding gs_def using Some by (subst keeps) (auto simp: rotate_keep_def)
  have rot: "rotate_if_needed io fs = (if length f < rotate_max_bytes then fs else rename_up io 0 gs)"
    by (simp only: rotate_if_needed_def Some option.case gs_def)
  show ?thesis using that g0 Some by (cases "length f < rotate_max_bytes"; cases "lio_rename_ok io 0")
      (simp_all add: rot rename_up_def file_bytes_def)
qed

lemma append_outcome:
  assumes "codec_ok env" and "serves_key k use key" and "whole_lines (file_bytes f)"
    and "verify_at env k use f = Val (Inr (all_valid n))"
  shows "verify_at env k use (Some (write_event env (next_event env key ts kind data (last_event env f)) f)) = Val (Inr (all_valid (Suc n)))"
    "whole_lines (write_event env e f)"
proof -
  obtain es where es: "parsed env (lines (file_bytes f)) = Some es" "chain env key genesis_hash 0 es" "length es = n"
    using assms(4) verify_valid_iff [OF assms(2)] by blast
  let ?e = "next_event env key ts kind data (if es = [] then None else Some (last es))"
  show "verify_at env k use (Some (write_event env (next_event env key ts kind data (last_event env f)) f)) = Val (Inr (all_valid (Suc n)))"
    unfolding verify_valid_iff [OF assms(2)] last_event_parsed [OF es(1)]
    using parsed_write(1) [OF assms(1,3) es(1), of ?e] next_event_chain [OF es(2)] es(3)
    by (intro exI [of _ "es @ [?e]"]) (simp add: file_bytes_def [of "Some _"])
  show "whole_lines (write_event env e f)" by (rule parsed_write(2) [OF assms(1,3) es(1)])
qed

text \<open>The append once the previous event can be read.\<close>

lemma append_reached:
  fixes fs :: log_files
  assumes "serves_key k use key" "lio_dir_ok io" "rotate_if_needed io fs 0 = None \<or> lio_read_ok io"
  shows "append_to env io k use ts kind data fs =
    (let gs = rotate_if_needed io fs; e = next_event env key ts kind data (last_event env (gs 0)) in
     if \<not> lio_open_ok io then Val (Inl LogOpenFailed, gs)
     else case lio_write_stops io of None \<Rightarrow> Val (Inr (), gs(0 := Some (write_event env e (gs 0))))
       | Some n \<Rightarrow> Val (Inl LogWriteFailed, gs(0 := Some (file_bytes (gs 0) @ take n (event_line env e)))))"
proof -
  obtain eff where "load_or_create_key_inner k use (last_event env (rotate_if_needed io fs 0) = None) = Val (Inr key, eff)"
    using assms(1) by (rule served_key)
  then show ?thesis using assms(2,3) by (auto simp: append_to_def Let_def)
qed


section \<open>A codec and a key to run with\<close>

definition event_tuple :: "unit audit_event \<Rightarrow> nat \<times> int \<times> str \<times> str \<times> str" where
  "event_tuple e = (unat (ae_seq e), ae_ts e, ae_kind e, ae_prev_hash e, ae_line_hash e)"

definition tuple_event :: "nat \<times> int \<times> str \<times> str \<times> str \<Rightarrow> unit audit_event" where
  "tuple_event t = (case t of (n, ts, kind, prev, hash) \<Rightarrow>
     \<lparr>ae_seq = of_nat n, ae_ts = ts, ae_kind = kind, ae_data = (), ae_prev_hash = prev, ae_line_hash = hash\<rparr>)"

definition number_env :: "unit audit_env" where
  "number_env = \<lparr>en_to_line = (\<lambda>e. dec (to_nat (event_tuple e))),
     en_from_line = (\<lambda>s. map_option (\<lambda>n. tuple_event (from_nat n)) (digits 10 s)),
     en_data_text = (\<lambda>_. ''{}''), en_ts_text = (\<lambda>t. dec (to_nat t)), en_mac = (\<lambda>key msg. take 32 (msg @ key))\<rparr>"

lemma tuple_event_tuple: "tuple_event (event_tuple e) = e"
  by (cases e) (simp add: tuple_event_def event_tuple_def)

lemma dec_byte: "c \<in> set (dec n) \<Longrightarrow> 48 \<le> byte_val c \<and> byte_val c \<le> 57"
  using dec_digits by blast

lemma number_env_ok: "codec_ok number_env"
proof -
  have "trim (dec n) = dec n" for n
    using dec_no_edge dec_nonempty by (intro trim_no_edge) (metis hd_in_set last_in_set)
  moreover have "utf8_valid (dec n)" for n
    using dec_byte [of _ n] by (intro utf8_valid_ascii ballI) fastforce
  moreover have "CHR 0x0A \<notin> set (dec n)" "last (dec n) \<noteq> CHR 0x0D" for n
    using dec_byte [of "CHR 0x0A" n] dec_byte [of "last (dec n)" n] dec_nonempty [of n] by auto
  ultimately show ?thesis
    by (simp add: codec_ok_def number_env_def digits_dec tuple_event_tuple dec_nonempty del: dec.simps)
qed

definition zero_key :: bytes where
  "zero_key = replicate 32 (CHR 0x00)"

definition zero_key_env :: key_env where
  "zero_key_env = \<lparr>ke_keychain = None, ke_store_ok = False, ke_file = Some zero_key, ke_dir_ok = False, ke_random = None, ke_write_ok = False\<rparr>"

lemma zero_key_file: "file_key zero_key_env zero_key"
  by (simp add: file_key_def zero_key_env_def zero_key_def)

lemmas zero_key_served = file_key_serves [OF zero_key_file]

definition sound_io :: log_io where
  "sound_io = \<lparr>lio_dir_ok = True, lio_remove_ok = True, lio_rename_ok = (\<lambda>_. True), lio_read_ok = True, lio_open_ok = True,
     lio_write_stops = None\<rparr>"

lemma empty_log_valid: "verify_at number_env zero_key_env False None = Val (Inr (all_valid 0))"
  by (simp add: verify_at_def all_valid_def)

lemma sound_append:
  assumes "serves_key k use key" "f = None \<or> length (file_bytes f) < rotate_max_bytes"
  shows "append_to env sound_io k use ts kind data (\<lambda>_. f) =
    Val (Inr (), (\<lambda>_. f)(0 := Some (write_event env (next_event env key ts kind data (last_event env f)) f)))"
proof -
  have "rotate_if_needed sound_io (\<lambda>_. f) = (\<lambda>_. f)"
    using assms(2) by (cases f) (simp_all add: rotate_if_needed_def file_bytes_def)
  then show ?thesis by (simp add: append_reached [OF assms(1)] sound_io_def Let_def)
qed


section \<open>Tampering\<close>

text \<open>The texts in a hashed message differ with their values, and a time stamp has no bar.\<close>

definition texts_faithful :: "'j audit_env \<Rightarrow> bool" where
  "texts_faithful env \<longleftrightarrow> inj (en_ts_text env) \<and> inj (en_data_text env) \<and> (\<forall>t. CHR ''|'' \<notin> set (en_ts_text env t))"

definition event_message :: "'j audit_env \<Rightarrow> 'j audit_event \<Rightarrow> bytes" where
  "event_message env e = hash_message env (ae_seq e) (ae_ts e) (ae_kind e) (ae_data e) (ae_prev_hash e)"

text \<open>Two events whose hashed messages differ and still have one hash.\<close>

definition collide :: "'j audit_env \<Rightarrow> bytes \<Rightarrow> 'j audit_event \<Rightarrow> 'j audit_event \<Rightarrow> bool" where
  "collide env key e e' \<longleftrightarrow> event_message env e \<noteq> event_message env e' \<and>
     en_mac env key (event_message env e) = en_mac env key (event_message env e')"

lemma cut_at_bar:
  "CHR ''|'' \<notin> set a \<Longrightarrow> CHR ''|'' \<notin> set b \<Longrightarrow> a @ CHR ''|'' # x = b @ CHR ''|'' # y \<Longrightarrow> a = b \<and> x = y"
proof (induction a arbitrary: b)
  case Nil
  then show ?case by (cases b) auto
next
  case (Cons c a)
  then show ?case by (cases b) auto
qed

lemma cut_at_last_bar:
  assumes "CHR ''|'' \<notin> set p" "CHR ''|'' \<notin> set q" "a @ CHR ''|'' # p = b @ CHR ''|'' # q"
  shows "a = b \<and> p = q"
proof -
  have "rev p @ CHR ''|'' # rev a = rev q @ CHR ''|'' # rev b" using arg_cong [OF assms(3), of rev] by simp
  then have "rev p = rev q \<and> rev a = rev b" using assms(1,2) by (intro cut_at_bar) simp_all
  then show ?thesis by simp
qed

lemma dec_no_bar: "CHR ''|'' \<notin> set (dec n)"
  using dec_byte [of "CHR ''|''" n] by auto

lemma hash_message_inj:
  assumes "texts_faithful env" "CHR ''|'' \<notin> set k" "CHR ''|'' \<notin> set k'" "CHR ''|'' \<notin> set p" "CHR ''|'' \<notin> set p'"
    and "hash_message env s t k d p = hash_message env s' t' k' d' p'"
  shows "s = s' \<and> t = t' \<and> k = k' \<and> d = d' \<and> p = p'"
proof -
  have ts: "CHR ''|'' \<notin> set (en_ts_text env t)" "CHR ''|'' \<notin> set (en_ts_text env t')"
    using assms(1) by (auto simp: texts_faithful_def)
  have 1: "dec (unat s) = dec (unat s')" and r1: "en_ts_text env t @ ''|'' @ k @ ''|'' @ en_data_text env d @ ''|'' @ p =
      en_ts_text env t' @ ''|'' @ k' @ ''|'' @ en_data_text env d' @ ''|'' @ p'"
    using cut_at_bar [OF dec_no_bar dec_no_bar] assms(6) by (auto simp: hash_message_def simp del: dec.simps)
  have 2: "en_ts_text env t = en_ts_text env t'" and r2: "k @ ''|'' @ en_data_text env d @ ''|'' @ p =
      k' @ ''|'' @ en_data_text env d' @ ''|'' @ p'"
    using cut_at_bar [OF ts] r1 by auto
  have 3: "k = k'" and r3: "en_data_text env d @ ''|'' @ p = en_data_text env d' @ ''|'' @ p'"
    using cut_at_bar [OF assms(2,3)] r2 by auto
  have "en_data_text env d = en_data_text env d' \<and> p = p'"
    using cut_at_last_bar [OF assms(4,5)] r3 by simp
  moreover have "s = s'" using dec_inj [OF 1] by (simp only: word_unat_eq_iff)
  ultimately show ?thesis using 2 3 assms(1) by (auto simp: texts_faithful_def inj_eq)
qed

lemma hex_encode_inj: "hex_encode a = hex_encode b \<Longrightarrow> a = b"
proof (induction a arbitrary: b)
  case Nil
  then show ?case by (cases b) (auto simp: hex_encode_def dest: arg_cong [of _ _ length])
next
  case (Cons x a)
  obtain y b' where b: "b = y # b'"
    using Cons.prems by (cases b) (auto simp: hex_encode_def dest: arg_cong [of _ _ length])
  have "hex_pad 2 (byte_val x) = hex_pad 2 (byte_val y)" "hex_encode a = hex_encode b'"
    using Cons.prems by (auto simp: b hex_encode_def)
  then show ?case
    using Cons.IH hex_pad_inj [of "byte_val x" 2 "byte_val y"] by (simp add: b)
qed

lemma hex_encode_no_bar: "CHR ''|'' \<notin> set (hex_encode bs)"
  using hex_pad_lower by (fastforce simp: hex_encode_def is_lower_hex_def)

lemma genesis_no_bar: "CHR ''|'' \<notin> set genesis_hash"
  by (simp add: genesis_hash_def)

lemma chain_hashes_no_bar:
  "chain env key prev seq es \<Longrightarrow> CHR ''|'' \<notin> set prev \<Longrightarrow>
     \<forall>e\<in>set es. CHR ''|'' \<notin> set (ae_prev_hash e) \<and> CHR ''|'' \<notin> set (ae_line_hash e)"
proof (induction es arbitrary: prev seq)
  case (Cons e es)
  then have "ae_line_hash e = event_hash env key e" by simp
  then have "CHR ''|'' \<notin> set (ae_line_hash e)"
    by (simp add: event_hash_def compute_hash_def hex_encode_no_bar)
  then show ?case using Cons by auto
qed simp

lemma event_hash_inj:
  assumes "texts_faithful env" "event_hash env key e = event_hash env key f" "\<not> collide env key e f"
    and "CHR ''|'' \<notin> set (ae_kind e)" "CHR ''|'' \<notin> set (ae_kind f)"
    and "CHR ''|'' \<notin> set (ae_prev_hash e)" "CHR ''|'' \<notin> set (ae_prev_hash f)"
  shows "ae_seq e = ae_seq f \<and> ae_ts e = ae_ts f \<and> ae_kind e = ae_kind f \<and> ae_data e = ae_data f \<and>
    ae_prev_hash e = ae_prev_hash f"
proof -
  have "en_mac env key (event_message env e) = en_mac env key (event_message env f)"
    using assms(2) hex_encode_inj by (auto simp: event_hash_def compute_hash_def event_message_def)
  then have "event_message env e = event_message env f" using assms(3) by (simp add: collide_def)
  then show ?thesis using hash_message_inj [OF assms(1,4,5,6,7)] by (simp add: event_message_def)
qed

lemma chains_agree:
  assumes "texts_faithful env"
  shows "chain env key genesis_hash 0 es \<Longrightarrow> chain env key genesis_hash 0 fs \<Longrightarrow> length es = length fs \<Longrightarrow>
    \<forall>e\<in>set (es @ fs). CHR ''|'' \<notin> set (ae_kind e) \<Longrightarrow>
    \<forall>e\<in>set es. \<forall>f\<in>set fs. \<not> collide env key e f \<Longrightarrow> es \<noteq> [] \<Longrightarrow> ae_line_hash (last es) = ae_line_hash (last fs) \<Longrightarrow> es = fs"
proof (induction es arbitrary: fs rule: rev_induct)
  case (snoc e es)
  obtain gs f where fs: "fs = gs @ [f]" and len: "length es = length gs"
    using snoc.prems(3) by (cases fs rule: rev_cases) auto
  have ce: "chain env key genesis_hash 0 es" "ae_prev_hash e = (if es = [] then genesis_hash else ae_line_hash (last es))"
    "event_hash env key e = ae_line_hash e"
    and cf: "chain env key genesis_hash 0 gs" "ae_prev_hash f = (if gs = [] then genesis_hash else ae_line_hash (last gs))"
    "event_hash env key f = ae_line_hash f"
    using snoc.prems(1,2) by (auto simp: fs chain_append)
  have nb: "CHR ''|'' \<notin> set (ae_prev_hash e)" "CHR ''|'' \<notin> set (ae_prev_hash f)"
    using chain_hashes_no_bar [OF snoc.prems(1) genesis_no_bar] chain_hashes_no_bar [OF snoc.prems(2) genesis_no_bar]
    by (auto simp: fs)
  have same: "ae_seq e = ae_seq f \<and> ae_ts e = ae_ts f \<and> ae_kind e = ae_kind f \<and> ae_data e = ae_data f \<and>
      ae_prev_hash e = ae_prev_hash f"
    using event_hash_inj [OF assms, of key e f] snoc.prems(4,5,7) ce(3) cf(3) nb by (auto simp: fs)
  then have "e = f" using snoc.prems(7) by (cases e; cases f) (simp add: fs)
  moreover have "es = gs"
  proof (cases "es = []")
    case False
    then have "ae_line_hash (last es) = ae_line_hash (last gs)" using same ce(2) cf(2) len by auto
    then show ?thesis using snoc.IH [OF ce(1) cf(1) len _ _ False] snoc.prems(4,5) by (auto simp: fs)
  qed (use len in simp)
  ultimately show ?case by (simp add: fs)
qed simp

text \<open>
  C26 (safety). The hash of the last line pins down the whole log. Take two logs that verify under one key with the
  same number of events, at least one, and whose last events carry the same hash, the kinds holding no bar. Then they
  hold the same events, unless among them there is a collision of HMAC-SHA256: an event of the one and an event of the other
  whose hashed messages differ and have the same hash. So changing, swapping or replacing events of a log whose last hash
  is known takes such a collision. Time stamps and JSON values are taken to be printed as texts that tell them apart.
\<close>

theorem last_hash_pins_log:
  assumes "texts_faithful env" and "serves_key k use key"
    and "verify_at env k use f = Val (Inr (all_valid (Suc n)))"
    and "verify_at env k use g = Val (Inr (all_valid (Suc n)))"
    and "map_option ae_line_hash (last_event env f) = map_option ae_line_hash (last_event env g)"
    and "\<forall>e es. parsed env (lines (file_bytes f)) = Some es \<and> e \<in> set es \<longrightarrow> CHR ''|'' \<notin> set (ae_kind e)"
    and "\<forall>e es. parsed env (lines (file_bytes g)) = Some es \<and> e \<in> set es \<longrightarrow> CHR ''|'' \<notin> set (ae_kind e)"
  shows "\<exists>es fs. parsed env (lines (file_bytes f)) = Some es \<and> parsed env (lines (file_bytes g)) = Some fs \<and>
    (es = fs \<or> (\<exists>e\<in>set es. \<exists>e'\<in>set fs. collide env key e e'))"
proof -
  obtain es fs where es: "parsed env (lines (file_bytes f)) = Some es" "chain env key genesis_hash 0 es" "length es = Suc n"
    and fs: "parsed env (lines (file_bytes g)) = Some fs" "chain env key genesis_hash 0 fs" "length fs = Suc n"
    using assms(3,4) verify_valid_iff [OF assms(2)] by blast
  have ne: "es \<noteq> []" "fs \<noteq> []" using es(3) fs(3) by auto
  have "ae_line_hash (last es) = ae_line_hash (last fs)"
    using assms(5) last_event_parsed [OF es(1)] last_event_parsed [OF fs(1)] ne by simp
  moreover have "\<forall>e\<in>set (es @ fs). CHR ''|'' \<notin> set (ae_kind e)" using assms(6,7) es(1) fs(1) by auto
  ultimately have "es = fs \<or> (\<exists>e\<in>set es. \<exists>e'\<in>set fs. collide env key e e')"
    using chains_agree [OF assms(1) es(2) fs(2)] es(3) fs(3) ne by auto
  then show ?thesis using es(1) fs(1) by blast
qed

text \<open>
  Further property (safety). What the chain does not show: a log cut after any whole line still verifies, with fewer
  events, so removing the newest events goes unnoticed.
\<close>

theorem truncated_log_verifies:
  assumes "serves_key k use key" and "whole_lines a" and "verify_at env k use (Some (a @ b)) = Val (Inr (all_valid n))"
  shows "\<exists>m\<le>n. verify_at env k use (Some a) = Val (Inr (all_valid m))"
proof -
  obtain es where es: "parsed env (lines (a @ b)) = Some es" "chain env key genesis_hash 0 es" "length es = n"
    using assms(3) verify_valid_iff [OF assms(1), of env "Some (a @ b)" n] by (auto simp: file_bytes_def)
  have "lines (a @ b) = lines a @ lines b"
  proof (cases a rule: rev_cases)
    case (snoc g c)
    then have "c = CHR 0x0A" using assms(2) by (simp add: whole_lines_def)
    then show ?thesis using split_lf_append [of "[]" g b] snoc by (simp add: lines_def)
  qed (simp add: lines_def)
  then obtain es1 es2 where "parsed env (lines a) = Some es1" "es = es1 @ es2"
    using es(1) by (auto simp: parsed_append split: option.splits)
  then show ?thesis
    using es(2,3) verify_valid_iff [OF assms(1), of env "Some a" "length es1"]
    by (intro exI [of _ "length es1"]) (auto simp: chain_append file_bytes_def)
qed

lemma parsed_verify_returns: "parsed env ls = Some es \<Longrightarrow> \<exists>r. verify_loop env key prev seq cnt i ls = Inr r"
  by (induction ls arbitrary: es prev seq cnt i) (auto split: if_splits option.splits)

text \<open>
  Further property (safety). Appending takes no lock: when two appends read the same last event before either
  writes, both lines are written under one number, and the log never verifies again.
\<close>

theorem concurrent_appends_break_chain:
  assumes "codec_ok env" and "serves_key k use key" and "whole_lines (file_bytes f)"
    and "verify_at env k use f = Val (Inr (all_valid n))"
  shows "\<exists>r. verify_at env k use (Some
      (write_event env (next_event env key ts2 kind2 data2 (last_event env f))
        (Some (write_event env (next_event env key ts1 kind1 data1 (last_event env f)) f)))) = Val (Inr r) \<and>
    \<not> vr_valid r"
proof -
  obtain es where es: "parsed env (lines (file_bytes f)) = Some es" "chain env key genesis_hash 0 es" "length es = n"
    using assms(4) verify_valid_iff [OF assms(2)] by blast
  let ?last = "if es = [] then None else Some (last es)"
  let ?e = "next_event env key ts1 kind1 data1 ?last" and ?f = "next_event env key ts2 kind2 data2 ?last"
  let ?g = "write_event env ?f (Some (write_event env ?e f))"
  have l: "last_event env f = ?last" by (rule last_event_parsed [OF es(1)])
  note w1 = parsed_write [OF assms(1,3) es(1), of ?e]
  have p: "parsed env (lines ?g) = Some ((es @ [?e]) @ [?f])"
    by (rule parsed_write(1) [OF assms(1)]) (use w1 in \<open>simp_all add: file_bytes_def\<close>)
  have seqs: "ae_seq ?f = ae_seq ?e" by (simp add: next_event_def Let_def)
  have "\<not> chain env key genesis_hash 0 ((es @ [?e]) @ [?f])"
  proof
    assume "chain env key genesis_hash 0 ((es @ [?e]) @ [?f])"
    then have "ae_seq ?f = of_nat (length (es @ [?e]))" "ae_seq ?e = of_nat (length es)"
      by (auto simp: chain_append)
    then show False using seqs by simp
  qed
  then have "\<not> (verify_loop env key genesis_hash 0 0 0 (lines ?g) = Inr r \<and> vr_valid r)" for r
    unfolding verify_loop_valid_iff using p by auto
  moreover obtain r where "verify_loop env key genesis_hash 0 0 0 (lines ?g) = Inr r"
    using parsed_verify_returns [OF p] by blast
  ultimately show ?thesis
    unfolding l by (simp add: verify_at_served [OF assms(2)])
qed

theorem concurrent_appends_break_chain_witness:
  "\<exists>r. verify_at number_env zero_key_env False (Some
      (write_event number_env (next_event number_env zero_key 2 ''b'' () (last_event number_env None))
        (Some (write_event number_env (next_event number_env zero_key 1 ''a'' () (last_event number_env None)) None)))) =
      Val (Inr r) \<and> \<not> vr_valid r"
  by (rule concurrent_appends_break_chain [OF number_env_ok zero_key_served _ empty_log_valid])
    (simp add: whole_lines_def file_bytes_def)

lemma number_env_faithful: "texts_faithful number_env"
  using dec_no_bar by (auto simp: texts_faithful_def number_env_def inj_on_def dest!: dec_inj simp del: dec.simps)

definition one_event_log :: log_file where
  "one_event_log = Some (write_event number_env (next_event number_env zero_key 7 ''timeout'' () None) None)"

lemma one_event_parsed:
  "parsed number_env (lines (file_bytes one_event_log)) = Some [next_event number_env zero_key 7 ''timeout'' () None]"
  using parsed_write(1) [OF number_env_ok, of None "[]" "next_event number_env zero_key 7 ''timeout'' () None"]
  by (simp add: one_event_log_def file_bytes_def whole_lines_def lines_def)

lemma one_event_verifies: "verify_at number_env zero_key_env False one_event_log = Val (Inr (all_valid (Suc 0)))"
  unfolding verify_valid_iff [OF zero_key_served] one_event_parsed
  using next_event_chain [of number_env zero_key "[]" 7 "''timeout''" "()"] by simp

definition padded_log :: log_file where
  "padded_log = Some (file_bytes one_event_log @ [CHR 0x0A])"

lemma padded_parsed: "parsed number_env (lines (file_bytes padded_log)) = parsed number_env (lines (file_bytes one_event_log))"
proof -
  obtain g where g: "file_bytes one_event_log = g @ [CHR 0x0A]"
    by (simp add: one_event_log_def file_bytes_def write_event_def event_line_def)
  have "lines (file_bytes padded_log) = lines (file_bytes one_event_log) @ [[]]"
    using split_lf_append [of "[]" g "[CHR 0x0A]"] by (simp add: padded_log_def file_bytes_def [of "Some _"] g lines_def)
  then show ?thesis by (simp add: parsed_append one_event_parsed)
qed

theorem last_hash_pins_log_witness:
  "\<exists>es fs. parsed number_env (lines (file_bytes padded_log)) = Some es \<and> parsed number_env (lines (file_bytes one_event_log)) = Some fs \<and>
    (es = fs \<or> (\<exists>e\<in>set es. \<exists>e'\<in>set fs. collide number_env zero_key e e'))"
proof (rule last_hash_pins_log [OF number_env_faithful zero_key_served _ one_event_verifies])
  show "verify_at number_env zero_key_env False padded_log = Val (Inr (all_valid (Suc 0)))"
    using one_event_verifies unfolding verify_valid_iff [OF zero_key_served] padded_parsed .
  show "map_option ae_line_hash (last_event number_env padded_log) = map_option ae_line_hash (last_event number_env one_event_log)"
    using last_event_parsed [of number_env padded_log] last_event_parsed [OF one_event_parsed]
    by (simp add: padded_parsed one_event_parsed)
qed (auto simp: padded_parsed one_event_parsed next_event_def Let_def)

theorem truncated_log_verifies_witness:
  "\<exists>m\<le>Suc 0. verify_at number_env zero_key_env False (Some []) = Val (Inr (all_valid m))"
  by (rule truncated_log_verifies [OF zero_key_served, of "[]" number_env "the one_event_log"])
    (use one_event_verifies in \<open>simp_all add: whole_lines_def one_event_log_def\<close>)

section \<open>Keys\<close>

text \<open>
  Further property (safety). A log that already has events is never continued under a new key: with the default
  backend an append to it succeeds only with the key of the key file, of at least 32 bytes, and what it
  writes is the next event hashed with that key.
\<close>

theorem chain_never_rekeyed:
  assumes "last_event env (fs 0) \<noteq> None" and "length (file_bytes (fs 0)) < rotate_max_bytes"
    and "append_to env io k False ts kind data fs = Val (Inr (), fs')"
  shows "\<exists>key. file_key k key \<and> fs' 0 = Some (write_event env (next_event env key ts kind data (last_event env (fs 0))) (fs 0))"
proof -
  have rot: "rotate_if_needed io fs = fs"
    using assms(2) by (cases "fs 0") (simp_all add: rotate_if_needed_def file_bytes_def)
  show ?thesis using assms(1,3)
    by (auto simp: append_to_def rot Let_def load_or_create_key_inner_def load_file_key_def file_key_def
        split: option.splits if_splits)
qed

definition fixed_env :: "unit audit_env" where
  "fixed_env = number_env\<lparr>en_from_line := \<lambda>_. Some (tuple_event (0, 0, [], [], []))\<rparr>"

lemma fixed_env_last: "last_event fixed_env (Some ''x'') = Some (tuple_event (0, 0, [], [], []))"
  by (simp add: last_event_def readable_lines_def lines_plain utf8_valid_ascii fixed_env_def word_eval)

theorem chain_never_rekeyed_witness:
  "\<exists>key fs'. append_to fixed_env sound_io zero_key_env False 0 ''k'' () (\<lambda>_. Some ''x'') = Val (Inr (), fs') \<and>
     file_key zero_key_env key \<and>
     fs' 0 = Some (write_event fixed_env (next_event fixed_env key 0 ''k'' () (last_event fixed_env (Some ''x''))) (Some ''x''))"
proof -
  note app = sound_append [OF zero_key_served, where f = "Some ''x''" and env = fixed_env and ts = 0 and kind = "''k''" and data = "()"]
  show ?thesis using chain_never_rekeyed [OF _ _ app] app by (simp add: fixed_env_last file_bytes_def rotate_max_bytes_def)
qed

end
