(* ===== verification/Llm_Dispatch.thy ===== *)
theory Llm_Dispatch
  imports Rust_Prelude
begin

text \<open>
  Requests to a model provider (\<open>aic-client/src/llm_dispatcher.rs\<close>): the circuit breaker, the retry
  loop with its backoff, and \<open>send\<close>, which combines them with redaction. The HTTP exchange, the local
  command line backend and redaction are parameters. Times are instants in milliseconds.
\<close>

section \<open>The circuit breaker\<close>

record breaker =
  cb_window :: "instant list"
  cb_open_until :: "instant option"

definition cb_threshold :: nat where "cb_threshold = 5"
definition cb_window_ms :: nat where "cb_window_ms = 60000"
definition cb_open_ms :: nat where "cb_open_ms = 30000"

definition cb_new :: breaker where
  "cb_new = \<lparr>cb_window = [], cb_open_until = None\<rparr>"

text \<open>The message of an open circuit prints the seconds that are left.\<close>

datatype api_message = CircuitOpen nat | ProviderMessage str

datatype api_error = LlmApiError nat api_message | OtherError str

definition cb_check :: "instant \<Rightarrow> breaker \<Rightarrow> (api_error + unit) \<times> breaker" where
  "cb_check now cb = (case cb_open_until cb of
     None \<Rightarrow> (Inr (), cb)
   | Some until \<Rightarrow>
       if now < until then (Inl (LlmApiError 0 (CircuitOpen ((until - now) div 1000))), cb)
       else (Inr (), cb\<lparr>cb_open_until := None\<rparr>))"

definition cb_record_failure :: "instant \<Rightarrow> breaker \<Rightarrow> breaker" where
  "cb_record_failure now cb =
     (let win = dropWhile (\<lambda>front. cb_window_ms < now - front) (cb_window cb @ [now]) in
      if cb_threshold \<le> length win then \<lparr>cb_window = [], cb_open_until = Some (now + cb_open_ms)\<rparr>
      else cb\<lparr>cb_window := win\<rparr>)"

definition cb_record_success :: "breaker \<Rightarrow> breaker" where
  "cb_record_success cb = cb\<lparr>cb_window := []\<rparr>"

section \<open>Its specification\<close>

text \<open>
  What the breaker promises: it remembers every failure since the last success or opening, opens when
  the threshold of them lies within the window before the last one, and refuses calls while open.
\<close>

record spec_breaker =
  sp_failures :: "instant list"
  sp_open_until :: instant

definition sp_new :: spec_breaker where
  "sp_new = \<lparr>sp_failures = [], sp_open_until = 0\<rparr>"

definition sp_refuses :: "instant \<Rightarrow> spec_breaker \<Rightarrow> bool" where
  "sp_refuses now a = (now < sp_open_until a)"

definition sp_failure :: "instant \<Rightarrow> spec_breaker \<Rightarrow> spec_breaker" where
  "sp_failure now a =
     (let fails = sp_failures a @ [now] in
      if cb_threshold \<le> length (filter (\<lambda>t. now - t \<le> cb_window_ms) fails)
      then \<lparr>sp_failures = [], sp_open_until = now + cb_open_ms\<rparr>
      else a\<lparr>sp_failures := fails\<rparr>)"

definition sp_success :: "spec_breaker \<Rightarrow> spec_breaker" where
  "sp_success a = a\<lparr>sp_failures := []\<rparr>"

datatype call = Check instant | Failure instant | Success instant

fun call_time :: "call \<Rightarrow> instant" where
  "call_time (Check t) = t" | "call_time (Failure t) = t" | "call_time (Success t) = t"

text \<open>A sequence of calls: for each check whether it was refused.\<close>

fun cb_run :: "breaker \<Rightarrow> call list \<Rightarrow> bool list" where
  "cb_run cb [] = []"
| "cb_run cb (Check t # cs) = (let (r, cb') = cb_check t cb in (r \<noteq> Inr ()) # cb_run cb' cs)"
| "cb_run cb (Failure t # cs) = cb_run (cb_record_failure t cb) cs"
| "cb_run cb (Success t # cs) = cb_run (cb_record_success cb) cs"

fun sp_run :: "spec_breaker \<Rightarrow> call list \<Rightarrow> bool list" where
  "sp_run a [] = []"
| "sp_run a (Check t # cs) = sp_refuses t a # sp_run a cs"
| "sp_run a (Failure t # cs) = sp_run (sp_failure t a) cs"
| "sp_run a (Success t # cs) = sp_run (sp_success a) cs"

section \<open>The breaker refines it\<close>

definition simulates :: "instant \<Rightarrow> breaker \<Rightarrow> spec_breaker \<Rightarrow> bool" where
  "simulates now cb a \<longleftrightarrow>
     (\<exists>old. sp_failures a = old @ cb_window cb \<and> (\<forall>t\<in>set old. cb_window_ms < now - t)) \<and>
     sorted (sp_failures a) \<and> (\<forall>t\<in>set (sp_failures a). t \<le> now) \<and>
     (case cb_open_until cb of None \<Rightarrow> sp_open_until a \<le> now | Some u \<Rightarrow> sp_open_until a = u)"

lemma simulates_later: "simulates now cb a \<Longrightarrow> now \<le> t \<Longrightarrow> simulates t cb a"
  unfolding simulates_def by (auto split: option.splits) (metis diff_le_mono less_le_trans)+

lemma recent_suffix:
  assumes "sorted xs" "\<forall>t\<in>set old. cb_window_ms < now - t"
  shows "filter (\<lambda>t. now - t \<le> cb_window_ms) (old @ xs) = dropWhile (\<lambda>t. cb_window_ms < now - t) xs"
proof -
  have "filter (\<lambda>t. now - t \<le> cb_window_ms) old = []"
    using assms(2) by (auto simp: filter_empty_conv)
  moreover have "filter (\<lambda>t. now - t \<le> cb_window_ms) xs = dropWhile (\<lambda>t. cb_window_ms < now - t) xs"
    using assms(1)
  proof (induction xs)
    case (Cons x xs)
    show ?case
    proof (cases "cb_window_ms < now - x")
      case False
      then have "filter (\<lambda>t. now - t \<le> cb_window_ms) xs = xs"
        using Cons.prems by (auto simp: filter_id_conv)
      then show ?thesis using False by simp
    qed (use Cons in simp)
  qed simp
  ultimately show ?thesis by simp
qed

lemma simulates_failure:
  assumes "simulates t cb a"
  shows "simulates t (cb_record_failure t cb) (sp_failure t a)"
proof -
  obtain old where old: "sp_failures a = old @ cb_window cb" "\<forall>x\<in>set old. cb_window_ms < t - x"
    using assms by (auto simp: simulates_def)
  let ?xs = "cb_window cb @ [t]" and ?P = "\<lambda>x. cb_window_ms < t - x"
  have sorted: "sorted (sp_failures a @ [t])"
    using assms by (auto simp: simulates_def sorted_append)
  then have "sorted ?xs" by (simp add: old(1) sorted_append)
  from recent_suffix [OF this old(2)]
  have recent: "filter (\<lambda>x. t - x \<le> cb_window_ms) (sp_failures a @ [t]) = dropWhile ?P ?xs" by (simp add: old(1))
  show ?thesis
  proof (cases "cb_threshold \<le> length (dropWhile ?P ?xs)")
    case True
    then show ?thesis
      by (simp add: simulates_def cb_record_failure_def sp_failure_def recent Let_def del: filter_append)
  next
    case False
    have "sp_failures a @ [t] = (old @ takeWhile ?P ?xs) @ dropWhile ?P ?xs" by (simp add: old(1))
    moreover have "\<forall>x\<in>set (old @ takeWhile ?P ?xs). cb_window_ms < t - x"
      using old(2) by (auto dest: set_takeWhileD)
    ultimately have "\<exists>old'. sp_failures a @ [t] = old' @ dropWhile ?P ?xs \<and> (\<forall>x\<in>set old'. cb_window_ms < t - x)"
      by blast
    then show ?thesis
      using False assms sorted
      by (auto simp: simulates_def cb_record_failure_def sp_failure_def recent Let_def simp del: filter_append
          split: option.splits)
  qed
qed

lemma simulates_success: "simulates t cb a \<Longrightarrow> simulates t (cb_record_success cb) (sp_success a)"
  by (auto simp: simulates_def cb_record_success_def sp_success_def split: option.splits)

lemma simulates_check:
  assumes "simulates t cb a" "cb_check t cb = (r, cb')"
  shows "(r \<noteq> Inr ()) = sp_refuses t a" "simulates t cb' a"
  using assms by (auto simp: simulates_def cb_check_def sp_refuses_def split: option.splits if_splits)

lemma cb_run_refines:
  "simulates now cb a \<Longrightarrow> sorted (map call_time cs) \<Longrightarrow> \<forall>c\<in>set cs. now \<le> call_time c \<Longrightarrow> cb_run cb cs = sp_run a cs"
proof (induction cs arbitrary: now cb a)
  case (Cons c cs)
  have sim: "simulates (call_time c) cb a" using Cons.prems simulates_later by auto
  have later: "sorted (map call_time cs)" "\<forall>d\<in>set cs. call_time c \<le> call_time d" using Cons.prems by auto
  note ih = Cons.IH [OF _ later]
  show ?case
  proof (cases c)
    case (Check t)
    obtain r cb' where r: "cb_check t cb = (r, cb')" by fastforce
    then show ?thesis using simulates_check [OF sim [unfolded Check call_time.simps] r] ih Check by simp
  next
    case (Failure t)
    then show ?thesis using ih simulates_failure sim by simp
  next
    case (Success t)
    then show ?thesis using ih simulates_success sim by simp
  qed
qed simp

text \<open>
  C4 (refinement). The breaker keeps only the failures still inside its window and drops the rest as
  it goes; it refuses exactly the calls its specification refuses, which keeps every failure since the
  last success or opening and opens when five of them lie within 60 seconds, for 30 seconds.
\<close>

theorem breaker_refines_spec:
  assumes "sorted (map call_time cs)"
  shows "cb_run cb_new cs = sp_run sp_new cs"
proof (rule cb_run_refines [of 0])
  show "simulates 0 cb_new sp_new" by (simp add: simulates_def cb_new_def sp_new_def)
qed (use assms in auto)

theorem breaker_refines_spec_witness:
  "cb_run cb_new [Failure 1, Failure 2, Failure 3, Failure 4, Check 5, Failure 6, Check 7] =
     sp_run sp_new [Failure 1, Failure 2, Failure 3, Failure 4, Check 5, Failure 6, Check 7]"
  by (rule breaker_refines_spec) simp

section \<open>Sending with retries\<close>

fun is_retryable :: "api_error \<Rightarrow> bool" where
  "is_retryable (LlmApiError status _) = (status = 0 \<or> status = 429 \<or> (500 \<le> status \<and> status < 600))"
| "is_retryable (OtherError _) = False"

definition max_attempts :: nat where "max_attempts = 5"
definition base_delay_ms :: nat where "base_delay_ms = 500"

text \<open>The loop from an attempt on: the delays it slept and the answer it ended with.\<close>

function send_attempts :: "(nat \<Rightarrow> api_error + str) \<Rightarrow> nat \<Rightarrow> nat list \<times> (api_error + str)" where
  "send_attempts post attempt =
     (let delay = (if 0 < attempt then [base_delay_ms * 2 ^ (attempt - 1)] else []) in
      case post attempt of
        Inr response \<Rightarrow> (delay, Inr response)
      | Inl e \<Rightarrow>
          if is_retryable e \<and> attempt + 1 < max_attempts
          then (let (ds, r) = send_attempts post (attempt + 1) in (delay @ ds, r))
          else (delay, Inl e))"
  by pat_completeness auto
termination
  by (relation "measure (\<lambda>(post, attempt). max_attempts - attempt)") auto

declare send_attempts.simps [simp del]

datatype provider_type = OpenAiCompatible | Groq | Anthropic | CliBackend

record dispatch_env =
  de_provider :: "api_error + provider_type"
  de_cli :: "str \<Rightarrow> api_error + str"
  de_redact :: "str \<Rightarrow> str"
  de_redact_enabled :: bool
  de_post :: "str \<Rightarrow> nat \<Rightarrow> api_error + str"

text \<open>\<open>send\<close>: the answer, the delays and the breaker afterwards; \<open>t0\<close> and \<open>t1\<close> are the times of the
  check and of the end.\<close>

definition send :: "dispatch_env \<Rightarrow> instant \<Rightarrow> instant \<Rightarrow> breaker \<Rightarrow> str \<Rightarrow> (api_error + str) \<times> nat list \<times> breaker" where
  "send env t0 t1 cb prompt =
     (case de_provider env of
        Inl e \<Rightarrow> (Inl e, [], cb)
      | Inr CliBackend \<Rightarrow> (de_cli env prompt, [], cb)
      | Inr _ \<Rightarrow>
          (let sent = (if de_redact_enabled env then de_redact env prompt else prompt);
               (checked, cb1) = cb_check t0 cb
           in case checked of
                Inl e \<Rightarrow> (Inl e, [], cb1)
              | Inr _ \<Rightarrow>
                (let (delays, r) = send_attempts (de_post env sent) 0
                 in (r, delays, case r of Inr _ \<Rightarrow> cb_record_success cb1 | Inl _ \<Rightarrow> cb_record_failure t1 cb1))))"

definition backoff_schedule :: "nat list" where
  "backoff_schedule = [500, 1000, 2000, 4000]"

lemma send_attempts_exact:
  assumes "send_attempts post a = (ds, r)" "a < max_attempts"
  shows "\<exists>n. a \<le> n \<and> n < max_attempts \<and> ds = map (\<lambda>i. base_delay_ms * 2 ^ (i - 1)) (filter (\<lambda>i. 0 < i) [a..<Suc n]) \<and>
    r = post n \<and> (\<forall>i. a \<le> i \<and> i < n \<longrightarrow> (\<exists>e. post i = Inl e \<and> is_retryable e)) \<and>
    (\<forall>e. post n = Inl e \<longrightarrow> \<not> is_retryable e \<or> Suc n = max_attempts)"
  using assms
proof (induction post a arbitrary: ds r rule: send_attempts.induct)
  case (1 post a)
  show ?case
  proof (cases "\<exists>e. post a = Inl e \<and> is_retryable e \<and> a + 1 < max_attempts")
    case False
    then have "ds = (if 0 < a then [base_delay_ms * 2 ^ (a - 1)] else [])" "r = post a"
      using 1(2) by (auto simp: send_attempts.simps [of post a] Let_def split: sum.splits if_splits)
    then show ?thesis using False 1(3) by (intro exI [of _ a]) auto
  next
    case True
    then obtain e where e: "post a = Inl e" "is_retryable e" "a + 1 < max_attempts" by blast
    obtain ds' where rec: "send_attempts post (a + 1) = (ds', r)"
      and ds: "ds = (if 0 < a then [base_delay_ms * 2 ^ (a - 1)] else []) @ ds'"
      using 1(2) e by (auto simp: send_attempts.simps [of post a] Let_def split: prod.splits)
    obtain n where n: "a + 1 \<le> n" "n < max_attempts"
      "ds' = map (\<lambda>i. base_delay_ms * 2 ^ (i - 1)) (filter (\<lambda>i. 0 < i) [a + 1..<Suc n])" "r = post n"
      "\<forall>i. a + 1 \<le> i \<and> i < n \<longrightarrow> (\<exists>e. post i = Inl e \<and> is_retryable e)"
      "\<forall>e. post n = Inl e \<longrightarrow> \<not> is_retryable e \<or> Suc n = max_attempts"
      using 1(1) [OF refl e(1) _ rec] e by auto
    have up: "[a..<Suc n] = a # [a + 1..<Suc n]" using n(1) upt_conv_Cons [of a "Suc n"] by simp
    show ?thesis
    proof (intro exI conjI)
      show "a \<le> n" "n < max_attempts" "r = post n" using n by simp_all
      show "ds = map (\<lambda>i. base_delay_ms * 2 ^ (i - 1)) (filter (\<lambda>i. 0 < i) [a..<Suc n])"
        unfolding ds n(3) up by (simp del: upt_Suc)
      show "\<forall>i. a \<le> i \<and> i < n \<longrightarrow> (\<exists>e. post i = Inl e \<and> is_retryable e)"
        using n(5) e by (metis Suc_eq_plus1 le_neq_implies_less not_less_eq_eq not_le)
      show "\<forall>e. post n = Inl e \<longrightarrow> \<not> is_retryable e \<or> Suc n = max_attempts" by (rule n(6))
    qed
  qed
qed

text \<open>
  Further property (functional). What a request to a remote provider does: while the breaker is open nothing is
  sent and the breaker is left alone; otherwise the redacted prompt is posted, at most five times, each
  repetition after a retryable failure and after the next delay of the schedule of 0.5, 1, 2 and 4
  seconds; the answer is the last attempt's, and only that one is counted by the breaker.
\<close>

theorem send_posts_exactly:
  assumes "de_provider env = Inr p" and "p \<noteq> CliBackend" and "send env t0 t1 cb prompt = (r, delays, cb')"
  shows "case cb_check t0 cb of
      (Inl e, cb1) \<Rightarrow> r = Inl e \<and> delays = [] \<and> cb' = cb
    | (Inr _, cb1) \<Rightarrow>
        let post = de_post env (if de_redact_enabled env then de_redact env prompt else prompt) in
        \<exists>n<5. r = post n \<and> delays = take n backoff_schedule \<and>
          (\<forall>i<n. \<exists>e. post i = Inl e \<and> is_retryable e) \<and>
          (n = 4 \<or> (\<forall>e. r = Inl e \<longrightarrow> \<not> is_retryable e)) \<and>
          cb' = (case r of Inr _ \<Rightarrow> cb_record_success cb1 | Inl _ \<Rightarrow> cb_record_failure t1 cb1)"
proof (cases "cb_check t0 cb")
  case (Pair checked cb1)
  show ?thesis
  proof (cases checked)
    case (Inl e)
    then show ?thesis using assms Pair
      by (cases p) (auto simp: send_def cb_check_def split: option.splits if_splits)
  next
    case (Inr u)
    let ?post = "de_post env (if de_redact_enabled env then de_redact env prompt else prompt)"
    obtain ds where run: "send_attempts ?post 0 = (ds, r)" and d: "delays = ds"
      and cb': "cb' = (case r of Inr _ \<Rightarrow> cb_record_success cb1 | Inl _ \<Rightarrow> cb_record_failure t1 cb1)"
      using assms Pair Inr by (cases p) (auto simp: send_def Let_def split: prod.splits)
    have m: "0 < max_attempts" by (simp add: max_attempts_def)
    obtain n where n: "n < max_attempts" "ds = map (\<lambda>i. base_delay_ms * 2 ^ (i - 1)) (filter (\<lambda>i. 0 < i) [0..<Suc n])"
      "r = ?post n" "\<forall>i. 0 \<le> i \<and> i < n \<longrightarrow> (\<exists>e. ?post i = Inl e \<and> is_retryable e)"
      "\<forall>e. ?post n = Inl e \<longrightarrow> \<not> is_retryable e \<or> Suc n = max_attempts"
      using send_attempts_exact [OF run m] by blast
    have lt: "n < 5" and n4: "\<forall>i<n. \<exists>e. ?post i = Inl e \<and> is_retryable e" using n(1,4) by (simp_all add: max_attempts_def)
    have "n = 0 \<or> n = 1 \<or> n = 2 \<or> n = 3 \<or> n = 4" using lt by linarith
    then have "ds = take n backoff_schedule"
      unfolding n(2) base_delay_ms_def backoff_schedule_def by (elim disjE) (simp_all add: upt_rec)
    moreover have "n = 4 \<or> (\<forall>e. r = Inl e \<longrightarrow> \<not> is_retryable e)" using n(3,5) by (auto simp: max_attempts_def)
    ultimately have "\<exists>n<5. r = ?post n \<and> delays = take n backoff_schedule \<and>
        (\<forall>i<n. \<exists>e. ?post i = Inl e \<and> is_retryable e) \<and> (n = 4 \<or> (\<forall>e. r = Inl e \<longrightarrow> \<not> is_retryable e)) \<and>
        cb' = (case r of Inr _ \<Rightarrow> cb_record_success cb1 | Inl _ \<Rightarrow> cb_record_failure t1 cb1)"
      using lt n(3) n4 d cb' by blast
    then show ?thesis unfolding Pair Inr Let_def by simp
  qed
qed

definition flaky_env :: dispatch_env where
  "flaky_env = \<lparr>de_provider = Inr OpenAiCompatible, de_cli = Inr, de_redact = id, de_redact_enabled = True,
     de_post = (\<lambda>p i. if i = 0 then Inl (LlmApiError 503 (ProviderMessage [])) else Inr p)\<rparr>"

theorem send_posts_exactly_witness:
  "\<exists>n<5. (Inr ''hi'' :: api_error + str) = de_post flaky_env ''hi'' n \<and> [500] = take n backoff_schedule"
proof -
  have "send flaky_env 0 0 cb_new ''hi'' = (Inr ''hi'', [500], cb_record_success cb_new)"
    by (simp add: send_def flaky_env_def cb_check_def cb_new_def send_attempts.simps Let_def max_attempts_def base_delay_ms_def)
  from send_posts_exactly [OF _ _ this, of OpenAiCompatible] obtain n where
    "n < 5" "(Inr ''hi'' :: api_error + str) = de_post flaky_env ''hi'' n" "[500] = take n backoff_schedule"
    by (auto simp: flaky_env_def cb_check_def cb_new_def Let_def)
  then show ?thesis by blast
qed

end
