(* ===== verification/Spool.thy ===== *)
theory Spool
  imports Hash_Map Rust_Text "HOL-Library.List_Lexorder" "HOL-Library.Char_ord"
begin

text \<open>
  The offline spool of the exporter, \<open>aic-server/src/otlp_exporter/spool.rs\<close>: one file per batch,
  named by its sequence number and kind, a byte quota per kind with its own eviction order, and a
  drain that sends in order. The directory is part of the state, in the order a listing yields it;
  which file-system calls succeed is given by \<open>spool_io\<close>. A listing is read as a whole.
\<close>

section \<open>Kinds, reasons and file names\<close>

datatype signal_kind = Metrics | Logs | AppLogs

datatype drop_reason = Quota | Age | Rejected

datatype push_error = Permanent str | Transient str

fun is_permanent :: "push_error \<Rightarrow> bool" where
  "is_permanent (Permanent m) = True"
| "is_permanent (Transient m) = False"

text \<open>The name of a status is the library's, hence an argument; the message is Korean text around it.\<close>

definition push_classify :: "(nat \<Rightarrow> str) \<Rightarrow> nat \<Rightarrow> push_error" where
  "push_classify status_name status =
     (let msg = ''collector'' @ [CHR 0xEA, CHR 0xB0, CHR 0x80, CHR 0x20] @ status_name status
            @ [CHR 0x20, CHR 0xEC, CHR 0x9D, CHR 0x91, CHR 0xEB, CHR 0x8B, CHR 0xB5];
          retryable_4xx = (status = 429 \<or> status = 408)
      in if 400 \<le> status \<and> status < 500 \<and> \<not> retryable_4xx then Permanent msg else Transient msg)"

fun kind_tag :: "signal_kind \<Rightarrow> u8" where
  "kind_tag Metrics = CHR 0x00"
| "kind_tag Logs = CHR 0x01"
| "kind_tag AppLogs = CHR 0x02"

definition kind_from_tag :: "u8 \<Rightarrow> signal_kind option" where
  "kind_from_tag t = (if t = CHR 0x00 then Some Metrics else if t = CHR 0x01 then Some Logs
     else if t = CHR 0x02 then Some AppLogs else None)"

fun kind_code :: "signal_kind \<Rightarrow> str" where
  "kind_code Metrics = ''m''"
| "kind_code Logs = ''l''"
| "kind_code AppLogs = ''a''"

definition kind_from_code :: "str \<Rightarrow> signal_kind option" where
  "kind_from_code s = (if s = ''m'' then Some Metrics else if s = ''l'' then Some Logs
     else if s = ''a'' then Some AppLogs else None)"

text \<open>
  \<open>Path::file_stem\<close> and \<open>Path::extension\<close> of a file name, the latter as text: the part after the
  last dot, unless the name has no dot or only starts with one.
\<close>

definition file_stem :: "str \<Rightarrow> str" where
  "file_stem name = (case rsplit_once (CHR ''.'') name of
     None \<Rightarrow> name | Some (stem, ext) \<Rightarrow> if stem = [] then name else stem)"

definition extension :: "str \<Rightarrow> str option" where
  "extension name = (case rsplit_once (CHR ''.'') name of
     None \<Rightarrow> None | Some (stem, ext) \<Rightarrow> if stem = [] \<or> \<not> utf8_valid ext then None else Some ext)"

definition parse_u64 :: "str \<Rightarrow> u64 option" where
  "parse_u64 s = map_option of_nat (parse_unsigned (2 ^ 64 - 1) 10 s)"

definition parse_batch_filename :: "str \<Rightarrow> (u64 \<times> signal_kind option) option" where
  "parse_batch_filename name =
     (if extension name \<noteq> Some ''batch'' then None
      else if \<not> utf8_valid (file_stem name) then None
      else case split_once (CHR ''.'') (file_stem name) of
        Some (seq, code) \<Rightarrow> (case parse_u64 seq of None \<Rightarrow> None
          | Some n \<Rightarrow> case kind_from_code code of None \<Rightarrow> None | Some k \<Rightarrow> Some (n, Some k))
      | None \<Rightarrow> (case parse_u64 (file_stem name) of None \<Rightarrow> None | Some n \<Rightarrow> Some (n, None)))"

definition batch_name :: "u64 \<Rightarrow> signal_kind \<Rightarrow> str" where
  "batch_name seq kind = dec_pad 20 (unat seq) @ ''.'' @ kind_code kind @ ''.batch''"

definition tmp_name :: "u64 \<Rightarrow> str" where
  "tmp_name seq = dec_pad 20 (unat seq) @ ''.tmp''"

section \<open>State\<close>

record spool_file =
  sf_data :: bytes
  sf_mtime :: nat

type_synonym spool_dir = "(str, spool_file) hash_map"

record spool_quotas =
  sq_metrics :: u64
  sq_logs :: u64
  sq_app_logs :: u64

definition from_spool_max_bytes :: "u64 \<Rightarrow> u64 option \<Rightarrow> u64 option \<Rightarrow> u64 option \<Rightarrow> spool_quotas" where
  "from_spool_max_bytes mx m l a =
     \<lparr>sq_metrics = (case m of Some v \<Rightarrow> v | None \<Rightarrow> mx div 4),
      sq_logs = (case l of Some v \<Rightarrow> v | None \<Rightarrow> mx div 4),
      sq_app_logs = (case a of Some v \<Rightarrow> v | None \<Rightarrow> mx div 2)\<rparr>"

record spool =
  sl_dir :: spool_dir
  sl_quotas :: spool_quotas
  sl_next_seq :: u64
  sl_totals :: "signal_kind \<Rightarrow> u64"
  sl_dropped :: "drop_reason \<Rightarrow> signal_kind \<Rightarrow> u64"
  sl_last_drop_warn :: "drop_reason \<Rightarrow> u64"

text \<open>
  What the file system does during one call: whether the directory can be listed, and for each name
  whether its metadata, its contents, its removal and its renaming succeed; how far writing the
  temporary file gets; and the clock, in nanoseconds since the epoch.
\<close>

datatype write_outcome = Written | CreateFailed | WriteFailed nat | SyncFailed

record spool_io =
  io_list :: bool
  io_meta :: "str \<Rightarrow> bool"
  io_read :: "str \<Rightarrow> bool"
  io_remove :: "str \<Rightarrow> bool"
  io_rename :: "str \<Rightarrow> bool"
  io_write :: write_outcome
  io_now :: nat

definition io_works :: "spool_io \<Rightarrow> bool" where
  "io_works io \<longleftrightarrow> io_list io \<and> (\<forall>p. io_meta io p \<and> io_read io p \<and> io_remove io p \<and> io_rename io p)"

definition quota_for :: "spool \<Rightarrow> signal_kind \<Rightarrow> u64" where
  "quota_for s kind = (case kind of Metrics \<Rightarrow> sq_metrics (sl_quotas s)
     | Logs \<Rightarrow> sq_logs (sl_quotas s) | AppLogs \<Rightarrow> sq_app_logs (sl_quotas s))"

text \<open>\<open>metadata(path).map(len).unwrap_or(0)\<close> and \<open>remove_file(path).is_ok()\<close>.\<close>

definition file_len :: "spool_io \<Rightarrow> spool_dir \<Rightarrow> str \<Rightarrow> u64" where
  "file_len io d p = (case hm_get d p of
     Some f \<Rightarrow> if io_meta io p then of_nat (length (sf_data f)) else 0 | None \<Rightarrow> 0)"

definition remove_ok :: "spool_io \<Rightarrow> spool_dir \<Rightarrow> str \<Rightarrow> bool" where
  "remove_ok io d p \<longleftrightarrow> hm_get d p \<noteq> None \<and> io_remove io p"

definition rename :: "str \<Rightarrow> str \<Rightarrow> spool_dir \<Rightarrow> spool_dir" where
  "rename p q d = (case hm_get d p of None \<Rightarrow> d | Some f \<Rightarrow> hm_insert q f (hm_remove p d))"

section \<open>Operations\<close>

definition record_drop :: "spool \<Rightarrow> signal_kind \<Rightarrow> drop_reason \<Rightarrow> spool" where
  "record_drop s kind reason =
     s\<lparr>sl_dropped := (sl_dropped s)(reason := (sl_dropped s reason)(kind := sl_dropped s reason kind + 1))\<rparr>"

definition record_rejected_batch :: "spool \<Rightarrow> signal_kind \<Rightarrow> spool" where
  "record_rejected_batch s kind = record_drop s kind Rejected"

definition dropped_count :: "spool \<Rightarrow> signal_kind \<Rightarrow> u64" where
  "dropped_count s kind = sl_dropped s Quota kind + sl_dropped s Age kind + sl_dropped s Rejected kind"

definition dropped_by_reason :: "spool \<Rightarrow> drop_reason \<Rightarrow> u64" where
  "dropped_by_reason s reason = sl_dropped s reason Metrics + sl_dropped s reason Logs + sl_dropped s reason AppLogs"

text \<open>The decision whether a loss is logged now; the slot is updated when it is.\<close>

definition should_warn_drop :: "spool_io \<Rightarrow> spool \<Rightarrow> drop_reason \<Rightarrow> bool \<times> spool" where
  "should_warn_drop io s reason =
     (let now = of_nat (io_now io div 1000000000) in
      if sat_sub64 now (sl_last_drop_warn s reason) < 60 then (False, s)
      else (True, s\<lparr>sl_last_drop_warn := (sl_last_drop_warn s)(reason := now)\<rparr>))"

definition list_batch_files :: "spool_io \<Rightarrow> spool_dir \<Rightarrow> str list option" where
  "list_batch_files io d =
     (if io_list io then Some (filter (\<lambda>p. extension p = Some ''batch'') (map fst d)) else None)"

definition name_kind :: "str \<Rightarrow> signal_kind option" where
  "name_kind p = (case parse_batch_filename p of Some (_, k) \<Rightarrow> k | None \<Rightarrow> None)"

definition list_batch_files_for_kind :: "spool_io \<Rightarrow> spool_dir \<Rightarrow> signal_kind \<Rightarrow> str list option" where
  "list_batch_files_for_kind io d kind =
     (if io_list io then Some (filter (\<lambda>p. name_kind p = Some kind) (map fst d)) else None)"

definition batch_count :: "spool_io \<Rightarrow> spool \<Rightarrow> nat" where
  "batch_count io s = (case list_batch_files io (sl_dir s) of Some fs \<Rightarrow> length fs | None \<Rightarrow> 0)"

text \<open>The loop of \<open>enforce_cap\<close>: the number of files removed and the spool after it.\<close>

fun drop_while_over :: "spool_io \<Rightarrow> signal_kind \<Rightarrow> str list \<Rightarrow> spool \<Rightarrow> nat \<times> spool" where
  "drop_while_over io kind [] s = (0, s)"
| "drop_while_over io kind (p # ps) s =
     (if sl_totals s kind \<le> quota_for s kind then (0, s)
      else let len = file_len io (sl_dir s) p in
        if remove_ok io (sl_dir s) p then
          (let (n, s') = drop_while_over io kind ps (record_drop
             (s\<lparr>sl_dir := hm_remove p (sl_dir s),
                sl_totals := (sl_totals s)(kind := sat_sub64 (sl_totals s kind) len)\<rparr>) kind Quota)
           in (Suc n, s'))
        else drop_while_over io kind ps s)"

definition eviction_order :: "signal_kind \<Rightarrow> str list \<Rightarrow> str list" where
  "eviction_order kind fs = (if kind = AppLogs then rev (sort fs) else sort fs)"

definition enforce_cap :: "spool_io \<Rightarrow> signal_kind \<Rightarrow> spool \<Rightarrow> spool" where
  "enforce_cap io kind s =
     (if sl_totals s kind \<le> quota_for s kind then s
      else case list_batch_files_for_kind io (sl_dir s) kind of
        None \<Rightarrow> s
      | Some fs \<Rightarrow>
          (let (dropped_now, s') = drop_while_over io kind (eviction_order kind fs) s
           in if 0 < dropped_now then snd (should_warn_drop io s' Quota) else s'))"

definition remove_and_untrack :: "spool_io \<Rightarrow> str \<Rightarrow> signal_kind option \<Rightarrow> spool \<Rightarrow> spool" where
  "remove_and_untrack io p kind s =
     (let len = file_len io (sl_dir s) p in
      if remove_ok io (sl_dir s) p then
        (let s1 = s\<lparr>sl_dir := hm_remove p (sl_dir s)\<rparr> in
         case kind of None \<Rightarrow> s1
         | Some k \<Rightarrow> s1\<lparr>sl_totals := (sl_totals s1)(k := sat_sub64 (sl_totals s1 k) len)\<rparr>)
      else s)"

definition batch_bytes :: "signal_kind \<Rightarrow> bytes \<Rightarrow> bytes" where
  "batch_bytes kind body = kind_tag kind # to_be 4 (length body mod 2 ^ 32) @ body"

text \<open>
  \<open>append\<close> is one step here. In the program another thread can run between the renaming and the entry in the
  totals, and remove the file before it is counted.
\<close>

datatype append_error = AppendCreate | AppendWrite | AppendSync | AppendRename

definition spool_append :: "spool_io \<Rightarrow> signal_kind \<Rightarrow> bytes \<Rightarrow> spool \<Rightarrow> (append_error + unit) \<times> spool" where
  "spool_append io kind body s =
     (let seq = sl_next_seq s;
          final_path = batch_name seq kind;
          tmp_path = tmp_name seq;
          buf = batch_bytes kind body;
          s1 = s\<lparr>sl_next_seq := seq + 1\<rparr>;
          tmp_file = (\<lambda>bs. s1\<lparr>sl_dir := hm_insert tmp_path \<lparr>sf_data = bs, sf_mtime = io_now io\<rparr> (sl_dir s1)\<rparr>)
      in case io_write io of
           CreateFailed \<Rightarrow> (Inl AppendCreate, s1)
         | WriteFailed n \<Rightarrow> (Inl AppendWrite, tmp_file (take n buf))
         | SyncFailed \<Rightarrow> (Inl AppendSync, tmp_file buf)
         | Written \<Rightarrow>
             (let s2 = tmp_file buf in
              if \<not> io_rename io tmp_path then (Inl AppendRename, s2)
              else let s3 = s2\<lparr>sl_dir := rename tmp_path final_path (sl_dir s2),
                     sl_totals := (sl_totals s2)(kind := sl_totals s2 kind + of_nat (length buf))\<rparr>
                in (Inr (), enforce_cap io kind s3)))"

text \<open>\<open>read_batch\<close>, of the contents of a file.\<close>

datatype batch_error = ReadFailed | ShortFile | UnknownTag | LengthMismatch

definition read_batch_data :: "bytes \<Rightarrow> batch_error + (signal_kind \<times> bytes)" where
  "read_batch_data data =
     (if length data < 5 then Inl ShortFile
      else case kind_from_tag (data ! 0) of
        None \<Rightarrow> Inl UnknownTag
      | Some kind \<Rightarrow>
          (let len = of_be (take 4 (drop 1 data)); body = drop 5 data in
           if length body \<noteq> len then Inl LengthMismatch else Inr (kind, body)))"

definition read_batch :: "spool_io \<Rightarrow> spool_dir \<Rightarrow> str \<Rightarrow> batch_error + (signal_kind \<times> bytes)" where
  "read_batch io d p = (case hm_get d p of
     Some f \<Rightarrow> if io_read io p then read_batch_data (sf_data f) else Inl ReadFailed | None \<Rightarrow> Inl ReadFailed)"

record drain_report =
  dr_drained :: nat
  dr_rejected :: nat
  dr_failed :: bool
  dr_last_error :: "(signal_kind \<times> push_error) option"

text \<open>
  The loop of \<open>drain\<close>. The \<open>n\<close>-th call of the sender answers \<open>sender n\<close>; while it is awaited the
  other tasks that share the spool run, which is \<open>others n\<close>. The first component of the result lists
  what was handed to the sender.
\<close>

fun drain_loop ::
  "spool_io \<Rightarrow> (nat \<Rightarrow> signal_kind \<Rightarrow> bytes \<Rightarrow> push_error + unit) \<Rightarrow> (nat \<Rightarrow> spool \<Rightarrow> spool) \<Rightarrow> nat \<Rightarrow>
     str list \<Rightarrow> drain_report \<Rightarrow> spool \<Rightarrow> (signal_kind \<times> bytes) list \<times> drain_report \<times> spool" where
  "drain_loop io sender others n [] rep s = ([], rep, s)"
| "drain_loop io sender others n (p # ps) rep s =
     (case read_batch io (sl_dir s) p of
        Inl e \<Rightarrow> drain_loop io sender others n ps rep (remove_and_untrack io p (name_kind p) s)
      | Inr (kind, body) \<Rightarrow>
          (let s1 = others n s in
           case sender n kind body of
             Inr () \<Rightarrow>
               (let (sent, rep', s') = drain_loop io sender others (Suc n) ps
                  (rep\<lparr>dr_drained := dr_drained rep + 1\<rparr>) (remove_and_untrack io p (Some kind) s1)
                in ((kind, body) # sent, rep', s'))
           | Inl e \<Rightarrow>
               if is_permanent e then
                 (let (sent, rep', s') = drain_loop io sender others (Suc n) ps
                    (rep\<lparr>dr_rejected := dr_rejected rep + 1, dr_last_error := Some (kind, e)\<rparr>)
                    (remove_and_untrack io p (Some kind) (record_drop s1 kind Rejected))
                  in ((kind, body) # sent, rep', s'))
               else ([(kind, body)], rep\<lparr>dr_failed := True, dr_last_error := Some (kind, e)\<rparr>, s1)))"

definition drain ::
  "spool_io \<Rightarrow> (nat \<Rightarrow> signal_kind \<Rightarrow> bytes \<Rightarrow> push_error + unit) \<Rightarrow> (nat \<Rightarrow> spool \<Rightarrow> spool) \<Rightarrow> nat \<Rightarrow>
     spool \<Rightarrow> (signal_kind \<times> bytes) list \<times> drain_report \<times> spool" where
  "drain io sender others lim s =
     (let rep = \<lparr>dr_drained = 0, dr_rejected = 0, dr_failed = False, dr_last_error = None\<rparr> in
      case list_batch_files io (sl_dir s) of
        None \<Rightarrow> ([], rep\<lparr>dr_failed := True\<rparr>, s)
      | Some fs \<Rightarrow> drain_loop io sender others 0 (take lim (sort fs)) rep s)"

text \<open>\<open>prune_older_than\<close>: ages in nanoseconds; a time stamp in the future keeps the file.\<close>

definition too_old :: "spool_io \<Rightarrow> nat \<Rightarrow> spool_dir \<Rightarrow> str \<Rightarrow> bool" where
  "too_old io max_age d p = (case hm_get d p of
     Some f \<Rightarrow> io_meta io p \<and> sf_mtime f \<le> io_now io \<and> max_age < io_now io - sf_mtime f | None \<Rightarrow> False)"

definition prune_one :: "spool_io \<Rightarrow> nat \<Rightarrow> str \<Rightarrow> u64 \<times> spool \<Rightarrow> u64 \<times> spool" where
  "prune_one io max_age p ns = (case ns of (n, s) \<Rightarrow>
     if too_old io max_age (sl_dir s) p then
       (n + 1, remove_and_untrack io p (name_kind p)
         (case name_kind p of Some k \<Rightarrow> record_drop s k Age | None \<Rightarrow> s))
     else (n, s))"

definition prune_older_than :: "spool_io \<Rightarrow> nat \<Rightarrow> spool \<Rightarrow> u64 \<times> spool" where
  "prune_older_than io max_age s = (case list_batch_files io (sl_dir s) of
     None \<Rightarrow> (0, s)
   | Some fs \<Rightarrow>
       (let (pruned, s') = fold (prune_one io max_age) fs (0, s)
        in (pruned, if 0 < pruned then snd (should_warn_drop io s' Age) else s')))"

text \<open>\<open>open\<close>: the names come from one listing, each is looked at in the directory as it is then.\<close>

definition migrate_legacy_batch :: "spool_io \<Rightarrow> spool_dir \<Rightarrow> str \<Rightarrow> u64 \<Rightarrow> (signal_kind \<times> u64 \<times> spool_dir) option" where
  "migrate_legacy_batch io d p seq = (case hm_get d p of
     None \<Rightarrow> None
   | Some f \<Rightarrow>
       if \<not> io_read io p \<or> sf_data f = [] then None
       else case kind_from_tag (hd (sf_data f)) of
         None \<Rightarrow> None
       | Some k \<Rightarrow>
           if \<not> io_meta io p \<or> \<not> io_rename io p then None
           else Some (k, of_nat (length (sf_data f)), rename p (batch_name seq k) d))"

type_synonym open_state = "u64 \<times> (signal_kind \<Rightarrow> u64) \<times> spool_dir"

definition remove_file :: "spool_io \<Rightarrow> str \<Rightarrow> spool_dir \<Rightarrow> spool_dir" where
  "remove_file io p d = (if remove_ok io d p then hm_remove p d else d)"

definition open_entry :: "spool_io \<Rightarrow> str \<Rightarrow> open_state \<Rightarrow> open_state" where
  "open_entry io p st = (case st of (max_seq, totals, d) \<Rightarrow>
     if extension p = Some ''tmp'' then (max_seq, totals, remove_file io p d)
     else case parse_batch_filename p of
       None \<Rightarrow> (max_seq, totals, d)
     | Some (seq, kind) \<Rightarrow>
         (case kind of
            Some k \<Rightarrow> (max max_seq seq, totals(k := totals k + file_len io d p), d)
          | None \<Rightarrow> (case migrate_legacy_batch io d p seq of
              Some (k, len, d') \<Rightarrow> (max max_seq seq, totals(k := totals k + len), d')
            | None \<Rightarrow> (max max_seq seq, totals, remove_file io p d))))"

definition spool_open :: "spool_io \<Rightarrow> spool_quotas \<Rightarrow> spool_dir \<Rightarrow> spool option" where
  "spool_open io quotas d =
     (if \<not> io_list io then None
      else let (max_seq, totals, d') = fold (open_entry io) (map fst d) (0, \<lambda>_. 0, d);
               s = \<lparr>sl_dir = d', sl_quotas = quotas, sl_next_seq = max_seq + 1, sl_totals = totals,
                    sl_dropped = (\<lambda>_ _. 0), sl_last_drop_warn = (\<lambda>_. 0)\<rparr>
           in Some (fold (enforce_cap io) [Metrics, Logs, AppLogs] s))"

end
