(* ===== verification/Spool_Safety.thy ===== *)
theory Spool_Safety
  imports Spool
begin

text \<open>
  What the spool promises: its totals are the bytes on disk, its quotas hold after every append and
  touch no other kind, batches are drained in the order they were appended, and a restart finds the
  spool as it was left.
\<close>

section \<open>Names\<close>

lemma kind_code_plain: "CHR ''.'' \<notin> set (kind_code k)" "kind_code k \<noteq> []" "\<forall>b\<in>set (kind_code k). byte_val b < 128"
  by (cases k; simp)+

lemma kind_from_code_code [simp]: "kind_from_code (kind_code k) = Some k"
  by (cases k) (simp_all add: kind_from_code_def)

lemma kind_from_tag_tag [simp]: "kind_from_tag (kind_tag k) = Some k"
  by (cases k) (simp_all add: kind_from_tag_def)

lemma dec_pad_no_dot: "CHR ''.'' \<notin> set (dec_pad k n)"
  using dec_pad_digits [of "CHR ''.''" k n] by auto

lemma dec_pad_ascii: "\<forall>b\<in>set (dec_pad k n). byte_val b < 128"
  using dec_pad_digits by fastforce

lemma parse_u64_dec_pad: "parse_u64 (dec_pad 20 (unat (seq :: u64))) = Some seq"
proof -
  let ?ds = "dec_pad 20 (unat seq)"
  have less: "unat seq < 2 ^ 64" by (rule unat64_less)
  then have "unat seq < 10 ^ 20" by simp
  then have ds: "digits_acc 10 0 ?ds = Some (unat seq)" by (rule digits_dec_pad)
  obtain c cs where c: "?ds = c # cs" by (metis length_dec_pad length_0_conv neq_Nil_conv zero_neq_numeral)
  have "c \<noteq> CHR ''+''" using dec_pad_digits [of c 20 "unat seq"] by (auto simp: c)
  with ds c less show ?thesis by (simp add: parse_u64_def parse_unsigned_def digits_def)
qed

lemma batch_name_split:
  "extension (batch_name seq k) = Some ''batch''" "file_stem (batch_name seq k) = dec_pad 20 (unat seq) @ CHR ''.'' # kind_code k"
proof -
  have "rsplit_once (CHR ''.'') (batch_name seq k) = Some (dec_pad 20 (unat seq) @ CHR ''.'' # kind_code k, ''batch'')"
    using rsplit_once_append [of "CHR ''.''" "''batch''" "dec_pad 20 (unat seq) @ CHR ''.'' # kind_code k"]
    by (simp add: batch_name_def)
  then show "extension (batch_name seq k) = Some ''batch''"
    "file_stem (batch_name seq k) = dec_pad 20 (unat seq) @ CHR ''.'' # kind_code k"
    by (simp_all add: extension_def file_stem_def utf8_valid_ascii)
qed

lemma parse_batch_name [simp]: "parse_batch_filename (batch_name seq k) = Some (seq, Some k)"
proof -
  have "utf8_valid (dec_pad 20 (unat seq) @ CHR ''.'' # kind_code k)"
    using dec_pad_ascii [of 20 "unat seq"] kind_code_plain(3) [of k] by (intro utf8_valid_ascii) auto
  then show ?thesis
    by (simp add: parse_batch_filename_def batch_name_split split_once_append dec_pad_no_dot parse_u64_dec_pad)
qed

lemma name_kind_batch [simp]: "name_kind (batch_name seq k) = Some k"
  by (simp add: name_kind_def)

lemma batch_name_inj [simp]: "batch_name a k = batch_name b k' \<longleftrightarrow> a = b \<and> k = k'"
  by (metis parse_batch_name option.inject prod.inject)

lemma extension_tmp [simp]: "extension (tmp_name seq) = Some ''tmp''"
proof -
  have "dec_pad 20 (unat seq) \<noteq> []" by (metis length_dec_pad list.size(3) zero_neq_numeral)
  moreover have "rsplit_once (CHR ''.'') (tmp_name seq) = Some (dec_pad 20 (unat seq), ''tmp'')"
    using rsplit_once_append [of "CHR ''.''" "''tmp''" "dec_pad 20 (unat seq)"] by (simp add: tmp_name_def)
  ultimately show ?thesis by (simp add: extension_def utf8_valid_ascii)
qed

lemma parse_extension: "parse_batch_filename p = Some x \<Longrightarrow> extension p = Some ''batch''"
  by (auto simp: parse_batch_filename_def split: if_splits)

lemma name_kind_parse: "name_kind p = Some k \<longleftrightarrow> (\<exists>seq. parse_batch_filename p = Some (seq, Some k))"
  by (auto simp: name_kind_def split: option.splits)

lemma name_kind_tmp [simp]: "name_kind (tmp_name seq) = None"
  using parse_extension [of "tmp_name seq"] by (auto simp: name_kind_def split: option.splits)

text \<open>The padded names sort like their numbers.\<close>

lemma list_less_append: "length xs = length ys \<Longrightarrow> xs < ys \<Longrightarrow> xs @ u < ys @ (v :: 'a :: linorder list)"
  by (auto simp: list_less_def intro: lexord_sufI)

lemma dec_pad_less: "a < b \<Longrightarrow> b < 10 ^ k \<Longrightarrow> dec_pad k a < dec_pad k b"
proof (induction k arbitrary: a b)
  case (Suc k)
  show ?case
  proof (cases "a div 10 = b div 10")
    case True
    with Suc.prems have "a mod 10 < b mod 10" by (metis mod_less_eq_dividend mult_div_mod_eq nat_add_left_cancel_less)
    then have "[byte_of (48 + a mod 10)] < [byte_of (48 + b mod 10)]"
      by (simp add: list_less_def less_char_def byte_val_byte_of)
    then show ?thesis by (simp add: True list_less_def lexord_append_leftI)
  next
    case False
    with Suc.prems have "a div 10 < b div 10" by (metis div_le_mono le_neq_implies_less less_imp_le)
    moreover have "b div 10 < 10 ^ k" using Suc.prems by (simp add: less_mult_imp_div_less mult.commute)
    ultimately show ?thesis using Suc.IH [of "a div 10" "b div 10"] by (simp add: list_less_append)
  qed
qed simp

lemma batch_name_less: "a < b \<Longrightarrow> batch_name a k < batch_name b k'"
proof -
  assume "a < b"
  moreover have "unat b < 10 ^ 20" using unat64_less [of b] by simp
  ultimately show ?thesis
    unfolding batch_name_def by (intro list_less_append dec_pad_less) (simp_all add: word_less_nat_alt)
qed

section \<open>The bytes of a kind\<close>

definition kind_bytes :: "spool_dir \<Rightarrow> signal_kind \<Rightarrow> nat" where
  "kind_bytes d k = sum_list (map (\<lambda>(p, f). if name_kind p = Some k then length (sf_data f) else 0) d)"

lemma kind_bytes_simps [simp]:
  "kind_bytes [] k = 0"
  "kind_bytes ((p, f) # d) k = (if name_kind p = Some k then length (sf_data f) else 0) + kind_bytes d k"
  by (simp_all add: kind_bytes_def)

lemma kind_bytes_remove:
  "hm_ok d \<Longrightarrow> hm_get d p = Some f \<Longrightarrow>
     kind_bytes d k = kind_bytes (hm_remove p d) k + (if name_kind p = Some k then length (sf_data f) else 0)"
proof (induction d)
  case (Cons x d)
  obtain q g where x: "x = (q, g)" by (cases x)
  from Cons.prems x have "hm_ok d" and fresh: "q \<notin> fst ` set d" by (simp_all add: hm_ok_def)
  show ?case
  proof (cases "q = p")
    case True
    with fresh have "hm_remove p d = d" by simp
    with True Cons.prems x show ?thesis by simp
  next
    case False
    with Cons x \<open>hm_ok d\<close> show ?thesis by simp
  qed
qed simp

lemma kind_bytes_insert:
  "hm_get d p = None \<Longrightarrow>
     kind_bytes (hm_insert p f d) k = kind_bytes d k + (if name_kind p = Some k then length (sf_data f) else 0)"
  by (induction d) (auto split: if_splits)

lemma kind_bytes_insert_other: "name_kind p \<noteq> Some k \<Longrightarrow> kind_bytes (hm_insert p f d) k = kind_bytes d k"
  by (induction d) auto

lemma file_kind_bytes: "hm_ok d \<Longrightarrow> hm_get d p = Some f \<Longrightarrow> name_kind p = Some k \<Longrightarrow> length (sf_data f) \<le> kind_bytes d k"
  using kind_bytes_remove [of d p f k] by simp

section \<open>The accounting invariant\<close>

definition well_named :: "str \<Rightarrow> spool_file \<Rightarrow> bool" where
  "well_named p f \<longleftrightarrow> (extension p = Some ''batch'' \<longrightarrow>
     (\<forall>k body. read_batch_data (sf_data f) = Inr (k, body) \<longrightarrow> name_kind p = Some k))"

definition before_next :: "u64 \<Rightarrow> str \<Rightarrow> bool" where
  "before_next n p \<longleftrightarrow> (\<forall>seq k. parse_batch_filename p = Some (seq, k) \<longrightarrow> seq < n)"

definition spool_inv :: "spool \<Rightarrow> bool" where
  "spool_inv s \<longleftrightarrow> hm_ok (sl_dir s) \<and> (\<forall>k. unat (sl_totals s k) = kind_bytes (sl_dir s) k) \<and>
     (\<forall>p f. hm_get (sl_dir s) p = Some f \<longrightarrow> well_named p f \<and> before_next (sl_next_seq s) p)"

lemma spool_invD:
  assumes "spool_inv s"
  shows "hm_ok (sl_dir s)" "unat (sl_totals s k) = kind_bytes (sl_dir s) k"
    "hm_get (sl_dir s) p = Some f \<Longrightarrow> well_named p f" "hm_get (sl_dir s) p = Some f \<Longrightarrow> before_next (sl_next_seq s) p"
  using assms by (auto simp: spool_inv_def)

lemma spool_inv_cong:
  "sl_dir s = sl_dir t \<Longrightarrow> sl_totals s = sl_totals t \<Longrightarrow> sl_next_seq s = sl_next_seq t \<Longrightarrow> spool_inv s = spool_inv t"
  by (simp add: spool_inv_def)

lemma record_drop_simps [simp]:
  "sl_dir (record_drop s k r) = sl_dir s" "sl_totals (record_drop s k r) = sl_totals s"
  "sl_next_seq (record_drop s k r) = sl_next_seq s" "sl_quotas (record_drop s k r) = sl_quotas s"
  "quota_for (record_drop s k r) = quota_for s"
  by (simp_all add: record_drop_def quota_for_def fun_eq_iff split: signal_kind.splits)

lemma should_warn_simps [simp]:
  "sl_dir (snd (should_warn_drop io s r)) = sl_dir s" "sl_totals (snd (should_warn_drop io s r)) = sl_totals s"
  "sl_next_seq (snd (should_warn_drop io s r)) = sl_next_seq s" "sl_quotas (snd (should_warn_drop io s r)) = sl_quotas s"
  "sl_dropped (snd (should_warn_drop io s r)) = sl_dropped s"
  by (simp_all add: should_warn_drop_def Let_def)

lemma record_drop_inv [simp]: "spool_inv (record_drop s k r) = spool_inv s"
  by (rule spool_inv_cong) simp_all

lemma should_warn_inv [simp]: "spool_inv (snd (should_warn_drop io s r)) = spool_inv s"
  by (rule spool_inv_cong) simp_all

text \<open>Taking a file out together with its bytes keeps the accounts.\<close>

lemma unat_of_nat64: "n < 2 ^ 64 \<Longrightarrow> unat (of_nat n :: u64) = n"
  by (simp add: unat_of_nat take_bit_nat_eq_self_iff)

lemma file_len_exact:
  assumes "spool_inv s" and "hm_get (sl_dir s) p = Some f" and "io_meta io p" and "name_kind p = Some k"
  shows "unat (file_len io (sl_dir s) p) = length (sf_data f)"
proof -
  have "length (sf_data f) \<le> unat (sl_totals s k)"
    using assms spool_invD(1,2) [OF assms(1)] file_kind_bytes by metis
  also have "\<dots> < 2 ^ 64" by (rule unat64_less)
  finally show ?thesis using assms by (simp add: file_len_def unat_of_nat64)
qed

lemma untrack_inv:
  assumes inv: "spool_inv s" and meta: "io_meta io p" and kind: "name_kind p = kind"
    and f: "hm_get (sl_dir s) p = Some f"
  shows "spool_inv (s\<lparr>sl_dir := hm_remove p (sl_dir s), sl_totals := (case kind of None \<Rightarrow> sl_totals s
    | Some k \<Rightarrow> (sl_totals s)(k := sat_sub64 (sl_totals s k) (file_len io (sl_dir s) p)))\<rparr>)"
proof -
  have "unat (case kind of None \<Rightarrow> sl_totals s k'
      | Some k \<Rightarrow> ((sl_totals s)(k := sat_sub64 (sl_totals s k) (file_len io (sl_dir s) p))) k') =
    kind_bytes (hm_remove p (sl_dir s)) k'" for k'
    using kind_bytes_remove [OF spool_invD(1) [OF inv] f, of k'] spool_invD(2) [OF inv, of k']
      file_len_exact [OF inv f meta] kind
    by (cases kind) (auto simp: unat_sat_sub64)
  moreover have "hm_ok (hm_remove p (sl_dir s))" using spool_invD(1) [OF inv] by simp
  ultimately show ?thesis
    using spool_invD(3,4) [OF inv] unfolding spool_inv_def
    by (cases kind) (auto split: if_splits)
qed

lemma remove_and_untrack_inv:
  assumes "spool_inv s" and "io_meta io p" and "name_kind p = kind"
  shows "spool_inv (remove_and_untrack io p kind s)"
proof (cases "remove_ok io (sl_dir s) p")
  case True
  then obtain f where "hm_get (sl_dir s) p = Some f" by (auto simp: remove_ok_def)
  from untrack_inv [OF assms this] True show ?thesis
    by (cases kind) (simp_all add: remove_and_untrack_def Let_def)
qed (simp add: remove_and_untrack_def assms)

lemma drop_while_over_inv:
  "spool_inv s \<Longrightarrow> \<forall>p. io_meta io p \<Longrightarrow> \<forall>p\<in>set ps. name_kind p = Some kind \<Longrightarrow>
     spool_inv (snd (drop_while_over io kind ps s))"
proof (induction ps arbitrary: s)
  case (Cons p ps)
  show ?case
  proof (cases "remove_ok io (sl_dir s) p")
    case True
    then obtain f where "hm_get (sl_dir s) p = Some f" by (auto simp: remove_ok_def)
    with untrack_inv [OF Cons.prems(1), of io p "Some kind" f] Cons True show ?thesis
      by (simp add: Let_def split_beta)
  qed (use Cons in \<open>simp add: Let_def\<close>)
qed simp

lemma set_eviction_order [simp]: "set (eviction_order kind fs) = set fs"
  by (simp add: eviction_order_def)

lemma enforce_cap_inv:
  assumes "spool_inv s" and "\<forall>p. io_meta io p"
  shows "spool_inv (enforce_cap io kind s)"
proof -
  have "spool_inv (snd (drop_while_over io kind (eviction_order kind fs) s))"
    if "list_batch_files_for_kind io (sl_dir s) kind = Some fs" for fs
    using that by (intro drop_while_over_inv assms) (auto simp: list_batch_files_for_kind_def split: if_splits)
  then show ?thesis
    using assms(1) by (simp add: enforce_cap_def split_beta split: option.split)
qed

section \<open>Appending\<close>

lemma batch_bytes_simps [simp]: "length (batch_bytes k body) = 5 + length body"
  by (simp add: batch_bytes_def)

lemma read_batch_bytes: "length body < 2 ^ 32 \<Longrightarrow> read_batch_data (batch_bytes k body) = Inr (k, body)"
  by (simp add: read_batch_data_def batch_bytes_def Let_def)

lemma read_batch_bytes_kind: "read_batch_data (batch_bytes k body) = Inr (k', body') \<Longrightarrow> k' = k"
  by (auto simp: read_batch_data_def batch_bytes_def Let_def split: if_splits)

text \<open>The spool once the batch has its final name, before the quota is enforced.\<close>

definition stored :: "spool_io \<Rightarrow> signal_kind \<Rightarrow> bytes \<Rightarrow> spool \<Rightarrow> spool" where
  "stored io kind body s =
     (let f = \<lparr>sf_data = batch_bytes kind body, sf_mtime = io_now io\<rparr>; tmp = tmp_name (sl_next_seq s) in
      s\<lparr>sl_next_seq := sl_next_seq s + 1,
        sl_dir := hm_insert (batch_name (sl_next_seq s) kind) f (hm_remove tmp (hm_insert tmp f (sl_dir s))),
        sl_totals := (sl_totals s)(kind := sl_totals s kind + of_nat (5 + length body))\<rparr>)"

lemma spool_append_ok:
  "fst (spool_append io kind body s) = Inr () \<longleftrightarrow> io_write io = Written \<and> io_rename io (tmp_name (sl_next_seq s))"
  "fst (spool_append io kind body s) = Inr () \<Longrightarrow>
     snd (spool_append io kind body s) = enforce_cap io kind (stored io kind body s)"
  by (auto simp: spool_append_def stored_def rename_def Let_def split: write_outcome.splits if_splits)

definition has_room :: "spool \<Rightarrow> signal_kind \<Rightarrow> bytes \<Rightarrow> bool" where
  "has_room s kind body \<longleftrightarrow> unat (sl_next_seq s) + 1 < 2 ^ 64 \<and> kind_bytes (sl_dir s) kind + 5 + length body < 2 ^ 64"

lemma less_next: "unat n + 1 < 2 ^ 64 \<Longrightarrow> n < n + (1 :: u64)"
  by (simp add: word_less_nat_alt unat_word_ariths)

lemma before_next_Suc: "before_next n p \<Longrightarrow> unat n + 1 < 2 ^ 64 \<Longrightarrow> before_next (n + 1) p"
  unfolding before_next_def using less_next [of n] by (meson order_less_trans)

lemma hm_get_stored:
  "hm_get (sl_dir (stored io kind body s)) p =
     (if p = batch_name (sl_next_seq s) kind then Some \<lparr>sf_data = batch_bytes kind body, sf_mtime = io_now io\<rparr>
      else if p = tmp_name (sl_next_seq s) then None else hm_get (sl_dir s) p)"
  by (simp add: stored_def Let_def)

lemma tmp_not_batch [simp]: "tmp_name a \<noteq> batch_name b k" "batch_name b k \<noteq> tmp_name a"
  by (metis name_kind_tmp name_kind_batch option.distinct(1))+

lemma next_name_free: "spool_inv s \<Longrightarrow> hm_get (sl_dir s) (batch_name (sl_next_seq s) kind) = None"
  using spool_invD(4) [of s "batch_name (sl_next_seq s) kind"]
  by (cases "hm_get (sl_dir s) (batch_name (sl_next_seq s) kind)") (auto simp: before_next_def)

lemma kind_bytes_stored:
  assumes "spool_inv s"
  shows "kind_bytes (sl_dir (stored io kind body s)) k =
    kind_bytes (sl_dir s) k + (if k = kind then 5 + length body else 0)"
proof -
  let ?f = "\<lparr>sf_data = batch_bytes kind body, sf_mtime = io_now io\<rparr>" and ?tmp = "tmp_name (sl_next_seq s)"
  have "kind_bytes (hm_remove ?tmp (hm_insert ?tmp ?f (sl_dir s))) k = kind_bytes (sl_dir s) k"
    using kind_bytes_remove [of "hm_insert ?tmp ?f (sl_dir s)" ?tmp ?f k] spool_invD(1) [OF assms]
    by (simp add: kind_bytes_insert_other)
  then show ?thesis
    by (simp add: stored_def Let_def kind_bytes_insert next_name_free [OF assms])
qed

lemma stored_inv:
  assumes inv: "spool_inv s" and room: "has_room s kind body"
  shows "spool_inv (stored io kind body s)"
proof -
  have "unat (sl_totals s kind + of_nat (5 + length body)) = kind_bytes (sl_dir s) kind + (5 + length body)"
    using room spool_invD(2) [OF inv, of kind] unat_of_nat64 [of "5 + length body"]
    unfolding has_room_def by (simp add: unat_word_ariths)
  then have "unat (sl_totals (stored io kind body s) k) = kind_bytes (sl_dir (stored io kind body s)) k" for k
    using spool_invD(2) [OF inv, of k] by (simp add: kind_bytes_stored [OF inv]) (simp add: stored_def Let_def)
  moreover have "hm_ok (sl_dir (stored io kind body s))"
    using spool_invD(1) [OF inv] by (simp add: stored_def Let_def)
  moreover have "well_named p f \<and> before_next (sl_next_seq s + 1) p"
    if get: "hm_get (sl_dir (stored io kind body s)) p = Some f" for p f
  proof (cases "p = batch_name (sl_next_seq s) kind")
    case True
    with get have f: "sf_data f = batch_bytes kind body" by (auto simp: hm_get_stored)
    have "well_named p f" using read_batch_bytes_kind by (auto simp: well_named_def True f)
    moreover have "before_next (sl_next_seq s + 1) p"
      using room less_next [of "sl_next_seq s"] by (auto simp: True before_next_def has_room_def)
    ultimately show ?thesis by simp
  next
    case False
    with get have "hm_get (sl_dir s) p = Some f" by (simp add: hm_get_stored split: if_splits)
    with spool_invD(3,4) [OF inv] room show ?thesis by (auto simp: has_room_def intro: before_next_Suc)
  qed
  moreover have "sl_next_seq (stored io kind body s) = sl_next_seq s + 1" by (simp add: stored_def Let_def)
  ultimately show ?thesis by (simp add: spool_inv_def)
qed

lemma tmp_file_inv:
  assumes inv: "spool_inv s" and room: "has_room s kind body"
  shows "spool_inv (s\<lparr>sl_next_seq := sl_next_seq s + 1\<rparr>)"
    and "spool_inv (s\<lparr>sl_next_seq := sl_next_seq s + 1, sl_dir := hm_insert (tmp_name n) f (sl_dir s)\<rparr>)"
proof -
  have "well_named p g \<and> before_next (sl_next_seq s + 1) p" if "hm_get (sl_dir s) p = Some g" for p g
    using that spool_invD(3,4) [OF inv] room by (auto simp: has_room_def intro: before_next_Suc)
  moreover have "well_named (tmp_name n) f \<and> before_next (sl_next_seq s + 1) (tmp_name n)"
    using parse_extension [of "tmp_name n"] by (auto simp: well_named_def before_next_def)
  ultimately show "spool_inv (s\<lparr>sl_next_seq := sl_next_seq s + 1\<rparr>)"
    "spool_inv (s\<lparr>sl_next_seq := sl_next_seq s + 1, sl_dir := hm_insert (tmp_name n) f (sl_dir s)\<rparr>)"
    using spool_invD(1,2) [OF inv] by (auto simp: spool_inv_def kind_bytes_insert_other)
qed

lemma spool_append_inv:
  assumes "spool_inv s" and "has_room s kind body" and "\<forall>p. io_meta io p"
  shows "spool_inv (snd (spool_append io kind body s))"
proof (cases "fst (spool_append io kind body s) = Inr ()")
  case True
  then show ?thesis
    by (simp add: spool_append_ok(2) enforce_cap_inv stored_inv assms)
next
  case False
  then show ?thesis
    using tmp_file_inv [OF assms(1,2)] by (auto simp: spool_append_def Let_def split: write_outcome.splits if_splits)
qed

section \<open>Draining and pruning\<close>

lemma read_batch_kind:
  "spool_inv s \<Longrightarrow> extension p = Some ''batch'' \<Longrightarrow> read_batch io (sl_dir s) p = Inr (kind, body) \<Longrightarrow> name_kind p = Some kind"
  using spool_invD(3) [of s p] by (auto simp: read_batch_def well_named_def split: option.splits if_splits)

lemma drain_loop_inv:
  assumes "\<forall>p. io_meta io p" and "\<forall>n t. spool_inv t \<longrightarrow> spool_inv (others n t)"
  shows "spool_inv s \<Longrightarrow> \<forall>p\<in>set ps. extension p = Some ''batch'' \<Longrightarrow>
    spool_inv (snd (snd (drain_loop io sender others n ps rep s)))"
proof (induction ps arbitrary: n rep s)
  case (Cons p ps)
  show ?case
  proof (cases "read_batch io (sl_dir s) p")
    case (Inl e)
    with Cons assms remove_and_untrack_inv [of s io p "name_kind p"] show ?thesis by simp
  next
    case (Inr kb)
    obtain kind body where kb: "kb = (kind, body)" by (cases kb)
    have kind: "name_kind p = Some kind" using read_batch_kind [OF Cons.prems(1)] Cons.prems(2) Inr kb by auto
    have "spool_inv (others n s)" using assms(2) Cons.prems(1) by blast
    then have rem: "spool_inv (remove_and_untrack io p (Some kind) (others n s))"
      "spool_inv (remove_and_untrack io p (Some kind) (record_drop (others n s) kind Rejected))"
      using assms(1) kind by (auto intro: remove_and_untrack_inv)
    have IH: "spool_inv t \<Longrightarrow> spool_inv (snd (snd (drain_loop io sender others m ps r t)))" for m r t
      using Cons.IH Cons.prems(2) by simp
    from Inr kb \<open>spool_inv (others n s)\<close> IH [OF rem(1)] IH [OF rem(2)] show ?thesis
      by (cases "sender n kind body") (simp_all add: Let_def split_beta case_unit_Unity)
  qed
qed simp

lemma drain_inv:
  assumes "spool_inv s" and "\<forall>p. io_meta io p" and "\<forall>n t. spool_inv t \<longrightarrow> spool_inv (others n t)"
  shows "spool_inv (snd (snd (drain io sender others lim s)))"
proof -
  have "\<forall>p\<in>set (take lim (sort (filter (\<lambda>p. extension p = Some ''batch'') (map fst (sl_dir s))))). extension p = Some ''batch''"
    by (auto dest!: in_set_takeD)
  from drain_loop_inv [OF assms(2,3,1) this] assms(1) show ?thesis
    by (simp add: drain_def list_batch_files_def Let_def)
qed

lemma prune_one_inv:
  assumes "\<forall>p. io_meta io p" and "spool_inv (snd ns)"
  shows "spool_inv (snd (prune_one io max_age p ns))"
proof -
  have "spool_inv (case name_kind p of Some k \<Rightarrow> record_drop (snd ns) k Age | None \<Rightarrow> snd ns)"
    using assms(2) by (simp split: option.split)
  then show ?thesis
    using assms by (auto simp: prune_one_def split_beta intro: remove_and_untrack_inv)
qed

lemma prune_inv:
  assumes "spool_inv s" and "\<forall>p. io_meta io p"
  shows "spool_inv (snd (prune_older_than io max_age s))"
proof -
  have "spool_inv (snd (fold (prune_one io max_age) fs (0, s)))" for fs
  proof (rule fold_invariant [where Q = "\<lambda>_. True" and P = "\<lambda>ns. spool_inv (snd ns)"])
    show "spool_inv (snd (prune_one io max_age p ns))" if "spool_inv (snd ns)" for p ns
      using prune_one_inv [OF assms(2) that] .
  qed (use assms in simp_all)
  then show ?thesis
    using assms(1) by (simp add: prune_older_than_def split_beta split: option.split)
qed

text \<open>
  C28 (invariant). The totals that the quotas are checked against are the bytes on disk: every
  operation of the spool, whether its writes, renames and removals succeed or fail and whatever the
  other tasks that share the spool do while a drain waits for the collector, keeps each kind's total
  equal to the sizes of the files of that kind, every batch under the name of its kind, and every
  sequence number in use below the next one.
\<close>

theorem spool_accounts_exact:
  assumes "spool_inv s" and "\<forall>p. io_meta io p" and "has_room s kind body"
    and "\<forall>n t. spool_inv t \<longrightarrow> spool_inv (others n t)"
  shows "spool_inv (snd (spool_append io kind body s)) \<and>
    spool_inv (snd (snd (drain io sender others lim s))) \<and>
    spool_inv (snd (prune_older_than io max_age s)) \<and> spool_inv (record_rejected_batch s kind)"
  using spool_append_inv [OF assms(1,3,2)] drain_inv [OF assms(1,2,4)] prune_inv [OF assms(1,2)] assms(1)
  by (simp add: record_rejected_batch_def)

section \<open>The quota of a kind\<close>

definition without :: "str list \<Rightarrow> spool_dir \<Rightarrow> spool_dir" where
  "without ps d = filter (\<lambda>(p, f). p \<notin> set ps) d"

lemma without_Nil [simp]: "without [] d = d"
  by (simp add: without_def split_beta)

lemma without_Cons: "without (p # ps) d = without ps (hm_remove p d)"
  by (auto simp: without_def AList.delete_eq split_beta intro!: filter_cong)

lemma hm_get_without: "hm_get (without ps d) p = (if p \<in> set ps then None else hm_get d p)"
  by (induction d) (auto simp: without_def)

lemma kind_bytes_none: "\<forall>p. hm_get d p \<noteq> None \<longrightarrow> name_kind p \<noteq> Some k \<Longrightarrow> kind_bytes d k = 0"
proof (induction d)
  case (Cons x d)
  obtain q f where x: "x = (q, f)" by (cases x)
  have "name_kind q \<noteq> Some k" using Cons.prems [rule_format, of q] x by simp
  moreover have "\<forall>p. hm_get d p \<noteq> None \<longrightarrow> name_kind p \<noteq> Some k" using Cons.prems x by (metis map_of_Cons_code(2) option.distinct(1))
  ultimately show ?case using Cons.IH x by simp
qed simp

lemma drop_while_over_exact:
  assumes "io_works io"
  shows "spool_inv s \<Longrightarrow> distinct ps \<Longrightarrow> \<forall>p. p \<in> set ps \<longleftrightarrow> hm_get (sl_dir s) p \<noteq> None \<and> name_kind p = Some kind \<Longrightarrow>
    drop_while_over io kind ps s = (n, s') \<Longrightarrow>
    sl_dir s' = without (take n ps) (sl_dir s) \<and> sl_quotas s' = sl_quotas s \<and>
    kind_bytes (sl_dir s') kind \<le> unat (quota_for s kind) \<and>
    (\<forall>m<n. unat (quota_for s kind) < kind_bytes (without (take m ps) (sl_dir s)) kind) \<and>
    sl_dropped s' Quota kind = sl_dropped s Quota kind + of_nat n"
proof (induction ps arbitrary: s n s')
  case Nil
  then have "\<forall>p. hm_get (sl_dir s) p \<noteq> None \<longrightarrow> name_kind p \<noteq> Some kind" by (metis list.set(1) empty_iff)
  then have "kind_bytes (sl_dir s) kind = 0" by (rule kind_bytes_none)
  with Nil show ?case by simp
next
  case (Cons p ps)
  note total = spool_invD(2) [OF Cons.prems(1), of kind]
  show ?case
  proof (cases "sl_totals s kind \<le> quota_for s kind")
    case True
    with Cons.prems(4) total show ?thesis by (auto simp: word_le_nat_alt)
  next
    case over: False
    obtain f where f: "hm_get (sl_dir s) p = Some f" and kind: "name_kind p = Some kind"
      using Cons.prems(3) [rule_format, of p] by auto
    let ?s = "record_drop (s\<lparr>sl_dir := hm_remove p (sl_dir s),
      sl_totals := (sl_totals s)(kind := sat_sub64 (sl_totals s kind) (file_len io (sl_dir s) p))\<rparr>) kind Quota"
    have ok: "remove_ok io (sl_dir s) p" "\<forall>p. io_meta io p" using assms f by (auto simp: remove_ok_def io_works_def)
    obtain m where m: "drop_while_over io kind ps ?s = (m, s')" "n = Suc m"
      using Cons.prems(4) over ok by (auto simp: Let_def split: prod.splits)
    have inv: "spool_inv ?s" using untrack_inv [OF Cons.prems(1) _ kind f, of io] ok by simp
    have files: "\<forall>q. q \<in> set ps \<longleftrightarrow> hm_get (sl_dir ?s) q \<noteq> None \<and> name_kind q = Some kind"
      using Cons.prems(2,3) by auto
    have quota: "quota_for ?s kind = quota_for s kind" "sl_quotas ?s = sl_quotas s"
      by (simp_all add: quota_for_def split: signal_kind.split)
    have counted: "sl_dropped ?s Quota kind = sl_dropped s Quota kind + 1" by (simp add: record_drop_def)
    have "unat (quota_for s kind) < kind_bytes (without (take i (p # ps)) (sl_dir s)) kind" if "i < n" for i
      using that Cons.IH [OF inv _ files m(1)] Cons.prems(2) over total m(2) quota
      by (cases i) (auto simp: without_Cons word_le_nat_alt)
    with Cons.IH [OF inv _ files m(1)] Cons.prems(2) m(2) quota counted show ?thesis
      by (auto simp: without_Cons)
  qed
qed

text \<open>
  Further property (safety). What a successful append leaves when removals work: the new batch and the old ones,
  of which the fewest are dropped that bring the kind within its quota, counted as quota losses; the
  oldest go first for metrics and events, the newest (so the new batch itself) for application
  logs. The batches of the other kinds are untouched, so a flood of application logs cannot evict
  the audit events.
\<close>

theorem append_evicts_least:
  assumes "spool_inv s" and "has_room s kind body" and "io_works io"
    and "spool_append io kind body s = (Inr (), s')"
  shows "let t = stored io kind body s;
      ps = eviction_order kind (filter (\<lambda>p. name_kind p = Some kind) (map fst (sl_dir t)))
    in sorted (if kind = AppLogs then rev ps else ps) \<and>
     (\<exists>n. sl_dir s' = without (take n ps) (sl_dir t) \<and> kind_bytes (sl_dir s') kind \<le> unat (quota_for s kind) \<and>
      (\<forall>m<n. unat (quota_for s kind) < kind_bytes (without (take m ps) (sl_dir t)) kind) \<and>
      sl_dropped s' Quota kind = sl_dropped s Quota kind + of_nat n \<and>
      (\<forall>p k. name_kind p = Some k \<and> k \<noteq> kind \<longrightarrow> hm_get (sl_dir s') p = hm_get (sl_dir s) p))"
proof -
  let ?t = "stored io kind body s"
  let ?ps = "eviction_order kind (filter (\<lambda>p. name_kind p = Some kind) (map fst (sl_dir ?t)))"
  have inv: "spool_inv ?t" by (rule stored_inv [OF assms(1,2)])
  have s': "s' = enforce_cap io kind ?t" using spool_append_ok(2) [of io kind body s] assms(4) by simp
  have same: "quota_for ?t kind = quota_for s kind" "sl_dropped ?t = sl_dropped s"
    by (simp_all add: stored_def Let_def quota_for_def split: signal_kind.split)
  have dist: "distinct ?ps"
    using spool_invD(1) [OF inv] by (auto simp: eviction_order_def hm_ok_def)
  have files: "\<forall>p. p \<in> set ?ps \<longleftrightarrow> hm_get (sl_dir ?t) p \<noteq> None \<and> name_kind p = Some kind"
    by (auto simp: map_of_eq_None_iff)
  have other: "hm_get (without (take n ?ps) (sl_dir ?t)) p = hm_get (sl_dir s) p" if "name_kind p = Some k" "k \<noteq> kind" for n p k
    using that files in_set_takeD [of p n ?ps] by (auto simp: hm_get_without hm_get_stored)
  have order: "sorted (if kind = AppLogs then rev ?ps else ?ps)" by (simp add: eviction_order_def)
  show ?thesis
  proof (cases "sl_totals ?t kind \<le> quota_for ?t kind")
    case True
    then have "s' = ?t" by (simp add: s' enforce_cap_def)
    with True order spool_invD(2) [OF inv, of kind] same other [of _ _ 0] show ?thesis
      by (auto simp: Let_def word_le_nat_alt intro!: exI [of _ 0])
  next
    case False
    obtain n u where nu: "drop_while_over io kind ?ps ?t = (n, u)" by fastforce
    have "sl_dir s' = sl_dir u" "sl_dropped s' = sl_dropped u"
      using False assms(3) nu by (auto simp: s' enforce_cap_def list_batch_files_for_kind_def io_works_def)
    with drop_while_over_exact [OF assms(3) inv dist files nu] same other order show ?thesis
      by (auto simp: Let_def intro!: exI [of _ n])
  qed
qed

section \<open>What a drain sends\<close>

text \<open>The batches of a list of files, and the answers of the sender to a list of batches.\<close>

definition batches_of :: "spool_io \<Rightarrow> spool_dir \<Rightarrow> str list \<Rightarrow> (signal_kind \<times> bytes) list" where
  "batches_of io d ps = List.map_filter (\<lambda>p. case read_batch io d p of Inr b \<Rightarrow> Some b | Inl _ \<Rightarrow> None) ps"

fun answers ::
  "(nat \<Rightarrow> signal_kind \<Rightarrow> bytes \<Rightarrow> push_error + unit) \<Rightarrow> nat \<Rightarrow> (signal_kind \<times> bytes) list \<Rightarrow> (push_error + unit) list" where
  "answers sender n [] = []"
| "answers sender n ((k, b) # bs) = sender n k b # answers sender (Suc n) bs"

fun transient :: "push_error + unit \<Rightarrow> bool" where
  "transient (Inl e) = (\<not> is_permanent e)"
| "transient (Inr u) = False"

fun refused :: "push_error + unit \<Rightarrow> bool" where
  "refused (Inl e) = is_permanent e"
| "refused (Inr u) = False"

definition accepted :: "push_error + unit \<Rightarrow> bool" where
  "accepted a = (a = Inr ())"

lemma batches_of_simps [simp]:
  "batches_of io d [] = []"
  "batches_of io d (p # ps) = (case read_batch io d p of Inr b \<Rightarrow> [b] | Inl _ \<Rightarrow> []) @ batches_of io d ps"
  by (simp_all add: batches_of_def map_filter_simps split: sum.split)

lemma batches_of_remove: "p \<notin> set ps \<Longrightarrow> batches_of io (hm_remove p d) ps = batches_of io d ps"
  by (induction ps) (auto simp: read_batch_def)

lemma remove_and_untrack_dir:
  "io_works io \<Longrightarrow> hm_get (sl_dir s) p \<noteq> None \<Longrightarrow> sl_dir (remove_and_untrack io p k s) = hm_remove p (sl_dir s)"
  by (auto simp: remove_and_untrack_def remove_ok_def io_works_def Let_def split: option.splits)

text \<open>What holds of the result of the loop, for the files, counters and state it starts from.\<close>

definition drained_files ::
  "spool_io \<Rightarrow> str list \<Rightarrow> spool_dir \<Rightarrow> bool \<Rightarrow> (signal_kind \<times> bytes) list \<Rightarrow> spool_dir \<Rightarrow> bool" where
  "drained_files io ps d failed sent d' \<longleftrightarrow>
     (\<exists>k\<le>length ps. d' = without (take k ps) d \<and>
       sent = batches_of io d (take (if failed then Suc k else k) ps) \<and>
       (if failed then k < length ps \<and> (\<exists>b. read_batch io d (ps ! k) = Inr b) else k = length ps))"

definition drained_exactly ::
  "spool_io \<Rightarrow> (nat \<Rightarrow> signal_kind \<Rightarrow> bytes \<Rightarrow> push_error + unit) \<Rightarrow> nat \<Rightarrow> str list \<Rightarrow> spool_dir \<Rightarrow> nat \<Rightarrow> nat \<Rightarrow>
     (signal_kind \<times> bytes) list \<Rightarrow> drain_report \<Rightarrow> spool_dir \<Rightarrow> bool" where
  "drained_exactly io sender n ps d d0 r0 sent rep d' \<longleftrightarrow>
     drained_files io ps d (dr_failed rep) sent d' \<and>
     dr_failed rep = list_ex transient (answers sender n sent) \<and>
     list_all (\<lambda>a. \<not> transient a) (if dr_failed rep then butlast (answers sender n sent) else answers sender n sent) \<and>
     dr_drained rep = d0 + length (filter accepted (answers sender n sent)) \<and>
     dr_rejected rep = r0 + length (filter refused (answers sender n sent))"

lemma length_answers [simp]: "length (answers sender n bs) = length bs"
  by (induction bs arbitrary: n) auto

lemma answers_Nil_iff [simp]: "answers sender n bs = [] \<longleftrightarrow> bs = []"
  by (metis length_0_conv length_answers)

lemma drained_files_Cons:
  assumes "p \<notin> set ps" and "drained_files io ps (hm_remove p d) failed sent d'"
  shows "drained_files io (p # ps) d failed ((case read_batch io d p of Inr b \<Rightarrow> [b] | Inl _ \<Rightarrow> []) @ sent) d'"
proof -
  obtain k where "k \<le> length ps" "d' = without (take k ps) (hm_remove p d)"
    "sent = batches_of io (hm_remove p d) (take (if failed then Suc k else k) ps)"
    "if failed then k < length ps \<and> (\<exists>b. read_batch io (hm_remove p d) (ps ! k) = Inr b) else k = length ps"
    using assms(2) unfolding drained_files_def by blast
  moreover have "batches_of io (hm_remove p d) (take i ps) = batches_of io d (take i ps)" for i
    by (rule batches_of_remove) (use assms(1) in_set_takeD in fast)
  moreover have "read_batch io (hm_remove p d) (ps ! k) = read_batch io d (ps ! k)" if "k < length ps" for k
    using assms(1) nth_mem [OF that] by (auto simp: read_batch_def)
  ultimately show ?thesis
    unfolding drained_files_def by (intro exI [of _ "Suc k"]) (auto simp: without_Cons)
qed

lemma drained_exactly_skip:
  assumes "read_batch io d p = Inl e" and "p \<notin> set ps"
    and "drained_exactly io sender n ps (hm_remove p d) d0 r0 sent rep d'"
  shows "drained_exactly io sender n (p # ps) d d0 r0 sent rep d'"
  using assms drained_files_Cons [of p ps io d "dr_failed rep" sent d']
  by (cases "dr_failed rep") (auto simp: drained_exactly_def)

lemma drained_exactly_sent:
  assumes "read_batch io d p = Inr (kind, body)" and "p \<notin> set ps" and "\<not> transient (sender n kind body)"
    and rest: "drained_exactly io sender (Suc n) ps (hm_remove p d) d0 r0 sent rep d'"
    and "d0 = d1 + (if accepted (sender n kind body) then 1 else 0)" and "r0 = r1 + (if refused (sender n kind body) then 1 else 0)"
  shows "drained_exactly io sender n (p # ps) d d1 r1 ((kind, body) # sent) rep d'"
proof -
  have "sent \<noteq> []" if "dr_failed rep" using that rest by (auto simp: drained_exactly_def)
  then show ?thesis
    using assms drained_files_Cons [of p ps io d "dr_failed rep" sent d']
    by (cases "dr_failed rep") (auto simp: drained_exactly_def)
qed

lemma drain_loop_exact:
  assumes "io_works io"
  shows "distinct ps \<Longrightarrow> \<forall>p\<in>set ps. hm_get (sl_dir s) p \<noteq> None \<Longrightarrow> \<not> dr_failed rep \<Longrightarrow>
    drain_loop io sender (\<lambda>_ t. t) n ps rep s = (sent, rep', s') \<Longrightarrow>
    drained_exactly io sender n ps (sl_dir s) (dr_drained rep) (dr_rejected rep) sent rep' (sl_dir s')"
proof (induction ps arbitrary: n rep s sent rep' s')
  case Nil
  then show ?case by (auto simp: drained_exactly_def drained_files_def)
next
  case (Cons p ps)
  have dir: "sl_dir (remove_and_untrack io p k t) = hm_remove p (sl_dir s)" if "sl_dir t = sl_dir s" for k t
    using remove_and_untrack_dir [OF assms] Cons.prems(2) that by simp
  have rest: "\<forall>q\<in>set ps. hm_get (hm_remove p (sl_dir s)) q \<noteq> None" "distinct ps" "p \<notin> set ps"
    using Cons.prems(1,2) by auto
  note IH = Cons.IH [OF rest(2)]
  show ?case
  proof (cases "read_batch io (sl_dir s) p")
    case (Inl e)
    with Cons.prems(3,4) IH [of "remove_and_untrack io p (name_kind p) s"] rest(1) show ?thesis
      by (intro drained_exactly_skip [OF Inl rest(3)]) (simp add: dir)
  next
    case (Inr kb)
    obtain kind body where kb: "kb = (kind, body)" by (cases kb)
    note Inr' = Inr [unfolded kb]
    show ?thesis
    proof (cases "transient (sender n kind body)")
      case True
      then obtain e where e: "sender n kind body = Inl e" "\<not> is_permanent e" by (cases "sender n kind body") auto
      with Cons.prems(4) Inr' have "sent = [(kind, body)]" "s' = s" "dr_failed rep'"
        "dr_drained rep' = dr_drained rep" "dr_rejected rep' = dr_rejected rep" by (auto simp: Let_def)
      then show ?thesis
        using e Inr' by (auto simp: drained_exactly_def drained_files_def accepted_def intro!: exI [of _ 0])
    next
      case False
      note step = drained_exactly_sent [where sender = sender and n = n, OF Inr' rest(3) False]
      from False consider "sender n kind body = Inr ()" | e where "sender n kind body = Inl e" "is_permanent e"
        by (cases "sender n kind body") auto
      then show ?thesis
      proof cases
        case 1
        obtain rest' rep2 s2 where loop: "drain_loop io sender (\<lambda>_ t. t) (Suc n) ps
            (rep\<lparr>dr_drained := dr_drained rep + 1\<rparr>) (remove_and_untrack io p (Some kind) s) = (rest', rep2, s2)"
          by (rule prod_cases3)
        have sent: "sent = (kind, body) # rest'" "rep2 = rep'" "s2 = s'"
          using Cons.prems(4) Inr' 1 loop by (simp_all add: Let_def case_unit_Unity)
        from IH [OF _ _ loop] Cons.prems(3) rest(1)
        have "drained_exactly io sender (Suc n) ps (hm_remove p (sl_dir s)) (dr_drained rep + 1) (dr_rejected rep) rest' rep' (sl_dir s')"
          by (simp add: dir sent(2,3))
        then show ?thesis unfolding sent(1) by (rule step) (simp_all add: 1 accepted_def)
      next
        case (2 e)
        obtain rest' rep2 s2 where loop: "drain_loop io sender (\<lambda>_ t. t) (Suc n) ps
            (rep\<lparr>dr_rejected := dr_rejected rep + 1, dr_last_error := Some (kind, e)\<rparr>)
            (remove_and_untrack io p (Some kind) (record_drop s kind Rejected)) = (rest', rep2, s2)"
          by (rule prod_cases3)
        have sent: "sent = (kind, body) # rest'" "rep2 = rep'" "s2 = s'"
          using Cons.prems(4) Inr' 2 loop by (simp_all add: Let_def)
        from IH [OF _ _ loop] Cons.prems(3) rest(1)
        have "drained_exactly io sender (Suc n) ps (hm_remove p (sl_dir s)) (dr_drained rep) (dr_rejected rep + 1) rest' rep' (sl_dir s')"
          by (simp add: dir sent(2,3))
        then show ?thesis unfolding sent(1) by (rule step) (simp_all add: 2 accepted_def)
      qed
    qed
  qed
qed

text \<open>
  Further property (functional). What a drain does when nothing else touches the spool: it hands the readable
  batches among the first files in name order to the sender, one call each, up to and including the
  first transient failure; the files before that one are gone, sent, refused for good or unreadable,
  and all others stay as they were; the report counts exactly the accepted and the refused batches.
\<close>

theorem drain_sends_in_order:
  assumes "io_works io" and "hm_ok (sl_dir s)" and "drain io sender (\<lambda>_ t. t) lim s = (sent, rep, s')"
  shows "let fs = take lim (sort (filter (\<lambda>p. extension p = Some ''batch'') (map fst (sl_dir s))));
      as = answers sender 0 sent
    in (\<exists>k\<le>length fs. sl_dir s' = without (take k fs) (sl_dir s) \<and>
         sent = batches_of io (sl_dir s) (take (if dr_failed rep then Suc k else k) fs) \<and>
         (if dr_failed rep then k < length fs \<and> (\<exists>b. read_batch io (sl_dir s) (fs ! k) = Inr b) else k = length fs)) \<and>
       dr_failed rep = list_ex transient as \<and>
       list_all (\<lambda>a. \<not> transient a) (if dr_failed rep then butlast as else as) \<and>
       dr_drained rep = length (filter accepted as) \<and> dr_rejected rep = length (filter refused as)"
proof -
  let ?fs = "take lim (sort (filter (\<lambda>p. extension p = Some ''batch'') (map fst (sl_dir s))))"
  have "distinct ?fs" using assms(2) by (simp add: hm_ok_def)
  moreover have "\<forall>p\<in>set ?fs. hm_get (sl_dir s) p \<noteq> None"
    by (auto dest!: in_set_takeD simp: map_of_eq_None_iff image_iff)
  moreover have loop: "drain_loop io sender (\<lambda>_ t. t) 0 ?fs
      \<lparr>dr_drained = 0, dr_rejected = 0, dr_failed = False, dr_last_error = None\<rparr> s = (sent, rep, s')"
    using assms(1,3) by (simp add: drain_def list_batch_files_def io_works_def Let_def)
  ultimately have "drained_exactly io sender 0 ?fs (sl_dir s) 0 0 sent rep (sl_dir s')"
    using drain_loop_exact [OF assms(1) _ _ _ loop] by simp
  then show ?thesis unfolding drained_exactly_def drained_files_def Let_def add_0 .
qed

section \<open>First in, first out\<close>

definition append_all :: "spool_io \<Rightarrow> (signal_kind \<times> bytes) list \<Rightarrow> spool \<Rightarrow> spool" where
  "append_all io bs s = fold (\<lambda>(k, body) s. snd (spool_append io k body s)) bs s"

definition spool_bytes :: "(signal_kind \<times> bytes) list \<Rightarrow> nat" where
  "spool_bytes bs = sum_list (map (\<lambda>(k, body). 5 + length body) bs)"

definition empty_spool :: "spool_quotas \<Rightarrow> spool" where
  "empty_spool quotas = \<lparr>sl_dir = [], sl_quotas = quotas, sl_next_seq = 1, sl_totals = (\<lambda>_. 0),
     sl_dropped = (\<lambda>_ _. 0), sl_last_drop_warn = (\<lambda>_. 0)\<rparr>"

lemma spool_open_empty: "io_list io \<Longrightarrow> spool_open io quotas [] = Some (empty_spool quotas)"
  by (simp add: spool_open_def empty_spool_def enforce_cap_def)

lemma empty_spool_inv [simp]: "spool_inv (empty_spool quotas)"
  by (simp add: spool_inv_def empty_spool_def)

text \<open>The directory after appending to an empty spool: one file per batch, numbered from 1.\<close>

definition numbered :: "spool_io \<Rightarrow> (signal_kind \<times> bytes) list \<Rightarrow> spool_dir" where
  "numbered io bs = map (\<lambda>(i, k, body). (batch_name (of_nat (Suc i)) k,
     \<lparr>sf_data = batch_bytes k body, sf_mtime = io_now io\<rparr>)) (enumerate 0 bs)"

lemma update_new: "k \<notin> fst ` set d \<Longrightarrow> hm_insert k v d = d @ [(k, v)]"
  by (induction d) auto

lemma numbered_snoc:
  "numbered io (bs @ [(k, body)]) = numbered io bs @ [(batch_name (of_nat (Suc (length bs))) k,
     \<lparr>sf_data = batch_bytes k body, sf_mtime = io_now io\<rparr>)]"
  by (simp add: numbered_def enumerate_append_eq)

lemma numbered_names: "p \<in> fst ` set (numbered io bs) \<Longrightarrow> \<exists>i k. i < length bs \<and> p = batch_name (of_nat (Suc i)) k"
  by (auto simp: numbered_def in_set_enumerate_eq)

lemma spool_bytes_simps [simp]:
  "spool_bytes [] = 0" "spool_bytes (bs @ [(k, body)]) = spool_bytes bs + 5 + length body"
  by (simp_all add: spool_bytes_def)

lemma length_spool_bytes: "length bs \<le> spool_bytes bs"
  by (induction bs) (auto simp: spool_bytes_def)

lemma kind_bytes_numbered: "kind_bytes (numbered io bs) k \<le> spool_bytes bs"
proof (induction bs rule: rev_induct)
  case (snoc kb bs)
  obtain k' body where "kb = (k', body)" by (cases kb)
  with snoc show ?case by (auto simp: numbered_snoc kind_bytes_def)
qed (simp add: numbered_def)

lemma append_all_numbered:
  assumes "io_write io = Written" and "\<forall>p. io_rename io p"
  shows "\<forall>k. spool_bytes bs \<le> unat (quota_for (empty_spool quotas) k) \<Longrightarrow> spool_bytes bs + 2 < 2 ^ 64 \<Longrightarrow>
    spool_inv (append_all io bs (empty_spool quotas)) \<and> sl_dir (append_all io bs (empty_spool quotas)) = numbered io bs \<and>
    sl_quotas (append_all io bs (empty_spool quotas)) = quotas \<and>
    sl_next_seq (append_all io bs (empty_spool quotas)) = of_nat (Suc (length bs))"
proof (induction bs rule: rev_induct)
  case Nil
  then show ?case by (simp add: append_all_def empty_spool_def numbered_def) (simp add: empty_spool_def [symmetric])
next
  case (snoc kb bs)
  obtain k body where kb: "kb = (k, body)" by (cases kb)
  let ?s = "append_all io bs (empty_spool quotas)" and ?n = "of_nat (Suc (length bs)) :: u64"
  have le: "spool_bytes bs + 5 + length body \<le> unat (quota_for (empty_spool quotas) k)" for k
    using snoc.prems(1) [rule_format, of k] by (simp add: kb)
  have "\<forall>k. spool_bytes bs \<le> unat (quota_for (empty_spool quotas) k)" using le by (metis add_leD1 add.assoc)
  with snoc have inv: "spool_inv ?s" and dir: "sl_dir ?s = numbered io bs"
    and q: "sl_quotas ?s = quotas" and nxt: "sl_next_seq ?s = ?n" by (simp_all add: kb)
  have small: "Suc (length bs) + 1 < 2 ^ 64" using snoc.prems(2) length_spool_bytes [of bs] by (simp add: kb)
  then have n: "unat ?n = Suc (length bs)" by (intro unat_of_nat64) simp
  have room: "has_room ?s k body"
    using small snoc.prems(2) kind_bytes_numbered [of io bs k] unfolding has_room_def nxt n dir by (simp add: kb)
  have "tmp_name ?n \<notin> fst ` set (numbered io bs)" using numbered_names [of "tmp_name ?n" io bs] by auto
  moreover have "hm_get (numbered io bs) (batch_name ?n k) = None" using next_name_free [OF inv, of k] by (simp add: dir nxt)
  ultimately have "sl_dir (stored io k body ?s) = numbered io (bs @ [kb])"
    by (simp add: stored_def Let_def dir nxt kb numbered_snoc update_new map_of_eq_None_iff AList.delete_update_same)
  moreover have "sl_totals (stored io k body ?s) k \<le> quota_for (stored io k body ?s) k"
  proof -
    have "unat (sl_totals (stored io k body ?s) k) = kind_bytes (numbered io (bs @ [kb])) k"
      using spool_invD(2) [OF stored_inv [OF inv room]] calculation by simp
    also have "\<dots> \<le> unat (quota_for (empty_spool quotas) k)"
      using kind_bytes_numbered [of io "bs @ [kb]" k] le [of k] by (simp add: kb)
    also have "quota_for (empty_spool quotas) k = quota_for (stored io k body ?s) k"
      using q by (cases k) (simp_all add: quota_for_def stored_def Let_def empty_spool_def [of quotas])
    finally show ?thesis by (simp add: word_le_nat_alt)
  qed
  then have "enforce_cap io k (stored io k body ?s) = stored io k body ?s" by (simp add: enforce_cap_def)
  then have "append_all io (bs @ [kb]) (empty_spool quotas) = stored io k body ?s"
    using spool_append_ok [of io k body ?s] assms by (simp add: append_all_def kb)
  moreover have "sl_next_seq (stored io k body ?s) = of_nat (Suc (Suc (length bs)))" "sl_quotas (stored io k body ?s) = quotas"
    by (simp_all add: stored_def Let_def nxt q)
  ultimately show ?case using stored_inv [OF inv room, of io] by simp
qed

lemma numbered_nth:
  "i < length bs \<Longrightarrow> numbered io bs ! i = (batch_name (of_nat (Suc i)) (fst (bs ! i)),
     \<lparr>sf_data = batch_bytes (fst (bs ! i)) (snd (bs ! i)), sf_mtime = io_now io\<rparr>)"
  by (simp add: numbered_def nth_enumerate_eq split_beta)

lemma length_numbered [simp]: "length (numbered io bs) = length bs"
  by (simp add: numbered_def)

lemma numbered_sorted:
  assumes "length bs + 1 < 2 ^ 64"
  shows "sort (filter (\<lambda>p. extension p = Some ''batch'') (map fst (numbered io bs))) = map fst (numbered io bs)"
proof -
  have ext: "filter (\<lambda>p. extension p = Some ''batch'') (map fst (numbered io bs)) = map fst (numbered io bs)"
    by (auto simp: filter_id_conv numbered_def batch_name_split)
  have "map fst (numbered io bs) ! i \<le> map fst (numbered io bs) ! j" if "i \<le> j" "j < length bs" for i j
  proof (cases "i = j")
    case False
    with that assms have "(of_nat (Suc i) :: u64) < of_nat (Suc j)"
      using unat_of_nat64 [of "Suc i"] unat_of_nat64 [of "Suc j"] by (simp add: word_less_nat_alt del: of_nat_Suc)
    from batch_name_less [OF this] that False show ?thesis
      by (simp add: numbered_nth order_less_imp_le del: of_nat_Suc)
  qed simp
  then have "sorted (map fst (numbered io bs))" by (simp add: sorted_iff_nth_mono)
  then show ?thesis by (simp add: ext sorted_sort_id)
qed

lemma batches_of_listed:
  "list_all2 (\<lambda>x b. hm_get d (fst x) = Some (snd x) \<and> read_batch_data (sf_data (snd x)) = Inr b) xs ys \<Longrightarrow>
     \<forall>p. io_read io p \<Longrightarrow> batches_of io d (map fst xs) = ys"
  by (induction rule: list_all2_induct) (auto simp: read_batch_def)

lemma batches_of_numbered:
  assumes "hm_ok (numbered io bs)" and "\<forall>p. io_read io p" and "list_all (\<lambda>(k, body). length body < 2 ^ 32) bs"
  shows "batches_of io (numbered io bs) (map fst (numbered io bs)) = bs"
proof (rule batches_of_listed [OF _ assms(2)], unfold list_all2_conv_all_nth, intro conjI allI impI)
  fix i
  assume i: "i < length (numbered io bs)"
  then show "hm_get (numbered io bs) (fst (numbered io bs ! i)) = Some (snd (numbered io bs ! i))"
    using assms(1) nth_mem [OF i] unfolding hm_ok_def by (intro map_of_is_SomeI) simp_all
  have "length (snd (bs ! i)) < 2 ^ 32" using assms(3) i by (auto simp: list_all_length split_beta)
  then show "read_batch_data (sf_data (snd (numbered io bs ! i))) = Inr (bs ! i)"
    using i by (simp add: numbered_nth read_batch_bytes)
qed simp

lemma answers_accept: "\<not> list_ex transient (answers (\<lambda>_ _ _. Inr ()) n bs)"
  by (induction bs arbitrary: n) auto

text \<open>
  Further property (roundtrip). Nothing is lost, changed or reordered on the way through the spool: batches of any
  kinds that fit the quotas, appended one after another, come out of a drain exactly as they went in
  and in the same order, and the spool is empty afterwards.
\<close>

theorem spool_round_trip:
  assumes "io_works io" and "io_write io = Written" and "list_all (\<lambda>(k, body). length body < 2 ^ 32) bs"
    and "\<forall>k. spool_bytes bs \<le> unat (quota_for (empty_spool quotas) k)" and "spool_bytes bs + 2 < 2 ^ 64"
    and "length bs \<le> lim"
    and "drain io (\<lambda>_ _ _. Inr ()) (\<lambda>_ t. t) lim (append_all io bs (empty_spool quotas)) = (sent, rep, s')"
  shows "sent = bs \<and> dr_drained rep = length bs \<and> \<not> dr_failed rep \<and> sl_dir s' = []"
proof -
  let ?s = "append_all io bs (empty_spool quotas)" and ?fs = "map fst (numbered io bs)"
  have "\<forall>p. io_rename io p" using assms(1) by (simp add: io_works_def)
  then have inv: "spool_inv ?s" and dir: "sl_dir ?s = numbered io bs"
    using append_all_numbered [OF assms(2), of bs quotas] assms(4,5) by simp_all
  have len: "length bs + 1 < 2 ^ 64" using assms(5) length_spool_bytes [of bs] by simp
  have fs: "take lim (sort (filter (\<lambda>p. extension p = Some ''batch'') ?fs)) = ?fs"
    using assms(6) by (simp add: numbered_sorted [OF len])
  have ok: "hm_ok (numbered io bs)" using spool_invD(1) [OF inv] by (simp add: dir)
  have "distinct ?fs" "\<forall>p\<in>set ?fs. hm_get (sl_dir ?s) p \<noteq> None"
    using ok by (auto simp: hm_ok_def dir map_of_eq_None_iff image_iff)
  moreover have loop: "drain_loop io (\<lambda>_ _ _. Inr ()) (\<lambda>_ t. t) 0 ?fs
      \<lparr>dr_drained = 0, dr_rejected = 0, dr_failed = False, dr_last_error = None\<rparr> ?s = (sent, rep, s')"
    using assms(1,7) by (simp add: drain_def list_batch_files_def io_works_def Let_def dir fs)
  ultimately have ex: "drained_exactly io (\<lambda>_ _ _. Inr ()) 0 ?fs (numbered io bs) 0 0 sent rep (sl_dir s')"
    using drain_loop_exact [OF assms(1) _ _ _ loop] by (simp add: dir)
  then have nf: "\<not> dr_failed rep" using answers_accept by (simp add: drained_exactly_def)
  then have sent: "sent = batches_of io (numbered io bs) ?fs" and dir': "sl_dir s' = without ?fs (numbered io bs)"
    using ex by (auto simp: drained_exactly_def drained_files_def)
  have "sent = bs" unfolding sent by (rule batches_of_numbered [OF ok _ assms(3)]) (use assms(1) in \<open>simp add: io_works_def\<close>)
  moreover have "sl_dir s' = []" unfolding dir' without_def by (force simp: filter_empty_conv)
  moreover have "filter accepted (answers (\<lambda>_ _ _. Inr ()) 0 sent) = answers (\<lambda>_ _ _. Inr ()) 0 sent"
  proof -
    have "list_all accepted (answers (\<lambda>_ _ _. Inr ()) n xs)" for n xs by (induction xs arbitrary: n) (auto simp: accepted_def)
    then show ?thesis by (simp add: filter_id_conv list_all_iff)
  qed
  ultimately show ?thesis using ex nf by (simp add: drained_exactly_def)
qed

section \<open>Restart\<close>

definition plain_names :: "spool_dir \<Rightarrow> bool" where
  "plain_names d \<longleftrightarrow> (\<forall>p seq. hm_get d p \<noteq> None \<longrightarrow> parse_batch_filename p \<noteq> Some (seq, None))"

abbreviation is_tmp :: "str \<Rightarrow> bool" where
  "is_tmp p \<equiv> extension p = Some ''tmp''"

definition name_bytes :: "spool_dir \<Rightarrow> signal_kind \<Rightarrow> str \<Rightarrow> nat" where
  "name_bytes d k p = (case hm_get d p of Some f \<Rightarrow> if name_kind p = Some k then length (sf_data f) else 0 | None \<Rightarrow> 0)"

lemma sum_name_bytes: "hm_ok d \<Longrightarrow> sum_list (map (name_bytes d k) (map fst d)) = kind_bytes d k"
proof -
  assume "hm_ok d"
  then have "map (name_bytes d k) (map fst d) = map (\<lambda>(p, f). if name_kind p = Some k then length (sf_data f) else 0) d"
    by (auto simp: name_bytes_def hm_ok_def)
  then show ?thesis by (simp only: kind_bytes_def)
qed

lemma without_append: "without (ps @ qs) d = without qs (without ps d)"
  by (auto simp: without_def split_beta intro!: filter_cong)

lemma open_entry_step:
  assumes "io_works io" and "plain_names d" and "hm_get d p \<noteq> None" and "d' = without ts d" and "p \<notin> set ts"
  shows "open_entry io p (m, tot, d') =
    (case parse_batch_filename p of Some (seq, _) \<Rightarrow> max m seq | None \<Rightarrow> m,
     \<lambda>k. tot k + of_nat (name_bytes d k p), without (ts @ (if is_tmp p then [p] else [])) d)"
proof -
  obtain f where f: "hm_get d p = Some f" "hm_get d' p = Some f" using assms(3-5) by (auto simp: hm_get_without)
  have ok: "remove_ok io d' p" "io_meta io p" using assms(1) f by (auto simp: remove_ok_def io_works_def)
  show ?thesis
  proof (cases "is_tmp p")
    case True
    then have "parse_batch_filename p = None" "name_kind p = None"
      using parse_extension [of p] by (cases "parse_batch_filename p"; auto simp: name_kind_def)+
    with True ok f assms(4) show ?thesis
      by (simp add: open_entry_def remove_file_def name_bytes_def without_append without_Cons)
  next
    case False
    then show ?thesis
    proof (cases "parse_batch_filename p")
      case (Some sk)
      then obtain seq k where sk: "sk = (seq, Some k)"
        using assms(2,3) by (cases sk) (metis option.exhaust plain_names_def)
      then have "name_kind p = Some k" using Some by (simp add: name_kind_def)
      with False Some sk f ok assms(4) show ?thesis
        by (auto simp: open_entry_def file_len_def name_bytes_def fun_eq_iff)
    qed (use False f assms(4) in \<open>simp add: open_entry_def name_bytes_def name_kind_def\<close>)
  qed
qed

lemma open_entries:
  assumes "io_works io" and "plain_names d"
  shows "\<forall>p\<in>set ps. hm_get d p \<noteq> None \<Longrightarrow> distinct ps \<Longrightarrow> set ps \<inter> set ts = {} \<Longrightarrow>
    fold (open_entry io) ps (m, tot, without ts d) =
      (fold (\<lambda>p m. case parse_batch_filename p of Some (seq, _) \<Rightarrow> max m seq | None \<Rightarrow> m) ps m,
       \<lambda>k. tot k + of_nat (sum_list (map (name_bytes d k) ps)), without (ts @ filter is_tmp ps) d)"
proof (induction ps arbitrary: m tot ts)
  case (Cons p ps)
  have "set ps \<inter> set (ts @ (if is_tmp p then [p] else [])) = {}" using Cons.prems(2,3) by auto
  from Cons.IH [OF _ _ this] Cons.prems open_entry_step [OF assms, of p "without ts d" ts] show ?case
    by (auto simp: add.assoc)
qed simp

lemma fold_max_seq:
  "m \<le> fold (\<lambda>p m. case parse_batch_filename p of Some (seq, _) \<Rightarrow> max m seq | None \<Rightarrow> m) ps m \<and>
   (\<forall>p\<in>set ps. \<forall>seq k. parse_batch_filename p = Some (seq, k) \<longrightarrow>
      seq \<le> fold (\<lambda>p m. case parse_batch_filename p of Some (seq, _) \<Rightarrow> max m seq | None \<Rightarrow> m) ps m) \<and>
   (m < n \<longrightarrow> (\<forall>p\<in>set ps. before_next n p) \<longrightarrow>
      fold (\<lambda>p m. case parse_batch_filename p of Some (seq, _) \<Rightarrow> max m seq | None \<Rightarrow> m) ps m < n)"
proof (induction ps arbitrary: m)
  case (Cons p ps)
  show ?case
  proof (cases "parse_batch_filename p")
    case (Some sk)
    obtain seq k where "sk = (seq, k)" by (cases sk)
    with Some Cons [of "max m seq"] show ?thesis
      by (auto simp: before_next_def le_max_iff_disj intro: order_trans)
  qed (use Cons [of m] in auto)
qed simp

text \<open>
  Further property (functional). A restart finds the spool as it was left: opening the directory of a consistent
  spool whose kinds are within their quotas removes the leftovers of interrupted writes and nothing
  else, computes the same totals, and continues with a sequence number above every one in use, so
  the next batches are drained after the old ones.
\<close>

theorem restart_recovers_spool:
  assumes "spool_inv s" and "io_works io" and "plain_names (sl_dir s)" and "0 < sl_next_seq s"
    and "\<forall>k. sl_totals s k \<le> quota_for s k" and "spool_open io (sl_quotas s) (sl_dir s) = Some t"
  shows "sl_dir t = filter (\<lambda>(p, f). \<not> is_tmp p) (sl_dir s) \<and> sl_totals t = sl_totals s \<and>
    sl_next_seq t \<le> sl_next_seq s \<and> (\<forall>p\<in>fst ` set (sl_dir t). before_next (sl_next_seq t) p)"
proof -
  let ?d = "sl_dir s" and ?ps = "map fst (sl_dir s)"
  let ?m = "fold (\<lambda>p m. case parse_batch_filename p of Some (seq, _) \<Rightarrow> max m seq | None \<Rightarrow> m) ?ps 0"
  have ok: "hm_ok ?d" by (rule spool_invD(1) [OF assms(1)])
  have "\<forall>p\<in>set ?ps. hm_get ?d p \<noteq> None" by (auto simp: map_of_eq_None_iff image_iff)
  moreover have total: "of_nat (sum_list (map (name_bytes ?d k) ?ps)) = sl_totals s k" for k
    unfolding sum_name_bytes [OF ok] spool_invD(2) [OF assms(1), symmetric] by simp
  ultimately have fold: "fold (open_entry io) ?ps (0, \<lambda>_. 0, ?d) = (?m, sl_totals s, without (filter is_tmp ?ps) ?d)"
    using open_entries [OF assms(2,3), of ?ps "[]" 0 "\<lambda>_. 0"] ok by (simp add: hm_ok_def del: map_map)
  let ?t = "\<lparr>sl_dir = without (filter is_tmp ?ps) ?d, sl_quotas = sl_quotas s, sl_next_seq = ?m + 1,
    sl_totals = sl_totals s, sl_dropped = \<lambda>_ _. 0, sl_last_drop_warn = \<lambda>_. 0\<rparr>"
  have "quota_for ?t k = quota_for s k" for k by (cases k) (simp_all add: quota_for_def)
  then have cap: "enforce_cap io k ?t = ?t" for k using assms(5) by (simp add: enforce_cap_def)
  have t: "t = ?t"
    using assms(2,6) by (simp add: spool_open_def io_works_def fold cap)
  have before: "\<forall>p\<in>set ?ps. before_next (sl_next_seq s) p"
    using spool_invD(4) [OF assms(1)] ok by (auto simp: hm_ok_def)
  have m: "?m < sl_next_seq s" using fold_max_seq [of 0 ?ps "sl_next_seq s"] before assms(4) by blast
  then have "?m < ?m + 1" "?m + 1 \<le> sl_next_seq s"
    using unat64_less [of "sl_next_seq s"] by (simp_all add: word_less_nat_alt word_le_nat_alt unat_word_ariths)
  moreover have "before_next (?m + 1) p" if "p \<in> set ?ps" for p
    using fold_max_seq [of 0 ?ps] that \<open>?m < ?m + 1\<close> unfolding before_next_def by (meson order_le_less_trans)
  moreover have "without (filter is_tmp ?ps) ?d = filter (\<lambda>(p, f). \<not> is_tmp p) ?d"
    by (force simp: without_def intro!: filter_cong)
  ultimately show ?thesis by (auto simp: t)
qed

section \<open>Concrete runs\<close>

definition working_io :: spool_io where
  "working_io = \<lparr>io_list = True, io_meta = (\<lambda>_. True), io_read = (\<lambda>_. True), io_remove = (\<lambda>_. True),
     io_rename = (\<lambda>_. True), io_write = Written, io_now = 0\<rparr>"

definition small_quotas :: spool_quotas where
  "small_quotas = \<lparr>sq_metrics = 20, sq_logs = 20, sq_app_logs = 20\<rparr>"

lemma working_io_works [simp]:
  "io_works working_io" "io_meta working_io p" "io_write working_io = Written" "io_rename working_io p" "io_list working_io"
  by (simp_all add: io_works_def working_io_def)

lemma small_room [simp]: "has_room (empty_spool small_quotas) k ''ab''"
  by (simp add: has_room_def empty_spool_def)

theorem spool_accounts_exact_witness:
  "spool_inv (snd (spool_append working_io Logs ''ab'' (empty_spool small_quotas)))"
  using spool_accounts_exact [where s = "empty_spool small_quotas" and io = working_io and kind = Logs
      and body = "''ab''" and others = "\<lambda>_ t. t"] by simp

theorem append_evicts_least_witness:
  "\<exists>s'. spool_append working_io Logs ''ab'' (empty_spool small_quotas) = (Inr (), s') \<and>
     kind_bytes (sl_dir s') Logs \<le> 20 \<and> hm_get (sl_dir s') (batch_name 1 Metrics) = None"
proof -
  obtain r s' where s': "spool_append working_io Logs ''ab'' (empty_spool small_quotas) = (r, s')" by (rule prod.exhaust)
  then have r: "r = Inr ()" using spool_append_ok(1) [of working_io Logs "''ab''" "empty_spool small_quotas"] by simp
  from append_evicts_least [OF _ small_room _ s' [unfolded r]] have
    "kind_bytes (sl_dir s') Logs \<le> unat (quota_for (empty_spool small_quotas) Logs)"
    "hm_get (sl_dir s') (batch_name 1 Metrics) = hm_get (sl_dir (empty_spool small_quotas)) (batch_name 1 Metrics)"
    by (auto simp: Let_def)
  with s' r show ?thesis by (simp add: quota_for_def empty_spool_def small_quotas_def)
qed

theorem drain_sends_in_order_witness:
  "fst (drain working_io (\<lambda>_ _ _. Inr ()) (\<lambda>_ t. t) 5 (empty_spool small_quotas)) = []"
proof -
  obtain sent rep s' where d: "drain working_io (\<lambda>_ _ _. Inr ()) (\<lambda>_ t. t) 5 (empty_spool small_quotas) = (sent, rep, s')"
    by (rule prod_cases3)
  from drain_sends_in_order [OF working_io_works(1) _ d] show ?thesis
    unfolding d by (auto simp: empty_spool_def Let_def hm_ok_def)
qed

theorem spool_round_trip_witness:
  "fst (drain working_io (\<lambda>_ _ _. Inr ()) (\<lambda>_ t. t) 5
     (append_all working_io [(Logs, ''ab''), (Metrics, ''c'')] (empty_spool small_quotas))) = [(Logs, ''ab''), (Metrics, ''c'')]"
proof -
  let ?bs = "[(Logs, ''ab''), (Metrics, ''c'')]"
  obtain sent rep s' where d: "drain working_io (\<lambda>_ _ _. Inr ()) (\<lambda>_ t. t) 5 (append_all working_io ?bs (empty_spool small_quotas)) = (sent, rep, s')"
    by (rule prod_cases3)
  have "spool_bytes ?bs \<le> unat (quota_for (empty_spool small_quotas) k)" for k
    by (cases k) (simp_all add: quota_for_def empty_spool_def small_quotas_def spool_bytes_def)
  with spool_round_trip [OF working_io_works(1,3) _ _ _ _ d] show ?thesis
    unfolding d by (simp add: spool_bytes_def)
qed

theorem restart_recovers_spool_witness:
  "\<exists>t. spool_open working_io small_quotas [] = Some t \<and> sl_next_seq t \<le> 1"
proof -
  have q: "sl_quotas (empty_spool small_quotas) = small_quotas" "sl_dir (empty_spool small_quotas) = []"
    "sl_next_seq (empty_spool small_quotas) = 1" "sl_totals (empty_spool small_quotas) k = 0" for k
    by (simp_all add: empty_spool_def)
  from restart_recovers_spool [of "empty_spool small_quotas" working_io "empty_spool small_quotas"] show ?thesis
    by (simp add: q spool_open_empty plain_names_def)
qed

end
