(* ===== verification/Checkpoint.thy ===== *)
theory Checkpoint
  imports Hash_Map Rust_Text
begin

text \<open>
  Checkpoints of the log collectors, \<open>aic-server/src/otlp_exporter/logs/checkpoint.rs\<close>: the tracker
  that lets acknowledgements arrive in any order and commits only a gapless prefix, and the store
  that keeps one cursor per source in a file named after the source's key.
\<close>

section \<open>Ordered acknowledgements\<close>

text \<open>The ordered set of the source is a list without repetitions.\<close>

record ack_tracker =
  at_next_seq :: u64
  at_next_expected :: u64
  at_completed :: "u64 list"

definition ack_new :: ack_tracker where
  "ack_new = \<lparr>at_next_seq = 1, at_next_expected = 1, at_completed = []\<rparr>"

definition ack_issue :: "ack_tracker \<Rightarrow> u64 \<times> ack_tracker" where
  "ack_issue t = (at_next_seq t, t\<lparr>at_next_seq := at_next_seq t + 1\<rparr>)"

function ack_advance :: "u64 \<Rightarrow> u64 list \<Rightarrow> u64 \<times> u64 list" where
  "ack_advance e c = (if e \<in> set c then ack_advance (e + 1) (removeAll e c) else (e, c))"
  by pat_completeness auto
termination
  by (relation "measure (\<lambda>(e, c). length c)") (auto simp: length_removeAll_less)

declare ack_advance.simps [simp del]

definition ack_complete :: "u64 \<Rightarrow> ack_tracker \<Rightarrow> ack_tracker" where
  "ack_complete seq t =
     (if seq < at_next_expected t then t
      else let (e, c) = ack_advance (at_next_expected t) (List.insert seq (at_completed t))
           in t\<lparr>at_next_expected := e, at_completed := c\<rparr>)"

definition committed :: "ack_tracker \<Rightarrow> u64" where
  "committed t = at_next_expected t - 1"

section \<open>The checkpoint store\<close>

definition is_ascii_alphanumeric :: "u8 \<Rightarrow> bool" where
  "is_ascii_alphanumeric c = (let v = byte_val c in
     48 \<le> v \<and> v \<le> 57 \<or> 65 \<le> v \<and> v \<le> 90 \<or> 97 \<le> v \<and> v \<le> 122)"

definition key_char :: "u8 \<Rightarrow> bool" where
  "key_char c \<longleftrightarrow> is_ascii_alphanumeric c \<or> c = CHR ''-'' \<or> c = CHR ''_''"

definition map_key_char :: "str \<Rightarrow> u8" where
  "map_key_char ch = (case ch of [c] \<Rightarrow> if key_char c then c else CHR ''_'' | _ \<Rightarrow> CHR ''_'')"

text \<open>\<open>s.trim_matches(c)\<close>.\<close>

definition trim_matches :: "(u8 \<Rightarrow> bool) \<Rightarrow> str \<Rightarrow> str" where
  "trim_matches p s = rev (dropWhile p (rev (dropWhile p s)))"

definition sanitize_key :: "str \<Rightarrow> str" where
  "sanitize_key key =
     (let mapped = map map_key_char (chars key);
          trimmed = trim_matches (\<lambda>c. c = CHR ''_'') mapped;
          truncated = take_chars 128 trimmed
      in if truncated = [] then ''key'' else truncated)"

type_synonym checkpoint_dir = "(str, bytes) hash_map"

definition checkpoint_path :: "str \<Rightarrow> str" where
  "checkpoint_path key = sanitize_key key @ ''.checkpoint''"

definition checkpoint_tmp :: "str \<Rightarrow> str" where
  "checkpoint_tmp key = sanitize_key key @ ''.tmp''"

text \<open>A file that cannot be read is a failed \<open>read\<close>; the flag says whether reading works.\<close>

definition checkpoint_load :: "bool \<Rightarrow> str \<Rightarrow> checkpoint_dir \<Rightarrow> str option" where
  "checkpoint_load readable key d =
     (case hm_get d (checkpoint_path key) of
        None \<Rightarrow> None
      | Some raw \<Rightarrow>
          if \<not> readable \<or> \<not> utf8_valid raw then None
          else if trim raw = [] then None else Some (trim raw))"

datatype save_outcome = SaveOk | SaveCreateFailed | SaveWriteFailed nat | SaveSyncFailed | SaveRenameFailed

definition checkpoint_save :: "save_outcome \<Rightarrow> str \<Rightarrow> str \<Rightarrow> checkpoint_dir \<Rightarrow> (save_outcome + unit) \<times> checkpoint_dir" where
  "checkpoint_save out key val d =
     (case out of
        SaveCreateFailed \<Rightarrow> (Inl out, d)
      | SaveWriteFailed n \<Rightarrow> (Inl out, hm_insert (checkpoint_tmp key) (take n val) d)
      | SaveSyncFailed \<Rightarrow> (Inl out, hm_insert (checkpoint_tmp key) val d)
      | SaveRenameFailed \<Rightarrow> (Inl out, hm_insert (checkpoint_tmp key) val d)
      | SaveOk \<Rightarrow> (Inr (), hm_insert (checkpoint_path key) val
          (hm_remove (checkpoint_tmp key) (hm_insert (checkpoint_tmp key) val d))))"

section \<open>Ordered acknowledgements commit the gapless prefix\<close>

lemma ack_advance_exact:
  assumes "ack_advance e c = (e', c')" and "\<forall>x\<in>set c. unat x < 2 ^ 64 - 1"
  shows "unat e \<le> unat e' \<and> unat ` set c' = unat ` set c - {unat e..<unat e'} \<and>
    {unat e..<unat e'} \<subseteq> unat ` set c \<and> e' \<notin> set c'"
  using assms
proof (induction e c arbitrary: e' c' rule: ack_advance.induct)
  case (1 e c)
  show ?case
  proof (cases "e \<in> set c")
    case True
    then have e: "unat (e + 1) = unat e + 1" using "1.prems"(2) by (auto simp: unat_word_ariths)
    have "ack_advance (e + 1) (removeAll e c) = (e', c')"
      using "1.prems"(1) True by (simp add: ack_advance.simps [of e c])
    from "1.IH" [OF True this] "1.prems"(2) e
    have IH: "unat e + 1 \<le> unat e'" "unat ` set c' = unat ` (set c - {e}) - {unat e + 1..<unat e'}"
      "{unat e + 1..<unat e'} \<subseteq> unat ` (set c - {e})" "e' \<notin> set c'" by auto
    have img: "unat ` (set c - {e}) = unat ` set c - {unat e}"
      using inj_on_image_set_diff [of unat "set c" "set c" "{e}"] True by (auto simp: inj_on_def word_unat_eq_iff)
    have split: "{unat e..<unat e'} = insert (unat e) {unat e + 1..<unat e'}" using IH(1) by auto
    from IH True show ?thesis unfolding img split by auto
  next
    case False
    with "1.prems"(1) show ?thesis by (simp add: ack_advance.simps [of e c])
  qed
qed

text \<open>The tracker after the acknowledgements in \<open>S\<close>.\<close>

definition ack_inv :: "nat set \<Rightarrow> ack_tracker \<Rightarrow> bool" where
  "ack_inv S t \<longleftrightarrow> 0 < unat (at_next_expected t) \<and> {1..<unat (at_next_expected t)} \<subseteq> S \<and>
     unat ` set (at_completed t) = {s \<in> S. unat (at_next_expected t) \<le> s} \<and>
     unat (at_next_expected t) \<notin> S"

lemma ack_complete_inv:
  assumes inv: "ack_inv S t" and S: "\<forall>s\<in>S. s < 2 ^ 64 - 1" and seq: "unat seq < 2 ^ 64 - 1"
  shows "ack_inv (insert (unat seq) S) (ack_complete seq t)"
proof (cases "seq < at_next_expected t")
  case True
  then show ?thesis using inv by (auto simp: ack_inv_def ack_complete_def word_less_nat_alt)
next
  case False
  then have le: "unat (at_next_expected t) \<le> unat seq" by (simp add: word_less_nat_alt)
  let ?e = "at_next_expected t" and ?c = "List.insert seq (at_completed t)"
  obtain e' c' where adv: "ack_advance ?e ?c = (e', c')" by (rule prod.exhaust)
  have c: "unat ` set ?c = {s \<in> insert (unat seq) S. unat ?e \<le> s}" using inv le by (auto simp: ack_inv_def)
  have "\<forall>x\<in>set ?c. unat x < 2 ^ 64 - 1"
  proof
    fix x assume "x \<in> set ?c"
    then have "unat x \<in> insert (unat seq) S" using c by blast
    with S seq show "unat x < 2 ^ 64 - 1" by auto
  qed
  from ack_advance_exact [OF adv this] have a: "unat ?e \<le> unat e'" "unat ` set c' = unat ` set ?c - {unat ?e..<unat e'}"
    "{unat ?e..<unat e'} \<subseteq> unat ` set ?c" "e' \<notin> set c'" by auto
  have "{1..<unat e'} = {1..<unat ?e} \<union> {unat ?e..<unat e'}" using a(1) inv by (auto simp: ack_inv_def)
  then have "{1..<unat e'} \<subseteq> insert (unat seq) S" using inv a(3) c by (auto simp: ack_inv_def)
  moreover have "unat ` set c' = {s \<in> insert (unat seq) S. unat e' \<le> s}" unfolding a(2) c using a(1) by auto
  moreover have "unat e' \<notin> insert (unat seq) S"
  proof
    assume "unat e' \<in> insert (unat seq) S"
    then have "unat e' \<in> unat ` set c'" using calculation(2) by auto
    with a(4) show False by (metis imageE word_unat_eq_iff)
  qed
  ultimately show ?thesis
    using False a(1) inv adv by (simp add: ack_inv_def ack_complete_def)
qed

text \<open>
  Further property (functional). Whatever the order in which batches are acknowledged, and however often, the
  tracker commits exactly the longest gapless prefix: every batch up to the committed number has
  been acknowledged and the next one has not, so a checkpoint never passes a batch that is not safe.
\<close>

theorem ack_commits_gapless_prefix:
  assumes "\<forall>seq\<in>set acks. unat seq < 2 ^ 64 - 1"
  shows "let m = unat (committed (fold ack_complete acks ack_new)) in
    {1..m} \<subseteq> unat ` set acks \<and> Suc m \<notin> unat ` set acks"
proof -
  have "ack_inv (unat ` set acks) (fold ack_complete acks ack_new)"
    using assms
  proof (induction acks rule: rev_induct)
    case Nil
    then show ?case by (simp add: ack_inv_def ack_new_def)
  next
    case (snoc a acks)
    then show ?case using ack_complete_inv [of "unat ` set acks" "fold ack_complete acks ack_new" a] by simp
  qed
  then show ?thesis
    by (auto simp: ack_inv_def committed_def Let_def unat_minus_one word_neq_0_conv unat_gt_0 atLeastLessThanSuc_atLeastAtMost [symmetric])
qed

theorem ack_commits_gapless_prefix_witness:
  "{1..unat (committed (fold ack_complete [3, 1, 2, 5] ack_new))} \<subseteq> {1, 2, 3, 5}"
  using ack_commits_gapless_prefix [of "[3, 1, 2, 5]"] by (simp add: Let_def insert_commute)

section \<open>Keys and values of the store\<close>

lemma sanitize_key_chars: "set (sanitize_key key) \<subseteq> Collect key_char"
proof -
  have "set (map map_key_char (chars key)) \<subseteq> Collect key_char"
    by (auto simp: map_key_char_def key_char_def split: list.splits)
  moreover have "set (trim_matches p s) \<subseteq> set s" for p s
    unfolding trim_matches_def by (metis (no_types, lifting) set_dropWhileD set_rev subsetI)
  moreover have "set (take_chars n s) \<subseteq> set s" for n s
    using take_chars_prefix [of n s] by (rule set_mono_prefix)
  ultimately have "set (take_chars 128 (trim_matches q (map map_key_char (chars key)))) \<subseteq> Collect key_char" for q
    by (meson subset_trans)
  then show ?thesis
    by (auto simp: sanitize_key_def Let_def key_char_def is_ascii_alphanumeric_def split: if_splits)
qed

lemma key_char_ascii: "key_char c \<Longrightarrow> byte_val c < 128"
  by (auto simp: key_char_def is_ascii_alphanumeric_def Let_def)

lemma key_char_plain: "key_char c \<Longrightarrow> c \<noteq> CHR ''.'' \<and> c \<noteq> CHR ''/''"
  by (auto simp: key_char_def is_ascii_alphanumeric_def Let_def)

text \<open>
  Further property (safety). No key can name a file outside the store's directory or a file of another role:
  whatever the key, its file name is one to 128 letters, digits, dashes and underscores, without a
  slash or a dot, followed by the extension.
\<close>

theorem checkpoint_name_contained:
  "set (sanitize_key key) \<subseteq> Collect key_char \<and> CHR ''/'' \<notin> set (checkpoint_path key) \<and>
   CHR ''.'' \<notin> set (sanitize_key key) \<and> 0 < length (sanitize_key key) \<and> length (sanitize_key key) \<le> 128"
proof -
  note c = sanitize_key_chars [of key]
  have "\<forall>x\<in>set (map map_key_char (chars key)). byte_val x < 128"
    using key_char_ascii by (auto simp: map_key_char_def split: list.splits)
  then have "\<forall>x\<in>set (trim_matches q (map map_key_char (chars key))). byte_val x < 128" for q
    unfolding trim_matches_def by (metis set_dropWhileD set_rev)
  then have "length (sanitize_key key) \<le> 128"
    by (simp add: sanitize_key_def Let_def take_chars_ascii)
  moreover have "sanitize_key key \<noteq> []" by (simp add: sanitize_key_def Let_def)
  moreover have "CHR ''/'' \<notin> set (sanitize_key key)" "CHR ''.'' \<notin> set (sanitize_key key)"
    using c key_char_plain by blast+
  ultimately show ?thesis using c by (simp add: checkpoint_path_def)
qed

lemma checkpoint_paths_differ [simp]: "checkpoint_path key \<noteq> checkpoint_tmp key'" "checkpoint_tmp key' \<noteq> checkpoint_path key"
proof -
  have "last (checkpoint_path key) \<noteq> last (checkpoint_tmp key')" by (simp add: checkpoint_path_def checkpoint_tmp_def)
  then show "checkpoint_path key \<noteq> checkpoint_tmp key'" "checkpoint_tmp key' \<noteq> checkpoint_path key" by auto
qed

text \<open>
  Further property (roundtrip). Saving is atomic: after a save that succeeds, loading gives the saved cursor; after
  one that fails at any point, loading gives what it gave before, never a torn value; and either
  way the other sources, those whose file names differ, keep theirs.
\<close>

theorem checkpoint_save_atomic:
  assumes "utf8_valid val" and "trim val = val" and "val \<noteq> []" and "checkpoint_save out key val d = (r, d')"
  shows "checkpoint_load True key d' = (if r = Inr () then Some val else checkpoint_load True key d) \<and>
    (\<forall>key'. checkpoint_path key' \<noteq> checkpoint_path key \<longrightarrow> checkpoint_load True key' d' = checkpoint_load True key' d)"
  using assms by (auto simp: checkpoint_save_def checkpoint_load_def split: save_outcome.splits)

theorem checkpoint_save_atomic_witness:
  "checkpoint_load True ''journald'' (snd (checkpoint_save SaveOk ''journald'' ''s=1'' [])) = Some ''s=1''"
proof -
  have "trim ''s=1'' = ''s=1''" by (rule trim_no_edge) (simp add: ws_edge_def ascii_ws_def wide_ws_def)
  moreover have "utf8_valid ''s=1''" by (rule utf8_valid_ascii) simp
  ultimately show ?thesis
    using checkpoint_save_atomic [of "''s=1''" SaveOk "''journald''" "[]"] by (simp add: checkpoint_save_def)
qed

text \<open>
  Further property (error). Different keys can share a file: two log files labelled \<open>a.b\<close> and \<open>a_b\<close> are kept under
  one name, so each overwrites the checkpoint of the other.
\<close>

theorem checkpoint_keys_collide:
  "checkpoint_path ''file/a.b'' = checkpoint_path ''file/a_b'' \<and>
   checkpoint_load True ''file/a.b'' (snd (checkpoint_save SaveOk ''file/a_b'' ''v'' d)) = Some ''v''"
proof -
  have p: "checkpoint_path ''file/a.b'' = checkpoint_path ''file/a_b''"
    by (simp add: checkpoint_path_def sanitize_key_def chars_ascii map_key_char_def key_char_def is_ascii_alphanumeric_def)
  have "trim ''v'' = ''v''" by (rule trim_no_edge) (simp add: ws_edge_def ascii_ws_def wide_ws_def)
  moreover have "utf8_valid ''v''" by (rule utf8_valid_ascii) simp
  ultimately show ?thesis by (simp add: p checkpoint_save_def checkpoint_load_def)
qed

end
