(* ===== verification/File_Tail.thy ===== *)
theory File_Tail
  imports Checkpoint Ipc Rust_Words
begin

text \<open>
  The file tail of the log collector, \<open>aic-server/src/otlp_exporter/logs/file.rs\<close>: it follows a path
  across rotations by a fingerprint of the first bytes, hands complete lines to a channel within a
  budget, and saves how far it got. An open file is an object that keeps its data when the path
  is renamed; what the path names and what the objects hold is the environment of one tick, and does
  not change during it. The hash of the fingerprint and the line parser are arguments. Offsets
  are lengths of byte sequences, hence natural numbers. The pacing of the budget computes in floating
  point and is not modelled: each tick is given its budget.
\<close>

section \<open>Change detection\<close>

datatype tail_decision = Deferred | Continue | Truncated | Rotated

definition decide_change :: "u64 option \<Rightarrow> u64 option \<Rightarrow> u64 \<Rightarrow> u64 \<Rightarrow> nat \<Rightarrow> nat \<Rightarrow> tail_decision" where
  "decide_change old_fp new_fp old_inode new_inode sz offset =
     (case (old_fp, new_fp) of
        (None, None) \<Rightarrow> Deferred
      | (None, Some _) \<Rightarrow> Rotated
      | (Some old, Some new) \<Rightarrow> if old = new then (if sz < offset then Truncated else Continue) else Rotated
      | (Some _, None) \<Rightarrow> if new_inode = old_inode then Truncated else Rotated)"

definition fingerprint_min_bytes :: nat where
  "fingerprint_min_bytes = 1024"

section \<open>Lines\<close>

record complete_line =
  cl_start :: nat
  cl_text :: str
  cl_next :: nat

definition trim_cr :: "str \<Rightarrow> str" where
  "trim_cr s = rev (dropWhile (\<lambda>c. c = CHR 0x0D) (rev s))"

text \<open>
  \<open>read_complete_lines\<close>, over what the file holds from the cursor on: at most the given number of
  lines that end in a line feed, and whether the number was what stopped it.
\<close>

fun read_complete_lines :: "nat \<Rightarrow> nat \<Rightarrow> bytes \<Rightarrow> complete_line list \<times> bool" where
  "read_complete_lines 0 cursor bs = ([], True)"
| "read_complete_lines (Suc m) cursor bs =
     (case find_byte (\<lambda>c. c = CHR 0x0A) bs of
        None \<Rightarrow> ([], False)
      | Some i \<Rightarrow>
          (let nxt = cursor + Suc i; (ls, rest_left) = read_complete_lines m nxt (drop (Suc i) bs)
           in (\<lparr>cl_start = cursor, cl_text = trim_cr (from_utf8_lossy (take i bs)), cl_next = nxt\<rparr> # ls, rest_left)))"

text \<open>The four severities are looked for as whole words among the first eight.\<close>

definition not_alphanumeric :: "u8 \<Rightarrow> bool" where
  "not_alphanumeric c \<longleftrightarrow> \<not> is_ascii_alphanumeric c"

definition parse_severity_prefix :: "str \<Rightarrow> str" where
  "parse_severity_prefix line =
     (case List.find (\<lambda>w. w \<in> {''ERROR'', ''WARN'', ''INFO'', ''DEBUG''})
        (map (trim_matches not_alphanumeric) (take 8 (split_whitespace line))) of
        Some level \<Rightarrow> level | None \<Rightarrow> ''INFO'')"

text \<open>The parser of plain files: the redaction and the clock are arguments.\<close>

definition default_file_line_parser :: "(str \<Rightarrow> str) \<Rightarrow> datetime \<Rightarrow> str \<Rightarrow> str \<Rightarrow> log_line option" where
  "default_file_line_parser redact now service raw =
     Some \<lparr>ll_source = ''file'', ll_service = service, ll_severity = parse_severity_prefix raw,
       ll_message = redact raw, ll_attrs = [], ll_ts = now, ll_record_id = []\<rparr>"

definition record_id :: "str option \<Rightarrow> (log_line \<Rightarrow> u64) \<Rightarrow> log_line \<Rightarrow> str" where
  "record_id natural_key content_hash line = (case natural_key of
     Some key \<Rightarrow> ''log:'' @ key | None \<Rightarrow> ''log:'' @ hex_pad 16 (unat (content_hash line)))"

section \<open>State\<close>

record file_obj =
  fo_inode :: u64
  fo_data :: bytes

datatype path_stat = Found nat | NotFound | StatFailed

record tail_env =
  te_hash :: "bytes \<Rightarrow> u64"
  te_parse :: "str \<Rightarrow> log_line option"
  te_content_hash :: "log_line \<Rightarrow> u64"
  te_path :: path_stat
  te_obj :: "nat \<Rightarrow> file_obj"
  te_open :: bool
  te_read :: "nat \<Rightarrow> bool"
  te_load :: bool
  te_save :: save_outcome

record tracked_handle =
  th_file :: nat
  th_fingerprint :: u64
  th_inode :: u64
  th_offset :: nat

record file_tail =
  ft_label :: str
  ft_handle :: "tracked_handle option"
  ft_draining :: "tracked_handle option"
  ft_backlog :: bool
  ft_next_poll :: "instant option"
  ft_deferred_warned :: bool

text \<open>What a tick works on besides the tail: the budget left, the room in the channel, what was sent, the checkpoints.\<close>

record tick_state =
  tk_tail :: file_tail
  tk_budget :: nat
  tk_slots :: nat
  tk_out :: "log_line list"
  tk_dir :: checkpoint_dir

datatype tail_error = StatError | OpenError | ReadError

definition file_tail_new :: "str \<Rightarrow> file_tail" where
  "file_tail_new label = \<lparr>ft_label = label, ft_handle = None, ft_draining = None, ft_backlog = False,
     ft_next_poll = None, ft_deferred_warned = False\<rparr>"

definition is_due :: "instant \<Rightarrow> file_tail \<Rightarrow> bool" where
  "is_due now t \<longleftrightarrow> ft_backlog t \<or> (case ft_next_poll t of None \<Rightarrow> True | Some at \<Rightarrow> at \<le> now)"

definition tail_checkpoint_key :: "file_tail \<Rightarrow> str" where
  "tail_checkpoint_key t = ''file/'' @ ft_label t"

definition parse_checkpoint_value :: "str \<Rightarrow> (u64 \<times> nat) option" where
  "parse_checkpoint_value v = (case split_once (CHR '':'') v of
     None \<Rightarrow> None
   | Some (fp_str, offset_str) \<Rightarrow>
       (case parse_unsigned (2 ^ 64 - 1) 16 fp_str of None \<Rightarrow> None
        | Some fp \<Rightarrow> (case parse_unsigned (2 ^ 64 - 1) 10 offset_str of None \<Rightarrow> None
          | Some off \<Rightarrow> Some (of_nat fp, off))))"

definition checkpoint_value :: "tracked_handle \<Rightarrow> str" where
  "checkpoint_value h = hex_of (unat (th_fingerprint h)) @ '':'' @ dec (th_offset h)"

definition compute_fingerprint :: "tail_env \<Rightarrow> nat \<Rightarrow> nat \<Rightarrow> tail_error + u64 option" where
  "compute_fingerprint env obj sz =
     (if sz < fingerprint_min_bytes then Inr None
      else if \<not> te_open env then Inl OpenError
      else if length (fo_data (te_obj env obj)) < fingerprint_min_bytes then Inr None
      else Inr (Some (te_hash env (take fingerprint_min_bytes (fo_data (te_obj env obj))))))"

section \<open>Emitting lines\<close>

definition line_id :: "u64 \<Rightarrow> nat \<Rightarrow> str" where
  "line_id fp start = hex_of (unat fp) @ '':'' @ dec start"

definition log_line_of :: "tail_env \<Rightarrow> u64 \<Rightarrow> complete_line \<Rightarrow> log_line option" where
  "log_line_of env fp l = map_option
     (\<lambda>line. line\<lparr>ll_record_id := record_id (Some (line_id fp (cl_start l))) (te_content_hash env) line\<rparr>)
     (te_parse env (cl_text l))"

text \<open>The loop over the lines read: it stops without consuming the line when the channel is full.\<close>

fun emit_lines :: "tail_env \<Rightarrow> complete_line list \<Rightarrow> tracked_handle \<Rightarrow> tick_state \<Rightarrow> bool \<times> tracked_handle \<times> tick_state" where
  "emit_lines env [] h st = (False, h, st)"
| "emit_lines env (l # ls) h st =
     (case log_line_of env (th_fingerprint h) l of
        None \<Rightarrow> emit_lines env ls (h\<lparr>th_offset := cl_next l\<rparr>) (st\<lparr>tk_budget := tk_budget st - 1\<rparr>)
      | Some line \<Rightarrow>
          if tk_slots st = 0 then (True, h, st)
          else emit_lines env ls (h\<lparr>th_offset := cl_next l\<rparr>)
            (st\<lparr>tk_budget := tk_budget st - 1, tk_slots := tk_slots st - 1, tk_out := tk_out st @ [line]\<rparr>))"

definition emit_from_handle :: "tail_env \<Rightarrow> tracked_handle \<Rightarrow> tick_state \<Rightarrow> (tail_error + bool) \<times> tracked_handle \<times> tick_state" where
  "emit_from_handle env h st =
     (if tk_budget st = 0 then (Inr True, h, st)
      else if \<not> te_read env (th_file h) then (Inl ReadError, h, st)
      else let (ls, rest_left) = read_complete_lines (tk_budget st) (th_offset h)
                 (drop (th_offset h) (fo_data (te_obj env (th_file h))));
               (full, h', st') = emit_lines env ls h st
           in (Inr (full \<or> rest_left), h', st'))"

definition on_tail :: "(file_tail \<Rightarrow> file_tail) \<Rightarrow> tick_state \<Rightarrow> tick_state" where
  "on_tail f st = st\<lparr>tk_tail := f (tk_tail st)\<rparr>"

text \<open>The old handle is taken out first, so a failed read drops it.\<close>

definition drain_rotated :: "tail_env \<Rightarrow> tick_state \<Rightarrow> (tail_error + bool) \<times> tick_state" where
  "drain_rotated env st = (case ft_draining (tk_tail st) of
     None \<Rightarrow> (Inr True, st)
   | Some old \<Rightarrow>
       (case emit_from_handle env old (on_tail (\<lambda>t. t\<lparr>ft_draining := None\<rparr>) st) of
          (Inl e, _, st1) \<Rightarrow> (Inl e, st1)
        | (Inr rest_left, old', st1) \<Rightarrow>
            if rest_left then (Inr False, on_tail (\<lambda>t. t\<lparr>ft_draining := Some old'\<rparr>) st1) else (Inr True, st1)))"

definition read_and_emit :: "tail_env \<Rightarrow> tick_state \<Rightarrow> (tail_error + unit) \<times> tick_state" where
  "read_and_emit env st = (case ft_handle (tk_tail st) of
     None \<Rightarrow> (Inr (), st)
   | Some h \<Rightarrow>
       (case emit_from_handle env h st of
          (Inl e, _, st1) \<Rightarrow> (Inl e, st1)
        | (Inr rest_left, h', st1) \<Rightarrow>
            (let st2 = on_tail (\<lambda>t. t\<lparr>ft_handle := Some h', ft_backlog := ft_backlog t \<or> rest_left\<rparr>) st1
             in if th_offset h' = th_offset h then (Inr (), st2)
                else (Inr (), st2\<lparr>tk_dir := snd (checkpoint_save (te_save env)
                  (tail_checkpoint_key (tk_tail st2)) (checkpoint_value h') (tk_dir st2))\<rparr>))))"

section \<open>A tick\<close>

definition resume_offset :: "tail_env \<Rightarrow> tick_state \<Rightarrow> u64 \<Rightarrow> nat \<Rightarrow> nat" where
  "resume_offset env st fp sz =
     (case Option.bind (checkpoint_load (te_load env) (tail_checkpoint_key (tk_tail st)) (tk_dir st)) parse_checkpoint_value of
        None \<Rightarrow> sz
      | Some (cp_fp, cp_offset) \<Rightarrow> if cp_fp = fp then min cp_offset sz else sz)"

definition handle_rotation ::
  "tail_env \<Rightarrow> nat \<Rightarrow> u64 option \<Rightarrow> u64 \<Rightarrow> nat \<Rightarrow> tick_state \<Rightarrow> (tail_error + unit) \<times> tick_state" where
  "handle_rotation env obj new_fp new_inode sz st =
     (let had_prior_handle = (ft_handle (tk_tail st) \<noteq> None) in
      case drain_rotated env (on_tail (\<lambda>t. t\<lparr>ft_draining := ft_handle t, ft_handle := None\<rparr>) st) of
        (Inl e, st1) \<Rightarrow> (Inl e, st1)
      | (Inr drained, st1) \<Rightarrow>
          (let st2 = on_tail (\<lambda>t. t\<lparr>ft_deferred_warned := False\<rparr>) st1 in
           case new_fp of
             None \<Rightarrow> (Inr (), on_tail (\<lambda>t. t\<lparr>ft_backlog := \<not> drained\<rparr>) st2)
           | Some fp \<Rightarrow>
               if \<not> te_open env then (Inl OpenError, st2)
               else let start = (if had_prior_handle then 0 else resume_offset env st2 fp sz);
                        h = \<lparr>th_file = obj, th_fingerprint = fp, th_inode = new_inode, th_offset = start\<rparr>;
                        st3 = on_tail (\<lambda>t. t\<lparr>ft_handle := Some h\<rparr>) st2
                 in if \<not> drained then (Inr (), on_tail (\<lambda>t. t\<lparr>ft_backlog := True\<rparr>) st3)
                    else read_and_emit env st3))"

definition on_change :: "tail_env \<Rightarrow> nat \<Rightarrow> u64 option \<Rightarrow> tick_state \<Rightarrow> (tail_error + unit) \<times> tick_state" where
  "on_change env obj new_fp st =
     (let sz = length (fo_data (te_obj env obj));
          new_inode = fo_inode (te_obj env obj);
          (old_fp, old_inode, offset) = (case ft_handle (tk_tail st) of
            Some h \<Rightarrow> (Some (th_fingerprint h), th_inode h, th_offset h) | None \<Rightarrow> (None, 0, 0));
          st1 = on_tail (\<lambda>t. t\<lparr>ft_backlog := False\<rparr>) st
      in case decide_change old_fp new_fp old_inode new_inode sz offset of
           Deferred \<Rightarrow> (Inr (), on_tail (\<lambda>t. t\<lparr>ft_deferred_warned := True\<rparr>) st1)
         | Continue \<Rightarrow> read_and_emit env st1
         | Truncated \<Rightarrow> read_and_emit env (on_tail (\<lambda>t. t\<lparr>ft_handle := map_option
               (\<lambda>h. h\<lparr>th_offset := 0, th_fingerprint := (case new_fp of Some fp \<Rightarrow> fp | None \<Rightarrow> th_fingerprint h)\<rparr>)
               (ft_handle t)\<rparr>) st1)
         | Rotated \<Rightarrow> handle_rotation env obj new_fp new_inode sz st1)"

definition tick_with_budget :: "tail_env \<Rightarrow> tick_state \<Rightarrow> (tail_error + unit) \<times> tick_state" where
  "tick_with_budget env st = (case drain_rotated env st of
     (Inl e, st1) \<Rightarrow> (Inl e, st1)
   | (Inr drained, st1) \<Rightarrow>
       if \<not> drained then (Inr (), on_tail (\<lambda>t. t\<lparr>ft_backlog := True\<rparr>) st1)
       else case te_path env of
         NotFound \<Rightarrow> (Inr (), on_tail (\<lambda>t. t\<lparr>ft_backlog := False\<rparr>) st1)
       | StatFailed \<Rightarrow> (Inl StatError, st1)
       | Found obj \<Rightarrow>
           (case compute_fingerprint env obj (length (fo_data (te_obj env obj))) of
              Inl e \<Rightarrow> (Inl e, st1)
            | Inr new_fp \<Rightarrow> on_change env obj new_fp st1))"

text \<open>\<open>tick_at\<close>: the budget is what the pacer allows, at most the capacity seen; the third result is what was used of it.\<close>

definition tick_at ::
  "tail_env \<Rightarrow> instant \<Rightarrow> nat \<Rightarrow> nat \<Rightarrow> nat \<Rightarrow> file_tail \<Rightarrow> checkpoint_dir \<Rightarrow> (tail_error + unit) \<times> nat \<times> tick_state" where
  "tick_at env now avail cap slots t d =
     (let granted = min avail cap;
          (r, st) = tick_with_budget env \<lparr>tk_tail = t\<lparr>ft_next_poll := Some (now + 1000)\<rparr>, tk_budget = granted,
            tk_slots = slots, tk_out = [], tk_dir = d\<rparr>
      in (r, granted - tk_budget st, st))"

end
