(* ===== verification/Tail_Safety.thy ===== *)
theory Tail_Safety
  imports File_Tail "HOL-Library.Sublist"
begin

text \<open>
  What the file tail promises: every complete line is handed over exactly once and in order while a
  file grows, whatever the budgets and the room in the channel, and a rotated file is read to its
  last complete line before the new one. The section on truncation shows where that fails.
\<close>

section \<open>The lines of a file\<close>

function all_lines :: "nat \<Rightarrow> bytes \<Rightarrow> complete_line list" where
  "all_lines cursor bs = (case find_byte (\<lambda>c. c = CHR 0x0A) bs of
     None \<Rightarrow> []
   | Some i \<Rightarrow> \<lparr>cl_start = cursor, cl_text = trim_cr (from_utf8_lossy (take i bs)), cl_next = cursor + Suc i\<rparr> #
       all_lines (cursor + Suc i) (drop (Suc i) bs))"
  by pat_completeness auto
termination
  by (relation "measure (\<lambda>(cursor, bs). length bs)") (auto simp: find_byte_Some)

declare all_lines.simps [simp del]

lemma read_complete_lines_eq:
  "read_complete_lines m cursor bs = (take m (all_lines cursor bs), m \<le> length (all_lines cursor bs))"
proof (induction m cursor bs rule: read_complete_lines.induct)
  case (2 m cursor bs)
  then show ?case by (simp add: all_lines.simps [of cursor bs] split: option.splits)
qed simp

text \<open>Where the first \<open>k\<close> lines end.\<close>

definition line_end :: "nat \<Rightarrow> complete_line list \<Rightarrow> nat \<Rightarrow> nat" where
  "line_end cursor ls k = (if k = 0 then cursor else cl_next (ls ! (k - 1)))"

lemma line_end_0 [simp]: "line_end cursor ls 0 = cursor"
  by (simp add: line_end_def)

lemma line_end_Cons: "line_end cursor (l # ls) (Suc k) = line_end (cl_next l) ls k"
  by (simp add: line_end_def nth_Cons')

lemma find_byte_append_Some: "find_byte P xs = Some i \<Longrightarrow> find_byte P (xs @ ys) = Some i"
  by (auto simp: find_byte_Some nth_append)

text \<open>The first complete lines stay the same when the file grows, and end inside it.\<close>

lemma all_lines_grow:
  "k \<le> length (all_lines cursor bs) \<Longrightarrow>
     take k (all_lines cursor (bs @ cs)) = take k (all_lines cursor bs) \<and>
     cursor \<le> line_end cursor (all_lines cursor bs) k \<and> line_end cursor (all_lines cursor bs) k \<le> cursor + length bs \<and>
     drop k (all_lines cursor (bs @ cs)) =
       all_lines (line_end cursor (all_lines cursor bs) k) (drop (line_end cursor (all_lines cursor bs) k - cursor) (bs @ cs))"
proof (induction k arbitrary: cursor bs)
  case (Suc k)
  then obtain i where i: "find_byte (\<lambda>c. c = CHR 0x0A) bs = Some i"
    by (auto simp: all_lines.simps [of cursor bs] split: option.splits)
  then have len: "Suc i \<le> length bs" by (auto simp: find_byte_Some)
  let ?l = "\<lparr>cl_start = cursor, cl_text = trim_cr (from_utf8_lossy (take i bs)), cl_next = cursor + Suc i\<rparr>"
  have bs: "all_lines cursor bs = ?l # all_lines (cursor + Suc i) (drop (Suc i) bs)"
    using i by (simp add: all_lines.simps [of cursor bs])
  have bscs: "all_lines cursor (bs @ cs) = ?l # all_lines (cursor + Suc i) (drop (Suc i) bs @ cs)"
    using find_byte_append_Some [OF i, of cs] len by (simp add: all_lines.simps [of cursor "bs @ cs"])
  have "k \<le> length (all_lines (cursor + Suc i) (drop (Suc i) bs))" using Suc.prems bs by simp
  note IH = Suc.IH [OF this]
  let ?e = "line_end (cursor + Suc i) (all_lines (cursor + Suc i) (drop (Suc i) bs)) k"
  have "drop (?e - (cursor + Suc i)) (drop (Suc i) bs @ cs) = drop (?e - cursor) (bs @ cs)"
  proof -
    have "drop (Suc i) bs @ cs = drop (Suc i) (bs @ cs)" using len by simp
    moreover have "cursor + Suc i \<le> ?e" using IH by blast
    then have "?e - cursor = (?e - (cursor + Suc i)) + Suc i" by linarith
    ultimately show ?thesis by (simp only: drop_drop)
  qed
  note dropped = this
  have "?e \<le> cursor + Suc i + length (drop (Suc i) bs)" "cursor + Suc i \<le> ?e" using IH by blast+
  then have "?e \<le> cursor + length bs" "cursor \<le> ?e" using len by simp_all
  moreover have "take k (all_lines (cursor + Suc i) (drop (Suc i) bs @ cs)) = take k (all_lines (cursor + Suc i) (drop (Suc i) bs))"
    "drop k (all_lines (cursor + Suc i) (drop (Suc i) bs @ cs)) = all_lines ?e (drop (?e - cursor) (bs @ cs))"
    using IH unfolding dropped by blast+
  ultimately show ?case unfolding bs bscs line_end_Cons complete_line.select_convs by (simp only: take_Suc_Cons drop_Suc_Cons simp_thms)
qed simp

section \<open>What is left of a handle\<close>

definition line_of :: "(str \<Rightarrow> log_line option) \<Rightarrow> u64 \<Rightarrow> complete_line \<Rightarrow> log_line option" where
  "line_of parse fp l = map_option (\<lambda>line. line\<lparr>ll_record_id := ''log:'' @ line_id fp (cl_start l)\<rparr>) (parse (cl_text l))"

definition emits :: "(str \<Rightarrow> log_line option) \<Rightarrow> u64 \<Rightarrow> complete_line list \<Rightarrow> log_line list" where
  "emits parse fp ls = List.map_filter (line_of parse fp) ls"

definition left_of :: "(str \<Rightarrow> log_line option) \<Rightarrow> bytes \<Rightarrow> tracked_handle \<Rightarrow> log_line list" where
  "left_of parse bs h = emits parse (th_fingerprint h) (all_lines (th_offset h) (drop (th_offset h) bs))"

lemma log_line_of_eq: "log_line_of env fp = line_of (te_parse env) fp"
  by (simp add: log_line_of_def line_of_def record_id_def fun_eq_iff)

lemma emits_simps [simp]:
  "emits parse fp [] = []"
  "emits parse fp (l # ls) = (case line_of parse fp l of None \<Rightarrow> [] | Some x \<Rightarrow> [x]) @ emits parse fp ls"
  by (simp_all add: emits_def map_filter_simps split: option.split)

lemma emits_append [simp]: "emits parse fp (xs @ ys) = emits parse fp xs @ emits parse fp ys"
  by (induction xs) auto

definition moved :: "tracked_handle \<Rightarrow> tracked_handle \<Rightarrow> bool" where
  "moved h h' \<longleftrightarrow> th_file h' = th_file h \<and> th_fingerprint h' = th_fingerprint h \<and> th_inode h' = th_inode h"

lemma emit_lines_exact:
  "emit_lines env ls h st = (full, h', st') \<Longrightarrow>
     \<exists>k\<le>length ls. (full \<or> k = length ls) \<and> moved h h' \<and> th_offset h' = line_end (th_offset h) ls k \<and>
       tk_out st' = tk_out st @ emits (te_parse env) (th_fingerprint h) (take k ls) \<and>
       tk_tail st' = tk_tail st \<and> tk_dir st' = tk_dir st"
proof (induction ls arbitrary: h st)
  case (Cons l ls)
  show ?case
  proof (cases "log_line_of env (th_fingerprint h) l = None \<or> tk_slots st \<noteq> 0")
    case True
    let ?h = "h\<lparr>th_offset := cl_next l\<rparr>"
    obtain st1 where st1: "emit_lines env ls ?h st1 = (full, h', st')" "tk_tail st1 = tk_tail st" "tk_dir st1 = tk_dir st"
      "tk_out st1 = tk_out st @ (case line_of (te_parse env) (th_fingerprint h) l of None \<Rightarrow> [] | Some x \<Rightarrow> [x])"
      using Cons.prems True by (cases "log_line_of env (th_fingerprint h) l") (auto simp: log_line_of_eq)
    from Cons.IH [OF st1(1)] obtain k where "k \<le> length ls" "full \<or> k = length ls" "moved ?h h'"
      "th_offset h' = line_end (cl_next l) ls k"
      "tk_out st' = tk_out st1 @ emits (te_parse env) (th_fingerprint h) (take k ls)" "tk_tail st' = tk_tail st1" "tk_dir st' = tk_dir st1"
      by auto
    with st1 show ?thesis
      by (intro exI [of _ "Suc k"]) (auto simp: moved_def line_end_Cons)
  next
    case False
    with Cons.prems show ?thesis by (intro exI [of _ 0]) (auto simp: moved_def)
  qed
qed (simp add: moved_def)

text \<open>Handing lines over conserves what was sent and what is left, also as the file will have grown later.\<close>

lemma emit_conserves:
  assumes "emit_from_handle env h st = (Inr rest, h', st')" and "prefix (fo_data (te_obj env (th_file h))) bs"
  shows "tk_out st' @ left_of (te_parse env) bs h' = tk_out st @ left_of (te_parse env) bs h"
    and "moved h h'" and "tk_tail st' = tk_tail st" and "tk_dir st' = tk_dir st"
    and "\<not> rest \<Longrightarrow> left_of (te_parse env) (fo_data (te_obj env (th_file h))) h' = []"
    and "th_offset h \<le> length (fo_data (te_obj env (th_file h))) \<Longrightarrow> th_offset h' \<le> length (fo_data (te_obj env (th_file h)))"
proof -
  let ?data = "fo_data (te_obj env (th_file h))" and ?off = "th_offset h"
  let ?all = "all_lines ?off (drop ?off ?data)"
  obtain cs where bs: "bs = ?data @ cs" using assms(2) by (auto simp: prefix_def)
  consider (none) "tk_budget st = 0" "rest" "h' = h" "st' = st"
    | (some) full where "emit_lines env (take (tk_budget st) ?all) h st = (full, h', st')"
        "rest = (full \<or> tk_budget st \<le> length ?all)" "tk_budget st \<noteq> 0"
    using assms(1) by (auto simp: emit_from_handle_def read_complete_lines_eq split: if_splits prod.splits)
  then have "(tk_out st' @ left_of (te_parse env) bs h' = tk_out st @ left_of (te_parse env) bs h \<and>
      moved h h' \<and> tk_tail st' = tk_tail st \<and> tk_dir st' = tk_dir st) \<and>
    (\<not> rest \<longrightarrow> left_of (te_parse env) ?data h' = []) \<and> (?off \<le> length ?data \<longrightarrow> th_offset h' \<le> length ?data)"
  proof cases
    case none
    then show ?thesis by (simp add: moved_def)
  next
    case some
    obtain k where k: "k \<le> length (take (tk_budget st) ?all)" "full \<or> k = length (take (tk_budget st) ?all)" "moved h h'"
      "th_offset h' = line_end ?off (take (tk_budget st) ?all) k"
      "tk_out st' = tk_out st @ emits (te_parse env) (th_fingerprint h) (take k (take (tk_budget st) ?all))"
      "tk_tail st' = tk_tail st" "tk_dir st' = tk_dir st"
      using emit_lines_exact [OF some(1)] by blast
    then have kle: "k \<le> length ?all" and kb: "k \<le> tk_budget st" by auto
    have off': "th_offset h' = line_end ?off ?all k" using k(4) kb kle by (simp add: line_end_def)
    have out: "tk_out st' = tk_out st @ emits (te_parse env) (th_fingerprint h) (take k ?all)"
      using k(5) kb by (simp add: min_def)
    have fp: "th_fingerprint h' = th_fingerprint h" using k(3) by (simp add: moved_def)
    have grow: "take k (all_lines ?off (drop ?off (?data @ xs))) = take k ?all \<and>
        drop k (all_lines ?off (drop ?off (?data @ xs))) = all_lines (th_offset h') (drop (th_offset h') (?data @ xs))" for xs
    proof -
      have d: "drop ?off ?data @ drop (?off - length ?data) xs = drop ?off (?data @ xs)" by simp
      note g = all_lines_grow [OF kle, of "drop (?off - length ?data) xs", unfolded d, folded off']
      then have "th_offset h' - ?off + ?off = th_offset h'" by simp
      with g show ?thesis by (simp only: drop_drop simp_thms)
    qed
    have "left_of (te_parse env) bs h = emits (te_parse env) (th_fingerprint h) (take k ?all) @ left_of (te_parse env) bs h'"
    proof -
      have "left_of (te_parse env) bs h = emits (te_parse env) (th_fingerprint h)
          (take k (all_lines ?off (drop ?off bs)) @ drop k (all_lines ?off (drop ?off bs)))"
        by (simp add: left_of_def)
      also have "\<dots> = emits (te_parse env) (th_fingerprint h) (take k ?all) @ left_of (te_parse env) bs h'"
        using grow [of cs] by (simp add: bs left_of_def fp)
      finally show ?thesis .
    qed
    moreover have "left_of (te_parse env) ?data h' = []" if "\<not> rest"
    proof -
      have "k = length ?all" using that some(2) k(2) by auto
      with grow [of "[]"] show ?thesis by (simp add: left_of_def)
    qed
    moreover have "th_offset h' \<le> length ?data" if "?off \<le> length ?data"
      using all_lines_grow [OF kle, of "[]"] off' that by simp
    ultimately show ?thesis using k(3,6,7) out by simp
  qed
  then show "tk_out st' @ left_of (te_parse env) bs h' = tk_out st @ left_of (te_parse env) bs h"
    "moved h h'" "tk_tail st' = tk_tail st" "tk_dir st' = tk_dir st"
    "\<not> rest \<Longrightarrow> left_of (te_parse env) ?data h' = []" "?off \<le> length ?data \<Longrightarrow> th_offset h' \<le> length ?data" by simp_all
qed

section \<open>Following a growing file\<close>

lemma on_tail_simps [simp]:
  "tk_tail (on_tail f st) = f (tk_tail st)" "tk_out (on_tail f st) = tk_out st" "tk_dir (on_tail f st) = tk_dir st"
  "tk_budget (on_tail f st) = tk_budget st" "tk_slots (on_tail f st) = tk_slots st"
  by (simp_all add: on_tail_def)

lemma read_and_emit_conserves:
  assumes "ft_handle (tk_tail st) = Some h" and "te_read env (th_file h)"
    and "prefix (fo_data (te_obj env (th_file h))) bs" and "read_and_emit env st = (r, st')"
  shows "\<exists>h'. r = Inr () \<and> ft_handle (tk_tail st') = Some h' \<and> moved h h' \<and>
    tk_out st' @ left_of (te_parse env) bs h' = tk_out st @ left_of (te_parse env) bs h \<and>
    ft_draining (tk_tail st') = ft_draining (tk_tail st) \<and>
    (\<not> ft_backlog (tk_tail st') \<longrightarrow> left_of (te_parse env) (fo_data (te_obj env (th_file h))) h' = []) \<and>
    (th_offset h \<le> length (fo_data (te_obj env (th_file h))) \<longrightarrow> th_offset h' \<le> length (fo_data (te_obj env (th_file h))))"
proof -
  obtain er h' st1 where e: "emit_from_handle env h st = (er, h', st1)" by (rule prod_cases3)
  moreover obtain rest where r: "er = Inr rest"
    using e assms(2) by (auto simp: emit_from_handle_def split: if_splits prod.splits)
  ultimately have e': "emit_from_handle env h st = (Inr rest, h', st1)" by simp
  note c = emit_conserves [OF e' assms(3)]
  have "r = Inr ()" "ft_handle (tk_tail st') = Some h'" "tk_out st' = tk_out st1" "ft_draining (tk_tail st') = ft_draining (tk_tail st)"
    "ft_backlog (tk_tail st') = (ft_backlog (tk_tail st) \<or> rest)"
    using assms(1,4) e' c(3) by (auto simp: read_and_emit_def Let_def split: if_splits)
  with c show ?thesis by (intro exI [of _ h']) simp
qed

text \<open>The tail reads the file that it tracks: the path still names it and its start is unchanged.\<close>

definition tracks :: "tail_env \<Rightarrow> tracked_handle \<Rightarrow> bool" where
  "tracks env h \<longleftrightarrow> te_path env = Found (th_file h) \<and> te_open env \<and> te_read env (th_file h) \<and>
     fingerprint_min_bytes \<le> length (fo_data (te_obj env (th_file h))) \<and>
     te_hash env (take fingerprint_min_bytes (fo_data (te_obj env (th_file h)))) = th_fingerprint h"

lemma tick_on_tracked:
  assumes "ft_handle (tk_tail st) = Some h" and "ft_draining (tk_tail st) = None" and "tracks env h"
    and "th_offset h \<le> length (fo_data (te_obj env (th_file h)))"
  shows "tick_with_budget env st = read_and_emit env (on_tail (\<lambda>t. t\<lparr>ft_backlog := False\<rparr>) st)"
  using assms by (simp add: tick_with_budget_def drain_rotated_def tracks_def compute_fingerprint_def on_change_def decide_change_def Let_def)

record tick_input =
  ti_env :: tail_env
  ti_now :: instant
  ti_avail :: nat
  ti_cap :: nat
  ti_slots :: nat

text \<open>The ticks of \<open>serve_files\<close> for one tail: everything sent, the tail and the checkpoints.\<close>

fun tail_run :: "tick_input list \<Rightarrow> file_tail \<Rightarrow> checkpoint_dir \<Rightarrow> log_line list \<times> file_tail \<times> checkpoint_dir" where
  "tail_run [] t d = ([], t, d)"
| "tail_run (i # is) t d =
     (case tick_at (ti_env i) (ti_now i) (ti_avail i) (ti_cap i) (ti_slots i) t d of
        (r, used, st) \<Rightarrow> (case tail_run is (tk_tail st) (tk_dir st) of (out, t', d') \<Rightarrow> (tk_out st @ out, t', d')))"

abbreviation data_of :: "tick_input \<Rightarrow> nat \<Rightarrow> bytes" where
  "data_of i f \<equiv> fo_data (te_obj (ti_env i) f)"

lemma tail_run_conserves:
  assumes "\<forall>i\<in>set is. te_parse (ti_env i) = parse \<and> prefix (data_of i f) bs"
  shows "sorted_wrt (\<lambda>i j. prefix (data_of i f) (data_of j f)) is \<Longrightarrow>
    ft_handle t = Some h \<Longrightarrow> ft_draining t = None \<Longrightarrow> th_file h = f \<Longrightarrow>
    \<forall>i\<in>set is. tracks (ti_env i) h \<and> th_offset h \<le> length (data_of i f) \<Longrightarrow>
    tail_run is t d = (out, t', d') \<Longrightarrow>
    \<exists>h'. ft_handle t' = Some h' \<and> moved h h' \<and> out @ left_of parse bs h' = left_of parse bs h \<and>
      (is \<noteq> [] \<longrightarrow> \<not> ft_backlog t' \<longrightarrow> left_of parse (data_of (last is) f) h' = [])"
  using assms
proof (induction "is" arbitrary: t d h out)
  case Nil
  then show ?case by (auto simp: moved_def)
next
  case (Cons i "is")
  let ?st = "\<lparr>tk_tail = t\<lparr>ft_next_poll := Some (ti_now i + 1000)\<rparr>, tk_budget = min (ti_avail i) (ti_cap i),
    tk_slots = ti_slots i, tk_out = [], tk_dir = d\<rparr>"
  have tr: "tracks (ti_env i) h" "th_offset h \<le> length (data_of i f)" using Cons.prems(5) by auto
  obtain r st where r: "read_and_emit (ti_env i) (on_tail (\<lambda>t. t\<lparr>ft_backlog := False\<rparr>) ?st) = (r, st)" by (rule prod.exhaust)
  have tick: "tick_with_budget (ti_env i) ?st = (r, st)"
    using tick_on_tracked [of ?st h "ti_env i"] tr Cons.prems(2-4) r by simp
  have pre: "prefix (data_of i (th_file h)) bs" "te_parse (ti_env i) = parse" "te_read (ti_env i) (th_file h)"
    using Cons.prems(4,7) tr(1) by (auto simp: tracks_def)
  obtain h1 where h1: "ft_handle (tk_tail st) = Some h1" "moved h h1" "tk_out st @ left_of parse bs h1 = left_of parse bs h"
    "ft_draining (tk_tail st) = None" "\<not> ft_backlog (tk_tail st) \<longrightarrow> left_of parse (data_of i f) h1 = []"
    "th_offset h1 \<le> length (data_of i f)"
    using read_and_emit_conserves [OF _ pre(3,1) r] pre(2) tr(2) Cons.prems(2-4) by auto
  obtain out1 where run: "tail_run is (tk_tail st) (tk_dir st) = (out1, t', d')" and out: "out = tk_out st @ out1"
    using Cons.prems(6) tick by (auto simp: tick_at_def Let_def split: prod.splits)
  have same: "th_file h1 = f" using h1(2) Cons.prems(4) by (simp add: moved_def)
  have "\<forall>j\<in>set is. tracks (ti_env j) h1 \<and> th_offset h1 \<le> length (data_of j f)"
  proof
    fix j assume j: "j \<in> set is"
    then have "prefix (data_of i f) (data_of j f)" using Cons.prems(1) by simp
    then have "length (data_of i f) \<le> length (data_of j f)" by (rule prefix_length_le)
    with j Cons.prems(5) h1(2,6) show "tracks (ti_env j) h1 \<and> th_offset h1 \<le> length (data_of j f)"
      by (auto simp: tracks_def moved_def)
  qed
  with Cons.IH [OF _ h1(1,4) same _ run] Cons.prems(1,7) obtain h' where h': "ft_handle t' = Some h'" "moved h1 h'"
    "out1 @ left_of parse bs h' = left_of parse bs h1"
    "is \<noteq> [] \<longrightarrow> \<not> ft_backlog t' \<longrightarrow> left_of parse (data_of (last is) f) h' = []" by auto
  have "left_of parse (data_of (last (i # is)) f) h' = []" if "\<not> ft_backlog t'"
  proof (cases "is = []")
    case True
    with run h'(1) h1 that show ?thesis by simp
  next
    case False
    with h'(4) that show ?thesis by simp
  qed
  moreover have "moved h h'" using h1(2) h'(2) by (simp add: moved_def)
  ultimately show ?case using h'(1,3) h1(3) out by (intro exI [of _ h']) (metis append.assoc)
qed

text \<open>
  C30 (functional). While a tracked file only grows, the ticks hand every complete line over exactly
  once and in order, whatever the budgets, the room in the channel and the moments of the ticks: at
  any time what was sent and what is still to be sent are together the complete lines of the file
  from where the tail started, each with the record id of its position; and when the last tick
  reports no backlog, nothing is left. The parser of lines is one function for all ticks.
\<close>

theorem growing_file_lines_once:
  assumes "is \<noteq> []" and "sorted_wrt (\<lambda>i j. prefix (data_of i (th_file h)) (data_of j (th_file h))) is"
    and "ft_handle t = Some h" and "ft_draining t = None"
    and "\<forall>i\<in>set is. te_parse (ti_env i) = parse \<and> tracks (ti_env i) h \<and> th_offset h \<le> length (data_of i (th_file h))"
    and "tail_run is t d = (out, t', d')"
  shows "\<exists>h'. ft_handle t' = Some h' \<and> th_file h' = th_file h \<and> th_fingerprint h' = th_fingerprint h \<and>
    out @ left_of parse (data_of (last is) (th_file h)) h' = left_of parse (data_of (last is) (th_file h)) h \<and>
    (ft_backlog t' \<or> left_of parse (data_of (last is) (th_file h)) h' = [])"
proof -
  have "\<forall>i\<in>set is. prefix (data_of i (th_file h)) (data_of (last is) (th_file h))"
  proof
    fix i assume "i \<in> set is"
    then obtain xs ys where xs: "is = xs @ i # ys" by (metis split_list)
    with assms(2) show "prefix (data_of i (th_file h)) (data_of (last is) (th_file h))"
      by (cases ys rule: rev_cases) (auto simp: sorted_wrt_append)
  qed
  with tail_run_conserves [OF _ assms(2,3,4) refl _ assms(6), of parse "data_of (last is) (th_file h)"] assms(1,5) show ?thesis
    by (auto simp: moved_def)
qed

section \<open>Rotation\<close>

definition left_in :: "tail_env \<Rightarrow> tracked_handle option \<Rightarrow> log_line list" where
  "left_in env h = (case h of None \<Rightarrow> [] | Some h \<Rightarrow> left_of (te_parse env) (fo_data (te_obj env (th_file h))) h)"

definition pending_lines :: "tail_env \<Rightarrow> file_tail \<Rightarrow> log_line list" where
  "pending_lines env t = left_in env (ft_draining t) @ left_in env (ft_handle t)"

lemma left_in_simps [simp]: "left_in env None = []"
  "left_in env (Some h) = left_of (te_parse env) (fo_data (te_obj env (th_file h))) h"
  by (simp_all add: left_in_def)

lemma drain_rotated_conserves:
  assumes "\<forall>f. te_read env f" and "drain_rotated env st = (r, st')"
  shows "\<exists>b. r = Inr b \<and> ft_handle (tk_tail st') = ft_handle (tk_tail st) \<and> b = (ft_draining (tk_tail st') = None) \<and>
    tk_out st' @ left_in env (ft_draining (tk_tail st')) = tk_out st @ left_in env (ft_draining (tk_tail st))"
proof (cases "ft_draining (tk_tail st)")
  case (Some old)
  let ?st = "on_tail (\<lambda>t. t\<lparr>ft_draining := None\<rparr>) st"
  obtain er old' st1 where e: "emit_from_handle env old ?st = (er, old', st1)" by (rule prod_cases3)
  then obtain rest where er: "er = Inr rest"
    using assms(1) by (auto simp: emit_from_handle_def split: if_splits prod.splits)
  note c = emit_conserves [OF e [unfolded er], of "fo_data (te_obj env (th_file old))"]
  then show ?thesis
    using assms(2) Some e er by (auto simp: drain_rotated_def moved_def split: if_splits)
qed (use assms in \<open>auto simp: drain_rotated_def\<close>)

lemma read_and_emit_pending:
  assumes "ft_handle (tk_tail st) = Some h" and "te_read env (th_file h)" and "ft_draining (tk_tail st) = None"
    and "read_and_emit env st = (r, st')"
  shows "r = Inr () \<and> tk_out st' @ pending_lines env (tk_tail st') = tk_out st @ pending_lines env (tk_tail st)"
  using read_and_emit_conserves [OF assms(1,2) _ assms(4), of "fo_data (te_obj env (th_file h))"] assms(1,3)
  by (auto simp: pending_lines_def moved_def)

lemma on_change_tracked:
  assumes "ft_handle (tk_tail st) = Some h" and "th_offset h \<le> length (fo_data (te_obj env f))"
  shows "on_change env f (Some (th_fingerprint h)) st = read_and_emit env (on_tail (\<lambda>t. t\<lparr>ft_backlog := False\<rparr>) st)"
  using assms by (simp add: on_change_def decide_change_def Let_def)

lemma tick_conserves:
  assumes "ft_handle (tk_tail st) = Some h" and "tracks env h" and "\<forall>f. te_read env f"
    and "th_offset h \<le> length (fo_data (te_obj env (th_file h)))" and "tick_with_budget env st = (r, st')"
  shows "r = Inr () \<and> tk_out st' @ pending_lines env (tk_tail st') = tk_out st @ pending_lines env (tk_tail st)"
proof -
  obtain dr st1 where dr: "drain_rotated env st = (dr, st1)" by (rule prod.exhaust)
  from drain_rotated_conserves [OF assms(3) dr] obtain b where b: "dr = Inr b" "ft_handle (tk_tail st1) = Some h"
    "b = (ft_draining (tk_tail st1) = None)"
    "tk_out st1 @ left_in env (ft_draining (tk_tail st1)) = tk_out st @ left_in env (ft_draining (tk_tail st))"
    using assms(1) by auto
  then have p: "tk_out st1 @ pending_lines env (tk_tail st1) = tk_out st @ pending_lines env (tk_tail st)"
    using assms(1) by (simp add: pending_lines_def)
  show ?thesis
  proof (cases b)
    case True
    have "tick_with_budget env st = read_and_emit env (on_tail (\<lambda>t. t\<lparr>ft_backlog := False\<rparr>) st1)"
      using dr b(1,2) True assms(2,4) on_change_tracked [OF b(2)]
      by (simp add: tick_with_budget_def tracks_def compute_fingerprint_def)
    with assms(5) read_and_emit_pending [of "on_tail (\<lambda>t. t\<lparr>ft_backlog := False\<rparr>) st1" h env r st'] b True p assms(3)
    show ?thesis by (simp add: pending_lines_def)
  next
    case False
    with assms(5) dr b(1) have "r = Inr ()" "st' = on_tail (\<lambda>t. t\<lparr>ft_backlog := True\<rparr>) st1"
      by (auto simp: tick_with_budget_def)
    with p show ?thesis by (simp add: pending_lines_def)
  qed
qed

text \<open>The path now names another file, long enough to have a fingerprint of its own.\<close>

definition rotates :: "tail_env \<Rightarrow> tracked_handle \<Rightarrow> nat \<Rightarrow> bool" where
  "rotates env h f \<longleftrightarrow> te_path env = Found f \<and> te_open env \<and>
     fingerprint_min_bytes \<le> length (fo_data (te_obj env f)) \<and>
     te_hash env (take fingerprint_min_bytes (fo_data (te_obj env f))) \<noteq> th_fingerprint h"

definition new_handle :: "tail_env \<Rightarrow> nat \<Rightarrow> tracked_handle" where
  "new_handle env f = \<lparr>th_file = f, th_fingerprint = te_hash env (take fingerprint_min_bytes (fo_data (te_obj env f))),
     th_inode = fo_inode (te_obj env f), th_offset = 0\<rparr>"

lemma tick_rotates:
  assumes "ft_handle (tk_tail st) = Some h" and "ft_draining (tk_tail st) = None" and "rotates env h f"
    and "\<forall>f. te_read env f" and "tick_with_budget env st = (r, st')"
  shows "r = Inr () \<and> tk_out st' @ pending_lines env (tk_tail st') =
    tk_out st @ pending_lines env (tk_tail st) @ left_in env (Some (new_handle env f))"
proof -
  let ?fp = "te_hash env (take fingerprint_min_bytes (fo_data (te_obj env f)))"
  let ?st0 = "on_tail (\<lambda>t. t\<lparr>ft_backlog := False\<rparr>) st"
  let ?st = "on_tail (\<lambda>t. t\<lparr>ft_draining := ft_handle t, ft_handle := None\<rparr>) ?st0"
  obtain dr st1 where dr: "drain_rotated env ?st = (dr, st1)" by (rule prod.exhaust)
  from drain_rotated_conserves [OF assms(4) dr] obtain b where b: "dr = Inr b" "ft_handle (tk_tail st1) = None"
    "b = (ft_draining (tk_tail st1) = None)"
    "tk_out st1 @ left_in env (ft_draining (tk_tail st1)) = tk_out st @ left_in env (Some h)"
    using assms(1) by auto
  let ?st3 = "on_tail (\<lambda>t. t\<lparr>ft_handle := Some (new_handle env f)\<rparr>) (on_tail (\<lambda>t. t\<lparr>ft_deferred_warned := False\<rparr>) st1)"
  have tick: "(r, st') = (if \<not> b then (Inr (), on_tail (\<lambda>t. t\<lparr>ft_backlog := True\<rparr>) ?st3) else read_and_emit env ?st3)"
    using assms(1,2,3,5) dr b(1)
    by (auto simp: tick_with_budget_def drain_rotated_def rotates_def compute_fingerprint_def on_change_def
        decide_change_def handle_rotation_def new_handle_def Let_def)
  have start: "tk_out st @ pending_lines env (tk_tail st) = tk_out st1 @ left_in env (ft_draining (tk_tail st1))"
    using b(4) assms(1,2) by (simp add: pending_lines_def)
  show ?thesis
  proof (cases b)
    case True
    with tick have "read_and_emit env ?st3 = (r, st')" by simp
    with read_and_emit_pending [of ?st3 "new_handle env f" env r st'] b(3) True assms(4) start show ?thesis
      by (simp add: pending_lines_def append_assoc [symmetric] del: append_assoc)
  next
    case False
    with tick start show ?thesis by (simp add: pending_lines_def append_assoc [symmetric] del: append_assoc)
  qed
qed


section \<open>A new file that is still short\<close>

text \<open>At a tick the path names a file too short for a fingerprint, and everything can be read.\<close>

definition short_at :: "nat \<Rightarrow> tail_env \<Rightarrow> bool" where
  "short_at f env \<longleftrightarrow> te_path env = Found f \<and> (\<forall>g. te_read env g) \<and> length (fo_data (te_obj env f)) < fingerprint_min_bytes"

definition grown_at :: "nat \<Rightarrow> tail_env \<Rightarrow> bool" where
  "grown_at f env \<longleftrightarrow> te_path env = Found f \<and> te_open env \<and> (\<forall>g. te_read env g) \<and> fingerprint_min_bytes \<le> length (fo_data (te_obj env f))"

text \<open>The tail has let go of its file, of which at most the rest is still being drained; nothing else was saved.\<close>

definition let_go :: "tracked_handle \<Rightarrow> file_tail \<Rightarrow> checkpoint_dir \<Rightarrow> file_tail \<Rightarrow> checkpoint_dir \<Rightarrow> bool" where
  "let_go h t d t' d' \<longleftrightarrow> ft_handle t' = None \<and> ft_label t' = ft_label t \<and> d' = d \<and> (\<forall>h'. ft_draining t' = Some h' \<longrightarrow> moved h h')"

lemma drain_keeps:
  assumes "\<forall>f. te_read env f" and "drain_rotated env st = (r, st')" and "\<forall>h'. ft_draining (tk_tail st) = Some h' \<longrightarrow> moved h h'"
  shows "tk_dir st' = tk_dir st" "ft_label (tk_tail st') = ft_label (tk_tail st)" "\<forall>h'. ft_draining (tk_tail st') = Some h' \<longrightarrow> moved h h'"
proof -
  have "tk_dir st' = tk_dir st \<and> ft_label (tk_tail st') = ft_label (tk_tail st) \<and> (\<forall>h'. ft_draining (tk_tail st') = Some h' \<longrightarrow> moved h h')"
  proof (cases "ft_draining (tk_tail st)")
    case (Some old)
    let ?st = "on_tail (\<lambda>t. t\<lparr>ft_draining := None\<rparr>) st"
    obtain er old' st1 where e: "emit_from_handle env old ?st = (er, old', st1)" by (rule prod_cases3)
    then obtain rest where er: "er = Inr rest"
      using assms(1) by (auto simp: emit_from_handle_def split: if_splits prod.splits)
    note c = emit_conserves [OF e [unfolded er], of "fo_data (te_obj env (th_file old))"]
    have "moved h old" using assms(3) Some by simp
    with c have "moved h old'" by (simp add: moved_def)
    with c show ?thesis using assms(2) Some e er by (auto simp: drain_rotated_def split: if_splits)
  qed (use assms in \<open>auto simp: drain_rotated_def\<close>)
  then show "tk_dir st' = tk_dir st" "ft_label (tk_tail st') = ft_label (tk_tail st)" "\<forall>h'. ft_draining (tk_tail st') = Some h' \<longrightarrow> moved h h'"
    by simp_all
qed

lemma short_tick_after:
  assumes "short_at f env" and "let_go h t d (tk_tail st) (tk_dir st)" and "tick_with_budget env st = (r, st')"
  shows "let_go h t d (tk_tail st') (tk_dir st') \<and>
    tk_out st' @ left_in env (ft_draining (tk_tail st')) = tk_out st @ left_in env (ft_draining (tk_tail st))"
proof -
  have rd: "\<forall>f. te_read env f" using assms(1) by (simp add: short_at_def)
  obtain dr st1 where dr: "drain_rotated env st = (dr, st1)" by (rule prod.exhaust)
  have gone: "ft_handle (tk_tail st) = None" "\<forall>h'. ft_draining (tk_tail st) = Some h' \<longrightarrow> moved h h'"
    using assms(2) by (simp_all add: let_go_def)
  note k = drain_keeps [OF rd dr gone(2)]
  obtain b where b: "dr = Inr b" "ft_handle (tk_tail st1) = None"
    "tk_out st1 @ left_in env (ft_draining (tk_tail st1)) = tk_out st @ left_in env (ft_draining (tk_tail st))"
    using drain_rotated_conserves [OF rd dr] gone(1) by auto
  have "ft_handle (tk_tail st') = None \<and> ft_label (tk_tail st') = ft_label (tk_tail st1) \<and> tk_dir st' = tk_dir st1 \<and>
      ft_draining (tk_tail st') = ft_draining (tk_tail st1) \<and> tk_out st' = tk_out st1"
    using assms(1,3) dr b(1,2)
    by (cases b) (auto simp: tick_with_budget_def short_at_def compute_fingerprint_def on_change_def decide_change_def Let_def)
  with b(3) k assms(2) show ?thesis by (simp add: let_go_def)
qed

lemma short_tick_first:
  assumes "short_at f env" and "ft_handle (tk_tail st) = Some h" and "ft_draining (tk_tail st) = None"
    and "fo_inode (te_obj env f) \<noteq> th_inode h" and "tick_with_budget env st = (r, st')"
  shows "let_go h (tk_tail st) (tk_dir st) (tk_tail st') (tk_dir st') \<and>
    tk_out st' @ left_in env (ft_draining (tk_tail st')) = tk_out st @ left_in env (Some h)"
proof -
  have rd: "\<forall>f. te_read env f" using assms(1) by (simp add: short_at_def)
  let ?reset = "on_tail (\<lambda>t. t\<lparr>ft_backlog := False\<rparr>) st"
  let ?st = "on_tail (\<lambda>t. t\<lparr>ft_draining := ft_handle t, ft_handle := None\<rparr>) ?reset"
  obtain dr st1 where dr: "drain_rotated env ?st = (dr, st1)" by (rule prod.exhaust)
  have "\<forall>h'. ft_draining (tk_tail ?st) = Some h' \<longrightarrow> moved h h'" using assms(2) by (simp add: moved_def)
  note k = drain_keeps [OF rd dr this]
  obtain b where b: "dr = Inr b" "ft_handle (tk_tail st1) = None"
    "tk_out st1 @ left_in env (ft_draining (tk_tail st1)) = tk_out st @ left_in env (Some h)"
    using drain_rotated_conserves [OF rd dr] assms(2) by auto
  have "drain_rotated env st = (Inr True, st)" using assms(3) by (simp add: drain_rotated_def)
  moreover have "compute_fingerprint env f (length (fo_data (te_obj env f))) = Inr None" "te_path env = Found f"
    using assms(1) by (simp_all add: short_at_def compute_fingerprint_def)
  moreover have "on_change env f None st = handle_rotation env f None (fo_inode (te_obj env f)) (length (fo_data (te_obj env f))) ?reset"
    using assms(2,4) by (simp add: on_change_def decide_change_def Let_def)
  moreover have "handle_rotation env f None (fo_inode (te_obj env f)) (length (fo_data (te_obj env f))) ?reset =
      (Inr (), on_tail (\<lambda>t. t\<lparr>ft_backlog := \<not> b\<rparr>) (on_tail (\<lambda>t. t\<lparr>ft_deferred_warned := False\<rparr>) st1))"
    unfolding handle_rotation_def dr b(1) by (simp add: Let_def)
  ultimately have st': "st' = on_tail (\<lambda>t. t\<lparr>ft_backlog := \<not> b\<rparr>) (on_tail (\<lambda>t. t\<lparr>ft_deferred_warned := False\<rparr>) st1)"
    using assms(5) by (simp add: tick_with_budget_def)
  have "ft_label (tk_tail st1) = ft_label (tk_tail st)" "tk_dir st1 = tk_dir st" using k(1,2) by simp_all
  then show ?thesis unfolding st' let_go_def using b(2,3) k(3) by simp
qed

text \<open>When the file is long enough, it is taken for one never seen before.\<close>

lemma grown_tick:
  assumes "grown_at f env" and "let_go h t d (tk_tail st) (tk_dir st)"
    and "map_option fst (Option.bind (checkpoint_load (te_load env) (tail_checkpoint_key t) d) parse_checkpoint_value) \<noteq>
      Some (te_hash env (take fingerprint_min_bytes (fo_data (te_obj env f))))"
    and "tick_with_budget env st = (r, st')"
  shows "tk_out st' @ pending_lines env (tk_tail st') = tk_out st @ left_in env (ft_draining (tk_tail st)) \<and>
    (case ft_handle (tk_tail st') of None \<Rightarrow> ft_draining (tk_tail st') \<noteq> None
     | Some h' \<Rightarrow> th_file h' = f \<and> th_offset h' = length (fo_data (te_obj env f)))"
proof -
  have rd: "\<forall>f. te_read env f" using assms(1) by (simp add: grown_at_def)
  obtain dr st1 where dr: "drain_rotated env st = (dr, st1)" by (rule prod.exhaust)
  have gone: "ft_handle (tk_tail st) = None" "\<forall>h'. ft_draining (tk_tail st) = Some h' \<longrightarrow> moved h h'"
    using assms(2) by (simp_all add: let_go_def)
  note k = drain_keeps [OF rd dr gone(2)]
  obtain b where b: "dr = Inr b" "ft_handle (tk_tail st1) = None" "b = (ft_draining (tk_tail st1) = None)"
    "tk_out st1 @ left_in env (ft_draining (tk_tail st1)) = tk_out st @ left_in env (ft_draining (tk_tail st))"
    using drain_rotated_conserves [OF rd dr] gone(1) by auto
  show ?thesis
  proof (cases b)
    case False
    with assms(4) dr b show ?thesis by (auto simp: tick_with_budget_def pending_lines_def)
  next
    case True
    let ?sz = "length (fo_data (te_obj env f))" and ?fp = "te_hash env (take fingerprint_min_bytes (fo_data (te_obj env f)))"
    let ?h = "\<lparr>th_file = f, th_fingerprint = ?fp, th_inode = fo_inode (te_obj env f), th_offset = ?sz\<rparr>"
    let ?st0 = "on_tail (\<lambda>t. t\<lparr>ft_draining := None, ft_handle := None\<rparr>) (on_tail (\<lambda>t. t\<lparr>ft_backlog := False\<rparr>) st1)"
    let ?st2 = "on_tail (\<lambda>t. t\<lparr>ft_deferred_warned := False\<rparr>) ?st0"
    let ?st3 = "on_tail (\<lambda>t. t\<lparr>ft_handle := Some ?h\<rparr>) ?st2"
    have "tail_checkpoint_key (tk_tail ?st2) = tail_checkpoint_key t" "tk_dir ?st2 = d"
      using k assms(2) by (simp_all add: tail_checkpoint_key_def let_go_def)
    then have off: "resume_offset env ?st2 ?fp ?sz = ?sz" using assms(3) by (auto simp: resume_offset_def split: option.split)
    have mid: "on_tail (\<lambda>t. t\<lparr>ft_draining := ft_handle t, ft_handle := None\<rparr>) (on_tail (\<lambda>t. t\<lparr>ft_backlog := False\<rparr>) st1) = ?st0"
      using b(2) by (simp add: on_tail_def)
    have "drain_rotated env ?st0 = (Inr True, ?st0)" by (simp add: drain_rotated_def)
    then have "handle_rotation env f (Some ?fp) (fo_inode (te_obj env f)) ?sz (on_tail (\<lambda>t. t\<lparr>ft_backlog := False\<rparr>) st1) = read_and_emit env ?st3"
      using assms(1) off b(2) unfolding handle_rotation_def mid by (simp add: grown_at_def Let_def)
    then have tick: "read_and_emit env ?st3 = (r, st')"
      using assms(1,4) dr b(1,2) True
      by (simp add: tick_with_budget_def grown_at_def compute_fingerprint_def on_change_def decide_change_def Let_def)
    have none: "left_in env (Some ?h) = []" by (simp add: left_of_def all_lines.simps)
    have "tk_out st' @ pending_lines env (tk_tail st') = tk_out st1"
      using read_and_emit_pending [OF _ _ _ tick, of ?h] rd none by (simp add: pending_lines_def)
    moreover have "ft_handle (tk_tail st') = Some ?h"
      using tick rd by (auto simp: read_and_emit_def emit_from_handle_def read_complete_lines_eq all_lines.simps
          Let_def split: if_splits)
    ultimately show ?thesis using b(3,4) True by simp
  qed
qed

lemma tail_run_append:
  "tail_run (xs @ ys) t d = (case tail_run xs t d of (out, t1, d1) \<Rightarrow> (case tail_run ys t1 d1 of (out', t', d') \<Rightarrow> (out @ out', t', d')))"
  by (induction xs arbitrary: t d) (simp_all split: prod.split)

text \<open>How one tick of a run is seen by \<open>tick_with_budget\<close>.\<close>

lemma tick_at_state:
  obtains r st where "tick_with_budget (ti_env i) \<lparr>tk_tail = t\<lparr>ft_next_poll := Some (ti_now i + 1000)\<rparr>, tk_budget = min (ti_avail i) (ti_cap i),
      tk_slots = ti_slots i, tk_out = [], tk_dir = d\<rparr> = (r, st)"
    and "tail_run (i # is) t d = (case tail_run is (tk_tail st) (tk_dir st) of (out, t', d') \<Rightarrow> (tk_out st @ out, t', d'))"
  by (rule prod.exhaust) (auto simp: tick_at_def Let_def split: prod.split)

definition agrees :: "(str \<Rightarrow> log_line option) \<Rightarrow> tracked_handle \<Rightarrow> bytes \<Rightarrow> tail_env \<Rightarrow> bool" where
  "agrees parse h old env \<longleftrightarrow> te_parse env = parse \<and> fo_data (te_obj env (th_file h)) = old"

lemma left_in_agrees:
  assumes "agrees parse h old e1" "agrees parse h old e2" "\<forall>h'. x = Some h' \<longrightarrow> moved h h'"
  shows "left_in e1 x = left_in e2 x"
  using assms by (cases x) (auto simp: agrees_def moved_def)

lemma short_run_after:
  assumes "\<forall>i\<in>set is. short_at f (ti_env i) \<and> agrees parse h old (ti_env i)" and "agrees parse h old env"
    and "let_go h t0 d0 t d" and "tail_run is t d = (out, t', d')"
  shows "let_go h t0 d0 t' d' \<and> out @ left_in env (ft_draining t') = left_in env (ft_draining t)"
  using assms
proof (induction "is" arbitrary: t d out)
  case (Cons i "is")
  obtain r st where tick: "tick_with_budget (ti_env i) \<lparr>tk_tail = t\<lparr>ft_next_poll := Some (ti_now i + 1000)\<rparr>, tk_budget = min (ti_avail i) (ti_cap i),
      tk_slots = ti_slots i, tk_out = [], tk_dir = d\<rparr> = (r, st)"
    and run: "tail_run (i # is) t d = (case tail_run is (tk_tail st) (tk_dir st) of (out, t', d') \<Rightarrow> (tk_out st @ out, t', d'))"
    by (rule tick_at_state)
  have i: "short_at f (ti_env i)" "agrees parse h old (ti_env i)" using Cons.prems(1) by auto
  have "let_go h t0 d0 (t\<lparr>ft_next_poll := Some (ti_now i + 1000)\<rparr>) d" using Cons.prems(3) by (simp add: let_go_def)
  with short_tick_after [OF i(1) _ tick, of h t0 d0]
  have s: "let_go h t0 d0 (tk_tail st) (tk_dir st)"
    "tk_out st @ left_in (ti_env i) (ft_draining (tk_tail st)) = left_in (ti_env i) (ft_draining t)" by simp_all
  obtain out1 where o: "tail_run is (tk_tail st) (tk_dir st) = (out1, t', d')" "out = tk_out st @ out1"
    using Cons.prems(4) run by (auto split: prod.splits)
  have "let_go h t0 d0 t' d' \<and> out1 @ left_in env (ft_draining t') = left_in env (ft_draining (tk_tail st))"
    using Cons.IH [OF _ Cons.prems(2) s(1) o(1)] Cons.prems(1) by simp
  moreover have "left_in (ti_env i) (ft_draining t) = left_in env (ft_draining t)"
    "left_in (ti_env i) (ft_draining (tk_tail st)) = left_in env (ft_draining (tk_tail st))"
    using left_in_agrees [OF i(2) Cons.prems(2)] Cons.prems(3) s(1) by (simp_all add: let_go_def)
  ultimately show ?case using s(2) o(2) by simp
qed simp

text \<open>
  Further property (error). A rotated file that is shorter than 1024 bytes when the tail first sees it loses what was written to
  it until it is longer. After one or more ticks at which the path names the short new file, and any budgets, the
  first tick at which it has 1024 bytes starts behind its last byte (or finds the old file still being drained): what was
  sent and what is pending are together exactly the lines that were left of the old file, and no line that the
  new file then holds is sent or pending. The inode must differ from the old one, everything must be readable, the
  old file must no longer change and no checkpoint of the new contents may have been saved before.
\<close>

theorem short_new_file_lost:
  assumes "ft_handle t = Some h" and "ft_draining t = None" and "shorts \<noteq> []"
    and "\<forall>i\<in>set shorts. short_at f (ti_env i) \<and> agrees parse h old (ti_env i) \<and> fo_inode (te_obj (ti_env i) f) \<noteq> th_inode h"
    and "grown_at f (ti_env i)" and "agrees parse h old (ti_env i)"
    and "map_option fst (Option.bind (checkpoint_load (te_load (ti_env i)) (tail_checkpoint_key t) d) parse_checkpoint_value) \<noteq>
      Some (te_hash (ti_env i) (take fingerprint_min_bytes (data_of i f)))"
    and "tail_run (shorts @ [i]) t d = (out, t', d')"
  shows "out @ pending_lines (ti_env i) t' = left_of parse old h \<and>
    (case ft_handle t' of None \<Rightarrow> ft_draining t' \<noteq> None | Some h' \<Rightarrow> th_file h' = f \<and> th_offset h' = length (data_of i f))"
proof -
  obtain j js where js: "shorts = j # js" using assms(3) by (cases shorts) auto
  obtain r st where tick: "tick_with_budget (ti_env j) \<lparr>tk_tail = t\<lparr>ft_next_poll := Some (ti_now j + 1000)\<rparr>, tk_budget = min (ti_avail j) (ti_cap j),
      tk_slots = ti_slots j, tk_out = [], tk_dir = d\<rparr> = (r, st)"
    and run: "tail_run (j # js) t d = (case tail_run js (tk_tail st) (tk_dir st) of (out, t', d') \<Rightarrow> (tk_out st @ out, t', d'))"
    by (rule tick_at_state)
  have j: "short_at f (ti_env j)" "agrees parse h old (ti_env j)" "fo_inode (te_obj (ti_env j) f) \<noteq> th_inode h"
    using assms(4) js by auto
  from short_tick_first [OF j(1) _ _ j(3) tick] assms(1,2)
  have s: "let_go h t d (tk_tail st) (tk_dir st)" "tk_out st @ left_in (ti_env j) (ft_draining (tk_tail st)) = left_in (ti_env j) (Some h)"
    by (simp_all add: let_go_def)
  obtain out1 t1 d1 where r1: "tail_run js (tk_tail st) (tk_dir st) = (out1, t1, d1)" by (rule prod_cases3)
  have "\<forall>i\<in>set js. short_at f (ti_env i) \<and> agrees parse h old (ti_env i)" using assms(4) js by simp
  from short_run_after [OF this assms(6) s(1) r1]
  have s1: "let_go h t d t1 d1" "out1 @ left_in (ti_env i) (ft_draining t1) = left_in (ti_env i) (ft_draining (tk_tail st))" by simp_all
  obtain r2 st2 where tick2: "tick_with_budget (ti_env i) \<lparr>tk_tail = t1\<lparr>ft_next_poll := Some (ti_now i + 1000)\<rparr>, tk_budget = min (ti_avail i) (ti_cap i),
      tk_slots = ti_slots i, tk_out = [], tk_dir = d1\<rparr> = (r2, st2)"
    and run2: "tail_run [i] t1 d1 = (case tail_run [] (tk_tail st2) (tk_dir st2) of (out, t', d') \<Rightarrow> (tk_out st2 @ out, t', d'))"
    by (rule tick_at_state)
  have "let_go h t d (t1\<lparr>ft_next_poll := Some (ti_now i + 1000)\<rparr>) d1" using s1(1) by (simp add: let_go_def)
  with grown_tick [OF assms(5) _ assms(7) tick2, of h]
  have g: "tk_out st2 @ pending_lines (ti_env i) (tk_tail st2) = left_in (ti_env i) (ft_draining t1)"
    "case ft_handle (tk_tail st2) of None \<Rightarrow> ft_draining (tk_tail st2) \<noteq> None
     | Some h' \<Rightarrow> th_file h' = f \<and> th_offset h' = length (data_of i f)" by simp_all
  have "tail_run shorts t d = (tk_out st @ out1, t1, d1)" "tail_run [i] t1 d1 = (tk_out st2, tk_tail st2, tk_dir st2)"
    unfolding js run run2 r1 by simp_all
  with assms(8) have o: "out = tk_out st @ out1 @ tk_out st2" "t' = tk_tail st2"
    by (simp_all add: tail_run_append del: tail_run.simps)
  have "left_in (ti_env i) (ft_draining (tk_tail st)) = left_in (ti_env j) (ft_draining (tk_tail st))"
    using left_in_agrees [OF assms(6) j(2)] s(1) by (simp add: let_go_def)
  with g s1(2) s(2) have "out @ pending_lines (ti_env i) t' = left_in (ti_env j) (Some h)" by (simp add: o)
  with j(2) g(2) show ?thesis unfolding o(2) by (simp add: agrees_def)
qed

section \<open>Truncation\<close>

text \<open>
  Further property (error). Truncation in place sends every line twice. When the tracked file is cut to fewer bytes
  than a fingerprint needs and written anew, the new lines are sent under the fingerprint of the
  old contents, so their record ids repeat those of the old lines at the same offsets; and when the
  file has grown past the threshold it is taken for a rotated one: altogether every complete line of
  the new contents is sent or pending once under the old fingerprint and once more under the new one.
\<close>

theorem truncated_lines_sent_twice:
  assumes h: "ft_handle (tk_tail st) = Some h" and d: "ft_draining (tk_tail st) = None"
    and e1: "te_path e1 = Found (th_file h)" "\<forall>f. te_read e1 f" "length (fo_data (te_obj e1 (th_file h))) < fingerprint_min_bytes"
      "fo_inode (te_obj e1 (th_file h)) = th_inode h"
    and t1: "tick_with_budget e1 st = (r1, st1)"
    and e2: "rotates e2 h (th_file h)" "\<forall>f. te_read e2 f" "te_parse e2 = te_parse e1"
    and grown: "prefix (fo_data (te_obj e1 (th_file h))) (fo_data (te_obj e2 (th_file h)))"
    and t2: "tick_with_budget e2 st1 = (r2, st2)"
  shows "tk_out st2 @ pending_lines e2 (tk_tail st2) =
    tk_out st @ left_of (te_parse e1) (fo_data (te_obj e2 (th_file h))) (h\<lparr>th_offset := 0\<rparr>) @
      left_of (te_parse e1) (fo_data (te_obj e2 (th_file h))) (new_handle e2 (th_file h))"
proof -
  let ?h = "h\<lparr>th_offset := 0\<rparr>"
  let ?st = "on_tail (\<lambda>t. t\<lparr>ft_handle := Some ?h\<rparr>) (on_tail (\<lambda>t. t\<lparr>ft_backlog := False\<rparr>) st)"
  have "tick_with_budget e1 st = read_and_emit e1 ?st"
    using h d e1 by (simp add: tick_with_budget_def drain_rotated_def compute_fingerprint_def on_change_def decide_change_def on_tail_def Let_def)
  with t1 have re: "read_and_emit e1 ?st = (r1, st1)" by simp
  obtain h' where h': "ft_handle (tk_tail st1) = Some h'" "moved ?h h'" "ft_draining (tk_tail st1) = None"
    "tk_out st1 @ left_of (te_parse e1) (fo_data (te_obj e2 (th_file h))) h' =
       tk_out st @ left_of (te_parse e1) (fo_data (te_obj e2 (th_file h))) ?h"
    using read_and_emit_conserves [OF _ _ _ re, of ?h "fo_data (te_obj e2 (th_file h))"] e1(2) d grown by auto
  have "rotates e2 h' (th_file h)" using e2(1) h'(2) by (simp add: rotates_def moved_def)
  from tick_rotates [OF h'(1,3) this e2(2) t2] h' e2(3) show ?thesis
    by (simp add: pending_lines_def new_handle_def moved_def append_assoc [symmetric] del: append_assoc)
qed

section \<open>Restart\<close>

text \<open>
  Further property (roundtrip). The checkpoint a tail saves is read back as it was: the fingerprint and the offset
  of the handle, for every fingerprint and every offset a file can have.
\<close>

theorem tail_checkpoint_round_trip:
  assumes "th_offset h < 2 ^ 64" and "checkpoint_save SaveOk key (checkpoint_value h) d = (r, d')"
  shows "Option.bind (checkpoint_load True key d') parse_checkpoint_value = Some (th_fingerprint h, th_offset h)"
proof -
  let ?v = "checkpoint_value h"
  have hx: "x \<in> set (hex_of n) \<Longrightarrow> x \<noteq> CHR '':'' \<and> x \<notin> set ws_edge \<and> byte_val x < 128" for x n
    using hex_lower [of x n] by (auto simp: is_lower_hex_def Let_def ws_edge_def ascii_ws_def wide_ws_def)
  have dx: "x \<in> set (dec n) \<Longrightarrow> byte_val x < 128" for x n using dec_digits [of n] by fastforce
  have "hd ?v \<in> set (hex_of (unat (th_fingerprint h)))" by (simp add: checkpoint_value_def hd_append hex_nonempty)
  then have "hd ?v \<notin> set ws_edge" using hx by blast
  moreover have "last ?v \<notin> set ws_edge"
    using dec_no_edge [of "last ?v" "th_offset h"] dec_nonempty by (simp add: checkpoint_value_def)
  ultimately have "hd ?v \<notin> set ws_edge" "last ?v \<notin> set ws_edge" by simp_all
  then have trim: "trim ?v = ?v" by (intro trim_no_edge) simp
  have utf: "utf8_valid ?v" by (rule utf8_valid_ascii) (use hx dx in \<open>auto simp: checkpoint_value_def\<close>)
  have "?v \<noteq> []" by (simp add: checkpoint_value_def)
  with trim utf assms(2) have load: "checkpoint_load True key d' = Some ?v"
    by (auto simp: checkpoint_save_def checkpoint_load_def)
  have "CHR '':'' \<notin> set (hex_of (unat (th_fingerprint h)))" using hx by blast
  then have "split_once (CHR '':'') ?v = Some (hex_of (unat (th_fingerprint h)), dec (th_offset h))"
    by (simp add: checkpoint_value_def split_once_append)
  moreover have "unat (th_fingerprint h) \<le> 2 ^ 64 - 1" using unat64_less [of "th_fingerprint h"] by simp
  ultimately have "parse_checkpoint_value ?v = Some (th_fingerprint h, th_offset h)"
    using assms(1) by (simp add: parse_checkpoint_value_def parse_unsigned_hex parse_unsigned_dec)
  with load show ?thesis by simp
qed

section \<open>Concrete runs\<close>

definition sample_log :: log_line where
  "sample_log = \<lparr>ll_source = ''file'', ll_service = ''s'', ll_severity = ''INFO'', ll_message = [], ll_attrs = [],
     ll_ts = 0, ll_record_id = []\<rparr>"

text \<open>A file of one line of 1024 bytes and an empty line, as file 0; file 1 is its first 10 bytes.\<close>

definition long_line :: bytes where
  "long_line = replicate 1024 (CHR ''x'') @ [CHR 0x0A, CHR 0x0A]"

definition sample_env :: "u64 \<Rightarrow> bytes \<Rightarrow> tail_env" where
  "sample_env fp bs = \<lparr>te_hash = (\<lambda>_. fp), te_parse = (\<lambda>_. Some sample_log), te_content_hash = (\<lambda>_. 0),
     te_path = Found 0, te_obj = (\<lambda>_. \<lparr>fo_inode = 5, fo_data = bs\<rparr>), te_open = True, te_read = (\<lambda>_. True),
     te_load = True, te_save = SaveOk\<rparr>"

definition sample_handle :: tracked_handle where
  "sample_handle = \<lparr>th_file = 0, th_fingerprint = 7, th_inode = 5, th_offset = 1025\<rparr>"

definition sample_tail :: file_tail where
  "sample_tail = (file_tail_new ''s'')\<lparr>ft_handle := Some sample_handle\<rparr>"

definition sample_state :: tick_state where
  "sample_state = \<lparr>tk_tail = sample_tail, tk_budget = 3, tk_slots = 3, tk_out = [], tk_dir = []\<rparr>"

lemmas sample_defs = sample_env_def sample_handle_def sample_tail_def sample_state_def file_tail_new_def

lemma sample_tracks: "tracks (sample_env 7 long_line) sample_handle"
  by (simp add: tracks_def sample_env_def sample_handle_def long_line_def fingerprint_min_bytes_def)

lemma sample_rotates: "rotates (sample_env 8 long_line) sample_handle 0"
  by (simp add: rotates_def sample_env_def sample_handle_def long_line_def fingerprint_min_bytes_def)

lemma sample_left: "length (left_of (\<lambda>_. Some sample_log) long_line sample_handle) = 1"
  by (simp add: left_of_def sample_handle_def long_line_def all_lines.simps line_of_def)

theorem growing_file_lines_once_witness:
  "\<exists>out t' d' h'. tail_run [\<lparr>ti_env = sample_env 7 long_line, ti_now = 0, ti_avail = 3, ti_cap = 3, ti_slots = 3\<rparr>] sample_tail [] =
     (out, t', d') \<and> length (out @ left_of (\<lambda>_. Some sample_log) long_line h') = 1"
proof -
  let ?i = "\<lparr>ti_env = sample_env 7 long_line, ti_now = 0, ti_avail = 3, ti_cap = 3, ti_slots = 3\<rparr>"
  obtain out t' d' where run: "tail_run [?i] sample_tail [] = (out, t', d')" by (rule prod_cases3)
  from growing_file_lines_once [OF _ _ _ _ _ run, of sample_handle "\<lambda>_. Some sample_log"] sample_tracks
  obtain h' where "out @ left_of (\<lambda>_. Some sample_log) long_line h' = left_of (\<lambda>_. Some sample_log) long_line sample_handle"
    by (auto simp: sample_defs long_line_def)
  then have "length (out @ left_of (\<lambda>_. Some sample_log) long_line h') = 1" using sample_left by simp
  with run show ?thesis by blast
qed


theorem truncated_lines_sent_twice_witness:
  "\<exists>st1 st2. tick_with_budget (sample_env 7 []) sample_state = (Inr (), st1) \<and>
     tick_with_budget (sample_env 8 long_line) st1 = (Inr (), st2) \<and>
     length (tk_out st2 @ pending_lines (sample_env 8 long_line) (tk_tail st2)) = 4"
proof -
  let ?e1 = "sample_env 7 []" and ?e2 = "sample_env 8 long_line"
  obtain r1 st1 where t1: "tick_with_budget ?e1 sample_state = (r1, st1)" by (rule prod.exhaust)
  then have r1: "r1 = Inr ()" and st1: "ft_handle (tk_tail st1) = Some (sample_handle\<lparr>th_offset := 0\<rparr>)" "ft_draining (tk_tail st1) = None"
    by (auto simp: sample_defs tick_with_budget_def drain_rotated_def compute_fingerprint_def fingerprint_min_bytes_def on_change_def
        decide_change_def read_and_emit_def emit_from_handle_def read_complete_lines.simps numeral_3_eq_3 on_tail_def)
  obtain r2 st2 where t2: "tick_with_budget ?e2 st1 = (r2, st2)" by (rule prod.exhaust)
  have r2: "r2 = Inr ()"
    using tick_rotates [OF st1 _ _ t2, of 0] sample_rotates by (simp add: rotates_def sample_defs)
  have "length (left_of (\<lambda>_. Some sample_log) long_line h) = 2" if "th_offset h = 0" for h
    using that by (simp add: left_of_def long_line_def line_of_def all_lines.simps find_byte_append)
  moreover from truncated_lines_sent_twice [OF _ _ _ _ _ _ t1 _ _ _ _ t2, of sample_handle] sample_rotates
  have "tk_out st2 @ pending_lines ?e2 (tk_tail st2) = left_of (\<lambda>_. Some sample_log) long_line (sample_handle\<lparr>th_offset := 0\<rparr>) @
      left_of (\<lambda>_. Some sample_log) long_line (new_handle ?e2 0)"
    by (simp add: sample_defs fingerprint_min_bytes_def)
  ultimately have "length (tk_out st2 @ pending_lines ?e2 (tk_tail st2)) = 4" by (simp add: new_handle_def)
  with t1 t2 r1 r2 show ?thesis by blast
qed

text \<open>The old file 0 as before, and file 1 under the path: five bytes at first, then 1026.\<close>

definition rotated_env :: "bytes \<Rightarrow> tail_env" where
  "rotated_env bs = (sample_env 8 bs)\<lparr>te_path := Found 1,
     te_obj := (\<lambda>f. if f = 0 then \<lparr>fo_inode = 5, fo_data = long_line\<rparr> else \<lparr>fo_inode = 6, fo_data = bs\<rparr>)\<rparr>"

definition at_env :: "tail_env \<Rightarrow> tick_input" where
  "at_env env = \<lparr>ti_env = env, ti_now = 0, ti_avail = 3, ti_cap = 3, ti_slots = 3\<rparr>"

theorem short_new_file_lost_witness:
  "\<exists>out t' d'. tail_run [at_env (rotated_env ''start''), at_env (rotated_env long_line)] sample_tail [] = (out, t', d') \<and>
     length (out @ pending_lines (rotated_env long_line) t') = 1"
proof -
  let ?s = "at_env (rotated_env ''start'')" and ?i = "at_env (rotated_env long_line)"
  obtain out t' d' where run: "tail_run ([?s] @ [?i]) sample_tail [] = (out, t', d')" by (rule prod_cases3)
  have len: "fingerprint_min_bytes \<le> length long_line" by (simp add: long_line_def fingerprint_min_bytes_def)
  have "\<forall>i\<in>set [?s]. short_at 1 (ti_env i) \<and> agrees (\<lambda>_. Some sample_log) sample_handle long_line (ti_env i) \<and>
      fo_inode (te_obj (ti_env i) 1) \<noteq> th_inode sample_handle"
    by (simp add: short_at_def agrees_def at_env_def rotated_env_def sample_env_def sample_handle_def fingerprint_min_bytes_def)
  moreover have "grown_at 1 (ti_env ?i)" "agrees (\<lambda>_. Some sample_log) sample_handle long_line (ti_env ?i)"
    using len by (simp_all add: grown_at_def agrees_def at_env_def rotated_env_def sample_env_def sample_handle_def)
  ultimately have "out @ pending_lines (ti_env ?i) t' = left_of (\<lambda>_. Some sample_log) long_line sample_handle"
    using short_new_file_lost [OF _ _ _ _ _ _ _ run, of sample_handle 1 "\<lambda>_. Some sample_log" long_line]
    by (simp add: sample_tail_def file_tail_new_def checkpoint_load_def)
  with sample_left have "length (out @ pending_lines (ti_env ?i) t') = 1" by simp
  with run show ?thesis by (auto simp: at_env_def)
qed

theorem tail_checkpoint_round_trip_witness:
  "Option.bind (checkpoint_load True ''file/s'' (snd (checkpoint_save SaveOk ''file/s'' (checkpoint_value sample_handle) [])))
     parse_checkpoint_value = Some (7, 1025)"
  using tail_checkpoint_round_trip [of sample_handle "''file/s''" "[]"]
  by (simp add: checkpoint_save_def) (simp add: sample_handle_def)

end
