(* ===== verification/Exporter_Health.thy ===== *)
theory Exporter_Health
  imports Spool Ipc
begin

text \<open>
  What the exporter tasks report of themselves, \<open>aic-server/src/otlp_exporter/health.rs\<close> and the
  counters of \<open>logs/mod.rs\<close>. The counters are shared objects, so the health holds the address of the
  ones attached to it and a snapshot reads them from the store. The clock, in seconds since the
  epoch, is an argument. The critical sections cannot panic, so no lock is ever poisoned.
\<close>

record drop_counters =
  dc_by_severity :: u64
  dc_by_rate_limit :: u64
  dc_by_channel_full :: u64
  dc_by_spool_quota :: u64
  dc_by_rejected :: u64
  dc_by_collector_dropped :: u64

definition drop_counters_new :: drop_counters where
  "drop_counters_new = \<lparr>dc_by_severity = 0, dc_by_rate_limit = 0, dc_by_channel_full = 0, dc_by_spool_quota = 0,
     dc_by_rejected = 0, dc_by_collector_dropped = 0\<rparr>"

definition drop_snapshot :: "drop_counters \<Rightarrow> (str \<times> u64) list" where
  "drop_snapshot c = [(''severity'', dc_by_severity c), (''rate_limit'', dc_by_rate_limit c),
     (''channel_full'', dc_by_channel_full c), (''spool_quota'', dc_by_spool_quota c), (''rejected'', dc_by_rejected c),
     (''collector_dropped'', dc_by_collector_dropped c)]"

record stored_failure =
  sx_unix_secs :: u64
  sx_url :: str
  sx_permanent :: bool
  sx_message :: str

record exporter_health =
  eh_push_ok_total :: u64
  eh_push_fail_total :: u64
  eh_last_ok_unix :: u64
  eh_agent_live :: bool
  eh_agent_configured :: bool
  eh_endpoint :: str
  eh_last_failure :: "stored_failure option"
  eh_drop_counters :: "nat option"

definition health_new :: "str \<Rightarrow> exporter_health" where
  "health_new endpoint = \<lparr>eh_push_ok_total = 0, eh_push_fail_total = 0, eh_last_ok_unix = 0, eh_agent_live = False,
     eh_agent_configured = False, eh_endpoint = endpoint, eh_last_failure = None, eh_drop_counters = None\<rparr>"

text \<open>A cell that is written once: a second call has no effect.\<close>

definition attach_drop_counters :: "nat \<Rightarrow> exporter_health \<Rightarrow> exporter_health" where
  "attach_drop_counters c h = (case eh_drop_counters h of None \<Rightarrow> h\<lparr>eh_drop_counters := Some c\<rparr> | Some _ \<Rightarrow> h)"

definition set_agent_live :: "bool \<Rightarrow> exporter_health \<Rightarrow> exporter_health" where
  "set_agent_live live h = h\<lparr>eh_agent_live := live\<rparr>"

definition set_agent_configured :: "bool \<Rightarrow> exporter_health \<Rightarrow> exporter_health" where
  "set_agent_configured configured h = h\<lparr>eh_agent_configured := configured\<rparr>"

text \<open>The guard held by the agent exporter's task; dropping it is the end of the task, however it ends.\<close>

definition agent_live_guard_drop :: "exporter_health \<Rightarrow> exporter_health" where
  "agent_live_guard_drop h = set_agent_live False h"

definition record_ok :: "u64 \<Rightarrow> exporter_health \<Rightarrow> exporter_health" where
  "record_ok now h = h\<lparr>eh_push_ok_total := eh_push_ok_total h + 1, eh_last_ok_unix := now\<rparr>"

fun push_reason :: "push_error \<Rightarrow> str" where
  "push_reason (Permanent m) = m"
| "push_reason (Transient m) = m"

definition failure_of :: "u64 \<Rightarrow> str \<Rightarrow> push_error \<Rightarrow> stored_failure" where
  "failure_of now url e = \<lparr>sx_unix_secs = now, sx_url = url, sx_permanent = is_permanent e, sx_message = push_reason e\<rparr>"

definition record_fail :: "u64 \<Rightarrow> str \<Rightarrow> push_error \<Rightarrow> exporter_health \<Rightarrow> exporter_health" where
  "record_fail now url e h = h\<lparr>eh_push_fail_total := eh_push_fail_total h + 1, eh_last_failure := Some (failure_of now url e)\<rparr>"

definition record_rejection :: "u64 \<Rightarrow> str \<Rightarrow> push_error \<Rightarrow> exporter_health \<Rightarrow> exporter_health" where
  "record_rejection now url e h = h\<lparr>eh_last_failure := Some (failure_of now url e)\<rparr>"

definition record_fail_without_cause :: "exporter_health \<Rightarrow> exporter_health" where
  "record_fail_without_cause h = h\<lparr>eh_push_fail_total := eh_push_fail_total h + 1\<rparr>"

text \<open>\<open>snapshot\<close>, with the shared spool and the store of counters. The sums of counters wrap like the source's in a release build.\<close>

definition health_snapshot ::
  "u64 \<Rightarrow> spool_io \<Rightarrow> spool \<Rightarrow> (nat \<Rightarrow> drop_counters) \<Rightarrow> exporter_health \<Rightarrow> exporter_status" where
  "health_snapshot now io sp counters h =
     \<lparr>es_enabled = True,
      es_agent_enabled = Some (eh_agent_live h),
      es_agent_configured = Some (eh_agent_configured h),
      es_endpoint = eh_endpoint h,
      es_push_ok_total = unat (eh_push_ok_total h),
      es_push_fail_total = unat (eh_push_fail_total h),
      es_last_ok_secs_ago = (if 0 < eh_last_ok_unix h then Some (unat (sat_sub64 now (eh_last_ok_unix h))) else None),
      es_spool_batches = batch_count io sp,
      es_spool_dropped = unat (dropped_count sp Metrics + dropped_count sp Logs + dropped_count sp AppLogs),
      es_spool_dropped_quota = unat (dropped_by_reason sp Quota),
      es_spool_dropped_age = unat (dropped_by_reason sp Age),
      es_spool_dropped_rejected = unat (dropped_by_reason sp Rejected),
      es_collector_dropped = (case eh_drop_counters h of Some c \<Rightarrow> unat (dc_by_collector_dropped (counters c)) | None \<Rightarrow> 0),
      es_last_failure = map_option (\<lambda>f. \<lparr>ef_secs_ago = unat (sat_sub64 now (sx_unix_secs f)), ef_url = sx_url f,
        ef_permanent = sx_permanent f, ef_message = sx_message f\<rparr>) (eh_last_failure h)\<rparr>"

section \<open>Properties\<close>

text \<open>
  Further property (invariant). The losses the status reports add up: the total over the kinds of signal equals the total over
  the reasons, as 64-bit sums, whatever happened to the spool.
\<close>

theorem reported_losses_add_up:
  "of_nat (es_spool_dropped (health_snapshot now io sp counters h)) =
     (of_nat (es_spool_dropped_quota (health_snapshot now io sp counters h)) +
      of_nat (es_spool_dropped_age (health_snapshot now io sp counters h)) +
      of_nat (es_spool_dropped_rejected (health_snapshot now io sp counters h)) :: u64)"
  by (simp add: health_snapshot_def dropped_count_def dropped_by_reason_def)

end
