(* ===== verification/Logs_Proto.thy ===== *)
theory Logs_Proto
  imports Ipc Rust_Text
begin

text \<open>
  The log messages of the exporter, \<open>aic-server/src/otlp_exporter/logs_proto.rs\<close>: one encoder per
  signal, all of them through the same attribute builders. The redaction, the protobuf library and the
  hash of the record ids are the fields of \<open>proto_lib\<close>. A 64-bit float is its bit pattern.
\<close>

section \<open>Messages\<close>

datatype any_value_oneof = StringValue str | BoolValue bool | IntValue int | DoubleValue u64

record any_value =
  av_value :: "any_value_oneof option"

record key_value =
  kv_key :: str
  kv_value :: "any_value option"

record instrumentation_scope =
  is_name :: str
  is_version :: str
  is_attributes :: "key_value list"
  is_dropped_attributes_count :: u32

record resource =
  re_attributes :: "key_value list"
  re_dropped_attributes_count :: u32

record log_record =
  lr_time_unix_nano :: u64
  lr_observed_time_unix_nano :: u64
  lr_severity_number :: int
  lr_severity_text :: str
  lr_body :: "any_value option"
  lr_attributes :: "key_value list"
  lr_dropped_attributes_count :: u32
  lr_flags :: u32

record scope_logs =
  sg_scope :: "instrumentation_scope option"
  sg_log_records :: "log_record list"
  sg_schema_url :: str

record resource_logs =
  rg_resource :: "resource option"
  rg_scope_logs :: "scope_logs list"
  rg_schema_url :: str

record export_logs_service_request =
  rq_resource_logs :: "resource_logs list"

record export_logs_partial_success =
  ps_rejected_log_records :: int
  ps_error_message :: str

record export_logs_service_response =
  rp_partial_success :: "export_logs_partial_success option"

record proto_lib =
  pl_redact :: "str \<Rightarrow> str"
  pl_encode :: "export_logs_service_request \<Rightarrow> bytes"
  pl_decode :: "bytes \<Rightarrow> export_logs_service_response option"
  pl_query_hash :: "str \<Rightarrow> str \<Rightarrow> u64 \<Rightarrow> (str option \<times> str) option \<Rightarrow> u64"

section \<open>Inputs\<close>

record command_event =
  ce_id :: str
  ce_command :: "str option"
  ce_exit_code :: int
  ce_capture_quality :: str

record change_entry =
  ch_change_type :: str
  ch_subject :: str
  ch_action :: str
  ch_prev_state :: "str option"
  ch_new_state :: "str option"
  ch_confidence :: str
  ch_source :: str
  ch_record_id :: str
  ch_summary :: str

record connection_entry =
  cn_protocol :: str
  cn_state :: str
  cn_local_addr :: str
  cn_local_port :: "16 word"
  cn_peer_addr :: "str option"
  cn_peer_port :: "16 word option"
  cn_process :: "str option"
  cn_direction :: "str option"
  cn_bytes_sent :: u64
  cn_bytes_recv :: u64

record dns_observation =
  dn_question_name :: str
  dn_question_type :: str
  dn_answers :: "str list"
  dn_ttl :: u32
  dn_expires_at_unix_nano :: u64
  dn_source :: str
  dn_pid :: "int option"
  dn_process_name :: "str option"

record process_entry =
  pe_name :: str
  pe_pid :: int
  pe_cpu_pct :: u64
  pe_rss_bytes :: u64
  pe_disk_read_bytes :: u64
  pe_disk_write_bytes :: u64
  pe_io_status :: "str option"
  pe_start_time :: u64
  pe_uid :: "u32 option"
  pe_container_id :: "str option"
  pe_fd_count :: "u32 option"

record inventory_change =
  ic_op :: str
  ic_pid :: int
  ic_ppid :: int
  ic_name :: str
  ic_start_time :: u64
  ic_uid :: "u32 option"
  ic_container_id :: "str option"

record resource_attrs =
  ra_host_name :: str
  ra_host_id :: str
  ra_os_type :: str
  ra_host_ip :: "str option"

text \<open>The statement statistics of \<open>aic-common/src/workload.rs\<close>.\<close>

datatype query_digest_unavailable =
  PerformanceSchemaOff | ConsumerDisabled | PermissionDenied | QueryTimeout | QueryFailed | Malformed

fun unavailable_as_str :: "query_digest_unavailable \<Rightarrow> str" where
  "unavailable_as_str PerformanceSchemaOff = ''performance_schema_off''"
| "unavailable_as_str ConsumerDisabled = ''consumer_disabled''"
| "unavailable_as_str PermissionDenied = ''permission_denied''"
| "unavailable_as_str QueryTimeout = ''timeout''"
| "unavailable_as_str QueryFailed = ''query_failed''"
| "unavailable_as_str Malformed = ''malformed''"

record query_digest_entry =
  qe_schema :: "str option"
  qe_digest :: str
  qe_text :: "str option"
  qe_calls :: u64
  qe_total_time_us :: u64
  qe_lock_time_us :: u64
  qe_errors :: u64
  qe_rows_examined :: u64
  qe_rows_sent :: u64
  qe_no_index_used :: u64

record query_digest_report =
  qr_baseline :: bool
  qr_top :: "query_digest_entry list"
  qr_unattributed_calls :: u64
  qr_row_limit_reached :: bool
  qr_interval_ms :: u64
  qr_observed_calls :: u64
  qr_observed_time_us :: u64

datatype query_digest_outcome = Collected query_digest_report | Unavailable query_digest_unavailable

record query_digest_sample =
  qs_schema_version :: u32
  qs_workload_id :: str
  qs_captured_at :: datetime
  qs_outcome :: query_digest_outcome

definition strip_prefix :: "str \<Rightarrow> str \<Rightarrow> str option" where
  "strip_prefix p s = (if prefix p s then Some (drop (length p) s) else None)"

definition after_last_slash :: "str \<Rightarrow> str" where
  "after_last_slash s = last (split_on (CHR ''/'') s)"

definition workload_short_name :: "str \<Rightarrow> str" where
  "workload_short_name i =
     (case strip_prefix ''container:'' i of
        Some rest \<Rightarrow>
          (let parts = split_on (CHR '':'') rest in
           if 1 < length parts then parts ! 1
           else case strip_prefix ''systemd:'' i of Some unit_name \<Rightarrow> unit_name | None \<Rightarrow> after_last_slash i)
      | None \<Rightarrow> (case strip_prefix ''systemd:'' i of Some unit_name \<Rightarrow> unit_name | None \<Rightarrow> after_last_slash i))"

section \<open>Attributes\<close>

definition saturating_i64 :: "u64 \<Rightarrow> int" where
  "saturating_i64 v = (if uint v \<le> i64_max then uint v else i64_max)"

definition unix_nanos :: "datetime \<Rightarrow> u64" where
  "unix_nanos ts = (if - (2 ^ 63) \<le> ts \<and> ts < 2 ^ 63 then of_int (max ts 0) else 0)"

definition string_value :: "proto_lib \<Rightarrow> str \<Rightarrow> any_value" where
  "string_value lib s = \<lparr>av_value = Some (StringValue (pl_redact lib s))\<rparr>"

definition attr_str :: "proto_lib \<Rightarrow> str \<Rightarrow> str \<Rightarrow> key_value" where
  "attr_str lib key v = \<lparr>kv_key = pl_redact lib key, kv_value = Some (string_value lib v)\<rparr>"

definition attr_int :: "proto_lib \<Rightarrow> str \<Rightarrow> int \<Rightarrow> key_value" where
  "attr_int lib key v = \<lparr>kv_key = pl_redact lib key, kv_value = Some \<lparr>av_value = Some (IntValue v)\<rparr>\<rparr>"

definition attr_bool :: "proto_lib \<Rightarrow> str \<Rightarrow> bool \<Rightarrow> key_value" where
  "attr_bool lib key v = \<lparr>kv_key = pl_redact lib key, kv_value = Some \<lparr>av_value = Some (BoolValue v)\<rparr>\<rparr>"

definition attr_double :: "proto_lib \<Rightarrow> str \<Rightarrow> u64 \<Rightarrow> key_value" where
  "attr_double lib key v = \<lparr>kv_key = pl_redact lib key, kv_value = Some \<lparr>av_value = Some (DoubleValue v)\<rparr>\<rparr>"

definition attr_addr :: "proto_lib \<Rightarrow> str \<Rightarrow> str \<Rightarrow> key_value" where
  "attr_addr lib key v = \<lparr>kv_key = pl_redact lib key, kv_value = Some \<lparr>av_value = Some (StringValue v)\<rparr>\<rparr>"

text \<open>An attribute that is left out when its text is absent, or absent or empty.\<close>

definition opt_attr :: "('a \<Rightarrow> key_value) \<Rightarrow> 'a option \<Rightarrow> key_value list" where
  "opt_attr f v = (case v of None \<Rightarrow> [] | Some x \<Rightarrow> [f x])"

definition nonempty :: "str option \<Rightarrow> str option" where
  "nonempty v = (case v of Some s \<Rightarrow> if s = [] then None else Some s | None \<Rightarrow> None)"

definition build_request :: "proto_lib \<Rightarrow> resource_attrs \<Rightarrow> str \<Rightarrow> str \<Rightarrow> log_record list \<Rightarrow> bytes" where
  "build_request lib res scope_name service_version log_records =
     (let resource_attrs =
        [attr_str lib ''host.name'' (ra_host_name res), attr_str lib ''host.id'' (ra_host_id res),
         attr_str lib ''os.type'' (ra_os_type res), attr_str lib ''service.name'' ''aicd'',
         attr_str lib ''service.version'' service_version]
        @ opt_attr (attr_addr lib ''host.ip'') (ra_host_ip res)
      in pl_encode lib \<lparr>rq_resource_logs = [\<lparr>
           rg_resource = Some \<lparr>re_attributes = resource_attrs, re_dropped_attributes_count = 0\<rparr>,
           rg_scope_logs = [\<lparr>
             sg_scope = Some \<lparr>is_name = pl_redact lib scope_name, is_version = pl_redact lib service_version,
               is_attributes = [], is_dropped_attributes_count = 0\<rparr>,
             sg_log_records = log_records,
             sg_schema_url = []\<rparr>],
           rg_schema_url = []\<rparr>]\<rparr>)"

definition severity_debug :: int where "severity_debug = 5"
definition severity_info :: int where "severity_info = 9"
definition severity_warn :: int where "severity_warn = 13"
definition severity_error :: int where "severity_error = 17"

definition log_rec :: "proto_lib \<Rightarrow> u64 \<Rightarrow> u64 \<Rightarrow> int \<Rightarrow> str \<Rightarrow> any_value option \<Rightarrow> key_value list \<Rightarrow> log_record" where
  "log_rec lib t obs sev sev_text body attrs =
     \<lparr>lr_time_unix_nano = t, lr_observed_time_unix_nano = obs, lr_severity_number = sev,
      lr_severity_text = pl_redact lib sev_text, lr_body = body, lr_attributes = attrs,
      lr_dropped_attributes_count = 0, lr_flags = 0\<rparr>"

section \<open>Encoders\<close>

definition encode_agent_event :: "proto_lib \<Rightarrow> agent_event \<Rightarrow> resource_attrs \<Rightarrow> str \<Rightarrow> u64 \<Rightarrow> u64 \<Rightarrow> bytes" where
  "encode_agent_event lib ev res service_version event_time observed_time =
     (let up = to_ascii_uppercase (ae_severity ev);
          (sev, sev_text) = (if up = ''ERROR'' then (severity_error, ''ERROR'')
            else if up = ''WARN'' \<or> up = ''WARNING'' then (severity_warn, ''WARN'') else (severity_info, ''INFO''));
          attributes = attr_str lib ''aic.agent.kind'' (ae_kind ev) #
            map (\<lambda>(k, v). attr_str lib (''aic.agent.'' @ k) v) (ae_attrs ev)
      in build_request lib res ''aic.agent'' service_version
           [log_rec lib event_time observed_time sev sev_text (Some (string_value lib (ae_summary ev))) attributes])"

definition encode_command_event :: "proto_lib \<Rightarrow> command_event \<Rightarrow> resource_attrs \<Rightarrow> str \<Rightarrow> u64 \<Rightarrow> bytes" where
  "encode_command_event lib ev res service_version t =
     (let command_text = (case ce_command ev of Some c \<Rightarrow> c | None \<Rightarrow> []);
          (sev, sev_text) = (if ce_exit_code ev \<noteq> 0 then (severity_error, ''ERROR'') else (severity_info, ''INFO''));
          attributes = [attr_str lib ''aic.record.id'' (ce_id ev), attr_str lib ''aic.command.text'' command_text,
            attr_int lib ''aic.command.exit_code'' (ce_exit_code ev),
            attr_str lib ''aic.command.capture_quality'' (ce_capture_quality ev)]
      in build_request lib res ''aic.events'' service_version
           [log_rec lib t t sev sev_text (Some (string_value lib command_text)) attributes])"

definition connection_record :: "proto_lib \<Rightarrow> u64 \<Rightarrow> connection_entry \<Rightarrow> log_record" where
  "connection_record lib t c = log_rec lib t t severity_info ''INFO''
     (Some (string_value lib (cn_protocol c @ '' '' @ cn_state c)))
     ([attr_str lib ''network.transport'' (cn_protocol c), attr_str lib ''aic.connection.state'' (cn_state c),
       attr_addr lib ''network.local.address'' (cn_local_addr c),
       attr_int lib ''network.local.port'' (uint (cn_local_port c)),
       attr_int lib ''aic.connection.bytes_sent'' (saturating_i64 (cn_bytes_sent c)),
       attr_int lib ''aic.connection.bytes_recv'' (saturating_i64 (cn_bytes_recv c))]
      @ opt_attr (attr_addr lib ''network.peer.address'') (cn_peer_addr c)
      @ opt_attr (\<lambda>pp. attr_int lib ''network.peer.port'' (uint pp)) (cn_peer_port c)
      @ opt_attr (attr_str lib ''aic.connection.direction'') (nonempty (cn_direction c))
      @ opt_attr (attr_str lib ''aic.connection.process'') (nonempty (cn_process c)))"

definition encode_connections :: "proto_lib \<Rightarrow> connection_entry list \<Rightarrow> resource_attrs \<Rightarrow> str \<Rightarrow> u64 \<Rightarrow> bytes" where
  "encode_connections lib entries res service_version t =
     build_request lib res ''aic.connections'' service_version (map (connection_record lib t) entries)"

definition dns_record :: "proto_lib \<Rightarrow> u64 \<Rightarrow> dns_observation \<Rightarrow> log_record" where
  "dns_record lib t d = log_rec lib t t severity_info ''INFO''
     (Some (string_value lib (dn_question_name d @ '' '' @ dn_question_type d @ (if dn_answers d = [] then '' (no answer)'' else []))))
     ([attr_str lib ''dns.question.name'' (dn_question_name d), attr_str lib ''dns.question.type'' (dn_question_type d),
       attr_int lib ''dns.ttl'' (uint (dn_ttl d)),
       attr_int lib ''aic.dns.expires_at'' (saturating_i64 (dn_expires_at_unix_nano d)),
       attr_str lib ''aic.dns.source'' (dn_source d)]
      @ (if dn_answers d = [] then [] else [attr_addr lib ''dns.answers'' (join_with '','' (dn_answers d))])
      @ opt_attr (attr_int lib ''process.pid'') (dn_pid d)
      @ opt_attr (attr_str lib ''process.executable.name'') (nonempty (dn_process_name d)))"

definition encode_dns_observations :: "proto_lib \<Rightarrow> dns_observation list \<Rightarrow> resource_attrs \<Rightarrow> str \<Rightarrow> u64 \<Rightarrow> bytes" where
  "encode_dns_observations lib observations res service_version t =
     build_request lib res ''aic.dns'' service_version (map (dns_record lib t) observations)"

definition process_record :: "proto_lib \<Rightarrow> u64 \<Rightarrow> process_entry \<Rightarrow> log_record" where
  "process_record lib t p = log_rec lib t t severity_info ''INFO''
     (Some (string_value lib (pe_name p @ '' pid='' @ int_dec (pe_pid p))))
     ([attr_str lib ''process.executable.name'' (pe_name p), attr_int lib ''process.pid'' (pe_pid p),
       attr_double lib ''process.cpu_utilization'' (pe_cpu_pct p),
       attr_int lib ''process.memory_rss_bytes'' (saturating_i64 (pe_rss_bytes p))]
      @ (if pe_io_status p = None \<or> pe_io_status p = Some ''measured''
         then [attr_int lib ''process.disk.read_bytes'' (saturating_i64 (pe_disk_read_bytes p)),
               attr_int lib ''process.disk.write_bytes'' (saturating_i64 (pe_disk_write_bytes p))] else [])
      @ opt_attr (attr_str lib ''process.disk.io.status'') (pe_io_status p)
      @ (if 0 < pe_start_time p then [attr_int lib ''process.start_time'' (saturating_i64 (pe_start_time p))] else [])
      @ opt_attr (\<lambda>u. attr_int lib ''process.owner.uid'' (uint u)) (pe_uid p)
      @ opt_attr (attr_str lib ''container.id'') (nonempty (pe_container_id p))
      @ opt_attr (\<lambda>n. attr_int lib ''process.file_descriptor.count'' (uint n)) (pe_fd_count p))"

definition encode_process_samples :: "proto_lib \<Rightarrow> process_entry list \<Rightarrow> resource_attrs \<Rightarrow> str \<Rightarrow> u64 \<Rightarrow> bytes" where
  "encode_process_samples lib samples res service_version t =
     build_request lib res ''aic.process'' service_version (map (process_record lib t) samples)"

definition inventory_record :: "proto_lib \<Rightarrow> u64 \<Rightarrow> bool \<Rightarrow> u64 option \<Rightarrow> u64 \<Rightarrow> inventory_change \<Rightarrow> log_record" where
  "inventory_record lib sequence keyframe prev_scan_unix t c = log_rec lib t t severity_info ''INFO''
     (Some (string_value lib (ic_op c @ '' '' @ ic_name c @ '' pid='' @ int_dec (ic_pid c))))
     ([attr_str lib ''aic.process.op'' (ic_op c), attr_int lib ''process.pid'' (ic_pid c),
       attr_str lib ''process.executable.name'' (ic_name c),
       attr_int lib ''aic.process.inventory.sequence'' (saturating_i64 sequence),
       attr_int lib ''aic.process.inventory.keyframe'' (if keyframe then 1 else 0)]
      @ (if 0 < ic_ppid c then [attr_int lib ''process.parent_pid'' (ic_ppid c)] else [])
      @ (if 0 < ic_start_time c then [attr_int lib ''process.start_time'' (saturating_i64 (ic_start_time c))] else [])
      @ opt_attr (\<lambda>u. attr_int lib ''process.owner.uid'' (uint u)) (ic_uid c)
      @ opt_attr (attr_str lib ''container.id'') (nonempty (ic_container_id c))
      @ (if ic_op c = ''remove'' then opt_attr (\<lambda>prev. attr_int lib ''process.last_seen_unix'' (saturating_i64 prev))
           (case prev_scan_unix of Some v \<Rightarrow> if 0 < v then Some v else None | None \<Rightarrow> None) else []))"

definition encode_process_inventory_changes ::
  "proto_lib \<Rightarrow> inventory_change list \<Rightarrow> u64 \<Rightarrow> bool \<Rightarrow> u64 option \<Rightarrow> resource_attrs \<Rightarrow> str \<Rightarrow> u64 \<Rightarrow> bytes" where
  "encode_process_inventory_changes lib changes sequence keyframe prev_scan_unix res service_version t =
     build_request lib res ''aic.process.inventory'' service_version
       (map (inventory_record lib sequence keyframe prev_scan_unix t) changes)"

definition change_record :: "proto_lib \<Rightarrow> u64 \<Rightarrow> change_entry \<Rightarrow> log_record" where
  "change_record lib t c =
     (let sev = (if ch_action c = ''rss_spike'' then severity_warn else severity_info) in
      log_rec lib t t sev (if sev = severity_warn then ''WARN'' else ''INFO'')
        (Some (string_value lib (pl_redact lib (ch_summary c))))
        ([attr_str lib ''aic.change.type'' (ch_change_type c), attr_str lib ''aic.change.subject'' (ch_subject c),
          attr_str lib ''aic.change.action'' (ch_action c), attr_str lib ''aic.change.confidence'' (ch_confidence c),
          attr_str lib ''aic.change.source'' (ch_source c), attr_str lib ''aic.change.record_id'' (ch_record_id c)]
         @ opt_attr (attr_str lib ''aic.change.prev_state'') (nonempty (ch_prev_state c))
         @ opt_attr (attr_str lib ''aic.change.new_state'') (nonempty (ch_new_state c))))"

definition encode_changes :: "proto_lib \<Rightarrow> change_entry list \<Rightarrow> resource_attrs \<Rightarrow> str \<Rightarrow> u64 \<Rightarrow> bytes" where
  "encode_changes lib entries res service_version t =
     build_request lib res ''aic.changes'' service_version (map (change_record lib t) entries)"

definition query_record_id :: "proto_lib \<Rightarrow> str \<Rightarrow> str \<Rightarrow> u64 \<Rightarrow> (str option \<times> str) option \<Rightarrow> str" where
  "query_record_id lib host workload_id t statement = hex_pad 16 (unat (pl_query_hash lib host workload_id t statement))"

definition query_identity :: "proto_lib \<Rightarrow> query_digest_sample \<Rightarrow> str \<Rightarrow> key_value list" where
  "query_identity lib sample kind =
     [attr_str lib ''aic.query.kind'' kind, attr_str lib ''workload.id'' (qs_workload_id sample),
      attr_str lib ''workload.name'' (workload_short_name (qs_workload_id sample)),
      attr_str lib ''workload.adapter'' ''mysql'']"

definition query_log_record :: "proto_lib \<Rightarrow> u64 \<Rightarrow> int \<Rightarrow> str option \<Rightarrow> key_value list \<Rightarrow> log_record" where
  "query_log_record lib t sev body attrs =
     log_rec lib t t sev (if sev = severity_warn then ''WARN'' else ''INFO'') (map_option (string_value lib) body) attrs"

definition statement_record ::
  "proto_lib \<Rightarrow> query_digest_sample \<Rightarrow> resource_attrs \<Rightarrow> query_digest_report \<Rightarrow> u64 \<Rightarrow> int \<times> query_digest_entry \<Rightarrow> log_record" where
  "statement_record lib sample res report t re = (case re of (rank, entry) \<Rightarrow>
     query_log_record lib t severity_info (qe_text entry)
       (query_identity lib sample ''statement''
        @ [attr_str lib ''db.system.name'' ''mysql'', attr_str lib ''aic.query.digest'' (qe_digest entry),
           attr_int lib ''aic.query.rank'' rank,
           attr_int lib ''aic.query.calls'' (saturating_i64 (qe_calls entry)),
           attr_int lib ''aic.query.total_time_us'' (saturating_i64 (qe_total_time_us entry)),
           attr_int lib ''aic.query.lock_time_us'' (saturating_i64 (qe_lock_time_us entry)),
           attr_int lib ''aic.query.errors'' (saturating_i64 (qe_errors entry)),
           attr_int lib ''aic.query.rows_examined'' (saturating_i64 (qe_rows_examined entry)),
           attr_int lib ''aic.query.rows_sent'' (saturating_i64 (qe_rows_sent entry)),
           attr_int lib ''aic.query.no_index_used'' (saturating_i64 (qe_no_index_used entry)),
           attr_int lib ''aic.query.interval_ms'' (saturating_i64 (qr_interval_ms report)),
           attr_str lib ''aic.query.record_id'' (query_record_id lib (ra_host_name res) (qs_workload_id sample) t
             (Some (qe_schema entry, qe_digest entry)))]
        @ opt_attr (attr_str lib ''db.namespace'') (nonempty (qe_schema entry))))"

definition encode_query_digests :: "proto_lib \<Rightarrow> query_digest_sample \<Rightarrow> resource_attrs \<Rightarrow> str \<Rightarrow> bytes" where
  "encode_query_digests lib sample res service_version =
     (let t = unix_nanos (qs_captured_at sample);
          poll = query_identity lib sample ''poll'' @ [attr_str lib ''aic.query.record_id''
            (query_record_id lib (ra_host_name res) (qs_workload_id sample) t None)]
      in case qs_outcome sample of
           Unavailable reason \<Rightarrow>
             build_request lib res ''aic.workload.query'' service_version
               [query_log_record lib t severity_warn None (poll @ [attr_str lib ''aic.query.status'' (unavailable_as_str reason)])]
         | Collected report \<Rightarrow>
             build_request lib res ''aic.workload.query'' service_version
               (query_log_record lib t severity_info None (poll @
                  [attr_str lib ''aic.query.status'' (if qr_baseline report then ''baseline'' else ''collected''),
                   attr_int lib ''aic.query.statements'' (saturating_i64 (of_nat (length (qr_top report)))),
                   attr_int lib ''aic.query.unattributed_calls'' (saturating_i64 (qr_unattributed_calls report)),
                   attr_bool lib ''aic.query.row_limit_reached'' (qr_row_limit_reached report),
                   attr_int lib ''aic.query.observed_calls'' (saturating_i64 (qr_observed_calls report)),
                   attr_int lib ''aic.query.observed_time_us'' (saturating_i64 (qr_observed_time_us report)),
                   attr_int lib ''aic.query.interval_ms'' (saturating_i64 (qr_interval_ms report))])
                # map (statement_record lib sample res report t) (zip (map int [1..<Suc (length (qr_top report))]) (qr_top report))))"

text \<open>The cut of a long line. The index is a character boundary, so the slice of the source does not panic.\<close>

fun floor_boundary :: "str \<Rightarrow> nat \<Rightarrow> nat" where
  "floor_boundary s 0 = 0"
| "floor_boundary s (Suc n) = (if \<not> is_char_boundary s (Suc n) then floor_boundary s n else Suc n)"

definition truncate_to_bytes :: "str \<Rightarrow> nat \<Rightarrow> str \<times> bool" where
  "truncate_to_bytes s max_bytes =
     (if length s \<le> max_bytes then (s, False) else (take (floor_boundary s max_bytes) s, True))"

definition max_log_line_bytes :: nat where
  "max_log_line_bytes = 64 * 1024"

definition line_severity :: "str \<Rightarrow> int \<times> str" where
  "line_severity s = (let up = to_ascii_uppercase s in
     if up = ''ERROR'' then (severity_error, ''ERROR'')
     else if up = ''WARN'' \<or> up = ''WARNING'' then (severity_warn, ''WARN'')
     else if up = ''DEBUG'' then (severity_debug, ''DEBUG'') else (severity_info, ''INFO''))"

definition line_record :: "proto_lib \<Rightarrow> log_line \<Rightarrow> log_record" where
  "line_record lib line =
     (let (sev, sev_text) = line_severity (ll_severity line);
          (body_text, truncated) = truncate_to_bytes (ll_message line) max_log_line_bytes;
          attributes = [attr_str lib ''aic.log.source'' (ll_source line), attr_str lib ''aic.log.service'' (ll_service line),
              attr_str lib ''aic.log.record_id'' (ll_record_id line)]
            @ map (\<lambda>(k, v). attr_str lib (''aic.log.'' @ k) v) (ll_attrs line)
            @ (if truncated then [attr_str lib ''aic.log.truncated'' ''true''] else []);
          t = unix_nanos (ll_ts line)
      in log_rec lib t t sev sev_text (Some (string_value lib body_text)) attributes)"

definition encode_log_line :: "proto_lib \<Rightarrow> log_line list \<Rightarrow> resource_attrs \<Rightarrow> str \<Rightarrow> bytes" where
  "encode_log_line lib ls res service_version =
     build_request lib res ''aic.logs'' service_version (map (line_record lib) ls)"

definition decode_logs_partial_reject :: "proto_lib \<Rightarrow> bytes \<Rightarrow> u64 \<times> str" where
  "decode_logs_partial_reject lib body = (case pl_decode lib body of
     Some resp \<Rightarrow> (case rp_partial_success resp of
         Some p \<Rightarrow> if 0 < ps_rejected_log_records p then (of_int (ps_rejected_log_records p), ps_error_message p) else (0, [])
       | None \<Rightarrow> (0, []))
   | None \<Rightarrow> (0, []))"

end
