(* ===== verification/Logs_Exporter.thy ===== *)
theory Logs_Exporter
  imports Exporter_Health Export_Backoff Log_Filter Logs_Proto
begin

text \<open>
  The exporter of log lines, \<open>aic-server/src/otlp_exporter/logs/exporter.rs\<close>, with \<open>push_logs\<close> of
  \<open>otlp_exporter/mod.rs\<close>: lines are filtered, gathered into a batch by number, size and time, encoded,
  split until a request fits, and pushed, spooled or given up. Everything a send meets in its
  environment is a \<open>send_env\<close>: the clock, the collector's answer, the file system, and what the other
  tasks that share the spool, the health and the counters do while the answer is awaited. The rate
  limiter computes in floating point, so its verdict comes with the line.
\<close>

section \<open>Pushing\<close>

record push_request =
  pr_url :: str
  pr_token :: "str option"
  pr_body :: bytes

datatype http_reply = SendFailed str | Reply nat "bytes option"

definition effective_token :: "str option option \<Rightarrow> str option \<Rightarrow> str option" where
  "effective_token live fallback = (case live of Some t \<Rightarrow> t | None \<Rightarrow> fallback)"

definition push_logs :: "proto_lib \<Rightarrow> (nat \<Rightarrow> str) \<Rightarrow> (push_request \<Rightarrow> http_reply) \<Rightarrow> str \<Rightarrow> str option \<Rightarrow> bytes \<Rightarrow> push_error + u64" where
  "push_logs lib status_name http url token body =
     (case http \<lparr>pr_url = url, pr_token = token, pr_body = body\<rparr> of
        SendFailed chain \<Rightarrow> Inl (Transient chain)
      | Reply status resp \<Rightarrow>
          if \<not> (200 \<le> status \<and> status < 300) then Inl (push_classify status_name status)
          else (case resp of None \<Rightarrow> Inr 0 | Some bs \<Rightarrow> Inr (fst (decode_logs_partial_reject lib bs))))"

section \<open>State\<close>

record logs_exporter_config =
  xc_url :: str
  xc_token :: "str option"
  xc_service_version :: str
  xc_resource :: resource_attrs
  xc_batch_max_lines :: nat
  xc_batch_max_bytes :: nat
  xc_batch_max_ms :: nat
  xc_logs :: logs_config

record logs_flusher =
  fl_backoff :: backoff
  fl_buffer :: "log_line list"
  fl_buffered_bytes :: nat
  fl_deadline :: "instant option"

record exporter_world =
  ew_spool :: spool
  ew_health :: exporter_health
  ew_drops :: drop_counters

record send_env =
  sv_now :: instant
  sv_live :: "str option option"
  sv_http :: "push_request \<Rightarrow> http_reply"
  sv_others :: "exporter_world \<Rightarrow> exporter_world"
  sv_done :: instant
  sv_jitter :: nat
  sv_unix :: u64
  sv_io :: spool_io

datatype fate = Delivered | Refused | Spooled | SpoolFailed

text \<open>What became of a request: its body, how many lines it holds, whether it was pushed, and its end.\<close>

record sent_batch =
  sn_body :: bytes
  sn_lines :: nat
  sn_pushed :: bool
  sn_fate :: fate

record exporter_run =
  xr_flusher :: logs_flusher
  xr_world :: exporter_world
  xr_sent :: "sent_batch list"

record exporter_params =
  xp_cfg :: logs_exporter_config
  xp_lib :: proto_lib
  xp_status_name :: "nat \<Rightarrow> str"
  xp_env :: "nat \<Rightarrow> send_env"

section \<open>Batches\<close>

definition line_bytes :: "log_line \<Rightarrow> nat" where
  "line_bytes l = length (ll_message l) + length (ll_service l) + length (ll_source l) + length (ll_record_id l)
     + sum_list (map (\<lambda>(k, v). length k + length v) (ll_attrs l))"

definition gate :: "logs_exporter_config \<Rightarrow> log_line \<Rightarrow> bool \<Rightarrow> drop_counters \<Rightarrow> bool \<times> drop_counters" where
  "gate cfg line acquired dc =
     (if \<not> passes_severity line (xc_logs cfg) then (False, dc\<lparr>dc_by_severity := dc_by_severity dc + 1\<rparr>)
      else if \<not> acquired then (False, dc\<lparr>dc_by_rate_limit := dc_by_rate_limit dc + 1\<rparr>)
      else (True, dc))"

definition encode_batch :: "exporter_params \<Rightarrow> log_line list \<Rightarrow> bytes" where
  "encode_batch xp ls = encode_log_line (xp_lib xp) ls (xc_resource (xp_cfg xp)) (xc_service_version (xp_cfg xp))"

text \<open>The loop of \<open>encode_within_limit\<close> over its stack of chunks; the first element is the top.\<close>

function split_loop :: "(log_line list \<Rightarrow> bytes) \<Rightarrow> nat \<Rightarrow> log_line list list \<Rightarrow> (bytes \<times> nat) list" where
  "split_loop enc limit [] = []"
| "split_loop enc limit (chunk # stack) =
     (if chunk = [] then split_loop enc limit stack
      else let body = enc chunk in
        if length body \<le> limit \<or> length chunk = 1 then (body, length chunk) # split_loop enc limit stack
        else let mid = length chunk div 2 in split_loop enc limit (take mid chunk # drop mid chunk # stack))"
  by pat_completeness auto
termination
proof (relation "measure (\<lambda>(enc, limit, stack). sum_list (map (\<lambda>c. max 1 (2 * length c - 1)) stack))", goal_cases)
  case 1
  then show ?case by simp
next
  case (2 enc limit chunk stack)
  then show ?case by simp
next
  case (3 enc limit chunk stack x)
  then show ?case by simp
next
  case (4 enc limit chunk stack x xa)
  then have two: "2 \<le> length chunk" by (cases chunk) (auto simp: Suc_le_eq)
  define l where "l = length chunk div 2"
  define r where "r = length chunk - l"
  have "1 \<le> l" "1 \<le> r" "length chunk = l + r" using two unfolding l_def r_def by auto
  with 4 show ?case unfolding l_def [symmetric] by (auto simp: l_def [symmetric] max_def)
qed

declare split_loop.simps [simp del]

definition encode_within_limit :: "exporter_params \<Rightarrow> log_line list \<Rightarrow> (bytes \<times> nat) list" where
  "encode_within_limit xp batch = split_loop (encode_batch xp) (xc_batch_max_bytes (xp_cfg xp)) [batch]"

definition should_flush_on_size :: "logs_exporter_config \<Rightarrow> logs_flusher \<Rightarrow> bool" where
  "should_flush_on_size cfg fl \<longleftrightarrow> xc_batch_max_lines cfg \<le> length (fl_buffer fl) \<or> xc_batch_max_bytes cfg \<le> fl_buffered_bytes fl"

section \<open>Sending\<close>

definition spool_outcome :: "append_error + unit \<Rightarrow> fate" where
  "spool_outcome r = (case r of Inr _ \<Rightarrow> Spooled | Inl _ \<Rightarrow> SpoolFailed)"

definition send_one :: "exporter_params \<Rightarrow> send_env \<Rightarrow> bytes \<Rightarrow> nat \<Rightarrow> backoff \<times> exporter_world \<Rightarrow> (bool \<times> fate) \<times> backoff \<times> exporter_world" where
  "send_one xp env body batch_lines st =
     (let (bo, w) = st; cfg = xp_cfg xp in
      if \<not> backoff_ready (sv_now env) bo then
        (let (r, s') = spool_append (sv_io env) AppLogs body (ew_spool w)
         in ((False, spool_outcome r), bo, w\<lparr>ew_spool := s'\<rparr>))
      else let w1 = sv_others env w in
        case push_logs (xp_lib xp) (xp_status_name xp) (sv_http env) (xc_url cfg) (effective_token (sv_live env) (xc_token cfg)) body of
          Inr _ \<Rightarrow> ((True, Delivered), on_success (sv_done env) bo, w1\<lparr>ew_health := record_ok (sv_unix env) (ew_health w1)\<rparr>)
        | Inl e \<Rightarrow>
            if is_permanent e then
              ((True, Refused), bo,
               w1\<lparr>ew_drops := (ew_drops w1)\<lparr>dc_by_rejected := dc_by_rejected (ew_drops w1) + of_nat batch_lines\<rparr>,
                  ew_spool := record_rejected_batch (ew_spool w1) AppLogs,
                  ew_health := record_rejection (sv_unix env) (xc_url cfg) e (record_ok (sv_unix env) (ew_health w1))\<rparr>)
            else
              (let (r, s') = spool_append (sv_io env) AppLogs body (ew_spool w1)
               in ((True, spool_outcome r), on_failure (sv_done env) (sv_jitter env) bo,
                   w1\<lparr>ew_spool := s', ew_health := record_fail (sv_unix env) (xc_url cfg) e (ew_health w1)\<rparr>)))"

text \<open>The \<open>n\<close>-th request of the run meets the \<open>n\<close>-th environment.\<close>

definition send_step :: "exporter_params \<Rightarrow> exporter_run \<Rightarrow> bytes \<times> nat \<Rightarrow> exporter_run" where
  "send_step xp xr b =
     (let (body, batch_lines) = b;
          ((pushed, f), bo, w) = send_one xp (xp_env xp (length (xr_sent xr))) body batch_lines
            (fl_backoff (xr_flusher xr), xr_world xr)
      in xr\<lparr>xr_flusher := (xr_flusher xr)\<lparr>fl_backoff := bo\<rparr>, xr_world := w,
            xr_sent := xr_sent xr @ [\<lparr>sn_body = body, sn_lines = batch_lines, sn_pushed = pushed, sn_fate = f\<rparr>]\<rparr>)"

definition flush :: "exporter_params \<Rightarrow> exporter_run \<Rightarrow> exporter_run" where
  "flush xp xr =
     (let fl = xr_flusher xr in
      if fl_buffer fl = [] then xr
      else foldl (send_step xp) (xr\<lparr>xr_flusher := fl\<lparr>fl_buffer := [], fl_buffered_bytes := 0, fl_deadline := None\<rparr>\<rparr>)
             (encode_within_limit xp (fl_buffer fl)))"

definition add_line :: "exporter_params \<Rightarrow> instant \<Rightarrow> log_line \<Rightarrow> exporter_run \<Rightarrow> exporter_run" where
  "add_line xp now line xr =
     (let cfg = xp_cfg xp;
          n = line_bytes line;
          xr1 = (if fl_buffer (xr_flusher xr) \<noteq> [] \<and> xc_batch_max_bytes cfg < fl_buffered_bytes (xr_flusher xr) + n
                 then flush xp xr else xr);
          fl = xr_flusher xr1
      in xr1\<lparr>xr_flusher := fl\<lparr>
           fl_deadline := (if fl_buffer fl = [] then Some (now + ms (xc_batch_max_ms cfg)) else fl_deadline fl),
           fl_buffered_bytes := fl_buffered_bytes fl + n,
           fl_buffer := fl_buffer fl @ [line]\<rparr>\<rparr>)"

section \<open>The task\<close>

text \<open>
  What the select of \<open>serve_logs\<close> can yield, a line with the verdict of the limiter and the time; and what
  the other tasks did to the shared state while it waited.
\<close>

datatype exporter_event = Line log_line bool instant | ChannelClosed | DeadlinePassed | ShutdownChanged bool
  | OtherTasks "exporter_world \<Rightarrow> exporter_world"

definition on_line :: "exporter_params \<Rightarrow> log_line \<Rightarrow> bool \<Rightarrow> instant \<Rightarrow> exporter_run \<Rightarrow> exporter_run" where
  "on_line xp line acquired now xr =
     (let (pass, dc) = gate (xp_cfg xp) line acquired (ew_drops (xr_world xr));
          xr1 = xr\<lparr>xr_world := (xr_world xr)\<lparr>ew_drops := dc\<rparr>\<rparr>
      in if \<not> pass then xr1
         else let xr2 = add_line xp now line xr1 in
           if should_flush_on_size (xp_cfg xp) (xr_flusher xr2) then flush xp xr2 else xr2)"

text \<open>The loop; the first result tells whether the task has ended, which it does with a last flush.\<close>

fun serve_loop :: "exporter_params \<Rightarrow> exporter_event list \<Rightarrow> exporter_run \<Rightarrow> bool \<times> exporter_run" where
  "serve_loop xp [] xr = (False, xr)"
| "serve_loop xp (Line line acquired now # es) xr = serve_loop xp es (on_line xp line acquired now xr)"
| "serve_loop xp (ChannelClosed # es) xr = (True, flush xp xr)"
| "serve_loop xp (DeadlinePassed # es) xr = serve_loop xp es (flush xp xr)"
| "serve_loop xp (ShutdownChanged stop # es) xr = (if stop then (True, flush xp xr) else serve_loop xp es xr)"
| "serve_loop xp (OtherTasks g # es) xr = serve_loop xp es (xr\<lparr>xr_world := g (xr_world xr)\<rparr>)"

definition serve_logs :: "exporter_params \<Rightarrow> instant \<Rightarrow> exporter_world \<Rightarrow> exporter_event list \<Rightarrow> bool \<times> exporter_run" where
  "serve_logs xp now w es = serve_loop xp es
     \<lparr>xr_flusher = \<lparr>fl_backoff = backoff_new now, fl_buffer = [], fl_buffered_bytes = 0, fl_deadline = None\<rparr>,
      xr_world = w, xr_sent = []\<rparr>"

end
