(* ===== verification/Exporter_Safety.thy ===== *)
theory Exporter_Safety
  imports Logs_Exporter Spool_Safety
begin

text \<open>
  What the exporter of log lines promises: every admitted line is in exactly one request, in order, the
  requests fit the limit, the batch under construction stays small and has a deadline, and the
  counters tell exactly what became of the requests. The last is proved once, in a locale, for any
  counter that a send changes by the weight of its batch, and interpreted on the four counters.
\<close>

section \<open>Requests\<close>

definition fits :: "exporter_params \<Rightarrow> log_line list \<Rightarrow> bool" where
  "fits xp c \<longleftrightarrow> length (encode_batch xp c) \<le> xc_batch_max_bytes (xp_cfg xp) \<or> length c = 1"

lemma split_loop_chunks:
  "\<exists>chunks. split_loop enc limit stack = map (\<lambda>c. (enc c, length c)) chunks \<and> concat chunks = concat stack \<and>
     (\<forall>c\<in>set chunks. c \<noteq> [] \<and> (length (enc c) \<le> limit \<or> length c = 1))"
proof (induction enc limit stack rule: split_loop.induct)
  case (1 enc limit)
  then show ?case by (simp add: split_loop.simps)
next
  case (2 enc limit chunk stack)
  note step = split_loop.simps(2) [of enc limit chunk stack]
  consider "chunk = []" | (out) "chunk \<noteq> []" "length (enc chunk) \<le> limit \<or> length chunk = 1"
    | (halve) "chunk \<noteq> []" "\<not> (length (enc chunk) \<le> limit \<or> length chunk = 1)" by blast
  then show ?case
  proof cases
    case 1
    with 2(1) step show ?thesis by simp
  next
    case out
    with 2(2) obtain chunks where "split_loop enc limit stack = map (\<lambda>c. (enc c, length c)) chunks" "concat chunks = concat stack"
      "\<forall>c\<in>set chunks. c \<noteq> [] \<and> (length (enc c) \<le> limit \<or> length c = 1)" by (auto simp: Let_def)
    with out show ?thesis by (intro exI [of _ "chunk # chunks"]) (auto simp: step Let_def)
  next
    case halve
    with 2(3) [OF halve(1) refl halve(2) refl] step show ?thesis
      by (simp add: Let_def append_assoc [symmetric] del: append_assoc)
  qed
qed

definition batched :: "exporter_params \<Rightarrow> log_line list \<Rightarrow> exporter_run \<Rightarrow> bool" where
  "batched xp ls xr \<longleftrightarrow> (\<exists>chunks. map (\<lambda>b. (sn_body b, sn_lines b)) (xr_sent xr) = map (\<lambda>c. (encode_batch xp c, length c)) chunks \<and>
     concat chunks @ fl_buffer (xr_flusher xr) = ls \<and> (\<forall>c\<in>set chunks. c \<noteq> [] \<and> fits xp c))"

lemma send_step_fields:
  "map (\<lambda>b. (sn_body b, sn_lines b)) (xr_sent (send_step xp xr b)) = map (\<lambda>b. (sn_body b, sn_lines b)) (xr_sent xr) @ [b]"
  "fl_buffer (xr_flusher (send_step xp xr b)) = fl_buffer (xr_flusher xr)"
  "fl_buffered_bytes (xr_flusher (send_step xp xr b)) = fl_buffered_bytes (xr_flusher xr)"
  "fl_deadline (xr_flusher (send_step xp xr b)) = fl_deadline (xr_flusher xr)"
  by (cases b; simp add: send_step_def split: prod.split)+

lemma send_steps_fields:
  "map (\<lambda>b. (sn_body b, sn_lines b)) (xr_sent (foldl (send_step xp) xr bs)) = map (\<lambda>b. (sn_body b, sn_lines b)) (xr_sent xr) @ bs"
  "fl_buffer (xr_flusher (foldl (send_step xp) xr bs)) = fl_buffer (xr_flusher xr)"
  "fl_buffered_bytes (xr_flusher (foldl (send_step xp) xr bs)) = fl_buffered_bytes (xr_flusher xr)"
  "fl_deadline (xr_flusher (foldl (send_step xp) xr bs)) = fl_deadline (xr_flusher xr)"
  by (induction bs arbitrary: xr) (simp_all add: send_step_fields)

lemma flush_empties:
  "fl_buffer (xr_flusher (flush xp xr)) = []"
  "fl_buffer (xr_flusher xr) \<noteq> [] \<Longrightarrow> fl_deadline (xr_flusher (flush xp xr)) = None \<and> fl_buffered_bytes (xr_flusher (flush xp xr)) = 0"
  "fl_buffer (xr_flusher xr) = [] \<Longrightarrow> flush xp xr = xr"
  by (simp_all add: flush_def Let_def send_steps_fields)

lemma flush_batched: "batched xp ls xr \<Longrightarrow> batched xp ls (flush xp xr)"
proof (cases "fl_buffer (xr_flusher xr) = []")
  case False
  assume "batched xp ls xr"
  then obtain chunks where c: "map (\<lambda>b. (sn_body b, sn_lines b)) (xr_sent xr) = map (\<lambda>c. (encode_batch xp c, length c)) chunks"
    "concat chunks @ fl_buffer (xr_flusher xr) = ls" "\<forall>c\<in>set chunks. c \<noteq> [] \<and> fits xp c" by (auto simp: batched_def)
  obtain new where n: "encode_within_limit xp (fl_buffer (xr_flusher xr)) = map (\<lambda>c. (encode_batch xp c, length c)) new"
    "concat new = fl_buffer (xr_flusher xr)" "\<forall>c\<in>set new. c \<noteq> [] \<and> fits xp c"
    using split_loop_chunks [of "encode_batch xp" "xc_batch_max_bytes (xp_cfg xp)" "[fl_buffer (xr_flusher xr)]"]
    by (auto simp: encode_within_limit_def fits_def)
  from c n False show ?thesis
    unfolding batched_def by (intro exI [of _ "chunks @ new"]) (auto simp: flush_def Let_def send_steps_fields)
qed (simp add: flush_empties)

lemma add_line_batched: "batched xp ls xr \<Longrightarrow> batched xp (ls @ [line]) (add_line xp now line xr)"
  using flush_batched [of xp ls xr] by (auto simp: add_line_def Let_def batched_def)

lemma on_line_batched:
  assumes "batched xp ls xr"
  shows "batched xp (ls @ (if fst (gate (xp_cfg xp) line acquired (ew_drops (xr_world xr))) then [line] else [])) (on_line xp line acquired now xr)"
proof -
  obtain pass dc where g: "gate (xp_cfg xp) line acquired (ew_drops (xr_world xr)) = (pass, dc)" by (rule prod.exhaust)
  have "batched xp ls (xr\<lparr>xr_world := (xr_world xr)\<lparr>ew_drops := dc\<rparr>\<rparr>)" using assms by (simp add: batched_def)
  from add_line_batched [OF this, of line now] flush_batched g this show ?thesis by (auto simp: on_line_def Let_def)
qed

text \<open>The lines of a run that pass the filter and the limiter, up to its end.\<close>

fun admitted :: "exporter_params \<Rightarrow> exporter_event list \<Rightarrow> log_line list" where
  "admitted xp [] = []"
| "admitted xp (Line line acquired now # es) =
     (if passes_severity line (xc_logs (xp_cfg xp)) \<and> acquired then line # admitted xp es else admitted xp es)"
| "admitted xp (ChannelClosed # es) = []"
| "admitted xp (DeadlinePassed # es) = admitted xp es"
| "admitted xp (ShutdownChanged stop # es) = (if stop then [] else admitted xp es)"
| "admitted xp (OtherTasks g # es) = admitted xp es"

lemma fst_gate: "fst (gate cfg line acquired dc) \<longleftrightarrow> passes_severity line (xc_logs cfg) \<and> acquired"
  by (simp add: gate_def)

lemma serve_loop_batched:
  "batched xp ls xr \<Longrightarrow> serve_loop xp es xr = (ended, xr') \<Longrightarrow>
   batched xp (ls @ admitted xp es) xr' \<and> (ended \<longrightarrow> fl_buffer (xr_flusher xr') = [])"
proof (induction xp es xr arbitrary: ls rule: serve_loop.induct)
  case (2 xp line acquired now es xr)
  from 2(1) [OF on_line_batched [OF 2(2), of line acquired now]] 2(3) show ?case by (auto simp: fst_gate)
next
  case (4 xp es xr)
  from 4(1) [OF flush_batched [OF 4(2)]] 4(3) show ?case by simp
next
  case (5 xp stop es xr)
  then show ?case by (auto simp: flush_batched flush_empties split: if_splits)
next
  case (6 xp g es xr)
  have "batched xp ls (xr\<lparr>xr_world := g (xr_world xr)\<rparr>)" using 6(2) by (simp add: batched_def)
  from 6(1) [OF this] 6(3) show ?case by simp
qed (auto simp: flush_batched flush_empties)

section \<open>The batch under construction\<close>

definition flusher_ok :: "exporter_params \<Rightarrow> logs_flusher \<Rightarrow> bool" where
  "flusher_ok xp fl \<longleftrightarrow> fl_buffered_bytes fl = sum_list (map line_bytes (fl_buffer fl)) \<and>
     (fl_deadline fl = None \<longleftrightarrow> fl_buffer fl = []) \<and>
     (fl_buffer fl \<noteq> [] \<longrightarrow> length (fl_buffer fl) < xc_batch_max_lines (xp_cfg xp) \<and> fl_buffered_bytes fl < xc_batch_max_bytes (xp_cfg xp))"

lemma flush_ok: "flusher_ok xp (xr_flusher xr) \<Longrightarrow> flusher_ok xp (xr_flusher (flush xp xr))"
  using flush_empties [where xp = xp and xr = xr] by (cases "fl_buffer (xr_flusher xr) = []") (auto simp: flusher_ok_def)

lemma flush_any_ok: "fl_buffer (xr_flusher xr) \<noteq> [] \<Longrightarrow> flusher_ok xp (xr_flusher (flush xp xr))"
  using flush_empties [where xp = xp and xr = xr] by (auto simp: flusher_ok_def)

lemma add_line_fields:
  assumes "flusher_ok xp (xr_flusher xr)"
  shows "fl_buffer (xr_flusher (add_line xp now line xr)) \<noteq> []"
    and "fl_deadline (xr_flusher (add_line xp now line xr)) \<noteq> None"
    and "fl_buffered_bytes (xr_flusher (add_line xp now line xr)) = sum_list (map line_bytes (fl_buffer (xr_flusher (add_line xp now line xr))))"
  using assms flush_ok [OF assms] by (auto simp: add_line_def Let_def flusher_ok_def)

lemma on_line_ok: "flusher_ok xp (xr_flusher xr) \<Longrightarrow> flusher_ok xp (xr_flusher (on_line xp line acquired now xr))"
proof -
  assume ok: "flusher_ok xp (xr_flusher xr)"
  obtain pass dc where g: "gate (xp_cfg xp) line acquired (ew_drops (xr_world xr)) = (pass, dc)" by (rule prod.exhaust)
  let ?xr = "xr\<lparr>xr_world := (xr_world xr)\<lparr>ew_drops := dc\<rparr>\<rparr>"
  have "flusher_ok xp (xr_flusher ?xr)" using ok by simp
  note a = add_line_fields [OF this, of now line]
  show ?thesis
  proof (cases "pass \<and> should_flush_on_size (xp_cfg xp) (xr_flusher (add_line xp now line ?xr))")
    case True
    with a(1) flush_any_ok [of "add_line xp now line ?xr" xp] g show ?thesis by (simp add: on_line_def Let_def)
  next
    case False
    then show ?thesis using ok g a by (auto simp: on_line_def Let_def should_flush_on_size_def flusher_ok_def)
  qed
qed

lemma serve_loop_ok: "flusher_ok xp (xr_flusher xr) \<Longrightarrow> flusher_ok xp (xr_flusher (snd (serve_loop xp es xr)))"
  by (induction xp es xr rule: serve_loop.induct) (auto simp: on_line_ok flush_ok)

section \<open>Ledgers\<close>

text \<open>
  A ledger is a counter of the shared state that changes with each request by the weight of what
  became of it, and not when a line is filtered.
\<close>

text \<open>The other tasks leave a counter alone, during a push and while the task waits for an event.\<close>

definition untouched :: "(exporter_world \<Rightarrow> u64) \<Rightarrow> exporter_params \<Rightarrow> exporter_event list \<Rightarrow> bool" where
  "untouched counter xp es \<longleftrightarrow> (\<forall>n w. counter (sv_others (xp_env xp n) w) = counter w) \<and>
     (\<forall>g w. OtherTasks g \<in> set es \<longrightarrow> counter (g w) = counter w)"

locale ledger =
  fixes counter :: "exporter_world \<Rightarrow> u64" and weight :: "sent_batch \<Rightarrow> u64"
  assumes sent: "send_one xp env body n (bo, w) = ((pushed, f), bo', w') \<Longrightarrow>
      counter w' = counter (if pushed then sv_others env w else w) + weight \<lparr>sn_body = body, sn_lines = n, sn_pushed = pushed, sn_fate = f\<rparr>"
    and gated: "counter (w\<lparr>ew_drops := snd (gate cfg line acquired (ew_drops w))\<rparr>) = counter w"
begin

definition balance :: "exporter_run \<Rightarrow> u64" where
  "balance xr = counter (xr_world xr) - sum_list (map weight (xr_sent xr))"

lemma send_step_balance: "untouched counter xp es \<Longrightarrow> balance (send_step xp xr b) = balance xr"
proof -
  assume q: "untouched counter xp es"
  obtain body n where b: "b = (body, n)" by (cases b)
  let ?env = "xp_env xp (length (xr_sent xr))"
  obtain pushed f bo w where s: "send_one xp ?env body n (fl_backoff (xr_flusher xr), xr_world xr) = ((pushed, f), bo, w)"
    by (metis prod.exhaust)
  from sent [OF s] q show ?thesis by (simp add: balance_def send_step_def b s untouched_def)
qed

lemma flush_balance: "untouched counter xp es \<Longrightarrow> balance (flush xp xr) = balance xr"
proof -
  assume q: "untouched counter xp es"
  have "balance (foldl (send_step xp) xr bs) = balance xr" for xr bs
    by (induction bs arbitrary: xr) (simp_all add: send_step_balance [OF q])
  then show ?thesis by (simp add: flush_def Let_def balance_def)
qed

lemma on_line_balance: "untouched counter xp es \<Longrightarrow> balance (on_line xp line acquired now xr) = balance xr"
proof -
  assume q: "untouched counter xp es"
  let ?w = "(xr_world xr)\<lparr>ew_drops := snd (gate (xp_cfg xp) line acquired (ew_drops (xr_world xr)))\<rparr>"
  have w: "balance (xr\<lparr>xr_world := ?w\<rparr>) = balance xr" by (simp add: balance_def gated)
  have add: "balance (add_line xp now line xr) = balance xr" for xr
    using flush_balance [OF q, of xr] by (simp add: add_line_def Let_def balance_def)
  show ?thesis using w add flush_balance [OF q] by (simp add: on_line_def Let_def split_def)
qed

lemma serve_balance: "untouched counter xp es \<Longrightarrow> balance (snd (serve_loop xp es xr)) = balance xr"
proof (induction xp es xr rule: serve_loop.induct)
  case (2 xp line acquired now es xr)
  from 2(1) on_line_balance [OF 2(2)] 2(2) show ?case by (simp add: untouched_def)
next
  case (3 xp es xr)
  from flush_balance [OF 3] show ?case by simp
next
  case (4 xp es xr)
  from 4(1) flush_balance [OF 4(2)] 4(2) show ?case by (simp add: untouched_def)
next
  case (5 xp stop es xr)
  from 5(1) flush_balance [OF 5(2)] 5(2) show ?case by (simp add: untouched_def)
next
  case (6 xp g es xr)
  then show ?case by (auto simp: untouched_def balance_def)
qed simp

lemma serve_logs_ledger:
  "untouched counter xp es \<Longrightarrow> counter (xr_world (snd (serve_logs xp now w es))) = counter w + sum_list (map weight (xr_sent (snd (serve_logs xp now w es))))"
  using serve_balance [of xp es] by (simp add: serve_logs_def balance_def diff_eq_eq)

end

lemma enforce_cap_rejected: "sl_dropped (enforce_cap io kind s) Rejected = sl_dropped s Rejected"
proof -
  have "sl_dropped (snd (drop_while_over io kind ps s)) Rejected = sl_dropped s Rejected" for ps s
    by (induction io kind ps s rule: drop_while_over.induct)
      (auto simp: Let_def record_drop_def split: prod.splits if_splits)
  moreover have "sl_dropped (snd (should_warn_drop io s r)) = sl_dropped s" for s r
    by (simp add: should_warn_drop_def Let_def)
  ultimately show ?thesis
    by (auto simp: enforce_cap_def split: option.split prod.split) (metis snd_conv)+
qed

lemma append_rejected: "sl_dropped (snd (spool_append io kind body s)) Rejected = sl_dropped s Rejected"
  by (simp add: spool_append_def Let_def enforce_cap_rejected split: write_outcome.split)

lemmas send_one_cases = send_one_def Let_def spool_outcome_def record_ok_def record_fail_def record_rejection_def
  record_rejected_batch_def record_drop_def

interpretation refused_lines: ledger "\<lambda>w. dc_by_rejected (ew_drops w)" "\<lambda>b. if sn_fate b = Refused then of_nat (sn_lines b) else 0"
  by unfold_locales (auto simp: send_one_cases gate_def split: if_splits sum.splits prod.splits)

interpretation refused_batches: ledger "\<lambda>w. sl_dropped (ew_spool w) Rejected AppLogs" "\<lambda>b. if sn_fate b = Refused then 1 else 0"
  using append_rejected by unfold_locales (auto simp: send_one_cases gate_def split: if_splits sum.splits prod.splits, (metis snd_conv)+)

interpretation reached: ledger "\<lambda>w. eh_push_ok_total (ew_health w)" "\<lambda>b. if sn_fate b = Delivered \<or> sn_fate b = Refused then 1 else 0"
  by unfold_locales (auto simp: send_one_cases gate_def split: if_splits sum.splits prod.splits)

interpretation failed: ledger "\<lambda>w. eh_push_fail_total (ew_health w)"
    "\<lambda>b. if sn_pushed b \<and> (sn_fate b = Spooled \<or> sn_fate b = SpoolFailed) then 1 else 0"
  by unfold_locales (auto simp: send_one_cases gate_def split: if_splits sum.splits prod.splits)

text \<open>The next batch cannot be written to the spool: its file cannot be created, filled, synced or renamed.\<close>

definition unwritable :: "spool_io \<Rightarrow> spool \<Rightarrow> bool" where
  "unwritable io s \<longleftrightarrow> io_write io \<noteq> Written \<or> \<not> io_rename io (tmp_name (sl_next_seq s))"

lemma unspooled_loses:
  assumes "\<not> backoff_ready (sv_now env) bo" "unwritable (sv_io env) (ew_spool w)"
  shows "\<exists>s. send_one xp env body n (bo, w) = ((False, SpoolFailed), bo, w\<lparr>ew_spool := s\<rparr>) \<and>
    sl_dropped s = sl_dropped (ew_spool w) \<and> sl_totals s = sl_totals (ew_spool w)"
  using assms by (auto simp: unwritable_def send_one_def spool_append_def Let_def spool_outcome_def split: write_outcome.splits)

section \<open>Properties\<close>

lemma fresh_batched: "batched xp [] \<lparr>xr_flusher = \<lparr>fl_backoff = bo, fl_buffer = [], fl_buffered_bytes = 0, fl_deadline = None\<rparr>,
    xr_world = w, xr_sent = []\<rparr>"
  by (simp add: batched_def)

text \<open>
  C6 (functional). Whatever lines, deadlines and answers a run of the log exporter meets, the requests it made are
  the encodings of non-empty consecutive runs of the admitted lines, which together with the lines still
  buffered are the admitted lines, each once and in order; every request is within the size limit
  or holds a single line; and when the task has ended nothing is left in the buffer.
\<close>

theorem exporter_batches_every_line:
  assumes "serve_logs xp now w es = (ended, xr)"
  shows "\<exists>chunks. map (\<lambda>b. (sn_body b, sn_lines b)) (xr_sent xr) = map (\<lambda>c. (encode_batch xp c, length c)) chunks \<and>
    concat chunks @ fl_buffer (xr_flusher xr) = admitted xp es \<and>
    (\<forall>c\<in>set chunks. c \<noteq> [] \<and> (length (encode_batch xp c) \<le> xc_batch_max_bytes (xp_cfg xp) \<or> length c = 1)) \<and>
    (ended \<longrightarrow> fl_buffer (xr_flusher xr) = [])"
  using serve_loop_batched [OF fresh_batched assms [unfolded serve_logs_def]] by (auto simp: batched_def fits_def)

text \<open>
  Further property (invariant). Between two events the batch under construction is empty and no timer runs, or a timer runs and
  the batch is below both the line limit and the byte limit; the running byte count is the exact sum
  over the lines.
\<close>

theorem pending_batch_bounded:
  "flusher_ok xp (xr_flusher (snd (serve_logs xp now w es)))"
  unfolding serve_logs_def by (rule serve_loop_ok) (simp add: flusher_ok_def)

text \<open>
  C13 (invariant). The exact meaning of the four counters of the log exporter, in any run. The rejected lines are
  the lines of the requests that the collector refused for good; the spool's count of refused batches grows by one
  for each such request; the successes are the requests that reached the collector, refused ones included (lines
  that a successful answer reports as discarded are not looked at); the failures are the pushes that did not reach
  it, whether the batch was then spooled or the spooling failed too. Each equation holds as long as the other
  tasks do not touch that counter during the run. The counters do not tell every loss: a batch that arrives
  inside the backoff window and cannot be written to the spool is lost while the health, the drop counters, the
  spool's losses and its totals all stay as they were.
\<close>

theorem exporter_counts_every_request:
  defines "outcome \<equiv> \<lambda>xp now w es. snd (serve_logs xp now w es)"
  shows "(untouched (\<lambda>w. dc_by_rejected (ew_drops w)) xp es \<longrightarrow> dc_by_rejected (ew_drops (xr_world (outcome xp now w es))) = dc_by_rejected (ew_drops w) +
      (\<Sum>b\<leftarrow>xr_sent (outcome xp now w es). if sn_fate b = Refused then of_nat (sn_lines b) else 0)) \<and>
    (untouched (\<lambda>w. sl_dropped (ew_spool w) Rejected AppLogs) xp es \<longrightarrow> sl_dropped (ew_spool (xr_world (outcome xp now w es))) Rejected AppLogs =
      sl_dropped (ew_spool w) Rejected AppLogs + (\<Sum>b\<leftarrow>xr_sent (outcome xp now w es). if sn_fate b = Refused then 1 else 0)) \<and>
    (untouched (\<lambda>w. eh_push_ok_total (ew_health w)) xp es \<longrightarrow> eh_push_ok_total (ew_health (xr_world (outcome xp now w es))) = eh_push_ok_total (ew_health w) +
      (\<Sum>b\<leftarrow>xr_sent (outcome xp now w es). if sn_fate b = Delivered \<or> sn_fate b = Refused then 1 else 0)) \<and>
    (untouched (\<lambda>w. eh_push_fail_total (ew_health w)) xp es \<longrightarrow> eh_push_fail_total (ew_health (xr_world (outcome xp now w es))) = eh_push_fail_total (ew_health w) +
      (\<Sum>b\<leftarrow>xr_sent (outcome xp now w es). if sn_pushed b \<and> (sn_fate b = Spooled \<or> sn_fate b = SpoolFailed) then 1 else 0)) \<and>
    (\<not> backoff_ready (sv_now env) bo \<and> unwritable (sv_io env) (ew_spool w) \<longrightarrow>
      (\<exists>s. send_one xp env body n (bo, w) = ((False, SpoolFailed), bo, w\<lparr>ew_spool := s\<rparr>) \<and>
        sl_dropped s = sl_dropped (ew_spool w) \<and> sl_totals s = sl_totals (ew_spool w)))"
  unfolding outcome_def
  using refused_lines.serve_logs_ledger refused_batches.serve_logs_ledger reached.serve_logs_ledger failed.serve_logs_ledger
  by (intro conjI impI) (assumption | elim conjE, rule unspooled_loses, assumption+)+

section \<open>Witnesses\<close>

text \<open>A collector that refuses every request, met by a single line.\<close>

definition refusing_env :: send_env where
  "refusing_env = \<lparr>sv_now = 0, sv_live = None, sv_http = (\<lambda>_. Reply 413 None), sv_others = (\<lambda>w. w), sv_done = 0,
     sv_jitter = 0, sv_unix = 0, sv_io = working_io\<rparr>"

definition plain_params :: exporter_params where
  "plain_params = \<lparr>xp_cfg = \<lparr>xc_url = ''u'', xc_token = None, xc_service_version = ''1'',
       xc_resource = \<lparr>ra_host_name = ''h'', ra_host_id = ''i'', ra_os_type = ''linux'', ra_host_ip = None\<rparr>,
       xc_batch_max_lines = 2, xc_batch_max_bytes = 100, xc_batch_max_ms = 2000,
       xc_logs = \<lparr>lg_min_severity = ''INFO'', lg_external_min_severity = ''WARN'', lg_services = []\<rparr>\<rparr>,
     xp_lib = \<lparr>pl_redact = (\<lambda>s. s), pl_encode = (\<lambda>_. []), pl_decode = (\<lambda>_. None), pl_query_hash = (\<lambda>_ _ _ _. 0)\<rparr>,
     xp_status_name = (\<lambda>_. []), xp_env = (\<lambda>_. refusing_env)\<rparr>"

definition plain_world :: exporter_world where
  "plain_world = \<lparr>ew_spool = empty_spool small_quotas, ew_health = health_new ''u'', ew_drops = drop_counters_new\<rparr>"

definition error_line :: log_line where
  "error_line = \<lparr>ll_source = ''file'', ll_service = ''web'', ll_severity = ''ERROR'', ll_message = ''m'', ll_attrs = [],
     ll_ts = 0, ll_record_id = ''log:1''\<rparr>"

lemma error_line_admitted: "admitted plain_params [Line error_line True 0, ShutdownChanged True] = [error_line]"
  by (simp add: passes_severity_def severity_rank_def effective_min_severity_def source_default_min_severity_def
      plain_params_def error_line_def split: option.split)

theorem exporter_batches_every_line_witness:
  "\<exists>xr. serve_logs plain_params 0 plain_world [Line error_line True 0, ShutdownChanged True] = (True, xr) \<and>
     fl_buffer (xr_flusher xr) = [] \<and> sum_list (map sn_lines (xr_sent xr)) = 1"
proof -
  obtain ended xr where r: "serve_logs plain_params 0 plain_world [Line error_line True 0, ShutdownChanged True] = (ended, xr)"
    by (rule prod.exhaust)
  then have e: "ended" by (simp add: serve_logs_def)
  from exporter_batches_every_line [OF r, unfolded error_line_admitted] e obtain chunks where
    c: "map (\<lambda>b. (sn_body b, sn_lines b)) (xr_sent xr) = map (\<lambda>c. (encode_batch plain_params c, length c)) chunks"
    "concat chunks = [error_line]" "fl_buffer (xr_flusher xr) = []" by auto
  from arg_cong [OF c(1), of "map snd"] have "map sn_lines (xr_sent xr) = map length chunks" by (simp add: comp_def)
  then have "sum_list (map sn_lines (xr_sent xr)) = length (concat chunks)" by (simp add: length_concat)
  with c r e show ?thesis by simp
qed

text \<open>A disk that is full: the file of a batch cannot be created.\<close>

definition full_disk_env :: send_env where
  "full_disk_env = refusing_env\<lparr>sv_io := working_io\<lparr>io_write := CreateFailed\<rparr>\<rparr>"

definition waiting_backoff :: backoff where
  "waiting_backoff = on_failure 0 0 (backoff_new 0)"

theorem exporter_counts_every_request_witness:
  "dc_by_rejected (ew_drops (xr_world (snd (serve_logs plain_params 0 plain_world [Line error_line True 0, ShutdownChanged True])))) =
     (\<Sum>b\<leftarrow>xr_sent (snd (serve_logs plain_params 0 plain_world [Line error_line True 0, ShutdownChanged True])).
        if sn_fate b = Refused then of_nat (sn_lines b) else 0) \<and>
   fst (send_one plain_params full_disk_env ''ab'' 2 (waiting_backoff, plain_world)) = (False, SpoolFailed)"
proof -
  let ?es = "[Line error_line True 0, ShutdownChanged True]"
  have "\<not> backoff_ready (sv_now full_disk_env) waiting_backoff" "unwritable (sv_io full_disk_env) (ew_spool plain_world)"
    by (simp_all add: full_disk_env_def refusing_env_def waiting_backoff_def unwritable_def backoff_ready_def on_failure_def backoff_new_def Let_def
      delay_for_def backoff_base_def backoff_cap_def ms_def)
  with exporter_counts_every_request [of plain_params ?es 0 plain_world full_disk_env waiting_backoff "''ab''" 2]
  show ?thesis by (auto simp: untouched_def plain_params_def refusing_env_def plain_world_def drop_counters_new_def)
qed

end
