(* ===== verification/Log_Pipeline.thy ===== *)
theory Log_Pipeline
  imports Tail_Safety Exporter_Safety Spool_Safety
begin

text \<open>
  The log collector from file to collector: a tail hands lines to a channel and saves how far it got, the
  exporter takes them out of the channel. What this theory shows spans both: the checkpoint is ahead
  of what is durable, so lines that wait in the channel at a stop are sent by nobody.
\<close>

lemma read_and_emit_saves:
  assumes "ft_handle (tk_tail st) = Some h" and "te_read env (th_file h)" and "read_and_emit env st = (r, st')"
    and "ft_handle (tk_tail st') = Some h'" and "th_offset h' \<noteq> th_offset h"
  shows "\<exists>d. tk_dir st' = snd (checkpoint_save (te_save env) (tail_checkpoint_key (tk_tail st)) (checkpoint_value h') d)"
proof -
  obtain er h1 st1 where e: "emit_from_handle env h st = (er, h1, st1)" by (rule prod_cases3)
  moreover obtain rest where "er = Inr rest"
    using e assms(2) by (auto simp: emit_from_handle_def split: if_splits prod.splits)
  ultimately have e': "emit_from_handle env h st = (Inr rest, h1, st1)" by simp
  have "tk_tail st1 = tk_tail st" using emit_conserves(3) [OF e'] by blast
  with e' assms show ?thesis by (auto simp: read_and_emit_def Let_def tail_checkpoint_key_def split: if_splits)
qed

text \<open>A tail that starts on a file whose checkpoint it finds resumes where the checkpoint says.\<close>

lemma restart_resumes:
  assumes "tracks env h" and "te_load env" and "th_offset h \<le> length (fo_data (te_obj env (th_file h)))"
    and "Option.bind (checkpoint_load True (tail_checkpoint_key (file_tail_new label)) d) parse_checkpoint_value = Some (th_fingerprint h, th_offset h)"
    and "tick_at env now avail cap slots (file_tail_new label) d = (r, used, st)"
  shows "r = Inr () \<and> tk_out st @ pending_lines env (tk_tail st) = left_of (te_parse env) (fo_data (te_obj env (th_file h))) h"
proof -
  let ?h = "\<lparr>th_file = th_file h, th_fingerprint = th_fingerprint h, th_inode = fo_inode (te_obj env (th_file h)), th_offset = th_offset h\<rparr>"
  let ?st = "\<lparr>tk_tail = (file_tail_new label)\<lparr>ft_next_poll := Some (now + 1000), ft_handle := Some ?h\<rparr>, tk_budget = min avail cap,
    tk_slots = slots, tk_out = [], tk_dir = d\<rparr>"
  obtain r' st' where e: "read_and_emit env ?st = (r', st')" by (rule prod.exhaust)
  have "tick_at env now avail cap slots (file_tail_new label) d = (r', min avail cap - tk_budget st', st')"
    using assms(1-4) e
    by (simp add: tick_at_def tick_with_budget_def drain_rotated_def tracks_def compute_fingerprint_def on_change_def decide_change_def
        handle_rotation_def resume_offset_def tail_checkpoint_key_def file_tail_new_def on_tail_def Let_def min_def split: prod.splits)
  with assms(5) have "r = r'" "st = st'" by auto
  with read_and_emit_pending [OF _ _ _ e, of ?h] assms(1) show ?thesis
    by (simp add: tracks_def pending_lines_def file_tail_new_def left_of_def)
qed

text \<open>
  C40 (error). The checkpoint is saved when a line enters the channel, not when it is durable. When the
  exporter stops before it takes the lines out of the channel, it sends none of them; and a restarted tail
  resumes behind them, so what it will ever send is the rest of the file without them. A comment in
  the tail says such a line is sent again, and is not lost.
\<close>

theorem lines_in_channel_lost_at_stop:
  assumes "ft_handle t = Some h" and "ft_draining t = None" and "tracks env h" and "te_load env" and "te_save env = SaveOk"
    and "th_offset h \<le> length (fo_data (te_obj env (th_file h)))" and "length (fo_data (te_obj env (th_file h))) < 2 ^ 64"
    and "tick_at env now avail cap slots t d = (r, used, st)" and "tk_out st \<noteq> []"
    and "tick_at env now' avail' cap' slots' (file_tail_new (ft_label t)) (tk_dir st) = (r2, used2, st2)"
  shows "tk_out st @ (tk_out st2 @ pending_lines env (tk_tail st2)) = left_of (te_parse env) (fo_data (te_obj env (th_file h))) h \<and>
    xr_sent (snd (serve_logs xp t0 w (ShutdownChanged True # map (\<lambda>l. Line l True t0) (tk_out st)))) = []"
proof -
  let ?data = "fo_data (te_obj env (th_file h))"
  let ?st = "\<lparr>tk_tail = t\<lparr>ft_next_poll := Some (now + 1000)\<rparr>, tk_budget = min avail cap, tk_slots = slots, tk_out = [], tk_dir = d\<rparr>"
  let ?start = "on_tail (\<lambda>t. t\<lparr>ft_backlog := False\<rparr>) ?st"
  have e: "read_and_emit env ?start = (r, st)"
    using tick_on_tracked [of ?st h env] assms(1-3,6,8) by (auto simp: tick_at_def Let_def split: prod.splits)
  have h0: "ft_handle (tk_tail ?start) = Some h" and rd: "te_read env (th_file h)" using assms(1,3) by (simp_all add: tracks_def)
  from read_and_emit_conserves [OF h0 rd prefix_order.refl e] assms(6) obtain h' where
    h': "ft_handle (tk_tail st) = Some h'" "moved h h'" "tk_out st @ left_of (te_parse env) ?data h' = left_of (te_parse env) ?data h"
    "th_offset h' \<le> length ?data" by auto
  have off: "th_offset h' \<noteq> th_offset h"
  proof
    assume "th_offset h' = th_offset h"
    with h'(2) have "left_of (te_parse env) ?data h' = left_of (te_parse env) ?data h" by (simp add: left_of_def moved_def)
    with h'(3) assms(9) show False by simp
  qed
  let ?key = "tail_checkpoint_key (file_tail_new (ft_label t))"
  obtain d0 where d0: "tk_dir st = snd (checkpoint_save (te_save env) (tail_checkpoint_key (tk_tail ?start)) (checkpoint_value h') d0)"
    using read_and_emit_saves [OF h0 rd e h'(1) off] by blast
  have key: "tail_checkpoint_key (tk_tail ?start) = ?key" by (simp add: tail_checkpoint_key_def file_tail_new_def)
  obtain rr d1 where s: "checkpoint_save SaveOk ?key (checkpoint_value h') d0 = (rr, d1)" by (rule prod.exhaust)
  have d1: "tk_dir st = d1" using d0 s unfolding key assms(5) by simp
  have "th_offset h' < 2 ^ 64" using h'(4) assms(7) by (rule le_less_trans)
  from tail_checkpoint_round_trip [OF this s]
  have cp: "Option.bind (checkpoint_load True ?key (tk_dir st)) parse_checkpoint_value = Some (th_fingerprint h', th_offset h')"
    unfolding d1 .
  have tr: "tracks env h'" using assms(3) h'(2) by (simp add: tracks_def moved_def)
  have f: "th_file h' = th_file h" using h'(2) by (simp add: moved_def)
  from restart_resumes [OF tr assms(4) _ cp assms(10)] h'(3,4) f
  have "tk_out st @ (tk_out st2 @ pending_lines env (tk_tail st2)) = left_of (te_parse env) ?data h" by simp
  moreover have "xr_sent (snd (serve_logs xp t0 w (ShutdownChanged True # es))) = []" for es
    by (simp add: serve_logs_def flush_def)
  ultimately show ?thesis by blast
qed

theorem lines_in_channel_lost_at_stop_witness:
  "\<exists>(st :: tick_state) (st2 :: tick_state). length (tk_out st @ tk_out st2 @ pending_lines (sample_env 7 long_line) (tk_tail st2)) = 1 \<and> tk_out st \<noteq> [] \<and>
     xr_sent (snd (serve_logs plain_params 0 plain_world (ShutdownChanged True # map (\<lambda>l. Line l True 0) (tk_out st)))) = []"
proof -
  let ?e = "sample_env 7 long_line"
  obtain r used st where t1: "tick_at ?e 0 3 3 3 sample_tail [] = (r, used, st)" by (rule prod_cases3)
  obtain r2 used2 st2 where t2: "tick_at ?e 0 3 3 3 (file_tail_new (ft_label sample_tail)) (tk_dir st) = (r2, used2, st2)" by (rule prod_cases3)
  let ?st = "\<lparr>tk_tail = sample_tail\<lparr>ft_next_poll := Some 1000\<rparr>, tk_budget = 3, tk_slots = 3, tk_out = [], tk_dir = []\<rparr>"
  have "drop 1025 long_line = [CHR 0x0A]" by (simp add: long_line_def)
  then have ls: "read_complete_lines 3 1025 (drop 1025 long_line) = ([\<lparr>cl_start = 1025, cl_text = [], cl_next = 1026\<rparr>], False)"
    by (simp add: numeral_3_eq_3 trim_cr_def from_utf8_lossy.simps)
  have "tick_with_budget ?e ?st = read_and_emit ?e (on_tail (\<lambda>t. t\<lparr>ft_backlog := False\<rparr>) ?st)"
    by (rule tick_on_tracked [OF _ _ sample_tracks]) (simp_all add: sample_defs long_line_def)
  also have "tk_out (snd \<dots>) \<noteq> []"
    using ls by (simp add: read_and_emit_def emit_from_handle_def sample_defs on_tail_def Let_def log_line_of_def)
  finally have out: "tk_out st \<noteq> []" using t1 by (auto simp: tick_at_def Let_def split: prod.splits)
  from lines_in_channel_lost_at_stop [OF _ _ sample_tracks _ _ _ _ t1 out t2, of plain_params 0 plain_world]
  have c: "tk_out st @ tk_out st2 @ pending_lines ?e (tk_tail st2) = left_of (\<lambda>_. Some sample_log) long_line sample_handle"
    and x: "xr_sent (snd (serve_logs plain_params 0 plain_world (ShutdownChanged True # map (\<lambda>l. Line l True 0) (tk_out st)))) = []"
    by (simp_all add: sample_defs long_line_def)
  have "length (tk_out st @ tk_out st2 @ pending_lines ?e (tk_tail st2)) = 1" unfolding c by (rule sample_left)
  with x out show ?thesis by blast
qed

end
