(* ===== verification/Redaction.thy ===== *)
theory Redaction
  imports Rust_Text
begin

text \<open>
  Masking of secrets and personal data, \<open>aic-common/src/redaction.rs\<close>, applied to what is sent to a
  model provider and to the collector. The patterns are regular expressions of one shape, a sequence
  of greedy repetitions of character classes and word boundaries; \<open>regex\<close> is a parameter that yields
  the spans of the matches, and \<open>leftmost_first\<close> states the library's documented rule for them. The
  entropy is computed in floating point, so the judgement that a text is too uniform to be a secret
  is a parameter too. A string is handled as its characters, each as the bytes that encode it.
\<close>

type_synonym uchar = str

section \<open>Patterns\<close>

datatype rx_item = Rep "uchar \<Rightarrow> bool" nat "nat option" | WordB

type_synonym rx = "rx_item list"

text \<open>The tables of Unicode above ASCII: decimal digits and word characters.\<close>

record unicode_tables =
  ut_digit :: "uchar \<Rightarrow> bool"
  ut_word :: "uchar \<Rightarrow> bool"

fun ascii_class :: "(nat \<Rightarrow> bool) \<Rightarrow> uchar \<Rightarrow> bool" where
  "ascii_class p [c] = p (byte_val c)"
| "ascii_class p ch = False"

definition a_digit :: "nat \<Rightarrow> bool" where "a_digit v \<longleftrightarrow> 48 \<le> v \<and> v \<le> 57"
definition a_upper :: "nat \<Rightarrow> bool" where "a_upper v \<longleftrightarrow> 65 \<le> v \<and> v \<le> 90"
definition a_lower :: "nat \<Rightarrow> bool" where "a_lower v \<longleftrightarrow> 97 \<le> v \<and> v \<le> 122"

definition one_of :: "str \<Rightarrow> uchar \<Rightarrow> bool" where
  "one_of cs ch \<longleftrightarrow> (\<exists>c\<in>set cs. ch = [c])"

definition letter :: "uchar \<Rightarrow> bool" where
  "letter = ascii_class (\<lambda>v. a_upper v \<or> a_lower v)"

definition alnum :: "uchar \<Rightarrow> bool" where
  "alnum = ascii_class (\<lambda>v. a_digit v \<or> a_upper v \<or> a_lower v)"

definition space :: "uchar \<Rightarrow> bool" where
  "space ch \<longleftrightarrow> one_of ascii_ws ch \<or> ch \<in> set wide_ws"

definition digit :: "unicode_tables \<Rightarrow> uchar \<Rightarrow> bool" where
  "digit ut ch \<longleftrightarrow> (case ch of [c] \<Rightarrow> a_digit (byte_val c) | _ \<Rightarrow> ut_digit ut ch)"

definition word_char :: "unicode_tables \<Rightarrow> uchar \<Rightarrow> bool" where
  "word_char ut ch \<longleftrightarrow> (case ch of [c] \<Rightarrow> alnum ch \<or> c = CHR ''_'' | _ \<Rightarrow> ut_word ut ch)"

abbreviation lit :: "u8 \<Rightarrow> rx_item" where
  "lit c \<equiv> Rep (one_of [c]) 1 (Some 1)"

abbreviation rx_word :: "str \<Rightarrow> rx" where
  "rx_word s \<equiv> map (\<lambda>c. lit c) s"

definition token_char :: "uchar \<Rightarrow> bool" where
  "token_char ch \<longleftrightarrow> alnum ch \<or> one_of ''_-'' ch"

text \<open>Without regard to case a class also holds the two characters that fold to the letters s and k.\<close>

definition bearer_char :: "uchar \<Rightarrow> bool" where
  "bearer_char ch \<longleftrightarrow> alnum ch \<or> one_of ''._~+/=-'' ch \<or> ch = [CHR 0xC5, CHR 0xBF] \<or> ch = [CHR 0xE2, CHR 0x84, CHR 0xAA]"

definition user_char :: "uchar \<Rightarrow> bool" where
  "user_char ch \<longleftrightarrow> \<not> space ch \<and> \<not> one_of '':/@'' ch"

definition sep_char :: "uchar \<Rightarrow> bool" where
  "sep_char ch \<longleftrightarrow> space ch \<or> one_of ''-'' ch"

definition anthropic_rx :: rx where
  "anthropic_rx = rx_word ''sk-ant-'' @ [Rep token_char 32 None]"

definition openai_rx :: rx where
  "openai_rx = rx_word ''sk-'' @ [Rep token_char 32 None]"

definition aws_rx :: rx where
  "aws_rx = rx_word ''AKIA'' @ [Rep (ascii_class (\<lambda>v. a_digit v \<or> a_upper v)) 16 (Some 16)]"

definition github_rx :: rx where
  "github_rx = rx_word ''gh'' @ [Rep (one_of ''pousr'') 1 (Some 1), lit (CHR ''_''),
     Rep (\<lambda>ch. alnum ch \<or> one_of ''_'' ch) 36 None]"

definition jwt_rx :: rx where
  "jwt_rx = rx_word ''eyJ'' @ [Rep token_char 1 None, lit (CHR ''.''), Rep token_char 1 None, lit (CHR ''.''),
     Rep token_char 1 None]"

definition conn_rx :: rx where
  "conn_rx = [Rep letter 1 (Some 1), Rep (\<lambda>ch. alnum ch \<or> one_of ''+.-'' ch) 0 None] @ rx_word ''://'' @
     [Rep user_char 1 None, lit (CHR '':''), Rep user_char 1 None, lit (CHR ''@''),
      Rep (\<lambda>ch. \<not> space ch \<and> \<not> one_of ''/'' ch) 1 None]"

definition bearer_rx :: rx where
  "bearer_rx = [Rep (one_of ''bB'') 1 (Some 1), Rep (one_of ''eE'') 1 (Some 1), Rep (one_of ''aA'') 1 (Some 1),
     Rep (one_of ''rR'') 1 (Some 1), Rep (one_of ''eE'') 1 (Some 1), Rep (one_of ''rR'') 1 (Some 1),
     Rep space 1 None, Rep bearer_char 16 None]"

definition rrn_rx :: "unicode_tables \<Rightarrow> rx" where
  "rrn_rx ut = [WordB, Rep (digit ut) 6 (Some 6), Rep (one_of ''-'') 0 (Some 1), Rep (one_of ''1234'') 1 (Some 1),
     Rep (digit ut) 6 (Some 6), WordB]"

definition email_rx :: rx where
  "email_rx = [Rep (\<lambda>ch. alnum ch \<or> one_of ''._%+-'' ch) 1 None, lit (CHR ''@''),
     Rep (\<lambda>ch. alnum ch \<or> one_of ''.-'' ch) 1 None, lit (CHR ''.''), Rep letter 2 None]"

definition phone_rx :: "unicode_tables \<Rightarrow> rx" where
  "phone_rx ut = [WordB, lit (CHR ''0''), lit (CHR ''1''), Rep (one_of ''016789'') 1 (Some 1),
     Rep sep_char 0 (Some 1), Rep (digit ut) 3 (Some 4), Rep sep_char 0 (Some 1), Rep (digit ut) 4 (Some 4), WordB]"

definition ipv4_rx :: "unicode_tables \<Rightarrow> rx" where
  "ipv4_rx ut = [WordB, Rep (digit ut) 1 (Some 3), lit (CHR ''.''), Rep (digit ut) 1 (Some 3), lit (CHR ''.''),
     Rep (digit ut) 1 (Some 3), lit (CHR ''.''), Rep (digit ut) 1 (Some 3), WordB]"

record pattern =
  pt_name :: str
  pt_rx :: rx
  pt_secret :: bool

definition patterns :: "unicode_tables \<Rightarrow> pattern list" where
  "patterns ut =
    [\<lparr>pt_name = ''anthropic_key'', pt_rx = anthropic_rx, pt_secret = True\<rparr>,
     \<lparr>pt_name = ''openai_key'', pt_rx = openai_rx, pt_secret = True\<rparr>,
     \<lparr>pt_name = ''aws_key'', pt_rx = aws_rx, pt_secret = True\<rparr>,
     \<lparr>pt_name = ''github_token'', pt_rx = github_rx, pt_secret = True\<rparr>,
     \<lparr>pt_name = ''jwt_token'', pt_rx = jwt_rx, pt_secret = True\<rparr>,
     \<lparr>pt_name = ''conn_string'', pt_rx = conn_rx, pt_secret = False\<rparr>,
     \<lparr>pt_name = ''bearer_token'', pt_rx = bearer_rx, pt_secret = False\<rparr>,
     \<lparr>pt_name = ''kr_rrn'', pt_rx = rrn_rx ut, pt_secret = False\<rparr>,
     \<lparr>pt_name = ''email'', pt_rx = email_rx, pt_secret = False\<rparr>,
     \<lparr>pt_name = ''kr_phone'', pt_rx = phone_rx ut, pt_secret = False\<rparr>,
     \<lparr>pt_name = ''ipv4'', pt_rx = ipv4_rx ut, pt_secret = False\<rparr>]"

section \<open>Redaction\<close>

type_synonym spans = "(nat \<times> nat) list"
type_synonym counts = "(str \<times> nat) list"

definition seg :: "nat \<Rightarrow> nat \<Rightarrow> 'a list \<Rightarrow> 'a list" where
  "seg p e cs = take (e - p) (drop p cs)"

definition placeholder :: "str \<Rightarrow> uchar list" where
  "placeholder name = map (\<lambda>c. [c]) (''[REDACTED:'' @ name @ '']'')"

text \<open>\<open>replace_all\<close> with the closure of the source: what is kept and how many matches were masked.\<close>

fun replace_all :: "(str \<Rightarrow> bool) \<Rightarrow> pattern \<Rightarrow> uchar list \<Rightarrow> nat \<Rightarrow> spans \<Rightarrow> uchar list \<times> nat" where
  "replace_all low pt cs pos [] = (drop pos cs, 0)"
| "replace_all low pt cs pos ((s, e) # ms) =
     (let matched = seg s e cs; (rest, n) = replace_all low pt cs e ms in
      if pt_secret pt \<and> low (concat matched) then (seg pos s cs @ matched @ rest, n)
      else (seg pos s cs @ placeholder (pt_name pt) @ rest, Suc n))"

definition apply_pattern ::
  "(rx \<Rightarrow> uchar list \<Rightarrow> spans) \<Rightarrow> (str \<Rightarrow> bool) \<Rightarrow> uchar list \<times> counts \<Rightarrow> pattern \<Rightarrow> uchar list \<times> counts" where
  "apply_pattern regex low st pt =
     (let (current, counts) = st; (new, n) = replace_all low pt current 0 (regex (pt_rx pt) current)
      in (new, if 0 < n then counts @ [(pt_name pt, n)] else counts))"

definition redact :: "unicode_tables \<Rightarrow> (rx \<Rightarrow> uchar list \<Rightarrow> spans) \<Rightarrow> (str \<Rightarrow> bool) \<Rightarrow> str \<Rightarrow> str \<times> counts" where
  "redact ut regex low s =
     (let hits = filter (\<lambda>pt. regex (pt_rx pt) (chars s) \<noteq> []) (patterns ut)
      in if hits = [] then (s, [])
         else let (current, counts) = foldl (apply_pattern regex low) (chars s, []) hits in (concat current, counts))"

text \<open>The implementation before the pre-filter, kept by the source as the reference of its tests.\<close>

definition redact_legacy :: "unicode_tables \<Rightarrow> (rx \<Rightarrow> uchar list \<Rightarrow> spans) \<Rightarrow> (str \<Rightarrow> bool) \<Rightarrow> str \<Rightarrow> str \<times> counts" where
  "redact_legacy ut regex low s =
     (let (current, counts) = foldl (apply_pattern regex low) (chars s, []) (patterns ut) in (concat current, counts))"

definition report_total :: "counts \<Rightarrow> nat" where
  "report_total cs = sum_list (map snd cs)"

section \<open>Leftmost-first matching\<close>

text \<open>
  What the regex library documents: a search yields the match that starts first, a greedy repetition
  prefers more characters and gives them back one at a time, and iteration resumes where the last match
  ended. No pattern above matches the empty text, so the iteration always advances.
\<close>

fun first_some :: "'a option list \<Rightarrow> 'a option" where
  "first_some [] = None"
| "first_some (Some x # os) = Some x"
| "first_some (None # os) = first_some os"

definition word_at :: "unicode_tables \<Rightarrow> uchar list \<Rightarrow> nat \<Rightarrow> bool" where
  "word_at ut cs p \<longleftrightarrow> p < length cs \<and> word_char ut (cs ! p)"

definition boundary :: "unicode_tables \<Rightarrow> uchar list \<Rightarrow> nat \<Rightarrow> bool" where
  "boundary ut cs p \<longleftrightarrow> (0 < p \<and> word_at ut cs (p - 1)) \<noteq> word_at ut cs p"

definition run :: "(uchar \<Rightarrow> bool) \<Rightarrow> nat option \<Rightarrow> uchar list \<Rightarrow> nat" where
  "run c hi cs = (let n = length (takeWhile c cs) in case hi of None \<Rightarrow> n | Some h \<Rightarrow> min h n)"

fun rx_match :: "unicode_tables \<Rightarrow> uchar list \<Rightarrow> rx \<Rightarrow> nat \<Rightarrow> nat option" where
  "rx_match ut cs [] p = Some p"
| "rx_match ut cs (WordB # r) p = (if boundary ut cs p then rx_match ut cs r p else None)"
| "rx_match ut cs (Rep c lo hi # r) p =
     first_some (map (\<lambda>k. rx_match ut cs r (p + k)) (rev [lo..<Suc (run c hi (drop p cs))]))"

definition rx_find_at :: "unicode_tables \<Rightarrow> rx \<Rightarrow> uchar list \<Rightarrow> nat \<Rightarrow> (nat \<times> nat) option" where
  "rx_find_at ut r cs start =
     first_some (map (\<lambda>s. map_option (Pair s) (rx_match ut cs r s)) [start..<Suc (length cs)])"

function rx_find_from :: "unicode_tables \<Rightarrow> rx \<Rightarrow> uchar list \<Rightarrow> nat \<Rightarrow> spans" where
  "rx_find_from ut r cs start = (case rx_find_at ut r cs start of
     None \<Rightarrow> []
   | Some (s, e) \<Rightarrow> if start < e \<and> e \<le> length cs then (s, e) # rx_find_from ut r cs e else [])"
  by pat_completeness auto
termination
  by (relation "measure (\<lambda>(ut, r, cs, start). length cs - start)") auto

declare rx_find_from.simps [simp del]

definition leftmost_first :: "unicode_tables \<Rightarrow> (rx \<Rightarrow> uchar list \<Rightarrow> spans) \<Rightarrow> bool" where
  "leftmost_first ut regex \<longleftrightarrow> (\<forall>r\<in>pt_rx ` set (patterns ut). \<forall>cs. regex r cs = rx_find_from ut r cs 0)"

end
