(* ===== verification/Redaction_Safety.thy ===== *)
theory Redaction_Safety
  imports Redaction
begin

text \<open>
  What redaction guarantees: a pattern without word boundaries whose characters exclude the brackets of
  the placeholders finds nothing in the result, because the text between two placeholders is text that
  was there before. From this follow the agreement with the reference implementation and the cases in
  which the pre-filter misses what the reference masks.
\<close>

section \<open>The language of a pattern\<close>

fun plain :: "rx \<Rightarrow> bool" where
  "plain [] = True"
| "plain (WordB # r) = False"
| "plain (Rep c lo hi # r) = plain r"

fun lang :: "rx \<Rightarrow> uchar list \<Rightarrow> bool" where
  "lang [] w \<longleftrightarrow> w = []"
| "lang (WordB # r) w \<longleftrightarrow> False"
| "lang (Rep c lo hi # r) w \<longleftrightarrow> (\<exists>u v. w = u @ v \<and> lo \<le> length u \<and> (case hi of None \<Rightarrow> True | Some h \<Rightarrow> length u \<le> h) \<and>
     (\<forall>x\<in>set u. c x) \<and> lang r v)"

fun classes :: "rx \<Rightarrow> (uchar \<Rightarrow> bool) list" where
  "classes [] = []"
| "classes (WordB # r) = classes r"
| "classes (Rep c lo hi # r) = c # classes r"

fun needed :: "rx \<Rightarrow> (uchar \<Rightarrow> bool) list" where
  "needed [] = []"
| "needed (WordB # r) = needed r"
| "needed (Rep c lo hi # r) = (if 0 < lo then c # needed r else needed r)"

fun min_len :: "rx \<Rightarrow> nat" where
  "min_len [] = 0"
| "min_len (WordB # r) = min_len r"
| "min_len (Rep c lo hi # r) = lo + min_len r"

lemma lang_min_len: "lang r w \<Longrightarrow> min_len r \<le> length w"
proof (induction r w rule: lang.induct)
  case (3 c lo hi r w)
  then obtain u v where w: "w = u @ v" "lo \<le> length u" "lang r v" by auto
  with 3(1) [OF w(3)] show ?case by simp
qed auto

lemma lang_class: "lang r w \<Longrightarrow> x \<in> set w \<Longrightarrow> \<exists>c\<in>set (classes r). c x"
proof (induction r w rule: lang.induct)
  case (3 c lo hi r w)
  then obtain u v where w: "w = u @ v" "\<forall>x\<in>set u. c x" "lang r v" by auto
  with 3(1) [OF w(3)] 3(3) show ?case by auto
qed auto

lemma lang_needed: "lang r w \<Longrightarrow> c \<in> set (needed r) \<Longrightarrow> \<exists>x\<in>set w. c x"
proof (induction r w rule: lang.induct)
  case (3 c' lo hi r w)
  then obtain u v where w: "w = u @ v" "lo \<le> length u" "\<forall>x\<in>set u. c' x" "lang r v" by auto
  show ?case
  proof (cases "c \<in> set (needed r)")
    case True
    with 3(1) [OF w(4)] w(1) show ?thesis by auto
  next
    case False
    with 3 have "c = c'" "0 < lo" by (auto split: if_splits)
    with w(2) have "u \<noteq> []" by auto
    with w \<open>c = c'\<close> show ?thesis by (cases u) auto
  qed
qed auto

lemma first_some_None: "first_some os = None \<longleftrightarrow> (\<forall>o'\<in>set os. o' = None)"
  by (induction os rule: first_some.induct) auto

lemma first_some_Some: "first_some os = Some x \<Longrightarrow> Some x \<in> set os"
  by (induction os rule: first_some.induct) auto

lemma run_take: "k \<le> run c hi cs \<longleftrightarrow> k \<le> length cs \<and> (\<forall>x\<in>set (take k cs). c x) \<and> (case hi of None \<Rightarrow> True | Some h \<Rightarrow> k \<le> h)"
proof -
  have tw: "k \<le> length (takeWhile c cs) \<longleftrightarrow> k \<le> length cs \<and> (\<forall>x\<in>set (take k cs). c x)"
  proof (induction cs arbitrary: k)
    case (Cons a cs)
    then show ?case by (cases k) auto
  qed simp
  then show ?thesis by (auto simp: run_def Let_def split: option.split)
qed

lemma seg_split: "p \<le> q \<Longrightarrow> q \<le> e \<Longrightarrow> seg p q cs @ seg q e cs = seg p e cs"
proof -
  assume le: "p \<le> q" "q \<le> e"
  then have "drop q cs = drop (q - p) (drop p cs)" "e - p = (q - p) + (e - q)" by auto
  then show ?thesis by (simp add: seg_def take_add)
qed

lemma seg_drop: "p \<le> e \<Longrightarrow> seg p e cs @ drop e cs = drop p cs"
proof -
  assume "p \<le> e"
  then have "drop e cs = drop (e - p) (drop p cs)" by simp
  then show ?thesis by (metis append_take_drop_id seg_def)
qed

lemma rx_match_sound:
  "plain r \<Longrightarrow> rx_match ut cs r p = Some e \<Longrightarrow> p \<le> length cs \<Longrightarrow> p \<le> e \<and> e \<le> length cs \<and> lang r (seg p e cs)"
proof (induction r arbitrary: p rule: plain.induct)
  case (3 c lo hi r)
  from first_some_Some [OF 3(3) [simplified]] obtain k where
    k: "lo \<le> k" "k \<le> run c hi (drop p cs)" "rx_match ut cs r (p + k) = Some e" by (auto simp: image_iff)
  then have kr: "k \<le> length cs - p" "\<forall>x\<in>set (take k (drop p cs)). c x" "case hi of None \<Rightarrow> True | Some h \<Rightarrow> k \<le> h"
    by (simp_all add: run_take)
  with 3(1) [OF _ k(3)] 3(2,4) have e: "p + k \<le> e" "e \<le> length cs" "lang r (seg (p + k) e cs)" by auto
  have "seg p e cs = take k (drop p cs) @ seg (p + k) e cs"
    using seg_split [of p "p + k" e cs] e(1) by (simp add: seg_def)
  moreover have "length (take k (drop p cs)) = k" using kr(1) by simp
  ultimately have "lang (Rep c lo hi # r) (seg p e cs)"
    unfolding lang.simps using e(3) k(1) kr(2,3) by metis
  with e show ?case by simp
qed (auto simp: seg_def)

lemma rx_match_complete:
  "plain r \<Longrightarrow> lang r w \<Longrightarrow> drop p cs = w @ z \<Longrightarrow> p \<le> length cs \<Longrightarrow> rx_match ut cs r p \<noteq> None"
proof (induction r arbitrary: p w rule: plain.induct)
  case (3 c lo hi r)
  then obtain u v where uv: "w = u @ v" "lo \<le> length u" "case hi of None \<Rightarrow> True | Some h \<Rightarrow> length u \<le> h"
    "\<forall>x\<in>set u. c x" "lang r v" by auto
  have d: "drop (p + length u) cs = v @ z"
    using 3(4) uv(1) by (metis add.commute append.assoc append_eq_conv_conj drop_drop)
  have len: "p + length u \<le> length cs"
    using arg_cong [OF 3(4), of length] 3(5) uv(1) by simp
  with 3(1) [OF _ uv(5) d len] 3(2) have "rx_match ut cs r (p + length u) \<noteq> None" by simp
  moreover have "length u \<le> run c hi (drop p cs)"
    using uv 3(4) len by (simp add: run_take)
  then have "length u \<in> set (rev [lo..<Suc (run c hi (drop p cs))])" using uv(2) by auto
  ultimately show ?case unfolding rx_match.simps first_some_None by force
qed auto

section \<open>Occurrences\<close>

definition occurs :: "rx \<Rightarrow> uchar list \<Rightarrow> bool" where
  "occurs r cs \<longleftrightarrow> (\<exists>a w b. cs = a @ w @ b \<and> lang r w)"

lemma occurs_infix: "occurs r cs \<Longrightarrow> occurs r (a @ cs @ b)"
  unfolding occurs_def by (metis append.assoc)

lemmas occurs_mono = occurs_infix [where b = "[]", simplified] occurs_infix [where a = "[]", simplified]

lemma occurs_split:
  assumes "occurs r (a @ x # b)" and "\<forall>c\<in>set (classes r). \<not> c x"
  shows "occurs r a \<or> occurs r b"
proof -
  from assms(1) obtain u w v where eq: "a @ x # b = u @ w @ v" and w: "lang r w" by (auto simp: occurs_def)
  have x: "x \<notin> set w" using lang_class [OF w] assms(2) by blast
  consider (left) z where "a = u @ w @ z" | (right) z where "b = z @ w @ v" | (inside) z z' where "w = z @ x # z'"
  proof -
    from eq consider (1) us where "a = u @ us" "us @ x # b = w @ v" | (2) us where "a @ us = u" "x # b = us @ w @ v"
      by (auto simp: append_eq_append_conv2)
    then show thesis
    proof cases
      case 1
      then consider (p) vs where "us = w @ vs" | (q) vs where "us @ vs = w" "x # b = vs @ v"
        by (auto simp: append_eq_append_conv2)
      then show thesis
      proof cases
        case p
        with 1 that(1) show thesis by simp
      next
        case q
        then show thesis
        proof (cases vs)
          case Nil
          with q 1 that(1) show thesis by simp
        next
          case (Cons y ys)
          with q that(3) show thesis by auto
        qed
      qed
    next
      case 2
      then show thesis
      proof (cases us)
        case Nil
        with 2 show thesis using that(3) that(2) [of "[]"] w x by (cases w) (auto simp: that)
      next
        case (Cons y ys)
        with 2 that(2) show thesis by simp
      qed
    qed
  qed
  then show ?thesis
  proof cases
    case left
    then show ?thesis using w unfolding occurs_def by blast
  next
    case right
    then show ?thesis using w unfolding occurs_def by blast
  next
    case inside
    with x show ?thesis by simp
  qed
qed

lemma find_at_None:
  assumes "plain r" and "rx_find_at ut r cs start = None" and "start \<le> length cs"
  shows "\<not> occurs r (drop start cs)"
proof
  assume "occurs r (drop start cs)"
  then obtain a w b where eq: "drop start cs = a @ w @ b" and w: "lang r w" by (auto simp: occurs_def)
  have len: "start + length a \<le> length cs" using arg_cong [OF eq, of length] assms(3) by simp
  have "drop (start + length a) cs = w @ b" using eq by (metis add.commute append_eq_conv_conj drop_drop)
  from rx_match_complete [OF assms(1) w this len, of ut] have "rx_match ut cs r (start + length a) \<noteq> None" .
  moreover have "start + length a \<in> set [start..<Suc (length cs)]" using len by auto
  ultimately show False using assms(2) unfolding rx_find_at_def first_some_None by force
qed

lemma first_some_upt:
  "first_some (map f [a..<b]) = Some x \<Longrightarrow> \<exists>i. a \<le> i \<and> i < b \<and> f i = Some x \<and> (\<forall>j. a \<le> j \<and> j < i \<longrightarrow> f j = None)"
proof (induction "b - a" arbitrary: a)
  case (Suc n)
  then have ab: "a < b" by linarith
  then have up: "[a..<b] = a # [Suc a..<b]" by (simp add: upt_conv_Cons)
  show ?case
  proof (cases "f a")
    case None
    with up Suc.prems have "first_some (map f [Suc a..<b]) = Some x" by simp
    moreover have "n = b - Suc a" using Suc.hyps(2) by linarith
    ultimately obtain i where
      "Suc a \<le> i" "i < b" "f i = Some x" "\<forall>j. Suc a \<le> j \<and> j < i \<longrightarrow> f j = None" using Suc.hyps(1) [of "Suc a"] by blast
    with None show ?thesis by (metis Suc_le_eq le_eq_less_or_eq less_imp_le_nat)
  next
    case (Some y)
    with Suc(3) up ab show ?thesis by auto
  qed
qed simp

lemma find_at_Some:
  assumes "plain r" and "rx_find_at ut r cs start = Some (s, e)"
  shows "start \<le> s \<and> s \<le> e \<and> e \<le> length cs \<and> lang r (seg s e cs) \<and>
    (\<forall>p. start \<le> p \<and> p < s \<longrightarrow> rx_match ut cs r p = None)"
proof -
  from first_some_upt [OF assms(2) [unfolded rx_find_at_def]] obtain i where
    "start \<le> i" "i \<le> length cs" "map_option (Pair i) (rx_match ut cs r i) = Some (s, e)"
    "\<forall>j. start \<le> j \<and> j < i \<longrightarrow> map_option (Pair j) (rx_match ut cs r j) = None" by auto
  with rx_match_sound [OF assms(1), of ut cs s e] show ?thesis by auto
qed

text \<open>No occurrence lies in the gap before the match that is found.\<close>

lemma find_at_gap:
  assumes "plain r" and "needed r \<noteq> []" and "rx_find_at ut r cs start = Some (s, e)"
  shows "\<not> occurs r (seg start s cs)"
proof
  note f = find_at_Some [OF assms(1,3)]
  assume "occurs r (seg start s cs)"
  then obtain a w b where eq: "seg start s cs = a @ w @ b" and w: "lang r w" by (auto simp: occurs_def)
  have "w \<noteq> []" using lang_needed [OF w, of "hd (needed r)"] hd_in_set [OF assms(2)] by fastforce
  then have "0 < length w" by simp
  moreover have "length a + length w \<le> s - start" using arg_cong [OF eq, of length] f by (auto simp: seg_def)
  ultimately have "start + length a < s" by linarith
  moreover have "drop start cs = a @ w @ (b @ drop s cs)" using eq f seg_drop [of start s cs] by (metis append.assoc)
  then have "drop (start + length a) cs = w @ (b @ drop s cs)" by (metis add.commute append_eq_conv_conj drop_drop)
  ultimately show False using rx_match_complete [OF assms(1) w, of "start + length a" cs "b @ drop s cs" ut] f by auto
qed

section \<open>Replacing\<close>

fun ordered :: "nat \<Rightarrow> nat \<Rightarrow> spans \<Rightarrow> bool" where
  "ordered pos n [] = True"
| "ordered pos n ((s, e) # ms) \<longleftrightarrow> pos \<le> s \<and> s \<le> e \<and> e \<le> n \<and> ordered e n ms"

lemma rx_match_bounds: "rx_match ut cs r p = Some e \<Longrightarrow> p \<le> length cs \<Longrightarrow> p \<le> e \<and> e \<le> length cs"
proof (induction ut cs r p arbitrary: e rule: rx_match.induct)
  case (3 ut cs c lo hi r p)
  from first_some_Some [OF 3(2) [unfolded rx_match.simps]] obtain k where
    k: "k \<in> set (rev [lo..<Suc (run c hi (drop p cs))])" "rx_match ut cs r (p + k) = Some e"
    unfolding set_map by (metis (no_types, lifting) imageE)
  then have "k \<le> run c hi (drop p cs)" by auto
  then have "p + k \<le> length cs" using 3(3) k by (simp add: run_take) linarith
  with 3(1) [OF k] show ?case by simp
qed (auto split: if_splits)

lemma find_at_bounds: "rx_find_at ut r cs start = Some (s, e) \<Longrightarrow> start \<le> s \<and> s \<le> e \<and> e \<le> length cs"
  unfolding rx_find_at_def using rx_match_bounds [of ut cs r s e] by (fastforce dest: first_some_upt simp del: upt_Suc)

lemma find_from_ordered: "ordered start (length cs) (rx_find_from ut r cs start)"
proof (induction ut r cs start rule: rx_find_from.induct)
  case (1 ut r cs start)
  then show ?case
    using find_at_bounds [of ut r cs start] by (auto simp: rx_find_from.simps [of ut r cs start] split: option.split)
qed

definition separable :: "unicode_tables \<Rightarrow> rx \<Rightarrow> bool" where
  "separable ut r \<longleftrightarrow> plain r \<and> (\<forall>c\<in>set (classes r). \<not> c ''['' \<and> \<not> c '']'') \<and>
     (\<forall>pt\<in>set (patterns ut). length (''REDACTED:'' @ pt_name pt) < min_len r \<or>
       (\<exists>c\<in>set (needed r). \<forall>x\<in>set (''REDACTED:'' @ pt_name pt). \<not> c [x]))"

lemma separable_body: "separable ut r \<Longrightarrow> pt \<in> set (patterns ut) \<Longrightarrow> \<not> occurs r (map (\<lambda>c. [c]) (''REDACTED:'' @ pt_name pt))"
proof
  assume sep: "separable ut r" "pt \<in> set (patterns ut)" and occ: "occurs r (map (\<lambda>c. [c]) (''REDACTED:'' @ pt_name pt))"
  from occ obtain a w b where eq: "map (\<lambda>c. [c]) (''REDACTED:'' @ pt_name pt) = a @ w @ b" and w: "lang r w"
    unfolding occurs_def by blast
  have "length w \<le> length (''REDACTED:'' @ pt_name pt)" using arg_cong [OF eq, of length] by simp
  with lang_min_len [OF w] sep obtain c where
    c: "c \<in> set (needed r)" "\<forall>x\<in>set (''REDACTED:'' @ pt_name pt). \<not> c [x]"
    unfolding separable_def by fastforce
  from lang_needed [OF w c(1)] obtain x where x: "x \<in> set w" "c x" by blast
  then have "x \<in> set (map (\<lambda>c. [c]) (''REDACTED:'' @ pt_name pt))" unfolding eq by simp
  with c(2) x(2) show False by auto
qed

text \<open>An occurrence beside a placeholder lies before or behind it.\<close>

lemma occurs_placeholder:
  assumes "separable ut r" and "pt \<in> set (patterns ut)" and "occurs r (a @ placeholder (pt_name pt) @ b)"
  shows "occurs r a \<or> occurs r b"
proof -
  let ?body = "map (\<lambda>c. [c]) (''REDACTED:'' @ pt_name pt)"
  have br: "\<forall>c\<in>set (classes r). \<not> c ''[''" "\<forall>c\<in>set (classes r). \<not> c '']''" using assms(1) by (auto simp: separable_def)
  have "a @ placeholder (pt_name pt) @ b = a @ ''['' # (?body @ '']'' # b)" by (simp add: placeholder_def)
  with assms(3) occurs_split [OF _ br(1)] have "occurs r a \<or> occurs r (?body @ '']'' # b)" by metis
  with occurs_split [OF _ br(2)] separable_body [OF assms(1,2)] show ?thesis by blast
qed

text \<open>A pass creates no occurrence, whatever it masks.\<close>

lemma replace_creates_none:
  assumes "separable ut r" and "pt \<in> set (patterns ut)"
  shows "ordered pos (length cs) ms \<Longrightarrow> occurs r (pre @ fst (replace_all low pt cs pos ms)) \<Longrightarrow> occurs r (pre @ drop pos cs)"
proof (induction ms arbitrary: pos pre)
  case (Cons m ms)
  obtain s e where m: "m = (s, e)" by (cases m)
  let ?rest = "fst (replace_all low pt cs e ms)"
  have o: "pos \<le> s" "s \<le> e" "ordered e (length cs) ms" using Cons.prems(1) m by auto
  have tail: "seg pos s cs @ seg s e cs @ drop e cs = drop pos cs" using seg_drop o(1,2) by metis
  show ?case
  proof (cases "pt_secret pt \<and> low (concat (seg s e cs))")
    case True
    with Cons.prems(2) m have "occurs r ((pre @ seg pos s cs @ seg s e cs) @ ?rest)" by (simp add: Let_def split: prod.splits)
    from Cons.IH [OF o(3) this] tail show ?thesis by simp
  next
    case False
    with Cons.prems(2) m have "occurs r ((pre @ seg pos s cs) @ placeholder (pt_name pt) @ ?rest)"
      by (simp add: Let_def split: prod.splits)
    from occurs_placeholder [OF assms this] show ?thesis
    proof
      assume "occurs r (pre @ seg pos s cs)"
      from occurs_mono(2) [OF this, of "seg s e cs @ drop e cs"] tail show ?thesis by simp
    next
      assume "occurs r ?rest"
      with Cons.IH [OF o(3), of "[]"] have "occurs r (drop e cs)" by simp
      from occurs_mono(1) [OF this, of "pre @ seg pos s cs @ seg s e cs"] tail show ?thesis by simp
    qed
  qed
qed simp

text \<open>The pass of the pattern itself leaves none.\<close>

lemma replace_removes_all:
  assumes "separable ut r" and "pt \<in> set (patterns ut)" and "pt_secret pt \<Longrightarrow> \<forall>s. \<not> low s" and "needed r \<noteq> []"
  shows "pos \<le> length cs \<Longrightarrow> \<not> occurs r (fst (replace_all low pt cs pos (rx_find_from ut r cs pos)))"
proof (induction "length cs - pos" arbitrary: pos rule: less_induct)
  case less
  have pl: "plain r" using assms(1) by (simp add: separable_def)
  show ?case
  proof (cases "rx_find_at ut r cs pos")
    case None
    with find_at_None [OF pl None less(2)] show ?thesis by (simp add: rx_find_from.simps [of ut r cs pos])
  next
    case (Some se)
    obtain s e where se: "rx_find_at ut r cs pos = Some (s, e)" using Some by (cases se) simp
    note f = find_at_Some [OF pl se]
    from f lang_needed [of r "seg s e cs" "hd (needed r)"] hd_in_set [OF assms(4)] have "seg s e cs \<noteq> []" by force
    then have lt: "s < e" by (auto simp: seg_def)
    with f have e: "pos < e" "e \<le> length cs" by auto
    have low: "\<not> (pt_secret pt \<and> low (concat (seg s e cs)))" using assms(3) by blast
    let ?rest = "fst (replace_all low pt cs e (rx_find_from ut r cs e))"
    have "fst (replace_all low pt cs pos (rx_find_from ut r cs pos)) = seg pos s cs @ placeholder (pt_name pt) @ ?rest"
      using se e low by (auto simp: rx_find_from.simps [of ut r cs pos] Let_def split: prod.split)
    moreover have "\<not> occurs r (seg pos s cs)" by (rule find_at_gap [OF pl assms(4) se])
    moreover have "\<not> occurs r ?rest" using less(1) [of e] e by auto
    ultimately show ?thesis using occurs_placeholder [OF assms(1,2)] by metis
  qed
qed

section \<open>Which patterns this holds for\<close>

lemmas class_defs = one_of_def alnum_def letter_def a_digit_def a_upper_def a_lower_def token_char_def space_def
  bearer_char_def ascii_ws_def wide_ws_def

lemma separable_patterns:
  "separable ut anthropic_rx" "separable ut openai_rx" "separable ut aws_rx" "separable ut github_rx"
  "separable ut jwt_rx" "separable ut bearer_rx" "separable ut email_rx"
  by (simp_all add: separable_def patterns_def class_defs
      anthropic_rx_def openai_rx_def aws_rx_def github_rx_def jwt_rx_def bearer_rx_def email_rx_def)

lemma separable_needed: "separable ut r \<Longrightarrow> needed r \<noteq> []"
proof
  assume sep: "separable ut r" "needed r = []"
  then have "min_len r = 0" by (induction r rule: min_len.induct) (auto simp: separable_def split: if_splits)
  with sep show False by (auto simp: separable_def patterns_def)
qed

lemma separable_no_empty: "separable ut r \<Longrightarrow> \<not> occurs r []"
  using lang_needed [of r "[]" "hd (needed r)"] separable_needed [of ut r] by (auto simp: occurs_def)

lemma regex_find: "leftmost_first ut regex \<Longrightarrow> pt \<in> set (patterns ut) \<Longrightarrow> regex (pt_rx pt) cs = rx_find_from ut (pt_rx pt) cs 0"
  by (simp add: leftmost_first_def)

lemma find_from_Nil_iff:
  assumes "separable ut r"
  shows "rx_find_from ut r cs 0 = [] \<longleftrightarrow> \<not> occurs r cs"
proof -
  have pl: "plain r" and nd: "needed r \<noteq> []" using assms separable_needed by (auto simp: separable_def)
  show ?thesis
  proof (cases "rx_find_at ut r cs 0")
    case None
    with find_at_None [OF pl None] show ?thesis by (simp add: rx_find_from.simps [of ut r cs 0])
  next
    case (Some se)
    obtain s e where se: "rx_find_at ut r cs 0 = Some (s, e)" using Some by (cases se) simp
    note f = find_at_Some [OF pl se]
    from f lang_needed [of r "seg s e cs" "hd (needed r)"] hd_in_set [OF nd] have "seg s e cs \<noteq> []" by force
    then have "0 < e" using f by (auto simp: seg_def)
    moreover have "cs = seg 0 s cs @ seg s e cs @ drop e cs" using f seg_drop [of s e cs] seg_drop [of 0 s cs] by simp
    then have "occurs r cs" using f unfolding occurs_def by blast
    ultimately show ?thesis using se f by (simp add: rx_find_from.simps [of ut r cs 0])
  qed
qed

lemma fst_apply_pattern:
  "fst (apply_pattern regex low st pt) = fst (replace_all low pt (fst st) 0 (regex (pt_rx pt) (fst st)))"
  by (cases st) (simp add: apply_pattern_def Let_def split: prod.split)

lemma passes_create_none:
  assumes "leftmost_first ut regex" and "separable ut r"
  shows "set ps \<subseteq> set (patterns ut) \<Longrightarrow> occurs r (fst (foldl (apply_pattern regex low) st ps)) \<Longrightarrow> occurs r (fst st)"
proof (induction ps arbitrary: st)
  case (Cons pt ps)
  then have "occurs r (fst (apply_pattern regex low st pt))" by simp
  moreover have pt: "pt \<in> set (patterns ut)" using Cons.prems(1) by simp
  ultimately have "occurs r (fst (replace_all low pt (fst st) 0 (rx_find_from ut (pt_rx pt) (fst st) 0)))"
    by (simp add: fst_apply_pattern regex_find [OF assms(1)])
  with replace_creates_none [OF assms(2) pt find_from_ordered, where pre = "[]" and pos = 0] show ?case
    by (metis append_Nil drop0)
qed simp

lemma passes_remove:
  assumes "leftmost_first ut regex" and "separable ut (pt_rx pt)" and "set ps \<subseteq> set (patterns ut)" and "pt \<in> set ps"
    and "pt_secret pt \<Longrightarrow> \<forall>t. \<not> low t"
  shows "\<not> occurs (pt_rx pt) (fst (foldl (apply_pattern regex low) st ps))"
proof
  assume occ: "occurs (pt_rx pt) (fst (foldl (apply_pattern regex low) st ps))"
  obtain a b where ps: "ps = a @ pt # b" using assms(4) by (auto dest: split_list)
  have pt: "pt \<in> set (patterns ut)" using assms(3,4) by auto
  have "occurs (pt_rx pt) (fst (apply_pattern regex low (foldl (apply_pattern regex low) st a) pt))"
    by (rule passes_create_none [OF assms(1,2), of b]) (use occ assms(3) ps in auto)
  with replace_removes_all [OF assms(2) pt assms(5) separable_needed [OF assms(2)]] show False
    by (simp add: fst_apply_pattern regex_find [OF assms(1) pt])
qed

lemma replace_all_chars: "ordered pos (length cs) ms \<Longrightarrow>
  set (fst (replace_all low pt cs pos ms)) \<subseteq> set cs \<union> set (placeholder (pt_name pt))"
proof (induction ms arbitrary: pos)
  case (Cons m ms)
  have sub: "set (seg p e cs) \<subseteq> set cs" for p e by (auto simp: seg_def dest!: in_set_takeD in_set_dropD)
  obtain s e where "m = (s, e)" by (cases m)
  then have m: "m = (s, e)" "ordered e (length cs) ms" using Cons.prems by auto
  have "set (fst (replace_all low pt cs pos (m # ms))) \<subseteq>
      set (seg pos s cs) \<union> (set (seg s e cs) \<union> set (placeholder (pt_name pt))) \<union> set (fst (replace_all low pt cs e ms))"
    by (auto simp: m(1) Let_def split: prod.split)
  with Cons.IH [OF m(2)] sub [of pos s] sub [of s e] show ?case by blast
qed (auto dest: in_set_dropD)

lemma pattern_names_ascii: "pt \<in> set (patterns ut) \<Longrightarrow> u \<in> set (placeholder (pt_name pt)) \<Longrightarrow> is_char u"
  by (auto simp: patterns_def placeholder_def is_char_ascii)

lemma passes_keep_chars:
  assumes "leftmost_first ut regex"
  shows "set ps \<subseteq> set (patterns ut) \<Longrightarrow> \<forall>u\<in>set (fst st). is_char u \<Longrightarrow>
    \<forall>u\<in>set (fst (foldl (apply_pattern regex low) st ps)). is_char u"
proof (induction ps arbitrary: st)
  case (Cons pt ps)
  have "\<forall>u\<in>set (fst (apply_pattern regex low st pt)). is_char u"
    using replace_all_chars [OF find_from_ordered, of low pt "fst st" 0 ut "pt_rx pt"] Cons.prems pattern_names_ascii [of pt ut]
    by (fastforce simp: fst_apply_pattern regex_find [OF assms])
  with Cons show ?case by simp
qed simp

lemma fst_redact:
  "fst (redact ut regex low s) = concat (fst (foldl (apply_pattern regex low) (chars s, [])
     (filter (\<lambda>pt. regex (pt_rx pt) (chars s) \<noteq> []) (patterns ut))))"
  by (simp add: redact_def Let_def concat_chars split: prod.split)

lemma redact_removes:
  assumes "leftmost_first ut regex" and "utf8_valid s" and "pt \<in> set (patterns ut)" and "separable ut (pt_rx pt)"
    and "pt_secret pt \<Longrightarrow> \<forall>t. \<not> low t"
  shows "\<not> occurs (pt_rx pt) (chars (fst (redact ut regex low s)))"
proof -
  let ?hits = "filter (\<lambda>pt. regex (pt_rx pt) (chars s) \<noteq> []) (patterns ut)"
  let ?cur = "fst (foldl (apply_pattern regex low) (chars s, []) ?hits)"
  have sub: "set ?hits \<subseteq> set (patterns ut)" by auto
  have "chars (fst (redact ut regex low s)) = ?cur"
    unfolding fst_redact
    by (rule chars_concat) (use passes_keep_chars [OF assms(1) sub, of "(chars s, [])"] chars_valid [OF assms(2)] in auto)
  moreover have "\<not> occurs (pt_rx pt) ?cur"
  proof (cases "pt \<in> set ?hits")
    case True
    from passes_remove [OF assms(1,4) sub True assms(5)] show ?thesis .
  next
    case False
    then have "\<not> occurs (pt_rx pt) (chars s)"
      using assms(3) by (simp add: regex_find [OF assms(1,3)] find_from_Nil_iff [OF assms(4)])
    with passes_create_none [OF assms(1,4) sub] show ?thesis by fastforce
  qed
  ultimately show ?thesis by simp
qed

section \<open>Properties\<close>


lemma apply_pattern_miss: "regex (pt_rx pt) (fst st) = [] \<Longrightarrow> apply_pattern regex low st pt = st"
  by (cases st) (simp add: apply_pattern_def)

lemma skipping_misses:
  assumes "\<forall>n<length ps. regex (pt_rx (ps ! n)) cs = [] \<longrightarrow>
    regex (pt_rx (ps ! n)) (fst (foldl (apply_pattern regex low) (cs, []) (take n ps))) = []"
  shows "foldl (apply_pattern regex low) (cs, []) (filter (\<lambda>pt. regex (pt_rx pt) cs \<noteq> []) ps) = foldl (apply_pattern regex low) (cs, []) ps"
  using assms
proof (induction ps rule: rev_induct)
  case (snoc pt ps)
  have hyp: "regex (pt_rx (ps ! n)) (fst (foldl (apply_pattern regex low) (cs, []) (take n ps))) = []"
    if "n < length ps" "regex (pt_rx (ps ! n)) cs = []" for n
    using snoc.prems that by (auto simp: nth_append dest: spec [of _ n])
  show ?case
  proof (cases "regex (pt_rx pt) cs = []")
    case True
    with snoc.prems have "regex (pt_rx pt) (fst (foldl (apply_pattern regex low) (cs, []) ps)) = []"
      by (auto simp: nth_append dest: spec [of _ "length ps"])
    with True snoc.IH hyp show ?thesis by (simp add: apply_pattern_miss)
  next
    case False
    with snoc.IH hyp show ?thesis by simp
  qed
qed simp

text \<open>
  C39 (equivalence). For any engine that keeps the leftmost-first rule, the pre-filtered redaction returns the text and
  the counts of the reference that runs every pattern in turn, provided that none of the four patterns with a word
  boundary or an open character class finds something in the half-redacted text that it meets although it
  found nothing in the text itself. For the other seven patterns this is proved, not assumed. The proviso cannot be
  dropped: \<open>prefilter_leaks_phone_number\<close> is a text for which it fails and the two differ.
\<close>

theorem redact_agrees_with_reference:
  assumes "leftmost_first ut regex"
    and "\<forall>n\<in>{5, 7, 9, 10}. regex (pt_rx (patterns ut ! n)) (chars s) = [] \<longrightarrow>
      regex (pt_rx (patterns ut ! n)) (fst (foldl (apply_pattern regex low) (chars s, []) (take n (patterns ut)))) = []"
  shows "redact ut regex low s = redact_legacy ut regex low s"
proof -
  let ?P = "patterns ut" and ?cur = "\<lambda>n. fst (foldl (apply_pattern regex low) (chars s, []) (take n (patterns ut)))"
  have len: "length ?P = 11" by (simp add: patterns_def)
  have "regex (pt_rx (?P ! n)) (?cur n) = []" if n: "n < 11" "regex (pt_rx (?P ! n)) (chars s) = []" for n
  proof (cases "n \<in> {5, 7, 9, 10}")
    case True
    with assms(2) n(2) show ?thesis by blast
  next
    case False
    with n(1) have "n \<in> {0, 1, 2, 3, 4, 6, 8}" by simp presburger
    then have sep: "separable ut (pt_rx (?P ! n))" using separable_patterns [of ut] by (auto simp: patterns_def)
    have pt: "?P ! n \<in> set ?P" using n(1) len by simp
    from n(2) have "\<not> occurs (pt_rx (?P ! n)) (chars s)"
      by (simp add: regex_find [OF assms(1) pt] find_from_Nil_iff [OF sep])
    with passes_create_none [OF assms(1) sep, of "take n ?P" low "(chars s, [])"] set_take_subset [of n ?P]
    have "\<not> occurs (pt_rx (?P ! n)) (?cur n)" by auto
    then show ?thesis by (simp add: regex_find [OF assms(1) pt] find_from_Nil_iff [OF sep])
  qed
  then have "foldl (apply_pattern regex low) (chars s, []) (filter (\<lambda>pt. regex (pt_rx pt) (chars s) \<noteq> []) ?P)
      = foldl (apply_pattern regex low) (chars s, []) ?P"
    by (intro skipping_misses) (simp add: len)
  then show ?thesis by (auto simp: redact_def redact_legacy_def Let_def concat_chars split: prod.splits)
qed

lemma passes_cong:
  assumes "leftmost_first ut regex"
  shows "set ps \<subseteq> set (patterns ut) \<Longrightarrow>
    foldl (apply_pattern regex low) st ps = foldl (apply_pattern (\<lambda>r cs. rx_find_from ut r cs 0) low) st ps"
proof (induction ps arbitrary: st)
  case (Cons pt ps)
  then have "apply_pattern regex low st pt = apply_pattern (\<lambda>r cs. rx_find_from ut r cs 0) low st pt"
    by (simp add: apply_pattern_def regex_find [OF assms])
  with Cons show ?case by simp
qed simp

lemma redact_cong:
  assumes "leftmost_first ut regex"
  shows "redact ut regex low s = redact ut (\<lambda>r cs. rx_find_from ut r cs 0) low s"
    and "redact_legacy ut regex low s = redact_legacy ut (\<lambda>r cs. rx_find_from ut r cs 0) low s"
proof -
  have "filter (\<lambda>pt. regex (pt_rx pt) (chars s) \<noteq> []) (patterns ut) = filter (\<lambda>pt. rx_find_from ut (pt_rx pt) (chars s) 0 \<noteq> []) (patterns ut)"
    by (rule filter_cong) (simp_all add: regex_find [OF assms])
  moreover have "set (filter q (patterns ut)) \<subseteq> set (patterns ut)" for q by auto
  ultimately show "redact ut regex low s = redact ut (\<lambda>r cs. rx_find_from ut r cs 0) low s"
    unfolding redact_def Let_def using passes_cong [OF assms] by metis
  show "redact_legacy ut regex low s = redact_legacy ut (\<lambda>r cs. rx_find_from ut r cs 0) low s"
    unfolding redact_legacy_def using passes_cong [OF assms order_refl] by simp
qed

text \<open>
  Further property (error). A text on which the pre-filter misses a telephone number: it stands directly behind an
  e-mail address, where no word boundary precedes it, so it is sent in the clear, while the reference, which looks
  again after the address was masked, masks both.
\<close>

theorem prefilter_leaks_phone_number:
  assumes "leftmost_first ut regex"
  shows "redact ut regex low ''a@b.cc0101234567'' = (''[REDACTED:email]0101234567'', [(''email'', 1)]) \<and>
    redact_legacy ut regex low ''a@b.cc0101234567''
      = (''[REDACTED:email][REDACTED:kr_phone]'', [(''email'', 1), (''kr_phone'', 1)])"
proof -
  have "redact ut (\<lambda>r cs. rx_find_from ut r cs 0) low ''a@b.cc0101234567'' = (''[REDACTED:email]0101234567'', [(''email'', 1)])"
    by code_simp
  moreover have "redact_legacy ut (\<lambda>r cs. rx_find_from ut r cs 0) low ''a@b.cc0101234567''
      = (''[REDACTED:email][REDACTED:kr_phone]'', [(''email'', 1), (''kr_phone'', 1)])"
    by code_simp
  ultimately show ?thesis using redact_cong [OF assms] by simp
qed

section \<open>Witnesses\<close>

definition no_tables :: unicode_tables where
  "no_tables = \<lparr>ut_digit = (\<lambda>_. False), ut_word = (\<lambda>_. False)\<rparr>"

definition ref_regex :: "rx \<Rightarrow> uchar list \<Rightarrow> spans" where
  "ref_regex r cs = rx_find_from no_tables r cs 0"

lemma ref_regex_leftmost_first: "leftmost_first no_tables ref_regex"
  by (simp add: leftmost_first_def ref_regex_def)


theorem redact_agrees_with_reference_witness:
  "redact no_tables ref_regex (\<lambda>_. False) ''mail a@b.cc'' = redact_legacy no_tables ref_regex (\<lambda>_. False) ''mail a@b.cc''"
proof (rule redact_agrees_with_reference [OF ref_regex_leftmost_first])
  let ?cur = "\<lambda>n. fst (foldl (apply_pattern ref_regex (\<lambda>_. False)) (chars ''mail a@b.cc'', []) (take n (patterns no_tables)))"
  have "ref_regex (pt_rx (patterns no_tables ! 5)) (?cur 5) = []" by code_simp
  moreover have "ref_regex (pt_rx (patterns no_tables ! 7)) (?cur 7) = []" by code_simp
  moreover have "ref_regex (pt_rx (patterns no_tables ! 9)) (?cur 9) = []" by code_simp
  moreover have "ref_regex (pt_rx (patterns no_tables ! 10)) (?cur 10) = []" by code_simp
  ultimately show "\<forall>n\<in>{5, 7, 9, 10}. ref_regex (pt_rx (patterns no_tables ! n)) (chars ''mail a@b.cc'') = [] \<longrightarrow>
      ref_regex (pt_rx (patterns no_tables ! n)) (?cur n) = []" by blast
qed

theorem prefilter_leaks_phone_number_witness:
  "fst (redact no_tables ref_regex (\<lambda>_. True) ''a@b.cc0101234567'') = ''[REDACTED:email]0101234567''"
  using prefilter_leaks_phone_number [OF ref_regex_leftmost_first] by simp

end
