(* ===== verification/Logs_Privacy.thy ===== *)
theory Logs_Privacy
  imports Logs_Proto Redaction_Safety
begin

text \<open>
  What leaves the host in a log message: every text an encoder puts into a request went through the
  redaction, network addresses apart, so the guarantees of the redaction carry over to the wire; and
  how a long line is cut.
\<close>

section \<open>Every text is redacted\<close>

definition address_keys :: "str list" where
  "address_keys = [''network.local.address'', ''network.peer.address'', ''host.ip'', ''dns.answers'']"

definition value_text :: "any_value option \<Rightarrow> str option" where
  "value_text v = (case v of Some a \<Rightarrow> (case av_value a of Some (StringValue s) \<Rightarrow> Some s | _ \<Rightarrow> None) | None \<Rightarrow> None)"

definition kv_clean :: "proto_lib \<Rightarrow> key_value \<Rightarrow> bool" where
  "kv_clean lib kv \<longleftrightarrow> kv_key kv \<in> range (pl_redact lib) \<and>
     (\<forall>s. value_text (kv_value kv) = Some s \<longrightarrow> s \<in> range (pl_redact lib) \<or> kv_key kv \<in> pl_redact lib ` set address_keys)"

definition record_clean :: "proto_lib \<Rightarrow> log_record \<Rightarrow> bool" where
  "record_clean lib r \<longleftrightarrow> lr_severity_text r \<in> range (pl_redact lib) \<and>
     (\<forall>s. value_text (lr_body r) = Some s \<longrightarrow> s \<in> range (pl_redact lib)) \<and> (\<forall>kv\<in>set (lr_attributes r). kv_clean lib kv)"

definition scope_clean :: "proto_lib \<Rightarrow> scope_logs \<Rightarrow> bool" where
  "scope_clean lib g \<longleftrightarrow> (\<forall>r\<in>set (sg_log_records g). record_clean lib r) \<and> sg_schema_url g = [] \<and>
     (\<forall>sc. sg_scope g = Some sc \<longrightarrow> is_name sc \<in> range (pl_redact lib) \<and> is_version sc \<in> range (pl_redact lib) \<and>
        (\<forall>kv\<in>set (is_attributes sc). kv_clean lib kv))"

definition request_clean :: "proto_lib \<Rightarrow> export_logs_service_request \<Rightarrow> bool" where
  "request_clean lib rq \<longleftrightarrow> (\<forall>g\<in>set (rq_resource_logs rq). rg_schema_url g = [] \<and>
     (\<forall>re. rg_resource g = Some re \<longrightarrow> (\<forall>kv\<in>set (re_attributes re). kv_clean lib kv)) \<and>
     (\<forall>sg\<in>set (rg_scope_logs g). scope_clean lib sg))"

definition clean_body :: "proto_lib \<Rightarrow> bytes \<Rightarrow> bool" where
  "clean_body lib bs \<longleftrightarrow> (\<exists>rq. bs = pl_encode lib rq \<and> request_clean lib rq)"

lemma attr_clean [simp]:
  "kv_clean lib (attr_str lib k v)" "kv_clean lib (attr_int lib k i)" "kv_clean lib (attr_bool lib k b)"
  "kv_clean lib (attr_double lib k d)" "k \<in> set address_keys \<Longrightarrow> kv_clean lib (attr_addr lib k v)"
  by (simp_all add: kv_clean_def attr_str_def attr_int_def attr_bool_def attr_double_def attr_addr_def
      value_text_def string_value_def)

lemma opt_attr_clean [simp]: "Ball (set (opt_attr f v)) (kv_clean lib) \<longleftrightarrow> (\<forall>x. v = Some x \<longrightarrow> kv_clean lib (f x))"
  by (cases v) (simp_all add: opt_attr_def)

lemma value_text_string [simp]: "value_text (Some (string_value lib s)) = Some (pl_redact lib s)" "value_text None = None"
  by (simp_all add: value_text_def string_value_def)

lemma log_rec_clean:
  "(\<And>s. value_text body = Some s \<Longrightarrow> s \<in> range (pl_redact lib)) \<Longrightarrow> \<forall>kv\<in>set attrs. kv_clean lib kv \<Longrightarrow>
   record_clean lib (log_rec lib t obs sev sev_text body attrs)"
  by (simp add: record_clean_def log_rec_def)

lemma build_request_clean: "\<forall>r\<in>set rs. record_clean lib r \<Longrightarrow> clean_body lib (build_request lib res name ver rs)"
  unfolding clean_body_def build_request_def Let_def
  by (rule exI, rule conjI, rule refl)
    (simp add: request_clean_def scope_clean_def ball_Un address_keys_def)

lemma encoders_clean:
  "clean_body lib (encode_agent_event lib ev res ver t obs) \<and>
   clean_body lib (encode_command_event lib ce res ver t) \<and>
   clean_body lib (encode_connections lib cns res ver t) \<and>
   clean_body lib (encode_dns_observations lib ds res ver t) \<and>
   clean_body lib (encode_process_samples lib ps res ver t) \<and>
   clean_body lib (encode_process_inventory_changes lib ics sq kf prev res ver t) \<and>
   clean_body lib (encode_changes lib chs res ver t) \<and>
   clean_body lib (encode_query_digests lib sample res ver) \<and>
   clean_body lib (encode_log_line lib ls res ver)"
proof (intro conjI)
  show "clean_body lib (encode_agent_event lib ev res ver t obs)"
    by (auto simp: encode_agent_event_def Let_def intro!: build_request_clean log_rec_clean split: prod.split)
  show "clean_body lib (encode_command_event lib ce res ver t)"
    by (auto simp: encode_command_event_def Let_def intro!: build_request_clean log_rec_clean split: prod.split)
  have "record_clean lib (connection_record lib t c)" for c
    unfolding connection_record_def by (rule log_rec_clean) (simp_all add: ball_Un address_keys_def)
  then show "clean_body lib (encode_connections lib cns res ver t)"
    by (simp add: encode_connections_def build_request_clean)
  have "record_clean lib (dns_record lib t d)" for d
    unfolding dns_record_def by (rule log_rec_clean) (simp_all add: ball_Un address_keys_def)
  then show "clean_body lib (encode_dns_observations lib ds res ver t)"
    by (simp add: encode_dns_observations_def build_request_clean)
  have "record_clean lib (process_record lib t p)" for p
    unfolding process_record_def by (rule log_rec_clean) (auto simp: ball_Un)
  then show "clean_body lib (encode_process_samples lib ps res ver t)"
    by (simp add: encode_process_samples_def build_request_clean)
  have "record_clean lib (inventory_record lib sq kf prev t c)" for c
    unfolding inventory_record_def by (cases "ic_op c = ''remove''"; rule log_rec_clean; auto simp: ball_Un)
  then show "clean_body lib (encode_process_inventory_changes lib ics sq kf prev res ver t)"
    by (simp add: encode_process_inventory_changes_def build_request_clean)
  have "record_clean lib (change_record lib t c)" for c
    unfolding change_record_def Let_def by (rule log_rec_clean) (simp_all add: ball_Un)
  then show "clean_body lib (encode_changes lib chs res ver t)"
    by (simp add: encode_changes_def build_request_clean)
  have query: "record_clean lib (query_log_record lib t sev body attrs)" if "Ball (set attrs) (kv_clean lib)" for t sev body attrs
    unfolding query_log_record_def by (cases body; rule log_rec_clean; use that in auto)
  have "record_clean lib (statement_record lib sample res report t re)" for report t re
    unfolding statement_record_def by (cases re) (simp add: query query_identity_def ball_Un)
  then show "clean_body lib (encode_query_digests lib sample res ver)"
    by (auto simp: encode_query_digests_def Let_def query query_identity_def ball_Un
        intro!: build_request_clean split: query_digest_outcome.split)
  have "record_clean lib (line_record lib l)" for l
    unfolding line_record_def Let_def
    by (auto intro!: log_rec_clean split: prod.split)
  then show "clean_body lib (encode_log_line lib ls res ver)"
    by (simp add: encode_log_line_def build_request_clean)
qed

text \<open>
  Further property (safety). Every text in every request the encoders build, keys, bodies, severities and scope names
  included, is the result of the redaction, except the value of the four attributes that hold network
  addresses; the fields that are not redacted hold no text. This is the invariant the file's header
  states, for each of the nine signals.
\<close>

theorem exported_texts_redacted:
  "clean_body lib (encode_agent_event lib ev res ver t obs) \<and>
   clean_body lib (encode_command_event lib ce res ver t) \<and>
   clean_body lib (encode_connections lib cns res ver t) \<and>
   clean_body lib (encode_dns_observations lib ds res ver t) \<and>
   clean_body lib (encode_process_samples lib ps res ver t) \<and>
   clean_body lib (encode_process_inventory_changes lib ics sq kf prev res ver t) \<and>
   clean_body lib (encode_changes lib chs res ver t) \<and>
   clean_body lib (encode_query_digests lib sample res ver) \<and>
   clean_body lib (encode_log_line lib ls res ver)"
  by (rule encoders_clean)

section \<open>Cutting long lines\<close>

lemma unit_continuation: "snd (utf8_unit s) \<Longrightarrow> 0 < i \<Longrightarrow> i < fst (utf8_unit s) \<Longrightarrow> is_cont (byte_val (s ! i))"
proof (cases s)
  case (Cons b r)
  assume u: "snd (utf8_unit s)" "0 < i" "i < fst (utf8_unit s)"
  then have "i \<in> {1, 2, 3}" using Cons by (auto simp: Let_def split: if_splits)
  moreover have g: "is_cont (safe_get r j) \<Longrightarrow> is_cont (byte_val (r ! j))" for j
    by (auto simp: safe_get_def is_cont_def split: if_splits)
  ultimately show ?thesis
    using u Cons by (auto simp: Let_def numeral_2_eq_2 numeral_3_eq_3 split: if_splits intro!: g dest!: ok3_cont ok4_cont)
qed simp

lemma unit_le_4: "fst (utf8_unit s) \<le> 4"
  by (cases s) (auto simp: Let_def)

lemma boundary_beyond_unit:
  assumes "utf8_valid s" and "s \<noteq> []" and "is_char_boundary s i" and "0 < i"
  shows "fst (utf8_unit s) \<le> i \<and> is_char_boundary (drop (fst (utf8_unit s)) s) (i - fst (utf8_unit s))"
proof -
  let ?n = "fst (utf8_unit s)"
  have le: "?n \<le> length s" by (rule utf8_unit_le)
  have "\<not> i < ?n"
    using unit_continuation [OF utf8_valid_unit [OF assms(1,2)], of i] assms(3,4) le by (auto simp: is_char_boundary_def)
  then show ?thesis using assms(3) le by (auto simp: is_char_boundary_def)
qed

lemma valid_at_boundary: "utf8_valid s \<Longrightarrow> is_char_boundary s i \<Longrightarrow> utf8_valid (take i s)"
proof (induction s arbitrary: i rule: utf8_valid.induct)
  case (1 s)
  show ?case
  proof (cases "s = [] \<or> i = 0")
    case False
    let ?n = "fst (utf8_unit s)"
    have b: "?n \<le> i" "is_char_boundary (drop ?n s) (i - ?n)" using boundary_beyond_unit [OF 1(2) _ 1(3)] False by auto
    have "take i s = take ?n s @ take (i - ?n) (drop ?n s)" using b(1) by (metis le_add_diff_inverse take_add)
    moreover have "utf8_valid (take (i - ?n) (drop ?n s))" using 1(1) [OF _ _ b(2)] False utf8_valid_drop_unit [OF 1(2)] by simp
    ultimately show ?thesis using utf8_valid_append_unit [OF utf8_valid_unit [OF 1(2)]] False by simp
  qed auto
qed

lemma boundary_nearby: "utf8_valid s \<Longrightarrow> m \<le> length s \<Longrightarrow> \<exists>j\<le>m. m < j + 4 \<and> is_char_boundary s j"
proof (induction s arbitrary: m rule: utf8_valid.induct)
  case (1 s)
  let ?n = "fst (utf8_unit s)"
  show ?case
  proof (cases "s = [] \<or> m < ?n")
    case True
    with 1(3) unit_le_4 [of s] have "m < 4" by auto
    then show ?thesis by (auto simp: is_char_boundary_def intro!: exI [of _ 0])
  next
    case False
    then have "utf8_valid (drop ?n s)" "m - ?n \<le> length (drop ?n s)" using utf8_valid_drop_unit [OF 1(2)] 1(3) by auto
    with 1(1) False obtain j where j: "j \<le> m - ?n" "m - ?n < j + 4" "is_char_boundary (drop ?n s) j" by blast
    have "is_char_boundary s (j + ?n)"
    proof (cases "j = 0")
      case True
      have "\<not> is_cont (byte_val (drop ?n s ! 0))" if "?n < length s"
      proof -
        have "snd (utf8_unit (drop ?n s))" using utf8_valid_unit [OF utf8_valid_drop_unit [OF 1(2)]] that by simp
        then show ?thesis using that by (cases "drop ?n s") (auto simp: Let_def is_cont_def split: if_splits)
      qed
      then show ?thesis using True utf8_unit_le [of s] by (auto simp: is_char_boundary_def)
    next
      case False
      then show ?thesis using j(3) utf8_unit_le [of s] by (auto simp: is_char_boundary_def add.commute)
    qed
    moreover have "j + ?n \<le> m" "m < j + ?n + 4" using j False by auto
    ultimately show ?thesis by blast
  qed
qed

lemma floor_boundary_le: "floor_boundary s m \<le> m"
  by (induction s m rule: floor_boundary.induct) auto

lemma floor_boundary_ok: "is_char_boundary s (floor_boundary s m)"
  by (induction s m rule: floor_boundary.induct) (auto simp: is_char_boundary_def)

lemma floor_boundary_greatest: "j \<le> m \<Longrightarrow> is_char_boundary s j \<Longrightarrow> j \<le> floor_boundary s m"
  by (induction s m rule: floor_boundary.induct) (auto simp: le_Suc_eq)

text \<open>
  C31 (bounds). A log line is cut only when it is longer than the limit, to a prefix of at most that many
  bytes that ends at a character boundary, so the slice does not panic and the body stays valid text;
  less than four bytes are given up, and the flag tells exactly whether something was cut.
\<close>

theorem line_cut_at_character:
  assumes "utf8_valid s" and "truncate_to_bytes s n = (t, was_cut)"
  shows "prefix t s \<and> length t \<le> n \<and> utf8_valid t \<and> slice_to s (length t) = Val t \<and>
    (was_cut \<longleftrightarrow> n < length s) \<and> (\<not> was_cut \<longrightarrow> t = s) \<and> (was_cut \<longrightarrow> n < length t + 4)"
proof (cases "length s \<le> n")
  case True
  with assms show ?thesis by (auto simp: truncate_to_bytes_def slice_to_def is_char_boundary_def)
next
  case False
  let ?e = "floor_boundary s n"
  have t: "t = take ?e s" "was_cut" using assms(2) False by (auto simp: truncate_to_bytes_def)
  have e: "?e \<le> n" "is_char_boundary s ?e" by (rule floor_boundary_le, rule floor_boundary_ok)
  then have len: "length t = ?e" using t False by simp
  obtain j where "j \<le> n" "n < j + 4" "is_char_boundary s j" using boundary_nearby [OF assms(1), of n] False by auto
  with floor_boundary_greatest [of j n s] have "n < ?e + 4" by simp
  with t e len valid_at_boundary [OF assms(1) e(2)] False show ?thesis
    by (auto simp: slice_to_def take_is_prefix)
qed

theorem line_cut_at_character_witness:
  "truncate_to_bytes [CHR ''a'', CHR 0xC3, CHR 0xA9] 2 = (''a'', True) \<and> slice_to [CHR ''a'', CHR 0xC3, CHR 0xA9] 1 = Val ''a''"
proof -
  have ev: "truncate_to_bytes [CHR ''a'', CHR 0xC3, CHR 0xA9] 2 = (''a'', True)"
    by (simp add: truncate_to_bytes_def numeral_2_eq_2 is_char_boundary_def is_cont_def)
  moreover have "utf8_valid [CHR ''a'', CHR 0xC3, CHR 0xA9]"
    by (simp add: utf8_valid.simps is_cont_def safe_get_def)
  ultimately show ?thesis using line_cut_at_character [OF _ ev] by simp
qed

section \<open>What the collector can read\<close>

definition kv_texts :: "key_value \<Rightarrow> str set" where
  "kv_texts kv = insert (kv_key kv) (set_option (value_text (kv_value kv)))"

definition record_texts :: "log_record \<Rightarrow> str set" where
  "record_texts r = insert (lr_severity_text r) (set_option (value_text (lr_body r)) \<union> (\<Union>kv\<in>set (lr_attributes r). kv_texts kv))"

definition scope_texts :: "scope_logs \<Rightarrow> str set" where
  "scope_texts g = insert (sg_schema_url g) ((\<Union>r\<in>set (sg_log_records g). record_texts r) \<union>
     (\<Union>sc\<in>set_option (sg_scope g). {is_name sc, is_version sc} \<union> (\<Union>kv\<in>set (is_attributes sc). kv_texts kv)))"

definition request_texts :: "export_logs_service_request \<Rightarrow> str set" where
  "request_texts rq = (\<Union>g\<in>set (rq_resource_logs rq). insert (rg_schema_url g)
     ((\<Union>re\<in>set_option (rg_resource g). \<Union>kv\<in>set (re_attributes re). kv_texts kv) \<union> (\<Union>sg\<in>set (rg_scope_logs g). scope_texts sg)))"

definition line_valid :: "log_line \<Rightarrow> bool" where
  "line_valid l \<longleftrightarrow> utf8_valid (ll_source l) \<and> utf8_valid (ll_service l) \<and> utf8_valid (ll_message l) \<and>
     utf8_valid (ll_record_id l) \<and> (\<forall>(k, v)\<in>set (ll_attrs l). utf8_valid k \<and> utf8_valid v)"

definition resource_valid :: "resource_attrs \<Rightarrow> bool" where
  "resource_valid res \<longleftrightarrow> utf8_valid (ra_host_name res) \<and> utf8_valid (ra_host_id res) \<and> utf8_valid (ra_os_type res)"

lemma utf8_valid_ascii_append: "\<forall>b\<in>set a. byte_val b < 128 \<Longrightarrow> utf8_valid (a @ s) = utf8_valid s"
  by (induction a) (simp_all add: utf8_valid.simps [of "_ # _"])

definition from_valid :: "proto_lib \<Rightarrow> str \<Rightarrow> bool" where
  "from_valid lib t \<longleftrightarrow> (\<exists>s. utf8_valid s \<and> t = pl_redact lib s)"

lemma from_validI [intro]: "utf8_valid s \<Longrightarrow> from_valid lib (pl_redact lib s)"
  by (auto simp: from_valid_def)

lemma attr_str_from_valid: "utf8_valid k \<Longrightarrow> utf8_valid v \<Longrightarrow> t \<in> kv_texts (attr_str lib k v) \<Longrightarrow> from_valid lib t"
  by (auto simp: kv_texts_def attr_str_def)

definition line_attrs :: "log_line \<Rightarrow> (str \<times> str) list" where
  "line_attrs l = [(''aic.log.source'', ll_source l), (''aic.log.service'', ll_service l), (''aic.log.record_id'', ll_record_id l)]
     @ map (\<lambda>(k, v). (''aic.log.'' @ k, v)) (ll_attrs l)
     @ (if snd (truncate_to_bytes (ll_message l) max_log_line_bytes) then [(''aic.log.truncated'', ''true'')] else [])"

lemma line_record_fields:
  "lr_attributes (line_record lib l) = map (\<lambda>(k, v). attr_str lib k v) (line_attrs l)"
  "lr_severity_text (line_record lib l) = pl_redact lib (snd (line_severity (ll_severity l)))"
  "lr_body (line_record lib l) = Some (string_value lib (fst (truncate_to_bytes (ll_message l) max_log_line_bytes)))"
  by (simp_all add: line_record_def Let_def log_rec_def line_attrs_def split_def)

lemma line_attrs_valid:
  assumes "line_valid l" and "(k, v) \<in> set (line_attrs l)"
  shows "utf8_valid k" and "utf8_valid v"
proof -
  have lit: "utf8_valid ''aic.log.source''" "utf8_valid ''aic.log.service''" "utf8_valid ''aic.log.record_id''"
    "utf8_valid ''aic.log.truncated''" "utf8_valid ''true''" by (rule utf8_valid_ascii, simp)+
  have key: "utf8_valid (''aic.log.'' @ x) = utf8_valid x" for x by (rule utf8_valid_ascii_append) simp
  show "utf8_valid k" "utf8_valid v"
    using assms lit key by (auto simp: line_attrs_def line_valid_def simp del: append_Cons split: if_splits)
qed

lemma severity_text_valid: "utf8_valid (snd (line_severity s))"
proof -
  have "snd (line_severity s) \<in> {''ERROR'', ''WARN'', ''DEBUG'', ''INFO''}" by (simp add: line_severity_def Let_def)
  then have "\<forall>b\<in>set (snd (line_severity s)). byte_val b < 128" by (elim insertE) simp_all
  then show ?thesis by (rule utf8_valid_ascii)
qed

lemma truncated_valid: "utf8_valid s \<Longrightarrow> utf8_valid (fst (truncate_to_bytes s n))"
  by (simp add: truncate_to_bytes_def valid_at_boundary floor_boundary_ok)

lemma line_record_from_valid:
  assumes "line_valid l" and "t \<in> record_texts (line_record lib l)"
  shows "from_valid lib t"
proof -
  have "utf8_valid (ll_message l)" using assms(1) by (simp add: line_valid_def)
  with assms(2) line_attrs_valid [OF assms(1)] severity_text_valid truncated_valid show ?thesis
    by (auto simp: record_texts_def line_record_fields dest!: attr_str_from_valid [rotated 2])
qed

text \<open>
  C12 (safety). End to end: in the request built from log lines, whatever their messages, attributes and services
  hold, no text contains an e-mail address or a bearer token, given that the host's address is not
  attached, as in the exporter of log lines.
\<close>

theorem exported_lines_hold_no_address_or_token:
  assumes "leftmost_first ut regex" and "pl_redact lib = (\<lambda>s. fst (redact ut regex low s))"
    and "\<forall>l\<in>set ls. line_valid l" and "resource_valid res" and "utf8_valid ver" and "ra_host_ip res = None"
  shows "\<exists>rq. encode_log_line lib ls res ver = pl_encode lib rq \<and>
    (\<forall>t\<in>request_texts rq. \<not> occurs email_rx (chars t) \<and> \<not> occurs bearer_rx (chars t))"
proof -
  have fv: "\<not> occurs email_rx (chars t) \<and> \<not> occurs bearer_rx (chars t)" if "from_valid lib t" for t
  proof -
    from that obtain s where s: "utf8_valid s" "t = fst (redact ut regex low s)" by (auto simp: from_valid_def assms(2))
    have "\<not> occurs (pt_rx pt) (chars t)" if "pt \<in> {patterns ut ! 8, patterns ut ! 6}" for pt
      unfolding s(2) by (rule redact_removes [OF assms(1) s(1)])
        (use that separable_patterns [of ut] in \<open>auto simp: patterns_def\<close>)
    from this [of "patterns ut ! 8"] this [of "patterns ut ! 6"] show ?thesis by (simp add: patterns_def)
  qed
  have nil: "\<not> occurs email_rx (chars []) \<and> \<not> occurs bearer_rx (chars [])"
    using separable_no_empty separable_patterns by (simp add: chars.simps [of "[]"])
  have lits: "utf8_valid ''host.name''" "utf8_valid ''host.id''" "utf8_valid ''os.type''" "utf8_valid ''service.name''"
    "utf8_valid ''service.version''" "utf8_valid ''aicd''" "utf8_valid ''aic.logs''" by (rule utf8_valid_ascii, simp)+
  show ?thesis
    unfolding encode_log_line_def build_request_def Let_def
  proof (rule exI, rule conjI, rule refl, rule ballI)
    fix t assume "t \<in> request_texts \<lparr>rq_resource_logs = [\<lparr>
       rg_resource = Some \<lparr>re_attributes = [attr_str lib ''host.name'' (ra_host_name res), attr_str lib ''host.id'' (ra_host_id res),
         attr_str lib ''os.type'' (ra_os_type res), attr_str lib ''service.name'' ''aicd'', attr_str lib ''service.version'' ver]
         @ opt_attr (attr_addr lib ''host.ip'') (ra_host_ip res), re_dropped_attributes_count = 0\<rparr>,
       rg_scope_logs = [\<lparr>sg_scope = Some \<lparr>is_name = pl_redact lib ''aic.logs'', is_version = pl_redact lib ver,
           is_attributes = [], is_dropped_attributes_count = 0\<rparr>,
         sg_log_records = map (line_record lib) ls, sg_schema_url = []\<rparr>], rg_schema_url = []\<rparr>]\<rparr>"
    then consider "t = []" | k v where "t \<in> kv_texts (attr_str lib k v)" "utf8_valid k" "utf8_valid v"
      | "t = pl_redact lib ''aic.logs''" | "t = pl_redact lib ver" | l where "l \<in> set ls" "t \<in> record_texts (line_record lib l)"
      using lits assms(4-6) by (auto simp: request_texts_def scope_texts_def resource_valid_def opt_attr_def simp del: append_Cons)
    then show "\<not> occurs email_rx (chars t) \<and> \<not> occurs bearer_rx (chars t)"
      by cases (use nil fv attr_str_from_valid line_record_from_valid assms(3,5) lits in auto)
  qed
qed

definition ref_lib :: proto_lib where
  "ref_lib = \<lparr>pl_redact = (\<lambda>s. fst (redact no_tables ref_regex (\<lambda>_. False) s)), pl_encode = (\<lambda>_. []),
     pl_decode = (\<lambda>_. None), pl_query_hash = (\<lambda>_ _ _ _. 0)\<rparr>"

definition mail_line :: log_line where
  "mail_line = \<lparr>ll_source = ''file'', ll_service = ''web'', ll_severity = ''INFO'', ll_message = ''from a@b.cc'',
     ll_attrs = [(''peer'', ''a@b.cc'')], ll_ts = 0, ll_record_id = ''log:1''\<rparr>"

definition small_host :: resource_attrs where
  "small_host = \<lparr>ra_host_name = ''h'', ra_host_id = ''i'', ra_os_type = ''linux'', ra_host_ip = None\<rparr>"

theorem exported_lines_hold_no_address_or_token_witness:
  "\<exists>rq. encode_log_line ref_lib [mail_line] small_host ''1'' = pl_encode ref_lib rq \<and>
     \<not> (\<exists>t. t \<in> request_texts rq \<and> occurs email_rx (chars t))"
proof -
  have "line_valid mail_line" "resource_valid small_host" "utf8_valid ''1''"
    by (auto simp: line_valid_def mail_line_def resource_valid_def small_host_def intro!: utf8_valid_ascii)
  with exported_lines_hold_no_address_or_token [OF ref_regex_leftmost_first, of ref_lib "\<lambda>_. False" "[mail_line]" small_host "''1''"]
  show ?thesis by (auto simp: ref_lib_def small_host_def)
qed

end
