(* ===== verification/Inventory_Cdc.thy ===== *)
theory Inventory_Cdc
  imports Hash_Map
begin

text \<open>
  The change tracker of the process inventory, \<open>aic-server/src/otlp_exporter/process_inventory.rs\<close>: each
  tick the whole process table is compared with the one before, and only what was added, changed or
  removed is sent, except that now and then the whole table is (a keyframe). The owner of a process
  (\<open>enrich\<close>, which reads \<open>/proc\<close>) is an argument. What a receiver makes of the stream is the reference:
  it holds the table.
\<close>

section \<open>Data\<close>

datatype change_op = Added | Removed | Changed

fun change_op_as_str :: "change_op \<Rightarrow> str" where
  "change_op_as_str Added = ''add''"
| "change_op_as_str Removed = ''remove''"
| "change_op_as_str Changed = ''change''"

record proc_inv =
  pv_pid :: int
  pv_ppid :: int
  pv_start_time :: u64
  pv_name :: str

record inv_change_record =
  vc_op :: change_op
  vc_pid :: int
  vc_ppid :: int
  vc_start_time :: u64
  vc_name :: str
  vc_uid :: "u32 option"
  vc_container_id :: "str option"

record change_set =
  cs_sequence :: u64
  cs_keyframe :: bool
  cs_emit :: bool
  cs_records :: "inv_change_record list"

record stored_proc =
  so_ppid :: int
  so_name :: str
  so_uid :: "u32 option"
  so_container_id :: "str option"

type_synonym proc_key = "int \<times> u64"
type_synonym owner_lookup = "int \<Rightarrow> u32 option \<times> str option"

record inventory_tracker =
  ivt_prev :: "(proc_key, stored_proc) hash_map"
  ivt_sequence :: u64
  ivt_ticks_since_keyframe :: u32
  ivt_keyframe_every :: u32

definition tracker_new :: "u32 \<Rightarrow> inventory_tracker" where
  "tracker_new keyframe_every = \<lparr>ivt_prev = [], ivt_sequence = 0, ivt_ticks_since_keyframe = 0,
     ivt_keyframe_every = keyframe_every\<rparr>"

section \<open>One tick\<close>

definition proc_key :: "proc_inv \<Rightarrow> proc_key" where
  "proc_key p = (pv_pid p, pv_start_time p)"

definition change_of :: "change_op \<Rightarrow> proc_inv \<Rightarrow> u32 option \<Rightarrow> str option \<Rightarrow> inv_change_record" where
  "change_of op p uid cid = \<lparr>vc_op = op, vc_pid = pv_pid p, vc_ppid = pv_ppid p, vc_start_time = pv_start_time p,
     vc_name = pv_name p, vc_uid = uid, vc_container_id = cid\<rparr>"

definition stored_of :: "proc_inv \<Rightarrow> u32 option \<Rightarrow> str option \<Rightarrow> stored_proc" where
  "stored_of p uid cid = \<lparr>so_ppid = pv_ppid p, so_name = pv_name p, so_uid = uid, so_container_id = cid\<rparr>"

type_synonym diff_state = "(proc_key, stored_proc) hash_map \<times> inv_change_record list"

definition keyframe_entry :: "(proc_key, stored_proc) hash_map \<Rightarrow> owner_lookup \<Rightarrow> diff_state \<Rightarrow> proc_inv \<Rightarrow> diff_state" where
  "keyframe_entry prev enrich st p =
     (let (new_prev, recs) = st;
          (uid, cid) = (case hm_get prev (proc_key p) of
              Some s \<Rightarrow> (so_uid s, so_container_id s) | None \<Rightarrow> enrich (pv_pid p))
      in (hm_insert (proc_key p) (stored_of p uid cid) new_prev, recs @ [change_of Added p uid cid]))"

definition delta_entry :: "owner_lookup \<Rightarrow> diff_state \<Rightarrow> proc_inv \<Rightarrow> diff_state" where
  "delta_entry enrich st p =
     (let (prev, recs) = st in
      case hm_get prev (proc_key p) of
        None \<Rightarrow> (let (uid, cid) = enrich (pv_pid p)
                 in (hm_insert (proc_key p) (stored_of p uid cid) prev, recs @ [change_of Added p uid cid]))
      | Some s \<Rightarrow>
          if so_ppid s \<noteq> pv_ppid p \<or> so_name s \<noteq> pv_name p
          then (hm_insert (proc_key p) (s\<lparr>so_ppid := pv_ppid p, so_name := pv_name p\<rparr>) prev,
                recs @ [change_of Changed p (so_uid s) (so_container_id s)])
          else (prev, recs))"

text \<open>The keys come from the map itself, so the \<open>expect\<close> on the removal holds.\<close>

definition removal_entry :: "diff_state \<Rightarrow> proc_key \<Rightarrow> diff_state" where
  "removal_entry st key =
     (let (prev, recs) = st in
      case hm_get prev key of
        None \<Rightarrow> st
      | Some s \<Rightarrow> (hm_remove key prev,
          recs @ [\<lparr>vc_op = Removed, vc_pid = fst key, vc_ppid = so_ppid s, vc_start_time = snd key,
                   vc_name = so_name s, vc_uid = so_uid s, vc_container_id = so_container_id s\<rparr>]))"

definition tracker_diff :: "inventory_tracker \<Rightarrow> proc_inv list \<Rightarrow> owner_lookup \<Rightarrow> inventory_tracker \<times> change_set" where
  "tracker_diff t current enrich =
     (let keyframe = (ivt_sequence t = 0 \<or>
            (0 < ivt_keyframe_every t \<and> ivt_keyframe_every t \<le> ivt_ticks_since_keyframe t));
          (prev, recs) =
            (if keyframe then foldl (keyframe_entry (ivt_prev t) enrich) ([], []) current
             else let (prev1, recs1) = foldl (delta_entry enrich) (ivt_prev t, []) current;
                      cur_keys = proc_key ` set current;
                      removed_keys = filter (\<lambda>k. k \<notin> cur_keys) (map fst prev1)
                  in foldl removal_entry (prev1, recs1) removed_keys);
          emit = (keyframe \<or> recs \<noteq> []);
          sequence = (if emit then ivt_sequence t + 1 else ivt_sequence t)
      in (t\<lparr>ivt_prev := prev, ivt_sequence := sequence,
            ivt_ticks_since_keyframe := (if keyframe then 0 else ivt_ticks_since_keyframe t + 1)\<rparr>,
          \<lparr>cs_sequence = sequence, cs_keyframe = keyframe, cs_emit = emit, cs_records = recs\<rparr>))"

text \<open>A run over successive process tables.\<close>

fun tracker_run :: "inventory_tracker \<Rightarrow> (proc_inv list \<times> owner_lookup) list \<Rightarrow> inventory_tracker \<times> change_set list" where
  "tracker_run t [] = (t, [])"
| "tracker_run t ((current, enrich) # ticks) =
     (let (t1, cs) = tracker_diff t current enrich; (t2, css) = tracker_run t1 ticks in (t2, cs # css))"

section \<open>The receiver and the table\<close>

text \<open>What a receiver of the stream keeps.\<close>

type_synonym replica = "proc_key \<Rightarrow> stored_proc option"

definition apply_change :: "replica \<Rightarrow> inv_change_record \<Rightarrow> replica" where
  "apply_change r c =
     (if vc_op c = Removed then r((vc_pid c, vc_start_time c) := None)
      else r((vc_pid c, vc_start_time c) \<mapsto> \<lparr>so_ppid = vc_ppid c, so_name = vc_name c, so_uid = vc_uid c,
             so_container_id = vc_container_id c\<rparr>))"

definition receive :: "replica \<Rightarrow> change_set \<Rightarrow> replica" where
  "receive r cs = foldl apply_change (if cs_keyframe cs then Map.empty else r) (cs_records cs)"

text \<open>The table after a tick: the processes of the tick, each with the owner known before or else looked up.\<close>

definition last_seen :: "proc_inv list \<Rightarrow> proc_key \<Rightarrow> proc_inv option" where
  "last_seen current = map_of (rev (map (\<lambda>p. (proc_key p, p)) current))"

definition table_after :: "replica \<Rightarrow> proc_inv list \<Rightarrow> owner_lookup \<Rightarrow> replica" where
  "table_after r current enrich k =
     (case last_seen current k of
        None \<Rightarrow> None
      | Some p \<Rightarrow> Some (case r k of
            Some s \<Rightarrow> stored_of p (so_uid s) (so_container_id s)
          | None \<Rightarrow> stored_of p (fst (enrich (pv_pid p))) (snd (enrich (pv_pid p)))))"

lemma last_seen_snoc: "last_seen (ps @ [p]) = (last_seen ps)(proc_key p \<mapsto> p)"
  by (simp add: last_seen_def)

lemma last_seen_Nil [simp]: "last_seen [] = Map.empty"
  by (simp add: last_seen_def)

lemma last_seen_None: "last_seen ps k = None \<longleftrightarrow> k \<notin> proc_key ` set ps"
  by (auto simp: last_seen_def map_of_eq_None_iff image_iff)

lemma last_seen_key: "last_seen ps k = Some p \<Longrightarrow> proc_key p = k \<and> p \<in> set ps"
  by (auto simp: last_seen_def dest: map_of_SomeD)

lemma apply_change_of [simp]:
  "apply_change r (change_of op p uid cid) = (if op = Removed then r(proc_key p := None) else r(proc_key p \<mapsto> stored_of p uid cid))"
  by (simp add: apply_change_def change_of_def stored_of_def proc_key_def)

lemma apply_removed [simp]:
  "apply_change r \<lparr>vc_op = Removed, vc_pid = fst k, vc_ppid = a, vc_start_time = snd k, vc_name = b, vc_uid = c, vc_container_id = d\<rparr> =
     r(k := None)"
  by (simp add: apply_change_def)

lemma stored_of_update [simp]: "stored_of p (so_uid s) (so_container_id s) = s\<lparr>so_ppid := pv_ppid p, so_name := pv_name p\<rparr>"
  by (simp add: stored_of_def)

section \<open>Each branch keeps table and receiver together\<close>

lemma table_after_snoc:
  "table_after r (ps @ [p]) enrich =
     (table_after r ps enrich)(proc_key p \<mapsto> (case r (proc_key p) of
        Some s \<Rightarrow> stored_of p (so_uid s) (so_container_id s)
      | None \<Rightarrow> stored_of p (fst (enrich (pv_pid p))) (snd (enrich (pv_pid p)))))"
  by (auto simp: table_after_def last_seen_snoc fun_eq_iff)

lemma keyframe_entries:
  assumes "foldl (keyframe_entry prev enrich) ([], []) current = (np, recs)"
  shows "hm_get np = table_after (hm_get prev) current enrich \<and> foldl apply_change Map.empty recs = hm_get np \<and> hm_ok np"
  using assms
proof (induction current arbitrary: np recs rule: rev_induct)
  case Nil
  then show ?case by (auto simp: table_after_def)
next
  case (snoc p ps)
  obtain np0 recs0 where f: "foldl (keyframe_entry prev enrich) ([], []) ps = (np0, recs0)" by fastforce
  note ih = snoc.IH [OF f]
  have step: "keyframe_entry prev enrich (np0, recs0) p = (np, recs)" using snoc.prems f by simp
  obtain uid cid where e: "enrich (pv_pid p) = (uid, cid)" by fastforce
  show ?case
    using step ih e
    by (cases "hm_get prev (proc_key p)") (auto simp: keyframe_entry_def table_after_snoc)
qed

text \<open>While the table is walked, the entries passed are up to date and the others as they were.\<close>

definition table_during :: "replica \<Rightarrow> proc_inv list \<Rightarrow> owner_lookup \<Rightarrow> replica" where
  "table_during r current enrich k = (if k \<in> proc_key ` set current then table_after r current enrich k else r k)"

lemma table_during_snoc:
  "table_during r (ps @ [p]) enrich =
     (table_during r ps enrich)(proc_key p \<mapsto> (case r (proc_key p) of
        Some s \<Rightarrow> stored_of p (so_uid s) (so_container_id s)
      | None \<Rightarrow> stored_of p (fst (enrich (pv_pid p))) (snd (enrich (pv_pid p)))))"
  by (auto simp: table_during_def table_after_def last_seen_snoc fun_eq_iff)

lemma table_during_owner:
  assumes "table_during r ps enrich (proc_key p) = Some s"
  shows "(so_uid s, so_container_id s) =
    (case r (proc_key p) of Some s0 \<Rightarrow> (so_uid s0, so_container_id s0) | None \<Rightarrow> enrich (pv_pid p))"
  using assms
  by (auto simp: table_during_def table_after_def stored_of_def proc_key_def split: if_splits option.splits
      dest!: last_seen_key)

lemma table_during_None: "table_during r ps enrich k = None \<Longrightarrow> r k = None"
  by (auto simp: table_during_def table_after_def last_seen_None split: if_splits option.splits)

lemma delta_entries:
  assumes "foldl (delta_entry enrich) (prev, []) current = (np, recs)" and "hm_ok prev"
  shows "hm_get np = table_during (hm_get prev) current enrich \<and> foldl apply_change (hm_get prev) recs = hm_get np \<and> hm_ok np"
  using assms(1)
proof (induction current arbitrary: np recs rule: rev_induct)
  case Nil
  then show ?case using assms(2) by (auto simp: table_during_def)
next
  case (snoc p ps)
  obtain np0 recs0 where f: "foldl (delta_entry enrich) (prev, []) ps = (np0, recs0)" by fastforce
  note ih = snoc.IH [OF f]
  have step: "delta_entry enrich (np0, recs0) p = (np, recs)" using snoc.prems f by simp
  show ?case
  proof (cases "hm_get np0 (proc_key p)")
    case None
    then have "hm_get prev (proc_key p) = None" using ih table_during_None by metis
    with None show ?thesis
      using step ih
      by (cases "enrich (pv_pid p)")
        (auto simp: delta_entry_def table_during_snoc)
  next
    case (Some s)
    have owner: "(so_uid s, so_container_id s) =
        (case hm_get prev (proc_key p) of Some s0 \<Rightarrow> (so_uid s0, so_container_id s0) | None \<Rightarrow> enrich (pv_pid p))"
      using table_during_owner [of "hm_get prev" ps enrich p s] ih Some by simp
    have next_entry: "table_during (hm_get prev) (ps @ [p]) enrich = (hm_get np0)(proc_key p \<mapsto> s\<lparr>so_ppid := pv_ppid p, so_name := pv_name p\<rparr>)"
      using owner ih
      by (cases "hm_get prev (proc_key p)"; cases "enrich (pv_pid p)") (auto simp: table_during_snoc stored_of_def)
    show ?thesis
    proof (cases "so_ppid s \<noteq> pv_ppid p \<or> so_name s \<noteq> pv_name p")
      case True
      then show ?thesis
        using step ih Some next_entry
        by (auto simp: delta_entry_def)
    next
      case False
      then have "s\<lparr>so_ppid := pv_ppid p, so_name := pv_name p\<rparr> = s" by simp
      then have "table_during (hm_get prev) (ps @ [p]) enrich = hm_get np0"
        using next_entry Some by (simp add: map_upd_triv)
      then show ?thesis
        using step ih Some False by (auto simp: delta_entry_def)
    qed
  qed
qed

lemma removal_entries:
  assumes "foldl removal_entry (prev, recs0) ks = (np, recs)" and "foldl apply_change r recs0 = hm_get prev" and "hm_ok prev"
  shows "hm_get np = (\<lambda>k. if k \<in> set ks then None else hm_get prev k) \<and> foldl apply_change r recs = hm_get np \<and> hm_ok np"
  using assms
proof (induction ks arbitrary: prev recs0)
  case Nil
  then show ?case by auto
next
  case (Cons k ks)
  show ?case
  proof (cases "hm_get prev k")
    case None
    then have "removal_entry (prev, recs0) k = (prev, recs0)" by (simp add: removal_entry_def)
    then show ?thesis using Cons.IH [of prev recs0] Cons.prems None by (auto simp: fun_eq_iff)
  next
    case (Some s)
    define recs1 where "recs1 = recs0 @ [\<lparr>vc_op = Removed, vc_pid = fst k, vc_ppid = so_ppid s, vc_start_time = snd k,
                   vc_name = so_name s, vc_uid = so_uid s, vc_container_id = so_container_id s\<rparr>]"
    have "removal_entry (prev, recs0) k = (hm_remove k prev, recs1)" by (simp add: Some removal_entry_def recs1_def)
    moreover have "foldl apply_change r recs1 = hm_get (hm_remove k prev)"
      using Cons.prems(2) by (auto simp: recs1_def fun_eq_iff)
    ultimately show ?thesis using Cons.IH [of "hm_remove k prev" recs1] Cons.prems by (auto simp: fun_eq_iff)
  qed
qed

lemma tracker_diff_step:
  assumes "tracker_diff t current enrich = (t', cs)" and "hm_ok (ivt_prev t)"
  shows "hm_get (ivt_prev t') = table_after (hm_get (ivt_prev t)) current enrich \<and> hm_ok (ivt_prev t') \<and>
    receive (if cs_keyframe cs then r else hm_get (ivt_prev t)) cs = hm_get (ivt_prev t')"
proof (cases "ivt_sequence t = 0 \<or> (0 < ivt_keyframe_every t \<and> ivt_keyframe_every t \<le> ivt_ticks_since_keyframe t)")
  case True
  obtain np recs where f: "foldl (keyframe_entry (ivt_prev t) enrich) ([], []) current = (np, recs)" by fastforce
  have "ivt_prev t' = np \<and> cs_keyframe cs \<and> cs_records cs = recs"
    using assms(1) True f by (auto simp: tracker_diff_def Let_def)
  then show ?thesis using keyframe_entries [OF f] by (auto simp: receive_def)
next
  case False
  obtain p1 r1 where d: "foldl (delta_entry enrich) (ivt_prev t, []) current = (p1, r1)" by fastforce
  obtain np recs where f: "foldl removal_entry (p1, r1) (filter (\<lambda>k. k \<notin> proc_key ` set current) (map fst p1)) = (np, recs)"
    by fastforce
  have res: "ivt_prev t' = np \<and> \<not> cs_keyframe cs \<and> cs_records cs = recs"
    using assms(1) False d f by (auto simp: tracker_diff_def Let_def)
  note dl = delta_entries [OF d assms(2)]
  then have dl': "foldl apply_change (hm_get (ivt_prev t)) r1 = hm_get p1" and ok: "hm_ok p1" by auto
  note rm = removal_entries [OF f dl' ok]
  have "hm_get np = table_after (hm_get (ivt_prev t)) current enrich"
  proof
    fix k
    show "hm_get np k = table_after (hm_get (ivt_prev t)) current enrich k"
    proof (cases "k \<in> proc_key ` set current")
      case True
      then show ?thesis using rm dl by (simp add: table_during_def)
    next
      case False
      then have "k \<in> fst ` set p1 \<or> hm_get p1 k = None" by (auto simp: map_of_eq_None_iff)
      then show ?thesis using rm False by (auto simp: table_after_def last_seen_None [symmetric])
    qed
  qed
  then show ?thesis using res rm by (auto simp: receive_def)
qed

lemma tracker_diff_flags:
  assumes "tracker_diff t current enrich = (t', cs)"
  shows "cs_sequence cs = ivt_sequence t'" and "ivt_sequence t' = (if cs_emit cs then ivt_sequence t + 1 else ivt_sequence t)"
    and "ivt_keyframe_every t' = ivt_keyframe_every t"
    and "cs_keyframe cs \<longleftrightarrow> ivt_sequence t = 0 \<or> (0 < ivt_keyframe_every t \<and> ivt_keyframe_every t \<le> ivt_ticks_since_keyframe t)"
    and "ivt_ticks_since_keyframe t' = (if cs_keyframe cs then 0 else ivt_ticks_since_keyframe t + 1)"
    and "cs_emit cs \<longleftrightarrow> cs_keyframe cs \<or> cs_records cs \<noteq> []"
  using assms by (auto simp: tracker_diff_def Let_def split: prod.splits)

lemma silent_tick:
  assumes "tracker_diff t current enrich = (t', cs)" and "hm_ok (ivt_prev t)" and "\<not> cs_emit cs"
  shows "hm_get (ivt_prev t') = hm_get (ivt_prev t)"
proof -
  have quiet: "\<not> cs_keyframe cs" "cs_records cs = []" using tracker_diff_flags(6) [OF assms(1)] assms(3) by blast+
  then have "receive (hm_get (ivt_prev t)) cs = hm_get (ivt_prev t)" by (simp add: receive_def)
  moreover have "receive (hm_get (ivt_prev t)) cs = hm_get (ivt_prev t')"
    using tracker_diff_step [OF assms(1,2), of Map.empty, THEN conjunct2, THEN conjunct2] quiet(1) by (simp only: if_False)
  ultimately show ?thesis by (rule trans [OF sym, rotated])
qed

section \<open>The stream\<close>

text \<open>The process table after the ticks of a run, owners included.\<close>

definition process_table :: "(proc_inv list \<times> owner_lookup) list \<Rightarrow> replica" where
  "process_table ticks = foldl (\<lambda>r (current, enrich). table_after r current enrich) Map.empty ticks"

lemma process_table_snoc [simp]: "process_table (ticks @ [tick]) = table_after (process_table ticks) (fst tick) (snd tick)"
  by (simp add: process_table_def case_prod_beta)

lemma tracker_run_snoc:
  "tracker_run t (ticks @ [(current, enrich)]) =
     (let (t1, css) = tracker_run t ticks; (t2, cs) = tracker_diff t1 current enrich in (t2, css @ [cs]))"
  by (induction t ticks rule: tracker_run.induct) (auto simp: Let_def split: prod.splits)

lemma tracker_run_length: "tracker_run t ticks = (t', css) \<Longrightarrow> length css = length ticks"
  by (induction t ticks arbitrary: t' css rule: tracker_run.induct) (auto split: prod.splits)

text \<open>What holds after every prefix of a run.\<close>

definition tracks_table :: "inventory_tracker \<Rightarrow> (proc_inv list \<times> owner_lookup) list \<Rightarrow> change_set list \<Rightarrow> bool" where
  "tracks_table t ticks css \<longleftrightarrow> hm_ok (ivt_prev t) \<and> hm_get (ivt_prev t) = process_table ticks \<and>
     foldl receive Map.empty (filter cs_emit css) = process_table ticks \<and>
     ivt_sequence t = of_nat (length (filter cs_emit css))"

lemma tracks_tableI:
  "tracker_run (tracker_new every) ticks = (t, css) \<Longrightarrow> tracks_table t ticks css"
proof (induction ticks arbitrary: t css rule: rev_induct)
  case Nil
  then show ?case by (auto simp: tracks_table_def tracker_new_def process_table_def)
next
  case (snoc tick ticks)
  obtain current enrich where tick: "tick = (current, enrich)" by fastforce
  obtain t1 css1 where r1: "tracker_run (tracker_new every) ticks = (t1, css1)" by fastforce
  obtain cs where d: "tracker_diff t1 current enrich = (t, cs)" and css: "css = css1 @ [cs]"
    using snoc.prems by (auto simp: tick tracker_run_snoc r1 split: prod.splits)
  note ih = snoc.IH [OF r1, unfolded tracks_table_def]
  have ok: "hm_ok (ivt_prev t1)" using ih by simp
  note st = tracker_diff_step [OF d ok, of "process_table ticks"]
  show ?case
  proof (cases "cs_emit cs")
    case True
    then show ?thesis
      using ih st tracker_diff_flags [OF d] by (auto simp: tracks_table_def tick css split: if_splits)
  next
    case False
    then show ?thesis
      using ih st silent_tick [OF d ok] tracker_diff_flags [OF d] by (auto simp: tracks_table_def tick css)
  qed
qed

text \<open>
  C19 (refinement). The stream of changes is a faithful copy of the process table: a receiver that starts
  empty and applies every batch that is sent, in order, holds after any number of ticks exactly the
  processes of the last table, under pid and start time, each with its parent and name as last seen
  and the owner that was looked up when it appeared; ticks that send nothing changed nothing.
\<close>

theorem stream_refines_process_table:
  "foldl receive Map.empty (filter cs_emit (snd (tracker_run (tracker_new every) ticks))) = process_table ticks"
  using tracks_tableI [of every ticks] by (cases "tracker_run (tracker_new every) ticks") (auto simp: tracks_table_def)

section \<open>Lost, repeated and reordered batches\<close>

text \<open>
  The receiver the sequence numbers are made for: it applies a change only on top of the batch with the
  number before, and otherwise waits for the next keyframe.
\<close>

definition guarded_receive :: "u64 option \<times> replica \<Rightarrow> change_set \<Rightarrow> u64 option \<times> replica" where
  "guarded_receive st cs =
     (let (synced, r) = st in
      if cs_keyframe cs \<or> synced = Some (cs_sequence cs - 1) then (Some (cs_sequence cs), receive r cs) else (None, r))"

lemma of_nat_u64_inj: "(of_nat a :: u64) = of_nat b \<Longrightarrow> a < 2 ^ 64 \<Longrightarrow> b < 2 ^ 64 \<Longrightarrow> a = b"
  by (drule arg_cong [where f = unat]) (simp add: unat_of_nat take_bit_nat_eq_self)

lemma tracker_run_take:
  assumes "tracker_run t ticks = (t', css)" and "m < length ticks"
  shows "\<exists>t1 t2. tracker_run t (take m ticks) = (t1, take m css) \<and>
    tracker_diff t1 (fst (ticks ! m)) (snd (ticks ! m)) = (t2, css ! m)"
  using assms
proof (induction t ticks arbitrary: t' css m rule: tracker_run.induct)
  case (2 t current enrich ticks)
  obtain t1 cs where d: "tracker_diff t current enrich = (t1, cs)" by fastforce
  obtain t2 css1 where r: "tracker_run t1 ticks = (t2, css1)" by fastforce
  have css: "css = cs # css1" using 2 d r by simp
  show ?case
  proof (cases m)
    case 0
    then show ?thesis using d css by simp
  next
    case (Suc j)
    then show ?thesis using "2.IH" [OF d [symmetric] refl r, of j] "2.prems" d css by (auto split: prod.splits)
  qed
qed simp

text \<open>The batch sent in tick \<open>m\<close>: its number, and what it does to a receiver.\<close>

lemma emitted_batch:
  assumes "tracker_run (tracker_new every) ticks = (t', css)" and "m < length ticks" and "cs_emit (css ! m)"
  shows "cs_sequence (css ! m) = of_nat (Suc (length (filter cs_emit (take m css))))"
    and "receive (if cs_keyframe (css ! m) then r else process_table (take m ticks)) (css ! m) = process_table (take (Suc m) ticks)"
proof -
  obtain t1 t2 where run: "tracker_run (tracker_new every) (take m ticks) = (t1, take m css)"
    and d: "tracker_diff t1 (fst (ticks ! m)) (snd (ticks ! m)) = (t2, css ! m)"
    using tracker_run_take [OF assms(1,2)] by blast
  note tr = tracks_tableI [OF run, unfolded tracks_table_def]
  show "cs_sequence (css ! m) = of_nat (Suc (length (filter cs_emit (take m css))))"
    using tr tracker_diff_flags(1,2) [OF d] assms(3) by (simp add: add.commute)
  have ok: "hm_ok (ivt_prev t1)" using tr by simp
  have "take (Suc m) ticks = take m ticks @ [ticks ! m]"
    using assms(2) by (simp add: take_Suc_conv_app_nth)
  then show "receive (if cs_keyframe (css ! m) then r else process_table (take m ticks)) (css ! m) = process_table (take (Suc m) ticks)"
    using tr tracker_diff_step [OF d ok, of r] by (cases "cs_keyframe (css ! m)") auto
qed

lemma silent_ticks:
  assumes "tracker_run (tracker_new every) ticks = (t', css)" and "m \<le> n" and "n \<le> length ticks"
    and "length (filter cs_emit (take m css)) = length (filter cs_emit (take n css))"
  shows "process_table (take m ticks) = process_table (take n ticks)"
  using assms(2-4)
proof (induction n rule: dec_induct)
  case (step n)
  have n: "n < length ticks" using step.prems(1) by simp
  then have len: "n < length css" using tracker_run_length [OF assms(1)] by simp
  have grow: "length (filter cs_emit (take m css)) \<le> length (filter cs_emit (take n css))"
    using step.hyps(1) by (metis filter_append length_append le_add1 min.absorb1 take_add le_add_diff_inverse)
  then have quiet: "\<not> cs_emit (css ! n)" and same: "length (filter cs_emit (take m css)) = length (filter cs_emit (take n css))"
    using step.prems(2) len by (auto simp: take_Suc_conv_app_nth split: if_splits)
  obtain t1 t2 where run: "tracker_run (tracker_new every) (take n ticks) = (t1, take n css)"
    and d: "tracker_diff t1 (fst (ticks ! n)) (snd (ticks ! n)) = (t2, css ! n)"
    using tracker_run_take [OF assms(1) n] by blast
  note tr = tracks_tableI [OF run, unfolded tracks_table_def]
  have ok: "hm_ok (ivt_prev t1)" using tr by simp
  have "take (Suc n) ticks = take n ticks @ [ticks ! n]"
    using n by (simp add: take_Suc_conv_app_nth)
  then have "process_table (take (Suc n) ticks) = process_table (take n ticks)"
    using tr tracker_diff_step [OF d ok, of Map.empty] silent_tick [OF d ok quiet] by simp
  then show ?case using step.IH same n by simp
qed simp

lemma receiver_step:
  assumes run: "tracker_run (tracker_new every) ticks = (t', css)" and few: "length ticks < 2 ^ 64"
    and sent: "cs \<in> set (filter cs_emit css)"
    and before: "\<And>n. synced = Some n \<Longrightarrow> \<exists>m \<le> length ticks. n = of_nat (length (filter cs_emit (take m css))) \<and> r = process_table (take m ticks)"
    and after: "guarded_receive (synced, r) cs = (Some n', r')"
  shows "\<exists>m \<le> length ticks. n' = of_nat (length (filter cs_emit (take m css))) \<and> r' = process_table (take m ticks)"
proof -
  have len: "length css = length ticks" using tracker_run_length [OF run] .
  obtain i where "i < length css" and i: "cs = css ! i" and e: "cs_emit (css ! i)"
    using sent by (auto simp: in_set_conv_nth)
  then have il: "i < length ticks" using len by simp
  note seq = emitted_batch(1) [OF run il e] and tab = emitted_batch(2) [OF run il e]
  have n': "n' = cs_sequence cs" and r': "r' = receive r cs" and ok: "cs_keyframe cs \<or> synced = Some (cs_sequence cs - 1)"
    using after by (auto simp: guarded_receive_def split: if_splits)
  have count: "length (filter cs_emit (take (Suc i) css)) = Suc (length (filter cs_emit (take i css)))"
    using \<open>i < length css\<close> e by (simp add: take_Suc_conv_app_nth)
  have "r' = process_table (take (Suc i) ticks)"
  proof (cases "cs_keyframe cs")
    case True
    then show ?thesis using tab [of r] r' i by simp
  next
    case False
    then obtain m where m: "m \<le> length ticks" "cs_sequence cs - 1 = of_nat (length (filter cs_emit (take m css)))"
      "r = process_table (take m ticks)" using ok before by blast
    have bounds: "length (filter cs_emit (take m css)) < 2 ^ 64" "length (filter cs_emit (take i css)) < 2 ^ 64"
      using few len length_filter_le [of cs_emit "take m css"] length_filter_le [of cs_emit "take i css"] by auto
    have "(of_nat (length (filter cs_emit (take m css))) :: u64) = of_nat (length (filter cs_emit (take i css)))"
      using m(2) seq i by simp
    then have "length (filter cs_emit (take m css)) = length (filter cs_emit (take i css))"
      using bounds by (rule of_nat_u64_inj)
    then have "process_table (take m ticks) = process_table (take i ticks)"
      using silent_ticks [OF run] m(1) il by (metis le_cases less_imp_le_nat)
    then show ?thesis using tab [of r] r' i m(3) False by simp
  qed
  then show ?thesis using n' seq i count il by (intro exI [of _ "Suc i"]) auto
qed

lemma receiver_run:
  assumes run: "tracker_run (tracker_new every) ticks = (t', css)" and few: "length ticks < 2 ^ 64"
    and sent: "set bs \<subseteq> set (filter cs_emit css)" and got: "foldl guarded_receive (None, r0) bs = (Some n, r)"
  shows "\<exists>m \<le> length ticks. n = of_nat (length (filter cs_emit (take m css))) \<and> r = process_table (take m ticks)"
  using sent got
proof (induction bs arbitrary: n r rule: rev_induct)
  case (snoc b bs)
  obtain synced r1 where st: "foldl guarded_receive (None, r0) bs = (synced, r1)" by fastforce
  have "\<exists>m \<le> length ticks. k = of_nat (length (filter cs_emit (take m css))) \<and> r1 = process_table (take m ticks)"
    if "synced = Some k" for k
    using snoc.IH [of k r1] snoc.prems(1) st that by simp
  then show ?case
    using receiver_step [OF run few, of b synced r1 n r] snoc.prems st by auto
qed simp

text \<open>
  C14 (safety). Batches may be lost, repeated or reordered on the way (through the spool they are): a receiver
  that applies a change only directly after the batch with the number before it, and otherwise waits
  for a keyframe, never holds a wrong table. Whatever batches of a run it gets, in whatever order and
  whatever it held at first, when it takes itself to be in step with number \<open>n\<close> it holds the process
  table of a tick by which exactly \<open>n\<close> batches had been sent.
\<close>

theorem guarded_receiver_never_wrong:
  assumes "tracker_run (tracker_new every) ticks = (t', css)" and "length ticks < 2 ^ 64"
    and "set bs \<subseteq> set (filter cs_emit css)"
    and "foldl guarded_receive (None, r0) bs = (Some n, r)"
  shows "\<exists>m \<le> length ticks. n = of_nat (length (filter cs_emit (take m css))) \<and> r = process_table (take m ticks)"
  using receiver_run [OF assms] .

definition shell_proc :: proc_inv where
  "shell_proc = \<lparr>pv_pid = 7, pv_ppid = 1, pv_start_time = 100, pv_name = ''sh''\<rparr>"

definition build_proc :: proc_inv where
  "build_proc = \<lparr>pv_pid = 9, pv_ppid = 7, pv_start_time = 130, pv_name = ''cc''\<rparr>"

definition no_owner :: owner_lookup where
  "no_owner pid = (None, None)"

definition demo_ticks :: "(proc_inv list \<times> owner_lookup) list" where
  "demo_ticks = [([shell_proc], no_owner), ([shell_proc, build_proc], no_owner), ([build_proc], no_owner), ([build_proc], no_owner)]"

text \<open>With a keyframe after every second tick the fourth batch is one; the third batch was lost.\<close>

lemma demo_run:
  "map (\<lambda>c. (cs_sequence c, cs_keyframe c, cs_emit c, map (\<lambda>k. (vc_op k, vc_pid k)) (cs_records c)))
       (snd (tracker_run (tracker_new 2) demo_ticks)) =
     [(1, True, True, [(Added, 7)]), (2, False, True, [(Added, 9)]), (3, False, True, [(Removed, 7)]),
      (4, True, True, [(Added, 9)])]"
  by code_simp

theorem guarded_receiver_never_wrong_witness:
  "\<exists>css n r. css = snd (tracker_run (tracker_new 2) demo_ticks) \<and>
     foldl guarded_receive (None, Map.empty) [css ! 0, css ! 1, css ! 3] = (Some n, r) \<and>
     (\<exists>m \<le> 4. n = of_nat (length (filter cs_emit (take m css))) \<and> r = process_table (take m demo_ticks))"
proof -
  obtain t css where run: "tracker_run (tracker_new 2) demo_ticks = (t, css)" by fastforce
  have shape: "map (\<lambda>c. (cs_sequence c, cs_keyframe c, cs_emit c, map (\<lambda>k. (vc_op k, vc_pid k)) (cs_records c))) css =
     [(1, True, True, [(Added, 7)]), (2, False, True, [(Added, 9)]), (3, False, True, [(Removed, 7)]),
      (4, True, True, [(Added, 9)])]"
    using demo_run run by simp
  then obtain c1 c2 c3 c4 where css: "css = [c1, c2, c3, c4]" by (auto simp: map_eq_Cons_conv)
  have "\<exists>r. foldl guarded_receive (None, Map.empty) [c1, c2, c4] = (Some 4, r)"
    using shape by (simp add: css guarded_receive_def)
  then obtain r where got: "foldl guarded_receive (None, Map.empty) [c1, c2, c4] = (Some 4, r)" ..
  have "\<exists>m \<le> length demo_ticks. (4 :: u64) = of_nat (length (filter cs_emit (take m css))) \<and> r = process_table (take m demo_ticks)"
    using guarded_receiver_never_wrong [OF run _ _ got] shape by (simp add: css demo_ticks_def)
  moreover have "length demo_ticks = 4" by (simp add: demo_ticks_def)
  ultimately show ?thesis using run got css by (intro exI [of _ css] exI [of _ 4] exI [of _ r]) simp
qed

section \<open>How often the whole table is sent\<close>

lemma last_residue: "e \<le> k mod Suc e \<longleftrightarrow> k mod Suc e = e"
  using mod_less_divisor [of "Suc e" k] by linarith

lemma keyframe_counter:
  assumes "tracker_run (tracker_new every) ticks = (t, css)" and "0 < every" and "length ticks < 2 ^ 64"
  shows "ivt_keyframe_every t = every \<and>
    (ticks = [] \<longrightarrow> ivt_sequence t = 0) \<and> (ticks \<noteq> [] \<longrightarrow> ivt_sequence t \<noteq> 0 \<and>
       unat (ivt_ticks_since_keyframe t) = (length ticks - 1) mod Suc (unat every))"
  using assms(1,3)
proof (induction ticks arbitrary: t css rule: rev_induct)
  case Nil
  then show ?case by (auto simp: tracker_new_def)
next
  case (snoc tick ticks)
  obtain current enrich where tick: "tick = (current, enrich)" by fastforce
  obtain t1 css1 where r1: "tracker_run (tracker_new every) ticks = (t1, css1)" by fastforce
  obtain cs where d: "tracker_diff t1 current enrich = (t, cs)" and css: "css = css1 @ [cs]"
    using snoc.prems by (auto simp: tick tracker_run_snoc r1 split: prod.splits)
  have ih: "ivt_keyframe_every t1 = every" "ticks = [] \<Longrightarrow> ivt_sequence t1 = 0"
    "ticks \<noteq> [] \<Longrightarrow> ivt_sequence t1 \<noteq> 0 \<and> unat (ivt_ticks_since_keyframe t1) = (length ticks - 1) mod Suc (unat every)"
    using snoc.IH [OF r1] snoc.prems(2) by auto
  note fl = tracker_diff_flags [OF d]
  let ?n = "length (filter cs_emit css)"
  have seq: "ivt_sequence t = of_nat ?n" using tracks_tableI [OF snoc.prems(1)] by (simp add: tracks_table_def)
  have "0 < ?n"
  proof (cases "cs_emit cs")
    case True
    then show ?thesis by (simp add: css)
  next
    case False
    then have "ivt_sequence t1 \<noteq> 0" using fl(4,6) by blast
    moreover have "ivt_sequence t1 = of_nat (length (filter cs_emit css1))"
      using tracks_tableI [OF r1] by (simp add: tracks_table_def)
    ultimately show ?thesis using False by (auto simp: css)
  qed
  moreover have "?n < 2 ^ 64"
    using length_filter_le [of cs_emit css] tracker_run_length [OF snoc.prems(1)] snoc.prems(2) by simp
  ultimately have nz: "ivt_sequence t \<noteq> 0" using seq of_nat_u64_inj [of ?n 0] by auto
  show ?case
  proof (cases "ticks = []")
    case True
    then have "cs_keyframe cs" using fl(4) ih(2) by simp
    then show ?thesis using fl(3,5) ih(1) nz True by simp
  next
    case False
    then obtain k where k: "length ticks = Suc k" by (cases ticks) auto
    let ?c = "k mod Suc (unat every)"
    have c: "unat (ivt_ticks_since_keyframe t1) = ?c" "ivt_sequence t1 \<noteq> 0" using ih(3) False k by auto
    have kf: "cs_keyframe cs \<longleftrightarrow> unat every \<le> ?c" using fl(4) ih(1) c assms(2) by (simp add: word_le_nat_alt)
    have full: "unat every \<le> ?c \<longleftrightarrow> ?c = unat every" by (rule last_residue)
    show ?thesis
    proof (cases "?c = unat every")
      case True
      then show ?thesis using kf full fl(3,5) ih(1) nz k by (simp add: mod_Suc)
    next
      case False
      have "unat (ivt_ticks_since_keyframe t1 + 1) = Suc ?c"
        using c False full unsigned_less [of every, where ?'a = nat] by (simp add: unat_word_ariths)
      then show ?thesis using kf full False fl(3,5) ih(1) nz k by (simp add: mod_Suc)
    qed
  qed
qed

text \<open>
  Further property (bounds). A receiver that lost its place is back within a bounded number of ticks: with a keyframe
  interval above zero the whole table is sent in the first tick and from then on in every tick whose
  number is a multiple of one more than the interval, and in no other.
\<close>

theorem keyframe_schedule:
  assumes "0 < every" and "length ticks < 2 ^ 64" and "n < length ticks"
  shows "cs_keyframe (snd (tracker_run (tracker_new every) ticks) ! n) \<longleftrightarrow> n mod (unat every + 1) = 0"
proof -
  obtain t css where run: "tracker_run (tracker_new every) ticks = (t, css)" by fastforce
  obtain t1 t2 where pre: "tracker_run (tracker_new every) (take n ticks) = (t1, take n css)"
    and d: "tracker_diff t1 (fst (ticks ! n)) (snd (ticks ! n)) = (t2, css ! n)"
    using tracker_run_take [OF run assms(3)] by blast
  have kc: "ivt_keyframe_every t1 = every" "take n ticks = [] \<Longrightarrow> ivt_sequence t1 = 0"
    "take n ticks \<noteq> [] \<Longrightarrow> ivt_sequence t1 \<noteq> 0 \<and> unat (ivt_ticks_since_keyframe t1) = (n - 1) mod Suc (unat every)"
    using keyframe_counter [OF pre assms(1)] assms(2,3) by auto
  note kf = tracker_diff_flags(4) [OF d]
  show ?thesis
  proof (cases n)
    case 0
    then show ?thesis using kf kc(2) run by simp
  next
    case (Suc k)
    then have "take n ticks \<noteq> []" using assms(3) by (cases ticks) auto
    then have "ivt_sequence t1 \<noteq> 0" "unat (ivt_ticks_since_keyframe t1) = k mod Suc (unat every)" using kc(3) Suc by auto
    then have "cs_keyframe (css ! n) \<longleftrightarrow> unat every \<le> k mod Suc (unat every)"
      using kf kc(1) assms(1) by (simp add: word_le_nat_alt)
    moreover have "unat every \<le> k mod Suc (unat every) \<longleftrightarrow> n mod Suc (unat every) = 0"
      using Suc last_residue [of "unat every" k] by (auto simp: mod_Suc)
    ultimately show ?thesis using run by simp
  qed
qed

theorem keyframe_schedule_witness:
  "cs_keyframe (snd (tracker_run (tracker_new 2) demo_ticks) ! 3)"
  using keyframe_schedule [of 2 demo_ticks 3] by (simp add: demo_ticks_def)

end
