(* ===== verification/Top_Processes.thy ===== *)
theory Top_Processes
  imports Inventory_Cdc Logs_Proto Rust_Words "HOL-Library.Product_Lexorder" "HOL-Library.Multiset"
begin

text \<open>
  What the host sampler makes of the process table, \<open>aic-server/src/otlp_exporter/process_io.rs\<close> and the
  process part of \<open>host_metrics.rs\<close>: I/O since the last tick, the owner read from \<open>/proc\<close>, and the
  processes worth reporting, by four measures, with one entry for the rest. The table itself comes
  from the crate \<open>sysinfo\<close> and is an argument, as is reading a file. A 64-bit float is its bit pattern;
  its order is that of the integers \<open>f64_key\<close>, its addition is an argument.
\<close>

section \<open>Floating-point order\<close>

type_synonym f64 = u64

definition f64_key :: "f64 \<Rightarrow> int" where
  "f64_key b = (let m = uint b mod 2 ^ 63 in if 2 ^ 63 \<le> uint b then - m else m)"

definition f64_nan :: "f64 \<Rightarrow> bool" where
  "f64_nan b \<longleftrightarrow> 0x7FF0000000000000 < uint b mod 2 ^ 63"

definition f64_pos :: "f64 \<Rightarrow> bool" where
  "f64_pos b \<longleftrightarrow> \<not> f64_nan b \<and> 0 < f64_key b"

section \<open>I/O of a process\<close>

datatype io_status = Measured | Baseline | PermissionDenied | IoUnavailable | Unsupported | Partial

fun io_status_as_str :: "io_status \<Rightarrow> str" where
  "io_status_as_str Measured = ''measured''"
| "io_status_as_str Baseline = ''baseline''"
| "io_status_as_str PermissionDenied = ''permission_denied''"
| "io_status_as_str IoUnavailable = ''unavailable''"
| "io_status_as_str Unsupported = ''unsupported''"
| "io_status_as_str Partial = ''partial''"

datatype io_error_kind = KindPermissionDenied | KindUnsupported | KindInvalidData | KindOther

type_synonym io_counters = "io_error_kind + u64 \<times> u64"

record process_io_tracker =
  pio_previous :: "(proc_key, u64 \<times> u64) hash_map"
  pio_seen :: "proc_key list"
  pio_denied :: nat
  pio_diagnostic_sent :: bool

definition pio_default :: process_io_tracker where
  "pio_default = \<lparr>pio_previous = [], pio_seen = [], pio_denied = 0, pio_diagnostic_sent = False\<rparr>"

definition pio_begin :: "process_io_tracker \<Rightarrow> process_io_tracker" where
  "pio_begin t = t\<lparr>pio_seen := [], pio_denied := 0\<rparr>"

definition pio_finish :: "process_io_tracker \<Rightarrow> process_io_tracker" where
  "pio_finish t = t\<lparr>pio_previous := filter (\<lambda>(k, _). k \<in> set (pio_seen t)) (pio_previous t)\<rparr>"

definition take_permission_diagnostic :: "process_io_tracker \<Rightarrow> process_io_tracker \<times> nat option" where
  "take_permission_diagnostic t =
     (if pio_denied t = 0 \<or> pio_diagnostic_sent t then (t, None)
      else (t\<lparr>pio_diagnostic_sent := True\<rparr>, Some (pio_denied t)))"

definition pio_observe :: "process_io_tracker \<Rightarrow> proc_key \<Rightarrow> io_counters \<Rightarrow> process_io_tracker \<times> (u64 \<times> u64 \<times> io_status)" where
  "pio_observe t key counters =
     (let t1 = t\<lparr>pio_seen := key # pio_seen t\<rparr> in
      case counters of
        Inr now \<Rightarrow>
          (t1\<lparr>pio_previous := hm_insert key now (pio_previous t1)\<rparr>,
           case hm_get (pio_previous t1) key of
             Some before \<Rightarrow> if fst before \<le> fst now \<and> snd before \<le> snd now
               then (fst now - fst before, snd now - snd before, Measured) else (0, 0, Baseline)
           | None \<Rightarrow> (0, 0, Baseline))
      | Inl e \<Rightarrow>
          (let t2 = t1\<lparr>pio_previous := hm_remove key (pio_previous t1)\<rparr> in
           case e of
             KindPermissionDenied \<Rightarrow> (t2\<lparr>pio_denied := pio_denied t2 + 1\<rparr>, 0, 0, PermissionDenied)
           | KindUnsupported \<Rightarrow> (t2, 0, 0, Unsupported)
           | _ \<Rightarrow> (t2, 0, 0, IoUnavailable)))"

definition counter_line :: "str \<Rightarrow> str \<Rightarrow> io_error_kind + u64" where
  "counter_line name txt =
     (case Option.bind (List.find (prefix name) (lines txt)) (\<lambda>l. parse_unsigned (2 ^ 64 - 1) 10 (trim (drop (length name) l))) of
        Some n \<Rightarrow> Inr (of_nat n) | None \<Rightarrow> Inl KindInvalidData)"

definition parse_counters :: "str \<Rightarrow> io_counters" where
  "parse_counters txt =
     (case counter_line ''read_bytes:'' txt of
        Inl e \<Rightarrow> Inl e
      | Inr r \<Rightarrow> (case counter_line ''write_bytes:'' txt of Inl e \<Rightarrow> Inl e | Inr w \<Rightarrow> Inr (r, w)))"

type_synonym read_file = "str \<Rightarrow> io_error_kind + str"

definition pio_sample :: "read_file \<Rightarrow> process_io_tracker \<Rightarrow> int \<Rightarrow> u64 \<Rightarrow> process_io_tracker \<times> (u64 \<times> u64 \<times> io_status)" where
  "pio_sample rd t pid start_time =
     pio_observe t (pid, start_time)
       (case rd (''/proc/'' @ int_dec pid @ ''/io'') of Inl e \<Rightarrow> Inl e | Inr txt \<Rightarrow> parse_counters txt)"

section \<open>The owner\<close>

definition parse_status_uid :: "str \<Rightarrow> u32 option" where
  "parse_status_uid status =
     (case List.find (prefix ''Uid:'') (lines status) of
        None \<Rightarrow> None
      | Some l \<Rightarrow> (case split_whitespace (drop 4 l) of
            [] \<Rightarrow> None | v # _ \<Rightarrow> map_option of_nat (parse_unsigned u32_max 10 v)))"

fun split_any :: "u8 list \<Rightarrow> str \<Rightarrow> str list" where
  "split_any seps [] = [[]]"
| "split_any seps (c # cs) =
     (if c \<in> set seps then [] # split_any seps cs
      else case split_any seps cs of [] \<Rightarrow> [[c]] | w # ws \<Rightarrow> (c # w) # ws)"

definition is_container_id :: "str \<Rightarrow> bool" where
  "is_container_id sg \<longleftrightarrow> length sg = 64 \<and> list_all (\<lambda>b. digit_of 16 b \<noteq> None) sg"

definition extract_container_id :: "str \<Rightarrow> str option" where
  "extract_container_id cgroup =
     List.find is_container_id (concat (map (split_any [CHR ''/'', CHR ''-'', CHR ''.'', CHR '':'', CHR ''_'']) (lines cgroup)))"

definition file_text :: "read_file \<Rightarrow> str \<Rightarrow> str option" where
  "file_text rd path = (case rd path of Inl _ \<Rightarrow> None | Inr txt \<Rightarrow> Some txt)"

definition enrich_process_owner :: "read_file \<Rightarrow> owner_lookup" where
  "enrich_process_owner rd pid =
     (Option.bind (file_text rd (''/proc/'' @ int_dec pid @ ''/status'')) parse_status_uid,
      Option.bind (file_text rd (''/proc/'' @ int_dec pid @ ''/cgroup'')) extract_container_id)"

section \<open>The process table\<close>

datatype thread_kind = Kernel | Userland

text \<open>One entry of \<open>sysinfo\<close>'s table, with the fields that are read.\<close>

record sys_process =
  sysp_pid :: u32
  sysp_parent :: "u32 option"
  sysp_start_time :: u64
  sysp_name :: str
  sysp_cpu_usage :: f64
  sysp_memory :: u64
  sysp_read_bytes :: u64
  sysp_written_bytes :: u64
  sysp_thread_kind :: "thread_kind option"

definition is_userland_thread :: "sys_process \<Rightarrow> bool" where
  "is_userland_thread p \<longleftrightarrow> sysp_thread_kind p = Some Userland"

definition real_processes :: "sys_process list \<Rightarrow> sys_process list" where
  "real_processes sys = filter (\<lambda>p. \<not> is_userland_thread p) sys"

definition collect_process_inventory :: "sys_process list \<Rightarrow> proc_inv list" where
  "collect_process_inventory sys = map (\<lambda>p. \<lparr>pv_pid = uint (sysp_pid p),
     pv_ppid = (case sysp_parent p of None \<Rightarrow> 0 | Some pp \<Rightarrow> uint pp), pv_start_time = sysp_start_time p,
     pv_name = sysp_name p\<rparr>) (real_processes sys)"

section \<open>The processes worth reporting\<close>

record process_sample =
  psm_name :: str
  psm_pid :: int
  psm_cpu_pct :: f64
  psm_rss_bytes :: u64
  psm_disk_read_bytes :: u64
  psm_disk_write_bytes :: u64
  psm_io_status :: "io_status option"
  psm_start_time :: u64
  psm_uid :: "u32 option"
  psm_container_id :: "str option"
  psm_fd_count :: "u32 option"

definition top_process_count :: nat where
  "top_process_count = 10"

definition rest_bucket_name :: str where
  "rest_bucket_name = ''__rest__''"

definition disk_io :: "process_sample \<Rightarrow> u64" where
  "disk_io p = sat_add64 (psm_disk_read_bytes p) (psm_disk_write_bytes p)"

definition fd_of :: "process_sample \<Rightarrow> u32" where
  "fd_of p = (case psm_fd_count p of None \<Rightarrow> 0 | Some n \<Rightarrow> n)"

text \<open>The indices with a positive measure, the greatest first, lower process ids first among equals.\<close>

definition ranking :: "(process_sample \<Rightarrow> int) \<Rightarrow> (process_sample \<Rightarrow> bool) \<Rightarrow> process_sample list \<Rightarrow> nat list" where
  "ranking measured positive all =
     sort_key (\<lambda>i. (- measured (all ! i), psm_pid (all ! i))) (filter (\<lambda>i. positive (all ! i)) [0..<length all])"

definition by_cpu :: "process_sample list \<Rightarrow> nat list" where
  "by_cpu = ranking (\<lambda>p. f64_key (psm_cpu_pct p)) (\<lambda>p. f64_pos (psm_cpu_pct p))"

definition by_mem :: "process_sample list \<Rightarrow> nat list" where
  "by_mem = ranking (\<lambda>p. uint (psm_rss_bytes p)) (\<lambda>p. 0 < psm_rss_bytes p)"

definition by_disk :: "process_sample list \<Rightarrow> nat list" where
  "by_disk = ranking (\<lambda>p. uint (disk_io p)) (\<lambda>p. 0 < disk_io p)"

definition by_fd :: "process_sample list \<Rightarrow> nat list" where
  "by_fd = ranking (\<lambda>p. uint (fd_of p)) (\<lambda>p. 0 < fd_of p)"

definition keep_indices :: "process_sample list \<Rightarrow> nat \<Rightarrow> nat list" where
  "keep_indices all n = take n (by_cpu all) @ take n (by_mem all) @ take n (by_disk all) @ take n (by_fd all)"

definition sat_add32 :: "u32 \<Rightarrow> u32 \<Rightarrow> u32" where
  "sat_add32 a b = (if unat a + unat b < 2 ^ 32 then a + b else - 1)"

definition empty_rest :: "process_sample list \<Rightarrow> process_sample" where
  "empty_rest all = \<lparr>psm_name = rest_bucket_name, psm_pid = 0, psm_cpu_pct = 0, psm_rss_bytes = 0,
     psm_disk_read_bytes = 0, psm_disk_write_bytes = 0,
     psm_io_status = (if list_ex (\<lambda>p. psm_io_status p \<noteq> None) all then Some Measured else None),
     psm_start_time = 0, psm_uid = None, psm_container_id = None, psm_fd_count = None\<rparr>"

definition fold_rest :: "(f64 \<Rightarrow> f64 \<Rightarrow> f64) \<Rightarrow> process_sample \<Rightarrow> process_sample \<Rightarrow> process_sample" where
  "fold_rest add r p = r\<lparr>
     psm_io_status := (if psm_io_status p \<noteq> None \<and> psm_io_status p \<noteq> Some Measured then Some Partial else psm_io_status r),
     psm_cpu_pct := add (psm_cpu_pct r) (psm_cpu_pct p),
     psm_rss_bytes := sat_add64 (psm_rss_bytes r) (psm_rss_bytes p),
     psm_disk_read_bytes := sat_add64 (psm_disk_read_bytes r) (psm_disk_read_bytes p),
     psm_disk_write_bytes := sat_add64 (psm_disk_write_bytes r) (psm_disk_write_bytes p),
     psm_fd_count := (case psm_fd_count p of None \<Rightarrow> psm_fd_count r
        | Some fd \<Rightarrow> Some (sat_add32 (case psm_fd_count r of None \<Rightarrow> 0 | Some x \<Rightarrow> x) fd))\<rparr>"

definition rest_worth_sending :: "process_sample \<Rightarrow> bool" where
  "rest_worth_sending r \<longleftrightarrow> f64_pos (psm_cpu_pct r) \<or> 0 < psm_rss_bytes r \<or> 0 < disk_io r \<or> 0 < fd_of r \<or>
     psm_io_status r = Some Partial"

definition select_top_processes :: "(f64 \<Rightarrow> f64 \<Rightarrow> f64) \<Rightarrow> process_sample list \<Rightarrow> nat \<Rightarrow> process_sample list" where
  "select_top_processes add all n =
     (if n = 0 then []
      else let keep = keep_indices all n;
               result = map ((!) all) (filter (\<lambda>i. i \<in> set keep) [0..<length all]);
               rest = foldl (fold_rest add) (empty_rest all) (map ((!) all) (filter (\<lambda>i. i \<notin> set keep) [0..<length all]));
               sorted_result = sort_key (\<lambda>p. (- f64_key (psm_cpu_pct p), psm_pid p)) result
           in if rest_worth_sending rest then sorted_result @ [rest] else sorted_result)"

definition top_process_rss :: "u64 list \<Rightarrow> u64 option" where
  "top_process_rss memories = (if memories = [] then None
     else let m = Max (set memories) in if 0 < m then Some m else None)"

text \<open>Every process is sampled once, with the tracker when there is one.\<close>

definition sample_process :: "read_file \<Rightarrow> (int \<Rightarrow> u32 option) \<Rightarrow> process_io_tracker option \<times> process_sample list \<Rightarrow> sys_process \<Rightarrow>
    process_io_tracker option \<times> process_sample list" where
  "sample_process rd fds st p =
     (let (tracker, out) = st;
          pid = uint (sysp_pid p);
          (tracker', r, w, status) = (case tracker of
              Some t \<Rightarrow> (let (t', r, w, s) = pio_sample rd t pid (sysp_start_time p) in (Some t', r, w, Some s))
            | None \<Rightarrow> (None, sysp_read_bytes p, sysp_written_bytes p, None))
      in (tracker', out @ [\<lparr>psm_name = sysp_name p, psm_pid = pid, psm_cpu_pct = sysp_cpu_usage p,
            psm_rss_bytes = sysp_memory p, psm_disk_read_bytes = r, psm_disk_write_bytes = w, psm_io_status = status,
            psm_start_time = sysp_start_time p, psm_uid = None, psm_container_id = None, psm_fd_count = fds pid\<rparr>]))"

definition collect_top_processes :: "(f64 \<Rightarrow> f64 \<Rightarrow> f64) \<Rightarrow> read_file \<Rightarrow> (int \<Rightarrow> u32 option) \<Rightarrow> sys_process list \<Rightarrow> nat \<Rightarrow>
    process_io_tracker option \<Rightarrow> process_io_tracker option \<times> process_sample list" where
  "collect_top_processes add rd fds sys n tracker =
     (let (tracker', all) = foldl (sample_process rd fds) (map_option pio_begin tracker, []) (real_processes sys);
          top = select_top_processes add all n
      in (map_option pio_finish tracker',
          map (\<lambda>s. if 0 < psm_pid s then (let (uid, cid) = enrich_process_owner rd (psm_pid s)
                 in s\<lparr>psm_uid := uid, psm_container_id := cid\<rparr>) else s) top))"

section \<open>I/O is counted exactly\<close>

text \<open>One tick of the tracker over the processes it meets.\<close>

fun pio_observe_all :: "process_io_tracker \<Rightarrow> (proc_key \<times> io_counters) list \<Rightarrow> process_io_tracker \<times> (u64 \<times> u64 \<times> io_status) list" where
  "pio_observe_all t [] = (t, [])"
| "pio_observe_all t ((k, c) # obs) =
     (let (t1, out) = pio_observe t k c; (t2, outs) = pio_observe_all t1 obs in (t2, out # outs))"

definition pio_tick :: "process_io_tracker \<Rightarrow> (proc_key \<times> io_counters) list \<Rightarrow> process_io_tracker \<times> (u64 \<times> u64 \<times> io_status) list" where
  "pio_tick t obs = (let (t1, outs) = pio_observe_all (pio_begin t) obs in (pio_finish t1, outs))"

lemma pio_observe_state:
  assumes "pio_observe t k c = (t', out)"
  shows "pio_seen t' = k # pio_seen t"
    and "hm_get (pio_previous t') = (hm_get (pio_previous t))(k := (case c of Inr now \<Rightarrow> Some now | Inl _ \<Rightarrow> None))"
    and "hm_ok (pio_previous t) \<Longrightarrow> hm_ok (pio_previous t')"
  using assms by (auto simp: pio_observe_def Let_def fun_eq_iff split: sum.splits io_error_kind.splits)

lemma pio_observe_all_state:
  assumes "pio_observe_all t obs = (t', outs)" and "distinct (map fst obs)" and "hm_ok (pio_previous t)"
  shows "set (pio_seen t') = set (pio_seen t) \<union> fst ` set obs \<and> hm_ok (pio_previous t') \<and>
    (\<forall>k. hm_get (pio_previous t') k =
       (case map_of obs k of Some (Inr now) \<Rightarrow> Some now | Some (Inl _) \<Rightarrow> None | None \<Rightarrow> hm_get (pio_previous t) k))"
  using assms
proof (induction t obs arbitrary: t' outs rule: pio_observe_all.induct)
  case (2 t k c obs)
  obtain t1 out where o: "pio_observe t k c = (t1, out)" by (rule prod.exhaust)
  obtain t2 outs' where r: "pio_observe_all t1 obs = (t2, outs')" by fastforce
  have t': "t' = t2" using "2.prems"(1) o r by simp
  have notin: "map_of obs k = None" using "2.prems"(2) by (auto simp: map_of_eq_None_iff)
  note st = pio_observe_state [OF o]
  note ih = "2.IH" [OF o [symmetric] refl r]
  show ?case using ih "2.prems" st t' notin by (auto split: sum.splits option.splits)
qed auto

lemma map_of_filter_keys: "map_of (filter (\<lambda>(k, _). P k) m) k = (if P k then map_of m k else None)"
  by (induction m) auto

text \<open>What a tick leaves behind is what it read, whatever was there before.\<close>

lemma pio_tick_state:
  assumes "pio_tick t obs = (t', outs)" and "distinct (map fst obs)" and "hm_ok (pio_previous t)"
  shows "hm_ok (pio_previous t') \<and>
    hm_get (pio_previous t') k = (case map_of obs k of Some (Inr now) \<Rightarrow> Some now | _ \<Rightarrow> None)"
proof -
  obtain t1 where o: "pio_observe_all (pio_begin t) obs = (t1, outs)" and t': "t' = pio_finish t1"
    using assms(1) by (auto simp: pio_tick_def split: prod.splits)
  have "hm_ok (pio_previous (pio_begin t))" using assms(3) by (simp add: pio_begin_def)
  note st = pio_observe_all_state [OF o assms(2) this]
  have seen: "set (pio_seen t1) = fst ` set obs" using st by (simp add: pio_begin_def)
  have ok: "hm_ok (pio_previous t1)" using st by simp
  have "hm_ok (pio_previous t')" using ok by (simp add: t' pio_finish_def hm_ok_def distinct_map_filter)
  moreover have "hm_get (pio_previous t') k = (if k \<in> fst ` set obs then hm_get (pio_previous t1) k else None)"
    by (simp add: t' pio_finish_def seen map_of_filter_keys)
  moreover have "k \<in> fst ` set obs \<longleftrightarrow> map_of obs k \<noteq> None" by (simp add: map_of_eq_None_iff)
  moreover have "hm_get (pio_previous t1) k =
      (case map_of obs k of Some (Inr now) \<Rightarrow> Some now | Some (Inl _) \<Rightarrow> None | None \<Rightarrow> hm_get (pio_previous (pio_begin t)) k)"
    using st by blast
  ultimately show ?thesis by (cases "map_of obs k") (simp_all split: sum.splits)
qed

lemma pio_observe_out:
  assumes "pio_observe t k c = (t', out)"
  shows "out = (case c of
      Inr now \<Rightarrow> (case hm_get (pio_previous t) k of
          Some before \<Rightarrow> if fst before \<le> fst now \<and> snd before \<le> snd now
            then (fst now - fst before, snd now - snd before, Measured) else (0, 0, Baseline)
        | None \<Rightarrow> (0, 0, Baseline))
    | Inl e \<Rightarrow> (0, 0, case e of KindPermissionDenied \<Rightarrow> PermissionDenied | KindUnsupported \<Rightarrow> Unsupported | _ \<Rightarrow> IoUnavailable))"
  using assms by (auto simp: pio_observe_def Let_def split: sum.splits io_error_kind.splits)

lemma pio_observe_all_out:
  assumes "pio_observe_all t obs = (t', outs)" and "distinct (map fst obs)" and "i < length obs"
  shows "\<exists>t1 t2. pio_observe t1 (fst (obs ! i)) (snd (obs ! i)) = (t2, outs ! i) \<and>
    hm_get (pio_previous t1) (fst (obs ! i)) = hm_get (pio_previous t) (fst (obs ! i))"
  using assms
proof (induction t obs arbitrary: t' outs i rule: pio_observe_all.induct)
  case (2 t k c obs)
  obtain t1 out where o: "pio_observe t k c = (t1, out)" by (rule prod.exhaust)
  obtain t2 outs' where r: "pio_observe_all t1 obs = (t2, outs')" by (rule prod.exhaust)
  have outs: "outs = out # outs'" using "2.prems"(1) o r by simp
  show ?case
  proof (cases i)
    case 0
    then show ?thesis using o outs by auto
  next
    case (Suc j)
    then have j: "j < length obs" using "2.prems"(3) by simp
    then have "fst (obs ! j) \<noteq> k" using "2.prems"(2) by (auto dest: nth_mem)
    then show ?thesis
      using "2.IH" [OF o [symmetric] refl r _ j] "2.prems"(2) Suc outs pio_observe_state(2) [OF o] by simp
  qed
qed simp

text \<open>
  Further property (functional). I/O is neither counted twice nor invented. When two ticks follow each other, whatever went
  before them, a process is reported as measured exactly when both ticks could read its counters and
  they did not go down, and then with the difference of the two readings; in every other case nothing
  is counted: a process just seen, one that was missing or unreadable in between, and a process id
  that was reused, because its start time makes it another process.
\<close>

theorem io_deltas_exact:
  assumes "pio_tick t obs = (t1, outs)" and "pio_tick t1 obs' = (t2, outs')" and "hm_ok (pio_previous t)"
    and "distinct (map fst obs)" and "distinct (map fst obs')" and "i < length obs'"
  shows "outs' ! i = (case (map_of obs (fst (obs' ! i)), snd (obs' ! i)) of
      (Some (Inr (r, w)), Inr (r', w')) \<Rightarrow> if r \<le> r' \<and> w \<le> w' then (r' - r, w' - w, Measured) else (0, 0, Baseline)
    | (_, Inr _) \<Rightarrow> (0, 0, Baseline)
    | (_, Inl e) \<Rightarrow> (0, 0, case e of KindPermissionDenied \<Rightarrow> PermissionDenied | KindUnsupported \<Rightarrow> Unsupported | _ \<Rightarrow> IoUnavailable))"
proof -
  obtain t3 where o: "pio_observe_all (pio_begin t1) obs' = (t3, outs')"
    using assms(2) by (auto simp: pio_tick_def split: prod.splits)
  obtain ta tb where ob: "pio_observe ta (fst (obs' ! i)) (snd (obs' ! i)) = (tb, outs' ! i)"
    and prev: "hm_get (pio_previous ta) (fst (obs' ! i)) = hm_get (pio_previous (pio_begin t1)) (fst (obs' ! i))"
    using pio_observe_all_out [OF o assms(5,6)] by blast
  have "hm_get (pio_previous t1) (fst (obs' ! i)) = (case map_of obs (fst (obs' ! i)) of Some (Inr now) \<Rightarrow> Some now | _ \<Rightarrow> None)"
    using pio_tick_state [OF assms(1,4,3)] by blast
  then show ?thesis
    using pio_observe_out [OF ob] prev by (auto simp: pio_begin_def split: option.splits sum.splits)
qed

theorem io_deltas_exact_witness:
  "snd (pio_tick (fst (pio_tick pio_default [((7, 1), Inr (30, 40))])) [((7, 1), Inr (31, 45)), ((7, 2), Inr (99, 99))]) ! 0
     = (1, 5, Measured)"
proof -
  obtain t1 outs where a: "pio_tick pio_default [((7, 1), Inr (30, 40))] = (t1, outs)" by (rule prod.exhaust)
  obtain t2 outs' where b: "pio_tick t1 [((7, 1), Inr (31, 45)), ((7, 2), Inr (99, 99))] = (t2, outs')" by (rule prod.exhaust)
  show ?thesis using io_deltas_exact [OF a b, of 0] a b by (simp add: pio_default_def)
qed

section \<open>Nothing is lost in the selection\<close>

definition kept :: "process_sample list \<Rightarrow> nat \<Rightarrow> process_sample list" where
  "kept all n = map ((!) all) (filter (\<lambda>i. i \<in> set (keep_indices all n)) [0..<length all])"

definition left_out :: "process_sample list \<Rightarrow> nat \<Rightarrow> process_sample list" where
  "left_out all n = map ((!) all) (filter (\<lambda>i. i \<notin> set (keep_indices all n)) [0..<length all])"

definition rest_of :: "(f64 \<Rightarrow> f64 \<Rightarrow> f64) \<Rightarrow> process_sample list \<Rightarrow> nat \<Rightarrow> process_sample" where
  "rest_of add all n = foldl (fold_rest add) (empty_rest all) (left_out all n)"

lemma select_alt:
  "0 < n \<Longrightarrow> select_top_processes add all n = sort_key (\<lambda>p. (- f64_key (psm_cpu_pct p), psm_pid p)) (kept all n) @
     (if rest_worth_sending (rest_of add all n) then [rest_of add all n] else [])"
  by (simp add: select_top_processes_def kept_def left_out_def rest_of_def Let_def)

lemma mset_filter_parts: "mset (filter P xs) + mset (filter (\<lambda>x. \<not> P x) xs) = mset xs"
  by (simp only: mset_filter multiset_partition [symmetric])

lemma kept_left_out: "mset (kept all n) + mset (left_out all n) = mset all"
proof -
  let ?P = "\<lambda>i. i \<in> set (keep_indices all n)"
  have "mset (kept all n) + mset (left_out all n) =
      image_mset ((!) all) (mset (filter ?P [0..<length all]) + mset (filter (\<lambda>i. \<not> ?P i) [0..<length all]))"
    by (simp only: kept_def left_out_def mset_map image_mset_union)
  also have "\<dots> = mset (map ((!) all) [0..<length all])" by (simp only: mset_filter_parts mset_map)
  finally show ?thesis by (simp only: map_nth)
qed

text \<open>A measure that the entry for the rest adds up, with its largest value.\<close>

locale saturating_total =
  fixes g :: "process_sample \<Rightarrow> nat" and mx :: nat
  assumes folds: "g (fold_rest add r p) = min (g r + g p) mx"
    and empty: "g (empty_rest all) = 0"
    and counts: "0 < g r \<Longrightarrow> rest_worth_sending r"
begin

lemma rest_total: "g (foldl (fold_rest add) r ps) = (if ps = [] then g r else min (g r + sum_list (map g ps)) mx)"
proof (induction ps arbitrary: r)
  case (Cons p ps)
  then show ?case by (cases ps) (auto simp: folds min_def)
qed simp

lemma total_kept:
  assumes "0 < n" and "sum_list (map g all) \<le> mx"
  shows "sum_list (map g (select_top_processes add all n)) = sum_list (map g all)"
proof -
  have "sum_list (map g all) = sum_list (map g (kept all n)) + sum_list (map g (left_out all n))"
    using kept_left_out [of all n] by (metis image_mset_union mset_map sum_mset.union sum_mset_sum_list)
  moreover have "g (rest_of add all n) = sum_list (map g (left_out all n))"
    using rest_total [of add "empty_rest all" "left_out all n"] assms(2) calculation by (auto simp: rest_of_def empty)
  moreover have "sum_list (map g (sort_key f (kept all n))) = sum_list (map g (kept all n))" for f :: "process_sample \<Rightarrow> int \<times> int"
    by (metis mset_map mset_sort sum_mset_sum_list)
  moreover have "\<not> rest_worth_sending (rest_of add all n) \<Longrightarrow> g (rest_of add all n) = 0"
    using counts by fastforce
  ultimately show ?thesis using assms(1) by (auto simp: select_alt)
qed

end

lemma unat_sat_add32: "unat (sat_add32 a b) = min (unat a + unat b) (2 ^ 32 - 1)"
proof (cases "unat a + unat b < 2 ^ 32")
  case True
  then show ?thesis by (simp add: sat_add32_def unat_word_ariths)
next
  case False
  have "unat (- 1 :: u32) = 2 ^ 32 - 1" by (simp add: unsigned_minus_1_eq_mask mask_eq_exp_minus_1)
  with False show ?thesis by (simp add: sat_add32_def)
qed

lemma disk_io_positive: "0 < disk_io p \<longleftrightarrow> 0 < psm_disk_read_bytes p \<or> 0 < psm_disk_write_bytes p"
  by (auto simp: disk_io_def word_less_nat_alt unat_sat_add64)

interpretation rss_total: saturating_total "\<lambda>p. unat (psm_rss_bytes p)" "2 ^ 64 - 1"
  by unfold_locales (auto simp: fold_rest_def empty_rest_def unat_sat_add64 rest_worth_sending_def unat_gt_0 word_neq_0_conv)

interpretation read_total: saturating_total "\<lambda>p. unat (psm_disk_read_bytes p)" "2 ^ 64 - 1"
  by unfold_locales (auto simp: fold_rest_def empty_rest_def unat_sat_add64 rest_worth_sending_def unat_gt_0 word_neq_0_conv disk_io_positive)

interpretation write_total: saturating_total "\<lambda>p. unat (psm_disk_write_bytes p)" "2 ^ 64 - 1"
  by unfold_locales (auto simp: fold_rest_def empty_rest_def unat_sat_add64 rest_worth_sending_def unat_gt_0 word_neq_0_conv disk_io_positive)

interpretation fd_total: saturating_total "\<lambda>p. unat (fd_of p)" "2 ^ 32 - 1"
proof unfold_locales
  fix add r p
  show "unat (fd_of (fold_rest add r p)) = min (unat (fd_of r) + unat (fd_of p)) (2 ^ 32 - 1)"
    using unat32_less [of "fd_of r"]
    by (auto simp: fold_rest_def fd_of_def unat_sat_add32 split: option.splits)
qed (auto simp: empty_rest_def fd_of_def rest_worth_sending_def unat_gt_0 word_neq_0_conv)

section \<open>No large consumer is left out\<close>

lemma ranking_set: "set (ranking f pos all) = {i. i < length all \<and> pos (all ! i)}"
  by (auto simp: ranking_def)

lemma ranking_left_out:
  assumes "i < length all" and "pos (all ! i)" and "i \<notin> set (take n (ranking f pos all))"
  shows "\<exists>S. S \<subseteq> set (take n (ranking f pos all)) \<and> card S = n \<and> (\<forall>j\<in>S. f (all ! i) \<le> f (all ! j))"
proof -
  let ?L = "ranking f pos all"
  let ?k = "\<lambda>i. (- f (all ! i), psm_pid (all ! i))"
  have "i \<in> set (drop n ?L)"
    using assms ranking_set [of f pos all] by (metis (mono_tags, lifting) Un_iff append_take_drop_id mem_Collect_eq set_append)
  moreover have "sorted (map ?k ?L)" by (simp add: ranking_def)
  then have "sorted (map ?k (take n ?L) @ map ?k (drop n ?L))" by (simp flip: map_append)
  ultimately have "\<forall>j\<in>set (take n ?L). ?k j \<le> ?k i" by (auto simp: sorted_append)
  then have "\<forall>j\<in>set (take n ?L). f (all ! i) \<le> f (all ! j)" by (auto simp: less_eq_prod_def)
  moreover have "distinct ?L" by (simp add: ranking_def)
  then have "card (set (take n ?L)) = length (take n ?L)" by (simp add: distinct_card distinct_take)
  moreover have "n < length ?L" using \<open>i \<in> set (drop n ?L)\<close> by (cases "n < length ?L") auto
  ultimately show ?thesis by (intro exI [of _ "set (take n ?L)"]) simp
qed

lemma kept_length: "length (kept all n) \<le> 4 * n"
proof -
  let ?A = "filter (\<lambda>i. i \<in> set (keep_indices all n)) [0..<length all]"
  have "length ?A = card (set ?A)" by (rule distinct_card [symmetric]) simp
  also have "\<dots> \<le> card (set (keep_indices all n))" by (rule card_mono) auto
  also have "\<dots> \<le> length (keep_indices all n)" by (rule card_length)
  also have "\<dots> \<le> 4 * n" by (simp add: keep_indices_def)
  finally show ?thesis by (simp add: kept_def)
qed

lemma kept_image: "keep_indices all n \<noteq> [] \<Longrightarrow> set (keep_indices all n) \<subseteq> {..<length all}"
  by (auto simp: keep_indices_def by_cpu_def by_mem_def by_disk_def by_fd_def ranking_set dest!: in_set_takeD)

text \<open>
  C18 (invariant). Usage outside the reported processes is not lost: whatever the limit above zero, the resident
  memory, the bytes read and written and the open files of the reported entries add up to those of all
  processes (when the sums fit their types), because what is left out is added to the entry for the
  rest, and that entry is left out only when it is empty. At most four times the limit and one entry
  are reported.
\<close>

theorem selection_keeps_totals:
  assumes "0 < n"
  shows "(sum_list (map (\<lambda>p. unat (psm_rss_bytes p)) all) < 2 ^ 64 \<longrightarrow>
      sum_list (map (\<lambda>p. unat (psm_rss_bytes p)) (select_top_processes add all n)) = sum_list (map (\<lambda>p. unat (psm_rss_bytes p)) all)) \<and>
    (sum_list (map (\<lambda>p. unat (psm_disk_read_bytes p)) all) < 2 ^ 64 \<longrightarrow>
      sum_list (map (\<lambda>p. unat (psm_disk_read_bytes p)) (select_top_processes add all n)) = sum_list (map (\<lambda>p. unat (psm_disk_read_bytes p)) all)) \<and>
    (sum_list (map (\<lambda>p. unat (psm_disk_write_bytes p)) all) < 2 ^ 64 \<longrightarrow>
      sum_list (map (\<lambda>p. unat (psm_disk_write_bytes p)) (select_top_processes add all n)) = sum_list (map (\<lambda>p. unat (psm_disk_write_bytes p)) all)) \<and>
    (sum_list (map (\<lambda>p. unat (fd_of p)) all) < 2 ^ 32 \<longrightarrow>
      sum_list (map (\<lambda>p. unat (fd_of p)) (select_top_processes add all n)) = sum_list (map (\<lambda>p. unat (fd_of p)) all)) \<and>
    length (select_top_processes add all n) \<le> 4 * n + 1"
  using rss_total.total_kept [OF assms, of all add] read_total.total_kept [OF assms, of all add]
    write_total.total_kept [OF assms, of all add] fd_total.total_kept [OF assms, of all add] kept_length [of all n]
  by (auto simp: select_alt [OF assms])

definition sample_proc :: "int \<Rightarrow> u64 \<Rightarrow> u64 \<Rightarrow> process_sample" where
  "sample_proc pid rss written = \<lparr>psm_name = ''p'', psm_pid = pid, psm_cpu_pct = 0, psm_rss_bytes = rss,
     psm_disk_read_bytes = 0, psm_disk_write_bytes = written, psm_io_status = None, psm_start_time = 0,
     psm_uid = None, psm_container_id = None, psm_fd_count = None\<rparr>"

theorem selection_keeps_totals_witness:
  "sum_list (map (\<lambda>p. unat (psm_rss_bytes p)) (select_top_processes (\<lambda>a b. a) [sample_proc 1 5 0, sample_proc 2 9 0, sample_proc 3 7 0] 1)) = 21"
  using selection_keeps_totals [of 1 "[sample_proc 1 5 0, sample_proc 2 9 0, sample_proc 3 7 0]" "\<lambda>a b. a"] by (simp add: sample_proc_def)

text \<open>
  Further property (safety). No large consumer hides: a process that is left out and uses a resource at all is outdone, in
  that resource, by as many processes as the limit says, all of them reported. This holds for
  processor time, resident memory, disk traffic and open files alike.
\<close>

theorem large_consumers_reported:
  assumes "i < length all" and "i \<notin> set (keep_indices all n)"
  shows "(f64_pos (psm_cpu_pct (all ! i)) \<longrightarrow> (\<exists>S \<subseteq> set (keep_indices all n). card S = n \<and>
      (\<forall>j\<in>S. all ! j \<in> set (kept all n) \<and> f64_key (psm_cpu_pct (all ! i)) \<le> f64_key (psm_cpu_pct (all ! j))))) \<and>
    (0 < psm_rss_bytes (all ! i) \<longrightarrow> (\<exists>S \<subseteq> set (keep_indices all n). card S = n \<and>
      (\<forall>j\<in>S. all ! j \<in> set (kept all n) \<and> psm_rss_bytes (all ! i) \<le> psm_rss_bytes (all ! j)))) \<and>
    (0 < disk_io (all ! i) \<longrightarrow> (\<exists>S \<subseteq> set (keep_indices all n). card S = n \<and>
      (\<forall>j\<in>S. all ! j \<in> set (kept all n) \<and> disk_io (all ! i) \<le> disk_io (all ! j)))) \<and>
    (0 < fd_of (all ! i) \<longrightarrow> (\<exists>S \<subseteq> set (keep_indices all n). card S = n \<and>
      (\<forall>j\<in>S. all ! j \<in> set (kept all n) \<and> fd_of (all ! i) \<le> fd_of (all ! j))))"
proof -
  have mem: "j \<in> set (keep_indices all n) \<Longrightarrow> all ! j \<in> set (kept all n)" for j
    using kept_image [of all n] by (cases "keep_indices all n = []") (auto simp: kept_def)
  have parts: "set (take n (by_cpu all)) \<subseteq> set (keep_indices all n)" "set (take n (by_mem all)) \<subseteq> set (keep_indices all n)"
    "set (take n (by_disk all)) \<subseteq> set (keep_indices all n)" "set (take n (by_fd all)) \<subseteq> set (keep_indices all n)"
    by (auto simp: keep_indices_def)
  have axis: "\<exists>S \<subseteq> set (keep_indices all n). card S = n \<and> (\<forall>j\<in>S. all ! j \<in> set (kept all n) \<and> f (all ! i) \<le> f (all ! j))"
    if "pos (all ! i)" and sub: "set (take n (ranking f pos all)) \<subseteq> set (keep_indices all n)" for f pos
  proof -
    have "i \<notin> set (take n (ranking f pos all))" using assms(2) sub by blast
    from ranking_left_out [OF assms(1) that(1) this]
    obtain S where "S \<subseteq> set (take n (ranking f pos all))" "card S = n" "\<forall>j\<in>S. f (all ! i) \<le> f (all ! j)" by blast
    then show ?thesis using sub mem by (intro exI [of _ S]) blast
  qed
  show ?thesis
    using axis [of "\<lambda>p. f64_pos (psm_cpu_pct p)" "\<lambda>p. f64_key (psm_cpu_pct p)"]
      axis [of "\<lambda>p. 0 < psm_rss_bytes p" "\<lambda>p. uint (psm_rss_bytes p)"]
      axis [of "\<lambda>p. 0 < disk_io p" "\<lambda>p. uint (disk_io p)"]
      axis [of "\<lambda>p. 0 < fd_of p" "\<lambda>p. uint (fd_of p)"] parts
    unfolding by_cpu_def by_mem_def by_disk_def by_fd_def word_le_def by blast
qed

theorem large_consumers_reported_witness:
  "\<exists>S \<subseteq> set (keep_indices [sample_proc 1 5 0, sample_proc 2 9 0] 1). card S = 1"
proof -
  let ?all = "[sample_proc 1 5 0, sample_proc 2 9 0]"
  have "keep_indices ?all 1 = [1]"
    by (simp add: keep_indices_def by_cpu_def by_mem_def by_disk_def by_fd_def ranking_def sample_proc_def f64_pos_def
        f64_key_def disk_io_def sat_add64_def fd_of_def upt_rec less_eq_prod_def)
  then have "0 < length ?all" "0 \<notin> set (keep_indices ?all 1)" "0 < psm_rss_bytes (?all ! 0)" by (simp_all add: sample_proc_def)
  from large_consumers_reported [THEN conjunct2, THEN conjunct1, THEN mp, OF this]
  show ?thesis by blast
qed

end
