(* ===== verification/Process_Changes.thy ===== *)
theory Process_Changes
  imports Top_Processes
begin

text \<open>
  Starts, exits and sudden growth of processes, \<open>aic-server/src/otlp_exporter/changes.rs\<close>: two snapshots of
  the process table are compared, and of many transitions only the heaviest are sent one by one. The
  iteration order of the maps is that of the lists. The test of the growth ratio and the
  rendering of megabytes are computed in floating point and are arguments, as is the hash of the
  record ids.
\<close>

section \<open>Snapshots and transitions\<close>

definition top_n :: nat where
  "top_n = 20"

definition rss_spike_min_delta :: u64 where
  "rss_spike_min_delta = 64 * 1024 * 1024"

record proc_snap =
  pns_name :: str
  pns_rss :: u64

type_synonym proc_table = "(u32, proc_snap) hash_map"

record transition =
  trn_subject :: str
  trn_action :: str
  trn_prev_state :: "str option"
  trn_new_state :: "str option"
  trn_summary :: str
  trn_weight :: u64

record change_lib =
  chl_ratio :: "u64 \<Rightarrow> u64 \<Rightarrow> bool"
  chl_megabytes :: "u64 \<Rightarrow> str"
  chl_hash :: "str \<Rightarrow> str \<Rightarrow> str \<Rightarrow> str option \<Rightarrow> u64 \<Rightarrow> u64"

definition utf8 :: "nat list \<Rightarrow> str" where
  "utf8 bs = map char_of bs"

definition subject_of :: "u32 \<Rightarrow> proc_snap \<Rightarrow> str" where
  "subject_of pid p = pns_name p @ '':'' @ dec (unat pid)"

definition named_pid :: "u32 \<Rightarrow> proc_snap \<Rightarrow> str" where
  "named_pid pid p = pns_name p @ ''('' @ dec (unat pid) @ '')''"

definition start_transition :: "u32 \<Rightarrow> proc_snap \<Rightarrow> transition" where
  "start_transition pid p = \<lparr>trn_subject = subject_of pid p, trn_action = ''start'', trn_prev_state = None,
     trn_new_state = Some (dec (unat (pns_rss p))),
     trn_summary = named_pid pid p @ '' '' @ utf8 [0xEC, 0x8B, 0x9C, 0xEC, 0x9E, 0x91], trn_weight = pns_rss p\<rparr>"

definition exit_transition :: "u32 \<Rightarrow> proc_snap \<Rightarrow> transition" where
  "exit_transition pid p = \<lparr>trn_subject = subject_of pid p, trn_action = ''exit'',
     trn_prev_state = Some (dec (unat (pns_rss p))), trn_new_state = None,
     trn_summary = named_pid pid p @ '' '' @ utf8 [0xEC, 0xA2, 0x85, 0xEB, 0xA3, 0x8C], trn_weight = pns_rss p\<rparr>"

definition is_spike :: "change_lib \<Rightarrow> u64 \<Rightarrow> u64 \<Rightarrow> bool" where
  "is_spike lib before now \<longleftrightarrow> before < now \<and> rss_spike_min_delta \<le> sat_sub64 now before \<and> chl_ratio lib before now"

definition spike_transition :: "change_lib \<Rightarrow> u32 \<Rightarrow> proc_snap \<Rightarrow> proc_snap \<Rightarrow> transition" where
  "spike_transition lib pid before now = \<lparr>trn_subject = subject_of pid now, trn_action = ''rss_spike'',
     trn_prev_state = Some (dec (unat (pns_rss before))), trn_new_state = Some (dec (unat (pns_rss now))),
     trn_summary = named_pid pid now @ '' RSS '' @ chl_megabytes lib (pns_rss before) @ '' '' @ utf8 [0xE2, 0x86, 0x92] @ '' ''
       @ chl_megabytes lib (pns_rss now), trn_weight = pns_rss now\<rparr>"

definition seen_now :: "change_lib \<Rightarrow> proc_table \<Rightarrow> u32 \<times> proc_snap \<Rightarrow> transition list" where
  "seen_now lib prev e = (let (pid, now) = e in
     case hm_get prev pid of
       Some before \<Rightarrow>
         if pns_name before = pns_name now
         then (if is_spike lib (pns_rss before) (pns_rss now) then [spike_transition lib pid before now] else [])
         else [exit_transition pid before, start_transition pid now]
     | None \<Rightarrow> [start_transition pid now])"

definition changes_diff :: "change_lib \<Rightarrow> proc_table \<Rightarrow> proc_table \<Rightarrow> transition list" where
  "changes_diff lib prev current =
     concat (map (seen_now lib prev) current) @
     map (\<lambda>(pid, before). exit_transition pid before) (filter (\<lambda>(pid, _). hm_get current pid = None) prev)"

definition baseline_transition :: "proc_table \<Rightarrow> transition" where
  "baseline_transition current = \<lparr>trn_subject = ''process-table'', trn_action = ''baseline'', trn_prev_state = None,
     trn_new_state = Some (dec (length current)),
     trn_summary = utf8 [0xED, 0x94, 0x84, 0xEB, 0xA1, 0x9C, 0xEC, 0x84, 0xB8, 0xEC, 0x8A, 0xA4] @ '' '' @ dec (length current) @
       utf8 [0xEA, 0xB0, 0x9C] @ '' baseline '' @ utf8 [0xEC, 0x88, 0x98, 0xEB, 0xA6, 0xBD], trn_weight = - 1\<rparr>"

definition snapshot_table :: "sys_process list \<Rightarrow> proc_table" where
  "snapshot_table sys = foldl (\<lambda>m p. hm_insert (sysp_pid p) \<lparr>pns_name = sysp_name p, pns_rss = sysp_memory p\<rparr> m) [] (real_processes sys)"

text \<open>\<open>ProcSampler::tick\<close>; the state is the table of the tick before.\<close>

definition sampler_tick :: "change_lib \<Rightarrow> proc_table option \<Rightarrow> sys_process list \<Rightarrow> proc_table option \<times> transition list" where
  "sampler_tick lib prev sys =
     (let current = snapshot_table sys
      in (Some current, case prev of None \<Rightarrow> [baseline_transition current] | Some p \<Rightarrow> changes_diff lib p current))"

definition churn_transition :: "transition list \<Rightarrow> transition" where
  "churn_transition dropped = \<lparr>trn_subject = ''process-table'', trn_action = ''churn'', trn_prev_state = None,
     trn_new_state = Some (dec (length dropped)),
     trn_summary = utf8 [0xEA, 0xB7, 0xB8] @ '' '' @ utf8 [0xEC, 0x99, 0xB8] @ '' '' @
       utf8 [0xED, 0x94, 0x84, 0xEB, 0xA1, 0x9C, 0xEC, 0x84, 0xB8, 0xEC, 0x8A, 0xA4] @ '' '' @
       utf8 [0xEC, 0xA0, 0x84, 0xEC, 0x9D, 0xB4] @ '' '' @ dec (length dropped) @ utf8 [0xEA, 0xB1, 0xB4] @ '' (start '' @
       dec (length (filter (\<lambda>t. trn_action t = ''start'') dropped)) @ '', exit '' @
       dec (length (filter (\<lambda>t. trn_action t = ''exit'') dropped)) @ '')'', trn_weight = 0\<rparr>"

definition cap :: "transition list \<Rightarrow> transition list" where
  "cap transitions =
     (if length transitions \<le> top_n then transitions
      else let sorted_ts = sort_key (\<lambda>t. - uint (trn_weight t)) transitions
           in take top_n sorted_ts @ [churn_transition (drop top_n sorted_ts)])"

definition record_id :: "change_lib \<Rightarrow> str \<Rightarrow> transition \<Rightarrow> u64 \<Rightarrow> str" where
  "record_id lib host t bucket =
     hex_pad 16 (unat (chl_hash lib host (trn_subject t) (trn_action t) (trn_new_state t) bucket))"

definition change_entry_of :: "change_lib \<Rightarrow> str \<Rightarrow> u64 \<Rightarrow> transition \<Rightarrow> change_entry" where
  "change_entry_of lib host bucket t = \<lparr>ch_change_type = ''process'', ch_subject = trn_subject t, ch_action = trn_action t,
     ch_prev_state = trn_prev_state t, ch_new_state = trn_new_state t, ch_confidence = ''observed'',
     ch_source = ''collector:sysinfo'', ch_record_id = record_id lib host t bucket, ch_summary = trn_summary t\<rparr>"

section \<open>What is reported\<close>

lemma seen_now_set:
  "t \<in> set (seen_now lib prev (pid, p)) \<longleftrightarrow>
     (t = start_transition pid p \<and> (\<forall>q. hm_get prev pid = Some q \<longrightarrow> pns_name q \<noteq> pns_name p)) \<or>
     (\<exists>q. hm_get prev pid = Some q \<and> pns_name q \<noteq> pns_name p \<and> t = exit_transition pid q) \<or>
     (\<exists>q. hm_get prev pid = Some q \<and> pns_name q = pns_name p \<and> is_spike lib (pns_rss q) (pns_rss p) \<and> t = spike_transition lib pid q p)"
  by (cases "hm_get prev pid") (auto simp: seen_now_def)

lemma hm_mem: "hm_ok m \<Longrightarrow> (k, v) \<in> set m \<longleftrightarrow> hm_get m k = Some v"
  by (auto simp: hm_ok_def map_of_eq_Some_iff)

lemma changes_diff_set:
  assumes "hm_ok prev" and "hm_ok current"
  shows "t \<in> set (changes_diff lib prev current) \<longleftrightarrow>
    (\<exists>pid p. hm_get current pid = Some p \<and> t \<in> set (seen_now lib prev (pid, p))) \<or>
    (\<exists>pid q. hm_get prev pid = Some q \<and> hm_get current pid = None \<and> t = exit_transition pid q)"
proof -
  have "(\<exists>e\<in>set current. t \<in> set (seen_now lib prev e)) \<longleftrightarrow> (\<exists>pid p. hm_get current pid = Some p \<and> t \<in> set (seen_now lib prev (pid, p)))"
    by (metis assms(2) hm_mem prod.exhaust)
  moreover have "t \<in> (\<lambda>(pid, before). exit_transition pid before) ` {(pid, q). (pid, q) \<in> set prev \<and> hm_get current pid = None} \<longleftrightarrow>
      (\<exists>pid q. hm_get prev pid = Some q \<and> hm_get current pid = None \<and> t = exit_transition pid q)"
    using hm_mem [OF assms(1)] by force
  moreover have "set (filter (\<lambda>(pid, _). hm_get current pid = None) prev) = {(pid, q). (pid, q) \<in> set prev \<and> hm_get current pid = None}"
    by auto
  ultimately show ?thesis by (simp only: changes_diff_def set_append set_concat set_map Un_iff UN_iff bex_simps)
qed

text \<open>
  Further property (functional). The transitions between two process tables are exactly the changes between them: a process
  id that is new, or whose name changed, is a start; one that is gone, or whose name changed, is an
  exit of the old process; one that kept its name is a spike exactly when it grew by 64 MiB and by the
  ratio. Nothing else is reported.
\<close>

theorem changes_exact:
  assumes "hm_ok prev" and "hm_ok current"
  shows "set (changes_diff lib prev current) =
      {start_transition pid p | pid p. hm_get current pid = Some p \<and> (\<forall>q. hm_get prev pid = Some q \<longrightarrow> pns_name q \<noteq> pns_name p)} \<union>
      {exit_transition pid q | pid q. hm_get prev pid = Some q \<and> (\<forall>p. hm_get current pid = Some p \<longrightarrow> pns_name q \<noteq> pns_name p)} \<union>
      {spike_transition lib pid q p | pid q p. hm_get prev pid = Some q \<and> hm_get current pid = Some p \<and> pns_name q = pns_name p \<and>
         is_spike lib (pns_rss q) (pns_rss p)}"
proof (rule set_eqI, unfold Un_iff mem_Collect_eq, rule iffI)
  fix t
  assume "t \<in> set (changes_diff lib prev current)"
  then show "((\<exists>pid p. t = start_transition pid p \<and> hm_get current pid = Some p \<and> (\<forall>q. hm_get prev pid = Some q \<longrightarrow> pns_name q \<noteq> pns_name p)) \<or>
      (\<exists>pid q. t = exit_transition pid q \<and> hm_get prev pid = Some q \<and> (\<forall>p. hm_get current pid = Some p \<longrightarrow> pns_name q \<noteq> pns_name p))) \<or>
      (\<exists>pid q p. t = spike_transition lib pid q p \<and> hm_get prev pid = Some q \<and> hm_get current pid = Some p \<and> pns_name q = pns_name p \<and>
         is_spike lib (pns_rss q) (pns_rss p))"
    unfolding changes_diff_set [OF assms] seen_now_set by (elim disjE exE conjE) (blast | fastforce)+
next
  fix t
  assume r: "((\<exists>pid p. t = start_transition pid p \<and> hm_get current pid = Some p \<and> (\<forall>q. hm_get prev pid = Some q \<longrightarrow> pns_name q \<noteq> pns_name p)) \<or>
      (\<exists>pid q. t = exit_transition pid q \<and> hm_get prev pid = Some q \<and> (\<forall>p. hm_get current pid = Some p \<longrightarrow> pns_name q \<noteq> pns_name p))) \<or>
      (\<exists>pid q p. t = spike_transition lib pid q p \<and> hm_get prev pid = Some q \<and> hm_get current pid = Some p \<and> pns_name q = pns_name p \<and>
         is_spike lib (pns_rss q) (pns_rss p))"
  have exits: "t \<in> set (changes_diff lib prev current)" if "t = exit_transition pid q" "hm_get prev pid = Some q"
      "\<forall>p. hm_get current pid = Some p \<longrightarrow> pns_name q \<noteq> pns_name p" for pid q
    unfolding changes_diff_set [OF assms] seen_now_set using that by (cases "hm_get current pid") blast+
  have "t \<in> set (changes_diff lib prev current)" if "t = start_transition pid p" "hm_get current pid = Some p"
      "\<forall>q. hm_get prev pid = Some q \<longrightarrow> pns_name q \<noteq> pns_name p" for pid p
    unfolding changes_diff_set [OF assms] seen_now_set using that by blast
  moreover have "t \<in> set (changes_diff lib prev current)" if "t = spike_transition lib pid q p" "hm_get prev pid = Some q"
      "hm_get current pid = Some p" "pns_name q = pns_name p" "is_spike lib (pns_rss q) (pns_rss p)" for pid q p
    unfolding changes_diff_set [OF assms] seen_now_set using that by blast
  ultimately show "t \<in> set (changes_diff lib prev current)" using r exits by (elim disjE exE conjE) blast+
qed

definition shell_snap :: "u64 \<Rightarrow> proc_snap" where
  "shell_snap rss = \<lparr>pns_name = ''sh'', pns_rss = rss\<rparr>"

definition plain_change_lib :: change_lib where
  "plain_change_lib = \<lparr>chl_ratio = (\<lambda>a b. 3 * uint a \<le> 2 * uint b), chl_megabytes = (\<lambda>_. []), chl_hash = (\<lambda>_ _ _ _ b. b)\<rparr>"

theorem changes_exact_witness:
  "set (changes_diff plain_change_lib [(7, shell_snap 1)] [(8, shell_snap 1)]) = {start_transition 8 (shell_snap 1), exit_transition 7 (shell_snap 1)}"
proof -
  have ok: "hm_ok [(7 :: u32, shell_snap 1)]" "hm_ok [(8 :: u32, shell_snap 1)]" by (simp_all add: hm_ok_def)
  have "(if (x :: u32) = 7 then Some (shell_snap 1) else None) = Some q \<longleftrightarrow> x = 7 \<and> q = shell_snap 1"
    "(if (x :: u32) = 8 then Some (shell_snap 1) else None) = Some q \<longleftrightarrow> x = 8 \<and> q = shell_snap 1" for x q by auto
  then show ?thesis using changes_exact [OF ok, of plain_change_lib] by (simp add: insert_commute)
qed

lemma snapshot_table_ok: "hm_ok (snapshot_table sys)"
proof -
  have "hm_ok m \<Longrightarrow> hm_ok (foldl (\<lambda>m p. hm_insert (sysp_pid p) \<lparr>pns_name = sysp_name p, pns_rss = sysp_memory p\<rparr> m) m ps)" for m ps
    by (induction ps arbitrary: m) simp_all
  from this [OF hm_ok_Nil] show ?thesis by (simp only: snapshot_table_def)
qed

text \<open>
  Further property (bounds). However many processes come and go, at most 21 entries are sent for a tick. Up to 20 transitions
  are sent as they are; of more, 20 that no other outweighs, and one entry that tells how many the
  others were.
\<close>

theorem cap_accounts:
  "length (cap ts) \<le> 21 \<and> (length ts \<le> 20 \<longrightarrow> cap ts = ts) \<and>
   (20 < length ts \<longrightarrow> (\<exists>chosen dropped c. cap ts = chosen @ [c] \<and> mset chosen + mset dropped = mset ts \<and> length chosen = 20 \<and>
      (\<forall>k\<in>set chosen. \<forall>d\<in>set dropped. trn_weight d \<le> trn_weight k) \<and>
      trn_action c = ''churn'' \<and> trn_new_state c = Some (dec (length ts - 20))))"
proof (cases "length ts \<le> 20")
  case True
  then show ?thesis by (simp add: cap_def top_n_def)
next
  case False
  let ?s = "sort_key (\<lambda>t. - uint (trn_weight t)) ts"
  have cap: "cap ts = take 20 ?s @ [churn_transition (drop 20 ?s)]" using False by (simp add: cap_def top_n_def Let_def)
  have "mset (take 20 ?s) + mset (drop 20 ?s) = mset ts" by (metis append_take_drop_id mset_append mset_sort)
  moreover have "\<forall>k\<in>set (take 20 ?s). \<forall>d\<in>set (drop 20 ?s). trn_weight d \<le> trn_weight k"
  proof -
    have "sorted (map (\<lambda>t. - uint (trn_weight t)) ?s)" by simp
    then have "sorted (map (\<lambda>t. - uint (trn_weight t)) (take 20 ?s) @ map (\<lambda>t. - uint (trn_weight t)) (drop 20 ?s))"
      by (simp flip: map_append)
    then show ?thesis by (auto simp: sorted_append word_le_def)
  qed
  moreover have "trn_action (churn_transition d) = ''churn''" "trn_new_state (churn_transition d) = Some (dec (length d))" for d
    by (simp_all add: churn_transition_def)
  ultimately show ?thesis
    using False cap by (intro conjI impI exI [of _ "take 20 ?s"] exI [of _ "drop 20 ?s"] exI [of _ "churn_transition (drop 20 ?s)"]) auto
qed

theorem cap_accounts_witness:
  "length (cap (replicate 30 (start_transition 7 (shell_snap 1)))) \<le> 21"
  using cap_accounts [of "replicate 30 (start_transition 7 (shell_snap 1))"] by blast

section \<open>Record ids\<close>

text \<open>The time bucket of a tick, from the interval the task was started with.\<close>

definition bucket_of :: "u64 \<Rightarrow> u64 \<Rightarrow> u64" where
  "bucket_of now_ns interval_secs = now_ns div 1000000000 div (max interval_secs 1)"

text \<open>
  Further property (error). The receiver keeps one record for each id, and the id is made of a time bucket of the interval
  the task was started with. When the interval is shortened while the task runs, several ticks fall
  into one bucket: with an interval of 60 seconds at the start, the ticks of second 600 and second 610
  give the entries for the remaining transitions the same id whenever their numbers agree, whatever
  the transitions were, so one of the two is lost at the receiver.
\<close>

theorem churn_ids_collide:
  assumes "length dropped = length dropped'"
  shows "record_id lib host (churn_transition dropped) (bucket_of 600000000000 60) =
    record_id lib host (churn_transition dropped') (bucket_of 610000000000 60)"
proof -
  have "bucket_of 600000000000 60 = bucket_of 610000000000 60" by code_simp
  then show ?thesis using assms by (simp add: record_id_def churn_transition_def)
qed

theorem churn_ids_collide_witness:
  "record_id plain_change_lib ''h'' (churn_transition [start_transition 7 (shell_snap 1)]) (bucket_of 600000000000 60) =
   record_id plain_change_lib ''h'' (churn_transition [exit_transition 9 (shell_snap 2)]) (bucket_of 610000000000 60)"
  by (rule churn_ids_collide) simp

end
