(* ===== verification/Metrics_Proto.thy ===== *)
theory Metrics_Proto
  imports Exporter_Health Top_Processes
begin

text \<open>
  The metric messages of the exporter, \<open>aic-server/src/otlp_exporter/encode.rs\<close>: gauges only, one data point
  each, or grouped by name when the points carry attributes. The message types shared with the log
  encoder are those of \<open>Logs_Proto\<close>; the protobuf library is an argument.
\<close>

section \<open>Messages\<close>

datatype number_value = AsDouble f64 | AsInt int

record number_data_point =
  ndp_attributes :: "key_value list"
  ndp_start_time_unix_nano :: u64
  ndp_time_unix_nano :: u64
  ndp_flags :: u32
  ndp_value :: "number_value option"

record gauge =
  gau_data_points :: "number_data_point list"

datatype metric_data = Gauge gauge

record metric =
  met_name :: str
  met_description :: str
  met_unit :: str
  met_data :: "metric_data option"

record scope_metrics =
  scm_scope :: "instrumentation_scope option"
  scm_metrics :: "metric list"
  scm_schema_url :: str

record resource_metrics =
  rem_resource :: "resource option"
  rem_scope_metrics :: "scope_metrics list"
  rem_schema_url :: str

record export_metrics_service_request =
  mrq_resource_metrics :: "resource_metrics list"

record export_metrics_partial_success =
  mps_rejected_data_points :: int
  mps_error_message :: str

record export_metrics_service_response =
  mrp_partial_success :: "export_metrics_partial_success option"

record metrics_lib =
  mlb_proto :: proto_lib
  mlb_encode :: "export_metrics_service_request \<Rightarrow> bytes"
  mlb_decode :: "bytes \<Rightarrow> export_metrics_service_response option"

section \<open>Inputs\<close>

datatype metric_value = MDouble f64 | MInt int

record metric_point =
  mpt_name :: str
  mpt_unit :: str
  mpt_value :: metric_value

record host_resource =
  hre_host_name :: str
  hre_host_id :: str
  hre_os_type :: str
  hre_arch :: str
  hre_os_desc :: str

record host_sample =
  hsa_resource :: host_resource
  hsa_points :: "metric_point list"
  hsa_top_processes :: "process_sample list"
  hsa_process_inventory :: "proc_inv list"

record attributed_point =
  atp_name :: str
  atp_unit :: str
  atp_value :: metric_value
  atp_attributes :: "(str \<times> str) list"

section \<open>Encoders\<close>

definition redact_str :: "metrics_lib \<Rightarrow> str \<Rightarrow> str" where
  "redact_str lib s = pl_redact (mlb_proto lib) s"

definition attr :: "metrics_lib \<Rightarrow> str \<Rightarrow> str \<Rightarrow> key_value" where
  "attr lib key v = \<lparr>kv_key = redact_str lib key, kv_value = Some \<lparr>av_value = Some (StringValue (redact_str lib v))\<rparr>\<rparr>"

fun number_of :: "metric_value \<Rightarrow> number_value" where
  "number_of (MDouble v) = AsDouble v"
| "number_of (MInt v) = AsInt v"

definition data_point :: "u64 \<Rightarrow> key_value list \<Rightarrow> number_value \<Rightarrow> number_data_point" where
  "data_point now attrs v = \<lparr>ndp_attributes = attrs, ndp_start_time_unix_nano = 0, ndp_time_unix_nano = now, ndp_flags = 0,
     ndp_value = Some v\<rparr>"

definition resource_attributes :: "metrics_lib \<Rightarrow> host_resource \<Rightarrow> str \<Rightarrow> key_value list" where
  "resource_attributes lib res service_version =
     [attr lib ''host.name'' (hre_host_name res), attr lib ''host.id'' (hre_host_id res),
      attr lib ''os.type'' (hre_os_type res), attr lib ''host.arch'' (hre_arch res),
      attr lib ''os.description'' (hre_os_desc res), attr lib ''service.name'' ''aicd'',
      attr lib ''service.version'' service_version]"

definition metrics_request :: "metrics_lib \<Rightarrow> key_value list \<Rightarrow> str \<Rightarrow> metric list \<Rightarrow> bytes" where
  "metrics_request lib resource_attrs service_version metrics =
     mlb_encode lib \<lparr>mrq_resource_metrics = [\<lparr>
       rem_resource = Some \<lparr>re_attributes = resource_attrs, re_dropped_attributes_count = 0\<rparr>,
       rem_scope_metrics = [\<lparr>
         scm_scope = Some \<lparr>is_name = redact_str lib ''aicd'', is_version = redact_str lib service_version,
           is_attributes = [], is_dropped_attributes_count = 0\<rparr>,
         scm_metrics = metrics, scm_schema_url = []\<rparr>],
       rem_schema_url = []\<rparr>]\<rparr>"

text \<open>\<open>count as i64\<close> keeps the bits.\<close>

definition as_i64 :: "u64 \<Rightarrow> int" where
  "as_i64 n = (if uint n < 2 ^ 63 then uint n else uint n - 2 ^ 64)"

definition encode_metrics :: "metrics_lib \<Rightarrow> host_sample \<Rightarrow> str \<Rightarrow> u64 \<Rightarrow> drop_counters option \<Rightarrow> bytes" where
  "encode_metrics lib sample service_version now drops =
     (let metrics = map (\<lambda>p. \<lparr>met_name = redact_str lib (mpt_name p), met_description = [], met_unit = redact_str lib (mpt_unit p),
            met_data = Some (Gauge \<lparr>gau_data_points = [data_point now [] (number_of (mpt_value p))]\<rparr>)\<rparr>) (hsa_points sample);
          dropped = (case drops of None \<Rightarrow> []
            | Some counters \<Rightarrow> [\<lparr>met_name = redact_str lib ''aic.log.dropped'', met_description = [], met_unit = redact_str lib ''1'',
                met_data = Some (Gauge \<lparr>gau_data_points =
                  map (\<lambda>(reason, n). data_point now [attr lib ''reason'' reason] (AsInt (as_i64 n))) (drop_snapshot counters)\<rparr>)\<rparr>])
      in metrics_request lib (resource_attributes lib (hsa_resource sample) service_version) service_version (metrics @ dropped))"

definition push_point :: "number_data_point \<Rightarrow> metric \<Rightarrow> metric" where
  "push_point dp m = (case met_data m of
     Some (Gauge g) \<Rightarrow> m\<lparr>met_data := Some (Gauge (g\<lparr>gau_data_points := gau_data_points g @ [dp]\<rparr>))\<rparr> | None \<Rightarrow> m)"

text \<open>The first metric of that name gets the point; a new metric is made when there is none (or one without a gauge).\<close>

fun add_point :: "str \<Rightarrow> str \<Rightarrow> number_data_point \<Rightarrow> metric list \<Rightarrow> metric list \<times> bool" where
  "add_point name unt dp [] = ([], False)"
| "add_point name unt dp (m # ms) =
     (if met_name m = name then (if met_data m \<noteq> None then (push_point dp m # ms, True) else (m # ms, False))
      else (let (ms', found) = add_point name unt dp ms in (m # ms', found)))"

definition group_point :: "metrics_lib \<Rightarrow> u64 \<Rightarrow> metric list \<Rightarrow> attributed_point \<Rightarrow> metric list" where
  "group_point lib now metrics p =
     (let dp = data_point now (map (\<lambda>(k, v). attr lib k v) (atp_attributes p)) (number_of (atp_value p));
          name = redact_str lib (atp_name p);
          (metrics', found) = add_point name (redact_str lib (atp_unit p)) dp metrics
      in if found then metrics'
         else metrics @ [\<lparr>met_name = name, met_description = [], met_unit = redact_str lib (atp_unit p),
           met_data = Some (Gauge \<lparr>gau_data_points = [dp]\<rparr>)\<rparr>])"

definition encode_attributed_metrics :: "metrics_lib \<Rightarrow> host_resource \<Rightarrow> str \<Rightarrow> u64 \<Rightarrow> attributed_point list \<Rightarrow> bytes" where
  "encode_attributed_metrics lib res service_version now points =
     metrics_request lib (resource_attributes lib res service_version) service_version (foldl (group_point lib now) [] points)"

definition decode_metrics_partial_reject :: "metrics_lib \<Rightarrow> bytes \<Rightarrow> u64 \<times> str" where
  "decode_metrics_partial_reject lib body =
     (case mlb_decode lib body of
        Some resp \<Rightarrow> (case mrp_partial_success resp of
            Some ps \<Rightarrow> if 0 < mps_rejected_data_points ps then (of_int (mps_rejected_data_points ps), mps_error_message ps) else (0, [])
          | None \<Rightarrow> (0, []))
      | None \<Rightarrow> (0, []))"

section \<open>Points are grouped by name\<close>

text \<open>What grouping is meant to give: one metric for each name, in the order the names first appear.\<close>

definition point_name :: "metrics_lib \<Rightarrow> attributed_point \<Rightarrow> str" where
  "point_name lib p = redact_str lib (atp_name p)"

definition point_data :: "metrics_lib \<Rightarrow> u64 \<Rightarrow> attributed_point \<Rightarrow> number_data_point" where
  "point_data lib now p = data_point now (map (\<lambda>(k, v). attr lib k v) (atp_attributes p)) (number_of (atp_value p))"

definition grouped :: "metrics_lib \<Rightarrow> u64 \<Rightarrow> attributed_point list \<Rightarrow> metric list" where
  "grouped lib now points = map (\<lambda>name. let same = filter (\<lambda>p. point_name lib p = name) points in
     \<lparr>met_name = name, met_description = [], met_unit = redact_str lib (atp_unit (hd same)),
      met_data = Some (Gauge \<lparr>gau_data_points = map (point_data lib now) same\<rparr>)\<rparr>) (rev (remdups (rev (map (point_name lib) points))))"

definition named :: "metrics_lib \<Rightarrow> u64 \<Rightarrow> attributed_point list \<Rightarrow> str \<Rightarrow> metric" where
  "named lib now points name = (let same = filter (\<lambda>p. point_name lib p = name) points in
     \<lparr>met_name = name, met_description = [], met_unit = redact_str lib (atp_unit (hd same)),
      met_data = Some (Gauge \<lparr>gau_data_points = map (point_data lib now) same\<rparr>)\<rparr>)"

lemma grouped_named: "grouped lib now points = map (named lib now points) (rev (remdups (rev (map (point_name lib) points))))"
  by (simp add: grouped_def named_def)

lemma named_other: "point_name lib p \<noteq> name \<Longrightarrow> named lib now (points @ [p]) name = named lib now points name"
  by (simp add: named_def)

lemma named_same:
  "point_name lib p = name \<Longrightarrow> name \<in> point_name lib ` set points \<Longrightarrow>
     named lib now (points @ [p]) name = push_point (point_data lib now p) (named lib now points name)"
  by (cases "filter (\<lambda>p. point_name lib p = name) points") (auto simp: named_def push_point_def filter_empty_conv)

lemma add_point_named:
  "distinct names \<Longrightarrow> add_point name unt dp (map (named lib now points) names) =
     (map (\<lambda>n. if n = name then push_point dp (named lib now points n) else named lib now points n) names, name \<in> set names)"
proof (induction names)
  case (Cons n names)
  have nm: "met_name (named lib now points n) = n" "met_data (named lib now points n) \<noteq> None" by (simp_all add: named_def Let_def)
  show ?case
  proof (cases "n = name")
    case True
    then have "map (\<lambda>n. if n = name then push_point dp (named lib now points n) else named lib now points n) names = map (named lib now points) names"
      using Cons.prems by (auto intro!: map_cong)
    then show ?thesis using True nm by simp
  next
    case False
    then show ?thesis using Cons nm by simp
  qed
qed simp

lemma foldl_group:
  "foldl (group_point lib now) [] points = grouped lib now points"
proof (induction points rule: rev_induct)
  case Nil
  then show ?case by (simp add: grouped_def)
next
  case (snoc p points)
  let ?names = "rev (remdups (rev (map (point_name lib) points)))"
  let ?n = "point_name lib p"
  have ih: "foldl (group_point lib now) [] points = map (named lib now points) ?names" using snoc by (simp add: grouped_named)
  have dp: "data_point now (map (\<lambda>(k, v). attr lib k v) (atp_attributes p)) (number_of (atp_value p)) = point_data lib now p"
    by (simp add: point_data_def)
  have add: "add_point ?n unt (point_data lib now p) (map (named lib now points) ?names) =
      (map (\<lambda>n. if n = ?n then push_point (point_data lib now p) (named lib now points n) else named lib now points n) ?names,
       ?n \<in> set ?names)" for unt
    by (rule add_point_named) simp
  have step: "foldl (group_point lib now) [] (points @ [p]) =
      (if ?n \<in> set ?names
       then map (\<lambda>n. if n = ?n then push_point (point_data lib now p) (named lib now points n) else named lib now points n) ?names
       else map (named lib now points) ?names @ [\<lparr>met_name = ?n, met_description = [], met_unit = redact_str lib (atp_unit p),
              met_data = Some (Gauge \<lparr>gau_data_points = [point_data lib now p]\<rparr>)\<rparr>])"
    using add by (simp add: ih group_point_def dp point_name_def [symmetric])
  show ?case
  proof (cases "?n \<in> point_name lib ` set points")
    case True
    then show ?thesis
      unfolding step by (auto simp: grouped_named named_same named_other intro!: map_cong)
  next
    case False
    then have "filter (\<lambda>q. point_name lib q = ?n) points = []" unfolding filter_empty_conv by (metis imageI)
    then have "named lib now (points @ [p]) ?n = \<lparr>met_name = ?n, met_description = [], met_unit = redact_str lib (atp_unit p),
        met_data = Some (Gauge \<lparr>gau_data_points = [point_data lib now p]\<rparr>)\<rparr>" by (simp add: named_def)
    moreover have "map (named lib now (points @ [p])) ?names = map (named lib now points) ?names"
      using False by (auto intro!: map_cong named_other)
    ultimately show ?thesis unfolding step using False by (auto simp: grouped_named)
  qed
qed

text \<open>
  C20 (equivalence). Grouping by search and append gives the metrics it should: one for each name, the names
  as masked and in the order of their first point, each with all points of that name in order, and
  the unit of the first of them. No data point is lost or put under another name.
\<close>

theorem grouping_by_name:
  "encode_attributed_metrics lib res ver now points =
     metrics_request lib (resource_attributes lib res ver) ver
       (map (\<lambda>name. let same = filter (\<lambda>p. redact_str lib (atp_name p) = name) points in
          \<lparr>met_name = name, met_description = [], met_unit = redact_str lib (atp_unit (hd same)),
           met_data = Some (Gauge \<lparr>gau_data_points = map (point_data lib now) same\<rparr>)\<rparr>)
        (rev (remdups (rev (map (\<lambda>p. redact_str lib (atp_name p)) points)))))"
  by (simp add: encode_attributed_metrics_def foldl_group grouped_def point_name_def [abs_def])

section \<open>Every text is redacted\<close>

definition masked :: "metrics_lib \<Rightarrow> str set" where
  "masked lib = range (redact_str lib)"

definition metric_kv_masked :: "metrics_lib \<Rightarrow> key_value \<Rightarrow> bool" where
  "metric_kv_masked lib kv \<longleftrightarrow> kv_key kv \<in> masked lib \<and>
     (\<exists>s \<in> masked lib. kv_value kv = Some \<lparr>av_value = Some (StringValue s)\<rparr>)"

fun data_points_of :: "metric \<Rightarrow> number_data_point list" where
  "data_points_of m = (case met_data m of Some (Gauge g) \<Rightarrow> gau_data_points g | None \<Rightarrow> [])"

definition metric_masked :: "metrics_lib \<Rightarrow> metric \<Rightarrow> bool" where
  "metric_masked lib m \<longleftrightarrow> met_name m \<in> masked lib \<and> met_description m = [] \<and> met_unit m \<in> masked lib \<and>
     (\<forall>dp\<in>set (data_points_of m). \<forall>kv\<in>set (ndp_attributes dp). metric_kv_masked lib kv)"

definition metrics_request_masked :: "metrics_lib \<Rightarrow> export_metrics_service_request \<Rightarrow> bool" where
  "metrics_request_masked lib rq \<longleftrightarrow> (\<forall>rm\<in>set (mrq_resource_metrics rq). rem_schema_url rm = [] \<and>
     (\<forall>re. rem_resource rm = Some re \<longrightarrow> (\<forall>kv\<in>set (re_attributes re). metric_kv_masked lib kv)) \<and>
     (\<forall>sm\<in>set (rem_scope_metrics rm). scm_schema_url sm = [] \<and> (\<forall>m\<in>set (scm_metrics sm). metric_masked lib m) \<and>
        (\<forall>sc. scm_scope sm = Some sc \<longrightarrow> is_name sc \<in> masked lib \<and> is_version sc \<in> masked lib \<and> is_attributes sc = [])))"

lemma masked_redact [simp]: "redact_str lib s \<in> masked lib"
  by (simp add: masked_def)

lemma attr_masked [simp]: "metric_kv_masked lib (attr lib k v)"
  by (auto simp: metric_kv_masked_def attr_def)

lemma metrics_request_is_masked:
  assumes "\<forall>m\<in>set ms. metric_masked lib m"
  shows "\<exists>rq. metrics_request lib (resource_attributes lib res ver) ver ms = mlb_encode lib rq \<and> metrics_request_masked lib rq"
  unfolding metrics_request_def
  by (rule exI, rule conjI, rule refl) (use assms in \<open>simp add: metrics_request_masked_def resource_attributes_def\<close>)

lemma grouped_masked: "\<forall>m\<in>set (grouped lib now points). metric_masked lib m"
  by (auto simp: grouped_def Let_def metric_masked_def point_data_def data_point_def point_name_def)

lemma metrics_masked:
  "(\<exists>rq. encode_metrics lib sample ver now drops = mlb_encode lib rq \<and> metrics_request_masked lib rq) \<and>
   (\<exists>rq. encode_attributed_metrics lib res ver now points = mlb_encode lib rq \<and> metrics_request_masked lib rq)"
proof (rule conjI)
  show "\<exists>rq. encode_metrics lib sample ver now drops = mlb_encode lib rq \<and> metrics_request_masked lib rq"
    unfolding encode_metrics_def Let_def
    by (rule metrics_request_is_masked) (auto simp: metric_masked_def data_point_def split: option.splits)
  show "\<exists>rq. encode_attributed_metrics lib res ver now points = mlb_encode lib rq \<and> metrics_request_masked lib rq"
    unfolding encode_attributed_metrics_def
    by (rule metrics_request_is_masked) (use grouped_masked foldl_group in \<open>simp only: foldl_group\<close>)
qed

text \<open>
  Further property (safety). Every text in a metrics request, from either encoder, went through the redaction: names, units,
  the keys and values of all attributes of resource and data points, the scope and the version, the
  runtime names and values of workload metrics included. The texts that are not redacted are empty.
\<close>

theorem metric_texts_redacted:
  "(\<exists>rq. encode_metrics lib sample ver now drops = mlb_encode lib rq \<and> metrics_request_masked lib rq) \<and>
   (\<exists>rq. encode_attributed_metrics lib res ver now points = mlb_encode lib rq \<and> metrics_request_masked lib rq)"
  by (rule metrics_masked)

end
