(* ===== verification/Host_Exporter.thy ===== *)
theory Host_Exporter
  imports Metrics_Proto Logs_Exporter Process_Inventory
begin

text \<open>
  The host metrics task, \<open>serve\<close> of \<open>aic-server/src/otlp_exporter/mod.rs\<close>, the only one that drains the
  spool. A tick samples the host, encodes up to three requests (metrics, the largest processes, the
  changes of the process inventory), drains what waits on disk and pushes them; a flush drains
  everything at once. What a tick meets is a \<open>tick_env\<close>: the sample, the clock, the collector's
  answers (to the requests of the drain by number, to the three new ones apart), the file system by
  number of the spool call, and the other tasks at each point where this one waits.
\<close>

section \<open>Pushing and draining\<close>

definition metrics_url :: "str \<Rightarrow> str" where
  "metrics_url endpoint = rev (dropWhile (\<lambda>c. c = CHR ''/'') (rev endpoint)) @ ''/v1/metrics''"

definition logs_url :: "str \<Rightarrow> str" where
  "logs_url endpoint = rev (dropWhile (\<lambda>c. c = CHR ''/'') (rev endpoint)) @ ''/v1/logs''"

definition push :: "(nat \<Rightarrow> str) \<Rightarrow> (push_request \<Rightarrow> http_reply) \<Rightarrow> str \<Rightarrow> str option \<Rightarrow> bytes \<Rightarrow> push_error + unit" where
  "push status_name http url token body =
     (case http \<lparr>pr_url = url, pr_token = token, pr_body = body\<rparr> of
        SendFailed chain \<Rightarrow> Inl (Transient chain)
      | Reply status _ \<Rightarrow> if \<not> (200 \<le> status \<and> status < 300) then Inl (push_classify status_name status) else Inr ())"

record host_config =
  hoc_endpoint :: str
  hoc_token :: "str option"
  hoc_service_version :: str
  hoc_drain_batch_limit :: nat
  hoc_spool_max_age :: "nat option"
  hoc_process_enabled :: bool
  hoc_process_inventory_enabled :: bool
  hoc_has_store :: bool

text \<open>The fields of the live configuration that a tick reads.\<close>

record live_snapshot =
  lsn_process_enabled :: bool
  lsn_process_inventory_enabled :: bool
  lsn_spool_drain_batch_limit :: nat
  lsn_spool_max_age :: "nat option"

record host_params =
  hop_cfg :: host_config
  hop_lib :: metrics_lib
  hop_status_name :: "nat \<Rightarrow> str"

record tick_env =
  tev_live_token :: "str option option"
  tev_snap :: "live_snapshot option"
  tev_sample :: "host_sample option"
  tev_diagnostic :: "nat option"
  tev_diagnostic_at :: datetime
  tev_enrich :: owner_lookup
  tev_unix_nanos :: "nat \<Rightarrow> u64"
  tev_ready_at :: instant
  tev_done_at :: instant
  tev_jitter :: nat
  tev_unix :: u64
  tev_http :: "nat \<Rightarrow> push_request \<Rightarrow> http_reply"
  tev_push_http :: "nat \<Rightarrow> push_request \<Rightarrow> http_reply"
  tev_io :: "nat \<Rightarrow> spool_io"
  tev_drain_others :: "nat \<Rightarrow> spool \<Rightarrow> spool"
  tev_others :: "nat \<Rightarrow> exporter_world \<Rightarrow> exporter_world"

definition kind_url :: "host_config \<Rightarrow> signal_kind \<Rightarrow> str" where
  "kind_url cfg kind = (case kind of Metrics \<Rightarrow> metrics_url (hoc_endpoint cfg) | _ \<Rightarrow> logs_url (hoc_endpoint cfg))"

text \<open>One batch, to the address its kind has; the answer to a log request is cut to success or failure.\<close>

definition push_kind :: "host_params \<Rightarrow> (push_request \<Rightarrow> http_reply) \<Rightarrow> str option \<Rightarrow> signal_kind \<Rightarrow> bytes \<Rightarrow> push_error + unit" where
  "push_kind hp http token kind body = (case kind of
     Metrics \<Rightarrow> push (hop_status_name hp) http (kind_url (hop_cfg hp) Metrics) token body
   | _ \<Rightarrow> (case push_logs (mlb_proto (hop_lib hp)) (hop_status_name hp) http (kind_url (hop_cfg hp) kind) token body of
            Inl e \<Rightarrow> Inl e | Inr _ \<Rightarrow> Inr ()))"

definition drain_spool :: "host_params \<Rightarrow> tick_env \<Rightarrow> spool_io \<Rightarrow> nat \<Rightarrow> str option \<Rightarrow> spool \<Rightarrow> (signal_kind \<times> bytes) list \<times> drain_report \<times> spool" where
  "drain_spool hp env io lim token s =
     drain io (\<lambda>n. push_kind hp (tev_http env n) token) (tev_drain_others env) lim s"

section \<open>What a tick sends\<close>

record host_state =
  hst_backoff :: backoff
  hst_tracker :: inventory_tracker
  hst_prev_scan :: "u64 option"
  hst_process_dropped_last :: bool
  hst_inv_dropped_last :: bool
  hst_store :: inventory_store
  hst_world :: exporter_world

definition keyframe_ticks :: u32 where
  "keyframe_ticks = 30"

definition host_state_new :: "instant \<Rightarrow> inventory_store \<Rightarrow> exporter_world \<Rightarrow> host_state" where
  "host_state_new now store w = \<lparr>hst_backoff = backoff_new now, hst_tracker = tracker_new keyframe_ticks,
     hst_prev_scan = None, hst_process_dropped_last = False, hst_inv_dropped_last = False, hst_store = store, hst_world = w\<rparr>"

definition log_resource :: "host_resource \<Rightarrow> resource_attrs" where
  "log_resource r = \<lparr>ra_host_name = hre_host_name r, ra_host_id = hre_host_id r, ra_os_type = hre_os_type r, ra_host_ip = None\<rparr>"

definition process_entry_of :: "process_sample \<Rightarrow> process_entry" where
  "process_entry_of p = \<lparr>pe_name = psm_name p, pe_pid = psm_pid p, pe_cpu_pct = psm_cpu_pct p, pe_rss_bytes = psm_rss_bytes p,
     pe_disk_read_bytes = psm_disk_read_bytes p, pe_disk_write_bytes = psm_disk_write_bytes p,
     pe_io_status = map_option io_status_as_str (psm_io_status p), pe_start_time = psm_start_time p,
     pe_uid = psm_uid p, pe_container_id = psm_container_id p, pe_fd_count = psm_fd_count p\<rparr>"

definition process_change_of :: "u64 \<Rightarrow> inv_change_record \<Rightarrow> process_change" where
  "process_change_of observed_at r = \<lparr>pc_op = change_op_as_str (vc_op r), pc_pid = vc_pid r, pc_ppid = vc_ppid r,
     pc_start_time = unat (vc_start_time r), pc_name = vc_name r, pc_uid = vc_uid r, pc_container_id = vc_container_id r,
     pc_observed_at = unat observed_at\<rparr>"

definition inventory_change_of :: "inv_change_record \<Rightarrow> inventory_change" where
  "inventory_change_of r = \<lparr>ic_op = change_op_as_str (vc_op r), ic_pid = vc_pid r, ic_ppid = vc_ppid r, ic_name = vc_name r,
     ic_start_time = vc_start_time r, ic_uid = vc_uid r, ic_container_id = vc_container_id r\<rparr>"

text \<open>The settings of a tick: the live snapshot when there is one.\<close>

definition process_on :: "host_params \<Rightarrow> tick_env \<Rightarrow> bool" where
  "process_on hp env = (case tev_snap env of None \<Rightarrow> hoc_process_enabled (hop_cfg hp) | Some s \<Rightarrow> lsn_process_enabled s)"

definition inventory_on :: "host_params \<Rightarrow> tick_env \<Rightarrow> bool" where
  "inventory_on hp env = (case tev_snap env of None \<Rightarrow> hoc_process_inventory_enabled (hop_cfg hp) | Some s \<Rightarrow> lsn_process_inventory_enabled s)"

definition drain_limit :: "host_params \<Rightarrow> tick_env \<Rightarrow> nat" where
  "drain_limit hp env = (case tev_snap env of None \<Rightarrow> hoc_drain_batch_limit (hop_cfg hp) | Some s \<Rightarrow> lsn_spool_drain_batch_limit s)"

definition max_age :: "host_params \<Rightarrow> tick_env \<Rightarrow> nat option" where
  "max_age hp env = (case tev_snap env of None \<Rightarrow> hoc_spool_max_age (hop_cfg hp) | Some s \<Rightarrow> lsn_spool_max_age s)"

definition tick_token :: "host_params \<Rightarrow> tick_env \<Rightarrow> str option" where
  "tick_token hp env = effective_token (tev_live_token env) (hoc_token (hop_cfg hp))"

definition permission_diagnostic :: "host_params \<Rightarrow> tick_env \<Rightarrow> host_sample \<Rightarrow> spool \<Rightarrow> spool" where
  "permission_diagnostic hp env sample s =
     (case tev_diagnostic env of None \<Rightarrow> s
      | Some n \<Rightarrow> (let ev = \<lparr>ae_kind = ''process.io.permission_denied'',
            ae_summary = ''Linux process I/O measurement denied for '' @ dec n @ '' processes; check daemon UID and procfs access policy'',
            ae_severity = ''WARN'', ae_attrs = [(''denied_count'', dec n)], ae_ts = tev_diagnostic_at env\<rparr>;
            t = tev_unix_nanos env 0
          in snd (spool_append (tev_io env 0) Logs (encode_agent_event (mlb_proto (hop_lib hp)) ev (log_resource (hsa_resource sample))
               (hoc_service_version (hop_cfg hp)) t t) s)))"

definition process_body :: "host_params \<Rightarrow> tick_env \<Rightarrow> host_sample \<Rightarrow> bytes option" where
  "process_body hp env sample =
     (if process_on hp env \<and> hsa_top_processes sample \<noteq> []
      then Some (encode_process_samples (mlb_proto (hop_lib hp)) (map process_entry_of (hsa_top_processes sample))
             (log_resource (hsa_resource sample)) (hoc_service_version (hop_cfg hp)) (tev_unix_nanos env 2))
      else None)"

definition inventory_body :: "host_params \<Rightarrow> tick_env \<Rightarrow> host_sample \<Rightarrow> u64 option \<Rightarrow> change_set \<Rightarrow> bytes" where
  "inventory_body hp env sample prev_scan cs =
     encode_process_inventory_changes (mlb_proto (hop_lib hp)) (map inventory_change_of (cs_records cs)) (cs_sequence cs)
       (cs_keyframe cs) prev_scan (log_resource (hsa_resource sample)) (hoc_service_version (hop_cfg hp)) (tev_unix_nanos env 4)"

definition scan_time :: "tick_env \<Rightarrow> u64" where
  "scan_time env = tev_unix_nanos env 3 div 1000000000"

text \<open>
  The tracker, the local ring and the request of a tick. The ring gets changes only: a keyframe is for
  the receiver of the stream.
\<close>

definition inventory_step :: "host_params \<Rightarrow> tick_env \<Rightarrow> host_sample \<Rightarrow> host_state \<Rightarrow> host_state \<times> bytes option" where
  "inventory_step hp env sample st =
     (if \<not> inventory_on hp env \<and> \<not> hoc_has_store (hop_cfg hp) then (st, None)
      else let scan_unix = scan_time env;
               (tracker, cs) = tracker_diff (hst_tracker st) (hsa_process_inventory sample) (tev_enrich env);
               store1 = (if cs_emit cs \<and> hoc_has_store (hop_cfg hp) \<and> \<not> cs_keyframe cs
                 then push_many (hst_store st) (map (process_change_of scan_unix) (cs_records cs)) else hst_store st);
               w1 = (if cs_emit cs \<and> hoc_has_store (hop_cfg hp) \<and> \<not> cs_keyframe cs then tev_others env 1 (hst_world st) else hst_world st);
               body = (if cs_emit cs \<and> inventory_on hp env then Some (inventory_body hp env sample (hst_prev_scan st) cs) else None);
               store2 = (if hoc_has_store (hop_cfg hp) then mark_ready store1 else store1)
           in (st\<lparr>hst_tracker := tracker, hst_prev_scan := Some scan_unix, hst_store := store2, hst_world := w1\<rparr>, body))"

section \<open>Sending\<close>

text \<open>What became of a request of a tick.\<close>

record sent_item =
  sti_kind :: signal_kind
  sti_body :: bytes
  sti_pushed :: bool
  sti_fate :: fate

definition spool_body :: "spool_io \<Rightarrow> signal_kind \<Rightarrow> bytes \<Rightarrow> exporter_world \<Rightarrow> fate \<times> exporter_world" where
  "spool_body io kind body w = (let (r, s') = spool_append io kind body (ew_spool w) in (spool_outcome r, w\<lparr>ew_spool := s'\<rparr>))"

text \<open>Inside the backoff window everything goes to the spool and nothing to the network.\<close>

fun spool_all :: "tick_env \<Rightarrow> nat \<Rightarrow> (signal_kind \<times> bytes) list \<Rightarrow> exporter_world \<Rightarrow> sent_item list \<times> exporter_world" where
  "spool_all env n [] w = ([], w)"
| "spool_all env n ((kind, body) # bs) w =
     (let (f, w1) = spool_body (tev_io env n) kind body w; (items, w2) = spool_all env (Suc n) bs w1
      in (\<lparr>sti_kind = kind, sti_body = body, sti_pushed = False, sti_fate = f\<rparr> # items, w2))"

type_synonym failure = "(str \<times> push_error) option"

definition push_metrics :: "host_params \<Rightarrow> tick_env \<Rightarrow> bytes \<Rightarrow> exporter_world \<Rightarrow> sent_item \<times> exporter_world \<times> failure" where
  "push_metrics hp env body w =
     (let w1 = tev_others env 3 w; url = kind_url (hop_cfg hp) Metrics in
      case push (hop_status_name hp) (tev_push_http env 0) url (tick_token hp env) body of
        Inr _ \<Rightarrow> (\<lparr>sti_kind = Metrics, sti_body = body, sti_pushed = True, sti_fate = Delivered\<rparr>, w1, None)
      | Inl e \<Rightarrow> (let (f, w2) = spool_body (tev_io env 3) Metrics body w1
                  in (\<lparr>sti_kind = Metrics, sti_body = body, sti_pushed = True, sti_fate = f\<rparr>, w2, Some (url, e))))"

text \<open>
  A log request of the tick, number \<open>k\<close>. Records the collector took and dropped are counted; the flag, which
  decides what is logged, is left as it was when the push fails.
\<close>

definition push_tick_logs :: "host_params \<Rightarrow> tick_env \<Rightarrow> nat \<Rightarrow> bytes \<Rightarrow> bool \<Rightarrow> exporter_world \<Rightarrow> sent_item \<times> exporter_world \<times> failure \<times> bool" where
  "push_tick_logs hp env k body dropped_last w =
     (let w1 = tev_others env (3 + k) w; url = kind_url (hop_cfg hp) Logs in
      case push_logs (mlb_proto (hop_lib hp)) (hop_status_name hp) (tev_push_http env k) url (tick_token hp env) body of
        Inr rejected \<Rightarrow>
          (\<lparr>sti_kind = Logs, sti_body = body, sti_pushed = True, sti_fate = Delivered\<rparr>,
           if 0 < rejected then w1\<lparr>ew_drops := (ew_drops w1)\<lparr>dc_by_collector_dropped := dc_by_collector_dropped (ew_drops w1) + rejected\<rparr>\<rparr> else w1,
           None, 0 < rejected)
      | Inl e \<Rightarrow> (let (f, w2) = spool_body (tev_io env (3 + k)) Logs body w1
                  in (\<lparr>sti_kind = Logs, sti_body = body, sti_pushed = True, sti_fate = f\<rparr>, w2, Some (url, e), dropped_last)))"

definition or_else :: "failure \<Rightarrow> failure \<Rightarrow> failure" where
  "or_else later earlier = (case later of Some f \<Rightarrow> Some f | None \<Rightarrow> earlier)"

text \<open>The drain at the start of a tick or of a flush, and what it says of the collector.\<close>

definition prune_and_drain :: "host_params \<Rightarrow> tick_env \<Rightarrow> nat \<Rightarrow> exporter_world \<Rightarrow> (signal_kind \<times> bytes) list \<times> drain_report \<times> exporter_world" where
  "prune_and_drain hp env lim w =
     (let s1 = (case max_age hp env of None \<Rightarrow> ew_spool w | Some a \<Rightarrow> snd (prune_older_than (tev_io env 1) a (ew_spool w)));
          (sent, rep, s2) = drain_spool hp env (tev_io env 2) lim (tick_token hp env) s1
      in (sent, rep, tev_others env 2 (w\<lparr>ew_spool := s2\<rparr>)))"

definition tick_drain :: "host_params \<Rightarrow> tick_env \<Rightarrow> exporter_world \<Rightarrow> (signal_kind \<times> bytes) list \<times> bool \<times> failure \<times> exporter_world" where
  "tick_drain hp env w =
     (let (sent, rep, w1) = prune_and_drain hp env (drain_limit hp env) w in
      case dr_last_error rep of
        None \<Rightarrow> (sent, dr_failed rep, None, w1)
      | Some (kind, e) \<Rightarrow>
          (sent, dr_failed rep, Some (kind_url (hop_cfg hp) kind, e),
           if is_permanent e then w1\<lparr>ew_health := record_rejection (tev_unix env) (kind_url (hop_cfg hp) kind) e (ew_health w1)\<rparr> else w1))"

definition conclude_tick :: "tick_env \<Rightarrow> bool \<Rightarrow> failure \<Rightarrow> host_state \<Rightarrow> host_state" where
  "conclude_tick env failed cause st =
     (let w = hst_world st in
      if failed then st\<lparr>hst_backoff := on_failure (tev_done_at env) (tev_jitter env) (hst_backoff st),
        hst_world := w\<lparr>ew_health := (case cause of Some (url, e) \<Rightarrow> record_fail (tev_unix env) url e (ew_health w)
          | None \<Rightarrow> record_fail_without_cause (ew_health w))\<rparr>\<rparr>
      else st\<lparr>hst_backoff := on_success (tev_done_at env) (hst_backoff st),
        hst_world := w\<lparr>ew_health := record_ok (tev_unix env) (ew_health w)\<rparr>\<rparr>)"

record tick_report =
  tkr_drained :: "(signal_kind \<times> bytes) list"
  tkr_items :: "sent_item list"
  tkr_inventory :: "bytes option"
  tkr_drain_failed :: bool

definition push_optional :: "host_params \<Rightarrow> tick_env \<Rightarrow> nat \<Rightarrow> bytes option \<Rightarrow> bool \<Rightarrow> exporter_world \<Rightarrow> sent_item list \<times> exporter_world \<times> failure \<times> bool" where
  "push_optional hp env k body dropped_last w =
     (case body of None \<Rightarrow> ([], w, None, dropped_last)
      | Some b \<Rightarrow> (let (item, w1, f, d) = push_tick_logs hp env k b dropped_last w in ([item], w1, f, d)))"

definition tick_push :: "host_params \<Rightarrow> tick_env \<Rightarrow> bytes \<Rightarrow> bytes option \<Rightarrow> bytes option \<Rightarrow> host_state \<Rightarrow> host_state \<times> tick_report" where
  "tick_push hp env body pbody ibody st =
     (let (drained, failed0, cause0, w1) = tick_drain hp env (hst_world st);
          (item1, w2, f1) = push_metrics hp env body w1;
          (items2, w3, f2, d2) = push_optional hp env 1 pbody (hst_process_dropped_last st) w2;
          (items3, w4, f3, d3) = push_optional hp env 2 ibody (hst_inv_dropped_last st) w3;
          failed = (failed0 \<or> f1 \<noteq> None \<or> f2 \<noteq> None \<or> f3 \<noteq> None);
          cause = or_else f3 (or_else f2 (or_else f1 cause0))
      in (conclude_tick env failed cause (st\<lparr>hst_process_dropped_last := d2, hst_inv_dropped_last := d3, hst_world := w4\<rparr>),
          \<lparr>tkr_drained = drained, tkr_items = item1 # items2 @ items3, tkr_inventory = ibody, tkr_drain_failed = failed0\<rparr>))"

definition with_quota_losses :: "exporter_world \<Rightarrow> exporter_world" where
  "with_quota_losses w = w\<lparr>ew_drops := (ew_drops w)\<lparr>dc_by_spool_quota := dropped_count (ew_spool w) AppLogs\<rparr>\<rparr>"

definition metrics_body :: "host_params \<Rightarrow> tick_env \<Rightarrow> host_sample \<Rightarrow> exporter_world \<Rightarrow> bytes" where
  "metrics_body hp env sample w =
     encode_metrics (hop_lib hp) sample (hoc_service_version (hop_cfg hp)) (tev_unix_nanos env 1) (Some (ew_drops w))"

fun opt_list :: "'a option \<Rightarrow> 'a list" where
  "opt_list None = []"
| "opt_list (Some x) = [x]"

text \<open>One tick; the sampler's panic ends the task.\<close>

definition host_tick :: "host_params \<Rightarrow> tick_env \<Rightarrow> host_state \<Rightarrow> (host_state \<times> tick_report) option" where
  "host_tick hp env st =
     (case tev_sample env of None \<Rightarrow> None
      | Some sample \<Rightarrow> Some (
          let w0 = tev_others env 0 (hst_world st);
              w1 = with_quota_losses (w0\<lparr>ew_spool := permission_diagnostic hp env sample (ew_spool w0)\<rparr>);
              body = metrics_body hp env sample w1;
              pbody = process_body hp env sample;
              (st1, ibody) = inventory_step hp env sample (st\<lparr>hst_world := w1\<rparr>)
          in if \<not> backoff_ready (tev_ready_at env) (hst_backoff st1) then
               (let (items, w2) = spool_all env 3
                  ((Metrics, body) # map (Pair Logs) (opt_list pbody @ opt_list ibody)) (hst_world st1)
                in (st1\<lparr>hst_world := w2\<rparr>, \<lparr>tkr_drained = [], tkr_items = items, tkr_inventory = ibody, tkr_drain_failed = False\<rparr>))
             else tick_push hp env body pbody ibody st1))"

text \<open>A flush: the drain without a limit, outside the backoff, and its answer.\<close>

definition host_flush :: "host_params \<Rightarrow> tick_env \<Rightarrow> host_state \<Rightarrow> host_state \<times> spool_flush_result" where
  "host_flush hp env st =
     (let (sent, rep, w1) = prune_and_drain hp env (2 ^ 64 - 1) (hst_world st);
          cause = map_option (\<lambda>(kind, e). (kind_url (hop_cfg hp) kind, e)) (dr_last_error rep);
          st1 = conclude_tick env (dr_failed rep) cause (st\<lparr>hst_world := w1\<rparr>)
      in (st1, \<lparr>sf_drained = dr_drained rep, sf_rejected = dr_rejected rep,
               sf_remaining = batch_count (tev_io env 3) (ew_spool (hst_world st1))\<rparr>))"

section \<open>The task\<close>

datatype host_event = HostTick tick_env | HostFlush tick_env | HostReload | HostShutdown bool
  | HostOthers "exporter_world \<Rightarrow> exporter_world"

fun serve_host :: "host_params \<Rightarrow> host_event list \<Rightarrow> host_state \<Rightarrow> bool \<times> host_state \<times> tick_report list" where
  "serve_host hp [] st = (False, st, [])"
| "serve_host hp (HostTick env # es) st =
     (case host_tick hp env st of
        None \<Rightarrow> (True, st, [])
      | Some (st1, rep) \<Rightarrow> (let (ended, st2, reps) = serve_host hp es st1 in (ended, st2, rep # reps)))"
| "serve_host hp (HostFlush env # es) st = serve_host hp es (fst (host_flush hp env st))"
| "serve_host hp (HostReload # es) st = serve_host hp es st"
| "serve_host hp (HostShutdown stop # es) st = (if stop then (True, st, []) else serve_host hp es st)"
| "serve_host hp (HostOthers g # es) st = serve_host hp es (st\<lparr>hst_world := g (hst_world st)\<rparr>)"

section \<open>The inventory stream\<close>

text \<open>The ticks a run gets to, with their samples.\<close>

fun ticks_of :: "host_event list \<Rightarrow> (tick_env \<times> host_sample) list" where
  "ticks_of [] = []"
| "ticks_of (HostTick env # es) = (case tev_sample env of None \<Rightarrow> [] | Some s \<Rightarrow> (env, s) # ticks_of es)"
| "ticks_of (HostShutdown stop # es) = (if stop then [] else ticks_of es)"
| "ticks_of (_ # es) = ticks_of es"

definition tick_table :: "tick_env \<times> host_sample \<Rightarrow> proc_inv list \<times> owner_lookup" where
  "tick_table t = (hsa_process_inventory (snd t), tev_enrich (fst t))"

lemma conclude_tick_keeps [simp]:
  "hst_tracker (conclude_tick env failed cause st) = hst_tracker st"
  "hst_prev_scan (conclude_tick env failed cause st) = hst_prev_scan st"
  "hst_store (conclude_tick env failed cause st) = hst_store st"
  by (simp_all add: conclude_tick_def Let_def)

lemma tick_push_keeps:
  assumes "tick_push hp env body pbody ibody st = (st', rep)"
  shows "hst_tracker st' = hst_tracker st" and "hst_prev_scan st' = hst_prev_scan st" and "hst_store st' = hst_store st"
    and "tkr_inventory rep = ibody"
  using assms by (auto simp: tick_push_def Let_def split: prod.splits)

lemma host_flush_keeps [simp]:
  "hst_tracker (fst (host_flush hp env st)) = hst_tracker st"
  "hst_prev_scan (fst (host_flush hp env st)) = hst_prev_scan st"
  "hst_store (fst (host_flush hp env st)) = hst_store st"
  by (simp_all add: host_flush_def Let_def split: prod.splits)

lemma push_many_tap [simp]: "iv_tap (push_many s cs) = iv_tap s @ cs"
proof -
  have "iv_tap (foldl inventory_push s cs) = iv_tap s @ cs"
    by (induction cs arbitrary: s) (simp_all add: inventory_push_def)
  then show ?thesis by (simp add: push_many_fold)
qed

lemma mark_ready_tap [simp]: "iv_tap (mark_ready s) = iv_tap s"
  by (simp add: mark_ready_def)

text \<open>The tracker runs in a tick when the inventory is sent or kept.\<close>

definition tracked :: "host_params \<Rightarrow> tick_env \<times> host_sample \<Rightarrow> bool" where
  "tracked hp t \<longleftrightarrow> inventory_on hp (fst t) \<or> hoc_has_store (hop_cfg hp)"

definition step_changes :: "host_params \<Rightarrow> tick_env \<Rightarrow> change_set \<Rightarrow> process_change list" where
  "step_changes hp env cs =
     (if hoc_has_store (hop_cfg hp) \<and> \<not> cs_keyframe cs then map (process_change_of (scan_time env)) (cs_records cs) else [])"

lemma inventory_step_stream:
  assumes "inventory_step hp env sample st = (st', ibody)" and "tracked hp (env, sample)"
    and "tracker_diff (hst_tracker st) (hsa_process_inventory sample) (tev_enrich env) = (t, cs)"
  shows "hst_tracker st' = t \<and> hst_prev_scan st' = Some (scan_time env) \<and>
    ibody = (if inventory_on hp env \<and> cs_emit cs then Some (inventory_body hp env sample (hst_prev_scan st) cs) else None) \<and>
    iv_tap (hst_store st') = iv_tap (hst_store st) @ step_changes hp env cs"
proof -
  have silent: "\<not> cs_emit cs \<Longrightarrow> cs_records cs = []" using tracker_diff_flags(6) [OF assms(3)] by blast
  show ?thesis using assms silent by (auto simp: inventory_step_def tracked_def step_changes_def Let_def split: if_splits)
qed

lemma inventory_step_untracked:
  "inventory_step hp env sample st = (st', ibody) \<Longrightarrow> \<not> tracked hp (env, sample) \<Longrightarrow> st' = st \<and> ibody = None"
  by (simp add: inventory_step_def tracked_def)

text \<open>A tick is its inventory step and the sending of what it made; the requests are the metrics, the processes and the changes.\<close>

definition tick_requests :: "host_params \<Rightarrow> tick_env \<Rightarrow> host_sample \<Rightarrow> exporter_world \<Rightarrow> bytes option \<Rightarrow> (signal_kind \<times> bytes) list" where
  "tick_requests hp env sample w ibody =
     (Metrics, metrics_body hp env sample w) # map (Pair Logs) (opt_list (process_body hp env sample) @ opt_list ibody)"

definition items_of :: "tick_report \<Rightarrow> (signal_kind \<times> bytes) list" where
  "items_of rep = map (\<lambda>i. (sti_kind i, sti_body i)) (tkr_items rep)"

lemma push_optional_bodies:
  "push_optional hp env k body d w = (items, w', f, d') \<Longrightarrow> map (\<lambda>i. (sti_kind i, sti_body i)) items = map (Pair Logs) (opt_list body)"
  by (cases body) (auto simp: push_optional_def push_tick_logs_def Let_def split: prod.splits sum.splits)

lemma push_metrics_body: "push_metrics hp env body w = (item, w', f) \<Longrightarrow> sti_kind item = Metrics \<and> sti_body item = body"
  by (auto simp: push_metrics_def Let_def split: prod.splits sum.splits)

lemma spool_all_bodies:
  "spool_all env n bs w = (items, w') \<Longrightarrow> map (\<lambda>i. (sti_kind i, sti_body i)) items = bs \<and> (\<forall>i\<in>set items. \<not> sti_pushed i)"
  by (induction env n bs w arbitrary: items w' rule: spool_all.induct) (auto split: prod.splits)

lemma tick_push_items:
  assumes "tick_push hp env body pbody ibody st = (st', rep)"
  shows "items_of rep = (Metrics, body) # map (Pair Logs) (opt_list pbody @ opt_list ibody)"
  using assms push_metrics_body push_optional_bodies
  by (auto simp: tick_push_def items_of_def Let_def split: prod.splits)

lemma inventory_step_backoff: "inventory_step hp env sample st = (st', ibody) \<Longrightarrow> hst_backoff st' = hst_backoff st"
  by (auto simp: inventory_step_def Let_def split: prod.splits if_splits)

definition sampled_world :: "host_params \<Rightarrow> tick_env \<Rightarrow> host_sample \<Rightarrow> exporter_world \<Rightarrow> exporter_world" where
  "sampled_world hp env sample w = (let w0 = tev_others env 0 w in
     with_quota_losses (w0\<lparr>ew_spool := permission_diagnostic hp env sample (ew_spool w0)\<rparr>))"

lemma host_tick_parts:
  assumes "host_tick hp env st = Some (st', rep)"
  obtains sample st1 where "tev_sample env = Some sample"
    "inventory_step hp env sample (st\<lparr>hst_world := sampled_world hp env sample (hst_world st)\<rparr>) = (st1, tkr_inventory rep)"
    "hst_tracker st' = hst_tracker st1" "hst_prev_scan st' = hst_prev_scan st1" "hst_store st' = hst_store st1"
    "items_of rep = tick_requests hp env sample (sampled_world hp env sample (hst_world st)) (tkr_inventory rep)"
    "backoff_ready (tev_ready_at env) (hst_backoff st) \<Longrightarrow>
       tick_push hp env (metrics_body hp env sample (sampled_world hp env sample (hst_world st))) (process_body hp env sample) (tkr_inventory rep) st1 = (st', rep)"
proof -
  obtain sample where sm: "tev_sample env = Some sample" using assms by (cases "tev_sample env") (auto simp: host_tick_def)
  define w1 where "w1 = sampled_world hp env sample (hst_world st)"
  obtain st1 ibody where i: "inventory_step hp env sample (st\<lparr>hst_world := w1\<rparr>) = (st1, ibody)" by (rule prod.exhaust)
  have bo: "hst_backoff st1 = hst_backoff st" using inventory_step_backoff [OF i] by simp
  obtain items w2 where sp: "spool_all env 3 (tick_requests hp env sample w1 ibody) (hst_world st1) = (items, w2)" by (rule prod.exhaust)
  have tick: "(st', rep) = (if \<not> backoff_ready (tev_ready_at env) (hst_backoff st)
      then (st1\<lparr>hst_world := w2\<rparr>, \<lparr>tkr_drained = [], tkr_items = items, tkr_inventory = ibody, tkr_drain_failed = False\<rparr>)
      else tick_push hp env (metrics_body hp env sample w1) (process_body hp env sample) ibody st1)"
    using assms sm i bo sp
    by (simp add: host_tick_def w1_def sampled_world_def tick_requests_def Let_def del: spool_all.simps split: if_splits)
  show ?thesis
  proof (cases "backoff_ready (tev_ready_at env) (hst_backoff st)")
    case True
    then have p: "tick_push hp env (metrics_body hp env sample w1) (process_body hp env sample) ibody st1 = (st', rep)" using tick by simp
    show ?thesis
      by (rule that [OF sm]) (use i p tick_push_keeps [OF p] tick_push_items [OF p] in \<open>simp_all add: w1_def tick_requests_def\<close>)
  next
    case False
    show ?thesis
      by (rule that [OF sm]) (use i False tick spool_all_bodies [OF sp] in \<open>simp_all add: w1_def items_of_def\<close>)
  qed
qed

lemma host_tick_stream:
  assumes "host_tick hp env st = Some (st', rep)" and "tev_sample env = Some sample" and "tracked hp (env, sample)"
    and "tracker_diff (hst_tracker st) (hsa_process_inventory sample) (tev_enrich env) = (t, cs)"
  shows "hst_tracker st' = t \<and> hst_prev_scan st' = Some (scan_time env) \<and>
    tkr_inventory rep = (if inventory_on hp env \<and> cs_emit cs then Some (inventory_body hp env sample (hst_prev_scan st) cs) else None) \<and>
    iv_tap (hst_store st') = iv_tap (hst_store st) @ step_changes hp env cs"
  using assms(1)
proof (rule host_tick_parts)
  fix sample' st1
  assume a: "tev_sample env = Some sample'"
    "inventory_step hp env sample' (st\<lparr>hst_world := sampled_world hp env sample' (hst_world st)\<rparr>) = (st1, tkr_inventory rep)"
    "hst_tracker st' = hst_tracker st1" "hst_prev_scan st' = hst_prev_scan st1" "hst_store st' = hst_store st1"
  have "sample' = sample" using a(1) assms(2) by simp
  then show ?thesis using inventory_step_stream [OF a(2), of t cs] assms(3,4) a(3-5) by simp
qed

lemma host_tick_untracked:
  assumes "host_tick hp env st = Some (st', rep)" and "tev_sample env = Some sample" and "\<not> tracked hp (env, sample)"
  shows "hst_tracker st' = hst_tracker st \<and> hst_prev_scan st' = hst_prev_scan st \<and> tkr_inventory rep = None \<and> hst_store st' = hst_store st"
  using assms(1)
proof (rule host_tick_parts)
  fix sample' st1
  assume a: "tev_sample env = Some sample'"
    "inventory_step hp env sample' (st\<lparr>hst_world := sampled_world hp env sample' (hst_world st)\<rparr>) = (st1, tkr_inventory rep)"
    "hst_tracker st' = hst_tracker st1" "hst_prev_scan st' = hst_prev_scan st1" "hst_store st' = hst_store st1"
  have "\<not> tracked hp (env, sample')" using a(1) assms(2,3) by simp
  from inventory_step_untracked [OF a(2) this] a(3-5) show ?thesis by auto
qed

text \<open>The requests and the entries of the ring that a run should make, given the change sets of its tracked ticks.\<close>

fun stream_requests :: "host_params \<Rightarrow> u64 option \<Rightarrow> (tick_env \<times> host_sample) list \<Rightarrow> change_set list \<Rightarrow> bytes option list" where
  "stream_requests hp prev [] css = []"
| "stream_requests hp prev (t # ts) css =
     (if \<not> tracked hp t then None # stream_requests hp prev ts css
      else (if inventory_on hp (fst t) \<and> cs_emit (hd css) then Some (inventory_body hp (fst t) (snd t) prev (hd css)) else None)
        # stream_requests hp (Some (scan_time (fst t))) ts (tl css))"

fun ring_entries :: "(tick_env \<times> host_sample) list \<Rightarrow> change_set list \<Rightarrow> process_change list" where
  "ring_entries ((env, sample) # ts) (cs # css) =
     (if cs_keyframe cs then [] else map (process_change_of (scan_time env)) (cs_records cs)) @ ring_entries ts css"
| "ring_entries _ _ = []"

lemma serve_host_stream:
  assumes "serve_host hp es st = (ended, st', reps)"
  shows "let ts = filter (tracked hp) (ticks_of es); css = snd (tracker_run (hst_tracker st) (map tick_table ts)) in
    map tkr_inventory reps = stream_requests hp (hst_prev_scan st) (ticks_of es) css \<and>
    iv_tap (hst_store st') = iv_tap (hst_store st) @ (if hoc_has_store (hop_cfg hp) then ring_entries ts css else [])"
  using assms
proof (induction hp es st arbitrary: ended st' reps rule: serve_host.induct)
  case (2 hp env es st)
  show ?case
  proof (cases "tev_sample env")
    case None
    then have "host_tick hp env st = None" by (simp add: host_tick_def)
    then show ?thesis using "2.prems" None by simp
  next
    case (Some sample)
    then have "host_tick hp env st \<noteq> None" by (simp add: host_tick_def)
    then obtain st1 rep where h: "host_tick hp env st = Some (st1, rep)" by (metis option.exhaust prod.exhaust)
    obtain ended2 st2 reps2 where r: "serve_host hp es st1 = (ended2, st2, reps2)" by (rule prod_cases3)
    have out: "st' = st2" "reps = rep # reps2" using "2.prems" h r by auto
    note ih = "2.IH" [OF h refl r]
    show ?thesis
    proof (cases "tracked hp (env, sample)")
      case False
      then show ?thesis using ih host_tick_untracked [OF h Some False] Some out by (simp add: Let_def)
    next
      case True
      obtain t cs where d: "tracker_diff (hst_tracker st) (hsa_process_inventory sample) (tev_enrich env) = (t, cs)" by (rule prod.exhaust)
      have tt: "tick_table (env, sample) = (hsa_process_inventory sample, tev_enrich env)" by (simp add: tick_table_def)
      show ?thesis
        using ih host_tick_stream [OF h Some True d] Some out True by (auto simp: tt d step_changes_def Let_def split: prod.splits)
    qed
  qed
qed (auto split: if_splits)

lemma stream_requests_nth:
  defines "rank \<equiv> \<lambda>hp ts n. length (filter (tracked hp) (take n ts))"
  assumes "n < length ts" and "length css = length (filter (tracked hp) ts)"
  shows "stream_requests hp prev ts css ! n =
    (let t = ts ! n; k = rank hp ts n in
     if inventory_on hp (fst t) \<and> cs_emit (css ! k)
     then Some (inventory_body hp (fst t) (snd t) (if k = 0 then prev else Some (scan_time (fst (filter (tracked hp) ts ! (k - 1))))) (css ! k))
     else None)"
  using assms(2,3)
proof (induction hp prev ts css arbitrary: n rule: stream_requests.induct)
  case (2 hp prev t ts css)
  note ih = "2.IH"
  have on: "inventory_on hp (fst t) \<Longrightarrow> tracked hp t" by (simp add: tracked_def)
  show ?case
  proof (cases "tracked hp t")
    case False
    then show ?thesis using ih(1) [OF False] "2.prems" on by (cases n) (auto simp: rank_def Let_def)
  next
    case True
    obtain cs css' where css: "css = cs # css'" using "2.prems"(2) True by (cases css) auto
    show ?thesis
    proof (cases n)
      case 0
      then show ?thesis using True by (simp add: css rank_def hd_conv_nth)
    next
      case (Suc m)
      have "stream_requests hp (Some (scan_time (fst t))) ts css' ! m =
        (let t' = ts ! m; k = rank hp ts m in
         if inventory_on hp (fst t') \<and> cs_emit (css' ! k)
         then Some (inventory_body hp (fst t') (snd t') (if k = 0 then Some (scan_time (fst t)) else Some (scan_time (fst (filter (tracked hp) ts ! (k - 1))))) (css' ! k))
         else None)"
        using ih(2) [of m, unfolded css list.sel] True "2.prems" Suc css by simp
      then show ?thesis using True by (simp add: css Suc rank_def Let_def nth_Cons' del: filter.simps) (simp add: nth_Cons')
    qed
  qed
qed simp

lemma serve_host_items:
  "serve_host hp es st = (ended, st', reps) \<Longrightarrow> length reps = length (ticks_of es) \<and>
    (\<forall>n < length reps. \<exists>w. items_of (reps ! n) = tick_requests hp (fst (ticks_of es ! n)) (snd (ticks_of es ! n)) w (tkr_inventory (reps ! n)))"
proof (induction hp es st arbitrary: ended st' reps rule: serve_host.induct)
  case (2 hp env es st)
  show ?case
  proof (cases "host_tick hp env st")
    case None
    then show ?thesis using "2.prems" by (auto simp: host_tick_def split: option.splits)
  next
    case (Some x)
    obtain st1 rep where h: "host_tick hp env st = Some (st1, rep)" using Some by (cases x) simp
    obtain ended2 st2 reps2 where r: "serve_host hp es st1 = (ended2, st2, reps2)" by (rule prod_cases3)
    have out: "reps = rep # reps2" using "2.prems" h r by auto
    obtain sample where s: "tev_sample env = Some sample" "\<exists>w. items_of rep = tick_requests hp env sample w (tkr_inventory rep)"
      using h by (rule host_tick_parts) blast
    show ?thesis using "2.IH" [OF h refl r] s by (auto simp: out nth_Cons split: nat.splits)
  qed
qed (auto split: if_splits)

text \<open>
  C15 (functional). Over a whole run of the task, flushes, reloads that switch the inventory on and off, and the other tasks
  included, the inventory requests are the change stream of the process tables it sampled. The tracker sees the tables of the
  ticks in which the inventory is sent or the local ring is kept. A tick makes an inventory request exactly when the
  inventory is switched on and its change set is to be sent; the request holds that change set with its number and, as the
  time a removed process was last seen, the time of the tracked scan before. (While the inventory is off and the ring
  is kept, numbers go by that no request carries.) The requests of a tick, pushed or spooled, are
  its metrics, its processes if any, and this one. The local ring gets the changes of the same ticks and no keyframe.
\<close>

theorem inventory_requests_carry_stream:
  assumes "serve_host hp es (host_state_new now store w) = (ended, st', reps)"
    and "filter (tracked hp) (ticks_of es) = ts"
    and "snd (tracker_run (tracker_new 30) (map tick_table ts)) = css"
  shows "length reps = length (ticks_of es) \<and>
    (\<forall>n < length reps. let (env, sample) = ticks_of es ! n; k = length (filter (tracked hp) (take n (ticks_of es))) in
       tkr_inventory (reps ! n) =
         (if inventory_on hp env \<and> cs_emit (css ! k)
          then Some (inventory_body hp env sample (if k = 0 then None else Some (scan_time (fst (ts ! (k - 1))))) (css ! k)) else None) \<and>
       (\<exists>w. map (\<lambda>i. (sti_kind i, sti_body i)) (tkr_items (reps ! n)) =
         (Metrics, metrics_body hp env sample w) # map (Pair Logs) (opt_list (process_body hp env sample) @ opt_list (tkr_inventory (reps ! n))))) \<and>
    iv_tap (hst_store st') = iv_tap store @ (if hoc_has_store (hop_cfg hp) then ring_entries (ticks_of es) css else [])"
proof -
  obtain t where run: "tracker_run (tracker_new 30) (map tick_table ts) = (t, css)" using assms(3) by (metis prod.collapse)
  have len: "length css = length (filter (tracked hp) (ticks_of es))" using tracker_run_length [OF run] assms(2) by simp
  have st: "map tkr_inventory reps = stream_requests hp None (ticks_of es) css"
      "iv_tap (hst_store st') = iv_tap store @ (if hoc_has_store (hop_cfg hp) then ring_entries ts css else [])"
    using serve_host_stream [OF assms(1)] run assms(2) by (simp_all add: host_state_new_def keyframe_ticks_def Let_def)
  note items = serve_host_items [OF assms(1)]
  have all: "hoc_has_store (hop_cfg hp) \<Longrightarrow> ts = ticks_of es" using assms(2) by (simp add: tracked_def)
  have "let (env, sample) = ticks_of es ! n; k = length (filter (tracked hp) (take n (ticks_of es))) in
       tkr_inventory (reps ! n) =
         (if inventory_on hp env \<and> cs_emit (css ! k)
          then Some (inventory_body hp env sample (if k = 0 then None else Some (scan_time (fst (ts ! (k - 1))))) (css ! k)) else None) \<and>
       (\<exists>w. map (\<lambda>i. (sti_kind i, sti_body i)) (tkr_items (reps ! n)) =
         (Metrics, metrics_body hp env sample w) # map (Pair Logs) (opt_list (process_body hp env sample) @ opt_list (tkr_inventory (reps ! n))))"
    if n: "n < length reps" for n
  proof -
    have nt: "n < length (ticks_of es)" using items n by simp
    obtain env sample where e: "ticks_of es ! n = (env, sample)" by (rule prod.exhaust)
    have "tkr_inventory (reps ! n) = stream_requests hp None (ticks_of es) css ! n" using st(1) n by (metis nth_map)
    also note stream_requests_nth [OF nt len, of None, unfolded assms(2) e Let_def prod.sel]
    finally have inv: "tkr_inventory (reps ! n) = (if inventory_on hp env \<and> cs_emit (css ! length (filter (tracked hp) (take n (ticks_of es))))
        then Some (inventory_body hp env sample (if length (filter (tracked hp) (take n (ticks_of es))) = 0 then None
          else Some (scan_time (fst (ts ! (length (filter (tracked hp) (take n (ticks_of es))) - 1))))) (css ! length (filter (tracked hp) (take n (ticks_of es))))) else None)" .
    have it: "\<exists>w. map (\<lambda>i. (sti_kind i, sti_body i)) (tkr_items (reps ! n)) =
         (Metrics, metrics_body hp env sample w) # map (Pair Logs) (opt_list (process_body hp env sample) @ opt_list (tkr_inventory (reps ! n)))"
      using items n e unfolding items_of_def tick_requests_def by force
    show ?thesis unfolding e Let_def prod.case using inv it by (rule conjI)
  qed
  then show ?thesis using items st(2) all by auto
qed

section \<open>The backoff window\<close>

lemma spool_all_env:
  "spool_all (env\<lparr>tev_http := h1, tev_push_http := h2\<rparr>) n bs w = spool_all env n bs w"
  by (induction env n bs w rule: spool_all.induct) (auto split: prod.splits)

lemma settings_env [simp]:
  "inventory_on hp (env\<lparr>tev_http := h1, tev_push_http := h2\<rparr>) = inventory_on hp env"
  "process_on hp (env\<lparr>tev_http := h1, tev_push_http := h2\<rparr>) = process_on hp env"
  "scan_time (env\<lparr>tev_http := h1, tev_push_http := h2\<rparr>) = scan_time env"
  "inventory_body hp (env\<lparr>tev_http := h1, tev_push_http := h2\<rparr>) sample prev cs = inventory_body hp env sample prev cs"
  by (simp_all add: inventory_on_def process_on_def scan_time_def inventory_body_def)

lemma tick_inputs_env [simp]:
  "permission_diagnostic hp (env\<lparr>tev_http := h1, tev_push_http := h2\<rparr>) sample s = permission_diagnostic hp env sample s"
  "process_body hp (env\<lparr>tev_http := h1, tev_push_http := h2\<rparr>) sample = process_body hp env sample"
  "inventory_step hp (env\<lparr>tev_http := h1, tev_push_http := h2\<rparr>) sample st = inventory_step hp env sample st"
  "metrics_body hp (env\<lparr>tev_http := h1, tev_push_http := h2\<rparr>) sample w = metrics_body hp env sample w"
  by (simp_all add: permission_diagnostic_def process_body_def inventory_step_def metrics_body_def Let_def split: prod.splits option.splits)

lemma host_tick_backoff:
  assumes "\<not> backoff_ready (tev_ready_at env) (hst_backoff st)" and "tev_sample env = Some sample"
  shows "\<exists>w1 st1 ibody items w2. inventory_step hp env sample (st\<lparr>hst_world := w1\<rparr>) = (st1, ibody) \<and>
    spool_all env 3 ((Metrics, metrics_body hp env sample w1) # map (Pair Logs) (opt_list (process_body hp env sample) @ opt_list ibody)) (hst_world st1) = (items, w2) \<and>
    host_tick hp env st = Some (st1\<lparr>hst_world := w2\<rparr>, \<lparr>tkr_drained = [], tkr_items = items, tkr_inventory = ibody, tkr_drain_failed = False\<rparr>)"
proof -
  define w1 where "w1 = with_quota_losses ((tev_others env 0 (hst_world st))\<lparr>ew_spool := permission_diagnostic hp env sample (ew_spool (tev_others env 0 (hst_world st)))\<rparr>)"
  obtain st1 ibody where i: "inventory_step hp env sample (st\<lparr>hst_world := w1\<rparr>) = (st1, ibody)" by (rule prod.exhaust)
  obtain items w2 where sp: "spool_all env 3 ((Metrics, metrics_body hp env sample w1) # map (Pair Logs) (opt_list (process_body hp env sample) @ opt_list ibody)) (hst_world st1) = (items, w2)"
    by (rule prod.exhaust)
  have "\<not> backoff_ready (tev_ready_at env) (hst_backoff st1)" using inventory_step_backoff [OF i] assms(1) by simp
  then have "host_tick hp env st = Some (st1\<lparr>hst_world := w2\<rparr>, \<lparr>tkr_drained = [], tkr_items = items, tkr_inventory = ibody, tkr_drain_failed = False\<rparr>)"
    using assms(2) i sp by (simp add: host_tick_def w1_def Let_def del: spool_all.simps)
  with i sp show ?thesis by blast
qed

text \<open>
  Further property (safety). While the backoff of a failed collector lasts, a tick does not touch the network: it is the same
  whatever the collector would answer, it drains nothing, and every request it made goes to the spool,
  the metrics first; the backoff is left as it is.
\<close>

theorem backoff_window_is_silent:
  assumes "\<not> backoff_ready (tev_ready_at env) (hst_backoff st)"
  shows "host_tick hp (env\<lparr>tev_http := h1, tev_push_http := h2\<rparr>) st = host_tick hp env st \<and>
    (host_tick hp env st = Some (st', rep) \<longrightarrow> tkr_drained rep = [] \<and> (\<forall>i\<in>set (tkr_items rep). \<not> sti_pushed i) \<and>
       tkr_items rep \<noteq> [] \<and> sti_kind (hd (tkr_items rep)) = Metrics \<and> hst_backoff st' = hst_backoff st)"
proof (cases "tev_sample env")
  case None
  then show ?thesis by (simp add: host_tick_def)
next
  case (Some sample)
  let ?env = "env\<lparr>tev_http := h1, tev_push_http := h2\<rparr>"
  have "host_tick hp ?env st = host_tick hp env st"
    using Some assms by (simp add: host_tick_def spool_all_env Let_def inventory_step_backoff split: prod.splits)
  moreover obtain w1 st1 ibody items w2 where t:
    "inventory_step hp env sample (st\<lparr>hst_world := w1\<rparr>) = (st1, ibody)"
    "spool_all env 3 ((Metrics, metrics_body hp env sample w1) # map (Pair Logs) (opt_list (process_body hp env sample) @ opt_list ibody)) (hst_world st1) = (items, w2)"
    "host_tick hp env st = Some (st1\<lparr>hst_world := w2\<rparr>, \<lparr>tkr_drained = [], tkr_items = items, tkr_inventory = ibody, tkr_drain_failed = False\<rparr>)"
    using host_tick_backoff [OF assms Some] by blast
  moreover have "items \<noteq> [] \<and> sti_kind (hd items) = Metrics" using spool_all_bodies [OF t(2)] by (cases items) auto
  ultimately show ?thesis using spool_all_bodies [OF t(2)] inventory_step_backoff [OF t(1)] by auto
qed

section \<open>What a tick reports\<close>

lemma spool_body_health: "ew_health (snd (spool_body io kind body w)) = ew_health w"
  by (simp add: spool_body_def split: prod.splits)

lemma spool_body_fate: "fst (spool_body io kind body w) \<noteq> Delivered"
  by (simp add: spool_body_def spool_outcome_def split: prod.splits sum.splits)

text \<open>
  The other tasks share the health record. While this task waits at point \<open>n\<close> they count so many successes and failures
  of their own; of the record nothing else matters here.
\<close>

definition others_count :: "tick_env \<Rightarrow> (nat \<Rightarrow> u64) \<Rightarrow> (nat \<Rightarrow> u64) \<Rightarrow> bool" where
  "others_count env oks fails \<longleftrightarrow> (\<forall>n w. eh_push_ok_total (ew_health (tev_others env n w)) = eh_push_ok_total (ew_health w) + oks n \<and>
     eh_push_fail_total (ew_health (tev_others env n w)) = eh_push_fail_total (ew_health w) + fails n)"

text \<open>From one state of the shared record to another only the other tasks counted, at the points given.\<close>

definition only_others :: "(nat \<Rightarrow> u64) \<Rightarrow> (nat \<Rightarrow> u64) \<Rightarrow> nat list \<Rightarrow> exporter_world \<Rightarrow> exporter_world \<Rightarrow> bool" where
  "only_others oks fails pts w w' \<longleftrightarrow>
     eh_push_ok_total (ew_health w') = eh_push_ok_total (ew_health w) + sum_list (map oks pts) \<and>
     eh_push_fail_total (ew_health w') = eh_push_fail_total (ew_health w) + sum_list (map fails pts)"

lemma only_others_simps:
  "others_count env oks fails \<Longrightarrow> only_others oks fails [n] w (tev_others env n w)"
  "only_others oks fails [] w w"
  "only_others oks fails pts w w1 \<Longrightarrow> ew_health w' = ew_health w1 \<Longrightarrow> only_others oks fails pts w w'"
  "only_others oks fails pts w1 w2 \<Longrightarrow> ew_health w' = ew_health w1 \<Longrightarrow> only_others oks fails pts w' w2"
  by (simp_all add: others_count_def only_others_def)

lemma only_others_trans: "only_others oks fails p w w1 \<Longrightarrow> only_others oks fails q w1 w2 \<Longrightarrow> only_others oks fails (p @ q) w w2"
  by (simp add: only_others_def add.assoc)

lemma push_metrics_item:
  assumes "push_metrics hp env body w = (item, w', f)" and "others_count env oks fails"
  shows "only_others oks fails [3] w w' \<and> (f = None \<longleftrightarrow> sti_fate item = Delivered) \<and> sti_pushed item"
proof (cases "push (hop_status_name hp) (tev_push_http env 0) (kind_url (hop_cfg hp) Metrics) (tick_token hp env) body")
  case (Inl e)
  obtain g w2 where sp: "spool_body (tev_io env 3) Metrics body (tev_others env 3 w) = (g, w2)" by (rule prod.exhaust)
  then have g: "g \<noteq> Delivered" and h: "ew_health w2 = ew_health (tev_others env 3 w)"
    using spool_body_fate [of "tev_io env 3" Metrics body "tev_others env 3 w"]
      spool_body_health [of "tev_io env 3" Metrics body "tev_others env 3 w"] by auto
  have out: "(item, w', f) = (\<lparr>sti_kind = Metrics, sti_body = body, sti_pushed = True, sti_fate = g\<rparr>, w2, Some (kind_url (hop_cfg hp) Metrics, e))"
    unfolding assms(1) [symmetric] push_metrics_def Let_def Inl sum.case sp prod.case by (rule refl)
  have "only_others oks fails [3] w w2" by (rule only_others_simps(3) [OF only_others_simps(1) [OF assms(2)] h])
  then show ?thesis using out g by simp
next
  case (Inr u)
  have "(item, w', f) = (\<lparr>sti_kind = Metrics, sti_body = body, sti_pushed = True, sti_fate = Delivered\<rparr>, tev_others env 3 w, None)"
    unfolding assms(1) [symmetric] push_metrics_def Let_def Inr sum.case by simp
  then show ?thesis using only_others_simps(1) [OF assms(2), of 3 w] by simp
qed

lemma push_tick_logs_item:
  assumes "push_tick_logs hp env k body d w = (item, w', f, d')" and "others_count env oks fails"
  shows "only_others oks fails [3 + k] w w' \<and> (f = None \<longleftrightarrow> sti_fate item = Delivered) \<and> sti_pushed item"
proof (cases "push_logs (mlb_proto (hop_lib hp)) (hop_status_name hp) (tev_push_http env k) (kind_url (hop_cfg hp) Logs) (tick_token hp env) body")
  case (Inl e)
  obtain g w2 where sp: "spool_body (tev_io env (3 + k)) Logs body (tev_others env (3 + k) w) = (g, w2)" by (rule prod.exhaust)
  then have g: "g \<noteq> Delivered" and h: "ew_health w2 = ew_health (tev_others env (3 + k) w)"
    using spool_body_fate [of "tev_io env (3 + k)" Logs body "tev_others env (3 + k) w"]
      spool_body_health [of "tev_io env (3 + k)" Logs body "tev_others env (3 + k) w"] by auto
  have "only_others oks fails [3 + k] w w2" by (rule only_others_simps(3) [OF only_others_simps(1) [OF assms(2)] h])
  moreover have "w' = w2" "f \<noteq> None" "sti_fate item = g" "sti_pushed item" using assms(1) Inl sp by (auto simp: push_tick_logs_def Let_def)
  ultimately show ?thesis using g by simp
next
  case (Inr rejected)
  have out: "ew_health w' = ew_health (tev_others env (3 + k) w)" "f = None" "sti_fate item = Delivered" "sti_pushed item"
    using assms(1) Inr by (auto simp: push_tick_logs_def Let_def)
  have "only_others oks fails [3 + k] w w'" by (rule only_others_simps(3) [OF only_others_simps(1) [OF assms(2)] out(1)])
  then show ?thesis using out by simp
qed

lemma push_optional_items:
  assumes "push_optional hp env k body d w = (items, w', f, d')" and "others_count env oks fails"
  shows "only_others oks fails (map (\<lambda>_. 3 + k) (opt_list body)) w w' \<and> (f = None \<longleftrightarrow> (\<forall>i\<in>set items. sti_fate i = Delivered)) \<and>
    (\<forall>i\<in>set items. sti_pushed i)"
proof (cases body)
  case None
  then show ?thesis using assms(1) only_others_simps(2) by (simp add: push_optional_def)
next
  case (Some b)
  obtain item w1 f1 d1 where t: "push_tick_logs hp env k b d w = (item, w1, f1, d1)" by (metis prod_cases4)
  then have "items = [item] \<and> w' = w1 \<and> f = f1" using assms(1) Some by (simp add: push_optional_def)
  then show ?thesis using push_tick_logs_item [OF t assms(2)] Some by simp
qed

lemma tick_drain_health:
  assumes "tick_drain hp env w = (sent, failed, cause, w')" and "others_count env oks fails"
  shows "only_others oks fails [2] w w'"
proof -
  obtain sent0 rep w1 where p: "prune_and_drain hp env (drain_limit hp env) w = (sent0, rep, w1)" by (rule prod_cases3)
  then obtain s2 where w1: "w1 = tev_others env 2 (w\<lparr>ew_spool := s2\<rparr>)" by (auto simp: prune_and_drain_def Let_def split: prod.splits)
  have "only_others oks fails [2] w w1"
    unfolding w1 by (rule only_others_simps(4) [OF only_others_simps(1) [OF assms(2)]]) simp
  then show ?thesis
    using assms(1) p by (cases "dr_last_error rep") (auto simp: tick_drain_def record_rejection_def only_others_def)
qed

text \<open>Where the inventory step waits: when it writes to the ring.\<close>

lemma inventory_step_health:
  assumes "inventory_step hp env sample st = (st', ibody)" and "others_count env oks fails"
  shows "\<exists>pts. pts \<in> {[], [1]} \<and> only_others oks fails pts (hst_world st) (hst_world st')"
proof -
  have "hst_world st' = hst_world st \<or> hst_world st' = tev_others env 1 (hst_world st)"
    using assms(1) by (auto simp: inventory_step_def Let_def split: prod.splits if_splits)
  then show ?thesis using only_others_simps(1) [OF assms(2), of 1] only_others_simps(2) by auto
qed

lemma tick_push_outcome:
  assumes "tick_push hp env body pbody ibody st = (st', rep)" and "others_count env oks fails"
  shows "let ok = (\<not> tkr_drain_failed rep \<and> (\<forall>i\<in>set (tkr_items rep). sti_fate i = Delivered)); h = ew_health (hst_world st); h' = ew_health (hst_world st');
      pts = [2, 3] @ map (\<lambda>_. 4) (opt_list pbody) @ map (\<lambda>_. 5) (opt_list ibody) in
    eh_push_ok_total h' = eh_push_ok_total h + sum_list (map oks pts) + (if ok then 1 else 0) \<and>
    eh_push_fail_total h' = eh_push_fail_total h + sum_list (map fails pts) + (if ok then 0 else 1) \<and>
    hst_backoff st' = (if ok then on_success (tev_done_at env) (hst_backoff st) else on_failure (tev_done_at env) (tev_jitter env) (hst_backoff st)) \<and>
    (\<forall>i\<in>set (tkr_items rep). sti_pushed i)"
proof -
  obtain drained failed0 cause0 w1 where d: "tick_drain hp env (hst_world st) = (drained, failed0, cause0, w1)" by (rule prod_cases4)
  obtain item1 w2 f1 where m: "push_metrics hp env body w1 = (item1, w2, f1)" by (rule prod_cases3)
  obtain items2 w3 f2 d2 where p2: "push_optional hp env 1 pbody (hst_process_dropped_last st) w2 = (items2, w3, f2, d2)" by (rule prod_cases4)
  obtain items3 w4 f3 d3 where p3: "push_optional hp env 2 ibody (hst_inv_dropped_last st) w3 = (items3, w4, f3, d3)" by (rule prod_cases4)
  define failed where "failed = (failed0 \<or> f1 \<noteq> None \<or> f2 \<noteq> None \<or> f3 \<noteq> None)"
  define cause where "cause = or_else f3 (or_else f2 (or_else f1 cause0))"
  define st2 where "st2 = st\<lparr>hst_process_dropped_last := d2, hst_inv_dropped_last := d3, hst_world := w4\<rparr>"
  have st': "st' = conclude_tick env failed cause st2"
    and rep: "rep = \<lparr>tkr_drained = drained, tkr_items = item1 # items2 @ items3, tkr_inventory = ibody, tkr_drain_failed = failed0\<rparr>"
    using assms(1) d m p2 p3 by (simp_all add: tick_push_def failed_def cause_def st2_def Let_def)
  note i1 = push_metrics_item [OF m assms(2)] and i2 = push_optional_items [OF p2 assms(2)] and i3 = push_optional_items [OF p3 assms(2)]
  have "only_others oks fails ([2] @ [3] @ map (\<lambda>_. 3 + 1) (opt_list pbody) @ map (\<lambda>_. 3 + 2) (opt_list ibody)) (hst_world st) w4"
    by (rule only_others_trans [OF tick_drain_health [OF d assms(2)]
        only_others_trans [OF conjunct1 [OF i1] only_others_trans [OF conjunct1 [OF i2] conjunct1 [OF i3]]]])
  then have h: "only_others oks fails ([2, 3] @ map (\<lambda>_. 4) (opt_list pbody) @ map (\<lambda>_. 5) (opt_list ibody)) (hst_world st) w4" by simp
  have ok: "(\<not> tkr_drain_failed rep \<and> (\<forall>i\<in>set (tkr_items rep). sti_fate i = Delivered)) \<longleftrightarrow> \<not> failed"
    using i1 i2 i3 by (auto simp: rep failed_def)
  have "\<forall>i\<in>set (tkr_items rep). sti_pushed i" using i1 i2 i3 by (auto simp: rep)
  then show ?thesis
    unfolding ok Let_def st' using h
    by (simp add: only_others_def conclude_tick_def st2_def Let_def record_ok_def record_fail_def record_fail_without_cause_def split: option.splits)
qed

text \<open>
  C17 (invariant). What the status shows is what happened. Outside the backoff window a tick counts as one
  success or one failure, never both, and as a failure exactly when the drain stopped early or one of its own requests was
  not accepted; apart from that the totals move only by what the other tasks, which share them, count while
  this one waits, at most once at each of six points. The backoff starts over after a success and grows after a
  failure. The requests are the metrics of the sample, then its processes, if there are any, then the changes the inventory step made of it,
  each pushed once.
\<close>

theorem tick_outcome_reported:
  assumes "host_tick hp env st = Some (st', rep)" and "backoff_ready (tev_ready_at env) (hst_backoff st)"
    and "others_count env oks fails"
  shows "\<exists>sample w st1 ibody pts. tev_sample env = Some sample \<and> inventory_step hp env sample (st\<lparr>hst_world := w\<rparr>) = (st1, ibody) \<and>
    map (\<lambda>i. (sti_kind i, sti_body i)) (tkr_items rep) =
      (Metrics, metrics_body hp env sample w) # map (Pair Logs) (opt_list (process_body hp env sample) @ opt_list ibody) \<and>
    (\<forall>i\<in>set (tkr_items rep). sti_pushed i) \<and> distinct pts \<and> set pts \<subseteq> {0, 1, 2, 3, 4, 5} \<and>
    (let ok = (\<not> tkr_drain_failed rep \<and> (\<forall>i\<in>set (tkr_items rep). sti_fate i = Delivered)); h = ew_health (hst_world st); h' = ew_health (hst_world st') in
     eh_push_ok_total h' = eh_push_ok_total h + sum_list (map oks pts) + (if ok then 1 else 0) \<and>
     eh_push_fail_total h' = eh_push_fail_total h + sum_list (map fails pts) + (if ok then 0 else 1) \<and>
     hst_backoff st' = (if ok then on_success (tev_done_at env) (hst_backoff st) else on_failure (tev_done_at env) (tev_jitter env) (hst_backoff st)))"
proof -
  obtain sample st1 where sm: "tev_sample env = Some sample"
    and i: "inventory_step hp env sample (st\<lparr>hst_world := sampled_world hp env sample (hst_world st)\<rparr>) = (st1, tkr_inventory rep)"
    and items: "items_of rep = tick_requests hp env sample (sampled_world hp env sample (hst_world st)) (tkr_inventory rep)"
    and push: "tick_push hp env (metrics_body hp env sample (sampled_world hp env sample (hst_world st))) (process_body hp env sample) (tkr_inventory rep) st1 = (st', rep)"
    using host_tick_parts [OF assms(1)] assms(2) by metis
  let ?w = "sampled_world hp env sample (hst_world st)"
  let ?pts = "[2, 3] @ map (\<lambda>_. 4) (opt_list (process_body hp env sample)) @ map (\<lambda>_. 5) (opt_list (tkr_inventory rep))"
  have "ew_health ?w = ew_health (tev_others env 0 (hst_world st))" by (simp add: sampled_world_def with_quota_losses_def Let_def)
  then have w0: "only_others oks fails [0] (hst_world st) ?w"
    using only_others_simps(1) [OF assms(3), of 0 "hst_world st"] only_others_simps(3) by blast
  obtain p where p: "p \<in> {[], [1]}" "only_others oks fails p ?w (hst_world st1)" using inventory_step_health [OF i assms(3)] by auto
  have before: "only_others oks fails ([0] @ p) (hst_world st) (hst_world st1)" by (rule only_others_trans [OF w0 p(2)])
  have bo: "hst_backoff st1 = hst_backoff st" using inventory_step_backoff [OF i] by simp
  have pts: "distinct (([0] @ p) @ ?pts)" "set (([0] @ p) @ ?pts) \<subseteq> {0, 1, 2, 3, 4, 5}"
    using p(1) by (cases "process_body hp env sample"; cases "tkr_inventory rep"; auto)+
  note out = tick_push_outcome [OF push assms(3), unfolded Let_def bo]
  show ?thesis
    using sm i items out before pts unfolding items_of_def tick_requests_def only_others_def Let_def
    by (intro exI [of _ sample] exI [of _ ?w] exI [of _ st1] exI [of _ "tkr_inventory rep"] exI [of _ "([0] @ p) @ ?pts"]) (simp add: ac_simps)
qed

section \<open>Concrete runs\<close>

definition demo_host_params :: host_params where
  "demo_host_params = \<lparr>
     hop_cfg = \<lparr>hoc_endpoint = ''http://c/'', hoc_token = None, hoc_service_version = ''1'', hoc_drain_batch_limit = 20,
       hoc_spool_max_age = None, hoc_process_enabled = True, hoc_process_inventory_enabled = True, hoc_has_store = True\<rparr>,
     hop_lib = \<lparr>mlb_proto = \<lparr>pl_redact = (\<lambda>s. s), pl_encode = (\<lambda>_. ''L''), pl_decode = (\<lambda>_. None), pl_query_hash = (\<lambda>_ _ _ _. 0)\<rparr>,
       mlb_encode = (\<lambda>_. ''M''), mlb_decode = (\<lambda>_. None)\<rparr>,
     hop_status_name = (\<lambda>_. [])\<rparr>"

definition demo_sample :: host_sample where
  "demo_sample = \<lparr>hsa_resource = \<lparr>hre_host_name = ''h'', hre_host_id = ''i'', hre_os_type = ''linux'', hre_arch = ''x'', hre_os_desc = []\<rparr>,
     hsa_points = [], hsa_top_processes = [], hsa_process_inventory = [shell_proc]\<rparr>"

definition demo_spool_io :: spool_io where
  "demo_spool_io = \<lparr>io_list = True, io_meta = (\<lambda>_. True), io_read = (\<lambda>_. True), io_remove = (\<lambda>_. True), io_rename = (\<lambda>_. True),
     io_write = Written, io_now = 0\<rparr>"

definition demo_tick :: tick_env where
  "demo_tick = \<lparr>tev_live_token = None, tev_snap = None, tev_sample = Some demo_sample, tev_diagnostic = None, tev_diagnostic_at = 0,
     tev_enrich = no_owner, tev_unix_nanos = (\<lambda>_. 0), tev_ready_at = 3, tev_done_at = 4, tev_jitter = 0, tev_unix = 1,
     tev_http = (\<lambda>_ _. Reply 200 None), tev_push_http = (\<lambda>_ _. Reply 200 None), tev_io = (\<lambda>_. demo_spool_io),
     tev_drain_others = (\<lambda>_ s. s), tev_others = (\<lambda>_ w. w)\<rparr>"

definition demo_world :: exporter_world where
  "demo_world = \<lparr>ew_spool = \<lparr>sl_dir = [], sl_quotas = \<lparr>sq_metrics = 1000, sq_logs = 1000, sq_app_logs = 1000\<rparr>, sl_next_seq = 0,
       sl_totals = (\<lambda>_. 0), sl_dropped = (\<lambda>_ _. 0), sl_last_drop_warn = (\<lambda>_. 0)\<rparr>,
     ew_health = health_new [], ew_drops = drop_counters_new\<rparr>"

abbreviation demo_host_state :: host_state where
  "demo_host_state \<equiv> host_state_new 0 inventory_new demo_world"

theorem inventory_requests_carry_stream_witness:
  "\<exists>ended st' rep b. serve_host demo_host_params [HostTick demo_tick] demo_host_state = (ended, st', [rep]) \<and> tkr_inventory rep = Some b \<and>
     (Logs, b) \<in> set (map (\<lambda>i. (sti_kind i, sti_body i)) (tkr_items rep))"
proof -
  let ?es = "[HostTick demo_tick]"
  have ticks: "ticks_of ?es = [(demo_tick, demo_sample)]" by (simp add: demo_tick_def)
  have on: "inventory_on demo_host_params demo_tick" by (simp add: inventory_on_def demo_tick_def demo_host_params_def)
  then have ts: "filter (tracked demo_host_params) (ticks_of ?es) = [(demo_tick, demo_sample)]" unfolding ticks by (simp add: tracked_def)
  obtain ended st' reps where r: "serve_host demo_host_params ?es demo_host_state = (ended, st', reps)" by (rule prod_cases3)
  have first: "cs_emit (snd (tracker_run (tracker_new 30) (map tick_table [(demo_tick, demo_sample)])) ! 0)"
    by (simp add: tick_table_def tracker_new_def tracker_diff_def Let_def split: prod.splits)
  note c = inventory_requests_carry_stream [OF r ts refl]
  have "length reps = 1" using c unfolding ticks by simp
  then obtain rep where rep: "reps = [rep]" by (auto simp: length_Suc_conv)
  have "0 < length reps" by (simp add: rep)
  with c have at: "let (env, sample) = ticks_of ?es ! 0; k = length (filter (tracked demo_host_params) (take 0 (ticks_of ?es))) in
       tkr_inventory (reps ! 0) =
         (if inventory_on demo_host_params env \<and> cs_emit (snd (tracker_run (tracker_new 30) (map tick_table [(demo_tick, demo_sample)])) ! k)
          then Some (inventory_body demo_host_params env sample (if k = 0 then None else Some (scan_time (fst ([(demo_tick, demo_sample)] ! (k - 1)))))
            (snd (tracker_run (tracker_new 30) (map tick_table [(demo_tick, demo_sample)])) ! k)) else None) \<and>
       (\<exists>w. map (\<lambda>i. (sti_kind i, sti_body i)) (tkr_items (reps ! 0)) =
         (Metrics, metrics_body demo_host_params env sample w) # map (Pair Logs) (opt_list (process_body demo_host_params env sample) @ opt_list (tkr_inventory (reps ! 0))))"
    by blast
  obtain b where b: "tkr_inventory rep = Some b" using at on first unfolding rep ticks by (simp add: Let_def)
  have "\<exists>w. map (\<lambda>i. (sti_kind i, sti_body i)) (tkr_items rep) =
      (Metrics, metrics_body demo_host_params demo_tick demo_sample w) # map (Pair Logs) (opt_list (process_body demo_host_params demo_tick demo_sample) @ [b])"
    using at unfolding rep ticks Let_def nth_Cons_0 prod.case b opt_list.simps by (rule conjunct2)
  then obtain w where "map (\<lambda>i. (sti_kind i, sti_body i)) (tkr_items rep) =
      (Metrics, metrics_body demo_host_params demo_tick demo_sample w) # map (Pair Logs) (opt_list (process_body demo_host_params demo_tick demo_sample) @ [b])"
    by (rule exE)
  then show ?thesis using r rep b by (intro exI [of _ ended] exI [of _ st'] exI [of _ rep] exI [of _ b]) simp
qed

theorem backoff_window_is_silent_witness:
  "host_tick demo_host_params (demo_tick\<lparr>tev_http := (\<lambda>_ _. SendFailed []), tev_push_http := (\<lambda>_ _. SendFailed [])\<rparr>) (host_state_new 9 inventory_new demo_world)
     = host_tick demo_host_params demo_tick (host_state_new 9 inventory_new demo_world)"
  using backoff_window_is_silent [of demo_tick "host_state_new 9 inventory_new demo_world" demo_host_params "\<lambda>_ _. SendFailed []" "\<lambda>_ _. SendFailed []"]
  by (simp add: demo_tick_def host_state_new_def backoff_new_def backoff_ready_def)

theorem tick_outcome_reported_witness:
  "\<exists>st' rep. host_tick demo_host_params demo_tick demo_host_state = Some (st', rep) \<and>
     eh_push_ok_total (ew_health (hst_world st')) + eh_push_fail_total (ew_health (hst_world st')) = 1"
proof -
  have "host_tick demo_host_params demo_tick demo_host_state \<noteq> None" by (simp add: host_tick_def demo_tick_def)
  then obtain st' rep where h: "host_tick demo_host_params demo_tick demo_host_state = Some (st', rep)" by (metis option.exhaust prod.exhaust)
  have "backoff_ready (tev_ready_at demo_tick) (hst_backoff demo_host_state)" "others_count demo_tick (\<lambda>_. 0) (\<lambda>_. 0)"
    by (simp_all add: demo_tick_def host_state_new_def backoff_new_def backoff_ready_def others_count_def)
  from tick_outcome_reported [OF h this] obtain pts :: "nat list" where
    "eh_push_ok_total (ew_health (hst_world st')) + eh_push_fail_total (ew_health (hst_world st')) =
       eh_push_ok_total (ew_health demo_world) + sum_list (map (\<lambda>_. 0) pts) + (eh_push_fail_total (ew_health demo_world) + sum_list (map (\<lambda>_. 0) pts)) + 1"
    by (auto simp: Let_def host_state_new_def split: if_splits)
  moreover have "sum_list (map (\<lambda>_. 0 :: u64) pts) = 0" for pts :: "nat list" by (induction pts) simp_all
  ultimately show ?thesis using h by (simp add: demo_world_def health_new_def)
qed

end
