(* ===== verification/Signal_Tasks.thy ===== *)
theory Signal_Tasks
  imports Process_Changes Host_Exporter Logs_Privacy
begin

text \<open>
  The exporter tasks beside the host metrics, all of one shape: something is observed, it may give a
  request, and the request is pushed or spooled, each task with a backoff of its own. Process changes
  (\<open>changes.rs\<close>), connections (\<open>connections.rs\<close>), finished commands (\<open>events.rs\<close>) and actions of the agent
  (\<open>agent.rs\<close>), all under \<open>aic-server/src/otlp_exporter/\<close>. What a task observes and what each send meets are
  the events of a run.
\<close>

section \<open>One request\<close>

record task_params =
  tsp_lib :: metrics_lib
  tsp_status_name :: "nat \<Rightarrow> str"
  tsp_endpoint :: str
  tsp_token :: "str option"
  tsp_version :: str
  tsp_host :: resource_attrs

definition task_url :: "task_params \<Rightarrow> signal_kind \<Rightarrow> str" where
  "task_url tp kind = (case kind of Metrics \<Rightarrow> metrics_url (tsp_endpoint tp) | _ \<Rightarrow> logs_url (tsp_endpoint tp))"

definition push_signal :: "task_params \<Rightarrow> send_env \<Rightarrow> signal_kind \<Rightarrow> bytes \<Rightarrow> push_error option" where
  "push_signal tp env kind body =
     (let token = effective_token (sv_live env) (tsp_token tp) in
      case kind of
        Metrics \<Rightarrow> (case push (tsp_status_name tp) (sv_http env) (task_url tp kind) token body of Inl e \<Rightarrow> Some e | Inr _ \<Rightarrow> None)
      | _ \<Rightarrow> (case push_logs (mlb_proto (tsp_lib tp)) (tsp_status_name tp) (sv_http env) (task_url tp kind) token body of
            Inl e \<Rightarrow> Some e | Inr _ \<Rightarrow> None))"

text \<open>The part that every task repeats: wait for the backoff, push, and spool what could not be pushed.\<close>

definition ship :: "task_params \<Rightarrow> send_env \<Rightarrow> signal_kind \<Rightarrow> bytes \<Rightarrow> backoff \<Rightarrow> exporter_world \<Rightarrow> sent_item \<times> backoff \<times> exporter_world" where
  "ship tp env kind body bo w =
     (if \<not> backoff_ready (sv_now env) bo then
        (let (f, w1) = spool_body (sv_io env) kind body w
         in (\<lparr>sti_kind = kind, sti_body = body, sti_pushed = False, sti_fate = f\<rparr>, bo, w1))
      else let w1 = sv_others env w in
        case push_signal tp env kind body of
          None \<Rightarrow> (\<lparr>sti_kind = kind, sti_body = body, sti_pushed = True, sti_fate = Delivered\<rparr>, on_success (sv_done env) bo,
             w1\<lparr>ew_health := record_ok (sv_unix env) (ew_health w1)\<rparr>)
        | Some e \<Rightarrow>
            (let (f, w2) = spool_body (sv_io env) kind body w1
             in (\<lparr>sti_kind = kind, sti_body = body, sti_pushed = True, sti_fate = f\<rparr>, on_failure (sv_done env) (sv_jitter env) bo,
                 w2\<lparr>ew_health := record_fail (sv_unix env) (task_url tp kind) e (ew_health w2)\<rparr>)))"

section \<open>A task\<close>

text \<open>
  What a task makes of an observation: \<open>None\<close> when the task ends, else its new state and perhaps a request.
\<close>

type_synonym ('s, 'e) source = "'s \<Rightarrow> 'e \<Rightarrow> ('s \<times> (signal_kind \<times> bytes) option) option"

datatype 'e task_event = Got 'e send_env | TaskReload | TaskShutdown bool | TaskClosed | TaskOthers "exporter_world \<Rightarrow> exporter_world"

record 's task_state =
  tsk_source :: 's
  tsk_backoff :: backoff
  tsk_world :: exporter_world

fun serve_task :: "('s, 'e) source \<Rightarrow> task_params \<Rightarrow> 'e task_event list \<Rightarrow> 's task_state \<Rightarrow> bool \<times> 's task_state \<times> sent_item list" where
  "serve_task src tp [] st = (False, st, [])"
| "serve_task src tp (Got e env # es) st =
     (case src (tsk_source st) e of
        None \<Rightarrow> (True, st, [])
      | Some (s1, None) \<Rightarrow> serve_task src tp es (st\<lparr>tsk_source := s1\<rparr>)
      | Some (s1, Some (kind, body)) \<Rightarrow>
          (let (item, bo, w) = ship tp env kind body (tsk_backoff st) (tsk_world st);
               (ended, st2, items) = serve_task src tp es \<lparr>tsk_source = s1, tsk_backoff = bo, tsk_world = w\<rparr>
           in (ended, st2, item # items)))"
| "serve_task src tp (TaskReload # es) st = serve_task src tp es st"
| "serve_task src tp (TaskShutdown stop # es) st = (if stop then (True, st, []) else serve_task src tp es st)"
| "serve_task src tp (TaskClosed # es) st = (True, st, [])"
| "serve_task src tp (TaskOthers g # es) st = serve_task src tp es (st\<lparr>tsk_world := g (tsk_world st)\<rparr>)"

definition task_start :: "'s \<Rightarrow> instant \<Rightarrow> exporter_world \<Rightarrow> 's task_state" where
  "task_start s now w = \<lparr>tsk_source = s, tsk_backoff = backoff_new now, tsk_world = w\<rparr>"

section \<open>Process changes\<close>

record changes_tick =
  cht_table :: "sys_process list option"
  cht_now_ns :: u64

definition changes_source :: "task_params \<Rightarrow> change_lib \<Rightarrow> u64 \<Rightarrow> (proc_table option, changes_tick) source" where
  "changes_source tp chl interval prev tick =
     (case cht_table tick of None \<Rightarrow> None
      | Some sys \<Rightarrow>
          (let (prev', ts) = sampler_tick chl prev sys; transitions = cap ts; host = ra_host_name (tsp_host tp);
               bucket = bucket_of (cht_now_ns tick) interval
           in if transitions = [] then Some (prev', None)
              else Some (prev', Some (Logs, encode_changes (mlb_proto (tsp_lib tp)) (map (change_entry_of chl host bucket) transitions)
                     (tsp_host tp) (tsp_version tp) (cht_now_ns tick)))))"

definition serve_changes :: "task_params \<Rightarrow> change_lib \<Rightarrow> u64 \<Rightarrow> instant \<Rightarrow> exporter_world \<Rightarrow> changes_tick task_event list \<Rightarrow> bool \<times> proc_table option task_state \<times> sent_item list" where
  "serve_changes tp chl interval now w es = serve_task (changes_source tp chl interval) tp es (task_start None now w)"

section \<open>Connections\<close>

text \<open>The output of \<open>aic snapshot inventory\<close>, or the reason it could not be had.\<close>

record inventory_snapshot =
  ivs_host :: resource_attrs
  ivs_connections :: "connection_entry list"

datatype capture_error = CaptureSpawn | CaptureTimeout | CaptureExit | CaptureTooLong | CaptureJson

definition connections_source :: "task_params \<Rightarrow> (unit, (capture_error + inventory_snapshot) \<times> u64) source" where
  "connections_source tp u e =
     (case fst e of Inl _ \<Rightarrow> Some (u, None)
      | Inr snapshot \<Rightarrow> if ivs_connections snapshot = [] then Some (u, None)
          else Some (u, Some (Logs, encode_connections (mlb_proto (tsp_lib tp)) (ivs_connections snapshot) (ivs_host snapshot)
                 (tsp_version tp) (snd e))))"

definition serve_connections :: "task_params \<Rightarrow> instant \<Rightarrow> exporter_world \<Rightarrow> ((capture_error + inventory_snapshot) \<times> u64) task_event list \<Rightarrow> bool \<times> unit task_state \<times> sent_item list" where
  "serve_connections tp now w es = serve_task (connections_source tp) tp es (task_start () now w)"

section \<open>Finished commands\<close>

fun capture_quality_label :: "capture_quality \<Rightarrow> str" where
  "capture_quality_label FullOutput = ''FullOutput''"
| "capture_quality_label MetadataOnly = ''MetadataOnly''"
| "capture_quality_label RedactedOutput = ''RedactedOutput''"
| "capture_quality_label BinaryOmitted = ''BinaryOmitted''"
| "capture_quality_label TruncatedOutput = ''TruncatedOutput''"
| "capture_quality_label QualityUnknown = ''Unknown''"

text \<open>A subscriber that is too slow learns how many announcements it missed.\<close>

datatype 'a received = Received 'a | Lagged nat

definition command_event_of :: "command_record \<Rightarrow> command_event" where
  "command_event_of r = \<lparr>ce_id = cr_id r, ce_command = cr_command r, ce_exit_code = cr_exit_code r,
     ce_capture_quality = capture_quality_label (cr_capture_quality r)\<rparr>"

definition events_source :: "task_params \<Rightarrow> (unit, command_record received \<times> u64) source" where
  "events_source tp u e =
     (case fst e of Lagged _ \<Rightarrow> Some (u, None)
      | Received r \<Rightarrow> Some (u, Some (Logs, encode_command_event (mlb_proto (tsp_lib tp)) (command_event_of r) (tsp_host tp) (tsp_version tp) (snd e))))"

definition serve_events :: "task_params \<Rightarrow> instant \<Rightarrow> exporter_world \<Rightarrow> (command_record received \<times> u64) task_event list \<Rightarrow> bool \<times> unit task_state \<times> sent_item list" where
  "serve_events tp now w es = serve_task (events_source tp) tp es (task_start () now w)"

section \<open>Actions of the agent\<close>

definition agent_event_time_unix_nano :: "datetime \<Rightarrow> u64 \<Rightarrow> u64 \<times> str option" where
  "agent_event_time_unix_nano ts now =
     (if \<not> (- (2 ^ 63) \<le> ts \<and> ts < 2 ^ 63) then (now, Some ''out_of_range'')
      else if ts \<le> 0 then (now, Some ''non_positive'')
      else let nanos = of_int ts in if nanos \<le> now then (nanos, None) else (now, Some ''future''))"

definition agent_source :: "task_params \<Rightarrow> (unit, agent_event received \<times> u64) source" where
  "agent_source tp u e =
     (case fst e of Lagged _ \<Rightarrow> Some (u, None)
      | Received ev \<Rightarrow> (let observed = snd e; event_time = fst (agent_event_time_unix_nano (ae_ts ev) observed)
          in Some (u, Some (Logs, encode_agent_event (mlb_proto (tsp_lib tp)) ev (tsp_host tp) (tsp_version tp) event_time observed))))"

text \<open>The parent reports the task as alive before it starts it; the guard takes that back however the task ends.\<close>

definition serve_agent :: "task_params \<Rightarrow> instant \<Rightarrow> exporter_world \<Rightarrow> (agent_event received \<times> u64) task_event list \<Rightarrow> bool \<times> unit task_state \<times> sent_item list" where
  "serve_agent tp now w es =
     (let (ended, st, items) = serve_task (agent_source tp) tp es (task_start () now w)
      in (ended, if ended then st\<lparr>tsk_world := (tsk_world st)\<lparr>ew_health := agent_live_guard_drop (ew_health (tsk_world st))\<rparr>\<rparr> else st, items))"

section \<open>The contract of a source\<close>

definition signal_clean :: "metrics_lib \<Rightarrow> signal_kind \<Rightarrow> bytes \<Rightarrow> bool" where
  "signal_clean lib kind body \<longleftrightarrow> (case kind of
     Metrics \<Rightarrow> \<exists>rq. body = mlb_encode lib rq \<and> metrics_request_masked lib rq
   | _ \<Rightarrow> clean_body (mlb_proto lib) body)"

text \<open>What a run's observations give, one request after the other, until the task ends.\<close>

fun produced :: "('s, 'e) source \<Rightarrow> 's \<Rightarrow> 'e task_event list \<Rightarrow> (signal_kind \<times> bytes) list" where
  "produced src s [] = []"
| "produced src s (Got e env # es) =
     (case src s e of None \<Rightarrow> [] | Some (s1, None) \<Rightarrow> produced src s1 es | Some (s1, Some kb) \<Rightarrow> kb # produced src s1 es)"
| "produced src s (TaskShutdown stop # es) = (if stop then [] else produced src s es)"
| "produced src s (TaskClosed # es) = []"
| "produced src s (_ # es) = produced src s es"

definition health_untouched :: "'e task_event list \<Rightarrow> bool" where
  "health_untouched es \<longleftrightarrow> (\<forall>ev\<in>set es. (case ev of
     Got e env \<Rightarrow> (\<forall>w. ew_health (sv_others env w) = ew_health w) | TaskOthers g \<Rightarrow> (\<forall>w. ew_health (g w) = ew_health w) | _ \<Rightarrow> True))"

lemma ship_item:
  assumes "ship tp env kind body bo w = (item, bo', w')"
  shows "sti_kind item = kind \<and> sti_body item = body \<and> (sti_fate item = Delivered \<longrightarrow> sti_pushed item) \<and>
    (sti_pushed item \<longleftrightarrow> backoff_ready (sv_now env) bo) \<and> sti_fate item \<noteq> Refused"
proof -
  obtain f1 w1 where s1: "spool_body (sv_io env) kind body w = (f1, w1)" by (rule prod.exhaust)
  obtain f2 w2 where s2: "spool_body (sv_io env) kind body (sv_others env w) = (f2, w2)" by (rule prod.exhaust)
  have "f1 \<noteq> Delivered \<and> f1 \<noteq> Refused" "f2 \<noteq> Delivered \<and> f2 \<noteq> Refused"
    using s1 s2 by (auto simp: spool_body_def spool_outcome_def split: prod.splits sum.splits)
  then show ?thesis
    using assms s1 s2 by (auto simp: ship_def Let_def split: option.splits if_splits)
qed

lemma ship_health:
  assumes "ship tp env kind body bo w = (item, bo', w')" and "\<forall>w. ew_health (sv_others env w) = ew_health w"
  shows "eh_push_ok_total (ew_health w') = eh_push_ok_total (ew_health w) + (if sti_fate item = Delivered then 1 else 0) \<and>
    eh_push_fail_total (ew_health w') = eh_push_fail_total (ew_health w) + (if sti_pushed item \<and> sti_fate item \<noteq> Delivered then 1 else 0) \<and>
    eh_agent_live (ew_health w') = eh_agent_live (ew_health w)"
proof -
  obtain f1 w1 where s1: "spool_body (sv_io env) kind body w = (f1, w1)" by (rule prod.exhaust)
  obtain f2 w2 where s2: "spool_body (sv_io env) kind body (sv_others env w) = (f2, w2)" by (rule prod.exhaust)
  have "f1 \<noteq> Delivered" "f2 \<noteq> Delivered" "ew_health w1 = ew_health w" "ew_health w2 = ew_health w"
    using s1 s2 assms(2) by (auto simp: spool_body_def spool_outcome_def split: prod.splits sum.splits)
  then show ?thesis
    using assms s1 s2 by (auto simp: ship_def Let_def record_ok_def record_fail_def split: option.splits if_splits)
qed

lemma serve_task_items:
  "serve_task src tp es st = (ended, st', items) \<Longrightarrow> map (\<lambda>i. (sti_kind i, sti_body i)) items = produced src (tsk_source st) es"
proof (induction src tp es st arbitrary: ended st' items rule: serve_task.induct)
  case (2 src tp e env es st)
  show ?case
  proof (cases "src (tsk_source st) e")
    case None
    then show ?thesis using "2.prems" by simp
  next
    case (Some r)
    obtain s1 ob where r: "r = (s1, ob)" by (rule prod.exhaust)
    show ?thesis
    proof (cases ob)
      case None
      then show ?thesis using "2.IH"(1) [OF Some] "2.prems" Some r by simp
    next
      case (Some kb)
      obtain kind body where kb: "kb = (kind, body)" by (rule prod.exhaust)
      have src: "src (tsk_source st) e = Some (s1, Some (kind, body))" using \<open>src (tsk_source st) e = Some r\<close> r Some kb by simp
      obtain item bo w where sh: "ship tp env kind body (tsk_backoff st) (tsk_world st) = (item, bo, w)" by (rule prod_cases3)
      obtain ended2 st2 items2 where rest: "serve_task src tp es \<lparr>tsk_source = s1, tsk_backoff = bo, tsk_world = w\<rparr> = (ended2, st2, items2)"
        by (rule prod_cases3)
      have "items = item # items2" using "2.prems" src sh rest by simp
      then show ?thesis
        using "2.IH"(2) [OF src refl refl refl sh [symmetric] refl refl rest] src ship_item [OF sh] by simp
    qed
  qed
qed (auto split: if_splits)

text \<open>What a run does to the shared state, by a relation that each step extends.\<close>

lemma serve_task_acc:
  assumes "serve_task src tp es st = (ended, st', items)"
    and nil: "\<And>w. Q w [] w"
    and oth: "\<And>g w is w'. TaskOthers g \<in> set es \<Longrightarrow> Q (g w) is w' \<Longrightarrow> Q w is w'"
    and step: "\<And>e env kind body bo w item bo' w1 is w'. Got e env \<in> set es \<Longrightarrow>
      ship tp env kind body bo w = (item, bo', w1) \<Longrightarrow> Q w1 is w' \<Longrightarrow> Q w (item # is) w'"
  shows "Q (tsk_world st) items (tsk_world st')"
  using assms(1) oth step
proof (induction src tp es st arbitrary: ended st' items rule: serve_task.induct)
  case (2 src tp e env es st)
  have sub: "\<And>g w is w'. TaskOthers g \<in> set es \<Longrightarrow> Q (g w) is w' \<Longrightarrow> Q w is w'"
    "\<And>e env kind body bo w item bo' w1 is w'. Got e env \<in> set es \<Longrightarrow> ship tp env kind body bo w = (item, bo', w1) \<Longrightarrow> Q w1 is w' \<Longrightarrow> Q w (item # is) w'"
    using "2.prems"(2,3) by (metis list.set_intros(2))+
  show ?case
  proof (cases "src (tsk_source st) e")
    case None
    then show ?thesis using "2.prems"(1) nil by simp
  next
    case (Some r)
    obtain s1 ob where r: "r = (s1, ob)" by (rule prod.exhaust)
    show ?thesis
    proof (cases ob)
      case None
      have "serve_task src tp es (st\<lparr>tsk_source := s1\<rparr>) = (ended, st', items)" using "2.prems"(1) Some r None by simp
      from "2.IH"(1) [OF _ refl None this sub] Some r show ?thesis by simp
    next
      case (Some kb)
      obtain kind body where kb: "kb = (kind, body)" by (rule prod.exhaust)
      have src: "src (tsk_source st) e = Some (s1, Some (kind, body))" using \<open>src (tsk_source st) e = Some r\<close> r Some kb by simp
      obtain item bo w where sh: "ship tp env kind body (tsk_backoff st) (tsk_world st) = (item, bo, w)" by (rule prod_cases3)
      obtain ended2 st2 items2 where rest: "serve_task src tp es \<lparr>tsk_source = s1, tsk_backoff = bo, tsk_world = w\<rparr> = (ended2, st2, items2)"
        by (rule prod_cases3)
      have out: "items = item # items2" "st' = st2" using "2.prems"(1) src sh rest by auto
      have "Q w items2 (tsk_world st2)"
        using "2.IH"(2) [OF src refl refl refl sh [symmetric] refl refl rest sub] by simp
      moreover have "Got e env \<in> set (Got e env # es)" by simp
      ultimately show ?thesis unfolding out using "2.prems"(3) [OF _ sh] by blast
    qed
  qed
next
  case (6 src tp g es st)
  have "Q (g (tsk_world st)) items (tsk_world st')"
    using "6.IH" [of ended st' items] "6.prems" by simp (metis list.set_intros(2))
  then show ?case by (rule "6.prems"(2) [rotated]) simp
qed (auto simp: nil split: if_splits)

definition tallied :: "exporter_world \<Rightarrow> sent_item list \<Rightarrow> exporter_world \<Rightarrow> bool" where
  "tallied w items w' \<longleftrightarrow>
     eh_push_ok_total (ew_health w') = eh_push_ok_total (ew_health w) + of_nat (length (filter (\<lambda>i. sti_fate i = Delivered) items)) \<and>
     eh_push_fail_total (ew_health w') =
       eh_push_fail_total (ew_health w) + of_nat (length (filter (\<lambda>i. sti_pushed i \<and> sti_fate i \<noteq> Delivered) items)) \<and>
     eh_agent_live (ew_health w') = eh_agent_live (ew_health w)"

lemma serve_task_tallied:
  assumes "serve_task src tp es st = (ended, st', items)" and "health_untouched es"
  shows "tallied (tsk_world st) items (tsk_world st')"
  using assms(1)
proof (rule serve_task_acc)
  fix g w "is" w'
  assume "TaskOthers g \<in> set es" and "tallied (g w) is w'"
  moreover from this(1) have "\<forall>w. ew_health (g w) = ew_health w" using assms(2) by (force simp: health_untouched_def)
  ultimately show "tallied w is w'" by (simp add: tallied_def)
next
  fix e env kind body bo w item bo' w1 "is" w'
  assume got: "Got e env \<in> set es" and sh: "ship tp env kind body bo w = (item, bo', w1)" and ih: "tallied w1 is w'"
  have "\<forall>w. ew_health (sv_others env w) = ew_health w" using got assms(2) by (force simp: health_untouched_def)
  from ship_health [OF sh this] ship_item [OF sh] ih show "tallied w (item # is) w'" by (auto simp: tallied_def)
qed (simp add: tallied_def)

locale redacting_source =
  fixes lib :: metrics_lib and src :: "('s, 'e) source"
  assumes clean: "src s e = Some (s', Some (kind, body)) \<Longrightarrow> signal_clean lib kind body"
begin

lemma produced_clean: "list_all (\<lambda>(kind, body). signal_clean lib kind body) (produced src s es)"
proof (induction es arbitrary: s)
  case (Cons ev es)
  then show ?case
    by (cases ev) (auto split: option.splits dest: clean)
qed simp

lemma items_clean:
  assumes "serve_task src tp es st = (ended, st', items)"
  shows "list_all (\<lambda>i. signal_clean lib (sti_kind i) (sti_body i)) items"
proof -
  have "list_all (\<lambda>(kind, body). signal_clean lib kind body) (map (\<lambda>i. (sti_kind i, sti_body i)) items)"
    unfolding serve_task_items [OF assms] by (rule produced_clean)
  then show ?thesis by (simp add: list_all_iff)
qed

end

interpretation changes: redacting_source "tsp_lib tp" "changes_source tp chl interval" for tp chl interval
  by unfold_locales (auto simp: changes_source_def signal_clean_def Let_def encoders_clean split: option.splits prod.splits if_splits)

interpretation connections: redacting_source "tsp_lib tp" "connections_source tp" for tp
  by unfold_locales (auto simp: connections_source_def signal_clean_def encoders_clean split: sum.splits if_splits)

interpretation events: redacting_source "tsp_lib tp" "events_source tp" for tp
  by unfold_locales (auto simp: events_source_def signal_clean_def encoders_clean split: received.splits)

interpretation agent: redacting_source "tsp_lib tp" "agent_source tp" for tp
  by unfold_locales (auto simp: agent_source_def signal_clean_def Let_def encoders_clean split: received.splits)

text \<open>
  C16 (safety). Whatever the four tasks observe and however their sends end, each request they push
  or leave in the spool is the encoding of a message in which every text has passed the redaction (only
  the address attributes keep their value).
\<close>

theorem task_requests_redacted:
  "list_all (\<lambda>i. signal_clean (tsp_lib tp) (sti_kind i) (sti_body i)) (snd (snd (serve_changes tp chl interval now w ces))) \<and>
   list_all (\<lambda>i. signal_clean (tsp_lib tp) (sti_kind i) (sti_body i)) (snd (snd (serve_connections tp now w nes))) \<and>
   list_all (\<lambda>i. signal_clean (tsp_lib tp) (sti_kind i) (sti_body i)) (snd (snd (serve_events tp now w ees))) \<and>
   list_all (\<lambda>i. signal_clean (tsp_lib tp) (sti_kind i) (sti_body i)) (snd (snd (serve_agent tp now w aes)))"
proof (intro conjI)
  have r: "serve_task src tp es st = (fst (serve_task src tp es st), fst (snd (serve_task src tp es st)), snd (snd (serve_task src tp es st)))"
    for src :: "('x, 'y) source" and es st by simp
  show "list_all (\<lambda>i. signal_clean (tsp_lib tp) (sti_kind i) (sti_body i)) (snd (snd (serve_changes tp chl interval now w ces)))"
    unfolding serve_changes_def by (rule changes.items_clean [OF r])
  show "list_all (\<lambda>i. signal_clean (tsp_lib tp) (sti_kind i) (sti_body i)) (snd (snd (serve_connections tp now w nes)))"
    unfolding serve_connections_def by (rule connections.items_clean [OF r])
  show "list_all (\<lambda>i. signal_clean (tsp_lib tp) (sti_kind i) (sti_body i)) (snd (snd (serve_events tp now w ees)))"
    unfolding serve_events_def by (rule events.items_clean [OF r])
  have "snd (snd (serve_agent tp now w aes)) = snd (snd (serve_task (agent_source tp) tp aes (task_start () now w)))"
    by (simp add: serve_agent_def split: prod.split)
  then show "list_all (\<lambda>i. signal_clean (tsp_lib tp) (sti_kind i) (sti_body i)) (snd (snd (serve_agent tp now w aes)))"
    using agent.items_clean [OF r] by metis
qed

text \<open>What a task heard before it ended, with the time it was heard; what it missed leaves no trace.\<close>

fun heard :: "('a received \<times> u64) task_event list \<Rightarrow> ('a \<times> u64) list" where
  "heard [] = []"
| "heard (Got (Received x, t) env # es) = (x, t) # heard es"
| "heard (TaskShutdown stop # es) = (if stop then [] else heard es)"
| "heard (TaskClosed # es) = []"
| "heard (_ # es) = heard es"

lemma produced_events:
  "produced (events_source tp) u es =
     map (\<lambda>(r, t). (Logs, encode_command_event (mlb_proto (tsp_lib tp)) (command_event_of r) (tsp_host tp) (tsp_version tp) t)) (heard es)"
  by (induction es arbitrary: u rule: heard.induct) (auto simp: events_source_def)

lemma produced_agent:
  "produced (agent_source tp) u es =
     map (\<lambda>(ev, t). (Logs, encode_agent_event (mlb_proto (tsp_lib tp)) ev (tsp_host tp) (tsp_version tp)
       (fst (agent_event_time_unix_nano (ae_ts ev) t)) t)) (heard es)"
  by (induction es arbitrary: u rule: heard.induct) (auto simp: agent_source_def Let_def)

lemma event_time_bounded:
  "fst (agent_event_time_unix_nano ts now) \<le> now \<and>
   (0 < ts \<and> ts \<le> uint now \<and> ts < 2 ^ 63 \<longrightarrow> uint (fst (agent_event_time_unix_nano ts now)) = ts)"
proof -
  have "uint (of_int ts :: u64) = ts" if "0 < ts" "ts < 2 ^ 63"
    using that by (simp add: uint_word_of_int)
  then show ?thesis by (auto simp: agent_event_time_unix_nano_def Let_def word_le_def)
qed

text \<open>
  Further property (functional). The task for the agent's actions makes one request of each action it heard before
  it ended, in the order it heard them; no action is dated after it was observed, and a date in the past is kept.
  The counters move by one for each request that was sent: delivered ones and failed ones.
  Once the task has ended, however it ended, the health no longer reports it as alive.
\<close>

theorem agent_actions_exported:
  assumes "serve_agent tp now w es = (ended, st, items)" and "health_untouched es"
  shows "map (\<lambda>i. (sti_kind i, sti_body i)) items =
      map (\<lambda>(ev, t). (Logs, encode_agent_event (mlb_proto (tsp_lib tp)) ev (tsp_host tp) (tsp_version tp)
        (fst (agent_event_time_unix_nano (ae_ts ev) t)) t)) (heard es) \<and>
    (\<forall>ts t. fst (agent_event_time_unix_nano ts t) \<le> t \<and>
      (0 < ts \<and> ts \<le> uint t \<and> ts < 2 ^ 63 \<longrightarrow> uint (fst (agent_event_time_unix_nano ts t)) = ts)) \<and>
    eh_push_ok_total (ew_health (tsk_world st)) =
      eh_push_ok_total (ew_health w) + of_nat (length (filter (\<lambda>i. sti_fate i = Delivered) items)) \<and>
    eh_push_fail_total (ew_health (tsk_world st)) =
      eh_push_fail_total (ew_health w) + of_nat (length (filter (\<lambda>i. sti_pushed i \<and> sti_fate i \<noteq> Delivered) items)) \<and>
    eh_agent_live (ew_health (tsk_world st)) = (\<not> ended \<and> eh_agent_live (ew_health w))"
proof -
  obtain st1 where run: "serve_task (agent_source tp) tp es (task_start () now w) = (ended, st1, items)"
    and st: "st = (if ended then st1\<lparr>tsk_world := (tsk_world st1)\<lparr>ew_health := agent_live_guard_drop (ew_health (tsk_world st1))\<rparr>\<rparr> else st1)"
    using assms(1) by (auto simp: serve_agent_def split: prod.splits)
  have "tallied w items (tsk_world st1)" using serve_task_tallied [OF run assms(2)] by (simp add: task_start_def)
  then show ?thesis
    using serve_task_items [OF run] event_time_bounded
    by (simp add: st tallied_def agent_live_guard_drop_def set_agent_live_def produced_agent)
qed

text \<open>
  Further property (functional). The task for finished commands makes one request of each record the store
  announced to it, in that order, with the record's command, exit code and capture quality; announcements it
  was too slow for are skipped and the task goes on. Each request sent is counted once.
\<close>

theorem command_records_exported:
  assumes "serve_events tp now w es = (ended, st, items)" and "health_untouched es"
  shows "map (\<lambda>i. (sti_kind i, sti_body i)) items =
      map (\<lambda>(r, t). (Logs, encode_command_event (mlb_proto (tsp_lib tp))
        \<lparr>ce_id = cr_id r, ce_command = cr_command r, ce_exit_code = cr_exit_code r,
         ce_capture_quality = capture_quality_label (cr_capture_quality r)\<rparr> (tsp_host tp) (tsp_version tp) t)) (heard es) \<and>
    eh_push_ok_total (ew_health (tsk_world st)) =
      eh_push_ok_total (ew_health w) + of_nat (length (filter (\<lambda>i. sti_fate i = Delivered) items)) \<and>
    eh_push_fail_total (ew_health (tsk_world st)) =
      eh_push_fail_total (ew_health w) + of_nat (length (filter (\<lambda>i. sti_pushed i \<and> sti_fate i \<noteq> Delivered) items))"
proof -
  have run: "serve_task (events_source tp) tp es (task_start () now w) = (ended, st, items)"
    using assms(1) by (simp add: serve_events_def)
  have "tallied w items (tsk_world st)" using serve_task_tallied [OF run assms(2)] by (simp add: task_start_def)
  then show ?thesis
    using serve_task_items [OF run] by (simp add: tallied_def produced_events command_event_of_def)
qed

definition demo_task :: task_params where
  "demo_task = \<lparr>tsp_lib = hop_lib demo_host_params, tsp_status_name = (\<lambda>_. []), tsp_endpoint = ''http://h'', tsp_token = None,
     tsp_version = ''1'', tsp_host = small_host\<rparr>"

definition demo_send :: send_env where
  "demo_send = \<lparr>sv_now = 3, sv_live = None, sv_http = (\<lambda>_. SendFailed []), sv_others = (\<lambda>w. w), sv_done = 4, sv_jitter = 0,
     sv_unix = 1, sv_io = demo_spool_io\<rparr>"

definition demo_action :: agent_event where
  "demo_action = \<lparr>ae_kind = ''tool'', ae_summary = ''ls'', ae_severity = ''INFO'', ae_attrs = [], ae_ts = 5\<rparr>"

lemma demo_run_untouched: "health_untouched [Got (Lagged 2, 8) demo_send, Got (Received x, 9) demo_send, TaskClosed]"
  by (simp add: health_untouched_def demo_send_def)

theorem agent_actions_exported_witness:
  "\<exists>st i. serve_agent demo_task 0 demo_world [Got (Lagged 2, 8) demo_send, Got (Received demo_action, 9) demo_send, TaskClosed]
       = (True, st, [i]) \<and> \<not> eh_agent_live (ew_health (tsk_world st)) \<and>
     uint (fst (agent_event_time_unix_nano 5 9)) = 5"
proof -
  let ?es = "[Got (Lagged 2, 8) demo_send, Got (Received demo_action, 9) demo_send, TaskClosed]"
  obtain ended st items where r: "serve_agent demo_task 0 demo_world ?es = (ended, st, items)" by (rule prod_cases3)
  have e: "ended" using r by (auto simp: serve_agent_def agent_source_def Let_def split: prod.splits)
  from agent_actions_exported [OF r demo_run_untouched] have a: "length items = 1" "\<not> eh_agent_live (ew_health (tsk_world st))"
    "uint (fst (agent_event_time_unix_nano 5 9)) = 5"
    using e by (auto dest!: arg_cong [where f = length])
  then show ?thesis using r e by (auto simp: length_Suc_conv)
qed

theorem command_records_exported_witness:
  "\<exists>st i. serve_events demo_task 0 demo_world [Got (Lagged 2, 8) demo_send, Got (Received default_record, 9) demo_send, TaskClosed]
       = (True, st, [i]) \<and> sti_kind i = Logs \<and>
     eh_push_ok_total (ew_health (tsk_world st)) + eh_push_fail_total (ew_health (tsk_world st)) \<le> 1"
proof -
  let ?es = "[Got (Lagged 2, 8) demo_send, Got (Received default_record, 9) demo_send, TaskClosed]"
  obtain ended st items where r: "serve_events demo_task 0 demo_world ?es = (ended, st, items)" by (rule prod_cases3)
  have e: "ended" using r by (auto simp: serve_events_def events_source_def split: prod.splits)
  from command_records_exported [OF r demo_run_untouched] have a: "length items = 1" "map sti_kind items = [Logs]"
    "eh_push_ok_total (ew_health (tsk_world st)) = of_nat (length (filter (\<lambda>i. sti_fate i = Delivered) items))"
    "eh_push_fail_total (ew_health (tsk_world st)) = of_nat (length (filter (\<lambda>i. sti_pushed i \<and> sti_fate i \<noteq> Delivered) items))"
    by (auto simp: demo_world_def health_new_def dest: arg_cong [where f = length] arg_cong [where f = "map fst"])
  then obtain i where "items = [i]" by (auto simp: length_Suc_conv)
  with a e r show ?thesis by (auto split: if_splits)
qed

end
