(* ===== verification/Agent_Tools.thy ===== *)
theory Agent_Tools
  imports Run_Command "HOL-Library.List_Lexorder" "HOL-Library.Char_ord"
begin

text \<open>
  The file tools of the agent, \<open>aic-client/src/agent/tools.rs\<close>. A tool gets the arguments the model
  chose, as a JSON value, and returns what it did to the file system, in order, with its answer. The
  file system, the regex engine and \<open>str::to_lowercase\<close> are arguments; the constructors of \<open>tool_output\<close> and
  \<open>file_error\<close> stand for the texts, with what is interpolated into them.
\<close>

section \<open>JSON values\<close>

text \<open>\<open>serde_json::Value\<close>; the keys of an object are distinct.\<close>

datatype json = JNull | JBool bool | JInt int | JFloat u64 | JStr str | JArr "json list" | JObj "(str \<times> json) list"

fun json_get :: "json \<Rightarrow> str \<Rightarrow> json option" where
  "json_get (JObj fs) k = map_of fs k"
| "json_get _ k = None"

fun as_str :: "json \<Rightarrow> str option" where
  "as_str (JStr s) = Some s"
| "as_str _ = None"

fun as_u64 :: "json \<Rightarrow> nat option" where
  "as_u64 (JInt i) = (if 0 \<le> i then Some (nat i) else None)"
| "as_u64 _ = None"

fun as_array :: "json \<Rightarrow> json list option" where
  "as_array (JArr vs) = Some vs"
| "as_array _ = None"

definition get_str :: "json \<Rightarrow> str \<Rightarrow> str option" where
  "get_str v k = Option.bind (json_get v k) as_str"

definition get_u64 :: "json \<Rightarrow> str \<Rightarrow> nat option" where
  "get_u64 v k = Option.bind (json_get v k) as_u64"

section \<open>The file system\<close>

datatype node_kind = FileNode | DirNode | LinkNode | OtherNode

record dir_entry =
  dre_name :: str
  dre_kind :: "node_kind option"

text \<open>
  \<open>fsy_kind\<close> is \<open>metadata\<close>, which follows links; the kind of a directory entry does not. \<open>None\<close> is a failure.
\<close>

record file_system =
  fsy_canon :: canon
  fsy_kind :: "path \<Rightarrow> node_kind option"
  fsy_len :: "path \<Rightarrow> nat"
  fsy_read :: "path \<Rightarrow> bytes option"
  fsy_list :: "path \<Rightarrow> dir_entry list option"
  fsy_mkdir :: "path \<Rightarrow> bool"
  fsy_write :: "path \<Rightarrow> bool"

record tool_env =
  tle_fs :: file_system
  tle_lower :: "str \<Rightarrow> str"
  tle_regex :: "str \<Rightarrow> (str \<Rightarrow> bool) option"
  tle_glob_match :: "str \<Rightarrow> str \<Rightarrow> bool"

datatype file_effect = FileRead path | DirMade path | FileWritten path str

datatype file_error =
  SandboxRefused tool_error | MissingArg str | GitInternals | SecretRefused str | IgnoredRefused str
| MetadataFailed | NotAFile | NotADirectory | ReadFileFailed | ListFailed | BadPattern str
| SecretWriteRefused str | GitWriteRefused | MkdirFailed | WriteFileFailed | NotFound | Ambiguous nat | UnknownTool str

datatype tool_output =
  BinaryFile nat | FileText str "(nat \<times> nat) option" | Listing "str list" bool nat nat
| Matches "str list" "nat option" | NoMatches | Wrote str nat | Edited str

type_synonym tool_result = "file_effect list \<times> (file_error + tool_output)"

section \<open>Limits and guards\<close>

definition default_read_max_bytes :: nat where "default_read_max_bytes = 64 * 1024"
definition hard_read_max_bytes :: nat where "hard_read_max_bytes = 1024 * 1024"
definition max_dir_entries :: nat where "max_dir_entries = 500"
definition max_grep_matches :: nat where "max_grep_matches = 200"
definition max_grep_line_len :: nat where "max_grep_line_len = 500"
definition max_glob_results :: nat where "max_glob_results = 500"
definition max_walk_depth :: nat where "max_walk_depth = 20"
definition max_walk_files :: nat where "max_walk_files = 20000"
definition binary_scan_bytes :: nat where "binary_scan_bytes = 8192"

definition is_hidden_or_vcs :: "str \<Rightarrow> bool" where
  "is_hidden_or_vcs name = starts_with name ''.''"

definition has_git_component :: "path \<Rightarrow> bool" where
  "has_git_component p = (Normal ''.git'' \<in> set p)"

definition name_or_empty :: "path \<Rightarrow> str" where
  "name_or_empty p = (case path_file_name p of None \<Rightarrow> [] | Some n \<Rightarrow> n)"

definition truncate_chars :: "str \<Rightarrow> nat \<Rightarrow> str" where
  "truncate_chars s m = (if char_count s \<le> m then s else take_chars m s)"

definition arg_str :: "json \<Rightarrow> str \<Rightarrow> file_error + str" where
  "arg_str args key = (case get_str args key of Some s \<Rightarrow> Inr s | None \<Rightarrow> Inl (MissingArg key))"

definition is_binary :: "bytes \<Rightarrow> bool" where
  "is_binary bs = (CHR 0x00 \<in> set (take binary_scan_bytes bs))"

section \<open>Reading\<close>

definition read_file :: "tool_env \<Rightarrow> sandbox \<Rightarrow> json \<Rightarrow> tool_result" where
  "read_file ev sb args =
     (case arg_str args ''path'' of Inl e \<Rightarrow> ([], Inl e) | Inr path_arg \<Rightarrow>
      case sandbox_resolve (fsy_canon (tle_fs ev)) sb path_arg of Inl e \<Rightarrow> ([], Inl (SandboxRefused e)) | Inr p \<Rightarrow>
      if has_git_component p then ([], Inl GitInternals)
      else if is_secret_file (tle_lower ev) (name_or_empty p) then ([], Inl (SecretRefused (name_or_empty p)))
      else if sandbox_is_ignored (tle_glob_match ev) sb p False then ([], Inl (IgnoredRefused (name_or_empty p)))
      else case fsy_kind (tle_fs ev) p of None \<Rightarrow> ([], Inl MetadataFailed) | Some kind \<Rightarrow>
      if kind \<noteq> FileNode then ([], Inl NotAFile)
      else let max_bytes = (case get_u64 args ''max_bytes'' of Some v \<Rightarrow> min v hard_read_max_bytes | None \<Rightarrow> default_read_max_bytes) in
      case fsy_read (tle_fs ev) p of None \<Rightarrow> ([], Inl ReadFileFailed) | Some bs \<Rightarrow>
      if is_binary bs then ([FileRead p], Inr (BinaryFile (fsy_len (tle_fs ev) p)))
      else ([FileRead p], Inr (FileText (from_utf8_lossy (take max_bytes bs))
        (if max_bytes < length bs then Some (fsy_len (tle_fs ev) p, max_bytes) else None))))"

definition entry_marker :: "dir_entry \<Rightarrow> str" where
  "entry_marker e = (case dre_kind e of Some DirNode \<Rightarrow> ''/'' | Some LinkNode \<Rightarrow> ''@'' | _ \<Rightarrow> [])"

definition entry_hidden :: "dir_entry \<Rightarrow> bool" where
  "entry_hidden e = is_hidden_or_vcs (dre_name e)"

definition entry_ignored :: "tool_env \<Rightarrow> sandbox \<Rightarrow> path \<Rightarrow> dir_entry \<Rightarrow> bool" where
  "entry_ignored ev sb dir e = sandbox_is_ignored (tle_glob_match ev) sb (dir @ [Normal (dre_name e)]) (dre_kind e = Some DirNode)"

definition list_dir :: "tool_env \<Rightarrow> sandbox \<Rightarrow> json \<Rightarrow> tool_result" where
  "list_dir ev sb args =
     (let path_arg = (case get_str args ''path'' of Some s \<Rightarrow> s | None \<Rightarrow> ''.'') in
      case sandbox_resolve (fsy_canon (tle_fs ev)) sb path_arg of Inl e \<Rightarrow> ([], Inl (SandboxRefused e)) | Inr dir \<Rightarrow>
      case fsy_kind (tle_fs ev) dir of None \<Rightarrow> ([], Inl MetadataFailed) | Some kind \<Rightarrow>
      if kind \<noteq> DirNode then ([], Inl NotADirectory)
      else case fsy_list (tle_fs ev) dir of None \<Rightarrow> ([], Inl ListFailed) | Some es \<Rightarrow>
        let visible = filter (\<lambda>e. \<not> entry_hidden e) es;
            shown = filter (\<lambda>e. \<not> entry_ignored ev sb dir e) visible;
            rows = sort (map (\<lambda>e. dre_name e @ entry_marker e) shown)
        in ([], Inr (Listing (take max_dir_entries rows) (max_dir_entries < length rows)
             (length es - length visible) (length visible - length shown))))"

text \<open>
  The walk. \<open>left\<close> is how many levels may still be entered: \<open>depth > MAX_WALK_DEPTH\<close> is \<open>left = 0\<close>. The cap on
  the files is tested when a directory is entered and after each file, not after a directory.
\<close>

fun collect_entries :: "tool_env \<Rightarrow> sandbox \<Rightarrow> (path \<Rightarrow> path list \<Rightarrow> path list) \<Rightarrow> path \<Rightarrow> dir_entry list \<Rightarrow> path list \<Rightarrow> path list" where
  "collect_entries ev sb walk dir [] out = out"
| "collect_entries ev sb walk dir (e # es) out =
     (let p = dir @ [Normal (dre_name e)] in
      if entry_hidden e \<or> dre_kind e = None \<or> dre_kind e = Some LinkNode \<or> entry_ignored ev sb dir e
      then collect_entries ev sb walk dir es out
      else if dre_kind e = Some DirNode then collect_entries ev sb walk dir es (walk p out)
      else if dre_kind e = Some FileNode then
        (if max_walk_files \<le> length (out @ [p]) then out @ [p] else collect_entries ev sb walk dir es (out @ [p]))
      else collect_entries ev sb walk dir es out)"

fun collect_files :: "tool_env \<Rightarrow> sandbox \<Rightarrow> nat \<Rightarrow> path \<Rightarrow> path list \<Rightarrow> path list" where
  "collect_files ev sb 0 dir out = out"
| "collect_files ev sb (Suc left) dir out =
     (if max_walk_files \<le> length out then out
      else case fsy_list (tle_fs ev) dir of None \<Rightarrow> out
        | Some es \<Rightarrow> collect_entries ev sb (\<lambda>p. collect_files ev sb left p) dir es out)"

definition walk_from :: "tool_env \<Rightarrow> sandbox \<Rightarrow> path \<Rightarrow> path list" where
  "walk_from ev sb base = collect_files ev sb (Suc max_walk_depth) base []"

definition relative_or_self :: "sandbox \<Rightarrow> path \<Rightarrow> str" where
  "relative_or_self sb f = path_text (if prefix (sb_root sb) f then drop (length (sb_root sb)) f else f)"

fun grep_lines :: "(str \<Rightarrow> bool) \<Rightarrow> str \<Rightarrow> nat \<Rightarrow> nat \<Rightarrow> str list \<Rightarrow> str list \<Rightarrow> str list \<times> bool" where
  "grep_lines re rel mx n [] out = (out, False)"
| "grep_lines re rel mx n (l # ls) out =
     (if re l then
        (let out' = out @ [rel @ '':'' @ dec n @ '':'' @ truncate_chars l max_grep_line_len]
         in if mx \<le> length out' then (out', True) else grep_lines re rel mx (Suc n) ls out')
      else grep_lines re rel mx (Suc n) ls out)"

fun grep_files :: "tool_env \<Rightarrow> sandbox \<Rightarrow> (str \<Rightarrow> bool) \<Rightarrow> nat \<Rightarrow> path list \<Rightarrow> str list \<Rightarrow> file_effect list \<times> str list \<times> bool" where
  "grep_files ev sb re mx [] out = ([], out, False)"
| "grep_files ev sb re mx (f # fs) out =
     (if is_secret_file (tle_lower ev) (name_or_empty f) then grep_files ev sb re mx fs out
      else case fsy_read (tle_fs ev) f of None \<Rightarrow> grep_files ev sb re mx fs out
      | Some bs \<Rightarrow>
          if is_binary bs then (let (ef, r) = grep_files ev sb re mx fs out in (FileRead f # ef, r))
          else (case grep_lines re (relative_or_self sb f) mx 1 (lines (from_utf8_lossy bs)) out of
              (out', True) \<Rightarrow> ([FileRead f], out', True)
            | (out', False) \<Rightarrow> (let (ef, r) = grep_files ev sb re mx fs out' in (FileRead f # ef, r))))"

definition grep :: "tool_env \<Rightarrow> sandbox \<Rightarrow> json \<Rightarrow> tool_result" where
  "grep ev sb args =
     (case arg_str args ''pattern'' of Inl e \<Rightarrow> ([], Inl e) | Inr pattern \<Rightarrow>
      case tle_regex ev pattern of None \<Rightarrow> ([], Inl (BadPattern pattern)) | Some re \<Rightarrow>
      case sandbox_resolve (fsy_canon (tle_fs ev)) sb (case get_str args ''path'' of Some s \<Rightarrow> s | None \<Rightarrow> ''.'') of
        Inl e \<Rightarrow> ([], Inl (SandboxRefused e))
      | Inr base \<Rightarrow>
        let mx = min (case get_u64 args ''max_matches'' of Some v \<Rightarrow> v | None \<Rightarrow> max_grep_matches) max_grep_matches;
            files = (if fsy_kind (tle_fs ev) base = Some FileNode then [base] else walk_from ev sb base);
            (ef, out, hit) = grep_files ev sb re mx files []
        in (ef, Inr (if out = [] then NoMatches else Matches out (if hit then Some mx else None))))"

definition glob_to_regex :: "str \<Rightarrow> str" where
  "glob_to_regex pattern = CHR ''^'' # glob_regex pattern"

fun glob_files :: "sandbox \<Rightarrow> (str \<Rightarrow> bool) \<Rightarrow> path list \<Rightarrow> str list \<Rightarrow> str list \<times> bool" where
  "glob_files sb re [] out = (out, False)"
| "glob_files sb re (f # fs) out =
     (case sandbox_relative sb f of None \<Rightarrow> glob_files sb re fs out
      | Some rel \<Rightarrow> if re rel then
          (let out' = out @ [rel] in if max_glob_results \<le> length out' then (out', True) else glob_files sb re fs out')
          else glob_files sb re fs out)"

definition glob :: "tool_env \<Rightarrow> sandbox \<Rightarrow> json \<Rightarrow> tool_result" where
  "glob ev sb args =
     (case arg_str args ''pattern'' of Inl e \<Rightarrow> ([], Inl e) | Inr pattern \<Rightarrow>
      case tle_regex ev (glob_to_regex pattern) of None \<Rightarrow> ([], Inl (BadPattern pattern)) | Some re \<Rightarrow>
        let (out, hit) = glob_files sb re (walk_from ev sb (sb_root sb)) []
        in ([], Inr (if out = [] then NoMatches else Matches (sort out) (if hit then Some max_glob_results else None))))"

section \<open>Writing\<close>

definition reject_secret_write :: "tool_env \<Rightarrow> path \<Rightarrow> file_error + unit" where
  "reject_secret_write ev p =
     (if is_secret_file (tle_lower ev) (name_or_empty p) then Inl (SecretWriteRefused (name_or_empty p))
      else if has_git_component p then Inl GitWriteRefused else Inr ())"

definition shown_path :: "sandbox \<Rightarrow> path \<Rightarrow> str" where
  "shown_path sb p = (case sandbox_relative sb p of Some rel \<Rightarrow> rel | None \<Rightarrow> path_text p)"

definition parent_missing :: "tool_env \<Rightarrow> path \<Rightarrow> path option" where
  "parent_missing ev p = (case path_parent p of Some up \<Rightarrow> if fsy_kind (tle_fs ev) up = None then Some up else None | None \<Rightarrow> None)"

definition write_file :: "tool_env \<Rightarrow> sandbox \<Rightarrow> json \<Rightarrow> tool_result" where
  "write_file ev sb args =
     (case arg_str args ''path'' of Inl e \<Rightarrow> ([], Inl e) | Inr path_arg \<Rightarrow>
      case arg_str args ''content'' of Inl e \<Rightarrow> ([], Inl e) | Inr content \<Rightarrow>
      case resolve_for_write (fsy_canon (tle_fs ev)) sb path_arg of Inl e \<Rightarrow> ([], Inl (SandboxRefused e)) | Inr p \<Rightarrow>
      case reject_secret_write ev p of Inl e \<Rightarrow> ([], Inl e) | Inr _ \<Rightarrow>
        let made = (case parent_missing ev p of Some up \<Rightarrow> [DirMade up] | None \<Rightarrow> []) in
        if (case parent_missing ev p of Some up \<Rightarrow> \<not> fsy_mkdir (tle_fs ev) up | None \<Rightarrow> False) then (made, Inl MkdirFailed)
        else if \<not> fsy_write (tle_fs ev) p then (made, Inl WriteFileFailed)
        else (made @ [FileWritten p content], Inr (Wrote (shown_path sb p) (length content))))"

text \<open>\<open>matches(pat).count()\<close>: matches do not overlap, and the empty pattern matches at every character boundary.\<close>

function match_count :: "str \<Rightarrow> str \<Rightarrow> nat" where
  "match_count pat s =
     (if pat = [] then Suc (char_count s)
      else case find_sub pat s of None \<Rightarrow> 0 | Some i \<Rightarrow> Suc (match_count pat (drop (i + length pat) s)))"
  by pat_completeness auto
termination
  by (relation "measure (\<lambda>(pat, s). length s)") (auto simp: find_sub_Some length_greater_0_conv [symmetric] simp del: length_greater_0_conv)

declare match_count.simps [simp del]

definition replace_first :: "str \<Rightarrow> str \<Rightarrow> str \<Rightarrow> str" where
  "replace_first old new s = (case find_sub old s of None \<Rightarrow> s | Some i \<Rightarrow> take i s @ new @ drop (i + length old) s)"

definition edit_file :: "tool_env \<Rightarrow> sandbox \<Rightarrow> json \<Rightarrow> tool_result" where
  "edit_file ev sb args =
     (case arg_str args ''path'' of Inl e \<Rightarrow> ([], Inl e) | Inr path_arg \<Rightarrow>
      case arg_str args ''old_string'' of Inl e \<Rightarrow> ([], Inl e) | Inr old \<Rightarrow>
      case arg_str args ''new_string'' of Inl e \<Rightarrow> ([], Inl e) | Inr new \<Rightarrow>
      case resolve_for_write (fsy_canon (tle_fs ev)) sb path_arg of Inl e \<Rightarrow> ([], Inl (SandboxRefused e)) | Inr p \<Rightarrow>
      case reject_secret_write ev p of Inl e \<Rightarrow> ([], Inl e) | Inr _ \<Rightarrow>
      case fsy_read (tle_fs ev) p of None \<Rightarrow> ([], Inl ReadFileFailed) | Some current \<Rightarrow>
      if \<not> utf8_valid current then ([FileRead p], Inl ReadFileFailed)
      else let n = match_count old current in
        if n = 0 then ([FileRead p], Inl NotFound)
        else if 2 \<le> n then ([FileRead p], Inl (Ambiguous n))
        else if \<not> fsy_write (tle_fs ev) p then ([FileRead p], Inl WriteFileFailed)
        else ([FileRead p, FileWritten p (replace_first old new current)], Inr (Edited (shown_path sb p))))"

definition execute_tool :: "tool_env \<Rightarrow> sandbox \<Rightarrow> str \<Rightarrow> json \<Rightarrow> tool_result" where
  "execute_tool ev sb name args =
     (if name = ''read_file'' then read_file ev sb args
      else if name = ''list_dir'' then list_dir ev sb args
      else if name = ''grep'' then grep ev sb args
      else if name = ''glob'' then glob ev sb args
      else if name = ''write_file'' then write_file ev sb args
      else if name = ''edit_file'' then edit_file ev sb args
      else ([], Inl (UnknownTool name)))"

section \<open>What the tools touch\<close>

text \<open>What the guards rely on in the file system: canonical paths are plain, and what exists has a parent that exists.\<close>

definition fs_ok :: "file_system \<Rightarrow> bool" where
  "fs_ok fs \<longleftrightarrow> canon_ok (fsy_canon fs) \<and>
     (\<forall>p c up. fsy_canon fs p = Some c \<and> path_parent c = Some up \<longrightarrow> fsy_kind fs up \<noteq> None)"

definition under_root :: "sandbox \<Rightarrow> path \<Rightarrow> bool" where
  "under_root sb p = path_starts_with p (sb_root sb)"

definition admitted :: "tool_env \<Rightarrow> sandbox \<Rightarrow> str \<Rightarrow> file_effect \<Rightarrow> bool" where
  "admitted ev sb name e = (case e of
     FileRead p \<Rightarrow> under_root sb p \<and> \<not> is_secret_file (tle_lower ev) (name_or_empty p) \<and>
       name \<in> {''read_file'', ''grep'', ''edit_file''} \<and> (name \<noteq> ''grep'' \<longrightarrow> \<not> has_git_component p) \<and>
       (name = ''read_file'' \<longrightarrow> \<not> sandbox_is_ignored (tle_glob_match ev) sb p False)
   | DirMade p \<Rightarrow> under_root sb p \<and> \<not> has_git_component p \<and> name = ''write_file''
   | FileWritten p c \<Rightarrow> under_root sb p \<and> \<not> is_secret_file (tle_lower ev) (name_or_empty p) \<and> \<not> has_git_component p \<and>
       name \<in> {''write_file'', ''edit_file''})"

lemma resolve_for_write_target:
  assumes "resolve_for_write canon sb input = Inr target"
  shows "\<exists>base up below. target = base @ map Normal below \<and> canon up = Some base \<and> under_root sb base"
proof -
  obtain base names where na: "nearest_ancestor canon input (path_join (sb_root sb) (path_new input)) [] = Inr (base, names)"
    and "path_starts_with base (sb_root sb)" and "target = base @ map Normal names"
    using assms by (auto simp: resolve_for_write_def Let_def split: if_splits sum.splits prod.splits)
  then show ?thesis using nearest_ancestor_Inr [OF na] by (auto simp: under_root_def)
qed

lemma under_root_append: "under_root sb p \<Longrightarrow> under_root sb (p @ q)"
  by (auto simp: under_root_def path_starts_with_def)

lemma resolve_for_write_under: "resolve_for_write canon sb input = Inr target \<Longrightarrow> under_root sb target"
  using resolve_for_write_target under_root_append by blast

lemma missing_parent_under:
  assumes "fs_ok (tle_fs ev)" and "resolve_for_write (fsy_canon (tle_fs ev)) sb input = Inr target"
    and "parent_missing ev target = Some up"
  shows "under_root sb up"
proof -
  obtain base anc below where t: "target = base @ map Normal below" "fsy_canon (tle_fs ev) anc = Some base" "under_root sb base"
    using resolve_for_write_target [OF assms(2)] by blast
  have up: "path_parent target = Some up" "fsy_kind (tle_fs ev) up = None"
    using assms(3) by (auto simp: parent_missing_def split: option.splits if_splits)
  have "\<not> (path_parent base = Some up)" using up(2) t(2) assms(1) unfolding fs_ok_def by blast
  then have "below \<noteq> []" using up(1) t(1) by auto
  then have "up = base @ butlast (map Normal below)" using up(1) t(1) by (auto simp: path_parent_def butlast_append split: if_splits)
  then show ?thesis using t(3) under_root_append by simp
qed

lemma parent_missing_git: "parent_missing ev p = Some up \<Longrightarrow> \<not> has_git_component p \<Longrightarrow> \<not> has_git_component up"
  by (auto simp: parent_missing_def path_parent_def has_git_component_def split: option.splits if_splits dest: in_set_butlastD)

lemma collect_entries_under:
  assumes "\<And>p out. under_root sb p \<Longrightarrow> list_all (under_root sb) out \<Longrightarrow> list_all (under_root sb) (walk p out)"
    and "under_root sb dir" and "list_all (under_root sb) out"
  shows "list_all (under_root sb) (collect_entries ev sb walk dir es out)"
  using assms(3)
proof (induction es arbitrary: out)
  case (Cons e es)
  have "under_root sb (dir @ [Normal (dre_name e)])" using assms(2) under_root_append by blast
  then show ?case using Cons assms(1) by (auto simp: Let_def)
qed simp

lemma collect_files_under:
  "under_root sb dir \<Longrightarrow> list_all (under_root sb) out \<Longrightarrow> list_all (under_root sb) (collect_files ev sb left dir out)"
proof (induction left arbitrary: dir out)
  case (Suc left)
  then show ?case using collect_entries_under [where walk = "\<lambda>p. collect_files ev sb left p"] by (simp split: option.split)
qed simp

lemma grep_files_effects:
  assumes "grep_files ev sb re mx fs out = (ef, r)" and "list_all (under_root sb) fs"
  shows "\<forall>e\<in>set ef. \<exists>f. e = FileRead f \<and> under_root sb f \<and> \<not> is_secret_file (tle_lower ev) (name_or_empty f)"
  using assms
proof (induction fs arbitrary: out ef r)
  case (Cons f fs)
  from Cons.prems show ?case
    by (auto split: if_splits option.splits prod.splits bool.splits dest!: Cons.IH)
qed simp

lemma grep_effects:
  assumes "grep ev sb args = (ef, r)" and "e \<in> set ef"
  shows "\<exists>f. e = FileRead f \<and> under_root sb f \<and> \<not> is_secret_file (tle_lower ev) (name_or_empty f)"
proof -
  let ?base = "sandbox_resolve (fsy_canon (tle_fs ev)) sb (case get_str args ''path'' of Some s \<Rightarrow> s | None \<Rightarrow> ''.'')"
  let ?mx = "min (case get_u64 args ''max_matches'' of Some v \<Rightarrow> v | None \<Rightarrow> max_grep_matches) max_grep_matches"
  let ?files = "\<lambda>base. if fsy_kind (tle_fs ev) base = Some FileNode then [base] else walk_from ev sb base"
  obtain pattern where p: "arg_str args ''pattern'' = Inr pattern" using assms by (auto simp: grep_def split: sum.splits)
  obtain re where re: "tle_regex ev pattern = Some re" using assms p by (auto simp: grep_def split: option.splits)
  obtain base where b: "?base = Inr base" using assms p re by (cases ?base) (auto simp: grep_def)
  have ef: "ef = fst (grep_files ev sb re ?mx (?files base) [])"
    using assms(1) p re b by (auto simp: grep_def Let_def split: prod.splits)
  have "under_root sb base" using resolve_contained [OF b] by (simp add: under_root_def)
  then have "list_all (under_root sb) (?files base)" using collect_files_under [of sb base "[]"] by (simp add: walk_from_def del: collect_files.simps)
  then show ?thesis using grep_files_effects [OF prod.collapse [symmetric]] ef assms(2) by blast
qed

lemma read_file_effects:
  assumes "read_file ev sb args = (ef, r)" and "e \<in> set ef"
  shows "admitted ev sb ''read_file'' e"
proof -
  obtain p where p: "arg_str args ''path'' = Inr p" using assms by (auto simp: read_file_def split: sum.splits)
  obtain c where c: "sandbox_resolve (fsy_canon (tle_fs ev)) sb p = Inr c"
    using assms p by (auto simp: read_file_def split: sum.splits)
  have "e = FileRead c \<and> \<not> has_git_component c \<and> \<not> is_secret_file (tle_lower ev) (name_or_empty c) \<and>
      \<not> sandbox_is_ignored (tle_glob_match ev) sb c False"
    using assms p c by (auto simp: read_file_def Let_def split: if_splits option.splits)
  then show ?thesis using resolve_contained [OF c] by (simp add: admitted_def under_root_def)
qed

lemma reject_secret_write_ok:
  "reject_secret_write ev p = Inr u \<Longrightarrow> \<not> is_secret_file (tle_lower ev) (name_or_empty p) \<and> \<not> has_git_component p"
  by (auto simp: reject_secret_write_def split: if_splits)

lemma write_file_effects:
  assumes "fs_ok (tle_fs ev)" and "write_file ev sb args = (ef, r)" and "e \<in> set ef"
  shows "admitted ev sb ''write_file'' e"
proof -
  obtain q where q: "arg_str args ''path'' = Inr q" using assms(2,3) by (auto simp: write_file_def split: sum.splits)
  obtain content where ct: "arg_str args ''content'' = Inr content" using assms(2,3) q by (auto simp: write_file_def split: sum.splits)
  obtain p where p: "resolve_for_write (fsy_canon (tle_fs ev)) sb q = Inr p"
    using assms(2,3) q ct by (auto simp: write_file_def split: sum.splits)
  obtain u where u: "reject_secret_write ev p = Inr u" using assms(2,3) q ct p by (auto simp: write_file_def split: sum.splits)
  have "(\<exists>up. parent_missing ev p = Some up \<and> e = DirMade up) \<or> e = FileWritten p content"
    using assms(2,3) q ct p u by (auto simp: write_file_def Let_def split: if_splits option.splits)
  then show ?thesis
    using reject_secret_write_ok [OF u] resolve_for_write_under [OF p] missing_parent_under [OF assms(1) p] parent_missing_git
    by (auto simp: admitted_def)
qed

lemma edit_file_effects:
  assumes "edit_file ev sb args = (ef, r)" and "e \<in> set ef"
  shows "admitted ev sb ''edit_file'' e"
proof -
  obtain q where q: "arg_str args ''path'' = Inr q" using assms by (auto simp: edit_file_def split: sum.splits)
  obtain old where o: "arg_str args ''old_string'' = Inr old" using assms q by (auto simp: edit_file_def split: sum.splits)
  obtain new where n: "arg_str args ''new_string'' = Inr new" using assms q o by (auto simp: edit_file_def split: sum.splits)
  obtain p where p: "resolve_for_write (fsy_canon (tle_fs ev)) sb q = Inr p"
    using assms q o n by (auto simp: edit_file_def split: sum.splits)
  obtain u where u: "reject_secret_write ev p = Inr u" using assms q o n p by (auto simp: edit_file_def split: sum.splits)
  have "e = FileRead p \<or> (\<exists>c. e = FileWritten p c)"
    using assms q o n p u by (auto simp: edit_file_def Let_def split: if_splits option.splits)
  then show ?thesis
    using reject_secret_write_ok [OF u] resolve_for_write_under [OF p] by (auto simp: admitted_def)
qed

lemma no_file_effects: "fst (list_dir ev sb args) = []" "fst (glob ev sb args) = []"
  by (auto simp: list_dir_def glob_def Let_def split: sum.splits option.splits prod.splits)

lemma execute_tool_admitted:
  assumes "fs_ok (tle_fs ev)" and "execute_tool ev sb name args = (ef, r)" and "e \<in> set ef"
  shows "admitted ev sb name e"
proof -
  consider "name = ''read_file''" "read_file ev sb args = (ef, r)" | "name = ''grep''" "grep ev sb args = (ef, r)"
    | "name = ''write_file''" "write_file ev sb args = (ef, r)" | "name = ''edit_file''" "edit_file ev sb args = (ef, r)"
    using assms(2,3) no_file_effects [of ev sb args] by (auto simp: execute_tool_def split: if_splits)
  then show ?thesis
  proof cases
    case 1
    then show ?thesis using read_file_effects assms(3) by simp
  next
    case 2
    then show ?thesis using grep_effects [OF 2(2) assms(3)] by (auto simp: admitted_def)
  next
    case 3
    then show ?thesis using write_file_effects [OF assms(1) 3(2) assms(3)] by simp
  next
    case 4
    then show ?thesis using edit_file_effects assms(3) by simp
  qed
qed

text \<open>What a write touches is what the path argument resolves to, and its missing parent.\<close>

lemma write_file_target:
  assumes "write_file ev sb args = (ef, r)" and "e \<in> set ef"
  shows "\<exists>q p. get_str args ''path'' = Some q \<and> resolve_for_write (fsy_canon (tle_fs ev)) sb q = Inr p \<and>
    ((\<exists>t. e = FileWritten p t) \<or> (\<exists>d. e = DirMade d \<and> path_parent p = Some d))"
proof -
  obtain q where q: "arg_str args ''path'' = Inr q" using assms by (auto simp: write_file_def split: sum.splits)
  obtain content where ct: "arg_str args ''content'' = Inr content" using assms q by (auto simp: write_file_def split: sum.splits)
  obtain p where p: "resolve_for_write (fsy_canon (tle_fs ev)) sb q = Inr p" using assms q ct by (auto simp: write_file_def split: sum.splits)
  obtain u where u: "reject_secret_write ev p = Inr u" using assms q ct p by (auto simp: write_file_def split: sum.splits)
  have "(\<exists>t. e = FileWritten p t) \<or> (\<exists>d. e = DirMade d \<and> path_parent p = Some d)"
    using assms q ct p u by (auto simp: write_file_def parent_missing_def Let_def split: if_splits option.splits)
  then show ?thesis using p q by (auto simp: arg_str_def split: option.splits)
qed

lemma edit_file_target:
  assumes "edit_file ev sb args = (ef, r)" and "e \<in> set ef"
  shows "\<exists>q p. get_str args ''path'' = Some q \<and> resolve_for_write (fsy_canon (tle_fs ev)) sb q = Inr p \<and>
    ((\<exists>t. e = FileWritten p t) \<or> e = FileRead p)"
proof -
  obtain q where q: "arg_str args ''path'' = Inr q" using assms by (auto simp: edit_file_def split: sum.splits)
  obtain old where o: "arg_str args ''old_string'' = Inr old" using assms q by (auto simp: edit_file_def split: sum.splits)
  obtain new where n: "arg_str args ''new_string'' = Inr new" using assms q o by (auto simp: edit_file_def split: sum.splits)
  obtain p where p: "resolve_for_write (fsy_canon (tle_fs ev)) sb q = Inr p" using assms q o n by (auto simp: edit_file_def split: sum.splits)
  obtain u where u: "reject_secret_write ev p = Inr u" using assms q o n p by (auto simp: edit_file_def split: sum.splits)
  have "(\<exists>t. e = FileWritten p t) \<or> e = FileRead p"
    using assms q o n p u by (auto simp: edit_file_def Let_def split: if_splits option.splits)
  then show ?thesis using p q by (auto simp: arg_str_def split: option.splits)
qed

lemma execute_tool_target:
  assumes "execute_tool ev sb name args = (ef, r)" and "e \<in> set ef" and "name = ''write_file'' \<or> name = ''edit_file''"
  shows "\<exists>q p. get_str args ''path'' = Some q \<and> resolve_for_write (fsy_canon (tle_fs ev)) sb q = Inr p \<and>
    ((\<exists>t. e = FileWritten p t) \<or> (\<exists>d. e = DirMade d \<and> path_parent p = Some d) \<or> e = FileRead p)"
proof (cases "name = ''write_file''")
  case True
  then show ?thesis using write_file_target [OF _ assms(2)] assms(1) by (fastforce simp: execute_tool_def)
next
  case False
  then show ?thesis using edit_file_target [OF _ assms(2)] assms(1,3) by (fastforce simp: execute_tool_def)
qed

text \<open>
  Further property (safety). Whatever tool the model names and whatever arguments it chooses, nothing outside the
  sandbox is named to the operating system for reading or writing, no file with a secret's name is, only \<open>write_file\<close> and \<open>edit_file\<close> write, and they write
  nothing inside \<open>.git\<close>. \<open>read_file\<close> also leaves \<open>.git\<close> and ignored files alone.
\<close>

theorem file_tools_guarded:
  assumes "fs_ok (tle_fs ev)" and "execute_tool ev sb name args = (ef, r)" and "e \<in> set ef"
  shows "admitted ev sb name e"
  using execute_tool_admitted [OF assms] .

definition plain_fs :: file_system where
  "plain_fs = \<lparr>fsy_canon = (\<lambda>p. if p \<in> {[RootDir, Normal ''w''], [RootDir, Normal ''w'', Normal ''a''], [RootDir, Normal ''w'', Normal ''.git''],
       [RootDir, Normal ''w'', Normal ''.git'', Normal ''config'']} then Some p else None),
     fsy_kind = (\<lambda>p. if p \<in> {[RootDir, Normal ''w'', Normal ''a''], [RootDir, Normal ''w'', Normal ''.git'', Normal ''config'']} then Some FileNode
       else if p \<in> {[RootDir], [RootDir, Normal ''w''], [RootDir, Normal ''w'', Normal ''.git'']} then Some DirNode else None),
     fsy_len = (\<lambda>_. 3), fsy_read = (\<lambda>p. Some ''xyx''), fsy_list = (\<lambda>_. None), fsy_mkdir = (\<lambda>_. True), fsy_write = (\<lambda>_. True)\<rparr>"

definition plain_tools :: tool_env where
  "plain_tools = \<lparr>tle_fs = plain_fs, tle_lower = (\<lambda>s. s), tle_regex = (\<lambda>_. Some (\<lambda>_. True)), tle_glob_match = (\<lambda>_ _. False)\<rparr>"

lemma plain_fs_ok: "fs_ok plain_fs"
proof -
  have "plain_absolute [RootDir, Normal ''w'']" "plain_absolute [RootDir, Normal ''w'', Normal ''a'']" "plain_absolute [RootDir, Normal ''w'', Normal ''.git'']"
    "plain_absolute [RootDir, Normal ''w'', Normal ''.git'', Normal ''config'']"
    unfolding plain_absolute_def by (auto intro: exI [of _ "[''w'']"] exI [of _ "[''w'', ''a'']"] exI [of _ "[''w'', ''.git'']"] exI [of _ "[''w'', ''.git'', ''config'']"])
  then show ?thesis by (auto simp: fs_ok_def canon_ok_def plain_fs_def path_parent_def split: if_splits)
qed

definition write_args :: json where
  "write_args = JObj [(''path'', JStr ''b/c''), (''content'', JStr ''hi'')]"

lemma demo_write:
  "execute_tool plain_tools dir_sandbox ''write_file'' write_args =
     ([DirMade [RootDir, Normal ''w'', Normal ''b''], FileWritten [RootDir, Normal ''w'', Normal ''b'', Normal ''c''] ''hi''], Inr (Wrote ''b/c'' 2))"
  by (simp add: execute_tool_def write_file_def arg_str_def get_str_def write_args_def plain_tools_def plain_fs_def dir_sandbox_def
    resolve_for_write_def path_join_def path_new_def segment_component_def nearest_ancestor.simps path_file_name_def path_parent_def
    path_starts_with_def reject_secret_write_def is_secret_file_def name_or_empty_def has_git_component_def parent_missing_def
    shown_path_def sandbox_relative_def path_text_def component_text_def backslash_to_slash_def suffix_def Let_def)

theorem file_tools_guarded_witness:
  "fst (execute_tool plain_tools dir_sandbox ''write_file'' write_args) =
     [DirMade [RootDir, Normal ''w'', Normal ''b''], FileWritten [RootDir, Normal ''w'', Normal ''b'', Normal ''c''] ''hi''] \<and>
   under_root dir_sandbox [RootDir, Normal ''w'', Normal ''b'']"
proof -
  have ok: "fs_ok (tle_fs plain_tools)" by (simp add: plain_tools_def plain_fs_ok)
  show ?thesis
    using file_tools_guarded [OF ok demo_write, of "DirMade [RootDir, Normal ''w'', Normal ''b'']"] demo_write by (simp add: admitted_def)
qed

section \<open>An edit\<close>

lemma match_count_one:
  assumes "old \<noteq> []" and "match_count old s = 1"
  shows "\<exists>i. find_sub old s = Some i \<and> \<not> sublist old (drop (i + length old) s)"
  using assms by (auto simp: match_count.simps [of old s] match_count.simps [of old "drop _ s"] find_sub_None split: option.splits)

text \<open>
  Further property (functional). An edit that changes a file puts the new text in the place of the first occurrence of
  the old one and leaves everything before and after as it was; the old text does not occur again behind it.
\<close>

theorem edit_replaces_first:
  assumes "edit_file ev sb args = (ef, r)" and "FileWritten p c \<in> set ef" and "get_str args ''old_string'' = Some old" and "old \<noteq> []"
    and "get_str args ''new_string'' = Some new"
  shows "\<exists>a b. fsy_read (tle_fs ev) p = Some (a @ old @ b) \<and> c = a @ new @ b \<and> \<not> sublist old b \<and>
    (\<forall>j < length a. take (length old) (drop j (a @ old @ b)) \<noteq> old)"
proof -
  have args: "arg_str args ''old_string'' = Inr old" "arg_str args ''new_string'' = Inr new" using assms(3,5) by (simp_all add: arg_str_def)
  obtain q where q: "arg_str args ''path'' = Inr q" using assms(1,2) by (auto simp: edit_file_def split: sum.splits)
  obtain t where t: "resolve_for_write (fsy_canon (tle_fs ev)) sb q = Inr t"
    using assms(1,2) q args by (auto simp: edit_file_def split: sum.splits)
  obtain s where s: "fsy_read (tle_fs ev) t = Some s"
    using assms(1,2) q args t by (auto simp: edit_file_def split: sum.splits option.splits)
  have w: "p = t" "c = replace_first old new s" "match_count old s = 1"
    using assms(1,2) q args t s by (auto simp: edit_file_def Let_def split: sum.splits if_splits)
  obtain i where i: "find_sub old s = Some i" "\<not> sublist old (drop (i + length old) s)"
    using match_count_one [OF assms(4) w(3)] by blast
  then have f: "i + length old \<le> length s" "take (length old) (drop i s) = old" "\<forall>j<i. take (length old) (drop j s) \<noteq> old"
    by (auto simp: find_sub_Some)
  then have split: "s = take i s @ old @ drop (i + length old) s" by (metis append_take_drop_id drop_drop add.commute)
  show ?thesis
    using s w i f split
    by (intro exI [of _ "take i s"] exI [of _ "drop (i + length old) s"]) (simp add: replace_first_def)
qed

definition edit_args :: json where
  "edit_args = JObj [(''path'', JStr ''a''), (''old_string'', JStr ''y''), (''new_string'', JStr ''zz'')]"

theorem edit_replaces_first_witness:
  "\<exists>a b. fsy_read plain_fs [RootDir, Normal ''w'', Normal ''a''] = Some (a @ ''y'' @ b) \<and> ''xzzx'' = a @ ''zz'' @ b"
proof -
  have u: "utf8_valid ''xyx''" by (rule utf8_valid_ascii) simp
  have m: "match_count ''y'' ''xyx'' = 1" by (simp add: match_count.simps)
  have "edit_file plain_tools dir_sandbox edit_args =
     ([FileRead [RootDir, Normal ''w'', Normal ''a''], FileWritten [RootDir, Normal ''w'', Normal ''a''] ''xzzx''], Inr (Edited ''a''))"
    by (simp add: edit_file_def arg_str_def get_str_def edit_args_def plain_tools_def plain_fs_def dir_sandbox_def u m replace_first_def
      resolve_for_write_def path_join_def path_new_def segment_component_def nearest_ancestor.simps path_file_name_def path_parent_def
      path_starts_with_def reject_secret_write_def is_secret_file_def name_or_empty_def has_git_component_def
      shown_path_def sandbox_relative_def path_text_def component_text_def backslash_to_slash_def suffix_def Let_def)
  from edit_replaces_first [OF this, of "[RootDir, Normal ''w'', Normal ''a'']" "''xzzx''" "''y''" "''zz''"]
  show ?thesis by (auto simp: edit_args_def get_str_def plain_tools_def)
qed

section \<open>The gap in grep\<close>

text \<open>
  Further property (error). \<open>read_file\<close> refuses what is inside \<open>.git\<close>; \<open>grep\<close>, given such a file as its starting point, reads it
  and shows its lines.
\<close>

theorem grep_shows_git_internals:
  "execute_tool plain_tools dir_sandbox ''read_file'' (JObj [(''path'', JStr ''.git/config'')]) = ([], Inl GitInternals) \<and>
   execute_tool plain_tools dir_sandbox ''grep'' (JObj [(''pattern'', JStr ''x''), (''path'', JStr ''.git/config'')]) =
     ([FileRead [RootDir, Normal ''w'', Normal ''.git'', Normal ''config'']], Inr (Matches [''.git/config:1:xyx''] None))"
proof
  show "execute_tool plain_tools dir_sandbox ''read_file'' (JObj [(''path'', JStr ''.git/config'')]) = ([], Inl GitInternals)"
    by (simp add: execute_tool_def read_file_def arg_str_def get_str_def plain_tools_def plain_fs_def dir_sandbox_def sandbox_resolve_def
      path_join_def path_new_def segment_component_def path_starts_with_def has_git_component_def)
  have l: "lines (from_utf8_lossy ''xyx'') = [''xyx'']" by (simp add: from_utf8_lossy_valid utf8_valid_ascii lines_def)
  have c: "char_count ''xyx'' \<le> 500" by (simp add: char_count.simps)
  have d: "dec (Suc 0) = ''1''" by code_simp
  show "execute_tool plain_tools dir_sandbox ''grep'' (JObj [(''pattern'', JStr ''x''), (''path'', JStr ''.git/config'')]) =
     ([FileRead [RootDir, Normal ''w'', Normal ''.git'', Normal ''config'']], Inr (Matches [''.git/config:1:xyx''] None))"
    by (simp add: execute_tool_def grep_def arg_str_def get_str_def get_u64_def plain_tools_def plain_fs_def dir_sandbox_def sandbox_resolve_def
      path_join_def path_new_def segment_component_def path_starts_with_def is_secret_file_def name_or_empty_def path_file_name_def
      suffix_def is_binary_def binary_scan_bytes_def l c d truncate_chars_def max_grep_line_len_def max_grep_matches_def
      relative_or_self_def path_text_def component_text_def Let_def)
qed

end
