(* ===== verification/Chat_Messages.thy ===== *)
theory Chat_Messages
  imports Agent_Tools
begin

text \<open>
  The messages of a chat and their two wire formats, \<open>aic-client/src/agent/types.rs\<close>. Reading and printing of
  JSON texts (\<open>serde_json\<close>) are the arguments \<open>parse\<close> and \<open>print\<close>.
\<close>

section \<open>Messages\<close>

datatype aic_error =
  ServerNotRunning | ApiKeyMissing str | CliNotFound str | ChatApiError nat str | PtyError str | IpcError str
| ConfigError str | UserMessage str

record tool_call =
  tlc_id :: str
  tlc_name :: str
  tlc_arguments :: str

datatype chat_message =
  SystemMsg str
| UserMsg str
| AssistantMsg "str option" "tool_call list"
| ToolMsg str str

record token_usage =
  tku_input_tokens :: nat
  tku_output_tokens :: nat

record tool_spec =
  tsc_name :: str
  tsc_description :: str
  tsc_parameters :: json

datatype chat_response = TextResponse str | ToolCallsResponse "tool_call list"

definition or_zero :: "nat option \<Rightarrow> nat" where
  "or_zero x = (case x of Some n \<Rightarrow> n | None \<Rightarrow> 0)"

definition parse_openai_usage :: "json \<Rightarrow> token_usage option" where
  "parse_openai_usage j = (case json_get j ''usage'' of None \<Rightarrow> None
     | Some u \<Rightarrow> Some \<lparr>tku_input_tokens = or_zero (get_u64 u ''prompt_tokens''), tku_output_tokens = or_zero (get_u64 u ''completion_tokens'')\<rparr>)"

definition parse_anthropic_usage :: "json \<Rightarrow> token_usage option" where
  "parse_anthropic_usage j = (case json_get j ''usage'' of None \<Rightarrow> None
     | Some u \<Rightarrow> Some \<lparr>tku_input_tokens = or_zero (get_u64 u ''input_tokens''), tku_output_tokens = or_zero (get_u64 u ''output_tokens'')\<rparr>)"

section \<open>OpenAI\<close>

definition call_to_openai :: "tool_call \<Rightarrow> json" where
  "call_to_openai c = JObj [(''id'', JStr (tlc_id c)), (''type'', JStr ''function''),
     (''function'', JObj [(''name'', JStr (tlc_name c)), (''arguments'', JStr (tlc_arguments c))])]"

fun message_to_openai :: "chat_message \<Rightarrow> json" where
  "message_to_openai (SystemMsg c) = JObj [(''role'', JStr ''system''), (''content'', JStr c)]"
| "message_to_openai (UserMsg c) = JObj [(''role'', JStr ''user''), (''content'', JStr c)]"
| "message_to_openai (AssistantMsg content calls) =
     JObj ([(''role'', JStr ''assistant''), (''content'', case content of Some c \<Rightarrow> JStr c | None \<Rightarrow> JNull)] @
       (if calls = [] then [] else [(''tool_calls'', JArr (map call_to_openai calls))]))"
| "message_to_openai (ToolMsg call_id content) =
     JObj [(''role'', JStr ''tool''), (''tool_call_id'', JStr call_id), (''content'', JStr content)]"

definition spec_to_openai :: "tool_spec \<Rightarrow> json" where
  "spec_to_openai s = JObj [(''type'', JStr ''function''), (''function'', JObj [(''name'', JStr (tsc_name s)),
     (''description'', JStr (tsc_description s)), (''parameters'', tsc_parameters s)])]"

definition spec_to_anthropic :: "tool_spec \<Rightarrow> json" where
  "spec_to_anthropic s = JObj [(''name'', JStr (tsc_name s)), (''description'', JStr (tsc_description s)), (''input_schema'', tsc_parameters s)]"

definition str_or :: "str \<Rightarrow> str option \<Rightarrow> str" where
  "str_or d x = (case x of Some s \<Rightarrow> s | None \<Rightarrow> d)"

definition parse_tool_call :: "json \<Rightarrow> tool_call option" where
  "parse_tool_call v = (case json_get v ''function'' of None \<Rightarrow> None
     | Some func \<Rightarrow> (case get_str func ''name'' of None \<Rightarrow> None
         | Some name \<Rightarrow> Some \<lparr>tlc_id = str_or [] (get_str v ''id''), tlc_name = name,
             tlc_arguments = str_or ''{}'' (get_str func ''arguments'')\<rparr>))"

definition parse_openai_response :: "json \<Rightarrow> chat_response option" where
  "parse_openai_response j =
     (case json_get j ''choices'' of None \<Rightarrow> None | Some choices \<Rightarrow>
      case as_array choices of None \<Rightarrow> None | Some [] \<Rightarrow> None | Some (c # _) \<Rightarrow>
      case json_get c ''message'' of None \<Rightarrow> None | Some message \<Rightarrow>
        let calls = (case Option.bind (json_get message ''tool_calls'') as_array of None \<Rightarrow> [] | Some arr \<Rightarrow> List.map_filter parse_tool_call arr)
        in Some (if calls \<noteq> [] then ToolCallsResponse calls else TextResponse (str_or [] (get_str message ''content''))))"

section \<open>Anthropic\<close>

definition text_block :: "str \<Rightarrow> json" where
  "text_block t = JObj [(''type'', JStr ''text''), (''text'', JStr t)]"

definition tool_result_block :: "str \<Rightarrow> str \<Rightarrow> json" where
  "tool_result_block call_id content = JObj [(''type'', JStr ''tool_result''), (''tool_use_id'', JStr call_id), (''content'', JStr content)]"

definition tool_use_block :: "(str \<Rightarrow> json option) \<Rightarrow> tool_call \<Rightarrow> json" where
  "tool_use_block parse c = JObj [(''type'', JStr ''tool_use''), (''id'', JStr (tlc_id c)), (''name'', JStr (tlc_name c)),
     (''input'', case parse (tlc_arguments c) of Some v \<Rightarrow> v | None \<Rightarrow> JObj [])]"

definition role_message :: "str \<Rightarrow> json list \<Rightarrow> json" where
  "role_message r blocks = JObj [(''role'', JStr r), (''content'', JArr blocks)]"

definition flush_user :: "json list \<Rightarrow> json list" where
  "flush_user pending = (if pending = [] then [] else [role_message ''user'' pending])"

definition assistant_blocks :: "(str \<Rightarrow> json option) \<Rightarrow> str option \<Rightarrow> tool_call list \<Rightarrow> json list" where
  "assistant_blocks parse content calls =
     (case content of Some c \<Rightarrow> if c = [] then [] else [text_block c] | None \<Rightarrow> []) @ map (tool_use_block parse) calls"

text \<open>The loop's variables: the system texts, the messages so far, and what waits for the next user message.\<close>

fun anthropic_step :: "(str \<Rightarrow> json option) \<Rightarrow> str list \<times> json list \<times> json list \<Rightarrow> chat_message \<Rightarrow> str list \<times> json list \<times> json list" where
  "anthropic_step parse (sys, out, pending) (SystemMsg c) = (sys @ [c], out, pending)"
| "anthropic_step parse (sys, out, pending) (UserMsg c) = (sys, out, pending @ [text_block c])"
| "anthropic_step parse (sys, out, pending) (ToolMsg call_id content) = (sys, out, pending @ [tool_result_block call_id content])"
| "anthropic_step parse (sys, out, pending) (AssistantMsg content calls) =
     (sys, out @ flush_user pending @ [role_message ''assistant'' (assistant_blocks parse content calls)], [])"

definition to_anthropic_request :: "(str \<Rightarrow> json option) \<Rightarrow> chat_message list \<Rightarrow> str option \<times> json list" where
  "to_anthropic_request parse messages =
     (let (sys, out, pending) = foldl (anthropic_step parse) ([], [], []) messages
      in (if sys = [] then None else Some (join_with [CHR 0x0A, CHR 0x0A] sys), out @ flush_user pending))"

text \<open>One block of an answer; \<open>None\<close> is the early return for a call without a name.\<close>

definition anthropic_block :: "(json \<Rightarrow> str) \<Rightarrow> tool_call list \<times> str \<Rightarrow> json \<Rightarrow> (tool_call list \<times> str) option" where
  "anthropic_block print st block =
     (let (calls, txt) = st; ty = get_str block ''type'' in
      if ty = Some ''tool_use'' then
        (case get_str block ''name'' of None \<Rightarrow> None
         | Some name \<Rightarrow> Some (calls @ [\<lparr>tlc_id = str_or [] (get_str block ''id''), tlc_name = name,
             tlc_arguments = print (case json_get block ''input'' of Some v \<Rightarrow> v | None \<Rightarrow> JObj [])\<rparr>], txt))
      else if ty = Some ''text'' then Some (calls, txt @ str_or [] (get_str block ''text''))
      else Some st)"

fun anthropic_blocks :: "(json \<Rightarrow> str) \<Rightarrow> tool_call list \<times> str \<Rightarrow> json list \<Rightarrow> (tool_call list \<times> str) option" where
  "anthropic_blocks print st [] = Some st"
| "anthropic_blocks print st (b # bs) = (case anthropic_block print st b of None \<Rightarrow> None | Some st' \<Rightarrow> anthropic_blocks print st' bs)"

definition parse_anthropic_response :: "(json \<Rightarrow> str) \<Rightarrow> json \<Rightarrow> chat_response option" where
  "parse_anthropic_response print j =
     (case Option.bind (json_get j ''content'') as_array of None \<Rightarrow> None | Some content \<Rightarrow>
      case anthropic_blocks print ([], []) content of None \<Rightarrow> None
      | Some (calls, txt) \<Rightarrow> Some (if calls \<noteq> [] then ToolCallsResponse calls else TextResponse txt))"

section \<open>Conversations the providers accept\<close>

text \<open>Each assistant message with calls is followed by the results of these calls, in order, and by nothing else first.\<close>

fun answered_from :: "str list \<Rightarrow> chat_message list \<Rightarrow> bool" where
  "answered_from waiting [] = (waiting = [])"
| "answered_from waiting (ToolMsg call_id content # ms) = (case waiting of [] \<Rightarrow> False | w # ws \<Rightarrow> call_id = w \<and> answered_from ws ms)"
| "answered_from waiting (AssistantMsg content calls # ms) = (waiting = [] \<and> answered_from (map tlc_id calls) ms)"
| "answered_from waiting (UserMsg c # ms) = (waiting = [] \<and> answered_from [] ms)"
| "answered_from waiting (SystemMsg c # ms) = answered_from waiting ms"

definition message_blocks :: "json \<Rightarrow> json list" where
  "message_blocks m = (case Option.bind (json_get m ''content'') as_array of Some bs \<Rightarrow> bs | None \<Rightarrow> [])"

definition block_ids :: "str \<Rightarrow> str \<Rightarrow> json \<Rightarrow> str list" where
  "block_ids ty key m = map (\<lambda>b. str_or [] (get_str b key)) (filter (\<lambda>b. get_str b ''type'' = Some ty) (message_blocks m))"

definition tool_use_ids :: "json \<Rightarrow> str list" where
  "tool_use_ids m = block_ids ''tool_use'' ''id'' m"

definition tool_result_ids :: "json \<Rightarrow> str list" where
  "tool_result_ids m = block_ids ''tool_result'' ''tool_use_id'' m"

text \<open>Every message answers exactly the calls of the one before it.\<close>

fun pairs_up :: "str list \<Rightarrow> json list \<Rightarrow> bool" where
  "pairs_up waiting [] = (waiting = [])"
| "pairs_up waiting (m # ms) = (tool_result_ids m = waiting \<and> pairs_up (tool_use_ids m) ms)"

fun no_two_users :: "json list \<Rightarrow> bool" where
  "no_two_users (a # b # ms) = (\<not> (get_str a ''role'' = Some ''user'' \<and> get_str b ''role'' = Some ''user'') \<and> no_two_users (b # ms))"
| "no_two_users _ = True"

text \<open>The messages of a request, read off the history from the front.\<close>

fun anthropic_messages :: "(str \<Rightarrow> json option) \<Rightarrow> json list \<Rightarrow> chat_message list \<Rightarrow> json list" where
  "anthropic_messages parse pending [] = flush_user pending"
| "anthropic_messages parse pending (SystemMsg c # ms) = anthropic_messages parse pending ms"
| "anthropic_messages parse pending (UserMsg c # ms) = anthropic_messages parse (pending @ [text_block c]) ms"
| "anthropic_messages parse pending (ToolMsg i c # ms) = anthropic_messages parse (pending @ [tool_result_block i c]) ms"
| "anthropic_messages parse pending (AssistantMsg c calls # ms) =
     flush_user pending @ role_message ''assistant'' (assistant_blocks parse c calls) # anthropic_messages parse [] ms"

lemma anthropic_fold:
  "foldl (anthropic_step parse) (sys, out, pending) ms = (sys', out', pending') \<Longrightarrow>
     out' @ flush_user pending' = out @ anthropic_messages parse pending ms"
proof (induction ms arbitrary: sys out pending)
  case (Cons m ms)
  then show ?case by (cases m) auto
qed simp

lemma request_messages: "snd (to_anthropic_request parse ms) = anthropic_messages parse [] ms"
  using anthropic_fold [of parse "[]" "[]" "[]" ms] by (auto simp: to_anthropic_request_def split: prod.splits)

lemma role_message_simps [simp]:
  "get_str (role_message r bs) ''role'' = Some r" "message_blocks (role_message r bs) = bs"
  by (simp_all add: role_message_def get_str_def message_blocks_def)

lemma block_simps [simp]:
  "get_str (text_block t) ''type'' = Some ''text''" "get_str (tool_result_block i c) ''type'' = Some ''tool_result''"
  "get_str (tool_use_block parse tc) ''type'' = Some ''tool_use''" "get_str (tool_result_block i c) ''tool_use_id'' = Some i"
  "get_str (tool_use_block parse tc) ''id'' = Some (tlc_id tc)" "get_str (tool_use_block parse tc) ''name'' = Some (tlc_name tc)"
  "get_str (text_block t) ''text'' = Some t"
  by (simp_all add: text_block_def tool_result_block_def tool_use_block_def get_str_def)

lemma assistant_ids [simp]:
  "tool_use_ids (role_message r (assistant_blocks parse c calls)) = map tlc_id calls"
  "tool_result_ids (role_message r (assistant_blocks parse c calls)) = []"
  by (auto simp: tool_use_ids_def tool_result_ids_def block_ids_def assistant_blocks_def str_or_def filter_map o_def split: option.splits)

definition user_blocks :: "json list \<Rightarrow> bool" where
  "user_blocks bs = list_all (\<lambda>b. get_str b ''type'' \<noteq> Some ''tool_use'') bs"

definition pending_ids :: "json list \<Rightarrow> str list" where
  "pending_ids bs = map (\<lambda>b. str_or [] (get_str b ''tool_use_id'')) (filter (\<lambda>b. get_str b ''type'' = Some ''tool_result'') bs)"

lemma user_message_ids:
  "tool_result_ids (role_message r bs) = pending_ids bs"
  "user_blocks bs \<Longrightarrow> tool_use_ids (role_message r bs) = []"
  by (auto simp: tool_result_ids_def tool_use_ids_def block_ids_def pending_ids_def user_blocks_def list_all_iff)

lemma pending_snoc [simp]:
  "pending_ids [] = []" "pending_ids (bs @ [text_block t]) = pending_ids bs" "pending_ids (bs @ [tool_result_block i c]) = pending_ids bs @ [i]"
  "user_blocks []" "user_blocks (bs @ [text_block t]) = user_blocks bs" "user_blocks (bs @ [tool_result_block i c]) = user_blocks bs"
  by (auto simp: pending_ids_def user_blocks_def str_or_def)

lemma messages_pair_up:
  "answered_from waiting ms \<Longrightarrow> user_blocks pending \<Longrightarrow> pairs_up (pending_ids pending @ waiting) (anthropic_messages parse pending ms)"
proof (induction ms arbitrary: waiting pending)
  case Nil
  then show ?case by (simp add: flush_user_def user_message_ids [where r = "''user''"])
next
  case (Cons m ms)
  show ?case
  proof (cases m)
    case (ToolMsg i c)
    then obtain ws where "waiting = i # ws" "answered_from ws ms" using Cons.prems(1) by (cases waiting) auto
    then show ?thesis using Cons.IH [of ws "pending @ [tool_result_block i c]"] Cons.prems(2) ToolMsg by simp
  next
    case (AssistantMsg c calls)
    then have "waiting = []" "answered_from (map tlc_id calls) ms" using Cons.prems(1) by auto
    then show ?thesis using Cons.IH [of "map tlc_id calls" "[]"] Cons.prems(2) AssistantMsg by (simp add: flush_user_def user_message_ids [where r = "''user''"])
  next
    case (UserMsg c)
    then show ?thesis using Cons.IH [of "[]" "pending @ [text_block c]"] Cons.prems by simp
  next
    case (SystemMsg c)
    then show ?thesis using Cons by simp
  qed
qed

lemma messages_alternate: "no_two_users (anthropic_messages parse pending ms)"
proof (induction ms arbitrary: pending)
  case (Cons m ms)
  show ?case
  proof (cases m)
    case (AssistantMsg c calls)
    have "no_two_users (role_message ''assistant'' bs # anthropic_messages parse [] ms)" for bs
      using Cons.IH [of "[]"] by (cases "anthropic_messages parse [] ms") auto
    then show ?thesis using AssistantMsg by (simp add: flush_user_def)
  qed (use Cons in auto)
qed (simp add: flush_user_def)

lemma anthropic_request_pairs:
  assumes "answered_from [] ms"
  shows "pairs_up [] (snd (to_anthropic_request parse ms)) \<and> no_two_users (snd (to_anthropic_request parse ms))"
  using messages_pair_up [OF assms, of "[]" parse] messages_alternate by (simp add: request_messages)

section \<open>Round trips\<close>

lemma parse_tool_call_wire [simp]: "parse_tool_call (call_to_openai c) = Some c"
  by (simp add: parse_tool_call_def call_to_openai_def get_str_def str_or_def)

lemma map_filter_wire: "List.map_filter parse_tool_call (map call_to_openai calls) = calls"
  by (induction calls) (simp_all add: List.map_filter_simps)

lemma anthropic_blocks_calls:
  "anthropic_blocks print (cs, t) (map (tool_use_block parse) calls) =
     Some (cs @ map (\<lambda>c. c\<lparr>tlc_arguments := print (case parse (tlc_arguments c) of Some v \<Rightarrow> v | None \<Rightarrow> JObj [])\<rparr>) calls, t)"
proof (induction calls arbitrary: cs)
  case (Cons c calls)
  have "json_get (tool_use_block parse c) ''input'' = Some (case parse (tlc_arguments c) of Some v \<Rightarrow> v | None \<Rightarrow> JObj [])"
    by (simp add: tool_use_block_def)
  then show ?case using Cons by (simp add: anthropic_block_def str_or_def)
qed simp

text \<open>
  C24 (roundtrip). What the model said is what it is told it said. An answer made of the wire form of an
  assistant message is read back as that message: its calls if it has any, else its text. In the OpenAI format
  the arguments of a call come back letter for letter, in the Anthropic format as the same JSON value printed.
\<close>

theorem chat_wire_round_trip:
  "parse_openai_response (JObj [(''choices'', JArr [JObj [(''message'', message_to_openai (AssistantMsg content calls))]])]) =
     Some (if calls \<noteq> [] then ToolCallsResponse calls else TextResponse (str_or [] content)) \<and>
   parse_anthropic_response print (role_message ''assistant'' (assistant_blocks parse content calls)) =
     Some (if calls \<noteq> []
       then ToolCallsResponse (map (\<lambda>c. c\<lparr>tlc_arguments := print (case parse (tlc_arguments c) of Some v \<Rightarrow> v | None \<Rightarrow> JObj [])\<rparr>) calls)
       else TextResponse (str_or [] content))"
proof
  show "parse_openai_response (JObj [(''choices'', JArr [JObj [(''message'', message_to_openai (AssistantMsg content calls))]])]) =
     Some (if calls \<noteq> [] then ToolCallsResponse calls else TextResponse (str_or [] content))"
    by (cases content) (auto simp: parse_openai_response_def map_filter_wire get_str_def str_or_def Let_def)
  have "Option.bind (json_get (role_message ''assistant'' bs) ''content'') as_array = Some bs" for bs
    by (simp add: role_message_def)
  then show "parse_anthropic_response print (role_message ''assistant'' (assistant_blocks parse content calls)) =
     Some (if calls \<noteq> []
       then ToolCallsResponse (map (\<lambda>c. c\<lparr>tlc_arguments := print (case parse (tlc_arguments c) of Some v \<Rightarrow> v | None \<Rightarrow> JObj [])\<rparr>) calls)
       else TextResponse (str_or [] content))"
    by (cases content)
      (auto simp: parse_anthropic_response_def assistant_blocks_def anthropic_blocks_calls anthropic_block_def str_or_def)
qed

end
