(* ===== verification/Chat_Turn.thy ===== *)
theory Chat_Turn
  imports Chat_Messages Run_Safety Records
begin

text \<open>
  A chat with the agent, \<open>aic-client/src/agent/session.rs\<close>: a user's line, the loop of requests and tool
  calls it starts, cancelling it, and the slash commands that change the history. Everything the
  session waits for is an input: the provider's answer, the environment a tool call meets (the user's
  answers to the prompts included), and Ctrl+C. Between two inputs the session is in a \<open>phase\<close>.
  Clients of remote services (observability, the collector, MCP, log classification) are arguments;
  so is the wording of the replies.
\<close>

section \<open>Records of tool calls\<close>

definition tool_record_cap :: nat where "tool_record_cap = 20"

record tool_record =
  trc_corr :: str
  trc_name :: str
  trc_command_display :: "str option"
  trc_status :: str
  trc_exit :: "str option"
  trc_duration_ms :: "str option"
  trc_truncated :: bool
  trc_output :: str

definition extract_kv :: "str \<Rightarrow> str \<Rightarrow> str option" where
  "extract_kv s key = (case find_sub key s of None \<Rightarrow> None | Some i \<Rightarrow> Some (take_word (drop (i + length key) s)))"

definition record_from_result :: "(str \<Rightarrow> str) \<Rightarrow> str \<Rightarrow> str \<Rightarrow> str option \<Rightarrow> str \<Rightarrow> tool_record" where
  "record_from_result redact corr name command_display out =
     (let output = redact out in
      \<lparr>trc_corr = corr, trc_name = name, trc_command_display = map_option redact command_display,
       trc_status = (if starts_with output ''[blocked]'' then ''blocked''
         else if starts_with output ''[denied]'' then ''denied''
         else if starts_with output ''[tool error]'' then ''error''
         else if contains output ''exit_code='' then ''executed'' else ''ok''),
       trc_exit = extract_kv output ''exit_code='', trc_duration_ms = extract_kv output ''duration_ms='',
       trc_truncated = (extract_kv output ''truncated='' = Some ''true'' \<or> contains output ''output was truncated''),
       trc_output = output\<rparr>)"

definition push_record :: "tool_record list \<Rightarrow> tool_record \<Rightarrow> tool_record list" where
  "push_record ring rec = (if tool_record_cap \<le> length ring then tl ring else ring) @ [rec]"

section \<open>The session\<close>

definition max_iterations :: nat where "max_iterations = 8"
definition max_tool_result_bytes :: nat where "max_tool_result_bytes = 64 * 1024"

definition is_tools_unsupported :: "aic_error \<Rightarrow> bool" where
  "is_tools_unsupported e = (case e of
     ConfigError _ \<Rightarrow> True
   | ChatApiError status _ \<Rightarrow> status \<in> {400, 404, 405, 415, 422, 501}
   | _ \<Rightarrow> False)"

record mcp_client =
  mcp_is_tool :: "str \<Rightarrow> bool"
  mcp_needs_confirm :: "str \<Rightarrow> bool"

text \<open>What is fixed for a session, with the wording of its replies.\<close>

record chat_params =
  cpa_sandbox :: sandbox
  cpa_run_id :: str
  cpa_lang :: str
  cpa_context :: command_record
  cpa_llm_available :: bool
  cpa_allow_run_command :: bool
  cpa_obs :: bool
  cpa_rca_agent :: bool
  cpa_mcp :: "mcp_client option"
  cpa_parse :: "str \<Rightarrow> json option"
  cpa_redact :: "str \<Rightarrow> str"
  cpa_reply_text :: "reply \<Rightarrow> str"
  cpa_tool_error_text :: "tool_error \<Rightarrow> str"
  cpa_output_text :: "tool_output \<Rightarrow> str"
  cpa_file_error_text :: "file_error \<Rightarrow> str"
  cpa_cut_note :: "nat \<Rightarrow> str"
  cpa_bad_args :: "str \<Rightarrow> str"
  cpa_read_only :: str
  cpa_write_denied :: str
  cpa_no_obs :: str
  cpa_no_rca :: str
  cpa_mcp_denied :: "str \<Rightarrow> str"
  cpa_fix_request :: str

record chat_session =
  chs_history :: "chat_message list"
  chs_first_turn :: bool
  chs_degraded :: bool
  chs_tool_seq :: nat
  chs_tool_records :: "tool_record list"

datatype prompt = ConfirmCommand str "risk_reason option" | ConfirmWrite str | ConfirmMcp str

text \<open>What a tool call meets. The remote clients answer with a text or fail with one.\<close>

record call_env =
  cle_confirm :: "prompt \<Rightarrow> bool"
  cle_host :: host
  cle_tools :: tool_env
  cle_remote :: "str \<Rightarrow> json \<Rightarrow> str + str"

text \<open>
  What is shown before a write: for \<open>write_file\<close> the number of lines now in the file, if it can be read, and in the new
  text, with the beginning of the new text and how many lines follow; for \<open>edit_file\<close> both strings.
\<close>

datatype write_preview = WritePreview str "nat option" nat "str list" "nat option" | EditPreview str str str

datatype call_effect = Noted write_preview | Asked prompt bool | RunOp effect | FileOp file_effect | RemoteOp str

fun char_floor :: "str \<Rightarrow> nat \<Rightarrow> nat" where
  "char_floor s 0 = 0"
| "char_floor s (Suc n) = (if is_char_boundary s (Suc n) then Suc n else char_floor s n)"

definition cap_bytes :: "(nat \<Rightarrow> str) \<Rightarrow> str \<Rightarrow> nat \<Rightarrow> str" where
  "cap_bytes note s mx = (if length s \<le> mx then s else take (char_floor s mx) s @ note (length s))"

text \<open>\<open>extract_command_line\<close>: the first line that starts with the label.\<close>

fun find_label :: "str \<Rightarrow> str list \<Rightarrow> str option" where
  "find_label p [] = None"
| "find_label p (l # ls) = (if starts_with l p then Some (drop (length p) l) else find_label p ls)"

definition extract_command_line :: "str \<Rightarrow> str option" where
  "extract_command_line output = find_label ''command: '' (lines output)"

definition run_args_of :: "json \<Rightarrow> run_args" where
  "run_args_of args = \<lparr>arg_command = get_str args ''command'', arg_timeout_secs = get_u64 args ''timeout_secs'', arg_cwd = get_str args ''cwd''\<rparr>"

section \<open>One tool call\<close>

definition run_call :: "chat_params \<Rightarrow> call_env \<Rightarrow> json \<Rightarrow> call_effect list \<times> (str + str)" where
  "run_call cp env args =
     (if \<not> cpa_allow_run_command cp then ([], Inr (cpa_read_only cp))
      else let command = str_or [] (get_str args ''command''); assessment = classify command;
               ask = ConfirmCommand command (ra_reason assessment);
               needs = (ra_level assessment = NeedsConfirm);
               approved = (needs \<and> cle_confirm env ask);
               (es, r) = execute_with_corr (cle_host env) (cpa_sandbox cp) (\<lambda>_ _ _. approved) (run_args_of args)
           in ((if needs then [Asked ask approved] else []) @ map RunOp es,
               case r of Inl e \<Rightarrow> Inl (cpa_tool_error_text cp e) | Inr rep \<Rightarrow> Inr (cpa_reply_text cp rep)))"

definition file_call :: "chat_params \<Rightarrow> call_env \<Rightarrow> str \<Rightarrow> json \<Rightarrow> call_effect list \<times> (str + str)" where
  "file_call cp env name args =
     (let (es, r) = execute_tool (cle_tools env) (cpa_sandbox cp) name args
      in (map FileOp es, case r of Inl e \<Rightarrow> Inl (cpa_file_error_text cp e) | Inr out \<Rightarrow> Inr (cpa_output_text cp out)))"

definition write_preview_str_cap :: nat where "write_preview_str_cap = 200"
definition write_preview_head_lines :: nat where "write_preview_head_lines = 10"

definition cap_preview_str :: "str \<Rightarrow> nat \<Rightarrow> str" where
  "cap_preview_str s mx = (if char_count s \<le> mx then s else take_chars mx s @ [CHR 0xE2, CHR 0x80, CHR 0xA6])"

definition build_write_preview :: "tool_env \<Rightarrow> sandbox \<Rightarrow> str \<Rightarrow> json \<Rightarrow> file_effect list \<times> write_preview" where
  "build_write_preview ev sb name args =
     (let path_arg = str_or [] (get_str args ''path'') in
      if name = ''write_file'' then
        (let content = str_or [] (get_str args ''content''); new_lines = length (lines content);
             seen = (case resolve_for_write (fsy_canon (tle_fs ev)) sb path_arg of Inl _ \<Rightarrow> None
               | Inr p \<Rightarrow> map_option (\<lambda>bs. (p, bs)) (fsy_read (tle_fs ev) p));
             existing = (case seen of Some (_, bs) \<Rightarrow> if utf8_valid bs then Some (length (lines bs)) else None | None \<Rightarrow> None)
         in (case seen of Some (p, _) \<Rightarrow> [FileRead p] | None \<Rightarrow> [],
             WritePreview path_arg existing new_lines
               (map (\<lambda>l. ''  '' @ cap_preview_str l write_preview_str_cap) (take write_preview_head_lines (lines content)))
               (if write_preview_head_lines < new_lines then Some (new_lines - write_preview_head_lines) else None)))
      else ([], EditPreview path_arg (cap_preview_str (str_or [] (get_str args ''old_string'')) write_preview_str_cap)
             (cap_preview_str (str_or [] (get_str args ''new_string'')) write_preview_str_cap)))"

definition write_call :: "chat_params \<Rightarrow> call_env \<Rightarrow> str \<Rightarrow> json \<Rightarrow> call_effect list \<times> (str + str)" where
  "write_call cp env name args =
     (let (reads, preview) = build_write_preview (cle_tools env) (cpa_sandbox cp) name args;
          shown = map FileOp reads @ [Noted preview];
          ask = ConfirmWrite (str_or [] (get_str args ''path'')); ok = cle_confirm env ask in
      if ok then (let (es, r) = file_call cp env name args in (shown @ Asked ask True # es, r))
      else (shown @ [Asked ask False], Inr (cpa_write_denied cp)))"

definition mcp_call :: "chat_params \<Rightarrow> call_env \<Rightarrow> mcp_client \<Rightarrow> str \<Rightarrow> json \<Rightarrow> call_effect list \<times> (str + str)" where
  "mcp_call cp env m name args =
     (let needs = mcp_needs_confirm m name; approved = (if needs then cle_confirm env (ConfirmMcp name) else True);
          asked = (if needs then [Asked (ConfirmMcp name) approved] else [])
      in if \<not> approved then (asked, Inr (cpa_mcp_denied cp name)) else (asked @ [RemoteOp name], cle_remote env name args))"

definition call_tool :: "chat_params \<Rightarrow> call_env \<Rightarrow> str \<Rightarrow> json \<Rightarrow> call_effect list \<times> (str + str)" where
  "call_tool cp env name args =
     (if name = ''run_command'' then run_call cp env args
      else if name = ''write_file'' \<or> name = ''edit_file'' then write_call cp env name args
      else if name = ''jev_classify_logs'' then ([RemoteOp name], cle_remote env name args)
      else if name \<in> {''prometheus_query'', ''loki_query'', ''es_search''} then
        (if cpa_obs cp then ([RemoteOp name], cle_remote env name args) else ([], Inr (cpa_no_obs cp)))
      else if name \<in> {''rca_agent_collect'', ''rca_agent_features''} then
        (if cpa_rca_agent cp then ([RemoteOp name], cle_remote env name args) else ([], Inr (cpa_no_rca cp)))
      else case cpa_mcp cp of
          Some m \<Rightarrow> if mcp_is_tool m name then mcp_call cp env m name args else file_call cp env name args
        | None \<Rightarrow> file_call cp env name args)"

definition record_tool :: "chat_params \<Rightarrow> str \<Rightarrow> str \<Rightarrow> str option \<Rightarrow> str \<Rightarrow> chat_session \<Rightarrow> chat_session" where
  "record_tool cp corr name display output s =
     s\<lparr>chs_tool_records := push_record (chs_tool_records s) (record_from_result (cpa_redact cp) corr name display output)\<rparr>"

text \<open>
  \<open>exec_tool\<close> in two parts: the number is taken when the call starts, the rest happens when what the call
  waits for is there.
\<close>

definition start_call :: "chat_session \<Rightarrow> chat_session" where
  "start_call s = s\<lparr>chs_tool_seq := Suc (chs_tool_seq s)\<rparr>"

definition finish_call :: "chat_params \<Rightarrow> call_env \<Rightarrow> tool_call \<Rightarrow> chat_session \<Rightarrow> chat_session \<times> call_effect list \<times> str" where
  "finish_call cp env call s =
     (let corr = cpa_run_id cp @ ''.'' @ dec (chs_tool_seq s) in
      case cpa_parse cp (tlc_arguments call) of
        None \<Rightarrow> (let out = ''[tool error] '' @ cpa_bad_args cp (tlc_arguments call) in (record_tool cp corr (tlc_name call) None out s, [], out))
      | Some args \<Rightarrow>
          (let (es, r) = call_tool cp env (tlc_name call) args;
               out = (case r of Inr o' \<Rightarrow> cap_bytes (cpa_cut_note cp) o' max_tool_result_bytes | Inl e \<Rightarrow> ''[tool error] '' @ e);
               display = (if tlc_name call = ''run_command'' then extract_command_line out else None)
           in (record_tool cp corr (tlc_name call) display out s, es, out)))"

section \<open>User messages\<close>

definition history_placeholder :: str where
  "history_placeholder = map char_of [237, 158, 136, 236, 138, 164, 237, 134, 160, 235, 166, 172, 236, 151, 144, 236, 132, 156, 32,
     234, 176, 128, 236, 160, 184, 236, 152, 180 :: nat]"

definition has_meaningful_context :: "command_record \<Rightarrow> bool" where
  "has_meaningful_context r = (case cr_command r of None \<Rightarrow> False
     | Some c \<Rightarrow> trim c \<noteq> [] \<and>
         \<not> (cr_exit_code r = -1 \<and> cr_output_lines r \<noteq> [] \<and> contains (hd (cr_output_lines r)) history_placeholder))"

definition exit_code_text :: "int \<Rightarrow> str" where
  "exit_code_text i = (if i < 0 then CHR ''-'' # dec (nat (- i)) else dec (nat i))"

definition newline :: str where "newline = [CHR 0x0A]"

definition format_first_turn_prefix :: "command_record \<Rightarrow> str option" where
  "format_first_turn_prefix r =
     (if \<not> has_meaningful_context r then None
      else let ls = cr_output_lines r; start = length ls - 10 in
        Some (''<previous_failure>'' @ newline @
          ''<command>'' @ str_or [] (cr_command r) @ ''</command>'' @ newline @
          ''<exit_code>'' @ exit_code_text (cr_exit_code r) @ ''</exit_code>'' @ newline @
          (if ls = [] then [] else ''<output_tail lines='' @ [CHR 0x22] @ dec (length ls - start) @ [CHR 0x22] @ ''>'' @ newline @
             concat (map (\<lambda>l. l @ newline) (drop start ls)) @ ''</output_tail>'' @ newline) @
          ''</previous_failure>'' @ newline @ newline @
          ''Treat this block as authoritative context; do not ask the user to repeat it.'' @ newline @ newline))"

definition lang_instruction :: "str \<Rightarrow> str" where
  "lang_instruction lang =
     (if lang = ''korean'' then ''Respond in Korean.'' else if lang = ''english'' then ''Respond in English.''
      else if lang = ''japanese'' then ''Respond in Japanese.'' else if lang = ''chinese'' then ''Respond in Chinese.''
      else ''Respond in '' @ lang @ ''.'')"

definition build_user_message :: "chat_params \<Rightarrow> str \<Rightarrow> chat_session \<Rightarrow> str \<times> chat_session" where
  "build_user_message cp input s =
     (let txt = input @ newline @ newline @ lang_instruction (cpa_lang cp) in
      if chs_first_turn s
      then ((case format_first_turn_prefix (cpa_context cp) of Some ctx \<Rightarrow> ctx @ txt | None \<Rightarrow> txt), s\<lparr>chs_first_turn := False\<rparr>)
      else (txt, s))"

definition push_message :: "chat_message \<Rightarrow> chat_session \<Rightarrow> chat_session" where
  "push_message m s = s\<lparr>chs_history := chs_history s @ [m]\<rparr>"

section \<open>Saving and resuming\<close>

fun session_value :: "chat_message \<Rightarrow> json option" where
  "session_value (UserMsg c) = Some (JObj [(''role'', JStr ''user''), (''content'', JStr c)])"
| "session_value (AssistantMsg (Some c) calls) = Some (JObj [(''role'', JStr ''assistant''), (''content'', JStr c)])"
| "session_value _ = None"

definition history_to_session_values :: "chat_message list \<Rightarrow> json list" where
  "history_to_session_values h = List.map_filter session_value h"

definition value_message :: "json \<Rightarrow> chat_message option" where
  "value_message v = (case get_str v ''role'' of None \<Rightarrow> None | Some role \<Rightarrow>
     case get_str v ''content'' of None \<Rightarrow> None | Some content \<Rightarrow>
       if role = ''user'' then Some (UserMsg content)
       else if role = ''assistant'' then Some (AssistantMsg (Some content) []) else None)"

definition session_values_to_messages :: "json list \<Rightarrow> chat_message list" where
  "session_values_to_messages vs = List.map_filter value_message vs"

section \<open>The loop\<close>

datatype phase = AtPrompt | Asking nat | AskingPlain | Calling nat tool_call "tool_call list" | Ended

datatype log_entry = Sent "chat_message list" | SentPlain str | Called tool_call "call_effect list"

text \<open>
  \<open>cst_mark\<close> is the length of the history to which Ctrl+C goes back: a line's turn has one, a turn
  started by \<open>/fix\<close> has none.
\<close>

record chat_state =
  cst_session :: chat_session
  cst_phase :: phase
  cst_mark :: "nat option"
  cst_log :: "log_entry list"

datatype chat_input =
  Line str | FixLine | ClearLine | ResumeLine "json list option" | AnalysisLine str str
| Reply "aic_error + chat_response" | PlainReply "aic_error + str" | ToolDone call_env | CancelKey | Eof

definition is_exit_command :: "str \<Rightarrow> bool" where
  "is_exit_command input = (to_ascii_lowercase (trim input) \<in> {''exit'', ''quit''})"

fun last_user :: "chat_message list \<Rightarrow> str" where
  "last_user [] = []"
| "last_user (UserMsg c # ms) = c"
| "last_user (_ # ms) = last_user ms"

definition send_plain :: "chat_state \<Rightarrow> chat_state" where
  "send_plain st = st\<lparr>cst_phase := AskingPlain, cst_log := cst_log st @ [SentPlain (last_user (rev (chs_history (cst_session st))))]\<rparr>"

text \<open>The head of the loop: the request of iteration \<open>iter\<close>, or the safe stop.\<close>

definition send_iteration :: "nat \<Rightarrow> chat_state \<Rightarrow> chat_state" where
  "send_iteration iter st =
     (if iter < max_iterations then st\<lparr>cst_phase := Asking iter, cst_log := cst_log st @ [Sent (chs_history (cst_session st))]\<rparr>
      else st\<lparr>cst_phase := AtPrompt\<rparr>)"

definition start_turn :: "chat_params \<Rightarrow> chat_state \<Rightarrow> chat_state" where
  "start_turn cp st =
     (if \<not> cpa_llm_available cp then st
      else if chs_degraded (cst_session st) then send_plain st
      else send_iteration 0 st)"

definition next_call :: "nat \<Rightarrow> tool_call list \<Rightarrow> chat_state \<Rightarrow> chat_state" where
  "next_call iter calls st =
     (case calls of
        [] \<Rightarrow> send_iteration (Suc iter) st
      | c # cs \<Rightarrow> st\<lparr>cst_session := start_call (cst_session st), cst_phase := Calling iter c cs\<rparr>)"

definition on_line :: "chat_params \<Rightarrow> str \<Rightarrow> chat_state \<Rightarrow> chat_state" where
  "on_line cp line st =
     (if is_exit_command line then st\<lparr>cst_phase := Ended\<rparr>
      else if trim line = [] then st
      else let (txt, s1) = build_user_message cp (trim line) (cst_session st); s2 = push_message (UserMsg txt) s1
           in start_turn cp (st\<lparr>cst_session := s2, cst_mark := Some (length (chs_history s2))\<rparr>))"

definition on_fix :: "chat_params \<Rightarrow> chat_state \<Rightarrow> chat_state" where
  "on_fix cp st =
     (if \<not> cpa_allow_run_command cp then st
      else start_turn cp (st\<lparr>cst_session := push_message (UserMsg (cpa_fix_request cp)) (cst_session st), cst_mark := None\<rparr>))"

definition on_resume :: "json list option \<Rightarrow> chat_state \<Rightarrow> chat_state" where
  "on_resume vs st = (case vs of None \<Rightarrow> st
     | Some values \<Rightarrow> st\<lparr>cst_session := (cst_session st)\<lparr>chs_history := chs_history (cst_session st) @ session_values_to_messages values\<rparr>\<rparr>)"

definition on_reply :: "nat \<Rightarrow> aic_error + chat_response \<Rightarrow> chat_state \<Rightarrow> chat_state" where
  "on_reply iter r st =
     (case r of
        Inr (TextResponse txt) \<Rightarrow> st\<lparr>cst_session := push_message (AssistantMsg (Some txt) []) (cst_session st), cst_phase := AtPrompt\<rparr>
      | Inr (ToolCallsResponse calls) \<Rightarrow> next_call iter calls (st\<lparr>cst_session := push_message (AssistantMsg None calls) (cst_session st)\<rparr>)
      | Inl e \<Rightarrow>
          if iter = 0 \<and> is_tools_unsupported e
          then send_plain (st\<lparr>cst_session := (cst_session st)\<lparr>chs_degraded := True\<rparr>\<rparr>)
          else st\<lparr>cst_phase := AtPrompt\<rparr>)"

definition on_tool :: "chat_params \<Rightarrow> nat \<Rightarrow> tool_call \<Rightarrow> tool_call list \<Rightarrow> call_env \<Rightarrow> chat_state \<Rightarrow> chat_state" where
  "on_tool cp iter call calls env st =
     (let (s1, es, out) = finish_call cp env call (cst_session st)
      in next_call iter calls (st\<lparr>cst_session := push_message (ToolMsg (tlc_id call) out) s1, cst_log := cst_log st @ [Called call es]\<rparr>))"

definition on_cancel :: "chat_state \<Rightarrow> chat_state" where
  "on_cancel st = (case cst_mark st of
     Some mark \<Rightarrow> st\<lparr>cst_session := (cst_session st)\<lparr>chs_history := take mark (chs_history (cst_session st))\<rparr>, cst_phase := AtPrompt\<rparr>
   | None \<Rightarrow> st\<lparr>cst_phase := AtPrompt\<rparr>)"

text \<open>
  An input that the phase does not wait for has no effect. A \<open>Line\<close> is one that is not a slash command; of
  these only the ones that change the history are inputs.
\<close>

definition chat_step :: "chat_params \<Rightarrow> chat_state \<Rightarrow> chat_input \<Rightarrow> chat_state" where
  "chat_step cp st i = (case (cst_phase st, i) of
     (AtPrompt, Line l) \<Rightarrow> on_line cp l st
   | (AtPrompt, FixLine) \<Rightarrow> on_fix cp st
   | (AtPrompt, ClearLine) \<Rightarrow> st\<lparr>cst_session := (cst_session st)\<lparr>chs_history := take 1 (chs_history (cst_session st))\<rparr>\<rparr>
   | (AtPrompt, ResumeLine vs) \<Rightarrow> on_resume vs st
   | (AtPrompt, AnalysisLine q a) \<Rightarrow>
       st\<lparr>cst_session := push_message (AssistantMsg (Some a) []) (push_message (UserMsg q) (cst_session st))\<rparr>
   | (AtPrompt, Eof) \<Rightarrow> st\<lparr>cst_phase := Ended\<rparr>
   | (Asking iter, Reply r) \<Rightarrow> on_reply iter r st
   | (Asking iter, CancelKey) \<Rightarrow> on_cancel st
   | (AskingPlain, PlainReply (Inr txt)) \<Rightarrow>
       st\<lparr>cst_session := push_message (AssistantMsg (Some txt) []) (cst_session st), cst_phase := AtPrompt\<rparr>
   | (AskingPlain, PlainReply (Inl e)) \<Rightarrow> st\<lparr>cst_phase := AtPrompt\<rparr>
   | (AskingPlain, CancelKey) \<Rightarrow> on_cancel st
   | (Calling iter c cs, ToolDone env) \<Rightarrow> on_tool cp iter c cs env st
   | (Calling iter c cs, CancelKey) \<Rightarrow> on_cancel st
   | _ \<Rightarrow> st)"

definition chat_new :: "str \<Rightarrow> chat_state" where
  "chat_new preface = \<lparr>cst_session = \<lparr>chs_history = [SystemMsg preface], chs_first_turn = True, chs_degraded = False,
     chs_tool_seq = 0, chs_tool_records = []\<rparr>, cst_phase = AtPrompt, cst_mark = None, cst_log = []\<rparr>"

definition chat_run :: "chat_params \<Rightarrow> str \<Rightarrow> chat_input list \<Rightarrow> chat_state" where
  "chat_run cp preface inputs = foldl (chat_step cp) (chat_new preface) inputs"

section \<open>Conversations stay valid\<close>

text \<open>The calls that still wait for their results after some messages; \<open>None\<close> when a message is out of place.\<close>

fun consume :: "str list \<Rightarrow> chat_message list \<Rightarrow> str list option" where
  "consume waiting [] = Some waiting"
| "consume waiting (ToolMsg call_id content # ms) = (case waiting of [] \<Rightarrow> None | w # ws \<Rightarrow> if call_id = w then consume ws ms else None)"
| "consume waiting (AssistantMsg content calls # ms) = (if waiting = [] then consume (map tlc_id calls) ms else None)"
| "consume waiting (UserMsg c # ms) = (if waiting = [] then consume [] ms else None)"
| "consume waiting (SystemMsg c # ms) = consume waiting ms"

lemma answered_consume: "answered_from waiting ms \<longleftrightarrow> consume waiting ms = Some []"
  by (induction waiting ms rule: answered_from.induct) (auto split: list.splits)

lemma consume_append: "consume waiting (ms @ ns) = Option.bind (consume waiting ms) (\<lambda>w. consume w ns)"
  by (induction waiting ms rule: consume.induct) (auto split: list.splits)

fun owing :: "phase \<Rightarrow> str list" where
  "owing (Calling iter c cs) = tlc_id c # map tlc_id cs"
| "owing _ = []"

definition mark_valid :: "nat option \<Rightarrow> chat_message list \<Rightarrow> bool" where
  "mark_valid mark h \<longleftrightarrow> (\<forall>m. mark = Some m \<longrightarrow> 0 < m \<and> m \<le> length h \<and> consume [] (take m h) = Some [])"

lemma mark_valid_None [simp]: "mark_valid None h"
  by (simp add: mark_valid_def)

lemma mark_valid_append: "mark_valid mark h \<Longrightarrow> mark_valid mark (h @ t)"
  by (auto simp: mark_valid_def)

lemma mark_valid_here: "h \<noteq> [] \<Longrightarrow> consume [] h = Some [] \<Longrightarrow> mark_valid (Some (length h)) h"
  by (auto simp: mark_valid_def)

definition log_valid :: "log_entry list \<Rightarrow> bool" where
  "log_valid l \<longleftrightarrow> (\<forall>h. Sent h \<in> set l \<longrightarrow> consume [] h = Some [])"

lemma log_valid_simps [simp]:
  "log_valid []" "log_valid (l @ [Called c es]) = log_valid l" "log_valid (l @ [SentPlain t]) = log_valid l"
  "log_valid (l @ [Sent h]) = (log_valid l \<and> consume [] h = Some [])"
  by (auto simp: log_valid_def)

definition rooted :: "str \<Rightarrow> chat_message list \<Rightarrow> bool" where
  "rooted preface h \<longleftrightarrow> (\<exists>rest. h = SystemMsg preface # rest)"

lemma rooted_append: "rooted preface h \<Longrightarrow> rooted preface (h @ t)"
  by (auto simp: rooted_def)

lemma rooted_take: "rooted preface h \<Longrightarrow> 0 < m \<Longrightarrow> rooted preface (take m h)"
  by (cases m) (auto simp: rooted_def)

lemma rooted_nonempty: "rooted preface h \<Longrightarrow> h \<noteq> []"
  by (auto simp: rooted_def)

lemma rooted_clear: "rooted preface h \<Longrightarrow> rooted preface (take (Suc 0) h) \<and> consume [] (take (Suc 0) h) = Some []"
  by (auto simp: rooted_def)

text \<open>The state between two messages: a history that owes \<open>ids\<close>.\<close>

definition owes :: "str \<Rightarrow> str list \<Rightarrow> chat_state \<Rightarrow> bool" where
  "owes preface ids st \<longleftrightarrow> consume [] (chs_history (cst_session st)) = Some ids \<and> rooted preface (chs_history (cst_session st)) \<and>
     log_valid (cst_log st)"

definition chat_ok :: "str \<Rightarrow> chat_state \<Rightarrow> bool" where
  "chat_ok preface st \<longleftrightarrow> owes preface (owing (cst_phase st)) st \<and>
     (cst_phase st = AtPrompt \<or> cst_phase st = Ended \<or> mark_valid (cst_mark st) (chs_history (cst_session st)))"

definition settled :: "str \<Rightarrow> str list \<Rightarrow> chat_state \<Rightarrow> bool" where
  "settled preface ids st \<longleftrightarrow> owes preface ids st \<and> mark_valid (cst_mark st) (chs_history (cst_session st))"

lemma settled_send:
  assumes "settled preface [] st"
  shows "chat_ok preface (send_iteration iter st)" and "chat_ok preface (send_plain st)"
  using assms by (simp_all add: settled_def chat_ok_def owes_def send_iteration_def send_plain_def)

lemma settled_start: "settled preface [] st \<Longrightarrow> cst_phase st = AtPrompt \<Longrightarrow> chat_ok preface (start_turn cp st)"
  using settled_send [of preface st] by (simp add: start_turn_def) (simp add: settled_def chat_ok_def)

lemma next_call_ok:
  assumes "settled preface (map tlc_id calls) st"
  shows "chat_ok preface (next_call iter calls st)"
proof (cases calls)
  case Nil
  then show ?thesis using assms settled_send by (simp add: next_call_def)
next
  case (Cons c cs)
  then show ?thesis using assms by (simp add: next_call_def settled_def chat_ok_def owes_def start_call_def)
qed

lemma finish_call_history: "finish_call cp env c s = (s', es, out) \<Longrightarrow> chs_history s' = chs_history s"
  by (auto simp: finish_call_def record_tool_def Let_def split: option.splits prod.splits)

lemma build_user_history: "build_user_message cp input s = (msg, s') \<Longrightarrow> chs_history s' = chs_history s"
  by (auto simp: build_user_message_def Let_def split: if_splits)

lemma consume_restored: "consume [] (session_values_to_messages vs) = Some []"
proof (induction vs)
  case (Cons v vs)
  have "value_message v = None \<or> (\<exists>c. value_message v = Some (UserMsg c)) \<or> (\<exists>c. value_message v = Some (AssistantMsg (Some c) []))"
    by (auto simp: value_message_def split: option.splits)
  then show ?case using Cons by (auto simp: session_values_to_messages_def List.map_filter_simps)
qed (simp add: session_values_to_messages_def List.map_filter_simps)

text \<open>A cancelled \<open>/fix\<close>: Ctrl+C while a tool of such a turn runs.\<close>

definition cancels_fix :: "chat_state \<Rightarrow> chat_input \<Rightarrow> bool" where
  "cancels_fix st i \<longleftrightarrow> i = CancelKey \<and> cst_mark st = None \<and> owing (cst_phase st) \<noteq> []"

lemma on_cancel_ok:
  assumes "chat_ok preface st" and "\<not> cancels_fix st CancelKey" and "cst_phase st \<noteq> AtPrompt" and "cst_phase st \<noteq> Ended"
  shows "chat_ok preface (on_cancel st)"
proof (cases "cst_mark st")
  case None
  then show ?thesis using assms by (simp add: on_cancel_def chat_ok_def owes_def cancels_fix_def)
next
  case (Some m)
  then have "0 < m" "consume [] (take m (chs_history (cst_session st))) = Some []" using assms by (auto simp: chat_ok_def mark_valid_def)
  then show ?thesis using assms(1) Some rooted_take by (simp add: on_cancel_def chat_ok_def owes_def)
qed

lemma owes_prompt: "chat_ok preface st \<Longrightarrow> cst_phase st = AtPrompt \<Longrightarrow> owes preface [] st"
  by (simp add: chat_ok_def)

lemma owes_user:
  assumes "owes preface [] st" and "chs_history s = chs_history (cst_session st)"
  shows "settled preface [] (st\<lparr>cst_session := push_message (UserMsg msg) s, cst_mark := None\<rparr>)"
    and "settled preface [] (st\<lparr>cst_session := push_message (UserMsg msg) s, cst_mark := Some (length (chs_history (push_message (UserMsg msg) s)))\<rparr>)"
proof -
  let ?h = "chs_history (cst_session st) @ [UserMsg msg]"
  have "consume [] ?h = Some []" "rooted preface ?h"
    using assms(1) rooted_append by (auto simp: owes_def consume_append)
  then show "settled preface [] (st\<lparr>cst_session := push_message (UserMsg msg) s, cst_mark := None\<rparr>)"
    and "settled preface [] (st\<lparr>cst_session := push_message (UserMsg msg) s, cst_mark := Some (length (chs_history (push_message (UserMsg msg) s)))\<rparr>)"
    using assms mark_valid_here [of ?h] by (simp_all add: settled_def owes_def push_message_def)
qed

lemma chat_line_ok:
  assumes "chat_ok preface st" and "cst_phase st = AtPrompt"
  shows "chat_ok preface (on_line cp l st)"
proof -
  obtain msg s1 where b: "build_user_message cp (trim l) (cst_session st) = (msg, s1)" by (rule prod.exhaust)
  note o = owes_prompt [OF assms]
  have "chat_ok preface (st\<lparr>cst_phase := Ended\<rparr>)" using o by (simp add: chat_ok_def owes_def)
  then show ?thesis
    using settled_start [OF owes_user(2) [OF o build_user_history [OF b]]] assms b by (simp add: on_line_def Let_def)
qed

lemma on_fix_ok:
  assumes "chat_ok preface st" and "cst_phase st = AtPrompt"
  shows "chat_ok preface (on_fix cp st)"
  using settled_start [OF owes_user(1) [OF owes_prompt [OF assms] refl]] assms by (simp add: on_fix_def)

lemma settled_assistant:
  assumes "owes preface [] st" and "mark_valid (cst_mark st) (chs_history (cst_session st))"
  shows "settled preface (map tlc_id calls) (st\<lparr>cst_session := push_message (AssistantMsg c calls) (cst_session st)\<rparr>)"
  using assms rooted_append mark_valid_append by (simp add: settled_def owes_def push_message_def consume_append)

lemma settled_prompt: "settled preface [] st \<Longrightarrow> chat_ok preface (st\<lparr>cst_phase := AtPrompt\<rparr>)"
  by (simp add: settled_def chat_ok_def owes_def)

lemma on_reply_ok:
  assumes "chat_ok preface st" and "cst_phase st = Asking iter"
  shows "chat_ok preface (on_reply iter r st)"
proof -
  have o: "owes preface [] st" "mark_valid (cst_mark st) (chs_history (cst_session st))" using assms by (simp_all add: chat_ok_def)
  show ?thesis
  proof (cases r)
    case (Inl e)
    have "settled preface [] st" "settled preface [] (st\<lparr>cst_session := (cst_session st)\<lparr>chs_degraded := True\<rparr>\<rparr>)"
      using o by (simp_all add: settled_def owes_def)
    then show ?thesis using Inl settled_send(2) settled_prompt by (simp add: on_reply_def)
  next
    case (Inr resp)
    note a = settled_assistant [OF o]
    show ?thesis
    proof (cases resp)
      case (TextResponse msg)
      then show ?thesis using Inr settled_prompt [OF a [of "[]" "Some msg", simplified]] by (simp add: on_reply_def)
    next
      case (ToolCallsResponse calls)
      then show ?thesis using Inr next_call_ok [OF a [of calls None]] by (simp add: on_reply_def)
    qed
  qed
qed

lemma on_tool_ok:
  assumes "chat_ok preface st" and "cst_phase st = Calling iter c cs"
  shows "chat_ok preface (on_tool cp iter c cs env st)"
proof -
  obtain s1 es out where f: "finish_call cp env c (cst_session st) = (s1, es, out)" by (rule prod_cases3)
  have "settled preface (map tlc_id cs) (st\<lparr>cst_session := push_message (ToolMsg (tlc_id c) out) s1, cst_log := cst_log st @ [Called c es]\<rparr>)"
    using assms finish_call_history [OF f] rooted_append mark_valid_append
    by (simp add: chat_ok_def settled_def owes_def push_message_def consume_append)
  from next_call_ok [OF this] show ?thesis using f by (simp add: on_tool_def)
qed

lemma prompt_step_ok:
  assumes "chat_ok preface st" and "cst_phase st = AtPrompt"
  shows "chat_ok preface (chat_step cp st i)"
proof (cases i)
  case (ResumeLine vs)
  then show ?thesis using assms consume_restored rooted_append
    by (auto simp: chat_step_def on_resume_def chat_ok_def owes_def consume_append split: option.splits)
next
  case (AnalysisLine q a)
  then show ?thesis using assms rooted_append by (simp add: chat_step_def chat_ok_def owes_def push_message_def consume_append)
next
  case ClearLine
  then show ?thesis using assms rooted_clear by (auto simp: chat_step_def chat_ok_def owes_def)
next
  case Eof
  then show ?thesis using assms by (simp add: chat_step_def chat_ok_def owes_def)
qed (use assms chat_line_ok on_fix_ok in \<open>simp_all add: chat_step_def\<close>)

lemma chat_step_ok:
  assumes "chat_ok preface st" and "\<not> cancels_fix st i"
  shows "chat_ok preface (chat_step cp st i)"
proof (cases "cst_phase st")
  case AtPrompt
  then show ?thesis by (rule prompt_step_ok [OF assms(1)])
next
  case (Asking iter)
  then show ?thesis using assms on_reply_ok on_cancel_ok by (cases i) (simp_all add: chat_step_def)
next
  case AskingPlain
  have o: "owes preface [] st" "mark_valid (cst_mark st) (chs_history (cst_session st))" using assms(1) AskingPlain by (simp_all add: chat_ok_def)
  have "settled preface [] st" using o by (simp add: settled_def)
  note fin = settled_prompt [OF this] settled_prompt [OF settled_assistant [OF o, of "[]", simplified]]
  show ?thesis
  proof (cases i)
    case (PlainReply r)
    then show ?thesis using AskingPlain fin by (cases r) (simp_all add: chat_step_def)
  qed (use assms AskingPlain on_cancel_ok in \<open>simp_all add: chat_step_def\<close>)
next
  case (Calling iter c cs)
  then show ?thesis using assms on_tool_ok on_cancel_ok by (cases i) (simp_all add: chat_step_def)
next
  case Ended
  then show ?thesis using assms(1) by (simp add: chat_step_def)
qed

definition no_cancelled_fix :: "chat_params \<Rightarrow> str \<Rightarrow> chat_input list \<Rightarrow> bool" where
  "no_cancelled_fix cp preface inputs \<longleftrightarrow> (\<forall>before i after. inputs = before @ i # after \<longrightarrow> \<not> cancels_fix (chat_run cp preface before) i)"

lemma chat_run_ok: "no_cancelled_fix cp preface inputs \<Longrightarrow> chat_ok preface (chat_run cp preface inputs)"
proof (induction inputs rule: rev_induct)
  case Nil
  then show ?case by (simp add: chat_run_def chat_new_def chat_ok_def owes_def rooted_def)
next
  case (snoc i inputs)
  have "no_cancelled_fix cp preface inputs" using snoc.prems by (fastforce simp: no_cancelled_fix_def)
  moreover have "\<not> cancels_fix (chat_run cp preface inputs) i" using snoc.prems unfolding no_cancelled_fix_def by blast
  ultimately show ?case using snoc.IH chat_step_ok by (simp add: chat_run_def)
qed

text \<open>
  C11 (invariant). As long as no \<open>/fix\<close> is cancelled while its tool runs, every request the agent sends, after whatever
  answers, failures, cancelled turns, cleared and resumed conversations, is one the providers accept: each tool call
  of the model has its result right after it, in order, no result is left over, and in the Anthropic form each message answers exactly the calls
  of the one before it and no two user messages follow each other.
\<close>

theorem chat_requests_valid:
  assumes "no_cancelled_fix cp preface inputs" and "Sent h \<in> set (cst_log (chat_run cp preface inputs))"
  shows "answered_from [] h \<and> pairs_up [] (snd (to_anthropic_request (cpa_parse cp) h)) \<and> no_two_users (snd (to_anthropic_request (cpa_parse cp) h))"
proof -
  have "answered_from [] h" using chat_run_ok [OF assms(1)] assms(2) by (auto simp: chat_ok_def owes_def log_valid_def answered_consume)
  then show ?thesis using anthropic_request_pairs by blast
qed

section \<open>What a turn may do\<close>

text \<open>Names that are taken before the MCP servers are asked.\<close>

definition builtin :: "str \<Rightarrow> bool" where
  "builtin name \<longleftrightarrow> name \<in> {''run_command'', ''write_file'', ''edit_file'', ''jev_classify_logs'', ''prometheus_query'', ''loki_query'', ''es_search'',
     ''rca_agent_collect'', ''rca_agent_features''}"

text \<open>The user was asked this, said yes, and the effect came after.\<close>

definition asked_before :: "prompt \<Rightarrow> call_effect \<Rightarrow> call_effect list \<Rightarrow> bool" where
  "asked_before q e es \<longleftrightarrow> (\<exists>pre post. es = pre @ Asked q True # post \<and> e \<in> set post)"

lemma asked_beforeI [intro]: "e \<in> set post \<Longrightarrow> asked_before q e (pre @ Asked q True # post)"
  by (auto simp: asked_before_def)

text \<open>
  When an effect of the tool call \<open>name\<close> with arguments \<open>args\<close> is in order, \<open>es\<close> being all effects of the call.
\<close>

definition process_guarded :: "chat_params \<Rightarrow> call_env \<Rightarrow> json \<Rightarrow> call_effect list \<Rightarrow> str \<Rightarrow> path \<Rightarrow> nat \<Rightarrow> bool" where
  "process_guarded cp env args es cmd d n \<longleftrightarrow> cpa_allow_run_command cp \<and> path_starts_with d (sb_root (cpa_sandbox cp)) \<and>
     (\<exists>raw. get_str args ''command'' = Some raw \<and> cmd = command_of (cle_host env) (trim raw) \<and>
       (ra_level (classify cmd) = Safe \<or>
        ra_level (classify cmd) = NeedsConfirm \<and> asked_before (ConfirmCommand raw (ra_reason (classify raw))) (RunOp (Spawn cmd d n)) es))"

fun effect_guarded :: "chat_params \<Rightarrow> call_env \<Rightarrow> str \<Rightarrow> json \<Rightarrow> call_effect list \<Rightarrow> call_effect \<Rightarrow> bool" where
  "effect_guarded cp env name args es (FileOp (FileWritten p t)) \<longleftrightarrow>
     (\<exists>q. get_str args ''path'' = Some q \<and> resolve_for_write (fsy_canon (tle_fs (cle_tools env))) (cpa_sandbox cp) q = Inr p \<and>
        asked_before (ConfirmWrite q) (FileOp (FileWritten p t)) es) \<and>
     under_root (cpa_sandbox cp) p \<and> \<not> has_git_component p \<and> \<not> is_secret_file (tle_lower (cle_tools env)) (name_or_empty p)"
| "effect_guarded cp env name args es (FileOp (DirMade d)) \<longleftrightarrow>
     (\<exists>q p. get_str args ''path'' = Some q \<and> resolve_for_write (fsy_canon (tle_fs (cle_tools env))) (cpa_sandbox cp) q = Inr p \<and>
        path_parent p = Some d \<and> asked_before (ConfirmWrite q) (FileOp (DirMade d)) es) \<and>
     under_root (cpa_sandbox cp) d \<and> \<not> has_git_component d"
| "effect_guarded cp env name args es (FileOp (FileRead p)) \<longleftrightarrow> under_root (cpa_sandbox cp) p \<and>
     (is_secret_file (tle_lower (cle_tools env)) (name_or_empty p) \<longrightarrow> name = ''write_file'')"
| "effect_guarded cp env name args es (RunOp (Spawn cmd d n)) \<longleftrightarrow> process_guarded cp env args es cmd d n"
| "effect_guarded cp env name args es (RemoteOp tool) \<longleftrightarrow> tool = name \<and>
     (\<forall>m. cpa_mcp cp = Some m \<and> mcp_is_tool m name \<and> mcp_needs_confirm m name \<and> \<not> builtin name \<longrightarrow> asked_before (ConfirmMcp name) (RemoteOp name) es)"
| "effect_guarded cp env name args es _ \<longleftrightarrow> True"

definition args_guarded :: "chat_params \<Rightarrow> call_env \<Rightarrow> str \<Rightarrow> json \<Rightarrow> call_effect list \<Rightarrow> bool" where
  "args_guarded cp env name args es \<longleftrightarrow> (\<forall>e\<in>set es. effect_guarded cp env name args es e)"

definition call_guarded :: "chat_params \<Rightarrow> call_env \<Rightarrow> tool_call \<Rightarrow> call_effect list \<Rightarrow> bool" where
  "call_guarded cp env c es \<longleftrightarrow>
     es = [] \<or> (\<exists>args. cpa_parse cp (tlc_arguments c) = Some args \<and> args_guarded cp env (tlc_name c) args es)"

lemma policy_confirmed:
  assumes "execute_policy h sb (\<lambda>_ _ _. ok) c cwd disp tmo = (es, res)" and "Confirmed c' b \<in> set es"
  shows "b = ok"
  using assms by (auto simp: execute_policy_def run_and_format_def Let_def after_effects_def split: risk_level.splits if_splits sum.splits)

lemma execute_effects_raw:
  assumes "execute_with_corr h sb confirm args = (es, res)" "es \<noteq> []"
  obtains raw cwd disp where "arg_command args = Some raw" "resolve_cwd h sb args = Inr (cwd, disp)"
    "execute_policy h sb confirm (command_of h (trim raw)) cwd disp (resolve_timeout args) = (es, res)"
  using assms by (auto simp: execute_with_corr_def split: option.splits if_splits sum.splits)

lemma run_call_guarded:
  assumes "run_call cp env args = (es, r)"
  shows "args_guarded cp env name args es"
proof (cases "cpa_allow_run_command cp")
  case False
  then show ?thesis using assms by (simp add: run_call_def args_guarded_def)
next
  case True
  let ?c = "str_or [] (get_str args ''command'')"
  let ?ask = "ConfirmCommand ?c (ra_reason (classify ?c))"
  define ok where "ok = (ra_level (classify ?c) = NeedsConfirm \<and> cle_confirm env ?ask)"
  obtain xs q where x: "execute_with_corr (cle_host env) (cpa_sandbox cp) (\<lambda>_ _ _. ok) (run_args_of args) = (xs, q)" by (rule prod.exhaust)
  have es: "es = (if ra_level (classify ?c) = NeedsConfirm then [Asked ?ask ok] else []) @ map RunOp xs"
    using assms True x by (auto simp: run_call_def Let_def ok_def)
  have "process_guarded cp env args es cmd d n" if sp: "Spawn cmd d n \<in> set xs" for cmd d n
  proof -
    have "xs \<noteq> []" using sp by auto
    with x obtain raw cwd disp where raw: "arg_command (run_args_of args) = Some raw"
      and cwd: "resolve_cwd (cle_host env) (cpa_sandbox cp) (run_args_of args) = Inr (cwd, disp)"
      and pol: "execute_policy (cle_host env) (cpa_sandbox cp) (\<lambda>_ _ _. ok) (command_of (cle_host env) (trim raw)) cwd disp (resolve_timeout (run_args_of args)) = (xs, q)"
      by (rule execute_effects_raw)
    note adm = execute_policy_spawn [OF pol sp]
    have c: "get_str args ''command'' = Some raw" "?c = raw" using raw by (simp_all add: run_args_of_def str_or_def)
    have level: "ra_level (classify cmd) = Safe \<or> ra_level (classify cmd) = NeedsConfirm \<and> ok"
      using adm policy_confirmed [OF pol] by metis
    have "asked_before (ConfirmCommand raw (ra_reason (classify raw))) (RunOp (Spawn cmd d n)) es" if "ok"
      using that es ok_def sp asked_beforeI [of "RunOp (Spawn cmd d n)" "map RunOp xs" _ "[]"] by (simp add: c(2))
    then show ?thesis using True level adm resolve_cwd_contained [OF cwd] c(1) by (auto simp: process_guarded_def)
  qed
  then have run: "effect_guarded cp env name args es (RunOp x)" if "x \<in> set xs" for x using that by (cases x) simp_all
  show ?thesis unfolding args_guarded_def
  proof
    fix e assume "e \<in> set es"
    then have "(\<exists>x\<in>set xs. e = RunOp x) \<or> e = Asked ?ask ok" by (auto simp: es split: if_splits)
    then show "effect_guarded cp env name args es e" using run by auto
  qed
qed

lemma file_call_guarded:
  assumes "fs_ok (tle_fs (cle_tools env))" and "file_call cp env name args = (es, r)" and "e \<in> set es"
    and "name = ''write_file'' \<or> name = ''edit_file'' \<Longrightarrow> \<exists>pre. all = pre @ Asked (ConfirmWrite (str_or [] (get_str args ''path''))) True # es"
  shows "effect_guarded cp env name args all e"
proof -
  obtain xs x where x: "execute_tool (cle_tools env) (cpa_sandbox cp) name args = (xs, x)" by (rule prod.exhaust)
  obtain f where f: "e = FileOp f" "f \<in> set xs" using assms(2,3) x by (auto simp: file_call_def)
  have adm: "admitted (cle_tools env) (cpa_sandbox cp) name f" using execute_tool_admitted [OF assms(1) x f(2)] .
  show ?thesis
  proof (cases "\<exists>p. f = FileRead p")
    case True
    then show ?thesis using adm f(1) by (auto simp: admitted_def)
  next
    case False
    then have w: "name = ''write_file'' \<or> name = ''edit_file''" using adm by (cases f) (auto simp: admitted_def)
    obtain q p where t: "get_str args ''path'' = Some q" "resolve_for_write (fsy_canon (tle_fs (cle_tools env))) (cpa_sandbox cp) q = Inr p"
      "(\<exists>t. f = FileWritten p t) \<or> (\<exists>d. f = DirMade d \<and> path_parent p = Some d)"
      using execute_tool_target [OF x f(2) w] False by blast
    have "asked_before (ConfirmWrite q) e all" using assms(3,4) w t(1) by (auto simp: str_or_def)
    then show ?thesis using adm t f(1) by (cases f) (auto simp: admitted_def)
  qed
qed

lemma preview_guarded:
  assumes "build_write_preview (cle_tools env) (cpa_sandbox cp) name args = (reads, pv)" and "f \<in> set reads"
  shows "effect_guarded cp env name args all (FileOp f)"
proof -
  have n: "name = ''write_file''" using assms by (auto simp: build_write_preview_def Let_def split: if_splits)
  obtain p where "resolve_for_write (fsy_canon (tle_fs (cle_tools env))) (cpa_sandbox cp) (str_or [] (get_str args ''path'')) = Inr p" "f = FileRead p"
    using assms n by (auto simp: build_write_preview_def Let_def split: sum.splits option.splits)
  then show ?thesis using resolve_for_write_under n by simp
qed

lemma write_call_guarded:
  assumes "fs_ok (tle_fs (cle_tools env))" and "write_call cp env name args = (es, r)" and "name = ''write_file'' \<or> name = ''edit_file''"
  shows "args_guarded cp env name args es"
proof -
  let ?ask = "ConfirmWrite (str_or [] (get_str args ''path''))"
  obtain reads pv where pv: "build_write_preview (cle_tools env) (cpa_sandbox cp) name args = (reads, pv)" by (rule prod.exhaust)
  obtain ys y where f: "file_call cp env name args = (ys, y)" by (rule prod.exhaust)
  have es: "es = (map FileOp reads @ [Noted pv]) @ Asked ?ask (cle_confirm env ?ask) # (if cle_confirm env ?ask then ys else [])"
    using assms(2) pv f by (auto simp: write_call_def Let_def split: if_splits)
  have written: "effect_guarded cp env name args es e" if "cle_confirm env ?ask" "e \<in> set ys" for e
    using file_call_guarded [OF assms(1) f that(2), of es] es that(1) by auto
  show ?thesis unfolding args_guarded_def
  proof
    fix e assume "e \<in> set es"
    then consider f where "e = FileOp f" "f \<in> set reads" | "e = Noted pv" | "e = Asked ?ask (cle_confirm env ?ask)" | "cle_confirm env ?ask" "e \<in> set ys"
      by (auto simp: es split: if_splits)
    then show "effect_guarded cp env name args es e" using preview_guarded [OF pv] written by cases auto
  qed
qed

lemma mcp_call_guarded:
  assumes "mcp_call cp env m name args = (es, r)" and "cpa_mcp cp = Some m"
  shows "args_guarded cp env name args es"
proof -
  have "asked_before (ConfirmMcp name) (RemoteOp name) [Asked (ConfirmMcp name) True, RemoteOp name]"
    using asked_beforeI [of "RemoteOp name" "[RemoteOp name]" _ "[]"] by simp
  then show ?thesis using assms by (auto simp: mcp_call_def args_guarded_def Let_def split: if_splits)
qed

lemma call_tool_guarded:
  assumes "fs_ok (tle_fs (cle_tools env))" and "call_tool cp env name args = (es, r)"
  shows "args_guarded cp env name args es"
proof -
  have remote: "args_guarded cp env name args [RemoteOp name]" if "builtin name" using that by (simp add: args_guarded_def)
  have none: "args_guarded cp env name args []" by (simp add: args_guarded_def)
  have wr: "args_guarded cp env name args es" if "write_call cp env name args = (es, r)" "name = ''write_file'' \<or> name = ''edit_file''"
    using write_call_guarded [OF assms(1) that] .
  show ?thesis
  proof (cases "builtin name")
    case True
    then show ?thesis
      using assms(2) run_call_guarded wr remote none by (auto simp: call_tool_def builtin_def split: if_splits)
  next
    case False
    have "file_call cp env name args = (es, r) \<or> (\<exists>m. cpa_mcp cp = Some m \<and> mcp_call cp env m name args = (es, r))"
      using assms(2) False by (auto simp: call_tool_def builtin_def split: option.splits if_splits)
    moreover have "\<not> (name = ''write_file'' \<or> name = ''edit_file'')" using False by (auto simp: builtin_def)
    ultimately show ?thesis using file_call_guarded [OF assms(1)] mcp_call_guarded by (fastforce simp: args_guarded_def)
  qed
qed

text \<open>All calls of a log, each made with one of the given environments.\<close>

definition log_guarded :: "chat_params \<Rightarrow> call_env set \<Rightarrow> log_entry list \<Rightarrow> bool" where
  "log_guarded cp envs l \<longleftrightarrow> (\<forall>c es. Called c es \<in> set l \<longrightarrow> (\<exists>env\<in>envs. call_guarded cp env c es))"

lemma log_guarded_snoc [simp]:
  "log_guarded cp envs (l @ [Sent h]) = log_guarded cp envs l" "log_guarded cp envs (l @ [SentPlain t]) = log_guarded cp envs l"
  "log_guarded cp envs (l @ [Called c es]) = (log_guarded cp envs l \<and> (\<exists>env\<in>envs. call_guarded cp env c es))" "log_guarded cp envs []"
  by (auto simp: log_guarded_def)

lemma log_guarded_mono: "log_guarded cp envs l \<Longrightarrow> envs \<subseteq> envs' \<Longrightarrow> log_guarded cp envs' l"
  by (fastforce simp: log_guarded_def)

lemma start_turn_guarded: "log_guarded cp envs (cst_log (start_turn cp' st)) = log_guarded cp envs (cst_log st)"
  by (simp add: start_turn_def send_plain_def send_iteration_def)

lemma next_call_guarded: "log_guarded cp envs (cst_log (next_call iter calls st)) = log_guarded cp envs (cst_log st)"
  by (simp add: next_call_def send_iteration_def split: list.split)

lemma on_tool_guarded:
  assumes "fs_ok (tle_fs (cle_tools env))" and "env \<in> envs" and "log_guarded cp envs (cst_log st)"
  shows "log_guarded cp envs (cst_log (on_tool cp iter c cs env st))"
proof -
  obtain s1 es out where f: "finish_call cp env c (cst_session st) = (s1, es, out)" by (rule prod_cases3)
  have "call_guarded cp env c es"
  proof (cases "cpa_parse cp (tlc_arguments c)")
    case None
    then show ?thesis using f by (auto simp: finish_call_def Let_def call_guarded_def)
  next
    case (Some args)
    obtain xs r where x: "call_tool cp env (tlc_name c) args = (xs, r)" by (rule prod.exhaust)
    then have "es = xs" using f Some by (auto simp: finish_call_def Let_def)
    then show ?thesis using call_tool_guarded [OF assms(1) x] Some by (simp add: call_guarded_def)
  qed
  then show ?thesis using assms(2,3) f by (auto simp: on_tool_def next_call_guarded)
qed

lemma chat_step_guarded:
  assumes "log_guarded cp envs (cst_log st)" and "\<And>env. i = ToolDone env \<Longrightarrow> fs_ok (tle_fs (cle_tools env)) \<and> env \<in> envs"
  shows "log_guarded cp envs (cst_log (chat_step cp st i))"
proof (cases "cst_phase st")
  case AtPrompt
  then show ?thesis using assms(1)
    by (cases i) (auto simp: chat_step_def on_line_def on_fix_def on_resume_def Let_def start_turn_guarded split: prod.splits option.splits)
next
  case (Asking iter)
  then show ?thesis using assms(1)
    by (cases i) (auto simp: chat_step_def on_reply_def on_cancel_def next_call_guarded send_plain_def split: sum.splits chat_response.splits option.splits)
next
  case AskingPlain
  then show ?thesis using assms(1) by (cases i) (auto simp: chat_step_def on_cancel_def split: sum.splits option.splits)
next
  case (Calling iter c cs)
  then show ?thesis using assms on_tool_guarded by (cases i) (auto simp: chat_step_def on_cancel_def split: option.splits)
next
  case Ended
  then show ?thesis using assms(1) by (simp add: chat_step_def)
qed


section \<open>A turn ends\<close>

definition awaits :: "chat_state \<Rightarrow> chat_input \<Rightarrow> bool" where
  "awaits st i \<longleftrightarrow> (case (cst_phase st, i) of
     (Asking n, Reply r) \<Rightarrow> True | (AskingPlain, PlainReply r) \<Rightarrow> True | (Calling n c cs, ToolDone env) \<Rightarrow> True | _ \<Rightarrow> False)"

fun turn_rank :: "phase \<Rightarrow> nat \<times> nat" where
  "turn_rank (Asking n) = (Suc (2 * (max_iterations - n)), 0)"
| "turn_rank (Calling n c cs) = (2 * (max_iterations - n), Suc (length cs))"
| "turn_rank AskingPlain = (0, 1)"
| "turn_rank _ = (0, 0)"

lemma next_call_rank:
  "(turn_rank (cst_phase (next_call n cs st)), (2 * (max_iterations - n), Suc (length cs))) \<in> less_than <*lex*> less_than"
  by (cases cs) (auto simp: next_call_def send_iteration_def max_iterations_def)

lemma awaited_lowers_rank:
  assumes "awaits st i"
  shows "(turn_rank (cst_phase (chat_step cp st i)), turn_rank (cst_phase st)) \<in> less_than <*lex*> less_than"
proof (cases "cst_phase st")
  case (Asking n)
  then obtain r where i: "i = Reply r" using assms by (cases i) (auto simp: awaits_def)
  have up: "(x, (2 * (max_iterations - n), k)) \<in> less_than <*lex*> less_than \<Longrightarrow> (x, (Suc (2 * (max_iterations - n)), 0)) \<in> less_than <*lex*> less_than" for x k
    by (cases x) auto
  show ?thesis using Asking i up [OF next_call_rank]
    by (auto simp: chat_step_def on_reply_def send_plain_def split: sum.splits chat_response.splits)
next
  case AskingPlain
  then show ?thesis using assms by (cases i) (auto simp: awaits_def chat_step_def split: sum.splits)
next
  case (Calling n c cs)
  then obtain env where i: "i = ToolDone env" using assms by (cases i) (auto simp: awaits_def)
  obtain s1 es out where f: "finish_call cp env c (cst_session st) = (s1, es, out)" by (rule prod_cases3)
  show ?thesis using Calling i f next_call_rank [of n cs] by (auto simp: chat_step_def on_tool_def)
qed (use assms in \<open>auto simp: awaits_def\<close>)

text \<open>
  C23 (termination). A turn cannot go on for ever, whatever the model answers: following only inputs the session waits for,
  every turn comes back to the prompt after finitely many of them.
\<close>

theorem turn_terminates: "wf {(chat_step cp st i, st) | st i. awaits st i}"
proof (rule wf_subset)
  show "wf (inv_image (less_than <*lex*> less_than) (\<lambda>st :: chat_state. turn_rank (cst_phase st)))"
    by (intro wf_inv_image wf_lex_prod wf_less_than)
  show "{(chat_step cp st i, st) | st i. awaits st i} \<subseteq> inv_image (less_than <*lex*> less_than) (\<lambda>st. turn_rank (cst_phase st))"
    using awaited_lowers_rank by (auto simp: in_inv_image)
qed

section \<open>Saving and resuming, and examples\<close>

text \<open>What a resumed conversation holds: what the user said and what was answered in words.\<close>

fun spoken :: "chat_message \<Rightarrow> chat_message list" where
  "spoken (UserMsg c) = [UserMsg c]"
| "spoken (AssistantMsg (Some c) calls) = [AssistantMsg (Some c) []]"
| "spoken _ = []"

text \<open>
  Further property (roundtrip). A saved conversation is restored as it was spoken, without the tool calls and their results.
\<close>

theorem session_resume_round_trip: "session_values_to_messages (history_to_session_values h) = concat (map spoken h)"
proof (induction h)
  case (Cons m h)
  have "(case session_value m of None \<Rightarrow> [] | Some v \<Rightarrow> (case value_message v of None \<Rightarrow> [] | Some x \<Rightarrow> [x])) = spoken m"
    by (cases m rule: spoken.cases) (auto simp: value_message_def get_str_def)
  then show ?case using Cons
    by (auto simp: session_values_to_messages_def history_to_session_values_def List.map_filter_simps split: option.splits)
qed (simp add: session_values_to_messages_def history_to_session_values_def List.map_filter_simps)

definition demo_chat :: chat_params where
  "demo_chat = \<lparr>cpa_sandbox = dir_sandbox, cpa_run_id = ''r'', cpa_lang = ''english'', cpa_context = default_record, cpa_llm_available = True,
     cpa_allow_run_command = True, cpa_obs = False, cpa_rca_agent = False, cpa_mcp = None, cpa_parse = (\<lambda>_. Some write_args), cpa_redact = (\<lambda>s. s),
     cpa_reply_text = (\<lambda>_. []), cpa_tool_error_text = (\<lambda>_. []), cpa_output_text = (\<lambda>_. []), cpa_file_error_text = (\<lambda>_. []), cpa_cut_note = (\<lambda>_. []),
     cpa_bad_args = (\<lambda>_. []), cpa_read_only = [], cpa_write_denied = [], cpa_no_obs = [], cpa_no_rca = [], cpa_mcp_denied = (\<lambda>_. []),
     cpa_fix_request = ''fix it''\<rparr>"

definition demo_call :: tool_call where
  "demo_call = \<lparr>tlc_id = ''c1'', tlc_name = ''write_file'', tlc_arguments = ''{}''\<rparr>"

definition demo_call_env :: call_env where
  "demo_call_env = \<lparr>cle_confirm = (\<lambda>_. True), cle_host = plain_host, cle_tools = plain_tools, cle_remote = (\<lambda>_ _. Inr [])\<rparr>"

lemma demo_line: "trim ''hi'' = ''hi''" "\<not> is_exit_command ''hi''"
  by (code_simp, code_simp)

section \<open>A cancelled fix\<close>

text \<open>
  A history no provider accepts any more: a message is out of place, or calls are unanswered while the session waits at
  the prompt, where nothing but a message of the user can follow.
\<close>

definition spoilt :: "chat_state \<Rightarrow> bool" where
  "spoilt st \<longleftrightarrow> (let h = chs_history (cst_session st) in
     consume [] h = None \<and> (\<forall>m. cst_mark st = Some m \<longrightarrow> cst_phase st = AtPrompt \<or> cst_phase st = Ended \<or> consume [] (take m h) = None) \<or>
     (\<exists>w ws. consume [] h = Some (w # ws)) \<and> (cst_phase st = AtPrompt \<or> cst_phase st = Ended))"

definition bad_requests :: "log_entry list \<Rightarrow> bool" where
  "bad_requests l \<longleftrightarrow> (\<forall>h. Sent h \<in> set l \<longrightarrow> consume [] h = None)"

lemma consume_None_append: "consume w h = None \<Longrightarrow> consume w (h @ t) = None"
  by (simp add: consume_append)

lemma consume_None_user: "consume [] h = None \<or> (\<exists>w ws. consume [] h = Some (w # ws)) \<Longrightarrow> consume [] (h @ [UserMsg c]) = None"
  by (auto simp: consume_append)

text \<open>What a step adds to the log, and that the history stays spoilt.\<close>

definition spoils :: "chat_state \<Rightarrow> chat_state \<Rightarrow> bool" where
  "spoils st st' \<longleftrightarrow> spoilt st' \<and> (\<exists>new. cst_log st' = cst_log st @ new \<and> bad_requests new)"

lemma spoils_refl: "spoilt st \<Longrightarrow> spoils st st"
  by (simp add: spoils_def bad_requests_def)

lemma spoils_trans: "spoils a b \<Longrightarrow> spoils b c \<Longrightarrow> spoils a c"
  by (fastforce simp: spoils_def bad_requests_def)

text \<open>A turn under way with a message out of place: the phase may be set and a request sent.\<close>

lemma lost_phase:
  assumes "consume [] (chs_history (cst_session st)) = None" and "\<And>m. cst_mark st = Some m \<Longrightarrow> consume [] (take m (chs_history (cst_session st))) = None"
  shows "spoils st (st\<lparr>cst_phase := ph\<rparr>)" "spoils st (send_plain st)" "spoils st (send_iteration iter st)"
    "spoils st (next_call iter calls st)"
  using assms by (auto simp: spoils_def spoilt_def bad_requests_def send_plain_def send_iteration_def next_call_def start_call_def Let_def split: list.splits)

lemma lost_start:
  assumes "consume [] (chs_history (cst_session st)) = None" and "\<And>m. cst_mark st = Some m \<Longrightarrow> consume [] (take m (chs_history (cst_session st))) = None"
  shows "spoils st (start_turn cp st)"
proof -
  have "spoilt st" using assms by (simp add: spoilt_def Let_def)
  then show ?thesis using lost_phase [OF assms] spoils_refl by (simp add: start_turn_def)
qed

lemma spoils_session: "spoils (st\<lparr>cst_session := s, cst_mark := mk\<rparr>) st' \<Longrightarrow> spoils st st'" "spoils (st\<lparr>cst_session := s\<rparr>) st' \<Longrightarrow> spoils st st'"
  by (simp_all add: spoils_def)

lemma spoilt_prompt: "spoilt st \<Longrightarrow> cst_phase st = AtPrompt \<Longrightarrow> consume [] (chs_history (cst_session st) @ UserMsg c # t) = None"
  using consume_None_user [of "chs_history (cst_session st)" c] consume_None_append [of "[]" "chs_history (cst_session st) @ [UserMsg c]" t]
  by (auto simp: spoilt_def Let_def)

lemma spoilt_resume: "spoilt st \<Longrightarrow> cst_phase st = AtPrompt \<Longrightarrow> spoils st (on_resume vs st)"
proof (cases vs)
  case (Some saved)
  assume a: "spoilt st" "cst_phase st = AtPrompt"
  let ?h = "chs_history (cst_session st)" and ?t = "session_values_to_messages saved"
  have spoken_value: "(\<exists>c. x = UserMsg c) \<or> (\<exists>c. x = AssistantMsg (Some c) [])" if "value_message v = Some x" for v x
    using that by (auto simp: value_message_def split: option.splits if_splits)
  have kinds: "(\<exists>c. x = UserMsg c) \<or> (\<exists>c. x = AssistantMsg (Some c) [])" if x: "x \<in> set ?t" for x
  proof -
    obtain v where "value_message v = Some x" using x by (auto simp: session_values_to_messages_def List.map_filter_def)
    then show ?thesis by (rule spoken_value)
  qed
  have "consume [] (?h @ ?t) = None \<or> ?t = []"
  proof (cases ?t)
    case (Cons x xs)
    then show ?thesis using a kinds [of x] by (auto simp: spoilt_def Let_def consume_append)
  qed simp
  then show ?thesis using a Some by (auto simp: on_resume_def spoils_def spoilt_def bad_requests_def Let_def)
qed (simp add: on_resume_def spoils_refl)

lemma spoilt_prompt_step:
  assumes "spoilt st" and "cst_phase st = AtPrompt" and "i \<noteq> ClearLine"
  shows "spoils st (chat_step cp st i)"
proof -
  note none = spoilt_prompt [OF assms(1,2)]
  have ended: "spoils st (st\<lparr>cst_phase := Ended\<rparr>)" using assms(1) by (auto simp: spoils_def spoilt_def bad_requests_def Let_def)
  show ?thesis
  proof (cases i)
    case (Line l)
    obtain msg s1 where b: "build_user_message cp (trim l) (cst_session st) = (msg, s1)" by (rule prod.exhaust)
    have h: "chs_history s1 = chs_history (cst_session st)" by (rule build_user_history [OF b])
    show ?thesis using Line assms(2) ended spoils_refl [OF assms(1)] none [of msg "[]"] b
      by (auto simp: chat_step_def on_line_def push_message_def h intro!: spoils_session(1) [OF lost_start])
  next
    case FixLine
    show ?thesis using FixLine assms(2) spoils_refl [OF assms(1)] none [of "cpa_fix_request cp" "[]"]
      by (auto simp: chat_step_def on_fix_def push_message_def intro!: spoils_session(1) [OF lost_start])
  next
    case (ResumeLine vs)
    then show ?thesis using assms spoilt_resume by (simp add: chat_step_def)
  next
    case (AnalysisLine q a)
    then show ?thesis using assms(2) none [of q "[AssistantMsg (Some a) []]"]
      by (auto simp: chat_step_def push_message_def spoils_def spoilt_def bad_requests_def Let_def)
  next
    case Eof
    then show ?thesis using assms(2) ended by (simp add: chat_step_def)
  qed (use assms spoils_refl in \<open>simp_all add: chat_step_def\<close>)
qed

lemma spoilt_turn_step:
  assumes "spoilt st" and "cst_phase st \<noteq> AtPrompt" and "cst_phase st \<noteq> Ended"
  shows "spoils st (chat_step cp st i)"
proof -
  let ?h = "chs_history (cst_session st)"
  have none: "consume [] ?h = None" "\<And>m. cst_mark st = Some m \<Longrightarrow> consume [] (take m ?h) = None"
    using assms by (auto simp: spoilt_def Let_def)
  have longer: "consume [] (take m (?h @ t)) = None" if "cst_mark st = Some m" for m t
    using none(2) [OF that] consume_None_append [of "[]" "take m ?h" "take (m - length ?h) t"] by simp
  note extended = consume_None_append [OF none(1)] longer
  have cancel: "spoils st (on_cancel st)"
    using none by (auto simp: on_cancel_def spoils_def spoilt_def bad_requests_def Let_def split: option.splits)
  have reply: "spoils st (on_reply iter r st)" for iter r
    using lost_phase [of st] none extended
    by (auto simp: on_reply_def push_message_def split: sum.splits chat_response.splits
        intro!: spoils_session(2) [OF lost_phase(1)] spoils_session(2) [OF lost_phase(2)] spoils_session(2) [OF lost_phase(4)])
  have tool: "spoils st (on_tool cp iter c cs env st)" for iter c cs env
  proof -
    obtain s1 es out where f: "finish_call cp env c (cst_session st) = (s1, es, out)" by (rule prod_cases3)
    let ?st = "st\<lparr>cst_session := push_message (ToolMsg (tlc_id c) out) s1, cst_log := cst_log st @ [Called c es]\<rparr>"
    have "spoils ?st (next_call iter cs ?st)"
      by (rule lost_phase(4)) (use extended finish_call_history [OF f] in \<open>simp_all add: push_message_def\<close>)
    moreover have "spoils st ?st" using none extended finish_call_history [OF f]
      by (auto simp: spoils_def spoilt_def bad_requests_def push_message_def Let_def)
    ultimately show ?thesis using f spoils_trans by (auto simp: on_tool_def)
  qed
  have plain: "spoils st (st\<lparr>cst_session := push_message x (cst_session st), cst_phase := AtPrompt\<rparr>)" for x
    using extended(1) by (auto simp: spoils_def spoilt_def bad_requests_def push_message_def Let_def)
  show ?thesis
    using assms spoils_refl [OF assms(1)] cancel reply tool plain lost_phase(1) [of st AtPrompt] none
    by (cases "cst_phase st"; cases i) (auto simp: chat_step_def split: sum.splits)
qed

lemma spoilt_run: "spoilt st \<Longrightarrow> ClearLine \<notin> set later \<Longrightarrow> spoils st (foldl (chat_step cp) st later)"
proof (induction later arbitrary: st)
  case (Cons i later)
  have "spoils st (chat_step cp st i)" if "cst_phase st = Ended" using that spoils_refl [OF Cons.prems(1)] by (simp add: chat_step_def)
  then have "spoils st (chat_step cp st i)"
    using Cons.prems spoilt_prompt_step [of st i cp] spoilt_turn_step [of st cp i] by fastforce
  then show ?case using Cons.IH [of "chat_step cp st i"] Cons.prems spoils_trans by (auto simp: spoils_def)
qed (simp add: spoils_refl)


definition fix_inputs :: "chat_input list" where
  "fix_inputs = [FixLine, Reply (Inr (ToolCallsResponse [demo_call]))]"

lemma fix_phase: "cst_phase (chat_run demo_chat [] fix_inputs) = Calling 0 demo_call []" "cst_mark (chat_run demo_chat [] fix_inputs) = None"
  "chs_degraded (cst_session (chat_run demo_chat [] fix_inputs)) = False"
  by (simp_all add: fix_inputs_def chat_run_def chat_new_def chat_step_def on_fix_def demo_chat_def start_turn_def send_iteration_def max_iterations_def
      push_message_def on_reply_def next_call_def start_call_def)


theorem chat_requests_valid_witness:
  "\<exists>h. Sent h \<in> set (cst_log (chat_run demo_chat [] [Line ''hi''])) \<and> answered_from [] h"
proof -
  have "no_cancelled_fix demo_chat [] [Line ''hi'']" by (auto simp: no_cancelled_fix_def cancels_fix_def Cons_eq_append_conv)
  note v = chat_requests_valid [OF this]
  obtain h where "Sent h \<in> set (cst_log (chat_run demo_chat [] [Line ''hi'']))"
    by (simp add: chat_run_def chat_new_def chat_step_def demo_chat_def start_turn_def send_iteration_def max_iterations_def
      push_message_def on_line_def demo_line build_user_message_def Let_def)
  with v show ?thesis by blast
qed


text \<open>
  Further property (error). A read-only session does not offer the writing tools to the model, but it does not refuse them either: a
  model that names one anyway writes the file as soon as the user confirms, while \<open>run_command\<close> is refused outright.
\<close>

theorem read_only_session_writes:
  "let cp = demo_chat\<lparr>cpa_allow_run_command := False\<rparr> in
     FileOp (FileWritten [RootDir, Normal ''w'', Normal ''b'', Normal ''c''] ''hi'') \<in> set (fst (call_tool cp demo_call_env ''write_file'' write_args)) \<and>
     fst (call_tool cp demo_call_env ''run_command'' args) = []"
  by (simp add: call_tool_def write_call_def file_call_def run_call_def demo_chat_def demo_call_env_def demo_write Let_def split: prod.splits)

end
