(* ===== verification/Streaming.thy ===== *)
theory Streaming
  imports Chat_Messages
begin

text \<open>
  Answers that arrive as server-sent events, \<open>aic-client/src/streaming.rs\<close>: four readers of one shape, two for a
  plain answer and two for an answer with tool calls. The body of the response is the list of its
  chunks, each of which may be a transport error; \<open>serde_json\<close> is the argument \<open>parse\<close>. The text handed to
  the callback is kept, piece by piece.
\<close>

section \<open>Events and lines\<close>

definition lf :: u8 where "lf = CHR 0x0A"
definition cr :: u8 where "cr = CHR 0x0D"

definition find_event_boundary :: "bytes \<Rightarrow> (nat \<times> nat) option" where
  "find_event_boundary buf =
     (case find_sub [cr, lf, cr, lf] buf of Some p \<Rightarrow> Some (p, 4)
      | None \<Rightarrow> (case (find_sub [lf, lf] buf, find_sub [cr, cr] buf) of
            (Some p, Some q) \<Rightarrow> Some (min p q, 2) | (Some p, None) \<Rightarrow> Some (p, 2) | (None, Some q) \<Rightarrow> Some (q, 2) | (None, None) \<Rightarrow> None))"

definition trim_trailing_cr :: "bytes \<Rightarrow> bytes" where
  "trim_trailing_cr line = (if line \<noteq> [] \<and> last line = cr then butlast line else line)"

definition strip_data_prefix :: "bytes \<Rightarrow> bytes option" where
  "strip_data_prefix line =
     (if prefix ''data: '' line then Some (drop 6 line) else if prefix ''data:'' line then Some (drop 5 line) else None)"

text \<open>What a line does to a reader: it goes on, it is finished, or it fails.\<close>

datatype 's outcome_of = Going 's | Finished 's | Failed aic_error

fun process_lines :: "('s \<Rightarrow> bytes \<Rightarrow> 's outcome_of) \<Rightarrow> 's \<Rightarrow> bytes list \<Rightarrow> 's outcome_of" where
  "process_lines step s [] = Going s"
| "process_lines step s (l # ls) =
     (case strip_data_prefix (trim_trailing_cr l) of
        None \<Rightarrow> process_lines step s ls
      | Some data \<Rightarrow> if data = [] then process_lines step s ls
          else (case step s data of Going s' \<Rightarrow> process_lines step s' ls | r \<Rightarrow> r))"

definition process_event :: "('s \<Rightarrow> bytes \<Rightarrow> 's outcome_of) \<Rightarrow> 's \<Rightarrow> bytes \<Rightarrow> 's outcome_of" where
  "process_event step s event = process_lines step s (split_on lf event)"

lemma boundary_advances: "find_event_boundary buf = Some (p, a) \<Longrightarrow> 0 < a \<and> p + a \<le> length buf"
  by (auto simp: find_event_boundary_def find_sub_Some split: option.splits)

text \<open>The inner loop: events out of the buffer, as long as there is a boundary.\<close>

function drain_events :: "('s \<Rightarrow> bytes \<Rightarrow> 's outcome_of) \<Rightarrow> 's \<Rightarrow> bytes \<Rightarrow> 's outcome_of \<times> bytes" where
  "drain_events step s buf =
     (case find_event_boundary buf of
        None \<Rightarrow> (Going s, buf)
      | Some (p, a) \<Rightarrow> (case process_event step s (take (p + a) buf) of
            Going s' \<Rightarrow> drain_events step s' (drop (p + a) buf)
          | r \<Rightarrow> (r, drop (p + a) buf)))"
  by pat_completeness auto
termination
  by (relation "measure (\<lambda>(step, s, buf). length buf)") (auto dest: boundary_advances)

declare drain_events.simps [simp del]

fun accumulate :: "('s \<Rightarrow> bytes \<Rightarrow> 's outcome_of) \<Rightarrow> 's \<Rightarrow> bytes \<Rightarrow> (str + bytes) list \<Rightarrow> 's outcome_of" where
  "accumulate step s buf [] = (if buf = [] then Going s else process_event step s buf)"
| "accumulate step s buf (Inl e # cs) = Failed (ChatApiError 0 e)"
| "accumulate step s buf (Inr chunk # cs) =
     (case drain_events step s (buf @ chunk) of
        (Going s', buf') \<Rightarrow> accumulate step s' buf' cs
      | (r, _) \<Rightarrow> r)"

section \<open>The four readers\<close>

definition json_index :: "json \<Rightarrow> str \<Rightarrow> json" where
  "json_index j k = (case json_get j k of Some v \<Rightarrow> v | None \<Rightarrow> JNull)"

fun json_nth :: "json \<Rightarrow> nat \<Rightarrow> json" where
  "json_nth (JArr vs) n = (if n < length vs then vs ! n else JNull)"
| "json_nth _ n = JNull"

record call_builder =
  cbu_id :: str
  cbu_name :: str
  cbu_args :: str

definition builder_default :: call_builder where
  "builder_default = \<lparr>cbu_id = [], cbu_name = [], cbu_args = []\<rparr>"

record stream_state =
  sst_shown :: "str list"
  sst_text :: str

record openai_state = stream_state +
  oas_tools :: "call_builder list"

record anthropic_state = stream_state +
  ans_tools :: "(nat \<times> call_builder) list"

definition show_text :: "str \<Rightarrow> 'a stream_state_scheme \<Rightarrow> 'a stream_state_scheme" where
  "show_text t s = s\<lparr>sst_shown := sst_shown s @ [t], sst_text := sst_text s @ t\<rparr>"

definition message_or :: "str \<Rightarrow> json \<Rightarrow> str" where
  "message_or d err = str_or d (get_str err ''message'')"

definition openai_plain :: "(bytes \<Rightarrow> json option) \<Rightarrow> stream_state \<Rightarrow> bytes \<Rightarrow> stream_state outcome_of" where
  "openai_plain parse s data =
     (if data = ''[DONE]'' then Finished s
      else case parse data of None \<Rightarrow> Going s
      | Some j \<Rightarrow> (case json_get j ''error'' of
            Some err \<Rightarrow> Failed (ChatApiError 0 (''API error: '' @ message_or ''unknown'' err))
          | None \<Rightarrow> (case as_str (json_index (json_index (json_nth (json_index j ''choices'') 0) ''delta'') ''content'') of
                Some content \<Rightarrow> Going (show_text content s) | None \<Rightarrow> Going s)))"

definition anthropic_plain :: "(bytes \<Rightarrow> json option) \<Rightarrow> stream_state \<Rightarrow> bytes \<Rightarrow> stream_state outcome_of" where
  "anthropic_plain parse s data =
     (case parse data of None \<Rightarrow> Going s
      | Some j \<Rightarrow> let ty = str_or [] (as_str (json_index j ''type'')) in
          if ty = ''content_block_delta'' then
            (case as_str (json_index (json_index j ''delta'') ''text'') of Some t \<Rightarrow> Going (show_text t s) | None \<Rightarrow> Going s)
          else if ty = ''message_stop'' then Finished s
          else if ty = ''error'' then
            Failed (ChatApiError 0 (''Anthropic API error: '' @ str_or ''unknown anthropic error'' (as_str (json_index (json_index j ''error'') ''message''))))
          else Going s)"

definition show_nonempty :: "str option \<Rightarrow> 'a stream_state_scheme \<Rightarrow> 'a stream_state_scheme" where
  "show_nonempty t s = (case t of Some c \<Rightarrow> if c = [] then s else show_text c s | None \<Rightarrow> s)"

definition nonempty_or :: "str option \<Rightarrow> str \<Rightarrow> str" where
  "nonempty_or x old = (case x of Some v \<Rightarrow> if v = [] then old else v | None \<Rightarrow> old)"

definition add_fragment :: "call_builder list \<Rightarrow> json \<Rightarrow> call_builder list" where
  "add_fragment tools tc =
     (let idx = or_zero (as_u64 (json_index tc ''index''));
          tools1 = tools @ replicate (Suc idx - length tools) builder_default;
          b = tools1 ! idx;
          func = json_index tc ''function''
      in tools1[idx := \<lparr>cbu_id = nonempty_or (as_str (json_index tc ''id'')) (cbu_id b),
           cbu_name = nonempty_or (as_str (json_index func ''name'')) (cbu_name b),
           cbu_args = cbu_args b @ str_or [] (as_str (json_index func ''arguments''))\<rparr>])"

definition openai_agent :: "(bytes \<Rightarrow> json option) \<Rightarrow> openai_state \<Rightarrow> bytes \<Rightarrow> openai_state outcome_of" where
  "openai_agent parse s data =
     (if data = ''[DONE]'' then Finished s
      else case parse data of None \<Rightarrow> Going s
      | Some j \<Rightarrow> (case json_get j ''error'' of
            Some err \<Rightarrow> Failed (ChatApiError 0 (''API error: '' @ message_or ''unknown'' err))
          | None \<Rightarrow>
              (let delta = json_index (json_nth (json_index j ''choices'') 0) ''delta'';
                   s1 = show_nonempty (as_str (json_index delta ''content'')) s
               in Going (case as_array (json_index delta ''tool_calls'') of
                    Some tcs \<Rightarrow> s1\<lparr>oas_tools := foldl add_fragment (oas_tools s1) tcs\<rparr> | None \<Rightarrow> s1))))"

text \<open>The \<open>BTreeMap\<close>: a list in the order of the keys.\<close>

fun bt_update :: "nat \<Rightarrow> (call_builder option \<Rightarrow> call_builder) \<Rightarrow> (nat \<times> call_builder) list \<Rightarrow> (nat \<times> call_builder) list" where
  "bt_update k f [] = [(k, f None)]"
| "bt_update k f ((k', v) # m) = (if k < k' then (k, f None) # (k', v) # m else if k = k' then (k, f (Some v)) # m else (k', v) # bt_update k f m)"

definition anthropic_agent :: "(bytes \<Rightarrow> json option) \<Rightarrow> anthropic_state \<Rightarrow> bytes \<Rightarrow> anthropic_state outcome_of" where
  "anthropic_agent parse s data =
     (case parse data of None \<Rightarrow> Going s
      | Some j \<Rightarrow>
          let ty = str_or [] (as_str (json_index j ''type'')); idx = or_zero (as_u64 (json_index j ''index'')) in
          if ty = ''content_block_start'' then
            (let cb = json_index j ''content_block'' in
             if as_str (json_index cb ''type'') = Some ''tool_use'' then
               Going (s\<lparr>ans_tools := bt_update idx (\<lambda>_. \<lparr>cbu_id = str_or [] (as_str (json_index cb ''id'')),
                 cbu_name = str_or [] (as_str (json_index cb ''name'')), cbu_args = []\<rparr>) (ans_tools s)\<rparr>)
             else Going s)
          else if ty = ''content_block_delta'' then
            (let d = json_index j ''delta''; dty = str_or [] (as_str (json_index d ''type'')) in
             if dty = ''text_delta'' then Going (show_nonempty (as_str (json_index d ''text'')) s)
             else if dty = ''input_json_delta'' then
               (case as_str (json_index d ''partial_json'') of None \<Rightarrow> Going s
                | Some p \<Rightarrow> Going (s\<lparr>ans_tools := bt_update idx
                    (\<lambda>b. let c = (case b of Some c \<Rightarrow> c | None \<Rightarrow> builder_default) in c\<lparr>cbu_args := cbu_args c @ p\<rparr>) (ans_tools s)\<rparr>))
             else Going s)
          else if ty = ''message_stop'' then Finished s
          else if ty = ''error'' then
            Failed (ChatApiError 0 (''Anthropic API error: '' @ str_or ''unknown anthropic error'' (as_str (json_index (json_index j ''error'') ''message''))))
          else Going s)"

definition finish_response :: "str \<Rightarrow> call_builder list \<Rightarrow> chat_response" where
  "finish_response t tools =
     (let calls = map (\<lambda>b. \<lparr>tlc_id = cbu_id b, tlc_name = cbu_name b, tlc_arguments = (if trim (cbu_args b) = [] then ''{}'' else cbu_args b)\<rparr>)
            (filter (\<lambda>b. cbu_name b \<noteq> []) tools)
      in if calls = [] then TextResponse t else ToolCallsResponse calls)"

text \<open>The request's answer: a transport error, or a status with the chunks of the body.\<close>

type_synonym http_answer = "str + nat \<times> (str + bytes) list"

definition plain_result :: "stream_state outcome_of \<Rightarrow> aic_error + str" where
  "plain_result r = (case r of Going s \<Rightarrow> Inr (sst_text s) | Finished s \<Rightarrow> Inr (sst_text s) | Failed e \<Rightarrow> Inl e)"

definition on_success_status :: "http_answer \<Rightarrow> ((str + bytes) list \<Rightarrow> aic_error + 'a) \<Rightarrow> aic_error + 'a" where
  "on_success_status resp k = (case resp of Inl e \<Rightarrow> Inl (ChatApiError 0 e)
     | Inr (status, chunks) \<Rightarrow> if 200 \<le> status \<and> status \<le> 299 then k chunks else Inl (ChatApiError status (''HTTP '' @ dec status)))"

definition stream_new :: stream_state where
  "stream_new = \<lparr>sst_shown = [], sst_text = []\<rparr>"

definition stream_openai_compat :: "(bytes \<Rightarrow> json option) \<Rightarrow> http_answer \<Rightarrow> aic_error + str" where
  "stream_openai_compat parse resp = on_success_status resp (\<lambda>chunks. plain_result (accumulate (openai_plain parse) stream_new [] chunks))"

definition stream_anthropic :: "(bytes \<Rightarrow> json option) \<Rightarrow> http_answer \<Rightarrow> aic_error + str" where
  "stream_anthropic parse resp = on_success_status resp (\<lambda>chunks. plain_result (accumulate (anthropic_plain parse) stream_new [] chunks))"

definition openai_new :: openai_state where
  "openai_new = \<lparr>sst_shown = [], sst_text = [], oas_tools = []\<rparr>"

definition anthropic_new :: anthropic_state where
  "anthropic_new = \<lparr>sst_shown = [], sst_text = [], ans_tools = []\<rparr>"

definition accumulate_openai_stream :: "(bytes \<Rightarrow> json option) \<Rightarrow> (str + bytes) list \<Rightarrow> aic_error + chat_response" where
  "accumulate_openai_stream parse chunks = (case accumulate (openai_agent parse) openai_new [] chunks of
     Failed e \<Rightarrow> Inl e | Going s \<Rightarrow> Inr (finish_response (sst_text s) (oas_tools s)) | Finished s \<Rightarrow> Inr (finish_response (sst_text s) (oas_tools s)))"

definition accumulate_anthropic_stream :: "(bytes \<Rightarrow> json option) \<Rightarrow> (str + bytes) list \<Rightarrow> aic_error + chat_response" where
  "accumulate_anthropic_stream parse chunks = (case accumulate (anthropic_agent parse) anthropic_new [] chunks of
     Failed e \<Rightarrow> Inl e | Going s \<Rightarrow> Inr (finish_response (sst_text s) (map snd (ans_tools s)))
   | Finished s \<Rightarrow> Inr (finish_response (sst_text s) (map snd (ans_tools s))))"

section \<open>Chunks do not matter\<close>

lemma process_lines_append:
  "process_lines step s (ls @ ms) = (case process_lines step s ls of Going s' \<Rightarrow> process_lines step s' ms | r \<Rightarrow> r)"
  by (induction ls arbitrary: s) (auto split: option.splits outcome_of.splits)

lemma empty_line [simp]: "strip_data_prefix (trim_trailing_cr []) = None"
  by (simp add: strip_data_prefix_def trim_trailing_cr_def)

lemma split_on_at: "split_on d (a @ d # b) = split_on d a @ split_on d b"
  by (induction a) (auto split: list.splits)

lemma process_ends_line:
  "process_lines step s (split_on lf (a @ [lf] @ b)) =
     (case process_event step s (a @ [lf]) of Going s' \<Rightarrow> process_lines step s' (split_on lf b) | r \<Rightarrow> r)"
  by (auto simp: process_event_def split_on_at process_lines_append split: outcome_of.splits)

lemma boundary_at_line_end:
  assumes "find_event_boundary buf = Some (p, a)" and "\<not> sublist [cr, cr] buf"
  shows "\<exists>x. take (p + a) buf = x @ [lf]"
proof -
  have no: "find_sub [cr, cr] buf = None" using assms(2) by (simp add: find_sub_None)
  consider "find_sub [cr, lf, cr, lf] buf = Some p" "a = 4" | "find_sub [lf, lf] buf = Some p" "a = 2"
    using assms(1) no by (auto simp: find_event_boundary_def split: option.splits)
  then show ?thesis
  proof cases
    case 1
    then have "take 4 (drop p buf) = [cr, lf, cr, lf]" by (auto simp: find_sub_Some numeral_eq_Suc)
    then have "take (p + 4) buf = take p buf @ [cr, lf, cr, lf]" by (simp add: take_add)
    then show ?thesis using 1 by (intro exI [of _ "take p buf @ [cr, lf, cr]"]) simp
  next
    case 2
    then have "take 2 (drop p buf) = [lf, lf]" by (auto simp: find_sub_Some numeral_eq_Suc)
    then have "take (p + 2) buf = take p buf @ [lf, lf]" by (simp only: take_add)
    then show ?thesis using 2 by (intro exI [of _ "take p buf @ [lf]"]) simp
  qed
qed

lemma drain_events_lines:
  "\<not> sublist [cr, cr] buf \<Longrightarrow> drain_events step s buf = (r, buf') \<Longrightarrow>
     process_lines step s (split_on lf (buf @ rest)) = (case r of Going s' \<Rightarrow> process_lines step s' (split_on lf (buf' @ rest)) | _ \<Rightarrow> r) \<and>
     (\<exists>x. buf = x @ buf')"
proof (induction step s buf arbitrary: r buf' rule: drain_events.induct)
  case (1 step s buf)
  show ?case
  proof (cases "find_event_boundary buf")
    case None
    then show ?thesis using "1.prems"(2) by (auto simp: drain_events.simps [of step s buf])
  next
    case (Some pa)
    obtain p a where pa: "pa = (p, a)" by (rule prod.exhaust)
    note fb = Some [unfolded pa]
    obtain x where x: "take (p + a) buf = x @ [lf]" using boundary_at_line_end [OF fb "1.prems"(1)] by blast
    have buf: "buf = (x @ [lf]) @ drop (p + a) buf" by (metis x append_take_drop_id)
    let ?d = "drop (p + a) buf"
    have ls: "process_lines step s (split_on lf (buf @ rest)) =
        (case process_event step s (x @ [lf]) of Going s' \<Rightarrow> process_lines step s' (split_on lf (?d @ rest)) | r \<Rightarrow> r)"
      using process_ends_line [of step s x "?d @ rest"] buf by (metis append.assoc)
    have ex: "\<exists>x. buf = x @ ?d" using buf by blast
    have nod: "\<not> sublist [cr, cr] ?d" using "1.prems"(1) by (metis append_take_drop_id sublist_append)
    show ?thesis
    proof (cases "process_event step s (x @ [lf])")
      case (Going s')
      then have "drain_events step s' ?d = (r, buf')" using "1.prems"(2) fb x by (simp add: drain_events.simps [of step s buf])
      from "1.IH" [OF fb refl _ nod this] Going x ls buf show ?thesis by (metis append.assoc outcome_of.simps(10))
    next
      case (Finished s')
      then have "r = Finished s'" "buf' = ?d" using "1.prems"(2) fb x by (simp_all add: drain_events.simps [of step s buf])
      then show ?thesis using ls Finished ex by simp
    next
      case (Failed e)
      then have "r = Failed e" "buf' = ?d" using "1.prems"(2) fb x by (simp_all add: drain_events.simps [of step s buf])
      then show ?thesis using ls Failed ex by simp
    qed
  qed
qed

lemma accumulate_lines:
  "\<not> sublist [cr, cr] (buf @ concat chunks) \<Longrightarrow>
     accumulate step s buf (map Inr chunks) = process_lines step s (split_on lf (buf @ concat chunks))"
proof (induction chunks arbitrary: s buf)
  case Nil
  then show ?case by (simp add: process_event_def)
next
  case (Cons c cs)
  obtain r buf' where d: "drain_events step s (buf @ c) = (r, buf')" by (rule prod.exhaust)
  have all: "buf @ concat (c # cs) = (buf @ c) @ concat cs" by simp
  have no: "\<not> sublist [cr, cr] (buf @ c)" using Cons.prems unfolding all by (auto simp: sublist_append)
  obtain x where x: "buf @ c = x @ buf'" using drain_events_lines [OF no d] by blast
  have no': "\<not> sublist [cr, cr] (buf' @ concat cs)" 
    using Cons.prems unfolding all x append.assoc by (auto simp: sublist_append)
  show ?case
    using drain_events_lines [OF no d, of "concat cs"] d Cons.IH [OF no'] by (auto split: outcome_of.splits)
qed

lemma accumulate_one: "\<not> sublist [cr, cr] body \<Longrightarrow> accumulate step s [] [Inr body] = process_lines step s (split_on lf body)"
  using accumulate_lines [of "[]" "[body]"] by (simp del: accumulate.simps)

text \<open>
  C22 (equivalence). However the network cuts an answer into chunks, in the middle of a line, of a boundary or of a
  character, all four readers give what they would give for the lines of the whole answer read one after the other;
  where an answer uses a bare carriage return as its line end the result may depend on the cut.
\<close>

theorem streams_independent_of_chunks:
  assumes "concat chunks = body" and "\<not> sublist [cr, cr] body"
  shows "stream_openai_compat parse (Inr (200, map Inr chunks)) = plain_result (process_lines (openai_plain parse) stream_new (split_on lf body)) \<and>
    stream_anthropic parse (Inr (200, map Inr chunks)) = plain_result (process_lines (anthropic_plain parse) stream_new (split_on lf body)) \<and>
    accumulate_openai_stream parse (map Inr chunks) = accumulate_openai_stream parse [Inr body] \<and>
    accumulate_anthropic_stream parse (map Inr chunks) = accumulate_anthropic_stream parse [Inr body]"
  using assms accumulate_lines [of "[]" chunks, simplified] accumulate_one [of body]
  by (simp add: stream_openai_compat_def stream_anthropic_def on_success_status_def accumulate_openai_stream_def accumulate_anthropic_stream_def
    accumulate_lines accumulate_one del: accumulate.simps)

theorem streams_independent_of_chunks_witness:
  "accumulate_openai_stream (\<lambda>_. None) [Inr ''data: x'', Inr [lf]] = accumulate_openai_stream (\<lambda>_. None) [Inr (''data: x'' @ [lf])]"
  using streams_independent_of_chunks [of "[''data: x'', [lf]]" "''data: x'' @ [lf]" "\<lambda>_. None"] by (simp add: cr_def lf_def sublist_Cons_right)

text \<open>
  Further property (error). The boundary of two carriage returns, which the code names as supported, is found, but such an event is not
  read as its lines: the end marker keeps a carriage return and is not recognised, so what follows it is still taken.
\<close>

theorem bare_cr_end_ignored:
  "find_event_boundary (''data: [DONE]'' @ [lf, lf]) = Some (12, 2) \<and> process_event (openai_plain parse) s (''data: [DONE]'' @ [lf, lf]) = Finished s \<and>
   find_event_boundary (''data: [DONE]'' @ [cr, cr]) = Some (12, 2) \<and> (\<forall>s'. process_event (openai_plain parse) s (''data: [DONE]'' @ [cr, cr]) \<noteq> Finished s')"
proof -
  have cr: "split_on lf (''data: [DONE]'' @ [cr, cr]) = [''data: [DONE]'' @ [cr, cr]]" by (rule split_on_absent) (simp add: lf_def cr_def)
  have lf: "split_on lf (''data: [DONE]'' @ [lf, lf]) = [''data: [DONE]'', [], []]" by (simp add: lf_def)
  have "process_event (openai_plain parse) s (''data: [DONE]'' @ [lf, lf]) = Finished s"
    unfolding process_event_def lf by (simp add: trim_trailing_cr_def strip_data_prefix_def openai_plain_def cr_def)
  moreover have "process_event (openai_plain parse) s (''data: [DONE]'' @ [cr, cr]) \<noteq> Finished s'" for s'
    unfolding process_event_def cr
    by (simp add: trim_trailing_cr_def strip_data_prefix_def openai_plain_def cr_def split: option.splits outcome_of.splits)
  ultimately show ?thesis by (simp add: find_event_boundary_def cr_def lf_def)
qed

section \<open>What is shown is what is returned\<close>

definition shown_ok :: "'a stream_state_scheme \<Rightarrow> bool" where
  "shown_ok s \<longleftrightarrow> concat (sst_shown s) = sst_text s"

lemma show_ok [simp]: "shown_ok s \<Longrightarrow> shown_ok (show_text t s)" "shown_ok s \<Longrightarrow> shown_ok (show_nonempty x s)"
  by (auto simp: shown_ok_def show_text_def show_nonempty_def split: option.split)

fun outcome_ok :: "'a stream_state_scheme outcome_of \<Rightarrow> bool" where
  "outcome_ok (Going s) = shown_ok s"
| "outcome_ok (Finished s) = shown_ok s"
| "outcome_ok (Failed e) = True"

text \<open>The contract of a reader's line: whatever it makes of the line, it shows all text it keeps, and in order.\<close>

locale showing_reader =
  fixes step :: "'a stream_state_scheme \<Rightarrow> bytes \<Rightarrow> 'a stream_state_scheme outcome_of"
  assumes keeps: "shown_ok s \<Longrightarrow> outcome_ok (step s data)"
begin

lemma lines_keep: "shown_ok s \<Longrightarrow> outcome_ok (process_lines step s ls)"
proof (induction ls arbitrary: s)
  case (Cons l ls)
  have "outcome_ok (case step s data of Going s' \<Rightarrow> process_lines step s' ls | r \<Rightarrow> r)" for data
    using Cons.IH keeps [OF Cons.prems, of data] by (cases "step s data") simp_all
  then show ?case using Cons by (simp split: option.split)
qed simp

lemma drain_keep: "shown_ok s \<Longrightarrow> outcome_ok (fst (drain_events step s buf))"
proof (induction "length buf" arbitrary: s buf rule: less_induct)
  case less
  show ?case
  proof (cases "find_event_boundary buf")
    case None
    then show ?thesis using less.prems by (simp add: drain_events.simps [of step s buf])
  next
    case (Some pa)
    obtain p a where pa: "pa = (p, a)" by (rule prod.exhaust)
    have short: "length (drop (p + a) buf) < length buf" using boundary_advances [OF Some [unfolded pa]] by auto
    have "outcome_ok (process_event step s (take (p + a) buf))" unfolding process_event_def by (rule lines_keep [OF less.prems])
    then show ?thesis using less.hyps [OF short] Some pa
      by (cases "process_event step s (take (p + a) buf)") (simp_all add: drain_events.simps [of step s buf])
  qed
qed

lemma accumulate_keep: "shown_ok s \<Longrightarrow> outcome_ok (accumulate step s buf chunks)"
proof (induction chunks arbitrary: s buf)
  case Nil
  then show ?case using lines_keep by (simp add: process_event_def)
next
  case (Cons c cs)
  show ?case
  proof (cases c)
    case (Inr chunk)
    obtain r buf' where d: "drain_events step s (buf @ chunk) = (r, buf')" by (rule prod.exhaust)
    then have "outcome_ok r" using drain_keep [OF Cons.prems, of "buf @ chunk"] by simp
    then show ?thesis using Inr d Cons.IH by (cases r) simp_all
  qed simp
qed

end

interpretation openai_text: showing_reader "openai_plain parse" for parse
  by unfold_locales (auto simp: openai_plain_def split: option.splits)

interpretation anthropic_text: showing_reader "anthropic_plain parse" for parse
  by unfold_locales (auto simp: anthropic_plain_def Let_def split: option.splits)

interpretation openai_tools: showing_reader "openai_agent parse" for parse
proof
  fix s :: openai_state and data
  assume ok: "shown_ok s"
  have tools: "shown_ok (s1\<lparr>oas_tools := t\<rparr>) = shown_ok s1" for s1 t by (simp add: shown_ok_def)
  show "outcome_ok (openai_agent parse s data)" using ok by (auto simp: openai_agent_def Let_def tools split: option.split)
qed

interpretation anthropic_tools: showing_reader "anthropic_agent parse" for parse
proof
  fix s :: anthropic_state and data
  assume ok: "shown_ok s"
  have "shown_ok (s\<lparr>ans_tools := t\<rparr>)" for t using ok by (simp add: shown_ok_def)
  then show "outcome_ok (anthropic_agent parse s data)" using ok by (simp add: anthropic_agent_def Let_def split: option.split)
qed

text \<open>
  Further property (invariant). The text the user saw piece by piece is the text that becomes the answer, in all four readers, however the
  stream is cut and whether it ends by its end marker or by the end of the connection.
\<close>

theorem shown_text_is_answer:
  "outcome_ok (accumulate (openai_plain parse) stream_new [] chunks) \<and> outcome_ok (accumulate (anthropic_plain parse) stream_new [] chunks) \<and>
   outcome_ok (accumulate (openai_agent parse) openai_new [] chunks) \<and> outcome_ok (accumulate (anthropic_agent parse) anthropic_new [] chunks)"
  by (intro conjI openai_text.accumulate_keep anthropic_text.accumulate_keep openai_tools.accumulate_keep anthropic_tools.accumulate_keep)
    (simp_all add: shown_ok_def stream_new_def openai_new_def anthropic_new_def)

end
