(* ===== verification/File_Tree.thy ===== *)
theory File_Tree
  imports Sandbox
begin

text \<open>
  Where a write of the agent ends up. A file system as a tree of files, directories and symbolic links, with the lookup of a
  path that the system calls and \<open>canonicalize\<close> share, as POSIX describes it: links are followed, also the last
  component, a lookup fails below a file, in a directory that may not be searched, and after too many links. Opening for writing
  creates the file that the last component, or the link there, names.
\<close>

section \<open>Lookup\<close>

datatype fs_node = PlainFile | Directory bool | SymLink path

type_synonym fs_tree = "path \<Rightarrow> fs_node option"

text \<open>Reached: the canonical path. Absent: all but the last component exists, and this is where it would be created.\<close>

datatype looked_up = Reached path | Absent path | Unresolved

function walk :: "nat \<Rightarrow> fs_tree \<Rightarrow> path \<Rightarrow> path \<Rightarrow> looked_up" where
  "walk links t cur [] = Reached cur"
| "walk links t cur (RootDir # rest) = walk links t [RootDir] rest"
| "walk links t cur (CurDir # rest) = walk links t cur rest"
| "walk links t cur (ParentDir # rest) = walk links t (if cur = [RootDir] then cur else butlast cur) rest"
| "walk links t cur (Normal n # rest) =
     (case t (cur @ [Normal n]) of
        None \<Rightarrow> if rest = [] then Absent (cur @ [Normal n]) else Unresolved
      | Some PlainFile \<Rightarrow> if rest = [] then Reached (cur @ [Normal n]) else Unresolved
      | Some (Directory search) \<Rightarrow>
          if rest = [] then Reached (cur @ [Normal n]) else if search then walk links t (cur @ [Normal n]) rest else Unresolved
      | Some (SymLink dest) \<Rightarrow> if links = 0 then Unresolved else walk (links - 1) t cur (dest @ rest))"
  by pat_completeness auto
termination
  by (relation "measures [\<lambda>(links, t, cur, p). links, \<lambda>(links, t, cur, p). length p]") auto

definition canonicalize :: "nat \<Rightarrow> fs_tree \<Rightarrow> canon" where
  "canonicalize links t p = (case walk links t [RootDir] p of Reached c \<Rightarrow> Some c | _ \<Rightarrow> None)"

text \<open>Which file \<open>std::fs::write\<close> creates or overwrites.\<close>

definition lands :: "nat \<Rightarrow> fs_tree \<Rightarrow> path \<Rightarrow> path option" where
  "lands links t p = (case walk links t [RootDir] p of
     Reached c \<Rightarrow> if t c = Some PlainFile then Some c else None
   | Absent c \<Rightarrow> Some c
   | Unresolved \<Rightarrow> None)"

text \<open>A tree: what exists is in a directory.\<close>

definition is_dir :: "fs_tree \<Rightarrow> path \<Rightarrow> bool" where
  "is_dir t p \<longleftrightarrow> p = [RootDir] \<or> (\<exists>s. t p = Some (Directory s))"

definition tree_ok :: "fs_tree \<Rightarrow> bool" where
  "tree_ok t \<longleftrightarrow> (\<forall>p n. t (p @ [Normal n]) \<noteq> None \<longrightarrow> is_dir t p)"

text \<open>\<open>create_dir_all\<close> of the parent of a new file: the directories among the names below \<open>base\<close> that are missing.\<close>

definition with_dirs :: "fs_tree \<Rightarrow> path \<Rightarrow> str list \<Rightarrow> fs_tree" where
  "with_dirs t base names = (\<lambda>p. if t p = None \<and> (\<exists>k. 0 < k \<and> k < length names \<and> p = base @ map Normal (take k names))
     then Some (Directory True) else t p)"

section \<open>Canonical paths\<close>

text \<open>A directory whose path goes through searchable directories only, and such a path to anything but a link.\<close>

inductive straight_dir :: "fs_tree \<Rightarrow> path \<Rightarrow> bool" for t where
  root: "straight_dir t [RootDir]"
| below: "straight_dir t d \<Longrightarrow> t (d @ [Normal n]) = Some (Directory True) \<Longrightarrow> straight_dir t (d @ [Normal n])"

inductive_cases straight_dirE: "straight_dir t p"

definition straight :: "fs_tree \<Rightarrow> path \<Rightarrow> bool" where
  "straight t p \<longleftrightarrow> straight_dir t p \<or>
     (\<exists>d n. p = d @ [Normal n] \<and> straight_dir t d \<and> (t p = Some PlainFile \<or> t p = Some (Directory False)))"

lemma straight_dir_plain: "straight_dir t p \<Longrightarrow> plain_absolute p"
proof (induction rule: straight_dir.induct)
  case root
  then show ?case by (auto simp: plain_absolute_def)
next
  case (below d n)
  then obtain ns where "d = RootDir # map Normal ns" by (auto simp: plain_absolute_def)
  then show ?case by (auto simp: plain_absolute_def intro: exI [of _ "ns @ [n]"])
qed

lemma straight_dir_up: "straight_dir t p \<Longrightarrow> straight_dir t (if p = [RootDir] then p else butlast p)"
  by (auto elim: straight_dir.cases intro: straight_dir.root)

lemma walk_reaches_straight: "walk links t cur p = Reached c \<Longrightarrow> straight_dir t cur \<Longrightarrow> straight t c"
proof (induction links t cur p rule: walk.induct)
  case (4 links t cur rest)
  then show ?case using straight_dir_up [of t cur] by simp
next
  case (5 links t cur n rest)
  then show ?case
    by (auto simp: straight_def intro: straight_dir.root straight_dir.below split: option.splits fs_node.splits if_splits)
qed (auto simp: straight_def intro: straight_dir.root)

lemma walk_down: "straight_dir t d \<Longrightarrow> rest \<noteq> [] \<Longrightarrow> walk links t [RootDir] (d @ rest) = walk links t d rest"
proof (induction arbitrary: rest rule: straight_dir.induct)
  case (below d n)
  then show ?case using below.IH [of "Normal n # rest"] by simp
qed simp

lemma walk_straight_dir: "straight_dir t d \<Longrightarrow> walk links t [RootDir] d = Reached d"
proof (induction rule: straight_dir.induct)
  case (below d n)
  then show ?case using walk_down [of t d "[Normal n]" links] by simp
qed simp

text \<open>After a lookup has come to a searchable directory it goes on from there, with the links that are left.\<close>

lemma walk_append:
  "walk links t cur p = Reached b \<Longrightarrow> straight_dir t cur \<Longrightarrow> straight_dir t b \<Longrightarrow> \<exists>k\<le>links. walk links t cur (p @ q) = walk k t b q"
proof (induction links t cur p rule: walk.induct)
  case (4 links t cur rest)
  then show ?case using straight_dir_up [of t cur] by simp
next
  case (5 links t cur n rest)
  have dir: "straight_dir t (cur @ [Normal n])" if "t (cur @ [Normal n]) = Some (Directory True)"
    using 5(4) that by (rule straight_dir.below)
  have plain: "t b = Some (Directory True) \<or> b = [RootDir]" using 5(5) by (auto elim: straight_dir.cases)
  show ?case
  proof (cases "t (cur @ [Normal n])")
    case None
    then show ?thesis using 5(3) by (auto split: if_splits)
  next
    case (Some node)
    show ?thesis
    proof (cases node)
      case PlainFile
      then show ?thesis using Some 5(3) plain by (auto split: if_splits)
    next
      case (Directory search)
      show ?thesis
      proof (cases "rest = []")
        case True
        then have "b = cur @ [Normal n]" using Some Directory 5(3) by simp
        then have s: "search" using plain Some Directory by auto
        show ?thesis using True Some Directory s \<open>b = _\<close> by (cases q) auto
      next
        case False
        then show ?thesis using Some Directory 5 dir by (auto split: if_splits)
      qed
    next
      case (SymLink dest)
      then have l: "links \<noteq> 0" "walk (links - 1) t cur (dest @ rest) = Reached b" using Some 5(3) by (auto split: if_splits)
      then obtain k where "k \<le> links - 1" "walk (links - 1) t cur ((dest @ rest) @ q) = walk k t b q"
        using 5(2) [OF Some SymLink l(1) l(2) 5(4,5)] by blast
      then show ?thesis using Some SymLink l(1) by (intro exI [of _ k]) auto
    qed
  qed
qed (auto intro: straight_dir.root)

section \<open>Containment\<close>

text \<open>The first name below the nearest ancestor: it does not exist, or it is a link.\<close>

lemma first_missing:
  assumes "canonicalize links t up = Some base" "straight_dir t base" "canonicalize links t (up @ [Normal n]) = None"
  shows "t (base @ [Normal n]) = None \<or> (\<exists>dest. t (base @ [Normal n]) = Some (SymLink dest))"
proof -
  have "walk links t [RootDir] up = Reached base" using assms(1) by (simp add: canonicalize_def split: looked_up.splits)
  then obtain k where "walk links t [RootDir] (up @ [Normal n]) = walk k t base [Normal n]"
    using walk_append [OF _ straight_dir.root assms(2)] by blast
  then show ?thesis using assms(3) by (auto simp: canonicalize_def split: option.splits fs_node.splits)
qed

lemma absent_below:
  assumes "tree_ok t" "t (p @ [Normal n]) = None"
  shows "t (p @ map Normal (n # ns)) = None"
proof (induction ns rule: rev_induct)
  case (snoc m ns)
  have "\<not> is_dir t (p @ map Normal (n # ns))" using snoc by (cases p) (simp_all add: is_dir_def)
  then have "t ((p @ map Normal (n # ns)) @ [Normal m]) = None" using assms(1) unfolding tree_ok_def by blast
  then show ?case by simp
qed (use assms in simp)

lemma lands_with_dirs:
  assumes "tree_ok t" "straight_dir t base" "t (base @ [Normal n]) = None"
  shows "lands links (with_dirs t base (n # ns)) (base @ map Normal (n # ns)) = Some (base @ map Normal (n # ns))"
proof -
  let ?t = "with_dirs t base (n # ns)"
  have keep: "straight_dir ?t d" if "straight_dir t d" for d
    using that by (induction rule: straight_dir.induct) (auto simp: with_dirs_def intro: straight_dir.intros)
  have none: "t (base @ map Normal (n # xs)) = None" for xs by (rule absent_below [OF assms(1,3)])
  have made: "straight_dir ?t (base @ map Normal (take k (n # ns)))" if "k < length (n # ns)" for k
    using that
  proof (induction k)
    case (Suc k)
    have e: "base @ map Normal (take (Suc k) (n # ns)) = (base @ map Normal (take k (n # ns))) @ [Normal ((n # ns) ! k)]"
      using Suc.prems by (simp add: take_Suc_conv_app_nth del: take_Suc_Cons)
    have "?t (base @ map Normal (take (Suc k) (n # ns))) = Some (Directory True)"
      using Suc.prems none [of "take k ns"] by (auto simp: with_dirs_def)
    then show ?case using Suc unfolding e by (intro straight_dir.below) auto
  qed (simp add: keep [OF assms(2)])
  define m where "m = length ns"
  have "n # ns = take m (n # ns) @ [(n # ns) ! m]" using take_Suc_conv_app_nth [of m "n # ns"] by (simp add: m_def)
  from arg_cong [OF this, of "\<lambda>x. base @ map Normal x"]
  have split: "base @ map Normal (n # ns) = (base @ map Normal (take m (n # ns))) @ [Normal ((n # ns) ! m)]"
    by (simp only: map_append append.assoc list.map)
  have "base @ map Normal (n # ns) \<noteq> base @ map Normal (take k (n # ns))" if "k < length (n # ns)" for k
  proof
    assume "base @ map Normal (n # ns) = base @ map Normal (take k (n # ns))"
    from arg_cong [OF this, of length] show False using that by simp
  qed
  then have "?t (base @ map Normal (n # ns)) = None" using none [of ns] by (auto simp: with_dirs_def)
  then have "walk links ?t [RootDir] (base @ map Normal (n # ns)) = Absent (base @ map Normal (n # ns))"
    unfolding split using walk_down [OF made [of m], of "[Normal ((n # ns) ! m)]" links] by (simp add: m_def)
  then show ?thesis by (simp add: lands_def)
qed

lemma straight_cases:
  assumes "straight t p" "\<not> straight_dir t p"
  obtains d n where "p = d @ [Normal n]" "straight_dir t d" "t p = Some PlainFile \<or> t p = Some (Directory False)"
  using assms by (auto simp: straight_def)

lemma walk_straight: "straight t p \<Longrightarrow> walk links t [RootDir] p = Reached p"
proof (cases "straight_dir t p")
  case False
  assume "straight t p"
  then obtain d n where p: "p = d @ [Normal n]" "straight_dir t d" "t p = Some PlainFile \<or> t p = Some (Directory False)"
    using False by (rule straight_cases)
  then show ?thesis using walk_down [OF p(2), of "[Normal n]" links] by auto
qed (rule walk_straight_dir)

lemma straight_plain: "straight t p \<Longrightarrow> plain_absolute (p @ map Normal names)"
proof -
  assume "straight t p"
  then obtain d xs where d: "straight_dir t d" "p = d @ map Normal xs"
    by (auto simp: straight_def intro: that [of _ "[]"] that [of _ "[x]" for x])
  then obtain ns where "d = RootDir # map Normal ns" using straight_dir_plain by (auto simp: plain_absolute_def)
  then show ?thesis by (auto simp: d(2) plain_absolute_def intro: exI [of _ "ns @ xs @ names"])
qed

text \<open>Below a file, or a directory that may not be searched, a write fails.\<close>

lemma blocked_below:
  assumes "straight t base" "\<not> straight_dir t base"
  shows "lands links (with_dirs t base (n # ns)) (base @ map Normal (n # ns)) = None"
proof -
  let ?t = "with_dirs t base (n # ns)"
  obtain d m where b: "base = d @ [Normal m]" "straight_dir t d" "t base = Some PlainFile \<or> t base = Some (Directory False)"
    using assms by (rule straight_cases)
  have keep: "straight_dir ?t d'" if "straight_dir t d'" for d'
    using that by (induction rule: straight_dir.induct) (auto simp: with_dirs_def intro: straight_dir.intros)
  have "?t base = t base" using b(3) by (auto simp: with_dirs_def)
  then have "walk links ?t [RootDir] (base @ map Normal (n # ns)) = Unresolved"
    using walk_down [OF keep [OF b(2)], of "Normal m # map Normal (n # ns)" links] b by auto
  then show ?thesis by (simp add: lands_def)
qed


section \<open>Links that lead nowhere\<close>

text \<open>A name that is one component of a path.\<close>

definition plain_name :: "str \<Rightarrow> bool" where
  "plain_name s \<longleftrightarrow> s \<noteq> [] \<and> s \<noteq> ''.'' \<and> s \<noteq> ''..'' \<and> CHR ''/'' \<notin> set s \<and> CHR 0x00 \<notin> set s"

lemma path_new_name: "plain_name s \<Longrightarrow> path_new s = [Normal s]"
  by (cases s) (auto simp: plain_name_def path_new_def segment_component_def split_on_absent Let_def)

text \<open>
  Further property (error). The exception of \<open>write_target_contained\<close> is real: the sandbox does not stop a write through a link that leads
  nowhere yet. Whenever the root holds a link to an absolute path that does not exist, in a directory
  that does, wherever that is, a write to the link's name is admitted as a path inside the root, and creates the file the link names.
\<close>

theorem dangling_link_escapes:
  assumes "straight_dir t (sb_root sb)" and "plain_name s" and "t (sb_root sb @ [Normal s]) = Some (SymLink (RootDir # dest))"
    and "walk links t [RootDir] dest = Absent q"
  shows "resolve_for_write (canonicalize (Suc links) t) sb s = Inr (sb_root sb @ [Normal s]) \<and>
    lands (Suc links) t (sb_root sb @ [Normal s]) = Some q"
proof -
  let ?root = "sb_root sb" and ?canon = "canonicalize (Suc links) t"
  obtain ns where ns: "?root = RootDir # map Normal ns" using straight_dir_plain [OF assms(1)] by (auto simp: plain_absolute_def)
  have w: "walk (Suc links) t [RootDir] (?root @ [Normal s]) = Absent q"
    using walk_down [OF assms(1), of "[Normal s]" "Suc links"] assms(3,4) by simp
  have c: "?canon (?root @ [Normal s]) = None" "?canon ?root = Some ?root"
    using w walk_straight_dir [OF assms(1)] by (simp_all add: canonicalize_def)
  have j: "path_join ?root (path_new s) = ?root @ [Normal s]" by (simp add: path_new_name [OF assms(2)] path_join_def ns)
  have "nearest_ancestor ?canon s (?root @ [Normal s]) [] = Inr (?root, [s])"
    using c by (simp add: nearest_ancestor.simps [of _ _ "?root @ [Normal s]"] nearest_ancestor.simps [of _ _ ?root] path_file_name_def path_parent_def)
  moreover have "ParentDir \<notin> set (?root @ [Normal s])" by (auto simp: ns)
  ultimately have "resolve_for_write ?canon sb s = Inr (?root @ [Normal s])"
    using assms(2) by (simp add: resolve_for_write_def j plain_name_def path_starts_with_def path_file_name_def Let_def)
  then show ?thesis using w by (simp add: lands_def)
qed

definition demo_tree :: fs_tree where
  "demo_tree = [[RootDir, Normal ''w''] \<mapsto> Directory True, [RootDir, Normal ''e''] \<mapsto> Directory True,
     [RootDir, Normal ''w'', Normal ''l''] \<mapsto> SymLink [RootDir, Normal ''e'', Normal ''x'']]"

lemma demo_tree_ok: "tree_ok demo_tree"
  unfolding tree_ok_def
proof (intro allI impI)
  fix p n
  assume "demo_tree (p @ [Normal n]) \<noteq> None"
  then have "p @ [Normal n] \<in> {[RootDir] @ [Normal ''w''], [RootDir] @ [Normal ''e''], [RootDir, Normal ''w''] @ [Normal ''l'']}"
    by (auto simp: demo_tree_def split: if_splits)
  then have "p = [RootDir] \<or> p = [RootDir, Normal ''w'']" by (simp only: append1_eq_conv insert_iff empty_iff) blast
  then show "is_dir demo_tree p" by (auto simp: is_dir_def demo_tree_def)
qed

lemma demo_root: "straight_dir demo_tree (sb_root dir_sandbox)"
  using straight_dir.below [OF straight_dir.root, of demo_tree "''w''"] by (simp add: dir_sandbox_def demo_tree_def)


theorem dangling_link_escapes_witness:
  "resolve_for_write (canonicalize 40 demo_tree) dir_sandbox ''l'' = Inr [RootDir, Normal ''w'', Normal ''l''] \<and>
   lands 40 demo_tree [RootDir, Normal ''w'', Normal ''l''] = Some [RootDir, Normal ''e'', Normal ''x'']"
  using dangling_link_escapes [OF demo_root, of "''l''" "[Normal ''e'', Normal ''x'']" 39 "[RootDir, Normal ''e'', Normal ''x'']"]
  by (simp add: plain_name_def dir_sandbox_def demo_tree_def)

end
