(* ===== verification/Metrics_Wire.thy ===== *)
theory Metrics_Wire
  imports Metrics_Proto "HOL-Library.Countable"
begin

text \<open>
  What a collector reads in the metric messages of the exporter. The reader of this theory knows nothing of the
  encoders: it flattens a decoded message into rows, one for each data point, and lists the texts of the
  resource. The messages can be encoded without loss, which the last section shows by numbering them.
\<close>

section \<open>The collector's reading\<close>

record metric_row =
  row_name :: str
  row_unit :: str
  row_time :: u64
  row_value :: "number_value option"
  row_attributes :: "(str \<times> str) list"

definition text_pair :: "key_value \<Rightarrow> (str \<times> str) option" where
  "text_pair kv = (case kv_value kv of
     Some v \<Rightarrow> (case av_value v of Some (StringValue s) \<Rightarrow> Some (kv_key kv, s) | _ \<Rightarrow> None) | None \<Rightarrow> None)"

definition text_pairs :: "key_value list \<Rightarrow> (str \<times> str) list" where
  "text_pairs kvs = List.map_filter text_pair kvs"

definition point_row :: "metric \<Rightarrow> number_data_point \<Rightarrow> metric_row" where
  "point_row m dp = \<lparr>row_name = met_name m, row_unit = met_unit m, row_time = ndp_time_unix_nano dp,
     row_value = ndp_value dp, row_attributes = text_pairs (ndp_attributes dp)\<rparr>"

definition metric_rows :: "metric \<Rightarrow> metric_row list" where
  "metric_rows m = map (point_row m) (data_points_of m)"

definition rows_of :: "export_metrics_service_request \<Rightarrow> metric_row list" where
  "rows_of rq = concat (map (\<lambda>rm. concat (map (\<lambda>sm. concat (map metric_rows (scm_metrics sm))) (rem_scope_metrics rm)))
     (mrq_resource_metrics rq))"

definition resource_texts :: "export_metrics_service_request \<Rightarrow> (str \<times> str) list list" where
  "resource_texts rq = map (\<lambda>rm. case rem_resource rm of Some re \<Rightarrow> text_pairs (re_attributes re) | None \<Rightarrow> []) (mrq_resource_metrics rq)"

lemma text_pairs_attr [simp]:
  "text_pairs [] = []"
  "text_pairs (attr lib k v # kvs) = (redact_str lib k, redact_str lib v) # text_pairs kvs"
  by (simp_all add: text_pairs_def text_pair_def attr_def)

lemma text_pairs_attrs [simp]:
  "text_pairs (map (\<lambda>(k, v). attr lib k v) ps) = map (\<lambda>(k, v). (redact_str lib k, redact_str lib v)) ps"
  by (induction ps) auto

section \<open>What should be read\<close>

definition masked_pairs :: "metrics_lib \<Rightarrow> (str \<times> str) list \<Rightarrow> (str \<times> str) list" where
  "masked_pairs lib = map (\<lambda>(k, v). (redact_str lib k, redact_str lib v))"

text \<open>The host as the resource describes it: five facts of the host, the program and its version.\<close>

definition host_facts :: "host_resource \<Rightarrow> str \<Rightarrow> (str \<times> str) list" where
  "host_facts res ver = [(''host.name'', hre_host_name res), (''host.id'', hre_host_id res), (''os.type'', hre_os_type res),
     (''host.arch'', hre_arch res), (''os.description'', hre_os_desc res), (''service.name'', ''aicd''), (''service.version'', ver)]"

definition sample_row :: "metrics_lib \<Rightarrow> u64 \<Rightarrow> metric_point \<Rightarrow> metric_row" where
  "sample_row lib now p = \<lparr>row_name = redact_str lib (mpt_name p), row_unit = redact_str lib (mpt_unit p), row_time = now,
     row_value = Some (number_of (mpt_value p)), row_attributes = []\<rparr>"

text \<open>A counter of lost lines is read as the signed number of the same bits.\<close>

definition loss_row :: "metrics_lib \<Rightarrow> u64 \<Rightarrow> str \<times> u64 \<Rightarrow> metric_row" where
  "loss_row lib now loss = \<lparr>row_name = redact_str lib ''aic.log.dropped'', row_unit = redact_str lib ''1'', row_time = now,
     row_value = Some (AsInt (sint (snd loss))), row_attributes = masked_pairs lib [(''reason'', fst loss)]\<rparr>"

definition workload_row :: "metrics_lib \<Rightarrow> u64 \<Rightarrow> str \<Rightarrow> attributed_point \<Rightarrow> metric_row" where
  "workload_row lib now unt p = \<lparr>row_name = redact_str lib (atp_name p), row_unit = redact_str lib unt, row_time = now,
     row_value = Some (number_of (atp_value p)), row_attributes = masked_pairs lib (atp_attributes p)\<rparr>"

lemma as_i64_sint: "as_i64 n = sint n"
proof -
  have b: "uint n < 2 ^ 64" "0 \<le> uint n" using uint_lt2p [of n] by simp_all
  have "(uint n + 2 ^ 63) mod 2 ^ 64 = (if uint n < 2 ^ 63 then uint n + 2 ^ 63 else uint n - 2 ^ 63)"
  proof (cases "uint n < 2 ^ 63")
    case False
    have "(uint n - 2 ^ 63 + 2 ^ 64) mod 2 ^ 64 = (uint n - 2 ^ 63) mod (2 ^ 64 :: int)" by (rule mod_add_self2)
    also have "\<dots> = uint n - 2 ^ 63" using b False by (intro mod_pos_pos_trivial) simp_all
    finally show ?thesis using False by (simp add: add.commute)
  qed (use b in simp)
  then show ?thesis by (simp add: as_i64_def sint_uint signed_take_bit_eq_take_bit_shift take_bit_eq_mod)
qed

section \<open>Round trip\<close>

lemma sample_metric_rows:
  "concat (map metric_rows (map (\<lambda>p. \<lparr>met_name = redact_str lib (mpt_name p), met_description = [], met_unit = redact_str lib (mpt_unit p),
       met_data = Some (Gauge \<lparr>gau_data_points = [data_point now [] (number_of (mpt_value p))]\<rparr>)\<rparr>) ps)) = map (sample_row lib now) ps"
  by (induction ps) (simp_all add: metric_rows_def point_row_def data_point_def sample_row_def)

lemma loss_metric_rows:
  "concat (map metric_rows (case drops of None \<Rightarrow> []
     | Some counters \<Rightarrow> [\<lparr>met_name = redact_str lib ''aic.log.dropped'', met_description = [], met_unit = redact_str lib ''1'',
         met_data = Some (Gauge \<lparr>gau_data_points =
           map (\<lambda>(reason, n). data_point now [attr lib ''reason'' reason] (AsInt (as_i64 n))) (drop_snapshot counters)\<rparr>)\<rparr>])) =
   (case drops of Some counters \<Rightarrow> map (loss_row lib now) (drop_snapshot counters) | None \<Rightarrow> [])"
  by (auto simp: metric_rows_def point_row_def data_point_def loss_row_def masked_pairs_def as_i64_sint split: option.split)

lemma named_rows:
  "metric_rows (named lib now points name) = map (workload_row lib now (atp_unit (hd (filter (\<lambda>p. point_name lib p = name) points))))
     (filter (\<lambda>p. point_name lib p = name) points)"
  by (auto simp: metric_rows_def named_def Let_def point_row_def point_data_def data_point_def workload_row_def masked_pairs_def point_name_def)

lemma filter_grouped_rows:
  assumes "\<And>n r. r \<in> set (rows n) \<Longrightarrow> row_name r = n" and "distinct names" and "name \<notin> set names \<Longrightarrow> rows name = []"
  shows "filter (\<lambda>r. row_name r = name) (concat (map rows names)) = rows name"
proof -
  have own: "filter (\<lambda>r. row_name r = name) (rows n) = (if n = name then rows n else [])" for n
    using assms(1) by (auto simp: filter_empty_conv intro!: filter_True)
  have none: "name \<notin> set ns \<Longrightarrow> filter (\<lambda>r. row_name r = name) (concat (map rows ns)) = []" for ns
    by (induction ns) (auto simp: own)
  have "distinct ns \<Longrightarrow> name \<in> set ns \<Longrightarrow> filter (\<lambda>r. row_name r = name) (concat (map rows ns)) = rows name" for ns
    by (induction ns) (auto simp: own none)
  with none assms(2,3) show ?thesis by (cases "name \<in> set names") simp_all
qed

lemma metrics_request_read:
  assumes "\<And>rq. rd (mlb_encode lib rq) = Some rq"
  shows "\<exists>rq. rd (metrics_request lib (resource_attributes lib res ver) ver ms) = Some rq \<and>
    resource_texts rq = [masked_pairs lib (host_facts res ver)] \<and> rows_of rq = concat (map metric_rows ms)"
  unfolding metrics_request_def assms
  by (simp add: resource_texts_def rows_of_def resource_attributes_def masked_pairs_def host_facts_def)

lemma grouped_rows:
  "filter (\<lambda>r. row_name r = name) (concat (map metric_rows (grouped lib now points))) =
     map (workload_row lib now (atp_unit (hd (filter (\<lambda>p. point_name lib p = name) points)))) (filter (\<lambda>p. point_name lib p = name) points)"
proof -
  let ?names = "rev (remdups (rev (map (point_name lib) points)))"
  have "filter (\<lambda>r. row_name r = name) (concat (map (\<lambda>n. metric_rows (named lib now points n)) ?names)) = metric_rows (named lib now points name)"
    by (rule filter_grouped_rows) (auto simp: named_rows workload_row_def point_name_def filter_empty_conv image_iff)
  then show ?thesis by (simp add: grouped_named named_rows comp_def)
qed

text \<open>
  C21 (roundtrip). For any encoder of messages that a decoder inverts, a collector reads in a metrics message
  exactly what was sampled. In the message of a host sample: the seven facts of the host under their names, then a
  row for each sampled point in order, with its name, unit and value, the time of the message and no attribute,
  and, when the drop counters are given, a row for each of them with its reason and its count as a signed
  64-bit number. In a message of points with attributes: the same facts of the host, and for every name the rows
  of the points of that name in order, each with its value and all its attributes, and the unit of the first of
  them. Every text is the masked one.
\<close>

theorem metrics_read_back:
  assumes inverts: "\<forall>rq. rd (mlb_encode lib rq) = Some rq"
  shows "(\<exists>rq. rd (encode_metrics lib sample ver now drops) = Some rq \<and>
      resource_texts rq = [masked_pairs lib (host_facts (hsa_resource sample) ver)] \<and>
      rows_of rq = map (sample_row lib now) (hsa_points sample) @
        (case drops of Some counters \<Rightarrow> map (loss_row lib now) (drop_snapshot counters) | None \<Rightarrow> [])) \<and>
    (\<exists>rq. rd (encode_attributed_metrics lib res ver now points) = Some rq \<and>
      resource_texts rq = [masked_pairs lib (host_facts res ver)] \<and>
      (\<forall>name. filter (\<lambda>r. row_name r = name) (rows_of rq) =
        (let same = filter (\<lambda>p. redact_str lib (atp_name p) = name) points in map (workload_row lib now (atp_unit (hd same))) same)))"
proof
  note read = metrics_request_read [of rd lib, OF inverts [rule_format]]
  show "\<exists>rq. rd (encode_metrics lib sample ver now drops) = Some rq \<and>
      resource_texts rq = [masked_pairs lib (host_facts (hsa_resource sample) ver)] \<and>
      rows_of rq = map (sample_row lib now) (hsa_points sample) @
        (case drops of Some counters \<Rightarrow> map (loss_row lib now) (drop_snapshot counters) | None \<Rightarrow> [])"
    unfolding encode_metrics_def Let_def sample_metric_rows [symmetric] loss_metric_rows [symmetric] concat_append [symmetric]
      map_append [symmetric] by (rule read)
  show "\<exists>rq. rd (encode_attributed_metrics lib res ver now points) = Some rq \<and>
      resource_texts rq = [masked_pairs lib (host_facts res ver)] \<and>
      (\<forall>name. filter (\<lambda>r. row_name r = name) (rows_of rq) =
        (let same = filter (\<lambda>p. redact_str lib (atp_name p) = name) points in map (workload_row lib now (atp_unit (hd same))) same))"
    unfolding encode_attributed_metrics_def foldl_group
    using read [of res ver "grouped lib now points"] by (auto simp: grouped_rows point_name_def Let_def)
qed

section \<open>Messages can be numbered\<close>

instance any_value_oneof :: countable
  by countable_datatype

instance any_value_ext :: (countable) countable
  by (rule countable_classI [of "\<lambda>r. to_nat (av_value r, any_value.more r)"]) simp

instance key_value_ext :: (countable) countable
  by (rule countable_classI [of "\<lambda>r. to_nat (kv_key r, kv_value r, key_value.more r)"]) simp

instance instrumentation_scope_ext :: (countable) countable
  by (rule countable_classI [of "\<lambda>r. to_nat (is_name r, is_version r, is_attributes r, is_dropped_attributes_count r, instrumentation_scope.more r)"]) simp

instance resource_ext :: (countable) countable
  by (rule countable_classI [of "\<lambda>r. to_nat (re_attributes r, re_dropped_attributes_count r, resource.more r)"]) simp

instance number_value :: countable
  by countable_datatype

instance number_data_point_ext :: (countable) countable
  by (rule countable_classI [of "\<lambda>r. to_nat (ndp_attributes r, ndp_start_time_unix_nano r, ndp_time_unix_nano r, ndp_flags r,
      ndp_value r, number_data_point.more r)"]) simp

instance gauge_ext :: (countable) countable
  by (rule countable_classI [of "\<lambda>r. to_nat (gau_data_points r, gauge.more r)"]) simp

instance metric_data :: countable
  by countable_datatype

instance metric_ext :: (countable) countable
  by (rule countable_classI [of "\<lambda>r. to_nat (met_name r, met_description r, met_unit r, met_data r, metric.more r)"]) simp

instance scope_metrics_ext :: (countable) countable
  by (rule countable_classI [of "\<lambda>r. to_nat (scm_scope r, scm_metrics r, scm_schema_url r, scope_metrics.more r)"]) simp

instance resource_metrics_ext :: (countable) countable
  by (rule countable_classI [of "\<lambda>r. to_nat (rem_resource r, rem_scope_metrics r, rem_schema_url r, resource_metrics.more r)"]) simp

instance export_metrics_service_request_ext :: (countable) countable
  by (rule countable_classI [of "\<lambda>r. to_nat (mrq_resource_metrics r, export_metrics_service_request.more r)"]) simp

section \<open>Witness\<close>

text \<open>An encoder that writes the number of a message, and its decoder; the masking is that of the letter \<open>x\<close>.\<close>

definition numbering_lib :: metrics_lib where
  "numbering_lib = \<lparr>mlb_proto = \<lparr>pl_redact = filter (\<lambda>c. c \<noteq> CHR ''x''), pl_encode = (\<lambda>_. []), pl_decode = (\<lambda>_. None),
       pl_query_hash = (\<lambda>_ _ _ _. 0)\<rparr>,
     mlb_encode = (\<lambda>rq. replicate (to_nat rq) (CHR ''1'')), mlb_decode = (\<lambda>_. None)\<rparr>"

definition numbered :: "bytes \<Rightarrow> export_metrics_service_request option" where
  "numbered b = Some (from_nat (length b))"

definition idle_sample :: host_sample where
  "idle_sample = \<lparr>hsa_resource = \<lparr>hre_host_name = ''h'', hre_host_id = ''i'', hre_os_type = ''linux'', hre_arch = ''arm'', hre_os_desc = []\<rparr>,
     hsa_points = [\<lparr>mpt_name = ''system.uptime'', mpt_unit = ''s'', mpt_value = MInt 7\<rparr>],
     hsa_top_processes = [], hsa_process_inventory = []\<rparr>"

definition two_points :: "attributed_point list" where
  "two_points = [\<lparr>atp_name = ''up'', atp_unit = ''1'', atp_value = MInt 1, atp_attributes = [(''job'', ''axb'')]\<rparr>,
     \<lparr>atp_name = ''up'', atp_unit = ''s'', atp_value = MInt 0, atp_attributes = [(''job'', ''c'')]\<rparr>]"

theorem metrics_read_back_witness:
  "(\<exists>rq. numbered (encode_metrics numbering_lib idle_sample ''1'' 9 None) = Some rq \<and>
      map row_value (rows_of rq) = [Some (AsInt 7)]) \<and>
   (\<exists>rq. numbered (encode_attributed_metrics numbering_lib (hsa_resource idle_sample) ''1'' 9 two_points) = Some rq \<and>
      map row_attributes (filter (\<lambda>r. row_name r = ''up'') (rows_of rq)) = [[(''job'', ''ab'')], [(''job'', ''c'')]])"
proof -
  have "\<forall>rq. numbered (mlb_encode numbering_lib rq) = Some rq" by (simp add: numbered_def numbering_lib_def)
  from metrics_read_back [OF this, of idle_sample "''1''" 9 None "hsa_resource idle_sample" two_points]
  show ?thesis
    by (auto simp: idle_sample_def two_points_def sample_row_def workload_row_def masked_pairs_def redact_str_def numbering_lib_def Let_def)
qed

end
