(* ===== verification/Spec2Isabelle.thy ===== *)
theory Spec2Isabelle
  imports Attach_Server Control_Server Uds_Server Byte_Channel Ownership_Gate Perfdata_Format Jvm_Worker
    Semver Disk_Io Central_Flag Export_Backoff Log_Filter Run_Safety Fanout Audit_Log Llm_Dispatch
    Spool_Safety Tail_Safety Log_Pipeline Logs_Privacy Signal_Tasks Chat_Turn Streaming File_Tree Metrics_Wire
begin

text \<open>
  \<^bold>\<open>A verification library for aic.\<close>

  \<open>aic\<close> records what happens in a terminal and on a host, and lets a language model act on it. Its
  sources (under \<open>src/\<close>) are three Rust crates. \<open>aic-common\<close> holds the data and protocols the
  programs share. \<open>aic-server\<close> holds two daemons: a \<^emph>\<open>session daemon\<close> per terminal, which reads the
  terminal's bytes, and one \<^emph>\<open>supervisor\<close> (\<open>aicd\<close>), which keeps the sessions and the finished commands
  and exports what it observes with OTLP. \<open>aic-client\<close> is the command line and the agent that proposes
  and runs commands. The theories follow the data through these programs.

  \<^bold>\<open>How the program is read.\<close> A Rust function is a HOL function of the same name where that name is
  free. A \<open>&mut self\<close> method returns the new state. \<open>Result\<close> and \<open>?\<close> are sums; a function that may
  unwind has results \<open>Val\<close> or \<open>Panic\<close> (\<open>Rust_Prelude\<close>, \<open>Rust_Try\<close>), so that a slice at a bad index, an
  overflow of a checked operation or a failed reservation is a value a theorem can speak about. Text is
  the list of its UTF-8 bytes; slicing checks character boundaries, as \<open>str\<close> does (\<open>Rust_Str\<close>,
  \<open>Rust_Text\<close>, \<open>Rust_Words\<close>). Fixed-width integers are words where the code computes with them, so that
  wrapping and saturation are visible; where a number is only carried it is \<open>nat\<close> or \<open>int\<close>. A
  \<open>HashMap\<close> is an association list with distinct keys whose order is arbitrary (\<open>Hash_Map\<close>). Tasks that
  run at the same time are step relations whose steps are the code between two points at which another
  task can run.

  \<^bold>\<open>What is an argument.\<close> Code outside \<open>src/\<close> is never defined here. The regular expression engine,
  \<open>serde_json\<close>, \<open>prost\<close>, the escape stripper, HMAC and the random source are functions given to the
  definitions; the clock, the file system's answers, a process's outcome and an HTTP reply are part of an
  environment record. What a theorem needs of them is a hypothesis that states documented behaviour, and
  a witness shows a concrete function for which it holds.

  \<^bold>\<open>Recording commands.\<close>
  \<^item> \<open>Records\<close> (\<open>aic-common/src/lib.rs\<close>, \<open>session.rs\<close>): command and session records, identifiers and their
    validation; the locales \<open>bounded_log\<close> and \<open>tapped_log\<close>, the contract of every bounded store.
  \<^item> \<open>Ring_Buffer\<close> (\<open>ring_buffer.rs\<close>), \<open>Record_Store\<close> (\<open>command_record_store.rs\<close>), \<open>Process_Inventory\<close>
    (\<open>process_inventory_store.rs\<close>, \<open>agent_event_bus.rs\<close>): the stores; each interprets the contract. Shown:
    capacity after every operation, the least possible eviction, at most one record per id.
  \<^item> \<open>Output_Processor\<close> (\<open>output_processor.rs\<close>), \<open>Boundary_Detector\<close> (\<open>boundary_detector.rs\<close>), \<open>Session_Pool\<close>
    (\<open>session_processor_pool.rs\<close>): terminal bytes to command records. Shown: the record of a command
    whose markers and output arrive in chunks of their own, whatever the chunks; what goes wrong when
    they share a chunk or a chunk cuts a marker.
  \<^item> \<open>Session_Registry\<close> (\<open>session_registry.rs\<close>): the sessions and their snapshot file, with every failure
    of the file system; the round trip through the file.
  \<^item> \<open>Wire\<close>, \<open>Attach_Codec\<close>, \<open>Ipc\<close>, \<open>Framed_Service\<close> (\<open>aic-common/src/ipc.rs\<close>, \<open>attach.rs\<close>): messages and frames;
    the locales \<open>frame_codec\<close> and \<open>framed_service\<close>, with round trips of whole streams.
  \<^item> \<open>Attach_Server\<close>, \<open>Control_Server\<close>, \<open>Uds_Server\<close>, \<open>Metrics\<close>: the daemons' endpoints. The attach handler is a
    task of the relation \<open>sys_step\<close>; its ownership invariant holds in every reachable state and the
    relation is well-founded (a lexicographic measure on what each task still has to do). The two request
    servers are one \<open>framed_service\<close> each; the control server keeps the snapshot file current.
  \<^item> \<open>Byte_Channel\<close> (\<open>bounded_byte_channel.rs\<close>), \<open>Ownership_Gate\<close> (\<open>boundary_ownership_gate.rs\<close>), \<open>Central_Flag\<close>
    (\<open>central_store_flag.rs\<close>): the session side. The quota holds under every interleaving of producers. The
    reconnect loop is a \<open>partial_function\<close>, since it may run for ever: it is shown when it returns.

  \<^bold>\<open>Observing the host.\<close>
  \<^item> \<open>Jvm_Perfdata\<close>, \<open>Perfdata_Format\<close>, \<open>Jvm_Worker\<close> (\<open>jvm_perfdata.rs\<close>): the parser of HotSpot's performance
    data with all its slices, its round trip with a printer of such files, and the worker's wire format.
  \<^item> \<open>Disk_Io\<close>, \<open>Semver\<close>: deltas of counters, and version comparison.
  \<^item> \<open>Inventory_Cdc\<close> (\<open>otlp_exporter/process_inventory.rs\<close>): the stream of process changes with its keyframes;
    a receiver that applies it holds the process table of the last tick, and one that waits for a keyframe
    after a gap in the sequence numbers never holds a wrong one.
  \<^item> \<open>Top_Processes\<close> (\<open>process_io.rs\<close>, \<open>host_metrics.rs\<close>): the I/O of a process between two samples and the choice
    of the largest processes; the rest bucket keeps the totals.
  \<^item> \<open>Metrics_Proto\<close>, \<open>Metrics_Wire\<close> (\<open>encode.rs\<close>), \<open>Host_Exporter\<close> (\<open>serve\<close> of \<open>mod.rs\<close>): the metric messages, grouped by
    name, in which a collector reads exactly what was sampled; and the task that samples, drains and pushes: each
    tick reports one outcome whatever the other tasks count meanwhile, a tick inside the backoff window sends
    nothing, and its inventory requests carry the stream of the ticks with the inventory switched on.
  \<^item> \<open>Process_Changes\<close>, \<open>Signal_Tasks\<close> (\<open>changes.rs\<close>, \<open>connections.rs\<close>, \<open>events.rs\<close>, \<open>agent.rs\<close>): the tasks that
    share one shape, \<open>serve_task\<close> over a source. The locale \<open>redacting_source\<close> is what a source promises; all
    four are instances, so no task sends a text that was not redacted.
  \<^item> \<open>Export_Backoff\<close>, \<open>Spool\<close>, \<open>Spool_Safety\<close> (\<open>otlp_exporter/backoff.rs\<close>, \<open>spool.rs\<close>): retry spacing and the
    batches that wait on disk; exact totals, quotas, order, restart. An append is one step of the model; in the
    program another thread can run between its renaming and its entry in the totals.
  \<^item> \<open>Checkpoint\<close>, \<open>File_Tail\<close>, \<open>Tail_Safety\<close> (\<open>logs/checkpoint.rs\<close>, \<open>logs/file.rs\<close>): following a file; every
    complete line once and in order while a file grows or is rotated to one of at least 1024 bytes; the
    truncation defect, and the lines lost when the new file is shorter. One parser serves all ticks of a theorem, so
    the moment that the default parser stamps on a line is an argument there.
  \<^item> \<open>Redaction\<close>, \<open>Redaction_Safety\<close> (\<open>redaction.rs\<close>): the eleven patterns as regular expressions over
    characters, with a matcher given as the documented leftmost rule; no match survives, and agreement
    with the reference implementation.
  \<^item> \<open>Logs_Proto\<close>, \<open>Logs_Privacy\<close> (\<open>logs_proto.rs\<close>): every encoder of log messages; every exported text is
    redacted.
  \<^item> \<open>Log_Filter\<close>, \<open>Exporter_Health\<close>, \<open>Logs_Exporter\<close>, \<open>Exporter_Safety\<close>, \<open>Log_Pipeline\<close> (\<open>logs/filter.rs\<close>, \<open>health.rs\<close>,
    \<open>logs/exporter.rs\<close>): the exporter's loop as a function of the events it meets; the locale \<open>ledger\<close> is
    interpreted on its four counters, with the loss that none of them shows, and the pipeline from file to
    collector is composed.

  \<^bold>\<open>Acting on the host.\<close>
  \<^item> \<open>Risk_Rules\<close>, \<open>Risk_Guard\<close>, \<open>Risk_Safety\<close> (\<open>risk_guard.rs\<close>): the classifier of commands, its scanners (the
    locale \<open>quote_scanner\<close>), when exactly a command runs unasked, and what that lets through.
  \<^item> \<open>Sandbox\<close>, \<open>File_Tree\<close> (\<open>agent/sandbox.rs\<close>, \<open>gitignore.rs\<close>), \<open>Run_Command\<close>, \<open>Run_Safety\<close> (\<open>agent/run_command.rs\<close>): what the
    agent may read, write and run; what runs without a question. \<open>File_Tree\<close> has the tree of files and links in which a
    write target is shown to lie below the root, and the dangling link for which it does not.
  \<^item> \<open>Path_Guard\<close>, \<open>Remote_Exec\<close>, \<open>Fanout\<close> (\<open>agent/remote/\<close>, \<open>agent/hosts.rs\<close>, \<open>agent/whitelist.rs\<close>): commands on other
    hosts; quoting as a POSIX shell reads it, the whitelist, and the bounded fan-out as a step relation over any executor
    (locale \<open>remote_executor\<close>).
  \<^item> \<open>Audit_Log\<close> (\<open>audit.rs\<close>), \<open>Llm_Dispatch\<close> (\<open>llm_dispatcher.rs\<close>): the hash chain with rotation and every failure of an append,
    whose last hash pins the log up to a collision of the MAC; and requests to a model with the circuit breaker
    that refines its specification.
  \<^item> \<open>Agent_Tools\<close>, \<open>Chat_Messages\<close>, \<open>Chat_Turn\<close> (\<open>agent/tools.rs\<close>, \<open>agent/types.rs\<close>, \<open>agent/session.rs\<close>): a chat as a state
    machine, \<open>chat_step\<close>, whose inputs are what the session waits for. Every request is a conversation the
    providers accept (with the one exception of a cancelled \<open>/fix\<close>), every write and every command that is not
    rated Safe was confirmed, and every turn ends.
  \<^item> \<open>Streaming\<close> (\<open>streaming.rs\<close>): streamed answers; the result does not depend on how the network cuts them. The locale
    \<open>showing_reader\<close> is what the four readers share.

  \<^bold>\<open>Termination and bounds.\<close> Every loop is a total function: scanners shrink the text that is left
  (\<open>measure\<close> on its length), the splitting of a batch shrinks the pair of batches and lines, retries
  shrink the attempts left. The only fuel is the number of links that a lookup in \<open>File_Tree\<close> may follow, as the
  operating system bounds it (running out is an error there too); the theorems hold for every bound. The inputs of a
  connection or of a task are finite lists: what arrives until the moment that is looked at. Constants (frame sizes, quotas, limits on lines and
  patterns) are those of the sources.

  \<^bold>\<open>Not modelled.\<close> Binding and accepting sockets, spawning and reaping processes, the pseudo-terminal and
  signals, samplers that only read \<open>/proc\<close> or call the operating system, floating-point computations (the
  entropy of a text, the pacers and the rate limiter's bucket: their verdicts are arguments), rendering
  in the terminal and the browser, the prompts of the agent and most of its slash commands, the installer and
  the updater, and the evaluation harness. They have no state of their own that the modelled parts rely
  on, or consist of calls to code that is not in the repository.

  This theory holds what spans the components.
\<close>

section \<open>Records of the central path\<close>

lemma pool_feed_fresh:
  assumes "pool_feed strip clk p sid bs = (p', Val rs)"
  shows "list_all (\<lambda>r. cr_id r = [] \<and> cr_capture_mode r = Pty) rs"
proof (cases "hm_get p sid")
  case None
  then show ?thesis using assms by (simp add: pool_feed_def)
next
  case (Some sp)
  then show ?thesis
    using assms
    by (auto simp: pool_feed_def sp_feed_def Let_def list_all_append dest!: feed_each_fresh
        split: prod.splits rs.splits option.splits)
qed

definition push_all :: "u64 \<Rightarrow> str \<Rightarrow> record_store \<Rightarrow> command_record list \<Rightarrow> record_store" where
  "push_all rnd sid = foldl (\<lambda>s r. store_push rnd s sid r)"

lemma push_all_fresh:
  "list_all (\<lambda>r. cr_id r = []) rs \<Longrightarrow> events (push_all rnd sid s rs) = events s @ map (assign_id rnd) rs"
proof (induction rs arbitrary: s)
  case (Cons r rs)
  then show ?case
    using store_push_accepted [of sid s rnd r] by (simp add: push_all_def accepts_push_def)
qed (simp add: push_all_def)

text \<open>
  Further property (safety). Every record the supervisor reads out of a session's terminal bytes comes without
  an id, so the deduplication of the store by id never applies to it: all of them are stored and
  announced, whatever the store already holds, including the same commands replayed by the
  session under ids of its own.
\<close>

theorem central_records_not_deduplicated:
  assumes "pool_feed strip clk p sid bs = (p', Val rs)"
  shows "events (push_all rnd sid s rs) = events s @ map (assign_id rnd) rs \<and>
    list_all (\<lambda>r. cr_id r = [] \<and> cr_capture_mode r = Pty) rs"
  using pool_feed_fresh [OF assms] push_all_fresh [of rs rnd sid s] by (auto simp: list_all_iff)

definition busy_pool :: pool where
  "busy_pool = [(''s'', session_processor_new\<lparr>sp_detector :=
     (sp_detector session_processor_new)\<lparr>d_current_output := [''out'']\<rparr>\<rparr>)]"

theorem central_records_not_deduplicated_witness:
  "\<exists>p' r. pool_feed (drop_osc False) (\<lambda>_. (0, 3)) busy_pool ''s'' (completion_marker (int_text 2)) = (p', Val [r]) \<and>
     cr_output_lines r = [''out''] \<and> events (push_all 0 ''s'' store_new [r]) = [assign_id 0 r]"
proof -
  let ?sp = "session_processor_new\<lparr>sp_detector := (sp_detector session_processor_new)\<lparr>d_current_output := [''out'']\<rparr>\<rparr>"
  have feed: "sp_feed (drop_osc False) (\<lambda>_. (0, 3)) ?sp (completion_marker (int_text 2)) =
    (case finalize_record (snd ((0 :: nat, 3 :: int))) (sp_detector ?sp) 2 of
       (d', None) \<Rightarrow> (?sp\<lparr>sp_detector := d'\<rparr>, Val [])
     | (d', Some r) \<Rightarrow> (?sp\<lparr>sp_detector := d'\<rparr>, Val [r\<lparr>cr_capture_mode := Pty\<rparr>]))"
    using drop_osc_hook_markers(2) [of 2 "[]"]
    by (intro sp_feed_completion) (simp_all add: session_processor_new_def processor_new_def detector_new_def)
  then obtain p' r where r: "pool_feed (drop_osc False) (\<lambda>_. (0, 3)) busy_pool ''s'' (completion_marker (int_text 2)) =
      (p', Val [r])" "cr_output_lines r = [''out'']"
    by (simp add: pool_feed_def busy_pool_def finalize_record_def)
  with central_records_not_deduplicated [OF r(1), of 0 store_new] show ?thesis by simp
qed

end
